(* ===== verification/Complib_Prelude.thy ===== *)
theory Complib_Prelude
  imports Main "HOL-Library.Word" "HOL-Library.Monad_Syntax"
begin

text \<open>
  Shared vocabulary of the development: the status and state enumerations of
  \<^verbatim>\<open>cl_types.h\<close>, names for the machine-integer types, the collections of facts the
  component proofs draw on, and the generic lemmas on lists and counters that several
  components use.
\<close>

section \<open>Machine integers and enumerations\<close>

type_synonym u8 = "8 word"
type_synonym u16 = "16 word"
type_synonym u32 = "32 word"
type_synonym u64 = "64 word"
type_synonym size_t = "64 word"

text \<open>\<^verbatim>\<open>cl_state_t\<close> and the values of \<^verbatim>\<open>cl_status_t\<close> (\<^verbatim>\<open>cl_types.h\<close>).\<close>

datatype cl_state_t = CL_UNINITIALIZED | CL_INITIALIZED | CL_DESTROYING | CL_DESTROYED

datatype cl_status_t =
    CL_SUCCESS | CL_ERROR | CL_INVALID_STATE | CL_INVALID_OPERATION | CL_INVALID_SETTING
  | CL_INVALID_PARAMETER | CL_INSUFFICIENT_RESOURCES | CL_INSUFFICIENT_MEMORY
  | CL_INVALID_PERMISSION | CL_COMPLETED | CL_NOT_DONE | CL_PENDING | CL_TIMEOUT
  | CL_CANCELED | CL_REJECT | CL_OVERRUN | CL_NOT_FOUND | CL_UNAVAILABLE | CL_BUSY
  | CL_DISCONNECT | CL_DUPLICATE

text \<open>The error numbers of the C library that the sources use.\<close>

definition EPERM :: int where "EPERM = 1"
definition ENOENT :: int where "ENOENT = 2"
definition ENOMEM :: int where "ENOMEM = 12"
definition EINVAL :: int where "EINVAL = 22"

section \<open>Collections of facts\<close>

named_theorems heap_frame \<open>what an update of one address leaves alone\<close>
named_theorems rb_simps \<open>colour and black-height equations of red-black shapes\<close>

section \<open>Generic lemmas\<close>

lemma last_Cons_append: "last (a # xs @ [x]) = x"
  by simp

lemma hd_append_single: "hd (xs @ [b]) = (if xs = [] then b else hd xs)"
  by simp

lemma in_set_split:
  assumes "x \<in> set xs"
  obtains ys zs where "xs = ys @ x # zs"
  using assms by (meson split_list)

lemma remove1_middle: "x \<notin> set ys \<Longrightarrow> remove1 x (ys @ x # zs) = ys @ zs"
  by (induction ys) auto

lemma find_in_set: "find P xs = Some x \<Longrightarrow> x \<in> set xs \<and> P x"
  by (auto simp: find_Some_iff)

text \<open>The partial map given by a list of items with keys and values.\<close>

definition keyed :: "('a \<Rightarrow> 'k) \<Rightarrow> ('a \<Rightarrow> 'v) \<Rightarrow> 'a list \<Rightarrow> 'k \<rightharpoonup> 'v" where
  "keyed k f xs = map_of (map (\<lambda>x. (k x, f x)) xs)"

lemma keyed_Nil [simp]: "keyed k f [] = Map.empty"
  by (simp add: keyed_def)

lemma keyed_find: "keyed k f xs key = map_option f (find (\<lambda>x. key = k x) xs)"
  by (induction xs) (auto simp: keyed_def)

lemma keyed_cong:
  assumes "\<And>x. x \<in> set xs \<Longrightarrow> k' x = k x \<and> f' x = f x"
  shows "keyed k' f' xs = keyed k f xs"
proof -
  have "map (\<lambda>x. (k' x, f' x)) xs = map (\<lambda>x. (k x, f x)) xs" using assms by simp
  then show ?thesis unfolding keyed_def by (rule arg_cong)
qed

lemma keyed_insert:
  assumes "k x \<notin> k ` set ys"
  shows "keyed k f (ys @ x # zs) = (keyed k f (ys @ zs))(k x \<mapsto> f x)"
  using assms by (induction ys) (auto simp: keyed_def fun_upd_twist)

lemma keyed_dom: "dom (keyed k f xs) = k ` set xs"
  by (simp add: keyed_def dom_map_of_conv_image_fst image_image)

lemma keyed_remove1:
  assumes "distinct (map k xs)" and "x \<in> set xs"
  shows "keyed k f (remove1 x xs) = (keyed k f xs)(k x := None)"
proof -
  from assms(2) obtain ys zs where s: "xs = ys @ x # zs" "x \<notin> set ys" by (metis split_list_first)
  have "k x \<notin> k ` set (ys @ zs)" using assms(1) by (auto simp: s(1))
  then have "keyed k f (ys @ zs) (k x) = None" "keyed k f (ys @ x # zs) = (keyed k f (ys @ zs))(k x \<mapsto> f x)"
    using keyed_dom [of k f "ys @ zs"] keyed_insert [of k x ys f zs] by auto
  then show ?thesis using s by (simp add: remove1_append fun_upd_idem)
qed

text \<open>
  Counters of type \<^verbatim>\<open>size_t\<close> wrap; a \<^verbatim>\<open>uint32_t\<close> cast keeps the low 32 bits. Below the
  bound the casts are exact.
\<close>

lemma ucast_of_nat_64_32: "(ucast (of_nat n :: 64 word) :: 32 word) = of_nat n"
  by (rule bit_word_eqI) (simp add: bit_simps)

lemma of_nat32_eq_0: "n < 2 ^ 32 \<Longrightarrow> (of_nat n :: 32 word) = 0 \<longleftrightarrow> n = 0"
  using of_nat_neq_0 [of n, where 'a = 32] by (cases "n = 0") auto

lemma unat_of_nat32: "n < 2 ^ 32 \<Longrightarrow> unat (of_nat n :: 32 word) = n"
  by (simp add: unsigned_of_nat take_bit_nat_eq_self)

lemma unat_of_nat64: "n < 2 ^ 64 \<Longrightarrow> unat (of_nat n :: 64 word) = n"
  by (simp add: unsigned_of_nat take_bit_nat_eq_self)

end
