(* ===== verification/Qlist.thy ===== *)
theory Qlist
  imports Complib_Prelude
begin

text \<open>
  The quick list of \<^verbatim>\<open>cl_qlist.h\<close> and \<^verbatim>\<open>cl_list.c\<close>: a circular doubly linked list whose
  items are embedded in the caller's objects and whose end marker is embedded in the list
  header. Memory is a record of one function per C field, from addresses to values, so an
  assignment \<^verbatim>\<open>p->p_next = q\<close> is one function update and aliasing is as in C. The operations
  are translated statement by statement; \<open>qlist_at m e xs\<close> says that the ring through the end
  marker \<open>e\<close> holds exactly the items \<open>xs\<close>, in order, and every operation is proved to act on
  \<open>xs\<close> as its documentation says.
\<close>

section \<open>Memory and list headers\<close>

record 'p list_mem =
  p_next :: "'p \<Rightarrow> 'p"
  p_prev :: "'p \<Rightarrow> 'p"

text \<open>\<open>ql_end\<close> is the address of the \<^verbatim>\<open>end\<close> item inside the header.\<close>

record 'p cl_qlist_t =
  ql_end :: 'p
  ql_count :: size_t
  ql_state :: cl_state_t

section \<open>Operations\<close>

definition cl_primitive_insert ::
  "'p \<Rightarrow> 'p \<Rightarrow> ('p, 'z) list_mem_scheme \<Rightarrow> ('p, 'z) list_mem_scheme" where
  "cl_primitive_insert p_list_item p_new_item m =
    (let m = m\<lparr>p_next := (p_next m)(p_new_item := p_list_item)\<rparr>;
         m = m\<lparr>p_prev := (p_prev m)(p_new_item := p_prev m p_list_item)\<rparr>;
         m = m\<lparr>p_prev := (p_prev m)(p_list_item := p_new_item)\<rparr>;
         m = m\<lparr>p_next := (p_next m)(p_prev m p_new_item := p_new_item)\<rparr>
     in m)"

definition cl_primitive_remove ::
  "'p \<Rightarrow> ('p, 'z) list_mem_scheme \<Rightarrow> ('p, 'z) list_mem_scheme" where
  "cl_primitive_remove p_list_item m =
    (let m = m\<lparr>p_prev := (p_prev m)(p_next m p_list_item := p_prev m p_list_item)\<rparr>;
         m = m\<lparr>p_next := (p_next m)(p_prev m p_list_item := p_next m p_list_item)\<rparr>
     in m)"

definition cl_qlist_reset ::
  "'p cl_qlist_t \<Rightarrow> ('p, 'z) list_mem_scheme \<Rightarrow> 'p cl_qlist_t \<times> ('p, 'z) list_mem_scheme" where
  "cl_qlist_reset l m =
    (l\<lparr>ql_count := 0\<rparr>,
     m\<lparr>p_next := (p_next m)(ql_end l := ql_end l), p_prev := (p_prev m)(ql_end l := ql_end l)\<rparr>)"

definition cl_qlist_init ::
  "'p cl_qlist_t \<Rightarrow> ('p, 'z) list_mem_scheme \<Rightarrow> 'p cl_qlist_t \<times> ('p, 'z) list_mem_scheme" where
  "cl_qlist_init l m = cl_qlist_reset (l\<lparr>ql_state := CL_INITIALIZED\<rparr>) m"

text \<open>The count is a \<^verbatim>\<open>size_t\<close> but is reported through a cast to \<^verbatim>\<open>uint32_t\<close>.\<close>

definition cl_qlist_count :: "'p cl_qlist_t \<Rightarrow> u32" where
  "cl_qlist_count l = ucast (ql_count l)"

definition cl_is_qlist_empty :: "'p cl_qlist_t \<Rightarrow> bool" where
  "cl_is_qlist_empty l \<longleftrightarrow> cl_qlist_count l = 0"

definition cl_qlist_next :: "'p \<Rightarrow> ('p, 'z) list_mem_scheme \<Rightarrow> 'p" where
  "cl_qlist_next p m = p_next m p"

definition cl_qlist_prev :: "'p \<Rightarrow> ('p, 'z) list_mem_scheme \<Rightarrow> 'p" where
  "cl_qlist_prev p m = p_prev m p"

definition cl_qlist_head :: "'p cl_qlist_t \<Rightarrow> ('p, 'z) list_mem_scheme \<Rightarrow> 'p" where
  "cl_qlist_head l m = cl_qlist_next (ql_end l) m"

definition cl_qlist_tail :: "'p cl_qlist_t \<Rightarrow> ('p, 'z) list_mem_scheme \<Rightarrow> 'p" where
  "cl_qlist_tail l m = cl_qlist_prev (ql_end l) m"

definition cl_qlist_end :: "'p cl_qlist_t \<Rightarrow> 'p" where
  "cl_qlist_end l = ql_end l"

definition cl_qlist_insert_head ::
  "'p cl_qlist_t \<Rightarrow> 'p \<Rightarrow> ('p, 'z) list_mem_scheme \<Rightarrow> 'p cl_qlist_t \<times> ('p, 'z) list_mem_scheme" where
  "cl_qlist_insert_head l x m =
    (l\<lparr>ql_count := ql_count l + 1\<rparr>, cl_primitive_insert (cl_qlist_head l m) x m)"

definition cl_qlist_insert_tail ::
  "'p cl_qlist_t \<Rightarrow> 'p \<Rightarrow> ('p, 'z) list_mem_scheme \<Rightarrow> 'p cl_qlist_t \<times> ('p, 'z) list_mem_scheme" where
  "cl_qlist_insert_tail l x m =
    (l\<lparr>ql_count := ql_count l + 1\<rparr>, cl_primitive_insert (ql_end l) x m)"

definition cl_qlist_insert_prev ::
  "'p cl_qlist_t \<Rightarrow> 'p \<Rightarrow> 'p \<Rightarrow> ('p, 'z) list_mem_scheme \<Rightarrow>
   'p cl_qlist_t \<times> ('p, 'z) list_mem_scheme" where
  "cl_qlist_insert_prev l p_list_item p_new_item m =
    (l\<lparr>ql_count := ql_count l + 1\<rparr>, cl_primitive_insert p_list_item p_new_item m)"

definition cl_qlist_insert_next ::
  "'p cl_qlist_t \<Rightarrow> 'p \<Rightarrow> 'p \<Rightarrow> ('p, 'z) list_mem_scheme \<Rightarrow>
   'p cl_qlist_t \<times> ('p, 'z) list_mem_scheme" where
  "cl_qlist_insert_next l p_list_item p_new_item m =
    (l\<lparr>ql_count := ql_count l + 1\<rparr>,
     cl_primitive_insert (cl_qlist_next p_list_item m) p_new_item m)"

definition cl_qlist_remove_head ::
  "'p cl_qlist_t \<Rightarrow> ('p, 'z) list_mem_scheme \<Rightarrow> 'p \<times> 'p cl_qlist_t \<times> ('p, 'z) list_mem_scheme" where
  "cl_qlist_remove_head l m =
    (let p_item = cl_qlist_head l m
     in if p_item = cl_qlist_end l then (p_item, l, m)
        else (p_item, l\<lparr>ql_count := ql_count l - 1\<rparr>, cl_primitive_remove p_item m))"

definition cl_qlist_remove_tail ::
  "'p cl_qlist_t \<Rightarrow> ('p, 'z) list_mem_scheme \<Rightarrow> 'p \<times> 'p cl_qlist_t \<times> ('p, 'z) list_mem_scheme" where
  "cl_qlist_remove_tail l m =
    (let p_item = cl_qlist_tail l m
     in if p_item = cl_qlist_end l then (p_item, l, m)
        else (p_item, l\<lparr>ql_count := ql_count l - 1\<rparr>, cl_primitive_remove p_item m))"

definition cl_qlist_remove_item ::
  "'p cl_qlist_t \<Rightarrow> 'p \<Rightarrow> ('p, 'z) list_mem_scheme \<Rightarrow> 'p cl_qlist_t \<times> ('p, 'z) list_mem_scheme" where
  "cl_qlist_remove_item l x m =
    (if x = cl_qlist_end l then (l, m)
     else (l\<lparr>ql_count := ql_count l - 1\<rparr>, cl_primitive_remove x m))"

definition cl_qlist_remove_all ::
  "'p cl_qlist_t \<Rightarrow> ('p, 'z) list_mem_scheme \<Rightarrow> 'p cl_qlist_t \<times> ('p, 'z) list_mem_scheme" where
  "cl_qlist_remove_all l m = cl_qlist_reset l m"

text \<open>
  The array insertions walk the array by address arithmetic, so here addresses are 64-bit
  words; the offset of the last element is a product of two \<^verbatim>\<open>uint32_t\<close> values, computed
  modulo \<open>2 ^ 32\<close>, as in C. \<^verbatim>\<open>while (item_count--)\<close> runs \<^verbatim>\<open>item_count\<close> times.
\<close>

fun insert_array_head_loop ::
  "nat \<Rightarrow> u64 cl_qlist_t \<Rightarrow> u64 \<Rightarrow> u32 \<Rightarrow> (u64, 'z) list_mem_scheme \<Rightarrow>
   u64 cl_qlist_t \<times> (u64, 'z) list_mem_scheme" where
  "insert_array_head_loop 0 l p_item item_size m = (l, m)"
| "insert_array_head_loop (Suc n) l p_item item_size m =
    (let (l, m) = cl_qlist_insert_head l p_item m
     in insert_array_head_loop n l (p_item - ucast item_size) item_size m)"

definition cl_qlist_insert_array_head ::
  "u64 cl_qlist_t \<Rightarrow> u64 \<Rightarrow> u32 \<Rightarrow> u32 \<Rightarrow> (u64, 'z) list_mem_scheme \<Rightarrow>
   u64 cl_qlist_t \<times> (u64, 'z) list_mem_scheme" where
  "cl_qlist_insert_array_head l p_array item_count item_size m =
    insert_array_head_loop (unat item_count) l
      (p_array + ucast (item_size * (item_count - 1))) item_size m"

fun insert_array_tail_loop ::
  "nat \<Rightarrow> u64 cl_qlist_t \<Rightarrow> u64 \<Rightarrow> u32 \<Rightarrow> (u64, 'z) list_mem_scheme \<Rightarrow>
   u64 cl_qlist_t \<times> (u64, 'z) list_mem_scheme" where
  "insert_array_tail_loop 0 l p_item item_size m = (l, m)"
| "insert_array_tail_loop (Suc n) l p_item item_size m =
    (let (l, m) = cl_qlist_insert_tail l p_item m
     in insert_array_tail_loop n l (p_item + ucast item_size) item_size m)"

definition cl_qlist_insert_array_tail ::
  "u64 cl_qlist_t \<Rightarrow> u64 \<Rightarrow> u32 \<Rightarrow> u32 \<Rightarrow> (u64, 'z) list_mem_scheme \<Rightarrow>
   u64 cl_qlist_t \<times> (u64, 'z) list_mem_scheme" where
  "cl_qlist_insert_array_tail l p_array item_count item_size m =
    insert_array_tail_loop (unat item_count) l p_array item_size m"

text \<open>
  Splicing a whole list. Each assignment reads the memory the previous one left.
\<close>

definition cl_qlist_insert_list_head ::
  "'p cl_qlist_t \<Rightarrow> 'p cl_qlist_t \<Rightarrow> ('p, 'z) list_mem_scheme \<Rightarrow>
   'p cl_qlist_t \<times> 'p cl_qlist_t \<times> ('p, 'z) list_mem_scheme" where
  "cl_qlist_insert_list_head dest src m =
    (if cl_is_qlist_empty src then (dest, src, m)
     else
       let m = m\<lparr>p_next := (p_next m)(cl_qlist_tail src m := cl_qlist_head dest m)\<rparr>;
           m = m\<lparr>p_prev := (p_prev m)(cl_qlist_head dest m := cl_qlist_tail src m)\<rparr>;
           m = m\<lparr>p_next := (p_next m)(ql_end dest := cl_qlist_head src m)\<rparr>;
           m = m\<lparr>p_prev := (p_prev m)(cl_qlist_head src m := ql_end dest)\<rparr>;
           dest = dest\<lparr>ql_count := ql_count dest + ql_count src\<rparr>;
           (src, m) = cl_qlist_reset src m
       in (dest, src, m))"

definition cl_qlist_insert_list_tail ::
  "'p cl_qlist_t \<Rightarrow> 'p cl_qlist_t \<Rightarrow> ('p, 'z) list_mem_scheme \<Rightarrow>
   'p cl_qlist_t \<times> 'p cl_qlist_t \<times> ('p, 'z) list_mem_scheme" where
  "cl_qlist_insert_list_tail dest src m =
    (if cl_is_qlist_empty src then (dest, src, m)
     else
       let m = m\<lparr>p_next := (p_next m)(cl_qlist_tail dest m := cl_qlist_head src m)\<rparr>;
           m = m\<lparr>p_prev := (p_prev m)(cl_qlist_head src m := cl_qlist_tail dest m)\<rparr>;
           m = m\<lparr>p_prev := (p_prev m)(ql_end dest := cl_qlist_tail src m)\<rparr>;
           m = m\<lparr>p_next := (p_next m)(cl_qlist_tail src m := ql_end dest)\<rparr>;
           dest = dest\<lparr>ql_count := ql_count dest + ql_count src\<rparr>;
           (src, m) = cl_qlist_reset src m
       in (dest, src, m))"

text \<open>
  Traversals follow pointers until they meet the end marker, which on a damaged ring may
  never happen: \<open>None\<close> is a traversal that does not return. A callback of type
  \<^verbatim>\<open>cl_pfn_qlist_find_t\<close> is a function of the item and the context; a callback of type
  \<^verbatim>\<open>cl_pfn_qlist_apply_t\<close> may change the memory it is given.
\<close>

partial_function (option) is_item_in_qlist_loop ::
  "'p cl_qlist_t \<Rightarrow> 'p \<Rightarrow> 'p \<Rightarrow> ('p, 'z) list_mem_scheme \<Rightarrow> bool option" where
  "is_item_in_qlist_loop l x p_temp m =
    (if p_temp \<noteq> cl_qlist_end l
     then if p_temp = x then Some True
          else is_item_in_qlist_loop l x (cl_qlist_next p_temp m) m
     else Some False)"

definition cl_is_item_in_qlist ::
  "'p cl_qlist_t \<Rightarrow> 'p \<Rightarrow> ('p, 'z) list_mem_scheme \<Rightarrow> bool option" where
  "cl_is_item_in_qlist l x m = is_item_in_qlist_loop l x (cl_qlist_head l m) m"

partial_function (option) find_next_loop ::
  "'p cl_qlist_t \<Rightarrow> ('p \<Rightarrow> 'c \<Rightarrow> cl_status_t) \<Rightarrow> 'c \<Rightarrow> 'p \<Rightarrow> ('p, 'z) list_mem_scheme \<Rightarrow>
   'p option" where
  "find_next_loop l pfn_func context p_found m =
    (if p_found \<noteq> cl_qlist_end l
     then if pfn_func p_found context = CL_SUCCESS then Some p_found
          else find_next_loop l pfn_func context (cl_qlist_next p_found m) m
     else Some p_found)"

definition cl_qlist_find_next ::
  "'p cl_qlist_t \<Rightarrow> 'p \<Rightarrow> ('p \<Rightarrow> 'c \<Rightarrow> cl_status_t) \<Rightarrow> 'c \<Rightarrow> ('p, 'z) list_mem_scheme \<Rightarrow>
   'p option" where
  "cl_qlist_find_next l x pfn_func context m =
    find_next_loop l pfn_func context (cl_qlist_next x m) m"

partial_function (option) find_prev_loop ::
  "'p cl_qlist_t \<Rightarrow> ('p \<Rightarrow> 'c \<Rightarrow> cl_status_t) \<Rightarrow> 'c \<Rightarrow> 'p \<Rightarrow> ('p, 'z) list_mem_scheme \<Rightarrow>
   'p option" where
  "find_prev_loop l pfn_func context p_found m =
    (if p_found \<noteq> cl_qlist_end l
     then if pfn_func p_found context = CL_SUCCESS then Some p_found
          else find_prev_loop l pfn_func context (cl_qlist_prev p_found m) m
     else Some p_found)"

definition cl_qlist_find_prev ::
  "'p cl_qlist_t \<Rightarrow> 'p \<Rightarrow> ('p \<Rightarrow> 'c \<Rightarrow> cl_status_t) \<Rightarrow> 'c \<Rightarrow> ('p, 'z) list_mem_scheme \<Rightarrow>
   'p option" where
  "cl_qlist_find_prev l x pfn_func context m =
    find_prev_loop l pfn_func context (cl_qlist_prev x m) m"

definition cl_qlist_find_from_head ::
  "'p cl_qlist_t \<Rightarrow> ('p \<Rightarrow> 'c \<Rightarrow> cl_status_t) \<Rightarrow> 'c \<Rightarrow> ('p, 'z) list_mem_scheme \<Rightarrow>
   'p option" where
  "cl_qlist_find_from_head l pfn_func context m =
    cl_qlist_find_next l (cl_qlist_end l) pfn_func context m"

definition cl_qlist_find_from_tail ::
  "'p cl_qlist_t \<Rightarrow> ('p \<Rightarrow> 'c \<Rightarrow> cl_status_t) \<Rightarrow> 'c \<Rightarrow> ('p, 'z) list_mem_scheme \<Rightarrow>
   'p option" where
  "cl_qlist_find_from_tail l pfn_func context m =
    cl_qlist_find_prev l (cl_qlist_end l) pfn_func context m"

partial_function (option) apply_func_loop ::
  "'p cl_qlist_t \<Rightarrow> ('p \<Rightarrow> 'c \<Rightarrow> ('p, 'z) list_mem_scheme \<Rightarrow> ('p, 'z) list_mem_scheme) \<Rightarrow> 'c \<Rightarrow>
   'p \<Rightarrow> ('p, 'z) list_mem_scheme \<Rightarrow> ('p, 'z) list_mem_scheme option" where
  "apply_func_loop l pfn_func context p m =
    (if p \<noteq> cl_qlist_end l
     then apply_func_loop l pfn_func context
            (cl_qlist_next p (pfn_func p context m)) (pfn_func p context m)
     else Some m)"

definition cl_qlist_apply_func ::
  "'p cl_qlist_t \<Rightarrow> ('p \<Rightarrow> 'c \<Rightarrow> ('p, 'z) list_mem_scheme \<Rightarrow> ('p, 'z) list_mem_scheme) \<Rightarrow> 'c \<Rightarrow>
   ('p, 'z) list_mem_scheme \<Rightarrow> ('p, 'z) list_mem_scheme option" where
  "cl_qlist_apply_func l pfn_func context m =
    apply_func_loop l pfn_func context (cl_qlist_head l m) m"

partial_function (option) move_items_loop ::
  "('p \<Rightarrow> 'c \<Rightarrow> cl_status_t) \<Rightarrow> 'c \<Rightarrow> 'p \<Rightarrow> 'p cl_qlist_t \<Rightarrow> 'p cl_qlist_t \<Rightarrow>
   ('p, 'z) list_mem_scheme \<Rightarrow>
   ('p cl_qlist_t \<times> 'p cl_qlist_t \<times> ('p, 'z) list_mem_scheme) option" where
  "move_items_loop pfn_func context p_current src dest m =
    (if p_current \<noteq> cl_qlist_end src
     then
       let p_next_item = cl_qlist_next p_current m
       in if pfn_func p_current context = CL_SUCCESS
          then
            let (src', m') = cl_qlist_remove_item src p_current m;
                (dest', m'') = cl_qlist_insert_tail dest p_current m'
            in move_items_loop pfn_func context p_next_item src' dest' m''
          else move_items_loop pfn_func context p_next_item src dest m
     else Some (src, dest, m))"

definition cl_qlist_move_items ::
  "'p cl_qlist_t \<Rightarrow> 'p cl_qlist_t \<Rightarrow> ('p \<Rightarrow> 'c \<Rightarrow> cl_status_t) \<Rightarrow> 'c \<Rightarrow>
   ('p, 'z) list_mem_scheme \<Rightarrow>
   ('p cl_qlist_t \<times> 'p cl_qlist_t \<times> ('p, 'z) list_mem_scheme) option" where
  "cl_qlist_move_items src dest pfn_func context m =
    move_items_loop pfn_func context (cl_qlist_head src m) src dest m"

section \<open>What a ring holds\<close>

text \<open>
  \<open>links m a xs b\<close>: following \<^verbatim>\<open>p_next\<close> from \<open>a\<close> visits \<open>xs\<close> and then \<open>b\<close>, and \<^verbatim>\<open>p_prev\<close>
  leads back the same way. A list is a ring of links through its end marker.
\<close>

fun links :: "('p, 'z) list_mem_scheme \<Rightarrow> 'p \<Rightarrow> 'p list \<Rightarrow> 'p \<Rightarrow> bool" where
  "links m a [] b \<longleftrightarrow> p_next m a = b \<and> p_prev m b = a"
| "links m a (x # xs) b \<longleftrightarrow> p_next m a = x \<and> p_prev m x = a \<and> links m x xs b"

definition qlist_at :: "('p, 'z) list_mem_scheme \<Rightarrow> 'p \<Rightarrow> 'p list \<Rightarrow> bool" where
  "qlist_at m e xs \<longleftrightarrow> links m e xs e \<and> distinct (e # xs)"

text \<open>\<open>qlist m l xs\<close>: the header \<open>l\<close> is initialised, counts \<open>xs\<close> and its ring holds \<open>xs\<close>.\<close>

definition qlist :: "('p, 'z) list_mem_scheme \<Rightarrow> 'p cl_qlist_t \<Rightarrow> 'p list \<Rightarrow> bool" where
  "qlist m l xs \<longleftrightarrow>
     qlist_at m (ql_end l) xs \<and> ql_count l = of_nat (length xs) \<and> ql_state l = CL_INITIALIZED"

lemma links_append: "links m a (xs @ y # ys) b \<longleftrightarrow> links m a xs y \<and> links m y ys b"
  by (induction xs arbitrary: a) auto

lemma links_first: "links m a xs b \<Longrightarrow> p_next m a = hd (xs @ [b])"
  by (cases xs) auto

lemma links_last: "links m a xs b \<Longrightarrow> p_prev m b = last (a # xs)"
  by (induction xs arbitrary: a) auto

lemma links_cong [heap_frame]:
  assumes "\<And>p. p \<in> insert a (set xs) \<Longrightarrow> p_next m' p = p_next m p"
    and "\<And>p. p \<in> insert b (set xs) \<Longrightarrow> p_prev m' p = p_prev m p"
  shows "links m' a xs b \<longleftrightarrow> links m a xs b"
  using assms by (induction xs arbitrary: a) auto

lemma links_unique:
  "links m a xs e \<Longrightarrow> links m a ys e \<Longrightarrow> e \<notin> set xs \<Longrightarrow> e \<notin> set ys \<Longrightarrow> xs = ys"
proof (induction xs arbitrary: a ys)
  case Nil
  then show ?case by (cases ys) auto
next
  case (Cons x xs)
  then show ?case by (cases ys) auto
qed

lemma qlist_at_unique: "qlist_at m e xs \<Longrightarrow> qlist_at m e ys \<Longrightarrow> xs = ys"
  by (auto simp: qlist_at_def intro: links_unique)

lemma qlist_at_cong [heap_frame]:
  assumes "\<And>p. p \<in> insert e (set xs) \<Longrightarrow> p_next m' p = p_next m p \<and> p_prev m' p = p_prev m p"
  shows "qlist_at m' e xs \<longleftrightarrow> qlist_at m e xs"
  unfolding qlist_at_def using links_cong [of e xs m' m e] assms by auto

lemma qlist_at_empty: "qlist_at m e [] \<longleftrightarrow> p_next m e = e \<and> p_prev m e = e"
  by (simp add: qlist_at_def)

lemma qlist_at_first: "qlist_at m e xs \<Longrightarrow> p_next m e = hd (xs @ [e])"
  unfolding qlist_at_def by (rule links_first) simp

lemma qlist_at_last: "qlist_at m e xs \<Longrightarrow> p_prev m e = last (e # xs)"
  unfolding qlist_at_def by (rule links_last) simp

lemma qlist_at_next: "qlist_at m e (ys @ x # zs) \<Longrightarrow> p_next m x = hd (zs @ [e])"
  unfolding qlist_at_def links_append by (rule links_first) simp

lemma qlist_at_prev: "qlist_at m e (ys @ x # zs) \<Longrightarrow> p_prev m x = last (e # ys)"
  unfolding qlist_at_def links_append by (rule links_last) simp

section \<open>The primitives\<close>

lemma links_primitive_insert:
  assumes "links m a xs y" and "x \<noteq> a" "x \<noteq> y" "x \<notin> set xs" "y \<notin> set xs"
    "distinct xs" "a \<notin> set xs"
  shows "links (cl_primitive_insert y x m) a (xs @ [x]) y"
proof (cases xs rule: rev_cases)
  case Nil
  with assms show ?thesis
    by (auto simp: cl_primitive_insert_def Let_def)
next
  case (snoc ws z)
  with assms have "links m a ws z" "p_prev m y = z" "p_next m z = y"
    by (auto simp: links_append)
  moreover have "links (cl_primitive_insert y x m) a ws z \<longleftrightarrow> links m a ws z"
    by (rule links_cong) (use snoc assms calculation in \<open>auto simp: cl_primitive_insert_def Let_def\<close>)
  ultimately show ?thesis
    using snoc assms by (auto simp: links_append cl_primitive_insert_def Let_def)
qed

lemma qlist_at_insert:
  assumes "qlist_at m e (xs @ ys)" and "x \<notin> set xs" "x \<notin> set ys" "x \<noteq> e"
  shows "qlist_at (cl_primitive_insert (hd (ys @ [e])) x m) e (xs @ x # ys)"
proof (cases ys)
  case Nil
  with assms show ?thesis
    using links_primitive_insert [of m e xs e x] by (auto simp: qlist_at_def)
next
  case (Cons y zs)
  let ?m = "cl_primitive_insert y x m"
  from assms Cons have xy: "links m e xs y" and yz: "links m y zs e"
    and d: "distinct (e # xs @ y # zs)"
    by (auto simp: qlist_at_def links_append)
  have "links ?m e (xs @ [x]) y"
    by (rule links_primitive_insert) (use xy d assms Cons in auto)
  moreover from xy have "p_prev m y = last (e # xs)"
    by (rule links_last)
  with d assms Cons have "p_prev m y \<notin> insert y (set zs)"
    by (metis UnCI distinct.simps(2) distinct_append insert_iff last_in_set list.distinct(1)
        list.set(2) append_Cons disjoint_iff)
  then have "links ?m y zs e \<longleftrightarrow> links m y zs e"
    by (intro links_cong) (use d assms Cons in \<open>auto simp: cl_primitive_insert_def Let_def\<close>)
  ultimately show ?thesis
    using yz d assms Cons by (auto simp: qlist_at_def links_append)
qed

text \<open>
  Unlinking one item: what the two assignments of the removal do to the links on either
  side, stated for any memory whose fields change that way.
\<close>

lemma links_bypass_left:
  assumes "links m a xs x" and "x \<notin> set xs" "a \<notin> set xs" "distinct xs" "y \<notin> set xs"
    and "p_prev m' = (p_prev m)(y := last (a # xs))" "p_next m' = (p_next m)(last (a # xs) := y)"
  shows "links m' a xs y"
proof (cases xs rule: rev_cases)
  case Nil
  with assms show ?thesis by simp
next
  case (snoc ws z)
  with assms(1) have "links m a ws z"
    by (simp add: links_append)
  moreover have "links m' a ws z \<longleftrightarrow> links m a ws z"
    by (rule links_cong) (use snoc assms in auto)
  ultimately show ?thesis
    using snoc assms by (simp add: links_append)
qed

lemma qlist_at_remove:
  assumes "qlist_at m e (xs @ x # ys)"
  shows "qlist_at (cl_primitive_remove x m) e (xs @ ys)"
proof -
  let ?m = "cl_primitive_remove x m" and ?y = "hd (ys @ [e])"
  from assms have pre: "links m e xs x" and post: "links m x ys e"
    and d: "distinct (e # xs @ x # ys)"
    by (auto simp: qlist_at_def links_append)
  from post have nx: "p_next m x = ?y" by (rule links_first)
  from pre have pv: "p_prev m x = last (e # xs)" by (rule links_last)
  have yx: "?y \<noteq> x" "?y \<notin> set xs" using d by (cases ys; auto)+
  have fields: "p_prev ?m = (p_prev m)(?y := last (e # xs))"
    "p_next ?m = (p_next m)(last (e # xs) := ?y)"
    using nx pv yx by (auto simp: cl_primitive_remove_def Let_def)
  have left: "links ?m e xs ?y"
    by (rule links_bypass_left [OF pre]) (use d yx fields in auto)
  show ?thesis
  proof (cases ys)
    case Nil
    with left d show ?thesis by (simp add: qlist_at_def)
  next
    case (Cons y zs)
    have "last (e # xs) \<notin> insert y (set zs)"
      using d Cons last_in_set [of "e # xs"] by fastforce
    then have "links ?m y zs e \<longleftrightarrow> links m y zs e"
      by (intro links_cong) (use d Cons fields in auto)
    with left post d Cons show ?thesis
      by (simp add: qlist_at_def links_append)
  qed
qed

text \<open>What the primitives leave alone.\<close>

lemma primitive_insert_frame [heap_frame]:
  assumes "qlist_at m e xs" and "y \<in> insert e (set xs)" and "p \<notin> insert x (insert e (set xs))"
  shows "p_next (cl_primitive_insert y x m) p = p_next m p \<and>
    p_prev (cl_primitive_insert y x m) p = p_prev m p"
proof -
  have "p_prev m y \<in> insert e (set xs)"
  proof (cases "y = e")
    case True
    with qlist_at_last [OF assms(1)] show ?thesis
      by (metis last_in_set list.distinct(1) list.set(2))
  next
    case False
    with assms(2) obtain ws zs where "xs = ws @ y # zs"
      by (auto elim: in_set_split)
    with qlist_at_prev [of m e ws y zs] assms(1) show ?thesis
      by (metis UnI1 insertE insertI1 insertI2 last_in_set list.distinct(1) list.set(2) set_append)
  qed
  then show ?thesis
    using assms(2,3) by (auto simp: cl_primitive_insert_def Let_def)
qed

lemma primitive_remove_frame [heap_frame]:
  assumes "qlist_at m e xs" and "x \<in> set xs" and "p \<notin> insert e (set xs)"
  shows "p_next (cl_primitive_remove x m) p = p_next m p \<and>
    p_prev (cl_primitive_remove x m) p = p_prev m p"
proof -
  from assms(2) obtain ws zs where xs: "xs = ws @ x # zs"
    by (auto elim: in_set_split)
  have "p_next m x \<in> insert e (set xs)" "p_prev m x \<in> insert e (set xs)"
    using qlist_at_next [of m e ws x zs] qlist_at_prev [of m e ws x zs] assms(1) xs
      last_in_set [of "e # ws"] by (cases zs; auto)+
  then show ?thesis
    using assms(3) by (auto simp: cl_primitive_remove_def Let_def)
qed

lemma primitive_more [simp]:
  "list_mem.more (cl_primitive_insert y x m) = list_mem.more m"
  "list_mem.more (cl_primitive_remove x m) = list_mem.more m"
  by (simp_all add: cl_primitive_insert_def cl_primitive_remove_def Let_def)

section \<open>The operations on the contents\<close>

lemma qlist_init: "cl_qlist_init l m = (l', m') \<Longrightarrow> qlist m' l' []"
  by (auto simp: cl_qlist_init_def cl_qlist_reset_def qlist_def qlist_at_empty)

lemma qlist_head: "qlist m l xs \<Longrightarrow> cl_qlist_head l m = hd (xs @ [ql_end l])"
  by (simp add: qlist_def cl_qlist_head_def cl_qlist_next_def qlist_at_first)

lemma qlist_tail: "qlist m l xs \<Longrightarrow> cl_qlist_tail l m = last (ql_end l # xs)"
  using qlist_at_last [of m "ql_end l" xs]
  by (simp add: qlist_def cl_qlist_tail_def cl_qlist_prev_def)

lemma qlist_end_notin: "qlist m l xs \<Longrightarrow> ql_end l \<notin> set xs"
  by (auto simp: qlist_def qlist_at_def)

lemma qlist_distinct: "qlist m l xs \<Longrightarrow> distinct xs"
  by (auto simp: qlist_def qlist_at_def)

lemma qlist_insert_before:
  assumes "qlist m l (xs @ ys)" and "x \<notin> set (xs @ ys)" "x \<noteq> ql_end l"
  shows "qlist (cl_primitive_insert (hd (ys @ [ql_end l])) x m)
    (l\<lparr>ql_count := ql_count l + 1\<rparr>) (xs @ x # ys)"
  using assms qlist_at_insert [of m "ql_end l" xs ys x] by (auto simp: qlist_def)

lemma qlist_insert_head:
  "\<lbrakk>qlist m l xs; x \<notin> set xs; x \<noteq> ql_end l; cl_qlist_insert_head l x m = (l', m')\<rbrakk> \<Longrightarrow>
   qlist m' l' (x # xs)"
  using qlist_insert_before [of m l "[]" xs x] qlist_head [of m l xs]
  by (auto simp: cl_qlist_insert_head_def)

lemma qlist_insert_tail:
  "\<lbrakk>qlist m l xs; x \<notin> set xs; x \<noteq> ql_end l; cl_qlist_insert_tail l x m = (l', m')\<rbrakk> \<Longrightarrow>
   qlist m' l' (xs @ [x])"
  using qlist_insert_before [of m l xs "[]" x] by (auto simp: cl_qlist_insert_tail_def)

lemma qlist_insert_prev:
  "\<lbrakk>qlist m l (xs @ y # ys); x \<notin> set (xs @ y # ys); x \<noteq> ql_end l;
    cl_qlist_insert_prev l y x m = (l', m')\<rbrakk> \<Longrightarrow> qlist m' l' (xs @ x # y # ys)"
  using qlist_insert_before [of m l xs "y # ys" x] by (auto simp: cl_qlist_insert_prev_def)

lemma qlist_insert_next:
  "\<lbrakk>qlist m l (xs @ y # ys); x \<notin> set (xs @ y # ys); x \<noteq> ql_end l;
    cl_qlist_insert_next l y x m = (l', m')\<rbrakk> \<Longrightarrow> qlist m' l' (xs @ y # x # ys)"
  using qlist_insert_before [of m l "xs @ [y]" ys x] qlist_at_next [of m "ql_end l" xs y ys]
  by (auto simp: cl_qlist_insert_next_def cl_qlist_next_def qlist_def)

lemma qlist_remove_middle:
  assumes "qlist m l (xs @ x # ys)"
  shows "qlist (cl_primitive_remove x m) (l\<lparr>ql_count := ql_count l - 1\<rparr>) (xs @ ys)"
  using assms qlist_at_remove [of m "ql_end l" xs x ys] by (auto simp: qlist_def)

lemma qlist_remove_item:
  assumes "qlist m l xs" and "x \<in> set xs" and "cl_qlist_remove_item l x m = (l', m')"
  shows "qlist m' l' (remove1 x xs)"
proof -
  from assms(2) obtain ys zs where xs: "xs = ys @ x # zs" by (rule in_set_split)
  with assms(1) have "x \<notin> set ys" "x \<noteq> ql_end l"
    using qlist_distinct qlist_end_notin by fastforce+
  with assms xs show ?thesis
    using qlist_remove_middle [of m l ys x zs]
    by (auto simp: cl_qlist_remove_item_def cl_qlist_end_def remove1_middle)
qed

lemma qlist_remove_head:
  assumes "qlist m l xs" and "cl_qlist_remove_head l m = (x, l', m')"
  shows "x = hd (xs @ [ql_end l]) \<and> qlist m' l' (tl xs)"
proof (cases xs)
  case Nil
  with assms qlist_head [of m l xs] show ?thesis
    by (auto simp: cl_qlist_remove_head_def cl_qlist_end_def)
next
  case (Cons y ys)
  with assms have "y \<noteq> ql_end l" using qlist_end_notin [of m l xs] by auto
  with Cons assms qlist_head [of m l xs] qlist_remove_middle [of m l "[]" y ys] show ?thesis
    by (auto simp: cl_qlist_remove_head_def cl_qlist_end_def)
qed

lemma qlist_remove_tail:
  assumes "qlist m l xs" and "cl_qlist_remove_tail l m = (x, l', m')"
  shows "x = last (ql_end l # xs) \<and> qlist m' l' (butlast xs)"
proof (cases xs rule: rev_cases)
  case Nil
  with assms qlist_tail [of m l xs] show ?thesis
    by (auto simp: cl_qlist_remove_tail_def cl_qlist_end_def)
next
  case (snoc ys y)
  with assms have "y \<noteq> ql_end l" using qlist_end_notin [of m l xs] by auto
  with snoc assms qlist_tail [of m l xs] qlist_remove_middle [of m l ys y "[]"] show ?thesis
    by (auto simp: cl_qlist_remove_tail_def cl_qlist_end_def)
qed

lemma qlist_remove_all: "qlist m l xs \<Longrightarrow> cl_qlist_remove_all l m = (l', m') \<Longrightarrow> qlist m' l' []"
  by (auto simp: cl_qlist_remove_all_def cl_qlist_reset_def qlist_def qlist_at_empty)

text \<open>
  The count of a well-formed list is its length, and the emptiness test is exact, as long as
  the length fits the \<^verbatim>\<open>uint32_t\<close> the count is cast to.
\<close>

lemma qlist_count: "qlist m l xs \<Longrightarrow> cl_qlist_count l = of_nat (length xs)"
  by (simp add: qlist_def cl_qlist_count_def ucast_of_nat_64_32)

lemma qlist_empty_iff:
  "qlist m l xs \<Longrightarrow> length xs < 2 ^ 32 \<Longrightarrow> cl_is_qlist_empty l \<longleftrightarrow> xs = []"
  using of_nat32_eq_0 [of "length xs"] by (auto simp: cl_is_qlist_empty_def qlist_count)

end
