(* ===== verification/Qlist_Ops.thy ===== *)
theory Qlist_Ops
  imports Qlist
begin

text \<open>
  The traversing and splicing operations of the quick list: searches, membership, applying a
  callback, moving matching items to another list, splicing a whole list and inserting an
  array. Each is proved to return on a well-formed list and to have the effect on the
  contents that its documentation states.
\<close>

section \<open>Traversals\<close>

lemma qlist_next_split:
  "qlist m l (ys @ x # zs) \<Longrightarrow> cl_qlist_next x m = hd (zs @ [ql_end l])"
  using qlist_at_next [of m "ql_end l" ys x zs] by (simp add: qlist_def cl_qlist_next_def)

lemma qlist_prev_split:
  "qlist m l (ys @ x # zs) \<Longrightarrow> cl_qlist_prev x m = last (ql_end l # ys)"
  using qlist_at_prev [of m "ql_end l" ys x zs] by (simp add: qlist_def cl_qlist_prev_def)

lemma is_item_in_qlist_loop:
  "qlist m l (ys @ zs) \<Longrightarrow>
   is_item_in_qlist_loop l x (hd (zs @ [ql_end l])) m = Some (x \<in> set zs)"
proof (induction zs arbitrary: ys)
  case Nil
  then show ?case by (simp add: is_item_in_qlist_loop.simps cl_qlist_end_def)
next
  case (Cons z zs)
  have z: "z \<noteq> ql_end l" using qlist_end_notin [OF Cons.prems] by auto
  have "is_item_in_qlist_loop l x (hd (zs @ [ql_end l])) m = Some (x \<in> set zs)"
    using Cons.IH [of "ys @ [z]"] Cons.prems by simp
  with z qlist_next_split [OF Cons.prems] show ?case
    by (subst is_item_in_qlist_loop.simps) (auto simp: cl_qlist_end_def)
qed

lemma is_item_in_qlist:
  "qlist m l xs \<Longrightarrow> cl_is_item_in_qlist l x m = Some (x \<in> set xs)"
  using is_item_in_qlist_loop [of m l "[]" xs x]
  by (simp add: cl_is_item_in_qlist_def qlist_head)

text \<open>A search stops at the first match after its starting point, or at the end marker.\<close>

lemma find_next_loop:
  "qlist m l (ys @ zs) \<Longrightarrow>
   find_next_loop l f c (hd (zs @ [ql_end l])) m =
     Some (hd (dropWhile (\<lambda>x. f x c \<noteq> CL_SUCCESS) zs @ [ql_end l]))"
proof (induction zs arbitrary: ys)
  case Nil
  then show ?case by (simp add: find_next_loop.simps cl_qlist_end_def)
next
  case (Cons z zs)
  have z: "z \<noteq> ql_end l" using qlist_end_notin [OF Cons.prems] by auto
  have "find_next_loop l f c (hd (zs @ [ql_end l])) m =
      Some (hd (dropWhile (\<lambda>x. f x c \<noteq> CL_SUCCESS) zs @ [ql_end l]))"
    using Cons.IH [of "ys @ [z]"] Cons.prems by simp
  with z qlist_next_split [OF Cons.prems] show ?case
    by (subst find_next_loop.simps) (auto simp: cl_qlist_end_def)
qed

lemma find_prev_loop:
  "qlist m l (ys @ zs) \<Longrightarrow>
   find_prev_loop l f c (last (ql_end l # ys)) m =
     Some (hd (dropWhile (\<lambda>x. f x c \<noteq> CL_SUCCESS) (rev ys) @ [ql_end l]))"
proof (induction ys arbitrary: zs rule: rev_induct)
  case Nil
  then show ?case by (simp add: find_prev_loop.simps cl_qlist_end_def)
next
  case (snoc y ys)
  have y: "y \<noteq> ql_end l" using qlist_end_notin [OF snoc.prems] by auto
  from snoc.prems have q: "qlist m l (ys @ y # zs)" by simp
  then have "find_prev_loop l f c (last (ql_end l # ys)) m =
      Some (hd (dropWhile (\<lambda>x. f x c \<noteq> CL_SUCCESS) (rev ys) @ [ql_end l]))"
    by (rule snoc.IH)
  with y qlist_prev_split [OF q] show ?case
    by (subst find_prev_loop.simps) (auto simp: cl_qlist_end_def)
qed

lemma qlist_find_next:
  "qlist m l (ys @ x # zs) \<Longrightarrow>
   cl_qlist_find_next l x f c m =
     Some (hd (dropWhile (\<lambda>x. f x c \<noteq> CL_SUCCESS) zs @ [ql_end l]))"
  using find_next_loop [of m l "ys @ [x]" zs f c]
  by (simp add: cl_qlist_find_next_def qlist_next_split)

lemma qlist_find_prev:
  "qlist m l (ys @ x # zs) \<Longrightarrow>
   cl_qlist_find_prev l x f c m =
     Some (hd (dropWhile (\<lambda>x. f x c \<noteq> CL_SUCCESS) (rev ys) @ [ql_end l]))"
  using find_prev_loop [of m l ys "x # zs" f c] qlist_prev_split [of m l ys x zs]
  by (simp add: cl_qlist_find_prev_def)

lemma qlist_find_from_head:
  "qlist m l xs \<Longrightarrow>
   cl_qlist_find_from_head l f c m =
     Some (hd (dropWhile (\<lambda>x. f x c \<noteq> CL_SUCCESS) xs @ [ql_end l]))"
  using find_next_loop [of m l "[]" xs f c] qlist_head [of m l xs]
  by (simp add: cl_qlist_find_from_head_def cl_qlist_find_next_def cl_qlist_end_def cl_qlist_head_def)

lemma qlist_find_from_tail:
  "qlist m l xs \<Longrightarrow>
   cl_qlist_find_from_tail l f c m =
     Some (hd (dropWhile (\<lambda>x. f x c \<noteq> CL_SUCCESS) (rev xs) @ [ql_end l]))"
  using find_prev_loop [of m l xs "[]" f c] qlist_tail [of m l xs]
  by (simp add: cl_qlist_find_from_tail_def cl_qlist_find_prev_def cl_qlist_end_def cl_qlist_tail_def)

text \<open>
  Applying a callback that keeps the links visits every item once, in order.
\<close>

lemma qlist_cong:
  "p_next m' = p_next m \<Longrightarrow> p_prev m' = p_prev m \<Longrightarrow> qlist m' l xs \<longleftrightarrow> qlist m l xs"
  using qlist_at_cong [of "ql_end l" xs m' m] by (simp add: qlist_def)

lemma apply_func_loop:
  assumes keep: "\<And>p m. p_next (f p c m) = p_next m \<and> p_prev (f p c m) = p_prev m"
  shows "qlist m l (ys @ zs) \<Longrightarrow>
    apply_func_loop l f c (hd (zs @ [ql_end l])) m = Some (fold (\<lambda>p m. f p c m) zs m)"
proof (induction zs arbitrary: ys m)
  case Nil
  then show ?case by (simp add: apply_func_loop.simps cl_qlist_end_def)
next
  case (Cons z zs)
  have z: "z \<noteq> ql_end l" using qlist_end_notin [OF Cons.prems] by auto
  have q: "qlist (f z c m) l (ys @ z # zs)"
    using Cons.prems keep [of z m] qlist_cong by metis
  then have "apply_func_loop l f c (hd (zs @ [ql_end l])) (f z c m) =
      Some (fold (\<lambda>p m. f p c m) zs (f z c m))"
    using Cons.IH [of "f z c m" "ys @ [z]"] by simp
  with z qlist_next_split [OF q] show ?case
    by (subst apply_func_loop.simps) (simp add: cl_qlist_end_def)
qed

lemma qlist_apply_func:
  assumes "\<And>p m. p_next (f p c m) = p_next m \<and> p_prev (f p c m) = p_prev m"
    and "qlist m l xs"
  shows "cl_qlist_apply_func l f c m = Some (fold (\<lambda>p m. f p c m) xs m)"
  using apply_func_loop [of f c m l "[]" xs] assms
  by (simp add: cl_qlist_apply_func_def qlist_head)

section \<open>Two lists in one memory\<close>

definition apart :: "'p cl_qlist_t \<Rightarrow> 'p list \<Rightarrow> 'p cl_qlist_t \<Rightarrow> 'p list \<Rightarrow> bool" where
  "apart l xs l' ys \<longleftrightarrow> insert (ql_end l) (set xs) \<inter> insert (ql_end l') (set ys) = {}"

lemma qlist_other_insert:
  assumes "qlist m l' ys" "qlist m l xs" "apart l xs l' ys" "y \<in> insert (ql_end l) (set xs)"
    "x \<notin> insert (ql_end l') (set ys)"
  shows "qlist (cl_primitive_insert y x m) l' ys"
proof -
  have "qlist_at (cl_primitive_insert y x m) (ql_end l') ys \<longleftrightarrow> qlist_at m (ql_end l') ys"
    by (rule qlist_at_cong)
      (rule primitive_insert_frame [of m "ql_end l" xs];
       use assms in \<open>auto simp: qlist_def apart_def\<close>)
  with assms(1) show ?thesis by (simp add: qlist_def)
qed

lemma qlist_other_remove:
  assumes "qlist m l' ys" "qlist m l xs" "apart l xs l' ys" "x \<in> set xs"
  shows "qlist (cl_primitive_remove x m) l' ys"
proof -
  have "qlist_at (cl_primitive_remove x m) (ql_end l') ys \<longleftrightarrow> qlist_at m (ql_end l') ys"
    by (rule qlist_at_cong)
      (rule primitive_remove_frame [of m "ql_end l" xs];
       use assms in \<open>auto simp: qlist_def apart_def\<close>)
  with assms(1) show ?thesis by (simp add: qlist_def)
qed

lemma move_one:
  assumes "qlist m src (us @ z # zs)" "qlist m dest ys" "apart src (us @ z # zs) dest ys"
    and "cl_qlist_remove_item src z m = (src', m')" "cl_qlist_insert_tail dest z m' = (dest', m'')"
  shows "qlist m'' src' (us @ zs) \<and> qlist m'' dest' (ys @ [z]) \<and> apart src' (us @ zs) dest' (ys @ [z]) \<and>
    ql_end src' = ql_end src \<and> ql_end dest' = ql_end dest"
proof -
  have z: "z \<noteq> ql_end src" "z \<notin> set us" "z \<notin> set zs"
    using qlist_end_notin [OF assms(1)] qlist_distinct [OF assms(1)] by auto
  have zd: "z \<notin> set ys" "z \<noteq> ql_end dest" using assms(3) by (auto simp: apart_def)
  have m': "m' = cl_primitive_remove z m" "src' = src\<lparr>ql_count := ql_count src - 1\<rparr>"
    using assms(4) z by (auto simp: cl_qlist_remove_item_def cl_qlist_end_def)
  have m'': "m'' = cl_primitive_insert (ql_end dest) z m'" "dest' = dest\<lparr>ql_count := ql_count dest + 1\<rparr>"
    using assms(5) by (auto simp: cl_qlist_insert_tail_def)
  have s: "qlist m' src' (us @ zs)"
    using qlist_remove_middle [OF assms(1)] m' by simp
  have d: "qlist m' dest ys"
    using qlist_other_remove [OF assms(2,1,3)] m' by simp
  have ap: "apart dest ys src' (us @ zs)" using assms(3) m' by (auto simp: apart_def)
  have "qlist m'' src' (us @ zs)"
    using qlist_other_insert [OF s d ap, of "ql_end dest" z] z m' m'' by simp
  moreover have "qlist m'' dest' (ys @ [z])"
    by (rule qlist_insert_tail [OF d zd assms(5)])
  ultimately show ?thesis
    using m' m'' assms(3) z by (auto simp: apart_def)
qed

lemma move_items_loop:
  "\<lbrakk>qlist m src (us @ zs); qlist m dest ys; apart src (us @ zs) dest ys\<rbrakk> \<Longrightarrow>
   \<exists>src' dest' m'. move_items_loop f c (hd (zs @ [ql_end src])) src dest m = Some (src', dest', m') \<and>
     qlist m' src' (us @ filter (\<lambda>x. f x c \<noteq> CL_SUCCESS) zs) \<and>
     qlist m' dest' (ys @ filter (\<lambda>x. f x c = CL_SUCCESS) zs)"
proof (induction zs arbitrary: us ys src dest m)
  case Nil
  then show ?case by (simp add: move_items_loop.simps cl_qlist_end_def)
next
  case (Cons z zs)
  have z: "z \<noteq> ql_end src" using qlist_end_notin [OF Cons.prems(1)] by auto
  have nx: "cl_qlist_next z m = hd (zs @ [ql_end src])"
    by (rule qlist_next_split [OF Cons.prems(1)])
  show ?case
  proof (cases "f z c = CL_SUCCESS")
    case True
    obtain src' m' dest' m'' where
      r: "cl_qlist_remove_item src z m = (src', m')" "cl_qlist_insert_tail dest z m' = (dest', m'')"
      by (meson surj_pair)
    note one = move_one [OF Cons.prems r]
    then have "\<exists>s d m3. move_items_loop f c (hd (zs @ [ql_end src'])) src' dest' m'' = Some (s, d, m3) \<and>
        qlist m3 s (us @ filter (\<lambda>x. f x c \<noteq> CL_SUCCESS) zs) \<and>
        qlist m3 d ((ys @ [z]) @ filter (\<lambda>x. f x c = CL_SUCCESS) zs)"
      by (intro Cons.IH) auto
    with one True z nx r show ?thesis
      by (subst move_items_loop.simps) (auto simp: cl_qlist_end_def)
  next
    case False
    have "\<exists>s d m3. move_items_loop f c (hd (zs @ [ql_end src])) src dest m = Some (s, d, m3) \<and>
        qlist m3 s ((us @ [z]) @ filter (\<lambda>x. f x c \<noteq> CL_SUCCESS) zs) \<and>
        qlist m3 d (ys @ filter (\<lambda>x. f x c = CL_SUCCESS) zs)"
      by (intro Cons.IH) (use Cons.prems in auto)
    with False z nx show ?thesis
      by (subst move_items_loop.simps) (auto simp: cl_qlist_end_def)
  qed
qed

lemma qlist_move_items:
  "\<lbrakk>qlist m src xs; qlist m dest ys; apart src xs dest ys\<rbrakk> \<Longrightarrow>
   \<exists>src' dest' m'. cl_qlist_move_items src dest f c m = Some (src', dest', m') \<and>
     qlist m' src' (filter (\<lambda>x. f x c \<noteq> CL_SUCCESS) xs) \<and>
     qlist m' dest' (ys @ filter (\<lambda>x. f x c = CL_SUCCESS) xs)"
  using move_items_loop [of m src "[]" xs dest ys f c]
  by (simp add: cl_qlist_move_items_def qlist_head)

text \<open>Splicing one list into another.\<close>

lemma links_retarget:
  assumes "links m a xs b" "xs \<noteq> []" "distinct xs"
    and "p_next m' a' = hd xs" "p_prev m' (hd xs) = a'"
    and "p_next m' (last xs) = b'" "p_prev m' b' = last xs"
    and "\<And>p. p \<in> set xs \<Longrightarrow> p \<noteq> last xs \<Longrightarrow> p_next m' p = p_next m p"
    and "\<And>p. p \<in> set xs \<Longrightarrow> p \<noteq> hd xs \<Longrightarrow> p_prev m' p = p_prev m p"
  shows "links m' a' xs b'"
proof (cases xs)
  case Nil
  with assms show ?thesis by simp
next
  case (Cons x us)
  show ?thesis
  proof (cases us rule: rev_cases)
    case Nil
    with Cons assms show ?thesis by simp
  next
    case (snoc vs z)
    have "links m' x vs z \<longleftrightarrow> links m x vs z"
      by (rule links_cong) (use Cons snoc assms in auto)
    with Cons snoc assms show ?thesis by (auto simp: links_append)
  qed
qed

text \<open>
  Both splices end in the same ring: the source items, then the destination items, in the
  order the operation names. The count of the destination is the sum (modulo \<open>2 ^ 64\<close>).
\<close>

lemma qlist_empty_unchanged:
  "qlist m src [] \<Longrightarrow> cl_is_qlist_empty src"
  by (simp add: cl_is_qlist_empty_def qlist_count)

lemma insert_list_head_fields:
  assumes "\<not> cl_is_qlist_empty src" "cl_qlist_insert_list_head dest src m = (dest', src', m')"
    and "p_next m (ql_end src) = h" "p_prev m (ql_end src) = t" "p_next m (ql_end dest) = y"
    and "y \<noteq> ql_end src" "t \<noteq> ql_end src" "t \<noteq> ql_end dest" "ql_end src \<noteq> ql_end dest"
  shows "p_next m' = (p_next m)(t := y, ql_end dest := h, ql_end src := ql_end src) \<and>
    p_prev m' = (p_prev m)(y := t, h := ql_end dest, ql_end src := ql_end src)"
  using assms
  by (auto simp: cl_qlist_insert_list_head_def cl_qlist_head_def cl_qlist_tail_def
      cl_qlist_next_def cl_qlist_prev_def cl_qlist_reset_def Let_def)

lemma qlist_insert_list_head:
  assumes src: "qlist m src xs" and dest: "qlist m dest ys" and ap: "apart src xs dest ys"
    and len: "length xs < 2 ^ 32"
    and run: "cl_qlist_insert_list_head dest src m = (dest', src', m')"
  shows "qlist m' dest' (xs @ ys) \<and> qlist m' src' []"
proof (cases "xs = []")
  case True
  with assms show ?thesis
    by (auto simp: cl_qlist_insert_list_head_def qlist_empty_unchanged)
next
  case False
  let ?s = "ql_end src" and ?d = "ql_end dest"
  have ne: "\<not> cl_is_qlist_empty src" using qlist_empty_iff [OF src len] False by simp
  have s: "links m ?s xs ?s" "distinct (?s # xs)" and d: "links m ?d ys ?d" "distinct (?d # ys)"
    using src dest by (auto simp: qlist_def qlist_at_def)
  have hs: "p_next m ?s = hd xs" "p_prev m ?s = last xs" "p_next m ?d = hd (ys @ [?d])"
    using links_first [OF s(1)] links_last [OF s(1)] links_first [OF d(1)] False by auto
  have sets: "hd xs \<in> set xs" "last xs \<in> set xs" using False by auto
  have hd_d: "hd (ys @ [?d]) \<in> insert ?d (set ys)" by (cases ys) auto
  have far: "insert ?s (set xs) \<inter> insert ?d (set ys) = {}" using ap by (simp add: apart_def)
  have neq: "hd (ys @ [?d]) \<noteq> ?s" "last xs \<noteq> ?s" "last xs \<noteq> ?d" "?s \<noteq> ?d"
    using sets hd_d far s(2) by (force+)
  have m': "p_next m' = (p_next m)(last xs := hd (ys @ [?d]), ?d := hd xs, ?s := ?s)"
    "p_prev m' = (p_prev m)(hd (ys @ [?d]) := last xs, hd xs := ?d, ?s := ?s)"
    using insert_list_head_fields [OF ne run hs neq] by auto
  have L: "links m' ?d xs (hd (ys @ [?d]))"
    by (rule links_retarget [OF s(1) False])
      (use m' sets hd_d far s(2) d(2) in \<open>auto simp: fun_upd_apply\<close>)
  have "links m' ?d (xs @ ys) ?d"
  proof (cases ys)
    case Nil
    with L show ?thesis by simp
  next
    case (Cons y zs)
    have "links m' y zs ?d \<longleftrightarrow> links m y zs ?d"
      by (rule links_cong) (use Cons m' sets far d(2) in \<open>auto simp: fun_upd_apply\<close>)
    with L d Cons show ?thesis by (simp add: links_append)
  qed
  moreover have "distinct (?d # xs @ ys)" using s(2) d(2) far by auto
  moreover have "dest' = dest\<lparr>ql_count := ql_count dest + ql_count src\<rparr>" "src' = src\<lparr>ql_count := 0\<rparr>"
    using run ne by (auto simp: cl_qlist_insert_list_head_def cl_qlist_reset_def Let_def)
  ultimately show ?thesis
    using src dest m' by (simp add: qlist_def qlist_at_def)
qed

lemma insert_list_tail_fields:
  assumes "\<not> cl_is_qlist_empty src" "cl_qlist_insert_list_tail dest src m = (dest', src', m')"
    and "p_next m (ql_end src) = h" "p_prev m (ql_end src) = t" "p_prev m (ql_end dest) = z"
    and "z \<noteq> ql_end src" "h \<noteq> ql_end src" "h \<noteq> ql_end dest" "ql_end src \<noteq> ql_end dest"
  shows "p_next m' = (p_next m)(z := h, t := ql_end dest, ql_end src := ql_end src) \<and>
    p_prev m' = (p_prev m)(h := z, ql_end dest := t, ql_end src := ql_end src)"
  using assms
  by (auto simp: cl_qlist_insert_list_tail_def cl_qlist_head_def cl_qlist_tail_def
      cl_qlist_next_def cl_qlist_prev_def cl_qlist_reset_def Let_def)
lemma qlist_insert_list_tail:
  assumes src: "qlist m src xs" and dest: "qlist m dest ys" and ap: "apart src xs dest ys"
    and len: "length xs < 2 ^ 32"
    and run: "cl_qlist_insert_list_tail dest src m = (dest', src', m')"
  shows "qlist m' dest' (ys @ xs) \<and> qlist m' src' []"
proof (cases "xs = []")
  case True
  with assms show ?thesis
    by (auto simp: cl_qlist_insert_list_tail_def qlist_empty_unchanged)
next
  case False
  let ?s = "ql_end src" and ?d = "ql_end dest"
  have ne: "\<not> cl_is_qlist_empty src" using qlist_empty_iff [OF src len] False by simp
  have s: "links m ?s xs ?s" "distinct (?s # xs)" and d: "links m ?d ys ?d" "distinct (?d # ys)"
    using src dest by (auto simp: qlist_def qlist_at_def)
  have hs: "p_next m ?s = hd xs" "p_prev m ?s = last xs" "p_prev m ?d = last (?d # ys)"
    using links_first [OF s(1)] links_last [OF s(1)] links_last [OF d(1)] False by auto
  have sets: "hd xs \<in> set xs" "last xs \<in> set xs" using False by auto
  have last_d: "last (?d # ys) \<in> insert ?d (set ys)" using last_in_set [of "?d # ys"] by simp
  have far: "insert ?s (set xs) \<inter> insert ?d (set ys) = {}" using ap by (simp add: apart_def)
  have neq: "last (?d # ys) \<noteq> ?s" "hd xs \<noteq> ?s" "hd xs \<noteq> ?d" "?s \<noteq> ?d"
    using sets last_d far s(2) by (force+)
  have m': "p_next m' = (p_next m)(last (?d # ys) := hd xs, last xs := ?d, ?s := ?s)"
    "p_prev m' = (p_prev m)(hd xs := last (?d # ys), ?d := last xs, ?s := ?s)"
    using insert_list_tail_fields [OF ne run hs neq] by auto
  have L: "links m' (last (?d # ys)) xs ?d"
    by (rule links_retarget [OF s(1) False])
      (use m' sets last_d far s(2) d(2) in \<open>auto simp: fun_upd_apply\<close>)
  have "links m' ?d (ys @ xs) ?d"
  proof (cases ys rule: rev_cases)
    case Nil
    with L show ?thesis by simp
  next
    case (snoc zs y)
    have "links m' ?d zs y \<longleftrightarrow> links m ?d zs y"
      by (rule links_cong) (use snoc m' sets far d(2) in \<open>auto simp: fun_upd_apply\<close>)
    with L d snoc show ?thesis by (simp add: links_append)
  qed
  moreover have "distinct (?d # ys @ xs)" using s(2) d(2) far by auto
  moreover have "dest' = dest\<lparr>ql_count := ql_count dest + ql_count src\<rparr>" "src' = src\<lparr>ql_count := 0\<rparr>"
    using run ne by (auto simp: cl_qlist_insert_list_tail_def cl_qlist_reset_def Let_def)
  ultimately show ?thesis
    using src dest m' by (simp add: qlist_def qlist_at_def)
qed

section \<open>Inserting an array of items\<close>

text \<open>The addresses of \<open>n\<close> consecutive items of \<open>s\<close> bytes from \<open>p\<close> on.\<close>

definition array_items :: "u64 \<Rightarrow> u32 \<Rightarrow> nat \<Rightarrow> u64 list" where
  "array_items p s n = map (\<lambda>i. p + of_nat i * ucast s) [0..<n]"

lemma array_items_Suc: "array_items p s (Suc n) = p # array_items (p + ucast s) s n"
  by (simp add: array_items_def upt_conv_Cons map_Suc_upt [symmetric] o_def algebra_simps
      del: upt_Suc)

lemma array_items_snoc: "array_items p s (Suc n) = array_items p s n @ [p + of_nat n * ucast s]"
  by (simp add: array_items_def)

lemma insert_array_tail_loop:
  "\<lbrakk>qlist m l xs; distinct (ql_end l # xs @ array_items p s n);
    insert_array_tail_loop n l p s m = (l', m')\<rbrakk> \<Longrightarrow> qlist m' l' (xs @ array_items p s n)"
proof (induction n arbitrary: xs l p m)
  case 0
  then show ?case by (simp add: array_items_def)
next
  case (Suc n)
  obtain l1 m1 where one: "cl_qlist_insert_tail l p m = (l1, m1)" by (meson surj_pair)
  have q1: "qlist m1 l1 (xs @ [p])"
    by (rule qlist_insert_tail [OF Suc.prems(1) _ _ one])
      (use Suc.prems(2) in \<open>auto simp: array_items_Suc\<close>)
  have e: "ql_end l1 = ql_end l" using one by (auto simp: cl_qlist_insert_tail_def)
  have "qlist m' l' ((xs @ [p]) @ array_items (p + ucast s) s n)"
    by (rule Suc.IH [OF q1]) (use Suc.prems one e in \<open>auto simp: array_items_Suc\<close>)
  then show ?case by (simp add: array_items_Suc)
qed

lemma qlist_insert_array_tail:
  assumes "qlist m l xs" "distinct (ql_end l # xs @ array_items p_array item_size (unat item_count))"
    and "cl_qlist_insert_array_tail l p_array item_count item_size m = (l', m')"
  shows "qlist m' l' (xs @ array_items p_array item_size (unat item_count))"
  using insert_array_tail_loop [OF assms(1,2)] assms(3)
  by (simp add: cl_qlist_insert_array_tail_def)

lemma insert_array_head_loop:
  "\<lbrakk>qlist m l xs; distinct (ql_end l # array_items p s n @ xs);
    insert_array_head_loop n l (p + of_nat n * ucast s - ucast s) s m = (l', m')\<rbrakk> \<Longrightarrow>
   qlist m' l' (array_items p s n @ xs)"
proof (induction n arbitrary: xs l m)
  case 0
  then show ?case by (simp add: array_items_def)
next
  case (Suc n)
  let ?x = "p + of_nat n * ucast s"
  have eq: "p + of_nat (Suc n) * ucast s - ucast s = ?x" by (simp add: algebra_simps)
  obtain l1 m1 where one: "cl_qlist_insert_head l ?x m = (l1, m1)" by (meson surj_pair)
  have q1: "qlist m1 l1 (?x # xs)"
    by (rule qlist_insert_head [OF Suc.prems(1) _ _ one])
      (use Suc.prems(2) in \<open>auto simp: array_items_snoc\<close>)
  have e: "ql_end l1 = ql_end l" using one by (auto simp: cl_qlist_insert_head_def)
  have run: "insert_array_head_loop n l1 (p + of_nat n * ucast s - ucast s) s m1 = (l', m')"
    using Suc.prems(3) one unfolding eq by simp
  have "qlist m' l' (array_items p s n @ ?x # xs)"
    by (rule Suc.IH [OF q1 _ run]) (use Suc.prems(2) e in \<open>auto simp: array_items_snoc\<close>)
  then show ?case by (simp add: array_items_snoc)
qed

text \<open>
  The head insertion keeps the order of the array provided the offset of its last element,
  a 32-bit product, does not wrap.
\<close>

lemma array_last_offset:
  fixes item_size item_count :: u32
  assumes "unat item_size * (unat item_count - 1) < 2 ^ 32" "item_count \<noteq> 0"
  shows "(ucast (item_size * (item_count - 1)) :: u64) =
    of_nat (unat item_count) * ucast item_size - ucast item_size"
proof -
  have c1: "unat (item_count - 1) = unat item_count - 1"
    using assms(2) by (simp add: unat_minus_one)
  have "unat (item_size * (item_count - 1)) = unat item_size * (unat item_count - 1)"
    using assms(1) c1 by (simp add: unat_word_ariths)
  then have "(ucast (item_size * (item_count - 1)) :: u64) =
      of_nat (unat item_size * (unat item_count - 1))"
    by (metis of_nat_unat)
  also have "\<dots> = of_nat (unat item_count - 1) * ucast item_size"
    by (simp add: of_nat_unat mult.commute)
  also have "\<dots> = of_nat (unat item_count) * ucast item_size - ucast item_size"
    using assms(2) by (cases "unat item_count") (auto simp: algebra_simps unat_eq_0)
  finally show ?thesis .
qed

lemma qlist_insert_array_head:
  assumes "qlist m l xs" "distinct (ql_end l # array_items p_array item_size (unat item_count) @ xs)"
    and "unat item_size * (unat item_count - 1) < 2 ^ 32" "item_count \<noteq> 0"
    and "cl_qlist_insert_array_head l p_array item_count item_size m = (l', m')"
  shows "qlist m' l' (array_items p_array item_size (unat item_count) @ xs)"
proof (rule insert_array_head_loop [OF assms(1,2)])
  show "insert_array_head_loop (unat item_count) l
      (p_array + of_nat (unat item_count) * ucast item_size - ucast item_size) item_size m = (l', m')"
    using assms(5) array_last_offset [OF assms(3,4)]
    by (simp add: cl_qlist_insert_array_head_def add_diff_eq)
qed

end
