(* ===== verification/Rb_Shape.thy ===== *)
theory Rb_Shape
  imports Complib_Prelude "HOL-Library.Tree"
begin

text \<open>
  Red-black shapes over item addresses. The maps of \<^verbatim>\<open>cl_map.c\<close> keep the tree in the items
  themselves; what a proof needs is the shape (a binary tree of addresses), the colours (a
  function of the address) and a place in the tree (a context: the path from a node up to the
  root, with the sibling subtrees left aside). This theory holds the colour and black-height
  invariants of shapes and of contexts, and the equations by which a context and the subtree
  in its hole compose.
\<close>

datatype cl_map_color_t = CL_MAP_RED | CL_MAP_BLACK

lemma not_red [simp]: "c \<noteq> CL_MAP_RED \<longleftrightarrow> c = CL_MAP_BLACK"
  by (cases c) auto

section \<open>Invariants of a shape\<close>

fun rootcol :: "('p \<Rightarrow> cl_map_color_t) \<Rightarrow> 'p tree \<Rightarrow> cl_map_color_t" where
  "rootcol col Leaf = CL_MAP_BLACK"
| "rootcol col (Node l x r) = col x"

fun bheight :: "('p \<Rightarrow> cl_map_color_t) \<Rightarrow> 'p tree \<Rightarrow> nat" where
  "bheight col Leaf = 0"
| "bheight col (Node l x r) = bheight col l + (if col x = CL_MAP_BLACK then 1 else 0)"

fun invc :: "('p \<Rightarrow> cl_map_color_t) \<Rightarrow> 'p tree \<Rightarrow> bool" where
  "invc col Leaf \<longleftrightarrow> True"
| "invc col (Node l x r) \<longleftrightarrow>
     (col x = CL_MAP_RED \<longrightarrow> rootcol col l = CL_MAP_BLACK \<and> rootcol col r = CL_MAP_BLACK) \<and>
     invc col l \<and> invc col r"

fun invh :: "('p \<Rightarrow> cl_map_color_t) \<Rightarrow> 'p tree \<Rightarrow> bool" where
  "invh col Leaf \<longleftrightarrow> True"
| "invh col (Node l x r) \<longleftrightarrow> bheight col l = bheight col r \<and> invh col l \<and> invh col r"

definition rb_tree :: "('p \<Rightarrow> cl_map_color_t) \<Rightarrow> 'p tree \<Rightarrow> bool" where
  "rb_tree col t \<longleftrightarrow> invc col t \<and> invh col t \<and> rootcol col t = CL_MAP_BLACK"

fun tdist :: "'p tree \<Rightarrow> bool" where
  "tdist Leaf \<longleftrightarrow> True"
| "tdist (Node l x r) \<longleftrightarrow> x \<notin> set_tree l \<and> x \<notin> set_tree r \<and> set_tree l \<inter> set_tree r = {} \<and>
     tdist l \<and> tdist r"

lemma tdist_iff: "tdist t \<longleftrightarrow> distinct (inorder t)"
  by (induction t) auto

text \<open>Colours matter only on the nodes of the shape.\<close>

lemma rootcol_cong:
  "(\<And>x. x \<in> set_tree t \<Longrightarrow> col' x = col x) \<Longrightarrow> rootcol col' t = rootcol col t"
  by (cases t) auto

lemma bheight_cong:
  "(\<And>x. x \<in> set_tree t \<Longrightarrow> col' x = col x) \<Longrightarrow> bheight col' t = bheight col t"
  by (induction t) auto

lemma invc_cong:
  assumes "\<And>x. x \<in> set_tree t \<Longrightarrow> col' x = col x"
  shows "invc col' t = invc col t"
  using assms
proof (induction t)
  case (Node l x r)
  have "rootcol col' l = rootcol col l" "rootcol col' r = rootcol col r"
    using Node.prems by (auto intro!: rootcol_cong)
  with Node show ?case by simp
qed simp

lemma invh_cong:
  assumes "\<And>x. x \<in> set_tree t \<Longrightarrow> col' x = col x"
  shows "invh col' t = invh col t"
  using assms
proof (induction t)
  case (Node l x r)
  have "bheight col' l = bheight col l" "bheight col' r = bheight col r"
    using Node.prems by (auto intro!: bheight_cong)
  with Node show ?case by simp
qed simp

lemmas shape_cong = rootcol_cong bheight_cong invc_cong invh_cong

lemma shape_upd [simp, rb_simps]:
  assumes "x \<notin> set_tree t"
  shows "rootcol (col(x := c)) t = rootcol col t" "bheight (col(x := c)) t = bheight col t"
    "invc (col(x := c)) t = invc col t" "invh (col(x := c)) t = invh col t"
  using assms by (auto intro!: shape_cong)

section \<open>Nodes by direction and contexts\<close>

text \<open>
  \<open>node_d d a x b\<close> has \<open>a\<close> on the side \<open>d\<close> (true for left) and \<open>b\<close> on the other. A frame
  \<open>(d, y, s)\<close> of a context is a node \<open>y\<close> whose \<open>d\<close>-side is the hole and whose other subtree
  is \<open>s\<close>; the innermost frame comes first.
\<close>

definition node_d :: "bool \<Rightarrow> 'p tree \<Rightarrow> 'p \<Rightarrow> 'p tree \<Rightarrow> 'p tree" where
  "node_d d a x b = (if d then Node a x b else Node b x a)"

lemma node_d_cases:
  "Node a x b = node_d d (if d then a else b) x (if d then b else a)"
  by (simp add: node_d_def)

lemma node_d_obtain:
  obtains a' b' where "Node a x b = node_d d a' x b'"
  using node_d_cases by metis

lemma node_d_simps [simp]:
  "node_d d a x b \<noteq> Leaf" "Leaf \<noteq> node_d d a x b"
  "rootcol col (node_d d a x b) = col x"
  "set_tree (node_d d a x b) = insert x (set_tree a \<union> set_tree b)"
  by (auto simp: node_d_def)

lemma invh_node_d [simp]:
  "invh col (node_d d a x b) \<longleftrightarrow> bheight col a = bheight col b \<and> invh col a \<and> invh col b"
  by (auto simp: node_d_def)

lemma bheight_node_d:
  "bheight col a = bheight col b \<Longrightarrow>
   bheight col (node_d d a x b) = bheight col a + (if col x = CL_MAP_BLACK then 1 else 0)"
  by (auto simp: node_d_def)

lemma invc_node_d [simp]:
  "invc col (node_d d a x b) \<longleftrightarrow>
     (col x = CL_MAP_RED \<longrightarrow> rootcol col a = CL_MAP_BLACK \<and> rootcol col b = CL_MAP_BLACK) \<and>
     invc col a \<and> invc col b"
  by (auto simp: node_d_def)

lemma tdist_node_d [simp]:
  "tdist (node_d d a x b) \<longleftrightarrow> x \<notin> set_tree a \<and> x \<notin> set_tree b \<and> set_tree a \<inter> set_tree b = {} \<and>
     tdist a \<and> tdist b"
  by (auto simp: node_d_def)

lemma inorder_node_d:
  "inorder (node_d d a x b) = (if d then inorder a @ x # inorder b else inorder b @ x # inorder a)"
  by (simp add: node_d_def)

type_synonym 'p ctx = "(bool \<times> 'p \<times> 'p tree) list"

fun plug :: "'p ctx \<Rightarrow> 'p tree \<Rightarrow> 'p tree" where
  "plug [] t = t"
| "plug ((d, y, s) # k) t = plug k (node_d d t y s)"

fun ctx_set :: "'p ctx \<Rightarrow> 'p set" where
  "ctx_set [] = {}"
| "ctx_set ((d, y, s) # k) = insert y (set_tree s \<union> ctx_set k)"

fun ctx_before :: "'p ctx \<Rightarrow> 'p list" where
  "ctx_before [] = []"
| "ctx_before ((d, y, s) # k) = ctx_before k @ (if d then [] else inorder s @ [y])"

fun ctx_after :: "'p ctx \<Rightarrow> 'p list" where
  "ctx_after [] = []"
| "ctx_after ((d, y, s) # k) = (if d then y # inorder s else []) @ ctx_after k"

fun ctx_dist :: "'p ctx \<Rightarrow> bool" where
  "ctx_dist [] \<longleftrightarrow> True"
| "ctx_dist ((d, y, s) # k) \<longleftrightarrow> y \<notin> set_tree s \<and> y \<notin> ctx_set k \<and> tdist s \<and>
     set_tree s \<inter> ctx_set k = {} \<and> ctx_dist k"

lemma plug_append: "plug (k @ k') t = plug k' (plug k t)"
  by (induction k arbitrary: t) auto

lemma plug_Leaf_iff [simp]: "plug k t = Leaf \<longleftrightarrow> k = [] \<and> t = Leaf"
  by (induction k t rule: plug.induct) auto

lemma set_plug [simp]: "set_tree (plug k t) = set_tree t \<union> ctx_set k"
  by (induction k arbitrary: t) auto

lemma inorder_plug: "inorder (plug k t) = ctx_before k @ inorder t @ ctx_after k"
  by (induction k arbitrary: t) (auto simp: inorder_node_d)

lemma ctx_set_inorder: "ctx_set k = set (ctx_before k) \<union> set (ctx_after k)"
  by (induction k rule: ctx_set.induct) auto

lemma tdist_plug [simp]:
  "tdist (plug k t) \<longleftrightarrow> tdist t \<and> ctx_dist k \<and> set_tree t \<inter> ctx_set k = {}"
  by (induction k arbitrary: t) auto

text \<open>What the context asks of the tree in its hole: a root colour and a black height.\<close>

fun ctx_invc :: "('p \<Rightarrow> cl_map_color_t) \<Rightarrow> 'p ctx \<Rightarrow> cl_map_color_t \<Rightarrow> bool" where
  "ctx_invc col [] c \<longleftrightarrow> True"
| "ctx_invc col ((d, y, s) # k) c \<longleftrightarrow>
     (col y = CL_MAP_RED \<longrightarrow> c = CL_MAP_BLACK \<and> rootcol col s = CL_MAP_BLACK) \<and>
     invc col s \<and> ctx_invc col k (col y)"

fun ctx_invh :: "('p \<Rightarrow> cl_map_color_t) \<Rightarrow> 'p ctx \<Rightarrow> nat \<Rightarrow> bool" where
  "ctx_invh col [] h \<longleftrightarrow> True"
| "ctx_invh col ((d, y, s) # k) h \<longleftrightarrow>
     invh col s \<and> bheight col s = h \<and>
     ctx_invh col k (h + (if col y = CL_MAP_BLACK then 1 else 0))"

fun ctx_top :: "('p \<Rightarrow> cl_map_color_t) \<Rightarrow> 'p ctx \<Rightarrow> bool" where
  "ctx_top col [] \<longleftrightarrow> True"
| "ctx_top col ((d, y, s) # k) \<longleftrightarrow> (if k = [] then col y = CL_MAP_BLACK else ctx_top col k)"

lemma invc_plug [simp]:
  "invc col (plug k t) \<longleftrightarrow> invc col t \<and> ctx_invc col k (rootcol col t)"
  by (induction k t rule: plug.induct) (simp_all, blast)

lemma invh_plug [simp]:
  "invh col (plug k t) \<longleftrightarrow> invh col t \<and> ctx_invh col k (bheight col t)"
proof (induction k t rule: plug.induct)
  case (2 d y s k t)
  show ?case
  proof (cases "bheight col t = bheight col s")
    case True
    with 2 show ?thesis by (auto simp add: bheight_node_d)
  next
    case False
    with 2 show ?thesis by simp
  qed
qed simp

lemma rootcol_plug:
  "rootcol col (plug k t) = CL_MAP_BLACK \<longleftrightarrow>
   (if k = [] then rootcol col t = CL_MAP_BLACK else ctx_top col k)"
proof (induction k t rule: plug.induct)
  case (2 d y s k t)
  then show ?case by (cases k) auto
qed simp

lemma ctx_upd [simp, rb_simps]:
  assumes "x \<notin> ctx_set k"
  shows "ctx_invc (col(x := c)) k c' = ctx_invc col k c'"
    "ctx_invh (col(x := c)) k h = ctx_invh col k h"
    "ctx_top (col(x := c)) k = ctx_top col k"
  using assms by (induction k arbitrary: c' h rule: ctx_set.induct) auto

lemma ctx_invc_black: "ctx_invc col k c \<Longrightarrow> ctx_invc col k CL_MAP_BLACK"
  by (cases k rule: ctx_set.cases) auto

text \<open>Repainting the root black keeps the invariants.\<close>

lemma rb_paint_root:
  assumes "invc col (Node l x r)" "invh col (Node l x r)" "tdist (Node l x r)"
  shows "rb_tree (col(x := CL_MAP_BLACK)) (Node l x r)"
  using assms by (auto simp: rb_tree_def)

text \<open>A subtree with a black root and positive black height is not a leaf.\<close>

lemma bheight_pos_node: "0 < bheight col s \<Longrightarrow> \<exists>a w b. s = node_d d a w b"
  by (cases s) (auto intro: node_d_obtain [of _ _ _ d])

section \<open>Height\<close>

text \<open>The height of a red-black shape is logarithmic in its size.\<close>

lemma height_le_bheight:
  "invc col t \<Longrightarrow> invh col t \<Longrightarrow>
   height t \<le> 2 * bheight col t + (if rootcol col t = CL_MAP_BLACK then 0 else 1)"
  by (induction t) (auto split: if_splits)

lemma bheight_size: "invh col t \<Longrightarrow> 2 ^ bheight col t \<le> size1 t"
  by (induction t) auto

lemma rb_height:
  assumes "rb_tree col t"
  shows "2 ^ height t \<le> (size t + 1) ^ 2"
proof -
  have "height t \<le> 2 * bheight col t"
    using assms height_le_bheight [of col t] by (simp add: rb_tree_def)
  then have "(2::nat) ^ height t \<le> (2 ^ bheight col t) ^ 2"
    by (simp add: power_mult [symmetric] mult.commute power_increasing)
  also have "\<dots> \<le> size1 t ^ 2"
    using assms bheight_size [of col t] by (intro power_mono) (auto simp: rb_tree_def)
  finally show ?thesis by (simp add: size1_size)
qed

end
