(* ===== verification/Fmap.thy ===== *)
theory Fmap
  imports Qlist Rb_Shape
begin

text \<open>
  The flexi map of \<^verbatim>\<open>cl_fleximap.h\<close> and \<^verbatim>\<open>cl_map.c\<close>: a red-black tree whose nodes are embedded
  in the caller's objects, threaded in key order by the quick-list links of the same items.
  The header holds two sentinels: \<^verbatim>\<open>root\<close>, whose left child is the tree's root, and \<^verbatim>\<open>nil\<close>,
  which stands for every leaf and is the end marker of the thread. This theory holds the data
  and every operation, translated statement by statement; the proofs are in the theories that
  follow.
\<close>

section \<open>Memory and map headers\<close>

text \<open>
  A map item is a quick-list item with tree links, a colour and a key. \<open>fm_root\<close> and \<open>fm_nil\<close>
  are the addresses of the sentinels inside the header. A key is a value of type \<open>'k\<close>, and the
  compare callback returns a negative, zero or positive number.
\<close>

record ('p, 'k) map_mem = "'p list_mem" +
  p_left :: "'p \<Rightarrow> 'p"
  p_right :: "'p \<Rightarrow> 'p"
  p_up :: "'p \<Rightarrow> 'p"
  color :: "'p \<Rightarrow> cl_map_color_t"
  p_key :: "'p \<Rightarrow> 'k"

record ('p, 'k) cl_fmap_t =
  fm_root :: 'p
  fm_nil :: 'p
  fm_state :: cl_state_t
  fm_count :: size_t
  fm_pfn_compare :: "'k \<Rightarrow> 'k \<Rightarrow> int"

text \<open>One assignment to one field of one item.\<close>

definition set_left :: "'p \<Rightarrow> 'p \<Rightarrow> ('p, 'k, 'z) map_mem_scheme \<Rightarrow> ('p, 'k, 'z) map_mem_scheme" where
  "set_left p v m = m\<lparr>p_left := (p_left m)(p := v)\<rparr>"

definition set_right :: "'p \<Rightarrow> 'p \<Rightarrow> ('p, 'k, 'z) map_mem_scheme \<Rightarrow> ('p, 'k, 'z) map_mem_scheme" where
  "set_right p v m = m\<lparr>p_right := (p_right m)(p := v)\<rparr>"

definition set_up :: "'p \<Rightarrow> 'p \<Rightarrow> ('p, 'k, 'z) map_mem_scheme \<Rightarrow> ('p, 'k, 'z) map_mem_scheme" where
  "set_up p v m = m\<lparr>p_up := (p_up m)(p := v)\<rparr>"

definition set_color ::
  "'p \<Rightarrow> cl_map_color_t \<Rightarrow> ('p, 'k, 'z) map_mem_scheme \<Rightarrow> ('p, 'k, 'z) map_mem_scheme" where
  "set_color p c m = m\<lparr>color := (color m)(p := c)\<rparr>"

definition set_key :: "'p \<Rightarrow> 'k \<Rightarrow> ('p, 'k, 'z) map_mem_scheme \<Rightarrow> ('p, 'k, 'z) map_mem_scheme" where
  "set_key p v m = m\<lparr>p_key := (p_key m)(p := v)\<rparr>"

text \<open>
  The type \<^verbatim>\<open>cl_fmap_item_t **\<close>, as far as the code uses it: the address of the left or of
  the right link of an item.
\<close>

datatype 'p link_ptr = LeftOf 'p | RightOf 'p

fun deref :: "('p, 'k, 'z) map_mem_scheme \<Rightarrow> 'p link_ptr \<Rightarrow> 'p" where
  "deref m (LeftOf p) = p_left m p"
| "deref m (RightOf p) = p_right m p"

fun assign :: "'p link_ptr \<Rightarrow> 'p \<Rightarrow> ('p, 'k, 'z) map_mem_scheme \<Rightarrow> ('p, 'k, 'z) map_mem_scheme" where
  "assign (LeftOf p) v m = set_left p v m"
| "assign (RightOf p) v m = set_right p v m"

section \<open>Reading a map\<close>

definition cl_fmap_root :: "('p, 'k) cl_fmap_t \<Rightarrow> ('p, 'k, 'z) map_mem_scheme \<Rightarrow> 'p" where
  "cl_fmap_root f m = p_left m (fm_root f)"

definition cl_fmap_is_left_child :: "'p \<Rightarrow> ('p, 'k, 'z) map_mem_scheme \<Rightarrow> bool" where
  "cl_fmap_is_left_child p_item m \<longleftrightarrow> p_left m (p_up m p_item) = p_item"

definition cl_fmap_get_parent_ptr_to_item ::
  "'p \<Rightarrow> ('p, 'k, 'z) map_mem_scheme \<Rightarrow> 'p link_ptr" where
  "cl_fmap_get_parent_ptr_to_item p_item m =
    (if cl_fmap_is_left_child p_item m then LeftOf (p_up m p_item) else RightOf (p_up m p_item))"

definition cl_fmap_count :: "('p, 'k) cl_fmap_t \<Rightarrow> size_t" where
  "cl_fmap_count f = fm_count f"

definition cl_is_fmap_empty :: "('p, 'k) cl_fmap_t \<Rightarrow> bool" where
  "cl_is_fmap_empty f \<longleftrightarrow> fm_count f = 0"

definition cl_fmap_key :: "'p \<Rightarrow> ('p, 'k, 'z) map_mem_scheme \<Rightarrow> 'k" where
  "cl_fmap_key p_item m = p_key m p_item"

definition cl_fmap_end :: "('p, 'k) cl_fmap_t \<Rightarrow> 'p" where
  "cl_fmap_end f = fm_nil f"

definition cl_fmap_head :: "('p, 'k) cl_fmap_t \<Rightarrow> ('p, 'k, 'z) map_mem_scheme \<Rightarrow> 'p" where
  "cl_fmap_head f m = p_next m (fm_nil f)"

definition cl_fmap_tail :: "('p, 'k) cl_fmap_t \<Rightarrow> ('p, 'k, 'z) map_mem_scheme \<Rightarrow> 'p" where
  "cl_fmap_tail f m = p_prev m (fm_nil f)"

definition cl_fmap_next :: "'p \<Rightarrow> ('p, 'k, 'z) map_mem_scheme \<Rightarrow> 'p" where
  "cl_fmap_next p_item m = p_next m p_item"

definition cl_fmap_prev :: "'p \<Rightarrow> ('p, 'k, 'z) map_mem_scheme \<Rightarrow> 'p" where
  "cl_fmap_prev p_item m = p_prev m p_item"

text \<open>
  The searches walk down from the root until they meet \<^verbatim>\<open>nil\<close>; \<open>None\<close> is a walk that never
  does. In \<^verbatim>\<open>cl_fmap_match\<close> a null compare callback selects the map's own.
\<close>

partial_function (option) fmap_match_loop ::
  "('p, 'k) cl_fmap_t \<Rightarrow> 'k \<Rightarrow> ('k \<Rightarrow> 'k \<Rightarrow> int) option \<Rightarrow> 'p \<Rightarrow> ('p, 'k, 'z) map_mem_scheme \<Rightarrow>
   'p option" where
  "fmap_match_loop f key pfn_compare p_item m =
    (if p_item \<noteq> fm_nil f
     then
       let cmp = (case pfn_compare of
                    Some pfn \<Rightarrow> pfn key (p_key m p_item)
                  | None \<Rightarrow> fm_pfn_compare f key (p_key m p_item))
       in if cmp = 0 then Some p_item
          else if cmp < 0 then fmap_match_loop f key pfn_compare (p_left m p_item) m
          else fmap_match_loop f key pfn_compare (p_right m p_item) m
     else Some p_item)"

definition cl_fmap_match ::
  "('p, 'k) cl_fmap_t \<Rightarrow> 'k \<Rightarrow> ('k \<Rightarrow> 'k \<Rightarrow> int) option \<Rightarrow> ('p, 'k, 'z) map_mem_scheme \<Rightarrow>
   'p option" where
  "cl_fmap_match f key pfn_compare m = fmap_match_loop f key pfn_compare (cl_fmap_root f m) m"

definition cl_fmap_get ::
  "('p, 'k) cl_fmap_t \<Rightarrow> 'k \<Rightarrow> ('p, 'k, 'z) map_mem_scheme \<Rightarrow> 'p option" where
  "cl_fmap_get f key m = cl_fmap_match f key (Some (fm_pfn_compare f)) m"

partial_function (option) fmap_get_next_loop ::
  "('p, 'k) cl_fmap_t \<Rightarrow> 'k \<Rightarrow> 'p \<Rightarrow> 'p \<Rightarrow> ('p, 'k, 'z) map_mem_scheme \<Rightarrow> 'p option" where
  "fmap_get_next_loop f key p_item p_item_found m =
    (if p_item \<noteq> fm_nil f
     then
       let cmp = fm_pfn_compare f key (p_key m p_item)
       in if cmp < 0 then fmap_get_next_loop f key (p_left m p_item) p_item m
          else fmap_get_next_loop f key (p_right m p_item) p_item_found m
     else Some p_item_found)"

definition cl_fmap_get_next ::
  "('p, 'k) cl_fmap_t \<Rightarrow> 'k \<Rightarrow> ('p, 'k, 'z) map_mem_scheme \<Rightarrow> 'p option" where
  "cl_fmap_get_next f key m = fmap_get_next_loop f key (cl_fmap_root f m) (fm_nil f) m"

text \<open>The apply callback may change the memory; it is given the item and the memory.\<close>

partial_function (option) fmap_apply_loop ::
  "('p, 'k) cl_fmap_t \<Rightarrow> ('p \<Rightarrow> ('p, 'k, 'z) map_mem_scheme \<Rightarrow> ('p, 'k, 'z) map_mem_scheme) \<Rightarrow>
   'p \<Rightarrow> ('p, 'k, 'z) map_mem_scheme \<Rightarrow> ('p, 'k, 'z) map_mem_scheme option" where
  "fmap_apply_loop f pfn_func p_fmap_item m =
    (if p_fmap_item \<noteq> cl_fmap_end f
     then
       let m = pfn_func p_fmap_item m
       in fmap_apply_loop f pfn_func (cl_fmap_next p_fmap_item m) m
     else Some m)"

definition cl_fmap_apply_func ::
  "('p, 'k) cl_fmap_t \<Rightarrow> ('p \<Rightarrow> ('p, 'k, 'z) map_mem_scheme \<Rightarrow> ('p, 'k, 'z) map_mem_scheme) \<Rightarrow>
   ('p, 'k, 'z) map_mem_scheme \<Rightarrow> ('p, 'k, 'z) map_mem_scheme option" where
  "cl_fmap_apply_func f pfn_func m = fmap_apply_loop f pfn_func (cl_fmap_head f m) m"

section \<open>Rotations\<close>

text \<open>
  \<^verbatim>\<open>pp_root\<close> is dereferenced again at every use, as in the code: the first assignment changes
  what it points to.
\<close>

definition cl_fmap_rot_left ::
  "('p, 'k) cl_fmap_t \<Rightarrow> 'p \<Rightarrow> ('p, 'k, 'z) map_mem_scheme \<Rightarrow> ('p, 'k, 'z) map_mem_scheme" where
  "cl_fmap_rot_left f p_item m =
    (let pp_root = cl_fmap_get_parent_ptr_to_item p_item m;
         m = assign pp_root (p_right m p_item) m;
         m = set_up (deref m pp_root) (p_up m p_item) m;
         m = set_right p_item (p_left m (deref m pp_root)) m;
         m = (if p_left m (deref m pp_root) \<noteq> fm_nil f
              then set_up (p_left m (deref m pp_root)) p_item m else m);
         m = set_left (deref m pp_root) p_item m;
         m = set_up p_item (deref m pp_root) m
     in m)"

definition cl_fmap_rot_right ::
  "('p, 'k) cl_fmap_t \<Rightarrow> 'p \<Rightarrow> ('p, 'k, 'z) map_mem_scheme \<Rightarrow> ('p, 'k, 'z) map_mem_scheme" where
  "cl_fmap_rot_right f p_item m =
    (let pp_root = cl_fmap_get_parent_ptr_to_item p_item m;
         m = assign pp_root (p_left m p_item) m;
         m = set_up (deref m pp_root) (p_up m p_item) m;
         m = set_left p_item (p_right m (deref m pp_root)) m;
         m = (if p_right m (deref m pp_root) \<noteq> fm_nil f
              then set_up (p_right m (deref m pp_root)) p_item m else m);
         m = set_right (deref m pp_root) p_item m;
         m = set_up p_item (deref m pp_root) m
     in m)"

section \<open>Initialisation\<close>

definition cl_fmap_remove_all ::
  "('p, 'k) cl_fmap_t \<Rightarrow> ('p, 'k, 'z) map_mem_scheme \<Rightarrow>
   ('p, 'k) cl_fmap_t \<times> ('p, 'k, 'z) map_mem_scheme" where
  "cl_fmap_remove_all f m =
    (f\<lparr>fm_count := 0\<rparr>,
     (set_left (fm_root f) (fm_nil f) m)
       \<lparr>p_next := (p_next m)(fm_nil f := fm_nil f), p_prev := (p_prev m)(fm_nil f := fm_nil f)\<rparr>)"

text \<open>
  \<^verbatim>\<open>memset\<close> clears both sentinels: \<open>p_null\<close> and \<open>k_null\<close> are the null address and the null key,
  and the colour with value 0 is red.
\<close>

definition fmap_clear_item ::
  "'p \<Rightarrow> 'k \<Rightarrow> 'p \<Rightarrow> ('p, 'k, 'z) map_mem_scheme \<Rightarrow> ('p, 'k, 'z) map_mem_scheme" where
  "fmap_clear_item p_null k_null p m =
    (let m = m\<lparr>p_next := (p_next m)(p := p_null), p_prev := (p_prev m)(p := p_null)\<rparr>;
         m = set_left p p_null m; m = set_right p p_null m; m = set_up p p_null m;
         m = set_color p CL_MAP_RED m; m = set_key p k_null m
     in m)"

definition cl_fmap_init ::
  "'p \<Rightarrow> 'k \<Rightarrow> ('p, 'k) cl_fmap_t \<Rightarrow> ('k \<Rightarrow> 'k \<Rightarrow> int) \<Rightarrow> ('p, 'k, 'z) map_mem_scheme \<Rightarrow>
   ('p, 'k) cl_fmap_t \<times> ('p, 'k, 'z) map_mem_scheme" where
  "cl_fmap_init p_null k_null f pfn_compare m =
    (let rt = fm_root f; nil = fm_nil f;
         m = fmap_clear_item p_null k_null nil (fmap_clear_item p_null k_null rt m);
         m = set_up rt rt m; m = set_left rt nil m; m = set_right rt nil m;
         m = set_color rt CL_MAP_BLACK m;
         m = set_up nil nil m; m = set_left nil nil m; m = set_right nil nil m;
         m = set_color nil CL_MAP_BLACK m;
         f = f\<lparr>fm_count := 0, fm_pfn_compare := pfn_compare, fm_state := CL_INITIALIZED\<rparr>
     in cl_fmap_remove_all f m)"

section \<open>Insertion\<close>

partial_function (option) cl_fmap_ins_bal ::
  "('p, 'k) cl_fmap_t \<Rightarrow> 'p \<Rightarrow> ('p, 'k, 'z) map_mem_scheme \<Rightarrow>
   ('p, 'k, 'z) map_mem_scheme option" where
  "cl_fmap_ins_bal f p_item m =
    (if color m (p_up m p_item) = CL_MAP_RED
     then if cl_fmap_is_left_child (p_up m p_item) m
       then
         let p_grand_uncle = p_right m (p_up m (p_up m p_item))
         in if color m p_grand_uncle = CL_MAP_RED
           then
             let m = set_color p_grand_uncle CL_MAP_BLACK m;
                 m = set_color (p_up m p_item) CL_MAP_BLACK m;
                 m = set_color (p_up m (p_up m p_item)) CL_MAP_RED m
             in cl_fmap_ins_bal f (p_up m (p_up m p_item)) m
           else
             let (p_item, m) =
                   (if \<not> cl_fmap_is_left_child p_item m
                    then (p_up m p_item, cl_fmap_rot_left f (p_up m p_item) m)
                    else (p_item, m));
                 m = set_color (p_up m p_item) CL_MAP_BLACK m;
                 m = set_color (p_up m (p_up m p_item)) CL_MAP_RED m;
                 m = cl_fmap_rot_right f (p_up m (p_up m p_item)) m
             in cl_fmap_ins_bal f p_item m
       else
         let p_grand_uncle = p_left m (p_up m (p_up m p_item))
         in if color m p_grand_uncle = CL_MAP_RED
           then
             let m = set_color p_grand_uncle CL_MAP_BLACK m;
                 m = set_color (p_up m p_item) CL_MAP_BLACK m;
                 m = set_color (p_up m (p_up m p_item)) CL_MAP_RED m
             in cl_fmap_ins_bal f (p_up m (p_up m p_item)) m
           else
             let (p_item, m) =
                   (if cl_fmap_is_left_child p_item m
                    then (p_up m p_item, cl_fmap_rot_right f (p_up m p_item) m)
                    else (p_item, m));
                 m = set_color (p_up m p_item) CL_MAP_BLACK m;
                 m = set_color (p_up m (p_up m p_item)) CL_MAP_RED m;
                 m = cl_fmap_rot_left f (p_up m (p_up m p_item)) m
             in cl_fmap_ins_bal f p_item m
     else Some m)"

text \<open>
  The search for the place: either an item with an equal key (\<open>Inl\<close>), or the item to hang
  the new one from together with the last comparison (\<open>Inr\<close>).
\<close>

partial_function (option) fmap_insert_at_loop ::
  "('p, 'k) cl_fmap_t \<Rightarrow> 'k \<Rightarrow> 'p \<Rightarrow> 'p \<Rightarrow> int \<Rightarrow> ('p, 'k, 'z) map_mem_scheme \<Rightarrow>
   ('p + 'p \<times> int) option" where
  "fmap_insert_at_loop f key p_insert_at p_comp_item cmp m =
    (if p_comp_item \<noteq> fm_nil f
     then
       let p_insert_at = p_comp_item;
           cmp = fm_pfn_compare f key (p_key m p_insert_at)
       in if cmp = 0 then Some (Inl p_insert_at)
          else if cmp < 0 then fmap_insert_at_loop f key p_insert_at (p_left m p_insert_at) cmp m
          else fmap_insert_at_loop f key p_insert_at (p_right m p_insert_at) cmp m
     else Some (Inr (p_insert_at, cmp)))"

definition cl_fmap_insert ::
  "('p, 'k) cl_fmap_t \<Rightarrow> 'k \<Rightarrow> 'p \<Rightarrow> ('p, 'k, 'z) map_mem_scheme \<Rightarrow>
   ('p \<times> ('p, 'k) cl_fmap_t \<times> ('p, 'k, 'z) map_mem_scheme) option" where
  "cl_fmap_insert f key p_item m =
    (let m = set_left p_item (fm_nil f) m;
         m = set_right p_item (fm_nil f) m;
         m = set_key p_item key m;
         m = set_color p_item CL_MAP_RED m
     in Option.bind (fmap_insert_at_loop f key (fm_root f) (cl_fmap_root f m) 0 m)
       (\<lambda>found. case found of
          Inl p_insert_at \<Rightarrow> Some (p_insert_at, f, m)
        | Inr (p_insert_at, cmp) \<Rightarrow>
            let m = (if p_insert_at = fm_root f then
                       let m = set_left p_insert_at p_item m
                       in cl_primitive_insert (fm_nil f) p_item m
                     else if cmp < 0 then
                       let m = set_left p_insert_at p_item m
                       in cl_primitive_insert p_insert_at p_item m
                     else
                       let m = set_right p_insert_at p_item m
                       in cl_primitive_insert (p_next m p_insert_at) p_item m);
                f = f\<lparr>fm_count := fm_count f + 1\<rparr>;
                m = set_up p_item p_insert_at m
            in Option.bind (cl_fmap_ins_bal f p_item m)
                 (\<lambda>m. Some (p_item, f, set_color (cl_fmap_root f m) CL_MAP_BLACK m))))"

section \<open>Removal\<close>

text \<open>The tail of the loop body of \<^verbatim>\<open>__cl_fmap_del_bal\<close>, which ends in \<^verbatim>\<open>break\<close>.\<close>

definition fmap_del_bal_last_left ::
  "('p, 'k) cl_fmap_t \<Rightarrow> 'p \<Rightarrow> 'p \<Rightarrow> ('p, 'k, 'z) map_mem_scheme \<Rightarrow> ('p, 'k, 'z) map_mem_scheme" where
  "fmap_del_bal_last_left f p_item p_uncle m =
    (let m = set_color p_uncle (color m (p_up m p_item)) m;
         m = set_color (p_up m p_item) CL_MAP_BLACK m;
         m = set_color (p_right m p_uncle) CL_MAP_BLACK m
     in cl_fmap_rot_left f (p_up m p_item) m)"

definition fmap_del_bal_last_right ::
  "('p, 'k) cl_fmap_t \<Rightarrow> 'p \<Rightarrow> 'p \<Rightarrow> ('p, 'k, 'z) map_mem_scheme \<Rightarrow> ('p, 'k, 'z) map_mem_scheme" where
  "fmap_del_bal_last_right f p_item p_uncle m =
    (let m = set_color p_uncle (color m (p_up m p_item)) m;
         m = set_color (p_up m p_item) CL_MAP_BLACK m;
         m = set_color (p_left m p_uncle) CL_MAP_BLACK m
     in cl_fmap_rot_right f (p_up m p_item) m)"

text \<open>The loop returns the item it stopped at, which the code then paints black.\<close>

partial_function (option) fmap_del_bal_loop ::
  "('p, 'k) cl_fmap_t \<Rightarrow> 'p \<Rightarrow> ('p, 'k, 'z) map_mem_scheme \<Rightarrow>
   ('p \<times> ('p, 'k, 'z) map_mem_scheme) option" where
  "fmap_del_bal_loop f p_item m =
    (if color m p_item \<noteq> CL_MAP_RED \<and> p_up m p_item \<noteq> fm_root f
     then if cl_fmap_is_left_child p_item m
       then
         let p_uncle = p_right m (p_up m p_item);
             (p_uncle, m) =
               (if color m p_uncle = CL_MAP_RED
                then
                  let m = set_color p_uncle CL_MAP_BLACK m;
                      m = set_color (p_up m p_item) CL_MAP_RED m;
                      m = cl_fmap_rot_left f (p_up m p_item) m
                  in (p_right m (p_up m p_item), m)
                else (p_uncle, m))
         in if color m (p_right m p_uncle) \<noteq> CL_MAP_RED
           then if color m (p_left m p_uncle) \<noteq> CL_MAP_RED
             then
               let m = set_color p_uncle CL_MAP_RED m
               in fmap_del_bal_loop f (p_up m p_item) m
             else
               let m = set_color (p_left m p_uncle) CL_MAP_BLACK m;
                   m = set_color p_uncle CL_MAP_RED m;
                   m = cl_fmap_rot_right f p_uncle m;
                   p_uncle = p_right m (p_up m p_item)
               in Some (p_item, fmap_del_bal_last_left f p_item p_uncle m)
           else Some (p_item, fmap_del_bal_last_left f p_item p_uncle m)
       else
         let p_uncle = p_left m (p_up m p_item);
             (p_uncle, m) =
               (if color m p_uncle = CL_MAP_RED
                then
                  let m = set_color p_uncle CL_MAP_BLACK m;
                      m = set_color (p_up m p_item) CL_MAP_RED m;
                      m = cl_fmap_rot_right f (p_up m p_item) m
                  in (p_left m (p_up m p_item), m)
                else (p_uncle, m))
         in if color m (p_left m p_uncle) \<noteq> CL_MAP_RED
           then if color m (p_right m p_uncle) \<noteq> CL_MAP_RED
             then
               let m = set_color p_uncle CL_MAP_RED m
               in fmap_del_bal_loop f (p_up m p_item) m
             else
               let m = set_color (p_right m p_uncle) CL_MAP_BLACK m;
                   m = set_color p_uncle CL_MAP_RED m;
                   m = cl_fmap_rot_left f p_uncle m;
                   p_uncle = p_left m (p_up m p_item)
               in Some (p_item, fmap_del_bal_last_right f p_item p_uncle m)
           else Some (p_item, fmap_del_bal_last_right f p_item p_uncle m)
     else Some (p_item, m))"

definition cl_fmap_del_bal ::
  "('p, 'k) cl_fmap_t \<Rightarrow> 'p \<Rightarrow> ('p, 'k, 'z) map_mem_scheme \<Rightarrow>
   ('p, 'k, 'z) map_mem_scheme option" where
  "cl_fmap_del_bal f p_item m =
    Option.bind (fmap_del_bal_loop f p_item m)
      (\<lambda>(p_item, m). Some (set_color p_item CL_MAP_BLACK m))"

text \<open>The exchange of the removed item with its substitute.\<close>

definition fmap_exchange ::
  "'p \<Rightarrow> 'p \<Rightarrow> ('p, 'k, 'z) map_mem_scheme \<Rightarrow> ('p, 'k, 'z) map_mem_scheme" where
  "fmap_exchange p_item p_del_item m =
    (let m = set_up p_del_item (p_up m p_item) m;
         m = set_left p_del_item (p_left m p_item) m;
         m = set_right p_del_item (p_right m p_item) m;
         m = assign (cl_fmap_get_parent_ptr_to_item p_item m) p_del_item m;
         m = set_up (p_right m p_item) p_del_item m;
         m = set_up (p_left m p_item) p_del_item m;
         m = set_color p_del_item (color m p_item) m
     in m)"

definition cl_fmap_remove_item ::
  "('p, 'k) cl_fmap_t \<Rightarrow> 'p \<Rightarrow> ('p, 'k, 'z) map_mem_scheme \<Rightarrow>
   (('p, 'k) cl_fmap_t \<times> ('p, 'k, 'z) map_mem_scheme) option" where
  "cl_fmap_remove_item f p_item m =
    (if p_item = cl_fmap_end f then Some (f, m)
     else
       let p_del_item =
             (if p_right m p_item = fm_nil f \<or> p_left m p_item = fm_nil f then p_item
              else cl_fmap_next p_item m);
           m = cl_primitive_remove p_item m;
           f = f\<lparr>fm_count := fm_count f - 1\<rparr>;
           p_child = (if p_left m p_del_item \<noteq> fm_nil f then p_left m p_del_item
                      else p_right m p_del_item);
           m = set_up p_child (p_up m p_del_item) m;
           m = assign (cl_fmap_get_parent_ptr_to_item p_del_item m) p_child m
       in Option.bind
            (if color m p_del_item \<noteq> CL_MAP_RED then cl_fmap_del_bal f p_child m else Some m)
            (\<lambda>m. Some (f, if p_del_item \<noteq> p_item then fmap_exchange p_item p_del_item m else m)))"

definition cl_fmap_remove ::
  "('p, 'k) cl_fmap_t \<Rightarrow> 'k \<Rightarrow> ('p, 'k, 'z) map_mem_scheme \<Rightarrow>
   ('p \<times> ('p, 'k) cl_fmap_t \<times> ('p, 'k, 'z) map_mem_scheme) option" where
  "cl_fmap_remove f key m =
    Option.bind (cl_fmap_get f key m)
      (\<lambda>p_item. Option.bind (cl_fmap_remove_item f p_item m) (\<lambda>(f, m). Some (p_item, f, m)))"

section \<open>Two maps\<close>

partial_function (option) fmap_merge_loop ::
  "('p, 'k) cl_fmap_t \<Rightarrow> ('p, 'k) cl_fmap_t \<Rightarrow> 'p \<Rightarrow> ('p, 'k, 'z) map_mem_scheme \<Rightarrow>
   (('p, 'k) cl_fmap_t \<times> ('p, 'k) cl_fmap_t \<times> ('p, 'k, 'z) map_mem_scheme) option" where
  "fmap_merge_loop dest src p_item m =
    (if p_item \<noteq> cl_fmap_end src
     then
       let p_next = cl_fmap_next p_item m
       in Option.bind (cl_fmap_remove_item src p_item m) (\<lambda>(src, m).
          Option.bind (cl_fmap_insert dest (cl_fmap_key p_item m) p_item m) (\<lambda>(p_item2, dest, m).
          if p_item2 \<noteq> p_item
          then Option.bind (cl_fmap_insert src (cl_fmap_key p_item m) p_item m) (\<lambda>(p_item2, src, m).
               fmap_merge_loop dest src p_next m)
          else fmap_merge_loop dest src p_next m))
     else Some (dest, src, m))"

definition cl_fmap_merge ::
  "('p, 'k) cl_fmap_t \<Rightarrow> ('p, 'k) cl_fmap_t \<Rightarrow> ('p, 'k, 'z) map_mem_scheme \<Rightarrow>
   (('p, 'k) cl_fmap_t \<times> ('p, 'k) cl_fmap_t \<times> ('p, 'k, 'z) map_mem_scheme) option" where
  "cl_fmap_merge dest src m = fmap_merge_loop dest src (cl_fmap_head src m) m"

definition cl_fmap_delta_move ::
  "('p, 'k) cl_fmap_t \<Rightarrow> ('p, 'k) cl_fmap_t \<Rightarrow> 'p \<Rightarrow> ('p, 'k, 'z) map_mem_scheme \<Rightarrow>
   ('p \<times> ('p, 'k) cl_fmap_t \<times> ('p, 'k) cl_fmap_t \<times> ('p, 'k, 'z) map_mem_scheme) option" where
  "cl_fmap_delta_move dest src p_item m =
    (let p_next = cl_fmap_next p_item m
     in Option.bind (cl_fmap_remove_item src p_item m) (\<lambda>(src, m).
        Option.bind (cl_fmap_insert dest (cl_fmap_key p_item m) p_item m) (\<lambda>(p_temp, dest, m).
        Some (p_next, dest, src, m))))"

text \<open>
  The state of \<^verbatim>\<open>cl_fmap_delta\<close> is the four headers and the memory. The first loop walks both
  source maps; the other two move what is left of either.
\<close>

partial_function (option) fmap_delta_loop ::
  "('p, 'k) cl_fmap_t \<Rightarrow> ('p, 'k) cl_fmap_t \<Rightarrow> ('p, 'k) cl_fmap_t \<Rightarrow> ('p, 'k) cl_fmap_t \<Rightarrow>
   'p \<Rightarrow> 'p \<Rightarrow> ('p, 'k, 'z) map_mem_scheme \<Rightarrow>
   (('p, 'k) cl_fmap_t \<times> ('p, 'k) cl_fmap_t \<times> ('p, 'k) cl_fmap_t \<times> ('p, 'k) cl_fmap_t \<times>
    'p \<times> 'p \<times> ('p, 'k, 'z) map_mem_scheme) option" where
  "fmap_delta_loop p_map1 p_map2 new old p_item1 p_item2 m =
    (if p_item1 \<noteq> cl_fmap_end p_map1 \<and> p_item2 \<noteq> cl_fmap_end p_map2
     then
       let cmp = fm_pfn_compare p_map1 (cl_fmap_key p_item1 m) (cl_fmap_key p_item2 m)
       in if cmp < 0 then
            Option.bind (cl_fmap_delta_move old p_map1 p_item1 m) (\<lambda>(p_item1, old, p_map1, m).
              fmap_delta_loop p_map1 p_map2 new old p_item1 p_item2 m)
          else if cmp > 0 then
            Option.bind (cl_fmap_delta_move new p_map2 p_item2 m) (\<lambda>(p_item2, new, p_map2, m).
              fmap_delta_loop p_map1 p_map2 new old p_item1 p_item2 m)
          else fmap_delta_loop p_map1 p_map2 new old (cl_fmap_next p_item1 m) (cl_fmap_next p_item2 m) m
     else Some (p_map1, p_map2, new, old, p_item1, p_item2, m))"

partial_function (option) fmap_delta_rest ::
  "('p, 'k) cl_fmap_t \<Rightarrow> ('p, 'k) cl_fmap_t \<Rightarrow> 'p \<Rightarrow> ('p, 'k, 'z) map_mem_scheme \<Rightarrow>
   (('p, 'k) cl_fmap_t \<times> ('p, 'k) cl_fmap_t \<times> ('p, 'k, 'z) map_mem_scheme) option" where
  "fmap_delta_rest dest src p_item m =
    (if p_item \<noteq> cl_fmap_end src
     then Option.bind (cl_fmap_delta_move dest src p_item m) (\<lambda>(p_item, dest, src, m).
            fmap_delta_rest dest src p_item m)
     else Some (dest, src, m))"

definition cl_fmap_delta ::
  "('p, 'k) cl_fmap_t \<Rightarrow> ('p, 'k) cl_fmap_t \<Rightarrow> ('p, 'k) cl_fmap_t \<Rightarrow> ('p, 'k) cl_fmap_t \<Rightarrow>
   ('p, 'k, 'z) map_mem_scheme \<Rightarrow>
   (('p, 'k) cl_fmap_t \<times> ('p, 'k) cl_fmap_t \<times> ('p, 'k) cl_fmap_t \<times> ('p, 'k) cl_fmap_t \<times>
    ('p, 'k, 'z) map_mem_scheme) option" where
  "cl_fmap_delta p_map1 p_map2 new old m =
    Option.bind (fmap_delta_loop p_map1 p_map2 new old (cl_fmap_head p_map1 m) (cl_fmap_head p_map2 m) m)
      (\<lambda>(p_map1, p_map2, new, old, p_item1, p_item2, m).
    Option.bind (fmap_delta_rest new p_map2 p_item2 m) (\<lambda>(new, p_map2, m).
    Option.bind (fmap_delta_rest old p_map1 p_item1 m) (\<lambda>(old, p_map1, m).
    Some (p_map1, p_map2, new, old, m))))"

end
