(* ===== verification/Qmap.thy ===== *)
theory Qmap
  imports Fmap
begin

text \<open>
  The quick map of \<^verbatim>\<open>cl_qmap.h\<close> and \<^verbatim>\<open>cl_map.c\<close>: the same structure as the flexi map, with 64-bit
  keys compared as unsigned integers in place of the compare callback. The code is a separate
  copy, and so are the definitions; \<open>Qmap_Refine\<close> proves that the two copies agree.
\<close>

record 'p cl_qmap_t =
  qm_root :: 'p
  qm_nil :: 'p
  qm_state :: cl_state_t
  qm_count :: size_t

section \<open>Reading a map\<close>

definition cl_map_root :: "'p cl_qmap_t \<Rightarrow> ('p, u64, 'z) map_mem_scheme \<Rightarrow> 'p" where
  "cl_map_root q m = p_left m (qm_root q)"

definition cl_map_is_left_child :: "'p \<Rightarrow> ('p, u64, 'z) map_mem_scheme \<Rightarrow> bool" where
  "cl_map_is_left_child p_item m \<longleftrightarrow> p_left m (p_up m p_item) = p_item"

definition cl_map_get_parent_ptr_to_item ::
  "'p \<Rightarrow> ('p, u64, 'z) map_mem_scheme \<Rightarrow> 'p link_ptr" where
  "cl_map_get_parent_ptr_to_item p_item m =
    (if cl_map_is_left_child p_item m then LeftOf (p_up m p_item) else RightOf (p_up m p_item))"

definition cl_qmap_count :: "'p cl_qmap_t \<Rightarrow> u32" where
  "cl_qmap_count q = ucast (qm_count q)"

definition cl_is_qmap_empty :: "'p cl_qmap_t \<Rightarrow> bool" where
  "cl_is_qmap_empty q \<longleftrightarrow> qm_count q = 0"

definition cl_qmap_key :: "'p \<Rightarrow> ('p, u64, 'z) map_mem_scheme \<Rightarrow> u64" where
  "cl_qmap_key p_item m = p_key m p_item"

definition cl_qmap_end :: "'p cl_qmap_t \<Rightarrow> 'p" where
  "cl_qmap_end q = qm_nil q"

definition cl_qmap_head :: "'p cl_qmap_t \<Rightarrow> ('p, u64, 'z) map_mem_scheme \<Rightarrow> 'p" where
  "cl_qmap_head q m = p_next m (qm_nil q)"

definition cl_qmap_tail :: "'p cl_qmap_t \<Rightarrow> ('p, u64, 'z) map_mem_scheme \<Rightarrow> 'p" where
  "cl_qmap_tail q m = p_prev m (qm_nil q)"

definition cl_qmap_next :: "'p \<Rightarrow> ('p, u64, 'z) map_mem_scheme \<Rightarrow> 'p" where
  "cl_qmap_next p_item m = p_next m p_item"

definition cl_qmap_prev :: "'p \<Rightarrow> ('p, u64, 'z) map_mem_scheme \<Rightarrow> 'p" where
  "cl_qmap_prev p_item m = p_prev m p_item"

partial_function (option) qmap_get_loop ::
  "'p cl_qmap_t \<Rightarrow> u64 \<Rightarrow> 'p \<Rightarrow> ('p, u64, 'z) map_mem_scheme \<Rightarrow> 'p option" where
  "qmap_get_loop q key p_item m =
    (if p_item \<noteq> qm_nil q
     then if key = p_key m p_item then Some p_item
          else if key < p_key m p_item then qmap_get_loop q key (p_left m p_item) m
          else qmap_get_loop q key (p_right m p_item) m
     else Some p_item)"

definition cl_qmap_get ::
  "'p cl_qmap_t \<Rightarrow> u64 \<Rightarrow> ('p, u64, 'z) map_mem_scheme \<Rightarrow> 'p option" where
  "cl_qmap_get q key m = qmap_get_loop q key (cl_map_root q m) m"

partial_function (option) qmap_get_next_loop ::
  "'p cl_qmap_t \<Rightarrow> u64 \<Rightarrow> 'p \<Rightarrow> 'p \<Rightarrow> ('p, u64, 'z) map_mem_scheme \<Rightarrow> 'p option" where
  "qmap_get_next_loop q key p_item p_item_found m =
    (if p_item \<noteq> qm_nil q
     then if key < p_key m p_item then qmap_get_next_loop q key (p_left m p_item) p_item m
          else qmap_get_next_loop q key (p_right m p_item) p_item_found m
     else Some p_item_found)"

definition cl_qmap_get_next ::
  "'p cl_qmap_t \<Rightarrow> u64 \<Rightarrow> ('p, u64, 'z) map_mem_scheme \<Rightarrow> 'p option" where
  "cl_qmap_get_next q key m = qmap_get_next_loop q key (cl_map_root q m) (qm_nil q) m"

text \<open>The apply callback may change the memory; it is given the item and the memory.\<close>

partial_function (option) qmap_apply_loop ::
  "'p cl_qmap_t \<Rightarrow> ('p \<Rightarrow> ('p, u64, 'z) map_mem_scheme \<Rightarrow> ('p, u64, 'z) map_mem_scheme) \<Rightarrow>
   'p \<Rightarrow> ('p, u64, 'z) map_mem_scheme \<Rightarrow> ('p, u64, 'z) map_mem_scheme option" where
  "qmap_apply_loop q pfn_func p_qmap_item m =
    (if p_qmap_item \<noteq> cl_qmap_end q
     then
       let m = pfn_func p_qmap_item m
       in qmap_apply_loop q pfn_func (cl_qmap_next p_qmap_item m) m
     else Some m)"

definition cl_qmap_apply_func ::
  "'p cl_qmap_t \<Rightarrow> ('p \<Rightarrow> ('p, u64, 'z) map_mem_scheme \<Rightarrow> ('p, u64, 'z) map_mem_scheme) \<Rightarrow>
   ('p, u64, 'z) map_mem_scheme \<Rightarrow> ('p, u64, 'z) map_mem_scheme option" where
  "cl_qmap_apply_func q pfn_func m = qmap_apply_loop q pfn_func (cl_qmap_head q m) m"

section \<open>Rotations\<close>

text \<open>
  \<^verbatim>\<open>pp_root\<close> is dereferenced again at every use, as in the code: the first assignment changes
  what it points to.
\<close>

definition cl_map_rot_left ::
  "'p cl_qmap_t \<Rightarrow> 'p \<Rightarrow> ('p, u64, 'z) map_mem_scheme \<Rightarrow> ('p, u64, 'z) map_mem_scheme" where
  "cl_map_rot_left q p_item m =
    (let pp_root = cl_map_get_parent_ptr_to_item p_item m;
         m = assign pp_root (p_right m p_item) m;
         m = set_up (deref m pp_root) (p_up m p_item) m;
         m = set_right p_item (p_left m (deref m pp_root)) m;
         m = (if p_left m (deref m pp_root) \<noteq> qm_nil q
              then set_up (p_left m (deref m pp_root)) p_item m else m);
         m = set_left (deref m pp_root) p_item m;
         m = set_up p_item (deref m pp_root) m
     in m)"

definition cl_map_rot_right ::
  "'p cl_qmap_t \<Rightarrow> 'p \<Rightarrow> ('p, u64, 'z) map_mem_scheme \<Rightarrow> ('p, u64, 'z) map_mem_scheme" where
  "cl_map_rot_right q p_item m =
    (let pp_root = cl_map_get_parent_ptr_to_item p_item m;
         m = assign pp_root (p_left m p_item) m;
         m = set_up (deref m pp_root) (p_up m p_item) m;
         m = set_left p_item (p_right m (deref m pp_root)) m;
         m = (if p_right m (deref m pp_root) \<noteq> qm_nil q
              then set_up (p_right m (deref m pp_root)) p_item m else m);
         m = set_right (deref m pp_root) p_item m;
         m = set_up p_item (deref m pp_root) m
     in m)"

section \<open>Initialisation\<close>

definition cl_qmap_remove_all ::
  "'p cl_qmap_t \<Rightarrow> ('p, u64, 'z) map_mem_scheme \<Rightarrow>
   'p cl_qmap_t \<times> ('p, u64, 'z) map_mem_scheme" where
  "cl_qmap_remove_all q m =
    (q\<lparr>qm_count := 0\<rparr>,
     (set_left (qm_root q) (qm_nil q) m)
       \<lparr>p_next := (p_next m)(qm_nil q := qm_nil q), p_prev := (p_prev m)(qm_nil q := qm_nil q)\<rparr>)"

text \<open>\<^verbatim>\<open>memset\<close> clears both sentinels, with \<open>p_null\<close> the null address.\<close>

definition cl_qmap_init ::
  "'p \<Rightarrow> 'p cl_qmap_t \<Rightarrow> ('p, u64, 'z) map_mem_scheme \<Rightarrow>
   'p cl_qmap_t \<times> ('p, u64, 'z) map_mem_scheme" where
  "cl_qmap_init p_null q m =
    (let rt = qm_root q; nil = qm_nil q;
         m = fmap_clear_item p_null 0 nil (fmap_clear_item p_null 0 rt m);
         m = set_up rt rt m; m = set_left rt nil m; m = set_right rt nil m;
         m = set_color rt CL_MAP_BLACK m;
         m = set_up nil nil m; m = set_left nil nil m; m = set_right nil nil m;
         m = set_color nil CL_MAP_BLACK m;
         q = q\<lparr>qm_count := 0, qm_state := CL_INITIALIZED\<rparr>
     in cl_qmap_remove_all q m)"

section \<open>Insertion\<close>

partial_function (option) cl_map_ins_bal ::
  "'p cl_qmap_t \<Rightarrow> 'p \<Rightarrow> ('p, u64, 'z) map_mem_scheme \<Rightarrow>
   ('p, u64, 'z) map_mem_scheme option" where
  "cl_map_ins_bal q p_item m =
    (if color m (p_up m p_item) = CL_MAP_RED
     then if cl_map_is_left_child (p_up m p_item) m
       then
         let p_grand_uncle = p_right m (p_up m (p_up m p_item))
         in if color m p_grand_uncle = CL_MAP_RED
           then
             let m = set_color p_grand_uncle CL_MAP_BLACK m;
                 m = set_color (p_up m p_item) CL_MAP_BLACK m;
                 m = set_color (p_up m (p_up m p_item)) CL_MAP_RED m
             in cl_map_ins_bal q (p_up m (p_up m p_item)) m
           else
             let (p_item, m) =
                   (if \<not> cl_map_is_left_child p_item m
                    then (p_up m p_item, cl_map_rot_left q (p_up m p_item) m)
                    else (p_item, m));
                 m = set_color (p_up m p_item) CL_MAP_BLACK m;
                 m = set_color (p_up m (p_up m p_item)) CL_MAP_RED m;
                 m = cl_map_rot_right q (p_up m (p_up m p_item)) m
             in cl_map_ins_bal q p_item m
       else
         let p_grand_uncle = p_left m (p_up m (p_up m p_item))
         in if color m p_grand_uncle = CL_MAP_RED
           then
             let m = set_color p_grand_uncle CL_MAP_BLACK m;
                 m = set_color (p_up m p_item) CL_MAP_BLACK m;
                 m = set_color (p_up m (p_up m p_item)) CL_MAP_RED m
             in cl_map_ins_bal q (p_up m (p_up m p_item)) m
           else
             let (p_item, m) =
                   (if cl_map_is_left_child p_item m
                    then (p_up m p_item, cl_map_rot_right q (p_up m p_item) m)
                    else (p_item, m));
                 m = set_color (p_up m p_item) CL_MAP_BLACK m;
                 m = set_color (p_up m (p_up m p_item)) CL_MAP_RED m;
                 m = cl_map_rot_left q (p_up m (p_up m p_item)) m
             in cl_map_ins_bal q p_item m
     else Some m)"

partial_function (option) qmap_insert_at_loop ::
  "'p cl_qmap_t \<Rightarrow> u64 \<Rightarrow> 'p \<Rightarrow> 'p \<Rightarrow> ('p, u64, 'z) map_mem_scheme \<Rightarrow> ('p + 'p) option" where
  "qmap_insert_at_loop q key p_insert_at p_comp_item m =
    (if p_comp_item \<noteq> qm_nil q
     then
       let p_insert_at = p_comp_item
       in if key = p_key m p_insert_at then Some (Inl p_insert_at)
          else if key < p_key m p_insert_at
          then qmap_insert_at_loop q key p_insert_at (p_left m p_insert_at) m
          else qmap_insert_at_loop q key p_insert_at (p_right m p_insert_at) m
     else Some (Inr p_insert_at))"

definition cl_qmap_insert ::
  "'p cl_qmap_t \<Rightarrow> u64 \<Rightarrow> 'p \<Rightarrow> ('p, u64, 'z) map_mem_scheme \<Rightarrow>
   ('p \<times> 'p cl_qmap_t \<times> ('p, u64, 'z) map_mem_scheme) option" where
  "cl_qmap_insert q key p_item m =
    (let m = set_left p_item (qm_nil q) m;
         m = set_right p_item (qm_nil q) m;
         m = set_key p_item key m;
         m = set_color p_item CL_MAP_RED m
     in Option.bind (qmap_insert_at_loop q key (qm_root q) (cl_map_root q m) m)
       (\<lambda>found. case found of
          Inl p_insert_at \<Rightarrow> Some (p_insert_at, q, m)
        | Inr p_insert_at \<Rightarrow>
            let m = (if p_insert_at = qm_root q then
                       let m = set_left p_insert_at p_item m
                       in cl_primitive_insert (qm_nil q) p_item m
                     else if key < p_key m p_insert_at then
                       let m = set_left p_insert_at p_item m
                       in cl_primitive_insert p_insert_at p_item m
                     else
                       let m = set_right p_insert_at p_item m
                       in cl_primitive_insert (p_next m p_insert_at) p_item m);
                q = q\<lparr>qm_count := qm_count q + 1\<rparr>;
                m = set_up p_item p_insert_at m
            in Option.bind (cl_map_ins_bal q p_item m)
                 (\<lambda>m. Some (p_item, q, set_color (cl_map_root q m) CL_MAP_BLACK m))))"

section \<open>Removal\<close>

text \<open>The tail of the loop body of \<^verbatim>\<open>__cl_map_del_bal\<close>, which ends in \<^verbatim>\<open>break\<close>.\<close>

definition qmap_del_bal_last_left ::
  "'p cl_qmap_t \<Rightarrow> 'p \<Rightarrow> 'p \<Rightarrow> ('p, u64, 'z) map_mem_scheme \<Rightarrow> ('p, u64, 'z) map_mem_scheme" where
  "qmap_del_bal_last_left q p_item p_uncle m =
    (let m = set_color p_uncle (color m (p_up m p_item)) m;
         m = set_color (p_up m p_item) CL_MAP_BLACK m;
         m = set_color (p_right m p_uncle) CL_MAP_BLACK m
     in cl_map_rot_left q (p_up m p_item) m)"

definition qmap_del_bal_last_right ::
  "'p cl_qmap_t \<Rightarrow> 'p \<Rightarrow> 'p \<Rightarrow> ('p, u64, 'z) map_mem_scheme \<Rightarrow> ('p, u64, 'z) map_mem_scheme" where
  "qmap_del_bal_last_right q p_item p_uncle m =
    (let m = set_color p_uncle (color m (p_up m p_item)) m;
         m = set_color (p_up m p_item) CL_MAP_BLACK m;
         m = set_color (p_left m p_uncle) CL_MAP_BLACK m
     in cl_map_rot_right q (p_up m p_item) m)"

text \<open>The loop returns the item it stopped at, which the code then paints black.\<close>

partial_function (option) qmap_del_bal_loop ::
  "'p cl_qmap_t \<Rightarrow> 'p \<Rightarrow> ('p, u64, 'z) map_mem_scheme \<Rightarrow>
   ('p \<times> ('p, u64, 'z) map_mem_scheme) option" where
  "qmap_del_bal_loop q p_item m =
    (if color m p_item \<noteq> CL_MAP_RED \<and> p_up m p_item \<noteq> qm_root q
     then if cl_map_is_left_child p_item m
       then
         let p_uncle = p_right m (p_up m p_item);
             (p_uncle, m) =
               (if color m p_uncle = CL_MAP_RED
                then
                  let m = set_color p_uncle CL_MAP_BLACK m;
                      m = set_color (p_up m p_item) CL_MAP_RED m;
                      m = cl_map_rot_left q (p_up m p_item) m
                  in (p_right m (p_up m p_item), m)
                else (p_uncle, m))
         in if color m (p_right m p_uncle) \<noteq> CL_MAP_RED
           then if color m (p_left m p_uncle) \<noteq> CL_MAP_RED
             then
               let m = set_color p_uncle CL_MAP_RED m
               in qmap_del_bal_loop q (p_up m p_item) m
             else
               let m = set_color (p_left m p_uncle) CL_MAP_BLACK m;
                   m = set_color p_uncle CL_MAP_RED m;
                   m = cl_map_rot_right q p_uncle m;
                   p_uncle = p_right m (p_up m p_item)
               in Some (p_item, qmap_del_bal_last_left q p_item p_uncle m)
           else Some (p_item, qmap_del_bal_last_left q p_item p_uncle m)
       else
         let p_uncle = p_left m (p_up m p_item);
             (p_uncle, m) =
               (if color m p_uncle = CL_MAP_RED
                then
                  let m = set_color p_uncle CL_MAP_BLACK m;
                      m = set_color (p_up m p_item) CL_MAP_RED m;
                      m = cl_map_rot_right q (p_up m p_item) m
                  in (p_left m (p_up m p_item), m)
                else (p_uncle, m))
         in if color m (p_left m p_uncle) \<noteq> CL_MAP_RED
           then if color m (p_right m p_uncle) \<noteq> CL_MAP_RED
             then
               let m = set_color p_uncle CL_MAP_RED m
               in qmap_del_bal_loop q (p_up m p_item) m
             else
               let m = set_color (p_right m p_uncle) CL_MAP_BLACK m;
                   m = set_color p_uncle CL_MAP_RED m;
                   m = cl_map_rot_left q p_uncle m;
                   p_uncle = p_left m (p_up m p_item)
               in Some (p_item, qmap_del_bal_last_right q p_item p_uncle m)
           else Some (p_item, qmap_del_bal_last_right q p_item p_uncle m)
     else Some (p_item, m))"

definition cl_map_del_bal ::
  "'p cl_qmap_t \<Rightarrow> 'p \<Rightarrow> ('p, u64, 'z) map_mem_scheme \<Rightarrow>
   ('p, u64, 'z) map_mem_scheme option" where
  "cl_map_del_bal q p_item m =
    Option.bind (qmap_del_bal_loop q p_item m)
      (\<lambda>(p_item, m). Some (set_color p_item CL_MAP_BLACK m))"

text \<open>The exchange of the removed item with its substitute.\<close>

definition qmap_exchange ::
  "'p \<Rightarrow> 'p \<Rightarrow> ('p, u64, 'z) map_mem_scheme \<Rightarrow> ('p, u64, 'z) map_mem_scheme" where
  "qmap_exchange p_item p_del_item m =
    (let m = set_up p_del_item (p_up m p_item) m;
         m = set_left p_del_item (p_left m p_item) m;
         m = set_right p_del_item (p_right m p_item) m;
         m = assign (cl_map_get_parent_ptr_to_item p_item m) p_del_item m;
         m = set_up (p_right m p_item) p_del_item m;
         m = set_up (p_left m p_item) p_del_item m;
         m = set_color p_del_item (color m p_item) m
     in m)"

definition cl_qmap_remove_item ::
  "'p cl_qmap_t \<Rightarrow> 'p \<Rightarrow> ('p, u64, 'z) map_mem_scheme \<Rightarrow>
   ('p cl_qmap_t \<times> ('p, u64, 'z) map_mem_scheme) option" where
  "cl_qmap_remove_item q p_item m =
    (if p_item = cl_qmap_end q then Some (q, m)
     else
       let p_del_item =
             (if p_right m p_item = qm_nil q \<or> p_left m p_item = qm_nil q then p_item
              else cl_qmap_next p_item m);
           m = cl_primitive_remove p_item m;
           q = q\<lparr>qm_count := qm_count q - 1\<rparr>;
           p_child = (if p_left m p_del_item \<noteq> qm_nil q then p_left m p_del_item
                      else p_right m p_del_item);
           m = set_up p_child (p_up m p_del_item) m;
           m = assign (cl_map_get_parent_ptr_to_item p_del_item m) p_child m
       in Option.bind
            (if color m p_del_item \<noteq> CL_MAP_RED then cl_map_del_bal q p_child m else Some m)
            (\<lambda>m. Some (q, if p_del_item \<noteq> p_item then qmap_exchange p_item p_del_item m else m)))"

definition cl_qmap_remove ::
  "'p cl_qmap_t \<Rightarrow> u64 \<Rightarrow> ('p, u64, 'z) map_mem_scheme \<Rightarrow>
   ('p \<times> 'p cl_qmap_t \<times> ('p, u64, 'z) map_mem_scheme) option" where
  "cl_qmap_remove q key m =
    Option.bind (cl_qmap_get q key m)
      (\<lambda>p_item. Option.bind (cl_qmap_remove_item q p_item m) (\<lambda>(q, m). Some (p_item, q, m)))"

section \<open>Two maps\<close>

partial_function (option) qmap_merge_loop ::
  "'p cl_qmap_t \<Rightarrow> 'p cl_qmap_t \<Rightarrow> 'p \<Rightarrow> ('p, u64, 'z) map_mem_scheme \<Rightarrow>
   ('p cl_qmap_t \<times> 'p cl_qmap_t \<times> ('p, u64, 'z) map_mem_scheme) option" where
  "qmap_merge_loop dest src p_item m =
    (if p_item \<noteq> cl_qmap_end src
     then
       let p_next = cl_qmap_next p_item m
       in Option.bind (cl_qmap_remove_item src p_item m) (\<lambda>(src, m).
          Option.bind (cl_qmap_insert dest (cl_qmap_key p_item m) p_item m) (\<lambda>(p_item2, dest, m).
          if p_item2 \<noteq> p_item
          then Option.bind (cl_qmap_insert src (cl_qmap_key p_item m) p_item m) (\<lambda>(p_item2, src, m).
               qmap_merge_loop dest src p_next m)
          else qmap_merge_loop dest src p_next m))
     else Some (dest, src, m))"

definition cl_qmap_merge ::
  "'p cl_qmap_t \<Rightarrow> 'p cl_qmap_t \<Rightarrow> ('p, u64, 'z) map_mem_scheme \<Rightarrow>
   ('p cl_qmap_t \<times> 'p cl_qmap_t \<times> ('p, u64, 'z) map_mem_scheme) option" where
  "cl_qmap_merge dest src m = qmap_merge_loop dest src (cl_qmap_head src m) m"

definition cl_qmap_delta_move ::
  "'p cl_qmap_t \<Rightarrow> 'p cl_qmap_t \<Rightarrow> 'p \<Rightarrow> ('p, u64, 'z) map_mem_scheme \<Rightarrow>
   ('p \<times> 'p cl_qmap_t \<times> 'p cl_qmap_t \<times> ('p, u64, 'z) map_mem_scheme) option" where
  "cl_qmap_delta_move dest src p_item m =
    (let p_next = cl_qmap_next p_item m
     in Option.bind (cl_qmap_remove_item src p_item m) (\<lambda>(src, m).
        Option.bind (cl_qmap_insert dest (cl_qmap_key p_item m) p_item m) (\<lambda>(p_temp, dest, m).
        Some (p_next, dest, src, m))))"

text \<open>
  The state of \<^verbatim>\<open>cl_qmap_delta\<close> is the four headers and the memory. The first loop walks both
  source maps; the other two move what is left of either.
\<close>

partial_function (option) qmap_delta_loop ::
  "'p cl_qmap_t \<Rightarrow> 'p cl_qmap_t \<Rightarrow> 'p cl_qmap_t \<Rightarrow> 'p cl_qmap_t \<Rightarrow>
   'p \<Rightarrow> 'p \<Rightarrow> ('p, u64, 'z) map_mem_scheme \<Rightarrow>
   ('p cl_qmap_t \<times> 'p cl_qmap_t \<times> 'p cl_qmap_t \<times> 'p cl_qmap_t \<times>
    'p \<times> 'p \<times> ('p, u64, 'z) map_mem_scheme) option" where
  "qmap_delta_loop p_map1 p_map2 new old p_item1 p_item2 m =
    (if p_item1 \<noteq> cl_qmap_end p_map1 \<and> p_item2 \<noteq> cl_qmap_end p_map2
     then
       let key1 = cl_qmap_key p_item1 m; key2 = cl_qmap_key p_item2 m
       in if key1 < key2 then
            Option.bind (cl_qmap_delta_move old p_map1 p_item1 m) (\<lambda>(p_item1, old, p_map1, m).
              qmap_delta_loop p_map1 p_map2 new old p_item1 p_item2 m)
          else if key1 > key2 then
            Option.bind (cl_qmap_delta_move new p_map2 p_item2 m) (\<lambda>(p_item2, new, p_map2, m).
              qmap_delta_loop p_map1 p_map2 new old p_item1 p_item2 m)
          else qmap_delta_loop p_map1 p_map2 new old (cl_qmap_next p_item1 m) (cl_qmap_next p_item2 m) m
     else Some (p_map1, p_map2, new, old, p_item1, p_item2, m))"

partial_function (option) qmap_delta_rest ::
  "'p cl_qmap_t \<Rightarrow> 'p cl_qmap_t \<Rightarrow> 'p \<Rightarrow> ('p, u64, 'z) map_mem_scheme \<Rightarrow>
   ('p cl_qmap_t \<times> 'p cl_qmap_t \<times> ('p, u64, 'z) map_mem_scheme) option" where
  "qmap_delta_rest dest src p_item m =
    (if p_item \<noteq> cl_qmap_end src
     then Option.bind (cl_qmap_delta_move dest src p_item m) (\<lambda>(p_item, dest, src, m).
            qmap_delta_rest dest src p_item m)
     else Some (dest, src, m))"

definition cl_qmap_delta ::
  "'p cl_qmap_t \<Rightarrow> 'p cl_qmap_t \<Rightarrow> 'p cl_qmap_t \<Rightarrow> 'p cl_qmap_t \<Rightarrow>
   ('p, u64, 'z) map_mem_scheme \<Rightarrow>
   ('p cl_qmap_t \<times> 'p cl_qmap_t \<times> 'p cl_qmap_t \<times> 'p cl_qmap_t \<times>
    ('p, u64, 'z) map_mem_scheme) option" where
  "cl_qmap_delta p_map1 p_map2 new old m =
    Option.bind (qmap_delta_loop p_map1 p_map2 new old (cl_qmap_head p_map1 m) (cl_qmap_head p_map2 m) m)
      (\<lambda>(p_map1, p_map2, new, old, p_item1, p_item2, m).
    Option.bind (qmap_delta_rest new p_map2 p_item2 m) (\<lambda>(new, p_map2, m).
    Option.bind (qmap_delta_rest old p_map1 p_item1 m) (\<lambda>(old, p_map1, m).
    Some (p_map1, p_map2, new, old, m))))"

end
