(* ===== verification/Fmap_Heap.thy ===== *)
theory Fmap_Heap
  imports Fmap
begin

text \<open>
  The tree in memory. \<open>rep m n t p u\<close> says that the links of \<open>m\<close> hold the shape \<open>t\<close> below the
  address \<open>p\<close>, with parent \<open>u\<close> and every leaf the address \<open>n\<close>; \<open>ctx m n rt k\<close> says the same of
  the part of a tree around a hole. Together they describe a tree with one place singled out,
  which is what the rotations and the balancing loops act on. Every lemma that the mirrored
  halves of the code share is stated once, for a direction \<open>d\<close> (true for left).
\<close>

section \<open>Links by direction\<close>

definition child :: "bool \<Rightarrow> ('p, 'k, 'z) map_mem_scheme \<Rightarrow> 'p \<Rightarrow> 'p" where
  "child d m p = (if d then p_left m p else p_right m p)"

definition set_child ::
  "bool \<Rightarrow> 'p \<Rightarrow> 'p \<Rightarrow> ('p, 'k, 'z) map_mem_scheme \<Rightarrow> ('p, 'k, 'z) map_mem_scheme" where
  "set_child d p v m = (if d then set_left p v m else set_right p v m)"

definition slot :: "bool \<Rightarrow> 'p \<Rightarrow> 'p link_ptr" where
  "slot d p = (if d then LeftOf p else RightOf p)"

definition rot ::
  "bool \<Rightarrow> 'p \<Rightarrow> 'p \<Rightarrow> ('p, 'k, 'z) map_mem_scheme \<Rightarrow> ('p, 'k, 'z) map_mem_scheme" where
  "rot d n x m =
    (let s = cl_fmap_get_parent_ptr_to_item x m;
         m = assign s (child (\<not> d) m x) m;
         m = set_up (deref m s) (p_up m x) m;
         m = set_child (\<not> d) x (child d m (deref m s)) m;
         m = (if child d m (deref m s) \<noteq> n then set_up (child d m (deref m s)) x m else m);
         m = set_child d (deref m s) x m;
         m = set_up x (deref m s) m
     in m)"

section \<open>Shapes in memory\<close>

fun rep :: "('p, 'k, 'z) map_mem_scheme \<Rightarrow> 'p \<Rightarrow> 'p tree \<Rightarrow> 'p \<Rightarrow> 'p \<Rightarrow> bool" where
  "rep m n Leaf p u \<longleftrightarrow> p = n"
| "rep m n (Node l x r) p u \<longleftrightarrow> p = x \<and> x \<noteq> n \<and> p_up m x = u \<and>
     rep m n l (p_left m x) x \<and> rep m n r (p_right m x) x"

fun hup :: "'p \<Rightarrow> 'p ctx \<Rightarrow> 'p" where
  "hup rt [] = rt"
| "hup rt ((d, y, s) # k) = y"

fun hdir :: "'p ctx \<Rightarrow> bool" where
  "hdir [] = True"
| "hdir ((d, y, s) # k) = d"

definition hole :: "('p, 'k, 'z) map_mem_scheme \<Rightarrow> 'p \<Rightarrow> 'p ctx \<Rightarrow> 'p" where
  "hole m rt k = child (hdir k) m (hup rt k)"

fun ctx :: "('p, 'k, 'z) map_mem_scheme \<Rightarrow> 'p \<Rightarrow> 'p \<Rightarrow> 'p ctx \<Rightarrow> bool" where
  "ctx m n rt [] \<longleftrightarrow> True"
| "ctx m n rt ((d, y, s) # k) \<longleftrightarrow> y \<noteq> n \<and> hole m rt k = y \<and> p_up m y = hup rt k \<and>
     rep m n s (child (\<not> d) m y) y \<and> ctx m n rt k"

definition root_of :: "'p \<Rightarrow> 'p tree \<Rightarrow> 'p" where
  "root_of n t = (case t of Leaf \<Rightarrow> n | Node l x r \<Rightarrow> x)"

text \<open>A whole tree below the root sentinel \<open>rt\<close>, with the subtree \<open>t\<close> singled out.\<close>

definition place :: "('p, 'k, 'z) map_mem_scheme \<Rightarrow> 'p \<Rightarrow> 'p \<Rightarrow> 'p ctx \<Rightarrow> 'p tree \<Rightarrow> bool" where
  "place m n rt k t \<longleftrightarrow> ctx m n rt k \<and> rep m n t (hole m rt k) (hup rt k) \<and>
     tdist t \<and> ctx_dist k \<and> set_tree t \<inter> ctx_set k = {} \<and>
     rt \<notin> set_tree t \<and> rt \<notin> ctx_set k \<and> rt \<noteq> n \<and> n \<notin> ctx_set k"

text \<open>What a step on the tree leaves alone: everything outside the tree and the root link.\<close>

definition tree_frame :: "'p set \<Rightarrow> 'p \<Rightarrow> ('p, 'k, 'z) map_mem_scheme \<Rightarrow> ('p, 'k, 'z) map_mem_scheme \<Rightarrow> bool" where
  "tree_frame S rt m m' \<longleftrightarrow> p_next m' = p_next m \<and> p_prev m' = p_prev m \<and> p_key m' = p_key m \<and>
     map_mem.more m' = map_mem.more m \<and>
     (\<forall>x. x \<notin> S \<longrightarrow> p_up m' x = p_up m x \<and> color m' x = color m x) \<and>
     (\<forall>x. x \<notin> insert rt S \<longrightarrow> p_left m' x = p_left m x) \<and>
     (\<forall>x. x \<notin> S \<longrightarrow> p_right m' x = p_right m x)"

section \<open>Field equations\<close>

lemma set_fields [simp]:
  "p_left (set_left p v m) = (p_left m)(p := v)" "p_right (set_left p v m) = p_right m"
  "p_up (set_left p v m) = p_up m" "color (set_left p v m) = color m"
  "p_key (set_left p v m) = p_key m"
  "p_left (set_right p v m) = p_left m" "p_right (set_right p v m) = (p_right m)(p := v)"
  "p_up (set_right p v m) = p_up m" "color (set_right p v m) = color m"
  "p_key (set_right p v m) = p_key m"
  "p_left (set_up p v m) = p_left m" "p_right (set_up p v m) = p_right m"
  "p_up (set_up p v m) = (p_up m)(p := v)" "color (set_up p v m) = color m"
  "p_key (set_up p v m) = p_key m"
  "p_left (set_color p c m) = p_left m" "p_right (set_color p c m) = p_right m"
  "p_up (set_color p c m) = p_up m" "color (set_color p c m) = (color m)(p := c)"
  "p_key (set_color p c m) = p_key m"
  "p_left (set_key p q m) = p_left m" "p_right (set_key p q m) = p_right m"
  "p_up (set_key p q m) = p_up m" "color (set_key p q m) = color m"
  "p_key (set_key p q m) = (p_key m)(p := q)"
  by (simp_all add: set_left_def set_right_def set_up_def set_color_def set_key_def)

lemma set_links [simp]:
  "p_next (set_left p v m) = p_next m" "p_prev (set_left p v m) = p_prev m"
  "p_next (set_right p v m) = p_next m" "p_prev (set_right p v m) = p_prev m"
  "p_next (set_up p v m) = p_next m" "p_prev (set_up p v m) = p_prev m"
  "p_next (set_color p c m) = p_next m" "p_prev (set_color p c m) = p_prev m"
  "p_next (set_key p q m) = p_next m" "p_prev (set_key p q m) = p_prev m"
  "map_mem.more (set_left p v m) = map_mem.more m"
  "map_mem.more (set_right p v m) = map_mem.more m"
  "map_mem.more (set_up p v m) = map_mem.more m"
  "map_mem.more (set_color p c m) = map_mem.more m"
  "map_mem.more (set_key p q m) = map_mem.more m"
  by (simp_all add: set_left_def set_right_def set_up_def set_color_def set_key_def)

lemma child_set [simp]:
  "child d (set_child d' p v m) = (if d = d' then (child d m)(p := v) else child d m)"
  "child d (set_up p v m) = child d m" "child d (set_color p c m) = child d m"
  "child d (set_key p q m) = child d m"
  by (auto simp: child_def set_child_def fun_eq_iff)

lemma set_child_fields [simp]:
  "p_up (set_child d p v m) = p_up m" "color (set_child d p v m) = color m"
  "p_key (set_child d p v m) = p_key m" "p_next (set_child d p v m) = p_next m"
  "p_prev (set_child d p v m) = p_prev m" "map_mem.more (set_child d p v m) = map_mem.more m"
  by (auto simp: set_child_def)

lemma primitive_map_fields [simp]:
  "p_left (cl_primitive_insert y x m) = p_left m" "p_right (cl_primitive_insert y x m) = p_right m"
  "p_up (cl_primitive_insert y x m) = p_up m" "color (cl_primitive_insert y x m) = color m"
  "p_key (cl_primitive_insert y x m) = p_key m"
  "map_mem.more (cl_primitive_insert y x m) = map_mem.more m"
  "child d (cl_primitive_insert y x m) = child d m"
  "p_left (cl_primitive_remove x m) = p_left m" "p_right (cl_primitive_remove x m) = p_right m"
  "p_up (cl_primitive_remove x m) = p_up m" "color (cl_primitive_remove x m) = color m"
  "p_key (cl_primitive_remove x m) = p_key m"
  "map_mem.more (cl_primitive_remove x m) = map_mem.more m"
  "child d (cl_primitive_remove x m) = child d m"
  by (simp_all add: cl_primitive_insert_def cl_primitive_remove_def Let_def child_def fun_eq_iff)

lemma slot_simps [simp]: "deref m (slot d p) = child d m p" "assign (slot d p) v m = set_child d p v m"
  by (auto simp: slot_def child_def set_child_def)

lemma child_True_False: "child True m = p_left m" "child False m = p_right m"
  by (auto simp: child_def fun_eq_iff)

lemma rot_left_dir: "cl_fmap_rot_left f x m = rot True (fm_nil f) x m"
  unfolding cl_fmap_rot_left_def rot_def set_child_def not_True_eq_False not_False_eq_True
    child_True_False if_True if_False
  by (rule refl)

lemma rot_right_dir: "cl_fmap_rot_right f x m = rot False (fm_nil f) x m"
  unfolding cl_fmap_rot_right_def rot_def set_child_def not_True_eq_False not_False_eq_True
    child_True_False if_True if_False
  by (rule refl)

section \<open>Frames and composition\<close>

lemma rep_node_d [simp]:
  "rep m n (node_d d a x b) p u \<longleftrightarrow> p = x \<and> x \<noteq> n \<and> p_up m x = u \<and>
     rep m n a (child d m x) x \<and> rep m n b (child (\<not> d) m x) x"
  by (auto simp: node_d_def child_def)

lemma rep_root: "rep m n t p u \<Longrightarrow> p = root_of n t"
  by (cases t) (auto simp: root_of_def)

lemma root_of_simps [simp]:
  "root_of n Leaf = n" "root_of n (Node l x r) = x" "root_of n (node_d d a x b) = x"
  by (auto simp: root_of_def node_d_def)

lemma root_of_in: "root_of n t \<in> insert n (set_tree t)"
  by (cases t) auto

lemma root_of_eq_nil: "n \<notin> set_tree t \<Longrightarrow> root_of n t = n \<longleftrightarrow> t = Leaf"
  by (cases t) auto

lemma rep_nil: "rep m n t p u \<Longrightarrow> n \<notin> set_tree t"
  by (induction t arbitrary: p u) auto

lemma rep_cong:
  assumes "\<And>x. x \<in> set_tree t \<Longrightarrow>
    p_left m' x = p_left m x \<and> p_right m' x = p_right m x \<and> p_up m' x = p_up m x"
  shows "rep m' n t p u = rep m n t p u"
  using assms by (induction t arbitrary: p u) auto

lemma rep_cong_d:
  assumes "\<And>x d. x \<in> set_tree t \<Longrightarrow> child d m' x = child d m x"
    and "\<And>x. x \<in> set_tree t \<Longrightarrow> p_up m' x = p_up m x"
  shows "rep m' n t p u = rep m n t p u"
proof (rule rep_cong)
  fix x assume "x \<in> set_tree t"
  with assms(1) [of x True] assms(1) [of x False] assms(2) [of x]
  show "p_left m' x = p_left m x \<and> p_right m' x = p_right m x \<and> p_up m' x = p_up m x"
    by (simp add: child_def)
qed

text \<open>A subtree whose root gets another parent.\<close>

lemma rep_reroot:
  assumes "rep m n t p u" and "\<And>x d. x \<in> set_tree t \<Longrightarrow> child d m' x = child d m x"
    and "\<And>x. x \<in> set_tree t \<Longrightarrow> x \<noteq> p \<Longrightarrow> p_up m' x = p_up m x"
    and "t \<noteq> Leaf \<Longrightarrow> p_up m' p = u'" and "tdist t"
  shows "rep m' n t p u'"
proof (cases t)
  case Leaf
  with assms(1) show ?thesis by simp
next
  case (Node l x r)
  have ch: "p_left m' y = p_left m y" "p_right m' y = p_right m y" if "y \<in> set_tree t" for y
    using assms(2) [OF that, of True] assms(2) [OF that, of False] by (simp_all add: child_def)
  have "rep m' n l (p_left m x) x = rep m n l (p_left m x) x"
    "rep m' n r (p_right m x) x = rep m n r (p_right m x) x"
    by (rule rep_cong; use assms Node ch in auto)+
  with assms Node ch show ?thesis by simp
qed

lemma rep_plug:
  "rep m n (plug k t) (p_left m rt) rt \<longleftrightarrow> ctx m n rt k \<and> rep m n t (hole m rt k) (hup rt k)"
  by (induction k t rule: plug.induct) (auto simp: hole_def child_True_False)

text \<open>
  A context survives changes that leave the links of its nodes alone, the link to the hole
  excepted.
\<close>

lemma ctx_cong:
  assumes "\<And>x. x \<in> ctx_set k \<Longrightarrow> p_up m' x = p_up m x"
    and "\<And>x d. x \<in> insert rt (ctx_set k) \<Longrightarrow> (d, x) \<noteq> (hdir k, hup rt k) \<Longrightarrow>
      child d m' x = child d m x"
    and "ctx_dist k" "rt \<notin> ctx_set k"
  shows "ctx m' n rt k = ctx m n rt k"
  using assms
proof (induction k rule: ctx_set.induct)
  case (2 d y s k)
  have s: "rep m' n s p u = rep m n s p u" for p u
    by (rule rep_cong_d) (use 2 in \<open>auto\<close>)
  have "ctx m' n rt k = ctx m n rt k"
    by (rule 2(1)) (use 2 in \<open>auto\<close>)
  moreover have "hup rt k \<noteq> y" "hup rt k \<in> insert rt (ctx_set k)"
    using 2 by (cases k rule: ctx_set.cases; auto)+
  then have "hole m' rt k = hole m rt k"
    unfolding hole_def using "2.prems"(2) [of "hup rt k" "hdir k"] by auto
  moreover have "child (\<not> d) m' y = child (\<not> d) m y"
    using "2.prems"(2) [of y "\<not> d"] by auto
  ultimately show ?case using s "2.prems"(1) [of y] by simp
qed simp

lemma ctx_hup: "hup rt k \<in> insert rt (ctx_set k)"
  by (cases k rule: ctx_set.cases) auto

lemma hup_root: "hup rt k = rt \<Longrightarrow> rt \<notin> ctx_set k \<Longrightarrow> k = []"
  by (cases k rule: ctx_set.cases) auto

text \<open>The place an item hangs from, read off the context.\<close>

lemma parent_ptr_ctx:
  assumes "ctx m n rt k" and "p_up m x = hup rt k" and "hole m rt k = x"
    and "x \<noteq> n" "x \<notin> ctx_set k"
  shows "cl_fmap_get_parent_ptr_to_item x m = slot (hdir k) (hup rt k)"
    and "cl_fmap_is_left_child x m = hdir k"
proof -
  show l: "cl_fmap_is_left_child x m = hdir k"
  proof (cases k rule: ctx_set.cases)
    case 1
    with assms show ?thesis by (simp add: cl_fmap_is_left_child_def hole_def child_def)
  next
    case (2 d y s k')
    have "child (\<not> d) m y \<noteq> x"
      using assms 2 rep_root [of m n s "child (\<not> d) m y" y] root_of_in [of n s] by auto
    with assms 2 show ?thesis
      by (cases d) (auto simp: cl_fmap_is_left_child_def hole_def child_def)
  qed
  with assms(2) show "cl_fmap_get_parent_ptr_to_item x m = slot (hdir k) (hup rt k)"
    by (simp add: cl_fmap_get_parent_ptr_to_item_def slot_def)
qed

text \<open>Filling the hole with another address.\<close>

lemma ctx_assign:
  assumes "ctx m n rt k" "ctx_dist k" "rt \<notin> ctx_set k"
  shows "ctx (set_child (hdir k) (hup rt k) v m) n rt k"
    and "hole (set_child (hdir k) (hup rt k) v m) rt k = v"
proof -
  have "ctx (set_child (hdir k) (hup rt k) v m) n rt k = ctx m n rt k"
    by (rule ctx_cong) (use assms in auto)
  with assms show "ctx (set_child (hdir k) (hup rt k) v m) n rt k" by simp
qed (simp add: hole_def)

section \<open>The rotation\<close>

lemma rot_eq:
  assumes "cl_fmap_get_parent_ptr_to_item x m = slot d0 u" and "p_up m x = u"
    and "child (\<not> d) m x = y" and "child d m y = w" and "x \<noteq> y" "u \<noteq> x" "u \<noteq> y"
  shows "rot d n x m =
    set_up x y (set_child d y x ((if w \<noteq> n then set_up w x else id)
      (set_child (\<not> d) x w (set_up y u (set_child d0 u y m)))))"
  using assms by (auto simp: rot_def Let_def)

text \<open>
  Rotating at \<open>x\<close> turns \<open>a x (b y c)\<close> into \<open>(a x b) y c\<close> (for the left rotation; mirrored for
  the right one), with the context, the colours and the thread as they were.
\<close>

lemma rot_fields [simp]:
  "color (rot d n x m) = color m" "p_key (rot d n x m) = p_key m"
  "p_next (rot d n x m) = p_next m" "p_prev (rot d n x m) = p_prev m"
  "map_mem.more (rot d n x m) = map_mem.more m"
  by (cases "cl_fmap_get_parent_ptr_to_item x m"; simp add: rot_def Let_def)+

lemma place_plug:
  "place m n rt k t \<longleftrightarrow> rep m n (plug k t) (p_left m rt) rt \<and> tdist (plug k t) \<and>
     rt \<notin> set_tree (plug k t) \<and> rt \<noteq> n"
  using rep_nil [of m n "plug k t" "p_left m rt" rt] by (auto simp: place_def rep_plug)

lemma place_color [simp]: "place (set_color p c m) n rt k t = place m n rt k t"
  unfolding place_plug using rep_cong [of "plug k t" "set_color p c m" m] by simp

lemma tree_frame_refl [simp]: "tree_frame S rt m m"
  by (simp add: tree_frame_def)

lemma tree_frame_trans:
  "tree_frame S rt m m' \<Longrightarrow> tree_frame S rt m' m'' \<Longrightarrow> tree_frame S rt m m''"
  by (auto simp: tree_frame_def)

lemma tree_frame_color: "p \<in> S \<Longrightarrow> tree_frame S rt m m' \<Longrightarrow> tree_frame S rt m (set_color p c m')"
  by (auto simp: tree_frame_def)

lemma rot_links:
  assumes "place m n rt k (node_d d a x (node_d d b y c))"
  shows "p_up (rot d n x m) = (if b = Leaf then (p_up m)(y := hup rt k, x := y)
      else (p_up m)(y := hup rt k, root_of n b := x, x := y))"
    and "child d' (rot d n x m) = (\<lambda>q. if q = x \<and> d' = (\<not> d) then root_of n b
      else if q = y \<and> d' = d then x
      else if q = hup rt k \<and> d' = hdir k then y else child d' m q)"
proof -
  let ?u = "hup rt k" and ?w = "root_of n b"
  from assms have k: "ctx m n rt k"
    and x: "x \<noteq> n" "p_up m x = ?u" "hole m rt k = x" "child (\<not> d) m x = y"
    and b: "rep m n b (child d m y) y" and xy: "x \<notin> ctx_set k" "x \<noteq> y"
    by (auto simp: place_def)
  have u: "?u \<noteq> x" "?u \<noteq> y"
    using ctx_hup [of rt k] assms by (auto simp: place_def)
  have m: "rot d n x m = set_up x y (set_child d y x ((if ?w \<noteq> n then set_up ?w x else id)
      (set_child (\<not> d) x ?w (set_up y ?u (set_child (hdir k) ?u y m)))))"
    by (rule rot_eq) (use x rep_root [OF b] u xy parent_ptr_ctx [OF k x(2,3,1)] in auto)
  show "p_up (rot d n x m) = (if b = Leaf then (p_up m)(y := ?u, x := y)
      else (p_up m)(y := ?u, ?w := x, x := y))"
    unfolding m using root_of_eq_nil [OF rep_nil [OF b]] by auto
  show "child d' (rot d n x m) = (\<lambda>q. if q = x \<and> d' = (\<not> d) then ?w
      else if q = y \<and> d' = d then x else if q = ?u \<and> d' = hdir k then y else child d' m q)"
    unfolding m using u xy by (auto simp: fun_eq_iff)
qed

lemma rot_place:
  assumes "place m n rt k (node_d d a x (node_d d b y c))"
  shows "place (rot d n x m) n rt k (node_d d (node_d d a x b) y c)"
    and "tree_frame (insert x (insert y (set_tree b \<union> ctx_set k))) rt m (rot d n x m)"
proof -
  let ?u = "hup rt k" and ?m = "rot d n x m" and ?w = "root_of n b"
  note up = rot_links(1) [OF assms] and ch = rot_links(2) [OF assms]
  from assms have k: "ctx m n rt k" and dk: "ctx_dist k" "rt \<notin> ctx_set k" "n \<notin> ctx_set k" "rt \<noteq> n"
    and dt: "tdist (node_d d a x (node_d d b y c))" "rt \<notin> set_tree (node_d d a x (node_d d b y c))"
    and disj: "set_tree (node_d d a x (node_d d b y c)) \<inter> ctx_set k = {}"
    and x: "x \<noteq> n" "y \<noteq> n" and a: "rep m n a (child d m x) x"
    and b: "rep m n b (child d m y) y" and c: "rep m n c (child (\<not> d) m y) y"
    by (auto simp: place_def)
  have w: "child d m y = ?w" by (rule rep_root [OF b])
  have u: "?u \<in> insert rt (ctx_set k)" "?u \<noteq> x" "?u \<noteq> y" "?u \<notin> set_tree a" "?u \<notin> set_tree b"
    "?u \<notin> set_tree c"
    using ctx_hup [of rt k] disj dt dk by auto
  have nb: "n \<notin> set_tree b" by (rule rep_nil [OF b])
  have wb: "?w \<in> insert n (set_tree b)" by (rule root_of_in)
  have upo: "p_up ?m q = p_up m q" if "q \<notin> insert x (insert y (set_tree b))" for q
    using that up wb root_of_eq_nil [OF nb] by auto
  have cho: "child d' ?m q = child d' m q" if "q \<notin> {x, y, ?u}" for q d'
    using that ch by auto
  have rac: "rep ?m n a p q = rep m n a p q" "rep ?m n c p q = rep m n c p q" for p q
    by (rule rep_cong_d; rule upo cho; use dt u in auto)+
  have rb: "rep ?m n b ?w x"
  proof (rule rep_reroot [where m = m and u = y])
    show "child d' ?m q = child d' m q" if "q \<in> set_tree b" for q d'
      by (rule cho) (use that dt u in auto)
    show "p_up ?m ?w = x" if "b \<noteq> Leaf"
      using that up wb root_of_eq_nil [OF nb] dt by auto
    show "p_up ?m q = p_up m q" if "q \<in> set_tree b" "q \<noteq> ?w" for q
      using that up dt by auto
  qed (use b w dt in auto)
  have rk: "ctx ?m n rt k"
  proof -
    have "ctx ?m n rt k = ctx m n rt k"
      by (rule ctx_cong) (use dk disj dt ch in \<open>auto intro!: upo\<close>)
    with k show ?thesis by simp
  qed
  have hole: "hole ?m rt k = y" using ch u by (simp add: hole_def)
  show "tree_frame (insert x (insert y (set_tree b \<union> ctx_set k))) rt m ?m"
    using u(1) upo cho [of _ True] cho [of _ False] ch [of False] hup_root [of rt k] dk
    by (auto simp: tree_frame_def child_True_False)
  have "p_up ?m y = ?u" "p_up ?m x = y" using up dt wb x by auto
  moreover have "child d ?m y = x" "child (\<not> d) ?m y = child (\<not> d) m y"
    "child d ?m x = child d m x" "child (\<not> d) ?m x = ?w"
    using ch u dt by auto
  moreover have "tdist (node_d d (node_d d a x b) y c)" using dt by auto
  ultimately show "place ?m n rt k (node_d d (node_d d a x b) y c)"
    unfolding place_def using rk hole rac rb a c dt(2) dk disj x(1,2) by auto
qed

section \<open>Moving the place\<close>

lemma node_d_flip: "node_d d a x b = node_d (\<not> d) b x a"
  by (simp add: node_d_def)

lemma place_up: "place m n rt ((d, y, s) # k) t \<longleftrightarrow> place m n rt k (node_d d t y s)"
  unfolding place_plug by simp

lemma place_top: "place m n rt k t \<longleftrightarrow> place m n rt [] (plug k t)"
  unfolding place_plug by simp

lemma place_distinct:
  assumes "place m n rt k t"
  shows "tdist t" "set_tree t \<inter> ctx_set k = {}" "n \<notin> set_tree t" "rt \<notin> set_tree t"
    "ctx_dist k" "n \<notin> ctx_set k" "rt \<notin> ctx_set k" "rt \<noteq> n"
  using assms rep_nil [of m n t "hole m rt k" "hup rt k"] by (simp_all add: place_def)

lemma place_is_left:
  assumes "place m n rt k (node_d d a x b)"
  shows "cl_fmap_is_left_child x m = hdir k" "p_up m x = hup rt k"
  using assms parent_ptr_ctx(2) [of m n rt k x] by (auto simp: place_def)

lemma place_child:
  assumes "place m n rt k (node_d d a x b)"
  shows "child d m x = root_of n a" "child (\<not> d) m x = root_of n b"
  using assms rep_root by (auto simp: place_def)

lemma place_child_up:
  assumes "place m n rt k (node_d d (node_d e a y b) x c)"
  shows "p_up m y = x"
  using assms by (auto simp: place_def)

lemma color_root_of: "color m n = CL_MAP_BLACK \<Longrightarrow> color m (root_of n t) = rootcol (color m) t"
  by (cases t) auto

lemma tree_frame_mono: "tree_frame S rt m m' \<Longrightarrow> S \<subseteq> S' \<Longrightarrow> tree_frame S' rt m m'"
  unfolding tree_frame_def by blast

end
