(* ===== verification/Fmap_Inv.thy ===== *)
theory Fmap_Inv
  imports Fmap_Heap
begin

text \<open>
  The invariant of a flexi map and what the reading operations return on a map that satisfies
  it. \<open>fmap_wf f m xs\<close> says that the header \<open>f\<close> in the memory \<open>m\<close> holds exactly the items \<open>xs\<close>
  in key order: they are the in-order sequence of a red-black tree below the root sentinel and
  the thread through the nil sentinel, and the count is their number. The order is that of the
  compare callback, whose laws are the assumptions of the locale \<open>fmap_compare\<close>.
\<close>

section \<open>The invariant\<close>

definition fmap_tree :: "('p, 'k) cl_fmap_t \<Rightarrow> ('p, 'k, 'z) map_mem_scheme \<Rightarrow> 'p tree \<Rightarrow> bool" where
  "fmap_tree f m t \<longleftrightarrow> place m (fm_nil f) (fm_root f) [] t \<and> rb_tree (color m) t \<and>
     color m (fm_nil f) = CL_MAP_BLACK \<and> color m (fm_root f) = CL_MAP_BLACK \<and>
     p_up m (fm_root f) = fm_root f"

definition key_before ::
  "('p, 'k) cl_fmap_t \<Rightarrow> ('p, 'k, 'z) map_mem_scheme \<Rightarrow> 'p \<Rightarrow> 'p \<Rightarrow> bool" where
  "key_before f m x y \<longleftrightarrow> fm_pfn_compare f (p_key m x) (p_key m y) < 0"

definition fmap_wf :: "('p, 'k) cl_fmap_t \<Rightarrow> ('p, 'k, 'z) map_mem_scheme \<Rightarrow> 'p list \<Rightarrow> bool" where
  "fmap_wf f m xs \<longleftrightarrow> (\<exists>t. fmap_tree f m t \<and> inorder t = xs) \<and> qlist_at m (fm_nil f) xs \<and>
     sorted_wrt (key_before f m) xs \<and> fm_count f = of_nat (length xs) \<and>
     fm_state f = CL_INITIALIZED"

text \<open>Memory agrees outside the set \<open>A\<close>.\<close>

definition same_outside ::
  "'p set \<Rightarrow> ('p, 'k, 'z) map_mem_scheme \<Rightarrow> ('p, 'k, 'z) map_mem_scheme \<Rightarrow> bool" where
  "same_outside A m m' \<longleftrightarrow> map_mem.more m' = map_mem.more m \<and>
     (\<forall>x. x \<notin> A \<longrightarrow> p_next m' x = p_next m x \<and> p_prev m' x = p_prev m x \<and>
       p_left m' x = p_left m x \<and> p_right m' x = p_right m x \<and> p_up m' x = p_up m x \<and>
       color m' x = color m x \<and> p_key m' x = p_key m x)"

definition fmap_area :: "('p, 'k) cl_fmap_t \<Rightarrow> 'p list \<Rightarrow> 'p set" where
  "fmap_area f xs = insert (fm_root f) (insert (fm_nil f) (set xs))"

text \<open>
  The comparison a search uses, and what a search by the comparison \<open>c\<close> among the items \<open>S\<close>
  returns.
\<close>

definition chosen_compare :: "('p, 'k) cl_fmap_t \<Rightarrow> ('k \<Rightarrow> 'k \<Rightarrow> int) option \<Rightarrow> 'k \<Rightarrow> 'k \<Rightarrow> int" where
  "chosen_compare f pfn = (case pfn of Some c \<Rightarrow> c | None \<Rightarrow> fm_pfn_compare f)"

definition match_result :: "('p \<Rightarrow> int) \<Rightarrow> 'p \<Rightarrow> 'p set \<Rightarrow> 'p \<Rightarrow> bool" where
  "match_result c n S r \<longleftrightarrow> (if \<exists>x\<in>S. c x = 0 then r \<in> S \<and> c r = 0 else r = n)"

section \<open>The compare callback\<close>

locale fmap_compare =
  fixes cmp :: "'k \<Rightarrow> 'k \<Rightarrow> int"
  assumes cmp_swap: "cmp a b < 0 \<longleftrightarrow> 0 < cmp b a"
    and cmp_trans: "cmp a b \<le> 0 \<Longrightarrow> cmp b c \<le> 0 \<Longrightarrow> cmp a c \<le> 0"
begin

lemma cmp_eq_swap: "cmp a b = 0 \<longleftrightarrow> cmp b a = 0"
  using cmp_swap [of a b] cmp_swap [of b a] by linarith

lemma cmp_refl: "cmp a a = 0"
  using cmp_swap [of a a] by linarith

lemma cmp_less_le: "cmp a b < 0 \<Longrightarrow> cmp b c \<le> 0 \<Longrightarrow> cmp a c < 0"
  using cmp_trans [of b c a] cmp_trans [of a b c] cmp_swap [of a b] cmp_swap [of a c] cmp_eq_swap [of a c]
  by linarith

lemma cmp_le_less: "cmp a b \<le> 0 \<Longrightarrow> cmp b c < 0 \<Longrightarrow> cmp a c < 0"
  using cmp_trans [of c a b] cmp_trans [of a b c] cmp_swap [of b c] cmp_swap [of a c] cmp_eq_swap [of a c]
  by linarith

lemma cmp_less_trans: "cmp a b < 0 \<Longrightarrow> cmp b c < 0 \<Longrightarrow> cmp a c < 0"
  using cmp_less_le [of a b c] by simp

text \<open>Seen from one key, the comparisons along a sorted sequence only decrease in sign.\<close>

lemma cmp_sgn_mono: "cmp x y < 0 \<Longrightarrow> sgn (cmp key y) \<le> sgn (cmp key x)"
  using cmp_less_trans [of key x y] cmp_le_less [of key x y]
  by (cases "cmp key x \<le> 0") (auto simp: sgn_if)

lemma cmp_sorted_sgn:
  "sorted_wrt (\<lambda>x y. cmp (g x) (g y) < 0) xs \<Longrightarrow>
   sorted_wrt (\<lambda>x y. sgn (cmp key (g y)) \<le> sgn (cmp key (g x))) xs"
  by (erule sorted_wrt_mono_rel [rotated]) (rule cmp_sgn_mono)

text \<open>At most one item of a sorted sequence has a given key.\<close>

lemma cmp_sorted_unique:
  assumes "sorted_wrt (\<lambda>x y. cmp (g x) (g y) < 0) xs"
    and "x \<in> set xs" "y \<in> set xs" "cmp key (g x) = 0" "cmp key (g y) = 0"
  shows "x = y"
proof (rule ccontr)
  assume "x \<noteq> y"
  then have "cmp (g x) (g y) < 0 \<or> cmp (g y) (g x) < 0"
    using assms(1-3) by (induction xs) auto
  then show False
    using cmp_le_less [of key "g x" "g y"] cmp_le_less [of key "g y" "g x"] assms(4,5) by auto
qed

end

section \<open>Frames\<close>

lemma same_outside_refl [simp]: "same_outside A m m"
  by (simp add: same_outside_def)

lemma same_outside_trans:
  "same_outside A m m' \<Longrightarrow> same_outside A m' m'' \<Longrightarrow> same_outside A m m''"
  by (simp add: same_outside_def)

lemma same_outside_mono: "same_outside A m m' \<Longrightarrow> A \<subseteq> B \<Longrightarrow> same_outside B m m'"
  unfolding same_outside_def by blast

lemma tree_frame_outside: "tree_frame S rt m m' \<Longrightarrow> same_outside (insert rt S) m m'"
  by (simp add: tree_frame_def same_outside_def)

lemma tree_frame_list: "tree_frame S rt m m' \<Longrightarrow> qlist_at m' e xs = qlist_at m e xs"
  by (rule qlist_at_cong) (simp add: tree_frame_def)

lemma same_outside_sets:
  "p \<in> A \<Longrightarrow> same_outside A m (set_left p v m)" "p \<in> A \<Longrightarrow> same_outside A m (set_right p v m)"
  "p \<in> A \<Longrightarrow> same_outside A m (set_up p v m)" "p \<in> A \<Longrightarrow> same_outside A m (set_color p c m)"
  "p \<in> A \<Longrightarrow> same_outside A m (set_key p q m)"
  by (auto simp: same_outside_def)

text \<open>A map depends on its area only, and is untouched by what happens outside.\<close>

definition agree_on ::
  "'p set \<Rightarrow> ('p, 'k, 'z) map_mem_scheme \<Rightarrow> ('p, 'k, 'z) map_mem_scheme \<Rightarrow> bool" where
  "agree_on A m m' \<longleftrightarrow> (\<forall>x\<in>A. p_next m' x = p_next m x \<and> p_prev m' x = p_prev m x \<and>
     p_left m' x = p_left m x \<and> p_right m' x = p_right m x \<and> p_up m' x = p_up m x \<and>
     color m' x = color m x \<and> p_key m' x = p_key m x)"

lemma fmap_wf_cong:
  assumes "fmap_wf f m xs" and "agree_on (fmap_area f xs) m m'"
  shows "fmap_wf f m' xs"
proof -
  have same: "p_next m' x = p_next m x" "p_prev m' x = p_prev m x" "p_left m' x = p_left m x"
    "p_right m' x = p_right m x" "p_up m' x = p_up m x" "color m' x = color m x"
    "p_key m' x = p_key m x" if "x \<in> fmap_area f xs" for x
    using that assms(2) unfolding agree_on_def by blast+
  from assms(1) obtain t where t: "fmap_tree f m t" "inorder t = xs" by (auto simp: fmap_wf_def)
  have S: "set_tree t = set xs" using t(2) by (metis set_inorder)
  have "rep m' n t p u = rep m n t p u" for n p u
    by (rule rep_cong) (use S same in \<open>auto simp: fmap_area_def\<close>)
  moreover have "rb_tree (color m') t = rb_tree (color m) t"
    unfolding rb_tree_def using S same shape_cong [of t "color m'" "color m"]
    by (simp add: fmap_area_def)
  ultimately have "fmap_tree f m' t"
    using t(1) same by (simp add: fmap_tree_def place_plug fmap_area_def)
  moreover have "qlist_at m' (fm_nil f) xs = qlist_at m (fm_nil f) xs"
    by (rule qlist_at_cong) (use same in \<open>auto simp: fmap_area_def\<close>)
  moreover have "sorted_wrt (key_before f m') xs"
  proof -
    have "sorted_wrt (key_before f m) xs" using assms(1) by (simp add: fmap_wf_def)
    then show ?thesis
      by (rule sorted_wrt_mono_rel [rotated]) (use same in \<open>auto simp: fmap_area_def key_before_def\<close>)
  qed
  ultimately show ?thesis using assms(1) t(2) by (auto simp: fmap_wf_def)
qed

lemma fmap_wf_frame:
  assumes "fmap_wf f m xs" and "same_outside A m m'" and "A \<inter> fmap_area f xs = {}"
  shows "fmap_wf f m' xs"
  by (rule fmap_wf_cong [OF assms(1)]) (use assms(2,3) in \<open>auto simp: agree_on_def same_outside_def\<close>)

section \<open>Reading\<close>

lemma fmap_wf_distinct: "fmap_wf f m xs \<Longrightarrow> distinct xs"
  by (auto simp: fmap_wf_def qlist_at_def)

lemma fmap_wf_sentinels:
  assumes "fmap_wf f m xs"
  shows "fm_nil f \<notin> set xs" "fm_root f \<notin> set xs" "fm_root f \<noteq> fm_nil f"
proof -
  from assms obtain t where t: "fmap_tree f m t" "inorder t = xs" by (auto simp: fmap_wf_def)
  then have "set_tree t = set xs" by (metis set_inorder)
  with t(1) place_distinct(3,4,8) [of m "fm_nil f" "fm_root f" "[]" t]
  show "fm_nil f \<notin> set xs" "fm_root f \<notin> set xs" "fm_root f \<noteq> fm_nil f"
    by (auto simp: fmap_tree_def)
qed

lemma fmap_head: "fmap_wf f m xs \<Longrightarrow> cl_fmap_head f m = hd (xs @ [fm_nil f])"
  by (auto simp: fmap_wf_def cl_fmap_head_def dest: qlist_at_first)

lemma fmap_tail: "fmap_wf f m xs \<Longrightarrow> cl_fmap_tail f m = last (fm_nil f # xs)"
  unfolding fmap_wf_def cl_fmap_tail_def by (rule qlist_at_last) blast

lemma fmap_next: "fmap_wf f m (xs @ x # ys) \<Longrightarrow> cl_fmap_next x m = hd (ys @ [fm_nil f])"
  unfolding fmap_wf_def cl_fmap_next_def by (rule qlist_at_next) blast

lemma fmap_prev: "fmap_wf f m (xs @ x # ys) \<Longrightarrow> cl_fmap_prev x m = last (fm_nil f # xs)"
  unfolding fmap_wf_def cl_fmap_prev_def by (rule qlist_at_prev) blast

lemma fmap_count: "fmap_wf f m xs \<Longrightarrow> cl_fmap_count f = of_nat (length xs)"
  by (simp add: fmap_wf_def cl_fmap_count_def)

lemma fmap_empty_iff:
  "fmap_wf f m xs \<Longrightarrow> length xs < 2 ^ 64 \<Longrightarrow> cl_is_fmap_empty f \<longleftrightarrow> xs = []"
  using of_nat_neq_0 [of "length xs", where 'a = 64]
  by (cases xs) (auto simp: fmap_wf_def cl_is_fmap_empty_def)

lemma fmap_init_wf:
  assumes "fm_root f \<noteq> fm_nil f" and "cl_fmap_init p_null k_null f cmp m = (f', m')"
  shows "fmap_wf f' m' [] \<and> fm_pfn_compare f' = cmp \<and> fm_root f' = fm_root f \<and> fm_nil f' = fm_nil f
    \<and> same_outside (fmap_area f []) m m'"
  using assms
  by (auto simp: cl_fmap_init_def cl_fmap_remove_all_def fmap_clear_item_def Let_def fmap_wf_def
      fmap_tree_def place_plug rb_tree_def qlist_at_empty same_outside_def fmap_area_def)

lemma fmap_remove_all_wf:
  assumes "fmap_wf f m xs" and "cl_fmap_remove_all f m = (f', m')"
  shows "fmap_wf f' m' [] \<and> same_outside (fmap_area f []) m m'"
  using assms
  by (auto simp: cl_fmap_remove_all_def fmap_wf_def fmap_tree_def place_plug rb_tree_def
      qlist_at_empty same_outside_def fmap_area_def)

section \<open>Searching\<close>

lemma match_loop_step:
  "fmap_match_loop f key pfn p m =
    (if p = fm_nil f then Some p
     else let c = chosen_compare f pfn key (p_key m p)
          in if c = 0 then Some p
             else fmap_match_loop f key pfn (if c < 0 then p_left m p else p_right m p) m)"
  by (subst fmap_match_loop.simps) (auto simp: chosen_compare_def Let_def split: option.splits)

text \<open>
  The searches, for any comparison whose sign only decreases along the tree. \<open>c x\<close> is the
  comparison of the sought key with the key of the item \<open>x\<close>.
\<close>

lemma match_loop_rep:
  assumes "rep m (fm_nil f) t p u" and "\<And>x. chosen_compare f pfn key (p_key m x) = c x"
    and "sorted_wrt (\<lambda>x y. sgn (c y) \<le> sgn (c x)) (inorder t)"
  shows "\<exists>r. fmap_match_loop f key pfn p m = Some r \<and>
    match_result c (fm_nil f) (set_tree t) r"
  using assms
proof (induction t arbitrary: p u)
  case Leaf
  then show ?case by (subst match_loop_step) (simp add: match_result_def)
next
  case (Node l x r)
  from Node.prems(3) have sl: "sorted_wrt (\<lambda>x y. sgn (c y) \<le> sgn (c x)) (inorder l)"
    "\<forall>y\<in>set_tree l. sgn (c x) \<le> sgn (c y)"
    and sr: "sorted_wrt (\<lambda>x y. sgn (c y) \<le> sgn (c x)) (inorder r)"
    "\<forall>y\<in>set_tree r. sgn (c y) \<le> sgn (c x)"
    by (auto simp: sorted_wrt_append)
  consider "c x = 0" | "c x < 0" | "0 < c x" by linarith
  then show ?case
  proof cases
    case 1
    with Node.prems show ?thesis by (subst match_loop_step) (auto simp: match_result_def)
  next
    case 2
    with sr have "\<forall>y\<in>set_tree r. c y \<noteq> 0" by (auto simp: sgn_if split: if_splits)
    then have "match_result c n (set_tree l) q \<Longrightarrow> match_result c n (set_tree (Node l x r)) q" for n q
      using 2 by (auto simp: match_result_def split: if_splits)
    with 2 Node.prems Node.IH(1) [OF _ _ sl(1), of "p_left m x" x] show ?thesis
      by (subst match_loop_step) auto
  next
    case 3
    with sl have "\<forall>y\<in>set_tree l. c y \<noteq> 0" by (force simp: sgn_if split: if_splits)
    then have "match_result c n (set_tree r) q \<Longrightarrow> match_result c n (set_tree (Node l x r)) q" for n q
      using 3 by (auto simp: match_result_def split: if_splits)
    with 3 Node.prems Node.IH(2) [OF _ _ sr(1), of "p_right m x" x] show ?thesis
      by (subst match_loop_step) auto
  qed
qed

lemma get_next_loop_rep:
  assumes "rep m (fm_nil f) t p u" and "\<And>x. fm_pfn_compare f key (p_key m x) = c x"
    and "sorted_wrt (\<lambda>x y. sgn (c y) \<le> sgn (c x)) (inorder t)"
  shows "fmap_get_next_loop f key p q m =
    Some (case find (\<lambda>x. c x < 0) (inorder t) of Some y \<Rightarrow> y | None \<Rightarrow> q)"
  using assms
proof (induction t arbitrary: p u q)
  case Leaf
  then show ?case by (subst fmap_get_next_loop.simps) simp
next
  case (Node l x r)
  from Node.prems(3) have sl: "sorted_wrt (\<lambda>x y. sgn (c y) \<le> sgn (c x)) (inorder l)"
    "\<forall>y\<in>set (inorder l). sgn (c x) \<le> sgn (c y)"
    and sr: "sorted_wrt (\<lambda>x y. sgn (c y) \<le> sgn (c x)) (inorder r)"
    by (auto simp: sorted_wrt_append)
  have app: "find P (xs @ ys) = (case find P xs of Some y \<Rightarrow> Some y | None \<Rightarrow> find P ys)"
    for P :: "'a \<Rightarrow> bool" and xs ys by (induction xs) auto
  show ?case
  proof (cases "c x < 0")
    case True
    with Node.prems Node.IH(1) [OF _ _ sl(1), of "p_left m x" x] show ?thesis
      by (subst fmap_get_next_loop.simps) (auto simp: app split: option.splits)
  next
    case False
    with sl have "find (\<lambda>x. c x < 0) (inorder l) = None"
      by (force simp: find_None_iff sgn_if split: if_splits)
    with False Node.prems Node.IH(2) [OF _ _ sr, of "p_right m x" x] show ?thesis
      by (subst fmap_get_next_loop.simps) (auto simp: app)
  qed
qed

lemma fmap_wf_rep:
  assumes "fmap_wf f m xs"
  obtains t where "rep m (fm_nil f) t (cl_fmap_root f m) (fm_root f)" "inorder t = xs"
    "set_tree t = set xs" "fmap_tree f m t"
proof -
  from assms obtain t where t: "fmap_tree f m t" "inorder t = xs" by (auto simp: fmap_wf_def)
  then have "rep m (fm_nil f) t (cl_fmap_root f m) (fm_root f)"
    by (simp add: fmap_tree_def place_plug cl_fmap_root_def)
  with t that show ?thesis by (metis set_inorder)
qed

lemma fmap_match_correct:
  fixes pfn key m
  assumes "fmap_wf f m xs"
  defines "c \<equiv> \<lambda>x. chosen_compare f pfn key (p_key m x)"
  assumes "sorted_wrt (\<lambda>x y. sgn (c y) \<le> sgn (c x)) xs"
  shows "\<exists>r. cl_fmap_match f key pfn m = Some r \<and> match_result c (fm_nil f) (set xs) r"
proof -
  from assms(1) obtain t where t: "rep m (fm_nil f) t (cl_fmap_root f m) (fm_root f)"
    "inorder t = xs" "set_tree t = set xs" by (rule fmap_wf_rep)
  show ?thesis
    unfolding cl_fmap_match_def t(3) [symmetric]
    by (rule match_loop_rep [OF t(1)]) (use assms(3) t(2) in \<open>simp_all add: c_def\<close>)
qed

lemma fmap_sorted_sgn:
  assumes "fmap_wf f m xs" and "fmap_compare (fm_pfn_compare f)"
  shows "sorted_wrt (\<lambda>x y. sgn (fm_pfn_compare f key (p_key m y)) \<le>
    sgn (fm_pfn_compare f key (p_key m x))) xs"
  using fmap_compare.cmp_sorted_sgn [OF assms(2), of "p_key m" xs key] assms(1)
  by (simp add: fmap_wf_def key_before_def [abs_def])

lemma fmap_get_correct:
  assumes "fmap_wf f m xs" and "fmap_compare (fm_pfn_compare f)"
  shows "cl_fmap_get f key m =
    Some (case find (\<lambda>x. fm_pfn_compare f key (p_key m x) = 0) xs of Some x \<Rightarrow> x | None \<Rightarrow> fm_nil f)"
proof -
  let ?c = "\<lambda>x. fm_pfn_compare f key (p_key m x)"
  from fmap_match_correct [OF assms(1), of "Some (fm_pfn_compare f)" key] obtain r
    where r: "cl_fmap_get f key m = Some r" "match_result ?c (fm_nil f) (set xs) r"
    using fmap_sorted_sgn [OF assms, of key] by (auto simp: cl_fmap_get_def chosen_compare_def)
  show ?thesis
  proof (cases "find (\<lambda>x. ?c x = 0) xs")
    case None
    then have "\<not> (\<exists>x\<in>set xs. ?c x = 0)" by (auto simp: find_None_iff)
    with r None show ?thesis by (auto simp: match_result_def)
  next
    case (Some x)
    then have x: "x \<in> set xs" "?c x = 0" by (auto simp: find_Some_iff)
    with r have "r \<in> set xs" "?c r = 0" by (auto simp: match_result_def split: if_splits)
    with x fmap_compare.cmp_sorted_unique [OF assms(2), of "p_key m" xs x r key] assms(1)
    have "r = x" by (simp add: fmap_wf_def key_before_def [abs_def])
    with r Some show ?thesis by simp
  qed
qed

lemma fmap_get_next_correct:
  assumes "fmap_wf f m xs" and "fmap_compare (fm_pfn_compare f)"
  shows "cl_fmap_get_next f key m =
    Some (case find (\<lambda>x. fm_pfn_compare f key (p_key m x) < 0) xs of Some x \<Rightarrow> x | None \<Rightarrow> fm_nil f)"
proof -
  from assms(1) obtain t where t: "rep m (fm_nil f) t (cl_fmap_root f m) (fm_root f)"
    "inorder t = xs" by (rule fmap_wf_rep)
  show ?thesis
    unfolding cl_fmap_get_next_def t(2) [symmetric]
    by (rule get_next_loop_rep [OF t(1) refl]) (use fmap_sorted_sgn [OF assms] t(2) in simp)
qed

end
