(* ===== verification/Fmap_Insert.thy ===== *)
theory Fmap_Insert
  imports Fmap_Inv
begin

text \<open>
  Balancing after an insertion. The loop is followed on a tree with the red item singled out:
  the subtree below it and the context above it each satisfy the colour and black-height
  invariants, and only the edge between the item and its parent may join two red nodes. Each
  turn of the loop either ends with a red-black tree, up to the root's colour, or moves the
  item two levels up.
\<close>

section \<open>The loop by direction\<close>

lemma ins_bal_dir:
  "cl_fmap_ins_bal f p m =
    (let q = p_up m p; g = p_up m q; d = cl_fmap_is_left_child q m; w = child (\<not> d) m g
     in if color m q \<noteq> CL_MAP_RED then Some m
        else if color m w = CL_MAP_RED
        then cl_fmap_ins_bal f g (set_color g CL_MAP_RED (set_color q CL_MAP_BLACK
               (set_color w CL_MAP_BLACK m)))
        else
          let (p, m) = (if cl_fmap_is_left_child p m \<noteq> d then (q, rot d (fm_nil f) q m) else (p, m));
              m = set_color (p_up m p) CL_MAP_BLACK m;
              m = set_color (p_up m (p_up m p)) CL_MAP_RED m;
              m = rot (\<not> d) (fm_nil f) (p_up m (p_up m p)) m
          in cl_fmap_ins_bal f p m)"
  by (subst cl_fmap_ins_bal.simps)
    (auto simp: Let_def rot_left_dir rot_right_dir child_True_False)

lemma ins_bal_done: "color m (p_up m p) = CL_MAP_BLACK \<Longrightarrow> cl_fmap_ins_bal f p m = Some m"
  by (subst cl_fmap_ins_bal.simps) simp

section \<open>The last turn\<close>

lemma ins_bal_last:
  assumes "place m n rt k (node_d d (node_d d (node_d e a p b) q c) g w)"
    and "n = fm_nil f" and "color m p = CL_MAP_RED"
    and "rootcol (color m) c = CL_MAP_BLACK" "rootcol (color m) w = CL_MAP_BLACK"
    and "invc (color m) (node_d e a p b)" "invc (color m) c" "invc (color m) w"
    and "invh (color m) (node_d e a p b)" "invh (color m) c" "invh (color m) w"
    and "bheight (color m) c = bheight (color m) (node_d e a p b)"
    and "bheight (color m) w = bheight (color m) (node_d e a p b)"
    and "ctx_invc (color m) k CL_MAP_BLACK"
    and "ctx_invh (color m) k (bheight (color m) (node_d e a p b) + 1)"
  shows "\<exists>m'. (let m = set_color (p_up m p) CL_MAP_BLACK m;
             m = set_color (p_up m (p_up m p)) CL_MAP_RED m;
             m = rot (\<not> d) (fm_nil f) (p_up m (p_up m p)) m
         in cl_fmap_ins_bal f p m) = Some m' \<and>
       place m' n rt k (node_d d (node_d e a p b) q (node_d d c g w)) \<and>
       invc (color m') (plug k (node_d d (node_d e a p b) q (node_d d c g w))) \<and>
       invh (color m') (plug k (node_d d (node_d e a p b) q (node_d d c g w))) \<and>
       tree_frame (set_tree (plug k (node_d d (node_d d (node_d e a p b) q c) g w))) rt m m'"
proof -
  let ?t = "node_d d (node_d d (node_d e a p b) q c) g w"
  let ?t' = "node_d d (node_d e a p b) q (node_d d c g w)"
  let ?m1 = "set_color g CL_MAP_RED (set_color q CL_MAP_BLACK m)"
  let ?m2 = "rot (\<not> d) n g ?m1"
  have q: "p_up m p = q" "p_up m q = g"
    using assms(1) by (auto simp: place_def)
  have r1: "place ?m1 n rt k (node_d (\<not> d) w g (node_d (\<not> d) c q (node_d e a p b)))"
    using assms(1) node_d_flip by (metis place_color)
  from rot_place [OF r1] have r2: "place ?m2 n rt k ?t'"
    and fr: "tree_frame (set_tree (plug k ?t)) rt ?m1 ?m2"
    by (auto intro: tree_frame_mono simp: node_d_flip [of "\<not> d"])
  have c2: "color ?m2 = (color m)(q := CL_MAP_BLACK, g := CL_MAP_RED)" by simp
  have dist: "tdist ?t" "set_tree ?t \<inter> ctx_set k = {}"
    using assms(1) by (auto simp: place_def)
  have "p_up ?m2 p = q" using r2 by (rule place_child_up)
  then have run: "cl_fmap_ins_bal f p ?m2 = Some ?m2"
    using dist by (intro ins_bal_done) auto
  have "invc (color ?m2) (plug k ?t')" "invh (color ?m2) (plug k ?t')"
    unfolding c2 using dist assms(3-) by (auto simp: bheight_node_d)
  moreover have "tree_frame (set_tree (plug k ?t)) rt m ?m2"
    using fr by (auto simp: tree_frame_def)
  ultimately show ?thesis
    using r2 run assms(2) q dist by (auto simp: Let_def)
qed

section \<open>The loop\<close>

text \<open>
  The invariant of the loop: the item is the red root of \<open>t\<close>, and all that may be wrong is
  that its parent is red too. What the loop delivers is a tree over the same items in the
  same order, red-black but for the colour of its root.
\<close>

definition ins_inv ::
  "('p, 'k) cl_fmap_t \<Rightarrow> ('p, 'k, 'z) map_mem_scheme \<Rightarrow> 'p ctx \<Rightarrow> 'p tree \<Rightarrow> bool" where
  "ins_inv f m k t \<longleftrightarrow> place m (fm_nil f) (fm_root f) k t \<and>
     color m (fm_nil f) = CL_MAP_BLACK \<and> color m (fm_root f) = CL_MAP_BLACK \<and>
     rootcol (color m) t = CL_MAP_RED \<and> invc (color m) t \<and> invh (color m) t \<and>
     ctx_invc (color m) k CL_MAP_BLACK \<and> ctx_invh (color m) k (bheight (color m) t) \<and>
     ctx_top (color m) k"

definition balanced_at ::
  "('p, 'k) cl_fmap_t \<Rightarrow> ('p, 'k, 'z) map_mem_scheme \<Rightarrow> 'p tree \<Rightarrow> ('p, 'k, 'z) map_mem_scheme \<Rightarrow> bool" where
  "balanced_at f m t m' \<longleftrightarrow> (\<exists>t'. place m' (fm_nil f) (fm_root f) [] t' \<and> inorder t' = inorder t \<and>
     invc (color m') t' \<and> invh (color m') t' \<and> tree_frame (set_tree t) (fm_root f) m m')"

lemma balanced_at_frame:
  assumes "balanced_at f m' t' m''" and "tree_frame (set_tree t) (fm_root f) m m'"
    and "inorder t' = inorder t"
  shows "balanced_at f m t m''"
  using assms tree_frame_trans [of "set_tree t" "fm_root f" m m' m'']
  unfolding balanced_at_def by (metis set_inorder)

lemma red_grandparent:
  assumes "ins_inv f m ((d1, q, s) # k1) t" and "color m q = CL_MAP_RED"
  obtains d2 g w k2 where "k1 = (d2, g, w) # k2" "color m g = CL_MAP_BLACK"
  using assms by (cases k1 rule: ctx_set.cases) (auto simp: ins_inv_def)

lemma ins_inv_grand:
  assumes "ins_inv f m ((d1, q, s) # (d2, g, w) # k) t" and "color m q = CL_MAP_RED"
  shows "rootcol (color m) t = CL_MAP_RED" "invc (color m) t" "invh (color m) t"
    "rootcol (color m) s = CL_MAP_BLACK" "invc (color m) s" "invh (color m) s"
    "bheight (color m) s = bheight (color m) t"
    "invc (color m) w" "invh (color m) w" "bheight (color m) w = bheight (color m) t"
    "ctx_invc (color m) k CL_MAP_BLACK" "ctx_invh (color m) k (bheight (color m) t + 1)"
    "place m (fm_nil f) (fm_root f) ((d2, g, w) # k) (node_d d1 t q s)"
  using assms by (auto simp: ins_inv_def place_up)

lemma ins_inv_red_uncle:
  assumes "ins_inv f m ((d1, q, s) # (d2, g, w) # k) t" and "color m q = CL_MAP_RED"
    and "rootcol (color m) w = CL_MAP_RED"
  defines "m' \<equiv> set_color g CL_MAP_RED (set_color q CL_MAP_BLACK
    (set_color (root_of (fm_nil f) w) CL_MAP_BLACK m))"
  shows "ins_inv f m' k (node_d d2 (node_d d1 t q s) g w)"
    and "tree_frame (set_tree (node_d d2 (node_d d1 t q s) g w)) (fm_root f) m m'"
proof -
  let ?n = "fm_nil f" and ?rt = "fm_root f"
  obtain wl u wr where w: "w = Node wl u wr"
    using assms(3) by (cases w) auto
  have pl: "place m ?n ?rt k (node_d d2 (node_d d1 t q s) g w)"
    using assms(1) by (simp add: ins_inv_def place_up)
  note dist = place_distinct [OF pl]
  show "tree_frame (set_tree (node_d d2 (node_d d1 t q s) g w)) ?rt m m'"
    by (auto simp: m'_def w tree_frame_def)
  have col: "color m' = (color m)(u := CL_MAP_BLACK, q := CL_MAP_BLACK, g := CL_MAP_RED)"
    by (simp add: m'_def w)
  have "place m' ?n ?rt k (node_d d2 (node_d d1 t q s) g w)"
    using pl by (simp add: m'_def)
  moreover have "u \<notin> set_tree t" "u \<notin> set_tree s" "u \<noteq> q" "u \<noteq> g" "q \<noteq> g"
    "u \<notin> ctx_set k" "q \<notin> set_tree w" "g \<notin> set_tree w" "u \<notin> set_tree wl" "u \<notin> set_tree wr"
    using dist w by auto
  ultimately show "ins_inv f m' k (node_d d2 (node_d d1 t q s) g w)"
    unfolding ins_inv_def col using assms(1-3) dist w ins_inv_grand [OF assms(1,2)]
    by (simp add: ins_inv_def bheight_node_d split: if_splits)
qed

lemma ins_bal_turn:
  assumes "ins_inv f m ((d1, q, s) # (d2, g, w) # k) (node_d e a x b)"
    and "color m q = CL_MAP_RED"
  shows "cl_fmap_ins_bal f x m =
    (if rootcol (color m) w = CL_MAP_RED
     then cl_fmap_ins_bal f g (set_color g CL_MAP_RED (set_color q CL_MAP_BLACK
            (set_color (root_of (fm_nil f) w) CL_MAP_BLACK m)))
     else
       let (p, m) = (if d1 \<noteq> d2 then (q, rot d2 (fm_nil f) q m) else (x, m));
           m = set_color (p_up m p) CL_MAP_BLACK m;
           m = set_color (p_up m (p_up m p)) CL_MAP_RED m;
           m = rot (\<not> d2) (fm_nil f) (p_up m (p_up m p)) m
       in cl_fmap_ins_bal f p m)"
proof -
  let ?n = "fm_nil f" and ?rt = "fm_root f"
  have n: "color m ?n = CL_MAP_BLACK"
    and px: "place m ?n ?rt ((d1, q, s) # (d2, g, w) # k) (node_d e a x b)"
    using assms(1) by (auto simp: ins_inv_def)
  then have pq: "place m ?n ?rt ((d2, g, w) # k) (node_d d1 (node_d e a x b) q s)"
    by (simp add: place_up)
  then have pg: "place m ?n ?rt k (node_d d2 (node_d d1 (node_d e a x b) q s) g w)"
    by (simp add: place_up)
  show ?thesis
    using place_is_left [OF px] place_is_left [OF pq] place_child(2) [OF pg] assms(2)
    by (subst ins_bal_dir) (simp add: color_root_of [OF n])
qed

lemma ins_bal_rotate:
  assumes "ins_inv f m ((d1, q, s) # (d2, g, w) # k) (node_d e a x b)"
    and "color m q = CL_MAP_RED" "rootcol (color m) w = CL_MAP_BLACK"
  shows "\<exists>m'. cl_fmap_ins_bal f x m = Some m' \<and>
    balanced_at f m (plug ((d1, q, s) # (d2, g, w) # k) (node_d e a x b)) m'"
proof (cases "d1 = d2")
  case True
  note g = ins_inv_grand [OF assms(1,2)]
  have pg: "place m (fm_nil f) (fm_root f) k (node_d d2 (node_d d2 (node_d e a x b) q s) g w)"
    using g(13) by (simp add: place_up True)
  note run = ins_bal_last [OF pg refl _ g(4) assms(3) g(2,5,8,3,6,9,7,10,11,12)]
  from run obtain m' where "cl_fmap_ins_bal f x m = Some m'"
    and "place m' (fm_nil f) (fm_root f) k (node_d d2 (node_d e a x b) q (node_d d2 s g w))"
    and "invc (color m') (plug k (node_d d2 (node_d e a x b) q (node_d d2 s g w)))"
    and "invh (color m') (plug k (node_d d2 (node_d e a x b) q (node_d d2 s g w)))"
    and "tree_frame (set_tree (plug k (node_d d2 (node_d d2 (node_d e a x b) q s) g w))) (fm_root f) m m'"
    using g(1) assms(3) ins_bal_turn [OF assms(1,2)] True by auto
  then show ?thesis
    unfolding balanced_at_def using True
    by (intro exI [of _ m'] conjI exI [of _ "plug k (node_d d2 (node_d e a x b) q (node_d d2 s g w))"])
      (auto simp: place_top [symmetric] inorder_plug inorder_node_d)
next
  case False
  then have d1: "d1 = (\<not> d2)" by simp
  note g = ins_inv_grand [OF assms(1,2)]
  obtain a' b' where t: "node_d e a x b = node_d d2 a' x b'"
    by (metis node_d_def node_d_obtain)
  let ?m = "rot d2 (fm_nil f) q m"
  have pq: "place m (fm_nil f) (fm_root f) ((d2, g, w) # k) (node_d d2 s q (node_d d2 a' x b'))"
    using g(13) by (simp add: t d1 node_d_flip [of "\<not> d2"])
  from rot_place [OF pq]
  have pg: "place ?m (fm_nil f) (fm_root f) k (node_d d2 (node_d d2 (node_d d2 s q a') x b') g w)"
    and fr: "tree_frame (set_tree (plug ((d1, q, s) # (d2, g, w) # k) (node_d e a x b))) (fm_root f) m ?m"
    by (auto simp: place_up t intro: tree_frame_mono)
  note g' = g [unfolded t]
  from g' have inv: "bheight (color m) (node_d d2 s q a') = bheight (color m) b'"
    "bheight (color m) (node_d d2 a' x b') = bheight (color m) b'"
    using assms(2) by (auto simp: bheight_node_d)
  have "\<exists>m'. cl_fmap_ins_bal f x m = Some m' \<and> place m' (fm_nil f) (fm_root f) k (node_d d2 (node_d d2 s q a') x (node_d d2 b' g w)) \<and>
     invc (color m') (plug k (node_d d2 (node_d d2 s q a') x (node_d d2 b' g w))) \<and>
     invh (color m') (plug k (node_d d2 (node_d d2 s q a') x (node_d d2 b' g w))) \<and>
     tree_frame (set_tree (plug k (node_d d2 (node_d d2 (node_d d2 s q a') x b') g w))) (fm_root f) ?m m'"
    using ins_bal_last [OF pg refl] g' inv assms(2,3) False ins_bal_turn [OF assms(1,2)] by auto
  then obtain m' where r: "cl_fmap_ins_bal f x m = Some m'"
    and "place m' (fm_nil f) (fm_root f) k (node_d d2 (node_d d2 s q a') x (node_d d2 b' g w))"
    and "invc (color m') (plug k (node_d d2 (node_d d2 s q a') x (node_d d2 b' g w)))"
    and "invh (color m') (plug k (node_d d2 (node_d d2 s q a') x (node_d d2 b' g w)))"
    and "tree_frame (set_tree (plug k (node_d d2 (node_d d2 (node_d d2 s q a') x b') g w))) (fm_root f) ?m m'"
    by blast
  then have "balanced_at f ?m (plug k (node_d d2 (node_d d2 (node_d d2 s q a') x b') g w)) m'"
    unfolding balanced_at_def
    by (intro exI [of _ "plug k (node_d d2 (node_d d2 s q a') x (node_d d2 b' g w))"])
      (auto simp: place_top [symmetric] inorder_plug inorder_node_d)
  from balanced_at_frame [OF this fr] r show ?thesis
    by (simp add: t d1 inorder_plug inorder_node_d)
qed

lemma ins_bal_balances:
  assumes "ins_inv f m k (node_d e a x b)"
  shows "\<exists>m'. cl_fmap_ins_bal f x m = Some m' \<and> balanced_at f m (plug k (node_d e a x b)) m'"
  using assms
proof (induction "length k" arbitrary: m k e a x b rule: less_induct)
  case less
  let ?t = "node_d e a x b"
  have up: "p_up m x = hup (fm_root f) k"
    using less.prems place_is_left(2) by (fastforce simp: ins_inv_def)
  show ?case
  proof (cases "color m (hup (fm_root f) k)")
    case CL_MAP_BLACK
    have "ctx_invc (color m) k c" for c
      using less.prems CL_MAP_BLACK by (cases k rule: ctx_set.cases) (auto simp: ins_inv_def)
    then have "balanced_at f m (plug k ?t) m"
      using less.prems unfolding balanced_at_def
      by (intro exI [of _ "plug k ?t"]) (auto simp: ins_inv_def place_top [symmetric])
    with CL_MAP_BLACK up show ?thesis using ins_bal_done [of m x f] by simp
  next
    case CL_MAP_RED
    then obtain d1 q s k1 where k: "k = (d1, q, s) # k1" and q: "color m q = CL_MAP_RED"
      using less.prems by (cases k rule: ctx_set.cases) (auto simp: ins_inv_def)
    with less.prems obtain d2 g w k2 where k1: "k1 = (d2, g, w) # k2"
      by (auto elim: red_grandparent)
    note inv = less.prems [unfolded k k1]
    show ?thesis
    proof (cases "rootcol (color m) w")
      case CL_MAP_BLACK
      with ins_bal_rotate [OF inv q] show ?thesis by (simp add: k k1)
    next
      case CL_MAP_RED
      note up = ins_inv_red_uncle [OF inv q CL_MAP_RED]
      from less.hyps [OF _ up(1)] k k1 obtain m' where
        "cl_fmap_ins_bal f x m = Some m'" and b: "balanced_at f (set_color g CL_MAP_RED
          (set_color q CL_MAP_BLACK (set_color (root_of (fm_nil f) w) CL_MAP_BLACK m)))
          (plug k2 (node_d d2 (node_d d1 ?t q s) g w)) m'"
        using ins_bal_turn [OF inv q] CL_MAP_RED by auto
      moreover have "balanced_at f m (plug k ?t) m'"
        by (rule balanced_at_frame [OF b])
          (use up(2) k k1 in \<open>auto intro: tree_frame_mono\<close>)
      ultimately show ?thesis by blast
    qed
  qed
qed

section \<open>The place for a new item\<close>

text \<open>
  The walk of the insertion ends at an item with an equal key, or at a hole of the tree with
  smaller keys on its left and greater keys on its right.
\<close>

definition hole_for :: "('p \<Rightarrow> int) \<Rightarrow> 'p ctx \<Rightarrow> bool" where
  "hole_for c k \<longleftrightarrow> (\<forall>x\<in>set (ctx_before k). 0 < c x) \<and> (\<forall>x\<in>set (ctx_after k). c x < 0)"

lemma insert_at_loop_place:
  assumes "place m (fm_nil f) (fm_root f) k t" and "\<And>x. fm_pfn_compare f key (p_key m x) = c x"
    and "hole_for c k" and "k \<noteq> [] \<Longrightarrow> e < 0 \<longleftrightarrow> hdir k"
    and "sorted_wrt (\<lambda>x y. sgn (c y) \<le> sgn (c x)) (inorder t)"
  shows "(\<exists>x\<in>set_tree t. c x = 0 \<and>
      fmap_insert_at_loop f key (hup (fm_root f) k) (root_of (fm_nil f) t) e m = Some (Inl x)) \<or>
    (\<exists>k' e'. plug k' Leaf = plug k t \<and> hole_for c k' \<and> (k' \<noteq> [] \<longrightarrow> (e' < 0 \<longleftrightarrow> hdir k')) \<and>
      fmap_insert_at_loop f key (hup (fm_root f) k) (root_of (fm_nil f) t) e m =
        Some (Inr (hup (fm_root f) k', e')))"
  using assms
proof (induction t arbitrary: k e)
  case Leaf
  then show ?case by (subst (1 2) fmap_insert_at_loop.simps) auto
next
  case (Node l x r)
  let ?n = "fm_nil f" and ?rt = "fm_root f"
  have x: "x \<noteq> ?n" "p_left m x = root_of ?n l" "p_right m x = root_of ?n r"
    using Node.prems(1) place_child [of m ?n ?rt k True l x r]
    by (auto simp: place_def node_d_def child_def)
  have run: "fmap_insert_at_loop f key q x e m =
      (if c x = 0 then Some (Inl x)
       else fmap_insert_at_loop f key x (if c x < 0 then root_of ?n l else root_of ?n r) (c x) m)" for q
    using x Node.prems(2) by (subst fmap_insert_at_loop.simps) (simp add: Let_def)
  from Node.prems(5) have sl: "sorted_wrt (\<lambda>x y. sgn (c y) \<le> sgn (c x)) (inorder l)"
    "\<forall>y\<in>set (inorder l). sgn (c x) \<le> sgn (c y)"
    and sr: "sorted_wrt (\<lambda>x y. sgn (c y) \<le> sgn (c x)) (inorder r)"
    "\<forall>y\<in>set (inorder r). sgn (c y) \<le> sgn (c x)"
    by (auto simp: sorted_wrt_append)
  consider "c x = 0" | "c x < 0" | "0 < c x" by linarith
  then show ?case
  proof cases
    case 1
    with run show ?thesis by auto
  next
    case 2
    have "place m ?n ?rt ((True, x, r) # k) l"
      using Node.prems(1) by (simp add: place_up node_d_def)
    moreover have "hole_for c ((True, x, r) # k)"
      using Node.prems(3) 2 sr(2) by (auto simp: hole_for_def sgn_if split: if_splits)
    ultimately show ?thesis
      using Node.IH(1) [of "(True, x, r) # k" "c x"] 2 sl(1) Node.prems(2) run
      by (fastforce simp: node_d_def)
  next
    case 3
    have "place m ?n ?rt ((False, x, l) # k) r"
      using Node.prems(1) by (simp add: place_up node_d_def)
    moreover have "hole_for c ((False, x, l) # k)"
      using Node.prems(3) 3 sl(2) by (force simp: hole_for_def sgn_if split: if_splits)
    ultimately show ?thesis
      using Node.IH(2) [of "(False, x, l) # k" "c x"] 3 sr(1) Node.prems(2) run
      by (fastforce simp: node_d_def)
  qed
qed

section \<open>Linking the item\<close>

definition insert_prepare ::
  "('p, 'k) cl_fmap_t \<Rightarrow> 'k \<Rightarrow> 'p \<Rightarrow> ('p, 'k, 'z) map_mem_scheme \<Rightarrow> ('p, 'k, 'z) map_mem_scheme" where
  "insert_prepare f key x m =
    set_color x CL_MAP_RED (set_key x key (set_right x (fm_nil f) (set_left x (fm_nil f) m)))"

definition insert_link ::
  "('p, 'k) cl_fmap_t \<Rightarrow> 'p ctx \<Rightarrow> 'p \<Rightarrow> ('p, 'k, 'z) map_mem_scheme \<Rightarrow> ('p, 'k, 'z) map_mem_scheme" where
  "insert_link f k x m =
    set_up x (hup (fm_root f) k) (cl_primitive_insert (hd (ctx_after k @ [fm_nil f])) x
      (set_child (hdir k) (hup (fm_root f) k) x m))"

lemma insert_link_code:
  assumes "plug k Leaf = t" "fmap_tree f m t" "qlist_at m (fm_nil f) (inorder t)"
    and "k \<noteq> [] \<longrightarrow> (e < 0 \<longleftrightarrow> hdir k)" and "p = hup (fm_root f) k"
  shows "(if p = fm_root f then
            let m = set_left p x m in cl_primitive_insert (fm_nil f) x m
          else if e < 0 then
            let m = set_left p x m in cl_primitive_insert p x m
          else
            let m = set_right p x m in cl_primitive_insert (p_next m p) x m) =
    cl_primitive_insert (hd (ctx_after k @ [fm_nil f])) x (set_child (hdir k) p x m)"
proof (cases k rule: ctx_set.cases)
  case 1
  with assms(5) show ?thesis by (simp add: set_child_def)
next
  case (2 d y s k')
  have "fm_root f \<notin> set_tree t" using assms(2) by (simp add: fmap_tree_def place_def)
  then have y: "y \<noteq> fm_root f" using assms(1) 2 by auto
  have "p_next m y = hd (ctx_after k @ [fm_nil f])" if "\<not> d"
    using qlist_at_next [of m "fm_nil f" "ctx_before k' @ inorder s" y "ctx_after k"] assms(1,3) 2 that
    by (auto simp: inorder_plug inorder_node_d)
  with 2 y assms(4,5) show ?thesis by (auto simp: set_child_def)
qed

lemma insert_link_inv:
  assumes "plug k Leaf = t" "fmap_tree f m t" "qlist_at m (fm_nil f) (inorder t)"
    and x: "x \<notin> fmap_area f (inorder t)" "p_left m x = fm_nil f" "p_right m x = fm_nil f"
      "color m x = CL_MAP_RED"
  shows "ins_inv f (insert_link f k x m) k (Node Leaf x Leaf)"
    and "qlist_at (insert_link f k x m) (fm_nil f) (ctx_before k @ x # ctx_after k)"
proof -
  let ?n = "fm_nil f" and ?rt = "fm_root f" and ?m = "insert_link f k x m"
  let ?u = "hup ?rt k"
  have pl: "place m ?n ?rt k Leaf"
    using assms(1,2) place_top [of m ?n ?rt k Leaf] by (simp add: fmap_tree_def)
  note dist = place_distinct [OF pl]
  have xk: "x \<notin> ctx_set k" "x \<noteq> ?rt" "x \<noteq> ?n" "?u \<noteq> x"
    using x(1) assms(1) ctx_hup [of ?rt k] set_plug [of k Leaf] by (auto simp: fmap_area_def)
  have "ctx ?m ?n ?rt k = ctx m ?n ?rt k"
    by (rule ctx_cong) (use xk dist in \<open>auto simp: insert_link_def\<close>)
  then have "place ?m ?n ?rt k (Node Leaf x Leaf)"
    using pl xk dist x by (auto simp: place_def insert_link_def hole_def child_def set_child_def)
  moreover have "color ?m = color m" by (simp add: insert_link_def)
  moreover have "ctx_invc (color m) k CL_MAP_BLACK" "ctx_invh (color m) k 0"
    "k \<noteq> [] \<Longrightarrow> ctx_top (color m) k"
    using assms(1,2) rootcol_plug [of "color m" k Leaf]
    by (auto simp: fmap_tree_def rb_tree_def)
  ultimately show "ins_inv f ?m k (Node Leaf x Leaf)"
    using assms(2) x(4) by (cases "k = []") (auto simp: ins_inv_def fmap_tree_def)
  let ?m1 = "set_child (hdir k) ?u x m"
  have "qlist_at ?m1 ?n (ctx_before k @ ctx_after k)"
    using assms(1,3) qlist_at_cong [of ?n "inorder t" ?m1 m] by (auto simp: inorder_plug)
  then have "qlist_at (cl_primitive_insert (hd (ctx_after k @ [?n])) x ?m1) ?n
      (ctx_before k @ x # ctx_after k)"
    by (rule qlist_at_insert) (use xk ctx_set_inorder [of k] in auto)
  then show "qlist_at ?m ?n (ctx_before k @ x # ctx_after k)"
    unfolding insert_link_def using qlist_at_cong [of ?n "ctx_before k @ x # ctx_after k"
      "set_up x ?u (cl_primitive_insert (hd (ctx_after k @ [?n])) x ?m1)"
      "cl_primitive_insert (hd (ctx_after k @ [?n])) x ?m1"] by simp
qed

lemma insert_prepare_wf:
  assumes "fmap_wf f m xs" and "x \<notin> fmap_area f xs"
  shows "fmap_wf f (insert_prepare f key x m) xs"
    and "same_outside {x} m (insert_prepare f key x m)"
proof -
  show s: "same_outside {x} m (insert_prepare f key x m)"
    by (simp add: insert_prepare_def same_outside_def)
  show "fmap_wf f (insert_prepare f key x m) xs"
    by (rule fmap_wf_frame [OF assms(1) s]) (use assms(2) in auto)
qed

section \<open>Insertion\<close>

lemma insert_search:
  fixes key
  assumes "fmap_wf f m xs" "fmap_compare (fm_pfn_compare f)" "x \<notin> fmap_area f xs"
  defines "c \<equiv> \<lambda>y. fm_pfn_compare f key (p_key m y)"
  defines "m0 \<equiv> insert_prepare f key x m"
  shows "(\<exists>y\<in>set xs. c y = 0 \<and>
      fmap_insert_at_loop f key (fm_root f) (cl_fmap_root f m0) 0 m0 = Some (Inl y)) \<or>
    (\<exists>t k e. fmap_tree f m0 t \<and> inorder t = xs \<and> plug k Leaf = t \<and> hole_for c k \<and>
      (k \<noteq> [] \<longrightarrow> (e < 0 \<longleftrightarrow> hdir k)) \<and>
      fmap_insert_at_loop f key (fm_root f) (cl_fmap_root f m0) 0 m0 = Some (Inr (hup (fm_root f) k, e)))"
proof -
  let ?c = "\<lambda>y. fm_pfn_compare f key (p_key m0 y)"
  note wf0 = insert_prepare_wf(1) [OF assms(1,3), of key, folded m0_def]
  obtain t where t: "rep m0 (fm_nil f) t (cl_fmap_root f m0) (fm_root f)" "inorder t = xs"
    "set_tree t = set xs" "fmap_tree f m0 t" using wf0 by (rule fmap_wf_rep)
  have same: "?c y = c y" if "y \<in> set xs" for y
    using that assms(3) by (auto simp: c_def m0_def insert_prepare_def fmap_area_def)
  have "plug k Leaf = t \<Longrightarrow> hole_for ?c k \<Longrightarrow> hole_for c k" for k
    using same ctx_set_inorder [of k] t(3) set_plug [of k Leaf] by (auto simp: hole_for_def)
  moreover have "place m0 (fm_nil f) (fm_root f) [] t" using t(4) by (simp add: fmap_tree_def)
  from insert_at_loop_place [OF this refl, of key 0] fmap_sorted_sgn [OF wf0 assms(2), of key]
  have "(\<exists>y\<in>set_tree t. ?c y = 0 \<and>
      fmap_insert_at_loop f key (fm_root f) (cl_fmap_root f m0) 0 m0 = Some (Inl y)) \<or>
    (\<exists>k e. plug k Leaf = t \<and> hole_for ?c k \<and> (k \<noteq> [] \<longrightarrow> (e < 0 \<longleftrightarrow> hdir k)) \<and>
      fmap_insert_at_loop f key (fm_root f) (cl_fmap_root f m0) 0 m0 = Some (Inr (hup (fm_root f) k, e)))"
    using t(2) rep_root [OF t(1)] by (simp add: hole_for_def)
  ultimately show ?thesis using t same by (metis (no_types, lifting))
qed

lemma insert_finish:
  assumes "balanced_at f m t m'" and "t \<noteq> Leaf" "color m (fm_nil f) = CL_MAP_BLACK"
    "color m (fm_root f) = CL_MAP_BLACK" "p_up m (fm_root f) = fm_root f"
    and "fm_nil f \<notin> set_tree t" "fm_root f \<notin> set_tree t"
  shows "\<exists>t'. fmap_tree f (set_color (cl_fmap_root f m') CL_MAP_BLACK m') t' \<and>
      inorder t' = inorder t"
    and "tree_frame (set_tree t) (fm_root f) m (set_color (cl_fmap_root f m') CL_MAP_BLACK m')"
proof -
  from assms(1) obtain t' where t': "place m' (fm_nil f) (fm_root f) [] t'" "inorder t' = inorder t"
    "invc (color m') t'" "invh (color m') t'" and fr: "tree_frame (set_tree t) (fm_root f) m m'"
    by (auto simp: balanced_at_def)
  then have S: "set_tree t' = set_tree t" by (metis set_inorder)
  with assms(2) obtain l y r where y: "t' = Node l y r" by (cases t') auto
  have root: "cl_fmap_root f m' = y"
    using t'(1) y by (simp add: place_plug cl_fmap_root_def)
  show "tree_frame (set_tree t) (fm_root f) m (set_color (cl_fmap_root f m') CL_MAP_BLACK m')"
    by (rule tree_frame_color [OF _ fr]) (use S y root in auto)
  have "rb_tree ((color m')(y := CL_MAP_BLACK)) t'"
    unfolding y by (rule rb_paint_root) (use t' y in \<open>auto simp: place_def\<close>)
  then have "fmap_tree f (set_color y CL_MAP_BLACK m') t'"
    using t'(1) fr assms(3-7) by (auto simp: fmap_tree_def tree_frame_def)
  with t'(2) root show "\<exists>t'. fmap_tree f (set_color (cl_fmap_root f m') CL_MAP_BLACK m') t' \<and>
      inorder t' = inorder t" by auto
qed

lemma fmap_insert_duplicate:
  assumes "fmap_wf f m xs" "fmap_compare (fm_pfn_compare f)" "x \<notin> fmap_area f xs"
    and "y \<in> set xs" "fm_pfn_compare f key (p_key m y) = 0"
  shows "\<exists>m'. cl_fmap_insert f key x m = Some (y, f, m') \<and> fmap_wf f m' xs \<and>
    p_key m' = (p_key m)(x := key) \<and> same_outside {x} m m'"
proof -
  let ?c = "\<lambda>y. fm_pfn_compare f key (p_key m y)"
  have "hole_for ?c k \<Longrightarrow> inorder (plug k Leaf) \<noteq> xs" for k
    using assms(4,5) ctx_set_inorder [of k] set_inorder [of "plug k Leaf"]
    by (fastforce simp: hole_for_def)
  with insert_search [OF assms(1-3), of key] obtain z where "z \<in> set xs" "?c z = 0"
    and run: "fmap_insert_at_loop f key (fm_root f) (cl_fmap_root f (insert_prepare f key x m)) 0
      (insert_prepare f key x m) = Some (Inl z)" by blast
  moreover have "z = y"
    using fmap_compare.cmp_sorted_unique [OF assms(2), of "p_key m" xs z y key] calculation assms(1,4,5)
    by (simp add: fmap_wf_def key_before_def [abs_def])
  moreover have "p_key (insert_prepare f key x m) = (p_key m)(x := key)"
    by (simp add: insert_prepare_def)
  ultimately show ?thesis
    using insert_prepare_wf [OF assms(1,3), of key]
    by (simp add: cl_fmap_insert_def insert_prepare_def [symmetric] Let_def)
qed

lemma insert_frame:
  assumes "fmap_wf f m xs" "x \<notin> fmap_area f xs" "inorder (plug k Leaf) = xs"
    and "tree_frame (insert x (set xs)) (fm_root f)
      (insert_link f k x (insert_prepare f key x m)) m'"
  shows "same_outside (fmap_area f (x # xs)) m m'" and "p_key m' = (p_key m)(x := key)"
proof -
  let ?A = "fmap_area f (x # xs)" and ?m0 = "insert_prepare f key x m" and ?n = "fm_nil f"
  let ?m1 = "set_child (hdir k) (hup (fm_root f) k) x ?m0" and ?y = "hd (ctx_after k @ [fm_nil f])"
  have set: "ctx_set k = set xs" "set xs = set (ctx_before k) \<union> set (ctx_after k)"
    using assms(3) set_plug [of k Leaf] ctx_set_inorder [of k] by (auto simp flip: set_inorder)
  have u: "hup (fm_root f) k \<in> ?A" using ctx_hup [of "fm_root f" k] set by (auto simp: fmap_area_def)
  have m1: "same_outside ?A m ?m1"
    using u by (auto simp: insert_prepare_def same_outside_def set_child_def fmap_area_def)
  have "qlist_at ?m1 ?n xs = qlist_at m ?n xs"
    by (rule qlist_at_cong) (simp add: insert_prepare_def)
  then have "qlist_at ?m1 ?n xs" using assms(1) by (simp add: fmap_wf_def)
  moreover have "?y \<in> insert ?n (set xs)" using set by (cases "ctx_after k") auto
  ultimately have "same_outside ?A ?m1 (cl_primitive_insert ?y x ?m1)"
    using primitive_insert_frame [of ?m1 ?n xs ?y _ x] by (auto simp: same_outside_def fmap_area_def)
  moreover have "same_outside ?A (cl_primitive_insert ?y x ?m1) (insert_link f k x ?m0)"
    by (auto simp: insert_link_def same_outside_def fmap_area_def)
  moreover have "same_outside ?A (insert_link f k x ?m0) m'"
    using tree_frame_outside [OF assms(4)]
    by (rule same_outside_mono) (auto simp: fmap_area_def)
  ultimately show "same_outside ?A m m'"
    using m1 same_outside_trans by metis
  show "p_key m' = (p_key m)(x := key)"
    using assms(4) by (auto simp: tree_frame_def insert_link_def insert_prepare_def)
qed

lemma insert_sorted:
  assumes "fmap_wf f m (ys @ zs)" "fmap_compare (fm_pfn_compare f)" "x \<notin> set (ys @ zs)"
    and "\<forall>y\<in>set ys. 0 < fm_pfn_compare f key (p_key m y)"
    and "\<forall>y\<in>set zs. fm_pfn_compare f key (p_key m y) < 0"
    and "p_key m' = (p_key m)(x := key)" "fm_pfn_compare f' = fm_pfn_compare f"
  shows "sorted_wrt (key_before f' m') (ys @ x # zs)"
proof -
  have "sorted_wrt (key_before f m) (ys @ zs)" using assms(1) by (simp add: fmap_wf_def)
  then have "sorted_wrt (key_before f' m') (ys @ zs)"
    by (rule sorted_wrt_mono_rel [rotated]) (use assms(3,6,7) in \<open>auto simp: key_before_def\<close>)
  moreover have "fm_pfn_compare f (p_key m y) key < 0" if "y \<in> set ys" for y
    using fmap_compare.cmp_swap [OF assms(2)] assms(4) that by simp
  ultimately show ?thesis
    using assms(3,5-7) by (auto simp: sorted_wrt_append key_before_def)
qed

lemma fmap_insert_new:
  assumes "fmap_wf f m xs" "fmap_compare (fm_pfn_compare f)" "x \<notin> fmap_area f xs"
    and "\<forall>y\<in>set xs. fm_pfn_compare f key (p_key m y) \<noteq> 0"
  shows "\<exists>f' m' ys zs. cl_fmap_insert f key x m = Some (x, f', m') \<and> xs = ys @ zs \<and>
    fmap_wf f' m' (ys @ x # zs) \<and> p_key m' = (p_key m)(x := key) \<and>
    same_outside (fmap_area f (x # xs)) m m' \<and> f' = f\<lparr>fm_count := fm_count f + 1\<rparr>"
proof -
  let ?n = "fm_nil f" and ?rt = "fm_root f" and ?m0 = "insert_prepare f key x m"
  let ?f = "f\<lparr>fm_count := fm_count f + 1\<rparr>"
  from insert_search [OF assms(1-3), of key] assms(4) obtain t k e where t: "fmap_tree f ?m0 t"
      "inorder t = xs" "plug k Leaf = t" and k: "hole_for (\<lambda>y. fm_pfn_compare f key (p_key m y)) k"
      "k \<noteq> [] \<longrightarrow> (e < 0 \<longleftrightarrow> hdir k)"
    and run: "fmap_insert_at_loop f key ?rt (cl_fmap_root f ?m0) 0 ?m0 = Some (Inr (hup ?rt k, e))"
    by blast
  have xs: "xs = ctx_before k @ ctx_after k" using t by (auto simp: inorder_plug)
  have q: "qlist_at ?m0 ?n (inorder t)"
    using insert_prepare_wf(1) [OF assms(1,3)] t(2) by (simp add: fmap_wf_def)
  let ?m1 = "insert_link f k x ?m0"
  have link: "ins_inv f ?m1 k (node_d True Leaf x Leaf)"
    "qlist_at ?m1 ?n (ctx_before k @ x # ctx_after k)"
    using insert_link_inv [OF t(3,1) q, of x] t(2) assms(3)
    by (auto simp: insert_prepare_def node_d_def fmap_area_def)
  have fi: "ins_inv ?f ?m1 k (node_d True Leaf x Leaf)" using link(1) by (simp add: ins_inv_def)
  from ins_bal_balances [OF fi] obtain m2 where m2: "cl_fmap_ins_bal ?f x ?m1 = Some m2"
    "balanced_at ?f ?m1 (plug k (Node Leaf x Leaf)) m2" by (auto simp: node_d_def)
  let ?m3 = "set_color (cl_fmap_root ?f m2) CL_MAP_BLACK m2"
  have code: "cl_fmap_insert f key x m = Some (x, ?f, ?m3)"
    using run m2(1) unfolding cl_fmap_insert_def insert_prepare_def [symmetric] Let_def
    by (simp add: insert_link_def insert_link_code [OF t(3,1) q k(2) refl, unfolded Let_def]
        split del: if_split)
  have S: "ctx_set k = set xs" using xs ctx_set_inorder [of k] by simp
  have col: "color ?m1 ?n = CL_MAP_BLACK" "color ?m1 ?rt = CL_MAP_BLACK"
    using link(1) unfolding ins_inv_def by blast+
  have out: "?n \<notin> insert x (set xs)" "?rt \<notin> insert x (set xs)"
    using assms(3) fmap_wf_sentinels [OF assms(1)] by (auto simp: fmap_area_def)
  have up: "p_up ?m1 ?rt = ?rt"
    using t(1) out by (simp add: insert_link_def fmap_tree_def)
  have "plug k (Node Leaf x Leaf) \<noteq> Leaf" by simp
  note pre = this col up out
  have t': "\<exists>t'. fmap_tree ?f ?m3 t' \<and> inorder t' = ctx_before k @ x # ctx_after k"
    using insert_finish(1) [OF m2(2)] S pre by (simp add: inorder_plug)
  have fr: "tree_frame (insert x (set xs)) ?rt ?m1 ?m3"
    using insert_finish(2) [OF m2(2)] S pre by simp
  note frame = insert_frame [OF assms(1,3) _ fr] 
  have "sorted_wrt (key_before ?f ?m3) (ctx_before k @ x # ctx_after k)"
    by (rule insert_sorted [OF assms(1) [unfolded xs] assms(2)])
      (use frame t assms(3) k(1) xs in \<open>auto simp: hole_for_def fmap_area_def\<close>)
  then have "fmap_wf ?f ?m3 (ctx_before k @ x # ctx_after k)"
    using t' link(2) tree_frame_list [OF fr] assms(1) xs by (auto simp: fmap_wf_def)
  with code frame t xs show ?thesis by blast
qed

end
