(* ===== verification/Fmap_Remove.thy ===== *)
theory Fmap_Remove
  imports Fmap_Insert
begin

text \<open>
  Removal. The item spliced out of the tree leaves a subtree that is one black node short; the
  balancing loop carries that deficit up until a rotation or a repainting absorbs it. The loop
  is followed on a tree with the short subtree singled out; its root may be the nil sentinel,
  whose parent link the code sets for the purpose.
\<close>

section \<open>The loop by direction\<close>

definition del_last ::
  "bool \<Rightarrow> 'p \<Rightarrow> 'p \<Rightarrow> 'p \<Rightarrow> ('p, 'k, 'z) map_mem_scheme \<Rightarrow> ('p, 'k, 'z) map_mem_scheme" where
  "del_last d n p u m =
    (let m = set_color u (color m (p_up m p)) m;
         m = set_color (p_up m p) CL_MAP_BLACK m;
         m = set_color (child (\<not> d) m u) CL_MAP_BLACK m
     in rot d n (p_up m p) m)"

definition del_turn ::
  "bool \<Rightarrow> ('p, 'k) cl_fmap_t \<Rightarrow> 'p \<Rightarrow> 'p \<Rightarrow> ('p, 'k, 'z) map_mem_scheme \<Rightarrow>
   ('p \<times> ('p, 'k, 'z) map_mem_scheme) option" where
  "del_turn d f p u m =
    (if color m (child (\<not> d) m u) \<noteq> CL_MAP_RED
     then if color m (child d m u) \<noteq> CL_MAP_RED
       then let m = set_color u CL_MAP_RED m in fmap_del_bal_loop f (p_up m p) m
       else
         let m = set_color (child d m u) CL_MAP_BLACK m;
             m = set_color u CL_MAP_RED m;
             m = rot (\<not> d) (fm_nil f) u m
         in Some (p, del_last d (fm_nil f) p (child (\<not> d) m (p_up m p)) m)
     else Some (p, del_last d (fm_nil f) p u m))"

text \<open>
  The invariant: \<open>t\<close> is the short subtree, with any root colour; its context is that of a
  red-black tree whose hole takes a subtree one black node higher than \<open>t\<close>.
\<close>

definition del_inv ::
  "('p, 'k) cl_fmap_t \<Rightarrow> ('p, 'k, 'z) map_mem_scheme \<Rightarrow> 'p ctx \<Rightarrow> 'p tree \<Rightarrow> bool" where
  "del_inv f m k t \<longleftrightarrow> place m (fm_nil f) (fm_root f) k t \<and>
     p_up m (root_of (fm_nil f) t) = hup (fm_root f) k \<and>
     color m (fm_nil f) = CL_MAP_BLACK \<and> color m (fm_root f) = CL_MAP_BLACK \<and>
     (rootcol (color m) t = CL_MAP_BLACK \<longrightarrow> invc (color m) t) \<and>
     invc ((color m)(root_of (fm_nil f) t := CL_MAP_BLACK)) t \<and> invh (color m) t \<and>
     ctx_invc (color m) k CL_MAP_BLACK \<and> ctx_invh (color m) k (bheight (color m) t + 1) \<and>
     ctx_top (color m) k"

definition rebalanced ::
  "('p, 'k) cl_fmap_t \<Rightarrow> ('p, 'k, 'z) map_mem_scheme \<Rightarrow> 'p tree \<Rightarrow> ('p, 'k, 'z) map_mem_scheme \<Rightarrow> bool" where
  "rebalanced f m t m' \<longleftrightarrow> (\<exists>t'. place m' (fm_nil f) (fm_root f) [] t' \<and> inorder t' = inorder t \<and>
     rb_tree (color m') t' \<and> tree_frame (set_tree t) (fm_root f) m m')"

lemma del_bal_dir:
  "fmap_del_bal_loop f p m =
    (if color m p \<noteq> CL_MAP_RED \<and> p_up m p \<noteq> fm_root f
     then
       let d = cl_fmap_is_left_child p m; u = child (\<not> d) m (p_up m p);
           (u, m) = (if color m u = CL_MAP_RED
             then
               let m = set_color u CL_MAP_BLACK m;
                   m = set_color (p_up m p) CL_MAP_RED m;
                   m = rot d (fm_nil f) (p_up m p) m
               in (child (\<not> d) m (p_up m p), m)
             else (u, m))
       in del_turn d f p u m
     else Some (p, m))"
proof (cases "cl_fmap_is_left_child p m")
  case True
  then have l: "cl_fmap_is_left_child p m = True" by simp
  show ?thesis
    unfolding fmap_del_bal_loop.simps [of f p m] del_turn_def del_last_def rot_left_dir rot_right_dir
      fmap_del_bal_last_left_def Let_def l if_True not_True_eq_False child_True_False
    by (rule refl)
next
  case False
  then have l: "cl_fmap_is_left_child p m = False" by simp
  show ?thesis
    unfolding fmap_del_bal_loop.simps [of f p m] del_turn_def del_last_def rot_left_dir rot_right_dir
      fmap_del_bal_last_right_def Let_def l if_False not_False_eq_True child_True_False
    by (rule refl)
qed

section \<open>The last turn\<close>

lemma rebalanced_frame:
  assumes "rebalanced f m' t' m''" and "tree_frame (set_tree t) (fm_root f) m m'"
    and "inorder t' = inorder t"
  shows "rebalanced f m t m''"
  using assms tree_frame_trans [of "set_tree t" "fm_root f" m m' m'']
  unfolding rebalanced_def by (metis set_inorder)

lemma del_last_rebalances:
  assumes pl: "place m (fm_nil f) (fm_root f) k (node_d d t q (node_d d c u (node_d d a e b)))"
    and up: "p_up m p = q"
    and col: "color m e = CL_MAP_RED" "rootcol (color m) t = CL_MAP_BLACK"
    and inv: "invc (color m) t" "invc (color m) c" "invc (color m) (node_d d a e b)"
      "invh (color m) t" "invh (color m) c" "invh (color m) (node_d d a e b)"
      "bheight (color m) c = bheight (color m) t"
      "bheight (color m) (node_d d a e b) = bheight (color m) t"
    and ctx: "ctx_invc (color m) k (color m q)"
      "ctx_invh (color m) k (bheight (color m) t + 1 + (if color m q = CL_MAP_BLACK then 1 else 0))"
      "if k = [] then color m q = CL_MAP_BLACK else ctx_top (color m) k"
  shows "rebalanced f m (plug k (node_d d t q (node_d d c u (node_d d a e b))))
      (del_last d (fm_nil f) p u m)"
    and "p \<notin> {q, u, e} \<Longrightarrow> color (del_last d (fm_nil f) p u m) p = color m p"
proof -
  let ?t = "node_d d t q (node_d d c u (node_d d a e b))"
  let ?t' = "node_d d (node_d d t q c) u (node_d d a e b)"
  let ?m1 = "set_color e CL_MAP_BLACK (set_color q CL_MAP_BLACK (set_color u (color m q) m))"
  let ?m2 = "rot d (fm_nil f) q ?m1"
  note dist = place_distinct [OF pl]
  have pu: "place m (fm_nil f) (fm_root f) ((\<not> d, q, t) # k) (node_d d c u (node_d d a e b))"
    using pl by (simp add: place_up node_d_flip [of "\<not> d"])
  have code: "del_last d (fm_nil f) p u m = ?m2"
    using up place_child(2) [OF pu] dist by (simp add: del_last_def Let_def)
  have pl1: "place ?m1 (fm_nil f) (fm_root f) k ?t" using pl by simp
  note r = rot_place [OF pl1]
  have fr: "tree_frame (set_tree (plug k ?t)) (fm_root f) m ?m2"
    using tree_frame_mono [OF r(2), of "set_tree (plug k ?t)"]
    by (auto simp: tree_frame_def)
  have c2: "color ?m2 = (color m)(u := color m q, q := CL_MAP_BLACK, e := CL_MAP_BLACK)" by simp
  have "invc (color ?m2) ?t' \<and> invh (color ?m2) ?t' \<and>
    bheight (color ?m2) ?t' = bheight (color m) t + 1 + (if color m q = CL_MAP_BLACK then 1 else 0)
    \<and> rootcol (color ?m2) ?t' = color m q"
    unfolding c2 using dist(1) col inv by (auto simp: bheight_node_d)
  moreover have "u \<notin> ctx_set k" "q \<notin> ctx_set k" "e \<notin> ctx_set k" using dist by auto
  ultimately have "rb_tree (color ?m2) (plug k ?t')"
    using ctx rootcol_plug [of "color ?m2" k ?t'] unfolding c2 by (simp add: rb_tree_def)
  then show "rebalanced f m (plug k ?t) (del_last d (fm_nil f) p u m)"
    unfolding rebalanced_def code using r(1) fr
    by (intro exI [of _ "plug k ?t'"]) (simp add: place_top [symmetric] inorder_plug inorder_node_d)
  show "p \<notin> {q, u, e} \<Longrightarrow> color (del_last d (fm_nil f) p u m) p = color m p"
    unfolding code c2 by simp
qed

section \<open>A turn with a black sibling\<close>

lemma set_color_same: "color m p = c \<Longrightarrow> set_color p c m = m"
  by (cases m) (simp add: set_color_def fun_upd_idem)

definition del_post ::
  "('p, 'k) cl_fmap_t \<Rightarrow> ('p, 'k, 'z) map_mem_scheme \<Rightarrow> 'p tree \<Rightarrow>
   ('p \<times> ('p, 'k, 'z) map_mem_scheme) option \<Rightarrow> bool" where
  "del_post f m t r \<longleftrightarrow> (\<exists>p m'. r = Some (p, m') \<and> rebalanced f m t (set_color p CL_MAP_BLACK m'))"

lemma del_postI:
  "rebalanced f m t m' \<Longrightarrow> color m' p = CL_MAP_BLACK \<Longrightarrow> del_post f m t (Some (p, m'))"
  by (simp add: del_post_def set_color_same)

lemma del_inv_node:
  assumes "del_inv f m ((d, q, node_d d c u e) # k) t"
  shows "place m (fm_nil f) (fm_root f) k (node_d d t q (node_d d c u e))"
    and "p_up m (root_of (fm_nil f) t) = q"
    and "child d m u = root_of (fm_nil f) c" "child (\<not> d) m u = root_of (fm_nil f) e"
    and "root_of (fm_nil f) t \<notin> insert q (set_tree (node_d d c u e))"
    and "color m (child d m u) = rootcol (color m) c" "color m (child (\<not> d) m u) = rootcol (color m) e"
proof -
  show pl: "place m (fm_nil f) (fm_root f) k (node_d d t q (node_d d c u e))"
    using assms by (simp add: del_inv_def place_up)
  show "p_up m (root_of (fm_nil f) t) = q" using assms by (simp add: del_inv_def)
  have "place m (fm_nil f) (fm_root f) ((\<not> d, q, t) # k) (node_d d c u e)"
    using pl by (simp add: place_up node_d_flip [of "\<not> d"])
  from place_child [OF this]
  show "child d m u = root_of (fm_nil f) c" "child (\<not> d) m u = root_of (fm_nil f) e" by auto
  then show "color m (child d m u) = rootcol (color m) c"
    "color m (child (\<not> d) m u) = rootcol (color m) e"
    using assms by (simp_all add: del_inv_def color_root_of)
  show "root_of (fm_nil f) t \<notin> insert q (set_tree (node_d d c u e))"
    using root_of_in [of "fm_nil f" t] place_distinct(1,3) [OF pl] by auto
qed

lemma del_inv_black:
  assumes "del_inv f m ((d, q, node_d d c u e) # k) t" and "rootcol (color m) t = CL_MAP_BLACK"
    and "color m u = CL_MAP_BLACK"
  shows "invc (color m) t" "invh (color m) t" "invc (color m) c" "invh (color m) c"
    "invc (color m) e" "invh (color m) e" "bheight (color m) c = bheight (color m) t"
    "bheight (color m) e = bheight (color m) t" "ctx_invc (color m) k (color m q)"
    "ctx_invh (color m) k (bheight (color m) t + 1 + (if color m q = CL_MAP_BLACK then 1 else 0))"
    "if k = [] then color m q = CL_MAP_BLACK else ctx_top (color m) k"
  using assms by (auto simp: del_inv_def bheight_node_d split: if_splits)

lemma del_turn_far:
  assumes inv: "del_inv f m ((d, q, node_d d c u e) # k) t" "rootcol (color m) t = CL_MAP_BLACK"
      "color m u = CL_MAP_BLACK" and far: "rootcol (color m) e = CL_MAP_RED"
  shows "del_post f m (plug k (node_d d t q (node_d d c u e))) (del_turn d f (root_of (fm_nil f) t) u m)"
proof -
  note b = del_inv_black [OF inv] and n = del_inv_node [OF inv(1)]
  let ?p = "root_of (fm_nil f) t"
  have "e \<noteq> Leaf" using far by auto
  then obtain a w b where e: "e = node_d d a w b" by (metis neq_Leaf_iff node_d_obtain)
  have "rebalanced f m (plug k (node_d d t q (node_d d c u e))) (del_last d (fm_nil f) ?p u m)"
    and "color (del_last d (fm_nil f) ?p u m) ?p = color m ?p"
    using del_last_rebalances [of m f k d t q c u a w b ?p] b n far inv(2) unfolding e by auto
  moreover have "color m ?p = CL_MAP_BLACK"
    using inv by (simp add: del_inv_def color_root_of)
  ultimately show ?thesis
    using n(7) far by (auto simp: del_turn_def intro: del_postI)
qed

lemma place_root_up:
  "place m n rt k (node_d d t q s) \<Longrightarrow> t \<noteq> Leaf \<Longrightarrow> p_up m (root_of n t) = q"
  by (cases t) (auto simp: place_def)

lemma del_turn_near:
  assumes inv: "del_inv f m ((d, q, node_d d c u e) # k) t" "rootcol (color m) t = CL_MAP_BLACK"
      "color m u = CL_MAP_BLACK"
    and near: "rootcol (color m) e = CL_MAP_BLACK" "rootcol (color m) c = CL_MAP_RED"
  shows "del_post f m (plug k (node_d d t q (node_d d c u e))) (del_turn d f (root_of (fm_nil f) t) u m)"
proof -
  note b = del_inv_black [OF inv] and n = del_inv_node [OF inv(1)]
  let ?p = "root_of (fm_nil f) t" and ?n = "fm_nil f" and ?rt = "fm_root f"
  have "c \<noteq> Leaf" using near by auto
  then obtain c1 w c2 where c: "c = node_d d c1 w c2" by (metis neq_Leaf_iff node_d_obtain)
  let ?m1 = "set_color u CL_MAP_RED (set_color w CL_MAP_BLACK m)"
  let ?m2 = "rot (\<not> d) ?n u ?m1"
  let ?T = "node_d d t q (node_d d c u e)"
  let ?T2 = "node_d d t q (node_d d c1 w (node_d d c2 u e))"
  note dist = place_distinct [OF n(1) [unfolded c]]
  have "place ?m1 ?n ?rt ((\<not> d, q, t) # k) (node_d (\<not> d) e u (node_d (\<not> d) c2 w c1))"
    using n(1) by (simp add: place_up node_d_flip [of "\<not> d"] c)
  note r = rot_place [OF this]
  have pl2: "place ?m2 ?n ?rt k ?T2"
    using r(1) by (simp add: place_up node_d_flip [of "\<not> d"])
  have fr: "tree_frame (set_tree (plug k ?T)) ?rt m ?m2"
    using tree_frame_mono [OF r(2), of "set_tree (plug k ?T)"] by (auto simp: tree_frame_def c)
  have c2: "color ?m2 = (color m)(w := CL_MAP_BLACK, u := CL_MAP_RED)" by simp
  have ch: "child (\<not> d) ?m2 q = w" using place_child(2) [OF pl2] by simp
  have up: "p_up ?m2 ?p = q"
  proof (cases "t = Leaf")
    case True
    with r(2) n(2) dist have "p_up ?m2 ?n = p_up m ?n" by (auto simp: tree_frame_def)
    with True n(2) show ?thesis by simp
  qed (rule place_root_up [OF pl2])
  have ne: "w \<noteq> u" "u \<notin> set_tree t" "w \<notin> set_tree t" "u \<notin> set_tree c1" "w \<notin> set_tree c1"
    "u \<notin> set_tree c2" "w \<notin> set_tree c2" "u \<notin> set_tree e" "w \<notin> set_tree e" "u \<noteq> q" "w \<noteq> q"
    "u \<notin> ctx_set k" "w \<notin> ctx_set k"
    using dist by auto
  have p: "?p \<notin> {q, w, u}" using n(5) c by auto
  have "rebalanced f ?m2 (plug k ?T2) (del_last d ?n ?p w ?m2)"
    and bl: "color (del_last d ?n ?p w ?m2) ?p = color ?m2 ?p"
    by (rule del_last_rebalances [OF pl2 up];
        use b ne near p inv(2) in \<open>simp add: c bheight_node_d split: if_splits\<close>)+
  from rebalanced_frame [OF this(1) fr] have "rebalanced f m (plug k ?T) (del_last d ?n ?p w ?m2)"
    by (simp add: inorder_plug inorder_node_d c)
  moreover have "color m ?p = CL_MAP_BLACK"
    using inv by (simp add: del_inv_def color_root_of)
  ultimately have post: "del_post f m (plug k ?T) (Some (?p, del_last d ?n ?p w ?m2))"
    using bl p by (intro del_postI) auto
  have "del_turn d f ?p u m = Some (?p, del_last d ?n ?p w ?m2)"
    using near n(3,4,6,7) ch up by (simp add: del_turn_def c)
  with post show ?thesis by simp
qed

lemma del_turn_black_children:
  assumes inv: "del_inv f m ((d, q, node_d d c u e) # k) t" "rootcol (color m) t = CL_MAP_BLACK"
      "color m u = CL_MAP_BLACK"
    and bl: "rootcol (color m) e = CL_MAP_BLACK" "rootcol (color m) c = CL_MAP_BLACK"
  shows "del_turn d f (root_of (fm_nil f) t) u m = fmap_del_bal_loop f q (set_color u CL_MAP_RED m)"
    and "del_inv f (set_color u CL_MAP_RED m) k (node_d d t q (node_d d c u e))"
    and "tree_frame (set_tree (plug k (node_d d t q (node_d d c u e)))) (fm_root f) m
      (set_color u CL_MAP_RED m)"
proof -
  note b = del_inv_black [OF inv] and n = del_inv_node [OF inv(1)]
  note dist = place_distinct [OF n(1)]
  show "del_turn d f (root_of (fm_nil f) t) u m = fmap_del_bal_loop f q (set_color u CL_MAP_RED m)"
    using bl n by (simp add: del_turn_def)
  show "tree_frame (set_tree (plug k (node_d d t q (node_d d c u e)))) (fm_root f) m
      (set_color u CL_MAP_RED m)"
    by (rule tree_frame_color) simp_all
  have "fm_nil f \<noteq> u" "fm_root f \<noteq> u" "q \<noteq> u" "u \<notin> set_tree t" "u \<notin> set_tree c" "u \<notin> set_tree e"
    "q \<notin> set_tree t" "q \<notin> set_tree c" "q \<notin> set_tree e" "u \<notin> ctx_set k"
    using dist by auto
  moreover have "p_up m q = hup (fm_root f) k" using place_is_left(2) [OF n(1)] .
  moreover have "ctx_invc (color m) k CL_MAP_BLACK" using b(9) by (rule ctx_invc_black)
  ultimately show "del_inv f (set_color u CL_MAP_RED m) k (node_d d t q (node_d d c u e))"
    using b bl inv n(1) unfolding del_inv_def by (simp add: bheight_node_d split: if_splits)
qed

section \<open>The loop\<close>

lemma del_exit:
  assumes inv: "del_inv f m k t" and stop: "rootcol (color m) t = CL_MAP_RED \<or> k = []"
  shows "fmap_del_bal_loop f (root_of (fm_nil f) t) m = Some (root_of (fm_nil f) t, m)"
    and "del_post f m (plug k t) (fmap_del_bal_loop f (root_of (fm_nil f) t) m)"
proof -
  let ?p = "root_of (fm_nil f) t" and ?m = "set_color (root_of (fm_nil f) t) CL_MAP_BLACK m"
  have pl: "place m (fm_nil f) (fm_root f) k t" and nil: "color m (fm_nil f) = CL_MAP_BLACK"
    using inv by (auto simp: del_inv_def)
  have rc: "color m ?p = rootcol (color m) t" using nil by (rule color_root_of)
  show run: "fmap_del_bal_loop f ?p m = Some (?p, m)"
    using inv stop rc by (subst fmap_del_bal_loop.simps) (auto simp: del_inv_def)
  have "rebalanced f m (plug k t) ?m"
  proof (cases t)
    case Leaf
    with nil stop pl have "?m = m" "k = []" by (auto simp: set_color_same)
    with Leaf pl show ?thesis by (auto simp: rebalanced_def rb_tree_def)
  next
    case (Node l x r)
    then have x: "x \<notin> ctx_set k" "x \<notin> set_tree l" "x \<notin> set_tree r"
      using place_distinct [OF pl] by auto
    have "rb_tree (color ?m) (plug k t)"
      using inv stop x Node rootcol_plug [of "color ?m" k t]
      by (auto simp: del_inv_def rb_tree_def)
    moreover have "tree_frame (set_tree (plug k t)) (fm_root f) m ?m"
      by (rule tree_frame_color) (auto simp: Node)
    ultimately show ?thesis
      using pl by (auto simp: rebalanced_def place_top [of m _ _ k])
  qed
  with run show "del_post f m (plug k t) (fmap_del_bal_loop f ?p m)"
    by (simp add: del_post_def)
qed

lemma del_inv_sibling:
  assumes "del_inv f m ((d, q, s) # k) t"
  obtains c u e where "s = node_d d c u e"
  using assms bheight_pos_node [of "color m" s d] by (auto simp: del_inv_def)

lemma del_is_left:
  assumes "del_inv f m ((d, q, node_d d c u e) # k) t"
  shows "cl_fmap_is_left_child (root_of (fm_nil f) t) m = d"
    and "child (\<not> d) m q = u" and "q \<noteq> fm_root f"
proof -
  note n = del_inv_node [OF assms]
  from place_child [OF n(1)] have ch: "child d m q = root_of (fm_nil f) t" "child (\<not> d) m q = u"
    by auto
  then show "child (\<not> d) m q = u" by simp
  show "cl_fmap_is_left_child (root_of (fm_nil f) t) m = d"
    using ch n(2,5) by (cases d) (auto simp: cl_fmap_is_left_child_def child_True_False)
  show "q \<noteq> fm_root f" using place_distinct [OF n(1)] by auto
qed

lemma del_red_sibling:
  assumes inv: "del_inv f m ((d, q, node_d d c u e) # k) t" "rootcol (color m) t = CL_MAP_BLACK"
      "color m u = CL_MAP_RED"
  defines "m' \<equiv> rot d (fm_nil f) q (set_color q CL_MAP_RED (set_color u CL_MAP_BLACK m))"
  shows "del_inv f m' ((d, q, c) # (d, u, e) # k) t" "color m' q = CL_MAP_RED"
    "rootcol (color m') c = CL_MAP_BLACK" "rootcol (color m') t = CL_MAP_BLACK"
    "tree_frame (set_tree (plug k (node_d d t q (node_d d c u e)))) (fm_root f) m m'"
proof -
  let ?n = "fm_nil f" and ?rt = "fm_root f"
  let ?m1 = "set_color q CL_MAP_RED (set_color u CL_MAP_BLACK m)"
  let ?T = "node_d d t q (node_d d c u e)"
  note n = del_inv_node [OF inv(1)]
  note dist = place_distinct [OF n(1)]
  have pl1: "place ?m1 ?n ?rt k ?T" using n(1) by simp
  note r = rot_place [OF pl1, folded m'_def]
  have col: "color m' = (color m)(u := CL_MAP_BLACK, q := CL_MAP_RED)" by (simp add: m'_def)
  have up: "p_up m' (root_of ?n t) = q"
  proof (cases "t = Leaf")
    case True
    with r(2) dist have "p_up m' ?n = p_up m ?n" by (auto simp: tree_frame_def)
    with True n(2) show ?thesis by simp
  next
    case False
    have "place m' ?n ?rt ((d, u, e) # k) (node_d d t q c)" using r(1) by (simp add: place_up)
    then show ?thesis using False by (rule place_root_up)
  qed
  have ne: "q \<noteq> u" "q \<notin> set_tree t" "q \<notin> set_tree c" "q \<notin> set_tree e" "u \<notin> set_tree t"
    "u \<notin> set_tree c" "u \<notin> set_tree e" "q \<notin> ctx_set k" "u \<notin> ctx_set k" "?n \<noteq> q" "?n \<noteq> u"
    "?rt \<noteq> q" "?rt \<noteq> u" "root_of ?n t \<noteq> q" "root_of ?n t \<noteq> u"
    using dist n(5) by auto
  show "color m' q = CL_MAP_RED" "rootcol (color m') t = CL_MAP_BLACK"
    using inv(2) ne by (auto simp: col)
  show "rootcol (color m') c = CL_MAP_BLACK"
    using inv(1,3) ne by (simp add: del_inv_def col)
  show "tree_frame (set_tree (plug k ?T)) ?rt m m'"
    using tree_frame_mono [OF r(2), of "set_tree (plug k ?T)"] by (auto simp: tree_frame_def)
  have "place m' ?n ?rt ((d, q, c) # (d, u, e) # k) t" using r(1) by (simp add: place_up)
  moreover have "invc ((color m')(root_of ?n t := CL_MAP_BLACK)) t"
  proof -
    have "invc ((color m')(root_of ?n t := CL_MAP_BLACK)) t =
        invc ((color m)(root_of ?n t := CL_MAP_BLACK)) t"
      by (rule invc_cong) (use ne in \<open>auto simp: col\<close>)
    with inv(1) show ?thesis by (simp add: del_inv_def)
  qed
  ultimately show "del_inv f m' ((d, q, c) # (d, u, e) # k) t"
    using inv ne up unfolding del_inv_def col
    by (auto simp: bheight_node_d)
qed

lemma del_post_frame:
  assumes "del_post f m' t' r" and "tree_frame (set_tree t) (fm_root f) m m'"
    and "inorder t' = inorder t"
  shows "del_post f m t r"
  using assms rebalanced_frame unfolding del_post_def by metis

text \<open>A turn whose parent is red needs no further one.\<close>

lemma del_turn_red_parent:
  assumes inv: "del_inv f m ((d, q, node_d d c u e) # k) t" "rootcol (color m) t = CL_MAP_BLACK"
      "color m u = CL_MAP_BLACK" and q: "color m q = CL_MAP_RED"
  shows "del_post f m (plug k (node_d d t q (node_d d c u e))) (del_turn d f (root_of (fm_nil f) t) u m)"
proof (cases "rootcol (color m) e = CL_MAP_RED \<or> rootcol (color m) c = CL_MAP_RED")
  case True
  then show ?thesis
    using del_turn_far [OF inv] del_turn_near [OF inv] by (cases "rootcol (color m) e") auto
next
  case False
  then have "rootcol (color m) e = CL_MAP_BLACK" "rootcol (color m) c = CL_MAP_BLACK" by auto
  note b = del_turn_black_children [OF inv this]
  have "q \<noteq> u" using place_distinct(1) [OF del_inv_node(1) [OF inv(1)]] by auto
  with q del_exit(2) [OF b(2)] have
    "del_post f (set_color u CL_MAP_RED m) (plug k (node_d d t q (node_d d c u e)))
      (del_turn d f (root_of (fm_nil f) t) u m)" by (simp add: b(1))
  then show ?thesis by (rule del_post_frame) (use b(3) in auto)
qed

lemma del_loop_turn:
  assumes inv: "del_inv f m ((d, q, node_d d c u e) # k) t" "rootcol (color m) t = CL_MAP_BLACK"
  shows "fmap_del_bal_loop f (root_of (fm_nil f) t) m =
    (if color m u = CL_MAP_RED
     then let m' = rot d (fm_nil f) q (set_color q CL_MAP_RED (set_color u CL_MAP_BLACK m))
          in del_turn d f (root_of (fm_nil f) t) (root_of (fm_nil f) c) m'
     else del_turn d f (root_of (fm_nil f) t) u m)"
proof -
  let ?m = "rot d (fm_nil f) q (set_color q CL_MAP_RED (set_color u CL_MAP_BLACK m))"
  note n = del_inv_node [OF inv(1)] and l = del_is_left [OF inv(1)]
  have nil: "color m (root_of (fm_nil f) t) = CL_MAP_BLACK"
    using inv by (simp add: del_inv_def color_root_of)
  have "p_up ?m (root_of (fm_nil f) t) = q" "child (\<not> d) ?m q = root_of (fm_nil f) c"
    if "color m u = CL_MAP_RED"
  proof -
    note r = del_red_sibling(1) [OF inv that]
    then show "p_up ?m (root_of (fm_nil f) t) = q" by (simp add: del_inv_def)
    from r have "place ?m (fm_nil f) (fm_root f) ((d, u, e) # k) (node_d d t q c)"
      by (simp add: del_inv_def place_up)
    then show "child (\<not> d) ?m q = root_of (fm_nil f) c" by (rule place_child(2))
  qed
  with n(2) l nil show ?thesis by (subst del_bal_dir) (simp add: Let_def)
qed

lemma del_bal_loop_post:
  assumes "del_inv f m k t"
  shows "del_post f m (plug k t) (fmap_del_bal_loop f (root_of (fm_nil f) t) m)"
  using assms
proof (induction "length k" arbitrary: m k t rule: less_induct)
  case less
  show ?case
  proof (cases "rootcol (color m) t = CL_MAP_RED \<or> k = []")
    case True
    with less.prems show ?thesis by (rule del_exit(2))
  next
    case False
    then obtain d q s k' where k: "k = (d, q, s) # k'" and bl: "rootcol (color m) t = CL_MAP_BLACK"
      by (cases k rule: ctx_set.cases) auto
    with less.prems obtain c u e where s: "s = node_d d c u e" by (auto elim: del_inv_sibling)
    note inv = less.prems [unfolded k s]
    show ?thesis
    proof (cases "color m u")
      case CL_MAP_RED
      let ?m = "rot d (fm_nil f) q (set_color q CL_MAP_RED (set_color u CL_MAP_BLACK m))"
      note r = del_red_sibling [OF inv bl CL_MAP_RED]
      obtain c' u' e' where c: "c = node_d d c' u' e'" using r(1) by (rule del_inv_sibling)
      have "del_post f ?m (plug ((d, u, e) # k') (node_d d t q c)) (del_turn d f (root_of (fm_nil f) t) u' ?m)"
        unfolding c by (rule del_turn_red_parent) (use r c in auto)
      then have "del_post f m (plug k t) (del_turn d f (root_of (fm_nil f) t) u' ?m)"
        by (rule del_post_frame) (use r(5) in \<open>auto simp: k s inorder_plug inorder_node_d\<close>)
      then show ?thesis using del_loop_turn [OF inv bl] CL_MAP_RED by (simp add: c)
    next
      case CL_MAP_BLACK
      then have turn: "fmap_del_bal_loop f (root_of (fm_nil f) t) m = del_turn d f (root_of (fm_nil f) t) u m"
        using del_loop_turn [OF inv bl] by simp
      consider "rootcol (color m) e = CL_MAP_RED"
        | "rootcol (color m) e = CL_MAP_BLACK" "rootcol (color m) c = CL_MAP_RED"
        | "rootcol (color m) e = CL_MAP_BLACK" "rootcol (color m) c = CL_MAP_BLACK"
        by (metis not_red)
      then show ?thesis
      proof cases
        case 1
        from del_turn_far [OF inv bl CL_MAP_BLACK this] show ?thesis by (simp add: turn k s)
      next
        case 2
        from del_turn_near [OF inv bl CL_MAP_BLACK this] show ?thesis by (simp add: turn k s)
      next
        case 3
        note b = del_turn_black_children [OF inv bl CL_MAP_BLACK this]
        have "length k' < length k" by (simp add: k)
        from less.hyps [OF this b(2)] have "del_post f (set_color u CL_MAP_RED m)
            (plug k' (node_d d t q (node_d d c u e))) (fmap_del_bal_loop f (root_of (fm_nil f) t) m)"
          by (simp add: turn b(1))
        then show ?thesis by (rule del_post_frame) (use b(3) in \<open>auto simp: k s\<close>)
      qed
    qed
  qed
qed

lemma del_bal_rebalances:
  assumes "del_inv f m k t"
  shows "\<exists>m'. cl_fmap_del_bal f (root_of (fm_nil f) t) m = Some m' \<and> rebalanced f m (plug k t) m'"
  using del_bal_loop_post [OF assms] by (auto simp: cl_fmap_del_bal_def del_post_def)

section \<open>Splicing an item out of the tree\<close>

lemma tree_split:
  assumes "x \<in> set_tree t"
  shows "\<exists>k l r. t = plug k (Node l x r)"
  using assms
proof (induction t)
  case (Node l y r)
  then consider "x = y" | k a b where "l = plug k (Node a x b)" | k a b where "r = plug k (Node a x b)"
    by auto
  then show ?case
  proof cases
    case 1
    then show ?thesis by (intro exI [of _ "[]"]) auto
  next
    case 2
    then show ?thesis
      by (intro exI [of _ "k @ [(True, y, r)]"] exI [of _ a] exI [of _ b])
        (simp add: plug_append node_d_def)
  next
    case 3
    then show ?thesis
      by (intro exI [of _ "k @ [(False, y, l)]"] exI [of _ a] exI [of _ b])
        (simp add: plug_append node_d_def)
  qed
qed simp

lemma tree_leftmost:
  assumes "t \<noteq> Leaf"
  shows "\<exists>k y b. t = plug k (Node Leaf y b) \<and> ctx_before k = []"
  using assms
proof (induction t)
  case (Node l x r)
  show ?case
  proof (cases "l = Leaf")
    case True
    then show ?thesis by (intro exI [of _ "[]"]) auto
  next
    case False
    with Node.IH(1) obtain k y b where "l = plug k (Node Leaf y b)" "ctx_before k = []" by blast
    moreover have "ctx_before (k @ [(True, x, r)]) = ctx_before k" for k
      by (induction k rule: ctx_before.induct) auto
    ultimately show ?thesis
      by (intro exI [of _ "k @ [(True, x, r)]"]) (auto simp: plug_append node_d_def)
  qed
qed simp

definition splice_out ::
  "'p \<Rightarrow> 'p \<Rightarrow> ('p, 'k, 'z) map_mem_scheme \<Rightarrow> ('p, 'k, 'z) map_mem_scheme" where
  "splice_out y p m =
    (let m = set_up p (p_up m y) m in assign (cl_fmap_get_parent_ptr_to_item y m) p m)"

lemma splice_eq:
  assumes "place m n rt k (node_d e c y Leaf)"
  shows "splice_out y (root_of n c) m =
    set_child (hdir k) (hup rt k) (root_of n c) (set_up (root_of n c) (hup rt k) m)"
proof -
  note dist = place_distinct [OF assms]
  have ne: "root_of n c \<noteq> y" using root_of_in [of n c] dist by auto
  have pt: "cl_fmap_get_parent_ptr_to_item y m = slot (hdir k) (hup rt k)"
    using assms parent_ptr_ctx(1) [of m n rt k y] dist by (auto simp: place_def)
  have "cl_fmap_get_parent_ptr_to_item y (set_up (root_of n c) v m) =
      cl_fmap_get_parent_ptr_to_item y m" for v
    using ne by (simp add: cl_fmap_get_parent_ptr_to_item_def cl_fmap_is_left_child_def)
  with pt place_is_left(2) [OF assms] show ?thesis by (simp add: splice_out_def)
qed

lemma splice_place:
  assumes pl: "place m n rt k (node_d e c y Leaf)"
  defines "m' \<equiv> splice_out y (root_of n c) m"
  shows "place m' n rt k c" "p_up m' (root_of n c) = hup rt k" "color m' = color m"
    "p_key m' = p_key m" "p_next m' = p_next m" "p_prev m' = p_prev m" "p_up m' rt = p_up m rt"
    "same_outside (insert rt (insert n (set_tree c \<union> ctx_set k))) m m'"
proof -
  note dist = place_distinct [OF pl]
  have m': "m' = set_child (hdir k) (hup rt k) (root_of n c) (set_up (root_of n c) (hup rt k) m)"
    unfolding m'_def by (rule splice_eq [OF pl])
  show "p_up m' (root_of n c) = hup rt k" "color m' = color m" "p_key m' = p_key m"
    "p_next m' = p_next m" "p_prev m' = p_prev m" by (simp_all add: m')
  have rc: "root_of n c \<in> insert n (set_tree c)" by (rule root_of_in)
  with dist show "p_up m' rt = p_up m rt" by (auto simp: m')
  have u: "hup rt k \<in> insert rt (ctx_set k)" by (rule ctx_hup)
  with rc show "same_outside (insert rt (insert n (set_tree c \<union> ctx_set k))) m m'"
    by (auto simp: m' same_outside_def set_child_def)
  have k: "ctx m n rt k" and c: "rep m n c (child e m y) y"
    using pl by (auto simp: place_def)
  have "ctx m' n rt k = ctx m n rt k"
    by (rule ctx_cong) (use dist rc in \<open>auto simp: m'\<close>)
  moreover have "rep m' n c (root_of n c) (hup rt k)"
    by (rule rep_reroot [where m = m and u = y])
      (use c rep_root [OF c] dist u in \<open>auto simp: m'\<close>)
  ultimately show "place m' n rt k c"
    using k dist by (auto simp: place_def hole_def m')
qed

lemma paint_invc:
  assumes "invc col c" "tdist c" "n \<notin> set_tree c"
  shows "invc (col(root_of n c := CL_MAP_BLACK)) c"
  using assms by (cases c) auto

text \<open>The splice and, where a black item went, the balancing.\<close>

lemma splice_rebalances:
  assumes pl: "place m (fm_nil f) (fm_root f) k (node_d e c y Leaf)"
    and rb: "rb_tree (color m) (plug k (node_d e c y Leaf))"
    and col: "color m (fm_nil f) = CL_MAP_BLACK" "color m (fm_root f) = CL_MAP_BLACK"
  defines "m1 \<equiv> splice_out y (root_of (fm_nil f) c) m"
  shows "\<exists>m2. (if color m1 y \<noteq> CL_MAP_RED then cl_fmap_del_bal f (root_of (fm_nil f) c) m1
      else Some m1) = Some m2 \<and> rebalanced f m1 (plug k c) m2"
proof -
  note sp = splice_place [OF pl, folded m1_def] and dist = place_distinct [OF pl]
  from rb have inv: "invc (color m) c" "invh (color m) c" "bheight (color m) c = 0"
    "color m y = CL_MAP_RED \<longrightarrow> rootcol (color m) c = CL_MAP_BLACK"
    "ctx_invc (color m) k (color m y)"
    "ctx_invh (color m) k (if color m y = CL_MAP_BLACK then 1 else 0)"
    "if k = [] then color m y = CL_MAP_BLACK else ctx_top (color m) k"
    using rootcol_plug [of "color m" k "node_d e c y Leaf"]
    by (auto simp: rb_tree_def bheight_node_d)
  show ?thesis
  proof (cases "color m y")
    case CL_MAP_RED
    then have "rb_tree (color m1) (plug k c)"
      using inv ctx_invc_black [of "color m" k CL_MAP_RED] rootcol_plug [of "color m" k c] sp(3)
      by (auto simp: rb_tree_def)
    then have "rebalanced f m1 (plug k c) m1"
      using sp(1) by (auto simp: rebalanced_def place_top [of m1 _ _ k])
    with CL_MAP_RED sp(3) show ?thesis by simp
  next
    case CL_MAP_BLACK
    have "tdist c" "fm_nil f \<notin> set_tree c" using dist by auto
    then have "del_inv f m1 k c"
      using sp(1-3) inv col CL_MAP_BLACK paint_invc [of "color m" c "fm_nil f"]
      by (cases "k = []") (auto simp: del_inv_def)
    from del_bal_rebalances [OF this] CL_MAP_BLACK sp(3) show ?thesis by simp
  qed
qed

end
