(* ===== verification/Fmap_Ops.thy ===== *)
theory Fmap_Ops
  imports Fmap_Remove
begin

text \<open>
  Removal of an item from a flexi map: the exchange of the removed item with the substitute
  that was spliced out in its place, and the effect of the whole operation on the contents of
  the map.
\<close>

section \<open>The exchange\<close>

lemma exchange_fields:
  assumes "place m n rt k (Node l x r)" "y \<notin> set_tree (plug k (Node l x r))" "y \<noteq> n" "y \<noteq> rt"
  defines "m' \<equiv> fmap_exchange x y m"
  shows "p_up m' = (p_up m)(y := hup rt k, root_of n r := y, root_of n l := y)"
    and "child d m' = (\<lambda>q. if q = hup rt k \<and> d = hdir k then y
      else if q = y then root_of n (if d then l else r) else child d m q)"
    and "color m' = (color m)(y := color m x)" and "p_key m' = p_key m"
    and "p_next m' = p_next m" and "p_prev m' = p_prev m" and "map_mem.more m' = map_mem.more m"
proof -
  note dist = place_distinct [OF assms(1)]
  have nd: "Node l x r = node_d True l x r" by (simp add: node_d_def)
  have x: "p_up m x = hup rt k" "p_left m x = root_of n l" "p_right m x = root_of n r"
    using assms(1) place_is_left(2) [of m n rt k True l x r] place_child [of m n rt k True l x r]
    by (simp_all add: nd child_True_False)
  have pt: "cl_fmap_get_parent_ptr_to_item x m = slot (hdir k) (hup rt k)"
    using assms(1) parent_ptr_ctx(1) [of m n rt k x] dist by (auto simp: place_def)
  have ne: "x \<noteq> y" "hup rt k \<noteq> x" "hup rt k \<noteq> y"
    using assms(2-4) ctx_hup [of rt k] dist by auto
  let ?m3 = "set_right y (root_of n r) (set_left y (root_of n l) (set_up y (hup rt k) m))"
  have "cl_fmap_get_parent_ptr_to_item x ?m3 = cl_fmap_get_parent_ptr_to_item x m"
    using ne x by (simp add: cl_fmap_get_parent_ptr_to_item_def cl_fmap_is_left_child_def)
  then have m': "m' = set_color y (color m x) (set_up (root_of n l) y (set_up (root_of n r) y
      (set_child (hdir k) (hup rt k) y ?m3)))"
    using ne x pt by (auto simp: m'_def fmap_exchange_def Let_def set_child_def)
  show "p_up m' = (p_up m)(y := hup rt k, root_of n r := y, root_of n l := y)"
    "color m' = (color m)(y := color m x)" "p_key m' = p_key m"
    "p_next m' = p_next m" "p_prev m' = p_prev m" "map_mem.more m' = map_mem.more m"
    by (simp_all add: m')
  show "child d m' = (\<lambda>q. if q = hup rt k \<and> d = hdir k then y
      else if q = y then root_of n (if d then l else r) else child d m q)"
    using ne by (auto simp: m' child_def set_child_def fun_eq_iff)
qed

lemma exchange_place:
  assumes "place m n rt k (Node l x r)" "y \<notin> set_tree (plug k (Node l x r))" "y \<noteq> n" "y \<noteq> rt"
  shows "place (fmap_exchange x y m) n rt k (Node l y r)"
    and "same_outside (insert rt (insert n (insert y (set_tree (plug k (Node l x r)))))) m
      (fmap_exchange x y m)"
    and "p_up (fmap_exchange x y m) rt = p_up m rt"
proof -
  let ?m = "fmap_exchange x y m" and ?u = "hup rt k"
  note dist = place_distinct [OF assms(1)] and fl = exchange_fields [OF assms]
  have u: "?u \<in> insert rt (ctx_set k)" "?u \<notin> set_tree l" "?u \<notin> set_tree r" "?u \<noteq> y"
    using ctx_hup [of rt k] dist assms(2,4) by auto
  have k: "ctx m n rt k" and l: "rep m n l (p_left m x) x" and r: "rep m n r (p_right m x) x"
    using assms(1) by (auto simp: place_def)
  have rl: "root_of n l \<in> insert n (set_tree l)" "root_of n r \<in> insert n (set_tree r)"
    by (rule root_of_in)+
  have yk: "y \<notin> ctx_set k" "y \<notin> set_tree l" "y \<notin> set_tree r" "y \<noteq> x" using assms(2) by auto
  have dlr: "set_tree l \<inter> set_tree r = {}" "tdist l" "tdist r" using dist by auto
  have out: "root_of n l \<notin> ctx_set k" "root_of n r \<notin> ctx_set k"
    using rl dist by auto
  have "ctx ?m n rt k = ctx m n rt k"
    by (rule ctx_cong) (use yk out dist assms(4) in \<open>auto simp: fl\<close>)
  moreover have "rep ?m n l (root_of n l) y" "rep ?m n r (root_of n r) y"
  proof -
    have nil: "n \<notin> set_tree l" "n \<notin> set_tree r" using dist by auto
    show "rep ?m n l (root_of n l) y"
      by (rule rep_reroot [where m = m and u = x])
        (use l rep_root [OF l] u yk dlr rl nil in \<open>auto simp: fl\<close>)
    show "rep ?m n r (root_of n r) y"
      by (rule rep_reroot [where m = m and u = x])
        (use r rep_root [OF r] u yk dlr rl nil in \<open>auto simp: fl\<close>)
  qed
  moreover have "hole ?m rt k = y" by (simp add: hole_def fl)
  moreover have "p_up ?m y = ?u" "p_left ?m y = root_of n l" "p_right ?m y = root_of n r"
    using fl(1) fl(2) [of True] fl(2) [of False] yk rl u assms(3)
    by (auto simp: child_True_False)
  ultimately show "place ?m n rt k (Node l y r)"
    using k dist yk assms(3,4) by (auto simp: place_def)
  show "p_up ?m rt = p_up m rt" using rl dist assms(4) by (auto simp: fl)
  have ch: "p_left ?m q = p_left m q" "p_right ?m q = p_right m q" if "q \<noteq> ?u" "q \<noteq> y" for q
    using fl(2) [of True] fl(2) [of False] that by (auto simp: child_True_False)
  show "same_outside (insert rt (insert n (insert y (set_tree (plug k (Node l x r)))))) m ?m"
    using u(1) rl by (auto simp: same_outside_def fl intro!: ch)
qed

section \<open>Removal of an item\<close>

text \<open>
  The code of the removal in terms of the splice: \<open>y\<close> is the item spliced out, \<open>c\<close> its only
  subtree.
\<close>

lemma remove_item_code:
  assumes "x \<noteq> fm_nil f"
    and y: "(if p_right m x = fm_nil f \<or> p_left m x = fm_nil f then x else cl_fmap_next x m) = y"
    and p: "(if p_left m y \<noteq> fm_nil f then p_left m y else p_right m y) = p"
    and f': "f\<lparr>fm_count := fm_count f - 1\<rparr> = f'" and m1: "splice_out y p (cl_primitive_remove x m) = m1"
    and run: "(if color m1 y \<noteq> CL_MAP_RED then cl_fmap_del_bal f' p m1 else Some m1) = Some m2"
  shows "cl_fmap_remove_item f x m = Some (f', if y \<noteq> x then fmap_exchange x y m2 else m2)"
proof -
  have nil: "fm_nil f' = fm_nil f" by (simp add: f' [symmetric])
  show ?thesis
    using assms(1) run
    unfolding cl_fmap_remove_item_def cl_fmap_end_def Let_def y f' primitive_map_fields nil p
      m1 [symmetric, unfolded splice_out_def Let_def]
    by (simp split del: if_split)
qed

text \<open>Each phase keeps the tree of a map, the thread links and the keys.\<close>

definition tree_step ::
  "('p, 'k) cl_fmap_t \<Rightarrow> 'p set \<Rightarrow> ('p, 'k, 'z) map_mem_scheme \<Rightarrow> ('p, 'k, 'z) map_mem_scheme \<Rightarrow>
   'p list \<Rightarrow> bool" where
  "tree_step f S m m' xs \<longleftrightarrow> (\<exists>t. fmap_tree f m' t \<and> inorder t = xs) \<and> p_next m' = p_next m \<and>
     p_prev m' = p_prev m \<and> p_key m' = p_key m \<and>
     same_outside (insert (fm_root f) (insert (fm_nil f) S)) m m'"

lemma tree_step_mono:
  "tree_step f S m m' xs \<Longrightarrow> S \<subseteq> S' \<Longrightarrow> tree_step f S' m m' xs"
  unfolding tree_step_def by (blast intro: same_outside_mono)

lemma tree_step_trans:
  "tree_step f S m m' xs \<Longrightarrow> tree_step f S m' m'' ys \<Longrightarrow> tree_step f S m m'' ys"
  unfolding tree_step_def by (auto intro: same_outside_trans)

lemma splice_step:
  assumes t: "fmap_tree f m (plug k (node_d e c y Leaf))"
  defines "m1 \<equiv> splice_out y (root_of (fm_nil f) c) m"
  shows "\<exists>m2. (if color m1 y \<noteq> CL_MAP_RED then cl_fmap_del_bal f (root_of (fm_nil f) c) m1
      else Some m1) = Some m2 \<and> tree_step f (set_tree (plug k c)) m m2 (inorder (plug k c))"
proof -
  let ?n = "fm_nil f" and ?rt = "fm_root f" and ?S = "set_tree (plug k c)"
  have pl: "place m ?n ?rt k (node_d e c y Leaf)" and rb: "rb_tree (color m) (plug k (node_d e c y Leaf))"
    and col: "color m ?n = CL_MAP_BLACK" "color m ?rt = CL_MAP_BLACK" and up: "p_up m ?rt = ?rt"
    using t by (auto simp: fmap_tree_def place_top [of m _ _ k])
  note sp = splice_place [OF pl, folded m1_def]
  from splice_rebalances [OF pl rb col, folded m1_def] obtain m2 where
    run: "(if color m1 y \<noteq> CL_MAP_RED then cl_fmap_del_bal f (root_of ?n c) m1 else Some m1) = Some m2"
    and "rebalanced f m1 (plug k c) m2" by blast
  then obtain t2 where t2: "place m2 ?n ?rt [] t2" "inorder t2 = inorder (plug k c)"
    "rb_tree (color m2) t2" and fr: "tree_frame ?S ?rt m1 m2" by (auto simp: rebalanced_def)
  have out: "?n \<notin> ?S" "?rt \<notin> ?S" using place_distinct [OF sp(1)] by auto
  have "fmap_tree f m2 t2"
    using t2 fr out col up sp(3,7) by (simp add: fmap_tree_def tree_frame_def)
  moreover have "same_outside (insert ?rt (insert ?n ?S)) m m2"
  proof (rule same_outside_trans)
    show "same_outside (insert ?rt (insert ?n ?S)) m m1" using sp(8) by simp
    show "same_outside (insert ?rt (insert ?n ?S)) m1 m2"
      using tree_frame_outside [OF fr] by (rule same_outside_mono) auto
  qed
  ultimately show ?thesis
    using run t2(2) fr sp(4-6) unfolding tree_step_def tree_frame_def by auto
qed

lemma exchange_step:
  assumes t: "fmap_tree f m t" and xs: "inorder t = A @ x # B"
    and y: "y \<notin> fmap_area f (A @ x # B)"
  shows "tree_step f (insert y (set (A @ x # B))) m (fmap_exchange x y m) (A @ y # B)"
proof -
  let ?n = "fm_nil f" and ?rt = "fm_root f" and ?m = "fmap_exchange x y m"
  have set: "set_tree t = set (A @ x # B)" using xs set_inorder [of t] by simp
  then obtain k l r where k: "t = plug k (Node l x r)" using tree_split [of x t] by auto
  have pl: "place m ?n ?rt k (Node l x r)"
    using t k by (simp add: fmap_tree_def place_top [of m _ _ k])
  have yt: "y \<notin> set_tree (plug k (Node l x r))" "y \<noteq> ?n" "y \<noteq> ?rt"
    using y set k by (auto simp: fmap_area_def)
  note ex = exchange_place [OF pl yt] and fl = exchange_fields [OF pl yt]
  have "distinct (A @ x # B)"
    using xs pl k place_top [of m ?n ?rt k] place_distinct(1) [of m ?n ?rt "[]" t]
    by (simp add: tdist_iff)
  then have x: "x \<notin> set A" "x \<notin> set B" by auto
  have "A @ x # B = (ctx_before k @ inorder l) @ x # (inorder r @ ctx_after k)"
    using xs k by (simp add: inorder_plug)
  then have AB: "A = ctx_before k @ inorder l" "B = inorder r @ ctx_after k"
    by (simp_all only: append_Cons_eq_iff [OF x])
  have "rb_tree (color ?m) (plug k (Node l y r))"
    using t k yt rootcol_plug [of "color m" k "Node l x r"] rootcol_plug [of "color ?m" k "Node l y r"]
    by (auto simp: fmap_tree_def rb_tree_def fl(3) split: if_splits)
  then have "fmap_tree f ?m (plug k (Node l y r))"
    using ex t yt fl(3) by (simp add: fmap_tree_def place_top [of ?m _ _ k])
  moreover have "inorder (plug k (Node l y r)) = A @ y # B" by (simp add: inorder_plug AB)
  moreover have "same_outside (insert ?rt (insert ?n (insert y (set (A @ x # B))))) m ?m"
    using ex(2) unfolding k [symmetric] set .
  ultimately show ?thesis using fl unfolding tree_step_def by blast
qed

text \<open>The item spliced out has at most one subtree, which the code finds.\<close>

lemma splice_child:
  assumes "place m n rt k (Node a y b)" and "a = Leaf \<or> b = Leaf"
  obtains e c where "Node a y b = node_d e c y Leaf"
    and "(if p_left m y \<noteq> n then p_left m y else p_right m y) = root_of n c"
proof -
  have ch: "p_left m y = root_of n a" "p_right m y = root_of n b"
    using place_child [of m n rt k True a y b] assms(1) by (simp_all add: node_d_def child_def)
  have nil: "n \<notin> set_tree a" "n \<notin> set_tree b" using place_distinct(3) [OF assms(1)] by auto
  show ?thesis
  proof (cases "a = Leaf")
    case True
    with ch that [of False b] show ?thesis by (simp add: node_d_def)
  next
    case False
    with assms(2) ch nil root_of_eq_nil [of n a] that [of True a] show ?thesis
      by (simp add: node_d_def)
  qed
qed

lemma fmap_tree_primitive: "fmap_tree f (cl_primitive_remove x m) t = fmap_tree f m t"
proof -
  have "rep (cl_primitive_remove x m) n t p u = rep m n t p u" for n p u
    by (rule rep_cong) simp
  then show ?thesis by (simp add: fmap_tree_def place_plug)
qed

lemma fmap_tree_count: "fmap_tree (f\<lparr>fm_count := c\<rparr>) m t = fmap_tree f m t"
  by (simp add: fmap_tree_def)

lemma fmap_tree_place: "fmap_tree f m (plug k t) \<Longrightarrow> place m (fm_nil f) (fm_root f) k t"
  by (simp add: fmap_tree_def place_top [of m _ _ k])

lemma remove_tree_simple:
  assumes t: "fmap_tree f m (plug k (Node l x r))" and lr: "l = Leaf \<or> r = Leaf"
  defines "f' \<equiv> f\<lparr>fm_count := fm_count f - 1\<rparr>"
  shows "\<exists>m'. cl_fmap_remove_item f x m = Some (f', m') \<and>
    tree_step f' (set_tree (plug k (Node l x r))) (cl_primitive_remove x m) m'
      (remove1 x (inorder (plug k (Node l x r))))"
proof -
  let ?m0 = "cl_primitive_remove x m" and ?n = "fm_nil f"
  have pl: "place m ?n (fm_root f) k (Node l x r)" using t by (rule fmap_tree_place)
  note dist = place_distinct [OF pl]
  obtain e c where c: "Node l x r = node_d e c x Leaf"
    and p: "(if p_left m x \<noteq> ?n then p_left m x else p_right m x) = root_of ?n c"
    using pl lr by (rule splice_child)
  have "fmap_tree f' ?m0 (plug k (node_d e c x Leaf))"
    using t c by (simp add: fmap_tree_primitive fmap_tree_count f'_def)
  moreover have nil: "fm_nil f' = ?n" by (simp add: f'_def)
  ultimately obtain m2 where
    run: "(if color (splice_out x (root_of ?n c) ?m0) x \<noteq> CL_MAP_RED
        then cl_fmap_del_bal f' (root_of ?n c) (splice_out x (root_of ?n c) ?m0)
        else Some (splice_out x (root_of ?n c) ?m0)) = Some m2"
    and st: "tree_step f' (set_tree (plug k c)) ?m0 m2 (inorder (plug k c))"
    using splice_step [of f' ?m0 k e c x] unfolding nil by blast
  have "x \<notin> set_tree c" "x \<notin> ctx_set k" using dist c by auto
  then have "inorder (plug k c) = remove1 x (inorder (plug k (Node l x r)))"
    using ctx_set_inorder [of k] unfolding c
    by (auto simp: inorder_plug inorder_node_d remove1_append)
  moreover have "same_outside (insert (fm_root f) (insert ?n (set_tree (plug k (Node l x r))))) ?m0 m2"
    by (rule same_outside_mono [where A = "insert (fm_root f) (insert ?n (set_tree (plug k c)))"])
      (use st in \<open>auto simp: tree_step_def f'_def c\<close>)
  ultimately have "tree_step f' (set_tree (plug k (Node l x r))) ?m0 m2
      (remove1 x (inorder (plug k (Node l x r))))"
    using st by (simp add: tree_step_def f'_def)
  moreover have "(if p_right m x = ?n \<or> p_left m x = ?n then x else cl_fmap_next x m) = x"
    using place_child [of m ?n "fm_root f" k True l x r] pl lr by (auto simp: node_d_def child_def)
  from remove_item_code [OF _ this p f'_def [symmetric, THEN meta_eq_to_obj_eq] refl run] dist(3)
  have "cl_fmap_remove_item f x m = Some (f', m2)" by auto
  ultimately show ?thesis by blast
qed

lemma remove_tree_double:
  assumes t: "fmap_tree f m (plug k (Node l x r))" and lr: "l \<noteq> Leaf" "r \<noteq> Leaf"
    and nx: "qlist_at m (fm_nil f) (inorder (plug k (Node l x r)))"
  defines "f' \<equiv> f\<lparr>fm_count := fm_count f - 1\<rparr>"
  shows "\<exists>m'. cl_fmap_remove_item f x m = Some (f', m') \<and>
    tree_step f' (set_tree (plug k (Node l x r))) (cl_primitive_remove x m) m'
      (remove1 x (inorder (plug k (Node l x r))))"
proof -
  let ?m0 = "cl_primitive_remove x m" and ?n = "fm_nil f" and ?S = "set_tree (plug k (Node l x r))"
  have pl: "place m ?n (fm_root f) k (Node l x r)" using t by (rule fmap_tree_place)
  note dist = place_distinct [OF pl]
  obtain k2 y b where r: "r = plug k2 (Node Leaf y b)" "ctx_before k2 = []"
    using tree_leftmost [OF lr(2)] by blast
  define K where "K = k2 @ (False, x, l) # k"
  have tK: "plug k (Node l x r) = plug K (Node Leaf y b)"
    by (simp add: K_def plug_append r(1) node_d_def)
  define A where "A = ctx_before k @ inorder l"
  define B where "B = inorder b @ ctx_after k2 @ ctx_after k"
  have xs: "inorder (plug k (Node l x r)) = A @ x # y # B"
    by (simp add: inorder_plug r A_def B_def)
  have Kb: "inorder (plug K b) = A @ x # B"
    by (simp add: K_def plug_append inorder_plug inorder_node_d r(2) A_def B_def)
  have dxs: "distinct (A @ x # y # B)"
    using place_distinct(1) [of m ?n "fm_root f" "[]" "plug k (Node l x r)"] t
    unfolding xs [symmetric] by (simp add: fmap_tree_def tdist_iff)
  have next_x: "cl_fmap_next x m = y"
    using qlist_at_next [of m ?n A x "y # B"] nx by (simp add: xs cl_fmap_next_def)
  have plK: "place m ?n (fm_root f) K (Node Leaf y b)"
    using t unfolding tK by (rule fmap_tree_place)
  obtain e c where c: "Node Leaf y b = node_d e c y Leaf"
    and p: "(if p_left m y \<noteq> ?n then p_left m y else p_right m y) = root_of ?n c"
    using plK by (rule splice_child) simp
  have cb: "inorder (plug K c) = A @ x # B"
    using c Kb by (auto simp: node_d_def inorder_plug split: if_splits)
  have "fmap_tree f' ?m0 (plug K (node_d e c y Leaf))"
    using t c tK by (simp add: fmap_tree_primitive fmap_tree_count f'_def)
  moreover have nil: "fm_nil f' = ?n" "fm_root f' = fm_root f" by (simp_all add: f'_def)
  ultimately obtain m2 where
    run: "(if color (splice_out y (root_of ?n c) ?m0) y \<noteq> CL_MAP_RED
        then cl_fmap_del_bal f' (root_of ?n c) (splice_out y (root_of ?n c) ?m0)
        else Some (splice_out y (root_of ?n c) ?m0)) = Some m2"
    and st: "tree_step f' (set_tree (plug K c)) ?m0 m2 (A @ x # B)"
    using splice_step [of f' ?m0 K e c y] unfolding nil cb by blast
  have "(if p_right m x = ?n \<or> p_left m x = ?n then x else cl_fmap_next x m) = y"
    using place_child [of m ?n "fm_root f" k True l x r] pl lr next_x dist root_of_eq_nil [of ?n]
    by (simp add: node_d_def child_def)
  from remove_item_code [OF _ this p f'_def [symmetric, THEN meta_eq_to_obj_eq] refl run] dist dxs
  have code: "cl_fmap_remove_item f x m = Some (f', fmap_exchange x y m2)" by auto
  have sets: "set_tree (plug K c) = set (A @ x # B)" "?S = set (A @ x # y # B)"
    unfolding cb [symmetric] xs [symmetric] by simp_all
  from st obtain t2 where t2: "fmap_tree f' m2 t2" "inorder t2 = A @ x # B"
    by (auto simp: tree_step_def)
  have "y \<notin> fmap_area f' (A @ x # B)"
    using dxs place_distinct [OF plK] by (auto simp: fmap_area_def nil)
  from exchange_step [OF t2 this]
  have "tree_step f' ?S m2 (fmap_exchange x y m2) (A @ y # B)"
    by (rule tree_step_mono) (unfold sets, auto)
  moreover have "tree_step f' ?S ?m0 m2 (A @ x # B)"
    using st by (rule tree_step_mono) (unfold sets, auto)
  ultimately have "tree_step f' ?S ?m0 (fmap_exchange x y m2) (A @ y # B)"
    by (blast intro: tree_step_trans)
  moreover have "remove1 x (inorder (plug k (Node l x r))) = A @ y # B"
    using dxs by (simp add: xs remove1_append)
  ultimately show ?thesis using code by simp
qed

text \<open>
  Removing an item takes it out of the sequence of items and changes nothing outside the map;
  the removed item keeps its key.
\<close>

lemma fmap_remove_item_wf:
  assumes wf: "fmap_wf f m xs" and x: "x \<in> set xs"
  shows "\<exists>m'. cl_fmap_remove_item f x m = Some (f\<lparr>fm_count := fm_count f - 1\<rparr>, m') \<and>
    fmap_wf (f\<lparr>fm_count := fm_count f - 1\<rparr>) m' (remove1 x xs) \<and> p_key m' = p_key m \<and>
    same_outside (fmap_area f xs) m m'"
proof -
  let ?f = "f\<lparr>fm_count := fm_count f - 1\<rparr>" and ?m0 = "cl_primitive_remove x m"
  from wf obtain t where t: "fmap_tree f m t" "inorder t = xs" by (auto simp: fmap_wf_def)
  have q: "qlist_at m (fm_nil f) xs" using wf by (simp add: fmap_wf_def)
  have set: "set_tree t = set xs" using t(2) set_inorder [of t] by simp
  then obtain k l r where k: "t = plug k (Node l x r)" using tree_split [of x t] x by auto
  have "\<exists>m'. cl_fmap_remove_item f x m = Some (?f, m') \<and>
      tree_step ?f (set_tree t) ?m0 m' (remove1 x xs)"
    using remove_tree_simple [of f m k l x r] remove_tree_double [of f m k l x r] t q k by blast
  then obtain m' where m': "cl_fmap_remove_item f x m = Some (?f, m')"
    and st: "tree_step ?f (set xs) ?m0 m' (remove1 x xs)" by (auto simp: set)
  from x obtain ys zs where xs: "xs = ys @ x # zs" by (rule in_set_split)
  with fmap_wf_distinct [OF wf] have rm: "remove1 x xs = ys @ zs" by (simp add: remove1_append)
  have "qlist_at ?m0 (fm_nil f) (ys @ zs)" using q unfolding xs by (rule qlist_at_remove)
  moreover have "qlist_at m' (fm_nil f) (ys @ zs) = qlist_at ?m0 (fm_nil f) (ys @ zs)"
    by (rule qlist_at_cong) (use st in \<open>simp add: tree_step_def\<close>)
  moreover have key: "p_key m' = p_key m" using st by (simp add: tree_step_def)
  then have "key_before ?f m' = key_before f m" by (simp add: key_before_def fun_eq_iff)
  then have "sorted_wrt (key_before ?f m') (ys @ zs)"
    using wf by (simp add: fmap_wf_def xs sorted_wrt_append)
  ultimately have "fmap_wf ?f m' (remove1 x xs)"
    using st wf unfolding rm by (auto simp: fmap_wf_def tree_step_def xs)
  moreover have "same_outside (fmap_area f xs) m ?m0"
    using primitive_remove_frame [OF q x] by (auto simp: same_outside_def fmap_area_def)
  then have "same_outside (fmap_area f xs) m m'"
    by (rule same_outside_trans) (use st in \<open>simp add: tree_step_def fmap_area_def\<close>)
  ultimately show ?thesis using m' key by blast
qed

lemma fmap_remove_item_end: "cl_fmap_remove_item f (fm_nil f) m = Some (f, m)"
  by (simp add: cl_fmap_remove_item_def cl_fmap_end_def)

end
