(* ===== verification/Fmap_Merge.thy ===== *)
theory Fmap_Merge
  imports Fmap_Ops
begin

text \<open>
  Operations on a flexi map that are built from the others: removal by key, the apply
  function, and the merge of two maps, which moves every item whose key the destination lacks
  and puts the others back.
\<close>

section \<open>Removal by key and traversal\<close>

lemma fmap_remove_absent:
  assumes "fmap_wf f m xs" "fmap_compare (fm_pfn_compare f)"
    and "\<forall>x\<in>set xs. fm_pfn_compare f key (p_key m x) \<noteq> 0"
  shows "cl_fmap_remove f key m = Some (fm_nil f, f, m)"
proof -
  have "find (\<lambda>x. fm_pfn_compare f key (p_key m x) = 0) xs = None"
    using assms(3) by (auto simp: find_None_iff)
  then show ?thesis
    using fmap_get_correct [OF assms(1,2), of key]
    by (simp add: cl_fmap_remove_def fmap_remove_item_end)
qed

lemma fmap_remove_present:
  assumes "fmap_wf f m xs" "fmap_compare (fm_pfn_compare f)"
    and "x \<in> set xs" "fm_pfn_compare f key (p_key m x) = 0"
  shows "\<exists>m'. cl_fmap_remove f key m = Some (x, f\<lparr>fm_count := fm_count f - 1\<rparr>, m') \<and>
    fmap_wf (f\<lparr>fm_count := fm_count f - 1\<rparr>) m' (remove1 x xs) \<and> p_key m' = p_key m \<and>
    same_outside (fmap_area f xs) m m'"
proof -
  have "find (\<lambda>x. fm_pfn_compare f key (p_key m x) = 0) xs \<noteq> None"
    using assms(3,4) by (auto simp: find_None_iff)
  then obtain y where y: "find (\<lambda>x. fm_pfn_compare f key (p_key m x) = 0) xs = Some y" by auto
  then have "y \<in> set xs" "fm_pfn_compare f key (p_key m y) = 0" by (auto simp: find_Some_iff)
  with fmap_compare.cmp_sorted_unique [OF assms(2), of "p_key m" xs x y key] assms(1,3,4)
  have "y = x" by (simp add: fmap_wf_def key_before_def [abs_def])
  with y fmap_get_correct [OF assms(1,2), of key] fmap_remove_item_wf [OF assms(1,3)]
  show ?thesis by (auto simp: cl_fmap_remove_def)
qed

text \<open>The apply function calls the callback on every item, in key order.\<close>

lemma fmap_apply_loop_links:
  assumes "links m a xs (fm_nil f)" and "fm_nil f \<notin> set xs"
    and "\<And>x m. p_next (pfn x m) = p_next m \<and> p_prev (pfn x m) = p_prev m"
  shows "fmap_apply_loop f pfn (p_next m a) m = Some (fold pfn xs m)"
  using assms
proof (induction xs arbitrary: a m)
  case Nil
  then show ?case by (subst fmap_apply_loop.simps) (simp add: cl_fmap_end_def)
next
  case (Cons x xs)
  have "links (pfn x m) x xs (fm_nil f) = links m x xs (fm_nil f)"
    by (rule links_cong) (use Cons.prems(3) in simp_all)
  with Cons.IH [of "pfn x m" x] Cons.prems show ?case
    by (subst fmap_apply_loop.simps) (auto simp: cl_fmap_end_def cl_fmap_next_def)
qed

lemma fmap_apply_correct:
  assumes "fmap_wf f m xs"
    and "\<And>x m. p_next (pfn x m) = p_next m \<and> p_prev (pfn x m) = p_prev m"
  shows "cl_fmap_apply_func f pfn m = Some (fold pfn xs m)"
  unfolding cl_fmap_apply_func_def cl_fmap_head_def
  by (rule fmap_apply_loop_links) (use assms fmap_wf_sentinels in \<open>auto simp: fmap_wf_def qlist_at_def\<close>)

section \<open>Sorted sequences are determined by their items\<close>

lemma sorted_wrt_unique:
  assumes "sorted_wrt R xs" "sorted_wrt R ys" "set xs = set ys"
    and "\<And>x y. R x y \<Longrightarrow> \<not> R y x"
  shows "xs = ys"
  using assms
proof (induction xs arbitrary: ys)
  case (Cons x xs)
  then obtain y ys' where ys: "ys = y # ys'" by (cases ys) auto
  have "x = y"
  proof (rule ccontr)
    assume "x \<noteq> y"
    with Cons.prems(3) ys have "x \<in> set ys'" "y \<in> set xs" by auto
    with Cons.prems ys show False by auto
  qed
  moreover have "x \<notin> set xs" "y \<notin> set ys'"
    using Cons.prems(1,2) Cons.prems(4) [of x x] Cons.prems(4) [of y y] ys by auto
  then have "set xs = set ys'" using Cons.prems(3) ys \<open>x = y\<close> by auto
  ultimately show ?case using Cons ys by auto
qed simp

lemma fmap_wf_unique:
  assumes "fmap_wf f m xs" "fmap_compare (fm_pfn_compare f)" "sorted_wrt (key_before f m) ys"
    and "set xs = set ys"
  shows "xs = ys"
proof (rule sorted_wrt_unique [of "key_before f m"])
  show "\<And>x y. key_before f m x y \<Longrightarrow> \<not> key_before f m y x"
    using fmap_compare.cmp_swap [OF assms(2)] by (force simp: key_before_def)
qed (use assms in \<open>auto simp: fmap_wf_def\<close>)

section \<open>Merge\<close>

text \<open>
  Two maps that share nothing but the comparison; what an operation on one leaves of the
  other.
\<close>

definition two_maps ::
  "('p, 'k) cl_fmap_t \<Rightarrow> 'p list \<Rightarrow> ('p, 'k) cl_fmap_t \<Rightarrow> 'p list \<Rightarrow>
   ('p, 'k, 'z) map_mem_scheme \<Rightarrow> bool" where
  "two_maps f xs g ys m \<longleftrightarrow> fmap_wf f m xs \<and> fmap_wf g m ys \<and>
     fm_pfn_compare g = fm_pfn_compare f \<and> fmap_compare (fm_pfn_compare f) \<and>
     fmap_area f xs \<inter> fmap_area g ys = {}"

definition key_in ::
  "('p, 'k) cl_fmap_t \<Rightarrow> ('p, 'k, 'z) map_mem_scheme \<Rightarrow> 'p list \<Rightarrow> 'p \<Rightarrow> bool" where
  "key_in f m xs x \<longleftrightarrow> (\<exists>y\<in>set xs. fm_pfn_compare f (p_key m x) (p_key m y) = 0)"

lemma fmap_area_header:
  "fmap_area (f\<lparr>fm_count := c\<rparr>) xs = fmap_area f xs"
  by (simp add: fmap_area_def)

lemma two_maps_swap: "two_maps f xs g ys m \<Longrightarrow> two_maps g ys f xs m"
  by (auto simp: two_maps_def)

lemma two_maps_remove:
  assumes tm: "two_maps f xs g ys m" and x: "x \<in> set ys"
  shows "\<exists>m'. cl_fmap_remove_item g x m = Some (g\<lparr>fm_count := fm_count g - 1\<rparr>, m') \<and>
    two_maps f xs (g\<lparr>fm_count := fm_count g - 1\<rparr>) (remove1 x ys) m' \<and> p_key m' = p_key m \<and>
    x \<notin> fmap_area f xs \<union> fmap_area g (remove1 x ys) \<and> same_outside (fmap_area g ys) m m'"
proof -
  have wf: "fmap_wf f m xs" "fmap_wf g m ys" using tm by (auto simp: two_maps_def)
  from fmap_remove_item_wf [OF wf(2) x] obtain m' where
    m': "cl_fmap_remove_item g x m = Some (g\<lparr>fm_count := fm_count g - 1\<rparr>, m')"
    "fmap_wf (g\<lparr>fm_count := fm_count g - 1\<rparr>) m' (remove1 x ys)" "p_key m' = p_key m"
    "same_outside (fmap_area g ys) m m'" by blast
  have "fmap_wf f m' xs"
    by (rule fmap_wf_frame [OF wf(1) m'(4)]) (use tm in \<open>auto simp: two_maps_def\<close>)
  moreover have "fmap_area g (remove1 x ys) \<subseteq> fmap_area g ys"
    by (auto simp: fmap_area_def dest: notin_set_remove1 set_remove1_subset [THEN subsetD])
  moreover have "x \<notin> fmap_area g (remove1 x ys)"
    using fmap_wf_distinct [OF wf(2)] fmap_wf_sentinels [OF wf(2)] x by (auto simp: fmap_area_def)
  moreover have "x \<in> fmap_area g ys" using x by (simp add: fmap_area_def)
  ultimately show ?thesis
    using tm m' by (auto simp: two_maps_def fmap_area_header)
qed

lemma two_maps_insert_new:
  assumes tm: "two_maps f xs g ys m" and x: "x \<notin> fmap_area f xs \<union> fmap_area g ys"
    and new: "\<not> key_in f m xs x"
  shows "\<exists>m' xs'. cl_fmap_insert f (p_key m x) x m = Some (x, f\<lparr>fm_count := fm_count f + 1\<rparr>, m') \<and>
    two_maps (f\<lparr>fm_count := fm_count f + 1\<rparr>) xs' g ys m' \<and> set xs' = insert x (set xs) \<and>
    p_key m' = p_key m \<and> same_outside (fmap_area f (x # xs)) m m'"
proof -
  have wf: "fmap_wf f m xs" "fmap_wf g m ys" and cmp: "fmap_compare (fm_pfn_compare f)"
    using tm by (auto simp: two_maps_def)
  from fmap_insert_new [OF wf(1) cmp, of x "p_key m x"] x new obtain m' us vs where
    m': "cl_fmap_insert f (p_key m x) x m = Some (x, f\<lparr>fm_count := fm_count f + 1\<rparr>, m')"
    "xs = us @ vs" "fmap_wf (f\<lparr>fm_count := fm_count f + 1\<rparr>) m' (us @ x # vs)"
    "p_key m' = p_key m" "same_outside (fmap_area f (x # xs)) m m'"
    by (auto simp: key_in_def)
  have "fmap_wf g m' ys"
    by (rule fmap_wf_frame [OF wf(2) m'(5)]) (use tm x in \<open>auto simp: two_maps_def fmap_area_def\<close>)
  then have "two_maps (f\<lparr>fm_count := fm_count f + 1\<rparr>) (us @ x # vs) g ys m'"
    using tm m' x by (auto simp: two_maps_def fmap_area_def)
  with m' show ?thesis by (intro exI [of _ m'] exI [of _ "us @ x # vs"]) auto
qed

lemma two_maps_insert_dup:
  assumes tm: "two_maps f xs g ys m" and x: "x \<notin> fmap_area f xs \<union> fmap_area g ys"
    and dup: "key_in f m xs x"
  shows "\<exists>y m'. cl_fmap_insert f (p_key m x) x m = Some (y, f, m') \<and> y \<noteq> x \<and>
    two_maps f xs g ys m' \<and> p_key m' = p_key m \<and> same_outside {x} m m'"
proof -
  have wf: "fmap_wf f m xs" "fmap_wf g m ys" and cmp: "fmap_compare (fm_pfn_compare f)"
    using tm by (auto simp: two_maps_def)
  from dup obtain y where y: "y \<in> set xs" "fm_pfn_compare f (p_key m x) (p_key m y) = 0"
    by (auto simp: key_in_def)
  with fmap_insert_duplicate [OF wf(1) cmp _ y, of x] x obtain m' where
    m': "cl_fmap_insert f (p_key m x) x m = Some (y, f, m')" "fmap_wf f m' xs"
    "p_key m' = p_key m" "same_outside {x} m m'" by (auto simp: fun_upd_idem)
  have "fmap_wf g m' ys"
    by (rule fmap_wf_frame [OF wf(2) m'(4)]) (use x in auto)
  moreover have "y \<noteq> x" using x y by (auto simp: fmap_area_def)
  ultimately show ?thesis using tm m' by (auto simp: two_maps_def)
qed

text \<open>Items of one map have different keys.\<close>

lemma fmap_keys_differ:
  assumes "fmap_wf f m (ks @ x # rest)" "fmap_compare (fm_pfn_compare f)"
  shows "\<not> key_in f m (ks @ rest) x" and "y \<in> set rest \<Longrightarrow> fm_pfn_compare f (p_key m y) (p_key m x) \<noteq> 0"
proof -
  have s: "\<forall>y\<in>set ks. key_before f m y x" "\<forall>y\<in>set rest. key_before f m x y"
    using assms(1) by (auto simp: fmap_wf_def sorted_wrt_append)
  then show "\<not> key_in f m (ks @ rest) x"
    using fmap_compare.cmp_swap [OF assms(2)] by (force simp: key_in_def key_before_def)
  show "y \<in> set rest \<Longrightarrow> fm_pfn_compare f (p_key m y) (p_key m x) \<noteq> 0"
    using s fmap_compare.cmp_swap [OF assms(2), of "p_key m x" "p_key m y"]
    by (auto simp: key_before_def)
qed

text \<open>One turn of the merge: the item at the head of the rest moves, or stays.\<close>

lemma merge_turn:
  assumes tm: "two_maps dest ds src (ks @ x # rest) m"
  shows "\<exists>dest' ds' src' m'.
    fmap_merge_loop dest src x m = fmap_merge_loop dest' src' (hd (rest @ [fm_nil src])) m' \<and>
    two_maps dest' ds' src' ((if key_in dest m ds x then ks @ [x] else ks) @ rest) m' \<and>
    set ds' = (if key_in dest m ds x then set ds else insert x (set ds)) \<and>
    p_key m' = p_key m \<and> fm_nil src' = fm_nil src \<and> fm_root src' = fm_root src \<and>
    fm_pfn_compare dest' = fm_pfn_compare dest \<and>
    fm_nil dest' = fm_nil dest \<and> fm_root dest' = fm_root dest"
proof -
  let ?src = "src\<lparr>fm_count := fm_count src - 1\<rparr>"
  have wf: "fmap_wf src m (ks @ x # rest)" and cmp: "fmap_compare (fm_pfn_compare src)"
    using tm by (auto simp: two_maps_def)
  have x: "x \<in> set (ks @ x # rest)" by simp
  have dist: "x \<notin> set ks" "x \<noteq> fm_nil src"
    using fmap_wf_distinct [OF wf] fmap_wf_sentinels [OF wf] by auto
  then have rm: "remove1 x (ks @ x # rest) = ks @ rest" by (simp add: remove1_append)
  from two_maps_remove [OF tm x] obtain m1 where
    m1: "cl_fmap_remove_item src x m = Some (?src, m1)" "two_maps dest ds ?src (ks @ rest) m1"
    "p_key m1 = p_key m" "x \<notin> fmap_area dest ds \<union> fmap_area ?src (ks @ rest)"
    unfolding rm by (auto simp: fmap_area_header)
  have nx: "cl_fmap_next x m = hd (rest @ [fm_nil src])" using wf by (rule fmap_next)
  have run: "fmap_merge_loop dest src x m =
      Option.bind (cl_fmap_insert dest (p_key m1 x) x m1) (\<lambda>(p_item2, dest, m).
        if p_item2 \<noteq> x
        then Option.bind (cl_fmap_insert ?src (cl_fmap_key x m) x m) (\<lambda>(p_item2, src', m).
             fmap_merge_loop dest src' (hd (rest @ [fm_nil src])) m)
        else fmap_merge_loop dest ?src (hd (rest @ [fm_nil src])) m)"
    using dist m1(1) nx
    by (subst fmap_merge_loop.simps) (simp add: cl_fmap_end_def cl_fmap_key_def Let_def)
  have ki: "key_in dest m1 ds x = key_in dest m ds x" by (simp add: key_in_def m1(3))
  show ?thesis
  proof (cases "key_in dest m ds x")
    case False
    with two_maps_insert_new [OF m1(2,4)] ki obtain m2 ds' where
      m2: "cl_fmap_insert dest (p_key m1 x) x m1 = Some (x, dest\<lparr>fm_count := fm_count dest + 1\<rparr>, m2)"
      "two_maps (dest\<lparr>fm_count := fm_count dest + 1\<rparr>) ds' ?src (ks @ rest) m2"
      "set ds' = insert x (set ds)" "p_key m2 = p_key m1" by auto
    show ?thesis
      by (intro exI [of _ "dest\<lparr>fm_count := fm_count dest + 1\<rparr>"] exI [of _ ds'] exI [of _ ?src]
          exI [of _ m2]) (use m2 m1(3) run False in \<open>simp add: cl_fmap_key_def\<close>)
  next
    case True
    with two_maps_insert_dup [OF m1(2,4)] ki obtain y m2 where
      m2: "cl_fmap_insert dest (p_key m1 x) x m1 = Some (y, dest, m2)" "y \<noteq> x"
      "two_maps dest ds ?src (ks @ rest) m2" "p_key m2 = p_key m1" by auto
    have "\<not> key_in ?src m2 (ks @ rest) x"
      using fmap_keys_differ(1) [OF wf cmp] m2(4) m1(3) by (simp add: key_in_def)
    with two_maps_insert_new [OF two_maps_swap [OF m2(3)], of x] m1(4) obtain m3 ss where
      m3: "cl_fmap_insert ?src (p_key m2 x) x m2 = Some (x, src, m3)"
      "two_maps src ss dest ds m3" "set ss = insert x (set (ks @ rest))" "p_key m3 = p_key m2"
      by auto
    have "sorted_wrt (key_before src m3) (ks @ x # rest)"
      using wf m3(4) m2(4) m1(3) by (simp add: fmap_wf_def key_before_def [abs_def])
    then have "ss = ks @ x # rest"
      using fmap_wf_unique [of src m3 ss "ks @ x # rest"] m3(2,3) cmp by (auto simp: two_maps_def)
    with m3 m2 m1(3) run True two_maps_swap [OF m3(2)] show ?thesis
      by (intro exI [of _ dest] exI [of _ ds] exI [of _ src] exI [of _ m3])
        (simp add: cl_fmap_key_def)
  qed
qed

lemma merge_loop:
  assumes "two_maps dest ds src (ks @ rest) m"
  shows "\<exists>dest' ds' src' m'.
    fmap_merge_loop dest src (hd (rest @ [fm_nil src])) m = Some (dest', src', m') \<and>
    two_maps dest' ds' src' (ks @ filter (key_in dest m ds) rest) m' \<and>
    set ds' = set ds \<union> set (filter (\<lambda>x. \<not> key_in dest m ds x) rest) \<and> p_key m' = p_key m"
  using assms
proof (induction rest arbitrary: dest ds src ks m)
  case Nil
  have "fmap_merge_loop dest src (fm_nil src) m = Some (dest, src, m)"
    by (subst fmap_merge_loop.simps) (simp add: cl_fmap_end_def)
  with Nil show ?case by auto
next
  case (Cons x rest)
  let ?ks = "if key_in dest m ds x then ks @ [x] else ks"
  from merge_turn [OF Cons.prems] obtain dest1 ds1 src1 m1 where
    run: "fmap_merge_loop dest src x m = fmap_merge_loop dest1 src1 (hd (rest @ [fm_nil src])) m1"
    and tm: "two_maps dest1 ds1 src1 (?ks @ rest) m1"
    and ds1: "set ds1 = (if key_in dest m ds x then set ds else insert x (set ds))"
    and same: "p_key m1 = p_key m" "fm_nil src1 = fm_nil src" "fm_pfn_compare dest1 = fm_pfn_compare dest"
    by blast
  have wf: "fmap_wf src m (ks @ x # rest)" and cmp: "fmap_compare (fm_pfn_compare src)"
    and eq: "fm_pfn_compare src = fm_pfn_compare dest"
    using Cons.prems by (auto simp: two_maps_def)
  have ki: "key_in dest1 m1 ds1 y = key_in dest m ds y" if "y \<in> set rest" for y
    using fmap_keys_differ(2) [OF wf cmp that] same ds1 by (auto simp: key_in_def eq)
  then have fl: "filter (key_in dest1 m1 ds1) rest = filter (key_in dest m ds) rest"
    "filter (\<lambda>x. \<not> key_in dest1 m1 ds1 x) rest = filter (\<lambda>x. \<not> key_in dest m ds x) rest"
    by (auto intro!: filter_cong)
  from Cons.IH [OF tm] same(2) obtain dest' ds' src' m' where
    "fmap_merge_loop dest src x m = Some (dest', src', m')"
    "two_maps dest' ds' src' (?ks @ filter (key_in dest m ds) rest) m'"
    "set ds' = set ds1 \<union> set (filter (\<lambda>x. \<not> key_in dest m ds x) rest)" "p_key m' = p_key m1"
    unfolding run fl by metis
  with ds1 same show ?case
    by (intro exI [of _ dest'] exI [of _ ds'] exI [of _ src'] exI [of _ m'])
      (auto split: if_splits)
qed

lemma fmap_merge_correct:
  assumes "two_maps dest ds src ss m"
  shows "\<exists>dest' ds' src' m'. cl_fmap_merge dest src m = Some (dest', src', m') \<and>
    two_maps dest' ds' src' (filter (key_in dest m ds) ss) m' \<and>
    set ds' = set ds \<union> set (filter (\<lambda>x. \<not> key_in dest m ds x) ss) \<and> p_key m' = p_key m"
proof -
  have "cl_fmap_head src m = hd (ss @ [fm_nil src])"
    using assms fmap_head [of src m ss] by (simp add: two_maps_def)
  with merge_loop [of dest ds src "[]" ss m] assms show ?thesis by (simp add: cl_fmap_merge_def)
qed

end
