(* ===== verification/Qmap_Refine.thy ===== *)
theory Qmap_Refine
  imports Qmap Fmap_Merge
begin

text \<open>
  The quick map is the flexi map with the comparison of unsigned 64-bit keys: every operation
  of the one copy of the code equals the operation of the other on the corresponding header,
  as a function, whether or not the memory holds a well-formed map. The laws of the compare
  callback hold of this comparison, so all that is proved of flexi maps carries over.
\<close>

section \<open>The comparison of keys\<close>

definition u64_compare :: "u64 \<Rightarrow> u64 \<Rightarrow> int" where
  "u64_compare a b = (if a = b then 0 else if a < b then -1 else 1)"

definition as_fmap :: "'p cl_qmap_t \<Rightarrow> ('p, u64) cl_fmap_t" where
  "as_fmap q = \<lparr>fm_root = qm_root q, fm_nil = qm_nil q, fm_state = qm_state q,
     fm_count = qm_count q, fm_pfn_compare = u64_compare\<rparr>"

lemma u64_compare_simps [simp]:
  "u64_compare a b = 0 \<longleftrightarrow> a = b" "u64_compare a b < 0 \<longleftrightarrow> a < b" "0 < u64_compare a b \<longleftrightarrow> b < a"
  by (auto simp: u64_compare_def)

lemma u64_fmap_compare: "fmap_compare u64_compare"
  by unfold_locales (auto simp: u64_compare_def split: if_splits)

interpretation u64: fmap_compare u64_compare
  by (rule u64_fmap_compare)

lemma as_fmap_simps [simp]:
  "fm_root (as_fmap q) = qm_root q" "fm_nil (as_fmap q) = qm_nil q"
  "fm_state (as_fmap q) = qm_state q" "fm_count (as_fmap q) = qm_count q"
  "fm_pfn_compare (as_fmap q) = u64_compare"
  "(as_fmap q)\<lparr>fm_count := c\<rparr> = as_fmap (q\<lparr>qm_count := c\<rparr>)"
  by (simp_all add: as_fmap_def)

section \<open>The two copies of the code agree\<close>

lemma option_eqI: "(\<And>y. a = Some y \<Longrightarrow> b = Some y) \<Longrightarrow> (\<And>y. b = Some y \<Longrightarrow> a = Some y) \<Longrightarrow> a = b"
  by (cases a; cases b) auto

lemma qmap_readers [simp]:
  "cl_fmap_root (as_fmap q) m = cl_map_root q m" "cl_fmap_end (as_fmap q) = cl_qmap_end q"
  "cl_fmap_head (as_fmap q) m = cl_qmap_head q m" "cl_fmap_tail (as_fmap q) m = cl_qmap_tail q m"
  "cl_fmap_is_left_child x m = cl_map_is_left_child x m"
  "cl_fmap_get_parent_ptr_to_item x m = cl_map_get_parent_ptr_to_item x m"
  "cl_fmap_next x m = cl_qmap_next x m" "cl_fmap_prev x m = cl_qmap_prev x m"
  "cl_fmap_key x m = cl_qmap_key x m" "cl_is_fmap_empty (as_fmap q) = cl_is_qmap_empty q"
  by (simp_all add: cl_fmap_root_def cl_map_root_def cl_fmap_end_def cl_qmap_end_def
      cl_fmap_head_def cl_qmap_head_def cl_fmap_tail_def cl_qmap_tail_def
      cl_fmap_is_left_child_def cl_map_is_left_child_def cl_fmap_get_parent_ptr_to_item_def
      cl_map_get_parent_ptr_to_item_def cl_fmap_next_def cl_qmap_next_def cl_fmap_prev_def
      cl_qmap_prev_def cl_fmap_key_def cl_qmap_key_def cl_is_fmap_empty_def cl_is_qmap_empty_def)

lemma qmap_rotations [simp]:
  "cl_fmap_rot_left (as_fmap q) x m = cl_map_rot_left q x m"
  "cl_fmap_rot_right (as_fmap q) x m = cl_map_rot_right q x m"
  by (simp_all add: cl_fmap_rot_left_def cl_map_rot_left_def cl_fmap_rot_right_def
      cl_map_rot_right_def)

text \<open>
  Each loop is a least fixed point, so the equality is proved in both directions by induction
  on the run that returns.
\<close>

lemma if_run_mono:
  "(if c then a else b) = Some y \<Longrightarrow> (a = Some y \<Longrightarrow> a' = Some y) \<Longrightarrow>
   (b = Some y \<Longrightarrow> b' = Some y) \<Longrightarrow> (if c then a' else b') = Some y"
  by (cases c) auto

lemma let_run_mono:
  "Let v k = Some y \<Longrightarrow> (\<And>x. k x = Some y \<Longrightarrow> k' x = Some y) \<Longrightarrow> Let v k' = Some y"
  by (simp add: Let_def)

lemma prod_run_mono:
  "(case v of (a, b) \<Rightarrow> k a b) = Some y \<Longrightarrow> (\<And>a b. k a b = Some y \<Longrightarrow> k' a b = Some y) \<Longrightarrow>
   (case v of (a, b) \<Rightarrow> k' a b) = Some y"
  by (cases v) auto

lemmas run_mono = if_run_mono let_run_mono prod_run_mono

lemma ins_bal_le:
  assumes "cl_map_ins_bal q p m = Some y"
  shows "cl_fmap_ins_bal (as_fmap q) p m = Some y"
  apply (rule cl_map_ins_bal.raw_induct [OF _ assms,
      where P = "\<lambda>q p m y. cl_fmap_ins_bal (as_fmap q) p m = Some y"])
  apply (subst cl_fmap_ins_bal.simps)
  apply (unfold qmap_rotations qmap_readers)
  by (assumption | erule run_mono)+

lemma ins_bal_ge:
  assumes "cl_fmap_ins_bal f p m = Some y"
  shows "f = as_fmap q \<longrightarrow> cl_map_ins_bal q p m = Some y"
  apply (rule cl_fmap_ins_bal.raw_induct [OF _ assms,
      where P = "\<lambda>f p m y. f = as_fmap q \<longrightarrow> cl_map_ins_bal q p m = Some y"])
  apply (rule impI, hypsubst_thin)
  apply (subst cl_map_ins_bal.simps)
  apply (unfold qmap_rotations qmap_readers)
  by (assumption | erule run_mono | blast)+

lemma qmap_ins_bal [simp]: "cl_fmap_ins_bal (as_fmap q) p m = cl_map_ins_bal q p m"
  using ins_bal_le ins_bal_ge by (metis option_eqI)

lemma qmap_del_last [simp]:
  "fmap_del_bal_last_left (as_fmap q) p u m = qmap_del_bal_last_left q p u m"
  "fmap_del_bal_last_right (as_fmap q) p u m = qmap_del_bal_last_right q p u m"
  by (simp_all add: fmap_del_bal_last_left_def qmap_del_bal_last_left_def
      fmap_del_bal_last_right_def qmap_del_bal_last_right_def)

lemma del_bal_loop_le:
  assumes "qmap_del_bal_loop q p m = Some y"
  shows "fmap_del_bal_loop (as_fmap q) p m = Some y"
  apply (rule qmap_del_bal_loop.raw_induct [OF _ assms,
      where P = "\<lambda>q p m y. fmap_del_bal_loop (as_fmap q) p m = Some y"])
  apply (subst fmap_del_bal_loop.simps)
  apply (unfold qmap_rotations qmap_readers qmap_del_last as_fmap_simps)
  by (assumption | erule run_mono)+

lemma del_bal_loop_ge:
  assumes "fmap_del_bal_loop f p m = Some y"
  shows "f = as_fmap q \<longrightarrow> qmap_del_bal_loop q p m = Some y"
  apply (rule fmap_del_bal_loop.raw_induct [OF _ assms,
      where P = "\<lambda>f p m y. f = as_fmap q \<longrightarrow> qmap_del_bal_loop q p m = Some y"])
  apply (rule impI, hypsubst_thin)
  apply (subst qmap_del_bal_loop.simps)
  apply (unfold qmap_rotations qmap_readers qmap_del_last as_fmap_simps)
  by (assumption | erule run_mono | blast)+

lemma qmap_del_bal [simp]: "cl_fmap_del_bal (as_fmap q) p m = cl_map_del_bal q p m"
proof -
  have "fmap_del_bal_loop (as_fmap q) p m = qmap_del_bal_loop q p m"
    using del_bal_loop_le del_bal_loop_ge by (metis option_eqI)
  then show ?thesis by (simp add: cl_fmap_del_bal_def cl_map_del_bal_def)
qed

lemma get_loop_le:
  assumes "qmap_get_loop q key p m = Some y"
  shows "fmap_match_loop (as_fmap q) key (Some u64_compare) p m = Some y"
  apply (rule qmap_get_loop.raw_induct [OF _ assms,
      where P = "\<lambda>q key p m y. fmap_match_loop (as_fmap q) key (Some u64_compare) p m = Some y"])
  apply (subst fmap_match_loop.simps)
  by (auto split: if_splits)

lemma get_loop_ge:
  assumes "fmap_match_loop f key c p m = Some y"
  shows "f = as_fmap q \<longrightarrow> c = Some u64_compare \<longrightarrow> qmap_get_loop q key p m = Some y"
  apply (rule fmap_match_loop.raw_induct [OF _ assms, where P = "\<lambda>f key c p m y.
      f = as_fmap q \<longrightarrow> c = Some u64_compare \<longrightarrow> qmap_get_loop q key p m = Some y"])
  apply (subst qmap_get_loop.simps)
  by (auto simp: Let_def split: if_splits)

lemma qmap_get [simp]: "cl_fmap_get (as_fmap q) key m = cl_qmap_get q key m"
proof -
  have "fmap_match_loop (as_fmap q) key (Some u64_compare) p m = qmap_get_loop q key p m" for p
    using get_loop_le get_loop_ge by (metis option_eqI)
  then show ?thesis by (simp add: cl_fmap_get_def cl_fmap_match_def cl_qmap_get_def)
qed

lemma get_next_loop_le:
  assumes "qmap_get_next_loop q key p found m = Some y"
  shows "fmap_get_next_loop (as_fmap q) key p found m = Some y"
  apply (rule qmap_get_next_loop.raw_induct [OF _ assms,
      where P = "\<lambda>q key p found m y. fmap_get_next_loop (as_fmap q) key p found m = Some y"])
  apply (subst fmap_get_next_loop.simps)
  by (auto split: if_splits)

lemma get_next_loop_ge:
  assumes "fmap_get_next_loop f key p found m = Some y"
  shows "f = as_fmap q \<longrightarrow> qmap_get_next_loop q key p found m = Some y"
  apply (rule fmap_get_next_loop.raw_induct [OF _ assms, where P = "\<lambda>f key p found m y.
      f = as_fmap q \<longrightarrow> qmap_get_next_loop q key p found m = Some y"])
  apply (subst qmap_get_next_loop.simps)
  by (auto simp: Let_def split: if_splits)

lemma qmap_get_next [simp]: "cl_fmap_get_next (as_fmap q) key m = cl_qmap_get_next q key m"
proof -
  have "fmap_get_next_loop (as_fmap q) key p found m = qmap_get_next_loop q key p found m" for p found
    using get_next_loop_le get_next_loop_ge by (metis option_eqI)
  then show ?thesis by (simp add: cl_fmap_get_next_def cl_qmap_get_next_def)
qed

lemma apply_loop_le:
  assumes "qmap_apply_loop q pfn p m = Some y"
  shows "fmap_apply_loop (as_fmap q) pfn p m = Some y"
  apply (rule qmap_apply_loop.raw_induct [OF _ assms,
      where P = "\<lambda>q pfn p m y. fmap_apply_loop (as_fmap q) pfn p m = Some y"])
  apply (subst fmap_apply_loop.simps)
  by (auto simp: Let_def split: if_splits)

lemma apply_loop_ge:
  assumes "fmap_apply_loop f pfn p m = Some y"
  shows "f = as_fmap q \<longrightarrow> qmap_apply_loop q pfn p m = Some y"
  apply (rule fmap_apply_loop.raw_induct [OF _ assms,
      where P = "\<lambda>f pfn p m y. f = as_fmap q \<longrightarrow> qmap_apply_loop q pfn p m = Some y"])
  apply (subst qmap_apply_loop.simps)
  by (auto simp: Let_def split: if_splits)

lemma qmap_apply_func [simp]: "cl_fmap_apply_func (as_fmap q) pfn m = cl_qmap_apply_func q pfn m"
proof -
  have "fmap_apply_loop (as_fmap q) pfn p m = qmap_apply_loop q pfn p m" for p
    using apply_loop_le apply_loop_ge by (metis option_eqI)
  then show ?thesis by (simp add: cl_fmap_apply_func_def cl_qmap_apply_func_def)
qed

text \<open>
  The insertion of the flexi map carries the last comparison out of its search loop; the quick
  map compares again. Both come to the same.
\<close>

definition at_result :: "u64 \<Rightarrow> ('p, u64, 'z) map_mem_scheme \<Rightarrow> 'p \<Rightarrow> ('p + 'p) \<Rightarrow> ('p + 'p \<times> int) \<Rightarrow> bool" where
  "at_result key m at r s \<longleftrightarrow> (case r of
      Inl x \<Rightarrow> s = Inl x
    | Inr p \<Rightarrow> \<exists>e. s = Inr (p, e) \<and> (p = at \<or> e = u64_compare key (p_key m p)))"

lemma insert_at_loop_le:
  assumes "qmap_insert_at_loop q key at item m = Some y"
  shows "\<forall>e. (at \<noteq> rt \<longrightarrow> e = u64_compare key (p_key m at)) \<longrightarrow>
    (\<exists>s. fmap_insert_at_loop (as_fmap q) key at item e m = Some s \<and> at_result key m rt y s)"
  apply (rule qmap_insert_at_loop.raw_induct [OF _ assms, where P = "\<lambda>q key at item m y.
      \<forall>e. (at \<noteq> rt \<longrightarrow> e = u64_compare key (p_key m at)) \<longrightarrow>
      (\<exists>s. fmap_insert_at_loop (as_fmap q) key at item e m = Some s \<and> at_result key m rt y s)"])
  apply (subst fmap_insert_at_loop.simps)
  by (auto simp: Let_def at_result_def split: if_splits)

lemma insert_at_loop_ge:
  assumes "fmap_insert_at_loop f key at item e m = Some y"
  shows "f = as_fmap q \<longrightarrow> (\<exists>s. qmap_insert_at_loop q key at item m = Some s)"
  apply (rule fmap_insert_at_loop.raw_induct [OF _ assms, where P = "\<lambda>f key at item e m y.
      f = as_fmap q \<longrightarrow> (\<exists>s. qmap_insert_at_loop q key at item m = Some s)"])
  apply (subst qmap_insert_at_loop.simps)
  by (auto simp: Let_def split: if_splits)

lemma insert_at_loop_result:
  "(qmap_insert_at_loop q key (qm_root q) item m = None \<and>
     fmap_insert_at_loop (as_fmap q) key (qm_root q) item 0 m = None) \<or>
   (\<exists>r s. qmap_insert_at_loop q key (qm_root q) item m = Some r \<and>
     fmap_insert_at_loop (as_fmap q) key (qm_root q) item 0 m = Some s \<and>
     at_result key m (qm_root q) r s)"
proof (cases "qmap_insert_at_loop q key (qm_root q) item m")
  case None
  with insert_at_loop_ge [of "as_fmap q" key "qm_root q" item 0 m _ q]
  have "fmap_insert_at_loop (as_fmap q) key (qm_root q) item 0 m = None"
    by (cases "fmap_insert_at_loop (as_fmap q) key (qm_root q) item 0 m") auto
  with None show ?thesis by simp
next
  case (Some r)
  with insert_at_loop_le [OF Some, of "qm_root q"] show ?thesis by auto
qed

definition as_fmap_ret ::
  "('p \<times> 'p cl_qmap_t \<times> 'm) option \<Rightarrow> ('p \<times> ('p, u64) cl_fmap_t \<times> 'm) option" where
  "as_fmap_ret = map_option (\<lambda>(x, q, m). (x, as_fmap q, m))"

lemma map_bind: "map_option h (Option.bind a k) = Option.bind a (\<lambda>x. map_option h (k x))"
  by (cases a) auto

lemma bind_map: "Option.bind (map_option h a) k = Option.bind a (\<lambda>x. k (h x))"
  by (cases a) auto

lemma qmap_insert [simp]:
  "cl_fmap_insert (as_fmap q) key x m = as_fmap_ret (cl_qmap_insert q key x m)"
proof -
  let ?m = "set_color x CL_MAP_RED (set_key x key (set_right x (qm_nil q) (set_left x (qm_nil q) m)))"
  show ?thesis
    using insert_at_loop_result [of q key "cl_map_root q ?m" ?m]
    by (auto simp: cl_fmap_insert_def cl_qmap_insert_def Let_def as_fmap_ret_def at_result_def
        map_bind split: sum.splits option.splits)
qed

lemma qmap_exchange [simp]: "fmap_exchange x y m = qmap_exchange x y m"
  by (simp add: fmap_exchange_def qmap_exchange_def)

lemma qmap_remove_item [simp]:
  "cl_fmap_remove_item (as_fmap q) x m = map_option (map_prod as_fmap id) (cl_qmap_remove_item q x m)"
  unfolding cl_fmap_remove_item_def cl_qmap_remove_item_def Let_def qmap_readers as_fmap_simps
    qmap_del_bal qmap_exchange if_distrib [where f = "map_option h" for h] map_bind
    option.map(2) map_prod_simp id_apply
  by (rule refl)

lemma qmap_remove [simp]: "cl_fmap_remove (as_fmap q) key m = as_fmap_ret (cl_qmap_remove q key m)"
  unfolding cl_fmap_remove_def cl_qmap_remove_def as_fmap_ret_def
  by (simp add: map_bind bind_map split_beta)

lemma qmap_init [simp]:
  "cl_fmap_init p_null 0 (as_fmap q) u64_compare m =
    (let (q, m) = cl_qmap_init p_null q m in (as_fmap q, m))"
  by (simp add: cl_fmap_init_def cl_qmap_init_def cl_fmap_remove_all_def cl_qmap_remove_all_def
      Let_def as_fmap_def)

lemma qmap_remove_all [simp]:
  "cl_fmap_remove_all (as_fmap q) m = map_prod as_fmap id (cl_qmap_remove_all q m)"
  by (simp add: cl_fmap_remove_all_def cl_qmap_remove_all_def as_fmap_def)

definition as_fmap_two ::
  "('p cl_qmap_t \<times> 'p cl_qmap_t \<times> 'm) option \<Rightarrow>
   (('p, u64) cl_fmap_t \<times> ('p, u64) cl_fmap_t \<times> 'm) option" where
  "as_fmap_two = map_option (\<lambda>(q, r, m). (as_fmap q, as_fmap r, m))"

lemma merge_loop_le:
  assumes "qmap_merge_loop d s p m = Some y"
  shows "fmap_merge_loop (as_fmap d) (as_fmap s) p m = as_fmap_two (Some y)"
  apply (rule qmap_merge_loop.raw_induct [OF _ assms, where P = "\<lambda>d s p m y.
      fmap_merge_loop (as_fmap d) (as_fmap s) p m = as_fmap_two (Some y)"])
  apply (subst fmap_merge_loop.simps)
  by (auto simp: Let_def as_fmap_ret_def as_fmap_two_def bind_map bind_eq_Some_conv split_beta
      split: if_splits)

lemma merge_loop_ge:
  assumes "fmap_merge_loop f g p m = Some y"
  shows "\<forall>d s. f = as_fmap d \<longrightarrow> g = as_fmap s \<longrightarrow> qmap_merge_loop d s p m \<noteq> None"
  apply (rule fmap_merge_loop.raw_induct [OF _ assms, where P = "\<lambda>f g p m y.
      \<forall>d s. f = as_fmap d \<longrightarrow> g = as_fmap s \<longrightarrow> qmap_merge_loop d s p m \<noteq> None"])
  apply (intro allI impI, hypsubst_thin)
  apply (subst qmap_merge_loop.simps)
  apply (auto simp: Let_def as_fmap_ret_def bind_map bind_eq_Some_conv split: if_splits)
  by (metis (no_types, lifting))

lemma qmap_merge [simp]:
  "cl_fmap_merge (as_fmap d) (as_fmap s) m = as_fmap_two (cl_qmap_merge d s m)"
proof -
  have "fmap_merge_loop (as_fmap d) (as_fmap s) p m = as_fmap_two (qmap_merge_loop d s p m)" for p
  proof (cases "qmap_merge_loop d s p m")
    case None
    have "fmap_merge_loop (as_fmap d) (as_fmap s) p m = None"
      using merge_loop_ge None by (metis not_None_eq)
    with None show ?thesis by (simp add: as_fmap_two_def)
  qed (simp add: merge_loop_le)
  then show ?thesis by (simp add: cl_fmap_merge_def cl_qmap_merge_def)
qed

section \<open>The quick map\<close>

text \<open>
  The invariant of a quick map is that of the flexi map it corresponds to, and the facts on
  flexi maps become facts on quick maps by the equations above.
\<close>

definition qmap_wf :: "'p cl_qmap_t \<Rightarrow> ('p, u64, 'z) map_mem_scheme \<Rightarrow> 'p list \<Rightarrow> bool" where
  "qmap_wf q m xs \<longleftrightarrow> fmap_wf (as_fmap q) m xs"

definition qmap_area :: "'p cl_qmap_t \<Rightarrow> 'p list \<Rightarrow> 'p set" where
  "qmap_area q xs = insert (qm_root q) (insert (qm_nil q) (set xs))"

lemma fmap_area_as_fmap: "fmap_area (as_fmap q) xs = qmap_area q xs"
  by (simp add: fmap_area_def qmap_area_def)

lemma qmap_wf_sorted: "qmap_wf q m xs \<Longrightarrow> sorted_wrt (<) (map (p_key m) xs)"
  by (simp add: qmap_wf_def fmap_wf_def key_before_def [abs_def] sorted_wrt_map)

lemma as_fmap_ret_Some:
  "as_fmap_ret r = Some (x, f, m) \<longleftrightarrow> (\<exists>q. r = Some (x, q, m) \<and> f = as_fmap q)"
  by (auto simp: as_fmap_ret_def)

lemma qmap_init_wf:
  assumes "qm_root q \<noteq> qm_nil q" and "cl_qmap_init p_null q m = (q', m')"
  shows "qmap_wf q' m' []"
  using assms fmap_init_wf [of "as_fmap q" p_null 0 u64_compare m]
  by (simp add: qmap_wf_def)

lemma as_fmap_inj [simp]: "as_fmap q = as_fmap r \<longleftrightarrow> q = r"
  by (cases q; cases r) (simp add: as_fmap_def)

lemma qmap_get_correct:
  assumes "qmap_wf q m xs"
  shows "cl_qmap_get q key m =
    Some (case find (\<lambda>x. key = p_key m x) xs of Some x \<Rightarrow> x | None \<Rightarrow> qm_nil q)"
proof -
  have "fmap_wf (as_fmap q) m xs" "fmap_compare (fm_pfn_compare (as_fmap q))"
    using assms u64_fmap_compare by (simp_all add: qmap_wf_def)
  from fmap_get_correct [OF this, of key] show ?thesis
    unfolding qmap_get as_fmap_simps u64_compare_simps .
qed

lemma qmap_get_next_correct:
  assumes "qmap_wf q m xs"
  shows "cl_qmap_get_next q key m =
    Some (case find (\<lambda>x. key < p_key m x) xs of Some x \<Rightarrow> x | None \<Rightarrow> qm_nil q)"
proof -
  have "fmap_wf (as_fmap q) m xs" "fmap_compare (fm_pfn_compare (as_fmap q))"
    using assms u64_fmap_compare by (simp_all add: qmap_wf_def)
  from fmap_get_next_correct [OF this, of key] show ?thesis
    unfolding qmap_get_next as_fmap_simps u64_compare_simps .
qed

lemma qmap_insert_new:
  assumes "qmap_wf q m xs" "x \<notin> qmap_area q xs" "key \<notin> p_key m ` set xs"
  shows "\<exists>q' m' ys zs. cl_qmap_insert q key x m = Some (x, q', m') \<and> xs = ys @ zs \<and>
    qmap_wf q' m' (ys @ x # zs) \<and> p_key m' = (p_key m)(x := key) \<and>
    same_outside (qmap_area q (x # xs)) m m' \<and> q' = q\<lparr>qm_count := qm_count q + 1\<rparr>"
proof -
  have "\<forall>y\<in>set xs. fm_pfn_compare (as_fmap q) key (p_key m y) \<noteq> 0" using assms(3) by auto
  from fmap_insert_new [OF assms(1) [unfolded qmap_wf_def] _ _ this, of x] assms(2) obtain m' ys zs
    where "cl_fmap_insert (as_fmap q) key x m =
        Some (x, as_fmap (q\<lparr>qm_count := qm_count q + 1\<rparr>), m')" "xs = ys @ zs"
      "fmap_wf (as_fmap (q\<lparr>qm_count := qm_count q + 1\<rparr>)) m' (ys @ x # zs)"
      "p_key m' = (p_key m)(x := key)" "same_outside (qmap_area q (x # xs)) m m'"
    using u64_fmap_compare by (auto simp: fmap_area_as_fmap)
  then show ?thesis unfolding qmap_wf_def qmap_insert as_fmap_ret_Some by auto
qed

lemma qmap_insert_duplicate:
  assumes "qmap_wf q m xs" "x \<notin> qmap_area q xs" "y \<in> set xs" "p_key m y = key"
  shows "\<exists>m'. cl_qmap_insert q key x m = Some (y, q, m') \<and> qmap_wf q m' xs \<and> same_outside {x} m m'"
proof -
  have "fm_pfn_compare (as_fmap q) key (p_key m y) = 0" using assms(4) by simp
  from fmap_insert_duplicate [OF assms(1) [unfolded qmap_wf_def] _ _ assms(3) this, of x] assms(2)
  show ?thesis
    using u64_fmap_compare by (auto simp: fmap_area_as_fmap qmap_wf_def as_fmap_ret_Some)
qed

lemma qmap_remove_item_wf:
  assumes "qmap_wf q m xs" "x \<in> set xs"
  shows "\<exists>m'. cl_qmap_remove_item q x m = Some (q\<lparr>qm_count := qm_count q - 1\<rparr>, m') \<and>
    qmap_wf (q\<lparr>qm_count := qm_count q - 1\<rparr>) m' (remove1 x xs) \<and> p_key m' = p_key m \<and>
    same_outside (qmap_area q xs) m m'"
  using fmap_remove_item_wf [of "as_fmap q" m xs x] assms
  by (auto simp: qmap_wf_def fmap_area_as_fmap)

lemma qmap_wf_cong:
  "qmap_wf q m xs \<Longrightarrow> agree_on (qmap_area q xs) m m' \<Longrightarrow> qmap_wf q m' xs"
  using fmap_wf_cong [of "as_fmap q" m xs m'] by (simp add: qmap_wf_def fmap_area_as_fmap)

lemma qmap_wf_distinct: "qmap_wf q m xs \<Longrightarrow> distinct xs"
  by (simp add: qmap_wf_def fmap_wf_distinct)

lemma qmap_wf_keys: "qmap_wf q m xs \<Longrightarrow> distinct (map (p_key m) xs)"
  using qmap_wf_sorted strict_sorted_iff by blast

end
