(* ===== verification/Item_Map.thy ===== *)
theory Item_Map
  imports Qmap_Refine
begin

text \<open>
  The contract of the two maps. A client sees a partial function from keys to items: \<open>item_map\<close>
  states what lookup, insertion and removal promise about it, and one lemma, proved from the
  contract alone, says that every legal sequence of operations answers as the partial function
  does. The contract is discharged for the flexi map under any comparison that is a total
  order on keys, and for the quick map.
\<close>

section \<open>Sequences of operations\<close>

datatype ('k, 'p) map_op = Get 'k | Insert 'k 'p | Remove 'k

text \<open>The operations of an implementation, run in turn; the results are the items returned.\<close>

fun run_ops ::
  "('h \<Rightarrow> 'k \<Rightarrow> 'm \<Rightarrow> 'p option) \<Rightarrow> ('h \<Rightarrow> 'k \<Rightarrow> 'p \<Rightarrow> 'm \<Rightarrow> ('p \<times> 'h \<times> 'm) option) \<Rightarrow>
   ('h \<Rightarrow> 'k \<Rightarrow> 'm \<Rightarrow> ('p \<times> 'h \<times> 'm) option) \<Rightarrow> ('k, 'p) map_op list \<Rightarrow> 'h \<Rightarrow> 'm \<Rightarrow>
   ('p list \<times> 'h \<times> 'm) option" where
  "run_ops get ins rem [] h m = Some ([], h, m)"
| "run_ops get ins rem (op # ops) h m =
    do {
      (r, h, m) \<leftarrow> (case op of
          Get k \<Rightarrow> map_option (\<lambda>r. (r, h, m)) (get h k m)
        | Insert k x \<Rightarrow> ins h k x m
        | Remove k \<Rightarrow> rem h k m);
      (rs, h, m) \<leftarrow> run_ops get ins rem ops h m;
      Some (r # rs, h, m)
    }"

text \<open>The same on a partial function. \<open>e\<close> is what a miss returns; an insertion keeps an old item.\<close>

fun spec_op :: "'p \<Rightarrow> ('k, 'p) map_op \<Rightarrow> ('k \<rightharpoonup> 'p) \<Rightarrow> 'p \<times> ('k \<rightharpoonup> 'p)" where
  "spec_op e (Get k) M = (case M k of Some y \<Rightarrow> y | None \<Rightarrow> e, M)"
| "spec_op e (Insert k x) M = (case M k of Some y \<Rightarrow> (y, M) | None \<Rightarrow> (x, M(k \<mapsto> x)))"
| "spec_op e (Remove k) M = (case M k of Some y \<Rightarrow> y | None \<Rightarrow> e, M(k := None))"

fun spec_ops :: "'p \<Rightarrow> ('k, 'p) map_op list \<Rightarrow> ('k \<rightharpoonup> 'p) \<Rightarrow> 'p list \<times> ('k \<rightharpoonup> 'p)" where
  "spec_ops e [] M = ([], M)"
| "spec_ops e (op # ops) M =
    (let (r, M) = spec_op e op M; (rs, M) = spec_ops e ops M in (r # rs, M))"

text \<open>An item is inserted only while it is in no map; \<open>S\<close> has the addresses of the sentinels.\<close>

fun legal_ops :: "'p set \<Rightarrow> 'p \<Rightarrow> ('k, 'p) map_op list \<Rightarrow> ('k \<rightharpoonup> 'p) \<Rightarrow> bool" where
  "legal_ops S e [] M \<longleftrightarrow> True"
| "legal_ops S e (op # ops) M \<longleftrightarrow>
    (case op of Insert k x \<Rightarrow> x \<notin> S \<and> x \<notin> ran M | _ \<Rightarrow> True) \<and>
    legal_ops S e ops (snd (spec_op e op M))"

section \<open>The contract\<close>

locale item_map =
  fixes rep :: "'h \<Rightarrow> 'm \<Rightarrow> ('k \<rightharpoonup> 'p) \<Rightarrow> bool"
    and sentinels :: "'h \<Rightarrow> 'p set"
    and end_of :: "'h \<Rightarrow> 'p"
    and get :: "'h \<Rightarrow> 'k \<Rightarrow> 'm \<Rightarrow> 'p option"
    and ins :: "'h \<Rightarrow> 'k \<Rightarrow> 'p \<Rightarrow> 'm \<Rightarrow> ('p \<times> 'h \<times> 'm) option"
    and rem :: "'h \<Rightarrow> 'k \<Rightarrow> 'm \<Rightarrow> ('p \<times> 'h \<times> 'm) option"
    and count :: "'h \<Rightarrow> 'c::len word"
  assumes get_law: "rep h m M \<Longrightarrow> get h k m = Some (fst (spec_op (end_of h) (Get k) M))"
    and ins_law: "rep h m M \<Longrightarrow> x \<notin> sentinels h \<Longrightarrow> x \<notin> ran M \<Longrightarrow>
      \<exists>r h' m' M'. ins h k x m = Some (r, h', m') \<and> spec_op (end_of h) (Insert k x) M = (r, M') \<and>
        rep h' m' M' \<and> sentinels h' = sentinels h \<and> end_of h' = end_of h"
    and rem_law: "rep h m M \<Longrightarrow>
      \<exists>r h' m' M'. rem h k m = Some (r, h', m') \<and> spec_op (end_of h) (Remove k) M = (r, M') \<and>
        rep h' m' M' \<and> sentinels h' = sentinels h \<and> end_of h' = end_of h"
    and count_law: "rep h m M \<Longrightarrow> count h = of_nat (card (ran M))"
begin

lemma op_refines:
  assumes "rep h m M" "legal_ops (sentinels h) (end_of h) [op] M"
  shows "\<exists>r h' m' M'. (case op of
        Get k \<Rightarrow> map_option (\<lambda>r. (r, h, m)) (get h k m)
      | Insert k x \<Rightarrow> ins h k x m
      | Remove k \<Rightarrow> rem h k m) = Some (r, h', m') \<and> spec_op (end_of h) op M = (r, M') \<and>
      rep h' m' M' \<and> sentinels h' = sentinels h \<and> end_of h' = end_of h"
  using assms ins_law rem_law get_law by (cases op) auto

lemma ops_refine:
  assumes "rep h m M" "legal_ops (sentinels h) (end_of h) ops M"
  shows "\<exists>rs h' m' M'. run_ops get ins rem ops h m = Some (rs, h', m') \<and>
    spec_ops (end_of h) ops M = (rs, M') \<and> rep h' m' M' \<and>
    count h' = of_nat (card (ran M'))"
  using assms
proof (induction ops arbitrary: h m M)
  case Nil
  then show ?case by (auto intro: count_law)
next
  case (Cons op ops)
  then obtain r h' m' M' where step: "(case op of
        Get k \<Rightarrow> map_option (\<lambda>r. (r, h, m)) (get h k m)
      | Insert k x \<Rightarrow> ins h k x m
      | Remove k \<Rightarrow> rem h k m) = Some (r, h', m')" "spec_op (end_of h) op M = (r, M')"
      "rep h' m' M'" "sentinels h' = sentinels h" "end_of h' = end_of h"
    using op_refines [of h m M op] by auto
  with Cons.prems have "legal_ops (sentinels h') (end_of h') ops M'"
    by simp
  from Cons.IH [OF step(3) this] show ?case
    using step by auto
qed

end

section \<open>The flexi map\<close>

definition fmap_rep ::
  "('k \<Rightarrow> 'k \<Rightarrow> int) \<Rightarrow> ('p, 'k) cl_fmap_t \<Rightarrow> ('p, 'k, 'z) map_mem_scheme \<Rightarrow> ('k \<rightharpoonup> 'p) \<Rightarrow> bool" where
  "fmap_rep cmp f m M \<longleftrightarrow> fm_pfn_compare f = cmp \<and>
     (\<exists>xs. fmap_wf f m xs \<and> (\<forall>k x. M k = Some x \<longleftrightarrow> x \<in> set xs \<and> cmp k (p_key m x) = 0))"

locale fmap_order = fmap_compare cmp for cmp :: "'k \<Rightarrow> 'k \<Rightarrow> int" +
  assumes cmp_eq: "cmp a b = 0 \<Longrightarrow> a = b"
begin

lemma rep_ran:
  assumes "\<forall>k x. M k = Some x \<longleftrightarrow> x \<in> set xs \<and> cmp k (p_key m x) = 0"
  shows "ran M = set xs"
  using assms cmp_refl by (auto simp: ran_def)

lemma rep_get:
  assumes "fmap_rep cmp f m M"
  shows "cl_fmap_get f k m = Some (case M k of Some y \<Rightarrow> y | None \<Rightarrow> fm_nil f)"
proof -
  obtain xs where xs: "fmap_wf f m xs" "\<forall>k x. M k = Some x \<longleftrightarrow> x \<in> set xs \<and> cmp k (p_key m x) = 0"
    and cmp: "fm_pfn_compare f = cmp"
    using assms unfolding fmap_rep_def by auto
  have "find (\<lambda>x. cmp k (p_key m x) = 0) xs = M k"
  proof (cases "M k")
    case None
    then have "\<forall>x\<in>set xs. cmp k (p_key m x) \<noteq> 0"
      using xs(2) by (metis option.distinct(1))
    with None show ?thesis by (auto simp: find_None_iff)
  next
    case (Some x)
    then obtain y where y: "find (\<lambda>x. cmp k (p_key m x) = 0) xs = Some y"
      using xs(2) by (cases "find (\<lambda>x. cmp k (p_key m x) = 0) xs") (auto simp: find_None_iff)
    then have "M k = Some y"
      using xs(2) by (auto simp: find_Some_iff)
    with y show ?thesis by simp
  qed
  then show ?thesis
    using fmap_get_correct [OF xs(1), of k] fmap_compare_axioms cmp by simp
qed

lemma rep_insert:
  assumes "fmap_rep cmp f m M" "x \<notin> {fm_root f, fm_nil f}" "x \<notin> ran M"
  shows "\<exists>r f' m' M'. cl_fmap_insert f k x m = Some (r, f', m') \<and>
    spec_op (fm_nil f) (Insert k x) M = (r, M') \<and> fmap_rep cmp f' m' M' \<and>
    fm_root f' = fm_root f \<and> fm_nil f' = fm_nil f"
proof -
  obtain xs where xs: "fmap_wf f m xs" "\<forall>k x. M k = Some x \<longleftrightarrow> x \<in> set xs \<and> cmp k (p_key m x) = 0"
    and cmp: "fm_pfn_compare f = cmp" "fmap_compare (fm_pfn_compare f)"
    using assms fmap_compare_axioms unfolding fmap_rep_def by auto
  have x: "x \<notin> fmap_area f xs" "x \<notin> set xs"
    using assms rep_ran [OF xs(2)] by (auto simp: fmap_area_def)
  show ?thesis
  proof (cases "M k")
    case None
    then have "\<forall>y\<in>set xs. fm_pfn_compare f k (p_key m y) \<noteq> 0"
      using xs(2) cmp by force
    from fmap_insert_new [OF xs(1) cmp(2) x(1) this] obtain m' ys zs where
      *: "cl_fmap_insert f k x m = Some (x, f\<lparr>fm_count := fm_count f + 1\<rparr>, m')" "xs = ys @ zs"
        "fmap_wf (f\<lparr>fm_count := fm_count f + 1\<rparr>) m' (ys @ x # zs)" "p_key m' = (p_key m)(x := k)"
      by auto
    have "\<forall>k' y. (M(k \<mapsto> x)) k' = Some y \<longleftrightarrow> y \<in> set (ys @ x # zs) \<and> cmp k' (p_key m' y) = 0"
    proof (intro allI)
      fix k' y
      show "(M(k \<mapsto> x)) k' = Some y \<longleftrightarrow> y \<in> set (ys @ x # zs) \<and> cmp k' (p_key m' y) = 0"
        using xs(2) [rule_format, of k' y] None cmp_refl [of k] cmp_eq [of k' k] x(2) *(2)
        unfolding *(4) by (cases "y = x"; cases "k' = k") auto
    qed
    then have "fmap_rep cmp (f\<lparr>fm_count := fm_count f + 1\<rparr>) m' (M(k \<mapsto> x))"
      unfolding fmap_rep_def using *(3) cmp(1) by auto
    then show ?thesis using *(1) None by auto
  next
    case (Some y)
    then have y: "y \<in> set xs" "fm_pfn_compare f k (p_key m y) = 0"
      using xs(2) cmp(1) by auto
    from fmap_insert_duplicate [OF xs(1) cmp(2) x(1) y] obtain m' where
      *: "cl_fmap_insert f k x m = Some (y, f, m')" "fmap_wf f m' xs" "p_key m' = (p_key m)(x := k)"
      by auto
    have "\<forall>k' z. M k' = Some z \<longleftrightarrow> z \<in> set xs \<and> cmp k' (p_key m' z) = 0"
      using xs(2) x(2) *(3) by auto
    then have "fmap_rep cmp f m' M"
      unfolding fmap_rep_def using *(2) cmp(1) by blast
    then show ?thesis using *(1) Some by auto
  qed
qed

lemma rep_remove:
  assumes "fmap_rep cmp f m M"
  shows "\<exists>r f' m' M'. cl_fmap_remove f k m = Some (r, f', m') \<and>
    spec_op (fm_nil f) (Remove k) M = (r, M') \<and> fmap_rep cmp f' m' M' \<and>
    fm_root f' = fm_root f \<and> fm_nil f' = fm_nil f"
proof -
  obtain xs where xs: "fmap_wf f m xs" "\<forall>k x. M k = Some x \<longleftrightarrow> x \<in> set xs \<and> cmp k (p_key m x) = 0"
    and cmp: "fm_pfn_compare f = cmp" "fmap_compare (fm_pfn_compare f)"
    using assms fmap_compare_axioms unfolding fmap_rep_def by auto
  show ?thesis
  proof (cases "M k")
    case None
    then have "\<forall>x\<in>set xs. fm_pfn_compare f k (p_key m x) \<noteq> 0"
      using xs(2) cmp by force
    from fmap_remove_absent [OF xs(1) cmp(2) this] show ?thesis
      using None assms by (simp add: fun_upd_idem)
  next
    case (Some y)
    then have y: "y \<in> set xs" "fm_pfn_compare f k (p_key m y) = 0"
      using xs(2) cmp(1) by auto
    from fmap_remove_present [OF xs(1) cmp(2) y] obtain m' where
      *: "cl_fmap_remove f k m = Some (y, f\<lparr>fm_count := fm_count f - 1\<rparr>, m')"
        "fmap_wf (f\<lparr>fm_count := fm_count f - 1\<rparr>) m' (remove1 y xs)" "p_key m' = p_key m"
      by auto
    have "\<forall>k' z. (M(k := None)) k' = Some z \<longleftrightarrow> z \<in> set (remove1 y xs) \<and> cmp k' (p_key m' z) = 0"
    proof (intro allI)
      fix k' z
      show "(M(k := None)) k' = Some z \<longleftrightarrow> z \<in> set (remove1 y xs) \<and> cmp k' (p_key m' z) = 0"
        using xs(2) [rule_format, of k' z] Some y(2) cmp(1) cmp_eq [of k "p_key m y"]
          cmp_eq [of k' "p_key m y"] fmap_wf_distinct [OF xs(1)]
        unfolding *(3) by (cases "k' = k"; cases "z = y") auto
    qed
    then have "fmap_rep cmp (f\<lparr>fm_count := fm_count f - 1\<rparr>) m' (M(k := None))"
      unfolding fmap_rep_def using *(2) cmp(1) by auto
    then show ?thesis using *(1) Some by auto
  qed
qed

lemma rep_count:
  assumes "fmap_rep cmp f m M"
  shows "cl_fmap_count f = of_nat (card (ran M))"
proof -
  obtain xs where xs: "fmap_wf f m xs" "\<forall>k x. M k = Some x \<longleftrightarrow> x \<in> set xs \<and> cmp k (p_key m x) = 0"
    using assms unfolding fmap_rep_def by auto
  then show ?thesis
    using fmap_count [OF xs(1)] rep_ran [OF xs(2)] fmap_wf_distinct [OF xs(1)]
    by (simp add: distinct_card)
qed

end

sublocale fmap_order \<subseteq> ops: item_map "fmap_rep cmp" "\<lambda>f. {fm_root f, fm_nil f}" fm_nil
  cl_fmap_get cl_fmap_insert cl_fmap_remove cl_fmap_count
proof (unfold_locales, goal_cases)
  case (2 f m M x k)
  then show ?case using rep_insert [of f m M x k] by (auto simp del: spec_op.simps)
next
  case (3 f m M k)
  then show ?case using rep_remove [of f m M k] by (auto simp del: spec_op.simps)
qed (simp_all add: rep_get rep_count)

section \<open>The quick map\<close>

interpretation u64_order: fmap_order u64_compare
  by unfold_locales (simp add: u64_compare_def split: if_splits)

definition qmap_rep :: "'p cl_qmap_t \<Rightarrow> ('p, u64, 'z) map_mem_scheme \<Rightarrow> (u64 \<rightharpoonup> 'p) \<Rightarrow> bool" where
  "qmap_rep q m M \<longleftrightarrow> fmap_rep u64_compare (as_fmap q) m M"

lemma as_fmap_ret_obtain:
  "as_fmap_ret r = Some (x, f, m) \<longleftrightarrow> (\<exists>q. r = Some (x, q, m) \<and> f = as_fmap q)"
  by (cases r) (auto simp: as_fmap_ret_def)

interpretation qmap: item_map qmap_rep "\<lambda>q. {qm_root q, qm_nil q}" qm_nil
  cl_qmap_get cl_qmap_insert cl_qmap_remove cl_qmap_count
proof (unfold_locales, goal_cases)
  case (1 q m M k)
  then show ?case
    using u64_order.rep_get [of "as_fmap q" m M k] by (simp add: qmap_rep_def split: option.splits)
next
  case (2 q m M x k)
  then show ?case
    using u64_order.rep_insert [of "as_fmap q" m M x k]
    by (auto simp: qmap_rep_def as_fmap_ret_obtain)
next
  case (3 q m M k)
  then show ?case
    using u64_order.rep_remove [of "as_fmap q" m M k]
    by (auto simp: qmap_rep_def as_fmap_ret_obtain)
next
  case (4 q m M)
  then show ?case
    using u64_order.rep_count [of "as_fmap q" m M]
    by (simp add: qmap_rep_def cl_fmap_count_def cl_qmap_count_def ucast_of_nat_64_32)
qed

lemma qmap_rep_init:
  assumes "qm_root q \<noteq> qm_nil q" "cl_qmap_init p_null q m = (q', m')"
  shows "qmap_rep q' m' (\<lambda>_. None) \<and> qm_root q' = qm_root q \<and> qm_nil q' = qm_nil q"
proof -
  have "qmap_wf q' m' []"
    by (rule qmap_init_wf [OF assms])
  moreover have "qm_root q' = qm_root q" "qm_nil q' = qm_nil q"
    using assms(2) by (auto simp: cl_qmap_init_def cl_qmap_remove_all_def Let_def)
  ultimately show ?thesis
    by (auto simp: qmap_rep_def fmap_rep_def qmap_wf_def intro!: exI [of _ "[]"])
qed

end
