(* ===== verification/Fmap_Cost.thy ===== *)
theory Fmap_Cost
  imports Fmap_Insert
begin

text \<open>
  The number of comparisons of the searches of \<^verbatim>\<open>cl_map.c\<close>. The compare callback is the
  caller's, and a comparison is what a search is charged for: \<open>T_fmap_match_loop\<close>,
  \<open>T_fmap_get_next_loop\<close> and \<open>T_fmap_insert_at_loop\<close> are the three loops with a counter that
  goes up at each call of the callback. Without the counter each is the loop itself, whether
  the loop ends or not (\<open>match_count\<close>, \<open>get_next_count\<close>, \<open>insert_at_count\<close>), so the counter says
  how often the code's loop calls the callback. On a tree in the memory it stays within the
  height, and a red-black tree of \<open>n\<close> items is at most twice the binary logarithm of \<open>n + 1\<close> high.
\<close>

section \<open>The loops with a counter\<close>

partial_function (option) T_fmap_match_loop ::
  "('p, 'k) cl_fmap_t \<Rightarrow> 'k \<Rightarrow> ('k \<Rightarrow> 'k \<Rightarrow> int) option \<Rightarrow> 'p \<Rightarrow> ('p, 'k, 'z) map_mem_scheme \<Rightarrow> nat \<Rightarrow>
   ('p \<times> nat) option" where
  "T_fmap_match_loop f key pfn_compare p_item m n =
    (if p_item \<noteq> fm_nil f
     then
       let cmp = (case pfn_compare of
                    Some pfn \<Rightarrow> pfn key (p_key m p_item)
                  | None \<Rightarrow> fm_pfn_compare f key (p_key m p_item));
           n = Suc n
       in if cmp = 0 then Some (p_item, n)
          else if cmp < 0 then T_fmap_match_loop f key pfn_compare (p_left m p_item) m n
          else T_fmap_match_loop f key pfn_compare (p_right m p_item) m n
     else Some (p_item, n))"

partial_function (option) T_fmap_get_next_loop ::
  "('p, 'k) cl_fmap_t \<Rightarrow> 'k \<Rightarrow> 'p \<Rightarrow> 'p \<Rightarrow> ('p, 'k, 'z) map_mem_scheme \<Rightarrow> nat \<Rightarrow> ('p \<times> nat) option" where
  "T_fmap_get_next_loop f key p_item p_item_found m n =
    (if p_item \<noteq> fm_nil f
     then
       let cmp = fm_pfn_compare f key (p_key m p_item);
           n = Suc n
       in if cmp < 0 then T_fmap_get_next_loop f key (p_left m p_item) p_item m n
          else T_fmap_get_next_loop f key (p_right m p_item) p_item_found m n
     else Some (p_item_found, n))"

partial_function (option) T_fmap_insert_at_loop ::
  "('p, 'k) cl_fmap_t \<Rightarrow> 'k \<Rightarrow> 'p \<Rightarrow> 'p \<Rightarrow> int \<Rightarrow> ('p, 'k, 'z) map_mem_scheme \<Rightarrow> nat \<Rightarrow>
   (('p + 'p \<times> int) \<times> nat) option" where
  "T_fmap_insert_at_loop f key p_insert_at p_comp_item cmp m n =
    (if p_comp_item \<noteq> fm_nil f
     then
       let p_insert_at = p_comp_item;
           cmp = fm_pfn_compare f key (p_key m p_insert_at);
           n = Suc n
       in if cmp = 0 then Some (Inl p_insert_at, n)
          else if cmp < 0 then T_fmap_insert_at_loop f key p_insert_at (p_left m p_insert_at) cmp m n
          else T_fmap_insert_at_loop f key p_insert_at (p_right m p_insert_at) cmp m n
     else Some (Inr (p_insert_at, cmp), n))"

text \<open>The operations, with the comparisons they make; the insertion first writes its item.\<close>

definition T_cl_fmap_get ::
  "('p, 'k) cl_fmap_t \<Rightarrow> 'k \<Rightarrow> ('p, 'k, 'z) map_mem_scheme \<Rightarrow> ('p \<times> nat) option" where
  "T_cl_fmap_get f key m = T_fmap_match_loop f key (Some (fm_pfn_compare f)) (cl_fmap_root f m) m 0"

definition T_cl_fmap_get_next ::
  "('p, 'k) cl_fmap_t \<Rightarrow> 'k \<Rightarrow> ('p, 'k, 'z) map_mem_scheme \<Rightarrow> ('p \<times> nat) option" where
  "T_cl_fmap_get_next f key m = T_fmap_get_next_loop f key (cl_fmap_root f m) (fm_nil f) m 0"

definition T_cl_fmap_insert ::
  "('p, 'k) cl_fmap_t \<Rightarrow> 'k \<Rightarrow> 'p \<Rightarrow> ('p, 'k, 'z) map_mem_scheme \<Rightarrow>
   (('p \<times> ('p, 'k) cl_fmap_t \<times> ('p, 'k, 'z) map_mem_scheme) \<times> nat) option" where
  "T_cl_fmap_insert f key p_item m =
    (let m = set_left p_item (fm_nil f) m;
         m = set_right p_item (fm_nil f) m;
         m = set_key p_item key m;
         m = set_color p_item CL_MAP_RED m
     in Option.bind (T_fmap_insert_at_loop f key (fm_root f) (cl_fmap_root f m) 0 m 0)
       (\<lambda>(found, n). case found of
          Inl p_insert_at \<Rightarrow> Some ((p_insert_at, f, m), n)
        | Inr (p_insert_at, cmp) \<Rightarrow>
            let m = (if p_insert_at = fm_root f then
                       let m = set_left p_insert_at p_item m
                       in cl_primitive_insert (fm_nil f) p_item m
                     else if cmp < 0 then
                       let m = set_left p_insert_at p_item m
                       in cl_primitive_insert p_insert_at p_item m
                     else
                       let m = set_right p_insert_at p_item m
                       in cl_primitive_insert (p_next m p_insert_at) p_item m);
                f = f\<lparr>fm_count := fm_count f + 1\<rparr>;
                m = set_up p_item p_insert_at m
            in Option.bind (cl_fmap_ins_bal f p_item m)
                 (\<lambda>m. Some ((p_item, f, set_color (cl_fmap_root f m) CL_MAP_BLACK m), n))))"

section \<open>Without the counter\<close>

text \<open>A search that ends with its counter and the code's ends alike.\<close>

lemma option_agree:
  assumes "\<And>r n. x = Some (r, n) \<Longrightarrow> y = Some r" and "\<And>r. y = Some r \<Longrightarrow> \<exists>n. x = Some (r, n)"
  shows "map_option fst x = y"
proof (cases y)
  case None
  with assms(1) have "x = None" by (metis not_None_eq surj_pair)
  with None show ?thesis by simp
qed (use assms(2) in fastforce)

lemma match_count_le:
  assumes "T_fmap_match_loop f key pfn p m n = Some y"
  shows "fmap_match_loop f key pfn p m = Some (fst y)"
  by (rule T_fmap_match_loop.raw_induct [OF _ assms, where
      P = "\<lambda>f key pfn p m n y. fmap_match_loop f key pfn p m = Some (fst y)"])
    (subst fmap_match_loop.simps, auto simp: Let_def split: if_splits option.splits)

lemma match_count_ge:
  assumes "fmap_match_loop f key pfn p m = Some y"
  shows "\<forall>n. \<exists>n'. T_fmap_match_loop f key pfn p m n = Some (y, n')"
  by (rule fmap_match_loop.raw_induct [OF _ assms, where
      P = "\<lambda>f key pfn p m y. \<forall>n. \<exists>n'. T_fmap_match_loop f key pfn p m n = Some (y, n')"], rule allI)
    (subst T_fmap_match_loop.simps, auto simp: Let_def split: if_splits option.splits)

lemma match_count:
  "map_option fst (T_fmap_match_loop f key pfn p m n) = fmap_match_loop f key pfn p m"
  by (rule option_agree) (auto dest: match_count_le match_count_ge)

lemma get_next_count_le:
  assumes "T_fmap_get_next_loop f key p q m n = Some y"
  shows "fmap_get_next_loop f key p q m = Some (fst y)"
  by (rule T_fmap_get_next_loop.raw_induct [OF _ assms, where
      P = "\<lambda>f key p q m n y. fmap_get_next_loop f key p q m = Some (fst y)"])
    (subst fmap_get_next_loop.simps, auto simp: Let_def split: if_splits)

lemma get_next_count_ge:
  assumes "fmap_get_next_loop f key p q m = Some y"
  shows "\<forall>n. \<exists>n'. T_fmap_get_next_loop f key p q m n = Some (y, n')"
  by (rule fmap_get_next_loop.raw_induct [OF _ assms, where
      P = "\<lambda>f key p q m y. \<forall>n. \<exists>n'. T_fmap_get_next_loop f key p q m n = Some (y, n')"], rule allI)
    (subst T_fmap_get_next_loop.simps, auto simp: Let_def split: if_splits)

lemma get_next_count:
  "map_option fst (T_fmap_get_next_loop f key p q m n) = fmap_get_next_loop f key p q m"
  by (rule option_agree) (auto dest: get_next_count_le get_next_count_ge)

lemma insert_at_count_le:
  assumes "T_fmap_insert_at_loop f key q p c m n = Some y"
  shows "fmap_insert_at_loop f key q p c m = Some (fst y)"
  by (rule T_fmap_insert_at_loop.raw_induct [OF _ assms, where
      P = "\<lambda>f key q p c m n y. fmap_insert_at_loop f key q p c m = Some (fst y)"])
    (subst fmap_insert_at_loop.simps, auto simp: Let_def split: if_splits)

lemma insert_at_count_ge:
  assumes "fmap_insert_at_loop f key q p c m = Some y"
  shows "\<forall>n. \<exists>n'. T_fmap_insert_at_loop f key q p c m n = Some (y, n')"
  by (rule fmap_insert_at_loop.raw_induct [OF _ assms, where
      P = "\<lambda>f key q p c m y. \<forall>n. \<exists>n'. T_fmap_insert_at_loop f key q p c m n = Some (y, n')"], rule allI)
    (subst T_fmap_insert_at_loop.simps, auto simp: Let_def split: if_splits)

lemma insert_at_count:
  "map_option fst (T_fmap_insert_at_loop f key q p c m n) = fmap_insert_at_loop f key q p c m"
  by (rule option_agree) (auto dest: insert_at_count_le insert_at_count_ge)

lemma get_cost [simp]: "map_option fst (T_cl_fmap_get f key m) = cl_fmap_get f key m"
  by (simp add: T_cl_fmap_get_def cl_fmap_get_def cl_fmap_match_def match_count)

lemma get_next_cost [simp]: "map_option fst (T_cl_fmap_get_next f key m) = cl_fmap_get_next f key m"
  by (simp add: T_cl_fmap_get_next_def cl_fmap_get_next_def get_next_count)

lemma insert_cost [simp]: "map_option fst (T_cl_fmap_insert f key x m) = cl_fmap_insert f key x m"
  unfolding T_cl_fmap_insert_def cl_fmap_insert_def Let_def
  by (subst insert_at_count [symmetric, where n = 0])
    (auto simp: map_option_bind option.map_comp comp_def split: Option.bind_split sum.splits)

section \<open>The counter on a tree\<close>

lemma match_turns:
  assumes "rep m (fm_nil f) t p u"
  shows "\<exists>r n'. T_fmap_match_loop f key pfn p m n = Some (r, n') \<and> n' \<le> n + height t"
  using assms
proof (induction t arbitrary: p u n)
  case Leaf
  then show ?case by (subst T_fmap_match_loop.simps) simp
next
  case (Node l x r)
  then have "p = x" "x \<noteq> fm_nil f" "rep m (fm_nil f) l (p_left m x) x" "rep m (fm_nil f) r (p_right m x) x"
    by auto
  with Node.IH(1) [of "p_left m x" x "Suc n"] Node.IH(2) [of "p_right m x" x "Suc n"] show ?case
    by (subst T_fmap_match_loop.simps) (force simp: Let_def split: option.splits)
qed

lemma get_next_turns:
  assumes "rep m (fm_nil f) t p u"
  shows "\<exists>r n'. T_fmap_get_next_loop f key p q m n = Some (r, n') \<and> n' \<le> n + height t"
  using assms
proof (induction t arbitrary: p u q n)
  case Leaf
  then show ?case by (subst T_fmap_get_next_loop.simps) simp
next
  case (Node l x r)
  then have "p = x" "x \<noteq> fm_nil f" "rep m (fm_nil f) l (p_left m x) x" "rep m (fm_nil f) r (p_right m x) x"
    by auto
  with Node.IH(1) [of "p_left m x" x x "Suc n"] Node.IH(2) [of "p_right m x" x q "Suc n"] show ?case
    by (subst T_fmap_get_next_loop.simps) (force simp: Let_def)
qed

lemma insert_at_turns:
  assumes "rep m (fm_nil f) t p u"
  shows "\<exists>r n'. T_fmap_insert_at_loop f key q p c m n = Some (r, n') \<and> n' \<le> n + height t"
  using assms
proof (induction t arbitrary: p u q c n)
  case Leaf
  then show ?case by (subst T_fmap_insert_at_loop.simps) simp
next
  case (Node l x r)
  let ?c = "fm_pfn_compare f key (p_key m x)"
  have "p = x" "x \<noteq> fm_nil f" "rep m (fm_nil f) l (p_left m x) x" "rep m (fm_nil f) r (p_right m x) x"
    using Node.prems by auto
  with Node.IH(1) [of "p_left m x" x x ?c "Suc n"] Node.IH(2) [of "p_right m x" x x ?c "Suc n"] show ?case
    by (subst T_fmap_insert_at_loop.simps) (force simp: Let_def)
qed

section \<open>On a well-formed map\<close>

lemma fmap_height:
  assumes "fmap_tree f m t" "inorder t = xs" "n \<le> height t"
  shows "2 ^ n \<le> (length xs + 1) ^ 2"
proof -
  have "rb_tree (color m) t" "size t = length xs"
    using assms(1,2) by (auto simp: fmap_tree_def length_inorder [symmetric])
  then have "2 ^ height t \<le> (length xs + 1) ^ 2" using rb_height [of "color m" t] by auto
  moreover have "(2::nat) ^ n \<le> 2 ^ height t" using assms(3) by simp
  ultimately show ?thesis by (rule le_trans [rotated])
qed

lemma get_comparisons:
  assumes "fmap_wf f m xs"
  shows "\<exists>r n. T_cl_fmap_get f key m = Some (r, n) \<and> 2 ^ n \<le> (length xs + 1) ^ 2"
proof -
  obtain t where t: "rep m (fm_nil f) t (cl_fmap_root f m) (fm_root f)" "inorder t = xs" "fmap_tree f m t"
    using assms by (rule fmap_wf_rep)
  from match_turns [OF t(1), of key "Some (fm_pfn_compare f)" 0] fmap_height [OF t(3,2)]
  show ?thesis by (auto simp: T_cl_fmap_get_def)
qed

lemma get_next_comparisons:
  assumes "fmap_wf f m xs"
  shows "\<exists>r n. T_cl_fmap_get_next f key m = Some (r, n) \<and> 2 ^ n \<le> (length xs + 1) ^ 2"
proof -
  obtain t where t: "rep m (fm_nil f) t (cl_fmap_root f m) (fm_root f)" "inorder t = xs" "fmap_tree f m t"
    using assms by (rule fmap_wf_rep)
  from get_next_turns [OF t(1), of key "fm_nil f" 0] fmap_height [OF t(3,2)]
  show ?thesis by (auto simp: T_cl_fmap_get_next_def)
qed

lemma insert_comparisons:
  assumes "fmap_wf f m xs" "x \<notin> fmap_area f xs" "T_cl_fmap_insert f key x m = Some (r, n)"
  shows "2 ^ n \<le> (length xs + 1) ^ 2"
proof -
  let ?m = "insert_prepare f key x m"
  obtain t where t: "rep ?m (fm_nil f) t (cl_fmap_root f ?m) (fm_root f)" "inorder t = xs" "fmap_tree f ?m t"
    using insert_prepare_wf(1) [OF assms(1,2)] by (rule fmap_wf_rep)
  from insert_at_turns [OF t(1), of key "fm_root f" 0 0] obtain p k where
    run: "T_fmap_insert_at_loop f key (fm_root f) (cl_fmap_root f ?m) 0 ?m 0 = Some (p, k)" "k \<le> height t"
    by auto
  have "k = n"
    using assms(3) run(1) unfolding T_cl_fmap_insert_def insert_prepare_def Let_def
    by (auto split: sum.splits Option.bind_splits)
  with fmap_height [OF t(3,2)] run(2) show ?thesis by simp
qed

end
