(* ===== verification/Event_Disp.thy ===== *)
theory Event_Disp
  imports Complib_Prelude
begin

text \<open>
  The event dispatcher of \<^verbatim>\<open>lib_event_disp.c\<close>. Its database is a table of registered file
  descriptors per event, the table of open descriptors, the connection counter and the
  generation and reception counters. The operating system is a parameter: a record of the
  calls the code makes (sockets, the mutex), each a function on the state \<open>'w\<close> of the world
  outside the library. Every function of the file is translated with all its error paths; a
  null pointer argument is \<open>None\<close>.
\<close>

section \<open>Data\<close>

datatype event_disp_status_t =
    EVENT_DISP_STATUS_SUCCESS | EVENT_DISP_STATUS_ALREADY_INIT | EVENT_DISP_STATUS_NOT_INIT
  | EVENT_DISP_STATUS_MUTEX_ERROR | EVENT_DISP_STATUS_PARAM_NULL | EVENT_DISP_STATUS_PARAM_RANGE
  | EVENT_DISP_STATUS_PARAM_INVALID | EVENT_DISP_STATUS_MAX_CONNETIONS
  | EVENT_DISP_STATUS_SOCKET_ERROR | EVENT_DISP_STATUS_SEND_ERROR | EVENT_DISP_STATUS_ERROR

record event_disp_fds_t =
  high_fd :: int
  med_fd :: int
  low_fd :: int

definition EVENT_DISP_MAX_BUFF_LEN :: nat where "EVENT_DISP_MAX_BUFF_LEN = 1500"
definition EVENT_DISP_MAX_CON :: nat where "EVENT_DISP_MAX_CON = 10"
definition EVENT_DISP_MAX_EVENTS :: nat where "EVENT_DISP_MAX_EVENTS = 100"
definition EVENT_DISP_MAX_SOCK :: nat where "EVENT_DISP_MAX_SOCK = EVENT_DISP_MAX_CON * 3"

text \<open>The file's static variables. An unused entry of either table is \<open>-1\<close>.\<close>

record event_disp_state =
  event_disp_db :: "int list list"
  event_disp_fds :: "int list"
  event_disp_con :: u32
  event_disp_gen_counter :: "u64 list"
  event_disp_rcv_counter :: "u64 list"
  event_disp_total_gen_counter :: u64
  event_disp_total_rcv_counter :: u64
  event_disp_init :: bool

text \<open>
  The calls to the system. \<open>os_sendto\<close> tells a full or closing peer (\<^verbatim>\<open>EAGAIN\<close>) from other
  failures; \<open>os_recv\<close> returns the bytes received, at most as many as asked for; the mutex
  calls return whether they succeeded.
\<close>

datatype send_result = SEND_OK | SEND_AGAIN | SEND_FAILED

record 'w os_calls =
  os_socket :: "'w \<Rightarrow> int \<times> 'w"
  os_bind :: "int \<Rightarrow> string \<Rightarrow> 'w \<Rightarrow> int \<times> 'w"
  os_close :: "int \<Rightarrow> 'w \<Rightarrow> int \<times> 'w"
  os_unlink :: "string \<Rightarrow> 'w \<Rightarrow> 'w"
  os_set_nonblock :: "int \<Rightarrow> 'w \<Rightarrow> int \<times> 'w"
  os_sendto :: "int \<Rightarrow> u8 list \<Rightarrow> string \<Rightarrow> 'w \<Rightarrow> send_result \<times> 'w"
  os_recv :: "int \<Rightarrow> nat \<Rightarrow> 'w \<Rightarrow> u8 list option \<times> 'w"
  os_getpid :: int
  os_mutex_init :: "'w \<Rightarrow> bool \<times> 'w"
  os_mutex_lock :: "'w \<Rightarrow> bool \<times> 'w"
  os_mutex_unlock :: "'w \<Rightarrow> bool \<times> 'w"
  os_mutex_destroy :: "'w \<Rightarrow> bool \<times> 'w"

section \<open>Path names and messages\<close>

text \<open>\<^verbatim>\<open>snprintf\<close> with \<^verbatim>\<open>%s%d_%d\<close>, cut off at the size of the buffer less the terminator.\<close>

definition digit_char :: "nat \<Rightarrow> char" where
  "digit_char d = char_of (48 + d)"

fun decimal :: "nat \<Rightarrow> string" where
  "decimal n = (if n < 10 then [digit_char n] else decimal (n div 10) @ [digit_char (n mod 10)])"

declare decimal.simps [simp del]

definition print_int :: "int \<Rightarrow> string" where
  "print_int i = (if i < 0 then CHR ''-'' # decimal (nat (- i)) else decimal (nat i))"

definition EVENT_DISP_SOCK_PATH_LEN :: nat where "EVENT_DISP_SOCK_PATH_LEN = 108"

definition EVENT_DISP_SOCK_PATH_PREFIX :: string where
  "EVENT_DISP_SOCK_PATH_PREFIX = ''/tmp/event_disp_fd_''"

definition sock_path :: "int \<Rightarrow> int \<Rightarrow> string" where
  "sock_path fd pid = take (EVENT_DISP_SOCK_PATH_LEN - 1)
     (EVENT_DISP_SOCK_PATH_PREFIX @ print_int fd @ CHR ''_'' # print_int pid)"

text \<open>
  A message is an \<^verbatim>\<open>int\<close> followed by the buffer, in little-endian byte order. The sender copies
  the data into the buffer and sends the event number and the data.
\<close>

definition int_bytes :: "int \<Rightarrow> u8 list" where
  "int_bytes e = map (\<lambda>i. ucast (drop_bit (8 * i) (word_of_int e :: u32))) [0, 1, 2, 3]"

definition bytes_int :: "u8 list \<Rightarrow> int" where
  "bytes_int bs = sint (foldr (\<lambda>b acc. or (ucast b) (push_bit 8 acc)) (take 4 bs) (0 :: u32))"

definition short_bytes :: "int \<Rightarrow> u8 list" where
  "short_bytes e = map (\<lambda>i. ucast (drop_bit (8 * i) (word_of_int e :: u16))) [0, 1]"

definition msg_len :: nat where
  "msg_len = 4 + EVENT_DISP_MAX_BUFF_LEN"

text \<open>Storing a \<^verbatim>\<open>short\<close> at the start of a buffer, and bytes received over an old message.\<close>

definition store_short :: "int \<Rightarrow> u8 list \<Rightarrow> u8 list" where
  "store_short e buff = buff[0 := short_bytes e ! 0, 1 := short_bytes e ! 1]"

definition overlay :: "u8 list \<Rightarrow> u8 list \<Rightarrow> u8 list" where
  "overlay new old = new @ drop (length new) old"

section \<open>Sockets\<close>

text \<open>The first entry that equals \<open>v\<close> is set to \<open>v'\<close>, as the loops with \<^verbatim>\<open>break\<close> do.\<close>

fun set_first :: "int \<Rightarrow> int \<Rightarrow> int list \<Rightarrow> int list" where
  "set_first v v' [] = []"
| "set_first v v' (x # xs) = (if v = x then v' # xs else x # set_first v v' xs)"

definition event_disp_open_socket ::
  "'w os_calls \<Rightarrow> event_disp_state \<Rightarrow> 'w \<Rightarrow> event_disp_status_t \<times> int \<times> event_disp_state \<times> 'w" where
  "event_disp_open_socket os st w =
    (let (local_fd, w) = os_socket os w
     in if local_fd = -1 then (EVENT_DISP_STATUS_SOCKET_ERROR, -1, st, w)
        else
          let path = sock_path local_fd (os_getpid os);
              w = os_unlink os path w;
              (rc, w) = os_bind os local_fd path w
          in if rc = -1
             then let (_, w) = os_close os local_fd w
                  in (EVENT_DISP_STATUS_SOCKET_ERROR, -1, st, w)
             else (EVENT_DISP_STATUS_SUCCESS, local_fd,
                   st\<lparr>event_disp_fds := set_first (-1) local_fd (event_disp_fds st)\<rparr>, w))"

definition event_disp_close_socket ::
  "'w os_calls \<Rightarrow> int \<Rightarrow> event_disp_state \<Rightarrow> 'w \<Rightarrow> event_disp_status_t \<times> event_disp_state \<times> 'w" where
  "event_disp_close_socket os fd st w =
    (if fd < 0 then (EVENT_DISP_STATUS_PARAM_INVALID, st, w)
     else
       let (rc, w) = os_close os fd w;
           err = (if rc = -1 then EVENT_DISP_STATUS_SOCKET_ERROR else EVENT_DISP_STATUS_SUCCESS);
           w = os_unlink os (sock_path fd (os_getpid os)) w
       in (err, st\<lparr>event_disp_fds := set_first fd (-1) (event_disp_fds st)\<rparr>, w))"

section \<open>Start and stop\<close>

definition event_disp_reset :: "event_disp_state \<Rightarrow> event_disp_state" where
  "event_disp_reset st = st\<lparr>
     event_disp_db := replicate EVENT_DISP_MAX_EVENTS (replicate EVENT_DISP_MAX_CON (-1)),
     event_disp_gen_counter := replicate EVENT_DISP_MAX_EVENTS 0,
     event_disp_rcv_counter := replicate EVENT_DISP_MAX_EVENTS 0,
     event_disp_total_gen_counter := 0,
     event_disp_total_rcv_counter := 0,
     event_disp_fds := replicate EVENT_DISP_MAX_SOCK (-1),
     event_disp_con := 0\<rparr>"

definition event_disp_api_init ::
  "'w os_calls \<Rightarrow> event_disp_state \<Rightarrow> 'w \<Rightarrow> event_disp_status_t \<times> event_disp_state \<times> 'w" where
  "event_disp_api_init os st w =
    (if event_disp_init st then (EVENT_DISP_STATUS_ALREADY_INIT, st, w)
     else
       let st = event_disp_reset st;
           (ok, w) = os_mutex_init os w
       in if \<not> ok then (EVENT_DISP_STATUS_MUTEX_ERROR, st, w)
          else (EVENT_DISP_STATUS_SUCCESS, st\<lparr>event_disp_init := True\<rparr>, w))"

text \<open>The first error is kept; later ones do not replace it.\<close>

definition first_err :: "event_disp_status_t \<Rightarrow> event_disp_status_t \<Rightarrow> event_disp_status_t" where
  "first_err err tmp_err = (if err = EVENT_DISP_STATUS_SUCCESS then tmp_err else err)"

fun deinit_close_loop ::
  "'w os_calls \<Rightarrow> nat list \<Rightarrow> event_disp_status_t \<Rightarrow> event_disp_state \<Rightarrow> 'w \<Rightarrow>
   event_disp_status_t \<times> event_disp_state \<times> 'w" where
  "deinit_close_loop os [] err st w = (err, st, w)"
| "deinit_close_loop os (fd_id # ids) err st w =
    (if event_disp_fds st ! fd_id \<ge> 0
     then let (tmp_err, st, w) = event_disp_close_socket os (event_disp_fds st ! fd_id) st w
          in deinit_close_loop os ids (first_err err tmp_err) st w
     else deinit_close_loop os ids err st w)"

definition event_disp_api_deinit ::
  "'w os_calls \<Rightarrow> event_disp_state \<Rightarrow> 'w \<Rightarrow> event_disp_status_t \<times> event_disp_state \<times> 'w" where
  "event_disp_api_deinit os st w =
    (if \<not> event_disp_init st then (EVENT_DISP_STATUS_NOT_INIT, st, w)
     else
       let (err, st, w) =
             deinit_close_loop os [0..<EVENT_DISP_MAX_SOCK] EVENT_DISP_STATUS_SUCCESS st w;
           st = event_disp_reset st;
           (ok, w) = os_mutex_destroy os w;
           err = (if \<not> ok then first_err err EVENT_DISP_STATUS_MUTEX_ERROR else err)
       in (err, st\<lparr>event_disp_init := False\<rparr>, w))"

section \<open>Connections\<close>

text \<open>
  The failure path of \<^verbatim>\<open>event_disp_api_open\<close>: every descriptor of the caller's structure that is
  not \<open>-1\<close> is closed, whatever put it there.
\<close>

definition open_bail ::
  "'w os_calls \<Rightarrow> event_disp_fds_t \<Rightarrow> event_disp_state \<Rightarrow> 'w \<Rightarrow> event_disp_state \<times> 'w" where
  "open_bail os fds st w =
    (let (st, w) = (if high_fd fds \<noteq> -1
           then let (_, st, w) = event_disp_close_socket os (high_fd fds) st w in (st, w) else (st, w));
         (st, w) = (if med_fd fds \<noteq> -1
           then let (_, st, w) = event_disp_close_socket os (med_fd fds) st w in (st, w) else (st, w));
         (st, w) = (if low_fd fds \<noteq> -1
           then let (_, st, w) = event_disp_close_socket os (low_fd fds) st w in (st, w) else (st, w))
     in (st, w))"

definition open_fail ::
  "'w os_calls \<Rightarrow> event_disp_status_t \<Rightarrow> bool \<Rightarrow> event_disp_fds_t option \<Rightarrow> event_disp_state \<Rightarrow> 'w \<Rightarrow>
   event_disp_status_t \<times> event_disp_fds_t option \<times> event_disp_state \<times> 'w" where
  "open_fail os err mutex_lock fds st w =
    (let (st, w) = (case fds of None \<Rightarrow> (st, w) | Some fds \<Rightarrow> open_bail os fds st w);
         w = (if mutex_lock then snd (os_mutex_unlock os w) else w)
     in (err, fds, st, w))"

definition event_disp_api_open ::
  "'w os_calls \<Rightarrow> event_disp_fds_t option \<Rightarrow> event_disp_state \<Rightarrow> 'w \<Rightarrow>
   event_disp_status_t \<times> event_disp_fds_t option \<times> event_disp_state \<times> 'w" where
  "event_disp_api_open os fds st w =
    (if \<not> event_disp_init st then open_fail os EVENT_DISP_STATUS_NOT_INIT False fds st w
     else case fds of
       None \<Rightarrow> open_fail os EVENT_DISP_STATUS_PARAM_NULL False None st w
     | Some f \<Rightarrow>
         let (ok, w) = os_mutex_lock os w
         in if \<not> ok then open_fail os EVENT_DISP_STATUS_MUTEX_ERROR False fds st w
            else if of_nat EVENT_DISP_MAX_CON \<le> event_disp_con st
            then open_fail os EVENT_DISP_STATUS_MAX_CONNETIONS True fds st w
            else
              let f = \<lparr>high_fd = -1, med_fd = -1, low_fd = -1\<rparr>;
                  (err, fd, st, w) = event_disp_open_socket os st w;
                  f = f\<lparr>high_fd := fd\<rparr>
              in if err \<noteq> EVENT_DISP_STATUS_SUCCESS then open_fail os err True (Some f) st w
                 else
                   let (err, fd, st, w) = event_disp_open_socket os st w;
                       f = f\<lparr>med_fd := fd\<rparr>
                   in if err \<noteq> EVENT_DISP_STATUS_SUCCESS then open_fail os err True (Some f) st w
                      else
                        let (err, fd, st, w) = event_disp_open_socket os st w;
                            f = f\<lparr>low_fd := fd\<rparr>
                        in if err \<noteq> EVENT_DISP_STATUS_SUCCESS
                           then open_fail os err True (Some f) st w
                           else (EVENT_DISP_STATUS_SUCCESS, Some f,
                                 st\<lparr>event_disp_con := event_disp_con st + 1\<rparr>,
                                 snd (os_mutex_unlock os w)))"

definition is_client_fd :: "event_disp_fds_t \<Rightarrow> int \<Rightarrow> bool" where
  "is_client_fd fds temp_fd \<longleftrightarrow>
    high_fd fds = temp_fd \<or> med_fd fds = temp_fd \<or> low_fd fds = temp_fd"

definition clear_row :: "event_disp_fds_t \<Rightarrow> int list \<Rightarrow> int list" where
  "clear_row fds row = map (\<lambda>temp_fd. if is_client_fd fds temp_fd then -1 else temp_fd) row"

definition event_disp_api_close ::
  "'w os_calls \<Rightarrow> event_disp_fds_t option \<Rightarrow> event_disp_state \<Rightarrow> 'w \<Rightarrow>
   event_disp_status_t \<times> event_disp_state \<times> 'w" where
  "event_disp_api_close os fds st w =
    (if \<not> event_disp_init st then (EVENT_DISP_STATUS_NOT_INIT, st, w)
     else case fds of
       None \<Rightarrow> (EVENT_DISP_STATUS_PARAM_NULL, st, w)
     | Some fds \<Rightarrow>
         let (ok, w) = os_mutex_lock os w
         in if \<not> ok then (EVENT_DISP_STATUS_MUTEX_ERROR, st, w)
            else
              let st = st\<lparr>event_disp_db := map (clear_row fds) (event_disp_db st)\<rparr>;
                  (err, st, w) = event_disp_close_socket os (high_fd fds) st w;
                  (tmp_err, st, w) = event_disp_close_socket os (med_fd fds) st w;
                  err = first_err err tmp_err;
                  (tmp_err, st, w) = event_disp_close_socket os (low_fd fds) st w;
                  err = first_err err tmp_err;
                  (ok, w) = os_mutex_unlock os w;
                  err = (if \<not> ok then first_err err EVENT_DISP_STATUS_MUTEX_ERROR else err)
              in (err, st, w))"

section \<open>Registration\<close>

text \<open>
  An event number outside the table is passed over. \<open>events\<close> is the array argument, of which
  the first \<open>num_of_events\<close> entries are read.
\<close>

definition event_in_range :: "int \<Rightarrow> bool" where
  "event_in_range e \<longleftrightarrow> e < int EVENT_DISP_MAX_EVENTS \<and> e \<ge> 0"

definition update_row :: "(int list \<Rightarrow> int list) \<Rightarrow> int \<Rightarrow> event_disp_state \<Rightarrow> event_disp_state" where
  "update_row g e st =
    (if event_in_range e
     then st\<lparr>event_disp_db := (event_disp_db st)[nat e := g (event_disp_db st ! nat e)]\<rparr>
     else st)"

definition event_disp_api_unregister_events ::
  "'w os_calls \<Rightarrow> event_disp_fds_t option \<Rightarrow> int list option \<Rightarrow> u32 \<Rightarrow> event_disp_state \<Rightarrow> 'w \<Rightarrow>
   event_disp_status_t \<times> event_disp_state \<times> 'w" where
  "event_disp_api_unregister_events os fds events num_of_events st w =
    (if \<not> event_disp_init st then (EVENT_DISP_STATUS_NOT_INIT, st, w)
     else case fds of
       None \<Rightarrow> (EVENT_DISP_STATUS_PARAM_NULL, st, w)
     | Some fds \<Rightarrow>
       (case events of
         None \<Rightarrow> (EVENT_DISP_STATUS_PARAM_NULL, st, w)
       | Some events \<Rightarrow>
           if num_of_events = 0 \<or> num_of_events > of_nat EVENT_DISP_MAX_EVENTS
           then (EVENT_DISP_STATUS_PARAM_RANGE, st, w)
           else
             let (ok, w) = os_mutex_lock os w
             in if \<not> ok then (EVENT_DISP_STATUS_MUTEX_ERROR, st, w)
                else
                  let st = fold (update_row (clear_row fds)) (take (unat num_of_events) events) st;
                      (ok, w) = os_mutex_unlock os w
                  in if \<not> ok then (EVENT_DISP_STATUS_MUTEX_ERROR, st, w)
                     else (EVENT_DISP_STATUS_SUCCESS, st, w)))"

definition prio_fd :: "int \<Rightarrow> event_disp_fds_t \<Rightarrow> int option" where
  "prio_fd prio fds =
    (if prio = 1 then Some (high_fd fds) else if prio = 2 then Some (med_fd fds)
     else if prio = 3 then Some (low_fd fds) else None)"

definition event_disp_api_register_events ::
  "'w os_calls \<Rightarrow> event_disp_fds_t option \<Rightarrow> int \<Rightarrow> int list option \<Rightarrow> u32 \<Rightarrow> event_disp_state \<Rightarrow> 'w \<Rightarrow>
   event_disp_status_t \<times> event_disp_state \<times> 'w" where
  "event_disp_api_register_events os fds prio events num_of_events st w =
    (if \<not> event_disp_init st then (EVENT_DISP_STATUS_NOT_INIT, st, w)
     else case fds of
       None \<Rightarrow> (EVENT_DISP_STATUS_PARAM_NULL, st, w)
     | Some f \<Rightarrow>
       (case events of
         None \<Rightarrow> (EVENT_DISP_STATUS_PARAM_NULL, st, w)
       | Some evs \<Rightarrow>
           if num_of_events = 0 \<or> num_of_events > of_nat EVENT_DISP_MAX_EVENTS
           then (EVENT_DISP_STATUS_PARAM_RANGE, st, w)
           else
             let (err, st, w) = event_disp_api_unregister_events os fds events num_of_events st w
             in if err \<noteq> EVENT_DISP_STATUS_SUCCESS then (err, st, w)
                else case prio_fd prio f of
                  None \<Rightarrow> (EVENT_DISP_STATUS_PARAM_INVALID, st, w)
                | Some fd \<Rightarrow>
                    if fd < 0 then (EVENT_DISP_STATUS_PARAM_INVALID, st, w)
                    else
                      let (ok, w) = os_mutex_lock os w
                      in if \<not> ok then (EVENT_DISP_STATUS_MUTEX_ERROR, st, w)
                         else
                           let st = fold (update_row (set_first (-1) fd)) (take (unat num_of_events) evs) st;
                               (ok, w) = os_mutex_unlock os w
                           in if \<not> ok then (EVENT_DISP_STATUS_MUTEX_ERROR, st, w)
                              else (EVENT_DISP_STATUS_SUCCESS, st, w)))"

section \<open>Generation\<close>

definition EVENT_SEND_BLOCKING_MODE :: int where "EVENT_SEND_BLOCKING_MODE = 1"
definition EVENT_SEND_NON_BLOCKING_MODE :: int where "EVENT_SEND_NON_BLOCKING_MODE = 2"
definition EVENT_SEND_NO_COPY :: int where "EVENT_SEND_NO_COPY = 1"
definition EVENT_SEND_WITH_COPY :: int where "EVENT_SEND_WITH_COPY = 2"

text \<open>
  The bytes handed to \<^verbatim>\<open>sendto\<close>. Without copy the event number is stored over the first two
  bytes of the caller's own buffer, which is why the buffer is also a result of the function.
  \<open>data_buff\<close> is the caller's buffer, of which the first \<open>data_size\<close> bytes are data.
\<close>

definition prepare_buff :: "int \<Rightarrow> int \<Rightarrow> u8 list option \<Rightarrow> u32 \<Rightarrow> u8 list option" where
  "prepare_buff no_copy event data_buff data_size =
    (if no_copy = EVENT_SEND_NO_COPY \<and> data_size \<noteq> 0
     then map_option (store_short event) data_buff else data_buff)"

definition send_buff :: "int \<Rightarrow> int \<Rightarrow> u8 list option \<Rightarrow> u32 \<Rightarrow> u8 list" where
  "send_buff no_copy event data_buff data_size =
    (if no_copy = EVENT_SEND_WITH_COPY
     then int_bytes event @
       (case data_buff of
          Some d \<Rightarrow> if data_size \<noteq> 0 then take (unat data_size) d else []
        | None \<Rightarrow> replicate (unat data_size) 0)
     else case data_buff of
       Some d \<Rightarrow> if data_size \<noteq> 0 then take (unat data_size) d else short_bytes event
     | None \<Rightarrow> short_bytes event)"

text \<open>
  The loop over the registered descriptors. \<open>socket_fd\<close> is the socket of the previous turn,
  closed at the start of the next one. The result has the error that ends the loop, if any,
  the error of the sends, the socket left open and the world.
\<close>

fun generate_loop ::
  "'w os_calls \<Rightarrow> int \<Rightarrow> u8 list \<Rightarrow> int list \<Rightarrow> int \<Rightarrow> event_disp_status_t \<Rightarrow> 'w \<Rightarrow>
   event_disp_status_t \<times> event_disp_status_t \<times> int \<times> 'w" where
  "generate_loop os mode buf [] socket_fd send_err w =
    (EVENT_DISP_STATUS_SUCCESS, send_err, socket_fd, w)"
| "generate_loop os mode buf (reg_fd # fds) socket_fd send_err w =
    (let (rc, w) = (if socket_fd \<noteq> -1 then os_close os socket_fd w else (0, w))
     in if socket_fd \<noteq> -1 \<and> rc = -1 then (EVENT_DISP_STATUS_SOCKET_ERROR, send_err, socket_fd, w)
        else if reg_fd = -1 then generate_loop os mode buf fds (-1) send_err w
        else
          let (socket_fd, w) = os_socket os w
          in if socket_fd = -1 then (EVENT_DISP_STATUS_SOCKET_ERROR, send_err, -1, w)
             else
               let (rc, w) = (if mode = EVENT_SEND_NON_BLOCKING_MODE
                              then os_set_nonblock os socket_fd w else (0, w))
               in if rc = -1 then (EVENT_DISP_STATUS_SOCKET_ERROR, send_err, socket_fd, w)
                  else
                    let (r, w) = os_sendto os socket_fd buf (sock_path reg_fd (os_getpid os)) w
                    in generate_loop os mode buf fds socket_fd
                         (if r = SEND_FAILED then EVENT_DISP_STATUS_SEND_ERROR else send_err) w)"

definition event_disp_api_generate_event_mode ::
  "'w os_calls \<Rightarrow> int \<Rightarrow> u8 list option \<Rightarrow> u32 \<Rightarrow> int \<Rightarrow> int \<Rightarrow> event_disp_state \<Rightarrow> 'w \<Rightarrow>
   event_disp_status_t \<times> u8 list option \<times> event_disp_state \<times> 'w" where
  "event_disp_api_generate_event_mode os event data_buff data_size mode no_copy st w =
    (if \<not> event_disp_init st then (EVENT_DISP_STATUS_NOT_INIT, data_buff, st, w)
     else if no_copy = EVENT_SEND_WITH_COPY \<and> data_size > of_nat EVENT_DISP_MAX_BUFF_LEN
     then (EVENT_DISP_STATUS_PARAM_RANGE, data_buff, st, w)
     else if event \<ge> int EVENT_DISP_MAX_EVENTS \<or> event < 0
     then (EVENT_DISP_STATUS_PARAM_RANGE, data_buff, st, w)
     else
       let (ok, w) = os_mutex_lock os w
       in if \<not> ok then (EVENT_DISP_STATUS_MUTEX_ERROR, data_buff, st, w)
          else
            let data_buff = prepare_buff no_copy event data_buff data_size;
                (err, send_err, socket_fd, w) =
                  generate_loop os mode (send_buff no_copy event data_buff data_size)
                    (event_disp_db st ! nat event) (-1) EVENT_DISP_STATUS_SUCCESS w;
                st = (if err = EVENT_DISP_STATUS_SUCCESS
                      then st\<lparr>event_disp_gen_counter := (event_disp_gen_counter st)
                             [nat event := event_disp_gen_counter st ! nat event + 1],
                             event_disp_total_gen_counter := event_disp_total_gen_counter st + 1\<rparr>
                      else st);
                err = first_err err send_err;
                w = (if socket_fd \<noteq> -1 then snd (os_close os socket_fd w) else w);
                w = snd (os_mutex_unlock os w)
            in (err, data_buff, st, w))"

definition event_disp_api_generate_event_no_copy ::
  "'w os_calls \<Rightarrow> int \<Rightarrow> u8 list option \<Rightarrow> u32 \<Rightarrow> event_disp_state \<Rightarrow> 'w \<Rightarrow>
   event_disp_status_t \<times> u8 list option \<times> event_disp_state \<times> 'w" where
  "event_disp_api_generate_event_no_copy os event data_buff data_size =
    event_disp_api_generate_event_mode os event data_buff data_size
      EVENT_SEND_NON_BLOCKING_MODE EVENT_SEND_NO_COPY"

definition event_disp_api_generate_event ::
  "'w os_calls \<Rightarrow> int \<Rightarrow> u8 list option \<Rightarrow> u32 \<Rightarrow> event_disp_state \<Rightarrow> 'w \<Rightarrow>
   event_disp_status_t \<times> u8 list option \<times> event_disp_state \<times> 'w" where
  "event_disp_api_generate_event os event data_buff data_size =
    event_disp_api_generate_event_mode os event data_buff data_size
      EVENT_SEND_NON_BLOCKING_MODE EVENT_SEND_WITH_COPY"

definition event_disp_api_generate_event_blocking ::
  "'w os_calls \<Rightarrow> int \<Rightarrow> u8 list option \<Rightarrow> u32 \<Rightarrow> event_disp_state \<Rightarrow> 'w \<Rightarrow>
   event_disp_status_t \<times> u8 list option \<times> event_disp_state \<times> 'w" where
  "event_disp_api_generate_event_blocking os event data_buff data_size =
    event_disp_api_generate_event_mode os event data_buff data_size
      EVENT_SEND_BLOCKING_MODE EVENT_SEND_WITH_COPY"

section \<open>Reception\<close>

text \<open>\<open>rcv_msg\<close> is the caller's memory before the call; bytes that are not received keep their value.\<close>

definition count_rcv :: "int \<Rightarrow> event_disp_state \<Rightarrow> event_disp_state" where
  "count_rcv e st = st\<lparr>event_disp_rcv_counter :=
     (event_disp_rcv_counter st)[nat e := event_disp_rcv_counter st ! nat e + 1]\<rparr>"

definition event_disp_api_get_event ::
  "'w os_calls \<Rightarrow> int \<Rightarrow> u8 list option \<Rightarrow> event_disp_state \<Rightarrow> 'w \<Rightarrow>
   event_disp_status_t \<times> u8 list option \<times> event_disp_state \<times> 'w" where
  "event_disp_api_get_event os fd rcv_msg st w =
    (case rcv_msg of
       None \<Rightarrow> (EVENT_DISP_STATUS_PARAM_NULL, rcv_msg, st, w)
     | Some old \<Rightarrow>
         if fd < 0 then (EVENT_DISP_STATUS_PARAM_INVALID, rcv_msg, st, w)
         else
           let (r, w) = os_recv os fd msg_len w
           in case r of
                None \<Rightarrow> (EVENT_DISP_STATUS_SOCKET_ERROR, rcv_msg, st, w)
              | Some bs \<Rightarrow>
                  let msg = overlay bs old; event = bytes_int msg
                  in if event \<ge> int EVENT_DISP_MAX_EVENTS \<or> event < 0
                     then (EVENT_DISP_STATUS_PARAM_RANGE, Some msg, st, w)
                     else
                       let st = count_rcv event st
                       in (EVENT_DISP_STATUS_SUCCESS, Some msg,
                           st\<lparr>event_disp_total_rcv_counter := event_disp_total_rcv_counter st + 1\<rparr>, w))"

definition event_disp_api_get_event_to_user_buf ::
  "'w os_calls \<Rightarrow> int \<Rightarrow> u8 list option \<Rightarrow> nat \<Rightarrow> event_disp_state \<Rightarrow> 'w \<Rightarrow>
   event_disp_status_t \<times> u8 list option \<times> event_disp_state \<times> 'w" where
  "event_disp_api_get_event_to_user_buf os fd rcv_msg rcv_size st w =
    (case rcv_msg of
       None \<Rightarrow> (EVENT_DISP_STATUS_PARAM_NULL, rcv_msg, st, w)
     | Some old \<Rightarrow>
         if fd < 0 then (EVENT_DISP_STATUS_PARAM_INVALID, rcv_msg, st, w)
         else
           let (r, w) = os_recv os fd rcv_size w
           in case r of
                None \<Rightarrow> (EVENT_DISP_STATUS_SOCKET_ERROR, rcv_msg, st, w)
              | Some bs \<Rightarrow>
                  let msg = overlay bs old; event = bytes_int msg;
                      st = (if event \<ge> 0 \<and> event < int EVENT_DISP_MAX_EVENTS
                            then count_rcv event st else st)
                  in (EVENT_DISP_STATUS_SUCCESS, Some msg,
                      st\<lparr>event_disp_total_rcv_counter := event_disp_total_rcv_counter st + 1\<rparr>, w))"

section \<open>Queries\<close>

text \<open>The dump is the text written to the file before the function returns.\<close>

definition dump_event :: "event_disp_state \<Rightarrow> nat \<Rightarrow> string" where
  "dump_event st event_id =
    ''\<newline>Event '' @ decimal event_id @ '':\<newline>'' @
    ''Generated '' @ decimal (unat (event_disp_gen_counter st ! event_id)) @ '' times, received '' @
    decimal (unat (event_disp_rcv_counter st ! event_id)) @ '' times\<newline>'' @
    ''Registered clients -\<newline>'' @
    (let regs = filter (\<lambda>fd. fd \<noteq> -1) (event_disp_db st ! event_id)
     in if regs = [] then ''No FDs\<newline>''
        else concat (map (\<lambda>fd. ''FD '' @ print_int fd @ ''\<newline>'') regs))"

definition event_disp_api_dump_data ::
  "'w os_calls \<Rightarrow> bool \<Rightarrow> event_disp_state \<Rightarrow> 'w \<Rightarrow> event_disp_status_t \<times> string \<times> 'w" where
  "event_disp_api_dump_data os have_file st w =
    (if \<not> have_file then (EVENT_DISP_STATUS_PARAM_NULL, [], w)
     else
       let out = ''\<newline>\<newline>===============================\<newline>Printing event dispatcher data:\<newline>'' @
                 ''===============================\<newline>\<newline>'';
           foot = ''\<newline>===========================================\<newline>\<newline>''
       in if \<not> event_disp_init st
          then (EVENT_DISP_STATUS_SUCCESS, out @ ''Event dispatcher library is no initialized\<newline>'' @ foot, w)
          else
            let (ok, w) = os_mutex_lock os w
            in if \<not> ok then (EVENT_DISP_STATUS_MUTEX_ERROR, out, w)
               else
                 let out = out @ ''Events dispatcher database:\<newline>========================\<newline>'' @
                       ''Number of connections = '' @ decimal (unat (event_disp_con st)) @ ''\<newline>'' @
                       concat (map (dump_event st) [0..<EVENT_DISP_MAX_EVENTS]) @
                       ''\<newline>Total '' @ decimal (unat (event_disp_total_gen_counter st)) @
                       '' generated, '' @ decimal (unat (event_disp_total_rcv_counter st)) @
                       '' received\<newline>'';
                     (ok, w) = os_mutex_unlock os w
                 in if \<not> ok then (EVENT_DISP_STATUS_MUTEX_ERROR, out, w)
                    else (EVENT_DISP_STATUS_SUCCESS, out @ foot, w))"

definition event_disp_api_get_connections_number ::
  "u32 option \<Rightarrow> event_disp_state \<Rightarrow> event_disp_status_t \<times> u32 option" where
  "event_disp_api_get_connections_number con st =
    (if \<not> event_disp_init st then (EVENT_DISP_STATUS_NOT_INIT, con)
     else case con of
       None \<Rightarrow> (EVENT_DISP_STATUS_PARAM_NULL, con)
     | Some _ \<Rightarrow> (EVENT_DISP_STATUS_SUCCESS, Some (event_disp_con st)))"

definition event_disp_api_get_event_generation_number ::
  "int \<Rightarrow> u64 option \<Rightarrow> event_disp_state \<Rightarrow> event_disp_status_t \<times> u64 option" where
  "event_disp_api_get_event_generation_number event gen_num st =
    (if \<not> event_disp_init st then (EVENT_DISP_STATUS_NOT_INIT, gen_num)
     else case gen_num of
       None \<Rightarrow> (EVENT_DISP_STATUS_PARAM_NULL, gen_num)
     | Some _ \<Rightarrow>
         if event \<ge> int EVENT_DISP_MAX_EVENTS \<or> event < 0
         then (EVENT_DISP_STATUS_PARAM_RANGE, gen_num)
         else (EVENT_DISP_STATUS_SUCCESS, Some (event_disp_gen_counter st ! nat event)))"

definition event_disp_api_is_init :: "event_disp_state \<Rightarrow> bool" where
  "event_disp_api_is_init st = event_disp_init st"

end
