(* ===== verification/Event_Disp_Inv.thy ===== *)
theory Event_Disp_Inv
  imports Event_Disp "HOL-Library.Multiset"
begin

text \<open>
  The invariant of the event dispatcher's database and the effect of its operations. The state
  of the library changes by the step relation \<open>ed_step\<close>, one rule per call of the interface and
  one for the world outside; the invariant is proved by rule induction over it. \<open>registered\<close> and
  \<open>open_fds\<close> read the two tables as the descriptors registered for an event and the
  descriptors that are open.
\<close>

section \<open>Reading the tables\<close>

definition used :: "int list \<Rightarrow> int list" where
  "used = filter (\<lambda>fd. fd \<noteq> -1)"

definition registered :: "event_disp_state \<Rightarrow> int \<Rightarrow> int list" where
  "registered st e = used (event_disp_db st ! nat e)"

definition open_fds :: "event_disp_state \<Rightarrow> int multiset" where
  "open_fds st = mset (used (event_disp_fds st))"

lemma length_set_first [simp]: "length (set_first v v' xs) = length xs"
  by (induction xs) auto

lemma set_set_first: "set (set_first v v' xs) \<subseteq> insert v' (set xs)"
  by (induction xs) auto

lemma used_set_free:
  "fd \<noteq> -1 \<Longrightarrow> mset (used (set_first (-1) fd xs)) =
    (if -1 \<in> set xs then add_mset fd (mset (used xs)) else mset (used xs))"
  by (induction xs) (auto simp: used_def)

lemma used_clear:
  "fd \<noteq> -1 \<Longrightarrow> mset (used (set_first fd (-1) xs)) = mset (used xs) - {#fd#}"
  by (induction xs) (auto simp: used_def)

lemma used_full: "-1 \<notin> set xs \<longleftrightarrow> length (used xs) = length xs"
proof (cases "-1 \<in> set xs")
  case True
  then show ?thesis
    using length_filter_less [of "-1" xs "\<lambda>fd. fd \<noteq> -1"] by (simp add: used_def)
next
  case False
  then have "used xs = xs"
    unfolding used_def filter_id_conv by auto
  with False show ?thesis by simp
qed

lemma used_clear_row: "used (clear_row f row) = filter (\<lambda>fd. \<not> is_client_fd f fd) (used row)"
  by (induction row) (auto simp: used_def clear_row_def)

section \<open>The invariant\<close>

definition ed_sizes :: "event_disp_state \<Rightarrow> bool" where
  "ed_sizes st \<longleftrightarrow> length (event_disp_db st) = EVENT_DISP_MAX_EVENTS \<and>
     (\<forall>row\<in>set (event_disp_db st). length row = EVENT_DISP_MAX_CON) \<and>
     length (event_disp_fds st) = EVENT_DISP_MAX_SOCK \<and>
     length (event_disp_gen_counter st) = EVENT_DISP_MAX_EVENTS \<and>
     length (event_disp_rcv_counter st) = EVENT_DISP_MAX_EVENTS"

definition ed_entries :: "event_disp_state \<Rightarrow> bool" where
  "ed_entries st \<longleftrightarrow> (\<forall>row\<in>set (event_disp_db st). \<forall>fd\<in>set row. fd \<ge> -1) \<and>
     (\<forall>fd\<in>set (event_disp_fds st). fd \<ge> -1)"

definition ed_bounds :: "event_disp_state \<Rightarrow> bool" where
  "ed_bounds st \<longleftrightarrow> unat (event_disp_con st) \<le> EVENT_DISP_MAX_CON \<and>
     size (open_fds st) \<le> 3 * unat (event_disp_con st)"

definition ed_inv :: "event_disp_state \<Rightarrow> bool" where
  "ed_inv st \<longleftrightarrow> ed_sizes st \<and> (event_disp_init st \<longrightarrow> ed_entries st \<and> ed_bounds st)"

lemmas ed_defs = ed_inv_def ed_sizes_def ed_entries_def ed_bounds_def open_fds_def
lemmas ed_consts = EVENT_DISP_MAX_SOCK_def EVENT_DISP_MAX_CON_def EVENT_DISP_MAX_EVENTS_def

text \<open>The static data before the first call, and what the system's \<^verbatim>\<open>socket\<close> promises.\<close>

definition ed_boot :: event_disp_state where
  "ed_boot = \<lparr>event_disp_db = replicate EVENT_DISP_MAX_EVENTS (replicate EVENT_DISP_MAX_CON 0),
     event_disp_fds = replicate EVENT_DISP_MAX_SOCK 0, event_disp_con = 0,
     event_disp_gen_counter = replicate EVENT_DISP_MAX_EVENTS 0,
     event_disp_rcv_counter = replicate EVENT_DISP_MAX_EVENTS 0,
     event_disp_total_gen_counter = 0, event_disp_total_rcv_counter = 0, event_disp_init = False\<rparr>"

definition os_socket_ok :: "'w os_calls \<Rightarrow> bool" where
  "os_socket_ok os \<longleftrightarrow> (\<forall>w. fst (os_socket os w) \<ge> -1)"

lemma ed_inv_boot: "ed_inv ed_boot"
  by (simp add: ed_defs ed_boot_def)

lemma ed_inv_reset:
  "ed_inv (event_disp_reset st)"
  by (simp add: ed_defs event_disp_reset_def used_def)

lemma ed_inv_reset_init [simp]:
  "ed_inv ((event_disp_reset st)\<lparr>event_disp_init := b\<rparr>)"
  by (simp add: ed_defs event_disp_reset_def used_def)

section \<open>Sockets\<close>

definition close_fd :: "int \<Rightarrow> event_disp_state \<Rightarrow> event_disp_state" where
  "close_fd fd st = (if fd < 0 then st else st\<lparr>event_disp_fds := set_first fd (-1) (event_disp_fds st)\<rparr>)"

definition record_fd :: "int \<Rightarrow> event_disp_state \<Rightarrow> event_disp_state" where
  "record_fd fd st = st\<lparr>event_disp_fds := set_first (-1) fd (event_disp_fds st)\<rparr>"

lemma close_socket_state: "event_disp_close_socket os fd st w = (err, st', w') \<Longrightarrow> st' = close_fd fd st"
  by (auto simp: event_disp_close_socket_def close_fd_def Let_def split: if_splits prod.splits)

lemma open_socket_state:
  assumes "os_socket_ok os" "event_disp_open_socket os st w = (err, fd, st', w')"
  shows "if err = EVENT_DISP_STATUS_SUCCESS then fd \<ge> 0 \<and> st' = record_fd fd st else fd = -1 \<and> st' = st"
proof -
  obtain s w1 where s: "os_socket os w = (s, w1)" by fastforce
  have "s \<ge> -1"
    using assms(1) s by (auto simp: os_socket_ok_def dest: spec [of _ w])
  then show ?thesis
    using assms(2) s
    by (auto simp: event_disp_open_socket_def record_fd_def Let_def split: if_splits prod.splits)
qed

lemma close_fd_simps [simp]:
  "event_disp_init (close_fd fd st) = event_disp_init st"
  "event_disp_con (close_fd fd st) = event_disp_con st"
  "event_disp_db (close_fd fd st) = event_disp_db st"
  "ed_sizes (close_fd fd st) = ed_sizes st"
  by (simp_all add: close_fd_def ed_sizes_def)

lemma record_fd_simps [simp]:
  "event_disp_init (record_fd fd st) = event_disp_init st"
  "event_disp_con (record_fd fd st) = event_disp_con st"
  "event_disp_db (record_fd fd st) = event_disp_db st"
  "ed_sizes (record_fd fd st) = ed_sizes st"
  by (simp_all add: record_fd_def ed_sizes_def)

lemma open_fds_close_fd: "fd \<ge> 0 \<Longrightarrow> open_fds (close_fd fd st) = open_fds st - {#fd#}"
  by (simp add: close_fd_def open_fds_def used_clear)

lemma open_fds_record_fd:
  assumes "ed_sizes st" "fd \<ge> 0" "size (open_fds st) < EVENT_DISP_MAX_SOCK"
  shows "open_fds (record_fd fd st) = add_mset fd (open_fds st)"
  using assms used_full [of "event_disp_fds st"] used_set_free [of fd "event_disp_fds st"]
  by (auto simp: record_fd_def open_fds_def ed_sizes_def)

lemma ed_entries_fds:
  "ed_entries st \<Longrightarrow> ed_entries (close_fd fd st)"
  "ed_entries st \<Longrightarrow> fd \<ge> -1 \<Longrightarrow> ed_entries (record_fd fd st)"
  using set_set_first [of fd "-1" "event_disp_fds st"] set_set_first [of "-1" fd "event_disp_fds st"]
  by (auto simp: ed_entries_def close_fd_def record_fd_def)

lemma ed_inv_close_fd:
  assumes "ed_inv st"
  shows "ed_inv (close_fd fd st)"
proof (cases "fd < 0")
  case True
  with assms show ?thesis by (simp add: close_fd_def)
next
  case False
  then have "size (open_fds (close_fd fd st)) \<le> size (open_fds st)"
    by (simp add: open_fds_close_fd size_Diff_singleton_if)
  with assms show ?thesis
    using ed_entries_fds(1) [of st fd] by (auto simp: ed_inv_def ed_bounds_def)
qed

lemma ed_con_simps [simp]:
  "ed_sizes (st\<lparr>event_disp_con := c\<rparr>) = ed_sizes st"
  "ed_entries (st\<lparr>event_disp_con := c\<rparr>) = ed_entries st"
  "open_fds (st\<lparr>event_disp_con := c\<rparr>) = open_fds st"
  by (simp_all add: ed_sizes_def ed_entries_def open_fds_def)

section \<open>Opening and closing connections\<close>

definition close_open :: "int \<Rightarrow> event_disp_state \<Rightarrow> event_disp_state" where
  "close_open fd st = (if fd \<noteq> -1 then close_fd fd st else st)"

lemma open_bail_state:
  "open_bail os f st w = (st', w') \<Longrightarrow>
   st' = close_open (low_fd f) (close_open (med_fd f) (close_open (high_fd f) st))"
  by (auto simp: open_bail_def close_open_def Let_def dest!: close_socket_state split: if_splits prod.splits)

lemma ed_inv_close_open: "ed_inv st \<Longrightarrow> ed_inv (close_open fd st)"
  by (simp add: close_open_def ed_inv_close_fd)

lemma open_fail_state:
  "open_fail os err lk fo st w = (err', fo', st', w') \<Longrightarrow> err' = err \<and> fo' = fo \<and>
   st' = (case fo of None \<Rightarrow> st | Some f \<Rightarrow>
     close_open (low_fd f) (close_open (med_fd f) (close_open (high_fd f) st)))"
  by (auto simp: open_fail_def Let_def dest!: open_bail_state split: option.splits prod.splits if_splits)

lemma ed_inv_open_fail:
  "open_fail os err lk fo st w = (err', fo', st', w') \<Longrightarrow> ed_inv st \<Longrightarrow> ed_inv st'"
  by (auto dest!: open_fail_state simp: ed_inv_close_open split: option.splits)

text \<open>
  Below the limit of connections, opening either records three descriptors and counts the
  connection, or fails and closes what it opened, so that the table is as before.
\<close>

definition open_outcome ::
  "event_disp_status_t \<Rightarrow> event_disp_fds_t option \<Rightarrow> event_disp_state \<Rightarrow> event_disp_state \<Rightarrow> bool" where
  "open_outcome err fo st st' \<longleftrightarrow>
    (if err = EVENT_DISP_STATUS_SUCCESS
     then \<exists>h m l. fo = Some \<lparr>high_fd = h, med_fd = m, low_fd = l\<rparr> \<and> h \<ge> 0 \<and> m \<ge> 0 \<and> l \<ge> 0 \<and>
       open_fds st' = add_mset h (add_mset m (add_mset l (open_fds st))) \<and>
       st' = (record_fd l (record_fd m (record_fd h st)))\<lparr>event_disp_con := event_disp_con st + 1\<rparr>
     else open_fds st' = open_fds st \<and> event_disp_con st' = event_disp_con st \<and>
       event_disp_db st' = event_disp_db st \<and> event_disp_init st' = event_disp_init st \<and>
       ed_sizes st' = ed_sizes st \<and> (ed_entries st \<longrightarrow> ed_entries st'))"

lemma open_three:
  assumes "ed_sizes st" "size (open_fds st) + 3 \<le> EVENT_DISP_MAX_SOCK" "h \<ge> 0" "m \<ge> 0" "l \<ge> 0"
  shows "open_fds (record_fd h st) = add_mset h (open_fds st)"
    "open_fds (record_fd m (record_fd h st)) = add_mset m (add_mset h (open_fds st))"
    "open_fds (record_fd l (record_fd m (record_fd h st))) =
       add_mset l (add_mset m (add_mset h (open_fds st)))"
  using assms by (simp_all add: open_fds_record_fd)

lemma close_open_simps [simp]:
  "event_disp_con (close_open fd st) = event_disp_con st"
  "event_disp_db (close_open fd st) = event_disp_db st"
  "event_disp_init (close_open fd st) = event_disp_init st"
  "ed_sizes (close_open fd st) = ed_sizes st"
  "ed_entries st \<Longrightarrow> ed_entries (close_open fd st)"
  "close_open (-1) st = st"
  "h \<ge> 0 \<Longrightarrow> open_fds (close_open h st) = open_fds st - {#h#}"
  by (simp_all add: close_open_def open_fds_close_fd ed_entries_fds)

lemma open_fail_outcome:
  assumes "open_fail os err lk (Some f) st1 w = (err', fo', st', w')" "err \<noteq> EVENT_DISP_STATUS_SUCCESS"
    and "open_fds (close_open (low_fd f) (close_open (med_fd f) (close_open (high_fd f) st1))) = open_fds st"
    and "event_disp_con st1 = event_disp_con st" "event_disp_db st1 = event_disp_db st"
    and "event_disp_init st1 = event_disp_init st" "ed_sizes st1 = ed_sizes st"
    and "ed_entries st \<longrightarrow> ed_entries st1"
  shows "open_outcome err' fo' st st'"
  using open_fail_state [OF assms(1)] assms(2-) by (simp add: open_outcome_def)

lemma api_open_outcome:
  assumes os: "os_socket_ok os" and sizes: "ed_sizes st" "event_disp_init st"
    and room: "size (open_fds st) + 3 \<le> EVENT_DISP_MAX_SOCK" "event_disp_con st < of_nat EVENT_DISP_MAX_CON"
    and lock: "os_mutex_lock os w = (True, w1)"
    and run: "event_disp_api_open os (Some f) st w = (err, fo, st', w')"
  shows "open_outcome err fo st st'"
proof -
  obtain e1 h s1 u1 where h: "event_disp_open_socket os st w1 = (e1, h, s1, u1)"
    by (metis prod_cases4)
  obtain e2 m s2 u2 where m: "event_disp_open_socket os s1 u1 = (e2, m, s2, u2)"
    by (metis prod_cases4)
  obtain e3 l s3 u3 where l: "event_disp_open_socket os s2 u2 = (e3, l, s3, u3)"
    by (metis prod_cases4)
  have con: "\<not> of_nat EVENT_DISP_MAX_CON \<le> event_disp_con st"
    using room(2) by simp
  have run': "(if e1 \<noteq> EVENT_DISP_STATUS_SUCCESS
      then open_fail os e1 True (Some \<lparr>high_fd = h, med_fd = -1, low_fd = -1\<rparr>) s1 u1
      else if e2 \<noteq> EVENT_DISP_STATUS_SUCCESS
      then open_fail os e2 True (Some \<lparr>high_fd = h, med_fd = m, low_fd = -1\<rparr>) s2 u2
      else if e3 \<noteq> EVENT_DISP_STATUS_SUCCESS
      then open_fail os e3 True (Some \<lparr>high_fd = h, med_fd = m, low_fd = l\<rparr>) s3 u3
      else (EVENT_DISP_STATUS_SUCCESS, Some \<lparr>high_fd = h, med_fd = m, low_fd = l\<rparr>,
        s3\<lparr>event_disp_con := event_disp_con s3 + 1\<rparr>, snd (os_mutex_unlock os u3))) = (err, fo, st', w')"
    using run con by (auto simp: event_disp_api_open_def Let_def sizes lock h m l split: if_splits)
  note hs = open_socket_state [OF os h] and ms = open_socket_state [OF os m]
    and ls = open_socket_state [OF os l]
  note three = open_three [OF sizes(1) room(1)]
  consider "e1 \<noteq> EVENT_DISP_STATUS_SUCCESS"
    | "e1 = EVENT_DISP_STATUS_SUCCESS" "e2 \<noteq> EVENT_DISP_STATUS_SUCCESS"
    | "e1 = EVENT_DISP_STATUS_SUCCESS" "e2 = EVENT_DISP_STATUS_SUCCESS" "e3 \<noteq> EVENT_DISP_STATUS_SUCCESS"
    | "e1 = EVENT_DISP_STATUS_SUCCESS" "e2 = EVENT_DISP_STATUS_SUCCESS" "e3 = EVENT_DISP_STATUS_SUCCESS"
    by blast
  then show ?thesis
  proof cases
    case 1
    then show ?thesis
      using run' hs by (auto elim!: open_fail_outcome simp: ed_entries_fds)
  next
    case 2
    then show ?thesis
      using run' hs ms three(1) by (auto elim!: open_fail_outcome simp: ed_entries_fds)
  next
    case 3
    then show ?thesis
      using run' hs ms ls three(2) by (auto elim!: open_fail_outcome simp: ed_entries_fds)
  next
    case 4
    then show ?thesis
      using run' hs ms ls three(3) by (auto simp: open_outcome_def open_fds_def add_mset_commute)
  qed
qed

lemma ed_inv_open:
  assumes "os_socket_ok os" "ed_inv st" "event_disp_api_open os fo st w = (err, fo', st', w')"
  shows "ed_inv st'"
proof (cases "event_disp_init st \<and> fo \<noteq> None \<and> fst (os_mutex_lock os w) \<and>
    event_disp_con st < of_nat EVENT_DISP_MAX_CON")
  case False
  then show ?thesis
    using assms(2,3) unfolding event_disp_api_open_def
    by (auto simp: Let_def not_le elim: ed_inv_open_fail split: option.splits prod.splits if_splits)
next
  case True
  then obtain f w1 where f: "fo = Some f" and lock: "os_mutex_lock os w = (True, w1)"
    by (metis (full_types) not_None_eq prod.collapse)
  have con: "unat (event_disp_con st) < EVENT_DISP_MAX_CON"
    using True unat_mono [of "event_disp_con st" "of_nat EVENT_DISP_MAX_CON"]
    by (simp add: EVENT_DISP_MAX_CON_def)
  then have "unat (event_disp_con st + 1) = unat (event_disp_con st) + 1"
    by (simp add: EVENT_DISP_MAX_CON_def unat_word_ariths)
  moreover have "size (open_fds st) + 3 \<le> EVENT_DISP_MAX_SOCK"
    using assms(2) True con by (auto simp: ed_inv_def ed_bounds_def EVENT_DISP_MAX_SOCK_def)
  then have "open_outcome err fo' st st'"
    using api_open_outcome [OF assms(1) _ _ _ _ lock] assms(2,3) True f by (auto simp: ed_inv_def)
  ultimately show ?thesis
    using assms(2) True con
    by (auto simp: open_outcome_def ed_inv_def ed_bounds_def ed_entries_fds
        split: if_splits)
qed

text \<open>Closing clears the client's descriptors from every row; the connection count stays.\<close>

lemma api_close_state:
  assumes "event_disp_api_close os fo st w = (err, st', w')"
  shows "st' = st \<or> (\<exists>f. fo = Some f \<and> event_disp_init st \<and> st' =
    close_fd (low_fd f) (close_fd (med_fd f) (close_fd (high_fd f)
      (st\<lparr>event_disp_db := map (clear_row f) (event_disp_db st)\<rparr>))))"
  using assms unfolding event_disp_api_close_def
  by (auto simp: Let_def dest!: close_socket_state split: if_splits option.splits prod.splits)

section \<open>Registration\<close>

definition row_ok :: "int list \<Rightarrow> bool" where
  "row_ok row \<longleftrightarrow> length row = EVENT_DISP_MAX_CON \<and> (\<forall>fd\<in>set row. fd \<ge> -1)"

lemma row_ok_clear [intro]: "row_ok row \<Longrightarrow> row_ok (clear_row f row)"
  by (auto simp: row_ok_def clear_row_def)

lemma row_ok_set_free [intro]: "row_ok row \<Longrightarrow> fd \<ge> -1 \<Longrightarrow> row_ok (set_first (-1) fd row)"
  using set_set_first [of "-1" fd row] by (auto simp: row_ok_def)

lemma ed_inv_rows: "ed_inv st \<Longrightarrow> event_disp_init st \<Longrightarrow> row \<in> set (event_disp_db st) \<Longrightarrow> row_ok row"
  by (auto simp: ed_defs row_ok_def)

lemma ed_inv_db:
  assumes "ed_inv st" "length db = EVENT_DISP_MAX_EVENTS" "\<forall>row\<in>set db. row_ok row"
  shows "ed_inv (st\<lparr>event_disp_db := db\<rparr>)"
  using assms by (auto simp: ed_defs row_ok_def)

lemma update_row_simps [simp]:
  "event_disp_init (update_row g e st) = event_disp_init st"
  "event_disp_con (update_row g e st) = event_disp_con st"
  "event_disp_fds (update_row g e st) = event_disp_fds st"
  by (simp_all add: update_row_def)

lemma fold_update_row_simps [simp]:
  "event_disp_init (fold (update_row g) es st) = event_disp_init st"
  "event_disp_con (fold (update_row g) es st) = event_disp_con st"
  "event_disp_fds (fold (update_row g) es st) = event_disp_fds st"
  by (induction es arbitrary: st) simp_all

lemma ed_inv_update_row:
  assumes "ed_inv st" "event_disp_init st" "\<And>row. row_ok row \<Longrightarrow> row_ok (g row)"
  shows "ed_inv (update_row g e st)"
proof (cases "event_in_range e")
  case True
  then have "nat e < length (event_disp_db st)"
    using assms(1) by (auto simp: event_in_range_def ed_inv_def ed_sizes_def)
  then have "\<forall>row\<in>set ((event_disp_db st)[nat e := g (event_disp_db st ! nat e)]). row_ok row"
    using assms(3) ed_inv_rows [OF assms(1,2)] 
      set_update_subset_insert [of "event_disp_db st" "nat e" "g (event_disp_db st ! nat e)"]
    by (auto dest!: subsetD)
  moreover have "length (event_disp_db st) = EVENT_DISP_MAX_EVENTS"
    using assms(1) by (simp add: ed_inv_def ed_sizes_def)
  ultimately show ?thesis
    using ed_inv_db [OF assms(1)] True by (simp add: update_row_def)
qed (use assms in \<open>simp add: update_row_def\<close>)

text \<open>Registration and its removal are sequences of two kinds of changes of one row.\<close>

inductive db_steps :: "event_disp_state \<Rightarrow> event_disp_state \<Rightarrow> bool" for st where
  db_refl: "db_steps st st"
| db_clear: "db_steps st st' \<Longrightarrow> db_steps st (update_row (clear_row f) e st')"
| db_add: "db_steps st st' \<Longrightarrow> fd \<ge> 0 \<Longrightarrow> db_steps st (update_row (set_first (-1) fd) e st')"

lemma db_steps_fold:
  "db_steps st st' \<Longrightarrow> db_steps st (fold (update_row (clear_row f)) es st')"
  "db_steps st st' \<Longrightarrow> fd \<ge> 0 \<Longrightarrow> db_steps st (fold (update_row (set_first (-1) fd)) es st')"
  by (induction es arbitrary: st') (simp_all add: db_clear db_add)

lemma db_steps_inv:
  assumes "db_steps st st'" "ed_inv st" "event_disp_init st"
  shows "ed_inv st' \<and> event_disp_init st' \<and> event_disp_con st' = event_disp_con st"
  using assms by (induction rule: db_steps.induct) (auto intro!: ed_inv_update_row)

lemma unregister_success:
  assumes "event_disp_api_unregister_events os fo eo n st w = (EVENT_DISP_STATUS_SUCCESS, st', w')"
  obtains f es where "fo = Some f" "eo = Some es" "event_disp_init st"
    "st' = fold (update_row (clear_row f)) (take (unat n) es) st"
  using assms unfolding event_disp_api_unregister_events_def
  by (auto simp: Let_def split: if_splits option.splits prod.splits)

lemma unregister_steps:
  assumes "event_disp_api_unregister_events os fo eo n st w = (err, st', w')"
  shows "st' = st \<or> event_disp_init st \<and> db_steps st st'"
  using assms unfolding event_disp_api_unregister_events_def
  by (auto simp: Let_def intro!: db_steps_fold db_refl split: if_splits option.splits prod.splits)

lemma register_success:
  assumes "event_disp_api_register_events os fo prio eo n st w = (EVENT_DISP_STATUS_SUCCESS, st', w')"
  obtains f es fd where "fo = Some f" "eo = Some es" "event_disp_init st"
    "prio_fd prio f = Some fd" "fd \<ge> 0"
    "st' = fold (update_row (set_first (-1) fd)) (take (unat n) es)
      (fold (update_row (clear_row f)) (take (unat n) es) st)"
  using assms unfolding event_disp_api_register_events_def
  by (auto simp: Let_def elim!: unregister_success split: if_splits option.splits prod.splits)

lemma register_steps:
  assumes "event_disp_api_register_events os fo prio eo n st w = (err, st', w')"
  shows "st' = st \<or> event_disp_init st \<and> db_steps st st'"
  using assms unfolding event_disp_api_register_events_def
  by (auto simp: Let_def intro!: db_steps_fold dest!: unregister_steps
      intro: db_refl split: if_splits option.splits prod.splits)

lemma ed_inv_close:
  assumes "event_disp_api_close os fo st w = (err, st', w')" "ed_inv st"
  shows "ed_inv st'"
proof -
  have "ed_inv (st\<lparr>event_disp_db := map (clear_row f) (event_disp_db st)\<rparr>)" if "event_disp_init st" for f
    using assms(2) ed_inv_rows [OF assms(2) that]
    by (intro ed_inv_db) (auto simp: ed_inv_def ed_sizes_def)
  then show ?thesis
    using api_close_state [OF assms(1)] assms(2) by (auto intro!: ed_inv_close_fd)
qed

section \<open>Generation, reception, start and stop\<close>

lemma generate_state:
  assumes "event_disp_api_generate_event_mode os e d n mode no_copy st w = (err, d', st', w')"
  shows "st' = st \<or> event_in_range e \<and> st' = st\<lparr>event_disp_gen_counter := (event_disp_gen_counter st)
      [nat e := event_disp_gen_counter st ! nat e + 1],
      event_disp_total_gen_counter := event_disp_total_gen_counter st + 1\<rparr>"
  using assms unfolding event_disp_api_generate_event_mode_def
  by (auto simp: Let_def event_in_range_def split: if_splits prod.splits)

definition received :: "int \<Rightarrow> event_disp_state \<Rightarrow> event_disp_state" where
  "received e st = (if event_in_range e then count_rcv e st else st)
     \<lparr>event_disp_total_rcv_counter := event_disp_total_rcv_counter st + 1\<rparr>"

lemma get_event_state:
  assumes "event_disp_api_get_event os fd msg st w = (err, msg', st', w')"
  shows "st' = st \<or> (\<exists>e. st' = received e st)"
proof (cases "os_recv os fd msg_len w")
  case (Pair r w1)
  show ?thesis
  proof (cases "(msg, r)")
    case (Pair mo ro)
    with assms \<open>os_recv os fd msg_len w = (r, w1)\<close> show ?thesis
      by (cases mo; cases ro)
        (auto simp: event_disp_api_get_event_def Let_def received_def event_in_range_def count_rcv_def
          split: if_splits intro!: exI [of _ "bytes_int (overlay (the ro) (the mo))"])
  qed
qed

lemma get_event_to_user_buf_state:
  assumes "event_disp_api_get_event_to_user_buf os fd msg n st w = (err, msg', st', w')"
  shows "st' = st \<or> (\<exists>e. st' = received e st)"
proof (cases "os_recv os fd n w")
  case (Pair r w1)
  show ?thesis
  proof (cases "(msg, r)")
    case (Pair mo ro)
    with assms \<open>os_recv os fd n w = (r, w1)\<close> show ?thesis
      by (cases mo; cases ro)
        (auto simp: event_disp_api_get_event_to_user_buf_def Let_def received_def event_in_range_def
          count_rcv_def split: if_splits intro!: exI [of _ "bytes_int (overlay (the ro) (the mo))"])
  qed
qed

lemma received_simps [simp]:
  "event_disp_con (received e st) = event_disp_con st"
  "event_disp_init (received e st) = event_disp_init st"
  "ed_inv (received e st) = ed_inv st"
  by (simp_all add: received_def count_rcv_def ed_defs)

lemma deinit_state:
  assumes "event_disp_api_deinit os st w = (err, st', w')"
  shows "st' = st \<or> (\<exists>st1. st' = (event_disp_reset st1)\<lparr>event_disp_init := False\<rparr>)"
  using assms unfolding event_disp_api_deinit_def
  by (auto simp: Let_def split: if_splits prod.splits)

lemma init_state:
  assumes "event_disp_api_init os st w = (err, st', w')"
  shows "st' = st \<or> st' = event_disp_reset st \<or> st' = (event_disp_reset st)\<lparr>event_disp_init := True\<rparr>"
  using assms unfolding event_disp_api_init_def
  by (auto simp: Let_def split: if_splits prod.splits)

section \<open>The library as a state machine\<close>

text \<open>
  One rule per call that changes the library's state, and one for everything outside the
  library. \<open>ed_use\<close> has the calls a client makes between start and stop.
\<close>

inductive ed_use :: "'w os_calls \<Rightarrow> event_disp_state \<times> 'w \<Rightarrow> event_disp_state \<times> 'w \<Rightarrow> bool" for os where
  use_open: "event_disp_api_open os fo st w = (err, fo', st', w') \<Longrightarrow> ed_use os (st, w) (st', w')"
| use_close: "event_disp_api_close os fo st w = (err, st', w') \<Longrightarrow> ed_use os (st, w) (st', w')"
| use_register: "event_disp_api_register_events os fo prio eo n st w = (err, st', w') \<Longrightarrow>
    ed_use os (st, w) (st', w')"
| use_unregister: "event_disp_api_unregister_events os fo eo n st w = (err, st', w') \<Longrightarrow>
    ed_use os (st, w) (st', w')"
| use_generate: "event_disp_api_generate_event_mode os e d k mode no_copy st w = (err, d', st', w') \<Longrightarrow>
    ed_use os (st, w) (st', w')"
| use_get: "event_disp_api_get_event os fd msg st w = (err, msg', st', w') \<Longrightarrow> ed_use os (st, w) (st', w')"
| use_get_to_buf: "event_disp_api_get_event_to_user_buf os fd msg k st w = (err, msg', st', w') \<Longrightarrow>
    ed_use os (st, w) (st', w')"
| use_world: "ed_use os (st, w) (st, w')"

inductive ed_step :: "'w os_calls \<Rightarrow> event_disp_state \<times> 'w \<Rightarrow> event_disp_state \<times> 'w \<Rightarrow> bool" for os where
  step_use: "ed_use os s s' \<Longrightarrow> ed_step os s s'"
| step_init: "event_disp_api_init os st w = (err, st', w') \<Longrightarrow> ed_step os (st, w) (st', w')"
| step_deinit: "event_disp_api_deinit os st w = (err, st', w') \<Longrightarrow> ed_step os (st, w) (st', w')"

inductive ed_reach :: "'w os_calls \<Rightarrow> event_disp_state \<times> 'w \<Rightarrow> bool" for os where
  reach_boot: "ed_reach os (ed_boot, w)"
| reach_step: "ed_reach os s \<Longrightarrow> ed_step os s s' \<Longrightarrow> ed_reach os s'"

lemma ed_use_inv:
  assumes "ed_use os s s'" "os_socket_ok os" "ed_inv (fst s)"
  shows "ed_inv (fst s')"
  using assms
proof (induction rule: ed_use.induct)
  case (use_open fo st w err fo' st' w')
  then show ?case using ed_inv_open by fastforce
next
  case (use_close fo st w err st' w')
  then show ?case using ed_inv_close by fastforce
next
  case (use_register fo prio eo n st w err st' w')
  then show ?case using register_steps [OF use_register.hyps] db_steps_inv by fastforce
next
  case (use_unregister fo eo n st w err st' w')
  then show ?case using unregister_steps [OF use_unregister.hyps] db_steps_inv by fastforce
next
  case (use_generate e d k mode no_copy st w err d' st' w')
  then show ?case using generate_state [OF use_generate.hyps] by (auto simp: ed_defs)
next
  case (use_get fd msg st w err msg' st' w')
  then show ?case using get_event_state [OF use_get.hyps] by auto
next
  case (use_get_to_buf fd msg k st w err msg' st' w')
  then show ?case using get_event_to_user_buf_state [OF use_get_to_buf.hyps] by auto
qed simp

lemma ed_step_inv:
  assumes "ed_step os s s'" "os_socket_ok os" "ed_inv (fst s)"
  shows "ed_inv (fst s')"
  using assms
proof (induction rule: ed_step.induct)
  case (step_use s s')
  then show ?case using ed_use_inv by blast
next
  case (step_init st w err st' w')
  then show ?case using init_state [OF step_init.hyps] ed_inv_reset by auto
next
  case (step_deinit st w err st' w')
  then show ?case using deinit_state [OF step_deinit.hyps] by auto
qed

lemma ed_reach_inv:
  assumes "ed_reach os s" "os_socket_ok os"
  shows "ed_inv (fst s)"
  using assms by (induction rule: ed_reach.induct) (auto simp: ed_inv_boot intro: ed_step_inv)

end
