(* ===== verification/Event_Disp_Ops.thy ===== *)
theory Event_Disp_Ops
  imports Event_Disp_Inv
begin

text \<open>
  What the dispatcher's operations do, seen by their callers: who is registered after
  registration and its removal, which datagrams a generated event sends, what arrives at the
  receiver, which descriptors a stop closes, and how the count of connections evolves.
\<close>

section \<open>Registration\<close>

lemma update_row_registered:
  assumes "event_in_range e" "ed_sizes st"
  shows "event_disp_db (update_row g e' st) ! nat e =
    (if e' = e then g (event_disp_db st ! nat e) else event_disp_db st ! nat e)"
  using assms by (auto simp: update_row_def event_in_range_def ed_sizes_def nth_list_update)

lemma update_row_sizes:
  assumes "ed_sizes st" "\<And>row. length (g row) = length row"
  shows "ed_sizes (update_row g e st)"
proof (cases "event_in_range e")
  case True
  then have "nat e < length (event_disp_db st)"
    using assms(1) by (auto simp: event_in_range_def ed_sizes_def)
  then have "\<forall>row\<in>set ((event_disp_db st)[nat e := g (event_disp_db st ! nat e)]).
      length row = EVENT_DISP_MAX_CON"
    using assms set_update_subset_insert [of "event_disp_db st" "nat e" "g (event_disp_db st ! nat e)"]
    by (auto simp: ed_sizes_def dest!: subsetD)
  with True assms(1) show ?thesis by (simp add: update_row_def ed_sizes_def)
qed (use assms in \<open>simp add: update_row_def\<close>)

lemma fold_update_row_once:
  assumes "event_in_range e" "ed_sizes st" "distinct es" "\<And>row. length (g row) = length row"
  shows "event_disp_db (fold (update_row g) es st) ! nat e =
      (if e \<in> set es then g (event_disp_db st ! nat e) else event_disp_db st ! nat e) \<and>
    ed_sizes (fold (update_row g) es st)"
  using assms(2,3)
proof (induction es arbitrary: st)
  case (Cons e' es)
  have "ed_sizes (update_row g e' st)"
    using Cons.prems(1) assms(4) by (rule update_row_sizes)
  from Cons.IH [OF this] Cons.prems show ?case
    by (auto simp: update_row_registered [OF assms(1)])
qed simp

lemma fold_update_row_idem:
  assumes "event_in_range e" "ed_sizes st" "\<And>row. g (g row) = g row" "\<And>row. length (g row) = length row"
  shows "event_disp_db (fold (update_row g) es st) ! nat e =
      (if e \<in> set es then g (event_disp_db st ! nat e) else event_disp_db st ! nat e) \<and>
    ed_sizes (fold (update_row g) es st)"
  using assms(2)
proof (induction es arbitrary: st)
  case (Cons e' es)
  have "ed_sizes (update_row g e' st)"
    using Cons.prems assms(4) by (rule update_row_sizes)
  from Cons.IH [OF this] Cons.prems show ?case
    by (simp add: update_row_registered [OF assms(1)] assms(3))
qed simp

lemma length_clear_row [simp]: "length (clear_row f row) = length row"
  by (simp add: clear_row_def)

lemma clear_row_idem: "clear_row f (clear_row f row) = clear_row f row"
  by (induction row) (auto simp: clear_row_def)

lemma unregister_effect:
  assumes run: "event_disp_api_unregister_events os (Some f) (Some es) n st w =
      (EVENT_DISP_STATUS_SUCCESS, st', w')"
    and "ed_sizes st" "event_in_range e"
  shows "registered st' e = (if e \<in> set (take (unat n) es)
      then filter (\<lambda>fd. \<not> is_client_fd f fd) (registered st e) else registered st e)"
proof -
  have "st' = fold (update_row (clear_row f)) (take (unat n) es) st"
    using run by (auto elim: unregister_success)
  then show ?thesis
    using fold_update_row_idem [OF assms(3,2) clear_row_idem [of f] length_clear_row [of f]]
    by (simp add: registered_def used_clear_row)
qed

lemma row_length:
  "ed_sizes st \<Longrightarrow> event_in_range e \<Longrightarrow> length (event_disp_db st ! nat e) = EVENT_DISP_MAX_CON"
  by (auto simp: ed_sizes_def event_in_range_def)

lemma register_effect:
  assumes run: "event_disp_api_register_events os (Some f) prio (Some es) n st w =
      (EVENT_DISP_STATUS_SUCCESS, st', w')"
    and sz: "ed_sizes st" and e: "event_in_range e" and d: "distinct (take (unat n) es)"
  defines "others \<equiv> filter (\<lambda>fd. \<not> is_client_fd f fd) (registered st e)"
  shows "mset (registered st' e) =
    (if e \<notin> set (take (unat n) es) then mset (registered st e)
     else if length others < EVENT_DISP_MAX_CON then add_mset (the (prio_fd prio f)) (mset others)
     else mset others)"
proof -
  let ?es = "take (unat n) es"
  obtain fd where fd: "prio_fd prio f = Some fd" "fd \<ge> 0"
    and st': "st' = fold (update_row (set_first (-1) fd)) ?es (fold (update_row (clear_row f)) ?es st)"
    using run by (auto elim: register_success)
  let ?st1 = "fold (update_row (clear_row f)) ?es st"
  let ?row = "event_disp_db ?st1 ! nat e"
  note one = fold_update_row_idem [OF e sz clear_row_idem [of f] length_clear_row [of f], of ?es]
  have two: "event_disp_db st' ! nat e = (if e \<in> set ?es then set_first (-1) fd ?row else ?row)"
    unfolding st' using fold_update_row_once [OF e _ d, of ?st1 "set_first (-1) fd"] one by simp
  have "length ?row = EVENT_DISP_MAX_CON"
    using row_length one e by blast
  then have free: "-1 \<in> set ?row \<longleftrightarrow> length (used ?row) < EVENT_DISP_MAX_CON"
    using used_full [of ?row] length_filter_le [of "\<lambda>fd. fd \<noteq> -1" ?row] unfolding used_def
    by linarith
  show ?thesis
  proof (cases "e \<in> set ?es")
    case True
    then have "used ?row = others"
      using one by (simp add: others_def registered_def used_clear_row)
    with True two free fd show ?thesis
      using used_set_free [of fd ?row] by (simp add: registered_def)
  next
    case False
    with one two show ?thesis by (simp add: registered_def)
  qed
qed

section \<open>Connections\<close>

text \<open>
  Between start and stop the count of connections never goes down: closing a connection does
  not give it back. Once the limit is reached, every later attempt to open fails.
\<close>

lemma open_socket_con:
  "event_disp_open_socket os st w = (err, fd, st', w') \<Longrightarrow>
   event_disp_con st' = event_disp_con st \<and> event_disp_init st' = event_disp_init st"
  by (auto simp: event_disp_open_socket_def Let_def split: if_splits prod.splits)

lemma open_fail_con:
  "open_fail os err lk fo st w = (err', fo', st', w') \<Longrightarrow>
   event_disp_con st' = event_disp_con st \<and> event_disp_init st' = event_disp_init st"
  by (auto dest!: open_fail_state split: option.splits)

lemma api_open_con:
  assumes "event_disp_api_open os fo st w = (err, fo', st', w')"
  shows "event_disp_init st' = event_disp_init st \<and> (event_disp_con st' = event_disp_con st \<or>
    event_disp_con st < of_nat EVENT_DISP_MAX_CON \<and> event_disp_con st' = event_disp_con st + 1)"
  using assms unfolding event_disp_api_open_def
  by (auto simp: Let_def not_le dest!: open_fail_con open_socket_con
      split: if_splits option.splits prod.splits)

lemma con_step: "(c :: u32) < of_nat EVENT_DISP_MAX_CON \<Longrightarrow> c \<le> c + 1"
  by (simp add: EVENT_DISP_MAX_CON_def word_le_nat_alt word_less_nat_alt unat_word_ariths)

lemma db_steps_con:
  "db_steps st st' \<Longrightarrow> event_disp_con st' = event_disp_con st \<and> event_disp_init st' = event_disp_init st"
  by (induction rule: db_steps.induct) auto

lemma ed_use_con:
  assumes "ed_use os s s'"
  shows "event_disp_con (fst s) \<le> event_disp_con (fst s') \<and>
    event_disp_init (fst s') = event_disp_init (fst s)"
  using assms
proof (induction rule: ed_use.induct)
  case (use_open fo st w err fo' st' w')
  then show ?case using api_open_con con_step by fastforce
next
  case (use_close fo st w err st' w')
  then show ?case by (auto dest!: api_close_state)
next
  case (use_register fo prio eo n st w err st' w')
  then show ?case by (auto dest!: register_steps db_steps_con)
next
  case (use_unregister fo eo n st w err st' w')
  then show ?case by (auto dest!: unregister_steps db_steps_con)
next
  case (use_generate e d k mode no_copy st w err d' st' w')
  then show ?case using generate_state [OF use_generate.hyps] by auto
next
  case (use_get fd msg st w err msg' st' w')
  then show ?case using get_event_state [OF use_get.hyps] by auto
next
  case (use_get_to_buf fd msg k st w err msg' st' w')
  then show ?case using get_event_to_user_buf_state [OF use_get_to_buf.hyps] by auto
qed simp

lemma ed_uses_con:
  assumes "(ed_use os)\<^sup>*\<^sup>* s s'"
  shows "event_disp_con (fst s) \<le> event_disp_con (fst s') \<and>
    event_disp_init (fst s') = event_disp_init (fst s)"
  using assms by (induction rule: rtranclp_induct) (auto dest: ed_use_con)

lemma open_at_limit:
  assumes "event_disp_init st" "of_nat EVENT_DISP_MAX_CON \<le> event_disp_con st"
    and "fst (os_mutex_lock os w)" "event_disp_api_open os (Some f) st w = (err, fo, st', w')"
  shows "err = EVENT_DISP_STATUS_MAX_CONNETIONS"
  using assms unfolding event_disp_api_open_def
  by (auto simp: Let_def dest!: open_fail_state split: prod.splits)

section \<open>Generation\<close>

text \<open>
  What generation relies on: the mutex is taken, sockets are created, set up and closed, and
  every attempt to send is recorded in \<open>log\<close> together with its result, whether or not it
  succeeds.
\<close>

definition os_sends :: "'w os_calls \<Rightarrow> ('w \<Rightarrow> (string \<times> u8 list \<times> send_result) list) \<Rightarrow> bool" where
  "os_sends os log \<longleftrightarrow> (\<forall>w.
     fst (os_mutex_lock os w) \<and> log (snd (os_mutex_lock os w)) = log w \<and>
     log (snd (os_mutex_unlock os w)) = log w \<and>
     fst (os_socket os w) \<noteq> -1 \<and> log (snd (os_socket os w)) = log w \<and>
     (\<forall>fd. fst (os_close os fd w) \<noteq> -1 \<and> log (snd (os_close os fd w)) = log w \<and>
        fst (os_set_nonblock os fd w) \<noteq> -1 \<and> log (snd (os_set_nonblock os fd w)) = log w) \<and>
     (\<forall>fd buf path. log (snd (os_sendto os fd buf path w)) = log w @ [(path, buf, fst (os_sendto os fd buf path w))]))"

definition datagrams ::
  "'w os_calls \<Rightarrow> u8 list \<Rightarrow> int list \<Rightarrow> send_result list \<Rightarrow> (string \<times> u8 list \<times> send_result) list" where
  "datagrams os buf fds rs = map2 (\<lambda>fd r. (sock_path fd (os_getpid os), buf, r)) fds rs"

text \<open>The result of the sends: an error when one of them failed for another reason than \<^verbatim>\<open>EAGAIN\<close>.\<close>

definition send_status :: "event_disp_status_t \<Rightarrow> send_result list \<Rightarrow> event_disp_status_t" where
  "send_status serr rs = (if SEND_FAILED \<in> set rs then EVENT_DISP_STATUS_SEND_ERROR else serr)"

lemma os_sendsD:
  assumes "os_sends os log"
  shows "fst (os_mutex_lock os w)" "log (snd (os_mutex_lock os w)) = log w"
    "log (snd (os_mutex_unlock os w)) = log w"
    "fst (os_socket os w) \<noteq> -1" "log (snd (os_socket os w)) = log w"
    "fst (os_close os fd w) \<noteq> -1" "log (snd (os_close os fd w)) = log w"
    "fst (os_set_nonblock os fd w) \<noteq> -1" "log (snd (os_set_nonblock os fd w)) = log w"
    "log (snd (os_sendto os fd buf path w)) = log w @ [(path, buf, fst (os_sendto os fd buf path w))]"
  using assms unfolding os_sends_def by blast+

lemma generate_loop_sends:
  assumes "os_sends os log"
  shows "generate_loop os mode buf fds s0 serr w = (err, serr', s1, w') \<Longrightarrow>
    \<exists>rs. length rs = length (used fds) \<and> err = EVENT_DISP_STATUS_SUCCESS \<and> serr' = send_status serr rs \<and>
      log w' = log w @ datagrams os buf (used fds) rs"
proof (induction fds arbitrary: s0 serr w)
  case Nil
  then show ?case by (simp add: datagrams_def used_def send_status_def)
next
  case (Cons fd fds)
  define w1 where "w1 = snd (if s0 \<noteq> -1 then os_close os s0 w else (0, w))"
  have w1: "log w1 = log w" "(if s0 \<noteq> -1 then os_close os s0 w else (0, w)) =
      (fst (if s0 \<noteq> -1 then os_close os s0 w else (0, w)), w1)"
    by (simp_all add: w1_def os_sendsD [OF assms])
  show ?case
  proof (cases "fd = -1")
    case True
    have "generate_loop os mode buf fds (-1) serr w1 = (err, serr', s1, w')"
      using Cons.prems(1) True os_sendsD(6) [OF assms, of s0 w]
      by (auto simp: w1_def Let_def split: prod.splits if_splits)
    from Cons.IH [OF this] show ?thesis
      using True w1 by (simp add: used_def)
  next
    case False
    obtain s w2 where s: "os_socket os w1 = (s, w2)" by fastforce
    define w3 where "w3 = snd (if mode = EVENT_SEND_NON_BLOCKING_MODE then os_set_nonblock os s w2 else (0, w2))"
    obtain r w4 where r: "os_sendto os s buf (sock_path fd (os_getpid os)) w3 = (r, w4)" by fastforce
    have "generate_loop os mode buf fds s
        (if r = SEND_FAILED then EVENT_DISP_STATUS_SEND_ERROR else serr) w4 = (err, serr', s1, w')"
      using Cons.prems(1) False os_sendsD(6) [OF assms, of s0 w] os_sendsD(4) [OF assms, of w1]
        os_sendsD(8) [OF assms, of s w2] s r
      by (auto simp: w1_def w3_def Let_def split: prod.splits if_splits)
    from Cons.IH [OF this] obtain rs where "length rs = length (used fds)" "err = EVENT_DISP_STATUS_SUCCESS"
      "serr' = send_status (if r = SEND_FAILED then EVENT_DISP_STATUS_SEND_ERROR else serr) rs"
      "log w' = log w4 @ datagrams os buf (used fds) rs"
      by auto
    moreover have "log w4 = log w @ [(sock_path fd (os_getpid os), buf, r)]"
      using os_sendsD(10) [OF assms, of s buf "sock_path fd (os_getpid os)" w3]
        os_sendsD(5) [OF assms, of w1] os_sendsD(9) [OF assms, of s w2] s r w1(1)
      by (simp add: w3_def split: if_splits)
    ultimately show ?thesis
      using False by (auto simp: datagrams_def used_def send_status_def intro!: exI [of _ "r # rs"])
  qed
qed

lemma generate_sends:
  assumes "os_sends os log" "event_disp_init st" "event_in_range e"
    and "no_copy = EVENT_SEND_WITH_COPY \<longrightarrow> n \<le> of_nat EVENT_DISP_MAX_BUFF_LEN"
    and run: "event_disp_api_generate_event_mode os e d n mode no_copy st w = (err, d', st', w')"
  shows "\<exists>rs. length rs = length (registered st e) \<and> err = send_status EVENT_DISP_STATUS_SUCCESS rs \<and>
      log w' = log w @ datagrams os (send_buff no_copy e d' n) (registered st e) rs"
    "d' = prepare_buff no_copy e d n"
    "st' = st\<lparr>event_disp_gen_counter := (event_disp_gen_counter st)
        [nat e := event_disp_gen_counter st ! nat e + 1],
      event_disp_total_gen_counter := event_disp_total_gen_counter st + 1\<rparr>"
proof -
  let ?d = "prepare_buff no_copy e d n"
  obtain w1 where w1: "os_mutex_lock os w = (True, w1)" "log w1 = log w"
    using os_sendsD(1,2) [OF assms(1), of w] by (metis (full_types) prod.collapse)
  obtain e1 se s w2 where loop: "generate_loop os mode (send_buff no_copy e ?d n)
      (event_disp_db st ! nat e) (-1) EVENT_DISP_STATUS_SUCCESS w1 = (e1, se, s, w2)"
    by (metis prod_cases4)
  have range: "\<not> (e \<ge> int EVENT_DISP_MAX_EVENTS \<or> e < 0)"
    "\<not> (no_copy = EVENT_SEND_WITH_COPY \<and> n > of_nat EVENT_DISP_MAX_BUFF_LEN)"
    using assms(3,4) by (auto simp: event_in_range_def)
  from generate_loop_sends [OF assms(1) loop] obtain rs where
    ls: "length rs = length (registered st e)" "e1 = EVENT_DISP_STATUS_SUCCESS"
      "se = send_status EVENT_DISP_STATUS_SUCCESS rs"
      "log w2 = log w1 @ datagrams os (send_buff no_copy e ?d n) (registered st e) rs"
    by (auto simp: registered_def)
  have all: "(err, d', st', w') = (first_err e1 se, ?d, st\<lparr>event_disp_gen_counter := (event_disp_gen_counter st)
        [nat e := event_disp_gen_counter st ! nat e + 1],
      event_disp_total_gen_counter := event_disp_total_gen_counter st + 1\<rparr>,
      snd (os_mutex_unlock os (if s \<noteq> -1 then snd (os_close os s w2) else w2)))"
    using run ls assms(2) range w1(1) loop
    by (simp add: event_disp_api_generate_event_mode_def Let_def del: de_Morgan_conj de_Morgan_disj)
  then show "d' = ?d"
    "st' = st\<lparr>event_disp_gen_counter := (event_disp_gen_counter st)
        [nat e := event_disp_gen_counter st ! nat e + 1],
      event_disp_total_gen_counter := event_disp_total_gen_counter st + 1\<rparr>"
    by auto
  have "log w' = log w @ datagrams os (send_buff no_copy e d' n) (registered st e) rs"
    "err = send_status EVENT_DISP_STATUS_SUCCESS rs"
    using all ls w1(2) os_sendsD(3) [OF assms(1)] os_sendsD(7) [OF assms(1)]
    by (simp_all add: first_err_def)
  with ls(1) show "\<exists>rs. length rs = length (registered st e) \<and> err = send_status EVENT_DISP_STATUS_SUCCESS rs \<and>
      log w' = log w @ datagrams os (send_buff no_copy e d' n) (registered st e) rs" by blast
qed

section \<open>Reception\<close>

lemma u32_from_bytes:
  "or (ucast (ucast x :: u8)) (push_bit 8 (or (ucast (ucast (drop_bit 8 x) :: u8))
    (push_bit 8 (or (ucast (ucast (drop_bit 16 x) :: u8)) (push_bit 8 (ucast (ucast (drop_bit 24 x) :: u8)))))))
   = (x :: u32)" (is "?l = _")
proof (rule bit_word_eqI)
  fix n :: nat
  assume "n < LENGTH(32)"
  then show "bit ?l n \<longleftrightarrow> bit x n"
    by (cases "n < 8"; cases "n < 16"; cases "n < 24") (auto simp: bit_simps)
qed

lemma bytes_int_int_bytes:
  assumes "event_in_range e"
  shows "bytes_int (int_bytes e @ d) = e"
proof -
  have "bytes_int (int_bytes e @ d) = sint (word_of_int e :: u32)"
    using u32_from_bytes [of "word_of_int e"] by (simp add: bytes_int_def int_bytes_def)
  also have "\<dots> = e"
    using assms by (simp add: event_in_range_def EVENT_DISP_MAX_EVENTS_def signed_of_int signed_take_bit_int_eq_self)
  finally show ?thesis .
qed

lemma length_int_bytes [simp]: "length (int_bytes e) = 4"
  by (simp add: int_bytes_def)

text \<open>
  A receiver that is handed the bytes of a message sent with copy reads the event number and
  the data, and counts the event.
\<close>

lemma get_event_message:
  assumes "event_in_range e" "fd \<ge> 0" "length d \<ge> unat n" "n \<noteq> 0"
    and "os_recv os fd msg_len w = (Some (send_buff EVENT_SEND_WITH_COPY e (Some d) n), w')"
  shows "event_disp_api_get_event os fd (Some old) st w =
    (EVENT_DISP_STATUS_SUCCESS, Some (int_bytes e @ take (unat n) d @ drop (4 + unat n) old),
     received e st, w')"
proof -
  let ?bs = "int_bytes e @ take (unat n) d"
  have bs: "send_buff EVENT_SEND_WITH_COPY e (Some d) n = ?bs"
    using assms(4) by (simp add: send_buff_def)
  have ov: "overlay ?bs old = int_bytes e @ take (unat n) d @ drop (4 + unat n) old"
    using assms(3) by (simp add: overlay_def min_absorb2 add.commute)
  have "\<not> (e \<ge> int EVENT_DISP_MAX_EVENTS \<or> e < 0)"
    using assms(1) by (auto simp: event_in_range_def)
  moreover have "bytes_int (overlay ?bs old) = e"
    unfolding ov by (rule bytes_int_int_bytes [OF assms(1)])
  ultimately show ?thesis
    using assms(1,2,5) by (simp add: event_disp_api_get_event_def bs ov Let_def received_def count_rcv_def
        del: de_Morgan_disj)
qed

section \<open>Socket names\<close>

lemma decimal_digits: "c \<in> set (decimal n) \<Longrightarrow> of_char c \<in> {48..<58::nat}"
proof (induction n rule: decimal.induct)
  case (1 n)
  have digit: "of_char (digit_char d) \<in> {48..<58::nat}" if "d < 10" for d
    using that by (simp add: digit_char_def take_bit_nat_eq_self)
  show ?case
  proof (cases "n < 10")
    case True
    then show ?thesis using 1(2) digit by (simp add: decimal.simps [of n])
  next
    case False
    then show ?thesis using 1(1) [OF False] 1(2) digit [of "n mod 10"] by (auto simp: decimal.simps [of n])
  qed
qed

lemma digit_char_inj: "a < 10 \<Longrightarrow> b < 10 \<Longrightarrow> digit_char a = digit_char b \<longleftrightarrow> a = b"
  by (simp add: digit_char_def char_of_eq_iff take_bit_nat_eq_self)

lemma decimal_inj: "decimal a = decimal b \<Longrightarrow> a = b"
proof (induction a arbitrary: b rule: decimal.induct)
  case (1 a)
  have nonempty: "decimal n \<noteq> []" "[] \<noteq> decimal n" for n by (subst decimal.simps, simp)+
  show ?case
  proof (cases "a < 10"; cases "b < 10")
    assume "a < 10" "b < 10"
    with 1(2) show ?thesis
      by (simp add: decimal.simps [of a] decimal.simps [of b] digit_char_inj)
  next
    assume "\<not> a < 10" "\<not> b < 10"
    with 1(2) have "decimal (a div 10) = decimal (b div 10)" "digit_char (a mod 10) = digit_char (b mod 10)"
      by (simp_all add: decimal.simps [of a] decimal.simps [of b])
    with 1(1) [OF \<open>\<not> a < 10\<close>, of "b div 10"] have "a div 10 = b div 10" "a mod 10 = b mod 10"
      by (simp_all add: digit_char_inj)
    then show ?thesis by (metis div_mult_mod_eq)
  next
    assume "a < 10" "\<not> b < 10"
    with 1(2) nonempty show ?thesis
      by (simp add: decimal.simps [of a] decimal.simps [of b] append_eq_Cons_conv)
  next
    assume "\<not> a < 10" "b < 10"
    with 1(2) nonempty show ?thesis
      by (simp add: decimal.simps [of a] decimal.simps [of b] append_eq_Cons_conv)
  qed
qed

lemma length_decimal: "n < 10 ^ k \<Longrightarrow> 0 < k \<Longrightarrow> length (decimal n) \<le> k"
proof (induction k arbitrary: n)
  case (Suc k)
  show ?case
  proof (cases "n < 10")
    case True
    then show ?thesis by (subst decimal.simps) simp
  next
    case False
    then have "0 < k" using Suc.prems by (cases k) auto
    with Suc False have "length (decimal (n div 10)) \<le> k"
      by (simp add: less_mult_imp_div_less mult.commute)
    with False show ?thesis by (subst decimal.simps) simp
  qed
qed simp

definition is_int32 :: "int \<Rightarrow> bool" where
  "is_int32 i \<longleftrightarrow> - (2 ^ 31) \<le> i \<and> i < 2 ^ 31"

lemma length_print_int:
  assumes "is_int32 i"
  shows "length (print_int i) \<le> 11"
proof -
  have "nat \<bar>i\<bar> < 10 ^ 10"
    using assms by (auto simp: is_int32_def)
  then have "length (decimal (nat \<bar>i\<bar>)) \<le> 10"
    by (rule length_decimal) simp
  then show ?thesis by (auto simp: print_int_def)
qed

lemma decimal_not_minus: "decimal n \<noteq> CHR ''-'' # xs"
  using decimal_digits [of "CHR ''-''" n] by auto

lemma print_int_inj: "print_int i = print_int j \<Longrightarrow> i = j"
  using decimal_not_minus [of "nat i"] decimal_not_minus [of "nat j", symmetric]
  by (auto simp: print_int_def dest!: decimal_inj split: if_splits)

lemma print_int_chars: "CHR ''_'' \<notin> set (print_int i)"
  using decimal_digits [of "CHR ''_''"] by (auto simp: print_int_def)

text \<open>A name is never cut off, so different descriptors of a process have different names.\<close>

lemma sock_path_full:
  assumes "is_int32 fd" "is_int32 pid"
  shows "sock_path fd pid = EVENT_DISP_SOCK_PATH_PREFIX @ print_int fd @ CHR ''_'' # print_int pid"
    "length (sock_path fd pid) < EVENT_DISP_SOCK_PATH_LEN"
  using length_print_int [OF assms(1)] length_print_int [OF assms(2)]
  by (simp_all add: sock_path_def EVENT_DISP_SOCK_PATH_LEN_def EVENT_DISP_SOCK_PATH_PREFIX_def)

lemma sock_path_inj:
  assumes "is_int32 fd" "is_int32 pid" "is_int32 fd'" "is_int32 pid'"
  shows "sock_path fd pid = sock_path fd' pid' \<longleftrightarrow> fd = fd' \<and> pid = pid'"
proof
  assume "sock_path fd pid = sock_path fd' pid'"
  then have eq: "print_int fd @ CHR ''_'' # print_int pid = print_int fd' @ CHR ''_'' # print_int pid'"
    by (simp add: sock_path_full assms)
  then have "takeWhile (\<lambda>c. c \<noteq> CHR ''_'') (print_int fd @ CHR ''_'' # print_int pid) =
      takeWhile (\<lambda>c. c \<noteq> CHR ''_'') (print_int fd' @ CHR ''_'' # print_int pid')"
    by simp
  then have "print_int fd = print_int fd'"
    using print_int_chars [of fd] print_int_chars [of fd'] by (auto simp: takeWhile_append split: if_splits)
  with eq show "fd = fd' \<and> pid = pid'"
    by (auto dest: print_int_inj)
qed simp

section \<open>Stopping\<close>

text \<open>What stopping relies on: \<open>closed\<close> records the descriptors handed to \<^verbatim>\<open>close\<close>.\<close>

definition os_closes :: "'w os_calls \<Rightarrow> ('w \<Rightarrow> int list) \<Rightarrow> bool" where
  "os_closes os closed \<longleftrightarrow> (\<forall>w.
     (\<forall>fd. closed (snd (os_close os fd w)) = closed w @ [fd]) \<and>
     (\<forall>path. closed (os_unlink os path w) = closed w) \<and>
     closed (snd (os_mutex_destroy os w)) = closed w)"

lemma os_closesD:
  assumes "os_closes os closed"
  shows "closed (snd (os_close os fd w)) = closed w @ [fd]" "closed (os_unlink os path w) = closed w"
    "closed (snd (os_mutex_destroy os w)) = closed w"
  using assms by (simp_all add: os_closes_def)

lemma close_socket_closes:
  assumes "os_closes os closed" "fd \<ge> 0" "event_disp_close_socket os fd st w = (err, st', w')"
  shows "closed w' = closed w @ [fd]"
  using assms os_closesD [OF assms(1)]
  by (auto simp: event_disp_close_socket_def Let_def split: prod.splits) (metis snd_conv)

lemma set_first_prefix:
  "\<forall>x\<in>set xs. x < 0 \<Longrightarrow> 0 \<le> v \<Longrightarrow> set_first v v' (xs @ v # ys) = xs @ v' # ys"
  by (induction xs) auto

lemma deinit_loop_closes:
  assumes "os_closes os closed"
  shows "event_disp_fds st = ps @ fds \<Longrightarrow> \<forall>x\<in>set ps. x < 0 \<Longrightarrow>
    deinit_close_loop os [length ps..<length (ps @ fds)] err st w = (err', st', w') \<Longrightarrow>
    closed w' = closed w @ filter (\<lambda>fd. fd \<ge> 0) fds"
proof (induction fds arbitrary: ps st err w)
  case (Cons fd fds)
  have split: "[length ps..<length (ps @ fd # fds)] =
      length ps # [length (ps @ [fd])..<length ((ps @ [fd]) @ fds)]"
    by (simp add: upt_rec)
  show ?case
  proof (cases "fd \<ge> 0")
    case True
    obtain e1 st1 w1 where c: "event_disp_close_socket os fd st w = (e1, st1, w1)"
      by (metis prod_cases3)
    have st1: "event_disp_fds st1 = (ps @ [-1]) @ fds"
      using close_socket_state [OF c] True Cons.prems(1,2) set_first_prefix [of ps fd "-1" fds]
      by (simp add: close_fd_def)
    have "deinit_close_loop os [length (ps @ [-1])..<length ((ps @ [-1]) @ fds)] (first_err err e1) st1 w1 =
        (err', st', w')"
      using Cons.prems(3) True Cons.prems(1) c unfolding split by (simp add: nth_append)
    from Cons.IH [OF st1 _ this] Cons.prems(2) show ?thesis
      using close_socket_closes [OF assms True c] True by auto
  next
    case False
    have "deinit_close_loop os [length (ps @ [fd])..<length ((ps @ [fd]) @ fds)] err st w = (err', st', w')"
      using Cons.prems(3) False Cons.prems(1) unfolding split by (simp add: nth_append)
    from Cons.IH [OF _ _ this] Cons.prems(1,2) False show ?thesis by auto
  qed
qed simp

lemma deinit_closes:
  assumes "os_closes os closed" "event_disp_init st" "ed_sizes st"
    and run: "event_disp_api_deinit os st w = (err, st', w')"
  shows "closed w' = closed w @ filter (\<lambda>fd. fd \<ge> 0) (event_disp_fds st)"
    "st' = (event_disp_reset st)\<lparr>event_disp_init := False\<rparr>"
proof -
  obtain e1 st1 w1 where loop: "deinit_close_loop os [0..<EVENT_DISP_MAX_SOCK]
      EVENT_DISP_STATUS_SUCCESS st w = (e1, st1, w1)"
    by (metis prod_cases3)
  have "closed w1 = closed w @ filter (\<lambda>fd. fd \<ge> 0) (event_disp_fds st)"
    using deinit_loop_closes [OF assms(1), of st "[]" "event_disp_fds st"] loop assms(3)
    by (simp add: ed_sizes_def)
  then show "closed w' = closed w @ filter (\<lambda>fd. fd \<ge> 0) (event_disp_fds st)"
    using run assms(2) loop os_closesD(3) [OF assms(1), of w1]
    by (auto simp: event_disp_api_deinit_def Let_def split: prod.splits)
  show "st' = (event_disp_reset st)\<lparr>event_disp_init := False\<rparr>"
    using run assms(2) loop
    by (auto simp: event_disp_api_deinit_def event_disp_reset_def Let_def split: prod.splits)
qed

end
