(* ===== verification/Commu_Db.thy ===== *)
theory Commu_Db
  imports Complib_Prelude
begin

text \<open>
  The database of the communication library (\<^verbatim>\<open>lib_commu_db.c\<close>): fixed tables of the UDP, TCP
  client and TCP server handles, the status of the servers and their clients, and the listener
  threads. A pointer into a table that a function returns is a location (\<open>handle_loc\<close>). Errors
  are the integers of \<^verbatim>\<open>errno.h\<close>; the mutex, \<^verbatim>\<open>getpeername\<close> and \<^verbatim>\<open>errno\<close> are parameters. A server
  number at or above the table length is outside the array in C; the theorems are about numbers
  below it.
\<close>

section \<open>Data\<close>

definition ENOBUFS :: int where "ENOBUFS = 105"
definition ENOTCONN :: int where "ENOTCONN = 107"
definition ENOKEY :: int where "ENOKEY = 126"

definition INVALID_HANDLE_ID :: int where "INVALID_HANDLE_ID = -1"
definition INVALID_MAGIC :: u32 where "INVALID_MAGIC = -1"
definition UDP_HANDLE_ARR_LENGTH :: nat where "UDP_HANDLE_ARR_LENGTH = 16"
definition TCP_HANDLE_ARR_LENGTH :: nat where "TCP_HANDLE_ARR_LENGTH = 16"
definition NUM_OF_LISTENER_THREADS :: nat where "NUM_OF_LISTENER_THREADS = 16"
definition SERVER_STATUS_ARR_LENGTH :: nat where "SERVER_STATUS_ARR_LENGTH = NUM_OF_LISTENER_THREADS"
definition INVALID_SERVER_ID :: nat where "INVALID_SERVER_ID = SERVER_STATUS_ARR_LENGTH + 1"
definition MAX_CONNECTION_NUM :: nat where "MAX_CONNECTION_NUM = 16"

datatype db_type = UDP_HANDLE_DB | TCP_CLIENT_HANDLE_DB | TCP_SERVER_HANDLE_DB
  | TCP_SERVER_STATUS_HANDLE_DB | LISTENER_THREAD_DB | ANY_HANLDE_DB

datatype handle_op_status = HANDLE_STATUS_DOWN | HANDLE_STATUS_UP

record addr_info =
  port :: u16
  ipv4_addr :: u32

record connection_info =
  s_ipv4_addr :: u32
  s_port :: u16
  d_ipv4_addr :: u32
  d_port :: u16
  msg_type :: u16

record socket_connection_info =
  sk_socket :: int
  sk_state :: u32
  is_single_peer :: u8
  local_magic :: u32
  peer_magic :: u32
  total_sum_bytes_rx :: u64
  total_sum_bytes_tx :: u64

record handle_info =
  handle :: int
  conn_info :: connection_info
  socekt_info :: socket_connection_info

record connection_status =
  cs_handle :: int
  handle_status :: handle_op_status
  local_ipv4_addr :: u32
  local_port :: u16
  peer_ipv4_addr :: u32
  peer_port :: u16

record server_status =
  clients_num :: u32
  client_status :: "connection_status list"
  listener_handle :: int
  listener_status :: handle_op_status

record session_params =
  sp_port :: u16
  sp_s_ipv4_addr :: u32
  sp_msg_type :: u16

datatype udp_role = CONN_SERVER | CONN_CLIENT

record ip_udp_params =
  up_session_params :: session_params
  connection_role :: udp_role
  up_is_single_peer :: u16

record commu_db =
  udp_handle_info :: "handle_info list"
  server_tcp_handle_info :: "handle_info list list"
  client_tcp_handle_info :: "handle_info list"
  server_status_st :: "server_status list"
  listener_threads :: "nat list"
  event_fd :: "int list"
  event_socket_path :: "string list"
  db_verbosity :: nat

text \<open>The address of an entry of one of the handle tables.\<close>

datatype handle_loc = UDP_AT nat | CLIENT_AT nat | SERVER_AT nat nat

text \<open>
  The system: the mutex calls with their result, and \<^verbatim>\<open>getpeername\<close> with its result and the
  \<^verbatim>\<open>errno\<close> it leaves. \<open>'w\<close> is the state of the world.
\<close>

record 'w commu_os =
  co_lock :: "'w \<Rightarrow> int \<times> 'w"
  co_unlock :: "'w \<Rightarrow> int \<times> 'w"
  co_listener_lock :: "'w \<Rightarrow> int \<times> 'w"
  co_listener_unlock :: "'w \<Rightarrow> int \<times> 'w"
  co_mutex_init :: "'w \<Rightarrow> (int \<times> int) \<times> 'w"
  co_mutex_destroy :: "'w \<Rightarrow> (int \<times> int) \<times> 'w"
  co_getpeername :: "int \<Rightarrow> 'w \<Rightarrow> (int \<times> int) \<times> 'w"

section \<open>Searching the tables\<close>

text \<open>The loops that stop at the first entry with a property.\<close>

fun first_idx :: "('a \<Rightarrow> bool) \<Rightarrow> 'a list \<Rightarrow> nat option" where
  "first_idx P [] = None"
| "first_idx P (x # xs) = (if P x then Some 0 else map_option Suc (first_idx P xs))"

definition slot_result :: "nat option \<Rightarrow> int + nat" where
  "slot_result r = (case r of Some i \<Rightarrow> Inr i | None \<Rightarrow> Inl ENOBUFS)"

definition find_empty_slot :: "db_type \<Rightarrow> nat \<Rightarrow> commu_db \<Rightarrow> int + nat" where
  "find_empty_slot type server_idx db =
    (case type of
       UDP_HANDLE_DB \<Rightarrow> slot_result (first_idx (\<lambda>h. handle h = INVALID_HANDLE_ID) (udp_handle_info db))
     | TCP_CLIENT_HANDLE_DB \<Rightarrow>
         slot_result (first_idx (\<lambda>h. handle h = INVALID_HANDLE_ID) (client_tcp_handle_info db))
     | TCP_SERVER_HANDLE_DB \<Rightarrow>
         slot_result (first_idx (\<lambda>h. handle h = INVALID_HANDLE_ID) (server_tcp_handle_info db ! server_idx))
     | TCP_SERVER_STATUS_HANDLE_DB \<Rightarrow>
         slot_result (first_idx (\<lambda>c. cs_handle c = INVALID_HANDLE_ID)
           (client_status (server_status_st db ! server_idx)))
     | LISTENER_THREAD_DB \<Rightarrow> slot_result (first_idx (\<lambda>t. t = 0) (listener_threads db))
     | ANY_HANLDE_DB \<Rightarrow> Inl EINVAL)"

definition find_handle_idx :: "db_type \<Rightarrow> nat \<Rightarrow> int \<Rightarrow> commu_db \<Rightarrow> int + nat" where
  "find_handle_idx handle_type server_id fd db =
    (let result = (\<lambda>r. case r of Some i \<Rightarrow> Inr i | None \<Rightarrow> Inl ENOKEY)
     in case handle_type of
       UDP_HANDLE_DB \<Rightarrow> result (first_idx (\<lambda>h. handle h = fd) (udp_handle_info db))
     | TCP_SERVER_STATUS_HANDLE_DB \<Rightarrow>
         result (first_idx (\<lambda>c. cs_handle c = fd) (client_status (server_status_st db ! server_id)))
     | _ \<Rightarrow> Inl EPERM)"

section \<open>Resets\<close>

definition zero_handle_info :: handle_info where
  "zero_handle_info = \<lparr>handle = 0,
     conn_info = \<lparr>s_ipv4_addr = 0, s_port = 0, d_ipv4_addr = 0, d_port = 0, msg_type = 0\<rparr>,
     socekt_info = \<lparr>sk_socket = 0, sk_state = 0, is_single_peer = 0, local_magic = 0, peer_magic = 0,
       total_sum_bytes_rx = 0, total_sum_bytes_tx = 0\<rparr>\<rparr>"

definition empty_handle_info :: handle_info where
  "empty_handle_info = zero_handle_info\<lparr>handle := INVALID_HANDLE_ID,
     socekt_info := (socekt_info zero_handle_info)\<lparr>peer_magic := INVALID_MAGIC\<rparr>\<rparr>"

definition reset_handle_db :: "db_type \<Rightarrow> nat \<Rightarrow> commu_db \<Rightarrow> int \<times> commu_db" where
  "reset_handle_db handle_type server_id db =
    (case handle_type of
       UDP_HANDLE_DB \<Rightarrow>
         (0, db\<lparr>udp_handle_info := replicate UDP_HANDLE_ARR_LENGTH empty_handle_info\<rparr>)
     | TCP_CLIENT_HANDLE_DB \<Rightarrow>
         (0, db\<lparr>client_tcp_handle_info := replicate TCP_HANDLE_ARR_LENGTH empty_handle_info\<rparr>)
     | TCP_SERVER_HANDLE_DB \<Rightarrow>
         (0, db\<lparr>server_tcp_handle_info := (server_tcp_handle_info db)
                [server_id := replicate TCP_HANDLE_ARR_LENGTH empty_handle_info]\<rparr>)
     | _ \<Rightarrow> (EPERM, db))"

definition zero_connection_status :: connection_status where
  "zero_connection_status = \<lparr>cs_handle = 0, handle_status = HANDLE_STATUS_DOWN,
     local_ipv4_addr = 0, local_port = 0, peer_ipv4_addr = 0, peer_port = 0\<rparr>"

definition empty_connection_status :: connection_status where
  "empty_connection_status = zero_connection_status\<lparr>cs_handle := INVALID_HANDLE_ID\<rparr>"

definition empty_server_status :: server_status where
  "empty_server_status = \<lparr>clients_num = 0,
     client_status = replicate MAX_CONNECTION_NUM empty_connection_status,
     listener_handle = INVALID_HANDLE_ID, listener_status = HANDLE_STATUS_DOWN\<rparr>"

definition reset_server_status :: "nat \<Rightarrow> commu_db \<Rightarrow> int \<times> commu_db" where
  "reset_server_status idx db =
    (0, db\<lparr>server_status_st := (server_status_st db)[idx := empty_server_status]\<rparr>)"

fun reset_servers_loop :: "nat list \<Rightarrow> commu_db \<Rightarrow> int \<times> commu_db" where
  "reset_servers_loop [] db = (0, db)"
| "reset_servers_loop (i # is) db =
    (let (err, db) = reset_server_status i db
     in if err \<noteq> 0 then (err, db)
        else
          let (err, db) = reset_handle_db TCP_SERVER_HANDLE_DB i db
          in if err \<noteq> 0 then (err, db) else reset_servers_loop is db)"

definition reset_all_tcp_servers_status_db :: "commu_db \<Rightarrow> int \<times> commu_db" where
  "reset_all_tcp_servers_status_db db = reset_servers_loop [0..<SERVER_STATUS_ARR_LENGTH] db"

definition exit_listener_thread_socket_path :: "string list" where
  "exit_listener_thread_socket_path =
    [''/tmp/lib_commu_sock_path_0'', ''/tmp/lib_commu_sock_path_1'', ''/tmp/lib_commu_sock_path_2'',
     ''/tmp/lib_commu_sock_path_3'', ''/tmp/lib_commu_sock_path_4'', ''/tmp/lib_commu_sock_path_5'',
     ''/tmp/lib_commu_sock_path_6'', ''/tmp/lib_commu_sock_path_7'', ''/tmp/lib_commu_sock_path_8'',
     ''/tmp/lib_commu_sock_path_9'', ''/tmp/lib_commu_sock_path_10'', ''/tmp/lib_commu_sock_path_11'',
     ''/tmp/lib_commu_sock_path_12'', ''/tmp/lib_commu_sock_path_13'', ''/tmp/lib_commu_sock_path_14'',
     ''/tmp/lib_commu_sock_path_15'']"

definition init_listner_exit_event_info :: "commu_db \<Rightarrow> int \<times> commu_db" where
  "init_listner_exit_event_info db =
    (0, db\<lparr>event_fd := replicate NUM_OF_LISTENER_THREADS INVALID_HANDLE_ID,
          event_socket_path := exit_listener_thread_socket_path\<rparr>)"

section \<open>Start and stop\<close>

definition lib_commu_db_udp_session_db_init :: "commu_db \<Rightarrow> int \<times> commu_db" where
  "lib_commu_db_udp_session_db_init db = reset_handle_db UDP_HANDLE_DB INVALID_SERVER_ID db"

definition lib_commu_db_udp_session_db_deinit :: "commu_db \<Rightarrow> int \<times> commu_db" where
  "lib_commu_db_udp_session_db_deinit db = reset_handle_db UDP_HANDLE_DB INVALID_SERVER_ID db"

definition lib_commu_db_tcp_all_session_db_deinit :: "commu_db \<Rightarrow> int \<times> commu_db" where
  "lib_commu_db_tcp_all_session_db_deinit db =
    (let (err, db) = reset_all_tcp_servers_status_db db
     in if err \<noteq> 0 then (err, db) else reset_handle_db TCP_CLIENT_HANDLE_DB INVALID_SERVER_ID db)"

definition lib_commu_db_tcp_all_session_db_init :: "commu_db \<Rightarrow> int \<times> commu_db" where
  "lib_commu_db_tcp_all_session_db_init db =
    (let (err, db) = reset_all_tcp_servers_status_db db
     in if err \<noteq> 0 then (err, db)
        else
          let (err, db) = reset_handle_db TCP_CLIENT_HANDLE_DB INVALID_SERVER_ID db
          in if err \<noteq> 0 then (err, db) else init_listner_exit_event_info db)"

definition lib_commu_db_tcp_session_db_deinit :: "nat \<Rightarrow> commu_db \<Rightarrow> int \<times> commu_db" where
  "lib_commu_db_tcp_session_db_deinit server_id db =
    (let (err, db) = reset_server_status server_id db
     in if err \<noteq> 0 then (err, db) else reset_handle_db TCP_SERVER_HANDLE_DB server_id db)"

definition lib_commu_db_mutex_init :: "'w commu_os \<Rightarrow> 'w \<Rightarrow> int \<times> 'w" where
  "lib_commu_db_mutex_init os w =
    (let ((r, errno), w) = co_mutex_init os w in (if r < 0 then errno else 0, w))"

definition lib_commu_db_mutex_deinit :: "'w commu_os \<Rightarrow> 'w \<Rightarrow> int \<times> 'w" where
  "lib_commu_db_mutex_deinit os w =
    (let ((r, errno), w) = co_mutex_destroy os w in (if r < 0 then errno else 0, w))"

definition lib_commu_db_init :: "'w commu_os \<Rightarrow> commu_db \<Rightarrow> 'w \<Rightarrow> int \<times> commu_db \<times> 'w" where
  "lib_commu_db_init os db w =
    (let (err, db) = lib_commu_db_udp_session_db_init db
     in if err \<noteq> 0 then (err, db, w)
        else
          let (err, db) = lib_commu_db_tcp_all_session_db_init db
          in if err \<noteq> 0 then (err, db, w)
             else let (err, w) = lib_commu_db_mutex_init os w in (err, db, w))"

definition lib_commu_db_deinit :: "'w commu_os \<Rightarrow> commu_db \<Rightarrow> 'w \<Rightarrow> int \<times> commu_db \<times> 'w" where
  "lib_commu_db_deinit os db w =
    (let (err, db) = lib_commu_db_udp_session_db_deinit db
     in if err \<noteq> 0 then (err, db, w)
        else
          let (err, db) = lib_commu_db_tcp_all_session_db_deinit db
          in if err \<noteq> 0 then (err, db, w)
             else let (err, w) = lib_commu_db_mutex_deinit os w in (err, db, w))"

text \<open>Verbosity levels run from \<^verbatim>\<open>LCOMMU_VERBOSITY_LEVEL_MIN\<close> (0) to \<^verbatim>\<open>LCOMMU_VERBOSITY_LEVEL_MAX\<close> (7).\<close>

definition comm_lib_db_verbosity_level_set :: "int \<Rightarrow> commu_db \<Rightarrow> int \<times> commu_db" where
  "comm_lib_db_verbosity_level_set verbosity db =
    (if verbosity > 0 \<and> verbosity \<le> 7 then (0, db\<lparr>db_verbosity := nat verbosity\<rparr>) else (EINVAL, db))"

section \<open>Handle tables\<close>

text \<open>Reading and writing through a pointer to an entry.\<close>

fun handle_at :: "handle_loc \<Rightarrow> commu_db \<Rightarrow> handle_info" where
  "handle_at (UDP_AT i) db = udp_handle_info db ! i"
| "handle_at (CLIENT_AT i) db = client_tcp_handle_info db ! i"
| "handle_at (SERVER_AT j i) db = server_tcp_handle_info db ! j ! i"

fun set_handle_at :: "handle_loc \<Rightarrow> handle_info \<Rightarrow> commu_db \<Rightarrow> commu_db" where
  "set_handle_at (UDP_AT i) h db = db\<lparr>udp_handle_info := (udp_handle_info db)[i := h]\<rparr>"
| "set_handle_at (CLIENT_AT i) h db = db\<lparr>client_tcp_handle_info := (client_tcp_handle_info db)[i := h]\<rparr>"
| "set_handle_at (SERVER_AT j i) h db =
     db\<lparr>server_tcp_handle_info := (server_tcp_handle_info db)[j := (server_tcp_handle_info db ! j)[i := h]]\<rparr>"

definition filled_handle_info ::
  "int \<Rightarrow> u8 \<Rightarrow> addr_info \<Rightarrow> addr_info \<Rightarrow> u8 \<Rightarrow> u32 \<Rightarrow> handle_info \<Rightarrow> handle_info" where
  "filled_handle_info fd mtype local_info peer_info single magic h =
    h\<lparr>handle := fd,
      conn_info := (conn_info h)\<lparr>msg_type := ucast mtype,
        s_ipv4_addr := ipv4_addr local_info, s_port := port local_info,
        d_ipv4_addr := ipv4_addr peer_info, d_port := port peer_info\<rparr>,
      socekt_info := (socekt_info h)\<lparr>sk_socket := fd, local_magic := magic, peer_magic := INVALID_MAGIC,
        is_single_peer := single, total_sum_bytes_rx := 0, total_sum_bytes_tx := 0\<rparr>\<rparr>"

definition entry_loc :: "db_type \<Rightarrow> nat \<Rightarrow> nat \<Rightarrow> handle_loc option" where
  "entry_loc handle_type server_id idx =
    (case handle_type of
       UDP_HANDLE_DB \<Rightarrow> Some (UDP_AT idx)
     | TCP_CLIENT_HANDLE_DB \<Rightarrow> Some (CLIENT_AT idx)
     | TCP_SERVER_HANDLE_DB \<Rightarrow> Some (SERVER_AT server_id idx)
     | _ \<Rightarrow> None)"

text \<open>
  Every failure after the lock was taken goes through the unlock in the bail path, whose result
  becomes the result of the function.
\<close>

definition handle_info_set ::
  "'w commu_os \<Rightarrow> db_type \<Rightarrow> nat \<Rightarrow> int \<Rightarrow> u8 \<Rightarrow> addr_info \<Rightarrow> addr_info \<Rightarrow> u8 \<Rightarrow> u32 \<Rightarrow>
   commu_db \<Rightarrow> 'w \<Rightarrow> int \<times> commu_db \<times> 'w" where
  "handle_info_set os handle_type server_id fd mtype local_info peer_info single magic db w =
    (let (err, w) = co_lock os w
     in if err \<noteq> 0 then (err, db, w)
        else
          let bail = (\<lambda>db w. let (err, w) = co_unlock os w in (err, db, w))
          in case find_empty_slot handle_type server_id db of
               Inl err \<Rightarrow> bail db w
             | Inr idx \<Rightarrow>
               (case entry_loc handle_type server_id idx of
                  None \<Rightarrow> bail db w
                | Some l \<Rightarrow>
                    let db = set_handle_at l
                          (filled_handle_info fd mtype local_info peer_info single magic (handle_at l db)) db;
                        (err, w) = co_unlock os w
                    in if err \<noteq> 0 then bail db w else (0, db, w)))"

definition lib_commu_db_udp_handle_info_set ::
  "'w commu_os \<Rightarrow> int \<Rightarrow> ip_udp_params \<Rightarrow> u32 \<Rightarrow> commu_db \<Rightarrow> 'w \<Rightarrow> int \<times> commu_db \<times> 'w" where
  "lib_commu_db_udp_handle_info_set os fd params magic db w =
    handle_info_set os UDP_HANDLE_DB INVALID_SERVER_ID fd
      (ucast (sp_msg_type (up_session_params params)))
      \<lparr>port = sp_port (up_session_params params), ipv4_addr = ucast (sp_port (up_session_params params))\<rparr>
      \<lparr>port = 0, ipv4_addr = 0\<rparr> (ucast (up_is_single_peer params)) magic db w"

definition lib_commu_db_tcp_server_handle_info_set ::
  "'w commu_os \<Rightarrow> nat \<Rightarrow> int \<Rightarrow> u8 \<Rightarrow> addr_info \<Rightarrow> addr_info \<Rightarrow> u32 \<Rightarrow>
   commu_db \<Rightarrow> 'w \<Rightarrow> int \<times> commu_db \<times> 'w" where
  "lib_commu_db_tcp_server_handle_info_set os server_id fd mtype local_info peer_info magic db w =
    handle_info_set os TCP_SERVER_HANDLE_DB server_id fd mtype local_info peer_info 1 magic db w"

definition lib_commu_db_tcp_client_handle_info_set ::
  "'w commu_os \<Rightarrow> int \<Rightarrow> u8 \<Rightarrow> addr_info \<Rightarrow> addr_info \<Rightarrow> u32 \<Rightarrow>
   commu_db \<Rightarrow> 'w \<Rightarrow> int \<times> commu_db \<times> 'w" where
  "lib_commu_db_tcp_client_handle_info_set os fd mtype local_info peer_info magic db w =
    handle_info_set os TCP_CLIENT_HANDLE_DB INVALID_SERVER_ID fd mtype local_info peer_info 1 magic db w"

section \<open>Server status\<close>

definition update_server :: "nat \<Rightarrow> (server_status \<Rightarrow> server_status) \<Rightarrow> commu_db \<Rightarrow> commu_db" where
  "update_server j g db = db\<lparr>server_status_st := (server_status_st db)[j := g (server_status_st db ! j)]\<rparr>"

definition lib_commu_db_server_status_listener_set ::
  "nat \<Rightarrow> int \<Rightarrow> handle_op_status \<Rightarrow> commu_db \<Rightarrow> int \<times> commu_db" where
  "lib_commu_db_server_status_listener_set server_id fd is_enabled db =
    (0, update_server server_id (\<lambda>s. s\<lparr>listener_handle := fd, listener_status := is_enabled\<rparr>) db)"

text \<open>The peer's address and port are the two fields of \<^verbatim>\<open>clientaddr\<close> that are read.\<close>

definition lib_cummo_db_server_status_client_set ::
  "int \<Rightarrow> u32 \<Rightarrow> u16 \<Rightarrow> u32 \<Rightarrow> u16 \<Rightarrow> nat \<Rightarrow> commu_db \<Rightarrow> int \<times> commu_db" where
  "lib_cummo_db_server_status_client_set fd sin_addr sin_port s_ipv4 s_prt server_idx db =
    (case find_empty_slot TCP_SERVER_STATUS_HANDLE_DB server_idx db of
       Inl err \<Rightarrow> (err, db)
     | Inr idx \<Rightarrow>
         (0, update_server server_idx (\<lambda>s. s\<lparr>clients_num := clients_num s + 1,
               client_status := (client_status s)[idx := (client_status s ! idx)\<lparr>cs_handle := fd,
                 handle_status := HANDLE_STATUS_UP, local_ipv4_addr := s_ipv4, local_port := s_prt,
                 peer_ipv4_addr := sin_addr, peer_port := sin_port\<rparr>]\<rparr>) db))"

text \<open>
  The update of the database by the listener thread of \<^verbatim>\<open>lib_commu.c\<close> when it has accepted a
  connection: the handle is entered into the server's table and the client into its status. The
  port ends up in the address field of the local information, as in the source.
\<close>

definition listener_accept_update ::
  "'w commu_os \<Rightarrow> nat \<Rightarrow> session_params \<Rightarrow> int \<Rightarrow> u32 \<Rightarrow> u16 \<Rightarrow> u32 \<Rightarrow>
   commu_db \<Rightarrow> 'w \<Rightarrow> int \<times> commu_db \<times> 'w" where
  "listener_accept_update os server_id params new_sock sin_addr sin_port magic db w =
    (let (err, w) = co_listener_lock os w
     in if err \<noteq> 0 then (err, db, w)
        else
          let bail = (\<lambda>err db w. (err, db, snd (co_listener_unlock os w)));
              (err, db, w) = lib_commu_db_tcp_server_handle_info_set os server_id new_sock
                (ucast (sp_msg_type params)) \<lparr>port = 0, ipv4_addr = ucast (sp_port params)\<rparr>
                \<lparr>port = sin_port, ipv4_addr = sin_addr\<rparr> magic db w
          in if err \<noteq> 0 then bail err db w
             else
               let (err, db) = lib_cummo_db_server_status_client_set new_sock sin_addr sin_port
                     (sp_s_ipv4_addr params) (sp_port params) server_id db
               in if err \<noteq> 0 then bail err db w
                  else
                    let (err, w) = co_listener_unlock os w
                    in if err \<noteq> 0 then bail err db w else (0, db, w))"

text \<open>
  The status query asks the system about every connected client, in table order, and records
  the answer; an unexpected failure ends the loop with the result of \<^verbatim>\<open>getpeername\<close>.
\<close>

definition set_client_status :: "nat \<Rightarrow> nat \<Rightarrow> handle_op_status \<Rightarrow> commu_db \<Rightarrow> commu_db" where
  "set_client_status j i s db = update_server j (\<lambda>sv. sv\<lparr>client_status :=
     (client_status sv)[i := (client_status sv ! i)\<lparr>handle_status := s\<rparr>]\<rparr>) db"

fun status_get_loop :: "'w commu_os \<Rightarrow> nat \<Rightarrow> nat list \<Rightarrow> commu_db \<Rightarrow> 'w \<Rightarrow> int \<times> commu_db \<times> 'w" where
  "status_get_loop os j [] db w = (0, db, w)"
| "status_get_loop os j (i # is) db w =
    (let fd = cs_handle (client_status (server_status_st db ! j) ! i)
     in if fd \<noteq> INVALID_HANDLE_ID
        then
          let ((peer_err, errno), w) = co_getpeername os fd w
          in if peer_err \<noteq> 0
             then if errno = ENOTCONN
                  then status_get_loop os j is (set_client_status j i HANDLE_STATUS_DOWN db) w
                  else (peer_err, db, w)
             else status_get_loop os j is (set_client_status j i HANDLE_STATUS_UP db) w
        else status_get_loop os j is db w)"

definition lib_commu_db_tcp_server_status_get ::
  "'w commu_os \<Rightarrow> bool \<Rightarrow> nat \<Rightarrow> commu_db \<Rightarrow> 'w \<Rightarrow> int \<times> server_status option \<times> commu_db \<times> 'w" where
  "lib_commu_db_tcp_server_status_get os have_out server_idx db w =
    (if \<not> have_out then (EINVAL, None, db, w)
     else if server_idx \<ge> SERVER_STATUS_ARR_LENGTH then (ENOKEY, None, db, w)
     else
       let (err, db, w) = status_get_loop os server_idx [0..<MAX_CONNECTION_NUM] db w
       in if err \<noteq> 0 then (err, None, db, w)
          else (0, Some (server_status_st db ! server_idx), db, w))"

definition lib_commu_db_unoccupied_listener_thread_get :: "bool \<Rightarrow> commu_db \<Rightarrow> int + nat" where
  "lib_commu_db_unoccupied_listener_thread_get have_out db =
    (if \<not> have_out then Inl EINVAL else find_empty_slot LISTENER_THREAD_DB INVALID_SERVER_ID db)"

section \<open>Lookup and deletion\<close>

text \<open>
  The cases of the switch fall through: a search in any table tries the client table, then the
  tables of the servers that have clients, then the UDP table. On success the type and the
  server number the function writes back are those of the location (\<open>loc_type\<close>); its callers
  pass the addresses of local variables, so the checks for null pointers never fire.
\<close>

definition client_search :: "int \<Rightarrow> commu_db \<Rightarrow> handle_loc option" where
  "client_search fd db = map_option CLIENT_AT (first_idx (\<lambda>h. handle h = fd) (client_tcp_handle_info db))"

definition udp_search :: "int \<Rightarrow> commu_db \<Rightarrow> handle_loc option" where
  "udp_search fd db = map_option UDP_AT (first_idx (\<lambda>h. handle h = fd) (udp_handle_info db))"

fun server_search :: "int \<Rightarrow> nat list \<Rightarrow> commu_db \<Rightarrow> handle_loc option" where
  "server_search fd [] db = None"
| "server_search fd (j # js) db =
    (if clients_num (server_status_st db ! j) > 0
     then case first_idx (\<lambda>h. handle h = fd) (server_tcp_handle_info db ! j) of
            Some i \<Rightarrow> Some (SERVER_AT j i)
          | None \<Rightarrow> server_search fd js db
     else server_search fd js db)"

fun loc_type :: "handle_loc \<Rightarrow> db_type" where
  "loc_type (UDP_AT i) = UDP_HANDLE_DB"
| "loc_type (CLIENT_AT i) = TCP_CLIENT_HANDLE_DB"
| "loc_type (SERVER_AT j i) = TCP_SERVER_HANDLE_DB"

definition lib_commu_db_hanlde_info_get :: "int \<Rightarrow> db_type \<Rightarrow> commu_db \<Rightarrow> int + handle_loc" where
  "lib_commu_db_hanlde_info_get fd type db =
    (let servers = server_search fd [0..<SERVER_STATUS_ARR_LENGTH] db;
         found = (\<lambda>err r. case r of Some l \<Rightarrow> Inr l | None \<Rightarrow> Inl err)
     in case type of
          ANY_HANLDE_DB \<Rightarrow>
            (case client_search fd db of
               Some l \<Rightarrow> Inr l
             | None \<Rightarrow> (case servers of Some l \<Rightarrow> Inr l | None \<Rightarrow> found EINVAL (udp_search fd db)))
        | TCP_CLIENT_HANDLE_DB \<Rightarrow> found ENOKEY (client_search fd db)
        | TCP_SERVER_HANDLE_DB \<Rightarrow> found ENOKEY servers
        | UDP_HANDLE_DB \<Rightarrow> found ENOKEY (udp_search fd db)
        | _ \<Rightarrow> Inl EINVAL)"

definition lib_commu_db_udp_handle_info_delete ::
  "'w commu_os \<Rightarrow> int \<Rightarrow> commu_db \<Rightarrow> 'w \<Rightarrow> int \<times> commu_db \<times> 'w" where
  "lib_commu_db_udp_handle_info_delete os fd db w =
    (case find_handle_idx UDP_HANDLE_DB INVALID_SERVER_ID fd db of
       Inl err \<Rightarrow> (err, db, w)
     | Inr idx \<Rightarrow>
         let (err, w) = co_lock os w
         in if err \<noteq> 0 then (err, db, w)
            else
              let db = set_handle_at (UDP_AT idx) empty_handle_info db;
                  (err, w) = co_unlock os w
              in (err, db, w))"

text \<open>
  What deletion does between lock and unlock. The number of clients goes down before the
  client is looked up in the status table.
\<close>

definition tcp_delete_locked :: "int \<Rightarrow> commu_db \<Rightarrow> commu_db" where
  "tcp_delete_locked fd db =
    (case lib_commu_db_hanlde_info_get fd ANY_HANLDE_DB db of
       Inl err \<Rightarrow> db
     | Inr l \<Rightarrow>
       (case l of
          UDP_AT i \<Rightarrow> db
        | CLIENT_AT i \<Rightarrow> set_handle_at l empty_handle_info db
        | SERVER_AT j i \<Rightarrow>
            let db = set_handle_at l empty_handle_info db
            in if clients_num (server_status_st db ! j) > 0
               then
                 let db = update_server j (\<lambda>s. s\<lparr>clients_num := clients_num s - 1\<rparr>) db
                 in case find_handle_idx TCP_SERVER_STATUS_HANDLE_DB j fd db of
                      Inl err \<Rightarrow> db
                    | Inr idx \<Rightarrow> update_server j (\<lambda>s. s\<lparr>client_status :=
                        (client_status s)[idx := empty_connection_status]\<rparr>) db
               else db))"

definition lib_commu_db_tcp_handle_info_delete ::
  "'w commu_os \<Rightarrow> int \<Rightarrow> commu_db \<Rightarrow> 'w \<Rightarrow> int \<times> commu_db \<times> 'w" where
  "lib_commu_db_tcp_handle_info_delete os fd db w =
    (let (err, w) = co_lock os w
     in if err \<noteq> 0 then (err, db, w)
        else
          let db = tcp_delete_locked fd db;
              (err, w) = co_unlock os w
          in (err, db, w))"

section \<open>Statistics\<close>

text \<open>The second result is the type written back through the pointer.\<close>

definition handle_total_rx_update ::
  "int \<Rightarrow> db_type \<Rightarrow> u64 \<Rightarrow> commu_db \<Rightarrow> int \<times> db_type \<times> commu_db" where
  "handle_total_rx_update fd type rx_bytes db =
    (case lib_commu_db_hanlde_info_get fd type db of
       Inl err \<Rightarrow> (err, type, db)
     | Inr l \<Rightarrow>
         let h = handle_at l db; s = socekt_info h
         in (0, loc_type l, set_handle_at l (h\<lparr>socekt_info := s\<lparr>total_sum_bytes_rx := total_sum_bytes_rx s + rx_bytes\<rparr>\<rparr>) db))"

definition handle_total_tx_update ::
  "int \<Rightarrow> db_type \<Rightarrow> u64 \<Rightarrow> commu_db \<Rightarrow> int \<times> db_type \<times> commu_db" where
  "handle_total_tx_update fd type tx_bytes db =
    (case lib_commu_db_hanlde_info_get fd type db of
       Inl err \<Rightarrow> (err, type, db)
     | Inr l \<Rightarrow>
         let h = handle_at l db; s = socekt_info h
         in (0, loc_type l, set_handle_at l (h\<lparr>socekt_info := s\<lparr>total_sum_bytes_tx := total_sum_bytes_tx s + tx_bytes\<rparr>\<rparr>) db))"

end
