(* ===== verification/Commu.thy ===== *)
theory Commu
  imports Commu_Db
begin

text \<open>
  The sessions of the communication library (\<^verbatim>\<open>lib_commu.c\<close>): messages with a header in front, sent and received over
  UDP and TCP sockets, and the calls that start and stop sessions.

  The system calls are the record \<open>commu_sys\<close> over a world \<open>'w\<close>. A call that only succeeds or fails returns its
  \<^verbatim>\<open>errno\<close>, 0 for success; a failed call never leaves 0 in \<^verbatim>\<open>errno\<close>. A call with a result
  returns \<open>Inl errno\<close> or \<open>Inr result\<close>. The calls that receive never write more than they are asked for. \<open>sys_others\<close> is
  what the other threads do to the library's variables and to the world while a thread is blocked.
  Structures are laid out as on a little-endian machine.
\<close>

section \<open>Data\<close>

definition EINTR :: int where "EINTR = 4"
definition EIO :: int where "EIO = 5"
definition EBADE :: int where "EBADE = 52"
definition EOVERFLOW :: int where "EOVERFLOW = 75"
definition ECONNRESET :: int where "ECONNRESET = 104"
definition EINPROGRESS :: int where "EINPROGRESS = 115"
definition EKEYREJECTED :: int where "EKEYREJECTED = 129"

definition MSG_VERSION :: u8 where "MSG_VERSION = 1"
definition MAX_MTU :: nat where "MAX_MTU = 1500"
definition MAX_IPV4_HEADER_SIZE :: nat where "MAX_IPV4_HEADER_SIZE = 60"
definition UDP_HEADER_SIZE :: nat where "UDP_HEADER_SIZE = 8"
definition MAX_UDP_MSG_SIZE :: nat where "MAX_UDP_MSG_SIZE = MAX_MTU - MAX_IPV4_HEADER_SIZE - UDP_HEADER_SIZE"
definition PENDING_CONNECTIOS_SIZE :: int where "PENDING_CONNECTIOS_SIZE = 16"
definition SEND_REPEAT_NUM :: nat where "SEND_REPEAT_NUM = 500"
definition RECV_REPEAT_NUM :: nat where "RECV_REPEAT_NUM = 500"
definition MAX_MSGS :: nat where "MAX_MSGS = 20"
definition MAX_TCP_PAYLOAD :: nat where "MAX_TCP_PAYLOAD = 4094"
definition MAX_JUMBO_TCP_PAYLOAD :: nat where "MAX_JUMBO_TCP_PAYLOAD = 1024 * 1600"
definition CLIENT_CONNECT_THREAD_PATH :: string where "CLIENT_CONNECT_THREAD_PATH = ''/tmp/lib_commu_client_connect''"

type_synonym bytes = "u8 list"

record msg_metadata =
  payload_size :: u32
  trailer :: u32
  version :: u8
  md_msg_type :: u8

definition sizeof_msg_metadata :: nat where "sizeof_msg_metadata = 10"

record recv_payload_data =
  msg_num_recv :: u32
  rp_msg_type :: "u8 list"
  rp_payload :: "bytes list"
  rp_payload_len :: "u32 list"
  jumbo_payload :: bytes
  jumbo_payload_len :: u32
  jumbo_msg_type :: u8

datatype udp_type = CONN_TYPE_UDP_IP_UC | CONN_TYPE_OTHER

record udp_params =
  udp_type_of :: udp_type
  ip_udp_fields :: ip_udp_params

datatype sock_kind = INET_DGRAM | INET_STREAM | UNIX_DGRAM

datatype sock_level = IPPROTO_IP | SOL_SOCKET | IPPROTO_TCP

datatype sock_option = SO_RCVBUF | SO_SNDBUF | SO_PRIORITY | IP_TOS | TCP_KEEPCNT | TCP_KEEPIDLE | TCP_KEEPINTVL |
  SO_KEEPALIVE | SO_REUSEADDR

datatype sock_addr = INET_ADDR addr_info | UNIX_PATH string

text \<open>The user's function for a new handle; its data is a fixed pointer.\<close>

record 'w register_to_new_handle =
  clbk_notify_func :: "(int \<Rightarrow> addr_info \<Rightarrow> u64 \<Rightarrow> int \<Rightarrow> 'w \<Rightarrow> int \<times> 'w) option"
  clbk_data :: u64

record 'w listener_thread_args =
  la_event_fd :: int
  la_server_id :: nat
  la_thread_idx :: nat
  la_listener_fd :: int
  la_clbk_st :: "'w register_to_new_handle"
  la_params :: session_params

record 'w connect_thread_args =
  ca_client_fd :: int
  ca_conn_info :: connection_info
  ca_clbk_st :: "'w register_to_new_handle"
  ca_tval :: nat
  use_tval :: bool

datatype 'w commu_thread = LISTENER_MAIN_THREAD "'w listener_thread_args" | CLIENT_CONNECT_THREAD "'w connect_thread_args"

record lib_state =
  lib_db :: commu_db
  g_lib_commu_init_done :: bool
  lib_commu_log_cb :: u64
  client_connect_exit_event_fd :: int
  client_connect_thread_cnt :: u32
  lib_commu_verbosity :: nat

record 'w commu_sys =
  sys_os :: "'w commu_os"
  sys_socket :: "sock_kind \<Rightarrow> 'w \<Rightarrow> (int + int) \<times> 'w"
  sys_close :: "int \<Rightarrow> 'w \<Rightarrow> int \<times> 'w"
  sys_setsockopt :: "int \<Rightarrow> sock_level \<times> sock_option \<times> int \<Rightarrow> 'w \<Rightarrow> int \<times> 'w"
  sys_bind :: "int \<Rightarrow> sock_addr \<Rightarrow> 'w \<Rightarrow> int \<times> 'w"
  sys_unlink :: "string \<Rightarrow> 'w \<Rightarrow> 'w"
  sys_listen :: "int \<Rightarrow> int \<Rightarrow> 'w \<Rightarrow> int \<times> 'w"
  sys_accept :: "int \<Rightarrow> 'w \<Rightarrow> (int + int \<times> addr_info) \<times> 'w"
  sys_connect :: "int \<Rightarrow> addr_info \<Rightarrow> 'w \<Rightarrow> int \<times> 'w"
  sys_getfl :: "int \<Rightarrow> 'w \<Rightarrow> (int + int) \<times> 'w"
  sys_setfl :: "int \<Rightarrow> bool \<Rightarrow> int \<Rightarrow> 'w \<Rightarrow> int \<times> 'w"
  sys_so_error :: "int \<Rightarrow> 'w \<Rightarrow> (int + int) \<times> 'w"
  sys_select :: "int list \<Rightarrow> int list \<Rightarrow> nat option \<Rightarrow> 'w \<Rightarrow> (int \<times> int list \<times> int list \<times> nat) \<times> 'w"
  sys_send :: "int \<Rightarrow> bytes \<Rightarrow> 'w \<Rightarrow> (int + nat) \<times> 'w"
  sys_recv :: "int \<Rightarrow> nat \<Rightarrow> 'w \<Rightarrow> (int + bytes) \<times> 'w"
  sys_sendto :: "int \<Rightarrow> sock_addr \<Rightarrow> bytes \<Rightarrow> 'w \<Rightarrow> (int + nat) \<times> 'w"
  sys_recvfrom :: "int \<Rightarrow> nat \<Rightarrow> 'w \<Rightarrow> (int + bytes \<times> addr_info) \<times> 'w"
  sys_peer_addr :: "int \<Rightarrow> 'w \<Rightarrow> (int + addr_info) \<times> 'w"
  sys_local_addr :: "int \<Rightarrow> 'w \<Rightarrow> (int + addr_info) \<times> 'w"
  sys_time :: "'w \<Rightarrow> (int + int \<times> int) \<times> 'w"
  sys_srand :: "u32 \<Rightarrow> 'w \<Rightarrow> 'w"
  sys_rand :: "'w \<Rightarrow> nat \<times> 'w"
  sys_mutex_init :: "'w \<Rightarrow> (int \<times> int) \<times> 'w"
  sys_mutex_destroy :: "'w \<Rightarrow> int \<times> 'w"
  sys_session_lock :: "'w \<Rightarrow> int \<times> 'w"
  sys_session_unlock :: "'w \<Rightarrow> int \<times> 'w"
  sys_malloc :: "'w \<Rightarrow> bool \<times> 'w"
  sys_attr_init :: "'w \<Rightarrow> int \<times> 'w"
  sys_attr_detach :: "'w \<Rightarrow> int \<times> 'w"
  sys_attr_destroy :: "'w \<Rightarrow> int \<times> 'w"
  sys_thread_create :: "'w commu_thread \<Rightarrow> 'w \<Rightarrow> (int + nat) \<times> 'w"
  sys_thread_join :: "nat \<Rightarrow> 'w \<Rightarrow> int \<times> 'w"
  sys_others :: "lib_state \<Rightarrow> 'w \<Rightarrow> lib_state \<times> 'w"

section \<open>Sockets\<close>

definition close_socket_wrapper :: "'w commu_sys \<Rightarrow> int \<Rightarrow> 'w \<Rightarrow> int \<times> 'w" where
  "close_socket_wrapper sys fd w = (if fd = INVALID_HANDLE_ID then (EINVAL, w) else sys_close sys fd w)"

text \<open>Calls made one after the other, up to the first that fails.\<close>

fun in_turn :: "('s \<Rightarrow> int \<times> 's) list \<Rightarrow> 's \<Rightarrow> int \<times> 's" where
  "in_turn [] s = (0, s)"
| "in_turn (f # fs) s = (let (err, s) = f s in if err \<noteq> 0 then (err, s) else in_turn fs s)"

text \<open>The sizes of the buffers are set at level 0, which is the one of the internet protocol.\<close>

definition set_sock_buffer_size :: "'w commu_sys \<Rightarrow> int \<Rightarrow> 'w \<Rightarrow> int \<times> 'w" where
  "set_sock_buffer_size sys fd = in_turn
    [sys_setsockopt sys fd (IPPROTO_IP, SO_RCVBUF, int MAX_JUMBO_TCP_PAYLOAD),
     sys_setsockopt sys fd (IPPROTO_IP, SO_SNDBUF, int MAX_JUMBO_TCP_PAYLOAD)]"

definition set_sock_priority :: "'w commu_sys \<Rightarrow> int \<Rightarrow> 'w \<Rightarrow> int \<times> 'w" where
  "set_sock_priority sys fd = in_turn
    [sys_setsockopt sys fd (SOL_SOCKET, SO_PRIORITY, 6), sys_setsockopt sys fd (IPPROTO_IP, IP_TOS, 0xc0)]"

definition set_sock_ka :: "'w commu_sys \<Rightarrow> int \<Rightarrow> 'w \<Rightarrow> int \<times> 'w" where
  "set_sock_ka sys fd = in_turn
    [sys_setsockopt sys fd (IPPROTO_TCP, TCP_KEEPCNT, 3), sys_setsockopt sys fd (IPPROTO_TCP, TCP_KEEPIDLE, 2),
     sys_setsockopt sys fd (IPPROTO_TCP, TCP_KEEPINTVL, 1), sys_setsockopt sys fd (SOL_SOCKET, SO_KEEPALIVE, 1)]"

definition pseudo_random_gen_uint32_init :: "'w commu_sys \<Rightarrow> 'w \<Rightarrow> int \<times> 'w" where
  "pseudo_random_gen_uint32_init sys w = (case sys_time sys w of
     (Inl err, w) \<Rightarrow> (err, w)
   | (Inr (tv_sec, tv_usec), w) \<Rightarrow> (0, sys_srand sys (of_int (tv_usec * tv_sec)) w))"

text \<open>The callers pass the address of a local variable.\<close>

definition pseudo_random_uint32_get :: "'w commu_sys \<Rightarrow> 'w \<Rightarrow> int \<times> u32 \<times> 'w" where
  "pseudo_random_uint32_get sys w = (let (r, w) = sys_rand sys w in (0, of_nat (r mod (2 ^ 32 - 1)), w))"

section \<open>Headers\<close>

unbundle bit_operations_syntax

definition le_bytes32 :: "u32 \<Rightarrow> bytes" where
  "le_bytes32 x = [ucast x, ucast (drop_bit 8 x), ucast (drop_bit 16 x), ucast (drop_bit 24 x)]"

fun of_le_bytes32 :: "bytes \<Rightarrow> u32" where
  "of_le_bytes32 (a # b # c # d # _) =
    ucast a OR push_bit 8 (ucast b) OR push_bit 16 (ucast c) OR push_bit 24 (ucast d)"
| "of_le_bytes32 _ = 0"

definition htonl :: "u32 \<Rightarrow> u32" where
  "htonl x = of_le_bytes32 (rev (le_bytes32 x))"

definition ntohl :: "u32 \<Rightarrow> u32" where
  "ntohl x = of_le_bytes32 (rev (le_bytes32 x))"

definition metadata_bytes :: "msg_metadata \<Rightarrow> bytes" where
  "metadata_bytes md = le_bytes32 (payload_size md) @ le_bytes32 (trailer md) @ [version md, md_msg_type md]"

definition parse_metadata_from_buffer :: "bytes \<Rightarrow> msg_metadata" where
  "parse_metadata_from_buffer buffer = \<lparr>payload_size = of_le_bytes32 (take 4 buffer),
    trailer = of_le_bytes32 (take 4 (drop 4 buffer)), version = buffer ! 8, md_msg_type = buffer ! 9\<rparr>"

definition metadata_set :: "u8 \<Rightarrow> u32 \<Rightarrow> handle_info \<Rightarrow> msg_metadata" where
  "metadata_set ver len h = \<lparr>payload_size = htonl len, trailer = htonl (local_magic (socekt_info h)),
    version = ver, md_msg_type = ucast (msg_type (conn_info h))\<rparr>"

text \<open>The header in host order, and the handle, of which the peer's magic number is set by the first message.\<close>

definition validate_metadata_info :: "msg_metadata \<Rightarrow> u32 \<Rightarrow> handle_info \<Rightarrow> int \<times> msg_metadata \<times> handle_info" where
  "validate_metadata_info md max_paylod_size h =
    (let md = md\<lparr>payload_size := ntohl (payload_size md), trailer := ntohl (trailer md)\<rparr>; sk = socekt_info h
     in if version md \<noteq> MSG_VERSION then (EIO, md, h)
        else if max_paylod_size < payload_size md \<or> payload_size md = 0 then (EOVERFLOW, md, h)
        else if peer_magic sk \<noteq> INVALID_MAGIC \<and> is_single_peer sk \<noteq> 0 \<and> peer_magic sk \<noteq> trailer md then (EBADE, md, h)
        else let h = (if peer_magic sk = INVALID_MAGIC then h\<lparr>socekt_info := sk\<lparr>peer_magic := trailer md\<rparr>\<rparr> else h)
          in if ucast (md_msg_type md) \<noteq> msg_type (conn_info h) then (EBADE, md, h) else (0, md, h))"

section \<open>Low-level transfers\<close>

text \<open>The bail paths count what was transferred; a failure of that is returned only when there was no other.\<close>

definition count_tx :: "int \<Rightarrow> db_type \<Rightarrow> nat \<Rightarrow> int \<Rightarrow> lib_state \<Rightarrow> int \<times> lib_state" where
  "count_tx fd type n err s =
    (if n = 0 then (err, s)
     else let (err_bail, _, db) = handle_total_tx_update fd type (of_nat n) (lib_db s)
       in (if err_bail \<noteq> 0 \<and> err = 0 then err_bail else err, s\<lparr>lib_db := db\<rparr>))"

definition count_rx :: "int \<Rightarrow> db_type \<Rightarrow> nat \<Rightarrow> int \<Rightarrow> lib_state \<Rightarrow> int \<times> lib_state" where
  "count_rx fd type n err s =
    (if n = 0 then (err, s)
     else let (err_bail, _, db) = handle_total_rx_update fd type (of_nat n) (lib_db s)
       in (if err_bail \<noteq> 0 \<and> err = 0 then err_bail else err, s\<lparr>lib_db := db\<rparr>))"

text \<open>The second result is the length written back.\<close>

definition comm_lib_udp_ll_send ::
  "'w commu_sys \<Rightarrow> int \<Rightarrow> addr_info \<Rightarrow> bytes \<Rightarrow> lib_state \<Rightarrow> 'w \<Rightarrow> int \<times> nat \<times> lib_state \<times> 'w" where
  "comm_lib_udp_ll_send sys fd recipient_st buffer s w = (case sys_sendto sys fd (INET_ADDR recipient_st) buffer w of
     (Inl err, w) \<Rightarrow> (err, 0, s, w)
   | (Inr nb_sent, w) \<Rightarrow>
       let (err, s) = count_tx fd UDP_HANDLE_DB nb_sent (if nb_sent \<noteq> length buffer then EIO else 0) s
       in (err, if nb_sent \<noteq> length buffer then nb_sent else length buffer, s, w))"

definition comm_lib_udp_ll_recv ::
  "'w commu_sys \<Rightarrow> int \<Rightarrow> nat \<Rightarrow> lib_state \<Rightarrow> 'w \<Rightarrow> int \<times> (bytes \<times> addr_info) option \<times> lib_state \<times> 'w" where
  "comm_lib_udp_ll_recv sys fd len s w = (case sys_recvfrom sys fd len w of
     (Inl err, w) \<Rightarrow> (err, None, s, w)
   | (Inr (data, addresser), w) \<Rightarrow>
       let data = take len data; (err, s) = count_rx fd UDP_HANDLE_DB (length data) 0 s
       in (err, Some (data, addresser), s, w))"

text \<open>
  The loops send and receive until everything is transferred, at most 500 times. The result is the error, the number of
  bytes that were transferred, and the length written back; the receiving loop also returns the buffer.
\<close>

function send_loop :: "'w commu_sys \<Rightarrow> int \<Rightarrow> bytes \<Rightarrow> nat \<Rightarrow> nat \<Rightarrow> 'w \<Rightarrow> int \<times> nat \<times> nat \<times> 'w" where
  "send_loop sys fd buffer total_bytes repeat_times w =
    (if total_bytes < length buffer
     then if SEND_REPEAT_NUM \<le> repeat_times then (EIO, total_bytes, total_bytes, w)
          else case sys_send sys fd (drop total_bytes buffer) w of
             (Inl err, w) \<Rightarrow> (err, total_bytes, 0, w)
           | (Inr nb_sent, w) \<Rightarrow> send_loop sys fd buffer (total_bytes + nb_sent) (repeat_times + 1) w
     else (0, total_bytes, total_bytes, w))"
  by pat_completeness auto

termination
  by (relation "measure (\<lambda>(sys, fd, b, n, k, w). SEND_REPEAT_NUM - k)") auto

declare send_loop.simps [simp del]

definition comm_lib_tcp_ll_send_blocking ::
  "'w commu_sys \<Rightarrow> int \<Rightarrow> bytes \<Rightarrow> db_type \<Rightarrow> lib_state \<Rightarrow> 'w \<Rightarrow> int \<times> nat \<times> lib_state \<times> 'w" where
  "comm_lib_tcp_ll_send_blocking sys fd buffer handle_db_type s w =
    (let (err, total_bytes, len, w) = send_loop sys fd buffer 0 0 w;
         (err, s) = count_tx fd handle_db_type total_bytes err s
     in (err, len, s, w))"

definition write_at :: "nat \<Rightarrow> bytes \<Rightarrow> bytes \<Rightarrow> bytes" where
  "write_at off data buffer = take off buffer @ data @ drop (off + length data) buffer"

function recv_loop ::
  "'w commu_sys \<Rightarrow> int \<Rightarrow> nat \<Rightarrow> bytes \<Rightarrow> nat \<Rightarrow> nat \<Rightarrow> 'w \<Rightarrow> int \<times> nat \<times> nat \<times> bytes \<times> 'w" where
  "recv_loop sys fd len buffer total_bytes repeat_times w =
    (if total_bytes < len
     then if RECV_REPEAT_NUM \<le> repeat_times then (EIO, total_bytes, total_bytes, buffer, w)
          else case sys_recv sys fd (len - total_bytes) w of
             (Inl err, w) \<Rightarrow> (err, total_bytes, 0, buffer, w)
           | (Inr data, w) \<Rightarrow>
               let data = take (len - total_bytes) data
               in if data = [] then (ECONNRESET, total_bytes, 0, buffer, w)
                  else recv_loop sys fd len (write_at total_bytes data buffer) (total_bytes + length data) (repeat_times + 1) w
     else (0, total_bytes, total_bytes, buffer, w))"
  by pat_completeness auto

termination
  by (relation "measure (\<lambda>(sys, fd, n, b, t, k, w). RECV_REPEAT_NUM - k)") auto

declare recv_loop.simps [simp del]

definition comm_lib_tcp_ll_recv_blocking ::
  "'w commu_sys \<Rightarrow> int \<Rightarrow> nat \<Rightarrow> bytes \<Rightarrow> lib_state \<Rightarrow> 'w \<Rightarrow> int \<times> nat \<times> bytes \<times> lib_state \<times> 'w" where
  "comm_lib_tcp_ll_recv_blocking sys fd len buffer s w =
    (let (err, total_bytes, len, buffer, w) = recv_loop sys fd len buffer 0 0 w;
         (err, s) = count_rx fd ANY_HANLDE_DB total_bytes err s
     in (err, len, buffer, s, w))"

section \<open>Messages over UDP\<close>

text \<open>
  A pointer that may be null is an option; the caller's buffers hold at least the number of bytes it announces.
\<close>

definition comm_lib_udp_send ::
  "'w commu_sys \<Rightarrow> int \<Rightarrow> addr_info \<Rightarrow> bytes option \<Rightarrow> u32 option \<Rightarrow> lib_state \<Rightarrow> 'w \<Rightarrow>
   int \<times> u32 option \<times> lib_state \<times> 'w" where
  "comm_lib_udp_send sys fd recipient_st payload payload_len s w =
    (if \<not> g_lib_commu_init_done s then (- EPERM, payload_len, s, w)
     else case (payload, payload_len) of
       (Some data, Some len) \<Rightarrow>
         if MAX_UDP_MSG_SIZE - sizeof_msg_metadata < unat len then (- EOVERFLOW, payload_len, s, w)
         else (case lib_commu_db_hanlde_info_get fd UDP_HANDLE_DB (lib_db s) of
             Inl err \<Rightarrow> (- err, payload_len, s, w)
           | Inr l \<Rightarrow>
               let metadata_st = metadata_set MSG_VERSION len (handle_at l (lib_db s));
                   (err, buffer_len, s, w) = comm_lib_udp_ll_send sys fd recipient_st
                     (metadata_bytes metadata_st @ take (unat len) data) s w
               in if err \<noteq> 0
                  then (- EIO, Some (if sizeof_msg_metadata < buffer_len
                      then of_nat (buffer_len - sizeof_msg_metadata) else 0), s, w)
                  else (0, payload_len, s, w))
     | _ \<Rightarrow> (- EINVAL, payload_len, s, w))"

text \<open>
  The result is None when the code writes through a null pointer or reads past the end of its own buffer. Otherwise it is
  the value returned, the sender's address, the caller's buffer and the length, as they are written back.
\<close>

definition comm_lib_udp_recv ::
  "'w commu_sys \<Rightarrow> int \<Rightarrow> addr_info option \<Rightarrow> bytes option \<Rightarrow> u32 option \<Rightarrow> lib_state \<Rightarrow> 'w \<Rightarrow>
   (int \<times> addr_info option \<times> bytes option \<times> u32 option \<times> lib_state \<times> 'w) option" where
  "comm_lib_udp_recv sys fd addresser_st payload payload_len s w =
    (let bail = (\<lambda>err addr s w. if payload_len = None then None else Some (- err, addr, payload, Some 0, s, w))
     in if \<not> g_lib_commu_init_done s then bail EPERM addresser_st s w
     else case (payload, payload_len, addresser_st) of
       (Some data, Some len, Some _) \<Rightarrow>
         if len = 0 then bail EINVAL addresser_st s w
         else (case lib_commu_db_hanlde_info_get fd UDP_HANDLE_DB (lib_db s) of
             Inl err \<Rightarrow> bail err addresser_st s w
           | Inr l \<Rightarrow>
              (case comm_lib_udp_ll_recv sys fd MAX_MTU s w of
                 (err, None, s, w) \<Rightarrow> bail err addresser_st s w
               | (err, Some (received, addr), s, w) \<Rightarrow>
                   if err \<noteq> 0 then bail err (Some addr) s w
                   else if length received < sizeof_msg_metadata then bail EIO (Some addr) s w
                   else
                     let buffer = received @ replicate (MAX_MTU - length received) 0;
                         (err, metadata_st, h) =
                           validate_metadata_info (parse_metadata_from_buffer buffer) len (handle_at l (lib_db s));
                         s = s\<lparr>lib_db := set_handle_at l h (lib_db s)\<rparr>; n = unat (payload_size metadata_st)
                     in if err \<noteq> 0 then bail err (Some addr) s w
                        else if MAX_MTU < sizeof_msg_metadata + n then None
                        else Some (0, Some addr, Some (write_at 0 (take n (drop sizeof_msg_metadata buffer)) data),
                               Some (payload_size metadata_st), s, w)))
     | _ \<Rightarrow> bail EINVAL addresser_st s w)"

section \<open>Messages over TCP\<close>

definition comm_lib_tcp_send_blocking ::
  "'w commu_sys \<Rightarrow> int \<Rightarrow> bytes option \<Rightarrow> u32 option \<Rightarrow> lib_state \<Rightarrow> 'w \<Rightarrow> int \<times> u32 option \<times> lib_state \<times> 'w" where
  "comm_lib_tcp_send_blocking sys fd payload payload_len s w =
    (if \<not> g_lib_commu_init_done s then (- EPERM, payload_len, s, w)
     else case (payload, payload_len) of
       (Some data, Some len) \<Rightarrow>
         if MAX_JUMBO_TCP_PAYLOAD - sizeof_msg_metadata < unat len then (- EOVERFLOW, payload_len, s, w)
         else (case lib_commu_db_hanlde_info_get fd ANY_HANLDE_DB (lib_db s) of
             Inl err \<Rightarrow> (- err, payload_len, s, w)
           | Inr l \<Rightarrow>
               let metadata_st = metadata_set MSG_VERSION len (handle_at l (lib_db s));
                   (err, _, s, w) = comm_lib_tcp_ll_send_blocking sys fd (metadata_bytes metadata_st) (loc_type l) s w
               in if err \<noteq> 0 then (- err, payload_len, s, w)
                  else
                    let (err, n, s, w) = comm_lib_tcp_ll_send_blocking sys fd (take (unat len) data) (loc_type l) s w
                    in (- err, Some (of_nat n), s, w))
     | _ \<Rightarrow> (- EINVAL, payload_len, s, w))"

text \<open>The message that the header announces is read into the first buffer, or into the large one.\<close>

definition recv_message ::
  "'w commu_sys \<Rightarrow> int \<Rightarrow> msg_metadata \<Rightarrow> recv_payload_data \<Rightarrow> lib_state \<Rightarrow> 'w \<Rightarrow>
   int \<times> recv_payload_data \<times> lib_state \<times> 'w" where
  "recv_message sys fd metadata_st pd s w =
    (let len = unat (payload_size metadata_st)
     in if len \<le> MAX_TCP_PAYLOAD
        then
          let (err, n, buffer, s, w) = comm_lib_tcp_ll_recv_blocking sys fd len (rp_payload pd ! 0) s w;
              pd = pd\<lparr>rp_payload := (rp_payload pd)[0 := buffer]\<rparr>
          in if err \<noteq> 0 then (- err, pd, s, w)
             else (0, pd\<lparr>rp_payload_len := (rp_payload_len pd)[0 := of_nat n],
                 rp_msg_type := (rp_msg_type pd)[0 := md_msg_type metadata_st], msg_num_recv := msg_num_recv pd + 1\<rparr>, s, w)
        else
          let (err, n, buffer, s, w) = comm_lib_tcp_ll_recv_blocking sys fd len (jumbo_payload pd) s w;
              pd = pd\<lparr>jumbo_payload := buffer\<rparr>
          in if err \<noteq> 0 then (- err, pd, s, w)
             else (0, pd\<lparr>jumbo_payload_len := of_nat n, jumbo_msg_type := md_msg_type metadata_st,
                 msg_num_recv := msg_num_recv pd + 1\<rparr>, s, w))"

definition comm_lib_tcp_recv_blocking ::
  "'w commu_sys \<Rightarrow> int \<Rightarrow> addr_info option \<Rightarrow> recv_payload_data option \<Rightarrow> u32 \<Rightarrow> lib_state \<Rightarrow> 'w \<Rightarrow>
   int \<times> addr_info option \<times> recv_payload_data option \<times> lib_state \<times> 'w" where
  "comm_lib_tcp_recv_blocking sys fd addresser_st payload_data max_msgs_to_recv s w =
    (if \<not> g_lib_commu_init_done s then (- EPERM, addresser_st, payload_data, s, w)
     else case (addresser_st, payload_data) of
       (Some _, Some pd) \<Rightarrow>
         let pd = pd\<lparr>msg_num_recv := 0, rp_payload_len := replicate MAX_MSGS 0, jumbo_payload_len := 0\<rparr>
         in if max_msgs_to_recv = 0 then (- EINVAL, addresser_st, Some pd, s, w)
            else if 1 < max_msgs_to_recv then (- EPERM, addresser_st, Some pd, s, w)
            else (case lib_commu_db_hanlde_info_get fd ANY_HANLDE_DB (lib_db s) of
                Inl err \<Rightarrow> (- err, addresser_st, Some pd, s, w)
              | Inr l \<Rightarrow>
                  if loc_type l \<noteq> TCP_CLIENT_HANDLE_DB \<and> loc_type l \<noteq> TCP_SERVER_HANDLE_DB
                  then (- EINVAL, addresser_st, Some pd, s, w)
                  else
                    let c = conn_info (handle_at l (lib_db s)); addr = \<lparr>port = d_port c, ipv4_addr = d_ipv4_addr c\<rparr>;
                        (err, metadata_len, buffer, s, w) =
                          comm_lib_tcp_ll_recv_blocking sys fd sizeof_msg_metadata (replicate sizeof_msg_metadata 0) s w
                    in if err \<noteq> 0 then (- err, Some addr, Some pd, s, w)
                       else if metadata_len < sizeof_msg_metadata then (- EIO, Some addr, Some pd, s, w)
                       else
                         let (err, metadata_st, h) = validate_metadata_info (parse_metadata_from_buffer buffer)
                               (of_nat MAX_JUMBO_TCP_PAYLOAD) (handle_at l (lib_db s));
                             s = s\<lparr>lib_db := set_handle_at l h (lib_db s)\<rparr>
                         in if err \<noteq> 0 then (- err, Some addr, Some pd, s, w)
                            else
                              let (r, pd, s, w) = recv_message sys fd metadata_st pd s w
                              in (r, Some addr, Some pd, s, w))
     | _ \<Rightarrow> (- EINVAL, addresser_st, payload_data, s, w))"

end
