(* ===== verification/Commu_Sessions.thy ===== *)
theory Commu_Sessions
  imports Commu
begin

text \<open>
  The sessions of the communication library (\<^verbatim>\<open>lib_commu.c\<close>): start and stop of the library, of UDP sessions, of
  TCP servers with their listener thread, and of TCP clients with their connecting thread. A thread is a function that may
  not return (None): it waits for ever or calls a null pointer. The other threads act, by \<open>sys_others\<close>, where a function
  waits in \<^verbatim>\<open>select\<close>, \<^verbatim>\<open>pthread_join\<close> and \<^verbatim>\<open>sleep\<close>. The user's functions act on the world only.
\<close>

section \<open>Events between threads\<close>

text \<open>A socket that has been closed may have changed \<^verbatim>\<open>errno\<close> before it is read.\<close>

definition close_after :: "'w commu_sys \<Rightarrow> int \<Rightarrow> int \<Rightarrow> 'w \<Rightarrow> int \<times> 'w" where
  "close_after sys fd errno w = (if fd = INVALID_HANDLE_ID then (errno, w)
     else let (err, w) = sys_close sys fd w in (if err \<noteq> 0 then err else errno, w))"

definition lib_db_init :: "'w commu_sys \<Rightarrow> lib_state \<Rightarrow> 'w \<Rightarrow> int \<times> lib_state \<times> 'w" where
  "lib_db_init sys s w =
    (let db = (lib_db s)\<lparr>listener_threads := replicate NUM_OF_LISTENER_THREADS 0,
           event_fd := replicate NUM_OF_LISTENER_THREADS 0, event_socket_path := replicate NUM_OF_LISTENER_THREADS []\<rparr>;
         (err, db, w) = lib_commu_db_init (sys_os sys) db w
     in (err, s\<lparr>lib_db := db, client_connect_thread_cnt := 0\<rparr>, w))"

definition lib_db_deinit :: "'w commu_sys \<Rightarrow> lib_state \<Rightarrow> 'w \<Rightarrow> int \<times> lib_state \<times> 'w" where
  "lib_db_deinit sys s w =
    (let db = (lib_db s)\<lparr>listener_threads := replicate NUM_OF_LISTENER_THREADS 0,
           event_fd := replicate NUM_OF_LISTENER_THREADS 0, event_socket_path := replicate NUM_OF_LISTENER_THREADS []\<rparr>;
         (err, db, w) = lib_commu_db_deinit (sys_os sys) db w
     in (err, s\<lparr>lib_db := db, client_connect_thread_cnt := 0\<rparr>, w))"

text \<open>The second result is the descriptor written back.\<close>

definition create_event_socket :: "'w commu_sys \<Rightarrow> string \<Rightarrow> 'w \<Rightarrow> int \<times> int \<times> 'w" where
  "create_event_socket sys path w = (case sys_socket sys UNIX_DGRAM w of
     (Inl err, w) \<Rightarrow> (err, INVALID_HANDLE_ID, w)
   | (Inr fd, w) \<Rightarrow>
       let w = sys_unlink sys path w; (err, w) = sys_bind sys fd (UNIX_PATH path) w in (err, fd, w))"

definition create_server_event_socket :: "'w commu_sys \<Rightarrow> nat \<Rightarrow> lib_state \<Rightarrow> 'w \<Rightarrow> int \<times> int \<times> lib_state \<times> 'w" where
  "create_server_event_socket sys idx s w =
    (let (err, fd, w) = create_event_socket sys (event_socket_path (lib_db s) ! idx) w
     in (err, fd, if err \<noteq> 0 then s else s\<lparr>lib_db := (lib_db s)\<lparr>event_fd := (event_fd (lib_db s))[idx := fd]\<rparr>\<rparr>, w))"

definition create_client_connect_event_socket :: "'w commu_sys \<Rightarrow> 'w \<Rightarrow> int \<times> int \<times> 'w" where
  "create_client_connect_event_socket sys w = create_event_socket sys CLIENT_CONNECT_THREAD_PATH w"

definition send_event :: "'w commu_sys \<Rightarrow> string \<Rightarrow> bytes \<Rightarrow> 'w \<Rightarrow> int \<times> 'w" where
  "send_event sys path data w = (case sys_socket sys UNIX_DGRAM w of
     (Inl err, w) \<Rightarrow> (err, w)
   | (Inr fd, w) \<Rightarrow>
       let (r, w) = sys_sendto sys fd (UNIX_PATH path) data w; w = snd (close_socket_wrapper sys fd w)
       in (case r of Inl err \<Rightarrow> err | Inr n \<Rightarrow> 0, w))"

definition le_bytes16 :: "u16 \<Rightarrow> bytes" where
  "le_bytes16 x = [ucast x, ucast (drop_bit 8 x)]"

definition of_le_bytes16 :: "bytes \<Rightarrow> u16" where
  "of_le_bytes16 bs = ucast (bs ! 0) OR push_bit 8 (ucast (bs ! 1))"

definition exit_server_thread :: "'w commu_sys \<Rightarrow> nat \<Rightarrow> lib_state \<Rightarrow> 'w \<Rightarrow> int \<times> lib_state \<times> 'w" where
  "exit_server_thread sys idx s w =
    (let (err, w) = send_event sys (event_socket_path (lib_db s) ! idx) (le_bytes16 (of_nat idx)) w
     in (err, if err \<noteq> 0 then s
          else s\<lparr>lib_db := (lib_db s)\<lparr>event_fd := (event_fd (lib_db s))[idx := INVALID_HANDLE_ID]\<rparr>\<rparr>, w))"

definition exit_client_connect_threads :: "'w commu_sys \<Rightarrow> 'w \<Rightarrow> int \<times> 'w" where
  "exit_client_connect_threads sys w = send_event sys CLIENT_CONNECT_THREAD_PATH (le_bytes32 1) w"

text \<open>Calling the user's function for a new handle.\<close>

definition notify :: "'w register_to_new_handle \<Rightarrow> int \<Rightarrow> addr_info \<Rightarrow> int \<Rightarrow> 'w \<Rightarrow> (int \<times> 'w) option" where
  "notify c fd peer rc w = map_option (\<lambda>f. f fd peer (clbk_data c) rc w) (clbk_notify_func c)"

section \<open>The listener thread\<close>

text \<open>The result: error, new socket, whether the user was told about it.\<close>

definition listener_new_connection ::
  "'w commu_sys \<Rightarrow> 'w listener_thread_args \<Rightarrow> lib_state \<Rightarrow> 'w \<Rightarrow> (int \<times> int \<times> bool \<times> lib_state \<times> 'w) option" where
  "listener_new_connection sys args s w = (case sys_accept sys (la_listener_fd args) w of
     (Inl err, w) \<Rightarrow> Some (err, INVALID_HANDLE_ID, False, s, w)
   | (Inr (new_sock, client_addr), w) \<Rightarrow>
       let (err, w) = in_turn [set_sock_buffer_size sys new_sock, set_sock_priority sys new_sock, set_sock_ka sys new_sock] w
       in if err \<noteq> 0 then Some (err, new_sock, False, s, w)
          else
            let (err, magic, w) = pseudo_random_uint32_get sys w
            in if err \<noteq> 0 then Some (err, new_sock, False, s, w)
               else
                 let (err, db, w) = listener_accept_update (sys_os sys) (la_server_id args) (la_params args) new_sock
                       (ipv4_addr client_addr) (port client_addr) magic (lib_db s) w;
                     s = s\<lparr>lib_db := db\<rparr>
                 in if err \<noteq> 0 then Some (err, new_sock, False, s, w)
                    else map_option (\<lambda>(err, w). (err, new_sock, err = 0, s, w))
                      (notify (la_clbk_st args) new_sock client_addr 0 w))"

text \<open>
  The loop over the descriptors; the first result is the error to leave the thread with, when it is to be left. The number
  that an event carries is read into two bytes that keep their value between events.
\<close>

fun listener_fds ::
  "'w commu_sys \<Rightarrow> 'w listener_thread_args \<Rightarrow> int list \<Rightarrow> int list \<Rightarrow> int \<Rightarrow> bytes \<Rightarrow> bool \<Rightarrow> lib_state \<Rightarrow> 'w \<Rightarrow>
   (int option \<times> int \<times> bytes \<times> bool \<times> lib_state \<times> 'w) option" where
  "listener_fds sys args read_fds [] new_sock buff sent s w = Some (None, new_sock, buff, sent, s, w)"
| "listener_fds sys args read_fds (i # is) new_sock buff sent s w =
    (if i \<in> set read_fds
     then if i = la_listener_fd args
       then Option.bind (listener_new_connection sys args s w) (\<lambda>(err, new_sock, sent, s, w).
         if err \<noteq> 0 then Some (Some err, new_sock, buff, sent, s, w)
         else listener_fds sys args read_fds is new_sock buff sent s w)
       else if i = la_event_fd args
       then (case sys_recvfrom sys i 2 w of
           (Inl err, w) \<Rightarrow> Some (Some err, new_sock, buff, sent, s, w)
         | (Inr (data, _), w) \<Rightarrow>
             let buff = write_at 0 (take 2 data) buff
             in if la_server_id args = unat (of_le_bytes16 buff)
                then
                  let (err, w) = in_turn
                    [close_socket_wrapper sys (la_listener_fd args), close_socket_wrapper sys (la_event_fd args)] w
                  in Some (Some err, new_sock, buff, sent, s, w)
                else listener_fds sys args read_fds is new_sock buff sent s w)
       else listener_fds sys args read_fds is new_sock buff sent s w
     else listener_fds sys args read_fds is new_sock buff sent s w)"

definition fds_upto :: "int \<Rightarrow> int list" where
  "fds_upto fd_max = map int [0..<nat (fd_max + 1)]"

partial_function (option) listener_loop ::
  "'w commu_sys \<Rightarrow> 'w listener_thread_args \<Rightarrow> int \<Rightarrow> bytes \<Rightarrow> lib_state \<Rightarrow> 'w \<Rightarrow>
   (int \<times> int \<times> bool \<times> lib_state \<times> 'w) option" where
  "listener_loop sys args new_sock buff s w =
    (let (s, w) = sys_others sys s w;
         ((err, read_fds, _, _), w) = sys_select sys [la_listener_fd args, la_event_fd args] [] None w
     in if err \<noteq> 0 \<and> err \<noteq> EINTR then Some (err, new_sock, False, s, w)
        else Option.bind (listener_fds sys args read_fds (fds_upto (max (la_listener_fd args) (la_event_fd args)))
            new_sock buff False s w) (\<lambda>(stop, new_sock, buff, sent, s, w).
          case stop of
            Some err \<Rightarrow> Some (err, new_sock, sent, s, w)
          | None \<Rightarrow> listener_loop sys args new_sock buff s w))"

definition listener_main_thread :: "'w commu_sys \<Rightarrow> 'w listener_thread_args \<Rightarrow> lib_state \<Rightarrow> 'w \<Rightarrow> (lib_state \<times> 'w) option" where
  "listener_main_thread sys args s w =
    (if la_listener_fd args = 0 then Some (s, w)
     else
       let (err, w) = sys_listen sys (la_listener_fd args) PENDING_CONNECTIOS_SIZE w
       in if err \<noteq> 0 then Some (s, w)
          else
            let (err, db) = lib_commu_db_server_status_listener_set (la_server_id args) (la_listener_fd args)
                  HANDLE_STATUS_UP (lib_db s);
                s = s\<lparr>lib_db := db\<rparr>
            in if err \<noteq> 0 then Some (s, w)
               else map_option (\<lambda>(err, new_sock, sent, s, w).
                   (s, if err \<noteq> 0 \<and> \<not> sent \<and> new_sock \<noteq> INVALID_HANDLE_ID
                       then snd (close_socket_wrapper sys new_sock w) else w))
                 (listener_loop sys args INVALID_HANDLE_ID [0, 0] s w))"

section \<open>The connecting thread\<close>

text \<open>The result: error, and whether the user was told about the socket.\<close>

definition handle_new_non_blocking_client ::
  "'w commu_sys \<Rightarrow> int \<Rightarrow> int \<Rightarrow> 'w connect_thread_args \<Rightarrow> lib_state \<Rightarrow> 'w \<Rightarrow> (int \<times> bool \<times> lib_state \<times> 'w) option" where
  "handle_new_non_blocking_client sys client_fd def_flags args s w =
    (if client_fd = INVALID_HANDLE_ID then Some (EPERM, False, s, w)
     else
       let (err, w) = sys_setfl sys client_fd False def_flags w
       in if err \<noteq> 0 then Some (err, False, s, w)
          else
            let (err, magic, w) = pseudo_random_uint32_get sys w
            in if err \<noteq> 0 then Some (err, False, s, w)
               else
                 let c = ca_conn_info args; peer_info = \<lparr>port = d_port c, ipv4_addr = d_ipv4_addr c\<rparr>;
                     (err, db, w) = lib_commu_db_tcp_client_handle_info_set (sys_os sys) client_fd (ucast (msg_type c))
                       \<lparr>port = 0, ipv4_addr = 0\<rparr> peer_info magic (lib_db s) w;
                     s = s\<lparr>lib_db := db\<rparr>
                 in if err \<noteq> 0 then Some (err, False, s, w)
                    else map_option (\<lambda>(err, w). (err, err = 0, s, w)) (notify (ca_clbk_st args) client_fd peer_info 0 w))"

fun connect_fds ::
  "'w commu_sys \<Rightarrow> 'w connect_thread_args \<Rightarrow> int \<Rightarrow> int list \<Rightarrow> int list \<Rightarrow> int list \<Rightarrow> lib_state \<Rightarrow> 'w \<Rightarrow>
   ((int \<times> bool) option \<times> lib_state \<times> 'w) option" where
  "connect_fds sys args fd_flags read_fds write_fds [] s w = Some (None, s, w)"
| "connect_fds sys args fd_flags read_fds write_fds (i # is) s w =
    (if i \<in> set write_fds
     then if i = ca_client_fd args
       then (case sys_so_error sys i w of
           (Inl err, w) \<Rightarrow> Some (Some (err, False), s, w)
         | (Inr so_err_val, w) \<Rightarrow>
             if so_err_val = 0
             then map_option (\<lambda>(err, sent, s, w). (Some (err, sent), s, w))
               (handle_new_non_blocking_client sys (ca_client_fd args) fd_flags args s w)
             else Some (Some (so_err_val, False), s, w))
       else connect_fds sys args fd_flags read_fds write_fds is s w
     else if i \<in> set read_fds \<and> i = client_connect_exit_event_fd s then Some (Some (- 1, False), s, w)
     else connect_fds sys args fd_flags read_fds write_fds is s w)"

text \<open>What \<^verbatim>\<open>select\<close> leaves of the time given is what the next round waits for.\<close>

partial_function (option) connect_loop ::
  "'w commu_sys \<Rightarrow> 'w connect_thread_args \<Rightarrow> int \<Rightarrow> int \<Rightarrow> nat \<Rightarrow> lib_state \<Rightarrow> 'w \<Rightarrow>
   (int \<times> bool \<times> lib_state \<times> 'w) option" where
  "connect_loop sys args fd_flags fd_max tval s w =
    (let exit_fd = client_connect_exit_event_fd s; (s, w) = sys_others sys s w;
         ((err, read_fds, write_fds, left), w) =
           sys_select sys [exit_fd] [ca_client_fd args] (if use_tval args then Some tval else None) w
     in if err \<noteq> 0 \<and> err \<noteq> EINTR then Some (err, False, s, w)
        else Option.bind (connect_fds sys args fd_flags read_fds write_fds (fds_upto fd_max) s w) (\<lambda>(stop, s, w).
          case stop of
            Some (err, sent) \<Rightarrow> Some (err, sent, s, w)
          | None \<Rightarrow> connect_loop sys args fd_flags fd_max left s w))"

definition connect_bail ::
  "'w commu_sys \<Rightarrow> 'w connect_thread_args \<Rightarrow> int \<times> bool \<times> lib_state \<times> 'w \<Rightarrow> (lib_state \<times> 'w) option" where
  "connect_bail sys args = (\<lambda>(err, sent, s, w).
    let done = s\<lparr>client_connect_thread_cnt := client_connect_thread_cnt s - 1\<rparr>; c = ca_conn_info args
    in if err \<noteq> 0 \<and> ca_client_fd args \<noteq> INVALID_HANDLE_ID
       then
         let w = (if \<not> sent then snd (close_socket_wrapper sys (ca_client_fd args) w) else w)
         in map_option (\<lambda>(bail_err, w). (done, w)) (notify (ca_clbk_st args) INVALID_HANDLE_ID
           \<lparr>port = d_port c, ipv4_addr = d_ipv4_addr c\<rparr> (- err) w)
       else Some (done, w))"

definition client_connect_thread :: "'w commu_sys \<Rightarrow> 'w connect_thread_args \<Rightarrow> lib_state \<Rightarrow> 'w \<Rightarrow> (lib_state \<times> 'w) option" where
  "client_connect_thread sys args s w =
    (let s = s\<lparr>client_connect_thread_cnt := client_connect_thread_cnt s + 1\<rparr>; client_fd = ca_client_fd args; c = ca_conn_info args
     in if client_fd = 0 then connect_bail sys args (EINVAL, False, s, w)
        else case sys_getfl sys client_fd w of
          (Inl err, w) \<Rightarrow> connect_bail sys args (err, False, s, w)
        | (Inr fd_flags, w) \<Rightarrow>
            let (err, w) = sys_setfl sys client_fd True fd_flags w
            in if err \<noteq> 0
               then let (err, w) = close_after sys client_fd err w in connect_bail sys args (err, False, s, w)
               else
                 let (err, w) = sys_connect sys client_fd \<lparr>port = d_port c, ipv4_addr = d_ipv4_addr c\<rparr> w
                 in if err = 0
                    then Option.bind (handle_new_non_blocking_client sys client_fd fd_flags args s w) (connect_bail sys args)
                    else if err \<noteq> EINPROGRESS then connect_bail sys args (err, False, s, w)
                    else Option.bind (connect_loop sys args fd_flags (max client_fd (client_connect_exit_event_fd s))
                      (ca_tval args) s w) (connect_bail sys args))"

end
