(* ===== verification/Commu_Api.thy ===== *)
theory Commu_Api
  imports Commu_Sessions
begin

text \<open>
  The calls of \<^verbatim>\<open>lib_commu.c\<close> that start and stop the library and its sessions and ask for their status. They
  return the negated error number.
\<close>

section \<open>The library\<close>

definition comm_lib_init :: "'w commu_sys \<Rightarrow> u64 \<Rightarrow> lib_state \<Rightarrow> 'w \<Rightarrow> int \<times> lib_state \<times> 'w" where
  "comm_lib_init sys logging_cb s w =
    (let s = (if logging_cb = 0 then s else s\<lparr>lib_commu_log_cb := logging_cb\<rparr>)
     in if g_lib_commu_init_done s then (0, s, w)
        else
          let (err, s, w) = lib_db_init sys s w
          in if err \<noteq> 0 then (- err, s, w)
             else
               let ((r, errno), w) = sys_mutex_init sys w
               in if r < 0 then (- errno, s, w)
                  else
                    let ((r, errno), w) = sys_mutex_init sys w
                    in if r < 0 then (- errno, s, w)
                       else
                         let (err, w) = pseudo_random_gen_uint32_init sys w
                         in if err \<noteq> 0 then (- err, s, w)
                            else
                              let (err, fd, w) = create_client_connect_event_socket sys w;
                                  s = s\<lparr>client_connect_exit_event_fd := fd\<rparr>
                              in if err \<noteq> 0 then (- err, s, w) else (0, s\<lparr>g_lib_commu_init_done := True\<rparr>, w))"

partial_function (option) wait_connect_threads :: "'w commu_sys \<Rightarrow> lib_state \<Rightarrow> 'w \<Rightarrow> (lib_state \<times> 'w) option" where
  "wait_connect_threads sys s w =
    (if client_connect_thread_cnt s = 0 then Some (s, w)
     else let (s, w) = sys_others sys s w in wait_connect_threads sys s w)"

text \<open>The last of several errors is the one returned. None: the connecting threads never end.\<close>

definition later_error :: "int \<Rightarrow> int \<Rightarrow> int" where
  "later_error tmp_err err = (if tmp_err \<noteq> 0 then tmp_err else err)"

definition comm_lib_deinit :: "'w commu_sys \<Rightarrow> lib_state \<Rightarrow> 'w \<Rightarrow> (int \<times> lib_state \<times> 'w) option" where
  "comm_lib_deinit sys s w =
    (if \<not> g_lib_commu_init_done s then Some (- EPERM, s, w)
     else
       let s = s\<lparr>g_lib_commu_init_done := False\<rparr>;
           (err1, w) = sys_mutex_destroy sys w;
           (err2, w) = sys_mutex_destroy sys w;
           (err3, w) = (if client_connect_thread_cnt s > 0 then exit_client_connect_threads sys w else (0, w))
       in map_option (\<lambda>(s, w).
            let (err4, w) = (if client_connect_exit_event_fd s \<noteq> INVALID_HANDLE_ID
                  then close_socket_wrapper sys (client_connect_exit_event_fd s) w else (0, w));
                (err5, s, w) = lib_db_deinit sys s w
            in (- later_error err5 (later_error err4 (later_error err3 (later_error err2 err1))), s, w))
          (wait_connect_threads sys s w))"

definition comm_lib_verbosity_level_set :: "int \<Rightarrow> lib_state \<Rightarrow> int \<times> lib_state" where
  "comm_lib_verbosity_level_set verbosity s =
    (if \<not> g_lib_commu_init_done s then (- EPERM, s)
     else if verbosity > 0 \<and> verbosity \<le> 7
     then
       let s = s\<lparr>lib_commu_verbosity := nat verbosity\<rparr>; (err, db) = comm_lib_db_verbosity_level_set verbosity (lib_db s)
       in (- err, s\<lparr>lib_db := db\<rparr>)
     else (- EINVAL, s))"

definition comm_lib_verbosity_level_get :: "bool \<Rightarrow> lib_state \<Rightarrow> int \<times> nat option" where
  "comm_lib_verbosity_level_get have_out s =
    (if \<not> g_lib_commu_init_done s then (- EPERM, None)
     else if \<not> have_out then (- EINVAL, None)
     else (0, Some (lib_commu_verbosity s)))"

section \<open>UDP sessions\<close>

text \<open>The second result is the handle written back, when one is written. A failure closes the socket.\<close>

definition comm_lib_udp_session_start ::
  "'w commu_sys \<Rightarrow> bool \<Rightarrow> udp_params option \<Rightarrow> lib_state \<Rightarrow> 'w \<Rightarrow> int \<times> int option \<times> lib_state \<times> 'w" where
  "comm_lib_udp_session_start sys have_handle params s w = (case params of
     None \<Rightarrow> (- EINVAL, None, s, w)
   | Some params \<Rightarrow>
       if \<not> have_handle then (- EINVAL, None, s, w)
       else if \<not> g_lib_commu_init_done s then (- EPERM, None, s, w)
       else case sys_socket sys INET_DGRAM w of
         (Inl err, w) \<Rightarrow> (- err, Some 0, s, w)
       | (Inr sockfd, w) \<Rightarrow>
           let bail = (\<lambda>err s w. (- err, Some 0, s, snd (close_socket_wrapper sys sockfd w)));
               (err, w) = set_sock_priority sys sockfd w;
               p = up_session_params (ip_udp_fields params)
           in if err \<noteq> 0 then bail err s w
              else if udp_type_of params \<noteq> CONN_TYPE_UDP_IP_UC then bail EKEYREJECTED s w
              else
                let (err, w) = (if connection_role (ip_udp_fields params) = CONN_SERVER
                      then sys_bind sys sockfd (INET_ADDR \<lparr>port = sp_port p, ipv4_addr = sp_s_ipv4_addr p\<rparr>) w else (0, w))
                in if err \<noteq> 0 then bail err s w
                   else
                     let (err, magic, w) = pseudo_random_uint32_get sys w
                     in if err \<noteq> 0 then bail err s w
                        else
                          let (err, db, w) = lib_commu_db_udp_handle_info_set (sys_os sys) sockfd (ip_udp_fields params)
                                magic (lib_db s) w;
                              s = s\<lparr>lib_db := db\<rparr>
                          in if err \<noteq> 0 then bail err s w else (0, Some sockfd, s, w))"

definition comm_lib_udp_session_stop :: "'w commu_sys \<Rightarrow> int \<Rightarrow> lib_state \<Rightarrow> 'w \<Rightarrow> int \<times> lib_state \<times> 'w" where
  "comm_lib_udp_session_stop sys fd s w =
    (if \<not> g_lib_commu_init_done s then (- EPERM, s, w)
     else
       let (err, w) = close_socket_wrapper sys fd w
       in if err \<noteq> 0 then (- err, s, w)
          else
            let (err, db, w) = lib_commu_db_udp_handle_info_delete (sys_os sys) fd (lib_db s) w
            in (- err, s\<lparr>lib_db := db\<rparr>, w))"

section \<open>TCP servers\<close>

text \<open>
  The part between lock and unlock: the number written back, and whether the listener thread is started. Whatever fails
  here, the unlock that follows decides the value that is returned.
\<close>

definition server_start_locked ::
  "'w commu_sys \<Rightarrow> int \<Rightarrow> session_params \<Rightarrow> 'w register_to_new_handle \<Rightarrow> lib_state \<Rightarrow> 'w \<Rightarrow>
   bool \<times> nat option \<times> lib_state \<times> 'w" where
  "server_start_locked sys listener params clbk_st s w =
    (case lib_commu_db_unoccupied_listener_thread_get True (lib_db s) of
       Inl err \<Rightarrow> (False, None, s, snd (close_socket_wrapper sys listener w))
     | Inr idx \<Rightarrow>
         let (err, fd, s, w) = create_server_event_socket sys idx s w
         in if err \<noteq> 0 then (False, Some idx, s, snd (close_socket_wrapper sys listener w))
            else
              let (ok, w) = sys_malloc sys w
              in if \<not> ok then (False, Some idx, s, w)
                 else case sys_thread_create sys (LISTENER_MAIN_THREAD \<lparr>la_event_fd = fd, la_server_id = idx,
                       la_thread_idx = idx, la_listener_fd = listener, la_clbk_st = clbk_st, la_params = params\<rparr>) w of
                   (Inl err, w) \<Rightarrow> (False, Some idx, s, snd (close_socket_wrapper sys listener w))
                 | (Inr thread, w) \<Rightarrow> (True, Some idx,
                     s\<lparr>lib_db := (lib_db s)\<lparr>listener_threads := (listener_threads (lib_db s))[idx := thread]\<rparr>\<rparr>, w))"

definition comm_lib_tcp_server_session_start ::
  "'w commu_sys \<Rightarrow> session_params \<Rightarrow> 'w register_to_new_handle option \<Rightarrow> bool \<Rightarrow> lib_state \<Rightarrow> 'w \<Rightarrow>
   int \<times> nat option \<times> lib_state \<times> 'w" where
  "comm_lib_tcp_server_session_start sys params clbk_st have_server_id s w = (case clbk_st of
     None \<Rightarrow> (- EINVAL, None, s, w)
   | Some clbk_st \<Rightarrow>
       if clbk_notify_func clbk_st = None \<or> \<not> have_server_id then (- EINVAL, None, s, w)
       else if \<not> g_lib_commu_init_done s then (- EPERM, None, s, w)
       else case sys_socket sys INET_STREAM w of
         (Inl err, w) \<Rightarrow> (- err, None, s, w)
       | (Inr listener, w) \<Rightarrow>
           let (err, w) = sys_setsockopt sys listener (SOL_SOCKET, SO_REUSEADDR, 1) w
           in if err \<noteq> 0 then let (err, w) = close_after sys listener err w in (- err, None, s, w)
              else
                let (err, w) = sys_bind sys listener
                      (INET_ADDR \<lparr>port = sp_port params, ipv4_addr = sp_s_ipv4_addr params\<rparr>) w
                in if err \<noteq> 0 then let (err, w) = close_after sys listener err w in (- err, None, s, w)
                   else
                     let (err, w) = sys_session_lock sys w
                     in if err \<noteq> 0 then (- err, None, s, w)
                        else
                          let (started, server_id, s, w) = server_start_locked sys listener params clbk_st s w;
                              (err, w) = sys_session_unlock sys w
                          in if started \<and> err \<noteq> 0
                             then let (err, w) = sys_session_unlock sys w in (- err, server_id, s, w)
                             else (- err, server_id, s, w))"

text \<open>Closing the sockets of a server's clients; as many handles as there is room for are written back.\<close>

fun stop_clients :: "'w commu_sys \<Rightarrow> int list \<Rightarrow> nat \<Rightarrow> int list \<Rightarrow> nat \<Rightarrow> 'w \<Rightarrow> int \<times> int list \<times> 'w" where
  "stop_clients sys [] handle_array_len handle_array j w = (0, handle_array, w)"
| "stop_clients sys (fd # fds) handle_array_len handle_array j w =
    (if fd \<noteq> INVALID_HANDLE_ID
     then
       let (err, w) = close_socket_wrapper sys fd w
       in if err \<noteq> 0 then (err, handle_array, w)
          else if j < handle_array_len then stop_clients sys fds handle_array_len (handle_array[j := fd]) (j + 1) w
          else stop_clients sys fds handle_array_len handle_array j w
     else stop_clients sys fds handle_array_len handle_array j w)"

text \<open>The part between lock and unlock: whether all of it was done.\<close>

definition server_stop_locked ::
  "'w commu_sys \<Rightarrow> nat \<Rightarrow> int list \<Rightarrow> u32 \<Rightarrow> lib_state \<Rightarrow> 'w \<Rightarrow> bool \<times> int list \<times> lib_state \<times> 'w" where
  "server_stop_locked sys server_id handle_array handle_array_len s w =
    (let s = s\<lparr>lib_db := (lib_db s)\<lparr>listener_threads := (listener_threads (lib_db s))[server_id := 0]\<rparr>\<rparr>;
         (err, handle_array, w) = stop_clients sys
           (map cs_handle (take MAX_CONNECTION_NUM (client_status (server_status_st (lib_db s) ! server_id))))
           (unat handle_array_len) handle_array 0 w
     in if err \<noteq> 0 then (False, handle_array, s, w)
        else
          let (err, db) = lib_commu_db_tcp_session_db_deinit server_id (lib_db s)
          in (err = 0, handle_array, s\<lparr>lib_db := db\<rparr>, w))"

definition comm_lib_tcp_server_session_stop ::
  "'w commu_sys \<Rightarrow> nat \<Rightarrow> int list option \<Rightarrow> u32 \<Rightarrow> lib_state \<Rightarrow> 'w \<Rightarrow> int \<times> int list option \<times> lib_state \<times> 'w" where
  "comm_lib_tcp_server_session_stop sys server_id handle_array handle_array_len s w =
    (if \<not> g_lib_commu_init_done s then (- EPERM, handle_array, s, w)
     else case handle_array of
       None \<Rightarrow> (- EINVAL, handle_array, s, w)
     | Some handles \<Rightarrow>
         if handle_array_len = 0 \<or> SERVER_STATUS_ARR_LENGTH \<le> server_id then (- EINVAL, handle_array, s, w)
         else
           let (err, _, db, w) = lib_commu_db_tcp_server_status_get (sys_os sys) True server_id (lib_db s) w;
               s = s\<lparr>lib_db := db\<rparr>
           in if err \<noteq> 0 then (- err, handle_array, s, w)
              else if listener_status (server_status_st (lib_db s) ! server_id) = HANDLE_STATUS_DOWN
              then (0, handle_array, s, w)
              else
                let (err, s, w) = exit_server_thread sys server_id s w
                in if err \<noteq> 0 then (- err, handle_array, s, w)
                   else
                     let thread = listener_threads (lib_db s) ! server_id; (s, w) = sys_others sys s w;
                         (err, w) = sys_thread_join sys thread w
                     in if err \<noteq> 0 then (- err, handle_array, s, w)
                        else
                          let (err, w) = sys_session_lock sys w
                          in if err \<noteq> 0 then (- err, handle_array, s, w)
                             else
                               let (ok, handles, s, w) = server_stop_locked sys server_id handles handle_array_len s w;
                                   (err, w) = sys_session_unlock sys w
                               in if ok \<and> err \<noteq> 0
                                  then let (err, w) = sys_session_unlock sys w in (- err, Some handles, s, w)
                                  else (- err, Some handles, s, w))"

section \<open>TCP clients\<close>

definition comm_lib_tcp_client_blocking_start ::
  "'w commu_sys \<Rightarrow> connection_info option \<Rightarrow> bool \<Rightarrow> lib_state \<Rightarrow> 'w \<Rightarrow> int \<times> int option \<times> lib_state \<times> 'w" where
  "comm_lib_tcp_client_blocking_start sys conn_info_st have_handle s w =
    (if \<not> g_lib_commu_init_done s then (- EPERM, None, s, w)
     else case conn_info_st of
       None \<Rightarrow> (- EINVAL, None, s, w)
     | Some c \<Rightarrow>
         if \<not> have_handle then (- EINVAL, None, s, w)
         else case sys_socket sys INET_STREAM w of
           (Inl err, w) \<Rightarrow> (- err, Some 0, s, w)
         | (Inr sock_fd, w) \<Rightarrow>
             let bail = (\<lambda>err s w. (- err, Some 0, s, snd (close_socket_wrapper sys sock_fd w)));
                 peer_info = \<lparr>port = d_port c, ipv4_addr = d_ipv4_addr c\<rparr>;
                 (err, w) = in_turn [set_sock_buffer_size sys sock_fd, set_sock_priority sys sock_fd,
                   set_sock_ka sys sock_fd, sys_connect sys sock_fd peer_info] w
             in if err \<noteq> 0 then bail err s w
                else
                  let (err, magic, w) = pseudo_random_uint32_get sys w
                  in if err \<noteq> 0 then bail err s w
                     else
                       let (err, db, w) = lib_commu_db_tcp_client_handle_info_set (sys_os sys) sock_fd
                             (ucast (msg_type c)) \<lparr>port = 0, ipv4_addr = 0\<rparr> peer_info magic (lib_db s) w;
                           s = s\<lparr>lib_db := db\<rparr>
                       in if err \<noteq> 0 then bail err s w else (0, Some sock_fd, s, w))"

definition comm_lib_tcp_client_non_blocking_start ::
  "'w commu_sys \<Rightarrow> connection_info option \<Rightarrow> 'w register_to_new_handle option \<Rightarrow> nat option \<Rightarrow> lib_state \<Rightarrow> 'w \<Rightarrow>
   int \<times> lib_state \<times> 'w" where
  "comm_lib_tcp_client_non_blocking_start sys conn_info_st clbk_st tval s w =
    (if \<not> g_lib_commu_init_done s then (- EPERM, s, w)
     else case (conn_info_st, clbk_st) of
       (Some c, Some clbk_st) \<Rightarrow>
        (case sys_socket sys INET_STREAM w of
           (Inl err, w) \<Rightarrow> (- err, s, w)
         | (Inr sock_fd, w) \<Rightarrow>
             let bail = (\<lambda>err w. (- err, s, snd (close_socket_wrapper sys sock_fd w)));
                 (err, w) = in_turn [set_sock_buffer_size sys sock_fd, set_sock_priority sys sock_fd] w
             in if err \<noteq> 0 then bail err w
                else
                  let (ok, w) = sys_malloc sys w
                  in if \<not> ok then bail EINVAL w
                     else
                       let (err, w) = sys_attr_init sys w
                       in if err \<noteq> 0 then bail err w
                          else
                            let args = \<lparr>ca_client_fd = sock_fd, ca_conn_info = c, ca_clbk_st = clbk_st,
                                  ca_tval = (case tval of None \<Rightarrow> 0 | Some t \<Rightarrow> t), use_tval = (tval \<noteq> None)\<rparr>;
                                (err, w) = in_turn [sys_attr_detach sys, \<lambda>w. case
                                    sys_thread_create sys (CLIENT_CONNECT_THREAD args) w of
                                  (Inl err, w) \<Rightarrow> (err, w) | (Inr thread, w) \<Rightarrow> (0, w)] w;
                                w = (if err \<noteq> 0 then snd (close_socket_wrapper sys sock_fd w) else w)
                            in (- err, s, snd (sys_attr_destroy sys w)))
     | _ \<Rightarrow> (- EINVAL, s, w))"

definition comm_lib_tcp_peer_stop :: "'w commu_sys \<Rightarrow> int \<Rightarrow> lib_state \<Rightarrow> 'w \<Rightarrow> int \<times> lib_state \<times> 'w" where
  "comm_lib_tcp_peer_stop sys fd s w =
    (if \<not> g_lib_commu_init_done s then (- EPERM, s, w)
     else
       let (err, w) = close_socket_wrapper sys fd w
       in if err \<noteq> 0 then (- err, s, w)
          else
            let (err, db, w) = lib_commu_db_tcp_handle_info_delete (sys_os sys) fd (lib_db s) w
            in (- err, s\<lparr>lib_db := db\<rparr>, w))"

section \<open>Status\<close>

definition comm_lib_tcp_server_status_get ::
  "'w commu_sys \<Rightarrow> bool \<Rightarrow> nat \<Rightarrow> lib_state \<Rightarrow> 'w \<Rightarrow> int \<times> server_status option \<times> lib_state \<times> 'w" where
  "comm_lib_tcp_server_status_get sys have_out server_id s w =
    (if \<not> g_lib_commu_init_done s then (- EPERM, None, s, w)
     else if \<not> have_out then (- EINVAL, None, s, w)
     else
       let (err, status, db, w) = lib_commu_db_tcp_server_status_get (sys_os sys) have_out server_id (lib_db s) w
       in (- err, status, s\<lparr>lib_db := db\<rparr>, w))"

text \<open>This call returns the error as it is. A handle without a connection is reported up, with the result -1.\<close>

definition comm_lib_tcp_handle_status_get ::
  "'w commu_sys \<Rightarrow> connection_status option \<Rightarrow> lib_state \<Rightarrow> 'w \<Rightarrow> int \<times> connection_status option \<times> 'w" where
  "comm_lib_tcp_handle_status_get sys status s w =
    (if \<not> g_lib_commu_init_done s then (EPERM, status, w)
     else case status of
       None \<Rightarrow> (EINVAL, status, w)
     | Some st \<Rightarrow>
         if cs_handle st = INVALID_HANDLE_ID then (EINVAL, status, w)
         else
           let (r, w) = sys_peer_addr sys (cs_handle st) w;
               up = (\<lambda>err addr w.
                 let st = st\<lparr>handle_status := HANDLE_STATUS_UP, peer_ipv4_addr := ipv4_addr addr, peer_port := port addr\<rparr>
                 in case sys_local_addr sys (cs_handle st) w of
                      (Inl errno, w) \<Rightarrow> (errno, Some st, w)
                    | (Inr local, w) \<Rightarrow>
                        (err, Some (st\<lparr>local_ipv4_addr := ipv4_addr local, local_port := port local\<rparr>), w))
           in case r of
                Inl errno \<Rightarrow> if errno = ENOTCONN then up (- 1) \<lparr>port = 0, ipv4_addr = 0\<rparr> w else (errno, status, w)
              | Inr addr \<Rightarrow> up 0 addr w)"

end
