(* ===== verification/Commu_Db_Inv.thy ===== *)
theory Commu_Db_Inv
  imports Commu_Db "HOL-Library.Multiset"
begin

text \<open>
  The tables of the communication database as multisets of handles. A table of fixed slots is
  an interface (\<open>slot_table\<close>): an entry has a key, a free slot has the invalid key, and the
  searches and updates of the code act on the multiset of keys in use. It is interpreted on
  the handle tables and on the client tables of the servers. The invariant ties the two tables
  of each server and its client count together.
\<close>

section \<open>Tables of slots\<close>

definition keys :: "('a \<Rightarrow> int) \<Rightarrow> 'a list \<Rightarrow> int multiset" where
  "keys key tbl = filter_mset (\<lambda>fd. fd \<noteq> INVALID_HANDLE_ID) (mset (map key tbl))"

lemma first_idx_Some:
  "first_idx P xs = Some i \<Longrightarrow> i < length xs \<and> P (xs ! i) \<and> (\<forall>j<i. \<not> P (xs ! j))"
proof (induction xs arbitrary: i)
  case (Cons x xs)
  then show ?case by (cases i) (auto split: if_splits simp: nth_Cons less_Suc_eq_0_disj)
qed simp

lemma first_idx_None: "first_idx P xs = None \<longleftrightarrow> (\<forall>x\<in>set xs. \<not> P x)"
  by (induction xs) auto

lemma first_idx_unique:
  assumes "i < length xs" "P (xs ! i)" "\<forall>j<length xs. P (xs ! j) \<longrightarrow> j = i"
  shows "first_idx P xs = Some i"
proof (cases "first_idx P xs")
  case None
  then have "\<not> P (xs ! i)"
    using nth_mem [OF assms(1)] by (simp add: first_idx_None)
  with assms(2) show ?thesis by simp
next
  case (Some k)
  then have "k = i"
    using first_idx_Some [OF Some] assms(3) by blast
  with Some show ?thesis by simp
qed

lemma mset_map_update:
  "i < length tbl \<Longrightarrow> mset (map key (tbl[i := e])) = add_mset (key e) (mset (map key tbl) - {#key (tbl ! i)#})"
  by (simp add: map_update mset_update del: mset_map)

locale slot_table =
  fixes key :: "'a \<Rightarrow> int" and empty :: 'a
  assumes key_empty: "key empty = INVALID_HANDLE_ID"
begin

lemma keys_update:
  assumes "i < length tbl"
  shows "keys key (tbl[i := e]) =
    (if key e \<noteq> INVALID_HANDLE_ID then {#key e#} else {#}) + (keys key tbl - {#key (tbl ! i)#})"
  using mset_map_update [OF assms, of key e] by (auto simp: keys_def)

lemma keys_put:
  assumes "first_idx (\<lambda>e. key e = INVALID_HANDLE_ID) tbl = Some i" "key e \<noteq> INVALID_HANDLE_ID"
  shows "keys key (tbl[i := e]) = add_mset (key e) (keys key tbl)"
proof -
  have "INVALID_HANDLE_ID \<notin># keys key tbl" by (simp add: keys_def)
  then show ?thesis
    using first_idx_Some [OF assms(1)] assms(2) keys_update [of i tbl e] by (simp add: diff_single_trivial)
qed

lemma keys_clear:
  assumes "first_idx (\<lambda>e. key e = fd) tbl = Some i" "fd \<noteq> INVALID_HANDLE_ID"
  shows "keys key (tbl[i := empty]) = keys key tbl - {#fd#}"
  using first_idx_Some [OF assms(1)] assms(2) keys_update [of i tbl empty] key_empty by simp

lemma keys_found:
  "fd \<noteq> INVALID_HANDLE_ID \<Longrightarrow> first_idx (\<lambda>e. key e = fd) tbl = None \<longleftrightarrow> fd \<notin># keys key tbl"
  by (auto simp: first_idx_None keys_def)

lemma keys_member: "first_idx (\<lambda>e. key e = fd) tbl = Some i \<Longrightarrow> fd \<noteq> INVALID_HANDLE_ID \<Longrightarrow> fd \<in># keys key tbl"
  using keys_found [of fd tbl] by simp

lemma keys_full:
  "first_idx (\<lambda>e. key e = INVALID_HANDLE_ID) tbl = None \<longleftrightarrow> size (keys key tbl) = length tbl"
proof -
  have "size (keys key tbl) = length (filter (\<lambda>e. key e \<noteq> INVALID_HANDLE_ID) tbl)"
    unfolding keys_def by (induction tbl) auto
  moreover have "length (filter (\<lambda>e. key e \<noteq> INVALID_HANDLE_ID) tbl) < length tbl"
    if "x \<in> set tbl" "key x = INVALID_HANDLE_ID" for x
    using length_filter_less [of x tbl "\<lambda>e. key e \<noteq> INVALID_HANDLE_ID"] that by simp
  moreover have "filter (\<lambda>e. key e \<noteq> INVALID_HANDLE_ID) tbl = tbl" if "\<forall>x\<in>set tbl. key x \<noteq> INVALID_HANDLE_ID"
    using that by (simp add: filter_id_conv)
  ultimately show ?thesis
    unfolding first_idx_None by (metis nat_neq_iff)
qed

lemma keys_replicate: "keys key (replicate n empty) = {#}"
  by (induction n) (auto simp: keys_def key_empty)

lemma keys_same_key:
  "i < length tbl \<Longrightarrow> key e = key (tbl ! i) \<Longrightarrow> keys key (tbl[i := e]) = keys key tbl"
  using mset_map_update [of i tbl key e] by (simp add: keys_def)

text \<open>An entry put into a free slot under a key not in use is the one found under that key.\<close>

lemma put_find:
  assumes "first_idx (\<lambda>e. key e = INVALID_HANDLE_ID) tbl = Some i" "key e \<noteq> INVALID_HANDLE_ID"
    and "key e \<notin># keys key tbl"
  shows "first_idx (\<lambda>x. key x = key e) (tbl[i := e]) = Some i"
proof (rule first_idx_unique)
  show "\<forall>j<length (tbl[i := e]). key (tbl[i := e] ! j) = key e \<longrightarrow> j = i"
  proof (intro allI impI)
    fix j
    assume j: "j < length (tbl[i := e])" "key (tbl[i := e] ! j) = key e"
    have "key e \<notin> key ` set tbl"
      using assms(2,3) by (simp add: keys_def)
    moreover have "key (tbl ! j) \<in> key ` set tbl" if "j \<noteq> i"
      using j(1) by simp
    ultimately show "j = i"
      using j by (cases "j = i") auto
  qed
qed (use first_idx_Some [OF assms(1)] in auto)

end

interpretation handles: slot_table handle empty_handle_info
  by unfold_locales (simp add: empty_handle_info_def)

interpretation clients: slot_table cs_handle empty_connection_status
  by unfold_locales (simp add: empty_connection_status_def)

section \<open>The invariant\<close>

definition udp_handles :: "commu_db \<Rightarrow> int multiset" where
  "udp_handles db = keys handle (udp_handle_info db)"

definition tcp_client_handles :: "commu_db \<Rightarrow> int multiset" where
  "tcp_client_handles db = keys handle (client_tcp_handle_info db)"

definition tcp_server_handles :: "nat \<Rightarrow> commu_db \<Rightarrow> int multiset" where
  "tcp_server_handles j db = keys handle (server_tcp_handle_info db ! j)"

definition server_clients :: "nat \<Rightarrow> commu_db \<Rightarrow> int multiset" where
  "server_clients j db = keys cs_handle (client_status (server_status_st db ! j))"

definition db_sizes :: "commu_db \<Rightarrow> bool" where
  "db_sizes db \<longleftrightarrow> length (udp_handle_info db) = UDP_HANDLE_ARR_LENGTH \<and>
     length (client_tcp_handle_info db) = TCP_HANDLE_ARR_LENGTH \<and>
     length (server_tcp_handle_info db) = SERVER_STATUS_ARR_LENGTH \<and>
     (\<forall>t\<in>set (server_tcp_handle_info db). length t = TCP_HANDLE_ARR_LENGTH) \<and>
     length (server_status_st db) = SERVER_STATUS_ARR_LENGTH \<and>
     (\<forall>s\<in>set (server_status_st db). length (client_status s) = MAX_CONNECTION_NUM)"

definition server_ok :: "commu_db \<Rightarrow> nat \<Rightarrow> bool" where
  "server_ok db j \<longleftrightarrow> tcp_server_handles j db = server_clients j db \<and>
     unat (clients_num (server_status_st db ! j)) = size (server_clients j db)"

definition db_inv :: "commu_db \<Rightarrow> bool" where
  "db_inv db \<longleftrightarrow> db_sizes db \<and> (\<forall>j<SERVER_STATUS_ARR_LENGTH. server_ok db j)"

lemmas db_counts = udp_handles_def tcp_client_handles_def tcp_server_handles_def server_clients_def
lemmas db_consts = UDP_HANDLE_ARR_LENGTH_def TCP_HANDLE_ARR_LENGTH_def SERVER_STATUS_ARR_LENGTH_def
  NUM_OF_LISTENER_THREADS_def MAX_CONNECTION_NUM_def

lemma set_update_all:
  assumes "\<forall>x\<in>set xs. P x" "i < length xs \<Longrightarrow> P y"
  shows "\<forall>x\<in>set (xs[i := y]). P x"
proof (cases "i < length xs")
  case True
  then show ?thesis using assms set_update_subset_insert [of xs i y] by blast
qed (use assms in \<open>simp add: list_update_beyond\<close>)

lemma db_sizes_set_handle [simp]: "db_sizes db \<Longrightarrow> db_sizes (set_handle_at l h db)"
proof (cases l)
  case (SERVER_AT j i)
  assume sz: "db_sizes db"
  have "\<forall>t\<in>set ((server_tcp_handle_info db)[j := (server_tcp_handle_info db ! j)[i := h]]).
      length t = TCP_HANDLE_ARR_LENGTH"
    by (rule set_update_all) (use sz in \<open>simp_all add: db_sizes_def\<close>)
  with sz SERVER_AT show ?thesis by (simp add: db_sizes_def)
qed (simp_all add: db_sizes_def)

lemma db_sizes_update_server:
  assumes "db_sizes db" "\<And>s. length (client_status (g s)) = length (client_status s)"
  shows "db_sizes (update_server j g db)"
proof -
  have "\<forall>s\<in>set ((server_status_st db)[j := g (server_status_st db ! j)]).
      length (client_status s) = MAX_CONNECTION_NUM"
    by (rule set_update_all) (use assms in \<open>simp_all add: db_sizes_def\<close>)
  with assms(1) show ?thesis by (simp add: db_sizes_def update_server_def)
qed

lemma server_status_set_handle [simp]: "server_status_st (set_handle_at l h db) = server_status_st db"
  by (cases l) auto

lemma server_ok_cong:
  assumes "server_tcp_handle_info db' ! j = server_tcp_handle_info db ! j"
    "server_status_st db' ! j = server_status_st db ! j"
  shows "server_ok db' j \<longleftrightarrow> server_ok db j"
  using assms by (simp add: server_ok_def db_counts)

section \<open>Changes of one server\<close>

lemma set_handle_other_server:
  "j' \<noteq> j \<Longrightarrow> server_tcp_handle_info (set_handle_at (SERVER_AT j i) h db) ! j' = server_tcp_handle_info db ! j'"
  by simp

lemma update_server_nth [simp]:
  "j < length (server_status_st db) \<Longrightarrow> server_status_st (update_server j g db) ! j = g (server_status_st db ! j)"
  "j' \<noteq> j \<Longrightarrow> server_status_st (update_server j g db) ! j' = server_status_st db ! j'"
  "server_tcp_handle_info (update_server j g db) = server_tcp_handle_info db"
  "udp_handle_info (update_server j g db) = udp_handle_info db"
  "client_tcp_handle_info (update_server j g db) = client_tcp_handle_info db"
  "length (server_status_st (update_server j g db)) = length (server_status_st db)"
  by (simp_all add: update_server_def)

lemma db_sizes_rows:
  assumes "db_sizes db" "j < SERVER_STATUS_ARR_LENGTH"
  shows "length (server_tcp_handle_info db ! j) = TCP_HANDLE_ARR_LENGTH"
    "length (client_status (server_status_st db ! j)) = MAX_CONNECTION_NUM"
    "j < length (server_tcp_handle_info db)" "j < length (server_status_st db)"
  using assms by (auto simp: db_sizes_def)

lemma db_inv_server:
  assumes "db_inv db" "db_sizes db'" "server_ok db' j"
    and "\<And>k. k \<noteq> j \<Longrightarrow> server_tcp_handle_info db' ! k = server_tcp_handle_info db ! k"
    and "\<And>k. k \<noteq> j \<Longrightarrow> server_status_st db' ! k = server_status_st db ! k"
  shows "db_inv db'"
  unfolding db_inv_def
proof (intro conjI allI impI)
  fix k
  assume "k < SERVER_STATUS_ARR_LENGTH"
  then show "server_ok db' k"
    using assms(1,3) server_ok_cong [of db' k db] assms(4,5) by (cases "k = j") (auto simp: db_inv_def)
qed (rule assms(2))

lemma db_inv_same_servers:
  assumes "db_inv db" "db_sizes db'" "server_tcp_handle_info db' = server_tcp_handle_info db"
    and "server_status_st db' = server_status_st db"
  shows "db_inv db'"
  using assms server_ok_cong [of db' _ db] by (auto simp: db_inv_def)

text \<open>A client count that equals the number of clients does not wrap when one comes or goes.\<close>

lemma server_clients_bound:
  assumes "db_sizes db" "j < SERVER_STATUS_ARR_LENGTH"
  shows "size (server_clients j db) \<le> MAX_CONNECTION_NUM"
proof -
  have "size (server_clients j db) \<le> size (mset (map cs_handle (client_status (server_status_st db ! j))))"
    unfolding server_clients_def keys_def by (rule size_filter_mset_lesseq)
  with db_sizes_rows(2) [OF assms] show ?thesis by simp
qed

section \<open>Entering a handle\<close>

lemma handle_filled [simp]: "handle (filled_handle_info fd mt la pa sg mg h) = fd"
  by (simp add: filled_handle_info_def)

text \<open>The table a type of handle is kept in, and the result of entering one when the mutex works.\<close>

definition mutex_works :: "'w commu_os \<Rightarrow> bool" where
  "mutex_works os \<longleftrightarrow> (\<forall>w. fst (co_lock os w) = 0 \<and> fst (co_unlock os w) = 0 \<and>
     fst (co_listener_lock os w) = 0 \<and> fst (co_listener_unlock os w) = 0)"

lemma mutex_worksE:
  assumes "mutex_works os"
  obtains w1 w2 w3 w4 where "co_lock os w = (0, w1)" "co_unlock os w = (0, w2)"
    "co_listener_lock os w = (0, w3)" "co_listener_unlock os w = (0, w4)"
  using assms unfolding mutex_works_def by (metis prod.collapse)

lemma slot_result_simps [simp]:
  "slot_result r = Inr i \<longleftrightarrow> r = Some i" "slot_result r = Inl e \<longleftrightarrow> r = None \<and> e = ENOBUFS"
  by (auto simp: slot_result_def split: option.splits)

definition table :: "db_type \<Rightarrow> nat \<Rightarrow> commu_db \<Rightarrow> handle_info list" where
  "table type j db = (case type of
     UDP_HANDLE_DB \<Rightarrow> udp_handle_info db
   | TCP_CLIENT_HANDLE_DB \<Rightarrow> client_tcp_handle_info db
   | TCP_SERVER_HANDLE_DB \<Rightarrow> server_tcp_handle_info db ! j
   | _ \<Rightarrow> [])"

definition is_table :: "db_type \<Rightarrow> nat \<Rightarrow> bool" where
  "is_table type j \<longleftrightarrow> type = UDP_HANDLE_DB \<or> type = TCP_CLIENT_HANDLE_DB \<or>
     type = TCP_SERVER_HANDLE_DB \<and> j < SERVER_STATUS_ARR_LENGTH"

lemma table_length:
  "is_table type j \<Longrightarrow> db_sizes db \<Longrightarrow> length (table type j db) = TCP_HANDLE_ARR_LENGTH"
  by (auto simp: is_table_def table_def db_sizes_def db_consts)

lemma entry_table:
  assumes "is_table type j" "db_sizes db" "entry_loc type j i = Some l"
  shows "handle_at l db = table type j db ! i"
    "table type j (set_handle_at l h db) = (table type j db)[i := h]"
  using assms by (auto simp: is_table_def table_def entry_loc_def db_sizes_def)

lemma find_empty_slot_table:
  "is_table type j \<Longrightarrow>
   find_empty_slot type j db = slot_result (first_idx (\<lambda>h. handle h = INVALID_HANDLE_ID) (table type j db))"
  by (auto simp: is_table_def table_def find_empty_slot_def)

lemma is_table_entry: "is_table type j \<Longrightarrow> \<exists>l. entry_loc type j i = Some l"
  by (auto simp: is_table_def entry_loc_def)

text \<open>
  Entering a handle: the first free slot of the table is filled. When there is none, nothing
  is stored and the function still reports success.
\<close>

definition entered ::
  "db_type \<Rightarrow> nat \<Rightarrow> (handle_info \<Rightarrow> handle_info) \<Rightarrow> commu_db \<Rightarrow> commu_db \<Rightarrow> bool" where
  "entered type j fill db db' \<longleftrightarrow>
    (case first_idx (\<lambda>h. handle h = INVALID_HANDLE_ID) (table type j db) of
       None \<Rightarrow> db' = db
     | Some i \<Rightarrow> \<exists>l. entry_loc type j i = Some l \<and> db' = set_handle_at l (fill (table type j db ! i)) db)"

lemma handle_info_set_enters:
  assumes "mutex_works os" "is_table type j" "db_sizes db"
    and run: "handle_info_set os type j fd mt la pa sg mg db w = (err, db', w')"
  shows "err = 0 \<and> entered type j (filled_handle_info fd mt la pa sg mg) db db'"
proof -
  obtain w1 where w1: "co_lock os w = (0, w1)" by (rule mutex_worksE [OF assms(1), of w])
  obtain w2 where w2: "co_unlock os w1 = (0, w2)" by (rule mutex_worksE [OF assms(1), of w1])
  show ?thesis
  proof (cases "first_idx (\<lambda>h. handle h = INVALID_HANDLE_ID) (table type j db)")
    case None
    with run show ?thesis
      by (simp add: handle_info_set_def w1 w2 find_empty_slot_table [OF assms(2)] slot_result_def entered_def)
  next
    case (Some i)
    obtain l where l: "entry_loc type j i = Some l" using is_table_entry [OF assms(2)] by blast
    from run Some l show ?thesis
      by (auto simp: handle_info_set_def w1 w2 find_empty_slot_table [OF assms(2)] slot_result_def
          entered_def entry_table(1) [OF assms(2,3) l])
  qed
qed

lemma entered_table:
  assumes "entered type j fill db db'" "is_table type j" "db_sizes db"
    and "\<And>h. handle (fill h) = fd" "fd \<noteq> INVALID_HANDLE_ID"
  shows "if size (keys handle (table type j db)) < TCP_HANDLE_ARR_LENGTH
    then keys handle (table type j db') = add_mset fd (keys handle (table type j db)) \<and>
      (fd \<notin># keys handle (table type j db) \<longrightarrow>
       (\<exists>i h. first_idx (\<lambda>h. handle h = fd) (table type j db') = Some i \<and> table type j db' ! i = fill h))
    else db' = db"
proof -
  let ?t = "table type j db"
  let ?slot = "first_idx (\<lambda>h. handle h = INVALID_HANDLE_ID) ?t"
  have "size (keys handle ?t) \<le> size (mset (map handle ?t))"
    unfolding keys_def by (rule size_filter_mset_lesseq)
  then have full: "?slot = None \<longleftrightarrow> \<not> size (keys handle ?t) < TCP_HANDLE_ARR_LENGTH"
    using handles.keys_full [of ?t] table_length [OF assms(2,3)] by auto
  show ?thesis
  proof (cases ?slot)
    case None
    with assms(1) full show ?thesis by (simp add: entered_def)
  next
    case (Some i)
    let ?e = "fill (?t ! i)"
    have t': "table type j db' = ?t[i := ?e]"
      using assms(1) Some entry_table(2) [OF assms(2,3)] by (auto simp: entered_def)
    have "first_idx (\<lambda>h. handle h = fd) (?t[i := ?e]) = Some i" if "fd \<notin># keys handle ?t"
      using handles.put_find [OF Some, of ?e] that assms(4,5) by simp
    moreover have "?t[i := ?e] ! i = ?e"
      using first_idx_Some [OF Some] by simp
    moreover have "keys handle (?t[i := ?e]) = add_mset fd (keys handle ?t)"
      using handles.keys_put [OF Some, of ?e] assms(4,5) by simp
    moreover have "size (keys handle ?t) < TCP_HANDLE_ARR_LENGTH"
      using full Some by simp
    ultimately show ?thesis
      unfolding t' by auto
  qed
qed

lemma entered_sizes: "entered type j fill db db' \<Longrightarrow> db_sizes db \<Longrightarrow> db_sizes db'"
  by (auto simp: entered_def split: option.splits)

lemma entered_status: "entered type j fill db db' \<Longrightarrow> server_status_st db' = server_status_st db"
  by (auto simp: entered_def split: option.splits)

lemma entered_other_server:
  "entered type j fill db db' \<Longrightarrow> k \<noteq> j \<or> type \<noteq> TCP_SERVER_HANDLE_DB \<Longrightarrow>
   server_tcp_handle_info db' ! k = server_tcp_handle_info db ! k"
  by (auto simp: entered_def entry_loc_def split: option.splits db_type.splits)

section \<open>Accepting a client\<close>

lemma client_set_result:
  assumes "db_sizes db" "j < SERVER_STATUS_ARR_LENGTH" "fd \<noteq> INVALID_HANDLE_ID"
    and run: "lib_cummo_db_server_status_client_set fd a p la lp j db = (err, db')"
  shows "if size (server_clients j db) < MAX_CONNECTION_NUM
    then err = 0 \<and> server_clients j db' = add_mset fd (server_clients j db) \<and> db_sizes db' \<and>
      clients_num (server_status_st db' ! j) = clients_num (server_status_st db ! j) + 1 \<and>
      server_tcp_handle_info db' = server_tcp_handle_info db \<and>
      (\<forall>k. k \<noteq> j \<longrightarrow> server_status_st db' ! k = server_status_st db ! k)
    else err = ENOBUFS \<and> db' = db"
proof -
  let ?t = "client_status (server_status_st db ! j)"
  let ?slot = "first_idx (\<lambda>c. cs_handle c = INVALID_HANDLE_ID) ?t"
  note rows = db_sizes_rows [OF assms(1,2)]
  have "?slot = None \<longleftrightarrow> size (server_clients j db) = MAX_CONNECTION_NUM"
    using clients.keys_full [of ?t] rows by (simp add: server_clients_def)
  then have full: "?slot = None \<longleftrightarrow> \<not> size (server_clients j db) < MAX_CONNECTION_NUM"
    using server_clients_bound [OF assms(1,2)] by auto
  show ?thesis
  proof (cases ?slot)
    case None
    with run full show ?thesis
      by (auto simp: lib_cummo_db_server_status_client_set_def find_empty_slot_def slot_result_def)
  next
    case (Some i)
    let ?e = "(?t ! i)\<lparr>cs_handle := fd, handle_status := HANDLE_STATUS_UP, local_ipv4_addr := la,
      local_port := lp, peer_ipv4_addr := a, peer_port := p\<rparr>"
    have db': "err = 0" "db' = update_server j (\<lambda>s. s\<lparr>clients_num := clients_num s + 1,
        client_status := (client_status s)[i := (client_status s ! i)\<lparr>cs_handle := fd,
          handle_status := HANDLE_STATUS_UP, local_ipv4_addr := la, local_port := lp,
          peer_ipv4_addr := a, peer_port := p\<rparr>]\<rparr>) db"
      using run Some
      by (auto simp: lib_cummo_db_server_status_client_set_def find_empty_slot_def slot_result_def)
    have "keys cs_handle (?t[i := ?e]) = add_mset fd (keys cs_handle ?t)"
      using clients.keys_put [OF Some, of ?e] assms(3) by simp
    moreover have "db_sizes db'"
      unfolding db' by (rule db_sizes_update_server [OF assms(1)]) simp
    ultimately show ?thesis
      using full Some rows db' by (simp add: server_clients_def)
  qed
qed

lemma count_up:
  fixes c :: u32
  assumes "unat c = n" "n \<le> 16"
  shows "unat (c + 1) = n + 1"
  using assms by (simp add: unat_word_ariths)

lemma count_down:
  fixes c :: u32
  assumes "unat c = n" "0 < n"
  shows "unat (c - 1) = n - 1"
  using assms by (simp add: unat_minus_one unat_gt_0 [symmetric])

lemma accept_result:
  assumes mw: "mutex_works os" and inv: "db_inv db" and j: "j < SERVER_STATUS_ARR_LENGTH"
    and fd: "fd \<noteq> INVALID_HANDLE_ID"
    and run: "listener_accept_update os j params fd a p mg db w = (err, db', w')"
  shows "if size (server_clients j db) < MAX_CONNECTION_NUM
    then err = 0 \<and> db_inv db' \<and> server_clients j db' = add_mset fd (server_clients j db) \<and>
      (\<forall>k. k \<noteq> j \<longrightarrow> tcp_server_handles k db' = tcp_server_handles k db) 
    else err = ENOBUFS \<and> db' = db"
proof -
  have sz: "db_sizes db" and ok: "server_ok db j" using inv j by (auto simp: db_inv_def)
  have tbl: "is_table TCP_SERVER_HANDLE_DB j" using j by (simp add: is_table_def)
  obtain w1 where w1: "co_listener_lock os w = (0, w1)" by (rule mutex_worksE [OF mw, of w])
  let ?fill = "filled_handle_info fd (ucast (sp_msg_type params)) \<lparr>port = 0, ipv4_addr = ucast (sp_port params)\<rparr>
    \<lparr>port = p, ipv4_addr = a\<rparr> 1 mg"
  obtain e1 db1 w2 where set: "lib_commu_db_tcp_server_handle_info_set os j fd (ucast (sp_msg_type params))
      \<lparr>port = 0, ipv4_addr = ucast (sp_port params)\<rparr> \<lparr>port = p, ipv4_addr = a\<rparr> mg db w1 = (e1, db1, w2)"
    by (metis prod_cases3)
  have en: "e1 = 0" "entered TCP_SERVER_HANDLE_DB j ?fill db db1"
    using handle_info_set_enters [OF mw tbl sz] set
    by (auto simp: lib_commu_db_tcp_server_handle_info_set_def)
  note sz1 = entered_sizes [OF en(2) sz] and st1 = entered_status [OF en(2)]
  obtain e2 db2 where client: "lib_cummo_db_server_status_client_set fd a p (sp_s_ipv4_addr params)
      (sp_port params) j db1 = (e2, db2)" by fastforce
  obtain w3 where w3: "co_listener_unlock os w2 = (0, w3)" by (rule mutex_worksE [OF mw, of w2])
  have db': "err = e2" "db' = db2"
    using run w1 set en(1) client w3
    by (auto simp: listener_accept_update_def Let_def split: if_splits)
  have sc1: "server_clients j db1 = server_clients j db" by (simp add: server_clients_def st1)
  note cs = client_set_result [OF sz1 j fd client, unfolded sc1]
  have th: "tcp_server_handles j db = server_clients j db" using ok by (simp add: server_ok_def)
  note et = entered_table [OF en(2) tbl sz, of fd, unfolded table_def, simplified]
  show ?thesis
  proof (cases "size (server_clients j db) < MAX_CONNECTION_NUM")
    case True
    have handles: "tcp_server_handles j db1 = add_mset fd (server_clients j db)"
      using et fd True th by (simp add: tcp_server_handles_def db_consts)
    have num: "unat (clients_num (server_status_st db2 ! j)) = size (server_clients j db) + 1"
      using cs True ok count_up [of "clients_num (server_status_st db ! j)"]
      by (simp add: server_ok_def st1 db_consts)
    have "server_ok db2 j"
      using cs True handles num by (simp add: server_ok_def tcp_server_handles_def)
    then have "db_inv db2"
      using db_inv_server [OF inv, of db2 j] cs True entered_other_server [OF en(2)] st1 by simp
    then show ?thesis
      using True cs db' entered_other_server [OF en(2)] by (auto simp: tcp_server_handles_def)
  next
    case False
    then have "db1 = db"
      using et fd th by (simp add: tcp_server_handles_def db_consts)
    then show ?thesis
      using False cs db' by simp
  qed
qed

section \<open>Deleting a handle\<close>

lemma server_search_Some:
  "server_search fd js db = Some l \<Longrightarrow> \<exists>j i. l = SERVER_AT j i \<and> j \<in> set js \<and>
     clients_num (server_status_st db ! j) > 0 \<and>
     first_idx (\<lambda>h. handle h = fd) (server_tcp_handle_info db ! j) = Some i"
  by (induction js) (auto split: if_splits option.splits)

lemma server_search_None:
  "server_search fd js db = None \<longleftrightarrow> (\<forall>j\<in>set js. clients_num (server_status_st db ! j) > 0 \<longrightarrow>
     first_idx (\<lambda>h. handle h = fd) (server_tcp_handle_info db ! j) = None)"
  by (induction js) (auto split: option.splits)

definition tcp_handles :: "commu_db \<Rightarrow> int multiset" where
  "tcp_handles db = tcp_client_handles db + (\<Sum>j<SERVER_STATUS_ARR_LENGTH. tcp_server_handles j db)"

text \<open>Under the invariant a server's table has a handle only when the server has clients.\<close>

lemma server_search_complete:
  assumes "db_inv db" "fd \<noteq> INVALID_HANDLE_ID"
    and "server_search fd [0..<SERVER_STATUS_ARR_LENGTH] db = None"
  shows "fd \<notin># (\<Sum>j<SERVER_STATUS_ARR_LENGTH. tcp_server_handles j db)"
proof -
  have "fd \<notin># tcp_server_handles j db" if "j < SERVER_STATUS_ARR_LENGTH" for j
  proof (cases "clients_num (server_status_st db ! j) > 0")
    case True
    then show ?thesis
      using assms(2,3) that handles.keys_found [OF assms(2)]
      by (auto simp: server_search_None tcp_server_handles_def)
  next
    case False
    then have "unat (clients_num (server_status_st db ! j)) = 0"
      by (simp add: word_gt_0)
    then show ?thesis
      using assms(1) that by (simp add: db_inv_def server_ok_def)
  qed
  then show ?thesis
    using set_mset_sum [of "{..<SERVER_STATUS_ARR_LENGTH}" "\<lambda>j. tcp_server_handles j db"] by auto
qed

lemma delete_client_entry:
  assumes "db_inv db" "fd \<noteq> INVALID_HANDLE_ID"
    and "first_idx (\<lambda>h. handle h = fd) (client_tcp_handle_info db) = Some i"
  defines "db' \<equiv> set_handle_at (CLIENT_AT i) empty_handle_info db"
  shows "db_inv db' \<and> tcp_handles db' = tcp_handles db - {#fd#}"
proof -
  have mem: "fd \<in># tcp_client_handles db"
    using handles.keys_member [OF assms(3,2)] by (simp add: tcp_client_handles_def)
  have "tcp_client_handles db' = tcp_client_handles db - {#fd#}"
    using handles.keys_clear [OF assms(3,2)] by (simp add: db'_def tcp_client_handles_def)
  moreover have "tcp_server_handles j db' = tcp_server_handles j db" for j
    by (simp add: db'_def tcp_server_handles_def)
  moreover have "db_inv db'"
    using assms(1) db_sizes_set_handle [of db "CLIENT_AT i" empty_handle_info]
    by (intro db_inv_same_servers [OF assms(1)]) (auto simp: db'_def db_inv_def)
  ultimately show ?thesis
    using mem by (simp add: tcp_handles_def)
qed

lemma delete_server_entry:
  assumes inv: "db_inv db" and fd: "fd \<noteq> INVALID_HANDLE_ID" and j: "j < SERVER_STATUS_ARR_LENGTH"
    and i: "first_idx (\<lambda>h. handle h = fd) (server_tcp_handle_info db ! j) = Some i"
    and k: "first_idx (\<lambda>c. cs_handle c = fd) (client_status (server_status_st db ! j)) = Some k"
  defines "db' \<equiv> update_server j (\<lambda>s. s\<lparr>client_status := (client_status s)[k := empty_connection_status]\<rparr>)
    (update_server j (\<lambda>s. s\<lparr>clients_num := clients_num s - 1\<rparr>) (set_handle_at (SERVER_AT j i) empty_handle_info db))"
  shows "db_inv db' \<and> tcp_handles db' = tcp_handles db - {#fd#}"
proof -
  have sz: "db_sizes db" and ok: "server_ok db j" using inv j by (auto simp: db_inv_def)
  note rows = db_sizes_rows [OF sz j]
  have sz': "db_sizes db'"
    unfolding db'_def by (intro db_sizes_update_server db_sizes_set_handle sz) simp_all
  have mem: "fd \<in># tcp_server_handles j db"
    using handles.keys_member [OF i fd] by (simp add: tcp_server_handles_def)
  have handles': "tcp_server_handles j db' = tcp_server_handles j db - {#fd#}"
    using handles.keys_clear [OF i fd] rows by (simp add: db'_def tcp_server_handles_def)
  have clients': "server_clients j db' = server_clients j db - {#fd#}"
    using clients.keys_clear [OF k fd] rows by (simp add: db'_def server_clients_def)
  have "0 < size (server_clients j db)"
    using mem ok by (auto simp: server_ok_def nonempty_has_size [symmetric])
  then have "unat (clients_num (server_status_st db' ! j)) = size (server_clients j db) - 1"
    using count_down [of "clients_num (server_status_st db ! j)"] ok rows
    by (simp add: db'_def server_ok_def)
  then have "server_ok db' j"
    using ok handles' clients' mem by (simp add: server_ok_def size_Diff_singleton)
  then have "db_inv db'"
    by (rule db_inv_server [OF inv sz']) (simp_all add: db'_def)
  moreover have other: "tcp_server_handles k db' = tcp_server_handles k db" if "k \<noteq> j" for k
    using that by (simp add: db'_def tcp_server_handles_def)
  have split: "(\<Sum>k<SERVER_STATUS_ARR_LENGTH. tcp_server_handles k d) =
      tcp_server_handles j d + (\<Sum>k\<in>{..<SERVER_STATUS_ARR_LENGTH} - {j}. tcp_server_handles k d)" for d
    using sum.remove [of "{..<SERVER_STATUS_ARR_LENGTH}" j "\<lambda>k. tcp_server_handles k d"] j by simp
  have "(\<Sum>k\<in>{..<SERVER_STATUS_ARR_LENGTH} - {j}. tcp_server_handles k db') =
      (\<Sum>k\<in>{..<SERVER_STATUS_ARR_LENGTH} - {j}. tcp_server_handles k db)"
    by (rule sum.cong) (simp_all add: other)
  moreover have "tcp_client_handles db' = tcp_client_handles db"
    by (simp add: db'_def tcp_client_handles_def)
  ultimately show ?thesis
    using mem handles' by (simp add: tcp_handles_def split)
qed

lemma tcp_delete_result:
  assumes "db_inv db" "fd \<noteq> INVALID_HANDLE_ID"
  shows "db_inv (tcp_delete_locked fd db) \<and> tcp_handles (tcp_delete_locked fd db) = tcp_handles db - {#fd#} \<and>
    (fd \<notin># tcp_handles db \<longrightarrow> tcp_delete_locked fd db = db)"
proof (cases "first_idx (\<lambda>h. handle h = fd) (client_tcp_handle_info db)")
  case (Some i)
  then have "tcp_delete_locked fd db = set_handle_at (CLIENT_AT i) empty_handle_info db"
    by (simp add: tcp_delete_locked_def lib_commu_db_hanlde_info_get_def client_search_def)
  moreover have "fd \<in># tcp_handles db"
    using handles.keys_member [OF Some assms(2)] by (simp add: tcp_handles_def tcp_client_handles_def)
  ultimately show ?thesis using delete_client_entry [OF assms Some] by simp
next
  case None
  then have client: "client_search fd db = None" "fd \<notin># tcp_client_handles db"
    using handles.keys_found [OF assms(2)] by (simp_all add: client_search_def tcp_client_handles_def)
  show ?thesis
  proof (cases "server_search fd [0..<SERVER_STATUS_ARR_LENGTH] db")
    case None
    then have "tcp_delete_locked fd db = db"
      using client(1) by (auto simp: tcp_delete_locked_def lib_commu_db_hanlde_info_get_def udp_search_def
          split: option.splits sum.splits)
    moreover have "fd \<notin># tcp_handles db"
      using server_search_complete [OF assms None] client(2) by (simp add: tcp_handles_def)
    ultimately show ?thesis using assms(1) by (simp add: diff_single_trivial)
  next
    case (Some l)
    then obtain j i where l: "l = SERVER_AT j i" and j: "j < SERVER_STATUS_ARR_LENGTH"
      and num: "clients_num (server_status_st db ! j) > 0"
      and i: "first_idx (\<lambda>h. handle h = fd) (server_tcp_handle_info db ! j) = Some i"
      using server_search_Some [OF Some] by auto
    have mem: "fd \<in># tcp_server_handles j db"
      using handles.keys_member [OF i assms(2)] by (simp add: tcp_server_handles_def)
    then have "fd \<in># server_clients j db"
      using assms(1) j by (simp add: db_inv_def server_ok_def)
    then obtain k where k: "first_idx (\<lambda>c. cs_handle c = fd) (client_status (server_status_st db ! j)) = Some k"
      using clients.keys_found [OF assms(2)] by (auto simp: server_clients_def)
    have len: "j < length (server_status_st db)"
      using assms(1) j by (simp add: db_inv_def db_sizes_def)
    have "tcp_delete_locked fd db =
        update_server j (\<lambda>s. s\<lparr>client_status := (client_status s)[k := empty_connection_status]\<rparr>)
          (update_server j (\<lambda>s. s\<lparr>clients_num := clients_num s - 1\<rparr>)
            (set_handle_at (SERVER_AT j i) empty_handle_info db))"
      using client(1) Some l num k len
      by (simp add: tcp_delete_locked_def lib_commu_db_hanlde_info_get_def find_handle_idx_def Let_def)
    moreover have "fd \<in># tcp_handles db"
      using mem j set_mset_sum [of "{..<SERVER_STATUS_ARR_LENGTH}" "\<lambda>j. tcp_server_handles j db"]
      by (auto simp: tcp_handles_def)
    ultimately show ?thesis
      using delete_server_entry [OF assms j i k] by simp
  qed
qed

lemma udp_delete_result:
  assumes "mutex_works os" "fd \<noteq> INVALID_HANDLE_ID"
    and run: "lib_commu_db_udp_handle_info_delete os fd db w = (err, db', w')"
  shows "if fd \<in># udp_handles db
    then err = 0 \<and> udp_handles db' = udp_handles db - {#fd#} \<and> (\<exists>i. db' = set_handle_at (UDP_AT i) empty_handle_info db)
    else err = ENOKEY \<and> db' = db"
proof (cases "first_idx (\<lambda>h. handle h = fd) (udp_handle_info db)")
  case None
  with run handles.keys_found [OF assms(2), of "udp_handle_info db"] show ?thesis
    by (auto simp: lib_commu_db_udp_handle_info_delete_def find_handle_idx_def udp_handles_def)
next
  case (Some i)
  obtain w1 where w1: "co_lock os w = (0, w1)" by (rule mutex_worksE [OF assms(1), of w])
  obtain w2 where w2: "co_unlock os w1 = (0, w2)" by (rule mutex_worksE [OF assms(1), of w1])
  from Some run have "err = 0" "db' = set_handle_at (UDP_AT i) empty_handle_info db"
    by (auto simp: lib_commu_db_udp_handle_info_delete_def find_handle_idx_def w1 w2)
  then show ?thesis
    using handles.keys_member [OF Some assms(2)] handles.keys_clear [OF Some assms(2)]
    by (auto simp: udp_handles_def)
qed

section \<open>Lookup and statistics\<close>

definition loc_ok :: "handle_loc \<Rightarrow> commu_db \<Rightarrow> bool" where
  "loc_ok l db \<longleftrightarrow> (case l of
     UDP_AT i \<Rightarrow> i < length (udp_handle_info db)
   | CLIENT_AT i \<Rightarrow> i < length (client_tcp_handle_info db)
   | SERVER_AT j i \<Rightarrow> j < length (server_tcp_handle_info db) \<and> i < length (server_tcp_handle_info db ! j))"

lemma hanlde_info_get_sound:
  assumes "lib_commu_db_hanlde_info_get fd type db = Inr l" "db_sizes db"
  shows "loc_ok l db \<and> handle (handle_at l db) = fd"
proof -
  have server: "loc_ok l db \<and> handle (handle_at l db) = fd"
    if found: "server_search fd [0..<SERVER_STATUS_ARR_LENGTH] db = Some l" for l
  proof -
    obtain j i where ji: "l = SERVER_AT j i" "j < SERVER_STATUS_ARR_LENGTH"
        "first_idx (\<lambda>h. handle h = fd) (server_tcp_handle_info db ! j) = Some i"
      using server_search_Some [OF found] by auto
    show ?thesis
      using first_idx_Some [OF ji(3)] db_sizes_rows(3) [OF assms(2) ji(2)] ji(1) by (simp add: loc_ok_def)
  qed
  have "(\<exists>i. l = UDP_AT i \<and> first_idx (\<lambda>h. handle h = fd) (udp_handle_info db) = Some i) \<or>
    (\<exists>i. l = CLIENT_AT i \<and> first_idx (\<lambda>h. handle h = fd) (client_tcp_handle_info db) = Some i) \<or>
    server_search fd [0..<SERVER_STATUS_ARR_LENGTH] db = Some l"
    using assms(1)
    by (auto simp: lib_commu_db_hanlde_info_get_def client_search_def udp_search_def Let_def
        split: db_type.splits option.splits)
  then show ?thesis
    using server by (auto simp: loc_ok_def dest!: first_idx_Some)
qed

lemma same_handle_keeps:
  assumes "db_inv db" "loc_ok l db" "handle h = handle (handle_at l db)"
  defines "db' \<equiv> set_handle_at l h db"
  shows "db_inv db' \<and> tcp_handles db' = tcp_handles db \<and> udp_handles db' = udp_handles db"
proof -
  have sz': "db_sizes db'"
    using assms(1) db_sizes_set_handle [of db l h] by (simp add: db'_def db_inv_def)
  have keys: "udp_handles db' = udp_handles db" "tcp_client_handles db' = tcp_client_handles db"
    "tcp_server_handles j db' = tcp_server_handles j db" for j
    using assms(2,3)
    by (cases l; auto simp: db'_def db_counts loc_ok_def nth_list_update handles.keys_same_key)+
  moreover have "server_ok db' j \<longleftrightarrow> server_ok db j" for j
    using keys(3) by (simp add: server_ok_def server_clients_def db'_def)
  then have "db_inv db'"
    using assms(1) sz' by (simp add: db_inv_def)
  ultimately show ?thesis by (simp add: tcp_handles_def)
qed

lemma handle_at_set_same [simp]: "loc_ok l db \<Longrightarrow> handle_at l (set_handle_at l h db) = h"
  by (cases l) (auto simp: loc_ok_def)

lemma hanlde_info_get_error:
  "lib_commu_db_hanlde_info_get fd type db = Inl e \<Longrightarrow> e = EINVAL \<or> e = ENOKEY"
  by (auto simp: lib_commu_db_hanlde_info_get_def Let_def split: db_type.splits option.splits)

lemma total_rx_result:
  assumes "handle_total_rx_update fd type n db = (err, type', db')" "db_inv db"
  shows "db_inv db' \<and> (if err = 0 then \<exists>l. lib_commu_db_hanlde_info_get fd type db = Inr l \<and> type' = loc_type l \<and>
      db' = set_handle_at l ((handle_at l db)\<lparr>socekt_info := (socekt_info (handle_at l db))
        \<lparr>total_sum_bytes_rx := total_sum_bytes_rx (socekt_info (handle_at l db)) + n\<rparr>\<rparr>) db
    else db' = db)"
proof (cases "lib_commu_db_hanlde_info_get fd type db")
  case (Inl e)
  with assms show ?thesis
    by (auto simp: handle_total_rx_update_def EINVAL_def ENOKEY_def dest!: hanlde_info_get_error)
next
  case (Inr l)
  have "loc_ok l db"
    using hanlde_info_get_sound [OF Inr] assms(2) by (simp add: db_inv_def)
  from same_handle_keeps [OF assms(2) this] Inr assms(1) show ?thesis
    by (auto simp: handle_total_rx_update_def Let_def)
qed

lemma total_tx_result:
  assumes "handle_total_tx_update fd type n db = (err, type', db')" "db_inv db"
  shows "db_inv db' \<and> (if err = 0 then \<exists>l. lib_commu_db_hanlde_info_get fd type db = Inr l \<and> type' = loc_type l \<and>
      db' = set_handle_at l ((handle_at l db)\<lparr>socekt_info := (socekt_info (handle_at l db))
        \<lparr>total_sum_bytes_tx := total_sum_bytes_tx (socekt_info (handle_at l db)) + n\<rparr>\<rparr>) db
    else db' = db)"
proof (cases "lib_commu_db_hanlde_info_get fd type db")
  case (Inl e)
  with assms show ?thesis
    by (auto simp: handle_total_tx_update_def EINVAL_def ENOKEY_def dest!: hanlde_info_get_error)
next
  case (Inr l)
  have "loc_ok l db"
    using hanlde_info_get_sound [OF Inr] assms(2) by (simp add: db_inv_def)
  from same_handle_keeps [OF assms(2) this] Inr assms(1) show ?thesis
    by (auto simp: handle_total_tx_update_def Let_def)
qed

end
