(* ===== verification/Commu_Db_Steps.thy ===== *)
theory Commu_Db_Steps
  imports Commu_Db_Inv
begin

text \<open>
  The communication database as a state machine: one rule per operation, from a database that
  has just been initialised. Handles that are entered or deleted are descriptors, never the
  invalid one; servers are numbered within the table. The invariant of \<open>Commu_Db_Inv\<close> holds in
  every reachable state.
\<close>

section \<open>Resets\<close>

lemma keys_empty_server:
  assumes "db_sizes db" "j < SERVER_STATUS_ARR_LENGTH"
  shows "server_ok (snd (lib_commu_db_tcp_session_db_deinit j db)) j"
    "db_sizes (snd (lib_commu_db_tcp_session_db_deinit j db))"
    "tcp_server_handles j (snd (lib_commu_db_tcp_session_db_deinit j db)) = {#}"
proof -
  note rows = db_sizes_rows [OF assms]
  let ?db' = "snd (lib_commu_db_tcp_session_db_deinit j db)"
  have db': "?db' = db\<lparr>server_status_st := (server_status_st db)[j := empty_server_status],
      server_tcp_handle_info := (server_tcp_handle_info db)
        [j := replicate TCP_HANDLE_ARR_LENGTH empty_handle_info]\<rparr>"
    by (simp add: lib_commu_db_tcp_session_db_deinit_def reset_server_status_def reset_handle_db_def)
  show "tcp_server_handles j ?db' = {#}"
    unfolding db' using rows by (simp add: tcp_server_handles_def handles.keys_replicate)
  then show "server_ok ?db' j"
    unfolding db' using rows
    by (simp add: server_ok_def server_clients_def clients.keys_replicate empty_server_status_def)
  have "\<forall>t\<in>set ((server_tcp_handle_info db)[j := replicate TCP_HANDLE_ARR_LENGTH empty_handle_info]).
      length t = TCP_HANDLE_ARR_LENGTH"
    by (rule set_update_all) (use assms(1) in \<open>simp_all add: db_sizes_def\<close>)
  moreover have "\<forall>s\<in>set ((server_status_st db)[j := empty_server_status]).
      length (client_status s) = MAX_CONNECTION_NUM"
    by (rule set_update_all) (use assms(1) in \<open>simp_all add: db_sizes_def empty_server_status_def\<close>)
  ultimately show "db_sizes ?db'"
    unfolding db' using assms(1) by (simp add: db_sizes_def)
qed

lemma session_deinit_inv:
  assumes "db_inv db" "j < SERVER_STATUS_ARR_LENGTH" "lib_commu_db_tcp_session_db_deinit j db = (err, db')"
  shows "err = 0 \<and> db_inv db' \<and> tcp_server_handles j db' = {#} \<and>
    (\<forall>k. k \<noteq> j \<longrightarrow> tcp_server_handles k db' = tcp_server_handles k db)"
proof -
  have sz: "db_sizes db" using assms(1) by (simp add: db_inv_def)
  have db': "err = 0" "db' = db\<lparr>server_status_st := (server_status_st db)[j := empty_server_status],
      server_tcp_handle_info := (server_tcp_handle_info db)
        [j := replicate TCP_HANDLE_ARR_LENGTH empty_handle_info]\<rparr>"
    using assms(3)
    by (auto simp: lib_commu_db_tcp_session_db_deinit_def reset_server_status_def reset_handle_db_def)
  then have "db_inv db'"
    using keys_empty_server [OF sz assms(2)] assms(3) by (intro db_inv_server [OF assms(1), of db' j]) simp_all
  then show ?thesis
    using keys_empty_server(3) [OF sz assms(2)] assms(3) db' by (auto simp: tcp_server_handles_def)
qed

lemma reset_servers_step:
  "reset_servers_loop (j # js) db = reset_servers_loop js (snd (lib_commu_db_tcp_session_db_deinit j db))"
  by (simp add: lib_commu_db_tcp_session_db_deinit_def reset_server_status_def reset_handle_db_def)

lemma reset_servers_result:
  "db_sizes db \<Longrightarrow> \<forall>j\<in>set js. j < SERVER_STATUS_ARR_LENGTH \<Longrightarrow> \<forall>k\<in>K. server_ok db k \<and> tcp_server_handles k db = {#} \<Longrightarrow>
   reset_servers_loop js db = (err, db') \<Longrightarrow>
   err = 0 \<and> db_sizes db' \<and> (\<forall>k\<in>K \<union> set js. server_ok db' k \<and> tcp_server_handles k db' = {#}) \<and>
   udp_handle_info db' = udp_handle_info db"
proof (induction js arbitrary: db K)
  case (Cons j js)
  let ?db1 = "snd (lib_commu_db_tcp_session_db_deinit j db)"
  have j: "j < SERVER_STATUS_ARR_LENGTH" using Cons.prems(2) by simp
  note one = keys_empty_server [OF Cons.prems(1) j]
  have same: "server_tcp_handle_info ?db1 ! k = server_tcp_handle_info db ! k"
      "server_status_st ?db1 ! k = server_status_st db ! k" if "k \<noteq> j" for k
    using that
    by (simp_all add: lib_commu_db_tcp_session_db_deinit_def reset_server_status_def reset_handle_db_def)
  have "\<forall>k\<in>insert j K. server_ok ?db1 k \<and> tcp_server_handles k ?db1 = {#}"
  proof
    fix k
    assume "k \<in> insert j K"
    then show "server_ok ?db1 k \<and> tcp_server_handles k ?db1 = {#}"
      using one Cons.prems(3) server_ok_cong [of ?db1 k db] same
      by (cases "k = j") (auto simp: tcp_server_handles_def)
  qed
  from Cons.IH [OF one(2) _ this] Cons.prems show ?case
    unfolding reset_servers_step
    by (auto simp: lib_commu_db_tcp_session_db_deinit_def reset_server_status_def reset_handle_db_def)
qed auto

lemma all_reset_inv:
  assumes "db_sizes db" "reset_all_tcp_servers_status_db db = (err, db')"
  shows "err = 0 \<and> db_inv db' \<and> (\<forall>j<SERVER_STATUS_ARR_LENGTH. tcp_server_handles j db' = {#}) \<and>
    udp_handle_info db' = udp_handle_info db"
  using reset_servers_result [of db "[0..<SERVER_STATUS_ARR_LENGTH]" "{}" err db'] assms
  by (auto simp: reset_all_tcp_servers_status_db_def db_inv_def)

lemma clear_client_table:
  assumes "db_inv db"
  shows "db_inv (db\<lparr>client_tcp_handle_info := replicate TCP_HANDLE_ARR_LENGTH empty_handle_info\<rparr>)"
  by (rule db_inv_same_servers [OF assms]) (use assms in \<open>simp_all add: db_inv_def db_sizes_def\<close>)

lemma clear_udp_sizes:
  "db_sizes db \<Longrightarrow> db_sizes (db\<lparr>udp_handle_info := replicate UDP_HANDLE_ARR_LENGTH empty_handle_info\<rparr>)"
  by (simp add: db_sizes_def)

definition db_empty :: "commu_db \<Rightarrow> bool" where
  "db_empty db \<longleftrightarrow> udp_handles db = {#} \<and> tcp_handles db = {#} \<and>
     (\<forall>j<SERVER_STATUS_ARR_LENGTH. server_clients j db = {#})"

lemma db_init_result:
  assumes "db_sizes db" "lib_commu_db_init os db w = (err, db', w')"
  shows "db_inv db' \<and> db_empty db'"
proof -
  let ?db0 = "db\<lparr>udp_handle_info := replicate UDP_HANDLE_ARR_LENGTH empty_handle_info\<rparr>"
  obtain e1 db1 where r: "reset_all_tcp_servers_status_db ?db0 = (e1, db1)" by fastforce
  note all = all_reset_inv [OF clear_udp_sizes [OF assms(1)] r]
  let ?db2 = "db1\<lparr>client_tcp_handle_info := replicate TCP_HANDLE_ARR_LENGTH empty_handle_info\<rparr>"
  have db': "db' = snd (init_listner_exit_event_info ?db2)"
    using assms(2) r all
    by (auto simp: lib_commu_db_init_def lib_commu_db_udp_session_db_init_def reset_handle_db_def
        lib_commu_db_tcp_all_session_db_init_def init_listner_exit_event_info_def Let_def split: prod.splits)
  have two: "db_inv ?db2"
    using clear_client_table all by blast
  have inv: "db_inv db'"
    by (rule db_inv_same_servers [OF two])
      (use two in \<open>simp_all add: db' init_listner_exit_event_info_def db_inv_def db_sizes_def\<close>)
  have "tcp_server_handles j db' = {#}" if "j < SERVER_STATUS_ARR_LENGTH" for j
    using all that by (simp add: db' init_listner_exit_event_info_def tcp_server_handles_def)
  moreover have "udp_handles db' = {#}" "tcp_client_handles db' = {#}"
    using all by (simp_all add: db' init_listner_exit_event_info_def udp_handles_def tcp_client_handles_def
        handles.keys_replicate)
  ultimately show ?thesis
    using inv by (auto simp: db_empty_def tcp_handles_def db_inv_def server_ok_def)
qed

lemma db_deinit_result:
  assumes "db_sizes db" "lib_commu_db_deinit os db w = (err, db', w')"
  shows "db_inv db'"
proof -
  let ?db0 = "db\<lparr>udp_handle_info := replicate UDP_HANDLE_ARR_LENGTH empty_handle_info\<rparr>"
  obtain e1 db1 where r: "reset_all_tcp_servers_status_db ?db0 = (e1, db1)" by fastforce
  note all = all_reset_inv [OF clear_udp_sizes [OF assms(1)] r]
  have "db' = db1\<lparr>client_tcp_handle_info := replicate TCP_HANDLE_ARR_LENGTH empty_handle_info\<rparr>"
    using assms(2) r all
    by (auto simp: lib_commu_db_deinit_def lib_commu_db_udp_session_db_deinit_def reset_handle_db_def
        lib_commu_db_tcp_all_session_db_deinit_def Let_def split: prod.splits)
  then show ?thesis using clear_client_table all by simp
qed

section \<open>Status\<close>

lemma set_client_status_inv:
  assumes "db_inv db" "j < SERVER_STATUS_ARR_LENGTH" "i < MAX_CONNECTION_NUM"
  shows "db_inv (set_client_status j i s db)"
    "server_clients k (set_client_status j i s db) = server_clients k db"
proof -
  have sz: "db_sizes db" using assms(1) by (simp add: db_inv_def)
  note rows = db_sizes_rows [OF sz assms(2)]
  have clients: "server_clients k (set_client_status j i s db) = server_clients k db" for k
    using rows assms(3) by (cases "k = j") (simp_all add: set_client_status_def server_clients_def clients.keys_same_key)
  then show "server_clients k (set_client_status j i s db) = server_clients k db" .
  have "server_ok (set_client_status j i s db) j"
    using assms(1,2) clients [of j] rows
    by (simp add: db_inv_def server_ok_def tcp_server_handles_def set_client_status_def)
  moreover have "db_sizes (set_client_status j i s db)"
    unfolding set_client_status_def by (rule db_sizes_update_server [OF sz]) simp
  ultimately show "db_inv (set_client_status j i s db)"
    by (intro db_inv_server [OF assms(1), of _ j]) (simp_all add: set_client_status_def)
qed

lemma status_loop_inv:
  "db_inv db \<Longrightarrow> j < SERVER_STATUS_ARR_LENGTH \<Longrightarrow> \<forall>i\<in>set is. i < MAX_CONNECTION_NUM \<Longrightarrow>
   status_get_loop os j is db w = (err, db', w') \<Longrightarrow>
   db_inv db' \<and> server_clients k db' = server_clients k db"
proof (induction "is" arbitrary: db w)
  case (Cons i "is")
  let ?fd = "cs_handle (client_status (server_status_st db ! j) ! i)"
  note sc = set_client_status_inv [OF Cons.prems(1,2), of i]
  show ?case
  proof (cases "?fd = INVALID_HANDLE_ID")
    case True
    with Cons show ?thesis by simp
  next
    case False
    obtain r e w1 where gp: "co_getpeername os ?fd w = ((r, e), w1)" by (metis prod.collapse)
    have "db' = db \<or> (\<exists>s. status_get_loop os j is (set_client_status j i s db) w1 = (err, db', w'))"
      using Cons.prems(4) False gp by (auto simp: Let_def split: if_splits)
    then show ?thesis
      using Cons.IH [OF sc(1) Cons.prems(2)] Cons.prems(1,3) sc(2) by auto
  qed
qed simp

section \<open>Reachable databases\<close>

inductive commu_step :: "'w commu_os \<Rightarrow> commu_db \<Rightarrow> commu_db \<Rightarrow> bool" for os where
  cs_init: "lib_commu_db_init os db w = (err, db', w') \<Longrightarrow> commu_step os db db'"
| cs_deinit: "lib_commu_db_deinit os db w = (err, db', w') \<Longrightarrow> commu_step os db db'"
| cs_session_deinit: "lib_commu_db_tcp_session_db_deinit j db = (err, db') \<Longrightarrow>
    j < SERVER_STATUS_ARR_LENGTH \<Longrightarrow> commu_step os db db'"
| cs_udp_set: "lib_commu_db_udp_handle_info_set os fd params mg db w = (err, db', w') \<Longrightarrow>
    commu_step os db db'"
| cs_client_set: "lib_commu_db_tcp_client_handle_info_set os fd mt la pa mg db w = (err, db', w') \<Longrightarrow>
    commu_step os db db'"
| cs_accept: "listener_accept_update os j sp fd a p mg db w = (err, db', w') \<Longrightarrow>
    j < SERVER_STATUS_ARR_LENGTH \<Longrightarrow> fd \<noteq> INVALID_HANDLE_ID \<Longrightarrow> commu_step os db db'"
| cs_listener_set: "lib_commu_db_server_status_listener_set j fd s db = (err, db') \<Longrightarrow>
    j < SERVER_STATUS_ARR_LENGTH \<Longrightarrow> commu_step os db db'"
| cs_status_get: "lib_commu_db_tcp_server_status_get os b j db w = (err, r, db', w') \<Longrightarrow> commu_step os db db'"
| cs_udp_delete: "lib_commu_db_udp_handle_info_delete os fd db w = (err, db', w') \<Longrightarrow>
    fd \<noteq> INVALID_HANDLE_ID \<Longrightarrow> commu_step os db db'"
| cs_tcp_delete: "lib_commu_db_tcp_handle_info_delete os fd db w = (err, db', w') \<Longrightarrow>
    fd \<noteq> INVALID_HANDLE_ID \<Longrightarrow> commu_step os db db'"
| cs_rx: "handle_total_rx_update fd type n db = (err, type', db') \<Longrightarrow> commu_step os db db'"
| cs_tx: "handle_total_tx_update fd type n db = (err, type', db') \<Longrightarrow> commu_step os db db'"

inductive commu_reach :: "'w commu_os \<Rightarrow> commu_db \<Rightarrow> bool" for os where
  cr_init: "db_sizes db \<Longrightarrow> lib_commu_db_init os db w = (err, db', w') \<Longrightarrow> commu_reach os db'"
| cr_step: "commu_reach os db \<Longrightarrow> commu_step os db db' \<Longrightarrow> commu_reach os db'"

lemma entered_other_inv:
  assumes "entered type j fill db db'" "type \<noteq> TCP_SERVER_HANDLE_DB" "db_inv db"
  shows "db_inv db'"
proof -
  have "server_tcp_handle_info db' = server_tcp_handle_info db"
    using assms(1,2) by (auto simp: entered_def entry_loc_def split: option.splits db_type.splits)
  then show ?thesis
    using db_inv_same_servers [OF assms(3)] entered_sizes [OF assms(1)] entered_status [OF assms(1)] assms(3)
    by (simp add: db_inv_def)
qed

lemma udp_entry_inv:
  assumes "db_inv db"
  shows "db_inv (set_handle_at (UDP_AT i) h db)"
  by (rule db_inv_same_servers [OF assms]) (use assms in \<open>simp_all add: db_inv_def db_sizes_def\<close>)

lemma listener_set_inv:
  assumes "db_inv db" "j < SERVER_STATUS_ARR_LENGTH"
  shows "db_inv (update_server j (\<lambda>s'. s'\<lparr>listener_handle := fd, listener_status := s\<rparr>) db)"
    (is "db_inv ?db'")
proof -
  have sz: "db_sizes db" and ok: "server_ok db j" using assms by (auto simp: db_inv_def)
  have "server_ok ?db' j"
    using ok db_sizes_rows [OF sz assms(2)] by (simp add: server_ok_def db_counts)
  moreover have "db_sizes ?db'"
    by (rule db_sizes_update_server [OF sz]) simp
  ultimately show ?thesis
    by (intro db_inv_server [OF assms(1), of ?db' j]) simp_all
qed

lemma commu_step_inv:
  assumes "commu_step os db db'" "mutex_works os" "db_inv db"
  shows "db_inv db'"
  using assms
proof (induction rule: commu_step.induct)
  case (cs_init db w err db' w')
  then show ?case using db_init_result [OF _ cs_init.hyps] by (simp add: db_inv_def)
next
  case (cs_deinit db w err db' w')
  then show ?case using db_deinit_result [OF _ cs_deinit.hyps] by (simp add: db_inv_def)
next
  case (cs_session_deinit j db err db')
  then show ?case using session_deinit_inv by blast
next
  case (cs_udp_set fd params mg db w err db' w')
  then have "\<exists>fill. entered UDP_HANDLE_DB INVALID_SERVER_ID fill db db'"
    using handle_info_set_enters [OF cs_udp_set.prems(1) _ _ cs_udp_set.hyps [unfolded lib_commu_db_udp_handle_info_set_def]]
    by (auto simp: is_table_def db_inv_def)
  then show ?case using entered_other_inv cs_udp_set.prems by blast
next
  case (cs_client_set fd mt la pa mg db w err db' w')
  then have "\<exists>fill. entered TCP_CLIENT_HANDLE_DB INVALID_SERVER_ID fill db db'"
    using handle_info_set_enters [OF cs_client_set.prems(1) _ _ cs_client_set.hyps [unfolded lib_commu_db_tcp_client_handle_info_set_def]]
    by (auto simp: is_table_def db_inv_def)
  then show ?case using entered_other_inv cs_client_set.prems by blast
next
  case (cs_accept j sp fd a p mg db w err db' w')
  then show ?case using accept_result [OF cs_accept.prems cs_accept.hyps(2,3,1)] by (auto split: if_splits)
next
  case (cs_listener_set j fd s db err db')
  then have db': "db' = update_server j (\<lambda>s'. s'\<lparr>listener_handle := fd, listener_status := s\<rparr>) db"
    by (simp add: lib_commu_db_server_status_listener_set_def)
  then show ?case using listener_set_inv cs_listener_set by blast
next
  case (cs_status_get b j db w err r db' w')
  then show ?case
    using status_loop_inv [of db j "[0..<MAX_CONNECTION_NUM]" os w]
    by (auto simp: lib_commu_db_tcp_server_status_get_def Let_def split: if_splits prod.splits)
next
  case (cs_udp_delete fd db w err db' w')
  then have "db' = db \<or> (\<exists>i. db' = set_handle_at (UDP_AT i) empty_handle_info db)"
    using udp_delete_result by (metis (full_types))
  then show ?case
    using cs_udp_delete.prems(2) udp_entry_inv by blast
next
  case (cs_tcp_delete fd db w err db' w')
  then have "db' = db \<or> db' = tcp_delete_locked fd db"
    by (auto simp: lib_commu_db_tcp_handle_info_delete_def Let_def split: prod.splits if_splits)
  then show ?case using tcp_delete_result cs_tcp_delete by blast
next
  case (cs_rx fd type n db err type' db')
  then show ?case using total_rx_result by blast
next
  case (cs_tx fd type n db err type' db')
  then show ?case using total_tx_result by blast
qed

lemma commu_reach_inv:
  assumes "commu_reach os db" "mutex_works os"
  shows "db_inv db"
  using assms by (induction rule: commu_reach.induct) (auto intro: commu_step_inv dest: db_init_result)

end
