(* ===== verification/Commu_Link.thy ===== *)
theory Commu_Link
  imports Commu_Api Commu_Db_Steps
begin

text \<open>
  Messages over a TCP connection. The system calls move a stream of bytes from one socket to another
  (\<open>stream_between\<close>); over it the library moves messages: each is put behind its header, and taken off in the order it
  was sent (\<open>tcp_link\<close>).
\<close>

section \<open>Headers\<close>

lemma le_bytes32_inverse [simp]: "of_le_bytes32 (le_bytes32 x @ bs) = x" "of_le_bytes32 (le_bytes32 x) = x"
proof -
  have "ucast (ucast x :: u8) OR push_bit 8 (ucast (ucast (drop_bit 8 x) :: u8)) OR
      push_bit 16 (ucast (ucast (drop_bit 16 x) :: u8)) OR push_bit 24 (ucast (ucast (drop_bit 24 x) :: u8)) = x" (is "?y = x")
  proof (rule bit_word_eqI)
    fix n
    assume "n < LENGTH(32)"
    then consider "n < 8" | "8 \<le> n" "n < 16" | "16 \<le> n" "n < 24" | "24 \<le> n" "n < 32" by fastforce
    then show "bit ?y n = bit x n" by cases (auto simp: bit_simps)
  qed
  then show "of_le_bytes32 (le_bytes32 x @ bs) = x" "of_le_bytes32 (le_bytes32 x) = x"
    by (simp_all add: le_bytes32_def)
qed

lemma length_le_bytes32 [simp]: "length (le_bytes32 x) = 4"
  by (simp add: le_bytes32_def)

lemma le_bytes32_of [simp]: "le_bytes32 (of_le_bytes32 [a, b, c, d]) = [a, b, c, d]"
proof -
  have "ucast (ucast a OR push_bit 8 (ucast b) OR push_bit 16 (ucast c) OR push_bit 24 (ucast d) :: u32) = a"
    by (rule bit_word_eqI) (auto simp: bit_simps dest: bit_imp_le_length)
  moreover have "ucast (drop_bit 8 (ucast a OR push_bit 8 (ucast b) OR push_bit 16 (ucast c) OR push_bit 24 (ucast d) :: u32)) = b"
    by (rule bit_word_eqI) (auto simp: bit_simps dest: bit_imp_le_length)
  moreover have "ucast (drop_bit 16 (ucast a OR push_bit 8 (ucast b) OR push_bit 16 (ucast c) OR push_bit 24 (ucast d) :: u32)) = c"
    by (rule bit_word_eqI) (auto simp: bit_simps dest: bit_imp_le_length)
  moreover have "ucast (drop_bit 24 (ucast a OR push_bit 8 (ucast b) OR push_bit 16 (ucast c) OR push_bit 24 (ucast d) :: u32)) = d"
    by (rule bit_word_eqI) (auto simp: bit_simps dest: bit_imp_le_length)
  ultimately show ?thesis by (simp add: le_bytes32_def)
qed

lemma ntohl_htonl [simp]: "ntohl (htonl x) = x"
proof -
  have "le_bytes32 (of_le_bytes32 (rev (le_bytes32 x))) = rev (le_bytes32 x)"
    using le_bytes32_of by (simp add: le_bytes32_def [of x])
  then show ?thesis by (simp add: ntohl_def htonl_def)
qed

lemma metadata_length [simp]: "length (metadata_bytes md) = sizeof_msg_metadata"
  by (simp add: metadata_bytes_def sizeof_msg_metadata_def)

lemma parse_metadata_bytes [simp]: "parse_metadata_from_buffer (metadata_bytes md @ bs) = md"
  "parse_metadata_from_buffer (metadata_bytes md) = md"
  by (simp_all add: parse_metadata_from_buffer_def metadata_bytes_def nth_append)

section \<open>The loops\<close>

definition stream_between :: "'w commu_sys \<Rightarrow> int \<Rightarrow> int \<Rightarrow> ('w \<Rightarrow> bytes) \<Rightarrow> nat \<Rightarrow> bool" where
  "stream_between sys a b pipe g \<longleftrightarrow>
    (\<forall>w data. \<exists>n w'. sys_send sys a data w = (Inr n, w') \<and> min g (length data) \<le> n \<and> n \<le> length data \<and>
       pipe w' = pipe w @ take n data) \<and>
    (\<forall>w len. \<exists>n w'. len \<le> length (pipe w) \<longrightarrow> sys_recv sys b len w = (Inr (take n (pipe w)), w') \<and> min g len \<le> n \<and> n \<le> len \<and>
       pipe w' = drop n (pipe w))"

lemma send_loop_all:
  assumes "stream_between sys a b pipe g"
    and "length buffer - t \<le> (SEND_REPEAT_NUM - k) * g" "t \<le> length buffer" "k \<le> SEND_REPEAT_NUM"
  shows "\<exists>w'. send_loop sys a buffer t k w = (0, length buffer, length buffer, w') \<and> pipe w' = pipe w @ drop t buffer"
  using assms(2-)
proof (induction "SEND_REPEAT_NUM - k" arbitrary: t k w)
  case 0
  then show ?case by (simp add: send_loop.simps)
next
  case (Suc m)
  show ?case
  proof (cases "t < length buffer")
    case True
    have k: "k < SEND_REPEAT_NUM" using Suc.hyps(2) by simp
    from assms(1) obtain n w1 where send: "sys_send sys a (drop t buffer) w = (Inr n, w1)" "min g (length buffer - t) \<le> n"
      "n \<le> length buffer - t" "pipe w1 = pipe w @ take n (drop t buffer)"
      unfolding stream_between_def length_drop [symmetric] by blast
    have m: "SEND_REPEAT_NUM - (k + 1) = m" using Suc.hyps(2) by simp
    have "length buffer - (t + n) \<le> m * g"
      using Suc.prems(1) Suc.hyps(2) [symmetric] send(2) by (auto simp: min_def split: if_splits)
    then have "length buffer - (t + n) \<le> (SEND_REPEAT_NUM - (k + 1)) * g" unfolding m .
    then obtain w' where "send_loop sys a buffer (t + n) (k + 1) w1 = (0, length buffer, length buffer, w')"
      "pipe w' = pipe w1 @ drop (t + n) buffer"
      using Suc.hyps(1) [OF m [symmetric], of "t + n" w1] True send(3) k by fastforce
    moreover have "drop t buffer = take n (drop t buffer) @ drop (t + n) buffer"
      by (metis append_take_drop_id drop_drop add.commute)
    ultimately show ?thesis
      using True k send(1,4) by (simp add: send_loop.simps [of sys a buffer t k])
  next
    case False
    then show ?thesis using Suc.prems(2) by (simp add: send_loop.simps)
  qed
qed

lemma write_at_parts:
  "t \<le> length buffer \<Longrightarrow> t + length data \<le> length buffer \<Longrightarrow>
   length (write_at t data buffer) = length buffer \<and> take (t + length data) (write_at t data buffer) = take t buffer @ data"
  by (simp add: write_at_def)

lemma recv_loop_all:
  assumes "stream_between sys a b pipe g"
    and "len - t \<le> (RECV_REPEAT_NUM - k) * g" "0 < g" "t \<le> len" "k \<le> RECV_REPEAT_NUM"
    and "len - t \<le> length (pipe w)" "len \<le> length buffer"
  shows "\<exists>w' buf. recv_loop sys b len buffer t k w = (0, len, len, buf, w') \<and> pipe w' = drop (len - t) (pipe w) \<and>
    length buf = length buffer \<and> take len buf = take t buffer @ take (len - t) (pipe w)"
  using assms(2-)
proof (induction "RECV_REPEAT_NUM - k" arbitrary: t k w buffer)
  case 0
  then show ?case by (simp add: recv_loop.simps)
next
  case (Suc m)
  show ?case
  proof (cases "t < len")
    case True
    have k: "k < RECV_REPEAT_NUM" using Suc.hyps(2) by simp
    from assms(1) Suc.prems(5) obtain n w1 where recv: "sys_recv sys b (len - t) w = (Inr (take n (pipe w)), w1)"
      "min g (len - t) \<le> n" "n \<le> len - t" "pipe w1 = drop n (pipe w)"
      unfolding stream_between_def by blast
    have n: "0 < n" "n \<le> length (pipe w)" using recv(2,3) Suc.prems(2,5) True by auto
    have data: "take (len - t) (take n (pipe w)) = take n (pipe w)" "length (take n (pipe w)) = n" "take n (pipe w) \<noteq> []"
      using recv(3) n by (auto simp: min_def)
    let ?buf = "write_at t (take n (pipe w)) buffer"
    have buf: "length ?buf = length buffer" "take (t + n) ?buf = take t buffer @ take n (pipe w)"
      using write_at_parts [of t buffer "take n (pipe w)"] data(2) Suc.prems(3,6) recv(3) by auto
    have m: "RECV_REPEAT_NUM - (k + 1) = m" using Suc.hyps(2) by simp
    have "len - (t + n) \<le> m * g"
      using Suc.prems(1) Suc.hyps(2) [symmetric] recv(2) by (auto simp: min_def split: if_splits)
    then have "len - (t + n) \<le> (RECV_REPEAT_NUM - (k + 1)) * g" unfolding m .
    moreover have "t + n \<le> len" "k + 1 \<le> RECV_REPEAT_NUM" "len - (t + n) \<le> length (pipe w1)" "len \<le> length ?buf"
      using recv(3,4) Suc.prems(3,5,6) k buf(1) by simp_all
    ultimately obtain w' buf' where "recv_loop sys b len ?buf (t + n) (k + 1) w1 = (0, len, len, buf', w')"
      "pipe w' = drop (len - (t + n)) (pipe w1)" "length buf' = length ?buf"
      "take len buf' = take (t + n) ?buf @ take (len - (t + n)) (pipe w1)"
      using Suc.hyps(1) [OF m [symmetric], of "t + n" w1 ?buf] Suc.prems(2) by blast
    moreover have "take (len - t) (pipe w) = take n (pipe w) @ take (len - (t + n)) (drop n (pipe w))"
      using recv(3) by (metis add_diff_inverse_nat diff_diff_left not_less take_add)
    ultimately show ?thesis
      using True k recv(1,3,4) data buf by (simp add: recv_loop.simps [of sys b len buffer t k])
  next
    case False
    then show ?thesis using Suc.prems(3) by (simp add: recv_loop.simps)
  qed
qed

section \<open>Lookups\<close>

lemma first_idx_map: "first_idx (\<lambda>x. f x = y) xs = first_idx (\<lambda>x. x = y) (map f xs)"
  by (induction xs) auto

lemma first_idx_same_key:
  "f x = f (xs ! i) \<Longrightarrow> first_idx (\<lambda>x. f x = y) (xs[i := x]) = first_idx (\<lambda>x. f x = y) xs"
  by (metis first_idx_map list_update_id map_update)

lemma server_search_same_key:
  assumes "handle h = handle (handle_at (SERVER_AT k i) db)" "k < length (server_tcp_handle_info db)"
  shows "server_search fd js (set_handle_at (SERVER_AT k i) h db) = server_search fd js db"
proof (induction js)
  case (Cons j js)
  have "first_idx (\<lambda>h. handle h = fd) (server_tcp_handle_info (set_handle_at (SERVER_AT k i) h db) ! j) =
      first_idx (\<lambda>h. handle h = fd) (server_tcp_handle_info db ! j)"
    using assms by (cases "j = k") (simp_all add: first_idx_same_key)
  with Cons show ?case by (simp only: server_search.simps server_status_set_handle)
qed simp

lemma server_search_other:
  assumes "server_tcp_handle_info db' = server_tcp_handle_info db" "server_status_st db' = server_status_st db"
  shows "server_search fd js db' = server_search fd js db"
  using assms by (induction js) (auto split: option.split)

lemma get_same_key:
  assumes "handle h = handle (handle_at l db)" "loc_ok l db"
  shows "lib_commu_db_hanlde_info_get fd type (set_handle_at l h db) = lib_commu_db_hanlde_info_get fd type db"
proof -
  let ?db = "set_handle_at l h db"
  have "client_search fd ?db = client_search fd db" "udp_search fd ?db = udp_search fd db"
    using assms by (cases l; simp add: client_search_def udp_search_def first_idx_same_key)+
  moreover have "server_search fd js ?db = server_search fd js db" for js
  proof (cases l)
    case (SERVER_AT k i)
    then show ?thesis using server_search_same_key assms by (simp add: loc_ok_def)
  next
    case (UDP_AT i)
    then show ?thesis by (intro server_search_other) simp_all
  next
    case (CLIENT_AT i)
    then show ?thesis by (intro server_search_other) simp_all
  qed
  ultimately show ?thesis by (simp only: lib_commu_db_hanlde_info_get_def)
qed

lemma get_by_type:
  assumes "lib_commu_db_hanlde_info_get fd ANY_HANLDE_DB db = Inr l"
  shows "lib_commu_db_hanlde_info_get fd (loc_type l) db = Inr l"
proof -
  have "\<And>l. client_search fd db = Some l \<Longrightarrow> loc_type l = TCP_CLIENT_HANDLE_DB"
    "\<And>l. udp_search fd db = Some l \<Longrightarrow> loc_type l = UDP_HANDLE_DB"
    "\<And>l js. server_search fd js db = Some l \<Longrightarrow> loc_type l = TCP_SERVER_HANDLE_DB"
    by (auto simp: client_search_def udp_search_def dest!: server_search_Some)
  then show ?thesis
    using assms by (auto simp: lib_commu_db_hanlde_info_get_def Let_def split: option.splits)
qed

lemma length_row_update: "length (xs[k := (xs ! k)[i := h]] ! j) = length (xs ! j)"
  by (cases "j = k"; cases "k < length xs") (simp_all add: list_update_beyond)

lemma loc_ok_set [simp]: "loc_ok l (set_handle_at l' h db) = loc_ok l db"
  by (cases l; cases l') (simp_all add: loc_ok_def length_row_update)

lemma set_handle_id [simp]: "set_handle_at l (handle_at l db) db = db"
  by (cases l) simp_all

lemma set_handle_twice [simp]: "loc_ok l db \<Longrightarrow> set_handle_at l h (set_handle_at l h' db) = set_handle_at l h db"
  by (cases l) (auto simp: loc_ok_def)

section \<open>Handles in use\<close>

text \<open>A step of a transfer changes only the statistics and the peer's magic number of the handle it uses.\<close>

definition open_handle :: "int \<Rightarrow> lib_state \<Rightarrow> handle_loc \<Rightarrow> bool" where
  "open_handle fd s l \<longleftrightarrow> g_lib_commu_init_done s \<and> loc_ok l (lib_db s) \<and> handle (handle_at l (lib_db s)) = fd \<and>
     lib_commu_db_hanlde_info_get fd ANY_HANLDE_DB (lib_db s) = Inr l"

definition handle_now :: "handle_loc \<Rightarrow> lib_state \<Rightarrow> handle_info" where
  "handle_now l s = handle_at l (lib_db s)"

definition touched :: "handle_loc \<Rightarrow> (u32 \<Rightarrow> u32) \<Rightarrow> lib_state \<Rightarrow> lib_state \<Rightarrow> bool" where
  "touched l f s s' \<longleftrightarrow> (\<exists>h. s' = s\<lparr>lib_db := set_handle_at l h (lib_db s)\<rparr> \<and> handle h = handle (handle_now l s) \<and>
     conn_info h = conn_info (handle_now l s) \<and>
     local_magic (socekt_info h) = local_magic (socekt_info (handle_now l s)) \<and>
     is_single_peer (socekt_info h) = is_single_peer (socekt_info (handle_now l s)) \<and>
     peer_magic (socekt_info h) = f (peer_magic (socekt_info (handle_now l s))))"

lemma touched_refl: "touched l id s s"
  unfolding touched_def handle_now_def by (rule exI [of _ "handle_at l (lib_db s)"]) simp

lemma touched_trans:
  assumes "touched l f s s'" "touched l g s' s''" "open_handle fd s l"
  shows "touched l (g \<circ> f) s s''"
  using assms by (auto simp: touched_def handle_now_def open_handle_def)

lemma touched_open: "touched l R s s' \<Longrightarrow> open_handle fd s l \<Longrightarrow> open_handle fd s' l"
  by (auto simp: touched_def open_handle_def handle_now_def get_same_key)

lemma count_tx_touched:
  assumes "open_handle fd s l"
  shows "\<exists>s'. count_tx fd (loc_type l) n 0 s = (0, s') \<and> touched l id s s'"
proof (cases "n = 0")
  case True
  then show ?thesis by (simp add: count_tx_def touched_refl)
next
  case False
  then show ?thesis
    using assms get_by_type
    by (auto simp: count_tx_def handle_total_tx_update_def open_handle_def touched_def handle_now_def Let_def)
qed

lemma count_rx_touched:
  assumes "open_handle fd s l"
  shows "\<exists>s'. count_rx fd ANY_HANLDE_DB n 0 s = (0, s') \<and> touched l id s s'"
proof (cases "n = 0")
  case True
  then show ?thesis by (simp add: count_rx_def touched_refl)
next
  case False
  then show ?thesis
    using assms
    by (auto simp: count_rx_def handle_total_rx_update_def open_handle_def touched_def handle_now_def Let_def)
qed

section \<open>Transfers\<close>

lemma ll_send_all:
  assumes "stream_between sys a b pipe g" "length buffer \<le> SEND_REPEAT_NUM * g" "open_handle a s l"
  shows "\<exists>s' w'. comm_lib_tcp_ll_send_blocking sys a buffer (loc_type l) s w = (0, length buffer, s', w') \<and>
    touched l id s s' \<and> pipe w' = pipe w @ buffer"
proof -
  obtain w' where "send_loop sys a buffer 0 0 w = (0, length buffer, length buffer, w')" "pipe w' = pipe w @ buffer"
    using send_loop_all [OF assms(1), of buffer 0 0 w] assms(2) by auto
  moreover obtain s' where "count_tx a (loc_type l) (length buffer) 0 s = (0, s')" "touched l id s s'"
    using count_tx_touched [OF assms(3)] by blast
  ultimately show ?thesis by (simp add: comm_lib_tcp_ll_send_blocking_def)
qed

lemma ll_recv_all:
  assumes "stream_between sys a b pipe g" "0 < g" "length data \<le> RECV_REPEAT_NUM * g" "open_handle b s l"
    and "pipe w = data @ rest" "length data \<le> length buffer"
  shows "\<exists>s' w' buf. comm_lib_tcp_ll_recv_blocking sys b (length data) buffer s w = (0, length data, buf, s', w') \<and>
    touched l id s s' \<and> pipe w' = rest \<and> length buf = length buffer \<and> take (length data) buf = data"
proof -
  obtain w' buf where "recv_loop sys b (length data) buffer 0 0 w = (0, length data, length data, buf, w')"
    "pipe w' = rest" "length buf = length buffer" "take (length data) buf = data"
    using recv_loop_all [OF assms(1), of "length data" 0 0 w buffer] assms(2,3,5,6) by auto
  moreover obtain s' where "count_rx b ANY_HANLDE_DB (length data) 0 s = (0, s')" "touched l id s s'"
    using count_rx_touched [OF assms(4)] by blast
  ultimately show ?thesis by (simp add: comm_lib_tcp_ll_recv_blocking_def)
qed

text \<open>A message on the wire, and what a receiver finds in its structure.\<close>

definition framed :: "u32 \<Rightarrow> u8 \<Rightarrow> bytes \<Rightarrow> bytes" where
  "framed m t data = metadata_bytes \<lparr>payload_size = htonl (of_nat (length data)), trailer = htonl m,
     version = MSG_VERSION, md_msg_type = t\<rparr> @ data"

definition message_of :: "recv_payload_data \<Rightarrow> bytes" where
  "message_of pd = (if jumbo_payload_len pd > 0 then take (unat (jumbo_payload_len pd)) (jumbo_payload pd)
     else take (unat (rp_payload_len pd ! 0)) (rp_payload pd ! 0))"

definition type_of :: "recv_payload_data \<Rightarrow> u8" where
  "type_of pd = (if jumbo_payload_len pd > 0 then jumbo_msg_type pd else rp_msg_type pd ! 0)"

definition payload_data_ok :: "recv_payload_data \<Rightarrow> bool" where
  "payload_data_ok pd \<longleftrightarrow> length (rp_payload pd) = MAX_MSGS \<and> (\<forall>p\<in>set (rp_payload pd). length p = MAX_TCP_PAYLOAD) \<and>
     length (rp_payload_len pd) = MAX_MSGS \<and> length (rp_msg_type pd) = MAX_MSGS \<and>
     length (jumbo_payload pd) = MAX_JUMBO_TCP_PAYLOAD"

lemmas commu_limits = MAX_JUMBO_TCP_PAYLOAD_def MAX_TCP_PAYLOAD_def sizeof_msg_metadata_def MAX_MSGS_def MAX_MTU_def
  MAX_UDP_MSG_SIZE_def MAX_IPV4_HEADER_SIZE_def UDP_HEADER_SIZE_def

lemma send_message:
  assumes "stream_between sys a b pipe g" "MAX_JUMBO_TCP_PAYLOAD \<le> SEND_REPEAT_NUM * g" "open_handle a s l"
    and "length data \<le> MAX_JUMBO_TCP_PAYLOAD - sizeof_msg_metadata"
  shows "\<exists>s' w'. comm_lib_tcp_send_blocking sys a (Some data) (Some (of_nat (length data))) s w =
      (0, Some (of_nat (length data)), s', w') \<and> touched l id s s' \<and>
    pipe w' = pipe w @ framed (local_magic (socekt_info (handle_now l s))) (ucast (msg_type (conn_info (handle_now l s)))) data"
proof -
  let ?h = "handle_now l s"
  let ?md = "metadata_set MSG_VERSION (of_nat (length data)) ?h"
  have len: "unat (of_nat (length data) :: u32) = length data"
    using assms(4) by (intro unat_of_nat32) (simp add: commu_limits)
  obtain s1 w1 where one: "comm_lib_tcp_ll_send_blocking sys a (metadata_bytes ?md) (loc_type l) s w =
      (0, sizeof_msg_metadata, s1, w1)" "touched l id s s1" "pipe w1 = pipe w @ metadata_bytes ?md"
    using ll_send_all [OF assms(1) _ assms(3), of "metadata_bytes ?md" w] assms(2) by (auto simp: commu_limits)
  obtain s2 w2 where two: "comm_lib_tcp_ll_send_blocking sys a data (loc_type l) s1 w1 = (0, length data, s2, w2)"
    "touched l id s1 s2" "pipe w2 = pipe w1 @ data"
    using ll_send_all [OF assms(1) _ touched_open [OF one(2) assms(3)], of data w1] assms(2,4) by (auto simp: commu_limits)
  have "touched l id s s2" using touched_trans [OF one(2) two(2) assms(3)] by simp
  moreover have "comm_lib_tcp_send_blocking sys a (Some data) (Some (of_nat (length data))) s w =
      (0, Some (of_nat (length data)), s2, w2)"
    using assms(3,4) one(1) two(1) by (simp add: comm_lib_tcp_send_blocking_def open_handle_def handle_now_def len)
  ultimately show ?thesis
    using one(3) two(3) by (simp add: framed_def metadata_set_def)
qed

text \<open>A handle that takes the messages of a peer with a given magic number and type.\<close>

definition learn_magic :: "u32 \<Rightarrow> u32 \<Rightarrow> u32" where
  "learn_magic m p = (if p = INVALID_MAGIC then m else p)"

definition accepts_from :: "u32 \<Rightarrow> u8 \<Rightarrow> handle_info \<Rightarrow> bool" where
  "accepts_from m t h \<longleftrightarrow> msg_type (conn_info h) = ucast t \<and>
     (peer_magic (socekt_info h) = INVALID_MAGIC \<or> is_single_peer (socekt_info h) = 0 \<or> peer_magic (socekt_info h) = m)"

lemma accepts_touched:
  assumes "touched l f s s'" "open_handle fd s l" "f = id \<or> f = learn_magic m" "accepts_from m t (handle_now l s)"
  shows "accepts_from m t (handle_now l s')"
  using assms by (auto simp: touched_def accepts_from_def learn_magic_def handle_now_def open_handle_def)

definition wire_metadata :: "u32 \<Rightarrow> u8 \<Rightarrow> u32 \<Rightarrow> msg_metadata" where
  "wire_metadata m t len = \<lparr>payload_size = htonl len, trailer = htonl m, version = MSG_VERSION, md_msg_type = t\<rparr>"

lemma frame_parts: "framed m t data = metadata_bytes (wire_metadata m t (of_nat (length data))) @ data"
  by (simp add: framed_def wire_metadata_def)

lemma validate_accepted:
  assumes "accepts_from m t h" "0 < len" "len \<le> max_len"
  shows "\<exists>md h'. validate_metadata_info (wire_metadata m t len) max_len h = (0, md, h') \<and> payload_size md = len \<and>
    md_msg_type md = t \<and> h' = h\<lparr>socekt_info := (socekt_info h)\<lparr>peer_magic := learn_magic m (peer_magic (socekt_info h))\<rparr>\<rparr>"
  using assms by (auto simp: validate_metadata_info_def wire_metadata_def accepts_from_def learn_magic_def Let_def)

lemma touched_magic:
  assumes "open_handle fd s l"
  shows "touched l f s (s\<lparr>lib_db := set_handle_at l ((handle_now l s)\<lparr>socekt_info := (socekt_info (handle_now l s))
    \<lparr>peer_magic := f (peer_magic (socekt_info (handle_now l s)))\<rparr>\<rparr>) (lib_db s)\<rparr>)"
  unfolding touched_def by (rule exI) (rule conjI [OF refl], simp)

text \<open>Clearing the counts at the start of a call.\<close>

definition cleared :: "recv_payload_data \<Rightarrow> recv_payload_data" where
  "cleared pd = pd\<lparr>msg_num_recv := 0, rp_payload_len := replicate MAX_MSGS 0, jumbo_payload_len := 0\<rparr>"

lemma recv_payload:
  assumes "stream_between sys a b pipe g" "0 < g" "MAX_JUMBO_TCP_PAYLOAD \<le> RECV_REPEAT_NUM * g" "open_handle b s l"
    and "pipe w = data @ rest" "payload_size md = of_nat (length data)" "data \<noteq> []" "length data \<le> MAX_JUMBO_TCP_PAYLOAD"
    and "payload_data_ok pd"
  shows "\<exists>pd' s' w'. recv_message sys b md (cleared pd) s w = (0, pd', s', w') \<and> touched l id s s' \<and> pipe w' = rest \<and>
    payload_data_ok pd' \<and> message_of pd' = data \<and> type_of pd' = md_msg_type md \<and> msg_num_recv pd' = 1"
proof -
  have len: "unat (of_nat (length data) :: u32) = length data"
    using assms(8) by (intro unat_of_nat32) (simp add: commu_limits)
  then have pos: "0 < (of_nat (length data) :: u32)" using assms(7) by (simp add: word_greater_zero_iff unat_eq_0 [symmetric])
  show ?thesis
  proof (cases "length data \<le> MAX_TCP_PAYLOAD")
    case True
    have row: "length (rp_payload pd ! 0) = MAX_TCP_PAYLOAD"
      using assms(9) by (auto simp: payload_data_ok_def commu_limits)
    obtain s' w' buf where "comm_lib_tcp_ll_recv_blocking sys b (length data) (rp_payload pd ! 0) s w =
        (0, length data, buf, s', w')" "touched l id s s'" "pipe w' = rest" "length buf = MAX_TCP_PAYLOAD"
        "take (length data) buf = data"
      using ll_recv_all [OF assms(1,2) _ assms(4,5), of "rp_payload pd ! 0"] assms(3,8) True row by auto
    moreover have "\<forall>p\<in>set ((rp_payload pd)[0 := buf]). length p = MAX_TCP_PAYLOAD"
      by (rule set_update_all) (use assms(9) \<open>length buf = _\<close> in \<open>simp_all add: payload_data_ok_def\<close>)
    moreover have "0 < MAX_MSGS" by (simp add: commu_limits)
    ultimately show ?thesis
      using True assms(9)
      by (simp add: recv_message_def cleared_def assms(6) len message_of_def type_of_def payload_data_ok_def)
  next
    case False
    have row: "length (jumbo_payload pd) = MAX_JUMBO_TCP_PAYLOAD"
      using assms(9) by (simp add: payload_data_ok_def)
    obtain s' w' buf where "comm_lib_tcp_ll_recv_blocking sys b (length data) (jumbo_payload pd) s w =
        (0, length data, buf, s', w')" "touched l id s s'" "pipe w' = rest" "length buf = MAX_JUMBO_TCP_PAYLOAD"
        "take (length data) buf = data"
      using ll_recv_all [OF assms(1,2) _ assms(4,5), of "jumbo_payload pd"] assms(3,8) row by auto
    then show ?thesis
      using False pos assms(9)
      by (simp add: recv_message_def cleared_def assms(6) len message_of_def type_of_def payload_data_ok_def)
  qed
qed

lemma recv_frame:
  assumes "stream_between sys a b pipe g" "0 < g" "MAX_JUMBO_TCP_PAYLOAD \<le> RECV_REPEAT_NUM * g" "open_handle b s l"
    and "loc_type l \<noteq> UDP_HANDLE_DB" "accepts_from m t (handle_now l s)"
    and "pipe w = framed m t data @ rest" "data \<noteq> []" "length data \<le> MAX_JUMBO_TCP_PAYLOAD" "payload_data_ok pd"
  shows "\<exists>pd' s' w'. comm_lib_tcp_recv_blocking sys b (Some addr) (Some pd) 1 s w =
      (0, Some \<lparr>port = d_port (conn_info (handle_now l s)), ipv4_addr = d_ipv4_addr (conn_info (handle_now l s))\<rparr>,
       Some pd', s', w') \<and> touched l (learn_magic m) s s' \<and> pipe w' = rest \<and>
    payload_data_ok pd' \<and> message_of pd' = data \<and> type_of pd' = t \<and> msg_num_recv pd' = 1"
proof -
  let ?md = "wire_metadata m t (of_nat (length data))"
  have tcp: "loc_type l = TCP_CLIENT_HANDLE_DB \<or> loc_type l = TCP_SERVER_HANDLE_DB"
    using assms(5) by (cases l) simp_all
  have len: "unat (of_nat (length data) :: u32) = length data"
    using assms(9) by (intro unat_of_nat32) (simp add: commu_limits)
  then have bounds: "0 < (of_nat (length data) :: u32)" "(of_nat (length data) :: u32) \<le> of_nat MAX_JUMBO_TCP_PAYLOAD"
    using assms(8,9) by (simp_all add: word_greater_zero_iff unat_eq_0 [symmetric] word_le_nat_alt commu_limits)
  have pipe: "pipe w = metadata_bytes ?md @ data @ rest"
    using assms(7) by (simp add: frame_parts)
  obtain s1 w1 buf where one: "comm_lib_tcp_ll_recv_blocking sys b sizeof_msg_metadata (replicate sizeof_msg_metadata 0) s w =
      (0, sizeof_msg_metadata, buf, s1, w1)" "touched l id s s1" "pipe w1 = data @ rest" "buf = metadata_bytes ?md"
    using ll_recv_all [OF assms(1,2) _ assms(4) pipe, of "replicate sizeof_msg_metadata 0"] assms(3) by (auto simp: commu_limits)
  note op1 = touched_open [OF one(2) assms(4)]
  obtain md h where v: "validate_metadata_info ?md (of_nat MAX_JUMBO_TCP_PAYLOAD) (handle_now l s1) = (0, md, h)"
    "payload_size md = of_nat (length data)" "md_msg_type md = t"
    "h = (handle_now l s1)\<lparr>socekt_info := (socekt_info (handle_now l s1))
      \<lparr>peer_magic := learn_magic m (peer_magic (socekt_info (handle_now l s1)))\<rparr>\<rparr>"
    using validate_accepted [OF accepts_touched [OF one(2) assms(4) _ assms(6)] bounds] by auto
  let ?s2 = "s1\<lparr>lib_db := set_handle_at l h (lib_db s1)\<rparr>"
  have two: "touched l (learn_magic m) s1 ?s2" unfolding v(4) by (rule touched_magic [OF op1])
  obtain pd' s3 w3 where three: "recv_message sys b md (cleared pd) ?s2 w1 = (0, pd', s3, w3)" "touched l id ?s2 s3" "pipe w3 = rest"
    "payload_data_ok pd'" "message_of pd' = data" "type_of pd' = md_msg_type md" "msg_num_recv pd' = 1"
    using recv_payload [OF assms(1-3) touched_open [OF two op1] one(3) v(2) assms(8-10)] by blast
  have "touched l (learn_magic m) s s3"
    using touched_trans [OF touched_trans [OF one(2) two assms(4)] three(2) assms(4)] by simp
  moreover have "comm_lib_tcp_recv_blocking sys b (Some addr) (Some pd) 1 s w =
      (0, Some \<lparr>port = d_port (conn_info (handle_now l s)), ipv4_addr = d_ipv4_addr (conn_info (handle_now l s))\<rparr>,
       Some pd', s3, w3)"
    using assms(4) tcp one(1,4) v(1) three(1)
    by (auto simp: comm_lib_tcp_recv_blocking_def open_handle_def handle_now_def cleared_def Let_def)
  ultimately show ?thesis using three(3-7) v(3) by simp
qed

section \<open>The connection as a queue of messages\<close>

text \<open>
  Two processes, each with its own library, at the ends of a connection, in any interleaving of the calls that send and
  receive. \<open>sent\<close> and \<open>got\<close> are the messages of the calls so far. A call that receives is made when a message
  is on its way; else it would wait.
\<close>

record 'w link =
  lk_sender :: lib_state
  lk_receiver :: lib_state
  lk_world :: 'w
  lk_sent :: "bytes list"
  lk_got :: "bytes list"

inductive tcp_link :: "'w commu_sys \<Rightarrow> int \<Rightarrow> int \<Rightarrow> 'w link \<Rightarrow> 'w link \<Rightarrow> bool" for sys a b where
  tl_refl: "tcp_link sys a b k k"
| tl_send: "tcp_link sys a b k k' \<Longrightarrow> data \<noteq> [] \<Longrightarrow> length data \<le> MAX_JUMBO_TCP_PAYLOAD - sizeof_msg_metadata \<Longrightarrow>
    comm_lib_tcp_send_blocking sys a (Some data) (Some (of_nat (length data))) (lk_sender k') (lk_world k') = (r, n, s, w) \<Longrightarrow>
    tcp_link sys a b k (k'\<lparr>lk_sender := s, lk_world := w, lk_sent := lk_sent k' @ [data]\<rparr>)"
| tl_recv: "tcp_link sys a b k k' \<Longrightarrow> length (lk_got k') < length (lk_sent k') \<Longrightarrow> payload_data_ok pd \<Longrightarrow>
    comm_lib_tcp_recv_blocking sys b (Some addr) (Some pd) 1 (lk_receiver k') (lk_world k') = (r, addr', Some pd', s, w) \<Longrightarrow>
    tcp_link sys a b k (k'\<lparr>lk_receiver := s, lk_world := w, lk_got := lk_got k' @ [message_of pd']\<rparr>)"

definition sends_as :: "int \<Rightarrow> u32 \<Rightarrow> u8 \<Rightarrow> lib_state \<Rightarrow> bool" where
  "sends_as fd m t s \<longleftrightarrow> (\<exists>l. open_handle fd s l \<and> local_magic (socekt_info (handle_now l s)) = m \<and>
     msg_type (conn_info (handle_now l s)) = ucast t)"

definition receives_from :: "int \<Rightarrow> u32 \<Rightarrow> u8 \<Rightarrow> lib_state \<Rightarrow> bool" where
  "receives_from fd m t s \<longleftrightarrow> (\<exists>l. open_handle fd s l \<and> loc_type l \<noteq> UDP_HANDLE_DB \<and> accepts_from m t (handle_now l s))"

definition on_the_way :: "u32 \<Rightarrow> u8 \<Rightarrow> bytes list \<Rightarrow> bytes list \<Rightarrow> bytes \<Rightarrow> bool" where
  "on_the_way m t sent got stream \<longleftrightarrow> (\<exists>ds. sent = got @ ds \<and> stream = concat (map (framed m t) ds) \<and>
     (\<forall>d\<in>set ds. d \<noteq> [] \<and> length d \<le> MAX_JUMBO_TCP_PAYLOAD))"

definition link_inv :: "int \<Rightarrow> int \<Rightarrow> ('w \<Rightarrow> bytes) \<Rightarrow> u32 \<Rightarrow> u8 \<Rightarrow> 'w link \<Rightarrow> bool" where
  "link_inv a b pipe m t k \<longleftrightarrow> sends_as a m t (lk_sender k) \<and> receives_from b m t (lk_receiver k) \<and>
     on_the_way m t (lk_sent k) (lk_got k) (pipe (lk_world k))"

lemma touched_sender:
  "touched l id s s' \<Longrightarrow> open_handle fd s l \<Longrightarrow> local_magic (socekt_info (handle_now l s')) = local_magic (socekt_info (handle_now l s)) \<and>
   conn_info (handle_now l s') = conn_info (handle_now l s)"
  by (auto simp: touched_def handle_now_def open_handle_def)

lemma ucast_type [simp]: "ucast (ucast (t :: u8) :: u16) = t"
  by (rule bit_word_eqI) (simp add: bit_simps)

lemma link_send:
  assumes "stream_between sys a b pipe g" "MAX_JUMBO_TCP_PAYLOAD \<le> SEND_REPEAT_NUM * g" "link_inv a b pipe m t k"
    and "data \<noteq> []" "length data \<le> MAX_JUMBO_TCP_PAYLOAD - sizeof_msg_metadata"
    and "comm_lib_tcp_send_blocking sys a (Some data) (Some (of_nat (length data))) (lk_sender k) (lk_world k) = (r, n, s, w)"
  shows "r = 0 \<and> n = Some (of_nat (length data)) \<and>
    link_inv a b pipe m t (k\<lparr>lk_sender := s, lk_world := w, lk_sent := lk_sent k @ [data]\<rparr>)"
proof -
  from assms(3) obtain l where l: "open_handle a (lk_sender k) l" "local_magic (socekt_info (handle_now l (lk_sender k))) = m"
      "msg_type (conn_info (handle_now l (lk_sender k))) = ucast t"
    unfolding link_inv_def sends_as_def by blast
  obtain s' w' where step: "(r, n, s, w) = (0, Some (of_nat (length data)), s', w')" "touched l id (lk_sender k) s'"
      "pipe w' = pipe (lk_world k) @ framed m t data"
    using send_message [OF assms(1,2) l(1) assms(5), of "lk_world k"] l(2,3) assms(6) by auto
  have "sends_as a m t s'"
    unfolding sends_as_def using touched_open [OF step(2) l(1)] touched_sender [OF step(2) l(1)] l(2,3) by auto
  moreover from assms(3) obtain ds where ds: "lk_sent k = lk_got k @ ds" "pipe (lk_world k) = concat (map (framed m t) ds)"
      "\<forall>d\<in>set ds. d \<noteq> [] \<and> length d \<le> MAX_JUMBO_TCP_PAYLOAD"
    unfolding link_inv_def on_the_way_def by blast
  have "on_the_way m t (lk_sent k @ [data]) (lk_got k) (pipe w')"
    unfolding on_the_way_def by (rule exI [of _ "ds @ [data]"]) (use ds step(3) assms(4,5) in auto)
  ultimately show ?thesis
    using assms(3) step(1) by (simp add: link_inv_def)
qed

lemma link_recv:
  assumes "stream_between sys a b pipe g" "0 < g" "MAX_JUMBO_TCP_PAYLOAD \<le> RECV_REPEAT_NUM * g" "link_inv a b pipe m t k"
    and "length (lk_got k) < length (lk_sent k)" "payload_data_ok pd"
    and "comm_lib_tcp_recv_blocking sys b (Some addr) (Some pd) 1 (lk_receiver k) (lk_world k) = (r, addr', pd', s, w)"
  shows "\<exists>pd''. r = 0 \<and> pd' = Some pd'' \<and> message_of pd'' = lk_sent k ! length (lk_got k) \<and> type_of pd'' = t \<and>
    msg_num_recv pd'' = 1 \<and> payload_data_ok pd'' \<and>
    link_inv a b pipe m t (k\<lparr>lk_receiver := s, lk_world := w, lk_got := lk_got k @ [message_of pd'']\<rparr>)"
proof -
  from assms(4) obtain l where l: "open_handle b (lk_receiver k) l" "loc_type l \<noteq> UDP_HANDLE_DB"
      "accepts_from m t (handle_now l (lk_receiver k))"
    unfolding link_inv_def receives_from_def by blast
  from assms(4,5) obtain d ds where ds: "lk_sent k = lk_got k @ d # ds" "pipe (lk_world k) = framed m t d @ concat (map (framed m t) ds)"
      "d \<noteq> []" "length d \<le> MAX_JUMBO_TCP_PAYLOAD" "\<forall>d\<in>set ds. d \<noteq> [] \<and> length d \<le> MAX_JUMBO_TCP_PAYLOAD"
    unfolding link_inv_def on_the_way_def by (metis (no_types, lifting) append_Nil2 concat.simps(2) less_irrefl list.exhaust
      list.set_intros(1) list.set_intros(2) list.simps(9))
  obtain pd2 s' w' where step: "r = 0" "pd' = Some pd2" "s = s'" "w = w'" "touched l (learn_magic m) (lk_receiver k) s'"
      "pipe w' = concat (map (framed m t) ds)" "payload_data_ok pd2" "message_of pd2 = d" "type_of pd2 = t" "msg_num_recv pd2 = 1"
    using recv_frame [OF assms(1-3) l ds(2-4) assms(6), of addr] assms(7) by auto
  have "receives_from b m t s'"
    unfolding receives_from_def using touched_open [OF step(5) l(1)] accepts_touched [OF step(5) l(1) _ l(3)] l(2) by blast
  moreover have "on_the_way m t (lk_sent k) (lk_got k @ [d]) (pipe w')"
    using ds(1,5) step(6) unfolding on_the_way_def by (intro exI [of _ ds]) simp
  ultimately show ?thesis
    using assms(4) step ds(1) by (simp add: link_inv_def)
qed

lemma tcp_link_inv:
  assumes "tcp_link sys a b k k'" "stream_between sys a b pipe g" "0 < g" "MAX_JUMBO_TCP_PAYLOAD \<le> 500 * g"
    and "link_inv a b pipe m t k"
  shows "link_inv a b pipe m t k'"
  using assms
proof (induction rule: tcp_link.induct)
  case (tl_send k k' data r n s w)
  then show ?case using link_send [of sys a b pipe g m t k' data] by (simp add: SEND_REPEAT_NUM_def)
next
  case (tl_recv k k' pd addr r addr' pd' s w)
  then show ?case
    using link_recv [of sys a b pipe g m t k' pd, OF _ _ _ _ _ _ tl_recv.hyps(4)] by (auto simp: RECV_REPEAT_NUM_def)
qed

end
