(* ===== verification/Commu_Inv.thy ===== *)
theory Commu_Inv
  imports Commu_Link
begin

text \<open>
  The calls and threads of the communication library as a state machine over its variables. The tables of the database
  stay in agreement in every state that is reached, and a call that receives never writes outside the user's structure.
\<close>

section \<open>Receiving never writes outside the buffers\<close>

lemma recv_loop_bounds:
  assumes "recv_loop sys fd len buffer t k w = (err, n, n', buf, w')" "t \<le> len" "len \<le> length buffer"
  shows "length buf = length buffer"
  using assms
proof (induction "RECV_REPEAT_NUM - k" arbitrary: t k w buffer)
  case 0
  then show ?case by (auto simp: recv_loop.simps [of _ _ _ _ t] split: if_splits)
next
  case (Suc m)
  obtain r w1 where recv: "sys_recv sys fd (len - t) w = (r, w1)" by fastforce
  have m: "m = RECV_REPEAT_NUM - (k + 1)" and k: "\<not> RECV_REPEAT_NUM \<le> k" using Suc.hyps(2) by simp_all
  show ?case
  proof (cases "\<exists>data. t < len \<and> r = Inr data \<and> take (len - t) data \<noteq> []")
    case True
    then obtain data where d: "t < len" "r = Inr data" "take (len - t) data \<noteq> []" by blast
    let ?d = "take (len - t) data"
    have "recv_loop sys fd len (write_at t ?d buffer) (t + length ?d) (k + 1) w1 = (err, n, n', buf, w')"
      using Suc.prems(1) k d recv by (simp add: recv_loop.simps [of _ _ _ _ t] Let_def)
    moreover have "length (write_at t ?d buffer) = length buffer"
      using write_at_parts [of t buffer ?d] Suc.prems(2,3) d(1) by simp
    ultimately show ?thesis
      using Suc.hyps(1) [OF m, of "write_at t ?d buffer" "t + length ?d" w1] Suc.prems(2,3) by simp
  next
    case False
    then have "buf = buffer"
      using Suc.prems(1) k recv
      by (auto simp: recv_loop.simps [of _ _ _ _ t] Let_def split: if_splits sum.splits)
    then show ?thesis by simp
  qed
qed

lemma ll_recv_bounds:
  "comm_lib_tcp_ll_recv_blocking sys fd len buffer s w = (err, n, buf, s', w') \<Longrightarrow> len \<le> length buffer \<Longrightarrow>
   length buf = length buffer"
  by (auto simp: comm_lib_tcp_ll_recv_blocking_def split: prod.splits dest: recv_loop_bounds)

lemma recv_message_bounds:
  assumes "recv_message sys fd md pd s w = (r, pd', s', w')" "payload_data_ok pd"
    and "unat (payload_size md) \<le> MAX_JUMBO_TCP_PAYLOAD" "msg_num_recv pd = 0"
  shows "payload_data_ok pd' \<and> msg_num_recv pd' = (if r = 0 then 1 else 0)"
proof (cases "unat (payload_size md) \<le> MAX_TCP_PAYLOAD")
  case True
  obtain err n buf s1 w1 where recv:
    "comm_lib_tcp_ll_recv_blocking sys fd (unat (payload_size md)) (rp_payload pd ! 0) s w = (err, n, buf, s1, w1)"
    by (metis prod_cases5)
  have "length (rp_payload pd ! 0) = MAX_TCP_PAYLOAD"
    using assms(2) by (auto simp: payload_data_ok_def commu_limits)
  then have "length buf = MAX_TCP_PAYLOAD" using ll_recv_bounds [OF recv] True by simp
  then have "\<forall>p\<in>set ((rp_payload pd)[0 := buf]). length p = MAX_TCP_PAYLOAD"
    by (intro set_update_all) (use assms(2) in \<open>simp_all add: payload_data_ok_def\<close>)
  then show ?thesis
    using assms(1,2,4) True recv by (auto simp: recv_message_def payload_data_ok_def Let_def split: if_splits)
next
  case False
  obtain err n buf s1 w1 where recv:
    "comm_lib_tcp_ll_recv_blocking sys fd (unat (payload_size md)) (jumbo_payload pd) s w = (err, n, buf, s1, w1)"
    by (metis prod_cases5)
  have "length buf = length (jumbo_payload pd)"
    using ll_recv_bounds [OF recv] assms(2,3) by (simp add: payload_data_ok_def)
  then show ?thesis
    using assms(1,2,4) False recv by (auto simp: recv_message_def payload_data_ok_def Let_def split: if_splits)
qed

lemma validate_size:
  "validate_metadata_info md max_len h = (0, md', h') \<Longrightarrow> payload_size md' \<le> max_len"
  by (auto simp: validate_metadata_info_def Let_def EIO_def EOVERFLOW_def EBADE_def split: if_splits)

lemma errors_nonzero: "EPERM \<noteq> 0" "EINVAL \<noteq> 0" "EIO \<noteq> 0"
  by (simp_all add: EPERM_def EINVAL_def EIO_def)

lemma payload_data_cleared: "payload_data_ok pd \<Longrightarrow> payload_data_ok (cleared pd)" "msg_num_recv (cleared pd) = 0"
  by (simp_all add: payload_data_ok_def cleared_def)

lemma recv_bounds:
  assumes "comm_lib_tcp_recv_blocking sys fd (Some addr) (Some pd) n s w = (r, addr', Some pd', s', w')"
    and "payload_data_ok pd" "g_lib_commu_init_done s"
  shows "payload_data_ok pd' \<and> msg_num_recv pd' = (if r = 0 then 1 else 0)"
proof (cases "\<exists>md s1 w1. recv_message sys fd md (cleared pd) s1 w1 = (r, pd', s', w') \<and>
    payload_size md \<le> of_nat MAX_JUMBO_TCP_PAYLOAD")
  case True
  then obtain md s1 w1 where run: "recv_message sys fd md (cleared pd) s1 w1 = (r, pd', s', w')"
    and "payload_size md \<le> of_nat MAX_JUMBO_TCP_PAYLOAD" by blast
  then have "unat (payload_size md) \<le> MAX_JUMBO_TCP_PAYLOAD"
    by (simp add: word_le_nat_alt commu_limits)
  then show ?thesis using recv_message_bounds [OF run] payload_data_cleared assms(2) by simp
next
  case False
  have "pd' = cleared pd \<and> r \<noteq> 0"
    using assms(1,3) False hanlde_info_get_error [of fd ANY_HANLDE_DB "lib_db s"] errors_nonzero
    by (auto simp: comm_lib_tcp_recv_blocking_def cleared_def [symmetric] Let_def ENOKEY_def
        split: if_splits sum.splits prod.splits dest: validate_size)
  then show ?thesis using payload_data_cleared assms(2) by simp
qed

section \<open>Calls keep the database\<close>

lemma db_inv_fields [simp]:
  "db_inv (db\<lparr>listener_threads := x\<rparr>) = db_inv db" "db_inv (db\<lparr>event_fd := y\<rparr>) = db_inv db"
  "db_inv (db\<lparr>event_socket_path := z\<rparr>) = db_inv db" "db_inv (db\<lparr>db_verbosity := v\<rparr>) = db_inv db"
  by (simp_all add: db_inv_def db_sizes_def server_ok_def db_counts)

lemma count_keeps:
  "count_tx fd type n err s = (e, s') \<Longrightarrow> db_inv (lib_db s) \<Longrightarrow> db_inv (lib_db s')"
  "count_rx fd type n err s = (e, s') \<Longrightarrow> db_inv (lib_db s) \<Longrightarrow> db_inv (lib_db s')"
  by (auto simp: count_tx_def count_rx_def Let_def split: if_splits prod.splits dest: total_tx_result total_rx_result)

lemma count_rx_loc: "count_rx fd type n err s = (e, s') \<Longrightarrow> loc_ok l (lib_db s') = loc_ok l (lib_db s)"
  by (auto simp: count_rx_def handle_total_rx_update_def Let_def split: if_splits sum.splits)

lemma validate_handle: "validate_metadata_info md n h = (e, md', h') \<Longrightarrow> handle h' = handle h"
  by (auto simp: validate_metadata_info_def Let_def split: if_splits)

lemma validated_keeps:
  assumes "validate_metadata_info md n (handle_at l db) = (e, md', h')" "loc_ok l db" "db_inv db"
  shows "db_inv (set_handle_at l h' db)"
  using same_handle_keeps [OF assms(3,2)] validate_handle [OF assms(1)] by simp

lemma get_loc: "lib_commu_db_hanlde_info_get fd type db = Inr l \<Longrightarrow> db_inv db \<Longrightarrow> loc_ok l db"
  using hanlde_info_get_sound by (auto simp: db_inv_def)

lemma tcp_send_keeps:
  "comm_lib_tcp_send_blocking sys fd p len s w = (r, len', s', w') \<Longrightarrow> db_inv (lib_db s) \<Longrightarrow> db_inv (lib_db s')"
  by (auto simp: comm_lib_tcp_send_blocking_def comm_lib_tcp_ll_send_blocking_def Let_def
      split: if_splits option.splits sum.splits prod.splits dest: count_keeps)

lemma udp_send_keeps:
  "comm_lib_udp_send sys fd a p len s w = (r, len', s', w') \<Longrightarrow> db_inv (lib_db s) \<Longrightarrow> db_inv (lib_db s')"
  by (auto simp: comm_lib_udp_send_def comm_lib_udp_ll_send_def Let_def
      split: if_splits option.splits sum.splits prod.splits dest: count_keeps)

lemma ll_recv_keeps:
  assumes "comm_lib_tcp_ll_recv_blocking sys fd len b s w = (e, n, b', s', w')" "db_inv (lib_db s)"
  shows "db_inv (lib_db s')" "loc_ok l (lib_db s') = loc_ok l (lib_db s)"
  using assms by (auto simp: comm_lib_tcp_ll_recv_blocking_def split: prod.splits dest: count_keeps count_rx_loc)

lemma recv_message_keeps:
  "recv_message sys fd md pd s w = (r, pd', s', w') \<Longrightarrow> db_inv (lib_db s) \<Longrightarrow> db_inv (lib_db s')"
  by (auto simp: recv_message_def Let_def split: if_splits prod.splits dest: ll_recv_keeps)

lemma tcp_recv_keeps:
  assumes "comm_lib_tcp_recv_blocking sys fd a pd n s w = (r, a', pd', s', w')" "db_inv (lib_db s)"
  shows "db_inv (lib_db s')"
proof -
  have steps: "s' = s \<or> (\<exists>l e k b s1 w1. lib_commu_db_hanlde_info_get fd ANY_HANLDE_DB (lib_db s) = Inr l \<and>
      comm_lib_tcp_ll_recv_blocking sys fd sizeof_msg_metadata (replicate sizeof_msg_metadata 0) s w = (e, k, b, s1, w1) \<and>
      (s' = s1 \<or> (\<exists>e md h s2. validate_metadata_info (parse_metadata_from_buffer b) (of_nat MAX_JUMBO_TCP_PAYLOAD)
          (handle_at l (lib_db s1)) = (e, md, h) \<and> s2 = s1\<lparr>lib_db := set_handle_at l h (lib_db s1)\<rparr> \<and>
        (s' = s2 \<or> (\<exists>pd r pd'. recv_message sys fd md pd s2 w1 = (r, pd', s', w'))))))"
    using assms(1)
    by (auto simp: comm_lib_tcp_recv_blocking_def Let_def split: if_splits option.splits sum.splits prod.splits)
  {
    fix l e k b s1 w1
    assume l: "lib_commu_db_hanlde_info_get fd ANY_HANLDE_DB (lib_db s) = Inr l"
      and one: "comm_lib_tcp_ll_recv_blocking sys fd sizeof_msg_metadata (replicate sizeof_msg_metadata 0) s w = (e, k, b, s1, w1)"
    have "db_inv (lib_db s1)" "loc_ok l (lib_db s1)"
      using ll_recv_keeps [OF one assms(2)] get_loc [OF l assms(2)] by simp_all
    note this validated_keeps [OF _ this(2,1)]
  }
  note one = this
  from steps show ?thesis
  proof (elim disjE exE conjE)
    fix l e k b s1 w1 e2 md h s2 pd r pd'
    assume "lib_commu_db_hanlde_info_get fd ANY_HANLDE_DB (lib_db s) = Inr l"
      "comm_lib_tcp_ll_recv_blocking sys fd sizeof_msg_metadata (replicate sizeof_msg_metadata 0) s w = (e, k, b, s1, w1)"
      "validate_metadata_info (parse_metadata_from_buffer b) (of_nat MAX_JUMBO_TCP_PAYLOAD) (handle_at l (lib_db s1)) = (e2, md, h)"
      "s2 = s1\<lparr>lib_db := set_handle_at l h (lib_db s1)\<rparr>" "recv_message sys fd md pd s2 w1 = (r, pd', s', w')"
    then show ?thesis using one(3) recv_message_keeps by fastforce
  qed (use assms(2) one in fastforce)+
qed

lemma udp_recv_keeps:
  assumes "comm_lib_udp_recv sys fd a p len s w = Some (r, a', p', len', s', w')" "db_inv (lib_db s)"
  shows "db_inv (lib_db s')"
  using assms get_loc [OF _ assms(2)] count_rx_loc
  by (auto simp: comm_lib_udp_recv_def comm_lib_udp_ll_recv_def Let_def
      split: if_splits option.splits sum.splits prod.splits dest: count_keeps intro!: validated_keeps)

end
