(* ===== verification/Commu_Steps.thy ===== *)
theory Commu_Steps
  imports Commu_Inv
begin

text \<open>
  The library in operation: its calls and its threads, each as one step on the library's variables, while the other
  threads act where a step waits. In every state that is reached the tables of the database agree.
\<close>

section \<open>What is needed of the system\<close>

definition sys_ok :: "'w commu_sys \<Rightarrow> bool" where
  "sys_ok sys \<longleftrightarrow> mutex_works (sys_os sys) \<and>
     (\<forall>fd w a w'. sys_accept sys fd w \<noteq> (Inr (INVALID_HANDLE_ID, a), w')) \<and>
     (\<forall>s w s' w'. sys_others sys s w = (s', w') \<longrightarrow> db_inv (lib_db s) \<longrightarrow> db_inv (lib_db s'))"

lemma sys_okD:
  assumes "sys_ok sys"
  shows "mutex_works (sys_os sys)" "sys_accept sys fd w = (Inr (sock, a), w') \<Longrightarrow> sock \<noteq> INVALID_HANDLE_ID"
    "sys_others sys s w = (s', w') \<Longrightarrow> db_inv (lib_db s) \<Longrightarrow> db_inv (lib_db s')"
  using assms unfolding sys_ok_def by (blast, blast, blast)

lemmas db_step = commu_step_inv [OF _ sys_okD(1)]

lemma db_calls_keep:
  assumes "sys_ok sys" "db_inv db"
  shows "lib_commu_db_udp_handle_info_set (sys_os sys) fd p mg db w = (e, db', w') \<Longrightarrow> db_inv db'"
    "lib_commu_db_tcp_client_handle_info_set (sys_os sys) fd mt la pa mg db w = (e, db', w') \<Longrightarrow> db_inv db'"
    "listener_accept_update (sys_os sys) j sp fd ip pt mg db w = (e, db', w') \<Longrightarrow>
      j < SERVER_STATUS_ARR_LENGTH \<Longrightarrow> fd \<noteq> INVALID_HANDLE_ID \<Longrightarrow> db_inv db'"
    "lib_commu_db_server_status_listener_set j fd st db = (e, db') \<Longrightarrow> j < SERVER_STATUS_ARR_LENGTH \<Longrightarrow> db_inv db'"
    "lib_commu_db_tcp_server_status_get (sys_os sys) b j db w = (e, r, db', w') \<Longrightarrow> db_inv db'"
    "lib_commu_db_udp_handle_info_delete (sys_os sys) fd db w = (e, db', w') \<Longrightarrow> fd \<noteq> INVALID_HANDLE_ID \<Longrightarrow> db_inv db'"
    "lib_commu_db_tcp_handle_info_delete (sys_os sys) fd db w = (e, db', w') \<Longrightarrow> fd \<noteq> INVALID_HANDLE_ID \<Longrightarrow> db_inv db'"
    "lib_commu_db_tcp_session_db_deinit j db = (e, db') \<Longrightarrow> j < SERVER_STATUS_ARR_LENGTH \<Longrightarrow> db_inv db'"
    "lib_commu_db_deinit (sys_os sys) db w = (e, db', w') \<Longrightarrow> db_inv db'"
    "lib_commu_db_init (sys_os sys) db w = (e, db', w') \<Longrightarrow> db_inv db'"
  by (rule db_step [OF _ assms], erule commu_step.intros, assumption?, assumption?)+

section \<open>Threads\<close>

lemma new_connection_keeps:
  assumes "listener_new_connection sys args s w = Some (e, ns, sent, s', w')" "sys_ok sys" "db_inv (lib_db s)"
    and "la_server_id args < SERVER_STATUS_ARR_LENGTH"
  shows "db_inv (lib_db s')"
  using assms(1,3) db_calls_keep(3) [OF assms(2,3) _ assms(4)] sys_okD(2) [OF assms(2)]
  by (auto simp: listener_new_connection_def Let_def split: if_splits sum.splits prod.splits)

lemma listener_fds_keeps:
  assumes "listener_fds sys args rd fds ns buf sent s w = Some (stop, ns', buf', sent', s', w')" "sys_ok sys" "db_inv (lib_db s)"
    and "la_server_id args < SERVER_STATUS_ARR_LENGTH"
  shows "db_inv (lib_db s')"
  using assms(1,3)
proof (induction fds arbitrary: ns buf sent s w)
  case (Cons i fds)
  let ?rest = "\<exists>ns buf sent s1 w. listener_fds sys args rd fds ns buf sent s1 w = Some (stop, ns', buf', sent', s', w') \<and> db_inv (lib_db s1)"
  have "db_inv (lib_db s') \<or> ?rest"
  proof (cases "i \<in> set rd \<and> i = la_listener_fd args")
    case True
    then show ?thesis
      using Cons.prems new_connection_keeps [OF _ assms(2) _ assms(4)]
      by (auto split: Option.bind_split_asm if_splits) blast+
  next
    case False
    then show ?thesis
      using Cons.prems by (auto simp: Let_def split: if_splits sum.splits prod.splits) blast+
  qed
  then show ?case using Cons.IH by blast
qed simp

lemma listener_loop_keeps:
  assumes "listener_loop sys args ns buf s w = Some y"
  shows "sys_ok sys \<longrightarrow> db_inv (lib_db s) \<longrightarrow> la_server_id args < SERVER_STATUS_ARR_LENGTH \<longrightarrow>
    db_inv (lib_db (fst (snd (snd (snd y)))))"
proof (rule listener_loop.raw_induct [OF _ assms, where P = "\<lambda>sys args ns buf s w y. sys_ok sys \<longrightarrow> db_inv (lib_db s) \<longrightarrow>
    la_server_id args < SERVER_STATUS_ARR_LENGTH \<longrightarrow> db_inv (lib_db (fst (snd (snd (snd y)))))"], intro impI)
  fix loop sys args ns buf s w y
  assume IH: "\<And>sys args ns buf s w y. loop sys args ns buf s w = Some y \<Longrightarrow> sys_ok sys \<longrightarrow> db_inv (lib_db s) \<longrightarrow>
      la_server_id args < SERVER_STATUS_ARR_LENGTH \<longrightarrow> db_inv (lib_db (fst (snd (snd (snd y)))))"
    and body: "(let (s, w) = sys_others sys s w;
         ((err, read_fds, _, _), w) = sys_select sys [la_listener_fd args, la_event_fd args] [] None w
     in if err \<noteq> 0 \<and> err \<noteq> EINTR then Some (err, ns, False, s, w)
        else Option.bind (listener_fds sys args read_fds (fds_upto (max (la_listener_fd args) (la_event_fd args)))
            ns buf False s w) (\<lambda>(stop, new_sock, buff, sent, s, w).
          case stop of
            Some err \<Rightarrow> Some (err, new_sock, sent, s, w)
          | None \<Rightarrow> loop sys args new_sock buff s w)) = Some y"
    and ok: "sys_ok sys" and inv: "db_inv (lib_db s)" and j: "la_server_id args < SERVER_STATUS_ARR_LENGTH"
  obtain s1 w1 where o: "sys_others sys s w = (s1, w1)" by fastforce
  obtain e rd wr t w2 where sel: "sys_select sys [la_listener_fd args, la_event_fd args] [] None w1 = ((e, rd, wr, t), w2)"
    by (metis prod.collapse)
  have inv1: "db_inv (lib_db s1)" using sys_okD(3) [OF ok o inv] .
  show "db_inv (lib_db (fst (snd (snd (snd y)))))"
  proof (cases "e \<noteq> 0 \<and> e \<noteq> EINTR")
    case True
    then show ?thesis using body inv1 by (auto simp: o sel)
  next
    case False
    with body obtain stop ns' buf' sent' s2 w3 where fds: "listener_fds sys args rd
        (fds_upto (max (la_listener_fd args) (la_event_fd args))) ns buf False s1 w2 = Some (stop, ns', buf', sent', s2, w3)"
      by (auto simp: o sel Let_def split: Option.bind_split_asm if_splits)
    have "db_inv (lib_db s2)" using listener_fds_keeps [OF fds ok inv1 j] .
    then show ?thesis
      using body IH ok j False by (cases stop) (auto simp: o sel fds Let_def)
  qed
qed

lemma listener_thread_keeps:
  assumes "listener_main_thread sys args s w = Some (s', w')" "sys_ok sys" "db_inv (lib_db s)"
    and "la_server_id args < SERVER_STATUS_ARR_LENGTH"
  shows "db_inv (lib_db s')"
  using assms(1,3) listener_loop_keeps [of sys args] assms(2,4) db_calls_keep(4) [OF assms(2,3) _ assms(4)]
  by (fastforce simp: listener_main_thread_def Let_def split: if_splits prod.splits)

lemma new_client_keeps:
  assumes "handle_new_non_blocking_client sys fd fl args s w = Some (e, sent, s', w')" "sys_ok sys" "db_inv (lib_db s)"
  shows "db_inv (lib_db s')"
  using assms(1,3) db_calls_keep(2) [OF assms(2,3)]
  by (auto simp: handle_new_non_blocking_client_def Let_def split: if_splits prod.splits)

lemma connect_fds_keeps:
  assumes "connect_fds sys args fl rd wr fds s w = Some (stop, s', w')" "sys_ok sys" "db_inv (lib_db s)"
  shows "db_inv (lib_db s')"
  using assms(1)
proof (induction fds)
  case (Cons i fds)
  then show ?case
    using assms(3) new_client_keeps [OF _ assms(2,3)] by (auto split: if_splits sum.splits prod.splits)
qed (use assms(3) in simp)

lemma connect_loop_keeps:
  assumes "connect_loop sys args fl mx t s w = Some y"
  shows "sys_ok sys \<longrightarrow> db_inv (lib_db s) \<longrightarrow> db_inv (lib_db (fst (snd (snd y))))"
proof (rule connect_loop.raw_induct [OF _ assms, where P = "\<lambda>sys args fl mx t s w y. sys_ok sys \<longrightarrow> db_inv (lib_db s) \<longrightarrow>
    db_inv (lib_db (fst (snd (snd y))))"], intro impI)
  fix loop sys args fl mx t s w y
  assume IH: "\<And>sys args fl mx t s w y. loop sys args fl mx t s w = Some y \<Longrightarrow> sys_ok sys \<longrightarrow> db_inv (lib_db s) \<longrightarrow>
      db_inv (lib_db (fst (snd (snd y))))"
    and body: "(let exit_fd = client_connect_exit_event_fd s; (s, w) = sys_others sys s w;
         ((err, read_fds, write_fds, left), w) =
           sys_select sys [exit_fd] [ca_client_fd args] (if use_tval args then Some t else None) w
     in if err \<noteq> 0 \<and> err \<noteq> EINTR then Some (err, False, s, w)
        else Option.bind (connect_fds sys args fl read_fds write_fds (fds_upto mx) s w) (\<lambda>(stop, s, w).
          case stop of
            Some (err, sent) \<Rightarrow> Some (err, sent, s, w)
          | None \<Rightarrow> loop sys args fl mx left s w)) = Some y"
    and ok: "sys_ok sys" and inv: "db_inv (lib_db s)"
  obtain s1 w1 where o: "sys_others sys s w = (s1, w1)" by fastforce
  obtain e rd wr left w2 where sel: "sys_select sys [client_connect_exit_event_fd s] [ca_client_fd args]
      (if use_tval args then Some t else None) w1 = ((e, rd, wr, left), w2)"
    by (metis prod.collapse)
  have inv1: "db_inv (lib_db s1)" using sys_okD(3) [OF ok o inv] .
  show "db_inv (lib_db (fst (snd (snd y))))"
  proof (cases "e \<noteq> 0 \<and> e \<noteq> EINTR")
    case True
    then show ?thesis using body inv1 by (auto simp: o sel)
  next
    case False
    with body obtain stop s2 w3 where fds: "connect_fds sys args fl rd wr (fds_upto mx) s1 w2 = Some (stop, s2, w3)"
      by (auto simp: o sel Let_def split: Option.bind_split_asm if_splits)
    have "db_inv (lib_db s2)" using connect_fds_keeps [OF fds ok inv1] .
    then show ?thesis
      using body IH ok False by (cases stop) (auto simp: o sel fds Let_def)
  qed
qed

lemma connect_bail_keeps:
  "connect_bail sys args (e, sent, s, w) = Some (s', w') \<Longrightarrow> db_inv (lib_db s) \<Longrightarrow> db_inv (lib_db s')"
  by (auto simp: connect_bail_def Let_def split: if_splits)

lemma connect_thread_keeps:
  assumes "client_connect_thread sys args s w = Some (s', w')" "sys_ok sys" "db_inv (lib_db s)"
  shows "db_inv (lib_db s')"
  using assms(1,3) connect_loop_keeps [of sys args] new_client_keeps [OF _ assms(2)] assms(2)
  by (auto simp: client_connect_thread_def Let_def split: if_splits prod.splits sum.splits Option.bind_split_asm
      dest!: connect_bail_keeps)

section \<open>Calls\<close>

lemma lib_db_start_keeps:
  assumes "sys_ok sys" "db_inv (lib_db s)"
  shows "lib_db_init sys s w = (e, s', w') \<Longrightarrow> db_inv (lib_db s')" "lib_db_deinit sys s w = (e, s', w') \<Longrightarrow> db_inv (lib_db s')"
proof -
  let ?db = "(lib_db s)\<lparr>listener_threads := replicate NUM_OF_LISTENER_THREADS 0,
    event_fd := replicate NUM_OF_LISTENER_THREADS 0, event_socket_path := replicate NUM_OF_LISTENER_THREADS []\<rparr>"
  have db: "db_inv ?db" using assms(2) by simp
  note keep = db_calls_keep(9,10) [OF assms(1) db]
  show "lib_db_init sys s w = (e, s', w') \<Longrightarrow> db_inv (lib_db s')"
    using keep(2) by (auto simp: lib_db_init_def Let_def split: prod.splits)
  show "lib_db_deinit sys s w = (e, s', w') \<Longrightarrow> db_inv (lib_db s')"
    using keep(1) by (auto simp: lib_db_deinit_def Let_def split: prod.splits)
qed

lemma init_keeps:
  assumes "comm_lib_init sys cb s w = (r, s', w')" "sys_ok sys" "db_inv (lib_db s)"
  shows "db_inv (lib_db s')"
  using assms(1,3)
  by (auto simp: comm_lib_init_def Let_def split: if_splits prod.splits
      dest!: lib_db_start_keeps(1) [OF assms(2), rotated])

lemma wait_keeps:
  assumes "wait_connect_threads sys s w = Some y"
  shows "sys_ok sys \<longrightarrow> db_inv (lib_db s) \<longrightarrow> db_inv (lib_db (fst y))"
  by (rule wait_connect_threads.raw_induct [OF _ assms, where P = "\<lambda>sys s w y. sys_ok sys \<longrightarrow> db_inv (lib_db s) \<longrightarrow>
      db_inv (lib_db (fst y))"]) (fastforce split: if_splits prod.splits dest: sys_okD(3))

lemma deinit_keeps:
  assumes "comm_lib_deinit sys s w = Some (r, s', w')" "sys_ok sys" "db_inv (lib_db s)"
  shows "db_inv (lib_db s')"
proof (cases "g_lib_commu_init_done s")
  case True
  with assms(1) obtain w1 s2 w2 w3 where
    wait: "wait_connect_threads sys (s\<lparr>g_lib_commu_init_done := False\<rparr>) w1 = Some (s2, w2)"
    and s': "s' = fst (snd (lib_db_deinit sys s2 w3))"
    by (auto simp: comm_lib_deinit_def Let_def case_prod_unfold) (metis fst_conv)
  have "db_inv (lib_db s2)" using wait_keeps [OF wait] assms(2,3) by simp
  then show ?thesis
    using lib_db_start_keeps(2) [OF assms(2), of s2 w3] unfolding s' by (metis prod.collapse)
qed (use assms in \<open>simp add: comm_lib_deinit_def\<close>)

lemma udp_start_keeps:
  assumes "comm_lib_udp_session_start sys h p s w = (r, fd, s', w')" "sys_ok sys" "db_inv (lib_db s)"
  shows "db_inv (lib_db s')"
  using assms(1,3) db_calls_keep(1) [OF assms(2,3)]
  by (auto simp: comm_lib_udp_session_start_def Let_def split: if_splits prod.splits option.splits sum.splits)

lemma close_valid: "close_socket_wrapper sys fd w = (0, w') \<Longrightarrow> fd \<noteq> INVALID_HANDLE_ID"
  by (auto simp: close_socket_wrapper_def EINVAL_def split: if_splits)

lemma stop_keeps:
  assumes "sys_ok sys" "db_inv (lib_db s)"
  shows "comm_lib_udp_session_stop sys fd s w = (r, s', w') \<Longrightarrow> db_inv (lib_db s')"
    "comm_lib_tcp_peer_stop sys fd s w = (r, s', w') \<Longrightarrow> db_inv (lib_db s')"
  using assms(2)
  by (auto simp: comm_lib_udp_session_stop_def comm_lib_tcp_peer_stop_def Let_def split: if_splits prod.splits
      dest: db_calls_keep(6,7) [OF assms _ close_valid])

lemma start_locked_keeps:
  "server_start_locked sys fd p c s w = (b, j, s', w') \<Longrightarrow> db_inv (lib_db s) \<Longrightarrow> db_inv (lib_db s')"
  by (auto simp: server_start_locked_def create_server_event_socket_def Let_def split: if_splits prod.splits sum.splits)

lemma stop_locked_keeps:
  assumes "server_stop_locked sys j hs n s w = (b, hs', s', w')" "sys_ok sys" "db_inv (lib_db s)" "j < SERVER_STATUS_ARR_LENGTH"
  shows "db_inv (lib_db s')"
proof -
  let ?db = "(lib_db s)\<lparr>listener_threads := (listener_threads (lib_db s))[j := 0]\<rparr>"
  have "db_inv ?db" using assms(3) by simp
  then show ?thesis
    using assms(1) db_calls_keep(8) [OF assms(2) \<open>db_inv ?db\<close> _ assms(4)]
    by (auto simp: server_stop_locked_def Let_def split: if_splits prod.splits)
qed

lemma server_start_keeps:
  assumes "comm_lib_tcp_server_session_start sys p c h s w = (r, j, s', w')" "db_inv (lib_db s)"
  shows "db_inv (lib_db s')"
proof -
  have "s' = s \<or> (\<exists>fd p c w1 b j w2. server_start_locked sys fd p c s w1 = (b, j, s', w2))"
    using assms(1)
    by (auto simp: comm_lib_tcp_server_session_start_def Let_def split: if_splits prod.splits option.splits sum.splits)
  then show ?thesis using assms(2) by (auto dest: start_locked_keeps)
qed

lemma server_stop_keeps:
  assumes "comm_lib_tcp_server_session_stop sys j ha n s w = (r, ha', s', w')" "sys_ok sys" "db_inv (lib_db s)"
  shows "db_inv (lib_db s')"
proof (cases "g_lib_commu_init_done s \<and> ha \<noteq> None \<and> \<not> (n = 0 \<or> SERVER_STATUS_ARR_LENGTH \<le> j)")
  case True
  obtain e st db w1 where get: "lib_commu_db_tcp_server_status_get (sys_os sys) True j (lib_db s) w = (e, st, db, w1)"
    by (metis prod_cases4)
  obtain e2 s2 w2 where ex: "exit_server_thread sys j (s\<lparr>lib_db := db\<rparr>) w1 = (e2, s2, w2)" by (metis prod_cases3)
  obtain s3 w3 where o: "sys_others sys s2 w2 = (s3, w3)" by fastforce
  have db: "db_inv db" using db_calls_keep(5) [OF assms(2,3) get] .
  then have "db_inv (lib_db s2)"
    using ex by (auto simp: exit_server_thread_def Let_def split: prod.splits if_splits)
  then have s3: "db_inv (lib_db s3)" using sys_okD(3) [OF assms(2) o] by blast
  have "s' = s\<lparr>lib_db := db\<rparr> \<or> s' = s2 \<or> s' = s3 \<or> (\<exists>hs w4 b hs' w5. server_stop_locked sys j hs n s3 w4 = (b, hs', s', w5))"
    using assms(1) True get ex o
    by (auto simp: comm_lib_tcp_server_session_stop_def Let_def split: if_splits prod.splits)
  then show ?thesis
    using db \<open>db_inv (lib_db s2)\<close> s3 True stop_locked_keeps [OF _ assms(2) s3] by (auto simp: not_le)
qed (use assms in \<open>auto simp: comm_lib_tcp_server_session_stop_def split: if_splits option.splits\<close>)

lemma client_start_keeps:
  assumes "sys_ok sys" "db_inv (lib_db s)"
  shows "comm_lib_tcp_client_blocking_start sys c h s w = (r, fd, s', w') \<Longrightarrow> db_inv (lib_db s')"
    "comm_lib_tcp_client_non_blocking_start sys c cl t s w = (r, s', w') \<Longrightarrow> s' = s"
proof -
  show "comm_lib_tcp_client_blocking_start sys c h s w = (r, fd, s', w') \<Longrightarrow> db_inv (lib_db s')"
    using assms(2) db_calls_keep(2) [OF assms]
    by (auto simp: comm_lib_tcp_client_blocking_start_def Let_def simp del: in_turn.simps
        split: if_splits prod.splits option.splits sum.splits)
  show "comm_lib_tcp_client_non_blocking_start sys c cl t s w = (r, s', w') \<Longrightarrow> s' = s"
    by (auto simp: comm_lib_tcp_client_non_blocking_start_def Let_def simp del: in_turn.simps
        split: if_splits prod.splits option.splits sum.splits)
qed

lemma status_get_keeps:
  assumes "comm_lib_tcp_server_status_get sys h j s w = (r, st, s', w')" "sys_ok sys" "db_inv (lib_db s)"
  shows "db_inv (lib_db s')"
  using assms(1,3) db_calls_keep(5) [OF assms(2,3)]
  by (auto simp: comm_lib_tcp_server_status_get_def Let_def split: if_splits prod.splits)

lemma verbosity_keeps: "comm_lib_verbosity_level_set v s = (r, s') \<Longrightarrow> db_inv (lib_db s) \<Longrightarrow> db_inv (lib_db s')"
  by (auto simp: comm_lib_verbosity_level_set_def comm_lib_db_verbosity_level_set_def Let_def split: if_splits)

section \<open>Reachable states\<close>

inductive lib_step :: "'w commu_sys \<Rightarrow> lib_state \<Rightarrow> lib_state \<Rightarrow> bool" for sys where
  ls_init: "comm_lib_init sys cb s w = (r, s', w') \<Longrightarrow> lib_step sys s s'"
| ls_deinit: "comm_lib_deinit sys s w = Some (r, s', w') \<Longrightarrow> lib_step sys s s'"
| ls_verbosity: "comm_lib_verbosity_level_set v s = (r, s') \<Longrightarrow> lib_step sys s s'"
| ls_udp_start: "comm_lib_udp_session_start sys h p s w = (r, fd, s', w') \<Longrightarrow> lib_step sys s s'"
| ls_udp_stop: "comm_lib_udp_session_stop sys fd s w = (r, s', w') \<Longrightarrow> lib_step sys s s'"
| ls_udp_send: "comm_lib_udp_send sys fd a d n s w = (r, n', s', w') \<Longrightarrow> lib_step sys s s'"
| ls_udp_recv: "comm_lib_udp_recv sys fd a d n s w = Some (r, a', d', n', s', w') \<Longrightarrow> lib_step sys s s'"
| ls_server_start: "comm_lib_tcp_server_session_start sys sp c h s w = (r, j, s', w') \<Longrightarrow> lib_step sys s s'"
| ls_server_stop: "comm_lib_tcp_server_session_stop sys j ha n s w = (r, ha', s', w') \<Longrightarrow> lib_step sys s s'"
| ls_client_start: "comm_lib_tcp_client_blocking_start sys ci h s w = (r, fdo, s', w') \<Longrightarrow> lib_step sys s s'"
| ls_client_nb_start: "comm_lib_tcp_client_non_blocking_start sys ci c t s w = (r, s', w') \<Longrightarrow> lib_step sys s s'"
| ls_peer_stop: "comm_lib_tcp_peer_stop sys fd s w = (r, s', w') \<Longrightarrow> lib_step sys s s'"
| ls_tcp_send: "comm_lib_tcp_send_blocking sys fd d n s w = (r, n', s', w') \<Longrightarrow> lib_step sys s s'"
| ls_tcp_recv: "comm_lib_tcp_recv_blocking sys fd a pd k s w = (r, a', pd', s', w') \<Longrightarrow> lib_step sys s s'"
| ls_status: "comm_lib_tcp_server_status_get sys h j s w = (r, st, s', w') \<Longrightarrow> lib_step sys s s'"
| ls_listener: "listener_main_thread sys la s w = Some (s', w') \<Longrightarrow> la_server_id la < SERVER_STATUS_ARR_LENGTH \<Longrightarrow>
    lib_step sys s s'"
| ls_connect: "client_connect_thread sys ca s w = Some (s', w') \<Longrightarrow> lib_step sys s s'"

inductive lib_reach :: "'w commu_sys \<Rightarrow> lib_state \<Rightarrow> bool" for sys where
  lr_init: "db_sizes (lib_db s) \<Longrightarrow> \<not> g_lib_commu_init_done s \<Longrightarrow> comm_lib_init sys cb s w = (r, s', w') \<Longrightarrow> lib_reach sys s'"
| lr_step: "lib_reach sys s \<Longrightarrow> lib_step sys s s' \<Longrightarrow> lib_reach sys s'"

lemma lib_step_keeps:
  assumes "lib_step sys s s'" "sys_ok sys" "db_inv (lib_db s)"
  shows "db_inv (lib_db s')"
  using assms(1)
proof (cases rule: lib_step.cases)
  case ls_init
  from init_keeps [OF this assms(2,3)] show ?thesis .
next
  case ls_deinit
  from deinit_keeps [OF this assms(2,3)] show ?thesis .
next
  case ls_verbosity
  from verbosity_keeps [OF this assms(3)] show ?thesis .
next
  case ls_udp_start
  from udp_start_keeps [OF this assms(2,3)] show ?thesis .
next
  case ls_udp_stop
  from stop_keeps(1) [OF assms(2,3) this] show ?thesis .
next
  case ls_udp_send
  from udp_send_keeps [OF this assms(3)] show ?thesis .
next
  case ls_udp_recv
  from udp_recv_keeps [OF this assms(3)] show ?thesis .
next
  case ls_server_start
  from server_start_keeps [OF this assms(3)] show ?thesis .
next
  case ls_server_stop
  from server_stop_keeps [OF this assms(2,3)] show ?thesis .
next
  case ls_client_start
  from client_start_keeps(1) [OF assms(2,3) this] show ?thesis .
next
  case ls_client_nb_start
  from client_start_keeps(2) [OF assms(2,3) this] assms(3) show ?thesis by simp
next
  case ls_peer_stop
  from stop_keeps(2) [OF assms(2,3) this] show ?thesis .
next
  case ls_tcp_send
  from tcp_send_keeps [OF this assms(3)] show ?thesis .
next
  case ls_tcp_recv
  from tcp_recv_keeps [OF this assms(3)] show ?thesis .
next
  case ls_status
  from status_get_keeps [OF this assms(2,3)] show ?thesis .
next
  case ls_listener
  from listener_thread_keeps [OF this(1) assms(2,3) this(2)] show ?thesis .
next
  case ls_connect
  from connect_thread_keeps [OF this assms(2,3)] show ?thesis .
qed

lemma first_db_init:
  assumes "lib_db_init sys s w = (e, s', w')" "db_sizes (lib_db s)"
  shows "db_inv (lib_db s')"
proof -
  let ?db = "(lib_db s)\<lparr>listener_threads := replicate NUM_OF_LISTENER_THREADS 0,
    event_fd := replicate NUM_OF_LISTENER_THREADS 0, event_socket_path := replicate NUM_OF_LISTENER_THREADS []\<rparr>"
  have "db_sizes ?db" using assms(2) by (simp add: db_sizes_def)
  then show ?thesis
    using assms(1) by (auto simp: lib_db_init_def Let_def split: prod.splits dest!: db_init_result [OF \<open>db_sizes ?db\<close>])
qed

lemma first_init_inv:
  assumes "comm_lib_init sys cb s w = (r, s', w')" "db_sizes (lib_db s)" "\<not> g_lib_commu_init_done s"
  shows "db_inv (lib_db s')"
  using assms by (auto simp: comm_lib_init_def Let_def split: if_splits prod.splits dest!: first_db_init)

lemma lib_reach_inv: "lib_reach sys s \<Longrightarrow> sys_ok sys \<Longrightarrow> db_inv (lib_db s)"
proof (induction rule: lib_reach.induct)
  case (lr_init s cb w r s' w')
  from first_init_inv [OF lr_init(3,1,2)] show ?case .
next
  case (lr_step s s')
  from lib_step_keeps [OF lr_step(2,4) lr_step.IH [OF lr_step(4)]] show ?case .
qed

section \<open>Errors and waiting\<close>

text \<open>A \<^verbatim>\<open>select\<close> that only ever times out.\<close>

definition select_times_out :: "'w commu_sys \<Rightarrow> bool" where
  "select_times_out sys \<longleftrightarrow> (\<forall>rd wr t w. \<exists>t' w'. sys_select sys rd wr (Some t) w = ((0, [], [], t'), w'))"

lemma connect_fds_none: "connect_fds sys args fl [] [] fds s w = Some (None, s, w)"
  by (induction fds) auto

lemma connect_loop_waits:
  assumes "connect_loop sys args fl mx t s w = Some y"
  shows "select_times_out sys \<longrightarrow> use_tval args \<longrightarrow> False"
proof (rule connect_loop.raw_induct [OF _ assms, where P = "\<lambda>sys args fl mx t s w y. select_times_out sys \<longrightarrow>
    use_tval args \<longrightarrow> False"], intro impI)
  fix loop sys args fl mx t s w y
  assume IH: "\<And>sys args fl mx t s w y. loop sys args fl mx t s w = Some y \<Longrightarrow> select_times_out sys \<longrightarrow> use_tval args \<longrightarrow> False"
    and body: "(let exit_fd = client_connect_exit_event_fd s; (s, w) = sys_others sys s w;
         ((err, read_fds, write_fds, left), w) =
           sys_select sys [exit_fd] [ca_client_fd args] (if use_tval args then Some t else None) w
     in if err \<noteq> 0 \<and> err \<noteq> EINTR then Some (err, False, s, w)
        else Option.bind (connect_fds sys args fl read_fds write_fds (fds_upto mx) s w) (\<lambda>(stop, s, w).
          case stop of
            Some (err, sent) \<Rightarrow> Some (err, sent, s, w)
          | None \<Rightarrow> loop sys args fl mx left s w)) = Some y"
    and out: "select_times_out sys" "use_tval args"
  obtain s1 w1 where o: "sys_others sys s w = (s1, w1)" by fastforce
  obtain t' w2 where "sys_select sys [client_connect_exit_event_fd s] [ca_client_fd args] (Some t) w1 = ((0, [], [], t'), w2)"
    using out(1) unfolding select_times_out_def by blast
  then have "loop sys args fl mx t' s1 w2 = Some y"
    using body out(2) by (simp add: o connect_fds_none Let_def)
  then show False using IH out by blast
qed

text \<open>
  Rounds of the connecting thread in which \<^verbatim>\<open>select\<close> times out: the other threads act and \<^verbatim>\<open>select\<close> is
  called with what it left of the time, and that is all. The result is \<open>None\<close> when one of the rounds does not time out.
\<close>

fun connect_waits ::
  "'w commu_sys \<Rightarrow> 'w connect_thread_args \<Rightarrow> nat \<Rightarrow> nat \<times> lib_state \<times> 'w \<Rightarrow> (nat \<times> lib_state \<times> 'w) option" where
  "connect_waits sys args 0 c = Some c"
| "connect_waits sys args (Suc n) (t, s, w) =
    (let (s', w) = sys_others sys s w;
         (r, w) = sys_select sys [client_connect_exit_event_fd s] [ca_client_fd args] (Some t) w
     in case r of (err, read_fds, write_fds, left) \<Rightarrow>
          if err = 0 \<and> read_fds = [] \<and> write_fds = [] then connect_waits sys args n (left, s', w) else None)"

lemma connect_loop_rounds:
  "connect_waits sys args n (t, s, w) = Some (t', s', w') \<Longrightarrow> use_tval args \<Longrightarrow>
   connect_loop sys args fl mx t s w = connect_loop sys args fl mx t' s' w'"
proof (induction n arbitrary: t s w)
  case (Suc n)
  obtain s1 w1 where o: "sys_others sys s w = (s1, w1)" by fastforce
  with Suc.prems(1) obtain t2 w2 where "sys_select sys [client_connect_exit_event_fd s] [ca_client_fd args] (Some t) w1
      = ((0, [], [], t2), w2)" "connect_waits sys args n (t2, s1, w2) = Some (t', s', w')"
    by (auto simp: Let_def split: prod.splits if_splits)
  with Suc.IH Suc.prems(2) o show ?case by (subst connect_loop.simps) (simp add: connect_fds_none Let_def)
qed simp

lemma connect_waits_keep:
  assumes "\<And>rd wr t w. seen (snd (sys_select sys rd wr t w)) = seen w" "\<And>s w. seen (snd (sys_others sys s w)) = seen w"
  shows "connect_waits sys args n (t, s, w) = Some (t', s', w') \<Longrightarrow> seen w' = seen w"
proof (induction n arbitrary: t s w)
  case (Suc n)
  obtain s1 w1 where o: "sys_others sys s w = (s1, w1)" by fastforce
  with Suc.prems(1) obtain t2 w2 where sel: "sys_select sys [client_connect_exit_event_fd s] [ca_client_fd args] (Some t) w1
      = ((0, [], [], t2), w2)" and "connect_waits sys args n (t2, s1, w2) = Some (t', s', w')"
    by (auto simp: Let_def split: prod.splits if_splits)
  then have "seen w' = seen w2" by (blast intro: Suc.IH)
  with assms(1) [of "[client_connect_exit_event_fd s]" "[ca_client_fd args]" "Some t" w1] assms(2) [of s w] o sel
  show ?case by simp
qed simp

lemma connect_waits_on:
  assumes "select_times_out sys"
  shows "\<exists>c'. connect_waits sys args n c = Some c'"
proof (induction n arbitrary: c)
  case 0
  show ?case by (rule exI) (rule connect_waits.simps(1))
next
  case (Suc n)
  obtain t s w where c: "c = (t, s, w)" by (cases c)
  obtain s1 w1 where o: "sys_others sys s w = (s1, w1)" by fastforce
  obtain t2 w2 where "sys_select sys [client_connect_exit_event_fd s] [ca_client_fd args] (Some t) w1 = ((0, [], [], t2), w2)"
    using assms unfolding select_times_out_def by blast
  with Suc.IH [of "(t2, s1, w2)"] c o show ?case by simp
qed

lemma connect_thread_loops:
  assumes "ca_client_fd args \<noteq> 0"
    and "sys_getfl sys (ca_client_fd args) w = (Inr fl, w1)" "sys_setfl sys (ca_client_fd args) True fl w1 = (0, w2)"
    and "sys_connect sys (ca_client_fd args) \<lparr>port = d_port (ca_conn_info args), ipv4_addr = d_ipv4_addr (ca_conn_info args)\<rparr> w2
      = (EINPROGRESS, w3)"
  shows "client_connect_thread sys args s w =
    Option.bind (connect_loop sys args fl (max (ca_client_fd args) (client_connect_exit_event_fd s)) (ca_tval args)
      (s\<lparr>client_connect_thread_cnt := client_connect_thread_cnt s + 1\<rparr>) w3) (connect_bail sys args)"
  using assms by (simp add: client_connect_thread_def Let_def EINPROGRESS_def)

lemma connect_loop_never_ends:
  "select_times_out sys \<Longrightarrow> use_tval args \<Longrightarrow> connect_loop sys args fl mx t s w = None"
  using connect_loop_waits [of sys args fl mx t s w] by (cases "connect_loop sys args fl mx t s w") auto

text \<open>After the session lock is taken, only the unlock decides what starting a server returns.\<close>

definition session_lock_works :: "'w commu_sys \<Rightarrow> bool" where
  "session_lock_works sys \<longleftrightarrow> (\<forall>w. fst (sys_session_lock sys w) = 0 \<and> fst (sys_session_unlock sys w) = 0)"

lemma server_start_returns:
  assumes "session_lock_works sys" "g_lib_commu_init_done s" "clbk_notify_func c \<noteq> None"
    and "sys_socket sys INET_STREAM w = (Inr fd, w1)" "sys_setsockopt sys fd (SOL_SOCKET, SO_REUSEADDR, 1) w1 = (0, w2)"
    and "sys_bind sys fd (INET_ADDR \<lparr>port = sp_port p, ipv4_addr = sp_s_ipv4_addr p\<rparr>) w2 = (0, w3)"
  shows "\<exists>started j s' w4 w5. server_start_locked sys fd p c s (snd (sys_session_lock sys w3)) = (started, j, s', w4) \<and>
    comm_lib_tcp_server_session_start sys p (Some c) True s w = (0, j, s', w5)"
proof -
  obtain w4 where lock: "sys_session_lock sys w3 = (0, w4)"
    using assms(1) unfolding session_lock_works_def by (metis prod.collapse)
  obtain started j s' w5 where run: "server_start_locked sys fd p c s w4 = (started, j, s', w5)" by (metis prod_cases4)
  obtain w6 where unlock: "sys_session_unlock sys w5 = (0, w6)"
    using assms(1) unfolding session_lock_works_def by (metis prod.collapse)
  obtain f where "clbk_notify_func c = Some f" using assms(3) by blast
  then show ?thesis
    using assms(2,4-6) lock run unlock by (simp add: comm_lib_tcp_server_session_start_def)
qed

lemma server_start_no_slot:
  assumes "\<forall>t\<in>set (listener_threads (lib_db s)). t \<noteq> 0"
  shows "server_start_locked sys fd p c s w = (False, None, s, snd (close_socket_wrapper sys fd w))"
  using assms
  by (simp add: server_start_locked_def lib_commu_db_unoccupied_listener_thread_get_def find_empty_slot_def
      first_idx_None [THEN iffD2] slot_result_def)

section \<open>Datagrams\<close>

lemma validate_frame_udp: "accepts_from m t h \<Longrightarrow> 0 < len \<Longrightarrow> len \<le> max_len \<Longrightarrow>
  \<exists>md h'. validate_metadata_info (wire_metadata m t len) max_len h = (0, md, h') \<and> payload_size md = len"
  using validate_accepted [of m t h len max_len] by auto

lemma udp_count_accepts:
  assumes "lib_commu_db_hanlde_info_get fd UDP_HANDLE_DB (lib_db s) = Inr l" "loc_ok l (lib_db s)" "accepts_from m t (handle_now l s)"
  shows "\<exists>s'. count_rx fd UDP_HANDLE_DB n 0 s = (0, s') \<and> accepts_from m t (handle_at l (lib_db s'))"
proof (cases "n = 0")
  case False
  then show ?thesis using assms by (simp add: count_rx_def handle_total_rx_update_def Let_def accepts_from_def handle_now_def)
qed (use assms in \<open>simp add: count_rx_def handle_now_def\<close>)

lemma udp_send_frame:
  assumes "lib_commu_db_hanlde_info_get fd UDP_HANDLE_DB (lib_db s) = Inr l" "g_lib_commu_init_done s"
    and "length data \<le> MAX_UDP_MSG_SIZE - sizeof_msg_metadata"
    and "frm = framed (local_magic (socekt_info (handle_now l s))) (ucast (msg_type (conn_info (handle_now l s)))) data"
    and "sys_sendto sys fd (INET_ADDR to) frm w = (Inr (length frm), w')"
  shows "\<exists>s'. comm_lib_udp_send sys fd to (Some data) (Some (of_nat (length data))) s w = (0, Some (of_nat (length data)), s', w')"
proof -
  have len: "unat (of_nat (length data) :: u32) = length data"
    using assms(3) by (intro unat_of_nat32) (simp add: commu_limits)
  have "\<exists>s'. count_tx fd UDP_HANDLE_DB (length frm) 0 s = (0, s')"
    using assms(1) by (simp add: count_tx_def handle_total_tx_update_def Let_def)
  then show ?thesis
    using assms by (auto simp: comm_lib_udp_send_def comm_lib_udp_ll_send_def len framed_def metadata_set_def handle_now_def)
qed

text \<open>
  A datagram that starts with a header that is accepted is delivered as long as the header says, whatever its own length:
  what is missing is read from the zeroed buffer.
\<close>

lemma udp_recv_frame:
  assumes "lib_commu_db_hanlde_info_get fd UDP_HANDLE_DB (lib_db s) = Inr l" "g_lib_commu_init_done s" "loc_ok l (lib_db s)"
    and "accepts_from m t (handle_now l s)" "0 < n" "n \<le> unat room" "n + sizeof_msg_metadata \<le> MAX_MTU"
    and "sys_recvfrom sys fd MAX_MTU w = (Inr (metadata_bytes (wire_metadata m t (of_nat n)) @ rest, from), w')"
    and "length rest + sizeof_msg_metadata \<le> MAX_MTU"
  shows "\<exists>s'. comm_lib_udp_recv sys fd (Some a) (Some buf) (Some room) s w =
    Some (0, Some from, Some (write_at 0 (take n (rest @ replicate (MAX_MTU - sizeof_msg_metadata - length rest) 0)) buf),
      Some (of_nat n), s', w')"
proof -
  have small: "n < 2 ^ 32" using assms(7) by (simp add: commu_limits)
  have n: "unat (of_nat n :: u32) = n" using unat_of_nat32 [OF small] .
  have bounds: "0 < (of_nat n :: u32)" "(of_nat n :: u32) \<le> room" "room \<noteq> 0"
    using assms(5,6) n by (auto simp: word_less_nat_alt word_le_nat_alt)
  let ?d = "metadata_bytes (wire_metadata m t (of_nat n)) @ rest"
  have len: "take MAX_MTU ?d = ?d" using assms(9) by simp
  obtain s1 where count: "count_rx fd UDP_HANDLE_DB (length ?d) 0 s = (0, s1)"
    and h1: "accepts_from m t (handle_at l (lib_db s1))"
    using udp_count_accepts [OF assms(1,3,4)] by blast
  obtain md h where v: "validate_metadata_info (wire_metadata m t (of_nat n)) room (handle_at l (lib_db s1)) = (0, md, h)"
    "payload_size md = of_nat n"
    using validate_frame_udp [OF h1 bounds(1,2)] by blast
  have ll: "comm_lib_udp_ll_recv sys fd MAX_MTU s w = (0, Some (?d, from), s1, w')"
    unfolding comm_lib_udp_ll_recv_def assms(8) using count by (simp only: len prod.case sum.case Let_def)
  show ?thesis
    using assms(1,2,7,9) bounds(3) v ll n
    by (simp add: comm_lib_udp_recv_def Let_def)
qed

end
