(* ===== verification/Timer.thy ===== *)
theory Timer
  imports Qlist_Ops
begin

text \<open>
  The timers of \<^verbatim>\<open>cl_timer.c\<close>: a queue of timers in the order of their timeouts, and a thread that calls the user's
  function of the timer at its head when its time has come. A timer starts with its list item, so both have one address.
  The time of day is an argument, as seconds and microseconds. Everything between lock and unlock of the provider's mutex
  is one definition; the places where the code waits split a function in two or take what the other threads do
  meanwhile as an argument. A call that reads through the null pointer \<^verbatim>\<open>gp_timer_prov\<close> has the result None.
\<close>

section \<open>Data\<close>

definition ETIMEDOUT :: int where "ETIMEDOUT = 110"

datatype cl_timer_state_t = CL_TIMER_IDLE | CL_TIMER_QUEUED | CL_TIMER_RUNNING

record timespec =
  tv_sec :: int
  tv_nsec :: int

type_synonym time_of_day = "int \<times> int"

record timer_mem = "u64 list_mem" +
  timer_state :: "u64 \<Rightarrow> cl_timer_state_t"
  tm_state :: "u64 \<Rightarrow> cl_state_t"
  tm_callback :: "u64 \<Rightarrow> u64"
  tm_context :: "u64 \<Rightarrow> u64"
  tm_timeout :: "u64 \<Rightarrow> timespec"

record cl_timer_prov_t =
  tp_thread :: nat
  tp_queue :: "u64 cl_qlist_t"
  tp_exit :: bool

record timers =
  gp_timer_prov :: "cl_timer_prov_t option"
  t_mem :: timer_mem

section \<open>The provider\<close>

text \<open>
  \<open>join\<close> is what happens while the function waits for the thread to end. Signals to condition variables have no effect on the
  variables.
\<close>

definition cl_timer_prov_destroy :: "(timers \<Rightarrow> timers) \<Rightarrow> timers \<Rightarrow> timers" where
  "cl_timer_prov_destroy join s = (case gp_timer_prov s of
     None \<Rightarrow> s
   | Some prov \<Rightarrow> (join (s\<lparr>gp_timer_prov := Some (prov\<lparr>tp_exit := True\<rparr>)\<rparr>))\<lparr>gp_timer_prov := None\<rparr>)"

text \<open>
  \<open>block\<close> is the address of the end item of the queue in the block that is allocated, if one is; \<open>create\<close> the
  result of the creation of the thread and its identifier.
\<close>

definition cl_timer_prov_create :: "u64 option \<Rightarrow> int \<times> nat \<Rightarrow> (timers \<Rightarrow> timers) \<Rightarrow> timers \<Rightarrow> cl_status_t \<times> timers" where
  "cl_timer_prov_create block create join s = (case block of
     None \<Rightarrow> (CL_INSUFFICIENT_MEMORY, s\<lparr>gp_timer_prov := None\<rparr>)
   | Some e \<Rightarrow>
       let (queue, m) = cl_qlist_init \<lparr>ql_end = e, ql_count = 0, ql_state = CL_UNINITIALIZED\<rparr> (t_mem s);
           prov = \<lparr>tp_thread = snd create, tp_queue = queue, tp_exit = False\<rparr>;
           s = s\<lparr>gp_timer_prov := Some prov, t_mem := m\<rparr>
       in if fst create \<noteq> 0 then (CL_ERROR, cl_timer_prov_destroy join s) else (CL_SUCCESS, s))"

definition cl_timer_prov_get_tid :: "timers \<Rightarrow> nat option" where
  "cl_timer_prov_get_tid s = map_option tp_thread (gp_timer_prov s)"

definition set_timer_state :: "u64 \<Rightarrow> cl_timer_state_t \<Rightarrow> timers \<Rightarrow> timers" where
  "set_timer_state p st s = s\<lparr>t_mem := (t_mem s)\<lparr>timer_state := (timer_state (t_mem s))(p := st)\<rparr>\<rparr>"

text \<open>Taking a timer off the provider's queue.\<close>

definition dequeue :: "cl_timer_prov_t \<Rightarrow> u64 \<Rightarrow> timers \<Rightarrow> timers" where
  "dequeue prov p s = (let (queue, m) = cl_qlist_remove_item (tp_queue prov) p (t_mem s)
     in s\<lparr>gp_timer_prov := Some (prov\<lparr>tp_queue := queue\<rparr>), t_mem := m\<rparr>)"

section \<open>The thread\<close>

text \<open>
  Where the thread is while it does not hold the mutex: waiting for a timer to be queued, waiting for the timeout of the timer
  it found at the head, in the user's function of a timer, or gone.
\<close>

datatype thread_pc = PROV_WAIT | PROV_TIMEDWAIT u64 timespec | PROV_CALLBACK u64 | PROV_EXITED

definition prov_loop :: "timers \<Rightarrow> (thread_pc \<times> timers) option" where
  "prov_loop s = (case gp_timer_prov s of
     None \<Rightarrow> None
   | Some prov \<Rightarrow>
       if tp_exit prov then Some (PROV_EXITED, s\<lparr>gp_timer_prov := Some (prov\<lparr>tp_thread := 0\<rparr>)\<rparr>)
       else if cl_is_qlist_empty (tp_queue prov) then Some (PROV_WAIT, s)
       else let p = cl_qlist_head (tp_queue prov) (t_mem s) in Some (PROV_TIMEDWAIT p (tm_timeout (t_mem s) p), s))"

text \<open>From the end of a wait, or of the user's function, to the next one; \<open>ret\<close> is the result of the wait.\<close>

definition cl_timer_prov_cb :: "int \<Rightarrow> thread_pc \<Rightarrow> timers \<Rightarrow> (thread_pc \<times> timers) option" where
  "cl_timer_prov_cb ret pc s = (case pc of
     PROV_WAIT \<Rightarrow> prov_loop s
   | PROV_TIMEDWAIT p t \<Rightarrow>
       if ret \<noteq> ETIMEDOUT \<and> ret \<noteq> EINVAL then prov_loop s
       else if timer_state (t_mem s) p \<noteq> CL_TIMER_QUEUED then prov_loop s
       else (case gp_timer_prov s of
           None \<Rightarrow> None
         | Some prov \<Rightarrow> Some (PROV_CALLBACK p, dequeue prov p (set_timer_state p CL_TIMER_RUNNING s)))
   | PROV_CALLBACK p \<Rightarrow>
       prov_loop (if timer_state (t_mem s) p = CL_TIMER_RUNNING then set_timer_state p CL_TIMER_IDLE s else s)
   | PROV_EXITED \<Rightarrow> Some (PROV_EXITED, s))"

section \<open>Timers\<close>

definition cl_timer_construct :: "u64 \<Rightarrow> timers \<Rightarrow> timers" where
  "cl_timer_construct p s =
    (let m = t_mem s
     in s\<lparr>t_mem := m\<lparr>p_next := (p_next m)(p := 0), p_prev := (p_prev m)(p := 0),
          timer_state := (timer_state m)(p := CL_TIMER_IDLE), tm_state := (tm_state m)(p := CL_UNINITIALIZED),
          tm_callback := (tm_callback m)(p := 0), tm_context := (tm_context m)(p := 0),
          tm_timeout := (tm_timeout m)(p := \<lparr>tv_sec = 0, tv_nsec = 0\<rparr>)\<rparr>\<rparr>)"

definition cl_timer_init :: "u64 \<Rightarrow> u64 \<Rightarrow> u64 \<Rightarrow> timers \<Rightarrow> cl_status_t \<times> timers" where
  "cl_timer_init p callback context s =
    (let s = cl_timer_construct p s
     in if gp_timer_prov s = None then (CL_ERROR, s)
        else
          let m = t_mem s
          in (CL_SUCCESS, s\<lparr>t_mem := m\<lparr>tm_callback := (tm_callback m)(p := callback), tm_context := (tm_context m)(p := context),
               timer_state := (timer_state m)(p := CL_TIMER_IDLE), tm_state := (tm_state m)(p := CL_INITIALIZED)\<rparr>\<rparr>))"

definition cl_timer_is_earlier :: "timespec \<Rightarrow> timespec \<Rightarrow> bool" where
  "cl_timer_is_earlier t1 t2 \<longleftrightarrow> tv_sec t1 < tv_sec t2 \<or> tv_sec t1 = tv_sec t2 \<and> tv_nsec t1 < tv_nsec t2"

definition cl_timer_find :: "timer_mem \<Rightarrow> u64 \<Rightarrow> u64 \<Rightarrow> cl_status_t" where
  "cl_timer_find m p_in_list p_new =
    (if cl_timer_is_earlier (tm_timeout m p_in_list) (tm_timeout m p_new) then CL_SUCCESS else CL_NOT_FOUND)"

text \<open>The sum of two times is normalised by \<^verbatim>\<open>timeradd\<close>.\<close>

definition timeradd :: "time_of_day \<Rightarrow> time_of_day \<Rightarrow> time_of_day" where
  "timeradd a b = (let sec = fst a + fst b; usec = snd a + snd b
     in if usec \<ge> 1000000 then (sec + 1, usec - 1000000) else (sec, usec))"

definition cl_timer_calculate :: "time_of_day \<Rightarrow> u32 \<Rightarrow> timespec" where
  "cl_timer_calculate curtime time_ms =
    (let endtime = timeradd curtime (uint (time_ms div 1000), uint (time_ms mod 1000 * 1000))
     in \<lparr>tv_sec = fst endtime, tv_nsec = snd endtime * 1000\<rparr>)"

definition enqueue :: "cl_timer_prov_t \<Rightarrow> u64 \<Rightarrow> timers \<Rightarrow> timers option" where
  "enqueue prov p s =
    (if cl_is_qlist_empty (tp_queue prov)
     then let (queue, m) = cl_qlist_insert_head (tp_queue prov) p (t_mem s)
       in Some (s\<lparr>gp_timer_prov := Some (prov\<lparr>tp_queue := queue\<rparr>), t_mem := m\<rparr>)
     else Option.bind (cl_qlist_find_from_tail (tp_queue prov) (cl_timer_find (t_mem s)) p (t_mem s)) (\<lambda>p_list_item.
       let (queue, m) = cl_qlist_insert_next (tp_queue prov) p_list_item p (t_mem s)
       in Some (s\<lparr>gp_timer_prov := Some (prov\<lparr>tp_queue := queue\<rparr>), t_mem := m\<rparr>)))"

definition cl_timer_start :: "time_of_day \<Rightarrow> u64 \<Rightarrow> u32 \<Rightarrow> timers \<Rightarrow> (cl_status_t \<times> timers) option" where
  "cl_timer_start curtime p time_ms s = (case gp_timer_prov s of
     None \<Rightarrow> None
   | Some prov \<Rightarrow>
       let s = (if timer_state (t_mem s) p = CL_TIMER_QUEUED then dequeue prov p s else s);
           s = s\<lparr>t_mem := (t_mem s)\<lparr>tm_timeout := (tm_timeout (t_mem s))(p := cl_timer_calculate curtime time_ms)\<rparr>\<rparr>
       in Option.bind (gp_timer_prov s) (\<lambda>prov. map_option (\<lambda>s. (CL_SUCCESS, set_timer_state p CL_TIMER_QUEUED s))
            (enqueue prov p s)))"

text \<open>\<open>wait\<close> is what happens while the function waits for the end of the user's function.\<close>

definition cl_timer_stop :: "(timers \<Rightarrow> timers) \<Rightarrow> u64 \<Rightarrow> timers \<Rightarrow> timers option" where
  "cl_timer_stop wait p s =
    (if gp_timer_prov s = None then None
     else
       let cancel = (\<lambda>s. map_option (\<lambda>prov. dequeue prov p (set_timer_state p CL_TIMER_IDLE s)) (gp_timer_prov s))
       in case timer_state (t_mem s) p of
            CL_TIMER_RUNNING \<Rightarrow>
              let s = wait s in if timer_state (t_mem s) p \<noteq> CL_TIMER_QUEUED then Some s else cancel s
          | CL_TIMER_QUEUED \<Rightarrow> cancel s
          | CL_TIMER_IDLE \<Rightarrow> Some s)"

definition cl_timer_destroy :: "(timers \<Rightarrow> timers) \<Rightarrow> u64 \<Rightarrow> timers \<Rightarrow> timers option" where
  "cl_timer_destroy wait p s =
    map_option (\<lambda>s. s\<lparr>t_mem := (t_mem s)\<lparr>tm_state := (tm_state (t_mem s))(p := CL_UNINITIALIZED)\<rparr>\<rparr>)
      (if tm_state (t_mem s) p = CL_INITIALIZED then cl_timer_stop wait p s else Some s)"

text \<open>\<open>gap\<close> is what happens between the unlock and the lock of the start that follows; the time is read twice.\<close>

definition cl_timer_trim ::
  "time_of_day \<Rightarrow> (timers \<Rightarrow> timers) \<Rightarrow> time_of_day \<Rightarrow> u64 \<Rightarrow> u32 \<Rightarrow> timers \<Rightarrow> (cl_status_t \<times> timers) option" where
  "cl_timer_trim curtime gap later p time_ms s =
    (if gp_timer_prov s = None then None
     else if timer_state (t_mem s) p = CL_TIMER_QUEUED \<and>
       cl_timer_is_earlier (tm_timeout (t_mem s) p) (cl_timer_calculate curtime time_ms) then Some (CL_SUCCESS, s)
     else cl_timer_start later p time_ms (gap s))"

definition cl_get_time_stamp :: "time_of_day \<Rightarrow> u64" where
  "cl_get_time_stamp tv = of_int (fst tv) * 1000000 + of_int (snd tv)"

definition cl_get_time_stamp_sec :: "time_of_day \<Rightarrow> u32" where
  "cl_get_time_stamp_sec tv = of_int (fst tv)"

end
