(* ===== verification/Timer_Inv.thy ===== *)
theory Timer_Inv
  imports Timer
begin

text \<open>
  What the timers keep: the queue is a well-formed list of exactly the queued timers, in the order of their timeouts, whatever the
  user's threads and the thread of the provider do.
\<close>

section \<open>Times\<close>

definition valid_time :: "timespec \<Rightarrow> bool" where
  "valid_time t \<longleftrightarrow> 0 \<le> tv_nsec t \<and> tv_nsec t < 1000000000"

definition valid_clock :: "time_of_day \<Rightarrow> bool" where
  "valid_clock now \<longleftrightarrow> 0 \<le> snd now \<and> snd now < 1000000"

text \<open>Times as numbers, in nanoseconds and in microseconds.\<close>

definition nanoseconds :: "timespec \<Rightarrow> int" where
  "nanoseconds t = tv_sec t * 1000000000 + tv_nsec t"

definition microseconds :: "time_of_day \<Rightarrow> int" where
  "microseconds now = fst now * 1000000 + snd now"

lemma is_earlier_nanoseconds:
  "valid_time t \<Longrightarrow> valid_time t' \<Longrightarrow> cl_timer_is_earlier t t' \<longleftrightarrow> nanoseconds t < nanoseconds t'"
  by (auto simp: cl_timer_is_earlier_def valid_time_def nanoseconds_def)

lemma calculate_valid: "valid_clock now \<Longrightarrow> valid_time (cl_timer_calculate now ms)"
proof -
  assume "valid_clock now"
  moreover have "uint (ms mod 1000 * 1000) = (uint ms mod 1000) * 1000"
    by (simp add: uint_word_ariths uint_mod_distrib)
  ultimately show ?thesis
    by (auto simp: valid_time_def valid_clock_def cl_timer_calculate_def timeradd_def Let_def)
qed

lemma calculate_exact:
  "nanoseconds (cl_timer_calculate now ms) = 1000 * (microseconds now + 1000 * uint ms)"
proof -
  have "uint (ms mod 1000 * 1000) = (uint ms mod 1000) * 1000"
    by (simp add: uint_word_ariths uint_mod_distrib)
  moreover have "uint (ms div 1000) = uint ms div 1000" by (simp add: uint_div_distrib)
  moreover have "uint ms div 1000 * 1000000000 + 1000000 * (uint ms mod 1000) = 1000000 * uint ms"
    using div_mult_mod_eq [of "uint ms" 1000] by linarith
  ultimately show ?thesis
    by (auto simp: nanoseconds_def microseconds_def cl_timer_calculate_def timeradd_def Let_def)
qed

section \<open>The queue of the provider\<close>

definition holds :: "u64 \<Rightarrow> timers \<Rightarrow> u64 list \<Rightarrow> bool" where
  "holds e s xs \<longleftrightarrow> (\<exists>prov. gp_timer_prov s = Some prov \<and> ql_end (tp_queue prov) = e \<and> qlist (t_mem s) (tp_queue prov) xs)"

definition prov_exit :: "timers \<Rightarrow> bool" where
  "prov_exit s \<longleftrightarrow> (\<exists>prov. gp_timer_prov s = Some prov \<and> tp_exit prov)"

lemma primitive_fields [simp]:
  fixes m :: timer_mem
  shows "timer_state (cl_primitive_insert y x m) = timer_state m" "tm_state (cl_primitive_insert y x m) = tm_state m"
    "tm_timeout (cl_primitive_insert y x m) = tm_timeout m" "tm_callback (cl_primitive_insert y x m) = tm_callback m"
    "tm_context (cl_primitive_insert y x m) = tm_context m"
    "timer_state (cl_primitive_remove x m) = timer_state m" "tm_state (cl_primitive_remove x m) = tm_state m"
    "tm_timeout (cl_primitive_remove x m) = tm_timeout m" "tm_callback (cl_primitive_remove x m) = tm_callback m"
    "tm_context (cl_primitive_remove x m) = tm_context m"
  by (simp_all add: cl_primitive_insert_def cl_primitive_remove_def Let_def)

text \<open>The fields of the timers that an operation on the queue leaves as they are.\<close>

definition same_timers :: "timer_mem \<Rightarrow> timer_mem \<Rightarrow> bool" where
  "same_timers m m' \<longleftrightarrow> timer_state m' = timer_state m \<and> tm_state m' = tm_state m \<and> tm_timeout m' = tm_timeout m \<and>
     tm_callback m' = tm_callback m \<and> tm_context m' = tm_context m"

lemma dequeue_queue:
  assumes "gp_timer_prov s = Some prov" and "holds e s xs" and "p \<in> set xs"
  shows "holds e (dequeue prov p s) (remove1 p xs) \<and> same_timers (t_mem s) (t_mem (dequeue prov p s)) \<and>
    prov_exit (dequeue prov p s) = prov_exit s"
proof -
  obtain q m where r: "cl_qlist_remove_item (tp_queue prov) p (t_mem s) = (q, m)" by fastforce
  from assms have "qlist (t_mem s) (tp_queue prov) xs" and e: "ql_end (tp_queue prov) = e" by (auto simp: holds_def)
  with qlist_remove_item [OF this(1) assms(3) r] assms(1) r show ?thesis
    by (auto simp: dequeue_def holds_def prov_exit_def same_timers_def cl_qlist_remove_item_def split: if_splits)
qed

lemma holds_mem:
  "p_next m = p_next (t_mem s) \<Longrightarrow> p_prev m = p_prev (t_mem s) \<Longrightarrow> holds e (s\<lparr>t_mem := m\<rparr>) xs \<longleftrightarrow> holds e s xs"
  using qlist_cong [of m "t_mem s"] by (simp add: holds_def)

lemma holds_set_state [simp]: "holds e (set_timer_state p st s) xs \<longleftrightarrow> holds e s xs"
  by (simp add: set_timer_state_def holds_mem)

lemma set_state_fields [simp]:
  "gp_timer_prov (set_timer_state p st s) = gp_timer_prov s"
  "timer_state (t_mem (set_timer_state p st s)) = (timer_state (t_mem s))(p := st)"
  "tm_state (t_mem (set_timer_state p st s)) = tm_state (t_mem s)"
  "tm_timeout (t_mem (set_timer_state p st s)) = tm_timeout (t_mem s)"
  "tm_callback (t_mem (set_timer_state p st s)) = tm_callback (t_mem s)"
  "tm_context (t_mem (set_timer_state p st s)) = tm_context (t_mem s)"
  "prov_exit (set_timer_state p st s) = prov_exit s"
  by (simp_all add: set_timer_state_def prov_exit_def)

lemma enqueue_queue:
  assumes "gp_timer_prov s = Some prov" and "holds e s xs" and "p \<notin> set xs" "p \<noteq> e" and "length xs < 2 ^ 32"
  shows "\<exists>s' ys zs. enqueue prov p s = Some s' \<and> xs = ys @ zs \<and> holds e s' (ys @ p # zs) \<and>
    same_timers (t_mem s) (t_mem s') \<and> prov_exit s' = prov_exit s \<and>
    (ys \<noteq> [] \<longrightarrow> cl_timer_is_earlier (tm_timeout (t_mem s) (last ys)) (tm_timeout (t_mem s) p)) \<and>
    (\<forall>x\<in>set zs. \<not> cl_timer_is_earlier (tm_timeout (t_mem s) x) (tm_timeout (t_mem s) p))"
proof (cases "xs = []")
  case True
  from assms have q: "qlist (t_mem s) (tp_queue prov) xs" and e: "ql_end (tp_queue prov) = e" by (auto simp: holds_def)
  obtain l m where r: "cl_qlist_insert_head (tp_queue prov) p (t_mem s) = (l, m)" by fastforce
  have "qlist m l (p # xs)" using qlist_insert_head [OF q assms(3) _ r] assms(4) e by simp
  then show ?thesis using True assms(1) r e qlist_empty_iff [OF q assms(5)]
    by (auto simp: enqueue_def holds_def prov_exit_def same_timers_def cl_qlist_insert_head_def)
next
  case False
  from assms have q: "qlist (t_mem s) (tp_queue prov) xs" and e: "ql_end (tp_queue prov) = e" by (auto simp: holds_def)
  let ?P = "\<lambda>x. \<not> cl_timer_is_earlier (tm_timeout (t_mem s) x) (tm_timeout (t_mem s) p)"
  define zs where "zs = rev (takeWhile ?P (rev xs))"
  define ys where "ys = rev (dropWhile ?P (rev xs))"
  have xs: "xs = ys @ zs" unfolding ys_def zs_def by (metis rev_append rev_rev_ident takeWhile_dropWhile_id)
  have zs: "\<forall>x\<in>set zs. ?P x" by (auto simp: zs_def dest: set_takeWhileD)
  have ys: "ys \<noteq> [] \<Longrightarrow> \<not> ?P (last ys)"
    using hd_dropWhile [of ?P "rev xs"] by (auto simp: ys_def last_rev)
  have P: "(\<lambda>x. cl_timer_find (t_mem s) x p \<noteq> CL_SUCCESS) = ?P" by (auto simp: cl_timer_find_def fun_eq_iff)
  define y where "y = hd (dropWhile ?P (rev xs) @ [e])"
  have y: "y = hd (rev ys @ [e])" by (simp add: y_def ys_def)
  obtain l m where r: "cl_qlist_insert_next (tp_queue prov) y p (t_mem s) = (l, m)" by fastforce
  have new: "qlist m l (ys @ p # zs)"
  proof (cases "ys = []")
    case True
    then have "y = e" using y by simp
    with r e have "cl_qlist_insert_head (tp_queue prov) p (t_mem s) = (l, m)"
      by (simp add: cl_qlist_insert_next_def cl_qlist_insert_head_def cl_qlist_head_def cl_qlist_next_def)
    from qlist_insert_head [OF q assms(3) _ this] True xs assms(4) e show ?thesis by simp
  next
    case False
    then have "y = last ys" using y by (simp add: hd_append hd_rev)
    with False have "ys = butlast ys @ [y]" by simp
    with xs have "xs = butlast ys @ y # zs" by (metis append.assoc append_Cons append_Nil)
    with q r assms(3,4) e \<open>ys = butlast ys @ [y]\<close> show ?thesis
      using qlist_insert_next [of "t_mem s" "tp_queue prov" "butlast ys" y zs p l m]
      by (metis append.assoc append_Cons append_Nil)
  qed
  have "enqueue prov p s = Some (s\<lparr>gp_timer_prov := Some (prov\<lparr>tp_queue := l\<rparr>), t_mem := m\<rparr>)"
    using False r qlist_empty_iff [OF q assms(5)] qlist_find_from_tail [OF q, of "cl_timer_find (t_mem s)" p]
    by (simp add: enqueue_def P y_def e)
  moreover have "ql_end l = e" "same_timers (t_mem s) m"
    using r e by (auto simp: cl_qlist_insert_next_def same_timers_def)
  ultimately show ?thesis using new xs zs ys assms(1) by (auto simp: holds_def prov_exit_def)
qed

section \<open>The invariant\<close>

text \<open>\<open>timers\<close> is the set of the addresses of the timers of the program, \<open>e\<close> the end item of the queue.\<close>

definition in_order :: "timer_mem \<Rightarrow> u64 list \<Rightarrow> bool" where
  "in_order m xs \<longleftrightarrow> sorted_wrt (\<lambda>p q. \<not> cl_timer_is_earlier (tm_timeout m q) (tm_timeout m p)) xs"

definition timers_inv :: "u64 set \<Rightarrow> u64 \<Rightarrow> timers \<Rightarrow> u64 list \<Rightarrow> bool" where
  "timers_inv ts e s xs \<longleftrightarrow> holds e s xs \<and> in_order (t_mem s) xs \<and>
     set xs = {p \<in> ts. timer_state (t_mem s) p = CL_TIMER_QUEUED} \<and>
     (\<forall>p\<in>set xs. tm_state (t_mem s) p = CL_INITIALIZED \<and> valid_time (tm_timeout (t_mem s) p))"

text \<open>What the provider's thread relies on.\<close>

definition thread_inv :: "u64 set \<Rightarrow> thread_pc \<Rightarrow> timers \<Rightarrow> bool" where
  "thread_inv ts pc s \<longleftrightarrow> (\<forall>p\<in>ts. timer_state (t_mem s) p = CL_TIMER_RUNNING \<longrightarrow> pc = PROV_CALLBACK p) \<and>
     (case pc of PROV_TIMEDWAIT p t \<Rightarrow> p \<in> ts \<and> valid_time t | PROV_CALLBACK p \<Rightarrow> p \<in> ts | _ \<Rightarrow> True)"

lemma not_earlier_trans:
  "\<not> cl_timer_is_earlier b a \<Longrightarrow> \<not> cl_timer_is_earlier c b \<Longrightarrow> \<not> cl_timer_is_earlier c a"
  by (auto simp: cl_timer_is_earlier_def)

lemma earlier_not_later: "cl_timer_is_earlier a b \<Longrightarrow> \<not> cl_timer_is_earlier b a"
  by (auto simp: cl_timer_is_earlier_def)

lemma in_order_cong: "(\<And>p. p \<in> set xs \<Longrightarrow> tm_timeout m' p = tm_timeout m p) \<Longrightarrow> in_order m' xs \<longleftrightarrow> in_order m xs"
  by (induction xs) (auto simp: in_order_def)

lemma in_order_remove1: "in_order m xs \<Longrightarrow> in_order m (remove1 p xs)"
  unfolding in_order_def by (induction xs) (use notin_set_remove1 in fastforce)+

lemma in_order_insert:
  assumes "in_order m (ys @ zs)"
    and "ys \<noteq> [] \<Longrightarrow> cl_timer_is_earlier (tm_timeout m (last ys)) (tm_timeout m p)"
    and "\<forall>x\<in>set zs. \<not> cl_timer_is_earlier (tm_timeout m x) (tm_timeout m p)"
  shows "in_order m (ys @ p # zs) \<and> (\<forall>y\<in>set ys. cl_timer_is_earlier (tm_timeout m y) (tm_timeout m p))"
proof -
  have early: "cl_timer_is_earlier (tm_timeout m y) (tm_timeout m p)" if "y \<in> set ys" for y
  proof (cases "y = last ys")
    case True
    with that assms(2) show ?thesis by (cases "ys = []") simp_all
  next
    case False
    from that have ne: "ys \<noteq> []" by auto
    then have ys: "ys = butlast ys @ [last ys]" by simp
    with that False have "y \<in> set (butlast ys)" by (metis UnE empty_iff insertE list.set set_append)
    with assms(1) ys have "\<not> cl_timer_is_earlier (tm_timeout m (last ys)) (tm_timeout m y)"
      unfolding in_order_def sorted_wrt_append using ne by (metis list.set_intros(1) sorted_wrt_append)
    with assms(2) [OF ne] show ?thesis by (auto simp: cl_timer_is_earlier_def)
  qed
  with assms(1,3) show ?thesis
    by (auto simp: in_order_def sorted_wrt_append dest: earlier_not_later)
qed

section \<open>The operations\<close>

lemma holds_unique: "holds e s xs \<Longrightarrow> holds e s ys \<Longrightarrow> xs = ys"
  by (auto simp: holds_def qlist_def dest: qlist_at_unique)

lemma holds_distinct: "holds e s xs \<Longrightarrow> distinct xs \<and> e \<notin> set xs"
  by (auto simp: holds_def dest: qlist_distinct qlist_end_notin)

lemma inv_length:
  assumes "timers_inv ts e s xs" and "card ts < 2 ^ 32"
  shows "length xs < 2 ^ 32"
proof -
  have "set xs \<subseteq> ts" "distinct xs" using assms(1) by (auto simp: timers_inv_def dest: holds_distinct)
  then have "length xs \<le> card ts" by (metis card_mono distinct_card finite)
  with assms(2) show ?thesis by simp
qed

lemma start_queue:
  assumes q: "holds e s xs" and ord: "in_order (t_mem s) xs" and p: "p \<noteq> e" "timer_state (t_mem s) p = CL_TIMER_QUEUED \<longleftrightarrow> p \<in> set xs"
    and len: "length xs < 2 ^ 32" and t: "cl_timer_calculate now ms = t"
  shows "\<exists>s' ys zs. cl_timer_start now p ms s = Some (CL_SUCCESS, s') \<and> remove1 p xs = ys @ zs \<and> holds e s' (ys @ p # zs) \<and>
    in_order (t_mem s') (ys @ p # zs) \<and> tm_timeout (t_mem s') = (tm_timeout (t_mem s))(p := t) \<and>
    timer_state (t_mem s') = (timer_state (t_mem s))(p := CL_TIMER_QUEUED) \<and> tm_state (t_mem s') = tm_state (t_mem s) \<and>
    prov_exit s' = prov_exit s \<and> (\<forall>y\<in>set ys. cl_timer_is_earlier (tm_timeout (t_mem s) y) t) \<and>
    (\<forall>z\<in>set zs. \<not> cl_timer_is_earlier (tm_timeout (t_mem s) z) t)"
proof -
  from q obtain prov where prov: "gp_timer_prov s = Some prov" by (auto simp: holds_def)
  define s1 where "s1 = (if timer_state (t_mem s) p = CL_TIMER_QUEUED then dequeue prov p s else s)"
  have s1: "holds e s1 (remove1 p xs)" "same_timers (t_mem s) (t_mem s1)" "prov_exit s1 = prov_exit s"
    using dequeue_queue [OF prov q, of p] q p(2) by (auto simp: s1_def same_timers_def remove1_idem)
  define s2 where "s2 = s1\<lparr>t_mem := (t_mem s1)\<lparr>tm_timeout := (tm_timeout (t_mem s1))(p := t)\<rparr>\<rparr>"
  have s2: "holds e s2 (remove1 p xs)" "prov_exit s2 = prov_exit s"
    using s1 by (auto simp: s2_def holds_mem prov_exit_def)
  have times: "tm_timeout (t_mem s2) = (tm_timeout (t_mem s))(p := t)" "timer_state (t_mem s2) = timer_state (t_mem s)"
    "tm_state (t_mem s2) = tm_state (t_mem s)" using s1(2) by (auto simp: s2_def same_timers_def)
  from s2 obtain prov' where prov': "gp_timer_prov s2 = Some prov'" by (auto simp: holds_def)
  have notin: "p \<notin> set (remove1 p xs)" using holds_distinct [OF q] by simp
  have "length (remove1 p xs) < 2 ^ 32" using len by (auto simp: length_remove1)
  from enqueue_queue [OF prov' s2(1) notin p(1) this] obtain s3 ys zs where s3: "enqueue prov' p s2 = Some s3"
    "remove1 p xs = ys @ zs" "holds e s3 (ys @ p # zs)" "same_timers (t_mem s2) (t_mem s3)" "prov_exit s3 = prov_exit s2"
    "ys \<noteq> [] \<Longrightarrow> cl_timer_is_earlier (tm_timeout (t_mem s2) (last ys)) (tm_timeout (t_mem s2) p)"
    "\<forall>x\<in>set zs. \<not> cl_timer_is_earlier (tm_timeout (t_mem s2) x) (tm_timeout (t_mem s2) p)" by auto
  have "in_order (t_mem s2) (remove1 p xs) \<longleftrightarrow> in_order (t_mem s) (remove1 p xs)"
    by (rule in_order_cong) (use notin in \<open>auto simp: times\<close>)
  with in_order_remove1 [OF ord, of p] s3(2) have "in_order (t_mem s2) (ys @ zs)" by simp
  from in_order_insert [OF this s3(6,7)] have order: "in_order (t_mem s2) (ys @ p # zs)"
    "\<forall>y\<in>set ys. cl_timer_is_earlier (tm_timeout (t_mem s2) y) t" by (auto simp: times)
  define s' where "s' = set_timer_state p CL_TIMER_QUEUED s3"
  have "cl_timer_start now p ms s = Some (CL_SUCCESS, s')"
    using prov prov' s3(1) t
    by (simp add: cl_timer_start_def Let_def s1_def [symmetric] s2_def [symmetric] s'_def) (simp add: s2_def)
  moreover have "p \<notin> set ys" "p \<notin> set zs" using notin s3(2) by auto
  then have "\<forall>y\<in>set ys. cl_timer_is_earlier (tm_timeout (t_mem s) y) t"
    "\<forall>z\<in>set zs. \<not> cl_timer_is_earlier (tm_timeout (t_mem s) z) t"
    using order(2) s3(7) by (auto simp: times split: if_splits)
  moreover have "in_order (t_mem s') (ys @ p # zs)" using order(1) s3(4) by (simp add: in_order_def s'_def same_timers_def)
  ultimately show ?thesis using s3 s2(2) times by (intro exI [of _ s'] exI [of _ ys] exI [of _ zs]) (simp add: s'_def same_timers_def)
qed

lemma timer_start:
  assumes inv: "timers_inv ts e s xs" and ts: "p \<in> ts" "e \<notin> ts" "card ts < 2 ^ 32"
    and init: "tm_state (t_mem s) p = CL_INITIALIZED" and now: "valid_clock now"
  shows "\<exists>s' ys zs. cl_timer_start now p ms s = Some (CL_SUCCESS, s') \<and> remove1 p xs = ys @ zs \<and>
    timers_inv ts e s' (ys @ p # zs) \<and> tm_timeout (t_mem s') = (tm_timeout (t_mem s))(p := cl_timer_calculate now ms) \<and>
    timer_state (t_mem s') = (timer_state (t_mem s))(p := CL_TIMER_QUEUED) \<and> tm_state (t_mem s') = tm_state (t_mem s) \<and>
    prov_exit s' = prov_exit s \<and>
    (\<forall>y\<in>set ys. cl_timer_is_earlier (tm_timeout (t_mem s) y) (cl_timer_calculate now ms)) \<and>
    (\<forall>z\<in>set zs. \<not> cl_timer_is_earlier (tm_timeout (t_mem s) z) (cl_timer_calculate now ms))"
proof -
  have q: "holds e s xs" "in_order (t_mem s) xs" "set xs = {p \<in> ts. timer_state (t_mem s) p = CL_TIMER_QUEUED}"
    using inv by (auto simp: timers_inv_def)
  have p: "p \<noteq> e" "timer_state (t_mem s) p = CL_TIMER_QUEUED \<longleftrightarrow> p \<in> set xs" using q(3) ts by auto
  from start_queue [OF q(1,2) p inv_length [OF inv ts(3)] refl, of now ms] obtain s' ys zs where s':
    "cl_timer_start now p ms s = Some (CL_SUCCESS, s')" "remove1 p xs = ys @ zs" "holds e s' (ys @ p # zs)"
    "in_order (t_mem s') (ys @ p # zs)" "tm_timeout (t_mem s') = (tm_timeout (t_mem s))(p := cl_timer_calculate now ms)"
    "timer_state (t_mem s') = (timer_state (t_mem s))(p := CL_TIMER_QUEUED)" "tm_state (t_mem s') = tm_state (t_mem s)"
    "prov_exit s' = prov_exit s" "\<forall>y\<in>set ys. cl_timer_is_earlier (tm_timeout (t_mem s) y) (cl_timer_calculate now ms)"
    "\<forall>z\<in>set zs. \<not> cl_timer_is_earlier (tm_timeout (t_mem s) z) (cl_timer_calculate now ms)" by blast
  have set: "set ys \<union> set zs = set xs - {p}"
    using s'(2) holds_distinct [OF q(1)] by (metis set_append set_remove1_eq)
  have "set (ys @ p # zs) = {p \<in> ts. timer_state (t_mem s') p = CL_TIMER_QUEUED}"
    using set q(3) ts(1) by (auto simp: s')
  moreover have "\<forall>q\<in>set (ys @ p # zs). tm_state (t_mem s') q = CL_INITIALIZED \<and> valid_time (tm_timeout (t_mem s') q)"
    using set inv init calculate_valid [OF now, of ms] by (auto simp: s' timers_inv_def)
  ultimately have "timers_inv ts e s' (ys @ p # zs)" using s' by (simp add: timers_inv_def)
  with s' show ?thesis by blast
qed

text \<open>Taking a queued timer off the queue, with its new state.\<close>

lemma take_off:
  assumes "timers_inv ts e s xs" and "gp_timer_prov s = Some prov" and "p \<in> set xs" and "st \<noteq> CL_TIMER_QUEUED"
    and s': "s' = dequeue prov p (set_timer_state p st s)"
  shows "timers_inv ts e s' (remove1 p xs) \<and> timer_state (t_mem s') = (timer_state (t_mem s))(p := st) \<and>
    tm_state (t_mem s') = tm_state (t_mem s) \<and> tm_timeout (t_mem s') = tm_timeout (t_mem s) \<and> prov_exit s' = prov_exit s"
proof -
  have q: "holds e (set_timer_state p st s) xs" using assms(1) by (simp add: timers_inv_def)
  have d: "holds e s' (remove1 p xs)" "same_timers (t_mem (set_timer_state p st s)) (t_mem s')"
    "prov_exit s' = prov_exit s"
    using dequeue_queue [OF _ q assms(3), of prov] assms(2) by (simp_all add: s')
  have "in_order (t_mem s') (remove1 p xs)"
    using in_order_remove1 [of "t_mem s" xs p] assms(1) d(2) by (simp add: timers_inv_def in_order_def same_timers_def)
  moreover have "set (remove1 p xs) = set xs - {p}" using holds_distinct [OF q] by (simp add: set_remove1_eq)
  ultimately show ?thesis using d assms(1,4) by (auto simp: timers_inv_def same_timers_def)
qed

lemma timer_stop:
  assumes inv: "timers_inv ts e s xs" and p: "p \<in> ts"
  shows "\<exists>s'. cl_timer_stop id p s = Some s' \<and> timers_inv ts e s' (remove1 p xs) \<and>
    timer_state (t_mem s') = (if p \<in> set xs then (timer_state (t_mem s))(p := CL_TIMER_IDLE) else timer_state (t_mem s)) \<and>
    tm_state (t_mem s') = tm_state (t_mem s) \<and> tm_timeout (t_mem s') = tm_timeout (t_mem s) \<and> prov_exit s' = prov_exit s"
proof -
  obtain prov where prov: "gp_timer_prov s = Some prov" using inv by (auto simp: timers_inv_def holds_def)
  have st: "p \<in> set xs \<longleftrightarrow> timer_state (t_mem s) p = CL_TIMER_QUEUED" using inv p by (auto simp: timers_inv_def)
  show ?thesis
  proof (cases "p \<in> set xs")
    case True
    with take_off [OF inv prov True _ refl, of CL_TIMER_IDLE] prov st show ?thesis by (simp add: cl_timer_stop_def)
  next
    case False
    with inv prov st show ?thesis
      by (cases "timer_state (t_mem s) p") (auto simp: cl_timer_stop_def remove1_idem)
  qed
qed

text \<open>
  A stop that waits for the user's function is a stop of the timer in the state it finds after the wait, whatever that state is.
\<close>

lemma timer_stop_waits:
  assumes "gp_timer_prov s \<noteq> None" and "timer_state (t_mem s) p = CL_TIMER_RUNNING" and "gp_timer_prov (wait s) \<noteq> None"
  shows "cl_timer_stop wait p s = cl_timer_stop id p (wait s)"
  using assms by (cases "timer_state (t_mem (wait s)) p") (auto simp: cl_timer_stop_def)

lemma inv_frame:
  assumes "timers_inv ts e s xs" and "gp_timer_prov s' = gp_timer_prov s"
    and "\<And>p. p \<in> insert e (set xs) \<Longrightarrow> p_next (t_mem s') p = p_next (t_mem s) p \<and> p_prev (t_mem s') p = p_prev (t_mem s) p"
    and "\<And>p. p \<in> ts \<Longrightarrow> timer_state (t_mem s') p = CL_TIMER_QUEUED \<longleftrightarrow> timer_state (t_mem s) p = CL_TIMER_QUEUED"
    and "\<And>p. p \<in> set xs \<Longrightarrow> tm_state (t_mem s') p = tm_state (t_mem s) p \<and> tm_timeout (t_mem s') p = tm_timeout (t_mem s) p"
  shows "timers_inv ts e s' xs"
proof -
  have "holds e s' xs" using assms(1-3) qlist_at_cong [of e xs "t_mem s'" "t_mem s"]
    by (auto simp: timers_inv_def holds_def qlist_def)
  moreover have "in_order (t_mem s') xs" using assms(1,5) in_order_cong [of xs "t_mem s'" "t_mem s"] by (simp add: timers_inv_def)
  ultimately show ?thesis using assms(1,4,5) by (auto simp: timers_inv_def)
qed

lemma timer_init:
  assumes "timers_inv ts e s xs" and "p \<in> ts" "e \<notin> ts" and "tm_state (t_mem s) p \<noteq> CL_INITIALIZED"
    and "cl_timer_init p f c s = (st, s')"
  shows "st = CL_SUCCESS \<and> timers_inv ts e s' xs \<and> timer_state (t_mem s') = (timer_state (t_mem s))(p := CL_TIMER_IDLE) \<and>
    tm_state (t_mem s') = (tm_state (t_mem s))(p := CL_INITIALIZED) \<and> prov_exit s' = prov_exit s"
proof -
  have p: "p \<notin> insert e (set xs)" "timer_state (t_mem s) p \<noteq> CL_TIMER_QUEUED" using assms(1-4) by (auto simp: timers_inv_def)
  have "gp_timer_prov s \<noteq> None" using assms(1) by (auto simp: timers_inv_def holds_def)
  with assms(5) have st: "st = CL_SUCCESS" and s': "gp_timer_prov s' = gp_timer_prov s"
    "p_next (t_mem s') = (p_next (t_mem s))(p := 0)" "p_prev (t_mem s') = (p_prev (t_mem s))(p := 0)"
    "timer_state (t_mem s') = (timer_state (t_mem s))(p := CL_TIMER_IDLE)"
    "tm_state (t_mem s') = (tm_state (t_mem s))(p := CL_INITIALIZED)"
    "tm_timeout (t_mem s') = (tm_timeout (t_mem s))(p := \<lparr>tv_sec = 0, tv_nsec = 0\<rparr>)"
    by (auto simp: cl_timer_init_def cl_timer_construct_def Let_def)
  have "timers_inv ts e s' xs" by (rule inv_frame [OF assms(1) s'(1)]) (use p in \<open>auto simp: s'\<close>)
  with st s' show ?thesis by (simp add: prov_exit_def)
qed

lemma timer_destroy:
  assumes inv: "timers_inv ts e s xs" and p: "p \<in> ts"
  shows "\<exists>s'. cl_timer_destroy id p s = Some s' \<and> timers_inv ts e s' (remove1 p xs) \<and>
    timer_state (t_mem s') p \<noteq> CL_TIMER_QUEUED \<and> (\<forall>q. q \<noteq> p \<longrightarrow> timer_state (t_mem s') q = timer_state (t_mem s) q) \<and>
    (timer_state (t_mem s') p = CL_TIMER_RUNNING \<longrightarrow> timer_state (t_mem s) p = CL_TIMER_RUNNING) \<and>
    tm_state (t_mem s') = (tm_state (t_mem s))(p := CL_UNINITIALIZED) \<and> prov_exit s' = prov_exit s"
proof -
  have xs: "p \<notin> set (remove1 p xs)" using inv by (auto simp: timers_inv_def dest: holds_distinct)
  have "\<exists>s1. (if tm_state (t_mem s) p = CL_INITIALIZED then cl_timer_stop id p s else Some s) = Some s1 \<and>
    timers_inv ts e s1 (remove1 p xs) \<and> tm_state (t_mem s1) = tm_state (t_mem s) \<and> prov_exit s1 = prov_exit s \<and>
    (\<forall>q. timer_state (t_mem s1) q = timer_state (t_mem s) q \<or> q = p \<and> timer_state (t_mem s1) q = CL_TIMER_IDLE)"
  proof (cases "tm_state (t_mem s) p = CL_INITIALIZED")
    case True
    from timer_stop [OF inv p] obtain s1 where "cl_timer_stop id p s = Some s1" "timers_inv ts e s1 (remove1 p xs)"
      "timer_state (t_mem s1) = (if p \<in> set xs then (timer_state (t_mem s))(p := CL_TIMER_IDLE) else timer_state (t_mem s))"
      "tm_state (t_mem s1) = tm_state (t_mem s)" "prov_exit s1 = prov_exit s" by blast
    with True show ?thesis by simp
  next
    case False
    with inv have "p \<notin> set xs" unfolding timers_inv_def by blast
    with False inv show ?thesis by (simp add: remove1_idem)
  qed
  then obtain s1 where s1: "(if tm_state (t_mem s) p = CL_INITIALIZED then cl_timer_stop id p s else Some s) = Some s1"
    "timers_inv ts e s1 (remove1 p xs)" "tm_state (t_mem s1) = tm_state (t_mem s)" "prov_exit s1 = prov_exit s"
    "\<And>q. timer_state (t_mem s1) q = timer_state (t_mem s) q \<or> q = p \<and> timer_state (t_mem s1) q = CL_TIMER_IDLE" by blast
  have "timer_state (t_mem s1) p \<noteq> CL_TIMER_QUEUED" using s1(2) xs p by (auto simp: timers_inv_def)
  moreover define s' where "s' = s1\<lparr>t_mem := (t_mem s1)\<lparr>tm_state := (tm_state (t_mem s1))(p := CL_UNINITIALIZED)\<rparr>\<rparr>"
  have "timers_inv ts e s' (remove1 p xs)" by (rule inv_frame [OF s1(2)]) (use xs in \<open>auto simp: s'_def\<close>)
  moreover have "cl_timer_destroy id p s = Some s'" using s1(1) by (simp add: cl_timer_destroy_def s'_def)
  moreover have "timer_state (t_mem s') = timer_state (t_mem s1)" "tm_state (t_mem s') = (tm_state (t_mem s))(p := CL_UNINITIALIZED)"
    "prov_exit s' = prov_exit s" using s1(3,4) by (simp_all add: s'_def prov_exit_def)
  ultimately show ?thesis using s1(5) by (intro exI [of _ s']) (metis cl_timer_state_t.distinct(3))
qed

end
