(* ===== verification/Timer_Steps.thy ===== *)
theory Timer_Steps
  imports Timer_Inv
begin

text \<open>
  The provider's thread beside the threads of the users, as a step relation: every section under the provider's mutex is one
  step, and the clock moves on between them. The invariant of the timers holds in every reachable state.
\<close>

section \<open>The thread\<close>

lemma prov_loop_keeps:
  assumes inv: "timers_inv ts e s xs" and card: "card ts < 2 ^ 32"
    and idle: "\<And>p. p \<in> ts \<Longrightarrow> timer_state (t_mem s) p \<noteq> CL_TIMER_RUNNING"
  shows "\<exists>pc' s'. prov_loop s = Some (pc', s') \<and> timers_inv ts e s' xs \<and> thread_inv ts pc' s' \<and> t_mem s' = t_mem s \<and>
    (\<not> prov_exit s \<longrightarrow> s' = s \<and> pc' = (case xs of [] \<Rightarrow> PROV_WAIT | x # _ \<Rightarrow> PROV_TIMEDWAIT x (tm_timeout (t_mem s) x)))"
proof -
  obtain prov where prov: "gp_timer_prov s = Some prov" and q: "qlist (t_mem s) (tp_queue prov) xs"
    using inv by (auto simp: timers_inv_def holds_def)
  have empty: "cl_is_qlist_empty (tp_queue prov) \<longleftrightarrow> xs = []" by (rule qlist_empty_iff [OF q inv_length [OF inv card]])
  have exit: "prov_exit s \<longleftrightarrow> tp_exit prov" using prov by (simp add: prov_exit_def)
  show ?thesis
  proof (cases "tp_exit prov")
    case True
    let ?s = "s\<lparr>gp_timer_prov := Some (prov\<lparr>tp_thread := 0\<rparr>)\<rparr>"
    have "timers_inv ts e ?s xs" using inv prov by (auto simp: timers_inv_def holds_def)
    with True prov exit idle show ?thesis by (auto simp: prov_loop_def thread_inv_def)
  next
    case False
    then show ?thesis
    proof (cases xs)
      case Nil
      with False prov empty inv exit idle show ?thesis by (auto simp: prov_loop_def thread_inv_def)
    next
      case (Cons x ys)
      then have "x \<in> ts" "valid_time (tm_timeout (t_mem s) x)" using inv by (auto simp: timers_inv_def)
      with Cons False prov empty inv exit idle qlist_head [OF q] show ?thesis
        by (auto simp: prov_loop_def thread_inv_def)
    qed
  qed
qed

text \<open>Every section of the thread returns, and keeps the invariant.\<close>

lemma idle_after_callback:
  assumes "thread_inv ts (PROV_CALLBACK p) s" and "timers_inv ts e s xs"
    and "s' = (if timer_state (t_mem s) p = CL_TIMER_RUNNING then set_timer_state p CL_TIMER_IDLE s else s)"
  shows "timers_inv ts e s' xs \<and> (\<forall>q\<in>ts. timer_state (t_mem s') q \<noteq> CL_TIMER_RUNNING) \<and> prov_exit s' = prov_exit s \<and>
    tm_timeout (t_mem s') = tm_timeout (t_mem s)"
proof -
  have "timers_inv ts e s' xs" using assms(2,3)
    by (auto simp: timers_inv_def in_order_def)
  with assms show ?thesis by (auto simp: thread_inv_def)
qed

lemma prov_cb_keeps:
  assumes inv: "timers_inv ts e s xs" and th: "thread_inv ts pc s" and card: "card ts < 2 ^ 32"
  shows "\<exists>pc' s' ys. cl_timer_prov_cb ret pc s = Some (pc', s') \<and> timers_inv ts e s' ys \<and> thread_inv ts pc' s'"
proof (cases pc)
  case PROV_WAIT
  then have "\<And>p. p \<in> ts \<Longrightarrow> timer_state (t_mem s) p \<noteq> CL_TIMER_RUNNING" using th by (auto simp: thread_inv_def)
  from prov_loop_keeps [OF inv card this] PROV_WAIT show ?thesis by (auto simp: cl_timer_prov_cb_def)
next
  case (PROV_TIMEDWAIT p t)
  then have p: "p \<in> ts" and idle: "\<And>p. p \<in> ts \<Longrightarrow> timer_state (t_mem s) p \<noteq> CL_TIMER_RUNNING"
    using th by (auto simp: thread_inv_def)
  show ?thesis
  proof (cases "(ret = ETIMEDOUT \<or> ret = EINVAL) \<and> timer_state (t_mem s) p = CL_TIMER_QUEUED")
    case True
    obtain prov where prov: "gp_timer_prov s = Some prov" using inv by (auto simp: timers_inv_def holds_def)
    have "p \<in> set xs" using True inv p by (auto simp: timers_inv_def)
    from take_off [OF inv prov this _ refl, of CL_TIMER_RUNNING] idle p True prov PROV_TIMEDWAIT show ?thesis
      by (auto simp: cl_timer_prov_cb_def thread_inv_def)
  next
    case False
    with PROV_TIMEDWAIT prov_loop_keeps [OF inv card idle] show ?thesis by (auto simp: cl_timer_prov_cb_def)
  qed
next
  case (PROV_CALLBACK p)
  define s1 where "s1 = (if timer_state (t_mem s) p = CL_TIMER_RUNNING then set_timer_state p CL_TIMER_IDLE s else s)"
  from idle_after_callback [OF th [unfolded PROV_CALLBACK] inv s1_def] have "timers_inv ts e s1 xs"
    "\<And>q. q \<in> ts \<Longrightarrow> timer_state (t_mem s1) q \<noteq> CL_TIMER_RUNNING" by auto
  from prov_loop_keeps [OF this(1) card this(2)] PROV_CALLBACK show ?thesis
    by (auto simp: cl_timer_prov_cb_def s1_def [symmetric])
next
  case PROV_EXITED
  with inv th show ?thesis by (auto simp: cl_timer_prov_cb_def)
qed

section \<open>The steps\<close>

type_synonym timer_config = "time_of_day \<times> thread_pc \<times> timers"

definition time_reached :: "time_of_day \<Rightarrow> timespec \<Rightarrow> bool" where
  "time_reached now t \<longleftrightarrow> nanoseconds t \<le> 1000 * microseconds now"

text \<open>
  What a wait can return: it times out only after the time it was given, and \<^verbatim>\<open>EINVAL\<close> means that this was not a
  time at all. A wait may end for no reason.
\<close>

definition wait_result :: "time_of_day \<Rightarrow> thread_pc \<Rightarrow> int \<Rightarrow> bool" where
  "wait_result now pc ret \<longleftrightarrow> (case pc of
     PROV_TIMEDWAIT p t \<Rightarrow> (ret = ETIMEDOUT \<longrightarrow> time_reached now t) \<and> (ret = EINVAL \<longrightarrow> \<not> valid_time t)
   | _ \<Rightarrow> True)"

text \<open>
  The users keep to the assertions of the code: they start, stop and destroy timers that are initialised, and initialise
  those that are not. A stop that waits for the user's function is, by \<open>timer_stop_waits\<close>, a stop after the steps the
  others make meanwhile; a trim is a start or has no effect.
\<close>

inductive timer_step :: "u64 set \<Rightarrow> timer_config \<Rightarrow> timer_config \<Rightarrow> bool" for ts where
  clock: "microseconds now \<le> microseconds now' \<Longrightarrow> valid_clock now' \<Longrightarrow> timer_step ts (now, pc, s) (now', pc, s)"
| init: "p \<in> ts \<Longrightarrow> tm_state (t_mem s) p \<noteq> CL_INITIALIZED \<Longrightarrow> cl_timer_init p f c s = (st, s') \<Longrightarrow>
    timer_step ts (now, pc, s) (now, pc, s')"
| start: "p \<in> ts \<Longrightarrow> tm_state (t_mem s) p = CL_INITIALIZED \<Longrightarrow> cl_timer_start now p ms s = Some (st, s') \<Longrightarrow>
    timer_step ts (now, pc, s) (now, pc, s')"
| stop: "p \<in> ts \<Longrightarrow> tm_state (t_mem s) p = CL_INITIALIZED \<Longrightarrow> cl_timer_stop id p s = Some s' \<Longrightarrow>
    timer_step ts (now, pc, s) (now, pc, s')"
| destroy: "p \<in> ts \<Longrightarrow> cl_timer_destroy id p s = Some s' \<Longrightarrow> timer_step ts (now, pc, s) (now, pc, s')"
| thread: "wait_result now pc ret \<Longrightarrow> cl_timer_prov_cb ret pc s = Some (pc', s') \<Longrightarrow>
    timer_step ts (now, pc, s) (now, pc', s')"

text \<open>The program starts with the creation of the provider and with timers that have been constructed.\<close>

inductive timer_reach :: "u64 set \<Rightarrow> u64 \<Rightarrow> timer_config \<Rightarrow> bool" for ts e where
  first: "cl_timer_prov_create (Some e) (0, tid) join s = (CL_SUCCESS, s') \<Longrightarrow> valid_clock now \<Longrightarrow>
    \<forall>p\<in>ts. timer_state (t_mem s) p = CL_TIMER_IDLE \<and> tm_state (t_mem s) p = CL_UNINITIALIZED \<Longrightarrow>
    timer_reach ts e (now, PROV_WAIT, s')"
| later: "timer_reach ts e c \<Longrightarrow> timer_step ts c c' \<Longrightarrow> timer_reach ts e c'"

definition config_inv :: "u64 set \<Rightarrow> u64 \<Rightarrow> timer_config \<Rightarrow> bool" where
  "config_inv ts e c = (case c of (now, pc, s) \<Rightarrow> valid_clock now \<and> thread_inv ts pc s \<and> (\<exists>xs. timers_inv ts e s xs))"

lemma thread_inv_mono:
  assumes "thread_inv ts pc s"
    and "\<And>p. p \<in> ts \<Longrightarrow> timer_state (t_mem s') p = CL_TIMER_RUNNING \<Longrightarrow> timer_state (t_mem s) p = CL_TIMER_RUNNING"
  shows "thread_inv ts pc s'"
  using assms by (auto simp: thread_inv_def)

lemma created_inv:
  assumes "cl_timer_prov_create (Some e) (0, tid) join s = (st, s')"
    and "\<forall>p\<in>ts. timer_state (t_mem s) p = CL_TIMER_IDLE \<and> tm_state (t_mem s) p = CL_UNINITIALIZED"
  shows "st = CL_SUCCESS \<and> timers_inv ts e s' [] \<and> thread_inv ts PROV_WAIT s' \<and> \<not> prov_exit s'"
proof -
  obtain q m where i: "cl_qlist_init \<lparr>ql_end = e, ql_count = 0, ql_state = CL_UNINITIALIZED\<rparr> (t_mem s) = (q, m)" by fastforce
  then have "same_timers (t_mem s) m" "ql_end q = e" by (auto simp: cl_qlist_init_def cl_qlist_reset_def same_timers_def)
  with qlist_init [OF i] i assms show ?thesis
    by (auto simp: cl_timer_prov_create_def timers_inv_def holds_def in_order_def thread_inv_def prov_exit_def same_timers_def)
qed

lemma timer_step_keeps:
  assumes "timer_step ts c c'" and "config_inv ts e c" and ts: "e \<notin> ts" "card ts < 2 ^ 32"
  shows "config_inv ts e c'"
  using assms(1,2)
proof cases
  case (init p s f d st s' now pc)
  with assms(2) obtain xs where xs: "timers_inv ts e s xs" "thread_inv ts pc s" "valid_clock now" by (auto simp: config_inv_def)
  have "thread_inv ts pc s'" using timer_init [OF xs(1) init(3) ts(1) init(4,5)]
    by (intro thread_inv_mono [OF xs(2)]) (auto split: if_splits)
  with timer_init [OF xs(1) init(3) ts(1) init(4,5)] xs init show ?thesis by (auto simp: config_inv_def)
next
  case (start p s now ms st s' pc)
  with assms(2) obtain xs where xs: "timers_inv ts e s xs" "thread_inv ts pc s" "valid_clock now" by (auto simp: config_inv_def)
  from timer_start [OF xs(1) start(3) ts start(4) xs(3), of ms] start(5) obtain ys where
    ys: "timers_inv ts e s' ys" "timer_state (t_mem s') = (timer_state (t_mem s))(p := CL_TIMER_QUEUED)" by fastforce
  then have "thread_inv ts pc s'" by (intro thread_inv_mono [OF xs(2)]) (auto split: if_splits)
  with ys xs start show ?thesis by (auto simp: config_inv_def)
next
  case (stop p s s' now pc)
  with assms(2) obtain xs where xs: "timers_inv ts e s xs" "thread_inv ts pc s" "valid_clock now" by (auto simp: config_inv_def)
  from timer_stop [OF xs(1) stop(3)] stop(5) have s': "timers_inv ts e s' (remove1 p xs)"
    "timer_state (t_mem s') = (if p \<in> set xs then (timer_state (t_mem s))(p := CL_TIMER_IDLE) else timer_state (t_mem s))" by auto
  then have "thread_inv ts pc s'" by (intro thread_inv_mono [OF xs(2)]) (auto split: if_splits)
  with s' xs stop show ?thesis by (auto simp: config_inv_def)
next
  case (destroy p s s' now pc)
  with assms(2) obtain xs where xs: "timers_inv ts e s xs" "thread_inv ts pc s" "valid_clock now" by (auto simp: config_inv_def)
  from timer_destroy [OF xs(1) destroy(3)] destroy(4) have s': "timers_inv ts e s' (remove1 p xs)"
    "\<And>q. timer_state (t_mem s') q = CL_TIMER_RUNNING \<Longrightarrow> timer_state (t_mem s) q = CL_TIMER_RUNNING" by force+
  then have "thread_inv ts pc s'" by (intro thread_inv_mono [OF xs(2)])
  with s' xs destroy show ?thesis by (auto simp: config_inv_def)
next
  case (thread now pc ret s pc' s')
  with assms(2) obtain xs where "timers_inv ts e s xs" "thread_inv ts pc s" "valid_clock now" by (auto simp: config_inv_def)
  with prov_cb_keeps [OF this(1,2) ts(2), of ret] thread show ?thesis by (auto simp: config_inv_def)
qed (auto simp: config_inv_def)

lemma timer_reach_inv:
  assumes "timer_reach ts e c" and "e \<notin> ts" "card ts < 2 ^ 32"
  shows "config_inv ts e c"
  using assms(1)
proof induction
  case (first tid join s s' now)
  with created_inv [OF first(1,3)] show ?case by (auto simp: config_inv_def)
qed (use assms timer_step_keeps in blast)

section \<open>Timers whose time has come\<close>

text \<open>
  The thread on its own for a number of sections, at a time that does not change: the timers whose functions it
  calls, where it is then and the timers.
\<close>

fun prov_alone :: "time_of_day \<Rightarrow> nat \<Rightarrow> thread_pc \<Rightarrow> timers \<Rightarrow> (u64 list \<times> thread_pc \<times> timers) option" where
  "prov_alone now 0 pc s = Some ([], pc, s)"
| "prov_alone now (Suc n) pc s =
    Option.bind (cl_timer_prov_cb (case pc of PROV_TIMEDWAIT p t \<Rightarrow> if time_reached now t then ETIMEDOUT else 0 | _ \<Rightarrow> 0) pc s)
      (\<lambda>(pc', s'). map_option (\<lambda>(ps, r). ((case pc' of PROV_CALLBACK p \<Rightarrow> [p] | _ \<Rightarrow> []) @ ps, r)) (prov_alone now n pc' s'))"

definition head_pc :: "timers \<Rightarrow> u64 list \<Rightarrow> thread_pc" where
  "head_pc s xs = (case xs of [] \<Rightarrow> PROV_WAIT | x # _ \<Rightarrow> PROV_TIMEDWAIT x (tm_timeout (t_mem s) x))"

text \<open>A timer whose time has come: its function is called, and the thread turns to the next one.\<close>

lemma fire_head:
  assumes inv: "timers_inv ts e s (x # xs)" and idle: "\<And>p. p \<in> ts \<Longrightarrow> timer_state (t_mem s) p \<noteq> CL_TIMER_RUNNING"
    and card: "card ts < 2 ^ 32" and exit: "\<not> prov_exit s"
  shows "\<exists>s1 s2. cl_timer_prov_cb ETIMEDOUT (head_pc s (x # xs)) s = Some (PROV_CALLBACK x, s1) \<and>
    cl_timer_prov_cb 0 (PROV_CALLBACK x) s1 = Some (head_pc s2 xs, s2) \<and> timers_inv ts e s2 xs \<and> \<not> prov_exit s2 \<and>
    timer_state (t_mem s2) = (timer_state (t_mem s))(x := CL_TIMER_IDLE) \<and> tm_timeout (t_mem s2) = tm_timeout (t_mem s)"
proof -
  obtain prov where prov: "gp_timer_prov s = Some prov" using inv by (auto simp: timers_inv_def holds_def)
  have x: "timer_state (t_mem s) x = CL_TIMER_QUEUED" "x \<in> ts" using inv by (auto simp: timers_inv_def)
  define s1 where "s1 = dequeue prov x (set_timer_state x CL_TIMER_RUNNING s)"
  from take_off [OF inv prov _ _ s1_def] have s1: "timers_inv ts e s1 xs"
    "timer_state (t_mem s1) = (timer_state (t_mem s))(x := CL_TIMER_RUNNING)"
    "tm_timeout (t_mem s1) = tm_timeout (t_mem s)" "prov_exit s1 = prov_exit s" by simp_all
  define s2 where "s2 = set_timer_state x CL_TIMER_IDLE s1"
  have th: "thread_inv ts (PROV_CALLBACK x) s1" using idle x by (auto simp: thread_inv_def s1)
  from idle_after_callback [OF th s1(1), of s2] s1 have s2: "timers_inv ts e s2 xs"
    "\<And>q. q \<in> ts \<Longrightarrow> timer_state (t_mem s2) q \<noteq> CL_TIMER_RUNNING" by (auto simp: s2_def)
  have "\<not> prov_exit s2" using exit s1(4) by (simp add: s2_def)
  with prov_loop_keeps [OF s2(1) card s2(2)] have "prov_loop s2 = Some (head_pc s2 xs, s2)" by (auto simp: head_pc_def)
  then have "cl_timer_prov_cb 0 (PROV_CALLBACK x) s1 = Some (head_pc s2 xs, s2)" by (simp add: cl_timer_prov_cb_def s1 s2_def)
  moreover have "cl_timer_prov_cb ETIMEDOUT (head_pc s (x # xs)) s = Some (PROV_CALLBACK x, s1)"
    using x prov by (simp add: cl_timer_prov_cb_def head_pc_def s1_def)
  ultimately show ?thesis using s2(1) \<open>\<not> prov_exit s2\<close> s1 by (auto simp: s2_def)
qed

lemma drain:
  assumes "timers_inv ts e s xs" and "\<And>p. p \<in> ts \<Longrightarrow> timer_state (t_mem s) p \<noteq> CL_TIMER_RUNNING"
    and "card ts < 2 ^ 32" and "\<not> prov_exit s" and "\<And>p. p \<in> set xs \<Longrightarrow> time_reached now (tm_timeout (t_mem s) p)"
  shows "\<exists>s'. prov_alone now (2 * length xs) (head_pc s xs) s = Some (xs, PROV_WAIT, s') \<and> timers_inv ts e s' [] \<and>
    (\<forall>p. timer_state (t_mem s') p = (if p \<in> set xs then CL_TIMER_IDLE else timer_state (t_mem s) p))"
  using assms
proof (induction xs arbitrary: s)
  case Nil
  then show ?case by (simp add: head_pc_def)
next
  case (Cons x xs)
  obtain s1 s2 where s: "cl_timer_prov_cb ETIMEDOUT (head_pc s (x # xs)) s = Some (PROV_CALLBACK x, s1)"
    "cl_timer_prov_cb 0 (PROV_CALLBACK x) s1 = Some (head_pc s2 xs, s2)" "timers_inv ts e s2 xs" "\<not> prov_exit s2"
    "timer_state (t_mem s2) = (timer_state (t_mem s))(x := CL_TIMER_IDLE)" "tm_timeout (t_mem s2) = tm_timeout (t_mem s)"
    using fire_head [OF Cons.prems(1,2,3,4)] by blast
  have "\<And>p. p \<in> ts \<Longrightarrow> timer_state (t_mem s2) p \<noteq> CL_TIMER_RUNNING"
    "\<And>p. p \<in> set xs \<Longrightarrow> time_reached now (tm_timeout (t_mem s2) p)" using Cons.prems(2,5) by (auto simp: s)
  from Cons.IH [OF s(3) this(1) Cons.prems(3) s(4) this(2)] obtain s' where
    s': "prov_alone now (2 * length xs) (head_pc s2 xs) s2 = Some (xs, PROV_WAIT, s')" "timers_inv ts e s' []"
    "\<forall>p. timer_state (t_mem s') p = (if p \<in> set xs then CL_TIMER_IDLE else timer_state (t_mem s2) p)" by blast
  have "time_reached now (tm_timeout (t_mem s) x)" using Cons.prems(5) by simp
  with s(1) s(2) s' have "prov_alone now (Suc (Suc (2 * length xs))) (head_pc s (x # xs)) s = Some (x # xs, PROV_WAIT, s')"
    by (simp add: head_pc_def split: list.split)
  with s' s(5) show ?case by auto
qed

lemma drain_from_wait:
  assumes "timers_inv ts e s xs" and "\<forall>p\<in>ts. timer_state (t_mem s) p \<noteq> CL_TIMER_RUNNING"
    and "card ts < 2 ^ 32" and "\<not> prov_exit s" and "\<forall>p\<in>set xs. time_reached now (tm_timeout (t_mem s) p)"
  shows "\<exists>s'. prov_alone now (Suc (2 * length xs)) PROV_WAIT s = Some (xs, PROV_WAIT, s') \<and> timers_inv ts e s' [] \<and>
    (\<forall>p. timer_state (t_mem s') p = (if p \<in> set xs then CL_TIMER_IDLE else timer_state (t_mem s) p))"
proof -
  have "cl_timer_prov_cb 0 PROV_WAIT s = Some (head_pc s xs, s)"
    using prov_loop_keeps [OF assms(1,3)] assms(2,4) by (auto simp: cl_timer_prov_cb_def head_pc_def)
  moreover have "(case head_pc s xs of PROV_CALLBACK p \<Rightarrow> [p] | _ \<Rightarrow> []) = []" by (simp add: head_pc_def split: list.split)
  ultimately show ?thesis using drain [of ts e s xs now] assms by simp
qed

lemma trim_start:
  assumes inv: "timers_inv ts e s xs" and "p \<in> ts" "e \<notin> ts" "card ts < 2 ^ 32"
    and "tm_state (t_mem s) p = CL_INITIALIZED" and now: "valid_clock now"
  shows "\<exists>s' ys. cl_timer_trim now id now p ms s = Some (CL_SUCCESS, s') \<and> timers_inv ts e s' ys \<and> p \<in> set ys \<and>
    nanoseconds (tm_timeout (t_mem s') p) =
      (if p \<in> set xs then min (nanoseconds (tm_timeout (t_mem s) p)) else id) (1000 * (microseconds now + 1000 * uint ms))"
proof -
  let ?t = "cl_timer_calculate now ms"
  have gp: "gp_timer_prov s \<noteq> None" using inv by (auto simp: timers_inv_def holds_def)
  have q: "timer_state (t_mem s) p = CL_TIMER_QUEUED \<longleftrightarrow> p \<in> set xs" "p \<in> set xs \<Longrightarrow> valid_time (tm_timeout (t_mem s) p)"
    using inv assms(2) by (auto simp: timers_inv_def)
  have early: "p \<in> set xs \<Longrightarrow> cl_timer_is_earlier (tm_timeout (t_mem s) p) ?t \<longleftrightarrow>
      nanoseconds (tm_timeout (t_mem s) p) < nanoseconds ?t"
    by (rule is_earlier_nanoseconds [OF q(2) calculate_valid [OF now]])
  obtain s' ys where s': "cl_timer_start now p ms s = Some (CL_SUCCESS, s')" "timers_inv ts e s' ys" "p \<in> set ys"
    "tm_timeout (t_mem s') p = ?t" using timer_start [OF assms, of ms] by fastforce
  show ?thesis
  proof (cases "p \<in> set xs \<and> cl_timer_is_earlier (tm_timeout (t_mem s) p) ?t")
    case True
    with gp q inv early show ?thesis by (auto simp: cl_timer_trim_def calculate_exact)
  next
    case False
    with gp q s' early show ?thesis by (auto simp: cl_timer_trim_def calculate_exact)
  qed
qed

text \<open>
  A wait that has timed out ends only when the thread gets the mutex. A timer that is started again in between is
  still queued, and its function is called at once.
\<close>

lemma early_call:
  assumes inv: "timers_inv ts e s xs" and ts: "p \<in> ts" "e \<notin> ts" "card ts < 2 ^ 32"
    and init: "tm_state (t_mem s) p = CL_INITIALIZED" and now: "valid_clock now" and due: "time_reached now t" and ms: "(ms :: u32) \<noteq> 0"
  shows "\<exists>s1 s2. cl_timer_start now p ms s = Some (CL_SUCCESS, s1) \<and>
    cl_timer_prov_cb ETIMEDOUT (PROV_TIMEDWAIT p t) s1 = Some (PROV_CALLBACK p, s2) \<and> timer_step ts (now, PROV_TIMEDWAIT p t, s) (now, PROV_TIMEDWAIT p t, s1) \<and>
    timer_step ts (now, PROV_TIMEDWAIT p t, s1) (now, PROV_CALLBACK p, s2) \<and>
    \<not> time_reached now (tm_timeout (t_mem s2) p)"
proof -
  from timer_start [OF inv ts init now, of ms] obtain s1 ys where s1: "cl_timer_start now p ms s = Some (CL_SUCCESS, s1)"
    "timers_inv ts e s1 ys" "p \<in> set ys" "tm_timeout (t_mem s1) p = cl_timer_calculate now ms"
    "timer_state (t_mem s1) p = CL_TIMER_QUEUED" by fastforce
  obtain prov where prov: "gp_timer_prov s1 = Some prov" using s1(2) by (auto simp: timers_inv_def holds_def)
  define s2 where "s2 = dequeue prov p (set_timer_state p CL_TIMER_RUNNING s1)"
  have cb: "cl_timer_prov_cb ETIMEDOUT (PROV_TIMEDWAIT p t) s1 = Some (PROV_CALLBACK p, s2)"
    using s1(5) prov by (simp add: cl_timer_prov_cb_def s2_def)
  then have "timer_step ts (now, PROV_TIMEDWAIT p t, s1) (now, PROV_CALLBACK p, s2)"
    by (intro timer_step.thread [where ret = ETIMEDOUT]) (auto simp: wait_result_def due ETIMEDOUT_def EINVAL_def)
  moreover have "tm_timeout (t_mem s2) p = cl_timer_calculate now ms"
    using take_off [OF s1(2) prov s1(3) _ s2_def] s1(4) by simp
  moreover have "0 < uint ms" using ms by (simp add: word_neq_0_conv word_less_def)
  ultimately show ?thesis using timer_step.start [OF ts(1) init s1(1)] s1(1) cb
    by (intro exI [of _ s1] exI [of _ s2]) (simp add: time_reached_def calculate_exact)
qed

end
