(* ===== verification/Commchnl.thy ===== *)
theory Commchnl
  imports Commu
begin

text \<open>
  The communication channel of \<^verbatim>\<open>cl_commchnl.c\<close>: stream sockets of the local domain, on which a whole buffer is sent and
  any part of it, or the whole, is received. The system calls are the record \<open>chnl_sys\<close> over a world \<open>'w\<close>; -1 stands for
  failure, and a call that receives returns \<open>None\<close> for failure and otherwise the bytes it wrote.
\<close>

datatype cl_commchnl_side_t = CL_COMMCHNL_SIDE_CLIENT | CL_COMMCHNL_SIDE_SERVER | CL_COMMCHNL_SIDE_COUNT

record cl_commchnl_t =
  ch_socket :: int
  ch_side :: cl_commchnl_side_t
  ch_state :: cl_state_t
  ch_pid :: int

record 'w chnl_sys =
  cs_socket :: "'w \<Rightarrow> int \<times> 'w"
  cs_unlink :: "string \<Rightarrow> 'w \<Rightarrow> 'w"
  cs_bind :: "int \<Rightarrow> string \<Rightarrow> 'w \<Rightarrow> int \<times> 'w"
  cs_listen :: "int \<Rightarrow> int \<Rightarrow> 'w \<Rightarrow> int \<times> 'w"
  cs_connect :: "int \<Rightarrow> string \<Rightarrow> 'w \<Rightarrow> int \<times> 'w"
  cs_accept :: "int \<Rightarrow> 'w \<Rightarrow> int \<times> 'w"
  cs_close :: "int \<Rightarrow> 'w \<Rightarrow> 'w"
  cs_getpid :: "'w \<Rightarrow> int"
  cs_send :: "int \<Rightarrow> bytes \<Rightarrow> 'w \<Rightarrow> int \<times> 'w"
  cs_recv :: "int \<Rightarrow> nat \<Rightarrow> 'w \<Rightarrow> bytes option \<times> 'w"

text \<open>The room for the path in \<^verbatim>\<open>struct sockaddr_un\<close>; the last byte is set to 0.\<close>

definition sizeof_sun_path :: nat where "sizeof_sun_path = 108"

definition cl_is_commchnl_inited :: "cl_commchnl_t \<Rightarrow> bool" where
  "cl_is_commchnl_inited ch \<longleftrightarrow> ch_state ch = CL_INITIALIZED"

definition cl_commchnl_side :: "cl_commchnl_t \<Rightarrow> cl_commchnl_side_t" where
  "cl_commchnl_side ch = ch_side ch"

definition cl_commchnl_init ::
  "'w chnl_sys \<Rightarrow> cl_commchnl_t \<Rightarrow> string \<Rightarrow> cl_commchnl_side_t \<Rightarrow> 'w \<Rightarrow> cl_status_t \<times> cl_commchnl_t \<times> 'w" where
  "cl_commchnl_init sys ch address side w =
    (let (fd, w) = cs_socket sys w;
         ch = ch\<lparr>ch_state := CL_UNINITIALIZED, ch_side := side, ch_socket := fd\<rparr>
     in if fd = -1 then (CL_ERROR, ch, w)
        else
          let path = take (sizeof_sun_path - 1) address;
              (ret, w) =
                (if side = CL_COMMCHNL_SIDE_SERVER
                 then let (ret, w) = cs_bind sys fd path (cs_unlink sys path w)
                   in if ret = -1 then (ret, w) else cs_listen sys fd 10 w
                 else cs_connect sys fd path w)
          in if ret = -1 then (CL_ERROR, ch, w)
             else (CL_SUCCESS, ch\<lparr>ch_pid := cs_getpid sys w, ch_state := CL_INITIALIZED\<rparr>, w))"

definition cl_commchnl_destroy :: "'w chnl_sys \<Rightarrow> cl_commchnl_t \<Rightarrow> 'w \<Rightarrow> cl_commchnl_t \<times> 'w" where
  "cl_commchnl_destroy sys ch w =
    (ch\<lparr>ch_state := CL_UNINITIALIZED\<rparr>, if ch_state ch = CL_INITIALIZED then cs_close sys (ch_socket ch) w else w)"

text \<open>The structure of the new client is on the stack of the caller: \<open>client\<close> is what it held before.\<close>

definition cl_commchnl_accept ::
  "'w chnl_sys \<Rightarrow> cl_commchnl_t \<Rightarrow> cl_commchnl_t \<Rightarrow> 'w \<Rightarrow> cl_status_t \<times> cl_commchnl_t \<times> 'w" where
  "cl_commchnl_accept sys ch client w =
    (let (fd, w) = cs_accept sys (ch_socket ch) w;
         client = client\<lparr>ch_socket := fd\<rparr>
     in if fd = -1 then (CL_ERROR, client, w)
        else (CL_SUCCESS, client\<lparr>ch_side := CL_COMMCHNL_SIDE_CLIENT, ch_state := CL_INITIALIZED\<rparr>, w))"

text \<open>
  The number of bytes that are left is an \<^verbatim>\<open>int\<close>, which the calls take as a \<^verbatim>\<open>size_t\<close>.
\<close>

partial_function (option) chnl_send_loop ::
  "'w chnl_sys \<Rightarrow> int \<Rightarrow> bytes \<Rightarrow> u32 \<Rightarrow> u32 \<Rightarrow> int \<Rightarrow> 'w \<Rightarrow> (u32 \<times> int \<times> 'w) option" where
  "chnl_send_loop sys fd buffer buffer_size bytes_sent bytes_left w =
    (if bytes_sent < buffer_size
     then let (ret, w) = cs_send sys fd (take (unat (of_int bytes_left :: u64)) (drop (unat bytes_sent) buffer)) w
       in if ret \<le> 0 then Some (bytes_sent, bytes_left, w)
          else chnl_send_loop sys fd buffer buffer_size (bytes_sent + of_int ret) (bytes_left - ret) w
     else Some (bytes_sent, bytes_left, w))"

definition cl_commchnl_send ::
  "'w chnl_sys \<Rightarrow> cl_commchnl_t \<Rightarrow> bytes \<Rightarrow> u32 \<Rightarrow> 'w \<Rightarrow> (cl_status_t \<times> u32 \<times> 'w) option" where
  "cl_commchnl_send sys ch buffer buffer_size w =
    Option.bind (chnl_send_loop sys (ch_socket ch) buffer buffer_size 0 (sint buffer_size) w) (\<lambda>(bytes_sent, bytes_left, w).
      Some (if bytes_left \<noteq> 0 then CL_ERROR else CL_SUCCESS, bytes_sent, w))"

text \<open>The bytes that were written to the buffer are \<open>got\<close>; \<open>ret\<close> is the result of the last call.\<close>

partial_function (option) chnl_recv_loop ::
  "'w chnl_sys \<Rightarrow> int \<Rightarrow> bool \<Rightarrow> u32 \<Rightarrow> bytes option \<Rightarrow> bytes \<Rightarrow> u32 \<Rightarrow> int \<Rightarrow> 'w \<Rightarrow>
   (bytes option \<times> bytes \<times> u32 \<times> 'w) option" where
  "chnl_recv_loop sys fd recv_all buffer_size ret got bytes_recv bytes_left w =
    (if recv_all \<and> bytes_recv < buffer_size
     then let (ret, w) = cs_recv sys fd (unat (of_int bytes_left :: u64)) w
       in if ret = None \<or> ret = Some [] then Some (ret, got, bytes_recv, w)
          else chnl_recv_loop sys fd recv_all buffer_size ret (got @ the ret) (bytes_recv + of_nat (length (the ret)))
            (bytes_left - int (length (the ret))) w
     else Some (ret, got, bytes_recv, w))"

text \<open>The result is the status, the size that is reported and the bytes that were written.\<close>

definition cl_commchnl_recv ::
  "'w chnl_sys \<Rightarrow> cl_commchnl_t \<Rightarrow> bool \<Rightarrow> u32 \<Rightarrow> 'w \<Rightarrow> (cl_status_t \<times> u32 \<times> bytes \<times> 'w) option" where
  "cl_commchnl_recv sys ch recv_all buffer_size w =
    (let (ret, w) = cs_recv sys (ch_socket ch) (unat buffer_size) w
     in case ret of
          None \<Rightarrow> Some (CL_ERROR, -1, [], w)
        | Some [] \<Rightarrow> Some (CL_DISCONNECT, 0, [], w)
        | Some data \<Rightarrow>
            Option.bind
              (chnl_recv_loop sys (ch_socket ch) recv_all buffer_size ret data (of_nat (length data))
                 (sint buffer_size - int (length data)) w)
              (\<lambda>(ret, got, bytes_recv, w).
                Some (case ret of
                    None \<Rightarrow> (CL_ERROR, -1, got, w)
                  | Some [] \<Rightarrow> (CL_DISCONNECT, 0, got, w)
                  | Some _ \<Rightarrow> (CL_SUCCESS, bytes_recv, got, w))))"

definition cl_commchnl_get_fd :: "cl_commchnl_t \<Rightarrow> int" where
  "cl_commchnl_get_fd ch = (if ch_state ch = CL_INITIALIZED then ch_socket ch else 0)"

end
