(* ===== verification/Rpc.thy ===== *)
theory Rpc
  imports Commchnl Qmap
begin

text \<open>
  Remote procedure calls (\<^verbatim>\<open>sx_rpc_common.c\<close>): a server with a table of commands, up to twenty connections, a thread that
  receives commands into the buffers of the connections and puts these in queues by priority, and a worker thread that
  calls the functions of the commands and replies; and the client.

  Structures are laid out as on a little-endian machine. Everything that is done under a lock is done at once. A result
  \<open>None\<close> means that the code does not return or writes outside a buffer. There is one worker, the pool of workers has the
  size 1 and the arbitration always chooses it.
\<close>

section \<open>Data\<close>

definition SX_RPC_STATUS_SUCCESS :: int where "SX_RPC_STATUS_SUCCESS = 0"
definition SX_RPC_STATUS_ERROR :: int where "SX_RPC_STATUS_ERROR = 1"
definition SX_RPC_STATUS_NO_RESOURCES :: int where "SX_RPC_STATUS_NO_RESOURCES = 2"
definition SX_RPC_STATUS_CMD_INCOMPLETE :: int where "SX_RPC_STATUS_CMD_INCOMPLETE = 4"
definition SX_RPC_STATUS_PARAM_NULL :: int where "SX_RPC_STATUS_PARAM_NULL = 5"
definition SX_RPC_STATUS_INT_COMM_CLOSE :: int where "SX_RPC_STATUS_INT_COMM_CLOSE = 6"
definition SX_RPC_STATUS_INVALID_HANDLE :: int where "SX_RPC_STATUS_INVALID_HANDLE = 7"

definition SX_RPC_API_CMD_CLOSE_EVENT_SRC :: u32 where "SX_RPC_API_CMD_CLOSE_EVENT_SRC = 1"
definition SX_RPC_CORE_HIGH_PRIO_BUFFER_SIZE :: nat where "SX_RPC_CORE_HIGH_PRIO_BUFFER_SIZE = 20"
definition SX_RPC_CORE_MED_PRIO_BUFFER_SIZE :: nat where "SX_RPC_CORE_MED_PRIO_BUFFER_SIZE = 50"
definition SX_RPC_CORE_LOW_PRIO_BUFFER_SIZE :: nat where "SX_RPC_CORE_LOW_PRIO_BUFFER_SIZE = 20"

datatype sx_rpc_cmd_priority_t = SX_RPC_API_CMD_PRIO_LOW | SX_RPC_API_CMD_PRIO_MEDIUM | SX_RPC_API_CMD_PRIO_HIGH

datatype sx_rpc_event_src_state_t =
  SX_RPC_EVENT_SRC_STATE_NOT_ACTIVE | SX_RPC_EVENT_SRC_STATE_TERMINATING | SX_RPC_EVENT_SRC_STATE_ACTIVE

text \<open>
  The function of a command gets the bytes behind the header and their number, and returns a status, the body of the reply
  if there is one, and its size.
\<close>

record 'w sx_rpc_api_command_t =
  cmd_id :: int
  cmd_name :: string
  cmd_func :: "bytes \<Rightarrow> u32 \<Rightarrow> 'w \<Rightarrow> int \<times> bytes option \<times> u32 \<times> 'w"
  cmd_priority :: sx_rpc_cmd_priority_t

record sx_rpc_api_command_head_t =
  hd_opcode :: u32
  hd_version :: u32
  hd_msg_size :: u32
  hd_list_size :: u32
  hd_pid :: u32

record sx_rpc_api_reply_head_t =
  rh_retcode :: u32
  rh_version :: u32
  rh_msg_size :: u32
  rh_list_size :: u32

definition sizeof_command_head :: u32 where "sizeof_command_head = 20"
definition sizeof_reply_head :: u32 where "sizeof_reply_head = 16"

definition command_head_bytes :: "sx_rpc_api_command_head_t \<Rightarrow> bytes" where
  "command_head_bytes h = le_bytes32 (hd_opcode h) @ le_bytes32 (hd_version h) @ le_bytes32 (hd_msg_size h) @
     le_bytes32 (hd_list_size h) @ le_bytes32 (hd_pid h)"

definition reply_head_bytes :: "sx_rpc_api_reply_head_t \<Rightarrow> bytes" where
  "reply_head_bytes h = le_bytes32 (rh_retcode h) @ le_bytes32 (rh_version h) @ le_bytes32 (rh_msg_size h) @
     le_bytes32 (rh_list_size h)"

text \<open>The header at the start of a buffer.\<close>

definition command_head :: "bytes \<Rightarrow> sx_rpc_api_command_head_t" where
  "command_head b = \<lparr>hd_opcode = of_le_bytes32 b, hd_version = of_le_bytes32 (drop 4 b), hd_msg_size = of_le_bytes32 (drop 8 b),
     hd_list_size = of_le_bytes32 (drop 12 b), hd_pid = of_le_bytes32 (drop 16 b)\<rparr>"

definition reply_head :: "bytes \<Rightarrow> sx_rpc_api_reply_head_t" where
  "reply_head b = \<lparr>rh_retcode = of_le_bytes32 b, rh_version = of_le_bytes32 (drop 4 b), rh_msg_size = of_le_bytes32 (drop 8 b),
     rh_list_size = of_le_bytes32 (drop 12 b)\<rparr>"

datatype event_handler = NO_HANDLER | SX_RPC_CLIENT_HANDLER | SX_RPC_ACCEPT_CONNECTION

record sx_rpc_core_td_event_src_t =
  es_desc :: string
  es_state :: sx_rpc_event_src_state_t
  es_buffer :: bytes
  es_pos :: u32
  es_commchnl :: cl_commchnl_t
  es_handler :: event_handler
  es_sender_pid :: u32

text \<open>
  The queues hold pointers: to an event source, to one of the events of lower priority that are allocated at the start,
  or null.
\<close>

datatype src_ptr = NULL_SRC | HIGH_SRC nat | LOWER_SRC nat nat

record prio_buf_context =
  work_queue :: "src_ptr list"
  work_queue_cons :: u32
  work_queue_prod :: u32
  work_queue_size :: u32

record sx_rpc_core_td_worker_data_t =
  wk_active :: bool
  wk_prio_buf :: "prio_buf_context list"
  worker_exit_signal_issued :: bool

record 'w cmd_mem = "(u64, u64) map_mem" +
  cm_cmd :: "u64 \<Rightarrow> 'w sx_rpc_api_command_t"

record 'w rpc_state =
  rpc_high_prio_event_srcs :: "sx_rpc_core_td_event_src_t list"
  rpc_med_low_prio_event_buffer :: "sx_rpc_core_td_event_src_t list list"
  rpc_fds_in :: "int list"
  rpc_fds_err :: "int list"
  rpc_max_fd :: int
  rpc_td_worker :: sx_rpc_core_td_worker_data_t
  rpc_sx_core_versions :: bytes
  rpc_max_buffer_size :: u32
  main_exit_signal_issued :: bool
  cmd_map :: "u64 cl_qmap_t"
  cmd_mem :: "'w cmd_mem"

text \<open>
  The system: the calls of the channels, memory, the initialisation of locks, events and threads, and \<^verbatim>\<open>select\<close>. A block of
  bytes comes with what is in it. \<open>rs_stack\<close> is what a structure on the stack holds before it is filled.
\<close>

record 'w rpc_sys =
  rs_chnl :: "'w chnl_sys"
  rs_malloc :: "size_t \<Rightarrow> 'w \<Rightarrow> u64 \<times> 'w"
  rs_malloc_bytes :: "u32 \<Rightarrow> 'w \<Rightarrow> bytes option \<times> 'w"
  rs_free :: "u64 \<Rightarrow> 'w \<Rightarrow> 'w"
  rs_plock_init :: "'w \<Rightarrow> cl_status_t \<times> 'w"
  rs_event_init :: "'w \<Rightarrow> cl_status_t \<times> 'w"
  rs_event_signal :: "'w \<Rightarrow> 'w"
  rs_spinlock_init :: "'w \<Rightarrow> cl_status_t \<times> 'w"
  rs_spinlock_destroy :: "'w \<Rightarrow> 'w"
  rs_thread_init :: "'w \<Rightarrow> cl_status_t \<times> 'w"
  rs_select :: "int \<Rightarrow> int list \<Rightarrow> int list \<Rightarrow> 'w \<Rightarrow> (int \<times> int list \<times> int list) \<times> 'w"
  rs_stack :: cl_commchnl_t

definition sx_rpc_change_main_exit_signal_state :: "bool \<Rightarrow> 'w rpc_state \<Rightarrow> 'w rpc_state" where
  "sx_rpc_change_main_exit_signal_state b s = s\<lparr>main_exit_signal_issued := b\<rparr>"

section \<open>The table of commands\<close>

definition sizeof_mapped_command :: size_t where "sizeof_mapped_command = 176"

definition sx_rpc_core_api_command_set ::
  "'w rpc_sys \<Rightarrow> 'w sx_rpc_api_command_t \<Rightarrow> 'w rpc_state \<Rightarrow> 'w \<Rightarrow> (int \<times> 'w rpc_state \<times> 'w) option" where
  "sx_rpc_core_api_command_set sys cmd_data s w =
    (let q = cmd_map s; m = cmd_mem s; key = of_int (cmd_id cmd_data)
     in Option.bind (cl_qmap_get q key m) (\<lambda>map_item.
          if map_item = cl_qmap_end q
          then let (entry, w) = rs_malloc sys sizeof_mapped_command w
            in if entry = 0 then Some (SX_RPC_STATUS_SUCCESS, s, w)
               else Option.bind (cl_qmap_insert q key entry (m\<lparr>cm_cmd := (cm_cmd m)(entry := cmd_data)\<rparr>)) (\<lambda>(_, q, m).
                 Some (SX_RPC_STATUS_SUCCESS, s\<lparr>cmd_map := q, cmd_mem := m\<rparr>, w))
          else Some (SX_RPC_STATUS_SUCCESS, s\<lparr>cmd_mem := m\<lparr>cm_cmd := (cm_cmd m)(map_item := cmd_data)\<rparr>\<rparr>, w)))"

fun sx_rpc_cmd_table_init ::
  "'w rpc_sys \<Rightarrow> 'w sx_rpc_api_command_t list \<Rightarrow> 'w rpc_state \<Rightarrow> 'w \<Rightarrow> (int \<times> 'w rpc_state \<times> 'w) option" where
  "sx_rpc_cmd_table_init sys [] s w = Some (SX_RPC_STATUS_SUCCESS, s, w)"
| "sx_rpc_cmd_table_init sys (c # cs) s w =
    Option.bind (sx_rpc_core_api_command_set sys c s w) (\<lambda>(err, s, w).
      if err \<noteq> 0 then Some (SX_RPC_STATUS_ERROR, s, w) else sx_rpc_cmd_table_init sys cs s w)"

partial_function (option) cmd_deinit_loop ::
  "'w rpc_sys \<Rightarrow> u64 \<Rightarrow> 'w rpc_state \<Rightarrow> 'w \<Rightarrow> ('w rpc_state \<times> 'w) option" where
  "cmd_deinit_loop sys map_item s w =
    (if map_item = cl_qmap_end (cmd_map s) then Some (s, w)
     else
       let next_map_item = cl_qmap_next map_item (cmd_mem s)
       in Option.bind (cl_qmap_remove_item (cmd_map s) map_item (cmd_mem s)) (\<lambda>(q, m).
            cmd_deinit_loop sys next_map_item (s\<lparr>cmd_map := q, cmd_mem := m\<rparr>) (rs_free sys map_item w)))"

definition sx_rpc_cmd_table_deinit :: "'w rpc_sys \<Rightarrow> 'w rpc_state \<Rightarrow> 'w \<Rightarrow> (int \<times> 'w rpc_state \<times> 'w) option" where
  "sx_rpc_cmd_table_deinit sys s w =
    map_option (\<lambda>(s, w). (SX_RPC_STATUS_SUCCESS, s, w)) (cmd_deinit_loop sys (cl_qmap_head (cmd_map s) (cmd_mem s)) s w)"

definition sx_rpc_api_rpc_command_db_init ::
  "'w rpc_sys \<Rightarrow> 'w sx_rpc_api_command_t list \<Rightarrow> 'w rpc_state \<Rightarrow> 'w \<Rightarrow> (int \<times> 'w rpc_state \<times> 'w) option" where
  "sx_rpc_api_rpc_command_db_init sys table s w =
    (let (q, m) = cl_qmap_init 0 (cmd_map s) (cmd_mem s);
         s = s\<lparr>cmd_map := q, cmd_mem := m\<rparr>;
         (cl_err, w) = rs_plock_init sys w
     in if cl_err \<noteq> CL_SUCCESS then Some (SX_RPC_STATUS_ERROR, s, w) else sx_rpc_cmd_table_init sys table s w)"

definition sx_rpc_api_rpc_command_db_deinit :: "'w rpc_sys \<Rightarrow> 'w rpc_state \<Rightarrow> 'w \<Rightarrow> (int \<times> 'w rpc_state \<times> 'w) option" where
  "sx_rpc_api_rpc_command_db_deinit sys s w = sx_rpc_cmd_table_deinit sys s w"

text \<open>The identifier is an \<^verbatim>\<open>int\<close> made from the unsigned operation code, and extended with its sign to the key.\<close>

definition sx_rpc_core_api_command_get :: "u32 \<Rightarrow> 'w rpc_state \<Rightarrow> (int \<times> 'w sx_rpc_api_command_t option) option" where
  "sx_rpc_core_api_command_get opcode s =
    Option.bind (cl_qmap_get (cmd_map s) (scast opcode) (cmd_mem s)) (\<lambda>p.
      Some (if p = cl_qmap_end (cmd_map s) then (SX_RPC_STATUS_ERROR, None)
            else (SX_RPC_STATUS_SUCCESS, Some (cm_cmd (cmd_mem s) p))))"

section \<open>Messages\<close>

definition rpc_send_message ::
  "'w chnl_sys \<Rightarrow> cl_commchnl_t \<Rightarrow> bytes \<Rightarrow> u32 \<Rightarrow> bytes option \<Rightarrow> u32 \<Rightarrow> 'w \<Rightarrow> (int \<times> 'w) option" where
  "rpc_send_message sys ch header header_size body body_size w =
    Option.bind (cl_commchnl_send sys ch header header_size w) (\<lambda>(cl_err, _, w).
      if cl_err \<noteq> CL_SUCCESS then Some (SX_RPC_STATUS_ERROR, w)
      else case body of
          None \<Rightarrow> Some (SX_RPC_STATUS_SUCCESS, w)
        | Some b \<Rightarrow> Option.bind (cl_commchnl_send sys ch b body_size w) (\<lambda>(cl_err, _, w).
            Some (if cl_err \<noteq> CL_SUCCESS then SX_RPC_STATUS_ERROR else SX_RPC_STATUS_SUCCESS, w)))"

definition sx_rpc_api_send_reply ::
  "'w chnl_sys \<Rightarrow> cl_commchnl_t \<Rightarrow> sx_rpc_api_reply_head_t \<Rightarrow> bytes option \<Rightarrow> 'w \<Rightarrow> (int \<times> 'w) option" where
  "sx_rpc_api_send_reply sys ch head body w =
    rpc_send_message sys ch (reply_head_bytes head) sizeof_reply_head body (rh_msg_size head - sizeof_reply_head) w"

definition sx_rpc_api_send_reply_wrapper ::
  "'w chnl_sys \<Rightarrow> cl_commchnl_t \<Rightarrow> int \<Rightarrow> bytes option \<Rightarrow> u32 \<Rightarrow> 'w \<Rightarrow> (int \<times> 'w) option" where
  "sx_rpc_api_send_reply_wrapper sys ch retcode body body_size w =
    sx_rpc_api_send_reply sys ch
      \<lparr>rh_retcode = of_int retcode, rh_version = 0, rh_msg_size = sizeof_reply_head + body_size, rh_list_size = 0\<rparr> body w"

text \<open>Writing into a buffer; \<open>None\<close> when the bytes go beyond its end.\<close>

definition write_buffer :: "bytes \<Rightarrow> nat \<Rightarrow> bytes \<Rightarrow> bytes option" where
  "write_buffer buffer n data =
    (if n + length data \<le> length buffer then Some (take n buffer @ data @ drop (n + length data) buffer) else None)"

text \<open>One turn of the loop of \<^verbatim>\<open>sx_rpc_api_receive_command\<close>: the bytes up to \<open>msg_size\<close> that are still missing.\<close>

definition receive_part ::
  "'w chnl_sys \<Rightarrow> cl_commchnl_t \<Rightarrow> u32 \<Rightarrow> bytes \<Rightarrow> u32 \<Rightarrow> 'w \<Rightarrow> (int \<times> bytes \<times> u32 \<times> 'w) option" where
  "receive_part sys ch msg_size buffer pos w =
    (if pos < msg_size
     then Option.bind (cl_commchnl_recv sys ch False (msg_size - pos) w) (\<lambda>(cl_err, buffer_size, data, w).
       Option.bind (write_buffer buffer (unat pos) data) (\<lambda>buffer.
         if cl_err \<noteq> CL_SUCCESS then Some (SX_RPC_STATUS_ERROR, buffer, pos, w)
         else
           let pos = pos + buffer_size
           in Some (if pos < msg_size then SX_RPC_STATUS_CMD_INCOMPLETE else SX_RPC_STATUS_SUCCESS, buffer, pos, w)))
     else Some (SX_RPC_STATUS_SUCCESS, buffer, pos, w))"

definition sx_rpc_api_receive_command ::
  "'w chnl_sys \<Rightarrow> cl_commchnl_t \<Rightarrow> bytes \<Rightarrow> u32 \<Rightarrow> 'w \<Rightarrow> (int \<times> bytes \<times> u32 \<times> 'w) option" where
  "sx_rpc_api_receive_command sys ch buffer pos w =
    Option.bind (receive_part sys ch sizeof_command_head buffer pos w) (\<lambda>(err, buffer, pos, w).
      if err \<noteq> SX_RPC_STATUS_SUCCESS then Some (err, buffer, pos, w)
      else Option.bind (receive_part sys ch (hd_msg_size (command_head buffer)) buffer pos w) (\<lambda>(err, buffer, pos, w).
        if err \<noteq> SX_RPC_STATUS_SUCCESS then Some (err, buffer, pos, w) else Some (err, buffer, 0, w)))"

section \<open>Event sources\<close>

definition get_src :: "src_ptr \<Rightarrow> 'w rpc_state \<Rightarrow> sx_rpc_core_td_event_src_t option" where
  "get_src p s = (case p of
     NULL_SRC \<Rightarrow> None
   | HIGH_SRC i \<Rightarrow> if i < length (rpc_high_prio_event_srcs s) then Some (rpc_high_prio_event_srcs s ! i) else None
   | LOWER_SRC b j \<Rightarrow>
       if b < length (rpc_med_low_prio_event_buffer s) \<and> j < length (rpc_med_low_prio_event_buffer s ! b)
       then Some (rpc_med_low_prio_event_buffer s ! b ! j) else None)"

definition put_src :: "src_ptr \<Rightarrow> sx_rpc_core_td_event_src_t \<Rightarrow> 'w rpc_state \<Rightarrow> 'w rpc_state" where
  "put_src p e s = (case p of
     NULL_SRC \<Rightarrow> s
   | HIGH_SRC i \<Rightarrow> s\<lparr>rpc_high_prio_event_srcs := (rpc_high_prio_event_srcs s)[i := e]\<rparr>
   | LOWER_SRC b j \<Rightarrow> s\<lparr>rpc_med_low_prio_event_buffer :=
       (rpc_med_low_prio_event_buffer s)[b := (rpc_med_low_prio_event_buffer s ! b)[j := e]]\<rparr>)"

definition sx_rpc_update_fd_sets :: "'w rpc_state \<Rightarrow> 'w rpc_state" where
  "sx_rpc_update_fd_sets s =
    (let fds = map (\<lambda>e. cl_commchnl_get_fd (es_commchnl e))
           (filter (\<lambda>e. es_state e = SX_RPC_EVENT_SRC_STATE_ACTIVE) (rpc_high_prio_event_srcs s))
     in s\<lparr>rpc_fds_in := fds, rpc_fds_err := fds, rpc_max_fd := foldl max 0 fds\<rparr>)"

definition sx_rpc_init_event_src ::
  "sx_rpc_core_td_event_src_t \<Rightarrow> cl_commchnl_t \<Rightarrow> string \<Rightarrow> event_handler \<Rightarrow> sx_rpc_core_td_event_src_t" where
  "sx_rpc_init_event_src event ch desc handler =
    event\<lparr>es_pos := 0, es_desc := desc, es_commchnl := ch, es_handler := handler, es_state := SX_RPC_EVENT_SRC_STATE_ACTIVE\<rparr>"

fun free_src :: "sx_rpc_core_td_event_src_t list \<Rightarrow> nat option" where
  "free_src [] = None"
| "free_src (e # es) = (if es_state e = SX_RPC_EVENT_SRC_STATE_NOT_ACTIVE then Some 0 else map_option Suc (free_src es))"

definition sx_rpc_add_event_src :: "cl_commchnl_t \<Rightarrow> string \<Rightarrow> event_handler \<Rightarrow> 'w rpc_state \<Rightarrow> int \<times> 'w rpc_state" where
  "sx_rpc_add_event_src ch desc handler s = (case free_src (rpc_high_prio_event_srcs s) of
     Some i \<Rightarrow> (SX_RPC_STATUS_SUCCESS, sx_rpc_update_fd_sets
       (put_src (HIGH_SRC i) (sx_rpc_init_event_src (rpc_high_prio_event_srcs s ! i) ch desc handler) s))
   | None \<Rightarrow> (1, s))"

definition close_event_src :: "'w rpc_sys \<Rightarrow> src_ptr \<Rightarrow> 'w rpc_state \<Rightarrow> 'w \<Rightarrow> ('w rpc_state \<times> 'w) option" where
  "close_event_src sys p s w =
    Option.bind (get_src p s) (\<lambda>event.
      if es_state event \<noteq> SX_RPC_EVENT_SRC_STATE_NOT_ACTIVE
      then let (ch, w) = cl_commchnl_destroy (rs_chnl sys) (es_commchnl event) w
        in Some (sx_rpc_update_fd_sets
             (put_src p (event\<lparr>es_commchnl := ch, es_state := SX_RPC_EVENT_SRC_STATE_NOT_ACTIVE\<rparr>) s), w)
      else Some (s, w))"

section \<open>The worker thread\<close>

definition sx_rpc_core_api_dispatch ::
  "'w rpc_sys \<Rightarrow> src_ptr \<Rightarrow> nat \<Rightarrow> 'w rpc_state \<Rightarrow> 'w \<Rightarrow> (int \<times> 'w rpc_state \<times> 'w) option" where
  "sx_rpc_core_api_dispatch sys p buffer_type s w =
    Option.bind (get_src p s) (\<lambda>event.
      let head = command_head (es_buffer event);
          s = put_src p (event\<lparr>es_sender_pid := hd_pid head\<rparr>) s;
          reply = (\<lambda>retcode body size w. map_option (\<lambda>(err, w). (err, s, w))
            (sx_rpc_api_send_reply_wrapper (rs_chnl sys) (es_commchnl event) retcode body size w))
      in if buffer_type = 2 \<and> hd_opcode head = SX_RPC_API_CMD_CLOSE_EVENT_SRC
         then Some (SX_RPC_STATUS_INT_COMM_CLOSE, s, w)
         else Option.bind (sx_rpc_core_api_command_get (hd_opcode head) s) (\<lambda>(err, cmd_data).
           case cmd_data of
             None \<Rightarrow> reply err None 0 w
           | Some c \<Rightarrow>
               let (err, body, size, w) = cmd_func c (drop (unat sizeof_command_head) (es_buffer event))
                     (hd_msg_size head - sizeof_command_head) w
               in if err = SX_RPC_STATUS_SUCCESS then reply err body size w else reply err None 0 w))"

definition set_prio_buf :: "nat \<Rightarrow> prio_buf_context \<Rightarrow> 'w rpc_state \<Rightarrow> 'w rpc_state" where
  "set_prio_buf i b s = s\<lparr>rpc_td_worker := (rpc_td_worker s)\<lparr>wk_prio_buf := (wk_prio_buf (rpc_td_worker s))[i := b]\<rparr>\<rparr>"

text \<open>The loop over the priorities from the highest down to 0; the result says whether nothing was queued.\<close>

fun worker_serve :: "'w rpc_sys \<Rightarrow> nat \<Rightarrow> 'w rpc_state \<Rightarrow> 'w \<Rightarrow> (bool \<times> 'w rpc_state \<times> 'w) option" where
  "worker_serve sys 0 s w = Some (True, s, w)"
| "worker_serve sys (Suc i) s w =
    (let b = wk_prio_buf (rpc_td_worker s) ! i
     in if work_queue_cons b \<noteq> work_queue_prod b
        then
          let event = work_queue b ! unat (work_queue_cons b)
          in Option.bind (sx_rpc_core_api_dispatch sys event i s w) (\<lambda>(err, s, w).
               Option.bind (if err = SX_RPC_STATUS_SUCCESS then Some (s, w) else close_event_src sys event s w) (\<lambda>(s, w).
                 let b = wk_prio_buf (rpc_td_worker s) ! i
                 in Some (False, set_prio_buf i (b\<lparr>work_queue_cons := (work_queue_cons b + 1) mod work_queue_size b\<rparr>) s, w)))
        else worker_serve sys i s w)"

text \<open>Where the thread is: in its first wait, at the start of a turn, in the wait at the end of a turn, or gone.\<close>

datatype worker_pc = WORKER_FIRST_WAIT | WORKER_TURN | WORKER_WAIT | WORKER_GONE

definition sx_rpc_worker_thread ::
  "'w rpc_sys \<Rightarrow> cl_status_t \<Rightarrow> worker_pc \<Rightarrow> 'w rpc_state \<Rightarrow> 'w \<Rightarrow> (worker_pc \<times> 'w rpc_state \<times> 'w) option" where
  "sx_rpc_worker_thread sys cl_err pc s w = (case pc of
     WORKER_FIRST_WAIT \<Rightarrow> Some (if cl_err \<noteq> CL_SUCCESS then WORKER_GONE else WORKER_TURN, s, w)
   | WORKER_TURN \<Rightarrow>
       if worker_exit_signal_issued (rpc_td_worker s) then Some (WORKER_GONE, s, w)
       else map_option (\<lambda>(need_to_wait, s, w). (if need_to_wait then WORKER_WAIT else WORKER_TURN, s, w)) (worker_serve sys 3 s w)
   | WORKER_WAIT \<Rightarrow>
       Some (if cl_err \<noteq> CL_SUCCESS \<or> worker_exit_signal_issued (rpc_td_worker s) then WORKER_GONE else WORKER_TURN, s, w)
   | WORKER_GONE \<Rightarrow> Some (WORKER_GONE, s, w))"

section \<open>The thread that receives\<close>

definition prio_index :: "sx_rpc_cmd_priority_t \<Rightarrow> nat" where
  "prio_index p = (case p of SX_RPC_API_CMD_PRIO_LOW \<Rightarrow> 0 | SX_RPC_API_CMD_PRIO_MEDIUM \<Rightarrow> 1 | SX_RPC_API_CMD_PRIO_HIGH \<Rightarrow> 2)"

text \<open>Putting a source in the queue of a priority, and waking the worker.\<close>

definition queue_event :: "'w rpc_sys \<Rightarrow> nat \<Rightarrow> nat \<Rightarrow> 'w rpc_state \<Rightarrow> 'w \<Rightarrow> 'w rpc_state \<times> 'w" where
  "queue_event sys prio idx s w =
    (let b = wk_prio_buf (rpc_td_worker s) ! prio
     in (set_prio_buf prio (b\<lparr>work_queue := (work_queue b)[unat (work_queue_prod b) := HIGH_SRC idx],
           work_queue_prod := (work_queue_prod b + 1) mod work_queue_size b\<rparr>) s, rs_event_signal sys w))"

definition sx_rpc_client_handler :: "'w rpc_sys \<Rightarrow> nat \<Rightarrow> 'w rpc_state \<Rightarrow> 'w \<Rightarrow> ('w rpc_state \<times> 'w) option" where
  "sx_rpc_client_handler sys idx s w =
    Option.bind (get_src (HIGH_SRC idx) s) (\<lambda>event.
    Option.bind (sx_rpc_api_receive_command (rs_chnl sys) (es_commchnl event) (es_buffer event) (es_pos event) w)
      (\<lambda>(err, buffer, pos, w).
      let event = event\<lparr>es_buffer := buffer, es_pos := pos\<rparr>
      in if err = SX_RPC_STATUS_CMD_INCOMPLETE then Some (put_src (HIGH_SRC idx) event s, w)
         else Option.bind
           (if err = SX_RPC_STATUS_SUCCESS then Some (put_src (HIGH_SRC idx) event s)
            else
              let h = (command_head buffer)\<lparr>hd_opcode := SX_RPC_API_CMD_CLOSE_EVENT_SRC, hd_msg_size := sizeof_command_head,
                    hd_list_size := 0\<rparr>
              in map_option (\<lambda>buffer. sx_rpc_update_fd_sets (put_src (HIGH_SRC idx)
                   (event\<lparr>es_state := SX_RPC_EVENT_SRC_STATE_TERMINATING, es_buffer := buffer\<rparr>) s))
                   (write_buffer buffer 0 (command_head_bytes h)))
           (\<lambda>s. Option.bind (get_src (HIGH_SRC idx) s) (\<lambda>event.
             let head = command_head (es_buffer event)
             in if hd_opcode head = SX_RPC_API_CMD_CLOSE_EVENT_SRC
                then Some (queue_event sys (prio_index SX_RPC_API_CMD_PRIO_HIGH) idx s w)
                else Option.bind (sx_rpc_core_api_command_get (hd_opcode head) s) (\<lambda>(err, cmd_data).
                  case cmd_data of
                    None \<Rightarrow> map_option (\<lambda>(_, w). (s, w))
                      (sx_rpc_api_send_reply_wrapper (rs_chnl sys) (es_commchnl event) 1 None 0 w)
                  | Some c \<Rightarrow> Some (queue_event sys (prio_index (cmd_priority c)) idx s w))))))"

definition sx_rpc_accept_connection :: "'w rpc_sys \<Rightarrow> nat \<Rightarrow> 'w rpc_state \<Rightarrow> 'w \<Rightarrow> ('w rpc_state \<times> 'w) option" where
  "sx_rpc_accept_connection sys idx s w =
    Option.bind (get_src (HIGH_SRC idx) s) (\<lambda>event.
      let (cl_err, client, w) = cl_commchnl_accept (rs_chnl sys) (es_commchnl event) (rs_stack sys) w
      in if cl_err \<noteq> CL_SUCCESS then Some (s, w)
         else
           let (err, s) = sx_rpc_add_event_src client ''RPC client'' SX_RPC_CLIENT_HANDLER s
           in if err \<noteq> SX_RPC_STATUS_SUCCESS then Some (s, snd (cl_commchnl_destroy (rs_chnl sys) client w))
              else Option.bind (cl_commchnl_send (rs_chnl sys) client (rpc_sx_core_versions s) 60 w) (\<lambda>(cl_err, _, w).
                Some (s, if cl_err \<noteq> CL_SUCCESS then snd (cl_commchnl_destroy (rs_chnl sys) client w) else w)))"

definition event_src_handler :: "'w rpc_sys \<Rightarrow> nat \<Rightarrow> 'w rpc_state \<Rightarrow> 'w \<Rightarrow> ('w rpc_state \<times> 'w) option" where
  "event_src_handler sys i s w = Option.bind (get_src (HIGH_SRC i) s) (\<lambda>event. case es_handler event of
     NO_HANDLER \<Rightarrow> None
   | SX_RPC_CLIENT_HANDLER \<Rightarrow> sx_rpc_client_handler sys i s w
   | SX_RPC_ACCEPT_CONNECTION \<Rightarrow> sx_rpc_accept_connection sys i s w)"

text \<open>The loop over the sources, from index \<open>i\<close> on, \<open>n\<close> of them.\<close>

fun select_srcs :: "'w rpc_sys \<Rightarrow> int list \<Rightarrow> int list \<Rightarrow> nat \<Rightarrow> nat \<Rightarrow> 'w rpc_state \<Rightarrow> 'w \<Rightarrow> ('w rpc_state \<times> 'w) option" where
  "select_srcs sys fds_in fds_err i 0 s w = Some (s, w)"
| "select_srcs sys fds_in fds_err i (Suc n) s w =
    Option.bind (get_src (HIGH_SRC i) s) (\<lambda>event.
      let fd = cl_commchnl_get_fd (es_commchnl event)
      in Option.bind
           (if es_state event \<noteq> SX_RPC_EVENT_SRC_STATE_ACTIVE \<or> fd \<in> set fds_err \<or> fd \<notin> set fds_in then Some (s, w)
            else event_src_handler sys i s w)
           (\<lambda>(s, w). select_srcs sys fds_in fds_err (Suc i) n s w))"

definition sx_rpc_select_event :: "'w rpc_sys \<Rightarrow> 'w rpc_state \<Rightarrow> 'w \<Rightarrow> ('w rpc_state \<times> 'w) option" where
  "sx_rpc_select_event sys s w =
    (let ((ret, fds_in, fds_err), w) = rs_select sys (rpc_max_fd s + 1) (rpc_fds_in s) (rpc_fds_err s) w
     in if main_exit_signal_issued s then None
        else if ret > 0 then select_srcs sys fds_in fds_err 0 SX_RPC_CORE_HIGH_PRIO_BUFFER_SIZE s w
        else Some (s, w))"

partial_function (option) sx_rpc_core_td_start_loop :: "'w rpc_sys \<Rightarrow> 'w rpc_state \<Rightarrow> 'w \<Rightarrow> ('w rpc_state \<times> 'w) option" where
  "sx_rpc_core_td_start_loop sys s w =
    Option.bind (sx_rpc_select_event sys s w) (\<lambda>(s, w). sx_rpc_core_td_start_loop sys s w)"

section \<open>The start of the server\<close>

text \<open>What \<^verbatim>\<open>memset\<close> with 0 leaves. The state 0 of a channel is not a value of its type, but not the initialised one.\<close>

definition zero_event_src :: sx_rpc_core_td_event_src_t where
  "zero_event_src = \<lparr>es_desc = [], es_state = SX_RPC_EVENT_SRC_STATE_NOT_ACTIVE, es_buffer = [], es_pos = 0,
     es_commchnl = \<lparr>ch_socket = 0, ch_side = CL_COMMCHNL_SIDE_CLIENT, ch_state = CL_UNINITIALIZED, ch_pid = 0\<rparr>,
     es_handler = NO_HANDLER, es_sender_pid = 0\<rparr>"

definition zero_prio_buf :: prio_buf_context where
  "zero_prio_buf = \<lparr>work_queue = [], work_queue_cons = 0, work_queue_prod = 0, work_queue_size = 0\<rparr>"

fun allocate_buffers ::
  "'w rpc_sys \<Rightarrow> u32 \<Rightarrow> nat \<Rightarrow> nat \<Rightarrow> 'w rpc_state \<Rightarrow> 'w \<Rightarrow> int \<times> 'w rpc_state \<times> 'w" where
  "allocate_buffers sys len i 0 s w = (SX_RPC_STATUS_SUCCESS, s, w)"
| "allocate_buffers sys len i (Suc n) s w =
    (let (block, w) = rs_malloc_bytes sys len w
     in case block of
          None \<Rightarrow> (SX_RPC_STATUS_ERROR, put_src (HIGH_SRC i) ((rpc_high_prio_event_srcs s ! i)\<lparr>es_buffer := []\<rparr>) s, w)
        | Some b \<Rightarrow> allocate_buffers sys len (Suc i) n (put_src (HIGH_SRC i) ((rpc_high_prio_event_srcs s ! i)\<lparr>es_buffer := b\<rparr>) s) w)"

definition sx_rpc_static_allocate_event_src :: "'w rpc_sys \<Rightarrow> u32 \<Rightarrow> 'w rpc_state \<Rightarrow> 'w \<Rightarrow> int \<times> 'w rpc_state \<times> 'w" where
  "sx_rpc_static_allocate_event_src sys max_message_size s w =
    allocate_buffers sys max_message_size 0 SX_RPC_CORE_HIGH_PRIO_BUFFER_SIZE s (snd (rs_spinlock_init sys w))"

fun open_queues :: "'w rpc_sys \<Rightarrow> nat \<Rightarrow> nat \<Rightarrow> 'w rpc_state \<Rightarrow> 'w \<Rightarrow> int \<times> 'w rpc_state \<times> 'w" where
  "open_queues sys i 0 s w = (SX_RPC_STATUS_SUCCESS, s, w)"
| "open_queues sys i (Suc n) s w =
    (let b = wk_prio_buf (rpc_td_worker s) ! i;
         (block, w) = rs_malloc sys (8 * ucast (work_queue_size b)) w
     in if block = 0 then (SX_RPC_STATUS_NO_RESOURCES, set_prio_buf i (b\<lparr>work_queue := []\<rparr>) s, w)
        else
          let b = b\<lparr>work_queue := replicate (unat (work_queue_size b)) NULL_SRC, work_queue_cons := 0, work_queue_prod := 0\<rparr>;
              w = snd (rs_spinlock_init sys (snd (rs_spinlock_init sys w)))
          in open_queues sys (Suc i) n (set_prio_buf i b s) w)"

definition sizeof_low_prio_event :: size_t where "sizeof_low_prio_event = 216"

text \<open>The events of lower priority; \<open>blank\<close> is what is in the block that is allocated for them.\<close>

fun open_lower :: "'w rpc_sys \<Rightarrow> sx_rpc_core_td_event_src_t \<Rightarrow> nat \<Rightarrow> nat \<Rightarrow> 'w rpc_state \<Rightarrow> 'w \<Rightarrow> int \<times> 'w rpc_state \<times> 'w" where
  "open_lower sys blank i 0 s w = (SX_RPC_STATUS_SUCCESS, s, w)"
| "open_lower sys blank i (Suc n) s w =
    (let b = wk_prio_buf (rpc_td_worker s) ! i;
         (block, w) = rs_malloc sys (sizeof_low_prio_event * ucast (work_queue_size b)) w
     in if block = 0 then (SX_RPC_STATUS_ERROR, s\<lparr>rpc_med_low_prio_event_buffer := (rpc_med_low_prio_event_buffer s)[i := []]\<rparr>, w)
        else
          let n_events = unat (work_queue_size b);
              s = s\<lparr>rpc_med_low_prio_event_buffer := (rpc_med_low_prio_event_buffer s)[i := replicate n_events blank]\<rparr>
          in open_lower sys blank (Suc i) n (set_prio_buf i (b\<lparr>work_queue := map (LOWER_SRC i) [0..<n_events]\<rparr>) s) w)"

definition sx_rpc_open_sx_worker_td ::
  "'w rpc_sys \<Rightarrow> sx_rpc_core_td_event_src_t \<Rightarrow> 'w rpc_state \<Rightarrow> 'w \<Rightarrow> int \<times> 'w rpc_state \<times> 'w" where
  "sx_rpc_open_sx_worker_td sys blank s w =
    (let s = s\<lparr>rpc_td_worker := (rpc_td_worker s)\<lparr>worker_exit_signal_issued := False\<rparr>\<rparr>;
         (cl_err, w) = rs_event_init sys w
     in if cl_err \<noteq> CL_SUCCESS then (SX_RPC_STATUS_ERROR, s, w)
        else
          let bufs = wk_prio_buf (rpc_td_worker s);
              s = set_prio_buf 2 ((bufs ! 2)\<lparr>work_queue_size := of_nat SX_RPC_CORE_HIGH_PRIO_BUFFER_SIZE\<rparr>) s;
              s = set_prio_buf 1 ((bufs ! 1)\<lparr>work_queue_size := of_nat SX_RPC_CORE_MED_PRIO_BUFFER_SIZE\<rparr>) s;
              s = set_prio_buf 0 ((bufs ! 0)\<lparr>work_queue_size := of_nat SX_RPC_CORE_LOW_PRIO_BUFFER_SIZE\<rparr>) s;
              (err, s, w) = open_queues sys 0 3 s w
          in if err \<noteq> SX_RPC_STATUS_SUCCESS then (err, s, w)
             else
               let (cl_err, w) = rs_thread_init sys w
               in if cl_err \<noteq> CL_SUCCESS then (SX_RPC_STATUS_ERROR, s, w)
                  else open_lower sys blank 0 2 (s\<lparr>rpc_td_worker := (rpc_td_worker s)\<lparr>wk_active := True\<rparr>\<rparr>) w)"

definition sx_rpc_open_sx_api_commchnl :: "'w rpc_sys \<Rightarrow> string \<Rightarrow> 'w rpc_state \<Rightarrow> 'w \<Rightarrow> int \<times> 'w rpc_state \<times> 'w" where
  "sx_rpc_open_sx_api_commchnl sys name s w =
    (let (cl_err, ch, w) = cl_commchnl_init (rs_chnl sys) (rs_stack sys) name CL_COMMCHNL_SIDE_SERVER w
     in if cl_err \<noteq> CL_SUCCESS then (SX_RPC_STATUS_ERROR, s, w)
        else
          let (err, s) = sx_rpc_add_event_src ch ''RPC server'' SX_RPC_ACCEPT_CONNECTION s
          in (err, s, if err \<noteq> 0 then snd (cl_commchnl_destroy (rs_chnl sys) ch w) else w))"

definition sx_rpc_core_td_init ::
  "'w rpc_sys \<Rightarrow> sx_rpc_core_td_event_src_t \<Rightarrow> string \<Rightarrow> u32 \<Rightarrow> 'w rpc_state \<Rightarrow> 'w \<Rightarrow> int \<times> 'w rpc_state \<times> 'w" where
  "sx_rpc_core_td_init sys blank name max_message_size s w =
    (let s = s\<lparr>rpc_td_worker := \<lparr>wk_active = False, wk_prio_buf = replicate 3 zero_prio_buf, worker_exit_signal_issued = False\<rparr>,
           rpc_high_prio_event_srcs := replicate SX_RPC_CORE_HIGH_PRIO_BUFFER_SIZE zero_event_src\<rparr>;
         (err, s, w) = sx_rpc_static_allocate_event_src sys max_message_size s w
     in if err \<noteq> SX_RPC_STATUS_SUCCESS then (err, s, w)
        else
          let (err, s, w) = sx_rpc_open_sx_worker_td sys blank (s\<lparr>rpc_max_buffer_size := max_message_size\<rparr>) w
          in if err \<noteq> SX_RPC_STATUS_SUCCESS then (err, s, w) else sx_rpc_open_sx_api_commchnl sys name s w)"

section \<open>The client\<close>

record sx_rpc_api_user_ctxt_t =
  ct_commchnl :: cl_commchnl_t
  ct_valid :: bool

text \<open>The contexts that are allocated, by address; a handle is the address of one, or 0.\<close>

type_synonym rpc_clients = "u64 \<rightharpoonup> sx_rpc_api_user_ctxt_t"

text \<open>The result is the status and the bytes written to the header and to the body of the reply.\<close>

definition sx_rpc_receive_message ::
  "'w chnl_sys \<Rightarrow> cl_commchnl_t \<Rightarrow> u32 \<Rightarrow> 'w \<Rightarrow> (int \<times> bytes \<times> bytes \<times> 'w) option" where
  "sx_rpc_receive_message sys ch reply_body_size w =
    Option.bind (cl_commchnl_recv sys ch True sizeof_reply_head w) (\<lambda>(cl_err, _, head, w).
      if cl_err \<noteq> CL_SUCCESS then Some (SX_RPC_STATUS_ERROR, head, [], w)
      else
        let buffer_size = rh_msg_size (reply_head head) - sizeof_reply_head
        in if buffer_size = 0 then Some (SX_RPC_STATUS_SUCCESS, head, [], w)
           else if buffer_size > reply_body_size then Some (SX_RPC_STATUS_ERROR, head, [], w)
           else Option.bind (cl_commchnl_recv sys ch True buffer_size w) (\<lambda>(cl_err, _, body, w).
             Some (if cl_err \<noteq> CL_SUCCESS then SX_RPC_STATUS_ERROR else SX_RPC_STATUS_SUCCESS, head, body, w)))"

definition sx_rpc_send_command_decoupled ::
  "'w chnl_sys \<Rightarrow> u64 \<Rightarrow> sx_rpc_api_command_head_t \<Rightarrow> bytes option \<Rightarrow> u32 \<Rightarrow> rpc_clients \<Rightarrow> 'w \<Rightarrow>
   (int \<times> bytes \<times> bytes \<times> rpc_clients \<times> 'w) option" where
  "sx_rpc_send_command_decoupled sys hdl cmd_head cmd_body reply_body_size cs w =
    (if hdl = 0 then Some (SX_RPC_STATUS_INVALID_HANDLE, [], [], cs, w)
     else Option.bind (cs hdl) (\<lambda>ctxt.
       if \<not> ct_valid ctxt then Some (SX_RPC_STATUS_INVALID_HANDLE, [], [], cs, w)
       else
         let cmd_head = cmd_head\<lparr>hd_pid := of_int (ch_pid (ct_commchnl ctxt))\<rparr>
         in Option.bind
              (rpc_send_message sys (ct_commchnl ctxt) (command_head_bytes cmd_head) sizeof_command_head cmd_body
                 (hd_msg_size cmd_head - sizeof_command_head) w)
              (\<lambda>(err, w).
                if err \<noteq> SX_RPC_STATUS_SUCCESS then Some (err, [], [], cs(hdl \<mapsto> ctxt\<lparr>ct_valid := False\<rparr>), w)
                else Option.bind (sx_rpc_receive_message sys (ct_commchnl ctxt) reply_body_size w) (\<lambda>(err, head, body, w).
                  if err \<noteq> 0 then Some (err, head, body, cs(hdl \<mapsto> ctxt\<lparr>ct_valid := False\<rparr>), w)
                  else Some (sint (rh_retcode (reply_head head)), head, body, cs, w)))))"

definition sizeof_user_ctxt :: size_t where "sizeof_user_ctxt = 72"

text \<open>The handle is the caller's; \<open>hdl\<close> is None for a null pointer.\<close>

definition sx_rpc_open ::
  "'w rpc_sys \<Rightarrow> u64 option \<Rightarrow> string \<Rightarrow> rpc_clients \<Rightarrow> 'w \<Rightarrow> (int \<times> u64 option \<times> rpc_clients \<times> 'w) option" where
  "sx_rpc_open sys hdl name cs w =
    (if hdl = None then Some (SX_RPC_STATUS_ERROR, None, cs, w)
     else
       let (ctxt, w) = rs_malloc sys sizeof_user_ctxt w
       in if ctxt = 0 then Some (SX_RPC_STATUS_ERROR, Some 0, cs, w)
          else
            let (cl_err, ch, w) = cl_commchnl_init (rs_chnl sys) (rs_stack sys) name CL_COMMCHNL_SIDE_CLIENT w
            in if cl_err \<noteq> CL_SUCCESS then Some (SX_RPC_STATUS_ERROR, Some 0, cs, rs_free sys ctxt w)
               else
                 let (cl_err, w) = rs_spinlock_init sys w
                 in if cl_err \<noteq> CL_SUCCESS
                    then Some (SX_RPC_STATUS_ERROR, Some 0, cs, rs_free sys ctxt (snd (cl_commchnl_destroy (rs_chnl sys) ch w)))
                    else Option.bind (cl_commchnl_recv (rs_chnl sys) ch True 60 w) (\<lambda>(cl_err, _, _, w).
                      if cl_err \<noteq> CL_SUCCESS
                      then Some (SX_RPC_STATUS_ERROR, Some 0, cs,
                        rs_free sys ctxt (snd (cl_commchnl_destroy (rs_chnl sys) ch (rs_spinlock_destroy sys w))))
                      else Some (SX_RPC_STATUS_SUCCESS, Some ctxt, cs(ctxt \<mapsto> \<lparr>ct_commchnl = ch, ct_valid = True\<rparr>), w)))"

definition sx_rpc_close ::
  "'w rpc_sys \<Rightarrow> u64 option \<Rightarrow> rpc_clients \<Rightarrow> 'w \<Rightarrow> (int \<times> u64 option \<times> rpc_clients \<times> 'w) option" where
  "sx_rpc_close sys hdl cs w = (case hdl of
     None \<Rightarrow> Some (SX_RPC_STATUS_PARAM_NULL, None, cs, w)
   | Some h \<Rightarrow>
       if h = 0 then Some (SX_RPC_STATUS_INVALID_HANDLE, Some h, cs, w)
       else Option.bind (cs h) (\<lambda>ctxt.
         let w = snd (cl_commchnl_destroy (rs_chnl sys) (ct_commchnl ctxt) (rs_spinlock_destroy sys w))
         in Some (SX_RPC_STATUS_SUCCESS, Some 0, cs(h := None), rs_free sys h w)))"

end
