(* ===== verification/Rpc_Inv.thy ===== *)
theory Rpc_Inv
  imports Rpc Commu_Link
begin

text \<open>
  Messages over channels: what is sent arrives, a command is put together from the pieces in which it comes, and a reply is
  read as it was written.
\<close>

section \<open>Channels\<close>

text \<open>
  What a stream socket does, whatever the sizes of the pieces: a receive takes at least one of the bytes on the way, and
  no more than it is asked for; a send adds at least one. \<open>pend\<close> is the bytes on the way.
\<close>

definition delivers :: "'w chnl_sys \<Rightarrow> int \<Rightarrow> ('w \<Rightarrow> bytes) \<Rightarrow> bool" where
  "delivers sys fd pend \<longleftrightarrow> (\<forall>n w. 0 < n \<longrightarrow> pend w \<noteq> [] \<longrightarrow>
     (\<exists>k w'. 0 < k \<and> k \<le> n \<and> k \<le> length (pend w) \<and> cs_recv sys fd n w = (Some (take k (pend w)), w') \<and>
       pend w' = drop k (pend w)))"

definition accepts :: "'w chnl_sys \<Rightarrow> int \<Rightarrow> ('w \<Rightarrow> bytes) \<Rightarrow> bool" where
  "accepts sys fd pend \<longleftrightarrow> (\<forall>data w. data \<noteq> [] \<longrightarrow>
     (\<exists>k w'. 0 < k \<and> k \<le> length data \<and> cs_send sys fd data w = (int k, w') \<and> pend w' = pend w @ take k data))"

lemma sint_of_nat32: "n < 2 ^ 31 \<Longrightarrow> sint (of_nat n :: u32) = int n"
  by (simp add: sint_uint uint_nat unat_of_nat32 signed_take_bit_int_eq_self)

lemma of_nat_less32: "i < 2 ^ 32 \<Longrightarrow> n < 2 ^ 32 \<Longrightarrow> (of_nat i :: u32) < of_nat n \<longleftrightarrow> i < n"
  by (simp add: word_less_nat_alt unat_of_nat32)

lemma unat_left: "i \<le> n \<Longrightarrow> n < 2 ^ 31 \<Longrightarrow> unat (of_int (int n - int i) :: u64) = n - i"
proof -
  assume "i \<le> n" "n < 2 ^ 31"
  then have "(of_int (int n - int i) :: u64) = of_nat (n - i)" by (metis of_int_of_nat_eq of_nat_diff)
  with \<open>n < 2 ^ 31\<close> show ?thesis by (simp add: unat_of_nat64)
qed

lemma deliversE:
  assumes "delivers sys fd pend" and "0 < n" "pend w \<noteq> []"
  obtains k w' x xs where "0 < k" "k \<le> n" "k \<le> length (pend w)" "cs_recv sys fd n w = (Some (x # xs), w')"
    "take k (pend w) = x # xs" "length (x # xs) = k" "pend w' = drop k (pend w)"
proof -
  from assms obtain k w' where k: "0 < k" "k \<le> n" "k \<le> length (pend w)" "cs_recv sys fd n w = (Some (take k (pend w)), w')"
    "pend w' = drop k (pend w)" unfolding delivers_def by blast
  moreover from k obtain x xs where "take k (pend w) = x # xs" by (cases "take k (pend w)") auto
  moreover from this k have "length (x # xs) = k" by (metis length_take min.absorb2)
  ultimately show ?thesis using that by metis
qed

lemma chnl_send_step:
  assumes "i < length buf" "length buf < 2 ^ 31" and "cs_send sys fd (drop i buf) w = (int k, w1)" "0 < k"
  shows "chnl_send_loop sys fd buf (of_nat (length buf)) (of_nat i) (int (length buf) - int i) w =
    chnl_send_loop sys fd buf (of_nat (length buf)) (of_nat (i + k)) (int (length buf) - int (i + k)) w1"
proof -
  have "(of_nat i :: u32) < of_nat (length buf)" "unat (of_nat i :: u32) = i"
    using assms(1,2) by (simp_all add: of_nat_less32 unat_of_nat32)
  moreover have "unat (of_int (int (length buf) - int i) :: u64) = length buf - i" using unat_left assms(1,2) by simp
  ultimately show ?thesis using assms(3,4)
    by (subst chnl_send_loop.simps) (simp add: diff_diff_eq del: of_int_diff)
qed

lemma chnl_send_all:
  assumes "accepts sys fd pend" and "length buf < 2 ^ 31" and "i \<le> length buf"
  shows "\<exists>w'. chnl_send_loop sys fd buf (of_nat (length buf)) (of_nat i) (int (length buf) - int i) w =
    Some (of_nat (length buf), 0, w') \<and> pend w' = pend w @ drop i buf"
  using assms(3)
proof (induction "length buf - i" arbitrary: i w rule: less_induct)
  case less
  show ?case
  proof (cases "i < length buf")
    case True
    then have "drop i buf \<noteq> []" by simp
    with assms(1) obtain k w1 where k: "0 < k" "k \<le> length (drop i buf)" "cs_send sys fd (drop i buf) w = (int k, w1)"
      "pend w1 = pend w @ take k (drop i buf)" unfolding accepts_def by blast
    then have "length buf - (i + k) < length buf - i" "i + k \<le> length buf" using True by auto
    from less.hyps [OF this, of w1] obtain w' where
      w': "chnl_send_loop sys fd buf (of_nat (length buf)) (of_nat (i + k)) (int (length buf) - int (i + k)) w1 =
        Some (of_nat (length buf), 0, w')" "pend w' = pend w1 @ drop (i + k) buf" by blast
    moreover have "take k (drop i buf) @ drop (i + k) buf = drop i buf" by (metis add.commute append_take_drop_id drop_drop)
    ultimately show ?thesis using chnl_send_step [OF True assms(2) k(3,1)] k(4) by auto
  next
    case False
    with less.prems have "i = length buf" by simp
    then show ?thesis by (subst chnl_send_loop.simps) simp
  qed
qed

lemma send_all:
  assumes "accepts sys (ch_socket ch) pend" and "length buf < 2 ^ 31"
  shows "\<exists>w'. cl_commchnl_send sys ch buf (of_nat (length buf)) w = Some (CL_SUCCESS, of_nat (length buf), w') \<and>
    pend w' = pend w @ buf"
  using chnl_send_all [OF assms, of 0 w] sint_of_nat32 [OF assms(2)] by (auto simp: cl_commchnl_send_def)

lemma recv_part:
  assumes "delivers sys (ch_socket ch) pend" and "0 < n" and "pend w \<noteq> []"
  shows "\<exists>k w'. 0 < k \<and> k \<le> unat n \<and> k \<le> length (pend w) \<and> pend w' = drop k (pend w) \<and>
    cl_commchnl_recv sys ch False n w = Some (CL_SUCCESS, of_nat k, take k (pend w), w')"
proof -
  from assms(2) have "0 < unat n" by (simp add: unat_gt_0 word_neq_0_conv)
  from deliversE [OF assms(1) this assms(3)] obtain k w' x xs where k: "0 < k" "k \<le> unat n" "k \<le> length (pend w)"
    "cs_recv sys (ch_socket ch) (unat n) w = (Some (x # xs), w')" "take k (pend w) = x # xs" "length (x # xs) = k"
    "pend w' = drop k (pend w)" by metis
  moreover have "1 + of_nat (length xs) = (of_nat k :: u32)" by (simp flip: k(6))
  ultimately show ?thesis by (intro exI [of _ k] exI [of _ w']) (simp add: cl_commchnl_recv_def chnl_recv_loop.simps)
qed

lemma chnl_recv_step:
  assumes "i < n" "n < 2 ^ 31" and "cs_recv sys fd (n - i) w = (Some (x # xs), w1)"
  shows "chnl_recv_loop sys fd True (of_nat n) ret got (of_nat i) (int n - int i) w =
    chnl_recv_loop sys fd True (of_nat n) (Some (x # xs)) (got @ x # xs) (of_nat (i + length (x # xs))) (int n - int (i + length (x # xs))) w1"
proof -
  have "(of_nat i :: u32) < of_nat n" using assms(1,2) by (simp add: of_nat_less32)
  moreover have "unat (of_int (int n - int i) :: u64) = n - i" using unat_left assms(1,2) by simp
  ultimately show ?thesis using assms(3)
    by (subst chnl_recv_loop.simps) (simp add: diff_diff_eq ac_simps del: of_int_diff)
qed

lemma chnl_recv_all:
  assumes "delivers sys fd pend" and "n < 2 ^ 31" and "i \<le> n" and "n - i \<le> length (pend w)"
  shows "\<exists>y ys w'. chnl_recv_loop sys fd True (of_nat n) (Some (x # xs)) got (of_nat i) (int n - int i) w =
    Some (Some (y # ys), got @ take (n - i) (pend w), of_nat n, w') \<and> pend w' = drop (n - i) (pend w)"
  using assms(3-4)
proof (induction "n - i" arbitrary: i w x xs got rule: less_induct)
  case less
  show ?case
  proof (cases "i < n")
    case True
    then have "pend w \<noteq> []" "0 < n - i" using less.prems by auto
    from deliversE [OF assms(1) this(2,1)] obtain k w1 y ys where k: "0 < k" "k \<le> n - i"
      "k \<le> length (pend w)" "cs_recv sys fd (n - i) w = (Some (y # ys), w1)" "take k (pend w) = y # ys" "length (y # ys) = k"
      "pend w1 = drop k (pend w)" by metis
    have "n - (i + k) < n - i" "i + k \<le> n" "n - (i + k) \<le> length (pend w1)" using k True less.prems by auto
    from less.hyps [OF this, of y ys "got @ y # ys"] obtain z zs w' where
      w': "chnl_recv_loop sys fd True (of_nat n) (Some (y # ys)) (got @ y # ys) (of_nat (i + k)) (int n - int (i + k)) w1 =
        Some (Some (z # zs), (got @ y # ys) @ take (n - (i + k)) (pend w1), of_nat n, w')"
      "pend w' = drop (n - (i + k)) (pend w1)" by blast
    have "take (n - i) (pend w) = (y # ys) @ take (n - (i + k)) (pend w1)"
    proof -
      have "k + (n - (i + k)) = n - i" using k(2) by simp
      with take_add [of k "n - (i + k)" "pend w"] k(5,7) show ?thesis by simp
    qed
    moreover have "pend w' = drop (n - i) (pend w)" using w'(2) k by simp
    ultimately show ?thesis
      using w'(1) unfolding chnl_recv_step [OF True assms(2) k(4), of "Some (x # xs)" got] k(6) append_assoc by metis
  next
    case False
    with less.prems(1) have "i = n" by simp
    then show ?thesis by (subst chnl_recv_loop.simps) simp
  qed
qed

lemma recv_whole:
  assumes "delivers sys (ch_socket ch) pend" and "0 < n" "n < 2 ^ 31" and "n \<le> length (pend w)"
  shows "\<exists>w'. cl_commchnl_recv sys ch True (of_nat n) w = Some (CL_SUCCESS, of_nat n, take n (pend w), w') \<and>
    pend w' = drop n (pend w)"
proof -
  from assms(2,4) have "pend w \<noteq> []" by auto
  from deliversE [OF assms(1,2) this] obtain k w1 x xs where k: "k \<le> n" "k \<le> length (pend w)"
    "cs_recv sys (ch_socket ch) n w = (Some (x # xs), w1)" "take k (pend w) = x # xs" "length (x # xs) = k"
    "pend w1 = drop k (pend w)" by metis
  have "n - k \<le> length (pend w1)" using k assms(4) by simp
  from chnl_recv_all [OF assms(1,3) k(1) this, of x xs "x # xs"] obtain y ys w' where
    w': "chnl_recv_loop sys (ch_socket ch) True (of_nat n) (Some (x # xs)) (x # xs) (of_nat k) (int n - int k) w1 =
      Some (Some (y # ys), (x # xs) @ take (n - k) (pend w1), of_nat n, w')" "pend w' = drop (n - k) (pend w1)" by blast
  have "(x # xs) @ take (n - k) (pend w1) = take n (pend w)"
    using k(1,4,6) take_add [of k "n - k" "pend w"] by simp
  moreover have "unat (of_nat n :: u32) = n" using assms(3) by (simp add: unat_of_nat32)
  ultimately show ?thesis using w' k sint_of_nat32 [OF assms(3)] by (auto simp: cl_commchnl_recv_def)
qed

section \<open>Receiving a command\<close>

lemma write_buffer_prefix:
  assumes "take p buffer = take p msg" "take k (drop p msg) = data" "p + length data \<le> length buffer" "p \<le> length msg"
    "length data = k"
  shows "\<exists>buffer'. write_buffer buffer p data = Some buffer' \<and> length buffer' = length buffer \<and>
    take (p + k) buffer' = take (p + k) msg \<and> drop (p + k) buffer' = drop (p + k) buffer"
  using assms by (auto simp: write_buffer_def take_add)

text \<open>
  \<open>msg\<close> is the message, \<open>rest\<close> what follows it in the stream: the buffer holds the first \<open>p\<close> bytes and the others are on the way.
\<close>

definition partial_message :: "('w \<Rightarrow> bytes) \<Rightarrow> bytes \<Rightarrow> bytes \<Rightarrow> bytes \<Rightarrow> nat \<Rightarrow> 'w \<Rightarrow> bool" where
  "partial_message pend msg rest buffer p w \<longleftrightarrow>
     p \<le> length msg \<and> length msg \<le> length buffer \<and> take p buffer = take p msg \<and> pend w = drop p msg @ rest"

lemma receive_part_progress:
  assumes d: "delivers sys (ch_socket ch) pend" and m: "partial_message pend msg rest buffer p w"
    and n: "p < n" "n \<le> length msg" "length msg < 2 ^ 32"
  shows "\<exists>p' buffer' w'. receive_part sys ch (of_nat n) buffer (of_nat p) w =
      Some (if p' < n then SX_RPC_STATUS_CMD_INCOMPLETE else SX_RPC_STATUS_SUCCESS, buffer', of_nat p', w') \<and>
    p < p' \<and> p' \<le> n \<and> partial_message pend msg rest buffer' p' w' \<and> length buffer' = length buffer \<and>
    drop (length msg) buffer' = drop (length msg) buffer"
proof -
  have u: "unat (of_nat n - of_nat p :: u32) = n - p" "unat (of_nat p :: u32) = p"
    using n by (simp_all add: unat_of_nat32 flip: of_nat_diff)
  then have "0 < (of_nat n - of_nat p :: u32)" using n(1) by (simp add: word_gt_0 flip: unat_eq_0)
  moreover have "pend w \<noteq> []" using m n by (simp add: partial_message_def)
  ultimately obtain k w' where k: "0 < k" "k \<le> n - p" "pend w' = drop k (pend w)"
    "cl_commchnl_recv sys ch False (of_nat n - of_nat p) w = Some (CL_SUCCESS, of_nat k, take k (pend w), w')"
    using recv_part [OF d, of "of_nat n - of_nat p" w] u by metis
  have kl: "k \<le> length (drop p msg)" using k n by simp
  then have data: "take k (pend w) = take k (drop p msg)" "pend w' = drop (p + k) msg @ rest"
    using m k(3) by (simp_all add: partial_message_def add.commute)
  have "p + length (take k (drop p msg)) \<le> length buffer" using m kl by (auto simp: partial_message_def)
  with write_buffer_prefix [of p buffer msg k "take k (drop p msg)"] m kl obtain buffer' where
    b: "write_buffer buffer p (take k (drop p msg)) = Some buffer'" "length buffer' = length buffer"
    "take (p + k) buffer' = take (p + k) msg" "drop (p + k) buffer' = drop (p + k) buffer"
    by (auto simp: partial_message_def)
  have "drop (length msg - (p + k)) (drop (p + k) buffer') = drop (length msg - (p + k)) (drop (p + k) buffer)" using b(4) by simp
  then have "drop (length msg) buffer' = drop (length msg) buffer" using k(2) n(1,2) by simp
  moreover have "(of_nat p :: u32) < of_nat n" "(of_nat (p + k) :: u32) < of_nat n \<longleftrightarrow> p + k < n"
    using n k(2) by (simp_all add: of_nat_less32 del: of_nat_add)
  then have "receive_part sys ch (of_nat n) buffer (of_nat p) w =
      Some (if p + k < n then SX_RPC_STATUS_CMD_INCOMPLETE else SX_RPC_STATUS_SUCCESS, buffer', of_nat (p + k), w')"
    using k(4) b(1) u(2) data(1) by (simp add: receive_part_def)
  moreover have "partial_message pend msg rest buffer' (p + k) w'"
    using m b data(2) kl by (auto simp: partial_message_def)
  ultimately show ?thesis using k b(2) by (intro exI [of _ "p + k"] exI [of _ buffer'] exI [of _ w']) simp
qed

lemma command_head_inverse [simp]:
  "command_head (command_head_bytes h @ bs) = h" "length (command_head_bytes h) = 20"
  "reply_head (reply_head_bytes r @ bs) = r" "reply_head (reply_head_bytes r) = r" "length (reply_head_bytes r) = 16"
  by (simp_all add: command_head_def command_head_bytes_def reply_head_def reply_head_bytes_def)

lemma command_head_prefix:
  assumes "take n buffer = take n (command_head_bytes h @ bs)" "20 \<le> n" "n \<le> length buffer"
  shows "command_head buffer = h"
proof -
  have "take 20 buffer = command_head_bytes h" using assms by (metis append_eq_conv_conj command_head_inverse(2) min.absorb1 take_take)
  then show ?thesis by (metis append_take_drop_id command_head_inverse(1))
qed

text \<open>
  A call for a message that is partly there gets further: it completes the message, or it leaves more of it in the buffer.
\<close>

lemma receive_command_progress:
  assumes d: "delivers sys (ch_socket ch) pend" and msg: "msg = command_head_bytes h @ body"
    "unat (hd_msg_size h) = length msg" and m: "partial_message pend msg rest buffer p w" and p: "p < length msg"
  shows "\<exists>p' buffer' w'. sx_rpc_api_receive_command sys ch buffer (of_nat p) w =
      Some (if p' < length msg then (SX_RPC_STATUS_CMD_INCOMPLETE, buffer', of_nat p', w') else (SX_RPC_STATUS_SUCCESS, buffer', 0, w')) \<and>
    p < p' \<and> partial_message pend msg rest buffer' p' w' \<and> length buffer' = length buffer \<and>
    drop (length msg) buffer' = drop (length msg) buffer"
proof -
  have "hd_msg_size h = of_nat (length msg)" "length msg < 2 ^ 32"
    using unsigned_less [of "hd_msg_size h", where 'a = nat] by (simp_all flip: msg(2))
  moreover have "20 \<le> length msg" by (simp add: msg(1))
  ultimately have size: "hd_msg_size h = of_nat (length msg)" "length msg < 2 ^ 32" "20 \<le> length msg" .
  have head: "sizeof_command_head = of_nat 20" by (simp add: sizeof_command_head_def)
  have second: ?thesis if m1: "partial_message pend msg rest b q v" and q: "20 \<le> q" "p \<le> q" "p < q \<or> q < length msg"
    and l: "length b = length buffer" "drop (length msg) b = drop (length msg) buffer"
    and run: "sx_rpc_api_receive_command sys ch buffer (of_nat p) w =
      Option.bind (receive_part sys ch (hd_msg_size (command_head b)) b (of_nat q) v) (\<lambda>(err, buffer, pos, w).
        if err \<noteq> SX_RPC_STATUS_SUCCESS then Some (err, buffer, pos, w) else Some (err, buffer, 0, w))" for b q v
  proof -
    have "command_head b = h" using m1 q(1) msg(1) by (intro command_head_prefix [of q]) (auto simp: partial_message_def)
    then have hd: "hd_msg_size (command_head b) = of_nat (length msg)" using size by simp
    show ?thesis
    proof (cases "q < length msg")
      case True
      from receive_part_progress [OF d m1 True _ size(2)] obtain p' b' v' where
        "receive_part sys ch (of_nat (length msg)) b (of_nat q) v =
          Some (if p' < length msg then SX_RPC_STATUS_CMD_INCOMPLETE else SX_RPC_STATUS_SUCCESS, b', of_nat p', v')"
        "q < p'" "partial_message pend msg rest b' p' v'" "length b' = length b" "drop (length msg) b' = drop (length msg) b" by auto
      with run hd l q show ?thesis
        by (intro exI [of _ p'] exI [of _ b'] exI [of _ v']) (simp add: SX_RPC_STATUS_CMD_INCOMPLETE_def SX_RPC_STATUS_SUCCESS_def)
    next
      case False
      then have "q = length msg" using m1 by (simp add: partial_message_def)
      with run hd q l m1 p show ?thesis
        by (intro exI [of _ q] exI [of _ b] exI [of _ v]) (simp add: receive_part_def)
    qed
  qed
  show ?thesis
  proof (cases "p < 20")
    case True
    from receive_part_progress [OF d m True size(3,2)] obtain p' b' v' where r:
      "receive_part sys ch (of_nat 20) buffer (of_nat p) w =
        Some (if p' < 20 then SX_RPC_STATUS_CMD_INCOMPLETE else SX_RPC_STATUS_SUCCESS, b', of_nat p', v')"
      "p < p'" "p' \<le> 20" "partial_message pend msg rest b' p' v'" "length b' = length buffer"
      "drop (length msg) b' = drop (length msg) buffer" by auto
    show ?thesis
    proof (cases "p' < 20")
      case True
      with r size(3) show ?thesis by (intro exI [of _ p'] exI [of _ b'] exI [of _ v'])
        (simp add: sx_rpc_api_receive_command_def head SX_RPC_STATUS_CMD_INCOMPLETE_def SX_RPC_STATUS_SUCCESS_def)
    next
      case False
      with r show ?thesis by (intro second [of b' p' v']) (auto simp: sx_rpc_api_receive_command_def head)
    qed
  next
    case False
    have "unat (of_nat p :: u32) = p" using p size(2) by (simp add: unat_of_nat32)
    with False have "\<not> (of_nat p :: u32) < sizeof_command_head" by (simp add: word_less_nat_alt sizeof_command_head_def)
    with False p m show ?thesis by (intro second [of buffer p w]) (auto simp: sx_rpc_api_receive_command_def receive_part_def)
  qed
qed

text \<open>The calls for one command, one after another, as the server makes them when more of the command has come.\<close>

partial_function (option) receive_until :: "'w chnl_sys \<Rightarrow> cl_commchnl_t \<Rightarrow> bytes \<Rightarrow> u32 \<Rightarrow> 'w \<Rightarrow> (int \<times> bytes \<times> u32 \<times> 'w) option" where
  "receive_until sys ch buffer pos w =
    Option.bind (sx_rpc_api_receive_command sys ch buffer pos w) (\<lambda>(err, buffer, pos, w).
      if err = SX_RPC_STATUS_CMD_INCOMPLETE then receive_until sys ch buffer pos w else Some (err, buffer, pos, w))"

lemma receive_until_all:
  assumes d: "delivers sys (ch_socket ch) pend" and msg: "msg = command_head_bytes h @ body"
    "unat (hd_msg_size h) = length msg" and "partial_message pend msg rest buffer p w" and "p < length msg"
  shows "\<exists>buffer' w'. receive_until sys ch buffer (of_nat p) w = Some (SX_RPC_STATUS_SUCCESS, buffer', 0, w') \<and>
    buffer' = msg @ drop (length msg) buffer \<and> pend w' = rest"
  using assms(4,5)
proof (induction "length msg - p" arbitrary: p buffer w rule: less_induct)
  case less
  from receive_command_progress [OF d msg less.prems] obtain p' b' w1 where r:
    "sx_rpc_api_receive_command sys ch buffer (of_nat p) w =
      Some (if p' < length msg then (SX_RPC_STATUS_CMD_INCOMPLETE, b', of_nat p', w1) else (SX_RPC_STATUS_SUCCESS, b', 0, w1))"
    "p < p'" "partial_message pend msg rest b' p' w1" "drop (length msg) b' = drop (length msg) buffer" by blast
  show ?case
  proof (cases "p' < length msg")
    case True
    have "length msg - p' < length msg - p" using r(2) True by simp
    from less.hyps [OF this r(3) True] r(1,4) True show ?thesis by (subst receive_until.simps) auto
  next
    case False
    with r(3) have "p' = length msg" "take p' b' = msg" "pend w1 = rest" by (auto simp: partial_message_def)
    with r(1,4) False show ?thesis
      by (subst receive_until.simps)
        (simp add: SX_RPC_STATUS_CMD_INCOMPLETE_def SX_RPC_STATUS_SUCCESS_def, metis append_take_drop_id)
  qed
qed

section \<open>Replies\<close>

lemma send_message_all:
  assumes "accepts sys (ch_socket ch) pend" and "length header < 2 ^ 31" "length b < 2 ^ 31"
  shows "\<exists>w'. rpc_send_message sys ch header (of_nat (length header)) (Some b) (of_nat (length b)) w = Some (SX_RPC_STATUS_SUCCESS, w') \<and>
    pend w' = pend w @ header @ b"
proof -
  obtain w1 where w1: "cl_commchnl_send sys ch header (of_nat (length header)) w = Some (CL_SUCCESS, of_nat (length header), w1)"
    "pend w1 = pend w @ header" using send_all [OF assms(1,2)] by blast
  obtain w2 where "cl_commchnl_send sys ch b (of_nat (length b)) w1 = Some (CL_SUCCESS, of_nat (length b), w2)"
    "pend w2 = pend w1 @ b" using send_all [OF assms(1,3)] by blast
  with w1 show ?thesis by (simp add: rpc_send_message_def)
qed

definition reply_of :: "int \<Rightarrow> bytes \<Rightarrow> sx_rpc_api_reply_head_t" where
  "reply_of retcode b = \<lparr>rh_retcode = of_int retcode, rh_version = 0, rh_msg_size = 16 + of_nat (length b), rh_list_size = 0\<rparr>"

lemma reply_sent:
  assumes "accepts sys (ch_socket ch) pend" and "length b < 2 ^ 31"
  shows "\<exists>w'. sx_rpc_api_send_reply_wrapper sys ch retcode (Some b) (of_nat (length b)) w = Some (SX_RPC_STATUS_SUCCESS, w') \<and>
    pend w' = pend w @ reply_head_bytes (reply_of retcode b) @ b"
  using send_message_all [OF assms(1) _ assms(2), of "reply_head_bytes (reply_of retcode b)" w]
  by (simp add: sx_rpc_api_send_reply_wrapper_def sx_rpc_api_send_reply_def sizeof_reply_head_def reply_of_def)

lemma reply_received:
  assumes d: "delivers sys (ch_socket ch) pend" and p: "pend w = reply_head_bytes (reply_of retcode b) @ b @ rest"
    and b: "length b < 2 ^ 31" "length b \<le> unat room"
  shows "\<exists>w'. sx_rpc_receive_message sys ch room w = Some (SX_RPC_STATUS_SUCCESS, reply_head_bytes (reply_of retcode b), b, w') \<and>
    pend w' = rest"
proof -
  obtain w1 where w1: "cl_commchnl_recv sys ch True (of_nat 16) w = Some (CL_SUCCESS, of_nat 16, reply_head_bytes (reply_of retcode b), w1)"
    "pend w1 = b @ rest" using recv_whole [OF d, of 16 w] p by auto
  show ?thesis
  proof (cases "b = []")
    case True
    with w1 show ?thesis by (simp add: sx_rpc_receive_message_def sizeof_reply_head_def reply_of_def)
  next
    case False
    then obtain w2 where w2: "cl_commchnl_recv sys ch True (of_nat (length b)) w1 = Some (CL_SUCCESS, of_nat (length b), b, w2)"
      "pend w2 = rest" using recv_whole [OF d, of "length b" w1] w1(2) b(1) by auto
    have "unat (of_nat (length b) :: u32) = length b" using b(1) by (simp add: unat_of_nat32)
    then have "(of_nat (length b) :: u32) \<noteq> 0" "\<not> room < of_nat (length b)"
      using False b(2) by (auto simp: word_less_nat_alt not_less simp flip: unat_eq_0)
    with w1(1) w2 show ?thesis by (simp add: sx_rpc_receive_message_def sizeof_reply_head_def reply_of_def)
  qed
qed

lemma reply_round_trip:
  assumes "accepts sys (ch_socket a) pend" "delivers sys (ch_socket c) pend" and "pend w = []"
    and "length b < 2 ^ 31" "length b \<le> unat room" and "- (2 ^ 31) \<le> retcode" "retcode < 2 ^ 31"
  shows "\<exists>w1 w2 head. sx_rpc_api_send_reply_wrapper sys a retcode (Some b) (of_nat (length b)) w = Some (SX_RPC_STATUS_SUCCESS, w1) \<and>
    sx_rpc_receive_message sys c room w1 = Some (SX_RPC_STATUS_SUCCESS, head, b, w2) \<and> pend w2 = [] \<and>
    sint (rh_retcode (reply_head head)) = retcode \<and> rh_msg_size (reply_head head) = 16 + of_nat (length b)"
proof -
  from reply_sent [OF assms(1,4), of retcode w] obtain w1 where
    w1: "sx_rpc_api_send_reply_wrapper sys a retcode (Some b) (of_nat (length b)) w = Some (SX_RPC_STATUS_SUCCESS, w1)"
    "pend w1 = reply_head_bytes (reply_of retcode b) @ b @ []" using assms(3) by auto
  from reply_received [OF assms(2) this(2) assms(4,5)] obtain w2 where
    "sx_rpc_receive_message sys c room w1 = Some (SX_RPC_STATUS_SUCCESS, reply_head_bytes (reply_of retcode b), b, w2)" "pend w2 = []"
    by blast
  moreover have "sint (of_int retcode :: u32) = retcode" using assms(6,7) by (simp add: signed_of_int signed_take_bit_int_eq_self)
  ultimately show ?thesis using w1(1) by (auto simp: reply_of_def)
qed

section \<open>Commands that are too long\<close>

text \<open>
  The size that a header announces is compared with nothing: a command that does not fit the buffer is written beyond its
  end as soon as the system delivers that many bytes at once.
\<close>

lemma oversized_overruns:
  assumes h: "length buffer < unat (hd_msg_size h)" "20 \<le> length buffer"
    and first: "cs_recv sys (ch_socket ch) 20 w = (Some (command_head_bytes h), w1)"
    and second: "cs_recv sys (ch_socket ch) (unat (hd_msg_size h) - 20) w1 = (Some data, w2)"
      "length buffer < 20 + length data"
  shows "sx_rpc_api_receive_command sys ch buffer 0 w = None"
proof -
  obtain x xs where x: "command_head_bytes h = x # xs" by (cases "command_head_bytes h") (simp_all flip: length_0_conv)
  obtain y ys where y: "data = y # ys" using second(2) h(2) by (cases data) auto
  have l: "length (x # xs) = 20" by (simp flip: x)
  define b where "b = command_head_bytes h @ drop 20 buffer"
  have "cl_commchnl_recv sys ch False 20 w = Some (CL_SUCCESS, 20, command_head_bytes h, w1)"
    using first x l by (simp add: cl_commchnl_recv_def chnl_recv_loop.simps)
  moreover have "write_buffer buffer 0 (command_head_bytes h) = Some b" using h(2) by (simp add: write_buffer_def b_def)
  ultimately have one: "receive_part sys ch sizeof_command_head buffer 0 w = Some (SX_RPC_STATUS_SUCCESS, b, 20, w1)"
    by (simp add: receive_part_def sizeof_command_head_def)
  have u: "unat (hd_msg_size h - 20) = unat (hd_msg_size h) - 20" "20 < hd_msg_size h"
    using h by (simp_all add: word_less_nat_alt unat_sub word_le_nat_alt)
  have "cl_commchnl_recv sys ch False (hd_msg_size h - 20) w1 = Some (CL_SUCCESS, of_nat (length data), data, w2)"
    using second(1) y u(1) by (simp add: cl_commchnl_recv_def chnl_recv_loop.simps)
  moreover have "write_buffer b 20 data = None" using second(2) h(2) by (simp add: write_buffer_def b_def)
  ultimately have "receive_part sys ch (hd_msg_size h) b 20 w1 = None" using u(2) by (simp add: receive_part_def)
  with one show ?thesis by (simp add: sx_rpc_api_receive_command_def b_def)
qed

end
