(* ===== verification/Rpc_Table.thy ===== *)
theory Rpc_Table
  imports Rpc Qmap_Refine
begin

text \<open>
  The table of commands as a partial map from identifiers to commands, and the queues of the worker as lists.
\<close>

section \<open>The table of commands\<close>

definition commands :: "'w rpc_state \<Rightarrow> u64 list \<Rightarrow> u64 \<rightharpoonup> 'w sx_rpc_api_command_t" where
  "commands s items = keyed (p_key (cmd_mem s)) (cm_cmd (cmd_mem s)) items"

text \<open>
  What the code needs of \<^verbatim>\<open>malloc\<close>: a block that is handed out was not in use. \<open>live\<close> has the addresses in use; those of the
  table and of its sentinels are among them. \<open>avail\<close> is a number of blocks that can still be had.
\<close>

definition fresh_blocks :: "'w rpc_sys \<Rightarrow> ('w \<Rightarrow> u64 set) \<Rightarrow> ('w \<Rightarrow> nat) \<Rightarrow> bool" where
  "fresh_blocks sys live avail \<longleftrightarrow> (\<forall>n w e w'. rs_malloc sys n w = (e, w') \<longrightarrow>
     (if e = 0 then avail w = 0 \<and> live w \<subseteq> live w' else e \<notin> live w \<and> insert e (live w) \<subseteq> live w') \<and> avail w \<le> Suc (avail w'))"

definition table_rep :: "('w \<Rightarrow> u64 set) \<Rightarrow> 'w rpc_state \<Rightarrow> 'w \<Rightarrow> u64 list \<Rightarrow> bool" where
  "table_rep live s w items \<longleftrightarrow> qmap_wf (cmd_map s) (cmd_mem s) items \<and> qmap_area (cmd_map s) items \<subseteq> live w"

lemma table_nil: "table_rep live s w items \<Longrightarrow> qm_nil (cmd_map s) \<notin> set items"
  using fmap_wf_sentinels(1) [of "as_fmap (cmd_map s)" "cmd_mem s" items] by (simp add: table_rep_def qmap_wf_def)

lemma command_get:
  assumes "table_rep live s w items"
  shows "sx_rpc_core_api_command_get opcode s = Some (case commands s items (scast opcode) of
    None \<Rightarrow> (SX_RPC_STATUS_ERROR, None) | Some c \<Rightarrow> (SX_RPC_STATUS_SUCCESS, Some c))"
proof -
  have q: "qmap_wf (cmd_map s) (cmd_mem s) items" using assms by (simp add: table_rep_def)
  show ?thesis
    unfolding sx_rpc_core_api_command_get_def qmap_get_correct [OF q] commands_def keyed_find cl_qmap_end_def
    using table_nil [OF assms] by (cases "find (\<lambda>x. scast opcode = p_key (cmd_mem s) x) items") (auto dest: find_in_set)
qed

lemma same_more_cmd:
  fixes m m' :: "'w cmd_mem"
  shows "map_mem.more m' = map_mem.more m \<Longrightarrow> cm_cmd m' = cm_cmd m"
  by (cases m; cases m') simp

lemma cmd_update_wf: "qmap_wf q (m\<lparr>cm_cmd := f\<rparr>) xs \<longleftrightarrow> qmap_wf q m xs"
proof -
  have "agree_on A m (m\<lparr>cm_cmd := f\<rparr>)" "agree_on A (m\<lparr>cm_cmd := f\<rparr>) m" for A by (simp_all add: agree_on_def)
  then show ?thesis using qmap_wf_cong by blast
qed

text \<open>
  Setting a command replaces the entry of its identifier, or adds one. When there is no memory for a new entry nothing is
  added, and the result is success all the same.
\<close>

lemma command_replace:
  assumes rep: "table_rep live s w items" and x: "x \<in> set items" "p_key (cmd_mem s) x = key"
  shows "commands (s\<lparr>cmd_mem := (cmd_mem s)\<lparr>cm_cmd := (cm_cmd (cmd_mem s))(x := c)\<rparr>\<rparr>) items = (commands s items)(key \<mapsto> c)"
proof -
  let ?m = "cmd_mem s"
  have q: "qmap_wf (cmd_map s) ?m items" using rep by (simp add: table_rep_def)
  from x(1) obtain ys zs where xs: "items = ys @ x # zs" by (auto elim: in_set_split)
  then have "x \<notin> set ys" "x \<notin> set zs" "p_key ?m x \<notin> p_key ?m ` set ys" using qmap_wf_distinct [OF q] qmap_wf_keys [OF q] by auto
  moreover have "keyed (p_key ?m) ((cm_cmd ?m)(x := c)) (ys @ zs) = keyed (p_key ?m) (cm_cmd ?m) (ys @ zs)"
    by (rule keyed_cong) (use \<open>x \<notin> set ys\<close> \<open>x \<notin> set zs\<close> in auto)
  ultimately have "keyed (p_key ?m) ((cm_cmd ?m)(x := c)) (ys @ x # zs) = (keyed (p_key ?m) (cm_cmd ?m) (ys @ zs))(p_key ?m x \<mapsto> c)"
    using keyed_insert [of "p_key ?m" x ys "(cm_cmd ?m)(x := c)" zs] by simp
  moreover have "keyed (p_key ?m) (cm_cmd ?m) (ys @ x # zs) = (keyed (p_key ?m) (cm_cmd ?m) (ys @ zs))(p_key ?m x \<mapsto> cm_cmd ?m x)"
    using \<open>p_key ?m x \<notin> p_key ?m ` set ys\<close> by (rule keyed_insert)
  ultimately show ?thesis using x(2) by (simp add: commands_def xs)
qed

lemma command_add:
  assumes rep: "table_rep live s w items" and e: "e \<notin> live w" "insert e (live w) \<subseteq> live w'" and key: "key \<notin> p_key (cmd_mem s) ` set items"
  shows "\<exists>q' m' items'. cl_qmap_insert (cmd_map s) key e ((cmd_mem s)\<lparr>cm_cmd := (cm_cmd (cmd_mem s))(e := c)\<rparr>) = Some (e, q', m') \<and>
    table_rep live (s\<lparr>cmd_map := q', cmd_mem := m'\<rparr>) w' items' \<and>
    commands (s\<lparr>cmd_map := q', cmd_mem := m'\<rparr>) items' = (commands s items)(key \<mapsto> c)"
proof -
  let ?m = "(cmd_mem s)\<lparr>cm_cmd := (cm_cmd (cmd_mem s))(e := c)\<rparr>"
  have q: "qmap_wf (cmd_map s) ?m items" using rep by (simp add: table_rep_def cmd_update_wf)
  have notin: "e \<notin> qmap_area (cmd_map s) items" using rep e(1) by (auto simp: table_rep_def)
  from qmap_insert_new [OF q notin, of key] key obtain q' m' ys zs where ins:
    "cl_qmap_insert (cmd_map s) key e ?m = Some (e, q', m')" "items = ys @ zs" "qmap_wf q' m' (ys @ e # zs)"
    "p_key m' = (p_key (cmd_mem s))(e := key)" "same_outside (qmap_area (cmd_map s) (e # items)) ?m m'"
    "q' = (cmd_map s)\<lparr>qm_count := qm_count (cmd_map s) + 1\<rparr>" by auto
  have cmd: "cm_cmd m' = (cm_cmd (cmd_mem s))(e := c)" using same_more_cmd [of m' ?m] ins(5) by (simp add: same_outside_def)
  have "e \<notin> set items" using notin by (simp add: qmap_area_def)
  then have "keyed (p_key m') (cm_cmd m') (ys @ zs) = keyed (p_key (cmd_mem s)) (cm_cmd (cmd_mem s)) items"
    unfolding ins(2) by (intro keyed_cong) (auto simp: ins(4) cmd)
  moreover have "p_key m' e \<notin> p_key m' ` set ys" using key \<open>e \<notin> set items\<close> by (auto simp: ins(2,4))
  ultimately have "keyed (p_key m') (cm_cmd m') (ys @ e # zs) = (keyed (p_key (cmd_mem s)) (cm_cmd (cmd_mem s)) items)(key \<mapsto> c)"
    using keyed_insert [of "p_key m'" e ys "cm_cmd m'" zs] by (simp add: ins(4) cmd)
  moreover have "qmap_area q' (ys @ e # zs) \<subseteq> live w'" using rep e(2) by (auto simp: table_rep_def qmap_area_def ins(2,6))
  ultimately show ?thesis using ins(1,3) by (auto simp: table_rep_def commands_def)
qed

lemma command_set:
  assumes heap: "fresh_blocks sys live avail" and rep: "table_rep live s w items"
  shows "\<exists>s' w' items'. sx_rpc_core_api_command_set sys c s w = Some (SX_RPC_STATUS_SUCCESS, s', w') \<and> table_rep live s' w' items' \<and>
    avail w \<le> Suc (avail w') \<and> commands s' items' = (if commands s items (of_int (cmd_id c)) = None \<and> fst (rs_malloc sys sizeof_mapped_command w) = 0
      then commands s items else (commands s items)(of_int (cmd_id c) \<mapsto> c))"
proof -
  let ?key = "of_int (cmd_id c) :: u64"
  have q: "qmap_wf (cmd_map s) (cmd_mem s) items" using rep by (simp add: table_rep_def)
  note get = qmap_get_correct [OF q, of ?key]
  show ?thesis
  proof (cases "find (\<lambda>x. ?key = p_key (cmd_mem s) x) items")
    case None
    obtain e w1 where mal: "rs_malloc sys sizeof_mapped_command w = (e, w1)" by fastforce
    have none: "commands s items ?key = None" by (simp add: commands_def keyed_find None)
    have key: "?key \<notin> p_key (cmd_mem s) ` set items" using None by (auto simp: find_None_iff)
    show ?thesis
    proof (cases "e = 0")
      case True
      then have "live w \<subseteq> live w1" "avail w \<le> Suc (avail w1)" using heap [unfolded fresh_blocks_def, rule_format, OF mal] by simp_all
      with True None none mal get rep show ?thesis
        by (auto simp: sx_rpc_core_api_command_set_def cl_qmap_end_def table_rep_def)
    next
      case False
      with heap [unfolded fresh_blocks_def, rule_format, OF mal] have e: "e \<notin> live w" "insert e (live w) \<subseteq> live w1"
        "avail w \<le> Suc (avail w1)" by simp_all
      from command_add [OF rep e(1,2) key, of c] e(3) False None none mal get show ?thesis
        by (auto simp: sx_rpc_core_api_command_set_def cl_qmap_end_def)
    qed
  next
    case (Some x)
    then have x: "x \<in> set items" "p_key (cmd_mem s) x = ?key" by (auto dest: find_in_set)
    have nil: "x \<noteq> qm_nil (cmd_map s)" using table_nil [OF rep] x(1) by auto
    have some: "commands s items ?key \<noteq> None" by (simp add: commands_def keyed_find Some)
    let ?s = "s\<lparr>cmd_mem := (cmd_mem s)\<lparr>cm_cmd := (cm_cmd (cmd_mem s))(x := c)\<rparr>\<rparr>"
    have "sx_rpc_core_api_command_set sys c s w = Some (SX_RPC_STATUS_SUCCESS, ?s, w)"
      using get Some nil by (simp add: sx_rpc_core_api_command_set_def cl_qmap_end_def Let_def)
    moreover have "table_rep live ?s w items" using rep by (simp add: table_rep_def cmd_update_wf)
    ultimately show ?thesis using command_replace [OF rep x, of c] some by auto
  qed
qed

definition set_command :: "(u64 \<rightharpoonup> 'w sx_rpc_api_command_t) \<Rightarrow> 'w sx_rpc_api_command_t \<Rightarrow> u64 \<rightharpoonup> 'w sx_rpc_api_command_t" where
  "set_command M c = M(of_int (cmd_id c) \<mapsto> c)"

definition table_of :: "'w sx_rpc_api_command_t list \<Rightarrow> int \<rightharpoonup> 'w sx_rpc_api_command_t" where
  "table_of cmds = map_of (rev (map (\<lambda>c. (cmd_id c, c)) cmds))"

lemma cmd_table_init:
  assumes heap: "fresh_blocks sys live avail" and "length cmds \<le> avail w" and "table_rep live s w items"
  shows "\<exists>s' w' items'. sx_rpc_cmd_table_init sys cmds s w = Some (SX_RPC_STATUS_SUCCESS, s', w') \<and> table_rep live s' w' items' \<and>
    commands s' items' = foldl set_command (commands s items) cmds"
  using assms(2,3)
proof (induction cmds arbitrary: s w items)
  case Nil
  then show ?case by auto
next
  case (Cons c cmds)
  obtain e w0 where mal: "rs_malloc sys sizeof_mapped_command w = (e, w0)" by fastforce
  have "e \<noteq> 0" using heap [unfolded fresh_blocks_def, rule_format, OF mal] Cons.prems(1) by (auto split: if_splits)
  with command_set [OF heap Cons.prems(2), of c] mal obtain s1 w1 items1 where
    one: "sx_rpc_core_api_command_set sys c s w = Some (SX_RPC_STATUS_SUCCESS, s1, w1)" "table_rep live s1 w1 items1"
    "commands s1 items1 = (commands s items)(of_int (cmd_id c) \<mapsto> c)" "avail w \<le> Suc (avail w1)" by auto
  have "length cmds \<le> avail w1" using one(4) Cons.prems(1) by simp
  from Cons.IH [OF this one(2)] one show ?case by (auto simp: SX_RPC_STATUS_SUCCESS_def set_command_def)
qed

lemma set_command_apply: "set_command M c k = (if k = of_int (cmd_id c) then Some c else M k)"
  by (simp add: set_command_def)

lemma foldl_keys:
  assumes "\<And>c. c \<in> set cmds \<Longrightarrow> (of_int (cmd_id c) :: u64) = key \<longleftrightarrow> cmd_id c = k"
  shows "foldl set_command M cmds key = (case table_of cmds k of None \<Rightarrow> M key | Some c \<Rightarrow> Some c)"
  using assms
proof (induction cmds rule: rev_induct)
  case Nil
  then show ?case by (simp add: table_of_def)
next
  case (snoc c cmds)
  then have "foldl set_command M cmds key = (case table_of cmds k of None \<Rightarrow> M key | Some c \<Rightarrow> Some c)" by simp
  moreover have "foldl set_command M (cmds @ [c]) key = (if key = of_int (cmd_id c) then Some c else foldl set_command M cmds key)"
    by (simp only: foldl_append foldl_Cons foldl_Nil set_command_apply)
  ultimately show ?case using snoc.prems [of c] by (auto simp: table_of_def simp del: foldl_append)
qed

text \<open>Identifiers are integers of 32 bits, so different ones have different keys.\<close>

lemma key_of_id:
  fixes opcode :: u32
  assumes "- (2 ^ 31) \<le> k" "k < 2 ^ 31"
  shows "(of_int k :: u64) = scast opcode \<longleftrightarrow> k = sint opcode"
proof -
  have "sint (of_int k :: u64) = k" using assms by (simp add: signed_of_int signed_take_bit_int_eq_self)
  moreover have "sint (scast opcode :: u64) = sint opcode" by (rule sint_up_scast) (simp add: is_up)
  ultimately show ?thesis by (metis scast_eq)
qed

lemma command_db:
  assumes heap: "fresh_blocks sys live avail" "length cmds \<le> avail w1"
    and lock: "rs_plock_init sys w = (CL_SUCCESS, w1)" and q: "qm_root (cmd_map s) \<noteq> qm_nil (cmd_map s)"
      "{qm_root (cmd_map s), qm_nil (cmd_map s)} \<subseteq> live w1"
    and ids: "\<forall>c\<in>set cmds. - (2 ^ 31) \<le> cmd_id c \<and> cmd_id c < 2 ^ 31"
  shows "\<exists>s' w'. sx_rpc_api_rpc_command_db_init sys cmds s w = Some (SX_RPC_STATUS_SUCCESS, s', w') \<and>
    (\<forall>opcode. sx_rpc_core_api_command_get opcode s' = Some (case table_of cmds (sint opcode) of
      None \<Rightarrow> (SX_RPC_STATUS_ERROR, None) | Some c \<Rightarrow> (SX_RPC_STATUS_SUCCESS, Some c)))"
proof -
  obtain q m where init: "cl_qmap_init 0 (cmd_map s) (cmd_mem s) = (q, m)" by fastforce
  let ?s = "s\<lparr>cmd_map := q, cmd_mem := m\<rparr>"
  have "qm_root q = qm_root (cmd_map s)" "qm_nil q = qm_nil (cmd_map s)" using init by (auto simp: cl_qmap_init_def cl_qmap_remove_all_def Let_def)
  then have "table_rep live ?s w1 []" using qmap_init_wf [OF q(1) init] q(2) by (simp add: table_rep_def qmap_area_def)
  from cmd_table_init [OF heap this] obtain s' w' items' where
    run: "sx_rpc_cmd_table_init sys cmds ?s w1 = Some (SX_RPC_STATUS_SUCCESS, s', w')" "table_rep live s' w' items'"
    "commands s' items' = foldl set_command Map.empty cmds" by (auto simp: commands_def)
  have "commands s' items' (scast opcode) = table_of cmds (sint opcode)" for opcode :: u32
    unfolding run(3) using foldl_keys [of cmds "scast opcode" "sint opcode" Map.empty] ids key_of_id
    by (simp split: option.splits)
  with command_get [OF run(2)] run(1) init lock show ?thesis
    by (auto simp: sx_rpc_api_rpc_command_db_init_def)
qed

section \<open>The queues\<close>

text \<open>The number of sources in a queue, and the sources, from the next one that the worker takes on.\<close>

definition queue_count :: "prio_buf_context \<Rightarrow> nat" where
  "queue_count b = (if unat (work_queue_cons b) \<le> unat (work_queue_prod b) then unat (work_queue_prod b) - unat (work_queue_cons b)
     else unat (work_queue_prod b) + unat (work_queue_size b) - unat (work_queue_cons b))"

definition queued :: "prio_buf_context \<Rightarrow> src_ptr list" where
  "queued b = map (\<lambda>j. work_queue b ! ((unat (work_queue_cons b) + j) mod unat (work_queue_size b))) [0..<queue_count b]"

definition queue_wf :: "prio_buf_context \<Rightarrow> bool" where
  "queue_wf b \<longleftrightarrow> length (work_queue b) = unat (work_queue_size b) \<and> work_queue_cons b < work_queue_size b \<and>
     work_queue_prod b < work_queue_size b"

definition push :: "src_ptr \<Rightarrow> prio_buf_context \<Rightarrow> prio_buf_context" where
  "push x b = b\<lparr>work_queue := (work_queue b)[unat (work_queue_prod b) := x],
     work_queue_prod := (work_queue_prod b + 1) mod work_queue_size b\<rparr>"

definition pop :: "prio_buf_context \<Rightarrow> prio_buf_context" where
  "pop b = b\<lparr>work_queue_cons := (work_queue_cons b + 1) mod work_queue_size b\<rparr>"

lemma unat_next:
  fixes i n :: u32
  assumes "i < n"
  shows "unat ((i + 1) mod n) = (if Suc (unat i) = unat n then 0 else Suc (unat i))"
proof -
  have l: "unat i < unat n" "unat n < 2 ^ 32" using assms unsigned_less [of n, where 'a = nat] by (simp_all add: word_less_nat_alt)
  then have "unat (i + 1) = Suc (unat i)" by (simp add: unat_word_ariths)
  with l show ?thesis by (auto simp: unat_mod_distrib)
qed

lemma mod_wrap: "c < n \<Longrightarrow> j < n \<Longrightarrow> (c + j) mod n = (if c + j < n then c + j else c + j - (n :: nat))"
  by (auto simp: mod_if)

lemma push_wf: "queue_wf b \<Longrightarrow> queue_wf (push x b)"
  by (auto simp: queue_wf_def push_def word_mod_less_divisor word_le_less_eq word_gt_0 intro!: word_mod_less_divisor)

lemma pop_wf: "queue_wf b \<Longrightarrow> queue_wf (pop b)"
  by (auto simp: queue_wf_def pop_def word_gt_0 intro!: word_mod_less_divisor)

lemma queue_bounds:
  assumes "queue_wf b"
  shows "unat (work_queue_cons b) < unat (work_queue_size b)" "unat (work_queue_prod b) < unat (work_queue_size b)"
    "length (work_queue b) = unat (work_queue_size b)" "queue_count b < unat (work_queue_size b)"
  using assms by (auto simp: queue_wf_def word_less_nat_alt queue_count_def)

lemma push_queued:
  assumes wf: "queue_wf b" and room: "Suc (length (queued b)) < unat (work_queue_size b)"
  shows "queued (push x b) = queued b @ [x]"
proof -
  note bd = queue_bounds [OF wf]
  have p: "work_queue_prod b < work_queue_size b" using wf by (simp add: queue_wf_def)
  have c: "queue_count (push x b) = Suc (queue_count b)"
    using room bd unat_next [OF p] by (auto simp: queued_def queue_count_def push_def)
  have other: "(unat (work_queue_cons b) + j) mod unat (work_queue_size b) \<noteq> unat (work_queue_prod b)" if "j < queue_count b" for j
    using that bd mod_wrap [OF bd(1), of j] by (auto simp: queue_count_def split: if_splits)
  have "(unat (work_queue_cons b) + queue_count b) mod unat (work_queue_size b) = unat (work_queue_prod b)"
    using bd mod_wrap [OF bd(1,4)] by (auto simp: queue_count_def split: if_splits)
  moreover have "(work_queue b)[unat (work_queue_prod b) := x] ! ((unat (work_queue_cons b) + j) mod unat (work_queue_size b)) =
      work_queue b ! ((unat (work_queue_cons b) + j) mod unat (work_queue_size b))" if "j < queue_count b" for j
    by (rule nth_list_update_neq) (use other [OF that] in simp)
  ultimately show ?thesis unfolding queued_def c using bd by (simp add: push_def)
qed

lemma push_full:
  assumes wf: "queue_wf b" and full: "Suc (length (queued b)) = unat (work_queue_size b)"
  shows "queued (push x b) = []"
proof -
  have "work_queue_prod b < work_queue_size b" using wf by (simp add: queue_wf_def)
  then have "queue_count (push x b) = 0"
    using full queue_bounds [OF wf] unat_next by (auto simp: queued_def queue_count_def push_def split: if_splits)
  then show ?thesis by (simp add: queued_def)
qed

lemma pop_queued:
  assumes wf: "queue_wf b" and ne: "work_queue_cons b \<noteq> work_queue_prod b"
  shows "queued b = work_queue b ! unat (work_queue_cons b) # queued (pop b)"
proof -
  note bd = queue_bounds [OF wf]
  have c: "work_queue_cons b < work_queue_size b" using wf by (simp add: queue_wf_def)
  have "unat (work_queue_cons b) \<noteq> unat (work_queue_prod b)" using ne by (simp add: word_unat_eq_iff)
  then have n: "queue_count b = Suc (queue_count (pop b))"
    using bd unat_next [OF c] by (auto simp: queue_count_def pop_def split: if_splits)
  have "(unat (work_queue_cons b) + Suc j) mod unat (work_queue_size b) =
      (unat (work_queue_cons (pop b)) + j) mod unat (work_queue_size b)" for j
  proof (cases "Suc (unat (work_queue_cons b)) = unat (work_queue_size b)")
    case True
    then have eq: "unat (work_queue_cons b) + Suc j = unat (work_queue_size b) + j" by simp
    show ?thesis unfolding eq using True unat_next [OF c] by (simp add: pop_def)
  qed (use unat_next [OF c] in \<open>simp add: pop_def\<close>)
  then show ?thesis using bd unfolding queued_def n by (simp add: upt_conv_Cons map_Suc_upt [symmetric] pop_def del: upt_Suc)
qed

lemma queue_empty: "queue_wf b \<Longrightarrow> work_queue_cons b = work_queue_prod b \<longleftrightarrow> queued b = []"
  using pop_queued [of b] by (cases "work_queue_cons b = work_queue_prod b") (simp_all add: queued_def queue_count_def)

text \<open>
  The contract of a ring of slots: it keeps the order as long as one slot stays free, and a put that takes the last free slot
  empties it.
\<close>

locale ring_queue =
  fixes put :: "'a \<Rightarrow> 'q \<Rightarrow> 'q"
    and remove :: "'q \<Rightarrow> 'q"
    and content :: "'q \<Rightarrow> 'a list"
    and ok :: "'q \<Rightarrow> bool"
    and slots :: "'q \<Rightarrow> nat"
  assumes put_ok: "ok q \<Longrightarrow> ok (put x q) \<and> slots (put x q) = slots q"
    and put_content: "ok q \<Longrightarrow> Suc (length (content q)) < slots q \<Longrightarrow> content (put x q) = content q @ [x]"
    and put_last: "ok q \<Longrightarrow> Suc (length (content q)) = slots q \<Longrightarrow> content (put x q) = []"
    and remove_content: "ok q \<Longrightarrow> content q \<noteq> [] \<Longrightarrow> ok (remove q) \<and> content (remove q) = tl (content q)"
begin

lemma put_many:
  "ok q \<Longrightarrow> length (content q) + length xs < slots q \<Longrightarrow>
   content (fold put xs q) = content q @ xs \<and> ok (fold put xs q) \<and> slots (fold put xs q) = slots q"
  by (induction xs arbitrary: q) (auto simp: put_ok put_content)

lemma put_too_many:
  assumes "ok q" and "length (content q) + Suc (length xs) = slots q"
  shows "content (fold put (xs @ [x]) q) = []"
  using put_many [OF assms(1), of xs] put_last [of "fold put xs q" x] assms(2) by simp

lemma first_in_first_out:
  assumes "ok q" and "length (content q) + length xs < slots q" and "n \<le> length (content q)"
  shows "content ((remove ^^ n) (fold put xs q)) = drop n (content q) @ xs \<and> ok ((remove ^^ n) (fold put xs q))"
  using assms(3)
proof (induction n)
  case 0
  with put_many [OF assms(1,2)] show ?case by simp
next
  case (Suc n)
  then have "content ((remove ^^ n) (fold put xs q)) = drop n (content q) @ xs" "ok ((remove ^^ n) (fold put xs q))"
    "drop n (content q) \<noteq> []" by simp_all
  with remove_content [of "(remove ^^ n) (fold put xs q)"] show ?case by (simp add: drop_Suc tl_drop)
qed

end

interpretation work_ring: ring_queue push pop queued queue_wf "\<lambda>b. unat (work_queue_size b)"
proof
  fix q x
  assume "queue_wf q" "queued q \<noteq> []"
  then show "queue_wf (pop q) \<and> queued (pop q) = tl (queued q)"
    using pop_wf pop_queued queue_empty by (metis list.sel(3))
qed (use push_wf push_queued push_full in \<open>auto simp: push_def\<close>)

section \<open>The queues in the server\<close>

definition prio_buf :: "'w rpc_state \<Rightarrow> nat \<Rightarrow> prio_buf_context" where
  "prio_buf s i = wk_prio_buf (rpc_td_worker s) ! i"

lemma put_src_worker [simp]: "rpc_td_worker (put_src p e s) = rpc_td_worker s"
  by (simp add: put_src_def split: src_ptr.split)

lemma dispatch_worker:
  "sx_rpc_core_api_dispatch sys p t s w = Some (err, s', w') \<Longrightarrow> rpc_td_worker s' = rpc_td_worker s"
  by (auto simp: sx_rpc_core_api_dispatch_def Let_def split: Option.bind_split_asm if_splits option.splits prod.splits)

lemma close_worker: "close_event_src sys p s w = Some (s', w') \<Longrightarrow> rpc_td_worker s' = rpc_td_worker s"
  by (auto simp: close_event_src_def sx_rpc_update_fd_sets_def Let_def split: Option.bind_split_asm if_splits prod.splits)

lemma queue_event_push:
  "i < length (wk_prio_buf (rpc_td_worker s)) \<Longrightarrow> prio_buf (fst (queue_event sys i idx s w)) i = push (HIGH_SRC idx) (prio_buf s i)"
  by (simp add: queue_event_def set_prio_buf_def prio_buf_def push_def Let_def)

lemma worker_serve_pop:
  assumes i: "i < length (wk_prio_buf (rpc_td_worker s))" and wf: "queue_wf (prio_buf s i)" and ne: "queued (prio_buf s i) = x # xs"
    and run: "worker_serve sys (Suc i) s w = Some (r, s', w')"
  shows "\<exists>err s1 w1. sx_rpc_core_api_dispatch sys x i s w = Some (err, s1, w1) \<and> \<not> r \<and> queued (prio_buf s' i) = xs \<and>
    queue_wf (prio_buf s' i)"
proof -
  have c: "work_queue_cons (prio_buf s i) \<noteq> work_queue_prod (prio_buf s i)" using queue_empty [OF wf] ne by auto
  from pop_queued [OF wf c] ne have x: "work_queue (prio_buf s i) ! unat (work_queue_cons (prio_buf s i)) = x"
    "queued (pop (prio_buf s i)) = xs" by auto
  from run c x(1) obtain err s1 w1 s2 where d: "sx_rpc_core_api_dispatch sys x i s w = Some (err, s1, w1)"
    "(if err = SX_RPC_STATUS_SUCCESS then Some (s1, w1) else close_event_src sys x s1 w1) = Some (s2, w')" "\<not> r"
    "s' = set_prio_buf i (pop (prio_buf s2 i)) s2"
    by (auto simp: prio_buf_def [symmetric] pop_def Let_def split: Option.bind_split_asm)
  then have "rpc_td_worker s2 = rpc_td_worker s" using dispatch_worker [OF d(1)] by (auto split: if_splits dest: close_worker)
  then have "prio_buf s' i = pop (prio_buf s i)" using d(4) i by (simp add: set_prio_buf_def prio_buf_def)
  with d(1,3) x(2) pop_wf [OF wf] show ?thesis by auto
qed

definition queue_events :: "'w rpc_sys \<Rightarrow> nat \<Rightarrow> 'w \<Rightarrow> nat list \<Rightarrow> 'w rpc_state \<Rightarrow> 'w rpc_state" where
  "queue_events sys i w idxs s = fold (\<lambda>idx s. fst (queue_event sys i idx s w)) idxs s"

lemma queue_events_push:
  "i < length (wk_prio_buf (rpc_td_worker s)) \<Longrightarrow>
   prio_buf (queue_events sys i w idxs s) i = fold push (map HIGH_SRC idxs) (prio_buf s i)"
proof (induction idxs arbitrary: s)
  case Nil
  then show ?case by (simp add: queue_events_def)
next
  case (Cons idx idxs)
  moreover have "i < length (wk_prio_buf (rpc_td_worker (fst (queue_event sys i idx s w))))"
    using Cons.prems by (simp add: queue_event_def set_prio_buf_def Let_def)
  ultimately show ?case using queue_event_push [OF Cons.prems, of sys idx w] by (simp add: queue_events_def)
qed

lemma queue_events_queued:
  assumes "i < length (wk_prio_buf (rpc_td_worker s))" and "queue_wf (prio_buf s i)"
  shows "length (queued (prio_buf s i)) + length idxs < unat (work_queue_size (prio_buf s i)) \<Longrightarrow>
      queued (prio_buf (queue_events sys i w idxs s) i) = queued (prio_buf s i) @ map HIGH_SRC idxs"
    and "idxs \<noteq> [] \<Longrightarrow> length (queued (prio_buf s i)) + length idxs = unat (work_queue_size (prio_buf s i)) \<Longrightarrow>
      queued (prio_buf (queue_events sys i w idxs s) i) = []"
proof -
  note push = queue_events_push [OF assms(1)]
  show "queued (prio_buf (queue_events sys i w idxs s) i) = queued (prio_buf s i) @ map HIGH_SRC idxs"
    if "length (queued (prio_buf s i)) + length idxs < unat (work_queue_size (prio_buf s i))"
    using work_ring.put_many [OF assms(2), of "map HIGH_SRC idxs"] that by (simp add: push)
  show "queued (prio_buf (queue_events sys i w idxs s) i) = []"
    if "idxs \<noteq> []" "length (queued (prio_buf s i)) + length idxs = unat (work_queue_size (prio_buf s i))"
  proof -
    from that(1) obtain js j where j: "idxs = js @ [j]" by (cases idxs rule: rev_cases) auto
    from work_ring.put_too_many [OF assms(2), of "map HIGH_SRC js" "HIGH_SRC j"] that(2) show ?thesis by (simp add: push j)
  qed
qed

lemma queue_events_same:
  "i < length (wk_prio_buf (rpc_td_worker s)) \<Longrightarrow>
   length (wk_prio_buf (rpc_td_worker (queue_events sys i w idxs s))) = length (wk_prio_buf (rpc_td_worker s)) \<and>
   (j \<noteq> i \<longrightarrow> prio_buf (queue_events sys i w idxs s) j = prio_buf s j)"
proof (induction idxs arbitrary: s)
  case (Cons idx idxs)
  let ?s = "fst (queue_event sys i idx s w)"
  have "length (wk_prio_buf (rpc_td_worker ?s)) = length (wk_prio_buf (rpc_td_worker s))" "j \<noteq> i \<Longrightarrow> prio_buf ?s j = prio_buf s j"
    by (simp_all add: queue_event_def set_prio_buf_def prio_buf_def Let_def)
  with Cons.IH [of ?s] Cons.prems show ?case by (simp add: queue_events_def)
qed (simp add: queue_events_def)

lemma queue_events_wf:
  assumes "i < length (wk_prio_buf (rpc_td_worker s))" and "queue_wf (prio_buf s i)"
  shows "queue_wf (prio_buf (queue_events sys i w idxs s) i)"
proof -
  have "queue_wf b \<Longrightarrow> queue_wf (fold push xs b)" for xs b by (induction xs arbitrary: b) (auto simp: push_wf)
  with assms(2) show ?thesis by (simp add: queue_events_push [OF assms(1)])
qed

section \<open>The turns of the worker\<close>

text \<open>
  \<open>serve_list\<close> is what serving the sources of a list means: each is dispatched, closed when the dispatch fails, and taken
  off its queue. \<open>worker_turns\<close> are turns of the worker one after the other, with what each of them says about waiting.
\<close>

fun serve_list ::
  "'w rpc_sys \<Rightarrow> nat \<Rightarrow> src_ptr list \<Rightarrow> 'w rpc_state \<Rightarrow> 'w \<Rightarrow> ('w rpc_state \<times> 'w) option" where
  "serve_list sys i [] s w = Some (s, w)"
| "serve_list sys i (x # xs) s w =
    Option.bind (sx_rpc_core_api_dispatch sys x i s w) (\<lambda>(err, s, w).
      Option.bind (if err = SX_RPC_STATUS_SUCCESS then Some (s, w) else close_event_src sys x s w) (\<lambda>(s, w).
        serve_list sys i xs (set_prio_buf i (pop (prio_buf s i)) s) w))"

fun worker_turns :: "'w rpc_sys \<Rightarrow> nat \<Rightarrow> 'w rpc_state \<Rightarrow> 'w \<Rightarrow> (bool list \<times> 'w rpc_state \<times> 'w) option" where
  "worker_turns sys 0 s w = Some ([], s, w)"
| "worker_turns sys (Suc n) s w =
    Option.bind (worker_serve sys 3 s w) (\<lambda>(wait, s, w).
      map_option (\<lambda>(waits, s, w). (wait # waits, s, w)) (worker_turns sys n s w))"

definition idle_above :: "nat \<Rightarrow> 'w rpc_state \<Rightarrow> bool" where
  "idle_above i s \<longleftrightarrow> (\<forall>j. i < j \<and> j < 3 \<longrightarrow> work_queue_cons (prio_buf s j) = work_queue_prod (prio_buf s j))"

lemma serve_skips:
  "(\<forall>j. i \<le> j \<and> j < n \<longrightarrow> work_queue_cons (prio_buf s j) = work_queue_prod (prio_buf s j)) \<Longrightarrow> i \<le> n \<Longrightarrow>
   worker_serve sys n s w = worker_serve sys i s w"
proof (induction n)
  case (Suc n)
  then show ?case by (cases "i = Suc n") (simp_all add: prio_buf_def)
qed simp

lemma serve_first:
  assumes "i < 3" "idle_above i s" "queue_wf (prio_buf s i)" "queued (prio_buf s i) = x # xs"
  shows "worker_serve sys 3 s w = Option.bind (sx_rpc_core_api_dispatch sys x i s w) (\<lambda>(err, s, w).
      Option.bind (if err = SX_RPC_STATUS_SUCCESS then Some (s, w) else close_event_src sys x s w) (\<lambda>(s, w).
        Some (False, set_prio_buf i (pop (prio_buf s i)) s, w)))"
proof -
  have c: "work_queue_cons (prio_buf s i) \<noteq> work_queue_prod (prio_buf s i)" using queue_empty [OF assms(3)] assms(4) by auto
  with pop_queued [OF assms(3) c] assms(4) have x: "work_queue (prio_buf s i) ! unat (work_queue_cons (prio_buf s i)) = x" by simp
  have "worker_serve sys 3 s w = worker_serve sys (Suc i) s w"
    by (rule serve_skips) (use assms(1,2) in \<open>auto simp: idle_above_def\<close>)
  with c x show ?thesis by (simp add: prio_buf_def [symmetric] pop_def Let_def)
qed

lemma served_state:
  assumes "sx_rpc_core_api_dispatch sys x i s w = Some (err, s1, w1)"
    and "(if err = SX_RPC_STATUS_SUCCESS then Some (s1, w1) else close_event_src sys x s1 w1) = Some (s2, w2)"
    and "i < length (wk_prio_buf (rpc_td_worker s))"
  defines "s3 \<equiv> set_prio_buf i (pop (prio_buf s2 i)) s2"
  shows "prio_buf s3 i = pop (prio_buf s i)" "j \<noteq> i \<Longrightarrow> prio_buf s3 j = prio_buf s j"
    "length (wk_prio_buf (rpc_td_worker s3)) = length (wk_prio_buf (rpc_td_worker s))"
proof -
  have "rpc_td_worker s2 = rpc_td_worker s" using dispatch_worker [OF assms(1)] assms(2) by (auto split: if_splits dest: close_worker)
  with assms(3) show "prio_buf s3 i = pop (prio_buf s i)" "j \<noteq> i \<Longrightarrow> prio_buf s3 j = prio_buf s j"
    "length (wk_prio_buf (rpc_td_worker s3)) = length (wk_prio_buf (rpc_td_worker s))"
    by (simp_all add: s3_def set_prio_buf_def prio_buf_def)
qed

lemma worker_serves:
  assumes "i < 3" "i < length (wk_prio_buf (rpc_td_worker s))" "idle_above i s" "queue_wf (prio_buf s i)"
    "queued (prio_buf s i) = xs"
  shows "worker_turns sys (length xs) s w =
      map_option (\<lambda>(s', w'). (replicate (length xs) False, s', w')) (serve_list sys i xs s w) \<and>
    (\<forall>s' w'. serve_list sys i xs s w = Some (s', w') \<longrightarrow> queued (prio_buf s' i) = [])"
  using assms(2-)
proof (induction xs arbitrary: s w)
  case (Cons x xs)
  note first = serve_first [OF assms(1) Cons.prems(2-4)]
  have c: "work_queue_cons (prio_buf s i) \<noteq> work_queue_prod (prio_buf s i)" using queue_empty [OF Cons.prems(3)] Cons.prems(4) by auto
  with pop_queued [OF Cons.prems(3) c] Cons.prems(4) have pop: "queued (pop (prio_buf s i)) = xs" by simp
  show ?case
  proof (cases "sx_rpc_core_api_dispatch sys x i s w")
    case (Some r)
    obtain err s1 w1 where r: "sx_rpc_core_api_dispatch sys x i s w = Some (err, s1, w1)" using Some by (cases r) auto
    show ?thesis
    proof (cases "if err = SX_RPC_STATUS_SUCCESS then Some (s1, w1) else close_event_src sys x s1 w1")
      case (Some q)
      obtain s2 w2 where q: "(if err = SX_RPC_STATUS_SUCCESS then Some (s1, w1) else close_event_src sys x s1 w1) = Some (s2, w2)"
        using Some by (cases q) auto
      let ?s = "set_prio_buf i (pop (prio_buf s2 i)) s2"
      note st = served_state [OF r q Cons.prems(1)]
      have "i < length (wk_prio_buf (rpc_td_worker ?s))" "idle_above i ?s" "queue_wf (prio_buf ?s i)" "queued (prio_buf ?s i) = xs"
        using st Cons.prems(1-3) pop pop_wf by (auto simp: idle_above_def)
      note IH = Cons.IH [OF this, of w2]
      have turn: "worker_serve sys 3 s w = Some (False, ?s, w2)" using first r q by (simp split del: if_split)
      have list: "serve_list sys i (x # xs) s w = serve_list sys i xs ?s w2" using r q by (simp split del: if_split)
      show ?thesis unfolding list using IH turn by (simp add: option.map_comp comp_def split_beta)
    qed (use first r in simp)
  qed (use first in simp)
qed simp

end
