(* ===== verification/Pool.thy ===== *)
theory Pool
  imports Qlist_Ops Fmap
begin

text \<open>
  The object pools of \<^verbatim>\<open>cl_pool.c\<close>: the quick composite pool, which hands out objects made of
  several components, and the three pools written on top of it (quick pool, composite pool, pool).
  A pool keeps its free objects in a quick list, takes memory in blocks from \<^verbatim>\<open>cl_malloc\<close>, keeps the
  blocks in a second quick list and frees them when it is destroyed. Addresses are 64-bit words
  and \<open>0\<close> is the null pointer. A callback with its context pointer is one function.
\<close>

section \<open>Memory\<close>

text \<open>
  The C library: \<^verbatim>\<open>malloc\<close> (null when it fails), \<^verbatim>\<open>free\<close>, and \<^verbatim>\<open>memset\<close> with the value 0 of a block,
  which clears every field of every structure in it, whatever fields the memory \<open>'m\<close> has.
\<close>

record ('m, 'w) heap_os =
  os_malloc :: "size_t \<Rightarrow> 'w \<Rightarrow> u64 \<times> 'w"
  os_free :: "u64 \<Rightarrow> 'w \<Rightarrow> 'w"
  os_memset0 :: "u64 \<Rightarrow> size_t \<Rightarrow> 'm \<Rightarrow> 'm"

definition cl_malloc :: "('m, 'w) heap_os \<Rightarrow> size_t \<Rightarrow> 'w \<Rightarrow> u64 \<times> 'w" where
  "cl_malloc os n w = os_malloc os n w"

definition cl_free :: "('m, 'w) heap_os \<Rightarrow> u64 \<Rightarrow> 'w \<Rightarrow> cl_status_t \<times> 'w" where
  "cl_free os mem_p w = (CL_SUCCESS, os_free os mem_p w)"

type_synonym 'z lmem = "(u64, 'z) list_mem_scheme"

text \<open>The sizes of the structures on a 64-bit machine (release build).\<close>

definition sizeof_cl_list_item :: size_t where "sizeof_cl_list_item = 16"
definition sizeof_cl_pool_obj :: size_t where "sizeof_cl_pool_obj = 24"
definition sizeof_pointer :: size_t where "sizeof_pointer = 8"
definition sizeof_size :: size_t where "sizeof_size = 8"

definition ROUNDUP :: "size_t \<Rightarrow> size_t \<Rightarrow> size_t" where
  "ROUNDUP val align = val div align * align + (if val mod align \<noteq> 0 then align else 0)"

section \<open>The quick composite pool\<close>

text \<open>
  \<open>qc_sizes_ptr\<close> is the address of the allocated array of component sizes and component pointers;
  \<open>qc_component_sizes\<close> and \<open>qc_p_components\<close> are its contents. An initialiser gets the array of the
  object's component pointers, which it may change, and returns a status and the object's pool
  item.
\<close>

type_synonym ('m, 'w) cl_pfn_qcpool_init_t =
  "u64 list \<Rightarrow> u32 \<Rightarrow> 'm \<Rightarrow> 'w \<Rightarrow> cl_status_t \<times> u64 \<times> u64 list \<times> 'm \<times> 'w"
type_synonym ('m, 'w) cl_pfn_qcpool_dtor_t = "u64 \<Rightarrow> 'm \<Rightarrow> 'w \<Rightarrow> 'm \<times> 'w"

record ('m, 'w) cl_qcpool_t =
  qc_num_components :: u32
  qc_sizes_ptr :: u64
  qc_component_sizes :: "size_t list"
  qc_p_components :: "u64 list"
  qc_num_objects :: size_t
  qc_max_objects :: size_t
  qc_grow_size :: size_t
  qc_pfn_init :: "('m, 'w) cl_pfn_qcpool_init_t option"
  qc_pfn_dtor :: "('m, 'w) cl_pfn_qcpool_dtor_t option"
  qc_free_list :: "u64 cl_qlist_t"
  qc_alloc_list :: "u64 cl_qlist_t"
  qc_state :: cl_state_t

type_synonym ('z, 'w) qcpool = "('z lmem, 'w) cl_qcpool_t"

text \<open>
  \<^verbatim>\<open>memset\<close> clears the structure, the end items of the two lists included. (It also leaves the lists'
  state words 0, which is no value of the enumeration; nothing reads them before
  \<^verbatim>\<open>cl_qlist_init\<close> sets them.)
\<close>

definition clear_list_end ::
  "u64 cl_qlist_t \<Rightarrow> 'z lmem \<Rightarrow> u64 cl_qlist_t \<times> 'z lmem" where
  "clear_list_end l m =
    (l\<lparr>ql_count := 0\<rparr>, m\<lparr>p_next := (p_next m)(ql_end l := 0), p_prev := (p_prev m)(ql_end l := 0)\<rparr>)"

definition cl_qcpool_construct ::
  "('z, 'w) qcpool \<Rightarrow> 'z lmem \<Rightarrow>
   ('z, 'w) qcpool \<times> 'z lmem" where
  "cl_qcpool_construct p m =
    (let (fl, m) = clear_list_end (qc_free_list p) m;
         (al, m) = clear_list_end (qc_alloc_list p) m
     in (\<lparr>qc_num_components = 0, qc_sizes_ptr = 0, qc_component_sizes = [], qc_p_components = [],
          qc_num_objects = 0, qc_max_objects = 0, qc_grow_size = 0, qc_pfn_init = None,
          qc_pfn_dtor = None, qc_free_list = fl, qc_alloc_list = al, qc_state = CL_UNINITIALIZED\<rparr>, m))"

subsection \<open>Growth\<close>

text \<open>The components of an object lie one after the other.\<close>

fun component_ptrs :: "u64 \<Rightarrow> size_t list \<Rightarrow> u64 list" where
  "component_ptrs p [] = []"
| "component_ptrs p (s # ss) = p # component_ptrs (p + s) ss"

definition qcpool_obj_size :: "('m, 'w) cl_qcpool_t \<Rightarrow> size_t" where
  "qcpool_obj_size p = sum_list (take (unat (qc_num_components p)) (qc_component_sizes p))"

text \<open>
  One object: the initialiser, when there is one, and the destructor when the initialiser fails.
  Without an initialiser the pool item is the beginning of the first component.
\<close>

definition qcpool_init_object ::
  "('m, 'w) cl_qcpool_t \<Rightarrow> u64 list \<Rightarrow> 'm \<Rightarrow> 'w \<Rightarrow>
   cl_status_t \<times> u64 \<times> u64 list \<times> 'm \<times> 'w" where
  "qcpool_init_object p comps m w =
    (case qc_pfn_init p of
       Some pfn_init \<Rightarrow>
         let (status, p_pool_item, comps, m, w) = pfn_init comps (qc_num_components p) m w
         in if status \<noteq> CL_SUCCESS
            then let (m, w) = (case qc_pfn_dtor p of Some pfn_dtor \<Rightarrow> pfn_dtor p_pool_item m w
                               | None \<Rightarrow> (m, w))
                 in (status, p_pool_item, comps, m, w)
            else (status, p_pool_item, comps, m, w)
     | None \<Rightarrow> (CL_SUCCESS, comps ! 0, comps, m, w))"

fun qcpool_grow_loop ::
  "nat \<Rightarrow> u64 \<Rightarrow> size_t \<Rightarrow> ('z, 'w) qcpool \<Rightarrow> 'z lmem \<Rightarrow> 'w \<Rightarrow>
   cl_status_t \<times> ('z, 'w) qcpool \<times> 'z lmem \<times> 'w" where
  "qcpool_grow_loop 0 p_objects obj_size p m w = (CL_SUCCESS, p, m, w)"
| "qcpool_grow_loop (Suc obj_count) p_objects obj_size p m w =
    (let comps = component_ptrs p_objects (take (unat (qc_num_components p)) (qc_component_sizes p));
         (status, p_pool_item, comps, m, w) = qcpool_init_object p comps m w;
         p = p\<lparr>qc_p_components := comps\<rparr>
     in if status \<noteq> CL_SUCCESS then (status, p, m, w)
        else
          let (fl, m) = cl_qlist_insert_head (qc_free_list p) p_pool_item m;
              p = p\<lparr>qc_free_list := fl, qc_num_objects := qc_num_objects p + 1\<rparr>
          in qcpool_grow_loop obj_count (p_objects + obj_size) obj_size p m w)"

definition cl_qcpool_grow ::
  "('z lmem, 'w) heap_os \<Rightarrow> ('z, 'w) qcpool \<Rightarrow> size_t \<Rightarrow>
   'z lmem \<Rightarrow> 'w \<Rightarrow>
   cl_status_t \<times> ('z, 'w) qcpool \<times> 'z lmem \<times> 'w" where
  "cl_qcpool_grow os p obj_count m w =
    (if qc_num_objects p = qc_max_objects p then (CL_INSUFFICIENT_MEMORY, p, m, w)
     else
       let obj_count = (if obj_count > qc_max_objects p - qc_num_objects p
                        then qc_max_objects p - qc_num_objects p else obj_count);
           obj_size = qcpool_obj_size p;
           bytes = sizeof_cl_list_item + obj_size * obj_count;
           (p_objects, w) = cl_malloc os bytes w
       in if p_objects = 0 then (CL_INSUFFICIENT_MEMORY, p, m, w)
          else
            let m = os_memset0 os p_objects bytes m;
                (al, m) = cl_qlist_insert_tail (qc_alloc_list p) p_objects m
            in qcpool_grow_loop (unat obj_count) (p_objects + sizeof_cl_list_item) obj_size
                 (p\<lparr>qc_alloc_list := al\<rparr>) m w)"

subsection \<open>Destruction and initialisation\<close>

text \<open>
  The two loops empty a list from its head; \<open>None\<close> is a loop that does not end. The result of
  \<^verbatim>\<open>cl_free\<close> is not looked at.
\<close>

partial_function (option) qcpool_dtor_loop ::
  "('z lmem, 'w) cl_pfn_qcpool_dtor_t \<Rightarrow> u64 cl_qlist_t \<Rightarrow> 'z lmem \<Rightarrow> 'w \<Rightarrow>
   (u64 cl_qlist_t \<times> 'z lmem \<times> 'w) option" where
  "qcpool_dtor_loop pfn_dtor l m w =
    (if \<not> cl_is_qlist_empty l
     then let (p_item, l, m) = cl_qlist_remove_head l m;
              (m, w) = pfn_dtor p_item m w
          in qcpool_dtor_loop pfn_dtor l m w
     else Some (l, m, w))"

partial_function (option) qcpool_free_loop ::
  "('z lmem, 'w) heap_os \<Rightarrow> u64 cl_qlist_t \<Rightarrow> 'z lmem \<Rightarrow> 'w \<Rightarrow>
   (u64 cl_qlist_t \<times> 'z lmem \<times> 'w) option" where
  "qcpool_free_loop os l m w =
    (if \<not> cl_is_qlist_empty l
     then let (p_item, l, m) = cl_qlist_remove_head l m
          in qcpool_free_loop os l m (snd (cl_free os p_item w))
     else Some (l, m, w))"

definition cl_qcpool_destroy ::
  "('z lmem, 'w) heap_os \<Rightarrow> ('z, 'w) qcpool \<Rightarrow>
   'z lmem \<Rightarrow> 'w \<Rightarrow>
   (('z, 'w) qcpool \<times> 'z lmem \<times> 'w) option" where
  "cl_qcpool_destroy os p m w =
    (if qc_state p = CL_INITIALIZED
     then
       Option.bind
         (case qc_pfn_dtor p of
            Some pfn_dtor \<Rightarrow> qcpool_dtor_loop pfn_dtor (qc_free_list p) m w
          | None \<Rightarrow> (let (fl, m) = cl_qlist_remove_all (qc_free_list p) m in Some (fl, m, w)))
         (\<lambda>(fl, m, w). Option.bind (qcpool_free_loop os (qc_alloc_list p) m w)
         (\<lambda>(al, m, w).
            let p = p\<lparr>qc_free_list := fl, qc_alloc_list := al\<rparr>;
                (p, w) = (if qc_sizes_ptr p \<noteq> 0
                          then (p\<lparr>qc_sizes_ptr := 0, qc_component_sizes := []\<rparr>,
                                snd (cl_free os (qc_sizes_ptr p) w))
                          else (p, w))
            in Some (p\<lparr>qc_state := CL_UNINITIALIZED\<rparr>, m, w)))
     else Some (p\<lparr>qc_state := CL_UNINITIALIZED\<rparr>, m, w))"

definition cl_qcpool_init ::
  "('z lmem, 'w) heap_os \<Rightarrow> ('z, 'w) qcpool \<Rightarrow>
   size_t \<Rightarrow> size_t \<Rightarrow> size_t \<Rightarrow> size_t list \<Rightarrow> u32 \<Rightarrow>
   ('z lmem, 'w) cl_pfn_qcpool_init_t option \<Rightarrow>
   ('z lmem, 'w) cl_pfn_qcpool_dtor_t option \<Rightarrow> 'z lmem \<Rightarrow> 'w \<Rightarrow>
   (cl_status_t \<times> ('z, 'w) qcpool \<times> 'z lmem \<times> 'w) option" where
  "cl_qcpool_init os p min_size max_size grow_size component_sizes num_components
     pfn_initializer pfn_destructor m w =
    (let (p, m) = cl_qcpool_construct p m
     in if num_components > 1 \<and> pfn_initializer = None then Some (CL_INVALID_SETTING, p, m, w)
        else if max_size \<noteq> 0 \<and> max_size < min_size then Some (CL_INVALID_SETTING, p, m, w)
        else
          let bytes = (sizeof_size + sizeof_pointer) * ucast num_components;
              (sizes_ptr, w) = cl_malloc os bytes w
          in if sizes_ptr = 0 then Some (CL_INSUFFICIENT_MEMORY, p, m, w)
             else
               let m = os_memset0 os sizes_ptr bytes m;
                   sizes = map (\<lambda>s. ROUNDUP s sizeof_pointer) (take (unat num_components) component_sizes);
                   p = p\<lparr>qc_sizes_ptr := sizes_ptr, qc_component_sizes := sizes,
                         qc_p_components := replicate (unat num_components) 0,
                         qc_num_components := num_components,
                         qc_max_objects := (if max_size \<noteq> 0 then max_size else - 1),
                         qc_grow_size := grow_size, qc_pfn_init := pfn_initializer,
                         qc_pfn_dtor := pfn_destructor\<rparr>;
                   (al, m) = cl_qlist_init (qc_alloc_list p) m;
                   (fl, m) = cl_qlist_init (qc_free_list p) m;
                   p = p\<lparr>qc_alloc_list := al, qc_free_list := fl, qc_state := CL_INITIALIZED\<rparr>
               in if min_size = 0 then Some (CL_SUCCESS, p, m, w)
                  else
                    let (status, p, m, w) = cl_qcpool_grow os p min_size m w
                    in if status \<noteq> CL_SUCCESS
                       then Option.bind (cl_qcpool_destroy os p m w) (\<lambda>(p, m, w). Some (status, p, m, w))
                       else Some (status, p, m, w))"

subsection \<open>Taking and returning objects\<close>

definition cl_is_qcpool_inited :: "('m, 'w) cl_qcpool_t \<Rightarrow> bool" where
  "cl_is_qcpool_inited p \<longleftrightarrow> qc_state p = CL_INITIALIZED"

definition cl_qcpool_count :: "('m, 'w) cl_qcpool_t \<Rightarrow> size_t" where
  "cl_qcpool_count p = ucast (cl_qlist_count (qc_free_list p))"

text \<open>The first half of both ways of taking an object: grow the pool when it is empty.\<close>

definition qcpool_refill ::
  "('z lmem, 'w) heap_os \<Rightarrow> ('z, 'w) qcpool \<Rightarrow>
   'z lmem \<Rightarrow> 'w \<Rightarrow>
   bool \<times> ('z, 'w) qcpool \<times> 'z lmem \<times> 'w" where
  "qcpool_refill os p m w =
    (if cl_is_qlist_empty (qc_free_list p)
     then if qc_grow_size p = 0 then (False, p, m, w)
          else let (_, p, m, w) = cl_qcpool_grow os p (qc_grow_size p) m w
               in (\<not> cl_is_qlist_empty (qc_free_list p), p, m, w)
     else (True, p, m, w))"

definition cl_qcpool_get ::
  "('z lmem, 'w) heap_os \<Rightarrow> ('z, 'w) qcpool \<Rightarrow>
   'z lmem \<Rightarrow> 'w \<Rightarrow>
   u64 \<times> ('z, 'w) qcpool \<times> 'z lmem \<times> 'w" where
  "cl_qcpool_get os p m w =
    (let (some, p, m, w) = qcpool_refill os p m w
     in if \<not> some then (0, p, m, w)
        else let (p_list_item, fl, m) = cl_qlist_remove_head (qc_free_list p) m
             in (p_list_item, p\<lparr>qc_free_list := fl\<rparr>, m, w))"

definition cl_qcpool_get_tail ::
  "('z lmem, 'w) heap_os \<Rightarrow> ('z, 'w) qcpool \<Rightarrow>
   'z lmem \<Rightarrow> 'w \<Rightarrow>
   u64 \<times> ('z, 'w) qcpool \<times> 'z lmem \<times> 'w" where
  "cl_qcpool_get_tail os p m w =
    (let (some, p, m, w) = qcpool_refill os p m w
     in if \<not> some then (0, p, m, w)
        else let (p_list_item, fl, m) = cl_qlist_remove_tail (qc_free_list p) m
             in (p_list_item, p\<lparr>qc_free_list := fl\<rparr>, m, w))"

definition cl_qcpool_put ::
  "('z, 'w) qcpool \<Rightarrow> u64 \<Rightarrow> 'z lmem \<Rightarrow>
   ('z, 'w) qcpool \<times> 'z lmem" where
  "cl_qcpool_put p p_pool_item m =
    (let (fl, m) = cl_qlist_insert_head (qc_free_list p) p_pool_item m
     in (p\<lparr>qc_free_list := fl\<rparr>, m))"

definition cl_qcpool_put_list ::
  "('z, 'w) qcpool \<Rightarrow> u64 cl_qlist_t \<Rightarrow> 'z lmem \<Rightarrow>
   ('z, 'w) qcpool \<times> u64 cl_qlist_t \<times> 'z lmem" where
  "cl_qcpool_put_list p l m =
    (let (fl, l, m) = cl_qlist_insert_list_head (qc_free_list p) l m
     in (p\<lparr>qc_free_list := fl\<rparr>, l, m))"

section \<open>The quick pool\<close>

text \<open>
  A quick pool's objects have one component. Its callbacks are the composite pool's with the quick
  pool itself as the context: they are partial applications to the pool, and they are installed
  only where the user gave a callback.
\<close>

record ('m, 'w) cl_qpool_t =
  qp_qcpool :: "('m, 'w) cl_qcpool_t"
  qp_pfn_init :: "(u64 \<Rightarrow> 'm \<Rightarrow> 'w \<Rightarrow> cl_status_t \<times> u64 \<times> 'm \<times> 'w) option"
  qp_pfn_dtor :: "(u64 \<Rightarrow> 'm \<Rightarrow> 'w \<Rightarrow> 'm \<times> 'w) option"

definition cl_qpool_init_cb :: "('m, 'w) cl_qpool_t \<Rightarrow> ('m, 'w) cl_pfn_qcpool_init_t" where
  "cl_qpool_init_cb p p_comp_array num_components m w =
    (let (status, p_pool_item, m, w) = the (qp_pfn_init p) (p_comp_array ! 0) m w
     in (status, p_pool_item, p_comp_array, m, w))"

definition cl_qpool_dtor_cb :: "('m, 'w) cl_qpool_t \<Rightarrow> ('m, 'w) cl_pfn_qcpool_dtor_t" where
  "cl_qpool_dtor_cb p p_pool_item m w = the (qp_pfn_dtor p) p_pool_item m w"

definition cl_qpool_construct ::
  "('z lmem, 'w) cl_qpool_t \<Rightarrow> 'z lmem \<Rightarrow> ('z lmem, 'w) cl_qpool_t \<times> 'z lmem" where
  "cl_qpool_construct p m =
    (let (qc, m) = cl_qcpool_construct (qp_qcpool p) m
     in (\<lparr>qp_qcpool = qc, qp_pfn_init = None, qp_pfn_dtor = None\<rparr>, m))"

definition cl_qpool_init ::
  "('z lmem, 'w) heap_os \<Rightarrow> ('z lmem, 'w) cl_qpool_t \<Rightarrow> size_t \<Rightarrow> size_t \<Rightarrow> size_t \<Rightarrow> size_t \<Rightarrow>
   (u64 \<Rightarrow> 'z lmem \<Rightarrow> 'w \<Rightarrow> cl_status_t \<times> u64 \<times> 'z lmem \<times> 'w) option \<Rightarrow>
   (u64 \<Rightarrow> 'z lmem \<Rightarrow> 'w \<Rightarrow> 'z lmem \<times> 'w) option \<Rightarrow> 'z lmem \<Rightarrow> 'w \<Rightarrow>
   (cl_status_t \<times> ('z lmem, 'w) cl_qpool_t \<times> 'z lmem \<times> 'w) option" where
  "cl_qpool_init os p min_size max_size grow_size object_size pfn_initializer pfn_destructor m w =
    (let p = p\<lparr>qp_pfn_init := pfn_initializer, qp_pfn_dtor := pfn_destructor\<rparr>
     in Option.bind
          (cl_qcpool_init os (qp_qcpool p) min_size max_size grow_size [object_size] 1
             (if pfn_initializer \<noteq> None then Some (cl_qpool_init_cb p) else None)
             (if pfn_destructor \<noteq> None then Some (cl_qpool_dtor_cb p) else None) m w)
          (\<lambda>(status, qc, m, w). Some (status, p\<lparr>qp_qcpool := qc\<rparr>, m, w)))"

definition cl_is_qpool_inited :: "('m, 'w) cl_qpool_t \<Rightarrow> bool" where
  "cl_is_qpool_inited p = cl_is_qcpool_inited (qp_qcpool p)"

definition cl_qpool_destroy ::
  "('z lmem, 'w) heap_os \<Rightarrow> ('z lmem, 'w) cl_qpool_t \<Rightarrow> 'z lmem \<Rightarrow> 'w \<Rightarrow>
   (('z lmem, 'w) cl_qpool_t \<times> 'z lmem \<times> 'w) option" where
  "cl_qpool_destroy os p m w =
    Option.bind (cl_qcpool_destroy os (qp_qcpool p) m w)
      (\<lambda>(qc, m, w). Some (p\<lparr>qp_qcpool := qc\<rparr>, m, w))"

definition cl_qpool_count :: "('m, 'w) cl_qpool_t \<Rightarrow> size_t" where
  "cl_qpool_count p = cl_qcpool_count (qp_qcpool p)"

definition cl_qpool_get ::
  "('z lmem, 'w) heap_os \<Rightarrow> ('z lmem, 'w) cl_qpool_t \<Rightarrow> 'z lmem \<Rightarrow> 'w \<Rightarrow>
   u64 \<times> ('z lmem, 'w) cl_qpool_t \<times> 'z lmem \<times> 'w" where
  "cl_qpool_get os p m w =
    (let (it, qc, m, w) = cl_qcpool_get os (qp_qcpool p) m w in (it, p\<lparr>qp_qcpool := qc\<rparr>, m, w))"

definition cl_qpool_put ::
  "('z lmem, 'w) cl_qpool_t \<Rightarrow> u64 \<Rightarrow> 'z lmem \<Rightarrow> ('z lmem, 'w) cl_qpool_t \<times> 'z lmem" where
  "cl_qpool_put p p_pool_item m =
    (let (qc, m) = cl_qcpool_put (qp_qcpool p) p_pool_item m in (p\<lparr>qp_qcpool := qc\<rparr>, m))"

definition cl_qpool_put_list ::
  "('z lmem, 'w) cl_qpool_t \<Rightarrow> u64 cl_qlist_t \<Rightarrow> 'z lmem \<Rightarrow>
   ('z lmem, 'w) cl_qpool_t \<times> u64 cl_qlist_t \<times> 'z lmem" where
  "cl_qpool_put_list p l m =
    (let (qc, l, m) = cl_qcpool_put_list (qp_qcpool p) l m in (p\<lparr>qp_qcpool := qc\<rparr>, l, m))"

definition cl_qpool_grow ::
  "('z lmem, 'w) heap_os \<Rightarrow> ('z lmem, 'w) cl_qpool_t \<Rightarrow> size_t \<Rightarrow> 'z lmem \<Rightarrow> 'w \<Rightarrow>
   cl_status_t \<times> ('z lmem, 'w) cl_qpool_t \<times> 'z lmem \<times> 'w" where
  "cl_qpool_grow os p obj_count m w =
    (let (status, qc, m, w) = cl_qcpool_grow os (qp_qcpool p) obj_count m w
     in (status, p\<lparr>qp_qcpool := qc\<rparr>, m, w))"

section \<open>The composite pool\<close>

text \<open>
  The composite pool and the pool put a \<^verbatim>\<open>cl_pool_obj_t\<close> before the user's object and hide it: the
  user sees the address behind it, which the structure's \<^verbatim>\<open>p_object\<close> field holds. The memory is
  that of the map items (which the pools do not touch) with this field.
\<close>

record 'k pool_mem = "(u64, 'k) map_mem" +
  p_object :: "u64 \<Rightarrow> u64"

type_synonym ('k, 'z) pmem = "('k, 'z) pool_mem_scheme"

record ('m, 'w) cl_cpool_t =
  cp_qcpool :: "('m, 'w) cl_qcpool_t"
  cp_pfn_init :: "(u64 list \<Rightarrow> u32 \<Rightarrow> 'm \<Rightarrow> 'w \<Rightarrow> cl_status_t \<times> u64 list \<times> 'm \<times> 'w) option"
  cp_pfn_dtor :: "(u64 \<Rightarrow> 'm \<Rightarrow> 'w \<Rightarrow> 'm \<times> 'w) option"

definition cl_cpool_init_cb ::
  "(('k, 'z) pmem, 'w) cl_cpool_t \<Rightarrow> (('k, 'z) pmem, 'w) cl_pfn_qcpool_init_t" where
  "cl_cpool_init_cb p p_comp_array num_components m w =
    (let p_pool_obj = p_comp_array ! 0;
         p_comp_array = p_comp_array[0 := p_comp_array ! 0 + sizeof_cl_pool_obj];
         m = m\<lparr>p_object := (p_object m)(p_pool_obj := p_comp_array ! 0)\<rparr>
     in case cp_pfn_init p of
          Some pfn_init \<Rightarrow> (let (status, p_comp_array, m, w) = pfn_init p_comp_array num_components m w
                          in (status, p_pool_obj, p_comp_array, m, w))
        | None \<Rightarrow> (CL_SUCCESS, p_pool_obj, p_comp_array, m, w))"

definition cl_cpool_dtor_cb ::
  "(('k, 'z) pmem, 'w) cl_cpool_t \<Rightarrow> (('k, 'z) pmem, 'w) cl_pfn_qcpool_dtor_t" where
  "cl_cpool_dtor_cb p p_pool_item m w = the (cp_pfn_dtor p) (p_object m p_pool_item) m w"

definition cl_cpool_construct ::
  "('z lmem, 'w) cl_cpool_t \<Rightarrow> 'z lmem \<Rightarrow> ('z lmem, 'w) cl_cpool_t \<times> 'z lmem" where
  "cl_cpool_construct p m =
    (let (qc, m) = cl_qcpool_construct (cp_qcpool p) m
     in (\<lparr>cp_qcpool = qc, cp_pfn_init = None, cp_pfn_dtor = None\<rparr>, m))"

definition cl_cpool_init ::
  "(('k, 'z) pmem, 'w) heap_os \<Rightarrow> (('k, 'z) pmem, 'w) cl_cpool_t \<Rightarrow> size_t \<Rightarrow> size_t \<Rightarrow> size_t \<Rightarrow> size_t list \<Rightarrow> u32 \<Rightarrow>
   (u64 list \<Rightarrow> u32 \<Rightarrow> ('k, 'z) pmem \<Rightarrow> 'w \<Rightarrow> cl_status_t \<times> u64 list \<times> ('k, 'z) pmem \<times> 'w) option \<Rightarrow>
   (u64 \<Rightarrow> ('k, 'z) pmem \<Rightarrow> 'w \<Rightarrow> ('k, 'z) pmem \<times> 'w) option \<Rightarrow> ('k, 'z) pmem \<Rightarrow> 'w \<Rightarrow>
   (cl_status_t \<times> (('k, 'z) pmem, 'w) cl_cpool_t \<times> ('k, 'z) pmem \<times> 'w) option" where
  "cl_cpool_init os p min_size max_size grow_size component_sizes num_components
     pfn_initializer pfn_destructor m w =
    (let component_sizes = component_sizes[0 := component_sizes ! 0 + sizeof_cl_pool_obj];
         p = p\<lparr>cp_pfn_init := pfn_initializer, cp_pfn_dtor := pfn_destructor\<rparr>
     in Option.bind
          (cl_qcpool_init os (cp_qcpool p) min_size max_size grow_size component_sizes num_components
             (Some (cl_cpool_init_cb p))
             (if pfn_destructor \<noteq> None then Some (cl_cpool_dtor_cb p) else None) m w)
          (\<lambda>(status, qc, m, w). Some (status, p\<lparr>cp_qcpool := qc\<rparr>, m, w)))"

definition cl_is_cpool_inited :: "('m, 'w) cl_cpool_t \<Rightarrow> bool" where
  "cl_is_cpool_inited p = cl_is_qcpool_inited (cp_qcpool p)"

definition cl_cpool_destroy ::
  "('z lmem, 'w) heap_os \<Rightarrow> ('z lmem, 'w) cl_cpool_t \<Rightarrow> 'z lmem \<Rightarrow> 'w \<Rightarrow>
   (('z lmem, 'w) cl_cpool_t \<times> 'z lmem \<times> 'w) option" where
  "cl_cpool_destroy os p m w =
    Option.bind (cl_qcpool_destroy os (cp_qcpool p) m w)
      (\<lambda>(qc, m, w). Some (p\<lparr>cp_qcpool := qc\<rparr>, m, w))"

definition cl_cpool_count :: "('m, 'w) cl_cpool_t \<Rightarrow> size_t" where
  "cl_cpool_count p = cl_qcpool_count (cp_qcpool p)"

definition cl_cpool_get ::
  "(('k, 'z) pmem, 'w) heap_os \<Rightarrow> (('k, 'z) pmem, 'w) cl_cpool_t \<Rightarrow> ('k, 'z) pmem \<Rightarrow> 'w \<Rightarrow>
   u64 \<times> (('k, 'z) pmem, 'w) cl_cpool_t \<times> ('k, 'z) pmem \<times> 'w" where
  "cl_cpool_get os p m w =
    (let (p_pool_obj, qc, m, w) = cl_qcpool_get os (cp_qcpool p) m w;
         p = p\<lparr>cp_qcpool := qc\<rparr>
     in if p_pool_obj = 0 then (0, p, m, w) else (p_object m p_pool_obj, p, m, w))"

definition cl_cpool_put ::
  "(('k, 'z) pmem, 'w) cl_cpool_t \<Rightarrow> u64 \<Rightarrow> ('k, 'z) pmem \<Rightarrow> (('k, 'z) pmem, 'w) cl_cpool_t \<times> ('k, 'z) pmem" where
  "cl_cpool_put p obj m =
    (let (qc, m) = cl_qcpool_put (cp_qcpool p) (obj - sizeof_cl_pool_obj) m
     in (p\<lparr>cp_qcpool := qc\<rparr>, m))"

text \<open>The number of objects to add is a \<^verbatim>\<open>uint32_t\<close> here.\<close>

definition cl_cpool_grow ::
  "('z lmem, 'w) heap_os \<Rightarrow> ('z lmem, 'w) cl_cpool_t \<Rightarrow> u32 \<Rightarrow> 'z lmem \<Rightarrow> 'w \<Rightarrow>
   cl_status_t \<times> ('z lmem, 'w) cl_cpool_t \<times> 'z lmem \<times> 'w" where
  "cl_cpool_grow os p obj_count m w =
    (let (status, qc, m, w) = cl_qcpool_grow os (cp_qcpool p) (ucast obj_count) m w
     in (status, p\<lparr>cp_qcpool := qc\<rparr>, m, w))"

section \<open>The pool\<close>

record ('m, 'w) cl_pool_t =
  pl_qcpool :: "('m, 'w) cl_qcpool_t"
  pl_pfn_init :: "(u64 \<Rightarrow> 'm \<Rightarrow> 'w \<Rightarrow> cl_status_t \<times> 'm \<times> 'w) option"
  pl_pfn_dtor :: "(u64 \<Rightarrow> 'm \<Rightarrow> 'w \<Rightarrow> 'm \<times> 'w) option"

definition cl_pool_init_cb ::
  "(('k, 'z) pmem, 'w) cl_pool_t \<Rightarrow> (('k, 'z) pmem, 'w) cl_pfn_qcpool_init_t" where
  "cl_pool_init_cb p pp_obj num_objs m w =
    (let p_pool_obj = pp_obj ! 0;
         pp_obj = pp_obj[0 := pp_obj ! 0 + sizeof_cl_pool_obj];
         m = m\<lparr>p_object := (p_object m)(p_pool_obj := pp_obj ! 0)\<rparr>
     in case pl_pfn_init p of
          Some pfn_init \<Rightarrow> (let (status, m, w) = pfn_init (pp_obj ! 0) m w
                          in (status, p_pool_obj, pp_obj, m, w))
        | None \<Rightarrow> (CL_SUCCESS, p_pool_obj, pp_obj, m, w))"

definition cl_pool_dtor_cb ::
  "(('k, 'z) pmem, 'w) cl_pool_t \<Rightarrow> (('k, 'z) pmem, 'w) cl_pfn_qcpool_dtor_t" where
  "cl_pool_dtor_cb p p_pool_item m w = the (pl_pfn_dtor p) (p_object m p_pool_item) m w"

definition cl_pool_construct ::
  "('z lmem, 'w) cl_pool_t \<Rightarrow> 'z lmem \<Rightarrow> ('z lmem, 'w) cl_pool_t \<times> 'z lmem" where
  "cl_pool_construct p m =
    (let (qc, m) = cl_qcpool_construct (pl_qcpool p) m
     in (\<lparr>pl_qcpool = qc, pl_pfn_init = None, pl_pfn_dtor = None\<rparr>, m))"

definition cl_pool_init ::
  "(('k, 'z) pmem, 'w) heap_os \<Rightarrow> (('k, 'z) pmem, 'w) cl_pool_t \<Rightarrow> size_t \<Rightarrow> size_t \<Rightarrow> size_t \<Rightarrow> size_t \<Rightarrow>
   (u64 \<Rightarrow> ('k, 'z) pmem \<Rightarrow> 'w \<Rightarrow> cl_status_t \<times> ('k, 'z) pmem \<times> 'w) option \<Rightarrow>
   (u64 \<Rightarrow> ('k, 'z) pmem \<Rightarrow> 'w \<Rightarrow> ('k, 'z) pmem \<times> 'w) option \<Rightarrow> ('k, 'z) pmem \<Rightarrow> 'w \<Rightarrow>
   (cl_status_t \<times> (('k, 'z) pmem, 'w) cl_pool_t \<times> ('k, 'z) pmem \<times> 'w) option" where
  "cl_pool_init os p min_size max_size grow_size object_size pfn_initializer pfn_destructor m w =
    (let total_size = object_size + sizeof_cl_pool_obj;
         p = p\<lparr>pl_pfn_init := pfn_initializer, pl_pfn_dtor := pfn_destructor\<rparr>
     in Option.bind
          (cl_qcpool_init os (pl_qcpool p) min_size max_size grow_size [total_size] 1
             (Some (cl_pool_init_cb p))
             (if pfn_destructor \<noteq> None then Some (cl_pool_dtor_cb p) else None) m w)
          (\<lambda>(status, qc, m, w). Some (status, p\<lparr>pl_qcpool := qc\<rparr>, m, w)))"

definition cl_is_pool_inited :: "('m, 'w) cl_pool_t \<Rightarrow> bool" where
  "cl_is_pool_inited p = cl_is_qcpool_inited (pl_qcpool p)"

definition cl_pool_destroy ::
  "('z lmem, 'w) heap_os \<Rightarrow> ('z lmem, 'w) cl_pool_t \<Rightarrow> 'z lmem \<Rightarrow> 'w \<Rightarrow>
   (('z lmem, 'w) cl_pool_t \<times> 'z lmem \<times> 'w) option" where
  "cl_pool_destroy os p m w =
    Option.bind (cl_qcpool_destroy os (pl_qcpool p) m w)
      (\<lambda>(qc, m, w). Some (p\<lparr>pl_qcpool := qc\<rparr>, m, w))"

definition cl_pool_count :: "('m, 'w) cl_pool_t \<Rightarrow> size_t" where
  "cl_pool_count p = cl_qcpool_count (pl_qcpool p)"

definition cl_pool_get ::
  "(('k, 'z) pmem, 'w) heap_os \<Rightarrow> (('k, 'z) pmem, 'w) cl_pool_t \<Rightarrow> ('k, 'z) pmem \<Rightarrow> 'w \<Rightarrow>
   u64 \<times> (('k, 'z) pmem, 'w) cl_pool_t \<times> ('k, 'z) pmem \<times> 'w" where
  "cl_pool_get os p m w =
    (let (p_pool_obj, qc, m, w) = cl_qcpool_get os (pl_qcpool p) m w;
         p = p\<lparr>pl_qcpool := qc\<rparr>
     in if p_pool_obj = 0 then (0, p, m, w) else (p_object m p_pool_obj, p, m, w))"

definition cl_pool_put ::
  "(('k, 'z) pmem, 'w) cl_pool_t \<Rightarrow> u64 \<Rightarrow> ('k, 'z) pmem \<Rightarrow> (('k, 'z) pmem, 'w) cl_pool_t \<times> ('k, 'z) pmem" where
  "cl_pool_put p obj m =
    (let (qc, m) = cl_qcpool_put (pl_qcpool p) (obj - sizeof_cl_pool_obj) m
     in (p\<lparr>pl_qcpool := qc\<rparr>, m))"

definition cl_pool_grow ::
  "('z lmem, 'w) heap_os \<Rightarrow> ('z lmem, 'w) cl_pool_t \<Rightarrow> size_t \<Rightarrow> 'z lmem \<Rightarrow> 'w \<Rightarrow>
   cl_status_t \<times> ('z lmem, 'w) cl_pool_t \<times> 'z lmem \<times> 'w" where
  "cl_pool_grow os p obj_count m w =
    (let (status, qc, m, w) = cl_qcpool_grow os (pl_qcpool p) obj_count m w
     in (status, p\<lparr>pl_qcpool := qc\<rparr>, m, w))"

end
