(* ===== verification/Pool_Inv.thy ===== *)
theory Pool_Inv
  imports Pool
begin

text \<open>
  What a pool is, and that its operations keep it so. \<open>pool_rep L off m p free used blocks\<close>: the pool
  \<open>p\<close> holds the free objects \<open>free\<close> (in the order they are handed out), the objects \<open>used\<close> are with the
  user, and \<open>blocks\<close> are the allocations made. \<open>L\<close> is the set of addresses that are allocated. The
  objects do not overlap, so a user who writes to an object he holds disturbs neither the pool nor
  another object.
\<close>

section \<open>Addresses\<close>

definition addr_range :: "u64 \<Rightarrow> nat \<Rightarrow> u64 set" where
  "addr_range a n = {x. unat a \<le> unat x \<and> unat x < unat a + n}"

text \<open>The object of a pool item: \<open>off\<close> is the offset of the item in it.\<close>

definition obj_span :: "u64 \<Rightarrow> size_t \<Rightarrow> u64 \<Rightarrow> u64 set" where
  "obj_span off s it = addr_range (it - off) (unat s)"

lemma addr_range_sub: "unat b + n \<le> unat a + k \<Longrightarrow> unat a \<le> unat b \<Longrightarrow> addr_range b n \<subseteq> addr_range a k"
  by (auto simp: addr_range_def)

lemma addr_range_disj: "unat a + n \<le> unat b \<Longrightarrow> addr_range a n \<inter> addr_range b k = {}"
  by (auto simp: addr_range_def)

lemma unat_add_no_wrap: "unat a + unat b < 2 ^ 64 \<Longrightarrow> unat (a + b :: u64) = unat a + unat b"
  by (simp add: unat_word_ariths(1))

lemma null_not_in_range: "a \<noteq> 0 \<Longrightarrow> 0 \<notin> addr_range a n"
  by (simp add: addr_range_def unat_eq_0)

definition layout :: "u64 set \<Rightarrow> u64 \<Rightarrow> size_t \<Rightarrow> u64 set \<Rightarrow> u64 set \<Rightarrow> bool" where
  "layout L off s K I \<longleftrightarrow> off < s \<and> 0 \<notin> L \<and> K \<subseteq> L \<and>
    (\<forall>a\<in>I. unat (a - off) + unat s \<le> 2 ^ 64 \<and> a \<in> obj_span off s a \<and> obj_span off s a \<subseteq> L \<and> obj_span off s a \<inter> K = {} \<and>
      (\<forall>b\<in>I. a \<noteq> b \<longrightarrow> obj_span off s a \<inter> obj_span off s b = {}))"

lemma layout_mono: "layout L off s K I \<Longrightarrow> L \<subseteq> L' \<Longrightarrow> 0 \<notin> L' \<Longrightarrow> layout L' off s K I"
  unfolding layout_def by blast

lemma layout_items: "layout L off s K I \<Longrightarrow> a \<in> I \<Longrightarrow> a \<in> L \<and> a \<notin> K \<and> a \<noteq> 0"
  unfolding layout_def by blast

lemma layout_keep: "layout L off s K I \<Longrightarrow> k \<in> L \<Longrightarrow> (\<And>a. a \<in> I \<Longrightarrow> k \<notin> obj_span off s a) \<Longrightarrow> layout L off s (insert k K) I"
  unfolding layout_def by auto

lemma layout_add:
  assumes lay: "layout L off s K I" and sub: "addr_range a (unat s) \<subseteq> L"
    and K: "addr_range a (unat s) \<inter> K = {}"
    and I: "\<And>b. b \<in> I \<Longrightarrow> addr_range a (unat s) \<inter> obj_span off s b = {}"
    and top: "unat a + unat s \<le> 2 ^ 64"
  shows "layout L off s K (insert (a + off) I) \<and> a + off \<notin> I \<and> a + off \<notin> K"
proof -
  have off: "unat off < unat s" using lay by (simp add: layout_def word_less_nat_alt)
  have span: "obj_span off s (a + off) = addr_range a (unat s)" by (simp add: obj_span_def)
  have "unat (a + off) = unat a + unat off"
    by (rule unat_add_no_wrap) (use off top in linarith)
  then have mem: "a + off \<in> addr_range a (unat s)" using off by (simp add: addr_range_def)
  have notin: "a + off \<notin> I"
  proof
    assume "a + off \<in> I"
    then have "a + off \<in> obj_span off s (a + off)" using lay by (auto simp: layout_def)
    with I [OF \<open>a + off \<in> I\<close>] mem show False by auto
  qed
  have "layout L off s K (insert (a + off) I)"
    unfolding layout_def
  proof (intro conjI ballI)
    show "off < s" "0 \<notin> L" "K \<subseteq> L" using lay by (simp_all add: layout_def)
    fix x assume x: "x \<in> insert (a + off) I"
    show "unat (x - off) + unat s \<le> 2 ^ 64" using x top lay by (auto simp: layout_def)
    show "x \<in> obj_span off s x" using x mem span lay by (auto simp: layout_def)
    show "obj_span off s x \<subseteq> L" using x sub span lay by (auto simp: layout_def)
    show "obj_span off s x \<inter> K = {}" using x K span lay by (auto simp: layout_def)
    fix y assume y: "y \<in> insert (a + off) I"
    show "x \<noteq> y \<longrightarrow> obj_span off s x \<inter> obj_span off s y = {}"
      using x y I span lay unfolding layout_def by blast
  qed
  with notin mem K show ?thesis by auto
qed

section \<open>Well-formed pools\<close>

definition pool_ends :: "('m, 'w) cl_qcpool_t \<Rightarrow> u64 set" where
  "pool_ends p = {ql_end (qc_free_list p), ql_end (qc_alloc_list p)}"

definition pool_rep ::
  "u64 set \<Rightarrow> u64 \<Rightarrow> 'z lmem \<Rightarrow> ('z, 'w) qcpool \<Rightarrow> u64 list \<Rightarrow> u64 set \<Rightarrow> u64 list \<Rightarrow> bool" where
  "pool_rep L off m p free used blocks \<longleftrightarrow>
    qc_state p = CL_INITIALIZED \<and>
    qlist m (qc_free_list p) free \<and> qlist m (qc_alloc_list p) blocks \<and>
    ql_end (qc_free_list p) \<notin> insert (ql_end (qc_alloc_list p)) (set blocks) \<and>
    finite used \<and> set free \<inter> used = {} \<and>
    unat (qc_num_objects p) = length free + card used \<and> qc_num_objects p \<le> qc_max_objects p \<and>
    layout L off (qcpool_obj_size p) (pool_ends p \<union> set blocks) (set free \<union> used)"

text \<open>What stays the same over the life of a pool.\<close>

definition pool_config ::
  "('m, 'w) cl_qcpool_t \<Rightarrow> u32 \<times> size_t list \<times> size_t \<times> size_t \<times>
   ('m, 'w) cl_pfn_qcpool_init_t option \<times> ('m, 'w) cl_pfn_qcpool_dtor_t option \<times> u64 \<times> u64 \<times> u64" where
  "pool_config p = (qc_num_components p, qc_component_sizes p, qc_max_objects p, qc_grow_size p,
     qc_pfn_init p, qc_pfn_dtor p, qc_sizes_ptr p, ql_end (qc_free_list p), ql_end (qc_alloc_list p))"

lemma config_same:
  assumes "pool_config p' = pool_config p"
  shows "qcpool_obj_size p' = qcpool_obj_size p" "pool_ends p' = pool_ends p"
    "qcpool_init_object p' = qcpool_init_object p" "qc_max_objects p' = qc_max_objects p"
    "qc_grow_size p' = qc_grow_size p" "qc_num_components p' = qc_num_components p"
    "qc_component_sizes p' = qc_component_sizes p"
proof -
  have e: "qc_pfn_init p' = qc_pfn_init p" "qc_pfn_dtor p' = qc_pfn_dtor p"
    "qc_num_components p' = qc_num_components p"
    using assms by (simp_all add: pool_config_def)
  show "qcpool_init_object p' = qcpool_init_object p"
    by (intro ext) (unfold qcpool_init_object_def e, rule refl)
qed (use assms in \<open>simp_all add: pool_config_def qcpool_obj_size_def pool_ends_def\<close>)

lemma pool_apart:
  assumes "pool_rep L off m p free used blocks"
  shows "apart (qc_free_list p) free (qc_alloc_list p) blocks"
proof -
  have rep: "ql_end (qc_free_list p) \<notin> insert (ql_end (qc_alloc_list p)) (set blocks)"
    "ql_end (qc_free_list p) \<notin> set free" "ql_end (qc_alloc_list p) \<notin> set blocks"
    using assms qlist_end_notin [of m "qc_free_list p" free] qlist_end_notin [of m "qc_alloc_list p" blocks]
    by (simp_all add: pool_rep_def)
  have lay: "layout L off (qcpool_obj_size p) (pool_ends p \<union> set blocks) (set free \<union> used)"
    using assms by (simp add: pool_rep_def)
  have free: "a \<notin> set blocks \<and> a \<noteq> ql_end (qc_alloc_list p)" if "a \<in> set free" for a
    using layout_items [OF lay, of a] that by (simp add: pool_ends_def)
  show ?thesis using rep free by (auto simp: apart_def)
qed

lemma pool_rep_null: "pool_rep L off m p free used blocks \<Longrightarrow> a \<in> set free \<union> used \<Longrightarrow> a \<noteq> 0"
  unfolding pool_rep_def using layout_items by blast

text \<open>
  The user may write to the objects he holds, and anywhere outside the pool; memory may be
  allocated meanwhile.
\<close>

lemma pool_rep_frame:
  assumes rep: "pool_rep L off m p free used blocks" and mono: "L \<subseteq> L'" "0 \<notin> L'"
    and same: "\<And>x. x \<in> pool_ends p \<union> set blocks \<union> set free \<Longrightarrow>
      p_next m' x = p_next m x \<and> p_prev m' x = p_prev m x"
  shows "pool_rep L' off m' p free used blocks"
proof -
  have "qlist_at m' (ql_end (qc_free_list p)) free = qlist_at m (ql_end (qc_free_list p)) free"
    by (rule qlist_at_cong) (use same in \<open>auto simp: pool_ends_def\<close>)
  moreover have "qlist_at m' (ql_end (qc_alloc_list p)) blocks = qlist_at m (ql_end (qc_alloc_list p)) blocks"
    by (rule qlist_at_cong) (use same in \<open>auto simp: pool_ends_def\<close>)
  ultimately show ?thesis
    using rep layout_mono [OF _ mono] by (simp add: pool_rep_def qlist_def)
qed

text \<open>The links outside a set of addresses stay as they are.\<close>

definition links_same :: "u64 set \<Rightarrow> 'z lmem \<Rightarrow> 'z lmem \<Rightarrow> bool" where
  "links_same A m m' \<longleftrightarrow> (\<forall>x. x \<notin> A \<longrightarrow> p_next m' x = p_next m x \<and> p_prev m' x = p_prev m x)"

lemma links_same_refl [simp]: "links_same A m m"
  by (simp add: links_same_def)

lemma links_same_trans: "links_same A m m' \<Longrightarrow> links_same A m' m'' \<Longrightarrow> links_same A m m''"
  by (simp add: links_same_def)

lemma links_same_mono: "links_same A m m' \<Longrightarrow> A \<subseteq> B \<Longrightarrow> links_same B m m'"
  by (auto simp: links_same_def)

lemma insert_head_same:
  assumes "qlist m l xs" and "cl_qlist_insert_head l x m = (l', m')"
  shows "links_same (insert x (insert (ql_end l) (set xs))) m m'"
proof -
  have "cl_qlist_head l m \<in> insert (ql_end l) (set xs)" using qlist_head [OF assms(1)] by (cases xs) auto
  then show ?thesis
    using assms primitive_insert_frame [of m "ql_end l" xs "cl_qlist_head l m" _ x]
    by (auto simp: links_same_def cl_qlist_insert_head_def qlist_def)
qed

lemma insert_tail_same:
  assumes "qlist m l xs" and "cl_qlist_insert_tail l x m = (l', m')"
  shows "links_same (insert x (insert (ql_end l) (set xs))) m m'"
  using assms primitive_insert_frame [of m "ql_end l" xs "ql_end l" _ x]
  by (auto simp: links_same_def cl_qlist_insert_tail_def qlist_def)

lemma qlist_same:
  assumes "qlist m l xs" and "links_same A m m'" and "A \<inter> insert (ql_end l) (set xs) = {}"
  shows "qlist m' l xs"
proof -
  have "qlist_at m' (ql_end l) xs = qlist_at m (ql_end l) xs"
    by (rule qlist_at_cong) (use assms(2,3) in \<open>auto simp: links_same_def\<close>)
  with assms(1) show ?thesis by (simp add: qlist_def)
qed

section \<open>Adding an object\<close>

lemma pool_insert_free:
  assumes rep: "pool_rep L off m p free used blocks"
    and lay: "layout L off (qcpool_obj_size p) (pool_ends p \<union> set blocks) (insert it (set free \<union> used))"
    and it: "it \<notin> set free" and used': "used' = used - {it}"
    and n: "unat n = Suc (length free) + card used'" "n \<le> qc_max_objects p"
    and ins: "cl_qlist_insert_head (qc_free_list p) it m = (fl, m')"
  shows "pool_rep L off m' (p\<lparr>qc_free_list := fl, qc_num_objects := n\<rparr>) (it # free) used' blocks"
proof -
  have itK: "it \<noteq> ql_end (qc_free_list p)" "it \<notin> insert (ql_end (qc_alloc_list p)) (set blocks)"
    using layout_items [OF lay, of it] by (auto simp: pool_ends_def)
  have q: "qlist m (qc_free_list p) free" "qlist m (qc_alloc_list p) blocks"
    using rep by (simp_all add: pool_rep_def)
  have fl: "fl = (qc_free_list p)\<lparr>ql_count := ql_count (qc_free_list p) + 1\<rparr>"
    and m': "m' = cl_primitive_insert (cl_qlist_head (qc_free_list p) m) it m"
    using ins by (simp_all add: cl_qlist_insert_head_def)
  have hd: "cl_qlist_head (qc_free_list p) m \<in> insert (ql_end (qc_free_list p)) (set free)"
    using qlist_head [OF q(1)] by (cases free) auto
  have "qlist m' fl (it # free)" by (rule qlist_insert_head [OF q(1) it itK(1) ins])
  moreover have "qlist m' (qc_alloc_list p) blocks"
    unfolding m' by (rule qlist_other_insert [OF q(2) q(1) pool_apart [OF rep] hd itK(2)])
  moreover have "insert it (set free \<union> used) = set (it # free) \<union> used'"
    using used' by auto
  moreover have "set (it # free) \<inter> used' = {}" "finite used'"
    using rep used' by (auto simp: pool_rep_def)
  ultimately show ?thesis
    using rep lay n fl by (simp add: pool_rep_def pool_ends_def qcpool_obj_size_def)
qed

section \<open>Growth\<close>

text \<open>
  What a pool relies on. The C library: an allocated block lies inside the address space and is
  disjoint from everything allocated before; \<^verbatim>\<open>memset\<close> writes only inside its block. The user's
  callbacks: a successful initialiser returns the pool item at the fixed offset \<open>off\<close> of the object,
  and the callbacks write no list links outside the object and release nothing.
\<close>

definition heap_law :: "('z lmem, 'w) heap_os \<Rightarrow> ('w \<Rightarrow> u64 set) \<Rightarrow> bool" where
  "heap_law os live \<longleftrightarrow>
    (\<forall>n w p w'. os_malloc os n w = (p, w') \<longrightarrow>
       (if p = 0 then live w' = live w
        else unat p + unat n \<le> 2 ^ 64 \<and> addr_range p (unat n) \<inter> live w = {} \<and>
          live w' = live w \<union> addr_range p (unat n))) \<and>
    (\<forall>p n m x. x \<notin> addr_range p (unat n) \<longrightarrow>
       p_next (os_memset0 os p n m) x = p_next m x \<and> p_prev (os_memset0 os p n m) x = p_prev m x)"

definition init_law :: "('w \<Rightarrow> u64 set) \<Rightarrow> u64 \<Rightarrow> ('z, 'w) qcpool \<Rightarrow> bool" where
  "init_law live off p \<longleftrightarrow>
    (\<forall>a as m w st it comps m' w'. qcpool_init_object p (a # as) m w = (st, it, comps, m', w') \<longrightarrow>
       (st = CL_SUCCESS \<longrightarrow> it = a + off) \<and> live w \<subseteq> live w' \<and> (0 \<notin> live w \<longrightarrow> 0 \<notin> live w') \<and>
       (\<forall>x. x \<notin> addr_range a (unat (qcpool_obj_size p)) \<longrightarrow>
          p_next m' x = p_next m x \<and> p_prev m' x = p_prev m x))"

text \<open>Without an initialiser the law holds of itself.\<close>

lemma init_law_none: "qc_pfn_init p = None \<Longrightarrow> init_law live 0 p"
  by (simp add: init_law_def qcpool_init_object_def)

definition new_items :: "u64 \<Rightarrow> size_t \<Rightarrow> u64 \<Rightarrow> nat \<Rightarrow> u64 list" where
  "new_items a s off n = rev (map (\<lambda>i. a + of_nat i * s + off) [0..<n])"

lemma new_items_Suc: "new_items a s off (Suc n) = new_items (a + s) s off n @ [a + off]"
proof -
  have "[0..<Suc n] = 0 # map Suc [0..<n]" by (simp add: map_Suc_upt upt_conv_Cons del: upt_Suc)
  then show ?thesis by (simp add: new_items_def algebra_simps comp_def del: upt_Suc)
qed

lemma new_items_simps [simp]: "new_items a s off 0 = []" "length (new_items a s off n) = n"
  by (simp_all add: new_items_def)

lemma new_items_range:
  assumes "off < s" "unat a + n * unat s \<le> 2 ^ 64" "k \<le> n"
  shows "set (new_items a s off k) \<subseteq> addr_range a (n * unat s)"
  using assms(2,3)
proof (induction k arbitrary: a n)
  case 0
  then show ?case by simp
next
  case (Suc k)
  then obtain n' where n: "n = Suc n'" "k \<le> n'" by (cases n) auto
  have off: "unat off < unat s" using assms(1) by (simp add: word_less_nat_alt)
  have "unat (a + off) = unat a + unat off"
    by (rule unat_add_no_wrap) (use off Suc.prems n in simp)
  then have head: "a + off \<in> addr_range a (n * unat s)" using off n by (simp add: addr_range_def)
  have "set (new_items (a + s) s off k) \<subseteq> addr_range a (n * unat s)"
  proof (cases "k = 0")
    case False
    then have "unat s \<le> n' * unat s" using n by (cases n') auto
    moreover have "unat a + (unat s + n' * unat s) \<le> 2 ^ 64" using Suc.prems(1) n(1) by simp
    ultimately have "unat a + unat s < 2 ^ 64" using off by linarith
    then have ua: "unat (a + s) = unat a + unat s" by (rule unat_add_no_wrap)
    have "set (new_items (a + s) s off k) \<subseteq> addr_range (a + s) (n' * unat s)"
      by (rule Suc.IH) (use ua Suc.prems n in simp_all)
    also have "\<dots> \<subseteq> addr_range a (n * unat s)"
      by (rule addr_range_sub) (use ua n in simp_all)
    finally show ?thesis .
  qed simp
  with head show ?case by (simp add: new_items_Suc)
qed

lemma component_ptrs_first:
  "sum_list ss \<noteq> 0 \<Longrightarrow> \<exists>as. component_ptrs a ss = a # as"
  by (cases ss) auto

definition fresh_for :: "u64 set \<Rightarrow> u64 \<Rightarrow> ('m, 'w) cl_qcpool_t \<Rightarrow> u64 list \<Rightarrow> u64 set \<Rightarrow> u64 list \<Rightarrow> bool" where
  "fresh_for R off p free used blocks \<longleftrightarrow> R \<inter> (pool_ends p \<union> set blocks) = {} \<and>
    (\<forall>a\<in>set free \<union> used. R \<inter> obj_span off (qcpool_obj_size p) a = {})"

lemma fresh_sub: "fresh_for R off p free used blocks \<Longrightarrow> R' \<subseteq> R \<Longrightarrow> fresh_for R' off p free used blocks"
  unfolding fresh_for_def by blast

lemma unat_add_1: "unat a + 1 \<le> unat (b :: u64) \<Longrightarrow> unat (a + 1 :: u64) = unat a + 1"
  using unat_add_no_wrap [of a 1] unsigned_less [of b, where 'a = nat] by simp

text \<open>The callbacks of one object leave the pool as it was.\<close>

lemma init_object_keeps:
  assumes law: "init_law live off p" and rep: "pool_rep (live w) off m p free used blocks"
    and fresh: "fresh_for (addr_range a (unat (qcpool_obj_size p))) off p free used blocks"
    and ini: "qcpool_init_object p (a # as) m w = (st, it, comps, m', w')"
  shows "pool_rep (live w') off m' p free used blocks \<and> live w \<subseteq> live w' \<and>
    (st = CL_SUCCESS \<longrightarrow> it = a + off) \<and> links_same (addr_range a (unat (qcpool_obj_size p))) m m'"
proof -
  have lay: "layout (live w) off (qcpool_obj_size p) (pool_ends p \<union> set blocks) (set free \<union> used)"
    using rep by (simp add: pool_rep_def)
  have live: "live w \<subseteq> live w'" "0 \<notin> live w'" "st = CL_SUCCESS \<longrightarrow> it = a + off"
    using law ini lay unfolding init_law_def layout_def by blast+
  have "pool_rep (live w') off m' p free used blocks"
  proof (rule pool_rep_frame [OF rep live(1,2)])
    fix x assume x: "x \<in> pool_ends p \<union> set blocks \<union> set free"
    have "x \<notin> addr_range a (unat (qcpool_obj_size p))"
    proof (cases "x \<in> set free")
      case True
      then have "x \<in> obj_span off (qcpool_obj_size p) x" using lay by (simp add: layout_def)
      with True fresh show ?thesis unfolding fresh_for_def by blast
    qed (use x fresh in \<open>auto simp: fresh_for_def\<close>)
    then show "p_next m' x = p_next m x \<and> p_prev m' x = p_prev m x"
      using law ini unfolding init_law_def by blast
  qed
  moreover have "links_same (addr_range a (unat (qcpool_obj_size p))) m m'"
    using law ini unfolding init_law_def links_same_def by blast
  ultimately show ?thesis using live by simp
qed

text \<open>An initialised object goes to the head of the free list.\<close>

lemma add_object:
  assumes rep: "pool_rep L off m p free used blocks" and s: "s = qcpool_obj_size p"
    and range: "addr_range a (unat s) \<subseteq> L" "unat a + unat s \<le> 2 ^ 64"
    and fresh: "fresh_for (addr_range a (unat s)) off p free used blocks"
    and room: "unat (qc_num_objects p) + 1 \<le> unat (qc_max_objects p)"
    and ins: "cl_qlist_insert_head (qc_free_list p) (a + off) m = (fl, m')"
    and p': "p' = p\<lparr>qc_p_components := comps, qc_free_list := fl, qc_num_objects := qc_num_objects p + 1\<rparr>"
  shows "pool_rep L off m' p' ((a + off) # free) used blocks \<and> pool_config p' = pool_config p"
proof -
  define p1 where "p1 = p\<lparr>qc_p_components := comps\<rparr>"
  have rep1: "pool_rep L off m p1 free used blocks"
    using rep by (simp add: p1_def pool_rep_def pool_ends_def qcpool_obj_size_def)
  have "layout L off s (pool_ends p \<union> set blocks) (set free \<union> used)"
    using rep s by (simp add: pool_rep_def)
  then have add: "layout L off s (pool_ends p \<union> set blocks) (insert (a + off) (set free \<union> used)) \<and>
      a + off \<notin> set free \<union> used \<and> a + off \<notin> pool_ends p \<union> set blocks"
    by (rule layout_add [OF _ range(1) _ _ range(2)])
      (use fresh s in \<open>unfold fresh_for_def, blast+\<close>)
  have n: "unat (qc_num_objects p1 + 1) = unat (qc_num_objects p1) + 1"
    by (rule unat_add_1) (use room in \<open>simp add: p1_def\<close>)
  have "pool_rep L off m' (p1\<lparr>qc_free_list := fl, qc_num_objects := qc_num_objects p1 + 1\<rparr>)
      ((a + off) # free) used blocks"
  proof (rule pool_insert_free [OF rep1])
    show "layout L off (qcpool_obj_size p1) (pool_ends p1 \<union> set blocks) (insert (a + off) (set free \<union> used))"
      using add s by (simp add: p1_def pool_ends_def qcpool_obj_size_def)
    show "unat (qc_num_objects p1 + 1) = Suc (length free) + card used"
      using n rep1 by (simp add: pool_rep_def)
    show "qc_num_objects p1 + 1 \<le> qc_max_objects p1"
      using n room by (simp add: p1_def word_le_nat_alt)
  qed (use add ins in \<open>auto simp: p1_def\<close>)
  moreover have "ql_end fl = ql_end (qc_free_list p)"
    using ins by (auto simp: cl_qlist_insert_head_def)
  ultimately show ?thesis by (simp add: p' p1_def pool_config_def)
qed

text \<open>The rest of the block is still fresh for the pool with the new object.\<close>

lemma fresh_next:
  assumes "fresh_for (addr_range a (Suc n * unat s)) off p free used blocks"
    and "pool_config p' = pool_config p" and "unat (a + s) = unat a + unat s" and "s = qcpool_obj_size p"
  shows "fresh_for (addr_range (a + s) (n * unat s)) off p' ((a + off) # free) used blocks"
    and "addr_range (a + s) (n * unat s) \<subseteq> addr_range a (Suc n * unat s)"
proof -
  note c = config_same [OF assms(2)]
  show sub: "addr_range (a + s) (n * unat s) \<subseteq> addr_range a (Suc n * unat s)"
    by (rule addr_range_sub) (simp_all add: assms(3))
  have "addr_range (a + s) (n * unat s) \<inter> obj_span off s (a + off) = {}"
    using addr_range_disj [of a "unat s" "a + s" "n * unat s"] assms(3) by (auto simp: obj_span_def)
  then show "fresh_for (addr_range (a + s) (n * unat s)) off p' ((a + off) # free) used blocks"
    using fresh_sub [OF assms(1) sub] assms(4) by (simp add: fresh_for_def c)
qed

lemma grow_loop:
  assumes "init_law live off p" and "pool_rep (live w) off m p free used blocks"
    and "s = qcpool_obj_size p" and "unat a + n * unat s \<le> 2 ^ 64"
    and "addr_range a (n * unat s) \<subseteq> live w"
    and "fresh_for (addr_range a (n * unat s)) off p free used blocks"
    and "unat (qc_num_objects p) + n \<le> unat (qc_max_objects p)"
    and "qcpool_grow_loop n a s p m w = (st, p', m', w')"
  shows "\<exists>k\<le>n. (st = CL_SUCCESS \<longleftrightarrow> k = n) \<and> pool_config p' = pool_config p \<and> live w \<subseteq> live w' \<and>
    pool_rep (live w') off m' p' (new_items a s off k @ free) used blocks \<and>
    links_same (addr_range a (n * unat s) \<union> pool_ends p \<union> set free) m m'"
  using assms
proof (induction n arbitrary: a p m w free)
  case 0
  then show ?case by (intro exI [of _ 0]) simp
next
  case (Suc n)
  note law = Suc.prems(1) and rep = Suc.prems(2) and s = Suc.prems(3)
  have pos: "0 < unat s" using rep s by (auto simp: pool_rep_def layout_def word_less_nat_alt)
  then have "sum_list (take (unat (qc_num_components p)) (qc_component_sizes p)) \<noteq> 0"
    using s by (auto simp: qcpool_obj_size_def)
  then obtain as where comps:
    "component_ptrs a (take (unat (qc_num_components p)) (qc_component_sizes p)) = a # as"
    using component_ptrs_first by blast
  obtain st1 it comps1 m1 w1 where ini: "qcpool_init_object p (a # as) m w = (st1, it, comps1, m1, w1)"
    by (metis prod_cases5)
  have one: "addr_range a (unat s) \<subseteq> addr_range a (Suc n * unat s)"
    by (rule addr_range_sub) simp_all
  note fresh1 = fresh_sub [OF Suc.prems(6) one]
  have keeps: "pool_rep (live w1) off m1 p free used blocks" "live w \<subseteq> live w1"
    "st1 = CL_SUCCESS \<longrightarrow> it = a + off" "links_same (addr_range a (unat s)) m m1"
    using init_object_keeps [OF law rep _ ini] fresh1 s by simp_all
  have same1: "links_same (addr_range a (Suc n * unat s) \<union> pool_ends p \<union> set free) m m1"
    by (rule links_same_mono [OF keeps(4)]) (use one in blast)
  show ?case
  proof (cases "st1 = CL_SUCCESS")
    case False
    then have "st = st1" "p' = p\<lparr>qc_p_components := comps1\<rparr>" "m' = m1" "w' = w1"
      using Suc.prems(8) by (simp_all add: comps ini)
    with False keeps same1 show ?thesis
      by (intro exI [of _ 0]) (simp add: pool_config_def pool_rep_def pool_ends_def qcpool_obj_size_def)
  next
    case True
    with keeps have it: "it = a + off" by simp
    obtain fl m2 where ins: "cl_qlist_insert_head (qc_free_list p) it m1 = (fl, m2)" by (metis surj_pair)
    define p2 where "p2 = p\<lparr>qc_p_components := comps1, qc_free_list := fl, qc_num_objects := qc_num_objects p + 1\<rparr>"
    have run: "qcpool_grow_loop n (a + s) s p2 m2 w1 = (st, p', m', w')"
      using Suc.prems(8) True ins by (simp add: comps ini p2_def)
    have rep2: "pool_rep (live w1) off m2 p2 ((a + off) # free) used blocks" and cfg2: "pool_config p2 = pool_config p"
      using add_object [OF keeps(1) s _ _ fresh1 _ ins [unfolded it] p2_def] one keeps(2) Suc.prems(4,5,7) by auto
    note c2 = config_same [OF cfg2]
    have "a + off \<in> addr_range a (unat s)"
      using rep2 c2(1) s by (auto simp: pool_rep_def layout_def obj_span_def)
    then have ain: "a + off \<in> addr_range a (Suc n * unat s)" using one by blast
    have "qlist m1 (qc_free_list p) free" using keeps(1) by (simp add: pool_rep_def)
    from insert_head_same [OF this ins] ain it
    have "links_same (addr_range a (Suc n * unat s) \<union> pool_ends p \<union> set free) m1 m2"
      by (auto simp: pool_ends_def elim!: links_same_mono)
    then have same2: "links_same (addr_range a (Suc n * unat s) \<union> pool_ends p \<union> set free) m m2"
      using same1 links_same_trans by blast
    show ?thesis
    proof (cases "n = 0")
      case True
      with run rep2 cfg2 keeps(2) same2 show ?thesis
        by (intro exI [of _ 1]) (simp add: new_items_def)
    next
      case False
      then have "unat a + unat s < 2 ^ 64" using Suc.prems(4) pos by (cases n) auto
      then have ua: "unat (a + s) = unat a + unat s" by (rule unat_add_no_wrap)
      note nxt = fresh_next [OF Suc.prems(6) cfg2 ua s]
      have law2: "init_law live off p2" using law by (simp add: init_law_def c2)
      have "\<exists>k\<le>n. (st = CL_SUCCESS \<longleftrightarrow> k = n) \<and> pool_config p' = pool_config p2 \<and> live w1 \<subseteq> live w' \<and>
          pool_rep (live w') off m' p' (new_items (a + s) s off k @ (a + off) # free) used blocks \<and>
          links_same (addr_range (a + s) (n * unat s) \<union> pool_ends p2 \<union> set ((a + off) # free)) m2 m'"
      proof (rule Suc.IH [OF law2 rep2 _ _ _ nxt(1) _ run])
        show "s = qcpool_obj_size p2" by (simp add: c2 s)
        show "unat (a + s) + n * unat s \<le> 2 ^ 64" using ua Suc.prems(4) by simp
        show "addr_range (a + s) (n * unat s) \<subseteq> live w1" using nxt(2) Suc.prems(5) keeps(2) by blast
        show "unat (qc_num_objects p2) + n \<le> unat (qc_max_objects p2)"
          using Suc.prems(7) rep2 rep by (simp add: p2_def pool_rep_def)
      qed
      then obtain k where k: "k \<le> n" "st = CL_SUCCESS \<longleftrightarrow> k = n" "pool_config p' = pool_config p2"
          "live w1 \<subseteq> live w'"
          "pool_rep (live w') off m' p' (new_items (a + s) s off k @ (a + off) # free) used blocks"
          "links_same (addr_range (a + s) (n * unat s) \<union> pool_ends p2 \<union> set ((a + off) # free)) m2 m'"
        by blast
      have same3: "links_same (addr_range a (Suc n * unat s) \<union> pool_ends p \<union> set free) m m'"
        using links_same_trans [OF same2 links_same_mono [OF k(6)]] nxt(2) ain c2(2) by auto
      show ?thesis
        using k cfg2 keeps(2) same3 by (intro exI [of _ "Suc k"]) (auto simp: new_items_Suc)
    qed
  qed
qed

lemma add_block:
  assumes rep: "pool_rep L off m p free used blocks" and b: "b \<notin> L"
    and ins: "cl_qlist_insert_tail (qc_alloc_list p) b m = (al, m')" and p': "p' = p\<lparr>qc_alloc_list := al\<rparr>"
    and L': "L \<subseteq> L'" "b \<in> L'" "0 \<notin> L'"
  shows "pool_rep L' off m' p' free used (blocks @ [b]) \<and> pool_config p' = pool_config p"
proof -
  have lay: "layout L off (qcpool_obj_size p) (pool_ends p \<union> set blocks) (set free \<union> used)"
    and q: "qlist m (qc_free_list p) free" "qlist m (qc_alloc_list p) blocks"
    using rep by (simp_all add: pool_rep_def)
  have bK: "b \<notin> pool_ends p \<union> set blocks \<union> set free" and bs: "b \<notin> obj_span off (qcpool_obj_size p) a"
    if "a \<in> set free \<union> used" for a
    using lay b that layout_items [OF lay] unfolding layout_def by blast+
  have bK: "b \<notin> pool_ends p \<union> set blocks \<union> set free"
    using lay b layout_items [OF lay] unfolding layout_def by blast
  have al: "al = (qc_alloc_list p)\<lparr>ql_count := ql_count (qc_alloc_list p) + 1\<rparr>"
    and m': "m' = cl_primitive_insert (ql_end (qc_alloc_list p)) b m"
    using ins by (simp_all add: cl_qlist_insert_tail_def)
  have "qlist m' al (blocks @ [b])"
    by (rule qlist_insert_tail [OF q(2) _ _ ins]) (use bK in \<open>auto simp: pool_ends_def\<close>)
  moreover have "qlist m' (qc_free_list p) free"
    unfolding m' by (rule qlist_other_insert [OF q(1) q(2)])
      (use pool_apart [OF rep] bK in \<open>auto simp: apart_def pool_ends_def\<close>)
  moreover have "layout L' off (qcpool_obj_size p) (insert b (pool_ends p \<union> set blocks)) (set free \<union> used)"
    by (rule layout_keep [OF layout_mono [OF lay L'(1,3)] L'(2)]) (use bs in blast)
  ultimately show ?thesis
    using rep bK by (auto simp: p' al pool_rep_def pool_ends_def qcpool_obj_size_def pool_config_def)
qed

text \<open>
  Growth adds at most the number of objects that the limit leaves room for, and all of them when it
  succeeds. It fails, and changes nothing, when the limit is reached or the allocation fails; when
  an initialiser fails the objects made before it stay. The size of the block must not
  wrap around.
\<close>

definition growth :: "('m, 'w) cl_qcpool_t \<Rightarrow> size_t \<Rightarrow> nat" where
  "growth p obj_count = min (unat obj_count) (unat (qc_max_objects p) - unat (qc_num_objects p))"

definition grow_bytes :: "('m, 'w) cl_qcpool_t \<Rightarrow> size_t \<Rightarrow> size_t" where
  "grow_bytes p obj_count = 16 + qcpool_obj_size p * of_nat (growth p obj_count)"

lemma capped_count:
  assumes "qc_num_objects p \<le> qc_max_objects p"
  shows "unat (if obj_count > qc_max_objects p - qc_num_objects p
    then qc_max_objects p - qc_num_objects p else obj_count) = growth p obj_count"
  using assms by (auto simp: growth_def word_less_nat_alt word_le_nat_alt unat_sub)

lemma block_size:
  assumes "16 + unat s * k < 2 ^ 64" and "unat c = k"
  shows "unat (sizeof_cl_list_item + s * c) = 16 + unat s * k"
proof -
  have "unat (s * c) = unat s * k" using assms by (simp add: unat_word_ariths(2))
  then show ?thesis using assms unat_add_no_wrap [of 16 "s * c"] by (simp add: sizeof_cl_list_item_def)
qed

lemma object_area:
  assumes "unat b + (16 + n) \<le> 2 ^ 64"
  shows "unat (b + 16) + n \<le> 2 ^ 64" and "addr_range (b + 16) n \<subseteq> addr_range b (16 + n) - {b}"
proof -
  have "unat (b + 16) = unat b + 16" if "n \<noteq> 0"
    using unat_add_no_wrap [of b 16] assms that by simp
  then show "unat (b + 16) + n \<le> 2 ^ 64" "addr_range (b + 16) n \<subseteq> addr_range b (16 + n) - {b}"
    using assms unsigned_less [of "b + 16", where 'a = nat] by (cases "n = 0"; auto simp: addr_range_def)+
qed

text \<open>The allocation of a block: the pool with the block, and the room in it for the objects.\<close>

lemma grow_block:
  assumes heap: "heap_law os live" and rep: "pool_rep (live w) off m p free used blocks"
    and mal: "os_malloc os bytes w = (b, w1)" "b \<noteq> 0" and bytes: "unat bytes = 16 + n"
    and ins: "cl_qlist_insert_tail (qc_alloc_list p) b (os_memset0 os b bytes m) = (al, m2)"
    and p2: "p2 = p\<lparr>qc_alloc_list := al\<rparr>"
  shows "pool_rep (live w1) off m2 p2 free used (blocks @ [b]) \<and> pool_config p2 = pool_config p \<and>
    live w \<subseteq> live w1 \<and> b \<notin> live w \<and> addr_range (b + 16) n \<subseteq> live w1 \<and> unat (b + 16) + n \<le> 2 ^ 64 \<and>
    fresh_for (addr_range (b + 16) n) off p2 free used (blocks @ [b]) \<and>
    addr_range (b + 16) n \<inter> live w = {} \<and> links_same (- live w \<union> pool_ends p \<union> set blocks) m m2"
proof -
  have blk: "unat b + unat bytes \<le> 2 ^ 64" "addr_range b (unat bytes) \<inter> live w = {}"
    "live w1 = live w \<union> addr_range b (unat bytes)"
    using heap mal unfolding heap_law_def by (metis (full_types))+
  note area = object_area [of b n, OF blk(1) [unfolded bytes]]
  have lay: "layout (live w) off (qcpool_obj_size p) (pool_ends p \<union> set blocks) (set free \<union> used)"
    using rep by (simp add: pool_rep_def)
  then have null: "0 \<notin> live w" by (simp add: layout_def)
  have bin: "b \<in> addr_range b (unat bytes)" using bytes by (simp add: addr_range_def)
  have frame: "pool_rep (live w) off (os_memset0 os b bytes m) p free used blocks"
  proof (rule pool_rep_frame [OF rep subset_refl null])
    fix x assume "x \<in> pool_ends p \<union> set blocks \<union> set free"
    then have "x \<in> live w" using lay layout_items [OF lay, of x] by (auto simp: layout_def)
    with blk(2) have "x \<notin> addr_range b (unat bytes)" by blast
    with heap show "p_next (os_memset0 os b bytes m) x = p_next m x \<and>
        p_prev (os_memset0 os b bytes m) x = p_prev m x"
      unfolding heap_law_def by blast
  qed
  have new: "pool_rep (live w1) off m2 p2 free used (blocks @ [b]) \<and> pool_config p2 = pool_config p"
    by (rule add_block [OF frame _ ins p2])
      (use blk bin null null_not_in_range [OF mal(2)] in auto)
  have sub: "addr_range (b + 16) n \<inter> live w = {}" "b \<notin> addr_range (b + 16) n"
    using area(2) blk(2) bytes by auto
  have "fresh_for (addr_range (b + 16) n) off p2 free used (blocks @ [b])"
    unfolding fresh_for_def config_same(1,2) [OF conjunct2 [OF new]]
  proof (intro conjI ballI)
    show "addr_range (b + 16) n \<inter> (pool_ends p \<union> set (blocks @ [b])) = {}"
      using lay sub by (auto simp: layout_def)
    fix a assume "a \<in> set free \<union> used"
    then have "obj_span off (qcpool_obj_size p) a \<subseteq> live w" using lay by (simp add: layout_def)
    then show "addr_range (b + 16) n \<inter> obj_span off (qcpool_obj_size p) a = {}" using sub by blast
  qed
  moreover have "links_same (- live w \<union> pool_ends p \<union> set blocks) m m2"
  proof (rule links_same_trans)
    show "links_same (- live w \<union> pool_ends p \<union> set blocks) m (os_memset0 os b bytes m)"
      using heap blk(2) unfolding heap_law_def links_same_def by blast
    have "qlist (os_memset0 os b bytes m) (qc_alloc_list p) blocks" using frame by (simp add: pool_rep_def)
    from insert_tail_same [OF this ins] show "links_same (- live w \<union> pool_ends p \<union> set blocks) (os_memset0 os b bytes m) m2"
      by (rule links_same_mono) (use blk(2) bin in \<open>auto simp: pool_ends_def\<close>)
  qed
  ultimately show ?thesis using new blk area bin bytes sub(1) by auto
qed

text \<open>The result of the loop over the objects of the block \<open>b\<close>.\<close>

definition loop_end ::
  "('z, 'w) qcpool \<Rightarrow> u64 \<Rightarrow> nat \<Rightarrow> cl_status_t \<times> ('z, 'w) qcpool \<times> 'z lmem \<times> 'w \<Rightarrow> bool" where
  "loop_end p b n r \<longleftrightarrow>
    (\<exists>al m w. qcpool_grow_loop n (b + 16) (qcpool_obj_size p) (p\<lparr>qc_alloc_list := al\<rparr>) m w = r)"

lemma qcpool_grow:
  assumes heap: "heap_law os live" and law: "init_law live off p"
    and rep: "pool_rep (live w) off m p free used blocks"
    and fits: "16 + unat (qcpool_obj_size p) * growth p obj_count < 2 ^ 64"
    and run: "cl_qcpool_grow os p obj_count m w = (st, p', m', w')"
  shows "((qc_num_objects p = qc_max_objects p \<or> fst (os_malloc os (grow_bytes p obj_count) w) = 0) \<and>
      st = CL_INSUFFICIENT_MEMORY \<and> p' = p \<and> m' = m \<and> live w' = live w) \<or>
    (\<exists>b k. qc_num_objects p \<noteq> qc_max_objects p \<and> b \<noteq> 0 \<and> b = fst (os_malloc os (grow_bytes p obj_count) w) \<and>
      k \<le> growth p obj_count \<and> (st = CL_SUCCESS \<longleftrightarrow> k = growth p obj_count) \<and>
      pool_config p' = pool_config p \<and> live w \<subseteq> live w' \<and> b \<notin> live w \<and>
      loop_end p b (growth p obj_count) (st, p', m', w') \<and>
      pool_rep (live w') off m' p' (new_items (b + 16) (qcpool_obj_size p) off k @ free) used (blocks @ [b]) \<and>
      links_same (- live w \<union> pool_ends p \<union> set blocks \<union> set free) m m' \<and>
      set (new_items (b + 16) (qcpool_obj_size p) off k) \<inter> live w = {})"
proof (cases "qc_num_objects p = qc_max_objects p")
  case True
  with run show ?thesis by (simp add: cl_qcpool_grow_def)
next
  case False
  define s where "s = qcpool_obj_size p"
  define cnt where "cnt = (if obj_count > qc_max_objects p - qc_num_objects p
    then qc_max_objects p - qc_num_objects p else obj_count)"
  define bytes where "bytes = sizeof_cl_list_item + s * cnt"
  have max: "qc_num_objects p \<le> qc_max_objects p" using rep by (simp add: pool_rep_def)
  have cnt: "unat cnt = growth p obj_count" unfolding cnt_def by (rule capped_count [OF max])
  have bytes: "unat bytes = 16 + growth p obj_count * unat s"
    unfolding bytes_def using block_size [OF fits cnt] by (simp add: s_def)
  have "bytes = grow_bytes p obj_count"
    unfolding bytes_def grow_bytes_def cnt [symmetric] by (simp add: s_def sizeof_cl_list_item_def)
  then obtain b w1 where mal: "os_malloc os bytes w = (b, w1)" "fst (os_malloc os (grow_bytes p obj_count) w) = b"
    by (metis fst_conv surj_pair)
  obtain al m2 where ins: "cl_qlist_insert_tail (qc_alloc_list p) b (os_memset0 os b bytes m) = (al, m2)"
    by (metis surj_pair)
  define p2 where "p2 = p\<lparr>qc_alloc_list := al\<rparr>"
  have step: "cl_qcpool_grow os p obj_count m w =
      (if b = 0 then (CL_INSUFFICIENT_MEMORY, p, m, w1)
       else qcpool_grow_loop (unat cnt) (b + 16) s p2 m2 w1)"
    unfolding cl_qcpool_grow_def cl_malloc_def Let_def using False mal(1) ins
    by (simp add: cnt_def [symmetric] s_def [symmetric] bytes_def [symmetric] p2_def sizeof_cl_list_item_def [symmetric])
  show ?thesis
  proof (cases "b = 0")
    case True
    have "live w1 = live w" using heap mal(1) True unfolding heap_law_def by (metis (full_types))
    with run step True mal(2) show ?thesis by simp
  next
    case nz: False
    note blk = grow_block [OF heap rep mal(1) nz bytes ins p2_def]
    note c = config_same [OF conjunct1 [OF conjunct2 [OF blk]]]
    have "unat (qc_num_objects p2) + growth p obj_count \<le> unat (qc_max_objects p2)"
      using max by (simp add: p2_def growth_def word_le_nat_alt)
    moreover have "init_law live off p2" using law by (simp add: init_law_def c)
    moreover have "qcpool_grow_loop (growth p obj_count) (b + 16) s p2 m2 w1 = (st, p', m', w')"
      using run step nz cnt by simp
    moreover have "s = qcpool_obj_size p2" by (simp add: c s_def)
    ultimately obtain k where k: "k \<le> growth p obj_count \<and> (st = CL_SUCCESS \<longleftrightarrow> k = growth p obj_count) \<and>
        pool_config p' = pool_config p2 \<and> live w1 \<subseteq> live w' \<and>
        pool_rep (live w') off m' p' (new_items (b + 16) s off k @ free) used (blocks @ [b]) \<and>
        links_same (addr_range (b + 16) (growth p obj_count * unat s) \<union> pool_ends p2 \<union> set free) m2 m'"
      using grow_loop [of live off p2 w1 m2 free used "blocks @ [b]" s "b + 16"] blk by blast
    have "loop_end p b (growth p obj_count) (st, p', m', w')"
      unfolding loop_end_def using run step nz cnt p2_def s_def by metis
    moreover have "links_same (- live w \<union> pool_ends p \<union> set blocks \<union> set free) m m2"
      by (rule links_same_mono [of "- live w \<union> pool_ends p \<union> set blocks"]) (use blk in auto)
    then have "links_same (- live w \<union> pool_ends p \<union> set blocks \<union> set free) m m'"
      by (rule links_same_trans [OF _ links_same_mono [OF conjunct2 [OF conjunct2 [OF conjunct2 [OF conjunct2 [OF conjunct2 [OF k]]]]]]])
        (use blk c(2) in auto)
    moreover have "set (new_items (b + 16) s off k) \<subseteq> addr_range (b + 16) (growth p obj_count * unat s)"
      by (rule new_items_range) (use k blk rep in \<open>auto simp: pool_rep_def layout_def s_def\<close>)
    then have "set (new_items (b + 16) s off k) \<inter> live w = {}" using blk by blast
    ultimately show ?thesis
      using k blk False nz mal(2) by (intro disjI2 exI [of _ b] exI [of _ k]) (unfold s_def, auto)
  qed
qed

lemma growth_objects:
  assumes "pool_rep L off m p free used blocks" "pool_rep L' off m' p' (new @ free) used blocks'"
  shows "qc_num_objects p' = qc_num_objects p + of_nat (length new)"
proof -
  have "unat (qc_num_objects p') = unat (qc_num_objects p) + length new"
    using assms by (simp add: pool_rep_def)
  then show ?thesis by (metis of_nat_add of_nat_unat ucast_id)
qed

end
