(* ===== verification/Pool_Ops.thy ===== *)
theory Pool_Ops
  imports Pool_Inv
begin

text \<open>
  What the operations of the pools do: taking and returning objects, as a contract in the form of a
  locale that both the quick composite pool and the pool provide; initialisation; destruction.
\<close>

section \<open>Taking and returning objects\<close>

lemma pool_take:
  assumes rep: "pool_rep L off m p (xs @ it # ys) used blocks"
    and fl: "fl = (qc_free_list p)\<lparr>ql_count := ql_count (qc_free_list p) - 1\<rparr>"
  shows "pool_rep L off (cl_primitive_remove it m) (p\<lparr>qc_free_list := fl\<rparr>) (xs @ ys) (insert it used) blocks"
proof -
  have q: "qlist m (qc_free_list p) (xs @ it # ys)" "qlist m (qc_alloc_list p) blocks"
    using rep by (simp_all add: pool_rep_def)
  have "qlist (cl_primitive_remove it m) fl (xs @ ys)"
    unfolding fl by (rule qlist_remove_middle [OF q(1)])
  moreover have "qlist (cl_primitive_remove it m) (qc_alloc_list p) blocks"
    by (rule qlist_other_remove [OF q(2) q(1) pool_apart [OF rep]]) simp
  moreover have "it \<notin> set (xs @ ys)" using qlist_distinct [OF q(1)] by simp
  moreover have "it \<notin> used" using rep by (auto simp: pool_rep_def)
  moreover have "set (xs @ ys) \<union> insert it used = set (xs @ it # ys) \<union> used" by auto
  ultimately show ?thesis
    using rep by (simp add: pool_rep_def fl pool_ends_def qcpool_obj_size_def Int_insert_right)
qed

lemma qcpool_remove_head:
  assumes rep: "pool_rep L off m p (it # free) used blocks"
    and run: "cl_qlist_remove_head (qc_free_list p) m = (x, fl, m')"
  shows "x = it \<and> m' = cl_primitive_remove it m \<and> ql_end fl = ql_end (qc_free_list p) \<and>
    pool_rep L off m' (p\<lparr>qc_free_list := fl\<rparr>) free (insert it used) blocks"
proof -
  have q: "qlist m (qc_free_list p) (it # free)" using rep by (simp add: pool_rep_def)
  have "cl_qlist_head (qc_free_list p) m = it" "it \<noteq> ql_end (qc_free_list p)"
    using qlist_head [OF q] qlist_end_notin [OF q] by auto
  then show ?thesis
    using run pool_take [of L off m p "[]" it free used blocks, OF _ refl] rep
    by (auto simp: cl_qlist_remove_head_def cl_qlist_end_def)
qed

lemma qcpool_remove_tail:
  assumes rep: "pool_rep L off m p (free @ [it]) used blocks"
    and run: "cl_qlist_remove_tail (qc_free_list p) m = (x, fl, m')"
  shows "x = it \<and> m' = cl_primitive_remove it m \<and> ql_end fl = ql_end (qc_free_list p) \<and>
    pool_rep L off m' (p\<lparr>qc_free_list := fl\<rparr>) free (insert it used) blocks"
proof -
  have q: "qlist m (qc_free_list p) (free @ [it])" using rep by (simp add: pool_rep_def)
  have "cl_qlist_tail (qc_free_list p) m = it" "it \<noteq> ql_end (qc_free_list p)"
    using qlist_tail [OF q] qlist_end_notin [OF q] by auto
  then show ?thesis
    using run pool_take [of L off m p free it "[]" used blocks, OF _ refl] rep
    by (auto simp: cl_qlist_remove_tail_def cl_qlist_end_def)
qed

lemma primitive_remove_same:
  "qlist m l xs \<Longrightarrow> x \<in> set xs \<Longrightarrow> links_same (insert (ql_end l) (set xs)) m (cl_primitive_remove x m)"
  using primitive_remove_frame [of m "ql_end l" xs x] by (auto simp: links_same_def qlist_def)

text \<open>Refilling: the pool grows only when it is empty and has a growth size.\<close>

lemma pool_empty_iff:
  "pool_rep L off m p free used blocks \<Longrightarrow> length free < 2 ^ 32 \<Longrightarrow>
   cl_is_qlist_empty (qc_free_list p) \<longleftrightarrow> free = []"
  unfolding pool_rep_def using qlist_empty_iff by blast

lemma qcpool_refill:
  assumes heap: "heap_law os live" and law: "init_law live off p"
    and rep: "pool_rep (live w) off m p free used blocks"
    and fits: "16 + unat (qcpool_obj_size p) * growth p (qc_grow_size p) < 2 ^ 64"
    and small: "length free < 2 ^ 32" "unat (qc_grow_size p) < 2 ^ 32"
    and run: "qcpool_refill os p m w = (b, p', m', w')"
  shows "\<exists>free' blocks'. pool_rep (live w') off m' p' free' used blocks' \<and> (b \<longleftrightarrow> free' \<noteq> []) \<and>
    (free \<noteq> [] \<longrightarrow> free' = free \<and> blocks' = blocks \<and> p' = p \<and> m' = m \<and> w' = w) \<and>
    pool_config p' = pool_config p \<and> live w \<subseteq> live w' \<and> set free' \<subseteq> set free \<union> - live w \<and>
    set blocks' \<subseteq> set blocks \<union> - live w \<and> (free = [] \<longrightarrow> length free' \<le> unat (qc_grow_size p)) \<and>
    links_same (- live w \<union> pool_ends p \<union> set blocks \<union> set free) m m'"
proof -
  note empty = pool_empty_iff [OF rep small(1)]
  show ?thesis
  proof (cases "free = [] \<and> qc_grow_size p \<noteq> 0")
    case False
    with run empty have "p' = p" "m' = m" "w' = w" "b \<longleftrightarrow> free \<noteq> []"
      by (auto simp: qcpool_refill_def split: if_splits)
    with rep show ?thesis by auto
  next
    case True
    obtain st p1 m1 w1 where grow: "cl_qcpool_grow os p (qc_grow_size p) m w = (st, p1, m1, w1)"
      by (metis prod_cases4)
    with run True empty have res: "p' = p1" "m' = m1" "w' = w1" "b \<longleftrightarrow> \<not> cl_is_qlist_empty (qc_free_list p1)"
      by (auto simp: qcpool_refill_def)
    from qcpool_grow [OF heap law rep fits grow] obtain free' blocks' where
      rep': "pool_rep (live w1) off m1 p1 free' used blocks'" and cfg: "pool_config p1 = pool_config p"
      and live: "live w \<subseteq> live w1" and le: "length free' \<le> growth p (qc_grow_size p)"
      and same: "links_same (- live w \<union> pool_ends p \<union> set blocks \<union> set free) m m1"
      and new: "set free' \<inter> live w = {}" "set blocks' \<subseteq> set blocks \<union> - live w"
      using rep True by (elim disjE exE conjE) auto
    have le': "length free' \<le> unat (qc_grow_size p)" using le by (simp add: growth_def)
    with small pool_empty_iff [OF rep'] res have "b \<longleftrightarrow> free' \<noteq> []" by simp
    with rep' cfg live res True same new le' show ?thesis by blast
  qed
qed

text \<open>
  Taking an object: the first free one; when there is none, one of a new block, if the pool may grow and
  the growth succeeds; otherwise null.
\<close>

lemma qcpool_get:
  assumes heap: "heap_law os live" and law: "init_law live off p"
    and rep: "pool_rep (live w) off m p free used blocks"
    and fits: "16 + unat (qcpool_obj_size p) * growth p (qc_grow_size p) < 2 ^ 64"
    and small: "length free < 2 ^ 32" "unat (qc_grow_size p) < 2 ^ 32"
    and run: "cl_qcpool_get os p m w = (it, p', m', w')"
  shows "\<exists>free' blocks'.
    (if it = 0 then free = [] \<and> pool_rep (live w') off m' p' [] used blocks'
     else it \<notin> used \<and> (free \<noteq> [] \<longrightarrow> free = it # free' \<and> blocks' = blocks \<and> w' = w) \<and>
       pool_rep (live w') off m' p' free' (insert it used) blocks') \<and>
    pool_config p' = pool_config p \<and> live w \<subseteq> live w' \<and>
    links_same (- live w \<union> pool_ends p \<union> set blocks \<union> set free) m m' \<and>
    (it \<noteq> 0 \<longrightarrow> it \<in> set free \<union> - live w \<and> set free' \<subseteq> set free \<union> - live w) \<and>
    (free = [] \<longrightarrow> length free' < unat (qc_grow_size p) + 1) \<and>
    set blocks' \<subseteq> set blocks \<union> - live w"
proof -
  obtain b p1 m1 w1 where ref: "qcpool_refill os p m w = (b, p1, m1, w1)" by (metis prod_cases4)
  from qcpool_refill [OF heap law rep fits small ref] obtain free1 blocks1 where
    one: "pool_rep (live w1) off m1 p1 free1 used blocks1" "b \<longleftrightarrow> free1 \<noteq> []"
      "free \<noteq> [] \<longrightarrow> free1 = free \<and> blocks1 = blocks \<and> p1 = p \<and> m1 = m \<and> w1 = w"
      "pool_config p1 = pool_config p" "live w \<subseteq> live w1" "set free1 \<subseteq> set free \<union> - live w"
      "set blocks1 \<subseteq> set blocks \<union> - live w"
      "links_same (- live w \<union> pool_ends p \<union> set blocks \<union> set free) m m1"
      "free = [] \<longrightarrow> length free1 \<le> unat (qc_grow_size p)"
    by blast
  show ?thesis
  proof (cases free1)
    case Nil
    with one ref run have "it = 0" "p' = p1" "m' = m1" "w' = w1" "free = []"
      by (auto simp: cl_qcpool_get_def)
    with one Nil show ?thesis by - (rule exI [of _ "[]"], rule exI [of _ blocks1], auto)
  next
    case (Cons x free')
    obtain y fl m2 where rem: "cl_qlist_remove_head (qc_free_list p1) m1 = (y, fl, m2)" by (metis prod_cases3)
    note head = qcpool_remove_head [OF one(1) [unfolded Cons] rem]
    have res: "it = x" "p' = p1\<lparr>qc_free_list := fl\<rparr>" "m' = m2" "w' = w1"
      using run ref rem head one(2) Cons by (auto simp: cl_qcpool_get_def)
    have "x \<noteq> 0" using pool_rep_null [OF one(1)] Cons by simp
    moreover have "x \<notin> used" using one(1) Cons by (simp add: pool_rep_def)
    moreover have "pool_config p' = pool_config p"
      using one(4) head by (simp add: res pool_config_def)
    moreover have "qlist m1 (qc_free_list p1) (x # free')" using one(1) Cons by (simp add: pool_rep_def)
    then have "links_same (insert (ql_end (qc_free_list p1)) (set (x # free'))) m1 m'"
      using primitive_remove_same [of m1 "qc_free_list p1" "x # free'" x] head res by simp
    then have "links_same (- live w \<union> pool_ends p \<union> set blocks \<union> set free) m1 m'"
      by (rule links_same_mono)
        (use one(6) Cons config_same(2) [OF one(4)] in \<open>auto simp: pool_ends_def\<close>)
    then have "links_same (- live w \<union> pool_ends p \<union> set blocks \<union> set free) m m'"
      using one(8) links_same_trans by blast
    moreover have "free \<noteq> [] \<longrightarrow> free = x # free' \<and> blocks1 = blocks \<and> w1 = w" using one(3) Cons by auto
    moreover have "x \<in> set free \<union> - live w" "set free' \<subseteq> set free \<union> - live w" using one(6) Cons by auto
    moreover have "free = [] \<longrightarrow> length free' < unat (qc_grow_size p) + 1" using one(9) Cons by auto
    ultimately show ?thesis
      using head one(5,7) res by - (rule exI [of _ free'], rule exI [of _ blocks1], auto)
  qed
qed

text \<open>Null is returned exactly when no object is free and the pool may not grow or its growth adds no object.\<close>

lemma qcpool_get_null:
  assumes heap: "heap_law os live" and law: "init_law live off p"
    and rep: "pool_rep (live w) off m p free used blocks"
    and fits: "16 + unat (qcpool_obj_size p) * growth p (qc_grow_size p) < 2 ^ 64"
    and small: "length free < 2 ^ 32" "unat (qc_grow_size p) < 2 ^ 32"
    and run: "cl_qcpool_get os p m w = (it, p', m', w')"
    and grow: "cl_qcpool_grow os p (qc_grow_size p) m w = (st, p1, m1, w1)"
  shows "it = 0 \<longleftrightarrow> free = [] \<and> (qc_grow_size p = 0 \<or> st \<noteq> CL_SUCCESS \<and> qc_num_objects p1 = qc_num_objects p)"
proof (cases "free = [] \<and> qc_grow_size p \<noteq> 0")
  case False
  have "it = 0 \<Longrightarrow> free = []" using qcpool_get [OF assms(1-7)] by (auto split: if_splits)
  moreover have "free = [] \<Longrightarrow> it = 0"
    using run False pool_empty_iff [OF rep] by (auto simp: cl_qcpool_get_def qcpool_refill_def)
  ultimately show ?thesis using False by blast
next
  case True
  have pos: "0 < growth p (qc_grow_size p)" if "qc_num_objects p \<noteq> qc_max_objects p"
  proof -
    have "qc_num_objects p < qc_max_objects p" using that rep by (simp add: pool_rep_def order_less_le)
    then have "unat (qc_num_objects p) < unat (qc_max_objects p)" by (simp only: word_less_nat_alt)
    moreover have "0 < unat (qc_grow_size p)" using True by (simp only: unat_gt_0) simp
    ultimately show ?thesis by (simp add: growth_def)
  qed
  obtain new blocks1 where new: "pool_rep (live w1) off m1 p1 (new @ free) used blocks1"
      "length new \<le> unat (qc_grow_size p)" "new = [] \<longrightarrow> st \<noteq> CL_SUCCESS"
  proof (rule disjE [OF qcpool_grow [OF heap law rep fits grow]]; elim exE conjE)
    assume "st = CL_INSUFFICIENT_MEMORY" "p1 = p" "m1 = m" "live w1 = live w"
    with rep show thesis by (intro that [of "[]" blocks]) simp_all
  next
    fix b k assume "qc_num_objects p \<noteq> qc_max_objects p" "k \<le> growth p (qc_grow_size p)"
      "st = CL_SUCCESS \<longleftrightarrow> k = growth p (qc_grow_size p)"
      "pool_rep (live w1) off m1 p1 (new_items (b + 16) (qcpool_obj_size p) off k @ free) used (blocks @ [b])"
    with pos show thesis
      by (intro that [of "new_items (b + 16) (qcpool_obj_size p) off k" "blocks @ [b]"])
        (auto simp: growth_def simp flip: length_0_conv)
  qed
  have num: "qc_num_objects p1 = qc_num_objects p \<longleftrightarrow> new = []"
    using rep new(1) by (auto simp: pool_rep_def word_unat_eq_iff)
  have empty: "cl_is_qlist_empty (qc_free_list p1) \<longleftrightarrow> new = []"
    using pool_empty_iff [OF new(1)] new(2) small True by simp
  show ?thesis
  proof (cases new)
    case Nil
    with run True grow empty num new(3) pool_empty_iff [OF rep] show ?thesis
      by (auto simp: cl_qcpool_get_def qcpool_refill_def)
  next
    case (Cons x xs)
    obtain y fl m2 where rem: "cl_qlist_remove_head (qc_free_list p1) m1 = (y, fl, m2)" by (metis prod_cases3)
    have "y = x" using qcpool_remove_head [OF new(1) [unfolded Cons append_Cons] rem] by simp
    moreover have "x \<noteq> 0" using pool_rep_null [OF new(1)] Cons by simp
    ultimately show ?thesis
      using run True grow empty num Cons rem pool_empty_iff [OF rep]
      by (auto simp: cl_qcpool_get_def qcpool_refill_def)
  qed
qed

text \<open>
  The other fields of the memory (\<open>F\<close> stands for any of them) change only inside the new block; this is
  for pools without callbacks.
\<close>

lemma grow_loop_field:
  assumes prim: "\<And>y x m. F (cl_primitive_insert y x m) = F m" and "qc_pfn_init p = None"
    and "qcpool_grow_loop n a s p m w = (st, p', m', w')"
  shows "F m' = F m"
  using assms(2,3)
proof (induction n arbitrary: a p m)
  case 0
  then show ?case by simp
next
  case (Suc n)
  let ?cs = "component_ptrs a (take (unat (qc_num_components p)) (qc_component_sizes p))"
  obtain fl m2 where ins: "cl_qlist_insert_head (qc_free_list p) (?cs ! 0) m = (fl, m2)" by (metis surj_pair)
  then have m2: "F m2 = F m" by (auto simp: cl_qlist_insert_head_def prim)
  have run: "qcpool_grow_loop n (a + s) s (p\<lparr>qc_p_components := ?cs, qc_free_list := fl,
      qc_num_objects := qc_num_objects p + 1\<rparr>) m2 w = (st, p', m', w')"
    using Suc.prems ins by (simp add: qcpool_init_object_def)
  show ?case using Suc.IH [OF _ run] Suc.prems(1) m2 by simp
qed

lemma qcpool_grow_field:
  assumes heap: "heap_law os live"
    and prim: "\<And>y x m. F (cl_primitive_insert y x m) = F m"
    and memset: "\<And>p n m x. x \<notin> addr_range p (unat n) \<Longrightarrow> F (os_memset0 os p n m) x = F m x"
    and p: "qc_pfn_init p = None" and x: "x \<in> live w"
    and run: "cl_qcpool_grow os p obj_count m w = (st, p', m', w')"
  shows "F m' x = F m x"
proof (cases "qc_num_objects p = qc_max_objects p")
  case True
  with run show ?thesis by (simp add: cl_qcpool_grow_def)
next
  case False
  define cnt where "cnt = (if obj_count > qc_max_objects p - qc_num_objects p
    then qc_max_objects p - qc_num_objects p else obj_count)"
  define bytes where "bytes = sizeof_cl_list_item + qcpool_obj_size p * cnt"
  obtain b w1 where mal: "os_malloc os bytes w = (b, w1)" by (metis surj_pair)
  show ?thesis
  proof (cases "b = 0")
    case True
    with run False mal show ?thesis
      by (simp add: cl_qcpool_grow_def cl_malloc_def bytes_def cnt_def Let_def split: if_splits)
  next
    case b0: False
    obtain al m2 where ins: "cl_qlist_insert_tail (qc_alloc_list p) b (os_memset0 os b bytes m) = (al, m2)"
      by (metis surj_pair)
    have loop: "qcpool_grow_loop (unat cnt) (b + sizeof_cl_list_item) (qcpool_obj_size p) (p\<lparr>qc_alloc_list := al\<rparr>) m2 w1
        = (st, p', m', w')"
      using run False mal b0 ins unfolding cl_qcpool_grow_def cl_malloc_def Let_def
      by (simp add: cnt_def [symmetric] bytes_def [symmetric])
    have "F m' = F m2" by (rule grow_loop_field [OF prim _ loop]) (simp add: p)
    also have "F m2 = F (os_memset0 os b bytes m)" using ins by (auto simp: cl_qlist_insert_tail_def prim)
    finally have "F m' x = F (os_memset0 os b bytes m) x" by simp
    moreover have "addr_range b (unat bytes) \<inter> live w = {}"
      using heap mal b0 unfolding heap_law_def by (metis (full_types))
    ultimately show ?thesis using memset x by (metis disjoint_iff)
  qed
qed

lemma qcpool_get_field:
  assumes heap: "heap_law os live"
    and prim: "\<And>y x m. F (cl_primitive_insert y x m) = F m" "\<And>x m. F (cl_primitive_remove x m) = F m"
    and memset: "\<And>p n m x. x \<notin> addr_range p (unat n) \<Longrightarrow> F (os_memset0 os p n m) x = F m x"
    and p: "qc_pfn_init p = None" and x: "x \<in> live w"
    and run: "cl_qcpool_get os p m w = (it, p', m', w')"
  shows "F m' x = F m x"
proof -
  obtain b p1 m1 w1 where ref: "qcpool_refill os p m w = (b, p1, m1, w1)" by (metis prod_cases4)
  have "F m1 x = F m x"
    using ref qcpool_grow_field [OF heap prim(1) memset p x]
    by (auto simp: qcpool_refill_def split: if_splits prod.splits)
  moreover have "F m' = F m1"
    using run ref prim(2) by (auto simp: cl_qcpool_get_def cl_qlist_remove_head_def Let_def split: if_splits prod.splits)
  ultimately show ?thesis by simp
qed

text \<open>Returning an object puts it at the head, so the next taker gets it.\<close>

lemma qcpool_put:
  assumes rep: "pool_rep L off m p free used blocks" and it: "it \<in> used"
    and run: "cl_qcpool_put p it m = (p', m')"
  shows "pool_rep L off m' p' (it # free) (used - {it}) blocks \<and> pool_config p' = pool_config p"
proof -
  obtain fl m1 where ins: "cl_qlist_insert_head (qc_free_list p) it m = (fl, m1)" by (metis surj_pair)
  have fin: "finite used" "it \<notin> set free" using rep it by (auto simp: pool_rep_def)
  then have card: "length free + card used = Suc (length free) + card (used - {it})"
    using it by (metis add_Suc_shift card_Suc_Diff1)
  have eq: "insert it (set free \<union> used) = set free \<union> used" using it by auto
  have "pool_rep L off m1 (p\<lparr>qc_free_list := fl, qc_num_objects := qc_num_objects p\<rparr>)
      (it # free) (used - {it}) blocks"
    by (rule pool_insert_free [OF rep _ fin(2) refl _ _ ins])
      (use rep card eq in \<open>simp_all add: pool_rep_def\<close>)
  moreover have "ql_end fl = ql_end (qc_free_list p)"
    using ins by (auto simp: cl_qlist_insert_head_def)
  ultimately show ?thesis
    using run ins by (auto simp: cl_qcpool_put_def pool_config_def)
qed

text \<open>A whole list of held objects goes back at once.\<close>

lemma insert_list_head_frame:
  assumes src: "qlist m src xs" and dest: "qlist m dest ys" and ap: "apart src xs dest ys"
    and len: "length xs < 2 ^ 32"
    and run: "cl_qlist_insert_list_head dest src m = (dest', src', m')"
    and p: "p \<notin> insert (ql_end src) (set xs) \<union> insert (ql_end dest) (set ys)"
  shows "p_next m' p = p_next m p \<and> p_prev m' p = p_prev m p"
proof (cases "xs = []")
  case True
  with src run show ?thesis by (auto simp: cl_qlist_insert_list_head_def qlist_empty_unchanged)
next
  case False
  let ?s = "ql_end src" and ?d = "ql_end dest"
  have ne: "\<not> cl_is_qlist_empty src" using qlist_empty_iff [OF src len] False by simp
  have hs: "p_next m ?s = hd xs" "p_prev m ?s = last xs" "p_next m ?d = hd (ys @ [?d])"
    using qlist_head [OF src] qlist_tail [OF src] qlist_head [OF dest] False
    by (simp_all add: cl_qlist_head_def cl_qlist_tail_def cl_qlist_next_def cl_qlist_prev_def)
  have sets: "hd xs \<in> set xs" "last xs \<in> set xs" using False by auto
  have hd_d: "hd (ys @ [?d]) \<in> insert ?d (set ys)" by (cases ys) auto
  have far: "insert ?s (set xs) \<inter> insert ?d (set ys) = {}" using ap by (simp add: apart_def)
  have neq: "hd (ys @ [?d]) \<noteq> ?s" "last xs \<noteq> ?s" "last xs \<noteq> ?d" "?s \<noteq> ?d"
    using sets hd_d far qlist_end_notin [OF src] by (force+)
  show ?thesis
    using insert_list_head_fields [OF ne run hs neq] p sets hd_d by auto
qed

lemma qcpool_put_list:
  assumes rep: "pool_rep L off m p free used blocks" and l: "qlist m l xs" "set xs \<subseteq> used"
    and ends: "ql_end l \<notin> pool_ends p \<union> set blocks \<union> set free" and len: "length xs < 2 ^ 32"
    and run: "cl_qcpool_put_list p l m = (p', l', m')"
  shows "pool_rep L off m' p' (xs @ free) (used - set xs) blocks \<and> qlist m' l' [] \<and>
    pool_config p' = pool_config p"
proof -
  have q: "qlist m (qc_free_list p) free" "qlist m (qc_alloc_list p) blocks"
    and lay: "layout L off (qcpool_obj_size p) (pool_ends p \<union> set blocks) (set free \<union> used)"
    and fin: "finite used" "set free \<inter> used = {}"
    using rep by (simp_all add: pool_rep_def)
  have xs: "x \<notin> pool_ends p \<union> set blocks \<union> set free" if "x \<in> set xs" for x
    using layout_items [OF lay, of x] that l(2) fin(2) by auto
  have ap: "apart l xs (qc_free_list p) free"
    using xs ends by (auto simp: apart_def pool_ends_def)
  obtain fl m1 where ins: "cl_qlist_insert_list_head (qc_free_list p) l m = (fl, l', m1)"
    and p': "p' = p\<lparr>qc_free_list := fl\<rparr>" "m' = m1"
    using run by (auto simp: cl_qcpool_put_list_def split: prod.splits)
  have new: "qlist m1 fl (xs @ free)" "qlist m1 l' []"
    using qlist_insert_list_head [OF l(1) q(1) ap len ins] by auto
  have flend: "ql_end fl = ql_end (qc_free_list p)"
    using ins by (auto simp: cl_qlist_insert_list_head_def Let_def split: if_splits prod.splits)
  have "qlist_at m1 (ql_end (qc_alloc_list p)) blocks = qlist_at m (ql_end (qc_alloc_list p)) blocks"
  proof (rule qlist_at_cong)
    fix x assume "x \<in> insert (ql_end (qc_alloc_list p)) (set blocks)"
    then have "x \<notin> insert (ql_end l) (set xs) \<union> insert (ql_end (qc_free_list p)) (set free)"
      using xs ends pool_apart [OF rep] by (auto simp: pool_ends_def apart_def)
    then show "p_next m1 x = p_next m x \<and> p_prev m1 x = p_prev m x"
      by (rule insert_list_head_frame [OF l(1) q(1) ap len ins])
  qed
  moreover have "card (used - set xs) + length xs = card used"
    using l fin(1) qlist_distinct [OF l(1)] card_mono [OF fin(1) l(2)]
    by (simp add: card_Diff_subset distinct_card)
  moreover have "set (xs @ free) \<union> (used - set xs) = set free \<union> used" using l(2) by auto
  moreover have "set (xs @ free) \<inter> (used - set xs) = {}" using fin(2) by auto
  ultimately show ?thesis
    using rep new flend
    by (simp add: p' pool_rep_def pool_ends_def qcpool_obj_size_def pool_config_def qlist_def)
qed

section \<open>Destruction\<close>

text \<open>
  What destruction relies on in the user's destructor: it may write its object and whatever else is the user's, but no
  list links outside the object it is given (\<^verbatim>\<open>cl_qcomppool.h\<close> keeps the users off the list items). The calls of
  the destructor are made one after the other on the objects, each in the memory it finds.
\<close>

definition dtor_law :: "u64 \<Rightarrow> ('z, 'w) qcpool \<Rightarrow> bool" where
  "dtor_law off p \<longleftrightarrow> (\<forall>d it m w x. qc_pfn_dtor p = Some d \<longrightarrow> x \<notin> obj_span off (qcpool_obj_size p) it \<longrightarrow>
     p_next (fst (d it m w)) x = p_next m x \<and> p_prev (fst (d it m w)) x = p_prev m x)"

definition dtor_calls :: "('m, 'w) cl_qcpool_t \<Rightarrow> u64 list \<Rightarrow> 'm list \<Rightarrow> 'w \<Rightarrow> 'w" where
  "dtor_calls p its ms w = (case qc_pfn_dtor p of
      None \<Rightarrow> w
    | Some d \<Rightarrow> fold (\<lambda>(it, m) w. snd (d it m w)) (zip its ms) w)"

lemma dtor_loop:
  assumes keep: "\<And>it m w x. x \<notin> span it \<Longrightarrow> p_next (fst (d it m w)) x = p_next m x \<and> p_prev (fst (d it m w)) x = p_prev m x"
  shows "qlist m l xs \<Longrightarrow> length xs < 2 ^ 32 \<Longrightarrow> qlist m l2 ys \<Longrightarrow> apart l xs l2 ys \<Longrightarrow>
    (\<And>a. a \<in> set xs \<Longrightarrow> span a \<inter> ({ql_end l, ql_end l2} \<union> set ys \<union> (set xs - {a})) = {}) \<Longrightarrow>
    \<exists>l' m' ms. length ms = length xs \<and>
      qcpool_dtor_loop d l m w = Some (l', m', fold (\<lambda>(it, m) w. snd (d it m w)) (zip xs ms) w) \<and>
      qlist m' l' [] \<and> qlist m' l2 ys \<and> ql_end l' = ql_end l"
proof (induction xs arbitrary: l m w)
  case Nil
  then show ?case using qlist_empty_iff [OF Nil.prems(1)]
    by (subst qcpool_dtor_loop.simps) simp
next
  case (Cons x xs)
  obtain y l1 m1 where rem: "cl_qlist_remove_head l m = (y, l1, m1)" by (metis prod_cases3)
  have x: "cl_qlist_head l m = x" "x \<noteq> ql_end l"
    using qlist_head [OF Cons.prems(1)] qlist_end_notin [OF Cons.prems(1)] by auto
  have y: "y = x" "qlist m1 l1 xs" "ql_end l1 = ql_end l" "m1 = cl_primitive_remove x m"
    using qlist_remove_head [OF Cons.prems(1) rem] rem x by (auto simp: cl_qlist_remove_head_def cl_qlist_end_def)
  have other: "qlist m1 l2 ys"
    unfolding y(4) by (rule qlist_other_remove [OF Cons.prems(3,1,4)]) simp
  obtain m2 w2 where d: "d x m1 w = (m2, w2)" by (metis surj_pair)
  have links: "p_next m2 z = p_next m1 z \<and> p_prev m2 z = p_prev m1 z" if "z \<notin> span x" for z
    using keep [OF that, of m1 w] d by simp
  have "x \<notin> set xs" using qlist_distinct [OF Cons.prems(1)] by simp
  then have "span x \<inter> ({ql_end l, ql_end l2} \<union> set ys \<union> set xs) = {}" using Cons.prems(5) [of x] by auto
  then have next_args: "qlist m2 l1 xs" "qlist m2 l2 ys" "apart l1 xs l2 ys" "length xs < 2 ^ 32"
    using y(3) Cons.prems(2,4) qlist_same [OF y(2), of "span x" m2] qlist_same [OF other, of "span x" m2] links
    by (auto simp: apart_def links_same_def)
  have "span a \<inter> ({ql_end l1, ql_end l2} \<union> set ys \<union> (set xs - {a})) = {}" if "a \<in> set xs" for a
    using Cons.prems(5) [of a] that y(3) by auto
  from Cons.IH [OF next_args(1,4,2,3) this, of w2] obtain l' m' ms where "length ms = length xs"
    "qcpool_dtor_loop d l1 m2 w2 = Some (l', m', fold (\<lambda>(it, m) w. snd (d it m w)) (zip xs ms) w2)"
    "qlist m' l' []" "qlist m' l2 ys" "ql_end l' = ql_end l1" by blast
  then show ?case
    using qlist_empty_iff [OF Cons.prems(1,2)] rem y d
    by (intro exI [of _ l'] exI [of _ m'] exI [of _ "m1 # ms"]) (subst qcpool_dtor_loop.simps, simp)
qed

lemma free_loop:
  "qlist m l xs \<Longrightarrow> length xs < 2 ^ 32 \<Longrightarrow>
   \<exists>l' m'. qcpool_free_loop os l m w = Some (l', m', fold (os_free os) xs w) \<and> ql_end l' = ql_end l"
proof (induction xs arbitrary: l m w)
  case Nil
  then show ?case using qlist_empty_iff [OF Nil.prems(1)]
    by (subst qcpool_free_loop.simps) simp
next
  case (Cons x xs)
  obtain y l1 m1 where rem: "cl_qlist_remove_head l m = (y, l1, m1)" by (metis prod_cases3)
  have y: "y = x" "qlist m1 l1 xs" "ql_end l1 = ql_end l"
    using qlist_remove_head [OF Cons.prems(1) rem] rem
    by (auto simp: cl_qlist_remove_head_def Let_def split: if_splits)
  then obtain l' m' where "qcpool_free_loop os l1 m1 (os_free os x w) = Some (l', m', fold (os_free os) xs (os_free os x w))"
    "ql_end l' = ql_end l1"
    using Cons.IH [of m1 l1 "os_free os x w"] Cons.prems by auto
  then show ?case
    using qlist_empty_iff [OF Cons.prems(1,2)] rem y
    by (subst qcpool_free_loop.simps) (simp add: cl_free_def)
qed

text \<open>
  Destruction always ends: the destructor runs once on every free object, in the order of the free
  list, then every block is freed once, and last the array of the component sizes.
\<close>

lemma qcpool_destroy:
  assumes rep: "pool_rep L off m p free used blocks" and d: "dtor_law off p"
    and len: "length free < 2 ^ 32" "length blocks < 2 ^ 32"
  shows "\<exists>p' m' ms. length ms = length free \<and> cl_qcpool_destroy os p m w =
      Some (p', m', (if qc_sizes_ptr p \<noteq> 0 then os_free os (qc_sizes_ptr p) else id)
        (fold (os_free os) blocks (dtor_calls p free ms w))) \<and>
    \<not> cl_is_qcpool_inited p'"
proof -
  have q: "qlist m (qc_free_list p) free" "qlist m (qc_alloc_list p) blocks" "qc_state p = CL_INITIALIZED"
    and lay: "layout L off (qcpool_obj_size p) (pool_ends p \<union> set blocks) (set free \<union> used)"
    using rep by (simp_all add: pool_rep_def)
  note ap = pool_apart [OF rep]
  obtain fl m1 ms where ms: "length ms = length free" and drained: "(case qc_pfn_dtor p of
      Some pfn_dtor \<Rightarrow> qcpool_dtor_loop pfn_dtor (qc_free_list p) m w
    | None \<Rightarrow> (let (fl, m) = cl_qlist_remove_all (qc_free_list p) m in Some (fl, m, w))) =
      Some (fl, m1, dtor_calls p free ms w)" "qlist m1 (qc_alloc_list p) blocks"
  proof (cases "qc_pfn_dtor p")
    case None
    have "qlist_at (snd (cl_qlist_remove_all (qc_free_list p) m)) (ql_end (qc_alloc_list p)) blocks =
        qlist_at m (ql_end (qc_alloc_list p)) blocks"
      by (rule qlist_at_cong) (use ap in \<open>auto simp: cl_qlist_remove_all_def cl_qlist_reset_def apart_def\<close>)
    with None q(2) show ?thesis
      by (intro that [of "replicate (length free) m" "fst (cl_qlist_remove_all (qc_free_list p) m)"
            "snd (cl_qlist_remove_all (qc_free_list p) m)"])
        (auto simp: qlist_def dtor_calls_def split: prod.splits)
  next
    case (Some d')
    have keep: "x \<notin> obj_span off (qcpool_obj_size p) it \<Longrightarrow>
        p_next (fst (d' it m w)) x = p_next m x \<and> p_prev (fst (d' it m w)) x = p_prev m x" for it m w x
      using d Some unfolding dtor_law_def by blast
    have "obj_span off (qcpool_obj_size p) a \<inter> ({ql_end (qc_free_list p), ql_end (qc_alloc_list p)} \<union> set blocks \<union>
        (set free - {a})) = {}" if "a \<in> set free" for a
      using lay that unfolding layout_def pool_ends_def by blast
    from dtor_loop [of "obj_span off (qcpool_obj_size p)" d', OF keep q(1) len(1) q(2) ap this, of w] Some that show ?thesis
      by (fastforce simp: dtor_calls_def)
  qed
  obtain al m2 where "qcpool_free_loop os (qc_alloc_list p) m1 (dtor_calls p free ms w) =
      Some (al, m2, fold (os_free os) blocks (dtor_calls p free ms w))"
    using free_loop [OF drained(2) len(2), where os = os and w = "dtor_calls p free ms w"] by auto
  with drained(1) q(3) have "\<exists>p' m'. cl_qcpool_destroy os p m w =
      Some (p', m', (if qc_sizes_ptr p \<noteq> 0 then os_free os (qc_sizes_ptr p) else id)
        (fold (os_free os) blocks (dtor_calls p free ms w))) \<and> \<not> cl_is_qcpool_inited p'"
    by (simp add: cl_qcpool_destroy_def cl_free_def cl_is_qcpool_inited_def Let_def split: if_splits)
  with ms show ?thesis by blast
qed

section \<open>Initialisation\<close>

definition bad_setting :: "size_t \<Rightarrow> size_t \<Rightarrow> u32 \<Rightarrow> 'f option \<Rightarrow> bool" where
  "bad_setting min_size max_size num_components pfn_init \<longleftrightarrow>
    (num_components > 1 \<and> pfn_init = None) \<or> (max_size \<noteq> 0 \<and> max_size < min_size)"

definition rounded_sizes :: "size_t list \<Rightarrow> u32 \<Rightarrow> size_t list" where
  "rounded_sizes sizes num = map (\<lambda>s. ROUNDUP s sizeof_pointer) (take (unat num) sizes)"

text \<open>The pool as it is before its first growth.\<close>

definition initial_pool ::
  "('z, 'w) qcpool \<Rightarrow> u64 \<Rightarrow> size_t \<Rightarrow> size_t \<Rightarrow> size_t list \<Rightarrow> u32 \<Rightarrow>
   ('z lmem, 'w) cl_pfn_qcpool_init_t option \<Rightarrow> ('z lmem, 'w) cl_pfn_qcpool_dtor_t option \<Rightarrow> ('z, 'w) qcpool" where
  "initial_pool p sizes_ptr max_size grow_size sizes num pfn_init pfn_dtor =
    \<lparr>qc_num_components = num, qc_sizes_ptr = sizes_ptr, qc_component_sizes = rounded_sizes sizes num,
     qc_p_components = replicate (unat num) 0, qc_num_objects = 0,
     qc_max_objects = (if max_size \<noteq> 0 then max_size else - 1), qc_grow_size = grow_size,
     qc_pfn_init = pfn_init, qc_pfn_dtor = pfn_dtor,
     qc_free_list = (qc_free_list p)\<lparr>ql_state := CL_INITIALIZED, ql_count := 0\<rparr>,
     qc_alloc_list = (qc_alloc_list p)\<lparr>ql_state := CL_INITIALIZED, ql_count := 0\<rparr>,
     qc_state = CL_INITIALIZED\<rparr>"

lemma initial_rep:
  assumes "ql_end (qc_free_list p) \<noteq> ql_end (qc_alloc_list p)" "pool_ends p \<subseteq> L" "0 \<notin> L"
    and "off < sum_list (rounded_sizes sizes num)"
    and "cl_qlist_init (qc_free_list p) m = (l1, m1)" "cl_qlist_init (qc_alloc_list p) m0 = (l2, m)"
  shows "pool_rep L off m1 (initial_pool p sp mx gs sizes num pi pd) [] {} []"
  using assms
  by (auto simp: pool_rep_def initial_pool_def qlist_def qlist_at_empty cl_qlist_init_def cl_qlist_reset_def
      layout_def pool_ends_def qcpool_obj_size_def rounded_sizes_def)

lemma init_steps:
  assumes "\<not> bad_setting min_size max_size num pi"
    and "os_malloc os ((sizeof_size + sizeof_pointer) * ucast num) w = (sp, w1)"
    and "m0 = os_memset0 os sp ((sizeof_size + sizeof_pointer) * ucast num) (snd (cl_qcpool_construct p m))"
    and "cl_qlist_init (qc_alloc_list p) m0 = (l2, m1)" "cl_qlist_init (qc_free_list p) m1 = (l1, m2)"
    and "p2 = initial_pool p sp max_size grow_size sizes num pi pd"
  shows "cl_qcpool_init os p min_size max_size grow_size sizes num pi pd m w =
    (if sp = 0 then Some (CL_INSUFFICIENT_MEMORY, fst (cl_qcpool_construct p m), snd (cl_qcpool_construct p m), w1)
     else if min_size = 0 then Some (CL_SUCCESS, p2, m2, w1)
     else let (status, p, m, w) = cl_qcpool_grow os p2 min_size m2 w1
          in if status \<noteq> CL_SUCCESS
             then Option.bind (cl_qcpool_destroy os p m w) (\<lambda>(p, m, w). Some (status, p, m, w))
             else Some (status, p, m, w))"
  using assms
  by (auto simp: cl_qcpool_init_def bad_setting_def cl_malloc_def initial_pool_def rounded_sizes_def
      cl_qcpool_construct_def clear_list_end_def cl_qlist_init_def cl_qlist_reset_def Let_def)

lemma init_links:
  assumes heap: "heap_law os live"
    and mal: "os_malloc os ((sizeof_size + sizeof_pointer) * ucast (num :: u32)) w = (sp, w1)" and sp: "sp \<noteq> 0"
    and m0_def: "m0 = os_memset0 os sp ((sizeof_size + sizeof_pointer) * ucast num) (snd (cl_qcpool_construct p m))"
    and l2: "cl_qlist_init (qc_alloc_list p) m0 = (l2, m1)" and l1: "cl_qlist_init (qc_free_list p) m1 = (l1, m2)"
  shows "links_same (- live w \<union> pool_ends p) m m2"
proof -
  have "links_same (pool_ends p) m (snd (cl_qcpool_construct p m))"
    by (simp add: links_same_def cl_qcpool_construct_def clear_list_end_def pool_ends_def)
  moreover have "links_same (- live w) (snd (cl_qcpool_construct p m)) m0"
  proof -
    have "addr_range sp (unat ((sizeof_size + sizeof_pointer) * ucast num)) \<inter> live w = {}"
      using heap mal sp unfolding heap_law_def by (metis (full_types))
    with heap show ?thesis unfolding heap_law_def links_same_def m0_def by (simp add: disjoint_iff) blast
  qed
  moreover have "links_same (pool_ends p) m0 m2"
    using l1 l2 by (auto simp: links_same_def cl_qlist_init_def cl_qlist_reset_def pool_ends_def)
  ultimately show ?thesis by (meson Un_upper1 Un_upper2 links_same_mono links_same_trans)
qed

lemma first_growth:
  assumes heap: "heap_law os live" and law: "init_law live off p2" and rep: "pool_rep (live w1) off m2 p2 [] {} []"
    and fits: "16 + unat (qcpool_obj_size p2) * growth p2 min_size < 2 ^ 64"
    and grow: "cl_qcpool_grow os p2 min_size m2 w1 = (st, p3, m3, w3)"
  shows "\<exists>free blocks. pool_rep (live w3) off m3 p3 free {} blocks \<and> pool_config p3 = pool_config p2 \<and>
        length free \<le> growth p2 min_size \<and> (st = CL_SUCCESS \<longrightarrow> length free = growth p2 min_size) \<and>
        length blocks \<le> 1 \<and> live w1 \<subseteq> live w3 \<and>
        (st = CL_SUCCESS \<longrightarrow> (\<exists>b. free = new_items (b + 16) (qcpool_obj_size p2) off (growth p2 min_size) \<and>
          loop_end p2 b (growth p2 min_size) (st, p3, m3, w3))) \<and>
        links_same (- live w1 \<union> pool_ends p2) m2 m3 \<and> (set free \<union> set blocks) \<inter> live w1 = {}"
proof (rule qcpool_grow [OF assms, THEN disjE]; elim exE conjE)
  assume "st = CL_INSUFFICIENT_MEMORY" "p3 = p2" "m3 = m2" "live w3 = live w1"
  with rep show ?thesis by - (rule exI [of _ "[]"], rule exI [of _ "[]"], simp)
next
  fix b k assume "k \<le> growth p2 min_size" "st = CL_SUCCESS \<longleftrightarrow> k = growth p2 min_size" "pool_config p3 = pool_config p2"
    "live w1 \<subseteq> live w3" "b \<notin> live w1" "loop_end p2 b (growth p2 min_size) (st, p3, m3, w3)"
    "pool_rep (live w3) off m3 p3 (new_items (b + 16) (qcpool_obj_size p2) off k @ []) {} ([] @ [b])"
    "links_same (- live w1 \<union> pool_ends p2 \<union> set [] \<union> set []) m2 m3"
    "set (new_items (b + 16) (qcpool_obj_size p2) off k) \<inter> live w1 = {}"
  then show ?thesis
    by - (rule exI [of _ "new_items (b + 16) (qcpool_obj_size p2) off k"], rule exI [of _ "[b]"], auto)
qed

text \<open>
  Initialisation ends in one of three ways: the settings are refused; an allocation or an initialiser
  failed, and the pool is as good as not initialised; or the pool holds exactly the requested
  minimum of free objects.
\<close>

lemma qcpool_init:
  assumes heap: "heap_law os live"
    and ends: "ql_end (qc_free_list p) \<noteq> ql_end (qc_alloc_list p)" "pool_ends p \<subseteq> live w" "0 \<notin> live w"
    and s: "s = sum_list (rounded_sizes sizes num)" "off < s" "16 + unat s * unat min_size < 2 ^ 64"
      "unat min_size < 2 ^ 32"
    and cb: "\<And>sp. init_law live off (initial_pool p sp max_size grow_size sizes num pi pd) \<and>
      dtor_law off (initial_pool p sp max_size grow_size sizes num pi pd)"
  shows "\<exists>st p' m' w'. cl_qcpool_init os p min_size max_size grow_size sizes num pi pd m w = Some (st, p', m', w') \<and>
    (bad_setting min_size max_size num pi \<longrightarrow> st = CL_INVALID_SETTING \<and> w' = w) \<and>
    (if st = CL_SUCCESS
     then \<exists>free blocks sp. length free = unat min_size \<and> pool_rep (live w') off m' p' free {} blocks \<and>
       pool_config p' = pool_config (initial_pool p sp max_size grow_size sizes num pi pd) \<and> live w \<subseteq> live w' \<and>
       links_same (- live w \<union> pool_ends p) m m' \<and> (set free \<union> set blocks) \<inter> live w = {} \<and>
       (min_size = 0 \<or> (\<exists>b. free = new_items (b + 16) s off (unat min_size) \<and>
          loop_end (initial_pool p sp max_size grow_size sizes num pi pd) b (unat min_size) (st, p', m', w')))
     else \<not> cl_is_qcpool_inited p')"
proof (cases "bad_setting min_size max_size num pi")
  case True
  then show ?thesis
    by (auto simp: cl_qcpool_init_def bad_setting_def cl_qcpool_construct_def clear_list_end_def
        cl_is_qcpool_inited_def Let_def)
next
  case False
  obtain sp w1 where mal: "os_malloc os ((sizeof_size + sizeof_pointer) * ucast num) w = (sp, w1)"
    by (metis surj_pair)
  define m0 where "m0 = os_memset0 os sp ((sizeof_size + sizeof_pointer) * ucast num) (snd (cl_qcpool_construct p m))"
  obtain l2 m1 where l2: "cl_qlist_init (qc_alloc_list p) m0 = (l2, m1)" by (metis surj_pair)
  obtain l1 m2 where l1: "cl_qlist_init (qc_free_list p) m1 = (l1, m2)" by (metis surj_pair)
  define p2 where "p2 = initial_pool p sp max_size grow_size sizes num pi pd"
  note steps = init_steps [OF False mal m0_def l2 l1 p2_def]
  show ?thesis
  proof (cases "sp = 0")
    case True
    with steps False show ?thesis
      by (simp add: cl_qcpool_construct_def clear_list_end_def cl_is_qcpool_inited_def Let_def)
  next
    case sp: False
    have live: "live w1 = live w \<union> addr_range sp (unat ((sizeof_size + sizeof_pointer) * (ucast num :: size_t)))"
      using heap mal sp unfolding heap_law_def by (metis (full_types))
    have rep: "pool_rep (live w1) off m2 p2 [] {} []"
      unfolding p2_def by (rule initial_rep [OF ends(1) _ _ _ l1 l2])
        (use ends live s null_not_in_range [OF sp] in auto)
    note same2 = init_links [OF heap mal sp m0_def l2 l1]
    have size: "qcpool_obj_size p2 = s"
      by (simp add: p2_def initial_pool_def qcpool_obj_size_def s(1) rounded_sizes_def)
    have gr: "growth p2 min_size = unat min_size"
      using False s(4) by (auto simp: growth_def p2_def initial_pool_def bad_setting_def word_le_nat_alt not_less
          unsigned_minus_1_eq_mask mask_eq_exp_minus_1)
    obtain st p3 m3 w3 where grow: "cl_qcpool_grow os p2 min_size m2 w1 = (st, p3, m3, w3)"
      by (metis prod_cases4)
    have law: "init_law live off p2" "dtor_law off p2" using cb by (auto simp: p2_def)
    have "16 + unat (qcpool_obj_size p2) * growth p2 min_size < 2 ^ 64" using s(3) size gr by simp
    note first_growth [OF heap law(1) rep this grow, unfolded gr size]
    then obtain free blocks where rep3: "pool_rep (live w3) off m3 p3 free {} blocks" "pool_config p3 = pool_config p2"
        "length free \<le> unat min_size" "st = CL_SUCCESS \<longrightarrow> length free = unat min_size"
        "length blocks \<le> 1" "live w1 \<subseteq> live w3"
        "st = CL_SUCCESS \<longrightarrow> (\<exists>b. free = new_items (b + 16) s off (unat min_size) \<and>
          loop_end p2 b (unat min_size) (st, p3, m3, w3))"
        "links_same (- live w1 \<union> pool_ends p2) m2 m3" "(set free \<union> set blocks) \<inter> live w1 = {}"
      by blast
    have "links_same (- live w1 \<union> pool_ends p2) m2 m3" by (rule rep3(8))
    then have same3: "links_same (- live w \<union> pool_ends p) m m3"
      by (rule links_same_trans [OF same2 links_same_mono])
        (use live in \<open>auto simp: p2_def initial_pool_def pool_ends_def\<close>)
    have new3: "(set free \<union> set blocks) \<inter> live w = {}" using rep3(9) live by auto
    have "dtor_law off p3"
      using law(2) rep3(2) config_same(1) [OF rep3(2)] by (simp add: dtor_law_def pool_config_def)
    from qcpool_destroy [OF rep3(1) this, where os = os and w = w3] rep3(3,5) s(4) obtain p4 m4 w4 where
      "cl_qcpool_destroy os p3 m3 w3 = Some (p4, m4, w4)" "\<not> cl_is_qcpool_inited p4"
      by auto
    with steps False sp grow rep rep3(1-7) live same2 same3 new3 show ?thesis
      by (cases "min_size = 0"; cases "st = CL_SUCCESS") (auto simp: p2_def)
  qed
qed

end
