(* ===== verification/Object_Pool.thy ===== *)
theory Object_Pool
  imports Pool_Ops
begin

text \<open>
  The contract between a pool of fixed size and its users, as a locale: the pool is a stack of objects
  from which the user takes and to which he returns. The quick composite pool and the pool provide it
  when their growth size is 0, which is how the learning database uses them.
\<close>

section \<open>Sequences of operations\<close>

datatype pool_op = Take | Give u64

fun pool_run :: "('s \<Rightarrow> u64 \<times> 's) \<Rightarrow> (u64 \<Rightarrow> 's \<Rightarrow> 's) \<Rightarrow> pool_op list \<Rightarrow> 's \<Rightarrow> u64 list \<times> 's" where
  "pool_run get put [] s = ([], s)"
| "pool_run get put (Take # ops) s =
    (let (x, s) = get s; (xs, s) = pool_run get put ops s in (x # xs, s))"
| "pool_run get put (Give x # ops) s = pool_run get put ops (put x s)"

text \<open>The specification: a stack of free objects and the set of the objects with the user.\<close>

fun stack_run :: "pool_op list \<Rightarrow> u64 list \<Rightarrow> u64 set \<Rightarrow> u64 list \<times> u64 list \<times> u64 set" where
  "stack_run [] free used = ([], free, used)"
| "stack_run (Take # ops) [] used = (let (xs, r) = stack_run ops [] used in (0 # xs, r))"
| "stack_run (Take # ops) (x # free) used = (let (xs, r) = stack_run ops free (insert x used) in (x # xs, r))"
| "stack_run (Give x # ops) free used = stack_run ops (x # free) (used - {x})"

text \<open>A user returns only what he holds.\<close>

fun returns_held :: "pool_op list \<Rightarrow> u64 list \<Rightarrow> u64 set \<Rightarrow> bool" where
  "returns_held [] free used \<longleftrightarrow> True"
| "returns_held (Take # ops) [] used \<longleftrightarrow> returns_held ops [] used"
| "returns_held (Take # ops) (x # free) used \<longleftrightarrow> returns_held ops free (insert x used)"
| "returns_held (Give x # ops) free used \<longleftrightarrow> x \<in> used \<and> returns_held ops (x # free) (used - {x})"

lemma stack_conserves:
  "returns_held ops free used \<Longrightarrow> stack_run ops free used = (xs, free', used') \<Longrightarrow>
   set free' \<union> used' = set free \<union> used"
  by (induction ops free used arbitrary: xs rule: stack_run.induct)
    (auto split: prod.splits)

locale object_pool =
  fixes rep :: "'s \<Rightarrow> u64 list \<Rightarrow> u64 set \<Rightarrow> bool"
    and get :: "'s \<Rightarrow> u64 \<times> 's"
    and put :: "u64 \<Rightarrow> 's \<Rightarrow> 's"
  assumes get_first: "rep s (x # free) used \<Longrightarrow> fst (get s) = x \<and> rep (snd (get s)) free (insert x used)"
    and get_none: "rep s [] used \<Longrightarrow> fst (get s) = 0 \<and> rep (snd (get s)) [] used"
    and put_first: "rep s free used \<Longrightarrow> x \<in> used \<Longrightarrow> rep (put x s) (x # free) (used - {x})"
    and objects: "rep s free used \<Longrightarrow> distinct free \<and> set free \<inter> used = {} \<and> 0 \<notin> set free \<union> used"
begin

lemma refines_stack:
  "rep s free used \<Longrightarrow> returns_held ops free used \<Longrightarrow> pool_run get put ops s = (xs, s') \<Longrightarrow>
   \<exists>free' used'. stack_run ops free used = (xs, free', used') \<and> rep s' free' used'"
proof (induction ops free used arbitrary: s xs rule: stack_run.induct)
  case (1 free used)
  then show ?case by auto
next
  case (2 ops used)
  from get_none [OF 2(2)] obtain s1 where g: "get s = (0, s1)" "rep s1 [] used" by (cases "get s") auto
  from 2(4) g obtain ys where "pool_run get put ops s1 = (ys, s')" "xs = 0 # ys"
    by (auto split: prod.splits)
  with 2(1) [OF g(2)] 2(3) show ?case by auto
next
  case (3 ops x free used)
  from get_first [OF 3(2)] obtain s1 where g: "get s = (x, s1)" "rep s1 free (insert x used)"
    by (cases "get s") auto
  from 3(4) g obtain ys where "pool_run get put ops s1 = (ys, s')" "xs = x # ys"
    by (auto split: prod.splits)
  with 3(1) [OF g(2)] 3(3) show ?case by auto
next
  case (4 x ops free used)
  from 4(3) have "x \<in> used" by simp
  from put_first [OF 4(2) this] 4(1,3,4) show ?case by auto
qed

lemma get_put: "rep s free used \<Longrightarrow> x \<in> used \<Longrightarrow> fst (get (put x s)) = x"
  using get_first [OF put_first] by blast

lemma get_fresh: "rep s free used \<Longrightarrow> fst (get s) \<notin> used"
  using get_first get_none objects by (cases free) (metis IntI Un_iff empty_iff list.set_intros(1))+

end

section \<open>The quick composite pool\<close>

definition qc_get :: "('z lmem, 'w) heap_os \<Rightarrow> ('z, 'w) qcpool \<times> 'z lmem \<times> 'w \<Rightarrow> u64 \<times> ('z, 'w) qcpool \<times> 'z lmem \<times> 'w" where
  "qc_get os s = (case s of (p, m, w) \<Rightarrow> cl_qcpool_get os p m w)"

definition qc_put :: "u64 \<Rightarrow> ('z, 'w) qcpool \<times> 'z lmem \<times> 'w \<Rightarrow> ('z, 'w) qcpool \<times> 'z lmem \<times> 'w" where
  "qc_put x s = (case s of (p, m, w) \<Rightarrow> let (p, m) = cl_qcpool_put p x m in (p, m, w))"

definition fixed_rep :: "u64 set \<Rightarrow> u64 \<Rightarrow> ('z, 'w) qcpool \<times> 'z lmem \<times> 'w \<Rightarrow> u64 list \<Rightarrow> u64 set \<Rightarrow> bool" where
  "fixed_rep L off s free used \<longleftrightarrow> (case s of (p, m, w) \<Rightarrow>
    (\<exists>blocks. pool_rep L off m p free used blocks) \<and> qc_grow_size p = 0 \<and> qc_num_objects p < 2 ^ 32)"

lemma fixed_get_first:
  assumes "pool_rep L off m p (x # free) used blocks" and "qc_num_objects p < 2 ^ 32"
  shows "\<exists>fl. cl_qcpool_get os p m w = (x, p\<lparr>qc_free_list := fl\<rparr>, cl_primitive_remove x m, w) \<and>
    ql_end fl = ql_end (qc_free_list p) \<and>
    pool_rep L off (cl_primitive_remove x m) (p\<lparr>qc_free_list := fl\<rparr>) free (insert x used) blocks"
proof -
  obtain y fl m2 where rem: "cl_qlist_remove_head (qc_free_list p) m = (y, fl, m2)" by (metis prod_cases3)
  have "length (x # free) < 2 ^ 32"
    using assms by (simp add: pool_rep_def word_less_nat_alt)
  then have "\<not> cl_is_qlist_empty (qc_free_list p)" using pool_empty_iff [OF assms(1)] by simp
  then show ?thesis
    using qcpool_remove_head [OF assms(1) rem] rem by (auto simp: cl_qcpool_get_def qcpool_refill_def)
qed

lemma fixed_get_none:
  assumes "pool_rep L off m p [] used blocks" and "qc_grow_size p = 0"
  shows "cl_qcpool_get os p m w = (0, p, m, w)"
  using pool_empty_iff [OF assms(1)] assms(2) by (simp add: cl_qcpool_get_def qcpool_refill_def)

lemma qcpool_put_fields:
  assumes "cl_qcpool_put p x m = (p', m')"
  shows "m' = cl_primitive_insert (cl_qlist_head (qc_free_list p) m) x m"
    "qc_grow_size p' = qc_grow_size p" "qc_num_objects p' = qc_num_objects p"
  using assms by (auto simp: cl_qcpool_put_def cl_qlist_insert_head_def)

lemma pool_rep_objects:
  "pool_rep L off m p free used blocks \<Longrightarrow> distinct free \<and> set free \<inter> used = {} \<and> 0 \<notin> set free \<union> used"
  using pool_rep_null [of L off m p free used blocks 0] qlist_distinct [of m "qc_free_list p" free]
  by (auto simp: pool_rep_def)

interpretation fixed_qcpool: object_pool "fixed_rep L off" "qc_get os" qc_put for L off os
proof
  fix s :: "('a, 'b) qcpool \<times> 'a lmem \<times> 'b" and x free used
  obtain p m w where s: "s = (p, m, w)" by (metis prod_cases3)
  show "fst (qc_get os s) = x \<and> fixed_rep L off (snd (qc_get os s)) free (insert x used)"
    if s_rep: "fixed_rep L off s (x # free) used"
  proof -
    from s_rep obtain blocks where b: "pool_rep L off m p (x # free) used blocks" "qc_num_objects p < 2 ^ 32"
      "qc_grow_size p = 0" by (auto simp: fixed_rep_def s)
    from fixed_get_first [OF b(1,2), of os w] b(2,3) show ?thesis
      by (auto simp: fixed_rep_def qc_get_def s)
  qed
  show "fst (qc_get os s) = 0 \<and> fixed_rep L off (snd (qc_get os s)) [] used" if "fixed_rep L off s [] used"
    using that fixed_get_none by (fastforce simp: fixed_rep_def qc_get_def s)
  show "fixed_rep L off (qc_put x s) (x # free) (used - {x})" if "fixed_rep L off s free used" "x \<in> used"
  proof -
    obtain p' m' where put: "cl_qcpool_put p x m = (p', m')" by (metis surj_pair)
    with that qcpool_put [of L off m p free used _ x, OF _ that(2) put] qcpool_put_fields [OF put]
    show ?thesis by (auto simp: fixed_rep_def qc_put_def s)
  qed
  show "distinct free \<and> set free \<inter> used = {} \<and> 0 \<notin> set free \<union> used" if "fixed_rep L off s free used"
    using that by (auto simp: fixed_rep_def s dest: pool_rep_objects)
qed

section \<open>The pool\<close>

text \<open>
  The objects of a pool are the addresses behind the hidden headers: an item \<open>x - 24\<close> of the composite
  pool stands for the object \<open>x\<close>, and its header points to \<open>x\<close>.
\<close>

definition upool_rep ::
  "u64 set \<Rightarrow> ('k, 'z) pmem \<Rightarrow> (('k, 'z) pmem, 'w) cl_pool_t \<Rightarrow> u64 list \<Rightarrow> u64 set \<Rightarrow> u64 list \<Rightarrow> bool" where
  "upool_rep L m p free used blocks \<longleftrightarrow>
    pool_rep L 0 m (pl_qcpool p) (map (\<lambda>x. x - 24) free) ((\<lambda>x. x - 24) ` used) blocks \<and>
    24 < qcpool_obj_size (pl_qcpool p) \<and> (\<forall>x\<in>set free \<union> used. p_object m (x - 24) = x)"

text \<open>The bytes of an object, without the header.\<close>

definition user_span :: "(('k, 'z) pmem, 'w) cl_pool_t \<Rightarrow> u64 \<Rightarrow> u64 set" where
  "user_span p x = addr_range x (unat (qcpool_obj_size (pl_qcpool p)) - 24)"

lemma primitive_object [simp]:
  "p_object (cl_primitive_insert y x m) = p_object m" "p_object (cl_primitive_remove x m) = p_object m"
  by (simp_all add: cl_primitive_insert_def cl_primitive_remove_def Let_def)

lemma sub24_image: "(\<lambda>x. x - 24 :: u64) ` insert x A = insert (x - 24) ((\<lambda>x. x - 24) ` A)"
  "(\<lambda>x. x - 24 :: u64) ` (A - {x}) = (\<lambda>x. x - 24) ` A - {x - 24}"
  by auto

lemma upool_object:
  assumes "upool_rep L m p free used blocks" and "x \<in> set free \<union> used"
  shows "x \<noteq> 0 \<and> x - 24 \<noteq> 0 \<and> unat x = unat (x - 24) + 24 \<and>
    user_span p x \<subseteq> obj_span 0 (qcpool_obj_size (pl_qcpool p)) (x - 24) \<and> user_span p x \<subseteq> L"
proof -
  define i s where "i = x - 24" and "s = qcpool_obj_size (pl_qcpool p)"
  have lay: "layout L 0 s (pool_ends (pl_qcpool p) \<union> set blocks)
      (set (map (\<lambda>x. x - 24) free) \<union> (\<lambda>x. x - 24) ` used)"
    and s24: "24 < unat s" using assms(1) by (simp_all add: upool_rep_def pool_rep_def s_def word_less_nat_alt)
  have i: "i \<in> set (map (\<lambda>x. x - 24) free) \<union> (\<lambda>x. x - 24) ` used" using assms(2) by (auto simp: i_def)
  then have top: "unat i + unat s \<le> 2 ^ 64" and sub: "obj_span 0 s i \<subseteq> L" and L: "0 \<notin> L"
    using lay by (auto simp: layout_def)
  have x: "x = i + 24" by (simp add: i_def)
  have ux: "unat x = unat i + 24"
    unfolding x using unat_add_no_wrap [of i 24] top s24 by simp
  have us: "user_span p x \<subseteq> obj_span 0 s i"
    unfolding user_span_def obj_span_def s_def [symmetric]
    by (rule addr_range_sub) (use ux s24 in simp_all)
  have "x \<in> user_span p x" using s24 by (simp add: user_span_def addr_range_def s_def)
  with us sub L layout_items [OF lay i] ux show ?thesis
    by (auto simp: i_def s_def)
qed

text \<open>Taking and returning an object of a pool that does not grow.\<close>

lemma upool_get_first:
  assumes rep: "upool_rep L m p (x # free) used blocks" and n: "qc_num_objects (pl_qcpool p) < 2 ^ 32"
  shows "\<exists>fl. cl_pool_get os p m w = (x, p\<lparr>pl_qcpool := (pl_qcpool p)\<lparr>qc_free_list := fl\<rparr>\<rparr>,
      cl_primitive_remove (x - 24) m, w) \<and>
    upool_rep L (cl_primitive_remove (x - 24) m) (p\<lparr>pl_qcpool := (pl_qcpool p)\<lparr>qc_free_list := fl\<rparr>\<rparr>)
      free (insert x used) blocks \<and> ql_end fl = ql_end (qc_free_list (pl_qcpool p))"
proof -
  have q: "pool_rep L 0 m (pl_qcpool p) ((x - 24) # map (\<lambda>x. x - 24) free) ((\<lambda>x. x - 24) ` used) blocks"
    using rep by (simp add: upool_rep_def)
  from fixed_get_first [OF q n, of os w] obtain fl where
    fl: "cl_qcpool_get os (pl_qcpool p) m w =
      (x - 24, (pl_qcpool p)\<lparr>qc_free_list := fl\<rparr>, cl_primitive_remove (x - 24) m, w)"
    "pool_rep L 0 (cl_primitive_remove (x - 24) m) ((pl_qcpool p)\<lparr>qc_free_list := fl\<rparr>)
      (map (\<lambda>x. x - 24) free) (insert (x - 24) ((\<lambda>x. x - 24) ` used)) blocks"
    "ql_end fl = ql_end (qc_free_list (pl_qcpool p))" by blast
  have "x - 24 \<noteq> 0" using pool_rep_null [OF q, of "x - 24"] by simp
  with fl rep show ?thesis
    by (auto simp: cl_pool_get_def upool_rep_def qcpool_obj_size_def)
qed

lemma upool_get_none:
  assumes "upool_rep L m p [] used blocks" and "qc_grow_size (pl_qcpool p) = 0"
  shows "cl_pool_get os p m w = (0, p, m, w)"
  using fixed_get_none [of L 0 m "pl_qcpool p" "(\<lambda>x. x - 24) ` used" blocks os w] assms
  by (simp add: cl_pool_get_def upool_rep_def)

lemma upool_put:
  assumes rep: "upool_rep L m p free used blocks" and x: "x \<in> used"
    and run: "cl_pool_put p x m = (p', m')"
  shows "upool_rep L m' p' (x # free) (used - {x}) blocks \<and>
    m' = cl_primitive_insert (cl_qlist_head (qc_free_list (pl_qcpool p)) m) (x - 24) m \<and>
    qc_grow_size (pl_qcpool p') = qc_grow_size (pl_qcpool p) \<and>
    qc_num_objects (pl_qcpool p') = qc_num_objects (pl_qcpool p) \<and>
    pool_config (pl_qcpool p') = pool_config (pl_qcpool p)"
proof -
  obtain qc m1 where put: "cl_qcpool_put (pl_qcpool p) (x - 24) m = (qc, m1)" by (metis surj_pair)
  have p': "p' = p\<lparr>pl_qcpool := qc\<rparr>" "m' = m1"
    using run put by (simp_all add: cl_pool_put_def sizeof_cl_pool_obj_def)
  have "pool_rep L 0 m1 qc ((x - 24) # map (\<lambda>x. x - 24) free) ((\<lambda>x. x - 24) ` used - {x - 24}) blocks \<and>
      pool_config qc = pool_config (pl_qcpool p)"
    by (rule qcpool_put [OF _ _ put]) (use rep x in \<open>auto simp: upool_rep_def\<close>)
  then have q: "pool_rep L 0 m1 qc (map (\<lambda>x. x - 24) (x # free)) ((\<lambda>x. x - 24) ` (used - {x})) blocks"
    and cfg: "pool_config qc = pool_config (pl_qcpool p)" by (simp_all add: sub24_image(2))
  note f = qcpool_put_fields [OF put]
  have "p_object m1 = p_object m" unfolding f(1) by simp
  then have "\<forall>y\<in>set (x # free) \<union> (used - {x}). p_object m1 (y - 24) = y"
    using rep x by (auto simp: upool_rep_def)
  moreover have "24 < qcpool_obj_size qc" using rep config_same(1) [OF cfg] by (simp add: upool_rep_def)
  ultimately show ?thesis
    using q f cfg by (simp add: upool_rep_def p')
qed

definition pl_get ::
  "(('k, 'z) pmem, 'w) heap_os \<Rightarrow> (('k, 'z) pmem, 'w) cl_pool_t \<times> ('k, 'z) pmem \<times> 'w \<Rightarrow>
   u64 \<times> (('k, 'z) pmem, 'w) cl_pool_t \<times> ('k, 'z) pmem \<times> 'w" where
  "pl_get os s = (case s of (p, m, w) \<Rightarrow> cl_pool_get os p m w)"

definition pl_put ::
  "u64 \<Rightarrow> (('k, 'z) pmem, 'w) cl_pool_t \<times> ('k, 'z) pmem \<times> 'w \<Rightarrow> (('k, 'z) pmem, 'w) cl_pool_t \<times> ('k, 'z) pmem \<times> 'w" where
  "pl_put x s = (case s of (p, m, w) \<Rightarrow> let (p, m) = cl_pool_put p x m in (p, m, w))"

definition fixed_upool ::
  "u64 set \<Rightarrow> (('k, 'z) pmem, 'w) cl_pool_t \<times> ('k, 'z) pmem \<times> 'w \<Rightarrow> u64 list \<Rightarrow> u64 set \<Rightarrow> bool" where
  "fixed_upool L s free used \<longleftrightarrow> (case s of (p, m, w) \<Rightarrow>
    (\<exists>blocks. upool_rep L m p free used blocks) \<and> qc_grow_size (pl_qcpool p) = 0 \<and>
    qc_num_objects (pl_qcpool p) < 2 ^ 32)"

lemma upool_rep_objects:
  assumes rep: "upool_rep L m p free used blocks"
  shows "distinct free \<and> set free \<inter> used = {} \<and> 0 \<notin> set free \<union> used"
proof -
  have "pool_rep L 0 m (pl_qcpool p) (map (\<lambda>x. x - 24) free) ((\<lambda>x. x - 24) ` used) blocks"
    using rep by (simp add: upool_rep_def)
  from pool_rep_objects [OF this] have d: "distinct (map (\<lambda>x. x - 24) free)"
    "(\<lambda>x. x - 24) ` set free \<inter> (\<lambda>x. x - 24) ` used = {}" by auto
  have "distinct free" using d(1) by (simp add: distinct_map)
  moreover have "set free \<inter> used = {}" using d(2) by blast
  ultimately show ?thesis using upool_object [OF rep, of 0] by blast
qed

interpretation fixed_pool: object_pool "fixed_upool L" "pl_get os" pl_put for L os
proof
  fix s :: "(('a, 'b) pmem, 'c) cl_pool_t \<times> ('a, 'b) pmem \<times> 'c" and x free used
  obtain p m w where s: "s = (p, m, w)" by (metis prod_cases3)
  show "fst (pl_get os s) = x \<and> fixed_upool L (snd (pl_get os s)) free (insert x used)"
    if s_rep: "fixed_upool L s (x # free) used"
  proof -
    from s_rep obtain blocks where b: "upool_rep L m p (x # free) used blocks"
      "qc_num_objects (pl_qcpool p) < 2 ^ 32" "qc_grow_size (pl_qcpool p) = 0"
      by (auto simp: fixed_upool_def s)
    from upool_get_first [OF b(1,2), of os w] b(2,3) show ?thesis
      by (auto simp: fixed_upool_def pl_get_def s)
  qed
  show "fst (pl_get os s) = 0 \<and> fixed_upool L (snd (pl_get os s)) [] used" if "fixed_upool L s [] used"
    using that upool_get_none [of L m p used _ os w] by (auto simp: fixed_upool_def pl_get_def s)
  show "fixed_upool L (pl_put x s) (x # free) (used - {x})" if "fixed_upool L s free used" "x \<in> used"
  proof -
    obtain p' m' where put: "cl_pool_put p x m = (p', m')" by (metis surj_pair)
    with that upool_put [of L m p free used _ x, OF _ that(2) put]
    show ?thesis by (auto simp: fixed_upool_def pl_put_def s)
  qed
  show "distinct free \<and> set free \<inter> used = {} \<and> 0 \<notin> set free \<union> used" if "fixed_upool L s free used"
    using that by (auto simp: fixed_upool_def s dest: upool_rep_objects)
qed

section \<open>Initialising a pool\<close>

text \<open>The callback of a pool without a user initialiser: it always succeeds and sets the header.\<close>

lemma pool_init_cb:
  "pl_pfn_init q = None \<Longrightarrow> cl_pool_init_cb q (a # as) n m w =
   (CL_SUCCESS, a, (a + 24) # as, m\<lparr>p_object := (p_object m)(a := a + 24)\<rparr>, w)"
  by (simp add: cl_pool_init_cb_def sizeof_cl_pool_obj_def)

lemma pool_init_law:
  assumes "qc_pfn_init p = Some (cl_pool_init_cb q)" "pl_pfn_init q = None"
  shows "init_law live 0 p"
  using assms by (simp add: init_law_def qcpool_init_object_def pool_init_cb)

lemma pool_grow_objects:
  assumes "qc_pfn_init p = Some (cl_pool_init_cb q)" "pl_pfn_init q = None"
    and "take (unat (qc_num_components p)) (qc_component_sizes p) = [s]"
    and "qcpool_grow_loop n a s p m w = (st, p', m', w')"
  shows "st = CL_SUCCESS \<and> w' = w \<and>
    p_object m' = (\<lambda>x. if x \<in> set (new_items a s 0 n) then x + 24 else p_object m x)"
  using assms
proof (induction n arbitrary: a p m)
  case 0
  then show ?case by simp
next
  case (Suc n)
  let ?m = "m\<lparr>p_object := (p_object m)(a := a + 24)\<rparr>"
  obtain fl m2 where ins: "cl_qlist_insert_head (qc_free_list p) a ?m = (fl, m2)" by (metis surj_pair)
  then have m2: "p_object m2 = (p_object m)(a := a + 24)"
    by (auto simp: cl_qlist_insert_head_def)
  have "qcpool_grow_loop n (a + s) s (p\<lparr>qc_p_components := [a + 24], qc_free_list := fl,
      qc_num_objects := qc_num_objects p + 1\<rparr>) m2 w = (st, p', m', w')"
    using Suc.prems ins by (simp add: qcpool_init_object_def pool_init_cb)
  from Suc.IH [OF _ _ _ this] Suc.prems(1-3) m2 show ?case
    by (auto simp: new_items_Suc fun_eq_iff)
qed

definition initial_upool ::
  "(('k, 'z) pmem, 'w) cl_pool_t \<Rightarrow> u64 \<Rightarrow> size_t \<Rightarrow> size_t \<Rightarrow> size_t \<Rightarrow> (('k, 'z) pmem, 'w) cl_qcpool_t" where
  "initial_upool p sp max_size grow_size object_size =
    initial_pool (pl_qcpool p) sp max_size grow_size [object_size + 24] 1
      (Some (cl_pool_init_cb (p\<lparr>pl_pfn_init := None, pl_pfn_dtor := None\<rparr>))) None"

lemma rounded_single: "rounded_sizes [n] 1 = [ROUNDUP n 8]"
  by (simp add: rounded_sizes_def sizeof_pointer_def)

lemma initial_upool_fields:
  "qc_pfn_init (initial_upool p sp mx gr n) = Some (cl_pool_init_cb (p\<lparr>pl_pfn_init := None, pl_pfn_dtor := None\<rparr>))"
  "qc_num_components (initial_upool p sp mx gr n) = 1"
  "qc_component_sizes (initial_upool p sp mx gr n) = [ROUNDUP (n + 24) 8]"
  "qc_grow_size (initial_upool p sp mx gr n) = gr"
  "qc_pfn_dtor (initial_upool p sp mx gr n) = None"
  "qcpool_obj_size (initial_upool p sp mx gr n) = ROUNDUP (n + 24) 8"
  "pool_ends (initial_upool p sp mx gr n) = pool_ends (pl_qcpool p)"
  by (simp_all add: initial_upool_def initial_pool_def rounded_single qcpool_obj_size_def pool_ends_def)

lemma pool_init_run:
  assumes heap: "heap_law os live"
    and ends: "ql_end (qc_free_list (pl_qcpool p)) \<noteq> ql_end (qc_alloc_list (pl_qcpool p))"
      "pool_ends (pl_qcpool p) \<subseteq> live w" "0 \<notin> live w"
    and s: "s = ROUNDUP (object_size + 24) 8" "0 < s" "16 + unat s * unat min_size < 2 ^ 64"
      "unat min_size < 2 ^ 32"
  obtains st qc m' w' where
    "cl_pool_init os p min_size max_size grow_size object_size None None m w =
      Some (st, p\<lparr>pl_pfn_init := None, pl_pfn_dtor := None, pl_qcpool := qc\<rparr>, m', w')"
    "max_size \<noteq> 0 \<and> max_size < min_size \<longrightarrow> st = CL_INVALID_SETTING"
    "st \<noteq> CL_SUCCESS \<longrightarrow> \<not> cl_is_qcpool_inited qc"
    "st = CL_SUCCESS \<longrightarrow> (\<exists>items blocks sp. length items = unat min_size \<and>
        pool_rep (live w') 0 m' qc items {} blocks \<and>
        pool_config qc = pool_config (initial_upool p sp max_size grow_size object_size) \<and> live w \<subseteq> live w' \<and>
        (min_size = 0 \<or> (\<exists>b. items = new_items (b + 16) s 0 (unat min_size) \<and>
           loop_end (initial_upool p sp max_size grow_size object_size) b (unat min_size) (st, qc, m', w'))))"
proof -
  let ?q = "p\<lparr>pl_pfn_init := None, pl_pfn_dtor := None\<rparr>"
  have laws: "init_law live 0 (initial_upool p sp max_size grow_size object_size) \<and>
      dtor_law 0 (initial_upool p sp max_size grow_size object_size)" for sp
    using pool_init_law [OF initial_upool_fields(1)] by (simp add: dtor_law_def initial_upool_fields)
  have s0: "s = sum_list (rounded_sizes [object_size + 24] 1)" by (simp add: rounded_single s(1))
  from qcpool_init [OF heap ends s0 s(2-4) laws [unfolded initial_upool_def], of m] obtain st qc m' w' where
    run: "cl_qcpool_init os (pl_qcpool p) min_size max_size grow_size [object_size + 24] 1
        (Some (cl_pool_init_cb ?q)) None m w = Some (st, qc, m', w')"
    and bad: "bad_setting min_size max_size 1 (Some (cl_pool_init_cb ?q)) \<longrightarrow> st = CL_INVALID_SETTING \<and> w' = w"
    and res: "if st = CL_SUCCESS
      then \<exists>free blocks sp. length free = unat min_size \<and> pool_rep (live w') 0 m' qc free {} blocks \<and>
        pool_config qc = pool_config (initial_upool p sp max_size grow_size object_size) \<and> live w \<subseteq> live w' \<and>
        links_same (- live w \<union> pool_ends (pl_qcpool p)) m m' \<and> (set free \<union> set blocks) \<inter> live w = {} \<and>
        (min_size = 0 \<or> (\<exists>b. free = new_items (b + 16) s 0 (unat min_size) \<and>
           loop_end (initial_upool p sp max_size grow_size object_size) b (unat min_size) (st, qc, m', w')))
      else \<not> cl_is_qcpool_inited qc"
    unfolding initial_upool_def by blast
  show thesis
  proof (rule that)
    show "cl_pool_init os p min_size max_size grow_size object_size None None m w =
        Some (st, p\<lparr>pl_pfn_init := None, pl_pfn_dtor := None, pl_qcpool := qc\<rparr>, m', w')"
      using run by (simp add: cl_pool_init_def sizeof_cl_pool_obj_def)
    show "max_size \<noteq> 0 \<and> max_size < min_size \<longrightarrow> st = CL_INVALID_SETTING"
      using bad by (simp add: bad_setting_def)
    show "st \<noteq> CL_SUCCESS \<longrightarrow> \<not> cl_is_qcpool_inited qc" using res by simp
    show "st = CL_SUCCESS \<longrightarrow> (\<exists>items blocks sp. length items = unat min_size \<and>
        pool_rep (live w') 0 m' qc items {} blocks \<and>
        pool_config qc = pool_config (initial_upool p sp max_size grow_size object_size) \<and> live w \<subseteq> live w' \<and>
        (min_size = 0 \<or> (\<exists>b. items = new_items (b + 16) s 0 (unat min_size) \<and>
           loop_end (initial_upool p sp max_size grow_size object_size) b (unat min_size) (st, qc, m', w'))))"
      using res by (simp split: if_split_asm) blast
  qed
qed

lemma initial_heads:
  assumes "loop_end (initial_upool p sp mx gr n) b k (st, qc, m', w')"
  shows "\<forall>x\<in>set (new_items (b + 16) (ROUNDUP (n + 24) 8) 0 k). p_object m' x = x + 24"
proof -
  obtain al m2 w2 where run: "qcpool_grow_loop k (b + 16) (ROUNDUP (n + 24) 8)
      ((initial_upool p sp mx gr n)\<lparr>qc_alloc_list := al\<rparr>) m2 w2 = (st, qc, m', w')"
    using assms by (auto simp: loop_end_def initial_upool_fields)
  show ?thesis
    using pool_grow_objects [OF _ _ _ run] by (simp add: initial_upool_fields)
qed

lemma pool_init:
  assumes heap: "heap_law os live"
    and ends: "ql_end (qc_free_list (pl_qcpool p)) \<noteq> ql_end (qc_alloc_list (pl_qcpool p))"
      "pool_ends (pl_qcpool p) \<subseteq> live w" "0 \<notin> live w"
    and s: "s = ROUNDUP (object_size + 24) 8" "24 < s" "16 + unat s * unat min_size < 2 ^ 64"
      "unat min_size < 2 ^ 32"
  shows "\<exists>st p' m' w'. cl_pool_init os p min_size max_size grow_size object_size None None m w =
      Some (st, p', m', w') \<and>
    (max_size \<noteq> 0 \<and> max_size < min_size \<longrightarrow> st = CL_INVALID_SETTING) \<and>
    (if st = CL_SUCCESS
     then \<exists>free blocks. length free = unat min_size \<and> upool_rep (live w') m' p' free {} blocks \<and>
       qc_grow_size (pl_qcpool p') = grow_size \<and> qcpool_obj_size (pl_qcpool p') = s \<and>
       qc_num_objects (pl_qcpool p') = min_size \<and> pool_ends (pl_qcpool p') = pool_ends (pl_qcpool p) \<and>
       live w \<subseteq> live w'
     else \<not> cl_is_pool_inited p')"
proof -
  have pos: "0 < s" using s(2) by (simp add: word_less_nat_alt)
  obtain st qc m' w' where init: "cl_pool_init os p min_size max_size grow_size object_size None None m w =
      Some (st, p\<lparr>pl_pfn_init := None, pl_pfn_dtor := None, pl_qcpool := qc\<rparr>, m', w')"
    "max_size \<noteq> 0 \<and> max_size < min_size \<longrightarrow> st = CL_INVALID_SETTING"
    "st \<noteq> CL_SUCCESS \<longrightarrow> \<not> cl_is_qcpool_inited qc"
    and ok: "st = CL_SUCCESS \<longrightarrow> (\<exists>items blocks sp. length items = unat min_size \<and>
        pool_rep (live w') 0 m' qc items {} blocks \<and>
        pool_config qc = pool_config (initial_upool p sp max_size grow_size object_size) \<and> live w \<subseteq> live w' \<and>
        (min_size = 0 \<or> (\<exists>b. items = new_items (b + 16) s 0 (unat min_size) \<and>
           loop_end (initial_upool p sp max_size grow_size object_size) b (unat min_size) (st, qc, m', w'))))"
    by (rule pool_init_run [OF heap ends s(1) pos s(3,4)])
  show ?thesis
  proof (cases "st = CL_SUCCESS")
    case False
    with init show ?thesis by (simp add: cl_is_pool_inited_def)
  next
    case True
    with ok obtain items blocks sp where it: "length items = unat min_size"
      "pool_rep (live w') 0 m' qc items {} blocks" "live w \<subseteq> live w'"
      "pool_config qc = pool_config (initial_upool p sp max_size grow_size object_size)"
      "min_size = 0 \<or> (\<exists>b. items = new_items (b + 16) s 0 (unat min_size) \<and>
         loop_end (initial_upool p sp max_size grow_size object_size) b (unat min_size) (st, qc, m', w'))"
      by auto
    note c = config_same [OF it(4), unfolded initial_upool_fields]
    have heads: "\<forall>x\<in>set items. p_object m' x = x + 24"
      using it(1,5) s(1) by (cases "min_size = 0") (auto dest!: initial_heads)
    have "upool_rep (live w') m' (p\<lparr>pl_pfn_init := None, pl_pfn_dtor := None, pl_qcpool := qc\<rparr>)
        (map (\<lambda>x. x + 24) items) {} blocks"
      using it(2) c(1) s(1,2) heads by (simp add: upool_rep_def comp_def)
    moreover have "qc_num_objects qc = min_size"
      using it(1,2) by (simp add: pool_rep_def word_unat_eq_iff)
    ultimately have "\<exists>free blocks. length free = unat min_size \<and>
        upool_rep (live w') m' (p\<lparr>pl_pfn_init := None, pl_pfn_dtor := None, pl_qcpool := qc\<rparr>) free {} blocks \<and>
        qc_grow_size qc = grow_size \<and> qcpool_obj_size qc = s \<and> qc_num_objects qc = min_size \<and>
        pool_ends qc = pool_ends (pl_qcpool p) \<and> live w \<subseteq> live w'"
      using it(1,3) c(1,2,5) s(1)
      by (intro exI [of _ "map (\<lambda>x. x + 24) items"] exI [of _ blocks]) simp
    with True init(1,2) show ?thesis by simp
  qed
qed

end
