(* ===== verification/Obj_List.thy ===== *)
theory Obj_List
  imports Object_Pool
begin

text \<open>
  The object list \<^verbatim>\<open>cl_list_t\<close> of \<^verbatim>\<open>cl_list.h\<close> and \<^verbatim>\<open>cl_list.c\<close>: a list of object pointers. Its nodes are
  \<^verbatim>\<open>cl_pool_obj_t\<close> structures taken from a quick pool of the list's own and linked by a quick list; the
  field \<open>p_object\<close> of a node is the user's pointer. Growth of the pool may fail, so the insertions
  return a status, and the insertion of an array undoes what it did when it fails half way.
\<close>

section \<open>The code\<close>

record ('m, 'w) cl_list_t =
  li_list :: "u64 cl_qlist_t"
  li_pool :: "('m, 'w) cl_qpool_t"

type_synonym ('k, 'z, 'w) olist = "(('k, 'z) pmem, 'w) cl_list_t"
type_synonym ('k, 'z, 'w) pheap = "(('k, 'z) pmem, 'w) heap_os"

definition FREE_ITEM_GROW_SIZE :: u32 where "FREE_ITEM_GROW_SIZE = 10"

definition cl_list_construct ::
  "('k, 'z, 'w) olist \<Rightarrow> ('k, 'z) pmem \<Rightarrow> ('k, 'z, 'w) olist \<times> ('k, 'z) pmem" where
  "cl_list_construct l m =
    (let (pool, m) = cl_qpool_construct (li_pool l) m in (l\<lparr>li_pool := pool\<rparr>, m))"

text \<open>The growth size is computed from \<^verbatim>\<open>min_items\<close> cut to 32 bits.\<close>

definition list_grow_size :: "size_t \<Rightarrow> u32" where
  "list_grow_size min_items =
    (let grow_size = drop_bit 3 (ucast min_items :: u32)
     in if grow_size < FREE_ITEM_GROW_SIZE then FREE_ITEM_GROW_SIZE else grow_size)"

definition cl_list_init ::
  "('k, 'z, 'w) pheap \<Rightarrow> ('k, 'z, 'w) olist \<Rightarrow> size_t \<Rightarrow> ('k, 'z) pmem \<Rightarrow> 'w \<Rightarrow>
   (cl_status_t \<times> ('k, 'z, 'w) olist \<times> ('k, 'z) pmem \<times> 'w) option" where
  "cl_list_init os l min_items m w =
    (let (ql, m) = cl_qlist_init (li_list l) m;
         l = l\<lparr>li_list := ql\<rparr>
     in Option.bind
          (cl_qpool_init os (li_pool l) min_items 0 (ucast (list_grow_size min_items)) sizeof_cl_pool_obj
             None None m w)
          (\<lambda>(status, pool, m, w). Some (status, l\<lparr>li_pool := pool\<rparr>, m, w)))"

definition cl_list_destroy ::
  "('k, 'z, 'w) pheap \<Rightarrow> ('k, 'z, 'w) olist \<Rightarrow> ('k, 'z) pmem \<Rightarrow> 'w \<Rightarrow>
   (('k, 'z, 'w) olist \<times> ('k, 'z) pmem \<times> 'w) option" where
  "cl_list_destroy os l m w =
    Option.bind (cl_qpool_destroy os (li_pool l) m w)
      (\<lambda>(pool, m, w). Some (l\<lparr>li_pool := pool\<rparr>, m, w))"

definition cl_is_list_inited :: "('m, 'w) cl_list_t \<Rightarrow> bool" where
  "cl_is_list_inited l = cl_is_qpool_inited (li_pool l)"

definition cl_is_list_empty :: "('m, 'w) cl_list_t \<Rightarrow> bool" where
  "cl_is_list_empty l = cl_is_qlist_empty (li_list l)"

definition cl_list_end :: "('m, 'w) cl_list_t \<Rightarrow> u64" where
  "cl_list_end l = cl_qlist_end (li_list l)"

definition cl_list_head :: "('m, 'w) cl_list_t \<Rightarrow> ('k, 'z) pmem \<Rightarrow> u64" where
  "cl_list_head l m = cl_qlist_head (li_list l) m"

definition cl_list_tail :: "('m, 'w) cl_list_t \<Rightarrow> ('k, 'z) pmem \<Rightarrow> u64" where
  "cl_list_tail l m = cl_qlist_tail (li_list l) m"

definition cl_list_next :: "u64 \<Rightarrow> ('k, 'z) pmem \<Rightarrow> u64" where
  "cl_list_next iter m = cl_qlist_next iter m"

definition cl_list_prev :: "u64 \<Rightarrow> ('k, 'z) pmem \<Rightarrow> u64" where
  "cl_list_prev iter m = cl_qlist_prev iter m"

definition cl_list_obj :: "u64 \<Rightarrow> ('k, 'z) pmem \<Rightarrow> u64" where
  "cl_list_obj iter m = p_object m iter"

text \<open>The count passes through the 32-bit count of the quick list.\<close>

definition cl_list_count :: "('m, 'w) cl_list_t \<Rightarrow> size_t" where
  "cl_list_count l = ucast (cl_qlist_count (li_list l))"

subsection \<open>Insertion\<close>

definition set_p_object :: "u64 \<Rightarrow> u64 \<Rightarrow> ('k, 'z) pmem \<Rightarrow> ('k, 'z) pmem" where
  "set_p_object it obj m = m\<lparr>p_object := (p_object m)(it := obj)\<rparr>"

definition cl_list_insert_head ::
  "('k, 'z, 'w) pheap \<Rightarrow> ('k, 'z, 'w) olist \<Rightarrow> u64 \<Rightarrow> ('k, 'z) pmem \<Rightarrow> 'w \<Rightarrow>
   cl_status_t \<times> ('k, 'z, 'w) olist \<times> ('k, 'z) pmem \<times> 'w" where
  "cl_list_insert_head os l obj m w =
    (let (p_pool_obj, pool, m, w) = cl_qpool_get os (li_pool l) m w;
         l = l\<lparr>li_pool := pool\<rparr>
     in if p_pool_obj = 0 then (CL_INSUFFICIENT_MEMORY, l, m, w)
        else
          let m = set_p_object p_pool_obj obj m;
              (ql, m) = cl_qlist_insert_head (li_list l) p_pool_obj m
          in (CL_SUCCESS, l\<lparr>li_list := ql\<rparr>, m, w))"

definition cl_list_insert_tail ::
  "('k, 'z, 'w) pheap \<Rightarrow> ('k, 'z, 'w) olist \<Rightarrow> u64 \<Rightarrow> ('k, 'z) pmem \<Rightarrow> 'w \<Rightarrow>
   cl_status_t \<times> ('k, 'z, 'w) olist \<times> ('k, 'z) pmem \<times> 'w" where
  "cl_list_insert_tail os l obj m w =
    (let (p_pool_obj, pool, m, w) = cl_qpool_get os (li_pool l) m w;
         l = l\<lparr>li_pool := pool\<rparr>
     in if p_pool_obj = 0 then (CL_INSUFFICIENT_MEMORY, l, m, w)
        else
          let m = set_p_object p_pool_obj obj m;
              (ql, m) = cl_qlist_insert_tail (li_list l) p_pool_obj m
          in (CL_SUCCESS, l\<lparr>li_list := ql\<rparr>, m, w))"

definition cl_list_insert_next ::
  "('k, 'z, 'w) pheap \<Rightarrow> ('k, 'z, 'w) olist \<Rightarrow> u64 \<Rightarrow> u64 \<Rightarrow> ('k, 'z) pmem \<Rightarrow> 'w \<Rightarrow>
   cl_status_t \<times> ('k, 'z, 'w) olist \<times> ('k, 'z) pmem \<times> 'w" where
  "cl_list_insert_next os l iter obj m w =
    (let (p_pool_obj, pool, m, w) = cl_qpool_get os (li_pool l) m w;
         l = l\<lparr>li_pool := pool\<rparr>
     in if p_pool_obj = 0 then (CL_INSUFFICIENT_MEMORY, l, m, w)
        else
          let m = set_p_object p_pool_obj obj m;
              (ql, m) = cl_qlist_insert_next (li_list l) iter p_pool_obj m
          in (CL_SUCCESS, l\<lparr>li_list := ql\<rparr>, m, w))"

definition cl_list_insert_prev ::
  "('k, 'z, 'w) pheap \<Rightarrow> ('k, 'z, 'w) olist \<Rightarrow> u64 \<Rightarrow> u64 \<Rightarrow> ('k, 'z) pmem \<Rightarrow> 'w \<Rightarrow>
   cl_status_t \<times> ('k, 'z, 'w) olist \<times> ('k, 'z) pmem \<times> 'w" where
  "cl_list_insert_prev os l iter obj m w =
    (let (p_pool_obj, pool, m, w) = cl_qpool_get os (li_pool l) m w;
         l = l\<lparr>li_pool := pool\<rparr>
     in if p_pool_obj = 0 then (CL_INSUFFICIENT_MEMORY, l, m, w)
        else
          let m = set_p_object p_pool_obj obj m;
              (ql, m) = cl_qlist_insert_prev (li_list l) iter p_pool_obj m
          in (CL_SUCCESS, l\<lparr>li_list := ql\<rparr>, m, w))"

subsection \<open>Removal\<close>

definition cl_list_remove_head ::
  "('k, 'z, 'w) olist \<Rightarrow> ('k, 'z) pmem \<Rightarrow> u64 \<times> ('k, 'z, 'w) olist \<times> ('k, 'z) pmem" where
  "cl_list_remove_head l m =
    (if cl_is_qlist_empty (li_list l) then (0, l, m)
     else
       let (p_pool_obj, ql, m) = cl_qlist_remove_head (li_list l) m;
           p_obj = p_object m p_pool_obj;
           (pool, m) = cl_qpool_put (li_pool l) p_pool_obj m
       in (p_obj, l\<lparr>li_list := ql, li_pool := pool\<rparr>, m))"

text \<open>Here the object pointer is read after the node went back to the pool.\<close>

definition cl_list_remove_tail ::
  "('k, 'z, 'w) olist \<Rightarrow> ('k, 'z) pmem \<Rightarrow> u64 \<times> ('k, 'z, 'w) olist \<times> ('k, 'z) pmem" where
  "cl_list_remove_tail l m =
    (if cl_is_qlist_empty (li_list l) then (0, l, m)
     else
       let (p_pool_obj, ql, m) = cl_qlist_remove_tail (li_list l) m;
           (pool, m) = cl_qpool_put (li_pool l) p_pool_obj m
       in (p_object m p_pool_obj, l\<lparr>li_list := ql, li_pool := pool\<rparr>, m))"

definition cl_list_remove_all ::
  "('k, 'z, 'w) olist \<Rightarrow> ('k, 'z) pmem \<Rightarrow> ('k, 'z, 'w) olist \<times> ('k, 'z) pmem" where
  "cl_list_remove_all l m =
    (let (pool, ql, m) = cl_qpool_put_list (li_pool l) (li_list l) m
     in (l\<lparr>li_list := ql, li_pool := pool\<rparr>, m))"

definition cl_list_remove_item ::
  "('k, 'z, 'w) olist \<Rightarrow> u64 \<Rightarrow> ('k, 'z) pmem \<Rightarrow> ('k, 'z, 'w) olist \<times> ('k, 'z) pmem" where
  "cl_list_remove_item l iter m =
    (let (ql, m) = cl_qlist_remove_item (li_list l) iter m;
         (pool, m) = cl_qpool_put (li_pool l) iter m
     in (l\<lparr>li_list := ql, li_pool := pool\<rparr>, m))"

definition cl_list_find_cb :: "('k, 'z) pmem \<Rightarrow> u64 \<Rightarrow> u64 \<Rightarrow> cl_status_t" where
  "cl_list_find_cb m p_list_item context =
    (if cl_list_obj p_list_item m = context then CL_SUCCESS else CL_NOT_FOUND)"

definition cl_list_remove_object ::
  "('k, 'z, 'w) olist \<Rightarrow> u64 \<Rightarrow> ('k, 'z) pmem \<Rightarrow>
   (cl_status_t \<times> ('k, 'z, 'w) olist \<times> ('k, 'z) pmem) option" where
  "cl_list_remove_object l obj m =
    Option.bind (cl_qlist_find_from_head (li_list l) (cl_list_find_cb m) obj m) (\<lambda>p_list_item.
      Some (if p_list_item \<noteq> cl_qlist_end (li_list l)
            then let (ql, m) = cl_qlist_remove_item (li_list l) p_list_item m;
                     (pool, m) = cl_qpool_put (li_pool l) p_list_item m
                 in (CL_SUCCESS, l\<lparr>li_list := ql, li_pool := pool\<rparr>, m)
            else (CL_NOT_FOUND, l, m)))"

definition cl_is_object_in_list ::
  "('k, 'z, 'w) olist \<Rightarrow> u64 \<Rightarrow> ('k, 'z) pmem \<Rightarrow> bool option" where
  "cl_is_object_in_list l obj m =
    Option.bind (cl_qlist_find_from_head (li_list l) (cl_list_find_cb m) obj m)
      (\<lambda>p_list_item. Some (p_list_item \<noteq> cl_qlist_end (li_list l)))"

subsection \<open>Arrays\<close>

text \<open>
  \<^verbatim>\<open>while (items_remain++ < (item_count - 1))\<close> removes what was inserted; \<open>items_remain\<close> is the value at
  the failed insertion.
\<close>

function undo_head_loop ::
  "nat \<Rightarrow> nat \<Rightarrow> ('k, 'z, 'w) olist \<Rightarrow> ('k, 'z) pmem \<Rightarrow> ('k, 'z, 'w) olist \<times> ('k, 'z) pmem" where
  "undo_head_loop items_remain item_count l m =
    (if items_remain < item_count - 1
     then let (_, l, m) = cl_list_remove_head l m in undo_head_loop (items_remain + 1) item_count l m
     else (l, m))"
  by pat_completeness auto
termination by (relation "measure (\<lambda>(r, n, l, m). n - r)") auto

function undo_tail_loop ::
  "nat \<Rightarrow> nat \<Rightarrow> ('k, 'z, 'w) olist \<Rightarrow> ('k, 'z) pmem \<Rightarrow> ('k, 'z, 'w) olist \<times> ('k, 'z) pmem" where
  "undo_tail_loop items_remain item_count l m =
    (if items_remain < item_count - 1
     then let (_, l, m) = cl_list_remove_tail l m in undo_tail_loop (items_remain + 1) item_count l m
     else (l, m))"
  by pat_completeness auto
termination by (relation "measure (\<lambda>(r, n, l, m). n - r)") auto

declare undo_head_loop.simps [simp del] undo_tail_loop.simps [simp del]

text \<open>The first argument is \<open>items_remain\<close> before \<^verbatim>\<open>items_remain--\<close>.\<close>

fun list_insert_array_head_loop ::
  "nat \<Rightarrow> ('k, 'z, 'w) pheap \<Rightarrow> ('k, 'z, 'w) olist \<Rightarrow> u64 \<Rightarrow> nat \<Rightarrow> u32 \<Rightarrow> ('k, 'z) pmem \<Rightarrow> 'w \<Rightarrow>
   cl_status_t \<times> ('k, 'z, 'w) olist \<times> ('k, 'z) pmem \<times> 'w" where
  "list_insert_array_head_loop 0 os l obj item_count item_size m w = (CL_SUCCESS, l, m, w)"
| "list_insert_array_head_loop (Suc items_remain) os l obj item_count item_size m w =
    (let (status, l, m, w) = cl_list_insert_head os l obj m w
     in if status \<noteq> CL_SUCCESS
        then let (l, m) = undo_head_loop items_remain item_count l m in (status, l, m, w)
        else list_insert_array_head_loop items_remain os l (obj - ucast item_size) item_count item_size m w)"

text \<open>The offset of the last element is a product of two \<^verbatim>\<open>uint32_t\<close> values.\<close>

definition cl_list_insert_array_head ::
  "('k, 'z, 'w) pheap \<Rightarrow> ('k, 'z, 'w) olist \<Rightarrow> u64 \<Rightarrow> u32 \<Rightarrow> u32 \<Rightarrow> ('k, 'z) pmem \<Rightarrow> 'w \<Rightarrow>
   cl_status_t \<times> ('k, 'z, 'w) olist \<times> ('k, 'z) pmem \<times> 'w" where
  "cl_list_insert_array_head os l p_array item_count item_size m w =
    list_insert_array_head_loop (unat item_count) os l (p_array + ucast (item_size * (item_count - 1)))
      (unat item_count) item_size m w"

fun list_insert_array_tail_loop ::
  "nat \<Rightarrow> ('k, 'z, 'w) pheap \<Rightarrow> ('k, 'z, 'w) olist \<Rightarrow> u64 \<Rightarrow> nat \<Rightarrow> u32 \<Rightarrow> ('k, 'z) pmem \<Rightarrow> 'w \<Rightarrow>
   cl_status_t \<times> ('k, 'z, 'w) olist \<times> ('k, 'z) pmem \<times> 'w" where
  "list_insert_array_tail_loop 0 os l obj item_count item_size m w = (CL_SUCCESS, l, m, w)"
| "list_insert_array_tail_loop (Suc items_remain) os l obj item_count item_size m w =
    (let (status, l, m, w) = cl_list_insert_tail os l obj m w
     in if status \<noteq> CL_SUCCESS
        then let (l, m) = undo_tail_loop items_remain item_count l m in (status, l, m, w)
        else list_insert_array_tail_loop items_remain os l (obj + ucast item_size) item_count item_size m w)"

definition cl_list_insert_array_tail ::
  "('k, 'z, 'w) pheap \<Rightarrow> ('k, 'z, 'w) olist \<Rightarrow> u64 \<Rightarrow> u32 \<Rightarrow> u32 \<Rightarrow> ('k, 'z) pmem \<Rightarrow> 'w \<Rightarrow>
   cl_status_t \<times> ('k, 'z, 'w) olist \<times> ('k, 'z) pmem \<times> 'w" where
  "cl_list_insert_array_tail os l p_array item_count item_size m w =
    list_insert_array_tail_loop (unat item_count) os l p_array (unat item_count) item_size m w"

subsection \<open>Searching\<close>

partial_function (option) list_find_head_loop ::
  "('k, 'z, 'w) olist \<Rightarrow> (u64 \<Rightarrow> 'c \<Rightarrow> cl_status_t) \<Rightarrow> 'c \<Rightarrow> u64 \<Rightarrow> ('k, 'z) pmem \<Rightarrow> u64 option" where
  "list_find_head_loop l pfn_func context itor m =
    (if itor \<noteq> cl_list_end l
     then if pfn_func (cl_list_obj itor m) context = CL_SUCCESS then Some itor
          else list_find_head_loop l pfn_func context (cl_list_next itor m) m
     else Some itor)"

definition cl_list_find_from_head ::
  "('k, 'z, 'w) olist \<Rightarrow> (u64 \<Rightarrow> 'c \<Rightarrow> cl_status_t) \<Rightarrow> 'c \<Rightarrow> ('k, 'z) pmem \<Rightarrow> u64 option" where
  "cl_list_find_from_head l pfn_func context m =
    list_find_head_loop l pfn_func context (cl_list_head l m) m"

partial_function (option) list_find_tail_loop ::
  "('k, 'z, 'w) olist \<Rightarrow> (u64 \<Rightarrow> 'c \<Rightarrow> cl_status_t) \<Rightarrow> 'c \<Rightarrow> u64 \<Rightarrow> ('k, 'z) pmem \<Rightarrow> u64 option" where
  "list_find_tail_loop l pfn_func context itor m =
    (if itor \<noteq> cl_list_end l
     then if pfn_func (cl_list_obj itor m) context = CL_SUCCESS then Some itor
          else list_find_tail_loop l pfn_func context (cl_list_prev itor m) m
     else Some itor)"

definition cl_list_find_from_tail ::
  "('k, 'z, 'w) olist \<Rightarrow> (u64 \<Rightarrow> 'c \<Rightarrow> cl_status_t) \<Rightarrow> 'c \<Rightarrow> ('k, 'z) pmem \<Rightarrow> u64 option" where
  "cl_list_find_from_tail l pfn_func context m =
    list_find_tail_loop l pfn_func context (cl_list_tail l m) m"

text \<open>The callback of \<^verbatim>\<open>cl_list_apply_func\<close> may change the memory and the world.\<close>

partial_function (option) list_apply_loop ::
  "('k, 'z, 'w) olist \<Rightarrow> (u64 \<Rightarrow> ('k, 'z) pmem \<Rightarrow> 'w \<Rightarrow> ('k, 'z) pmem \<times> 'w) \<Rightarrow> u64 \<Rightarrow>
   ('k, 'z) pmem \<Rightarrow> 'w \<Rightarrow> (('k, 'z) pmem \<times> 'w) option" where
  "list_apply_loop l pfn_func itor m w =
    (if itor \<noteq> cl_list_end l
     then let (m, w) = pfn_func (cl_list_obj itor m) m w
          in list_apply_loop l pfn_func (cl_list_next itor m) m w
     else Some (m, w))"

definition cl_list_apply_func ::
  "('k, 'z, 'w) olist \<Rightarrow> (u64 \<Rightarrow> ('k, 'z) pmem \<Rightarrow> 'w \<Rightarrow> ('k, 'z) pmem \<times> 'w) \<Rightarrow>
   ('k, 'z) pmem \<Rightarrow> 'w \<Rightarrow> (('k, 'z) pmem \<times> 'w) option" where
  "cl_list_apply_func l pfn_func m w = list_apply_loop l pfn_func (cl_list_head l m) m w"

end
