(* ===== verification/Node_Pool.thy ===== *)
theory Node_Pool
  imports Object_Pool
begin

text \<open>
  How a container uses a quick pool for its nodes: the object list and the object map take nodes of one
  size from a pool without callbacks, link them and return them. \<open>node_pool L m p sz ends used\<close>: the pool
  \<open>p\<close> is well formed, the nodes \<open>used\<close> are with the container, and the container's own end markers \<open>ends\<close>
  overlap neither the pool nor the nodes. The container may write to its nodes and end markers; the pool
  writes to the links of neither (only to those of a node that is returned).
\<close>

section \<open>The representation\<close>

definition plain_pool :: "size_t \<Rightarrow> ('m, 'w) cl_qcpool_t \<Rightarrow> bool" where
  "plain_pool sz p \<longleftrightarrow> qc_pfn_init p = None \<and> qc_pfn_dtor p = None \<and> qcpool_obj_size p = sz \<and>
    unat (qc_grow_size p) < 2 ^ 32 \<and> sz < 2 ^ 16"

definition node_pool ::
  "u64 set \<Rightarrow> 'z lmem \<Rightarrow> ('z, 'w) qcpool \<Rightarrow> size_t \<Rightarrow> u64 set \<Rightarrow> u64 set \<Rightarrow> bool" where
  "node_pool L m p sz ends used \<longleftrightarrow> plain_pool sz p \<and> unat (qc_num_objects p) < 2 ^ 32 \<and>
    ends \<subseteq> L \<and> ends \<inter> used = {} \<and>
    (\<exists>free blocks. pool_rep L 0 m p free used blocks \<and> ends \<inter> (pool_ends p \<union> set blocks \<union> set free) = {})"

text \<open>
  The pool grows only when the container holds all its nodes, and grows without the 32-bit count of its
  quick list wrapping around when there is this room.
\<close>

definition room :: "('m, 'w) cl_qcpool_t \<Rightarrow> nat \<Rightarrow> bool" where
  "room p n \<longleftrightarrow> n + unat (qc_grow_size p) + 1 < 2 ^ 32"

lemma plain_pool_config: "pool_config p' = pool_config p \<Longrightarrow> plain_pool sz p' = plain_pool sz p"
  using config_same(1) [of p' p] by (simp add: plain_pool_def pool_config_def)

lemma room_config: "pool_config p' = pool_config p \<Longrightarrow> room p' n = room p n"
  by (simp add: room_def pool_config_def)

lemma node_pool_nodes:
  assumes "node_pool L m p sz ends used" and "x \<in> used"
  shows "x \<in> L \<and> x \<noteq> 0 \<and> x \<notin> ends"
proof -
  from assms(1) obtain free blocks where
    "layout L 0 (qcpool_obj_size p) (pool_ends p \<union> set blocks) (set free \<union> used)" and "ends \<inter> used = {}"
    by (auto simp: node_pool_def pool_rep_def)
  with layout_items [OF this(1), of x] assms(2) show ?thesis by blast
qed

lemma node_pool_live: "node_pool L m p sz ends used \<Longrightarrow> ends \<union> used \<subseteq> L"
  using node_pool_nodes [of L m p sz ends used] unfolding node_pool_def by blast

lemma node_pool_finite: "node_pool L m p sz ends used \<Longrightarrow> finite used"
  by (auto simp: node_pool_def pool_rep_def)

text \<open>The container writes to the links of its end markers and nodes.\<close>

lemma node_pool_frame:
  assumes pool: "node_pool L m p sz ends used" and same: "links_same (ends \<union> used) m m'"
  shows "node_pool L m' p sz ends used"
proof -
  from pool obtain free blocks where rep: "pool_rep L 0 m p free used blocks"
    and e: "ends \<inter> (pool_ends p \<union> set blocks \<union> set free) = {}" by (auto simp: node_pool_def)
  have "layout L 0 (qcpool_obj_size p) (pool_ends p \<union> set blocks) (set free \<union> used)" "set free \<inter> used = {}"
    using rep by (simp_all add: pool_rep_def)
  then have "x \<notin> ends \<union> used" if "x \<in> pool_ends p \<union> set blocks \<union> set free" for x
    using layout_items [of L 0 "qcpool_obj_size p" "pool_ends p \<union> set blocks" "set free \<union> used" x] e that by blast
  then have "p_next m' x = p_next m x \<and> p_prev m' x = p_prev m x"
    if "x \<in> pool_ends p \<union> set blocks \<union> set free" for x
    using same that by (simp add: links_same_def)
  then have "pool_rep L 0 m' p free used blocks"
    by (intro pool_rep_frame [OF rep]) (use rep in \<open>auto simp: pool_rep_def layout_def\<close>)
  with pool e show ?thesis by (auto simp: node_pool_def)
qed

section \<open>Taking and returning a node\<close>

lemma node_pool_get:
  assumes heap: "heap_law os live" and pool: "node_pool (live w) m p sz ends used" and room: "room p (card used)"
    and run: "cl_qcpool_get os p m w = (it, p', m', w')"
  shows "node_pool (live w') m' p' sz ends (if it = 0 then used else insert it used)"
    "it \<noteq> 0 \<Longrightarrow> it \<notin> ends \<union> used" "links_same (- (ends \<union> used)) m m'" "live w \<subseteq> live w'"
    "pool_config p' = pool_config p" "card used < unat (qc_num_objects p) \<Longrightarrow> it \<noteq> 0"
proof -
  from pool obtain free blocks where rep: "pool_rep (live w) 0 m p free used blocks"
    and e: "ends \<subseteq> live w" "ends \<inter> used = {}" "ends \<inter> (pool_ends p \<union> set blocks \<union> set free) = {}"
    and pp: "plain_pool sz p" and n: "unat (qc_num_objects p) < 2 ^ 32"
    by (auto simp: node_pool_def)
  have "growth p (qc_grow_size p) < 2 ^ 32"
    using pp by (simp add: plain_pool_def growth_def min.strict_coboundedI1)
  moreover have "unat (qcpool_obj_size p) < 2 ^ 16" using pp by (simp add: plain_pool_def word_less_nat_alt)
  ultimately have "unat (qcpool_obj_size p) * growth p (qc_grow_size p) < 2 ^ 16 * 2 ^ 32"
    by (intro mult_strict_mono) auto
  then have fits: "16 + unat (qcpool_obj_size p) * growth p (qc_grow_size p) < 2 ^ 64" by simp
  have num: "unat (qc_num_objects p) = length free + card used" using rep by (simp add: pool_rep_def)
  have small: "length free < 2 ^ 32" "unat (qc_grow_size p) < 2 ^ 32"
    using num n pp by (simp_all add: plain_pool_def)
  have law: "init_law live 0 p" by (rule init_law_none) (use pp in \<open>simp add: plain_pool_def\<close>)
  let ?A = "- live w \<union> pool_ends p \<union> set blocks \<union> set free"
  let ?used = "if it = 0 then used else insert it used"
  from qcpool_get [OF heap law rep fits small run] obtain free' blocks' where
    res: "if it = 0 then free = [] \<and> pool_rep (live w') 0 m' p' [] used blocks'
       else it \<notin> used \<and> (free \<noteq> [] \<longrightarrow> free = it # free' \<and> blocks' = blocks \<and> w' = w) \<and>
         pool_rep (live w') 0 m' p' free' (insert it used) blocks'"
    and cfg: "pool_config p' = pool_config p" and live: "live w \<subseteq> live w'" and same: "links_same ?A m m'"
    and new: "it \<noteq> 0 \<longrightarrow> it \<in> set free \<union> - live w \<and> set free' \<subseteq> set free \<union> - live w"
    and len: "free = [] \<longrightarrow> length free' < unat (qc_grow_size p) + 1"
    and blk: "set blocks' \<subseteq> set blocks \<union> - live w"
    by (elim exE conjE) blast
  have "ends \<union> used \<subseteq> live w" by (rule node_pool_live [OF pool])
  moreover have "used \<inter> (pool_ends p \<union> set blocks \<union> set free) = {}"
    using rep layout_items [of "live w" 0 "qcpool_obj_size p" "pool_ends p \<union> set blocks" "set free \<union> used"]
    by (auto simp: pool_rep_def)
  ultimately have "?A \<subseteq> - (ends \<union> used)" using e by auto
  then show "links_same (- (ends \<union> used)) m m'" by (rule links_same_mono [OF same])
  show it: "it \<noteq> 0 \<Longrightarrow> it \<notin> ends \<union> used" using res new e by auto
  show "live w \<subseteq> live w'" "pool_config p' = pool_config p" by (rule live, rule cfg)
  show "card used < unat (qc_num_objects p) \<Longrightarrow> it \<noteq> 0" using res num by auto
  define free2 where "free2 = (if it = 0 then [] else free')"
  have rep': "pool_rep (live w') 0 m' p' free2 ?used blocks'" using res by (simp add: free2_def)
  have "unat (qc_num_objects p') < 2 ^ 32"
  proof (cases "it = 0")
    case True
    with res num n show ?thesis by (simp add: pool_rep_def)
  next
    case False
    then have "unat (qc_num_objects p') = length free' + Suc (card used)"
      using res by (auto simp: pool_rep_def)
    with res False num n len room show ?thesis by (cases "free = []") (auto simp: room_def)
  qed
  moreover have "ends \<inter> (pool_ends p' \<union> set blocks' \<union> set free2) = {}"
    using e new blk config_same(2) [OF cfg] by (auto simp: free2_def)
  moreover have "ends \<inter> ?used = {}" using e it by auto
  ultimately show "node_pool (live w') m' p' sz ends ?used"
    using rep' e(1) live pp plain_pool_config [OF cfg] unfolding node_pool_def by blast
qed

lemma node_pool_put:
  assumes pool: "node_pool L m p sz ends used" and x: "x \<in> used" and run: "cl_qcpool_put p x m = (p', m')"
  shows "node_pool L m' p' sz ends (used - {x})" "links_same (- (ends \<union> (used - {x}))) m m'"
    "pool_config p' = pool_config p"
proof -
  from pool obtain free blocks where rep: "pool_rep L 0 m p free used blocks"
    and e: "ends \<subseteq> L" "ends \<inter> used = {}" "ends \<inter> (pool_ends p \<union> set blocks \<union> set free) = {}"
    and pp: "plain_pool sz p" "unat (qc_num_objects p) < 2 ^ 32"
    by (auto simp: node_pool_def)
  note put = qcpool_put [OF rep x run]
  show cfg: "pool_config p' = pool_config p" using put by simp
  have e': "ends \<inter> (pool_ends p' \<union> set blocks \<union> set (x # free)) = {}"
    using e x config_same(2) [OF cfg] by auto
  moreover have "ends \<inter> (used - {x}) = {}" using e(2) by auto
  moreover have "\<exists>free blocks. pool_rep L 0 m' p' free (used - {x}) blocks \<and>
      ends \<inter> (pool_ends p' \<union> set blocks \<union> set free) = {}"
    using put e' by blast
  ultimately show "node_pool L m' p' sz ends (used - {x})"
    using e(1) pp plain_pool_config [OF cfg] qcpool_put_fields(3) [OF run] unfolding node_pool_def by simp
  have fl: "qlist m (qc_free_list p) free" using rep by (simp add: pool_rep_def)
  obtain fl' m1 where ins: "cl_qlist_insert_head (qc_free_list p) x m = (fl', m1)" by (metis surj_pair)
  then have m': "m' = m1" using run by (simp add: cl_qcpool_put_def)
  have "used \<inter> insert (ql_end (qc_free_list p)) (set free) = {}"
    using rep layout_items [of L 0 "qcpool_obj_size p" "pool_ends p \<union> set blocks" "set free \<union> used"]
    by (auto simp: pool_rep_def pool_ends_def)
  then have "insert x (insert (ql_end (qc_free_list p)) (set free)) \<subseteq> - (ends \<union> (used - {x}))"
    using e x by (auto simp: pool_ends_def)
  then show "links_same (- (ends \<union> (used - {x}))) m m'"
    unfolding m' by (rule links_same_mono [OF insert_head_same [OF fl ins]])
qed

text \<open>All nodes of a list go back at once.\<close>

lemma node_pool_put_list:
  assumes pool: "node_pool L m p sz {ql_end l} (set xs)" and q: "qlist m l xs"
    and run: "cl_qcpool_put_list p l m = (p', l', m')"
  shows "node_pool L m' p' sz {ql_end l} {} \<and> qlist m' l' [] \<and> ql_end l' = ql_end l \<and> pool_config p' = pool_config p"
proof -
  from pool obtain free blocks where rep: "pool_rep L 0 m p free (set xs) blocks"
    and e: "ql_end l \<in> L" "ql_end l \<notin> pool_ends p \<union> set blocks \<union> set free"
    and pp: "plain_pool sz p" "unat (qc_num_objects p) < 2 ^ 32"
    by (auto simp: node_pool_def)
  have num: "unat (qc_num_objects p) = length free + length xs"
    using rep qlist_distinct [OF q] by (simp add: pool_rep_def distinct_card)
  with pp(2) have len: "length xs < 2 ^ 32" by simp
  note res = qcpool_put_list [OF rep q subset_refl e(2) len run]
  then have cfg: "pool_config p' = pool_config p" and rep': "pool_rep L 0 m' p' (xs @ free) {} blocks" by simp_all
  have "unat (qc_num_objects p') < 2 ^ 32" using rep' num pp(2) by (simp add: pool_rep_def)
  moreover have "\<exists>free blocks. pool_rep L 0 m' p' free {} blocks \<and> {ql_end l} \<inter> (pool_ends p' \<union> set blocks \<union> set free) = {}"
    using rep' e(2) qlist_end_notin [OF q] config_same(2) [OF cfg]
    by - (rule exI [of _ "xs @ free"], rule exI [of _ blocks], auto)
  moreover have "ql_end l' = ql_end l"
    using run by (auto simp: cl_qcpool_put_list_def cl_qlist_insert_list_head_def cl_qlist_reset_def Let_def
        split: prod.splits if_splits)
  ultimately show ?thesis
    using res e(1) pp(1) plain_pool_config [OF cfg] by (simp add: node_pool_def)
qed

section \<open>Making the pool\<close>

lemma node_pool_init:
  assumes heap: "heap_law os live"
    and ends: "ql_end (qc_free_list p) \<noteq> ql_end (qc_alloc_list p)" "pool_ends p \<union> ends \<subseteq> live w" "0 \<notin> live w"
      "ends \<inter> pool_ends p = {}"
    and sz: "sz = ROUNDUP obj_size 8" "0 < sz" "sz < 2 ^ 16"
    and min: "unat min_size < 2 ^ 32" "unat grow_size < 2 ^ 32"
  shows "\<exists>st p' m' w'. cl_qcpool_init os p min_size 0 grow_size [obj_size] 1 None None m w = Some (st, p', m', w') \<and>
    (if st = CL_SUCCESS
     then node_pool (live w') m' p' sz ends {} \<and> live w \<subseteq> live w' \<and> links_same (- ends) m m' \<and>
       qc_num_objects p' = min_size \<and> qc_grow_size p' = grow_size
     else \<not> cl_is_qcpool_inited p')"
proof -
  let ?ini = "\<lambda>sp. initial_pool p sp 0 grow_size [obj_size] 1 None None"
  have s: "sz = sum_list (rounded_sizes [obj_size] 1)"
    by (simp add: rounded_sizes_def sizeof_pointer_def sz(1))
  have laws: "init_law live 0 (?ini sp) \<and> dtor_law 0 (?ini sp)" for sp
    by (simp add: init_law_none dtor_law_def initial_pool_def)
  have "unat sz * unat min_size < 2 ^ 16 * 2 ^ 32"
    by (rule mult_strict_mono) (use sz(3) min(1) in \<open>auto simp: word_less_nat_alt\<close>)
  then have fits: "16 + unat sz * unat min_size < 2 ^ 64" by simp
  have e: "pool_ends p \<subseteq> live w" "ends \<subseteq> live w" using ends(2) by auto
  from qcpool_init [OF heap ends(1) e(1) ends(3) s sz(2) fits min(1) laws, of m] obtain st p' m' w' where
    run: "cl_qcpool_init os p min_size 0 grow_size [obj_size] 1 None None m w = Some (st, p', m', w')"
    and res: "st = CL_SUCCESS \<longrightarrow> (\<exists>free blocks sp. length free = unat min_size \<and>
       pool_rep (live w') 0 m' p' free {} blocks \<and> pool_config p' = pool_config (?ini sp) \<and> live w \<subseteq> live w' \<and>
       links_same (- live w \<union> pool_ends p) m m' \<and> (set free \<union> set blocks) \<inter> live w = {})"
    and bad: "st \<noteq> CL_SUCCESS \<longrightarrow> \<not> cl_is_qcpool_inited p'"
    by (elim exE conjE) (simp split: if_split_asm, blast+)
  show ?thesis
  proof (cases "st = CL_SUCCESS")
    case False
    with run bad show ?thesis by simp
  next
    case True
    with res obtain free blocks sp where ok: "length free = unat min_size" "pool_rep (live w') 0 m' p' free {} blocks"
      "pool_config p' = pool_config (?ini sp)" "live w \<subseteq> live w'"
      "links_same (- live w \<union> pool_ends p) m m'" "(set free \<union> set blocks) \<inter> live w = {}" by blast
    have "plain_pool sz (?ini sp)"
      using sz min(2) by (simp add: plain_pool_def initial_pool_def qcpool_obj_size_def rounded_sizes_def sizeof_pointer_def)
    then have "plain_pool sz p'" using plain_pool_config [OF ok(3)] by simp
    moreover have "unat (qc_num_objects p') = unat min_size" using ok(1,2) by (simp add: pool_rep_def)
    then have n: "qc_num_objects p' = min_size" by (simp add: word_unat_eq_iff)
    moreover have "pool_ends p' = pool_ends p" "qc_grow_size p' = grow_size"
      using config_same(2,5) [OF ok(3)] by (simp_all add: initial_pool_def pool_ends_def)
    moreover from this have "ends \<inter> (pool_ends p' \<union> set blocks \<union> set free) = {}"
      using ends(4) e(2) ok(6) by blast
    moreover have "links_same (- ends) m m'" by (rule links_same_mono [OF ok(5)]) (use ends(4) e(2) in blast)
    ultimately show ?thesis
      using run True ok(2,4) e(2) min(1) by (auto simp: node_pool_def)
  qed
qed

section \<open>The object pointers\<close>

text \<open>\<^verbatim>\<open>memset\<close> keeps the object pointers outside its block, as \<open>heap_law\<close> says of the links.\<close>

definition object_law :: "(('k, 'z) pmem, 'w) heap_os \<Rightarrow> bool" where
  "object_law os \<longleftrightarrow> (\<forall>p n m x. x \<notin> addr_range p (unat n) \<longrightarrow> p_object (os_memset0 os p n m) x = p_object m x)"

end
