(* ===== verification/Obj_List_Ops.thy ===== *)
theory Obj_List_Ops
  imports Obj_List Node_Pool
begin

text \<open>
  The object list acts on the list of the user's pointers. \<open>olist L m l items\<close>: the nodes of the list are
  \<open>items\<close>, all of them taken from the list's pool; the user's pointers are \<open>map (p_object m) items\<close>. During an
  operation one more node may be held (\<open>lrep\<close>).
\<close>

section \<open>Representation\<close>

abbreviation li_qc :: "('m, 'w) cl_list_t \<Rightarrow> ('m, 'w) cl_qcpool_t" where
  "li_qc l \<equiv> qp_qcpool (li_pool l)"

definition lrep ::
  "u64 set \<Rightarrow> ('k, 'z) pmem \<Rightarrow> ('k, 'z, 'w) olist \<Rightarrow> u64 list \<Rightarrow> u64 set \<Rightarrow> bool" where
  "lrep L m l items held \<longleftrightarrow> qlist m (li_list l) items \<and> held \<inter> set items = {} \<and>
    node_pool L m (li_qc l) 24 {ql_end (li_list l)} (set items \<union> held)"

abbreviation olist :: "u64 set \<Rightarrow> ('k, 'z) pmem \<Rightarrow> ('k, 'z, 'w) olist \<Rightarrow> u64 list \<Rightarrow> bool" where
  "olist L m l items \<equiv> lrep L m l items {}"

lemma set_p_object_simps [simp]:
  "p_next (set_p_object it obj m) = p_next m" "p_prev (set_p_object it obj m) = p_prev m"
  "p_object (set_p_object it obj m) = (p_object m)(it := obj)"
  by (simp_all add: set_p_object_def)

section \<open>Steps\<close>

lemma lrep_frame:
  assumes rep: "lrep L m l items held" and m: "p_next m' = p_next m" "p_prev m' = p_prev m"
  shows "lrep L m' l items held"
proof -
  have "links_same A m m'" for A using m by (simp add: links_same_def)
  with rep qlist_cong [OF m, of "li_list l" items] node_pool_frame show ?thesis unfolding lrep_def by blast
qed

lemma lrep_get:
  assumes heap: "heap_law os live" "object_law os" and rep: "olist (live w) m l items"
    and room: "room (li_qc l) (length items)"
    and run: "cl_qpool_get os (li_pool l) m w = (it, pool, m', w')"
  shows "lrep (live w') m' (l\<lparr>li_pool := pool\<rparr>) items (if it = 0 then {} else {it})"
    "map (p_object m') items = map (p_object m) items"
    "pool_config (qp_qcpool pool) = pool_config (li_qc l)"
    "length items < unat (qc_num_objects (li_qc l)) \<Longrightarrow> it \<noteq> 0"
proof -
  have q: "qlist m (li_list l) items" and pool: "node_pool (live w) m (li_qc l) 24 {ql_end (li_list l)} (set items)"
    using rep by (simp_all add: lrep_def)
  have card: "card (set items) = length items" by (rule distinct_card [OF qlist_distinct [OF q]])
  obtain p' where get: "cl_qcpool_get os (li_qc l) m w = (it, p', m', w')" and p': "qp_qcpool pool = p'"
    using run by (auto simp: cl_qpool_get_def split: prod.splits)
  note g = node_pool_get [OF heap(1) pool room [folded card] get]
  have "qlist m' (li_list l) items" by (rule qlist_same [OF q g(3)]) simp
  with g(1,2) show "lrep (live w') m' (l\<lparr>li_pool := pool\<rparr>) items (if it = 0 then {} else {it})"
    by (auto simp: lrep_def p')
  show "pool_config (qp_qcpool pool) = pool_config (li_qc l)" using g(5) by (simp add: p')
  show "length items < unat (qc_num_objects (li_qc l)) \<Longrightarrow> it \<noteq> 0" using g(6) by (simp add: card)
  have none: "qc_pfn_init (li_qc l) = None" using pool by (simp add: node_pool_def plain_pool_def)
  have "p_object m' x = p_object m x" if "x \<in> set items" for x
    by (rule qcpool_get_field [OF heap(1) _ _ _ none _ get])
      (use heap(2) that node_pool_live [OF pool] in \<open>auto simp: object_law_def\<close>)
  then show "map (p_object m') items = map (p_object m) items" by simp
qed

lemma lrep_link:
  assumes rep: "lrep L m l (xs @ ys) {it}"
  shows "olist L (cl_primitive_insert (hd (ys @ [ql_end (li_list l)])) it m)
    (l\<lparr>li_list := (li_list l)\<lparr>ql_count := ql_count (li_list l) + 1\<rparr>\<rparr>) (xs @ it # ys)"
proof -
  let ?e = "ql_end (li_list l)"
  let ?m = "cl_primitive_insert (hd (ys @ [?e])) it m"
  have q: "qlist m (li_list l) (xs @ ys)" and pool: "node_pool L m (li_qc l) 24 {?e} (set (xs @ ys) \<union> {it})"
    and it: "it \<notin> set (xs @ ys)" using rep by (simp_all add: lrep_def)
  have ite: "it \<noteq> ?e" using node_pool_nodes [OF pool, of it] by simp
  have hd: "hd (ys @ [?e]) \<in> insert ?e (set (xs @ ys))" by (cases ys) auto
  have "links_same ({?e} \<union> (set (xs @ ys) \<union> {it})) m ?m"
    using primitive_insert_frame [of m ?e "xs @ ys", OF _ hd] q by (auto simp: links_same_def qlist_def)
  from node_pool_frame [OF pool this] qlist_insert_before [OF q it ite] show ?thesis
    by (simp add: lrep_def insert_commute)
qed

lemma lrep_unlink:
  assumes rep: "olist L m l (xs @ x # ys)"
  shows "lrep L (cl_primitive_remove x m) (l\<lparr>li_list := (li_list l)\<lparr>ql_count := ql_count (li_list l) - 1\<rparr>\<rparr>)
    (xs @ ys) {x}"
proof -
  let ?e = "ql_end (li_list l)" and ?m = "cl_primitive_remove x m"
  have q: "qlist m (li_list l) (xs @ x # ys)" and pool: "node_pool L m (li_qc l) 24 {?e} (set (xs @ x # ys))"
    using rep by (simp_all add: lrep_def)
  have "links_same ({?e} \<union> set (xs @ x # ys)) m ?m"
    using primitive_remove_frame [of m ?e "xs @ x # ys" x] q by (auto simp: links_same_def qlist_def)
  from node_pool_frame [OF pool this] qlist_remove_middle [OF q] qlist_distinct [OF q] show ?thesis
    by (simp add: lrep_def insert_commute)
qed

lemma lrep_put:
  assumes rep: "lrep L m l items {x}" and run: "cl_qpool_put (li_pool l) x m = (pool, m')"
  shows "olist L m' (l\<lparr>li_pool := pool\<rparr>) items" "p_object m' = p_object m"
    "pool_config (qp_qcpool pool) = pool_config (li_qc l)"
proof -
  have q: "qlist m (li_list l) items" and pl: "node_pool L m (li_qc l) 24 {ql_end (li_list l)} (set items \<union> {x})"
    and x: "set items \<union> {x} - {x} = set items" using rep by (auto simp: lrep_def)
  obtain p' where put: "cl_qcpool_put (li_qc l) x m = (p', m')" and p': "qp_qcpool pool = p'"
    using run by (auto simp: cl_qpool_put_def split: prod.splits)
  note res = node_pool_put [OF pl _ put, unfolded x]
  have "qlist m' (li_list l) items" by (rule qlist_same [OF q res(2)]) simp_all
  with res(1) show "olist L m' (l\<lparr>li_pool := pool\<rparr>) items" by (simp add: lrep_def p')
  show "pool_config (qp_qcpool pool) = pool_config (li_qc l)" using res(3) by (simp add: p')
  show "p_object m' = p_object m" using qcpool_put_fields(1) [OF put] by simp
qed

section \<open>Insertion\<close>

text \<open>
  The four insertions. When the pool has no node left and cannot grow, the list is as before.
  Otherwise a new node with the object is linked at its place. While the pool has a free node the
  insertion succeeds.
\<close>

definition inserts ::
  "('w \<Rightarrow> u64 set) \<Rightarrow> ('k, 'z, 'w) olist \<Rightarrow> ('k, 'z) pmem \<Rightarrow> u64 list \<Rightarrow> u64 \<Rightarrow> u64 list \<Rightarrow>
   cl_status_t \<times> ('k, 'z, 'w) olist \<times> ('k, 'z) pmem \<times> 'w \<Rightarrow> bool" where
  "inserts live l m xs obj ys r \<longleftrightarrow> (case r of (st, l', m', w') \<Rightarrow>
    pool_config (li_qc l') = pool_config (li_qc l) \<and>
    (length (xs @ ys) < unat (qc_num_objects (li_qc l)) \<longrightarrow> st = CL_SUCCESS) \<and>
    map (p_object m') (xs @ ys) = map (p_object m) (xs @ ys) \<and>
    (if st = CL_SUCCESS then \<exists>it. it \<notin> set (xs @ ys) \<and> olist (live w') m' l' (xs @ it # ys) \<and> p_object m' it = obj
     else st = CL_INSUFFICIENT_MEMORY \<and> olist (live w') m' l' (xs @ ys)))"

lemma list_insert:
  assumes heap: "heap_law os live" "object_law os" and rep: "olist (live w) m l (xs @ ys)" and room: "room (li_qc l) (length (xs @ ys))"
    and get: "cl_qpool_get os (li_pool l) m w = (it, pool, m1, w1)"
    and r: "r = (if it = 0 then (CL_INSUFFICIENT_MEMORY, l\<lparr>li_pool := pool\<rparr>, m1, w1)
      else (CL_SUCCESS, l\<lparr>li_pool := pool, li_list := (li_list l)\<lparr>ql_count := ql_count (li_list l) + 1\<rparr>\<rparr>,
        cl_primitive_insert (hd (ys @ [ql_end (li_list l)])) it (set_p_object it obj m1), w1))"
  shows "inserts live l m xs obj ys r"
proof -
  note g = lrep_get [OF heap rep room get]
  show ?thesis
  proof (cases "it = 0")
    case True
    with g r show ?thesis by (auto simp: inserts_def)
  next
    case False
    then have one: "lrep (live w1) (set_p_object it obj m1) (l\<lparr>li_pool := pool\<rparr>) (xs @ ys) {it}"
      using g(1) by (auto intro: lrep_frame)
    then have it: "it \<notin> set (xs @ ys)" by (simp add: lrep_def)
    from lrep_link [OF one] it False g(2,3,4) show ?thesis by (auto simp: inserts_def r)
  qed
qed

lemma list_insert_head:
  assumes "heap_law os live" "object_law os" "olist (live w) m l items" "room (li_qc l) (length items)"
  shows "inserts live l m [] obj items (cl_list_insert_head os l obj m w)"
proof -
  obtain it pool m1 w1 where get: "cl_qpool_get os (li_pool l) m w = (it, pool, m1, w1)" by (metis prod_cases4)
  note g = lrep_get [OF assms get]
  have q: "qlist (set_p_object it obj m1) (li_list l) items"
    using lrep_frame [OF g(1), of "set_p_object it obj m1"] by (simp add: lrep_def)
  show ?thesis
    by (rule list_insert [OF assms(1,2) _ _ get])
      (use assms(3,4) get qlist_head [OF q] in \<open>simp_all add: cl_list_insert_head_def cl_qlist_insert_head_def\<close>)
qed

lemma list_insert_tail:
  assumes "heap_law os live" "object_law os" "olist (live w) m l items" "room (li_qc l) (length items)"
  shows "inserts live l m items obj [] (cl_list_insert_tail os l obj m w)"
proof -
  obtain it pool m1 w1 where get: "cl_qpool_get os (li_pool l) m w = (it, pool, m1, w1)" by (metis prod_cases4)
  show ?thesis
    by (rule list_insert [OF assms(1,2) _ _ get])
      (use assms(3,4) get in \<open>simp_all add: cl_list_insert_tail_def cl_qlist_insert_tail_def cl_qlist_end_def\<close>)
qed

lemma list_insert_next:
  assumes "heap_law os live" "object_law os" "olist (live w) m l (xs @ y # ys)" "room (li_qc l) (length (xs @ y # ys))"
  shows "inserts live l m (xs @ [y]) obj ys (cl_list_insert_next os l y obj m w)"
proof -
  obtain it pool m1 w1 where get: "cl_qpool_get os (li_pool l) m w = (it, pool, m1, w1)" by (metis prod_cases4)
  note g = lrep_get [OF assms get]
  have q: "qlist (set_p_object it obj m1) (li_list l) (xs @ y # ys)"
    using lrep_frame [OF g(1), of "set_p_object it obj m1"] by (simp add: lrep_def)
  show ?thesis
    by (rule list_insert [OF assms(1,2) _ _ get])
      (use assms(3,4) get qlist_next_split [OF q] in \<open>simp_all add: cl_list_insert_next_def cl_qlist_insert_next_def\<close>)
qed

lemma list_insert_prev:
  assumes "heap_law os live" "object_law os" "olist (live w) m l (xs @ y # ys)" "room (li_qc l) (length (xs @ y # ys))"
  shows "inserts live l m xs obj (y # ys) (cl_list_insert_prev os l y obj m w)"
proof -
  obtain it pool m1 w1 where get: "cl_qpool_get os (li_pool l) m w = (it, pool, m1, w1)" by (metis prod_cases4)
  show ?thesis
    by (rule list_insert [OF assms(1,2) _ _ get])
      (use assms(3,4) get in \<open>simp_all add: cl_list_insert_prev_def cl_qlist_insert_prev_def\<close>)
qed

section \<open>Removal\<close>

text \<open>A removed node goes back to the pool.\<close>

lemma list_unlink_put:
  assumes rep: "olist L m l (xs @ x # ys)"
    and put: "cl_qpool_put (li_pool l) x (cl_primitive_remove x m) = (pool, m')"
  shows "olist L m' (l\<lparr>li_list := (li_list l)\<lparr>ql_count := ql_count (li_list l) - 1\<rparr>, li_pool := pool\<rparr>) (xs @ ys)"
    "p_object m' = p_object m" "pool_config (qp_qcpool pool) = pool_config (li_qc l)"
  using lrep_put [OF lrep_unlink [OF rep], of pool m'] put by simp_all

lemma list_remove_item:
  assumes rep: "olist L m l (xs @ x # ys)" and run: "cl_list_remove_item l x m = (l', m')"
  shows "olist L m' l' (xs @ ys) \<and> p_object m' = p_object m \<and>
    pool_config (li_qc l') = pool_config (li_qc l)"
proof -
  have x: "x \<noteq> ql_end (li_list l)" using rep qlist_end_notin by (fastforce simp: lrep_def)
  obtain pool m2 where put: "cl_qpool_put (li_pool l) x (cl_primitive_remove x m) = (pool, m2)" by (metis surj_pair)
  from list_unlink_put [OF rep put] run put x show ?thesis
    by (auto simp: cl_list_remove_item_def cl_qlist_remove_item_def cl_qlist_end_def)
qed

lemma list_empty:
  assumes "olist L m l items" "length items < 2 ^ 32"
  shows "cl_is_list_empty l \<longleftrightarrow> items = []" "cl_is_qlist_empty (li_list l) \<longleftrightarrow> items = []"
  using assms qlist_empty_iff by (auto simp: lrep_def cl_is_list_empty_def)

lemma list_remove_head:
  assumes rep: "olist L m l (x # ys)" and len: "length (x # ys) < 2 ^ 32"
    and run: "cl_list_remove_head l m = (obj, l', m')"
  shows "obj = p_object m x \<and> olist L m' l' ys \<and> p_object m' = p_object m \<and>
    pool_config (li_qc l') = pool_config (li_qc l)"
proof -
  have q: "qlist m (li_list l) (x # ys)" using rep by (simp add: lrep_def)
  have x: "cl_qlist_head (li_list l) m = x" "x \<noteq> ql_end (li_list l)"
    using qlist_head [OF q] qlist_end_notin [OF q] by auto
  obtain pool m2 where put: "cl_qpool_put (li_pool l) x (cl_primitive_remove x m) = (pool, m2)" by (metis surj_pair)
  from list_unlink_put [of L m l "[]" x ys, OF _ put] run put x rep list_empty(2) [OF rep len] show ?thesis
    by (auto simp: cl_list_remove_head_def cl_qlist_remove_head_def cl_qlist_end_def)
qed

lemma list_remove_tail:
  assumes rep: "olist L m l (xs @ [x])" and len: "length (xs @ [x]) < 2 ^ 32"
    and run: "cl_list_remove_tail l m = (obj, l', m')"
  shows "obj = p_object m x \<and> olist L m' l' xs \<and> p_object m' = p_object m \<and>
    pool_config (li_qc l') = pool_config (li_qc l)"
proof -
  have q: "qlist m (li_list l) (xs @ [x])" using rep by (simp add: lrep_def)
  have x: "cl_qlist_tail (li_list l) m = x" "x \<noteq> ql_end (li_list l)"
    using qlist_tail [OF q] qlist_end_notin [OF q] by auto
  obtain pool m2 where put: "cl_qpool_put (li_pool l) x (cl_primitive_remove x m) = (pool, m2)" by (metis surj_pair)
  from list_unlink_put [of L m l xs x "[]", OF _ put] run put x rep list_empty(2) [OF rep len] show ?thesis
    by (auto simp: cl_list_remove_tail_def cl_qlist_remove_tail_def cl_qlist_end_def)
qed

lemma list_remove_none:
  assumes "olist L m l []"
  shows "cl_list_remove_head l m = (0, l, m)" "cl_list_remove_tail l m = (0, l, m)"
  using list_empty(2) [OF assms] by (simp_all add: cl_list_remove_head_def cl_list_remove_tail_def)

end
