(* ===== verification/Obj_List_Whole.thy ===== *)
theory Obj_List_Whole
  imports Obj_List_Ops
begin

text \<open>
  The operations of the object list that work on the whole list: insertion of an array with its roll-back,
  removal by object, searches, emptying, initialisation and destruction.
\<close>

section \<open>Arrays\<close>

lemma undo_head_loop:
  assumes "olist L m l (news @ items)" "length (news @ items) < 2 ^ 32" "length news = cnt - 1 - r"
    and "undo_head_loop r cnt l m = (l', m')"
  shows "olist L m' l' items \<and> p_object m' = p_object m"
  using assms
proof (induction news arbitrary: r l m)
  case Nil
  then show ?case by (simp add: undo_head_loop.simps [of r] split: if_split_asm)
next
  case (Cons x news)
  obtain obj l1 m1 where rem: "cl_list_remove_head l m = (obj, l1, m1)" by (metis prod_cases3)
  have one: "olist L m1 l1 (news @ items) \<and> p_object m1 = p_object m"
    using list_remove_head [of L m l x "news @ items", OF _ _ rem] Cons.prems by simp
  moreover have "undo_head_loop (r + 1) cnt l1 m1 = (l', m')"
    using Cons.prems rem by (simp add: undo_head_loop.simps [of r] split: if_split_asm)
  ultimately show ?case using Cons.IH [of m1 l1 "r + 1"] Cons.prems by simp
qed

lemma undo_tail_loop:
  assumes "olist L m l (items @ news)" "length (items @ news) < 2 ^ 32" "length news = cnt - 1 - r"
    and "undo_tail_loop r cnt l m = (l', m')"
  shows "olist L m' l' items \<and> p_object m' = p_object m"
  using assms
proof (induction news arbitrary: r l m rule: rev_induct)
  case Nil
  then show ?case by (simp add: undo_tail_loop.simps [of r] split: if_split_asm)
next
  case (snoc x news)
  obtain obj l1 m1 where rem: "cl_list_remove_tail l m = (obj, l1, m1)" by (metis prod_cases3)
  have one: "olist L m1 l1 (items @ news) \<and> p_object m1 = p_object m"
    using list_remove_tail [of L m l "items @ news" x, OF _ _ rem] snoc.prems by simp
  moreover have "undo_tail_loop (r + 1) cnt l1 m1 = (l', m')"
    using snoc.prems rem by (simp add: undo_tail_loop.simps [of r] split: if_split_asm)
  ultimately show ?case using snoc.IH [of m1 l1 "r + 1"] snoc.prems by simp
qed

text \<open>\<open>news\<close> are the nodes inserted so far; the objects come in the order of the array.\<close>

definition inserts_array ::
  "('w \<Rightarrow> u64 set) \<Rightarrow> ('k, 'z) pmem \<Rightarrow> u64 list \<Rightarrow> (u64 list \<Rightarrow> u64 list) \<Rightarrow> u64 list \<Rightarrow>
   cl_status_t \<times> ('k, 'z, 'w) olist \<times> ('k, 'z) pmem \<times> 'w \<Rightarrow> bool" where
  "inserts_array live m items join new r \<longleftrightarrow> (case r of (st, l', m', w') \<Rightarrow>
    map (p_object m') items = map (p_object m) items \<and>
    (if st = CL_SUCCESS then \<exists>news. olist (live w') m' l' (join news) \<and> map (p_object m') news = new
     else st = CL_INSUFFICIENT_MEMORY \<and> olist (live w') m' l' items))"

lemma array_head_loop:
  assumes heap: "heap_law os live" "object_law os"
    and "olist (live w) m l (news @ items)" "room (li_qc l) (n + length (news @ items))"
    and "length news = cnt - n" "n \<le> cnt"
  shows "inserts_array live m items (\<lambda>ns. ns @ items)
    (map (\<lambda>i. obj - of_nat i * ucast s) (rev [0..<n]) @ map (p_object m) news)
    (list_insert_array_head_loop n os l obj cnt s m w)"
  using assms(3-6)
proof (induction n arbitrary: news l m w obj)
  case 0
  then show ?case by (auto simp: inserts_array_def)
next
  case (Suc n)
  obtain st l1 m1 w1 where ins: "cl_list_insert_head os l obj m w = (st, l1, m1, w1)" by (metis prod_cases4)
  have "inserts live l m [] obj (news @ items) (cl_list_insert_head os l obj m w)"
    by (rule list_insert_head [OF heap Suc.prems(1)]) (use Suc.prems in \<open>simp add: room_def\<close>)
  note one = this [unfolded inserts_def ins, simplified]
  have g: "room (li_qc l1) k \<longleftrightarrow> room (li_qc l) k" for k using one room_config by blast
  show ?case
  proof (cases "st = CL_SUCCESS")
    case False
    obtain l2 m2 where undo: "undo_head_loop n cnt l1 m1 = (l2, m2)" by (metis surj_pair)
    have "olist (live w1) m2 l2 items \<and> p_object m2 = p_object m1"
      by (rule undo_head_loop [OF _ _ _ undo]) (use one False Suc.prems in \<open>auto simp: room_def\<close>)
    with one False undo show ?thesis by (simp add: ins inserts_array_def)
  next
    case True
    with one obtain it where it: "olist (live w1) m1 l1 (it # news @ items)" "p_object m1 it = obj" by auto
    have "inserts_array live m1 items (\<lambda>ns. ns @ items)
        (map (\<lambda>i. obj - ucast s - of_nat i * ucast s) (rev [0..<n]) @ map (p_object m1) (it # news))
        (list_insert_array_head_loop n os l1 (obj - ucast s) cnt s m1 w1)"
      by (rule Suc.IH) (use it Suc.prems g in \<open>auto simp: room_def\<close>)
    moreover have "map (\<lambda>i. obj - of_nat i * ucast s) (rev [0..<Suc n]) =
        map (\<lambda>i. obj - ucast s - of_nat i * ucast s) (rev [0..<n]) @ [obj]"
      by (simp add: upt_conv_Cons map_Suc_upt [symmetric] rev_map o_def algebra_simps del: upt_Suc)
    ultimately show ?thesis
      using one True it by (auto simp: ins inserts_array_def split: if_split_asm prod.splits)
  qed
qed

lemma array_tail_loop:
  assumes heap: "heap_law os live" "object_law os"
    and "olist (live w) m l (items @ news)" "room (li_qc l) (n + length (items @ news))"
    and "length news = cnt - n" "n \<le> cnt"
  shows "inserts_array live m items (\<lambda>ns. items @ ns) (map (p_object m) news @ array_items obj s n)
    (list_insert_array_tail_loop n os l obj cnt s m w)"
  using assms(3-6)
proof (induction n arbitrary: news l m w obj)
  case 0
  then show ?case by (auto simp: inserts_array_def array_items_def)
next
  case (Suc n)
  obtain st l1 m1 w1 where ins: "cl_list_insert_tail os l obj m w = (st, l1, m1, w1)" by (metis prod_cases4)
  have "inserts live l m (items @ news) obj [] (cl_list_insert_tail os l obj m w)"
    by (rule list_insert_tail [OF heap Suc.prems(1)]) (use Suc.prems in \<open>simp add: room_def\<close>)
  note one = this [unfolded inserts_def ins, simplified]
  have g: "room (li_qc l1) k \<longleftrightarrow> room (li_qc l) k" for k using one room_config by blast
  show ?case
  proof (cases "st = CL_SUCCESS")
    case False
    obtain l2 m2 where undo: "undo_tail_loop n cnt l1 m1 = (l2, m2)" by (metis surj_pair)
    have "olist (live w1) m2 l2 items \<and> p_object m2 = p_object m1"
      by (rule undo_tail_loop [OF _ _ _ undo]) (use one False Suc.prems in \<open>auto simp: room_def\<close>)
    with one False undo show ?thesis by (simp add: ins inserts_array_def)
  next
    case True
    with one obtain it where it: "olist (live w1) m1 l1 (items @ news @ [it])" "p_object m1 it = obj" by auto
    have "inserts_array live m1 items (\<lambda>ns. items @ ns)
        (map (p_object m1) (news @ [it]) @ array_items (obj + ucast s) s n)
        (list_insert_array_tail_loop n os l1 (obj + ucast s) cnt s m1 w1)"
      by (rule Suc.IH) (use it Suc.prems g in \<open>auto simp: room_def\<close>)
    with one True it show ?thesis
      by (auto simp: ins inserts_array_def array_items_Suc split: if_split_asm prod.splits)
  qed
qed

lemma array_items_rev:
  "map (\<lambda>i. p + of_nat n * ucast s - ucast s - of_nat i * ucast s) (rev [0..<n]) = array_items p s n"
proof (rule nth_equalityI)
  fix i assume "i < length (map (\<lambda>i. p + of_nat n * ucast s - ucast s - of_nat i * ucast s) (rev [0..<n]))"
  then have "i < n" by simp
  then obtain k where n: "n = Suc (i + k)" using less_imp_Suc_add by blast
  show "map (\<lambda>i. p + of_nat n * ucast s - ucast s - of_nat i * ucast s) (rev [0..<n]) ! i = array_items p s n ! i"
    by (simp add: n rev_nth array_items_def algebra_simps del: upt_Suc)
qed (simp add: array_items_def)

lemma list_insert_array_head:
  assumes "heap_law os live" "object_law os" "olist (live w) m l items"
    and "room (li_qc l) (unat item_count + length items)"
    and "unat item_size * (unat item_count - 1) < 2 ^ 32" "item_count \<noteq> 0"
  shows "inserts_array live m items (\<lambda>ns. ns @ items) (array_items p_array item_size (unat item_count))
    (cl_list_insert_array_head os l p_array item_count item_size m w)"
proof -
  let ?n = "unat item_count"
  let ?last = "p_array + of_nat ?n * ucast item_size - ucast item_size"
  have last: "p_array + ucast (item_size * (item_count - 1)) = ?last"
    unfolding array_last_offset [OF assms(5,6)] by simp
  have "inserts_array live m items (\<lambda>ns. ns @ items)
      (map (\<lambda>i. ?last - of_nat i * ucast item_size) (rev [0..<?n]) @ map (p_object m) [])
      (list_insert_array_head_loop ?n os l ?last ?n item_size m w)"
    by (rule array_head_loop [OF assms(1,2)]) (use assms(3,4) in simp_all)
  then show ?thesis
    unfolding cl_list_insert_array_head_def last array_items_rev by simp
qed

lemma list_insert_array_tail:
  assumes "heap_law os live" "object_law os" "olist (live w) m l items"
    and "room (li_qc l) (unat item_count + length items)"
  shows "inserts_array live m items (\<lambda>ns. items @ ns) (array_items p_array item_size (unat item_count))
    (cl_list_insert_array_tail os l p_array item_count item_size m w)"
  using array_tail_loop [OF assms(1,2), of w m l items "[]" "unat item_count" "unat item_count" p_array item_size] assms(3,4)
  by (simp add: cl_list_insert_array_tail_def)

section \<open>Searches and removal by object\<close>

lemma list_find_head_loop:
  "qlist m (li_list l) (ys @ zs) \<Longrightarrow>
   list_find_head_loop l f c (hd (zs @ [ql_end (li_list l)])) m =
     Some (hd (dropWhile (\<lambda>x. f (p_object m x) c \<noteq> CL_SUCCESS) zs @ [ql_end (li_list l)]))"
proof (induction zs arbitrary: ys)
  case Nil
  then show ?case by (simp add: list_find_head_loop.simps cl_list_end_def cl_qlist_end_def)
next
  case (Cons z zs)
  moreover from Cons.prems have "z \<noteq> ql_end (li_list l)" using qlist_end_notin by fastforce
  ultimately show ?case
    using Cons.IH [of "ys @ [z]"] qlist_next_split [of m "li_list l" ys z zs]
    by (simp add: list_find_head_loop.simps [of l f c z] cl_list_end_def cl_qlist_end_def cl_list_obj_def cl_list_next_def)
qed

lemma list_find_from_head:
  "olist L m l items \<Longrightarrow> cl_list_find_from_head l f c m =
     Some (hd (dropWhile (\<lambda>x. f (p_object m x) c \<noteq> CL_SUCCESS) items @ [cl_list_end l]))"
  using list_find_head_loop [of m l "[]" items f c] qlist_head [of m "li_list l" items]
  by (simp add: lrep_def cl_list_find_from_head_def cl_list_head_def cl_list_end_def cl_qlist_end_def)

lemma list_find_tail_loop:
  "qlist m (li_list l) (ys @ zs) \<Longrightarrow>
   list_find_tail_loop l f c (last (ql_end (li_list l) # ys)) m =
     Some (hd (dropWhile (\<lambda>x. f (p_object m x) c \<noteq> CL_SUCCESS) (rev ys) @ [ql_end (li_list l)]))"
proof (induction ys arbitrary: zs rule: rev_induct)
  case Nil
  then show ?case by (simp add: list_find_tail_loop.simps cl_list_end_def cl_qlist_end_def)
next
  case (snoc y ys)
  moreover from snoc.prems have "y \<noteq> ql_end (li_list l)" using qlist_end_notin by fastforce
  ultimately show ?case
    using snoc.IH [of "y # zs"] qlist_prev_split [of m "li_list l" ys y zs]
    by (simp add: list_find_tail_loop.simps [of l f c y] cl_list_end_def cl_qlist_end_def cl_list_obj_def cl_list_prev_def)
qed

lemma list_find_from_tail:
  "olist L m l items \<Longrightarrow> cl_list_find_from_tail l f c m =
     Some (hd (dropWhile (\<lambda>x. f (p_object m x) c \<noteq> CL_SUCCESS) (rev items) @ [cl_list_end l]))"
  using list_find_tail_loop [of m l items "[]" f c] qlist_tail [of m "li_list l" items]
  by (simp add: lrep_def cl_list_find_from_tail_def cl_list_tail_def cl_list_end_def cl_qlist_end_def)

text \<open>The first node with the object, if there is one.\<close>

lemma find_object:
  assumes rep: "olist L m l items"
  shows "cl_qlist_find_from_head (li_list l) (cl_list_find_cb m) obj m =
    Some (hd (dropWhile (\<lambda>x. p_object m x \<noteq> obj) items @ [ql_end (li_list l)]))"
proof -
  have "cl_list_find_cb m x obj \<noteq> CL_SUCCESS \<longleftrightarrow> p_object m x \<noteq> obj" for x
    by (simp add: cl_list_find_cb_def cl_list_obj_def)
  then show ?thesis
    using qlist_find_from_head [of m "li_list l" items "cl_list_find_cb m" obj] rep by (simp add: lrep_def)
qed

lemma first_with_object:
  assumes "qlist m ql items"
  shows "(hd (dropWhile (\<lambda>x. f x \<noteq> obj) items @ [ql_end ql]) = ql_end ql \<longleftrightarrow> obj \<notin> f ` set items) \<and>
    (obj \<in> f ` set items \<longrightarrow> (\<exists>xs x ys. items = xs @ x # ys \<and> f x = obj \<and> obj \<notin> f ` set xs \<and>
      hd (dropWhile (\<lambda>x. f x \<noteq> obj) items @ [ql_end ql]) = x))"
proof (cases "obj \<in> f ` set items")
  case False
  then have d: "dropWhile (\<lambda>x. f x \<noteq> obj) items = []" by auto
  show ?thesis unfolding d using False by simp
next
  case True
  then have "\<exists>x\<in>set items. f x = obj" by auto
  from split_list_first_prop [OF this] obtain xs x ys where
    s: "items = xs @ x # ys" "f x = obj" "\<forall>y\<in>set xs. f y \<noteq> obj" by blast
  then have "dropWhile (\<lambda>x. f x \<noteq> obj) items = x # ys" by (simp add: dropWhile_append2)
  moreover have "x \<noteq> ql_end ql" using assms s(1) qlist_end_notin by fastforce
  ultimately show ?thesis using s True by fastforce
qed

lemma list_remove_object:
  assumes rep: "olist L m l items"
  shows "\<exists>l' m' items'. cl_list_remove_object l obj m =
      Some (if obj \<in> p_object m ` set items then CL_SUCCESS else CL_NOT_FOUND, l', m') \<and>
    olist L m' l' items' \<and> map (p_object m') items' = remove1 obj (map (p_object m) items) \<and>
    pool_config (li_qc l') = pool_config (li_qc l)"
proof -
  let ?x = "hd (dropWhile (\<lambda>x. p_object m x \<noteq> obj) items @ [ql_end (li_list l)])"
  have q: "qlist m (li_list l) items" using rep by (simp add: lrep_def)
  note first = first_with_object [OF q, of "p_object m" obj]
  show ?thesis
  proof (cases "obj \<in> p_object m ` set items")
    case False
    then have "remove1 obj (map (p_object m) items) = map (p_object m) items"
      by (simp add: remove1_idem)
    with False first rep show ?thesis
      by (simp add: cl_list_remove_object_def find_object [OF rep] cl_qlist_end_def) blast
  next
    case True
    with first obtain xs x ys where s: "items = xs @ x # ys" "p_object m x = obj" "obj \<notin> p_object m ` set xs"
      "?x = x" "x \<noteq> ql_end (li_list l)" by metis
    obtain l' m' where rem: "cl_list_remove_item l x m = (l', m')" by (metis surj_pair)
    have "cl_list_remove_object l obj m = Some (CL_SUCCESS, l', m')"
      using rem s(4,5) by (auto simp: cl_list_remove_object_def find_object [OF rep] cl_qlist_end_def
          cl_list_remove_item_def Let_def split: prod.splits)
    with list_remove_item [OF rep [unfolded s(1)] rem] s(2,3) True show ?thesis
      by (auto simp: s(1) remove1_append)
  qed
qed

lemma is_object_in_list:
  assumes rep: "olist L m l items"
  shows "cl_is_object_in_list l obj m = Some (obj \<in> p_object m ` set items)"
  using first_with_object [of m "li_list l" items "p_object m" obj] rep
  by (simp add: cl_is_object_in_list_def find_object [OF rep] cl_qlist_end_def lrep_def)

text \<open>Iteration; the callback leaves the links and the object pointers alone.\<close>

lemma list_apply_loop:
  assumes keep: "\<And>x m w. p_next (fst (f x m w)) = p_next m \<and> p_prev (fst (f x m w)) = p_prev m \<and> p_object (fst (f x m w)) = p_object m"
  shows "qlist m (li_list l) (ys @ zs) \<Longrightarrow>
    list_apply_loop l f (hd (zs @ [ql_end (li_list l)])) m w =
      Some (fold (\<lambda>x (m, w). f x m w) (map (p_object m) zs) (m, w))"
proof (induction zs arbitrary: ys m w)
  case Nil
  then show ?case by (simp add: list_apply_loop.simps cl_list_end_def cl_qlist_end_def)
next
  case (Cons z zs)
  obtain m1 w1 where f: "f (p_object m z) m w = (m1, w1)" by (metis surj_pair)
  have k: "p_next m1 = p_next m" "p_prev m1 = p_prev m" "p_object m1 = p_object m"
    using keep [of "p_object m z" m w] f by simp_all
  have q: "qlist m1 (li_list l) (ys @ z # zs)" using Cons.prems qlist_cong [OF k(1,2)] by blast
  moreover have "z \<noteq> ql_end (li_list l)" using qlist_end_notin [OF q] by auto
  ultimately show ?case
    using Cons.IH [of m1 "ys @ [z]" w1] qlist_next_split [OF q] f k
    by (simp add: list_apply_loop.simps [of l f z] cl_list_end_def cl_qlist_end_def cl_list_obj_def cl_list_next_def)
qed

lemma list_apply_func:
  assumes "\<And>x m w. p_next (fst (f x m w)) = p_next m \<and> p_prev (fst (f x m w)) = p_prev m \<and> p_object (fst (f x m w)) = p_object m"
    and "olist L m l items"
  shows "cl_list_apply_func l f m w = Some (fold (\<lambda>x (m, w). f x m w) (map (p_object m) items) (m, w))"
  using list_apply_loop [OF assms(1), where m = m and l = l and ys = "[]" and zs = items and w = w] qlist_head [of m "li_list l" items] assms(2)
  by (simp add: lrep_def cl_list_apply_func_def cl_list_head_def)

section \<open>Life of a list\<close>

lemma list_remove_all:
  assumes rep: "olist L m l items" and run: "cl_list_remove_all l m = (l', m')"
  shows "olist L m' l' [] \<and> pool_config (li_qc l') = pool_config (li_qc l)"
proof -
  obtain p' ql where put: "cl_qcpool_put_list (li_qc l) (li_list l) m = (p', ql, m')"
    and l': "l' = l\<lparr>li_list := ql, li_pool := (li_pool l)\<lparr>qp_qcpool := p'\<rparr>\<rparr>"
    using run by (auto simp: cl_list_remove_all_def cl_qpool_put_list_def split: prod.splits)
  show ?thesis
    using node_pool_put_list [of L m "li_qc l" 24 "li_list l" items, OF _ _ put] rep by (simp add: lrep_def l')
qed

text \<open>A header whose end markers lie apart in allocated memory.\<close>

definition list_header :: "u64 set \<Rightarrow> ('m, 'w) cl_list_t \<Rightarrow> bool" where
  "list_header L l \<longleftrightarrow>
    distinct [ql_end (li_list l), ql_end (qc_free_list (li_qc l)), ql_end (qc_alloc_list (li_qc l))] \<and>
    insert (ql_end (li_list l)) (pool_ends (li_qc l)) \<subseteq> L \<and> 0 \<notin> L"

lemma list_grow_size_bound: "unat (list_grow_size n) < 2 ^ 29"
proof -
  have "unat (drop_bit 3 (ucast n :: u32)) < 2 ^ 29"
    using unsigned_less [of "ucast n :: u32", where 'a = nat] by (simp add: unat_drop_bit_eq drop_bit_eq_div unat_div)
  then show ?thesis by (simp add: list_grow_size_def Let_def FREE_ITEM_GROW_SIZE_def)
qed

lemma list_init:
  assumes heap: "heap_law os live" and hdr: "list_header (live w) l" and min: "unat min_items < 2 ^ 32"
  shows "\<exists>st l' m' w'. cl_list_init os l min_items m w = Some (st, l', m', w') \<and>
    (if st = CL_SUCCESS
     then olist (live w') m' l' [] \<and> live w \<subseteq> live w' \<and> qc_num_objects (li_qc l') = min_items \<and>
       qc_grow_size (li_qc l') = ucast (list_grow_size min_items)
     else \<not> cl_is_list_inited l')"
proof -
  let ?p = "li_qc l" and ?e = "ql_end (li_list l)" and ?g = "ucast (list_grow_size min_items) :: size_t"
  obtain ql m1 where init: "cl_qlist_init (li_list l) m = (ql, m1)" by (metis surj_pair)
  then have ql: "qlist m1 ql []" "ql_end ql = ?e"
    by (auto intro: qlist_init simp: cl_qlist_init_def cl_qlist_reset_def)
  have ends: "ql_end (qc_free_list ?p) \<noteq> ql_end (qc_alloc_list ?p)" "pool_ends ?p \<union> {?e} \<subseteq> live w" "0 \<notin> live w"
    "{?e} \<inter> pool_ends ?p = {}"
    using hdr by (auto simp: list_header_def pool_ends_def)
  have sz: "(24 :: size_t) = ROUNDUP 24 8" "(0 :: size_t) < 24" "(24 :: size_t) < 2 ^ 16" by (simp_all add: ROUNDUP_def)
  have g: "unat ?g < 2 ^ 32" using list_grow_size_bound [of min_items] by (simp add: unsigned_ucast_eq take_bit_nat_eq_self)
  from node_pool_init [OF heap ends sz min g, of m1] obtain st p' m' w' where
    run: "cl_qcpool_init os ?p min_items 0 ?g [24] 1 None None m1 w = Some (st, p', m', w')"
    and res: "if st = CL_SUCCESS
     then node_pool (live w') m' p' 24 {?e} {} \<and> live w \<subseteq> live w' \<and> links_same (- {?e}) m1 m' \<and>
       qc_num_objects p' = min_items \<and> qc_grow_size p' = ?g
     else \<not> cl_is_qcpool_inited p'"
    by blast
  have eq: "cl_list_init os l min_items m w = Some (st, l\<lparr>li_list := ql, li_pool :=
      (li_pool l)\<lparr>qp_pfn_init := None, qp_pfn_dtor := None, qp_qcpool := p'\<rparr>\<rparr>, m', w')"
    using init run by (simp add: cl_list_init_def cl_qpool_init_def sizeof_cl_pool_obj_def)
  show ?thesis
  proof (cases "st = CL_SUCCESS")
    case False
    with eq res show ?thesis by (simp add: cl_is_list_inited_def cl_is_qpool_inited_def)
  next
    case True
    with res have "qlist m' ql []" by (intro qlist_same [OF ql(1)]) (auto simp: ql(2))
    with True res eq ql(2) show ?thesis by (simp add: lrep_def)
  qed
qed

end
