(* ===== verification/Obj_Map.thy ===== *)
theory Obj_Map
  imports Object_Pool Qmap
begin

text \<open>
  The object map \<^verbatim>\<open>cl_map_t\<close> of \<^verbatim>\<open>cl_map.h\<close> and \<^verbatim>\<open>cl_map.c\<close>: a map from 64-bit keys to object pointers. Its
  nodes are \<^verbatim>\<open>cl_map_obj_t\<close> structures from a quick pool of the map's own, kept in a quick map. A loop that
  does not end is \<open>None\<close>.
\<close>

record ('m, 'w) cl_map_t =
  mp_qmap :: "u64 cl_qmap_t"
  mp_pool :: "('m, 'w) cl_qpool_t"

type_synonym ('z, 'w) omap = "((u64, 'z) pmem, 'w) cl_map_t"
type_synonym ('z, 'w) mheap = "((u64, 'z) pmem, 'w) heap_os"

definition MAP_GROW_SIZE :: u32 where "MAP_GROW_SIZE = 32"

text \<open>A map item has 56 bytes (links, colour and key), and the object pointer follows.\<close>

definition sizeof_cl_map_obj :: size_t where "sizeof_cl_map_obj = 64"

definition cl_qmap_set_obj :: "u64 \<Rightarrow> u64 \<Rightarrow> (u64, 'z) pmem \<Rightarrow> (u64, 'z) pmem" where
  "cl_qmap_set_obj p_map_obj obj m = m\<lparr>p_object := (p_object m)(p_map_obj := obj)\<rparr>"

definition cl_qmap_obj :: "u64 \<Rightarrow> (u64, 'z) pmem \<Rightarrow> u64" where
  "cl_qmap_obj p_map_obj m = p_object m p_map_obj"

section \<open>Life and iteration\<close>

definition cl_map_construct :: "('z, 'w) omap \<Rightarrow> (u64, 'z) pmem \<Rightarrow> ('z, 'w) omap \<times> (u64, 'z) pmem" where
  "cl_map_construct mp m = (let (pool, m) = cl_qpool_construct (mp_pool mp) m in (mp\<lparr>mp_pool := pool\<rparr>, m))"

definition map_grow_size :: "u32 \<Rightarrow> u32" where
  "map_grow_size min_items =
    (let grow_size = drop_bit 3 min_items
     in if grow_size < MAP_GROW_SIZE then MAP_GROW_SIZE else grow_size)"

definition cl_map_init ::
  "('z, 'w) mheap \<Rightarrow> ('z, 'w) omap \<Rightarrow> u32 \<Rightarrow> (u64, 'z) pmem \<Rightarrow> 'w \<Rightarrow>
   (cl_status_t \<times> ('z, 'w) omap \<times> (u64, 'z) pmem \<times> 'w) option" where
  "cl_map_init os mp min_items m w =
    (let (q, m) = cl_qmap_init 0 (mp_qmap mp) m;
         mp = mp\<lparr>mp_qmap := q\<rparr>
     in Option.bind
          (cl_qpool_init os (mp_pool mp) (ucast min_items) 0 (ucast (map_grow_size min_items))
             sizeof_cl_map_obj None None m w)
          (\<lambda>(status, pool, m, w). Some (status, mp\<lparr>mp_pool := pool\<rparr>, m, w)))"

definition cl_map_destroy ::
  "('z, 'w) mheap \<Rightarrow> ('z, 'w) omap \<Rightarrow> (u64, 'z) pmem \<Rightarrow> 'w \<Rightarrow> (('z, 'w) omap \<times> (u64, 'z) pmem \<times> 'w) option" where
  "cl_map_destroy os mp m w =
    Option.bind (cl_qpool_destroy os (mp_pool mp) m w) (\<lambda>(pool, m, w). Some (mp\<lparr>mp_pool := pool\<rparr>, m, w))"

definition cl_is_map_inited :: "('m, 'w) cl_map_t \<Rightarrow> bool" where
  "cl_is_map_inited mp = cl_is_qpool_inited (mp_pool mp)"

definition cl_map_count :: "('m, 'w) cl_map_t \<Rightarrow> size_t" where
  "cl_map_count mp = ucast (cl_qmap_count (mp_qmap mp))"

definition cl_is_map_empty :: "('m, 'w) cl_map_t \<Rightarrow> bool" where
  "cl_is_map_empty mp = cl_is_qmap_empty (mp_qmap mp)"

definition cl_map_key :: "u64 \<Rightarrow> (u64, 'z) pmem \<Rightarrow> u64" where
  "cl_map_key itor m = cl_qmap_key itor m"

definition cl_map_end :: "('m, 'w) cl_map_t \<Rightarrow> u64" where
  "cl_map_end mp = cl_qmap_end (mp_qmap mp)"

definition cl_map_head :: "('m, 'w) cl_map_t \<Rightarrow> (u64, 'z) pmem \<Rightarrow> u64" where
  "cl_map_head mp m = cl_qmap_head (mp_qmap mp) m"

definition cl_map_tail :: "('m, 'w) cl_map_t \<Rightarrow> (u64, 'z) pmem \<Rightarrow> u64" where
  "cl_map_tail mp m = cl_qmap_tail (mp_qmap mp) m"

definition cl_map_next :: "u64 \<Rightarrow> (u64, 'z) pmem \<Rightarrow> u64" where
  "cl_map_next itor m = cl_qmap_next itor m"

definition cl_map_prev :: "u64 \<Rightarrow> (u64, 'z) pmem \<Rightarrow> u64" where
  "cl_map_prev itor m = cl_qmap_prev itor m"

definition cl_map_obj :: "u64 \<Rightarrow> (u64, 'z) pmem \<Rightarrow> u64" where
  "cl_map_obj itor m = cl_qmap_obj itor m"

section \<open>Insertion, lookup, removal\<close>

text \<open>The result is the object at the key: the new one, or the one that was there; null without memory.\<close>

definition cl_map_insert ::
  "('z, 'w) mheap \<Rightarrow> ('z, 'w) omap \<Rightarrow> u64 \<Rightarrow> u64 \<Rightarrow> (u64, 'z) pmem \<Rightarrow> 'w \<Rightarrow>
   (u64 \<times> ('z, 'w) omap \<times> (u64, 'z) pmem \<times> 'w) option" where
  "cl_map_insert os mp key obj m w =
    (let (p_map_obj, pool, m, w) = cl_qpool_get os (mp_pool mp) m w;
         mp = mp\<lparr>mp_pool := pool\<rparr>
     in if p_map_obj = 0 then Some (0, mp, m, w)
        else
          Option.bind (cl_qmap_insert (mp_qmap mp) key p_map_obj (cl_qmap_set_obj p_map_obj obj m))
            (\<lambda>(p_obj_at_key, q, m).
              let mp = mp\<lparr>mp_qmap := q\<rparr>;
                  (pool, m) = (if p_obj_at_key \<noteq> p_map_obj then cl_qpool_put (mp_pool mp) p_map_obj m
                               else (mp_pool mp, m))
              in Some (cl_qmap_obj p_obj_at_key m, mp\<lparr>mp_pool := pool\<rparr>, m, w)))"

definition cl_map_get :: "('z, 'w) omap \<Rightarrow> u64 \<Rightarrow> (u64, 'z) pmem \<Rightarrow> u64 option" where
  "cl_map_get mp key m =
    Option.bind (cl_qmap_get (mp_qmap mp) key m)
      (\<lambda>p_item. Some (if p_item = cl_qmap_end (mp_qmap mp) then 0 else cl_qmap_obj p_item m))"

definition cl_map_get_next :: "('z, 'w) omap \<Rightarrow> u64 \<Rightarrow> (u64, 'z) pmem \<Rightarrow> u64 option" where
  "cl_map_get_next mp key m =
    Option.bind (cl_qmap_get_next (mp_qmap mp) key m)
      (\<lambda>p_item. Some (if p_item = cl_qmap_end (mp_qmap mp) then 0 else cl_qmap_obj p_item m))"

definition cl_map_remove_item ::
  "('z, 'w) omap \<Rightarrow> u64 \<Rightarrow> (u64, 'z) pmem \<Rightarrow> (('z, 'w) omap \<times> (u64, 'z) pmem) option" where
  "cl_map_remove_item mp itor m =
    (if itor = cl_map_end mp then Some (mp, m)
     else Option.bind (cl_qmap_remove_item (mp_qmap mp) itor m) (\<lambda>(q, m).
       let (pool, m) = cl_qpool_put (mp_pool mp) itor m
       in Some (mp\<lparr>mp_qmap := q, mp_pool := pool\<rparr>, m)))"

definition cl_map_remove ::
  "('z, 'w) omap \<Rightarrow> u64 \<Rightarrow> (u64, 'z) pmem \<Rightarrow> (u64 \<times> ('z, 'w) omap \<times> (u64, 'z) pmem) option" where
  "cl_map_remove mp key m =
    Option.bind (cl_qmap_remove (mp_qmap mp) key m) (\<lambda>(p_item, q, m).
      let mp = mp\<lparr>mp_qmap := q\<rparr>
      in if p_item = cl_qmap_end (mp_qmap mp) then Some (0, mp, m)
         else
           let p_obj = cl_qmap_obj p_item m;
               (pool, m) = cl_qpool_put (mp_pool mp) p_item m
           in Some (p_obj, mp\<lparr>mp_pool := pool\<rparr>, m))"

text \<open>One of the two removals in a turn of the loop of \<^verbatim>\<open>cl_map_remove_all\<close>.\<close>

definition map_remove_node ::
  "('z, 'w) omap \<Rightarrow> u64 \<Rightarrow> (u64, 'z) pmem \<Rightarrow> (('z, 'w) omap \<times> (u64, 'z) pmem) option" where
  "map_remove_node mp p_item m =
    Option.bind (cl_qmap_remove_item (mp_qmap mp) p_item m) (\<lambda>(q, m).
      let (pool, m) = cl_qpool_put (mp_pool mp) p_item m
      in Some (mp\<lparr>mp_qmap := q, mp_pool := pool\<rparr>, m))"

partial_function (option) map_remove_all_loop ::
  "('z, 'w) omap \<Rightarrow> (u64, 'z) pmem \<Rightarrow> (('z, 'w) omap \<times> (u64, 'z) pmem) option" where
  "map_remove_all_loop mp m =
    (if \<not> cl_is_qmap_empty (mp_qmap mp)
     then Option.bind (map_remove_node mp (cl_qmap_head (mp_qmap mp) m) m) (\<lambda>(mp, m).
       if \<not> cl_is_qmap_empty (mp_qmap mp)
       then Option.bind (map_remove_node mp (cl_qmap_tail (mp_qmap mp) m) m) (\<lambda>(mp, m).
              map_remove_all_loop mp m)
       else map_remove_all_loop mp m)
     else Some (mp, m))"

definition cl_map_remove_all ::
  "('z, 'w) omap \<Rightarrow> (u64, 'z) pmem \<Rightarrow> (('z, 'w) omap \<times> (u64, 'z) pmem) option" where
  "cl_map_remove_all mp m = map_remove_all_loop mp m"

section \<open>Merging and comparing maps\<close>

text \<open>
  An entry is removed from the source and inserted in the destination; when that gives another object
  than the entry's, the entry goes back to the source. Without memory the merge stops.
\<close>

partial_function (option) map_merge_loop ::
  "('z, 'w) mheap \<Rightarrow> ('z, 'w) omap \<Rightarrow> ('z, 'w) omap \<Rightarrow> u64 \<Rightarrow> (u64, 'z) pmem \<Rightarrow> 'w \<Rightarrow>
   (cl_status_t \<times> ('z, 'w) omap \<times> ('z, 'w) omap \<times> (u64, 'z) pmem \<times> 'w) option" where
  "map_merge_loop os dest src itor m w =
    (if itor \<noteq> cl_map_end src
     then
       let nxt = cl_map_next itor m;
           p_obj = cl_map_obj itor m;
           key = cl_map_key itor m
       in Option.bind (cl_map_remove_item src itor m) (\<lambda>(src, m).
          Option.bind (cl_map_insert os dest key p_obj m w) (\<lambda>(p_obj2, dest, m, w).
          if p_obj \<noteq> p_obj2
          then
            let status = (if p_obj2 = 0 then CL_INSUFFICIENT_MEMORY else CL_SUCCESS)
            in Option.bind (cl_map_insert os src key p_obj m w) (\<lambda>(_, src, m, w).
               if status \<noteq> CL_SUCCESS then Some (status, dest, src, m, w)
               else map_merge_loop os dest src nxt m w)
          else map_merge_loop os dest src nxt m w))
     else Some (CL_SUCCESS, dest, src, m, w))"

definition cl_map_merge ::
  "('z, 'w) mheap \<Rightarrow> ('z, 'w) omap \<Rightarrow> ('z, 'w) omap \<Rightarrow> (u64, 'z) pmem \<Rightarrow> 'w \<Rightarrow>
   (cl_status_t \<times> ('z, 'w) omap \<times> ('z, 'w) omap \<times> (u64, 'z) pmem \<times> 'w) option" where
  "cl_map_merge os dest src m w = map_merge_loop os dest src (cl_map_head src m) m w"

text \<open>The four maps of a delta.\<close>

type_synonym ('z, 'w) four_maps = "('z, 'w) omap \<times> ('z, 'w) omap \<times> ('z, 'w) omap \<times> ('z, 'w) omap"

definition cl_map_revert ::
  "('z, 'w) mheap \<Rightarrow> ('z, 'w) four_maps \<Rightarrow> (u64, 'z) pmem \<Rightarrow> 'w \<Rightarrow>
   (('z, 'w) four_maps \<times> (u64, 'z) pmem \<times> 'w) option" where
  "cl_map_revert os maps m w =
    (case maps of (p_map1, p_map2, new, old) \<Rightarrow>
      Option.bind (cl_map_merge os p_map1 old m w) (\<lambda>(_, p_map1, old, m, w).
      Option.bind (cl_map_merge os p_map2 new m w) (\<lambda>(_, p_map2, new, m, w).
      Some ((p_map1, p_map2, new, old), m, w))))"

definition cl_map_delta_move ::
  "('z, 'w) mheap \<Rightarrow> ('z, 'w) omap \<Rightarrow> ('z, 'w) omap \<Rightarrow> u64 \<Rightarrow> (u64, 'z) pmem \<Rightarrow> 'w \<Rightarrow>
   (cl_status_t \<times> u64 \<times> ('z, 'w) omap \<times> ('z, 'w) omap \<times> (u64, 'z) pmem \<times> 'w) option" where
  "cl_map_delta_move os dest src itor m w =
    (let nxt = cl_map_next itor m;
         p_obj = cl_map_obj itor m;
         key = cl_map_key itor m
     in Option.bind (cl_map_remove_item src itor m) (\<lambda>(src, m).
        Option.bind (cl_map_insert os dest key p_obj m w) (\<lambda>(p_obj2, dest, m, w).
        if p_obj2 = 0
        then Option.bind (cl_map_insert os src key p_obj m w) (\<lambda>(_, src, m, w).
               Some (CL_INSUFFICIENT_MEMORY, itor, dest, src, m, w))
        else Some (CL_SUCCESS, nxt, dest, src, m, w))))"

text \<open>The three loops end with the iterators, or with a status when a move failed.\<close>

partial_function (option) map_delta_loop ::
  "('z, 'w) mheap \<Rightarrow> ('z, 'w) omap \<Rightarrow> ('z, 'w) omap \<Rightarrow> ('z, 'w) omap \<Rightarrow> ('z, 'w) omap \<Rightarrow> u64 \<Rightarrow> u64 \<Rightarrow>
   (u64, 'z) pmem \<Rightarrow> 'w \<Rightarrow>
   (cl_status_t \<times> u64 \<times> u64 \<times> ('z, 'w) four_maps \<times> (u64, 'z) pmem \<times> 'w) option" where
  "map_delta_loop os p_map1 p_map2 new old itor1 itor2 m w =
    (if itor1 \<noteq> cl_map_end p_map1 \<and> itor2 \<noteq> cl_map_end p_map2
     then
       let key1 = cl_map_key itor1 m; key2 = cl_map_key itor2 m
       in if key1 < key2
          then Option.bind (cl_map_delta_move os old p_map1 itor1 m w) (\<lambda>(status, itor1, old, p_map1, m, w).
                 if status \<noteq> CL_SUCCESS then Some (status, itor1, itor2, (p_map1, p_map2, new, old), m, w)
                 else map_delta_loop os p_map1 p_map2 new old itor1 itor2 m w)
          else if key1 > key2
          then Option.bind (cl_map_delta_move os new p_map2 itor2 m w) (\<lambda>(status, itor2, new, p_map2, m, w).
                 if status \<noteq> CL_SUCCESS then Some (status, itor1, itor2, (p_map1, p_map2, new, old), m, w)
                 else map_delta_loop os p_map1 p_map2 new old itor1 itor2 m w)
          else map_delta_loop os p_map1 p_map2 new old (cl_map_next itor1 m) (cl_map_next itor2 m) m w
     else Some (CL_SUCCESS, itor1, itor2, (p_map1, p_map2, new, old), m, w))"

partial_function (option) map_delta_rest ::
  "('z, 'w) mheap \<Rightarrow> ('z, 'w) omap \<Rightarrow> ('z, 'w) omap \<Rightarrow> u64 \<Rightarrow> (u64, 'z) pmem \<Rightarrow> 'w \<Rightarrow>
   (cl_status_t \<times> ('z, 'w) omap \<times> ('z, 'w) omap \<times> (u64, 'z) pmem \<times> 'w) option" where
  "map_delta_rest os dest src itor m w =
    (if itor \<noteq> cl_map_end src
     then Option.bind (cl_map_delta_move os dest src itor m w) (\<lambda>(status, itor, dest, src, m, w).
            if status \<noteq> CL_SUCCESS then Some (status, dest, src, m, w)
            else map_delta_rest os dest src itor m w)
     else Some (CL_SUCCESS, dest, src, m, w))"

text \<open>A failed move restores the four maps and ends the call with its status.\<close>

definition delta_fail ::
  "('z, 'w) mheap \<Rightarrow> cl_status_t \<Rightarrow> ('z, 'w) four_maps \<Rightarrow> (u64, 'z) pmem \<Rightarrow> 'w \<Rightarrow>
   (cl_status_t \<times> ('z, 'w) four_maps \<times> (u64, 'z) pmem \<times> 'w) option" where
  "delta_fail os status maps m w =
    Option.bind (cl_map_revert os maps m w) (\<lambda>(maps, m, w). Some (status, maps, m, w))"

definition cl_map_delta ::
  "('z, 'w) mheap \<Rightarrow> ('z, 'w) four_maps \<Rightarrow> (u64, 'z) pmem \<Rightarrow> 'w \<Rightarrow>
   (cl_status_t \<times> ('z, 'w) four_maps \<times> (u64, 'z) pmem \<times> 'w) option" where
  "cl_map_delta os maps m w =
    (case maps of (p_map1, p_map2, new, old) \<Rightarrow>
      Option.bind (map_delta_loop os p_map1 p_map2 new old (cl_map_head p_map1 m) (cl_map_head p_map2 m) m w)
        (\<lambda>(status, itor1, itor2, (p_map1, p_map2, new, old), m, w).
      if status \<noteq> CL_SUCCESS then delta_fail os status (p_map1, p_map2, new, old) m w
      else Option.bind (map_delta_rest os new p_map2 itor2 m w) (\<lambda>(status, new, p_map2, m, w).
      if status \<noteq> CL_SUCCESS then delta_fail os status (p_map1, p_map2, new, old) m w
      else Option.bind (map_delta_rest os old p_map1 itor1 m w) (\<lambda>(status, old, p_map1, m, w).
      if status \<noteq> CL_SUCCESS then delta_fail os status (p_map1, p_map2, new, old) m w
      else Some (CL_SUCCESS, (p_map1, p_map2, new, old), m, w)))))"

end
