(* ===== verification/Obj_Map_Ops.thy ===== *)
theory Obj_Map_Ops
  imports Obj_Map Node_Pool Qmap_Refine
begin

text \<open>
  The object map refines a partial map from keys to objects. \<open>omap_rep L m mp items held\<close>: the nodes \<open>items\<close> are
  in the quick map, in the order of their keys, and together with \<open>held\<close> they are the nodes taken from the
  pool; \<open>contents m items\<close> is the partial map.
\<close>

section \<open>Representation\<close>

abbreviation mp_qc :: "('m, 'w) cl_map_t \<Rightarrow> ('m, 'w) cl_qcpool_t" where
  "mp_qc mp \<equiv> qp_qcpool (mp_pool mp)"

definition map_ends :: "('m, 'w) cl_map_t \<Rightarrow> u64 set" where
  "map_ends mp = {qm_root (mp_qmap mp), qm_nil (mp_qmap mp)}"

definition orep :: "u64 set \<Rightarrow> (u64, 'z) pmem \<Rightarrow> ('z, 'w) omap \<Rightarrow> u64 list \<Rightarrow> u64 set \<Rightarrow> bool" where
  "orep L m mp items held \<longleftrightarrow> qmap_wf (mp_qmap mp) m items \<and> held \<inter> set items = {} \<and>
    node_pool L m (mp_qc mp) 64 (map_ends mp) (set items \<union> held)"

abbreviation omap_rep :: "u64 set \<Rightarrow> (u64, 'z) pmem \<Rightarrow> ('z, 'w) omap \<Rightarrow> u64 list \<Rightarrow> bool" where
  "omap_rep L m mp items \<equiv> orep L m mp items {}"

definition contents :: "(u64, 'z) pmem \<Rightarrow> u64 list \<Rightarrow> u64 \<rightharpoonup> u64" where
  "contents m items = keyed (p_key m) (p_object m) items"

text \<open>\<^verbatim>\<open>memset\<close> writes no field of a structure outside its block.\<close>

definition map_law :: "('z, 'w) mheap \<Rightarrow> bool" where
  "map_law os \<longleftrightarrow> (\<forall>p n m x. x \<notin> addr_range p (unat n) \<longrightarrow>
    agree_on {x} m (os_memset0 os p n m) \<and> p_object (os_memset0 os p n m) x = p_object m x)"

lemma same_more_object:
  fixes m m' :: "('k, 'z) pmem"
  shows "map_mem.more m' = map_mem.more m \<Longrightarrow> p_object m' = p_object m"
  by (cases m; cases m') simp

section \<open>The partial map\<close>

lemma contents_find: "contents m items key = map_option (p_object m) (find (\<lambda>x. key = p_key m x) items)"
  by (simp add: contents_def keyed_find)

lemma contents_cong:
  "(\<And>x. x \<in> set items \<Longrightarrow> p_key m' x = p_key m x \<and> p_object m' x = p_object m x) \<Longrightarrow> contents m' items = contents m items"
  unfolding contents_def by (rule keyed_cong)

lemma contents_insert:
  "p_key m x \<notin> p_key m ` set ys \<Longrightarrow>
   contents m (ys @ x # zs) = (contents m (ys @ zs))(p_key m x \<mapsto> p_object m x)"
  unfolding contents_def by (rule keyed_insert)

lemma contents_dom: "dom (contents m items) = p_key m ` set items"
  by (simp add: contents_def keyed_dom)

section \<open>Steps\<close>

lemma orep_get:
  assumes heap: "heap_law os live" "map_law os" and rep: "omap_rep (live w) m mp items"
    and room: "room (mp_qc mp) (length items)"
    and run: "cl_qpool_get os (mp_pool mp) m w = (it, pool, m', w')"
  shows "orep (live w') m' (mp\<lparr>mp_pool := pool\<rparr>) items (if it = 0 then {} else {it})"
    "contents m' items = contents m items" "pool_config (qp_qcpool pool) = pool_config (mp_qc mp)"
    "length items < unat (qc_num_objects (mp_qc mp)) \<Longrightarrow> it \<noteq> 0"
    "x \<in> set items \<Longrightarrow> p_key m' x = p_key m x"
proof -
  have q: "qmap_wf (mp_qmap mp) m items" and pool: "node_pool (live w) m (mp_qc mp) 64 (map_ends mp) (set items)"
    using rep by (simp_all add: orep_def)
  have card: "card (set items) = length items" by (rule distinct_card [OF qmap_wf_distinct [OF q]])
  obtain p' where get: "cl_qcpool_get os (mp_qc mp) m w = (it, p', m', w')" and p': "qp_qcpool pool = p'"
    using run by (auto simp: cl_qpool_get_def split: prod.splits)
  note g = node_pool_get [OF heap(1) pool room [folded card] get]
  have none: "qc_pfn_init (mp_qc mp) = None" using pool by (simp add: node_pool_def plain_pool_def)
  note field = qcpool_get_field [OF heap(1) _ _ _ none _ get]
  have same: "p_left m' x = p_left m x" "p_right m' x = p_right m x" "p_up m' x = p_up m x"
    "color m' x = color m x" "p_key m' x = p_key m x" "p_object m' x = p_object m x"
    if "x \<in> map_ends mp \<union> set items" for x
  proof -
    have x: "x \<in> live w" using that node_pool_live [OF pool] by blast
    show "p_left m' x = p_left m x" by (rule field [OF _ _ _ x]) (use heap(2) in \<open>simp_all add: map_law_def agree_on_def\<close>)
    show "p_right m' x = p_right m x" by (rule field [OF _ _ _ x]) (use heap(2) in \<open>simp_all add: map_law_def agree_on_def\<close>)
    show "p_up m' x = p_up m x" by (rule field [OF _ _ _ x]) (use heap(2) in \<open>simp_all add: map_law_def agree_on_def\<close>)
    show "color m' x = color m x" by (rule field [OF _ _ _ x]) (use heap(2) in \<open>simp_all add: map_law_def agree_on_def\<close>)
    show "p_key m' x = p_key m x" by (rule field [OF _ _ _ x]) (use heap(2) in \<open>simp_all add: map_law_def agree_on_def\<close>)
    show "p_object m' x = p_object m x" by (rule field [OF _ _ _ x]) (use heap(2) in \<open>simp_all add: map_law_def\<close>)
  qed
  have "agree_on (qmap_area (mp_qmap mp) items) m m'"
    using same g(3) by (auto simp: agree_on_def links_same_def map_ends_def qmap_area_def)
  from qmap_wf_cong [OF q this] g(1,2) show "orep (live w') m' (mp\<lparr>mp_pool := pool\<rparr>) items (if it = 0 then {} else {it})"
    by (auto simp: orep_def p' map_ends_def)
  show "pool_config (qp_qcpool pool) = pool_config (mp_qc mp)" using g(5) by (simp add: p')
  show "length items < unat (qc_num_objects (mp_qc mp)) \<Longrightarrow> it \<noteq> 0" using g(6) by (simp add: card)
  show "contents m' items = contents m items" by (rule contents_cong) (use same in auto)
  show "x \<in> set items \<Longrightarrow> p_key m' x = p_key m x" using same by auto
qed

lemma orep_put:
  assumes rep: "orep L m mp items {x}" and run: "cl_qpool_put (mp_pool mp) x m = (pool, m')"
  shows "omap_rep L m' (mp\<lparr>mp_pool := pool\<rparr>) items" "p_object m' = p_object m" "p_key m' = p_key m"
    "pool_config (qp_qcpool pool) = pool_config (mp_qc mp)"
proof -
  have q: "qmap_wf (mp_qmap mp) m items" and pl: "node_pool L m (mp_qc mp) 64 (map_ends mp) (set items \<union> {x})"
    and x: "set items \<union> {x} - {x} = set items" using rep by (auto simp: orep_def)
  obtain p' where put: "cl_qcpool_put (mp_qc mp) x m = (p', m')" and p': "qp_qcpool pool = p'"
    using run by (auto simp: cl_qpool_put_def split: prod.splits)
  note res = node_pool_put [OF pl _ put, unfolded x] and m' = qcpool_put_fields(1) [OF put]
  have "agree_on (qmap_area (mp_qmap mp) items) m m'"
    using res(2) by (auto simp: agree_on_def links_same_def map_ends_def qmap_area_def m')
  from qmap_wf_cong [OF q this] res(1) show "omap_rep L m' (mp\<lparr>mp_pool := pool\<rparr>) items"
    by (simp add: orep_def p' map_ends_def)
  show "pool_config (qp_qcpool pool) = pool_config (mp_qc mp)" using res(3) by (simp add: p')
  show "p_object m' = p_object m" "p_key m' = p_key m" by (simp_all add: m')
qed

lemma orep_set_obj:
  assumes rep: "orep L m mp items {it}"
  shows "orep L (cl_qmap_set_obj it obj m) mp items {it}"
    "contents (cl_qmap_set_obj it obj m) items = contents m items"
proof -
  have it: "it \<notin> set items" using rep by (simp add: orep_def)
  have "agree_on A m (cl_qmap_set_obj it obj m)" "links_same A m (cl_qmap_set_obj it obj m)" for A
    by (simp_all add: agree_on_def links_same_def cl_qmap_set_obj_def)
  note same = this
  from rep have "qmap_wf (mp_qmap mp) m items" and "node_pool L m (mp_qc mp) 64 (map_ends mp) (set items \<union> {it})"
    by (simp_all add: orep_def)
  from qmap_wf_cong [OF this(1) same(1)] node_pool_frame [OF this(2) same(2)] it
  show "orep L (cl_qmap_set_obj it obj m) mp items {it}" by (simp add: orep_def)
  show "contents (cl_qmap_set_obj it obj m) items = contents m items"
    by (rule contents_cong) (use it in \<open>auto simp: cl_qmap_set_obj_def\<close>)
qed

lemma same_outside_links: "same_outside A m m' \<Longrightarrow> links_same A m m'"
  by (simp add: same_outside_def links_same_def)

lemma orep_not_area: "orep L m mp items {it} \<Longrightarrow> it \<notin> qmap_area (mp_qmap mp) items"
  using node_pool_nodes [of L m "mp_qc mp" 64 "map_ends mp" "set items \<union> {it}" it]
  by (auto simp: orep_def qmap_area_def map_ends_def)

text \<open>Linking the held node under a new key, and under a key that is there.\<close>

lemma orep_link_new:
  assumes rep: "orep L m mp items {it}" and key: "key \<notin> p_key m ` set items"
  shows "\<exists>q' m' items'. cl_qmap_insert (mp_qmap mp) key it m = Some (it, q', m') \<and>
    omap_rep L m' (mp\<lparr>mp_qmap := q'\<rparr>) items' \<and> p_object m' = p_object m \<and>
    contents m' items' = (contents m items)(key \<mapsto> p_object m it) \<and> length items' = Suc (length items)"
proof -
  have q: "qmap_wf (mp_qmap mp) m items" and pl: "node_pool L m (mp_qc mp) 64 (map_ends mp) (set items \<union> {it})"
    and it: "it \<notin> set items" using rep by (auto simp: orep_def)
  from qmap_insert_new [OF q orep_not_area [OF rep] key] obtain q' m' ys zs where
    ins: "cl_qmap_insert (mp_qmap mp) key it m = Some (it, q', m')" "items = ys @ zs" "qmap_wf q' m' (ys @ it # zs)"
      "p_key m' = (p_key m)(it := key)" "same_outside (qmap_area (mp_qmap mp) (it # items)) m m'"
      "q' = (mp_qmap mp)\<lparr>qm_count := qm_count (mp_qmap mp) + 1\<rparr>" by blast
  have ends: "map_ends (mp\<lparr>mp_qmap := q'\<rparr>) = map_ends mp" by (simp add: map_ends_def ins(6))
  have "node_pool L m' (mp_qc mp) 64 (map_ends mp) (set items \<union> {it})"
    by (rule node_pool_frame [OF pl links_same_mono [OF same_outside_links [OF ins(5)]]])
      (auto simp: qmap_area_def map_ends_def)
  then have "omap_rep L m' (mp\<lparr>mp_qmap := q'\<rparr>) (ys @ it # zs)"
    using ins(2,3) ends by (simp add: orep_def insert_commute)
  moreover have obj: "p_object m' = p_object m" using ins(5) by (intro same_more_object) (simp add: same_outside_def)
  moreover have "contents m' (ys @ it # zs) = (contents m items)(key \<mapsto> p_object m it)"
  proof -
    have "contents m' (ys @ zs) = contents m (ys @ zs)" by (rule contents_cong) (use it ins(2,4) obj in auto)
    moreover have "p_key m' it \<notin> p_key m' ` set ys" using key it ins(2,4) by auto
    ultimately show ?thesis using contents_insert [of m' it ys zs] ins(2,4) obj by simp
  qed
  ultimately show ?thesis using ins(1,2) by (intro exI [of _ q'] exI [of _ m'] exI [of _ "ys @ it # zs"]) simp
qed

lemma orep_link_old:
  assumes rep: "orep L m mp items {it}" and y: "y \<in> set items" "p_key m y = key"
  shows "\<exists>m'. cl_qmap_insert (mp_qmap mp) key it m = Some (y, mp_qmap mp, m') \<and>
    orep L m' mp items {it} \<and> p_object m' = p_object m \<and> contents m' items = contents m items"
proof -
  have q: "qmap_wf (mp_qmap mp) m items" and pl: "node_pool L m (mp_qc mp) 64 (map_ends mp) (set items \<union> {it})"
    and it: "it \<notin> set items" using rep by (auto simp: orep_def)
  from qmap_insert_duplicate [OF q orep_not_area [OF rep] y] obtain m' where
    ins: "cl_qmap_insert (mp_qmap mp) key it m = Some (y, mp_qmap mp, m')" "qmap_wf (mp_qmap mp) m' items"
      "same_outside {it} m m'" by blast
  have "node_pool L m' (mp_qc mp) 64 (map_ends mp) (set items \<union> {it})"
    by (rule node_pool_frame [OF pl links_same_mono [OF same_outside_links [OF ins(3)]]]) auto
  moreover have obj: "p_object m' = p_object m" using ins(3) by (intro same_more_object) (simp add: same_outside_def)
  moreover have "contents m' items = contents m items"
    by (rule contents_cong) (use it ins(3) obj in \<open>auto simp: same_outside_def\<close>)
  ultimately show ?thesis using ins(1,2) it by (auto simp: orep_def)
qed

lemma orep_unlink:
  assumes rep: "omap_rep L m mp items" and x: "x \<in> set items"
  shows "\<exists>q' m'. cl_qmap_remove_item (mp_qmap mp) x m = Some (q', m') \<and>
    orep L m' (mp\<lparr>mp_qmap := q'\<rparr>) (remove1 x items) {x} \<and> p_object m' = p_object m \<and> p_key m' = p_key m"
proof -
  have q: "qmap_wf (mp_qmap mp) m items" and pl: "node_pool L m (mp_qc mp) 64 (map_ends mp) (set items)"
    using rep by (auto simp: orep_def)
  from qmap_remove_item_wf [OF q x] obtain q' m' where
    rem: "cl_qmap_remove_item (mp_qmap mp) x m = Some (q', m')" "qmap_wf q' m' (remove1 x items)" "p_key m' = p_key m"
      "same_outside (qmap_area (mp_qmap mp) items) m m'" "q' = (mp_qmap mp)\<lparr>qm_count := qm_count (mp_qmap mp) - 1\<rparr>"
    by blast
  have ends: "map_ends (mp\<lparr>mp_qmap := q'\<rparr>) = map_ends mp" by (simp add: map_ends_def rem(5))
  have set: "set (remove1 x items) = set items - {x}" using set_remove1_eq [OF qmap_wf_distinct [OF q]] by simp
  then have "set (remove1 x items) \<union> {x} = set items" using x by auto
  moreover have "node_pool L m' (mp_qc mp) 64 (map_ends mp) (set items)"
    by (rule node_pool_frame [OF pl links_same_mono [OF same_outside_links [OF rem(4)]]])
      (auto simp: qmap_area_def map_ends_def)
  moreover have "p_object m' = p_object m" using rem(4) by (intro same_more_object) (simp add: same_outside_def)
  ultimately show ?thesis using rem(1,2,3) set ends by (auto simp: orep_def)
qed

lemma contents_remove1:
  "qmap_wf q m items \<Longrightarrow> x \<in> set items \<Longrightarrow> contents m (remove1 x items) = (contents m items)(p_key m x := None)"
  unfolding contents_def by (rule keyed_remove1 [OF qmap_wf_keys])

section \<open>The operations\<close>

lemma map_get:
  assumes rep: "omap_rep L m mp items"
  shows "cl_map_get mp key m = Some (case contents m items key of Some obj \<Rightarrow> obj | None \<Rightarrow> 0)"
proof -
  have q: "qmap_wf (mp_qmap mp) m items" using rep by (simp add: orep_def)
  have nil: "qm_nil (mp_qmap mp) \<notin> set items"
    using fmap_wf_sentinels(1) [OF q [unfolded qmap_wf_def]] by simp
  show ?thesis
    unfolding cl_map_get_def qmap_get_correct [OF q] contents_find cl_qmap_end_def cl_qmap_obj_def
    using nil by (cases "find (\<lambda>x. key = p_key m x) items") (auto dest: find_in_set)
qed

lemma map_get_next:
  assumes rep: "omap_rep L m mp items"
  shows "cl_map_get_next mp key m = Some (case find (\<lambda>x. key < p_key m x) items of Some x \<Rightarrow> p_object m x | None \<Rightarrow> 0)"
proof -
  have q: "qmap_wf (mp_qmap mp) m items" using rep by (simp add: orep_def)
  have nil: "qm_nil (mp_qmap mp) \<notin> set items"
    using fmap_wf_sentinels(1) [OF q [unfolded qmap_wf_def]] by simp
  show ?thesis
    unfolding cl_map_get_next_def qmap_get_next_correct [OF q] cl_qmap_end_def cl_qmap_obj_def
    using nil by (cases "find (\<lambda>x. key < p_key m x) items") (auto dest: find_in_set)
qed

text \<open>
  Insertion. \<open>stored\<close> says that a node was there for the entry (a duplicate needs one too, for a moment):
  then the map has the entry, or keeps the one it had for the key, and the result is the object that is now
  at the key. Otherwise the result is null and the map is as before. While the pool has a free node
  the entry is stored.
\<close>

definition stores ::
  "('w \<Rightarrow> u64 set) \<Rightarrow> ('z, 'w) omap \<Rightarrow> (u64, 'z) pmem \<Rightarrow> u64 list \<Rightarrow> u64 \<Rightarrow> u64 \<Rightarrow>
   (u64 \<times> ('z, 'w) omap \<times> (u64, 'z) pmem \<times> 'w) option \<Rightarrow> bool" where
  "stores live mp m items key obj res \<longleftrightarrow> (case res of None \<Rightarrow> False | Some (r, mp', m', w') \<Rightarrow>
    pool_config (mp_qc mp') = pool_config (mp_qc mp) \<and>
    (\<exists>items' stored. omap_rep (live w') m' mp' items' \<and>
      (length items < unat (qc_num_objects (mp_qc mp)) \<longrightarrow> stored) \<and>
      (if stored
       then (case contents m items key of
           None \<Rightarrow> r = obj \<and> contents m' items' = (contents m items)(key \<mapsto> obj) \<and> length items' = Suc (length items)
         | Some obj' \<Rightarrow> r = obj' \<and> contents m' items' = contents m items \<and> length items' = length items)
       else r = 0 \<and> contents m' items' = contents m items \<and> length items' = length items)))"

lemma map_insert:
  assumes heap: "heap_law os live" "map_law os" and rep: "omap_rep (live w) m mp items"
    and room: "room (mp_qc mp) (length items)"
  shows "stores live mp m items key obj (cl_map_insert os mp key obj m w)"
proof -
  obtain it pool m1 w1 where get: "cl_qpool_get os (mp_pool mp) m w = (it, pool, m1, w1)" by (metis prod_cases4)
  note g = orep_get [OF heap rep room get]
  show ?thesis
  proof (cases "it = 0")
    case True
    with get have "cl_map_insert os mp key obj m w = Some (0, mp\<lparr>mp_pool := pool\<rparr>, m1, w1)"
      by (simp add: cl_map_insert_def)
    moreover have "\<not> length items < unat (qc_num_objects (mp_qc mp))" using g(4) True by blast
    ultimately show ?thesis using g(1-3) True
      by (simp add: stores_def) (rule exI [of _ items], auto)
  next
    case False
    let ?mp = "mp\<lparr>mp_pool := pool\<rparr>" and ?m = "cl_qmap_set_obj it obj m1"
    have one: "orep (live w1) ?m ?mp items {it}" "contents ?m items = contents m items"
      using orep_set_obj [of "live w1" m1 ?mp items it obj] g(1,2) False by simp_all
    have obj: "p_object ?m it = obj" by (simp add: cl_qmap_set_obj_def)
    show ?thesis
    proof (cases "contents m items key")
      case None
      then have "key \<notin> p_key ?m ` set items" using one(2) contents_dom [of ?m items] by auto
      from orep_link_new [OF one(1) this] obtain q' m' items' where
        link: "cl_qmap_insert (mp_qmap mp) key it ?m = Some (it, q', m')" "omap_rep (live w1) m' (?mp\<lparr>mp_qmap := q'\<rparr>) items'"
          "p_object m' = p_object ?m" "contents m' items' = (contents m items)(key \<mapsto> obj)"
          "length items' = Suc (length items)"
        by (auto simp: one(2) obj)
      have "cl_map_insert os mp key obj m w = Some (obj, ?mp\<lparr>mp_qmap := q'\<rparr>, m', w1)"
        using get False link(1,3) obj by (simp add: cl_map_insert_def cl_qmap_obj_def)
      with link g(3) None show ?thesis
        by (simp add: stores_def) (rule exI [of _ items'], auto)
    next
      case (Some obj')
      then obtain y where y: "y \<in> set items" "p_key ?m y = key" "p_object ?m y = obj'"
        by (auto simp: one(2) [symmetric] contents_find dest: find_in_set)
      from orep_link_old [OF one(1) y(1,2)] obtain m2 where
        link: "cl_qmap_insert (mp_qmap mp) key it ?m = Some (y, mp_qmap mp, m2)" "orep (live w1) m2 ?mp items {it}"
          "p_object m2 = p_object ?m" "contents m2 items = contents m items" by (auto simp: one(2))
      obtain pool3 m3 where put: "cl_qpool_put pool it m2 = (pool3, m3)" by (metis surj_pair)
      note p = orep_put [OF link(2), of pool3 m3]
      have "y \<noteq> it" using y(1) one(1) by (auto simp: orep_def)
      then have "cl_map_insert os mp key obj m w = Some (obj', ?mp\<lparr>mp_pool := pool3\<rparr>, m3, w1)"
        using get False link(1,3) y(3) put p by (simp add: cl_map_insert_def cl_qmap_obj_def)
      moreover have "contents m3 items = contents m items"
        using contents_cong [of items m3 m2] link(4) p put by simp
      ultimately show ?thesis using p put g(3) Some
        by (simp add: stores_def) (rule exI [of _ items], auto)
    qed
  qed
qed

lemma map_remove_node:
  assumes rep: "omap_rep L m mp items" and x: "x \<in> set items"
  shows "\<exists>mp' m'. map_remove_node mp x m = Some (mp', m') \<and> omap_rep L m' mp' (remove1 x items) \<and>
    p_object m' = p_object m \<and> p_key m' = p_key m \<and> pool_config (mp_qc mp') = pool_config (mp_qc mp)"
proof -
  from orep_unlink [OF rep x] obtain q' m1 where
    un: "cl_qmap_remove_item (mp_qmap mp) x m = Some (q', m1)" "orep L m1 (mp\<lparr>mp_qmap := q'\<rparr>) (remove1 x items) {x}"
      "p_object m1 = p_object m" "p_key m1 = p_key m" by blast
  obtain pool m2 where put: "cl_qpool_put (mp_pool mp) x m1 = (pool, m2)" by (metis surj_pair)
  from orep_put [OF un(2), of pool m2] un put show ?thesis by (simp add: map_remove_node_def)
qed

lemma map_remove_item:
  assumes rep: "omap_rep L m mp items" and x: "x \<in> set items"
  shows "cl_map_remove_item mp x m = map_remove_node mp x m"
proof -
  have "x \<noteq> qm_nil (mp_qmap mp)"
    using x rep fmap_wf_sentinels(1) [of "as_fmap (mp_qmap mp)" m items] by (auto simp: orep_def qmap_wf_def)
  then show ?thesis by (simp add: cl_map_remove_item_def map_remove_node_def cl_map_end_def cl_qmap_end_def)
qed

lemma map_remove:
  assumes rep: "omap_rep L m mp items"
  shows "\<exists>mp' m' items'. cl_map_remove mp key m =
      Some (case contents m items key of Some obj \<Rightarrow> obj | None \<Rightarrow> 0, mp', m') \<and>
    omap_rep L m' mp' items' \<and> contents m' items' = (contents m items)(key := None) \<and>
    pool_config (mp_qc mp') = pool_config (mp_qc mp)"
proof -
  have q: "qmap_wf (mp_qmap mp) m items" using rep by (simp add: orep_def)
  have nil: "qm_nil (mp_qmap mp) \<notin> set items"
    using fmap_wf_sentinels(1) [OF q [unfolded qmap_wf_def]] by simp
  show ?thesis
  proof (cases "find (\<lambda>x. key = p_key m x) items")
    case None
    then have "contents m items key = None" by (simp add: contents_find)
    moreover from this have "(contents m items)(key := None) = contents m items" by (simp add: fun_upd_idem)
    moreover have "cl_map_remove mp key m = Some (0, mp, m)"
      using None by (simp add: cl_map_remove_def cl_qmap_remove_def qmap_get_correct [OF q] cl_qmap_end_def
          cl_qmap_remove_item_def)
    ultimately show ?thesis using rep by auto
  next
    case (Some x)
    then have x: "x \<in> set items" "p_key m x = key" "x \<noteq> qm_nil (mp_qmap mp)"
      using nil by (auto dest: find_in_set)
    from map_remove_node [OF rep x(1)] obtain mp' m' where
      rem: "map_remove_node mp x m = Some (mp', m')" "omap_rep L m' mp' (remove1 x items)" "p_object m' = p_object m"
        "p_key m' = p_key m" "pool_config (mp_qc mp') = pool_config (mp_qc mp)" by blast
    from orep_unlink [OF rep x(1)] obtain q1 m1 where
      un: "cl_qmap_remove_item (mp_qmap mp) x m = Some (q1, m1)" "p_object m1 = p_object m" by blast
    have "qm_nil q1 = qm_nil (mp_qmap mp)" using un(1) qmap_remove_item_wf [OF q x(1)] by auto
    then have "cl_map_remove mp key m = Some (p_object m x, mp', m')"
      using Some x(3) rem(1) un
      by (auto simp: cl_map_remove_def cl_qmap_remove_def qmap_get_correct [OF q] map_remove_node_def cl_qmap_end_def
          cl_qmap_obj_def split: prod.splits)
    moreover have "contents m' (remove1 x items) = (contents m items)(key := None)"
      using contents_remove1 [OF q x(1)] contents_cong [of "remove1 x items" m' m] rem(3,4) x(2) by simp
    ultimately show ?thesis using rem Some by (auto simp: contents_find)
  qed
qed

lemma map_empty:
  assumes "omap_rep L m mp items"
  shows "cl_is_qmap_empty (mp_qmap mp) \<longleftrightarrow> items = []"
proof -
  have q: "qmap_wf (mp_qmap mp) m items" and pool: "node_pool L m (mp_qc mp) 64 (map_ends mp) (set items)"
    using assms by (simp_all add: orep_def)
  from pool obtain free blocks where "pool_rep L 0 m (mp_qc mp) free (set items) blocks"
    "unat (qc_num_objects (mp_qc mp)) < 2 ^ 32" by (auto simp: node_pool_def)
  then have "length items < 2 ^ 32"
    using distinct_card [OF qmap_wf_distinct [OF q]] by (simp add: pool_rep_def)
  moreover have "qm_count (mp_qmap mp) = of_nat (length items)"
    using q by (simp add: qmap_wf_def fmap_wf_def)
  ultimately show ?thesis by (simp add: cl_is_qmap_empty_def word_unat_eq_iff unat_of_nat64)
qed

lemma qmap_ends:
  assumes "qmap_wf q m items"
  shows "cl_qmap_head q m = hd (items @ [qm_nil q])" "cl_qmap_tail q m = last (qm_nil q # items)"
  using assms qlist_at_first [of m "qm_nil q" items] qlist_at_last [of m "qm_nil q" items]
  by (simp_all add: qmap_wf_def fmap_wf_def cl_qmap_head_def cl_qmap_tail_def)

text \<open>Each turn removes the first entry, and then the last one if there is one.\<close>

lemma map_remove_all_loop:
  "omap_rep L m mp items \<Longrightarrow>
   \<exists>mp' m'. map_remove_all_loop mp m = Some (mp', m') \<and> omap_rep L m' mp' [] \<and> pool_config (mp_qc mp') = pool_config (mp_qc mp)"
proof (induction "length items" arbitrary: items mp m rule: less_induct)
  case less
  note rep = less.prems
  show ?case
  proof (cases items)
    case Nil
    with rep map_empty [OF rep] show ?thesis by (auto simp: map_remove_all_loop.simps [of mp])
  next
    case (Cons x xs)
    have "qmap_wf (mp_qmap mp) m items" using rep by (simp add: orep_def)
    from qmap_ends [OF this] Cons have head: "cl_qmap_head (mp_qmap mp) m = x" by simp
    from map_remove_node [OF rep, of x] Cons obtain mp1 m1 where one: "map_remove_node mp x m = Some (mp1, m1)"
      "omap_rep L m1 mp1 xs" "pool_config (mp_qc mp1) = pool_config (mp_qc mp)" by auto
    show ?thesis
    proof (cases xs rule: rev_cases)
      case Nil
      then have "map_remove_all_loop mp m = map_remove_all_loop mp1 m1"
        using one map_empty [OF rep] map_empty [OF one(2)] Cons head by (simp add: map_remove_all_loop.simps [of mp])
      with less.hyps [OF _ one(2)] one(3) Cons show ?thesis by auto
    next
      case (snoc ys y)
      have "qmap_wf (mp_qmap mp1) m1 xs" using one(2) by (simp add: orep_def)
      from qmap_ends [OF this] snoc have tail: "cl_qmap_tail (mp_qmap mp1) m1 = y" by simp
      from map_remove_node [OF one(2), of y] snoc obtain mp2 m2 where two: "map_remove_node mp1 y m1 = Some (mp2, m2)"
        "omap_rep L m2 mp2 (remove1 y xs)" "pool_config (mp_qc mp2) = pool_config (mp_qc mp1)" by auto
      have "map_remove_all_loop mp m = map_remove_all_loop mp2 m2"
        using one two map_empty [OF rep] map_empty [OF one(2)] Cons snoc head tail
        by (simp add: map_remove_all_loop.simps [of mp])
      moreover have "length (remove1 y xs) < length items" using Cons snoc by (simp add: length_remove1)
      ultimately show ?thesis using less.hyps [OF _ two(2)] one(3) two(3) by auto
    qed
  qed
qed

lemma map_remove_all:
  "omap_rep L m mp items \<Longrightarrow>
   \<exists>mp' m'. cl_map_remove_all mp m = Some (mp', m') \<and> omap_rep L m' mp' [] \<and> contents m' [] = Map.empty"
  using map_remove_all_loop [of L m mp items] by (auto simp: cl_map_remove_all_def contents_def)

section \<open>Initialisation\<close>

definition map_header :: "u64 set \<Rightarrow> ('m, 'w) cl_map_t \<Rightarrow> bool" where
  "map_header L mp \<longleftrightarrow>
    distinct [qm_root (mp_qmap mp), qm_nil (mp_qmap mp), ql_end (qc_free_list (mp_qc mp)), ql_end (qc_alloc_list (mp_qc mp))] \<and>
    map_ends mp \<union> pool_ends (mp_qc mp) \<subseteq> L \<and> 0 \<notin> L"

text \<open>A field other than the links is kept by the initialisation of the pool, outside the new blocks.\<close>

lemma qcpool_init_field:
  assumes heap: "heap_law os live"
    and links: "\<And>f m. F (m\<lparr>p_next := f\<rparr>) = F m" "\<And>f m. F (m\<lparr>p_prev := f\<rparr>) = F m"
    and memset: "\<And>p n m x. x \<notin> addr_range p (unat n) \<Longrightarrow> F (os_memset0 os p n m) x = F m x"
    and x: "x \<in> live w"
    and run: "cl_qcpool_init os p min_size 0 grow_size [obj_size] 1 None None m w = Some (CL_SUCCESS, p', m', w')"
  shows "F m' x = F m x"
proof -
  obtain sp w1 where mal: "os_malloc os ((sizeof_size + sizeof_pointer) * ucast (1 :: u32)) w = (sp, w1)" by (metis surj_pair)
  define m0 where "m0 = os_memset0 os sp ((sizeof_size + sizeof_pointer) * ucast (1 :: u32)) (snd (cl_qcpool_construct p m))"
  obtain l2 m1 where l2: "cl_qlist_init (qc_alloc_list p) m0 = (l2, m1)" by (metis surj_pair)
  obtain l1 m2 where l1: "cl_qlist_init (qc_free_list p) m1 = (l1, m2)" by (metis surj_pair)
  define p2 where "p2 = initial_pool p sp 0 grow_size [obj_size] 1 None None"
  have ok: "\<not> bad_setting min_size 0 1 None" by (simp add: bad_setting_def)
  note steps = init_steps [OF ok mal m0_def l2 l1 p2_def]
  have sp: "sp \<noteq> 0" using steps run by auto
  have "F m2 = F m0"
    using l1 l2 by (auto simp: cl_qlist_init_def cl_qlist_reset_def links)
  moreover have "F (snd (cl_qcpool_construct p m)) = F m"
    by (simp add: cl_qcpool_construct_def clear_list_end_def links)
  moreover have fresh: "addr_range sp (unat ((sizeof_size + sizeof_pointer) * (ucast (1 :: u32) :: size_t))) \<inter> live w = {}"
    and live: "live w \<subseteq> live w1"
    using heap mal sp unfolding heap_law_def by (metis (full_types), metis (full_types) Un_upper1)
  ultimately have two: "F m2 x = F m x" using memset [of x sp] x unfolding m0_def by (metis IntI empty_iff)
  show ?thesis
  proof (cases "min_size = 0")
    case True
    with steps run sp two show ?thesis by simp
  next
    case False
    obtain st p3 m3 w3 where grow: "cl_qcpool_grow os p2 min_size m2 w1 = (st, p3, m3, w3)" by (metis prod_cases4)
    have "st = CL_SUCCESS \<and> m3 = m'"
      using steps run sp False grow by (cases "st = CL_SUCCESS") (auto split: bind_splits)
    moreover have "F (cl_primitive_insert y z m) = F m" for y z m
      by (simp add: cl_primitive_insert_def Let_def links)
    ultimately show ?thesis
      using qcpool_grow_field [where F = F and x = x, OF heap _ memset _ _ grow] two x live by (auto simp: p2_def initial_pool_def)
  qed
qed

lemma map_grow_size_bound: "unat (map_grow_size n) < 2 ^ 29"
proof -
  have "unat (drop_bit 3 n) < 2 ^ 29"
    using unsigned_less [of n, where 'a = nat] by (simp add: unat_drop_bit_eq drop_bit_eq_div unat_div)
  then show ?thesis by (simp add: map_grow_size_def Let_def MAP_GROW_SIZE_def)
qed

lemma map_init:
  assumes heap: "heap_law os live" "map_law os" and hdr: "map_header (live w) mp"
  shows "\<exists>st mp' m' w'. cl_map_init os mp min_items m w = Some (st, mp', m', w') \<and>
    (if st = CL_SUCCESS
     then omap_rep (live w') m' mp' [] \<and> live w \<subseteq> live w' \<and> qc_num_objects (mp_qc mp') = ucast min_items \<and>
       qc_grow_size (mp_qc mp') = ucast (map_grow_size min_items)
     else \<not> cl_is_map_inited mp')"
proof -
  let ?p = "mp_qc mp" and ?g = "ucast (map_grow_size min_items) :: size_t" and ?n = "ucast min_items :: size_t"
  obtain q m1 where init: "cl_qmap_init 0 (mp_qmap mp) m = (q, m1)" by (metis surj_pair)
  have roots: "qm_root (mp_qmap mp) \<noteq> qm_nil (mp_qmap mp)" using hdr by (simp add: map_header_def)
  have q: "qmap_wf q m1 []" by (rule qmap_init_wf [OF roots init])
  have area: "qmap_area q [] = map_ends mp"
    using init by (auto simp: cl_qmap_init_def cl_qmap_remove_all_def Let_def qmap_area_def map_ends_def)
  have ends: "ql_end (qc_free_list ?p) \<noteq> ql_end (qc_alloc_list ?p)" "pool_ends ?p \<union> map_ends mp \<subseteq> live w" "0 \<notin> live w"
    "map_ends mp \<inter> pool_ends ?p = {}"
    using hdr by (auto simp: map_header_def pool_ends_def map_ends_def)
  have sz: "(64 :: size_t) = ROUNDUP 64 8" "(0 :: size_t) < 64" "(64 :: size_t) < 2 ^ 16" by (simp_all add: ROUNDUP_def)
  have g: "unat ?g < 2 ^ 32" using map_grow_size_bound [of min_items] by (simp add: unsigned_ucast_eq take_bit_nat_eq_self)
  have min: "unat ?n < 2 ^ 32" using unsigned_less [of min_items, where 'a = nat] by (simp add: unsigned_ucast_eq take_bit_nat_eq_self)
  from node_pool_init [OF heap(1) ends sz min g, of m1] obtain st p' m' w' where
    run: "cl_qcpool_init os ?p ?n 0 ?g [64] 1 None None m1 w = Some (st, p', m', w')"
    and res: "if st = CL_SUCCESS
     then node_pool (live w') m' p' 64 (map_ends mp) {} \<and> live w \<subseteq> live w' \<and> links_same (- map_ends mp) m1 m' \<and>
       qc_num_objects p' = ?n \<and> qc_grow_size p' = ?g
     else \<not> cl_is_qcpool_inited p'"
    by blast
  have eq: "cl_map_init os mp min_items m w = Some (st, mp\<lparr>mp_qmap := q, mp_pool :=
      (mp_pool mp)\<lparr>qp_pfn_init := None, qp_pfn_dtor := None, qp_qcpool := p'\<rparr>\<rparr>, m', w')"
    using init run by (simp add: cl_map_init_def cl_qpool_init_def sizeof_cl_map_obj_def)
  show ?thesis
  proof (cases "st = CL_SUCCESS")
    case False
    with eq res show ?thesis by (simp add: cl_is_map_inited_def cl_is_qpool_inited_def)
  next
    case True
    note field = qcpool_init_field [OF heap(1) _ _ _ _ run [unfolded True]]
    have "agree_on (map_ends mp) m1 m'"
      unfolding agree_on_def
    proof (intro ballI conjI)
      fix x assume "x \<in> map_ends mp"
      then have x: "x \<in> live w" and l: "p_next m' x = p_next m1 x" "p_prev m' x = p_prev m1 x"
        using ends(2) res True by (auto simp: links_same_def)
      show "p_next m' x = p_next m1 x" "p_prev m' x = p_prev m1 x" by (rule l)+
      show "p_left m' x = p_left m1 x" by (rule field [OF _ _ _ x]) (use heap(2) in \<open>simp_all add: map_law_def agree_on_def\<close>)
      show "p_right m' x = p_right m1 x" by (rule field [OF _ _ _ x]) (use heap(2) in \<open>simp_all add: map_law_def agree_on_def\<close>)
      show "p_up m' x = p_up m1 x" by (rule field [OF _ _ _ x]) (use heap(2) in \<open>simp_all add: map_law_def agree_on_def\<close>)
      show "color m' x = color m1 x" by (rule field [OF _ _ _ x]) (use heap(2) in \<open>simp_all add: map_law_def agree_on_def\<close>)
      show "p_key m' x = p_key m1 x" by (rule field [OF _ _ _ x]) (use heap(2) in \<open>simp_all add: map_law_def agree_on_def\<close>)
    qed
    with qmap_wf_cong [OF q] area have "qmap_wf q m' []" by simp
    moreover have "map_ends (mp\<lparr>mp_qmap := q, mp_pool := x\<rparr>) = map_ends mp" for x
      using init by (auto simp: cl_qmap_init_def cl_qmap_remove_all_def Let_def map_ends_def)
    ultimately show ?thesis using True res eq by (simp add: orep_def)
  qed
qed

end
