(* ===== verification/Fdb_Filters.thy ===== *)
theory Fdb_Filters
  imports Object_Pool Qmap_Refine
begin

text \<open>
  The filters of the control learning library (\<^verbatim>\<open>lib_ctrl_learn_filters.c\<close>), which keep every entry of the
  forwarding database in three lists, by VLAN, by port, and by port and VLAN, so that the entries of a
  port or VLAN can be enumerated; with the data that they share with the database. The heads of the VLAN
  lists are an array, the others come from a pool that does not grow and are found through a quick map.

  The static variables of this file and of \<^verbatim>\<open>lib_ctrl_learn_uc_db.c\<close> are the record \<open>fdb_state\<close>. An address is a
  64-bit word and \<open>0\<close> is the null pointer; a pointer to a variable that receives a result is an option,
  \<open>None\<close> when it is null. A function's result is an option too: \<open>None\<close> stands for a loop that does
  not end and for an access outside an array. Log output and the log callback are left out.
\<close>

unbundle bit_operations_syntax

section \<open>Data\<close>

record ether_addr =
  octet0 :: u8
  octet1 :: u8
  octet2 :: u8
  octet3 :: u8
  octet4 :: u8
  octet5 :: u8

text \<open>
  \<^verbatim>\<open>struct oes_fdb_uc_mac_addr_params\<close> belongs to an interface that is not in the repository; these are the
  fields the library uses. Its size is the parameter \<open>sz\<close> of the definitions. A variable of an
  enumeration type can hold a value that is no enumerator: \<open>FDB_UC_OTHER\<close>.
\<close>

record oes_fdb_uc_mac_addr_params =
  mac_addr :: ether_addr
  vid :: u16
  log_port :: u64
  oes_entry_type :: u32

datatype fdb_uc_mac_entry_type = FDB_UC_STATIC | FDB_UC_REMOTE | FDB_UC_NONAGEABLE | FDB_UC_AGEABLE | FDB_UC_OTHER u32

text \<open>
  The memory. The fields of \<^verbatim>\<open>fdb_uc_mac_entry_t\<close> are indexed by the address of the entry, the map item in it
  has the same address, and its three list items are at the offsets below. The list header in a
  \<^verbatim>\<open>struct fdb_fltr_entry\<close> is its count and state, indexed by the address of the filter entry,
  and its end item.
\<close>

record fdb_mem = "u64 pool_mem" +
  mac_params :: "u64 \<Rightarrow> oes_fdb_uc_mac_addr_params"
  entry_cookie :: "u64 \<Rightarrow> u64"
  entry_type :: "u64 \<Rightarrow> fdb_uc_mac_entry_type"
  head_count :: "u64 \<Rightarrow> size_t"
  head_state :: "u64 \<Rightarrow> cl_state_t"

definition sizeof_cl_map_item :: size_t where "sizeof_cl_map_item = 56"

definition cookie_offset :: "size_t \<Rightarrow> u64" where
  "cookie_offset sz = ROUNDUP (sizeof_cl_map_item + sz) 8"

definition vid_fltr_entry :: "size_t \<Rightarrow> u64" where "vid_fltr_entry sz = cookie_offset sz + 16"
definition port_fltr_entry :: "size_t \<Rightarrow> u64" where "port_fltr_entry sz = cookie_offset sz + 32"
definition vid_port_fltr_entry :: "size_t \<Rightarrow> u64" where "vid_port_fltr_entry sz = cookie_offset sz + 48"
definition sizeof_fdb_uc_mac_entry :: "size_t \<Rightarrow> size_t" where "sizeof_fdb_uc_mac_entry sz = cookie_offset sz + 64"

definition fltr_head_offset :: u64 where "fltr_head_offset = 56"
definition sizeof_fdb_fltr_entry :: size_t where "sizeof_fdb_fltr_entry = 88"

record 'w fdb_state =
  fdb_map :: "u64 cl_qmap_t"
  main_db_pool :: "(fdb_mem, 'w) cl_pool_t"
  fdb_initiated :: bool
  uc_db_verbosity :: int
  fbd_filter_map :: "u64 cl_qmap_t"
  fdb_fltr_pool :: "(fdb_mem, 'w) cl_pool_t"
  fdb_vlan_list :: "u64 cl_qlist_t list"
  filters_initiated :: bool
  filter_verbosity :: int

definition MIN_FDB_ENTRIES :: size_t where "MIN_FDB_ENTRIES = 49152"
definition MAX_FDB_ENTRIES :: size_t where "MAX_FDB_ENTRIES = 49152"
definition MAX_PORT_ENTRIES :: size_t where "MAX_PORT_ENTRIES = 200"
definition MAX_FILTER_ENTRIES :: size_t where "MAX_FILTER_ENTRIES = MAX_FDB_ENTRIES + MAX_PORT_ENTRIES"
definition MIN_FILTER_ENTRIES :: size_t where "MIN_FILTER_ENTRIES = MAX_FILTER_ENTRIES"
definition MAX_VLAN_ENTRIES :: nat where "MAX_VLAN_ENTRIES = 4096"

record fdb_uc_key_filter =
  filter_by_vid :: bool
  filter_vid :: u16
  filter_by_log_port :: bool
  filter_log_port :: u64

section \<open>Keys\<close>

definition MAC_TO_U64 :: "ether_addr \<Rightarrow> u64" where
  "MAC_TO_U64 a =
    push_bit 40 (ucast (octet0 a)) OR push_bit 32 (ucast (octet1 a)) OR push_bit 24 (ucast (octet2 a)) OR
    push_bit 16 (ucast (octet3 a)) OR push_bit 8 (ucast (octet4 a)) OR ucast (octet5 a)"

definition MAC_EQUAL :: "ether_addr \<Rightarrow> ether_addr \<Rightarrow> bool" where
  "MAC_EQUAL mac1 mac2 \<longleftrightarrow> MAC_TO_U64 mac1 = MAC_TO_U64 mac2"

definition FDB_UC_CONVERT_MAC_VLAN_TO_KEY :: "ether_addr \<Rightarrow> u16 \<Rightarrow> u64" where
  "FDB_UC_CONVERT_MAC_VLAN_TO_KEY mac v = MAC_TO_U64 mac OR push_bit 48 (ucast v)"

definition BUILD_PORT_KEY :: "u64 \<Rightarrow> u64" where
  "BUILD_PORT_KEY port = port OR 0x1000000000000"

definition BUILD_PORT_VID_KEY :: "u64 \<Rightarrow> u16 \<Rightarrow> u64" where
  "BUILD_PORT_VID_KEY port v = port OR push_bit 32 (ucast v) OR 0x2000000000000"

section \<open>Structures in memory\<close>

definition clear_list_item :: "u64 \<Rightarrow> fdb_mem \<Rightarrow> fdb_mem" where
  "clear_list_item x m = m\<lparr>p_next := (p_next m)(x := 0), p_prev := (p_prev m)(x := 0)\<rparr>"

definition clear_params :: oes_fdb_uc_mac_addr_params where
  "clear_params = \<lparr>mac_addr = \<lparr>octet0 = 0, octet1 = 0, octet2 = 0, octet3 = 0, octet4 = 0, octet5 = 0\<rparr>,
    vid = 0, log_port = 0, oes_entry_type = 0\<rparr>"

text \<open>\<^verbatim>\<open>MEM_CLR_P\<close> of an entry and of a filter entry (whose list state is set right after).\<close>

definition clear_mac_entry :: "size_t \<Rightarrow> u64 \<Rightarrow> fdb_mem \<Rightarrow> fdb_mem" where
  "clear_mac_entry sz p m =
    (let m = fmap_clear_item 0 0 p m;
         m = m\<lparr>mac_params := (mac_params m)(p := clear_params), entry_cookie := (entry_cookie m)(p := 0),
               entry_type := (entry_type m)(p := FDB_UC_STATIC)\<rparr>
     in clear_list_item (p + vid_port_fltr_entry sz)
          (clear_list_item (p + port_fltr_entry sz) (clear_list_item (p + vid_fltr_entry sz) m)))"

definition clear_fltr_entry :: "u64 \<Rightarrow> fdb_mem \<Rightarrow> fdb_mem" where
  "clear_fltr_entry f m =
    (let m = fmap_clear_item 0 0 f m;
         m = clear_list_item (f + fltr_head_offset) m
     in m\<lparr>head_count := (head_count m)(f := 0)\<rparr>)"

definition fltr_head :: "u64 \<Rightarrow> fdb_mem \<Rightarrow> u64 cl_qlist_t" where
  "fltr_head f m = \<lparr>ql_end = f + fltr_head_offset, ql_count = head_count m f, ql_state = head_state m f\<rparr>"

definition set_fltr_head :: "u64 \<Rightarrow> u64 cl_qlist_t \<Rightarrow> fdb_mem \<Rightarrow> fdb_mem" where
  "set_fltr_head f l m =
    m\<lparr>head_count := (head_count m)(f := ql_count l), head_state := (head_state m)(f := ql_state l)\<rparr>"

section \<open>The filters\<close>

type_synonym 'w fdb_result = "(int \<times> 'w fdb_state \<times> fdb_mem) option"
type_synonym 'w fdb_heap = "(fdb_mem, 'w) heap_os"

fun init_lists_loop :: "u64 cl_qlist_t list \<Rightarrow> fdb_mem \<Rightarrow> u64 cl_qlist_t list \<times> fdb_mem" where
  "init_lists_loop [] m = ([], m)"
| "init_lists_loop (l # ls) m =
    (let (l, m) = cl_qlist_init l m; (ls, m) = init_lists_loop ls m in (l # ls, m))"

definition fdb_uc_db_filter_init ::
  "'w fdb_heap \<Rightarrow> 'w fdb_state \<Rightarrow> fdb_mem \<Rightarrow> 'w \<Rightarrow> (int \<times> 'w fdb_state \<times> fdb_mem \<times> 'w) option" where
  "fdb_uc_db_filter_init os s m w =
    (if filters_initiated s then Some (0, s, m, w)
     else
       let (ls, m) = init_lists_loop (fdb_vlan_list s) m;
           (q, m) = cl_qmap_init 0 (fbd_filter_map s) m;
           s = s\<lparr>fdb_vlan_list := ls, fbd_filter_map := q\<rparr>
       in Option.bind
            (cl_pool_init os (fdb_fltr_pool s) MIN_FILTER_ENTRIES MAX_FILTER_ENTRIES 0 sizeof_fdb_fltr_entry
               None None m w)
            (\<lambda>(status, pool, m, w).
              let s = s\<lparr>fdb_fltr_pool := pool\<rparr>
              in if status \<noteq> CL_SUCCESS then Some (- ENOMEM, s, m, w)
                 else Some (0, s\<lparr>filters_initiated := True\<rparr>, m, w)))"

definition fdb_uc_db_filter_log_verbosity_set :: "int \<Rightarrow> 'w fdb_state \<Rightarrow> int \<times> 'w fdb_state" where
  "fdb_uc_db_filter_log_verbosity_set level s = (0, s\<lparr>filter_verbosity := level\<rparr>)"

definition fdb_uc_db_filter_get_first_record :: "'w fdb_state \<Rightarrow> fdb_mem \<Rightarrow> int \<times> u64" where
  "fdb_uc_db_filter_get_first_record s m =
    (if \<not> filters_initiated s then (- EPERM, 0)
     else
       let map_item_p = cl_qmap_head (fbd_filter_map s) m
       in if map_item_p \<noteq> cl_qmap_end (fbd_filter_map s)
          then if map_item_p \<noteq> cl_qmap_end (fbd_filter_map s) then (0, map_item_p) else (0, 0)
          else (0, 0))"

partial_function (option) filter_destroy_loop ::
  "'w fdb_state \<Rightarrow> u64 \<Rightarrow> fdb_mem \<Rightarrow> 'w fdb_result" where
  "filter_destroy_loop s fltr_entry m =
    (if fltr_entry \<noteq> 0
     then Option.bind (cl_qmap_remove_item (fbd_filter_map s) fltr_entry m) (\<lambda>(q, m).
       let (pool, m) = cl_pool_put (fdb_fltr_pool s) fltr_entry m;
           s = s\<lparr>fbd_filter_map := q, fdb_fltr_pool := pool\<rparr>;
           (err, fltr_entry) = fdb_uc_db_filter_get_first_record s m
       in if err \<noteq> 0 then Some (err, s, m) else filter_destroy_loop s fltr_entry m)
     else Some (0, s, m))"

definition fdb_uc_db_filter_destroy :: "'w fdb_state \<Rightarrow> fdb_mem \<Rightarrow> 'w fdb_result" where
  "fdb_uc_db_filter_destroy s m =
    (if \<not> filters_initiated s then Some (- EPERM, s, m)
     else
       let (err, fltr_entry) = fdb_uc_db_filter_get_first_record s m
       in if err \<noteq> 0 then Some (err, s, m) else filter_destroy_loop s fltr_entry m)"

definition fdb_uc_db_filter_deinit ::
  "'w fdb_heap \<Rightarrow> 'w fdb_state \<Rightarrow> fdb_mem \<Rightarrow> 'w \<Rightarrow> (int \<times> 'w fdb_state \<times> fdb_mem \<times> 'w) option" where
  "fdb_uc_db_filter_deinit os s m w =
    (if \<not> filters_initiated s then Some (- EPERM, s, m, w)
     else Option.bind (fdb_uc_db_filter_destroy s m) (\<lambda>(err, s, m).
       if err \<noteq> 0 then Some (err, s, m, w)
       else Option.bind (cl_pool_destroy os (fdb_fltr_pool s) m w) (\<lambda>(pool, m, w).
         Some (0, s\<lparr>fdb_fltr_pool := pool, filters_initiated := False\<rparr>, m, w))))"

text \<open>The count of the list heads in the map is not kept.\<close>

definition link_to_head :: "u64 \<Rightarrow> u64 \<Rightarrow> fdb_mem \<Rightarrow> fdb_mem" where
  "link_to_head fltr_item_p item m =
    (let (l, m) = cl_qlist_insert_tail (fltr_head fltr_item_p m) item m
     in set_fltr_head fltr_item_p (l\<lparr>ql_count := 0\<rparr>) m)"

definition link_entry_to_fltr_list ::
  "'w fdb_heap \<Rightarrow> 'w fdb_state \<Rightarrow> u64 \<Rightarrow> u64 \<Rightarrow> u64 \<Rightarrow> fdb_mem \<Rightarrow> 'w \<Rightarrow>
   (int \<times> 'w fdb_state \<times> fdb_mem \<times> 'w) option" where
  "link_entry_to_fltr_list os s mac_entry map_key parent_offset m w =
    (if \<not> filters_initiated s then Some (- EPERM, s, m, w)
     else Option.bind (cl_qmap_get (fbd_filter_map s) map_key m) (\<lambda>map_item_p.
       if map_item_p \<noteq> cl_qmap_end (fbd_filter_map s)
       then if map_item_p = 0 then Some (ENOENT, s, m, w)
            else Some (0, s, link_to_head map_item_p (mac_entry + parent_offset) m, w)
       else
         let (fltr_item_p, pool, m, w) = cl_pool_get os (fdb_fltr_pool s) m w;
             s = s\<lparr>fdb_fltr_pool := pool\<rparr>
         in if fltr_item_p = 0 then Some (ENOMEM, s, m, w)
            else
              let m = clear_fltr_entry fltr_item_p m;
                  (l, m) = cl_qlist_init (fltr_head fltr_item_p m) m;
                  m = set_fltr_head fltr_item_p l m
              in Option.bind (cl_qmap_insert (fbd_filter_map s) map_key fltr_item_p m) (\<lambda>(_, q, m).
                   Some (0, s\<lparr>fbd_filter_map := q\<rparr>, link_to_head fltr_item_p (mac_entry + parent_offset) m, w))))"

definition delink_entry_from_fltr_list ::
  "'w fdb_state \<Rightarrow> u64 \<Rightarrow> u64 \<Rightarrow> u64 \<Rightarrow> fdb_mem \<Rightarrow> 'w fdb_result" where
  "delink_entry_from_fltr_list s mac_entry map_key parent_offset m =
    (let list_item = mac_entry + parent_offset
     in if \<not> filters_initiated s then Some (- EPERM, s, m)
        else
          let last_deleted = (p_prev m list_item \<noteq> 0 \<and> p_next m list_item = p_prev m list_item)
          in if p_next m list_item \<noteq> 0 \<and> p_prev m list_item \<noteq> 0
             then
               let m = cl_primitive_remove list_item m;
                   m = clear_list_item list_item m
               in if last_deleted
                  then Option.bind (cl_qmap_get (fbd_filter_map s) map_key m) (\<lambda>map_item_p.
                    if map_item_p \<noteq> cl_qmap_end (fbd_filter_map s)
                    then Option.bind (cl_qmap_remove_item (fbd_filter_map s) map_item_p m) (\<lambda>(q, m).
                      let (pool, m) = cl_pool_put (fdb_fltr_pool s) map_item_p m
                      in Some (0, s\<lparr>fbd_filter_map := q, fdb_fltr_pool := pool\<rparr>, m))
                    else Some (- EPERM, s, m))
                  else Some (0, s, m)
             else Some (- EPERM, s, m))"

definition fdb_uc_db_filter_add_entry ::
  "'w fdb_heap \<Rightarrow> size_t \<Rightarrow> 'w fdb_state \<Rightarrow> u64 \<Rightarrow> fdb_mem \<Rightarrow> 'w \<Rightarrow>
   (int \<times> 'w fdb_state \<times> fdb_mem \<times> 'w) option" where
  "fdb_uc_db_filter_add_entry os sz s mac_entry m w =
    (if \<not> filters_initiated s then Some (- EPERM, s, m, w)
     else if mac_entry = 0 then Some (- ENOENT, s, m, w)
     else
       let v = vid (mac_params m mac_entry); port = log_port (mac_params m mac_entry)
       in if unat v \<ge> MAX_VLAN_ENTRIES then Some (- EPERM, s, m, w)
          else
            let (l, m) = cl_qlist_insert_tail (fdb_vlan_list s ! unat v) (mac_entry + vid_fltr_entry sz) m;
                s = s\<lparr>fdb_vlan_list := (fdb_vlan_list s)[unat v := l]\<rparr>
            in Option.bind (link_entry_to_fltr_list os s mac_entry (BUILD_PORT_KEY port) (port_fltr_entry sz) m w)
                 (\<lambda>(err, s, m, w).
                 if err \<noteq> 0 then Some (err, s, m, w)
                 else link_entry_to_fltr_list os s mac_entry (BUILD_PORT_VID_KEY port v) (vid_port_fltr_entry sz) m w))"

text \<open>The old entry is a copy of which only the parameters are set.\<close>

definition fdb_uc_db_filter_modified_entry ::
  "'w fdb_heap \<Rightarrow> size_t \<Rightarrow> 'w fdb_state \<Rightarrow> oes_fdb_uc_mac_addr_params option \<Rightarrow> u64 \<Rightarrow> fdb_mem \<Rightarrow> 'w \<Rightarrow>
   (int \<times> 'w fdb_state \<times> fdb_mem \<times> 'w) option" where
  "fdb_uc_db_filter_modified_entry os sz s old_mac_entry_p new_mac_entry_p m w =
    (if \<not> filters_initiated s then Some (- EPERM, s, m, w)
     else case old_mac_entry_p of
       None \<Rightarrow> Some (- ENOENT, s, m, w)
     | Some old_params \<Rightarrow>
       if new_mac_entry_p = 0 then Some (- ENOENT, s, m, w)
       else
         let old_log_port = log_port old_params;
             new_log_port = log_port (mac_params m new_mac_entry_p);
             v = vid (mac_params m new_mac_entry_p)
         in if old_log_port \<noteq> new_log_port
            then
              Option.bind (delink_entry_from_fltr_list s new_mac_entry_p (BUILD_PORT_KEY old_log_port)
                (port_fltr_entry sz) m) (\<lambda>(err, s, m).
              if err \<noteq> 0 then Some (err, s, m, w)
              else Option.bind (link_entry_to_fltr_list os s new_mac_entry_p (BUILD_PORT_KEY new_log_port)
                (port_fltr_entry sz) m w) (\<lambda>(err, s, m, w).
              if err \<noteq> 0 then Some (err, s, m, w)
              else Option.bind (delink_entry_from_fltr_list s new_mac_entry_p (BUILD_PORT_VID_KEY old_log_port v)
                (vid_port_fltr_entry sz) m) (\<lambda>(err, s, m).
              if err \<noteq> 0 then Some (err, s, m, w)
              else link_entry_to_fltr_list os s new_mac_entry_p (BUILD_PORT_VID_KEY new_log_port v)
                (vid_port_fltr_entry sz) m w)))
            else Some (0, s, m, w))"

definition fdb_uc_db_filter_delete_entry ::
  "size_t \<Rightarrow> 'w fdb_state \<Rightarrow> u64 \<Rightarrow> fdb_mem \<Rightarrow> 'w fdb_result" where
  "fdb_uc_db_filter_delete_entry sz s mac_entry m =
    (if \<not> filters_initiated s then Some (- EPERM, s, m)
     else
       let item = mac_entry + vid_fltr_entry sz; v = unat (vid (mac_params m mac_entry))
       in Option.bind
            (if p_next m item \<noteq> 0 \<and> p_prev m item \<noteq> 0
             then if v < length (fdb_vlan_list s)
                  then let (l, m) = cl_qlist_remove_item (fdb_vlan_list s ! v) item m
                       in Some (s\<lparr>fdb_vlan_list := (fdb_vlan_list s)[v := l]\<rparr>, clear_list_item item m)
                  else None
             else Some (s, m))
            (\<lambda>(s, m).
              Option.bind (delink_entry_from_fltr_list s mac_entry
                (BUILD_PORT_KEY (log_port (mac_params m mac_entry))) (port_fltr_entry sz) m) (\<lambda>(err, s, m).
              if err \<noteq> 0 then Some (err, s, m)
              else delink_entry_from_fltr_list s mac_entry
                (BUILD_PORT_VID_KEY (log_port (mac_params m mac_entry)) (vid (mac_params m mac_entry)))
                (vid_port_fltr_entry sz) m)))"

subsection \<open>Enumeration\<close>

text \<open>
  The results are the error, the list cookie (the end item of the list, behind the first entry) and the
  entry; a variable that is not set keeps its value.
\<close>

definition get_first_in_map ::
  "'w fdb_state \<Rightarrow> u64 \<Rightarrow> u64 \<Rightarrow> fdb_mem \<Rightarrow> (int \<times> u64 option \<times> u64 option) option" where
  "get_first_in_map s map_key parent_offset m =
    Option.bind (cl_qmap_get (fbd_filter_map s) map_key m) (\<lambda>map_item_p.
      if map_item_p \<noteq> cl_qmap_end (fbd_filter_map s)
      then let head = cl_qlist_head (fltr_head map_item_p m) m
           in Some (0, Some (p_prev m head), Some (head - parent_offset))
      else Some (0, Some 0, Some 0))"

definition fdb_uc_db_filter_get_first_entry ::
  "size_t \<Rightarrow> 'w fdb_state \<Rightarrow> fdb_uc_key_filter option \<Rightarrow> u64 option \<Rightarrow> u64 option \<Rightarrow> fdb_mem \<Rightarrow>
   (int \<times> u64 option \<times> u64 option) option" where
  "fdb_uc_db_filter_get_first_entry sz s fltr list_cookie mac_item_pp m =
    (if \<not> filters_initiated s then Some (- EPERM, list_cookie, mac_item_pp)
     else if list_cookie = None then Some (ENOENT, list_cookie, mac_item_pp)
     else if mac_item_pp = None then Some (ENOENT, list_cookie, mac_item_pp)
     else case fltr of
       None \<Rightarrow> Some (ENOENT, list_cookie, mac_item_pp)
     | Some f \<Rightarrow>
       if filter_by_log_port f \<and> filter_by_vid f
       then get_first_in_map s (BUILD_PORT_VID_KEY (filter_log_port f) (filter_vid f)) (vid_port_fltr_entry sz) m
       else if filter_by_log_port f
       then get_first_in_map s (BUILD_PORT_KEY (filter_log_port f)) (port_fltr_entry sz) m
       else if filter_by_vid f
       then if unat (filter_vid f) < length (fdb_vlan_list s)
            then
              let l = fdb_vlan_list s ! unat (filter_vid f)
              in if cl_is_qlist_empty l then Some (0, Some 0, Some 0)
                 else let head = cl_qlist_head l m
                      in Some (0, Some (p_prev m head), Some (head - vid_fltr_entry sz))
            else None
       else Some (EINVAL, Some 0, mac_item_pp))"

definition fdb_uc_db_filter_get_next_entry ::
  "size_t \<Rightarrow> 'w fdb_state \<Rightarrow> fdb_uc_key_filter option \<Rightarrow> u64 \<Rightarrow> u64 \<Rightarrow> u64 \<Rightarrow> fdb_mem \<Rightarrow> int \<times> u64" where
  "fdb_uc_db_filter_get_next_entry sz s fltr list_cookie mac_item_p mac_item_pp m =
    (if \<not> filters_initiated s then (- EPERM, mac_item_pp)
     else case fltr of
       None \<Rightarrow> (- ENOENT, mac_item_pp)
     | Some f \<Rightarrow>
       if mac_item_p = 0 then (- ENOENT, mac_item_pp)
       else if list_cookie = 0 then (- ENOENT, mac_item_pp)
       else if \<not> filter_by_log_port f \<and> \<not> filter_by_vid f then (- EINVAL, mac_item_pp)
       else
         let parent_offset = (if filter_by_log_port f \<and> filter_by_vid f then vid_port_fltr_entry sz
                              else if filter_by_log_port f then port_fltr_entry sz else vid_fltr_entry sz);
             cur_list_item = mac_item_p + parent_offset
         in if cur_list_item = 0 then (- EPERM, mac_item_pp)
            else
              let next_list_item = cl_qlist_next cur_list_item m
              in if next_list_item = list_cookie then (0, 0) else (0, next_list_item - parent_offset))"

subsection \<open>Numbers of entries\<close>

definition fdb_uc_db_filter_get_number_of_vid_entries :: "'w fdb_state \<Rightarrow> u16 \<Rightarrow> u32 \<Rightarrow> int \<times> u32" where
  "fdb_uc_db_filter_get_number_of_vid_entries s v count =
    (if \<not> filters_initiated s then (- EPERM, count)
     else if unat v \<ge> MAX_VLAN_ENTRIES then (0, 0)
     else (0, ucast (ql_count (fdb_vlan_list s ! unat v))))"

partial_function (option) count_entries_loop :: "u64 \<Rightarrow> u64 \<Rightarrow> u32 \<Rightarrow> fdb_mem \<Rightarrow> u32 option" where
  "count_entries_loop itor end_item count m =
    (if itor \<noteq> end_item then count_entries_loop (cl_qlist_next itor m) end_item (count + 1) m else Some count)"

definition number_in_map :: "'w fdb_state \<Rightarrow> u64 \<Rightarrow> u32 \<Rightarrow> fdb_mem \<Rightarrow> (int \<times> u32) option" where
  "number_in_map s map_key count m =
    (if \<not> filters_initiated s then Some (- EPERM, count)
     else Option.bind (cl_qmap_get (fbd_filter_map s) map_key m) (\<lambda>map_item_p.
       if map_item_p \<noteq> cl_qmap_end (fbd_filter_map s)
       then
         let l = fltr_head map_item_p m
         in Option.bind (count_entries_loop (cl_qlist_head l m) (ql_end l) 0 m) (\<lambda>count. Some (0, count))
       else Some (0, 0)))"

definition fdb_uc_db_filter_get_number_of_port_entries ::
  "'w fdb_state \<Rightarrow> u64 \<Rightarrow> u32 \<Rightarrow> fdb_mem \<Rightarrow> (int \<times> u32) option" where
  "fdb_uc_db_filter_get_number_of_port_entries s port count m = number_in_map s (BUILD_PORT_KEY port) count m"

definition fdb_uc_db_filter_get_number_of_port_vid_entries ::
  "'w fdb_state \<Rightarrow> u64 \<Rightarrow> u16 \<Rightarrow> u32 \<Rightarrow> fdb_mem \<Rightarrow> (int \<times> u32) option" where
  "fdb_uc_db_filter_get_number_of_port_vid_entries s port v count m =
    number_in_map s (BUILD_PORT_VID_KEY port v) count m"

text \<open>The pointer is written to before it is tested: a null pointer is an error of the program.\<close>

definition fdb_uc_db_filter_get_free_pool_count :: "'w fdb_state \<Rightarrow> u32 option \<Rightarrow> (int \<times> u32) option" where
  "fdb_uc_db_filter_get_free_pool_count s count =
    (case count of
       None \<Rightarrow> None
     | Some _ \<Rightarrow> if \<not> filters_initiated s then Some (- EPERM, 0)
               else Some (0, ucast (cl_pool_count (fdb_fltr_pool s))))"

end
