(* ===== verification/Fdb.thy ===== *)
theory Fdb
  imports Fdb_Filters
begin

text \<open>
  The unicast forwarding database of the control learning library (\<^verbatim>\<open>lib_ctrl_learn_uc_db.c\<close>): a quick map from
  MAC address and VLAN to entries, which come from a pool that does not grow. Every change keeps
  the filters up to date.
\<close>

section \<open>Start and end\<close>

definition fdb_uc_db_init ::
  "'w fdb_heap \<Rightarrow> size_t \<Rightarrow> 'w fdb_state \<Rightarrow> fdb_mem \<Rightarrow> 'w \<Rightarrow> (int \<times> 'w fdb_state \<times> fdb_mem \<times> 'w) option" where
  "fdb_uc_db_init os sz s m w =
    (if fdb_initiated s then Some (0, s, m, w)
     else
       let (q, m) = cl_qmap_init 0 (fdb_map s) m;
           (pool, m) = cl_pool_construct (main_db_pool s) m;
           s = s\<lparr>fdb_map := q, main_db_pool := pool\<rparr>
       in Option.bind
            (cl_pool_init os (main_db_pool s) MIN_FDB_ENTRIES MAX_FDB_ENTRIES 0 (sizeof_fdb_uc_mac_entry sz)
               None None m w)
            (\<lambda>(status, pool, m, w).
              let s = s\<lparr>main_db_pool := pool\<rparr>
              in if status \<noteq> CL_SUCCESS then Some (- EPERM, s, m, w)
                 else Option.bind (fdb_uc_db_filter_init os s m w) (\<lambda>(err, s, m, w).
                   if err \<noteq> 0 then Some (- EPERM, s, m, w)
                   else Some (0, s\<lparr>fdb_initiated := True\<rparr>, m, w))))"

definition fdb_uc_db_log_verbosity_set :: "int \<Rightarrow> 'w fdb_state \<Rightarrow> int \<times> 'w fdb_state" where
  "fdb_uc_db_log_verbosity_set level s = (0, s\<lparr>uc_db_verbosity := level\<rparr>)"

definition fdb_uc_db_get_first_record :: "'w fdb_state \<Rightarrow> fdb_mem \<Rightarrow> int \<times> u64" where
  "fdb_uc_db_get_first_record s m =
    (if \<not> fdb_initiated s then (- EPERM, 0)
     else
       let map_item_p = cl_qmap_head (fdb_map s) m
       in if map_item_p \<noteq> cl_qmap_end (fdb_map s)
          then if map_item_p \<noteq> cl_qmap_end (fdb_map s) then (0, map_item_p) else (0, 0)
          else (0, 0))"

partial_function (option) fdb_destroy_loop :: "'w fdb_state \<Rightarrow> u64 \<Rightarrow> fdb_mem \<Rightarrow> 'w fdb_result" where
  "fdb_destroy_loop s mac_entry_item_p m =
    (if mac_entry_item_p \<noteq> 0
     then Option.bind (cl_qmap_remove_item (fdb_map s) mac_entry_item_p m) (\<lambda>(q, m).
       let (pool, m) = cl_pool_put (main_db_pool s) mac_entry_item_p m;
           s = s\<lparr>fdb_map := q, main_db_pool := pool\<rparr>;
           (err, mac_entry_item_p) = fdb_uc_db_get_first_record s m
       in if err \<noteq> 0 then Some (err, s, m) else fdb_destroy_loop s mac_entry_item_p m)
     else Some (0, s, m))"

definition fdb_uc_db_destroy :: "'w fdb_state \<Rightarrow> fdb_mem \<Rightarrow> 'w fdb_result" where
  "fdb_uc_db_destroy s m =
    (if \<not> fdb_initiated s then Some (- EPERM, s, m)
     else
       let (err, mac_entry_item_p) = fdb_uc_db_get_first_record s m
       in if err \<noteq> 0 then Some (err, s, m) else fdb_destroy_loop s mac_entry_item_p m)"

definition fdb_uc_db_deinit ::
  "'w fdb_heap \<Rightarrow> 'w fdb_state \<Rightarrow> fdb_mem \<Rightarrow> 'w \<Rightarrow> (int \<times> 'w fdb_state \<times> fdb_mem \<times> 'w) option" where
  "fdb_uc_db_deinit os s m w =
    (if \<not> fdb_initiated s then Some (- EPERM, s, m, w)
     else Option.bind (fdb_uc_db_destroy s m) (\<lambda>(err, s, m).
       if err \<noteq> 0 then Some (- EPERM, s, m, w)
       else Option.bind (cl_pool_destroy os (main_db_pool s) m w) (\<lambda>(pool, m, w).
         Option.bind (fdb_uc_db_filter_deinit os (s\<lparr>main_db_pool := pool\<rparr>) m w) (\<lambda>(err, s, m, w).
           if err \<noteq> 0 then Some (- EPERM, s, m, w)
           else Some (0, s\<lparr>fdb_initiated := False\<rparr>, m, w)))))"

section \<open>Reading\<close>

text \<open>The result variable keeps its value when it is not set.\<close>

definition fdb_uc_db_next_record :: "'w fdb_state \<Rightarrow> u64 \<Rightarrow> u64 \<Rightarrow> fdb_mem \<Rightarrow> int \<times> u64" where
  "fdb_uc_db_next_record s mac_entry_item_p return_item_p m =
    (if \<not> fdb_initiated s then (- EPERM, return_item_p)
     else if mac_entry_item_p = 0 then (- EPERM, return_item_p)
     else
       let map_item_p = cl_qmap_next mac_entry_item_p m
       in if map_item_p = cl_qmap_end (fdb_map s) then (0, 0) else (0, map_item_p))"

definition fdb_uc_db_get_record_by_key :: "'w fdb_state \<Rightarrow> u64 \<Rightarrow> fdb_mem \<Rightarrow> (int \<times> u64) option" where
  "fdb_uc_db_get_record_by_key s mac_key m =
    (if \<not> fdb_initiated s then Some (- EPERM, 0)
     else Option.bind (cl_qmap_get (fdb_map s) mac_key m) (\<lambda>map_item_p.
       if map_item_p \<noteq> cl_qmap_end (fdb_map s) then Some (0, map_item_p) else Some (- ENOENT, 0)))"

definition fdb_uc_db_get_next_record_by_key ::
  "'w fdb_state \<Rightarrow> u64 cl_qmap_t \<Rightarrow> u64 \<Rightarrow> fdb_mem \<Rightarrow> (int \<times> u64) option" where
  "fdb_uc_db_get_next_record_by_key s map_p mac_key m =
    (if \<not> fdb_initiated s then Some (- EPERM, 0)
     else Option.bind (cl_qmap_get_next map_p mac_key m) (\<lambda>map_item_p.
       if map_item_p \<noteq> cl_qmap_end map_p then Some (0, map_item_p) else Some (- ENOENT, 0)))"

definition fdb_uc_db_get_size :: "'w fdb_state \<Rightarrow> u32 option \<Rightarrow> int \<times> u32 option" where
  "fdb_uc_db_get_size s db_size =
    (if \<not> fdb_initiated s then (- EPERM, db_size)
     else case db_size of
       None \<Rightarrow> (0, None)
     | Some _ \<Rightarrow> (0, Some (ucast (cl_qmap_count (fdb_map s)))))"

definition fdb_uc_db_get_free_pool_count :: "'w fdb_state \<Rightarrow> u32 \<Rightarrow> int \<times> u32" where
  "fdb_uc_db_get_free_pool_count s count =
    (if \<not> fdb_initiated s then (- EPERM, count) else (0, ucast (cl_pool_count (main_db_pool s))))"

definition fdb_uc_db_get_first_record_by_filter ::
  "size_t \<Rightarrow> 'w fdb_state \<Rightarrow> fdb_uc_key_filter option \<Rightarrow> u64 option \<Rightarrow> u64 option \<Rightarrow> fdb_mem \<Rightarrow>
   (int \<times> u64 option \<times> u64 option) option" where
  "fdb_uc_db_get_first_record_by_filter sz s fltr list_cookie mac_item_pp m =
    fdb_uc_db_filter_get_first_entry sz s fltr list_cookie mac_item_pp m"

definition fdb_uc_db_get_next_record_by_filter ::
  "size_t \<Rightarrow> 'w fdb_state \<Rightarrow> fdb_uc_key_filter option \<Rightarrow> u64 \<Rightarrow> u64 \<Rightarrow> u64 \<Rightarrow> fdb_mem \<Rightarrow> int \<times> u64" where
  "fdb_uc_db_get_next_record_by_filter sz s fltr list_cookie mac_item_p mac_item_pp m =
    fdb_uc_db_filter_get_next_entry sz s fltr list_cookie mac_item_p mac_item_pp m"

section \<open>Changes\<close>

definition fdb_uc_db_delete_record :: "size_t \<Rightarrow> 'w fdb_state \<Rightarrow> u64 \<Rightarrow> fdb_mem \<Rightarrow> 'w fdb_result" where
  "fdb_uc_db_delete_record sz s mac_entry_item_p m =
    (if \<not> fdb_initiated s then Some (- EPERM, s, m)
     else if mac_entry_item_p = 0 then Some (- EPERM, s, m)
     else Option.bind (fdb_uc_db_filter_delete_entry sz s mac_entry_item_p m) (\<lambda>(err, s, m).
       if err \<noteq> 0 then Some (err, s, m)
       else Option.bind (cl_qmap_remove_item (fdb_map s) mac_entry_item_p m) (\<lambda>(q, m).
         let (pool, m) = cl_pool_put (main_db_pool s) mac_entry_item_p m
         in Some (0, s\<lparr>fdb_map := q, main_db_pool := pool\<rparr>, m))))"

definition set_record :: "u64 \<Rightarrow> u64 \<Rightarrow> fdb_mem \<Rightarrow> int \<times> fdb_mem" where
  "set_record cur_mac_entry_p new_mac_entry_p m =
    (let m = m\<lparr>mac_params := (mac_params m)(cur_mac_entry_p := mac_params m new_mac_entry_p)\<rparr>;
         m = m\<lparr>entry_cookie := (entry_cookie m)(cur_mac_entry_p := entry_cookie m new_mac_entry_p)\<rparr>;
         m = m\<lparr>entry_type := (entry_type m)(cur_mac_entry_p := entry_type m new_mac_entry_p)\<rparr>
     in (0, m))"

text \<open>The map is always the address of \<^verbatim>\<open>fdb_map\<close>, so it is not null.\<close>

definition fdb_uc_db_create_record ::
  "'w fdb_heap \<Rightarrow> size_t \<Rightarrow> 'w fdb_state \<Rightarrow> u64 \<Rightarrow> u64 \<Rightarrow> fdb_mem \<Rightarrow> 'w \<Rightarrow>
   (int \<times> u64 \<times> 'w fdb_state \<times> fdb_mem \<times> 'w) option" where
  "fdb_uc_db_create_record os sz s mac_key mac_entry_item_p m w =
    (if \<not> fdb_initiated s then Some (- EPERM, mac_entry_item_p, s, m, w)
     else
       let (mac_entry_item_p, pool, m, w) = cl_pool_get os (main_db_pool s) m w;
           s = s\<lparr>main_db_pool := pool\<rparr>
       in if mac_entry_item_p = 0 then Some (- ENOMEM, mac_entry_item_p, s, m, w)
          else
            let m = clear_mac_entry sz mac_entry_item_p m
            in Option.bind (cl_qmap_insert (fdb_map s) mac_key mac_entry_item_p m) (\<lambda>(_, q, m).
                 Some (0, mac_entry_item_p, s\<lparr>fdb_map := q\<rparr>, m, w)))"

text \<open>
  \<^verbatim>\<open>fdb_uc_db_add_record\<close>: what is done with the entry once it is there, new or found; and the
  function.
\<close>

definition fill_record ::
  "'w fdb_heap \<Rightarrow> size_t \<Rightarrow> 'w fdb_state \<Rightarrow> bool \<Rightarrow> u64 \<Rightarrow> u64 \<Rightarrow> fdb_mem \<Rightarrow> 'w \<Rightarrow>
   (int \<times> 'w fdb_state \<times> fdb_mem \<times> 'w) option" where
  "fill_record os sz s new_entry db_mac_entry_p mac_entry_p m w =
    (let old_params = mac_params m db_mac_entry_p;
         (err, m) = set_record db_mac_entry_p mac_entry_p m
     in if err \<noteq> 0 then Some (err, s, m, w)
        else if new_entry then fdb_uc_db_filter_add_entry os sz s db_mac_entry_p m w
        else fdb_uc_db_filter_modified_entry os sz s (Some old_params) db_mac_entry_p m w)"

definition fdb_uc_db_add_record ::
  "'w fdb_heap \<Rightarrow> size_t \<Rightarrow> 'w fdb_state \<Rightarrow> u64 \<Rightarrow> fdb_mem \<Rightarrow> 'w \<Rightarrow>
   (int \<times> 'w fdb_state \<times> fdb_mem \<times> 'w) option" where
  "fdb_uc_db_add_record os sz s mac_entry_p m w =
    (if \<not> fdb_initiated s then Some (- EPERM, s, m, w)
     else if mac_entry_p = 0 then Some (- EPERM, s, m, w)
     else
       let db_key = FDB_UC_CONVERT_MAC_VLAN_TO_KEY (mac_addr (mac_params m mac_entry_p)) (vid (mac_params m mac_entry_p))
       in Option.bind (fdb_uc_db_get_record_by_key s db_key m) (\<lambda>(err, db_mac_entry_p).
            if err = - ENOENT
            then Option.bind (fdb_uc_db_create_record os sz s db_key db_mac_entry_p m w)
              (\<lambda>(err, db_mac_entry_p, s, m, w).
                if err \<noteq> 0 then Some (err, s, m, w)
                else fill_record os sz s True db_mac_entry_p mac_entry_p m w)
            else if err \<noteq> 0 then Some (err, s, m, w)
            else fill_record os sz s False db_mac_entry_p mac_entry_p m w))"

end
