(* ===== verification/Fdb_Inv.thy ===== *)
theory Fdb_Inv
  imports Fdb
begin

text \<open>
  The filters as an index. \<open>filters z L s m fs M\<close>: the filter entries \<open>fs\<close> are in the filter map, and the list
  of the filter entry with key \<open>k\<close> holds exactly the list items \<open>M k\<close>, of which there is at least one;
  a key without items has no filter entry. Linking and delinking an item change \<open>M\<close> at one key.

  What lies where is said by a classification \<open>z\<close> of the addresses: every structure that the database uses
  is in a zone of its own, so that a write in one zone leaves what lies in the others alone.
\<close>

section \<open>Zones\<close>

datatype zone = ZNone | ZNull | ZMap | ZEntry | ZVid | ZPort | ZPv | ZPool | ZVlan | ZFMap | ZFltr | ZHead | ZFPool

text \<open>What happened to the links: they changed in the zones \<open>A\<close> only.\<close>

definition touches :: "(u64 \<Rightarrow> zone) \<Rightarrow> zone set \<Rightarrow> fdb_mem \<Rightarrow> fdb_mem \<Rightarrow> bool" where
  "touches z A m m' \<longleftrightarrow> agree_on {x. z x \<notin> A} m m' \<and> p_object m' = p_object m"

definition same_data :: "fdb_mem \<Rightarrow> fdb_mem \<Rightarrow> bool" where
  "same_data m m' \<longleftrightarrow> mac_params m' = mac_params m \<and> entry_cookie m' = entry_cookie m \<and> entry_type m' = entry_type m"

lemma touches_refl [simp]: "touches z A m m" "same_data m m"
  by (simp_all add: touches_def agree_on_def same_data_def)

lemma touches_trans: "touches z A m m' \<Longrightarrow> touches z B m' m'' \<Longrightarrow> touches z (A \<union> B) m m''"
  by (simp add: touches_def agree_on_def)

lemma same_data_trans: "same_data m m' \<Longrightarrow> same_data m' m'' \<Longrightarrow> same_data m m''"
  by (simp add: same_data_def)

lemma touches_mono: "touches z A m m' \<Longrightarrow> A \<subseteq> B \<Longrightarrow> touches z B m m'"
  by (auto simp: touches_def agree_on_def)

lemma touches_at:
  assumes "touches z A m m'" and "z x \<notin> A"
  shows "p_next m' x = p_next m x" "p_prev m' x = p_prev m x" "p_key m' x = p_key m x"
  using assms by (simp_all add: touches_def agree_on_def)

text \<open>Removing the items \<open>I\<close> from their lists changes the successor of no other item but their predecessors.\<close>

definition next_kept :: "(u64 \<Rightarrow> zone) \<Rightarrow> u64 set \<Rightarrow> fdb_mem \<Rightarrow> fdb_mem \<Rightarrow> bool" where
  "next_kept z I m m' \<longleftrightarrow> (\<forall>y. z y \<in> {ZVid, ZPort, ZPv} \<longrightarrow> y \<notin> I \<longrightarrow> p_next m y \<notin> I \<longrightarrow> p_next m' y = p_next m y)"

lemma next_kept_refl [simp]: "next_kept z I m m"
  by (simp add: next_kept_def)

lemma next_kept_trans: "next_kept z I m m' \<Longrightarrow> next_kept z J m' m'' \<Longrightarrow> next_kept z (I \<union> J) m m''"
  unfolding next_kept_def by (metis UnI1 UnI2)

lemma touches_next_kept: "touches z A m m' \<Longrightarrow> A \<inter> {ZVid, ZPort, ZPv} = {} \<Longrightarrow> next_kept z I m m'"
  unfolding next_kept_def using touches_at(1) by blast

lemma same_outside_data:
  fixes m m' :: fdb_mem
  assumes "same_outside B m m'"
  shows "same_data m m' \<and> p_object m' = p_object m"
proof -
  have "map_mem.more m' = map_mem.more m" using assms by (simp add: same_outside_def)
  then show ?thesis by (cases m; cases m') (simp add: same_data_def)
qed

lemma same_outside_touches:
  fixes m m' :: fdb_mem
  assumes "same_outside B m m'" and "\<And>x. x \<in> B \<Longrightarrow> z x \<in> A"
  shows "touches z A m m'" "same_data m m'"
  using assms same_outside_data [OF assms(1)] unfolding touches_def
  by (auto simp: same_outside_def agree_on_def)

text \<open>A write to the links of \<open>B\<close>.\<close>

lemma links_touches:
  fixes m m' :: fdb_mem
  assumes "links_same B m m'" and "p_left m' = p_left m" "p_right m' = p_right m" "p_up m' = p_up m" "color m' = color m" "p_key m' = p_key m"
    and "p_object m' = p_object m" and "\<And>x. x \<in> B \<Longrightarrow> z x \<in> A"
  shows "touches z A m m'"
  using assms by (auto simp: touches_def agree_on_def links_same_def)

lemma qmap_wf_zones:
  fixes m m' :: fdb_mem
  assumes "qmap_wf q m xs" and "touches z A m m'" and "\<And>x. x \<in> qmap_area q xs \<Longrightarrow> z x \<in> B" and "A \<inter> B = {}"
  shows "qmap_wf q m' xs"
proof -
  have "qmap_area q xs \<subseteq> {x. z x \<notin> A}" using assms(3,4) by blast
  then have "agree_on (qmap_area q xs) m m'" using assms(2) unfolding touches_def agree_on_def by blast
  then show ?thesis by (rule qmap_wf_cong [OF assms(1)])
qed

section \<open>Pools\<close>

lemma upool_frame:
  assumes rep: "upool_rep L m p free used blocks" and obj: "p_object m' = p_object m"
    and same: "\<And>x. x \<in> pool_ends (pl_qcpool p) \<union> set blocks \<union> (\<lambda>x. x - 24) ` set free \<Longrightarrow>
      p_next m' x = p_next m x \<and> p_prev m' x = p_prev m x"
  shows "upool_rep L m' p free used blocks"
proof -
  have q: "pool_rep L 0 m (pl_qcpool p) (map (\<lambda>x. x - 24) free) ((\<lambda>x. x - 24) ` used) blocks"
    using rep by (simp add: upool_rep_def)
  then have "0 \<notin> L" by (simp add: pool_rep_def layout_def)
  then have "pool_rep L 0 m' (pl_qcpool p) (map (\<lambda>x. x - 24) free) ((\<lambda>x. x - 24) ` used) blocks"
    by (intro pool_rep_frame [OF q]) (use same in auto)
  with rep obj show ?thesis by (simp add: upool_rep_def)
qed

definition fixed :: "('m, 'w) cl_pool_t \<Rightarrow> bool" where
  "fixed p \<longleftrightarrow> qc_grow_size (pl_qcpool p) = 0 \<and> qc_num_objects (pl_qcpool p) < 2 ^ 32"

definition capacity :: "('m, 'w) cl_pool_t \<Rightarrow> nat" where
  "capacity p = unat (qc_num_objects (pl_qcpool p))"

text \<open>A pool of which the bookkeeping is in the zone \<open>h\<close>, and the objects fulfil \<open>ok\<close>.\<close>

definition zpool ::
  "(u64 \<Rightarrow> zone) \<Rightarrow> zone \<Rightarrow> (u64 \<Rightarrow> bool) \<Rightarrow> u64 set \<Rightarrow> fdb_mem \<Rightarrow> (fdb_mem, 'w) cl_pool_t \<Rightarrow> u64 set \<Rightarrow> bool" where
  "zpool z h ok L m p used \<longleftrightarrow> fixed p \<and> (\<exists>free blocks. upool_rep L m p free used blocks \<and>
    (\<forall>x\<in>set free \<union> used. z (x - 24) = h \<and> ok x) \<and> (\<forall>x\<in>pool_ends (pl_qcpool p) \<union> set blocks. z x = h))"

lemma zpool_frame:
  assumes "zpool z h ok L m p used" and "touches z A m m'" and "h \<notin> A"
  shows "zpool z h ok L m' p used"
proof -
  from assms(1) obtain free blocks where rep: "upool_rep L m p free used blocks"
    and zs: "\<forall>x\<in>set free \<union> used. z (x - 24) = h \<and> ok x" "\<forall>x\<in>pool_ends (pl_qcpool p) \<union> set blocks. z x = h"
    and fx: "fixed p" unfolding zpool_def by blast
  have "upool_rep L m' p free used blocks"
    by (rule upool_frame [OF rep]) (use assms(2,3) zs in \<open>auto simp: touches_def agree_on_def\<close>)
  with zs fx show ?thesis unfolding zpool_def by blast
qed

lemma zpool_objects: "zpool z h ok L m p used \<Longrightarrow> x \<in> used \<Longrightarrow> ok x"
  by (auto simp: zpool_def)

lemma zpool_capacity: "zpool z h ok L m p used \<Longrightarrow> finite used \<and> card used \<le> capacity p"
proof -
  assume "zpool z h ok L m p used"
  then obtain free blocks where "pool_rep L 0 m (pl_qcpool p) (map (\<lambda>x. x - 24) free) ((\<lambda>x. x - 24) ` used) blocks"
    by (auto simp: zpool_def upool_rep_def)
  then have "finite ((\<lambda>x. x - 24) ` used)" "unat (qc_num_objects (pl_qcpool p)) = length free + card ((\<lambda>x. x - 24) ` used)"
    by (simp_all add: pool_rep_def)
  moreover have "inj_on (\<lambda>x. x - 24 :: u64) used" by (simp add: inj_on_def)
  ultimately show ?thesis by (simp add: card_image finite_image_iff capacity_def)
qed

lemma zpool_get:
  assumes pool: "zpool z h ok L m p used" and run: "cl_pool_get os p m w = (x, p', m', w')"
  shows "w' = w \<and> capacity p' = capacity p \<and> touches z {h} m m' \<and> same_data m m' \<and>
    (if card used < capacity p then x \<notin> used \<and> x \<noteq> 0 \<and> ok x \<and> zpool z h ok L m' p' (insert x used)
     else x = 0 \<and> p' = p \<and> m' = m)"
proof -
  from pool obtain free blocks where rep: "upool_rep L m p free used blocks"
    and zs: "\<forall>x\<in>set free \<union> used. z (x - 24) = h \<and> ok x" "\<forall>x\<in>pool_ends (pl_qcpool p) \<union> set blocks. z x = h"
    and fx: "fixed p" unfolding zpool_def by blast
  have "inj_on (\<lambda>x. x - 24 :: u64) used" by (simp add: inj_on_def)
  then have cap: "capacity p = length free + card used"
    using rep by (simp add: upool_rep_def pool_rep_def capacity_def card_image)
  show ?thesis
  proof (cases free)
    case Nil
    with upool_get_none [of L m p used blocks os w] rep fx run cap show ?thesis by (simp add: fixed_def)
  next
    case (Cons y rest)
    have n: "qc_num_objects (pl_qcpool p) < 2 ^ 32" using fx by (simp add: fixed_def)
    from upool_get_first [OF rep [unfolded Cons] n, of os w] obtain fl where
      g: "cl_pool_get os p m w = (y, p\<lparr>pl_qcpool := (pl_qcpool p)\<lparr>qc_free_list := fl\<rparr>\<rparr>, cl_primitive_remove (y - 24) m, w)"
      and r: "upool_rep L (cl_primitive_remove (y - 24) m) (p\<lparr>pl_qcpool := (pl_qcpool p)\<lparr>qc_free_list := fl\<rparr>\<rparr>)
        rest (insert y used) blocks" and fl: "ql_end fl = ql_end (qc_free_list (pl_qcpool p))" by blast
    have e: "x = y" "p' = p\<lparr>pl_qcpool := (pl_qcpool p)\<lparr>qc_free_list := fl\<rparr>\<rparr>" "m' = cl_primitive_remove (y - 24) m" "w' = w"
      using run g by auto
    have q: "qlist m (qc_free_list (pl_qcpool p)) (map (\<lambda>x. x - 24) free)"
      using rep by (simp add: upool_rep_def pool_rep_def)
    have "touches z {h} m m'"
    proof (rule links_touches)
      let ?B = "insert (ql_end (qc_free_list (pl_qcpool p))) (set (map (\<lambda>x. x - 24) free))"
      show "links_same ?B m m'" unfolding e(3) by (rule primitive_remove_same [OF q]) (simp add: Cons)
      show "x \<in> ?B \<Longrightarrow> z x \<in> {h}" for x using zs by (auto simp: pool_ends_def)
    qed (simp_all add: e(3))
    moreover have "same_data m m'" by (simp add: e(3) same_data_def cl_primitive_remove_def Let_def)
    moreover have "y \<notin> used" "y \<noteq> 0"
      using rep upool_object [OF rep, of y] by (auto simp: Cons upool_rep_def pool_rep_def)
    moreover have "zpool z h ok L m' p' (insert y used)"
      unfolding zpool_def
    proof (intro conjI exI)
      show "upool_rep L m' p' rest (insert y used) blocks" using r by (simp add: e)
      show "fixed p'" using fx by (simp add: fixed_def e)
    qed (use zs fl in \<open>auto simp: e Cons pool_ends_def\<close>)
    ultimately show ?thesis using cap zs by (simp add: e Cons capacity_def)
  qed
qed

lemma zpool_put:
  assumes pool: "zpool z h ok L m p used" and x: "x \<in> used" and run: "cl_pool_put p x m = (p', m')"
  shows "capacity p' = capacity p \<and> touches z {h} m m' \<and> same_data m m' \<and> zpool z h ok L m' p' (used - {x})"
proof -
  from pool obtain free blocks where rep: "upool_rep L m p free used blocks"
    and zs: "\<forall>x\<in>set free \<union> used. z (x - 24) = h \<and> ok x" "\<forall>x\<in>pool_ends (pl_qcpool p) \<union> set blocks. z x = h"
    and fx: "fixed p" unfolding zpool_def by blast
  note put = upool_put [OF rep x run]
  have q: "qlist m (qc_free_list (pl_qcpool p)) (map (\<lambda>x. x - 24) free)"
    using rep by (simp add: upool_rep_def pool_rep_def)
  let ?e = "ql_end (qc_free_list (pl_qcpool p))" and ?l = "map (\<lambda>x. x - 24) free"
  have y: "cl_qlist_head (qc_free_list (pl_qcpool p)) m \<in> insert ?e (set ?l)"
    using qlist_head [OF q] by (cases free) auto
  have "touches z {h} m m'"
  proof (rule links_touches)
    show "links_same (insert (x - 24) (insert ?e (set ?l))) m m'"
      using primitive_insert_frame [of m ?e ?l, OF _ y] q put by (simp add: links_same_def qlist_def)
    show "y \<in> insert (x - 24) (insert ?e (set ?l)) \<Longrightarrow> z y \<in> {h}" for y using zs x by (auto simp: pool_ends_def)
  qed (use put in simp_all)
  moreover have "same_data m m'" using put by (simp add: same_data_def cl_primitive_insert_def Let_def)
  moreover have "zpool z h ok L m' p' (used - {x})"
    unfolding zpool_def
  proof (intro conjI exI)
    show "upool_rep L m' p' (x # free) (used - {x}) blocks" by (rule put [THEN conjunct1])
    show "fixed p'" using fx put by (simp add: fixed_def)
    have "pool_ends (pl_qcpool p') = pool_ends (pl_qcpool p)" using put config_same(2) by blast
    then show "\<forall>x\<in>pool_ends (pl_qcpool p') \<union> set blocks. z x = h" using zs by simp
  qed (use zs x in auto)
  ultimately show ?thesis using put by (simp add: capacity_def)
qed

end
