(* ===== verification/Fdb_Index.thy ===== *)
theory Fdb_Index
  imports Fdb_Inv
begin

text \<open>
  Linking an item to the list of a key and delinking it: what \<^verbatim>\<open>link_entry_to_fltr_list\<close> and
  \<^verbatim>\<open>delink_entry_from_fltr_list\<close> do to the index.
\<close>

section \<open>The index\<close>

definition fobj :: "(u64 \<Rightarrow> zone) \<Rightarrow> u64 \<Rightarrow> bool" where
  "fobj z f \<longleftrightarrow> z f = ZFltr \<and> z (f + fltr_head_offset) = ZHead"

definition list_of :: "fdb_mem \<Rightarrow> u64 \<Rightarrow> u64 set \<Rightarrow> bool" where
  "list_of m f I \<longleftrightarrow> (\<exists>xs. qlist_at m (f + fltr_head_offset) xs \<and> set xs = I)"

definition index :: "(u64 \<Rightarrow> zone) \<Rightarrow> fdb_mem \<Rightarrow> u64 list \<Rightarrow> (u64 \<Rightarrow> u64 set) \<Rightarrow> bool" where
  "index z m fs M \<longleftrightarrow> (\<forall>f\<in>set fs. list_of m f (M (p_key m f))) \<and> (\<forall>k. M k \<noteq> {} \<longrightarrow> k \<in> p_key m ` set fs) \<and>
    (\<forall>k i. i \<in> M k \<longrightarrow> z i \<in> {ZPort, ZPv}) \<and> (\<forall>k k' i. i \<in> M k \<longrightarrow> i \<in> M k' \<longrightarrow> k = k')"

text \<open>While an item is moved a list may be empty; \<open>filters\<close> excludes that.\<close>

definition filters0 ::
  "(u64 \<Rightarrow> zone) \<Rightarrow> u64 set \<Rightarrow> 'w fdb_state \<Rightarrow> fdb_mem \<Rightarrow> u64 list \<Rightarrow> (u64 \<Rightarrow> u64 set) \<Rightarrow> bool" where
  "filters0 z L s m fs M \<longleftrightarrow> filters_initiated s \<and> qmap_wf (fbd_filter_map s) m fs \<and>
    zpool z ZFPool (fobj z) L m (fdb_fltr_pool s) (set fs) \<and> index z m fs M \<and>
    z (qm_root (fbd_filter_map s)) = ZFMap \<and> z (qm_nil (fbd_filter_map s)) = ZFMap \<and> z 0 = ZNull"

definition filters ::
  "(u64 \<Rightarrow> zone) \<Rightarrow> u64 set \<Rightarrow> 'w fdb_state \<Rightarrow> fdb_mem \<Rightarrow> u64 list \<Rightarrow> (u64 \<Rightarrow> u64 set) \<Rightarrow> bool" where
  "filters z L s m fs M \<longleftrightarrow> filters0 z L s m fs M \<and> (\<forall>f\<in>set fs. M (p_key m f) \<noteq> {})"

lemma list_of_cong:
  assumes "list_of m f I"
    and "\<And>x. x = f + fltr_head_offset \<or> x \<in> I \<Longrightarrow> p_next m' x = p_next m x \<and> p_prev m' x = p_prev m x"
  shows "list_of m' f I"
proof -
  from assms(1) obtain xs where xs: "qlist_at m (f + fltr_head_offset) xs" "set xs = I" by (auto simp: list_of_def)
  have "qlist_at m' (f + fltr_head_offset) xs \<longleftrightarrow> qlist_at m (f + fltr_head_offset) xs"
    by (rule qlist_at_cong) (use assms(2) xs(2) in auto)
  with xs show ?thesis by (auto simp: list_of_def)
qed

lemma filters0_fobj: "filters0 z L s m fs M \<Longrightarrow> f \<in> set fs \<Longrightarrow> fobj z f"
  unfolding filters0_def using zpool_objects by blast

lemma filters0_area:
  assumes "filters0 z L s m fs M" and "x \<in> qmap_area (fbd_filter_map s) fs"
  shows "z x \<in> {ZFMap, ZFltr}"
  using assms filters0_fobj [OF assms(1)] by (auto simp: filters0_def qmap_area_def fobj_def)

lemma index_zone: "index z m fs M \<Longrightarrow> x \<in> M k \<Longrightarrow> z x = ZPort \<or> z x = ZPv"
  unfolding index_def by blast

lemma index_frame:
  assumes "index z m fs M" and "\<And>f. f \<in> set fs \<Longrightarrow> fobj z f" and "touches z A m m'"
    and "A \<inter> {ZFltr, ZHead, ZPort, ZPv} = {}"
  shows "index z m' fs M"
proof -
  have key: "p_key m' f = p_key m f" if "f \<in> set fs" for f
    using touches_at(3) [OF assms(3)] assms(2) [OF that] assms(4) by (auto simp: fobj_def)
  have "list_of m' f (M (p_key m' f))" if "f \<in> set fs" for f
  proof (unfold key [OF that], rule list_of_cong)
    show "list_of m f (M (p_key m f))" using assms(1) that by (simp add: index_def)
    fix x assume "x = f + fltr_head_offset \<or> x \<in> M (p_key m f)"
    then have "z x \<in> {ZHead, ZPort, ZPv}" using assms(1) assms(2) [OF that] by (auto simp: index_def fobj_def)
    then show "p_next m' x = p_next m x \<and> p_prev m' x = p_prev m x"
      using touches_at [OF assms(3), of x] assms(4) by blast
  qed
  moreover have "p_key m' ` set fs = p_key m ` set fs" using key by simp
  ultimately show ?thesis using assms(1) by (simp add: index_def)
qed

lemma filters0_frame:
  assumes "filters0 z L s m fs M" and t: "touches z A m m'"
    and "A \<inter> {ZFMap, ZFltr, ZHead, ZPort, ZPv, ZFPool} = {}"
  shows "filters0 z L s m' fs M"
proof -
  have "qmap_wf (fbd_filter_map s) m' fs"
    by (rule qmap_wf_zones [OF _ t filters0_area [OF assms(1)]]) (use assms in \<open>auto simp: filters0_def\<close>)
  moreover have "zpool z ZFPool (fobj z) L m' (fdb_fltr_pool s) (set fs)"
    by (rule zpool_frame [OF _ t]) (use assms in \<open>auto simp: filters0_def\<close>)
  moreover have "index z m' fs M"
    by (rule index_frame [OF _ _ t]) (use assms filters0_fobj [OF assms(1)] in \<open>auto simp: filters0_def\<close>)
  ultimately show ?thesis using assms(1) by (simp add: filters0_def)
qed

lemma filters_frame:
  assumes "filters z L s m fs M" and t: "touches z A m m'"
    and A: "A \<inter> {ZFMap, ZFltr, ZHead, ZPort, ZPv, ZFPool} = {}"
  shows "filters z L s m' fs M"
proof -
  have f0: "filters0 z L s m fs M" using assms(1) by (simp add: filters_def)
  have "p_key m' f = p_key m f" if "f \<in> set fs" for f
    using touches_at(3) [OF t] filters0_fobj [OF f0 that] A by (auto simp: fobj_def)
  with assms(1) filters0_frame [OF f0 t A] show ?thesis by (simp add: filters_def)
qed

text \<open>Only the four fields of the state matter.\<close>

lemma filters_state:
  assumes "filters_initiated s' = filters_initiated s" "fbd_filter_map s' = fbd_filter_map s"
    "fdb_fltr_pool s' = fdb_fltr_pool s"
  shows "filters z L s' m fs M \<longleftrightarrow> filters z L s m fs M"
  using assms by (simp add: filters_def filters0_def)

lemma index_unique:
  assumes "qmap_wf q m fs" "f \<in> set fs" "f' \<in> set fs" "p_key m f = p_key m f'"
  shows "f = f'"
  using qmap_wf_keys [OF assms(1)] assms(2-4) by (metis distinct_map inj_onD)

section \<open>Linking\<close>

text \<open>What \<^verbatim>\<open>link_to_head\<close> does to the links is one insertion.\<close>

lemma link_to_head_fields:
  "p_next (link_to_head f i m) = p_next (cl_primitive_insert (f + fltr_head_offset) i m)"
  "p_prev (link_to_head f i m) = p_prev (cl_primitive_insert (f + fltr_head_offset) i m)"
  "p_left (link_to_head f i m) = p_left m" "p_right (link_to_head f i m) = p_right m"
  "p_up (link_to_head f i m) = p_up m" "color (link_to_head f i m) = color m"
  "p_key (link_to_head f i m) = p_key m" "p_object (link_to_head f i m) = p_object m"
  "same_data m (link_to_head f i m)"
  by (simp_all add: link_to_head_def cl_qlist_insert_tail_def fltr_head_def set_fltr_head_def cl_qlist_end_def Let_def
      same_data_def cl_primitive_insert_def)

lemma list_link:
  assumes "list_of m f I" and "i \<notin> I" "i \<noteq> f + fltr_head_offset"
  shows "list_of (link_to_head f i m) f (insert i I)"
    "links_same (insert i (insert (f + fltr_head_offset) I)) m (link_to_head f i m)"
proof -
  let ?e = "f + fltr_head_offset"
  from assms(1) obtain xs where xs: "qlist_at m ?e xs" "set xs = I" by (auto simp: list_of_def)
  have "qlist_at (cl_primitive_insert ?e i m) ?e (xs @ [i])"
    using qlist_at_insert [of m ?e xs "[]" i] xs assms(2,3) by simp
  moreover have "qlist_at (link_to_head f i m) ?e (xs @ [i]) \<longleftrightarrow> qlist_at (cl_primitive_insert ?e i m) ?e (xs @ [i])"
    by (rule qlist_at_cong) (simp add: link_to_head_fields)
  ultimately show "list_of (link_to_head f i m) f (insert i I)" using xs(2) by (auto simp: list_of_def)
  show "links_same (insert i (insert ?e I)) m (link_to_head f i m)"
    using primitive_insert_frame [OF xs(1), of ?e _ i] xs(2) by (simp add: links_same_def link_to_head_fields)
qed

text \<open>Changing one list leaves the others.\<close>

lemma list_of_other:
  assumes f0: "filters0 z L s m fs M" and f: "f \<in> set fs" and g: "g \<in> set fs" "g \<noteq> f"
    and i: "z i \<in> {ZPort, ZPv}" "i \<notin> M (p_key m g)"
    and same: "links_same (insert i (insert (f + fltr_head_offset) (M (p_key m f)))) m m'"
  shows "list_of m' g (M (p_key m g))" and "p_key m g \<noteq> p_key m f"
proof -
  have ix: "index z m fs M" and wf: "qmap_wf (fbd_filter_map s) m fs" using f0 by (simp_all add: filters0_def)
  have M: "z x \<in> {ZPort, ZPv}" if "x \<in> M k" for x k using ix that unfolding index_def by blast
  have fo: "\<And>f. f \<in> set fs \<Longrightarrow> z (f + fltr_head_offset) = ZHead" using filters0_fobj [OF f0] by (simp add: fobj_def)
  show k: "p_key m g \<noteq> p_key m f" using index_unique [OF wf g(1) f] g(2) by blast
  show "list_of m' g (M (p_key m g))"
  proof (rule list_of_cong)
    show "list_of m g (M (p_key m g))" using ix g by (simp add: index_def)
    fix x assume x: "x = g + fltr_head_offset \<or> x \<in> M (p_key m g)"
    have "x \<notin> insert i (insert (f + fltr_head_offset) (M (p_key m f)))"
    proof (cases "x \<in> M (p_key m g)")
      case True
      then have "x \<notin> M (p_key m f)" "x \<noteq> i" using ix k i(2) unfolding index_def by blast+
      moreover have "z x \<noteq> ZHead" using M [OF True] by auto
      ultimately show ?thesis using fo [OF f] by auto
    next
      case False
      then have "x = g + fltr_head_offset" "z x = ZHead" using x fo [OF g(1)] by auto
      then show ?thesis using M [of x "p_key m f"] i(1) g(2) by auto
    qed
    then show "p_next m' x = p_next m x \<and> p_prev m' x = p_prev m x" using same unfolding links_same_def by blast
  qed
qed

lemma filters0_link:
  assumes f0: "filters0 z L s m fs M" and f: "f \<in> set fs" and i: "z i \<in> {ZPort, ZPv}" "\<And>k. i \<notin> M k"
  shows "filters0 z L s (link_to_head f i m) fs (M(p_key m f := insert i (M (p_key m f)))) \<and>
    touches z {ZHead, ZPort, ZPv} m (link_to_head f i m)"
proof -
  let ?m = "link_to_head f i m" and ?M = "M(p_key m f := insert i (M (p_key m f)))"
  have ix: "index z m fs M" and wf: "qmap_wf (fbd_filter_map s) m fs" using f0 by (simp_all add: filters0_def)
  have fo: "\<And>f. f \<in> set fs \<Longrightarrow> z (f + fltr_head_offset) = ZHead" using filters0_fobj [OF f0] by (simp add: fobj_def)
  have M: "z x \<in> {ZPort, ZPv}" if "x \<in> M k" for x k using ix that unfolding index_def by blast
  have l: "list_of m f (M (p_key m f))" using ix f by (simp add: index_def)
  have ie: "i \<noteq> f + fltr_head_offset" using i(1) fo [OF f] by auto
  note link = list_link [OF l i(2) ie]
  have t: "touches z {ZHead, ZPort, ZPv} m ?m"
    by (rule links_touches [OF link(2)]) (use i(1) fo [OF f] M in \<open>auto simp: link_to_head_fields\<close>)
  have "list_of ?m g (?M (p_key ?m g))" if g: "g \<in> set fs" for g
  proof (cases "g = f")
    case True
    then show ?thesis using link(1) by (simp add: link_to_head_fields)
  next
    case False
    note other = list_of_other [OF f0 f g False i(1) i(2) link(2)]
    then show ?thesis by (simp add: link_to_head_fields)
  qed
  moreover have "\<forall>k. ?M k \<noteq> {} \<longrightarrow> k \<in> p_key ?m ` set fs"
    using ix f by (auto simp: index_def link_to_head_fields)
  moreover have "z j \<in> {ZPort, ZPv}" if "j \<in> ?M k" for j k
    using that M [of j k] i(1) by (simp split: if_split_asm) blast
  moreover have "k = k'" if "j \<in> ?M k" "j \<in> ?M k'" for j k k'
  proof (cases "j = i")
    case True
    with that i(2) show ?thesis by (simp split: if_split_asm)
  next
    case False
    with that have "j \<in> M k" "j \<in> M k'" by (simp_all split: if_split_asm)
    then show ?thesis using ix unfolding index_def by blast
  qed
  ultimately have "index z ?m fs ?M" unfolding index_def by blast
  moreover have "qmap_wf (fbd_filter_map s) ?m fs"
    by (rule qmap_wf_zones [OF wf t filters0_area [OF f0]]) auto
  moreover have "zpool z ZFPool (fobj z) L ?m (fdb_fltr_pool s) (set fs)"
    by (rule zpool_frame [OF _ t]) (use f0 in \<open>auto simp: filters0_def\<close>)
  ultimately show ?thesis using f0 t by (simp add: filters0_def)
qed

text \<open>A fresh filter entry with an empty list.\<close>

definition new_head :: "u64 \<Rightarrow> fdb_mem \<Rightarrow> fdb_mem" where
  "new_head f m =
    (let m = clear_fltr_entry f m; (l, m) = cl_qlist_init (fltr_head f m) m in set_fltr_head f l m)"

lemma new_head_props:
  "agree_on (- {f, f + fltr_head_offset}) m (new_head f m)" "p_object (new_head f m) = p_object m"
  "same_data m (new_head f m)" "qlist_at (new_head f m) (f + fltr_head_offset) []"
  by (simp_all add: new_head_def clear_fltr_entry_def clear_list_item_def fmap_clear_item_def cl_qlist_init_def
      cl_qlist_reset_def fltr_head_def set_fltr_head_def Let_def agree_on_def same_data_def qlist_at_def
      set_left_def set_right_def set_up_def set_color_def set_key_def)

lemma filters0_new:
  assumes f0: "filters0 z L s m fs M" and k: "k \<notin> p_key m ` set fs" and room: "card (set fs) < capacity (fdb_fltr_pool s)"
    and get: "cl_pool_get os (fdb_fltr_pool s) m w = (f, pool, m1, w1)"
  shows "f \<noteq> 0 \<and> w1 = w \<and> (\<exists>q m2 fs'. cl_qmap_insert (fbd_filter_map s) k f (new_head f m1) = Some (f, q, m2) \<and>
    filters0 z L (s\<lparr>fdb_fltr_pool := pool, fbd_filter_map := q\<rparr>) m2 fs' M \<and> set fs' = insert f (set fs) \<and>
    p_key m2 f = k \<and> (\<forall>g\<in>set fs. p_key m2 g = p_key m g) \<and> f \<notin> set fs \<and>
    touches z {ZFPool, ZFltr, ZHead, ZFMap} m m2 \<and> same_data m m2 \<and> capacity pool = capacity (fdb_fltr_pool s))"
proof -
  let ?q = "fbd_filter_map s" and ?e = "f + fltr_head_offset"
  have ix: "index z m fs M" and wf: "qmap_wf ?q m fs" and zp: "zpool z ZFPool (fobj z) L m (fdb_fltr_pool s) (set fs)"
    and zs: "z (qm_root ?q) = ZFMap" "z (qm_nil ?q) = ZFMap" "z 0 = ZNull"
    using f0 by (simp_all add: filters0_def)
  note g = zpool_get [OF zp get]
  have f: "f \<notin> set fs" "f \<noteq> 0" "z f = ZFltr" "z ?e = ZHead" and zp1: "zpool z ZFPool (fobj z) L m1 pool (insert f (set fs))"
    and t1: "touches z {ZFPool} m m1" "same_data m m1" and cap: "w1 = w" "capacity pool = capacity (fdb_fltr_pool s)"
    using g room by (simp_all add: fobj_def)
  have ar: "z x \<in> {ZFMap, ZFltr}" "x \<noteq> f" if "x \<in> qmap_area ?q fs" for x
    using filters0_area [OF f0 that] that f zs by (auto simp: qmap_area_def)
  have wf1: "qmap_wf ?q m1 fs" by (rule qmap_wf_zones [OF wf t1(1) ar(1)]) auto
  let ?m = "new_head f m1"
  have t2: "touches z {ZFltr, ZHead} m1 ?m"
    using new_head_props [where f = f and m = m1] f by (auto simp: touches_def agree_on_def)
  have ag: "agree_on (qmap_area ?q fs) m1 ?m"
  proof -
    have "qmap_area ?q fs \<subseteq> - {f, ?e}" using ar f(4) by fastforce
    then show ?thesis using new_head_props(1) [where f = f and m = m1] unfolding agree_on_def by blast
  qed
  have wf2: "qmap_wf ?q ?m fs" by (rule qmap_wf_cong [OF wf1 ag])
  have key1: "p_key ?m g = p_key m g" if "g \<in> set fs" for g
    using touches_at(3) [OF t1(1), of g] ag that ar [of g] by (auto simp: agree_on_def qmap_area_def)
  have "k \<notin> p_key ?m ` set fs" using k key1 by auto
  from qmap_insert_new [OF wf2 _ this, of f] ar(2) obtain q m2 ys zs where
    ins: "cl_qmap_insert ?q k f ?m = Some (f, q, m2)" "fs = ys @ zs" "qmap_wf q m2 (ys @ f # zs)"
      "p_key m2 = (p_key ?m)(f := k)" "same_outside (qmap_area ?q (f # fs)) ?m m2"
      "q = ?q\<lparr>qm_count := qm_count ?q + 1\<rparr>" by blast
  have ar2: "z x \<in> {ZFMap, ZFltr}" if "x \<in> qmap_area ?q (f # fs)" for x
    using that ar(1) [of x] f(3) by (auto simp: qmap_area_def)
  note t3 = same_outside_touches [OF ins(5), of z "{ZFMap, ZFltr}", OF ar2]
  have t: "touches z {ZFPool, ZFltr, ZHead, ZFMap} m m2"
    by (rule touches_mono [OF touches_trans [OF touches_trans [OF t1(1) t2] t3(1)]]) auto
  have d: "same_data m m2"
    by (rule same_data_trans [OF same_data_trans [OF t1(2) new_head_props(3)] t3(2)])
  have key: "p_key m2 g = p_key m g" if "g \<in> set fs" for g using key1 [OF that] ins(4) that f(1) by auto
  have Mk: "M k = {}" using ix k unfolding index_def by blast
  have e_same: "p_next m2 x = p_next ?m x \<and> p_prev m2 x = p_prev ?m x" if "z x \<notin> {ZFMap, ZFltr}" for x
    using touches_at(1,2) [OF t3(1) that] by simp
  have "list_of m2 h (M (p_key m2 h))" if h: "h \<in> set (ys @ f # zs)" for h
  proof (cases "h = f")
    case True
    have "qlist_at m2 ?e [] \<longleftrightarrow> qlist_at ?m ?e []" by (rule qlist_at_cong) (use e_same [of ?e] f(4) in auto)
    then have "list_of m2 f {}" using new_head_props(4) [where f = f and m = m1] by (auto simp: list_of_def)
    with True Mk ins(4) show ?thesis by simp
  next
    case False
    then have hf: "h \<in> set fs" using h ins(2) by auto
    have "list_of m2 h (M (p_key m h))"
    proof (rule list_of_cong)
      show "list_of m h (M (p_key m h))" using ix hf by (simp add: index_def)
      fix x assume x: "x = h + fltr_head_offset \<or> x \<in> M (p_key m h)"
      have zx: "z x \<in> {ZHead, ZPort, ZPv}" using x filters0_fobj [OF f0 hf] ix by (auto simp: index_def fobj_def)
      have "x \<noteq> f" "x \<noteq> ?e" using x zx f False index_zone [OF ix, of x] by auto
      then have "p_next ?m x = p_next m1 x \<and> p_prev ?m x = p_prev m1 x"
        using new_head_props(1) [where f = f and m = m1] by (simp add: agree_on_def)
      moreover have "p_next m1 x = p_next m x \<and> p_prev m1 x = p_prev m x" using touches_at [OF t1(1), of x] zx by auto
      ultimately show "p_next m2 x = p_next m x \<and> p_prev m2 x = p_prev m x" using e_same [of x] zx by auto
    qed
    with key [OF hf] show ?thesis by simp
  qed
  moreover have "p_key m2 ` set (ys @ f # zs) \<supseteq> p_key m ` set fs" using key ins(2) by force
  ultimately have "index z m2 (ys @ f # zs) M" using ix unfolding index_def by blast
  moreover have "zpool z ZFPool (fobj z) L m2 pool (set (ys @ f # zs))"
  proof -
    have "set (ys @ f # zs) = insert f (set fs)" using ins(2) by auto
    then show ?thesis using zpool_frame [OF zpool_frame [OF zp1 t2] t3(1)] by simp
  qed
  ultimately have "filters0 z L (s\<lparr>fdb_fltr_pool := pool, fbd_filter_map := q\<rparr>) m2 (ys @ f # zs) M"
    using f0 ins(3,6) by (simp add: filters0_def)
  moreover have "set (ys @ f # zs) = insert f (set fs)" using ins(2) by auto
  moreover have "p_key m2 f = k" using ins(4) by simp
  ultimately show ?thesis using f(1,2) cap ins(1) key t d by blast
qed

text \<open>The function.\<close>

definition index_state :: "'w fdb_state \<Rightarrow> 'w fdb_state \<Rightarrow> bool" where
  "index_state s s' \<longleftrightarrow> s' = s\<lparr>fdb_fltr_pool := fdb_fltr_pool s', fbd_filter_map := fbd_filter_map s'\<rparr> \<and>
    capacity (fdb_fltr_pool s') = capacity (fdb_fltr_pool s)"

lemma index_state_refl [simp]: "index_state s s"
  by (simp add: index_state_def)

lemma index_state_trans: "index_state s s' \<Longrightarrow> index_state s' s'' \<Longrightarrow> index_state s s''"
  unfolding index_state_def
  by (cases s; cases s'; cases s'') simp

definition index_step :: "(u64 \<Rightarrow> zone) \<Rightarrow> 'w fdb_state \<Rightarrow> fdb_mem \<Rightarrow> 'w fdb_state \<Rightarrow> fdb_mem \<Rightarrow> bool" where
  "index_step z s m s' m' \<longleftrightarrow> index_state s s' \<and> same_data m m' \<and>
    touches z {ZFPool, ZFltr, ZHead, ZFMap, ZPort, ZPv} m m'"

lemma index_step_refl [simp]: "index_step z s m s m"
  by (simp add: index_step_def)

lemma index_step_trans: "index_step z s m s' m' \<Longrightarrow> index_step z s' m' s'' m'' \<Longrightarrow> index_step z s m s'' m''"
  unfolding index_step_def using index_state_trans same_data_trans touches_trans [of z _ m m' _ m''] by fastforce

lemma filters_keys:
  assumes "filters z L s m fs M"
  shows "p_key m ` set fs = {k. M k \<noteq> {}}" "card (set fs) = card {k. M k \<noteq> {}}"
proof -
  have "\<forall>f\<in>set fs. M (p_key m f) \<noteq> {}" "\<forall>k. M k \<noteq> {} \<longrightarrow> k \<in> p_key m ` set fs"
    using assms by (simp_all add: filters_def filters0_def index_def)
  then show k: "p_key m ` set fs = {k. M k \<noteq> {}}" by auto
  have "inj_on (p_key m) (set fs)"
    using assms qmap_wf_keys unfolding filters_def filters0_def by (metis distinct_map)
  then show "card (set fs) = card {k. M k \<noteq> {}}" unfolding k [symmetric] by (simp add: card_image)
qed

definition has_room :: "'w fdb_state \<Rightarrow> (u64 \<Rightarrow> u64 set) \<Rightarrow> u64 \<Rightarrow> bool" where
  "has_room s M k \<longleftrightarrow> M k \<noteq> {} \<or> card {k. M k \<noteq> {}} < capacity (fdb_fltr_pool s)"

lemma filter_get:
  assumes "filters0 z L s m fs M"
  shows "cl_qmap_get (fbd_filter_map s) k m =
    Some (case find (\<lambda>f. k = p_key m f) fs of Some f \<Rightarrow> f | None \<Rightarrow> cl_qmap_end (fbd_filter_map s))"
proof -
  have "qmap_wf (fbd_filter_map s) m fs" using assms by (simp add: filters0_def)
  then show ?thesis unfolding cl_qmap_end_def by (rule qmap_get_correct)
qed

lemma filter_item:
  assumes "filters0 z L s m fs M" and "f \<in> set fs"
  shows "f \<noteq> 0" "f \<noteq> cl_qmap_end (fbd_filter_map s)"
  using assms filters0_fobj [OF assms] by (auto simp: filters0_def fobj_def cl_qmap_end_def)

lemma link_entry:
  assumes fl: "filters z L s m fs M" and i: "z (e + off) \<in> {ZPort, ZPv}" "\<And>k. e + off \<notin> M k"
  shows "\<exists>err s' m'. link_entry_to_fltr_list os s e k off m w = Some (err, s', m', w) \<and> index_step z s m s' m' \<and>
    (if has_room s M k then err = 0 \<and> (\<exists>fs'. filters z L s' m' fs' (M(k := insert (e + off) (M k))))
     else err = ENOMEM \<and> s' = s \<and> m' = m)"
proof -
  let ?q = "fbd_filter_map s" and ?i = "e + off"
  have f0: "filters0 z L s m fs M" and ne: "\<forall>f\<in>set fs. M (p_key m f) \<noteq> {}" and init: "filters_initiated s"
    using fl by (auto simp: filters_def filters0_def)
  note keys = filters_keys [OF fl] and get = filter_get [OF f0, of k]
  show ?thesis
  proof (cases "find (\<lambda>f. k = p_key m f) fs")
    case (Some f)
    then have f: "f \<in> set fs" "p_key m f = k" by (auto dest: find_in_set)
    have run: "link_entry_to_fltr_list os s e k off m w = Some (0, s, link_to_head f ?i m, w)"
      using init Some filter_item [OF f0 f(1)] by (simp add: link_entry_to_fltr_list_def get)
    note link = filters0_link [OF f0 f(1) i, unfolded f(2)]
    have "filters z L s (link_to_head f ?i m) fs (M(k := insert ?i (M k)))"
      using link ne by (auto simp: filters_def link_to_head_fields)
    moreover have "touches z {ZFPool, ZFltr, ZHead, ZFMap, ZPort, ZPv} m (link_to_head f ?i m)"
      using link by (auto elim: touches_mono)
    moreover have "has_room s M k" using ne f by (auto simp: has_room_def)
    ultimately show ?thesis using run by (auto simp: index_step_def link_to_head_fields)
  next
    case None
    then have k: "k \<notin> p_key m ` set fs" by (auto simp: find_None_iff)
    then have Mk: "M k = {}" using keys(1) by auto
    obtain f pool m1 w1 where pg: "cl_pool_get os (fdb_fltr_pool s) m w = (f, pool, m1, w1)" by (metis prod_cases4)
    show ?thesis
    proof (cases "card (set fs) < capacity (fdb_fltr_pool s)")
      case False
      have "zpool z ZFPool (fobj z) L m (fdb_fltr_pool s) (set fs)" using f0 by (simp add: filters0_def)
      from zpool_get [OF this pg] False have "f = 0" "pool = fdb_fltr_pool s" "m1 = m" "w1 = w" by simp_all
      then have "link_entry_to_fltr_list os s e k off m w = Some (ENOMEM, s, m, w)"
        using init None pg by (simp add: link_entry_to_fltr_list_def get)
      with False Mk keys(2) show ?thesis by (simp add: has_room_def)
    next
      case True
      from filters0_new [OF f0 k True pg] obtain q m2 fs' where
        new: "f \<noteq> 0" "w1 = w" "cl_qmap_insert ?q k f (new_head f m1) = Some (f, q, m2)"
          "filters0 z L (s\<lparr>fdb_fltr_pool := pool, fbd_filter_map := q\<rparr>) m2 fs' M" "set fs' = insert f (set fs)"
          "p_key m2 f = k" "\<forall>g\<in>set fs. p_key m2 g = p_key m g" "touches z {ZFPool, ZFltr, ZHead, ZFMap} m m2"
          "same_data m m2" "capacity pool = capacity (fdb_fltr_pool s)" by blast
      let ?s = "s\<lparr>fdb_fltr_pool := pool, fbd_filter_map := q\<rparr>" and ?m = "link_to_head f ?i m2"
      have run: "link_entry_to_fltr_list os s e k off m w = Some (0, ?s, ?m, w)"
        using init None pg new(1-3) by (simp add: link_entry_to_fltr_list_def get new_head_def Let_def split_beta)
      have "f \<in> set fs'" using new(5) by simp
      note link = filters0_link [OF new(4) this i, unfolded new(6)]
      have "filters z L ?s ?m fs' (M(k := insert ?i (M k)))"
        using link ne new(5,6,7) by (auto simp: filters_def link_to_head_fields)
      moreover have "touches z {ZFPool, ZFltr, ZHead, ZFMap, ZPort, ZPv} m ?m"
        by (rule touches_mono [OF touches_trans [OF new(8) link [THEN conjunct2]]]) auto
      moreover have "same_data m ?m" using same_data_trans [OF new(9)] by (simp add: link_to_head_fields)
      moreover have "has_room s M k" using True keys(2) by (simp add: has_room_def)
      ultimately show ?thesis using run new(10) by (auto simp: index_step_def index_state_def)
    qed
  qed
qed

section \<open>Delinking\<close>

definition unlink :: "u64 \<Rightarrow> fdb_mem \<Rightarrow> fdb_mem" where
  "unlink i m = clear_list_item i (cl_primitive_remove i m)"

lemma unlink_fields:
  "p_left (unlink i m) = p_left m" "p_right (unlink i m) = p_right m" "p_up (unlink i m) = p_up m"
  "color (unlink i m) = color m" "p_key (unlink i m) = p_key m" "p_object (unlink i m) = p_object m"
  "same_data m (unlink i m)" "p_next (unlink i m) i = 0" "p_prev (unlink i m) i = 0"
  "x \<noteq> i \<Longrightarrow> p_next (unlink i m) x = p_next (cl_primitive_remove i m) x"
  "x \<noteq> i \<Longrightarrow> p_prev (unlink i m) x = p_prev (cl_primitive_remove i m) x"
  by (simp_all add: unlink_def clear_list_item_def same_data_def cl_primitive_remove_def Let_def)

lemma list_unlink:
  assumes "qlist_at m e (xs @ i # ys)"
  shows "qlist_at (unlink i m) e (xs @ ys)" "links_same (insert e (set (xs @ i # ys))) m (unlink i m)"
proof -
  have i: "i \<notin> insert e (set (xs @ ys))" using assms by (auto simp: qlist_at_def)
  have "qlist_at (unlink i m) e (xs @ ys) \<longleftrightarrow> qlist_at (cl_primitive_remove i m) e (xs @ ys)"
    by (rule qlist_at_cong) (metis i unlink_fields(10) unlink_fields(11))
  then show "qlist_at (unlink i m) e (xs @ ys)" using qlist_at_remove [OF assms] by simp
  show "links_same (insert e (set (xs @ i # ys))) m (unlink i m)"
    unfolding links_same_def
  proof (intro allI impI)
    fix x assume x: "x \<notin> insert e (set (xs @ i # ys))"
    then have "x \<noteq> i" by auto
    then show "p_next (unlink i m) x = p_next m x \<and> p_prev (unlink i m) x = p_prev m x"
      using primitive_remove_frame [OF assms, of i x] x by (simp add: unlink_fields)
  qed
qed

lemma unlink_next:
  assumes "qlist_at m e (xs @ i # ys)"
  shows "next_kept z {i} m (unlink i m)"
proof -
  have "p_next m (p_prev m i) = i"
  proof (cases xs rule: rev_cases)
    case Nil
    then show ?thesis using qlist_at_first [OF assms] qlist_at_prev [OF assms] by simp
  next
    case (snoc us u)
    then show ?thesis using qlist_at_next [of m e us u "i # ys"] qlist_at_prev [OF assms] assms by simp
  qed
  then show ?thesis
    by (auto simp: next_kept_def unlink_fields cl_primitive_remove_def Let_def)
qed

lemma filters0_unlink:
  assumes f0: "filters0 z L s m fs M" and f: "f \<in> set fs" and xs: "qlist_at m (f + fltr_head_offset) (xs @ i # ys)"
    and set: "set (xs @ i # ys) = M (p_key m f)"
  shows "filters0 z L s (unlink i m) fs (M(p_key m f := M (p_key m f) - {i})) \<and>
    touches z {ZHead, ZPort, ZPv} m (unlink i m)"
proof -
  let ?m = "unlink i m" and ?e = "f + fltr_head_offset" and ?M = "M(p_key m f := M (p_key m f) - {i})"
  have ix: "index z m fs M" and wf: "qmap_wf (fbd_filter_map s) m fs" using f0 by (simp_all add: filters0_def)
  have ze: "z ?e = ZHead" using filters0_fobj [OF f0 f] by (simp add: fobj_def)
  have i: "i \<in> M (p_key m f)" using set by auto
  note zi = index_zone [OF ix i] and un = list_unlink [OF xs]
  have t: "touches z {ZHead, ZPort, ZPv} m ?m"
    by (rule links_touches [OF un(2)]) (use set index_zone [OF ix] ze in \<open>auto simp: unlink_fields\<close>)
  have "i \<notin> set (xs @ ys)" using xs by (auto simp: qlist_at_def)
  then have "set (xs @ ys) = M (p_key m f) - {i}" unfolding set [symmetric] by auto
  with un(1) have lf: "list_of ?m f (M (p_key m f) - {i})" by (auto simp: list_of_def)
  have "list_of ?m g (?M (p_key ?m g))" if g: "g \<in> set fs" for g
  proof (cases "g = f")
    case True
    then show ?thesis using lf by (simp add: unlink_fields)
  next
    case False
    have k: "p_key m g \<noteq> p_key m f" using index_unique [OF wf g f] False by blast
    then have "i \<notin> M (p_key m g)" using ix i unfolding index_def by blast
    moreover have "links_same (insert i (insert ?e (M (p_key m f)))) m ?m"
      by (rule links_same_mono [OF un(2)]) (use set in auto)
    ultimately have "list_of ?m g (M (p_key m g))" using list_of_other [OF f0 f g False] zi by blast
    with k show ?thesis by (simp add: unlink_fields)
  qed
  moreover have "?M k \<subseteq> M k" for k by auto
  ultimately have "index z ?m fs ?M" using ix unfolding index_def unlink_fields by blast
  moreover have "qmap_wf (fbd_filter_map s) ?m fs"
    by (rule qmap_wf_zones [OF wf t filters0_area [OF f0]]) auto
  moreover have "zpool z ZFPool (fobj z) L ?m (fdb_fltr_pool s) (set fs)"
    by (rule zpool_frame [OF _ t]) (use f0 in \<open>auto simp: filters0_def\<close>)
  ultimately show ?thesis using f0 t by (simp add: filters0_def)
qed

text \<open>A filter entry with an empty list is removed from the map and returned to the pool.\<close>

lemma filters0_drop:
  assumes f0: "filters0 z L s m fs M" and f: "f \<in> set fs" and M: "M (p_key m f) = {}"
  shows "\<exists>q m1 pool m2. cl_qmap_remove_item (fbd_filter_map s) f m = Some (q, m1) \<and>
    cl_pool_put (fdb_fltr_pool s) f m1 = (pool, m2) \<and>
    filters0 z L (s\<lparr>fbd_filter_map := q, fdb_fltr_pool := pool\<rparr>) m2 (remove1 f fs) M \<and>
    (\<forall>g\<in>set fs - {f}. p_key m2 g = p_key m g) \<and> set (remove1 f fs) = set fs - {f} \<and>
    touches z {ZFPool, ZFltr, ZFMap} m m2 \<and> same_data m m2 \<and> capacity pool = capacity (fdb_fltr_pool s)"
proof -
  let ?q = "fbd_filter_map s"
  have ix: "index z m fs M" and wf: "qmap_wf ?q m fs" and zp: "zpool z ZFPool (fobj z) L m (fdb_fltr_pool s) (set fs)"
    using f0 by (simp_all add: filters0_def)
  from qmap_remove_item_wf [OF wf f] obtain m1 where
    rem: "cl_qmap_remove_item ?q f m = Some (?q\<lparr>qm_count := qm_count ?q - 1\<rparr>, m1)"
      "qmap_wf (?q\<lparr>qm_count := qm_count ?q - 1\<rparr>) m1 (remove1 f fs)" "p_key m1 = p_key m"
      "same_outside (qmap_area ?q fs) m m1" by blast
  let ?q' = "?q\<lparr>qm_count := qm_count ?q - 1\<rparr>"
  have t1: "touches z {ZFMap, ZFltr} m m1" "same_data m m1"
    using same_outside_touches [OF rem(4), of z "{ZFMap, ZFltr}"] filters0_area [OF f0] by blast+
  obtain pool m2 where put: "cl_pool_put (fdb_fltr_pool s) f m1 = (pool, m2)" by (metis surj_pair)
  have "zpool z ZFPool (fobj z) L m1 (fdb_fltr_pool s) (set fs)" by (rule zpool_frame [OF zp t1(1)]) auto
  note p = zpool_put [OF this f put]
  have set: "set (remove1 f fs) = set fs - {f}" using set_remove1_eq [OF qmap_wf_distinct [OF wf]] .
  have t: "touches z {ZFPool, ZFltr, ZFMap} m m2"
    by (rule touches_mono [OF touches_trans [OF t1(1), where B = "{ZFPool}"]]) (use p in auto)
  have key: "p_key m2 g = p_key m g" if "g \<in> set fs" for g
    using touches_at(3) [of z "{ZFPool}" m1 m2 g] p filters0_fobj [OF f0 that] rem(3) by (simp add: fobj_def)
  have "list_of m2 g (M (p_key m2 g))" if "g \<in> set (remove1 f fs)" for g
  proof -
    have g: "g \<in> set fs" using that set by auto
    show ?thesis
      unfolding key [OF g]
    proof (rule list_of_cong)
      show "list_of m g (M (p_key m g))" using ix g by (simp add: index_def)
      fix x assume "x = g + fltr_head_offset \<or> x \<in> M (p_key m g)"
      then have "z x \<in> {ZHead, ZPort, ZPv}" using filters0_fobj [OF f0 g] index_zone [OF ix] by (auto simp: fobj_def)
      then show "p_next m2 x = p_next m x \<and> p_prev m2 x = p_prev m x" using touches_at [OF t, of x] by auto
    qed
  qed
  moreover have "k \<in> p_key m2 ` set (remove1 f fs)" if k: "M k \<noteq> {}" for k
  proof -
    from k ix obtain g where g: "g \<in> set fs" "p_key m g = k" unfolding index_def by blast
    with k M set have "g \<in> set (remove1 f fs)" by auto
    with key [OF g(1)] g(2) show ?thesis by force
  qed
  ultimately have "index z m2 (remove1 f fs) M" using ix unfolding index_def by blast
  moreover have "qmap_wf ?q' m2 (remove1 f fs)"
  proof (rule qmap_wf_zones [OF rem(2)])
    show "touches z {ZFPool} m1 m2" using p by blast
    show "z x \<in> {ZFMap, ZFltr}" if "x \<in> qmap_area ?q' (remove1 f fs)" for x
      by (rule filters0_area [OF f0]) (use that set in \<open>auto simp: qmap_area_def\<close>)
  qed auto
  ultimately have "filters0 z L (s\<lparr>fbd_filter_map := ?q', fdb_fltr_pool := pool\<rparr>) m2 (remove1 f fs) M"
    using f0 p set by (simp add: filters0_def)
  moreover have "same_data m m2" by (rule same_data_trans [OF t1(2)]) (use p in simp)
  moreover have "capacity pool = capacity (fdb_fltr_pool s)" using p by simp
  moreover have "\<forall>g\<in>set fs - {f}. p_key m2 g = p_key m g" using key by simp
  ultimately show ?thesis
    using rem(1) put t set
    by - (rule exI [of _ ?q'], rule exI [of _ m1], rule exI [of _ pool], rule exI [of _ m2], simp)
qed

lemma delink_entry:
  assumes fl: "filters z L s m fs M" and i: "e + off \<in> M k"
  shows "\<exists>s' m' fs'. delink_entry_from_fltr_list s e k off m = Some (0, s', m') \<and> index_step z s m s' m' \<and>
    filters z L s' m' fs' (M(k := M k - {e + off})) \<and> next_kept z {e + off} m m'"
proof -
  let ?i = "e + off" and ?M = "M(k := M k - {e + off})"
  have f0: "filters0 z L s m fs M" and ne: "\<forall>f\<in>set fs. M (p_key m f) \<noteq> {}" and init: "filters_initiated s"
    and ix: "index z m fs M" and z0: "z 0 = ZNull" and wf: "qmap_wf (fbd_filter_map s) m fs"
    using fl by (auto simp: filters_def filters0_def)
  from i ix obtain f where f: "f \<in> set fs" "p_key m f = k" unfolding index_def by blast
  let ?e = "f + fltr_head_offset"
  from ix f obtain l where l: "qlist_at m ?e l" "set l = M k" by (auto simp: index_def list_of_def)
  from i l(2) obtain xs ys where split: "l = xs @ ?i # ys" by (metis split_list)
  have list: "qlist_at m ?e (xs @ ?i # ys)" using l(1) by (simp add: split)
  have nx: "p_next m ?i = hd (ys @ [?e])" and pv: "p_prev m ?i = last (?e # xs)"
    using qlist_at_next [OF list] qlist_at_prev [OF list] by simp_all
  have zx: "z x \<noteq> ZNull" if "x \<in> insert ?e (set l)" for x
    using that filters0_fobj [OF f0 f(1)] index_zone [OF ix, of x k] l(2) by (auto simp: fobj_def)
  have mem: "hd (ys @ [?e]) \<in> insert ?e (set l)" "last (?e # xs) \<in> insert ?e (set l)"
    by (auto simp: split hd_append split: list.split)
  have nn: "p_next m ?i \<noteq> 0" "p_prev m ?i \<noteq> 0"
    unfolding nx pv using zx [OF mem(1)] zx [OF mem(2)] z0 by metis+
  have dist: "distinct (?e # l)" using l(1) by (simp add: qlist_at_def)
  have last: "p_next m ?i = p_prev m ?i \<longleftrightarrow> l = [?i]"
  proof -
    have "hd (ys @ [?e]) = last (?e # xs) \<longleftrightarrow> xs = [] \<and> ys = []"
      using dist by (cases ys; cases xs rule: rev_cases) (auto simp: split)
    moreover have "l = [?i] \<longleftrightarrow> xs = [] \<and> ys = []" by (cases xs) (auto simp: split)
    ultimately show ?thesis by (simp only: nx pv)
  qed
  note un = filters0_unlink [OF f0 f(1) list, unfolded f(2), OF l(2) [unfolded split]]
  have rem: "clear_list_item ?i (cl_primitive_remove ?i m) = unlink ?i m" by (simp add: unlink_def)
  note nk = unlink_next [OF list]
  have st: "index_step z s m s (unlink ?i m)"
    using un touches_mono [of z "{ZHead, ZPort, ZPv}" m "unlink ?i m"] by (auto simp: index_step_def unlink_fields)
  show ?thesis
  proof (cases "l = [?i]")
    case False
    then have "delink_entry_from_fltr_list s e k off m = Some (0, s, unlink ?i m)"
      using init nn last by (simp add: delink_entry_from_fltr_list_def rem)
    moreover have "?M k \<noteq> {}"
    proof -
      have "xs @ ys \<noteq> []" using False by (auto simp: split)
      then obtain y where "y \<in> set (xs @ ys)" by (meson last_in_set)
      then have "y \<in> set l" "y \<noteq> ?i" using dist by (auto simp: split)
      then show ?thesis using l(2) by auto
    qed
    then have "filters z L s (unlink ?i m) fs ?M"
      using un ne by (auto simp: filters_def unlink_fields)
    ultimately show ?thesis using st nk by blast
  next
    case True
    then have Mk: "M k = {?i}" using l(2) by simp
    then have e: "?M (p_key (unlink ?i m) f) = {}" by (simp add: unlink_fields f(2))
    have u0: "filters0 z L s (unlink ?i m) fs ?M" using un by simp
    from filters0_drop [OF u0 f(1) e] obtain q m1 pool m2 where
      dr: "cl_qmap_remove_item (fbd_filter_map s) f (unlink ?i m) = Some (q, m1)"
        "cl_pool_put (fdb_fltr_pool s) f m1 = (pool, m2)"
        "filters0 z L (s\<lparr>fbd_filter_map := q, fdb_fltr_pool := pool\<rparr>) m2 (remove1 f fs) ?M"
        "\<forall>g\<in>set fs - {f}. p_key m2 g = p_key (unlink ?i m) g" "set (remove1 f fs) = set fs - {f}"
        "touches z {ZFPool, ZFltr, ZFMap} (unlink ?i m) m2" "same_data (unlink ?i m) m2"
        "capacity pool = capacity (fdb_fltr_pool s)" by blast
    let ?s = "s\<lparr>fbd_filter_map := q, fdb_fltr_pool := pool\<rparr>"
    have "find (\<lambda>f. k = p_key (unlink ?i m) f) fs = Some f"
    proof (cases "find (\<lambda>f. k = p_key (unlink ?i m) f) fs")
      case None
      with f show ?thesis by (auto simp: find_None_iff unlink_fields)
    next
      case (Some g)
      then have "g \<in> set fs" "p_key m g = k" by (auto simp: unlink_fields dest: find_in_set)
      with index_unique [OF wf this(1) f(1)] f(2) Some show ?thesis by simp
    qed
    then have "delink_entry_from_fltr_list s e k off m = Some (0, ?s, m2)"
      using init nn last True filter_item [OF u0 f(1)] dr(1,2)
      by (simp add: delink_entry_from_fltr_list_def rem filter_get [OF u0])
    moreover have "filters z L ?s m2 (remove1 f fs) ?M"
    proof -
      have "?M (p_key m2 g) \<noteq> {}" if "g \<in> set (remove1 f fs)" for g
        using that dr(4,5) ne f index_unique [OF wf _ f(1), of g] by (auto simp: unlink_fields)
      with dr(3) show ?thesis by (simp add: filters_def)
    qed
    moreover have "index_step z s (unlink ?i m) ?s m2"
      using dr(6-8) touches_mono [OF dr(6)] by (auto simp: index_step_def index_state_def)
    moreover have "next_kept z ({?i} \<union> {}) m m2"
      by (rule next_kept_trans [OF nk touches_next_kept [OF dr(6)]]) simp
    ultimately show ?thesis using index_step_trans [OF st] by auto
  qed
qed

end
