(* ===== verification/Fdb_Lists.thy ===== *)
theory Fdb_Lists
  imports Fdb_Index
begin

text \<open>
  The VLAN lists, and what linking and delinking an entry means for the sets of items in all lists. \<open>vlans z s m V\<close>: the
  list of the VLAN \<open>v\<close> holds the items \<open>V v\<close>.
\<close>

section \<open>VLAN lists\<close>

definition vlans :: "(u64 \<Rightarrow> zone) \<Rightarrow> 'w fdb_state \<Rightarrow> fdb_mem \<Rightarrow> (nat \<Rightarrow> u64 set) \<Rightarrow> bool" where
  "vlans z s m V \<longleftrightarrow> length (fdb_vlan_list s) = MAX_VLAN_ENTRIES \<and> distinct (map ql_end (fdb_vlan_list s)) \<and>
    (\<forall>l\<in>set (fdb_vlan_list s). z (ql_end l) = ZVlan) \<and>
    (\<forall>v<MAX_VLAN_ENTRIES. \<exists>xs. qlist m (fdb_vlan_list s ! v) xs \<and> set xs = V v) \<and>
    (\<forall>v i. i \<in> V v \<longrightarrow> z i = ZVid) \<and> (\<forall>v v' i. i \<in> V v \<longrightarrow> i \<in> V v' \<longrightarrow> v = v')"

lemma qlist_frame:
  assumes "qlist m l xs" and "\<And>x. x \<in> insert (ql_end l) (set xs) \<Longrightarrow> p_next m' x = p_next m x \<and> p_prev m' x = p_prev m x"
  shows "qlist m' l xs"
  using assms(1) qlist_at_cong [of "ql_end l" xs m' m, OF assms(2)] by (simp add: qlist_def)

lemma vlans_zone: "vlans z s m V \<Longrightarrow> i \<in> V v \<Longrightarrow> z i = ZVid"
  by (simp add: vlans_def)

lemma vlans_list:
  assumes "vlans z s m V" and "v < MAX_VLAN_ENTRIES"
  obtains xs where "qlist m (fdb_vlan_list s ! v) xs" "set xs = V v" "z (ql_end (fdb_vlan_list s ! v)) = ZVlan"
  using assms unfolding vlans_def by (metis nth_mem)

lemma vlans_cong:
  assumes "vlans z s m V" and "fdb_vlan_list s' = fdb_vlan_list s"
    and "\<And>x. z x \<in> {ZVlan, ZVid} \<Longrightarrow> x \<notin> N \<Longrightarrow> p_next m' x = p_next m x \<and> p_prev m' x = p_prev m x"
    and "\<And>x. x \<in> N \<Longrightarrow> z x \<noteq> ZVlan \<and> (\<forall>v. x \<notin> V v)"
  shows "vlans z s' m' V"
proof -
  have "\<exists>xs. qlist m' (fdb_vlan_list s ! v) xs \<and> set xs = V v" if v: "v < MAX_VLAN_ENTRIES" for v
  proof -
    from vlans_list [OF assms(1) v] obtain xs where xs: "qlist m (fdb_vlan_list s ! v) xs" "set xs = V v"
      "z (ql_end (fdb_vlan_list s ! v)) = ZVlan" .
    have "qlist m' (fdb_vlan_list s ! v) xs"
      by (rule qlist_frame [OF xs(1)]) (use assms(3,4) xs(2,3) vlans_zone [OF assms(1)] in blast)
    with xs(2) show ?thesis by blast
  qed
  with assms(1,2) show ?thesis by (simp add: vlans_def)
qed

lemma vlans_frame:
  assumes "vlans z s m V" and "fdb_vlan_list s' = fdb_vlan_list s" and "touches z A m m'" and "A \<inter> {ZVlan, ZVid} = {}"
  shows "vlans z s' m' V"
  by (rule vlans_cong [OF assms(1,2), of "{}"]) (use touches_at(1,2) [OF assms(3)] assms(4) in auto)

text \<open>Replacing one list of the array, after a change that concerns only this list.\<close>

lemma vlans_update:
  assumes vl: "vlans z s m V" and v: "v < MAX_VLAN_ENTRIES"
    and l: "ql_end l = ql_end (fdb_vlan_list s ! v)" "qlist m' l xs" "set xs = I"
    and i: "z i = ZVid" "\<And>v'. v' \<noteq> v \<Longrightarrow> i \<notin> V v'" "I \<subseteq> insert i (V v)"
    and same: "links_same (insert i (insert (ql_end l) (V v))) m m'"
  shows "vlans z (s\<lparr>fdb_vlan_list := (fdb_vlan_list s)[v := l]\<rparr>) m' (V(v := I))"
proof -
  let ?ls = "fdb_vlan_list s"
  have len: "length ?ls = MAX_VLAN_ENTRIES" and dist: "distinct (map ql_end ?ls)" using vl by (simp_all add: vlans_def)
  have ends: "map ql_end (?ls[v := l]) = map ql_end ?ls"
    by (rule nth_equalityI) (use v len in \<open>auto simp: nth_list_update l(1)\<close>)
  have zl: "z (ql_end k) = ZVlan" if "k \<in> set (?ls[v := l])" for k
  proof -
    have "ql_end k \<in> set (map ql_end ?ls)" using that ends by (metis image_eqI set_map)
    then show ?thesis using vl by (auto simp: vlans_def)
  qed
  have lists: "\<exists>ys. qlist m' (?ls[v := l] ! u) ys \<and> set ys = (V(v := I)) u" if u: "u < MAX_VLAN_ENTRIES" for u
  proof (cases "u = v")
    case True
    with l v len show ?thesis by auto
  next
    case False
    from vlans_list [OF vl u] obtain ys where ys: "qlist m (?ls ! u) ys" "set ys = V u" "z (ql_end (?ls ! u)) = ZVlan" .
    have ne: "ql_end (?ls ! u) \<noteq> ql_end l"
      using dist False u v len l(1) by (auto simp: distinct_conv_nth)
    have "qlist m' (?ls ! u) ys"
    proof (rule qlist_frame [OF ys(1)])
      fix x assume x: "x \<in> insert (ql_end (?ls ! u)) (set ys)"
      have "x \<notin> insert i (insert (ql_end l) (V v))"
      proof (cases "x = ql_end (?ls ! u)")
        case True
        then show ?thesis using ne ys(3) i(1) vlans_zone [OF vl, of x v] by auto
      next
        case no: False
        then have xu: "x \<in> V u" using x ys(2) by simp
        moreover have "z (ql_end l) = ZVlan" using vl v len l(1) by (simp add: vlans_def)
        moreover have "x \<notin> V v" using vl xu False unfolding vlans_def by blast
        ultimately show ?thesis using i(2) [OF False] vlans_zone [OF vl xu] by auto
      qed
      then show "p_next m' x = p_next m x \<and> p_prev m' x = p_prev m x" using same unfolding links_same_def by blast
    qed
    with ys(2) False show ?thesis by auto
  qed
  have zone: "z j = ZVid" if "j \<in> (V(v := I)) u" for j u
    using that i(1,3) vlans_zone [OF vl] by (auto split: if_split_asm)
  have one: "u = u'" if "j \<in> (V(v := I)) u" "j \<in> (V(v := I)) u'" for j u u'
  proof -
    have "j \<in> V u \<or> (j = i \<and> u = v)" "j \<in> V u' \<or> (j = i \<and> u' = v)"
      using that i(3) by (auto split: if_split_asm)
    moreover have "\<forall>v v' i. i \<in> V v \<longrightarrow> i \<in> V v' \<longrightarrow> v = v'" using vl by (simp add: vlans_def)
    ultimately show ?thesis using i(2) [of u] i(2) [of u'] by metis
  qed
  show ?thesis
    unfolding vlans_def
  proof (intro conjI allI impI ballI)
    show "\<exists>xs. qlist m' (fdb_vlan_list (s\<lparr>fdb_vlan_list := ?ls[v := l]\<rparr>) ! u) xs \<and> set xs = (V(v := I)) u"
      if "u < MAX_VLAN_ENTRIES" for u using lists [OF that] by simp
    show "z j = ZVid" if "j \<in> (V(v := I)) u" for j u by (rule zone [OF that])
    show "u = u'" if "j \<in> (V(v := I)) u" "j \<in> (V(v := I)) u'" for j u u' by (rule one [OF that])
  qed (use len dist zl ends in simp_all)
qed

lemma vlan_link:
  assumes vl: "vlans z s m V" and v: "v < MAX_VLAN_ENTRIES" and i: "z i = ZVid" "\<And>v. i \<notin> V v"
    and run: "cl_qlist_insert_tail (fdb_vlan_list s ! v) i m = (l, m')"
  shows "vlans z (s\<lparr>fdb_vlan_list := (fdb_vlan_list s)[v := l]\<rparr>) m' (V(v := insert i (V v)))"
    "touches z {ZVlan, ZVid} m m'" "same_data m m'"
proof -
  let ?l = "fdb_vlan_list s ! v"
  from vlans_list [OF vl v] obtain xs where xs: "qlist m ?l xs" "set xs = V v" "z (ql_end ?l) = ZVlan" .
  have m': "m' = cl_primitive_insert (ql_end ?l) i m" "ql_end l = ql_end ?l"
    using run by (auto simp: cl_qlist_insert_tail_def cl_qlist_end_def)
  have ie: "i \<noteq> ql_end ?l" using i(1) xs(3) by auto
  have new: "qlist m' l (xs @ [i])" by (rule qlist_insert_tail [OF xs(1) _ ie run]) (use i(2) xs(2) in simp)
  have same: "links_same (insert i (insert (ql_end l) (V v))) m m'"
    using primitive_insert_frame [of m "ql_end ?l" xs "ql_end ?l" _ i] xs by (simp add: links_same_def m' qlist_def)
  show "vlans z (s\<lparr>fdb_vlan_list := (fdb_vlan_list s)[v := l]\<rparr>) m' (V(v := insert i (V v)))"
    by (rule vlans_update [OF vl v m'(2) new _ i(1) _ _ same]) (use xs(2) i(2) in auto)
  show "touches z {ZVlan, ZVid} m m'"
    by (rule links_touches [OF same]) (use m'(2) xs(3) i(1) vlans_zone [OF vl] in \<open>auto simp: m'(1)\<close>)
  show "same_data m m'" by (simp add: m'(1) same_data_def cl_primitive_insert_def Let_def)
qed

lemma vlan_unlink:
  assumes vl: "vlans z s m V" and v: "v < MAX_VLAN_ENTRIES" and i: "i \<in> V v" and z0: "z 0 = ZNull"
    and run: "cl_qlist_remove_item (fdb_vlan_list s ! v) i m = (l, m1)"
  shows "vlans z (s\<lparr>fdb_vlan_list := (fdb_vlan_list s)[v := l]\<rparr>) (clear_list_item i m1) (V(v := V v - {i}))"
    "touches z {ZVlan, ZVid} m (clear_list_item i m1)" "same_data m (clear_list_item i m1)"
    "p_next m i \<noteq> 0" "p_prev m i \<noteq> 0" "next_kept z {i} m (clear_list_item i m1)"
proof -
  let ?l = "fdb_vlan_list s ! v" and ?m = "clear_list_item i m1"
  from vlans_list [OF vl v] obtain xs where xs: "qlist m ?l xs" "set xs = V v" "z (ql_end ?l) = ZVlan" .
  from i xs(2) obtain ys zs where split: "xs = ys @ i # zs" by (metis split_list)
  have at: "qlist_at m (ql_end ?l) (ys @ i # zs)" using xs(1) by (simp add: qlist_def split)
  have ie: "i \<noteq> ql_end ?l" using vlans_zone [OF vl i] xs(3) by auto
  have run': "m1 = cl_primitive_remove i m" "l = ?l\<lparr>ql_count := ql_count ?l - 1\<rparr>"
    using run ie by (auto simp: cl_qlist_remove_item_def cl_qlist_end_def)
  then have m': "?m = unlink i m" by (simp add: unlink_def)
  note un = list_unlink [OF at]
  have new: "qlist ?m l (ys @ zs)" using un(1) xs(1) run'(2) by (simp add: m' qlist_def split)
  have same: "links_same (insert i (insert (ql_end l) (V v))) m ?m"
    unfolding m' by (rule links_same_mono [OF un(2)]) (use xs(2) run'(2) split in auto)
  have d: "distinct xs" by (rule qlist_distinct [OF xs(1)])
  show "vlans z (s\<lparr>fdb_vlan_list := (fdb_vlan_list s)[v := l]\<rparr>) ?m (V(v := V v - {i}))"
  proof (rule vlans_update [OF vl v _ new _ vlans_zone [OF vl i] _ _ same])
    show "set (ys @ zs) = V v - {i}" using d xs(2) by (auto simp: split)
    show "i \<notin> V v'" if "v' \<noteq> v" for v' using vl i that unfolding vlans_def by blast
  qed (use run'(2) in auto)
  show "touches z {ZVlan, ZVid} m ?m"
    by (rule links_touches [OF same]) (use run'(2) xs(3) vlans_zone [OF vl] i in \<open>auto simp: m' unlink_fields\<close>)
  show "same_data m ?m" by (simp add: m' unlink_fields)
  show "next_kept z {i} m ?m" unfolding m' by (rule unlink_next [OF at])
  have zx: "x \<noteq> 0" if "x \<in> insert (ql_end ?l) (V v)" for x
    using that xs(3) vlans_zone [OF vl, of x v] z0 by auto
  have "hd (zs @ [ql_end ?l]) \<in> insert (ql_end ?l) (V v)" "last (ql_end ?l # ys) \<in> insert (ql_end ?l) (V v)"
    unfolding xs(2) [symmetric] by (auto simp: split hd_append split: list.split)
  then show "p_next m i \<noteq> 0" "p_prev m i \<noteq> 0"
    using qlist_at_next [OF at] qlist_at_prev [OF at] zx by metis+
qed

section \<open>Sets of items\<close>

text \<open>Entries in the VLAN lists, in the lists by port and in the lists by port and VLAN.\<close>

definition vid_items :: "size_t \<Rightarrow> (u64 \<Rightarrow> nat) \<Rightarrow> u64 set \<Rightarrow> nat \<Rightarrow> u64 set" where
  "vid_items sz h E v = {e + vid_fltr_entry sz |e. e \<in> E \<and> h e = v}"

definition port_items :: "size_t \<Rightarrow> (u64 \<Rightarrow> u64) \<Rightarrow> u64 set \<Rightarrow> (u64 \<Rightarrow> u64) \<Rightarrow> u64 set \<Rightarrow> u64 \<Rightarrow> u64 set" where
  "port_items sz h E h' E' k = {e + port_fltr_entry sz |e. e \<in> E \<and> h e = k} \<union>
    {e + vid_port_fltr_entry sz |e. e \<in> E' \<and> h' e = k}"

definition eobj :: "(u64 \<Rightarrow> zone) \<Rightarrow> size_t \<Rightarrow> u64 \<Rightarrow> bool" where
  "eobj z sz e \<longleftrightarrow> z e = ZEntry \<and> z (e + vid_fltr_entry sz) = ZVid \<and> z (e + port_fltr_entry sz) = ZPort \<and>
    z (e + vid_port_fltr_entry sz) = ZPv"

lemma vid_items_add:
  "vid_items sz h (insert e E) = (vid_items sz h E)(h e := insert (e + vid_fltr_entry sz) (vid_items sz h E (h e)))"
  by (auto simp: vid_items_def fun_eq_iff)

lemma vid_items_del:
  "vid_items sz h (E - {e}) = (vid_items sz h E)(h e := vid_items sz h E (h e) - {e + vid_fltr_entry sz})"
  by (auto simp: vid_items_def fun_eq_iff)

lemma vid_items_new: "e \<notin> E \<Longrightarrow> e + vid_fltr_entry sz \<notin> vid_items sz h E v"
  by (auto simp: vid_items_def)

lemma vid_items_cong: "(\<And>e. e \<in> E \<Longrightarrow> h' e = h e) \<Longrightarrow> vid_items sz h' E = vid_items sz h E"
  by (auto simp: vid_items_def fun_eq_iff)

lemma port_items_cong:
  "(\<And>e. e \<in> E \<Longrightarrow> g e = h e) \<Longrightarrow> (\<And>e. e \<in> E' \<Longrightarrow> g' e = h' e) \<Longrightarrow>
   port_items sz g E g' E' = port_items sz h E h' E'"
  by (auto simp: port_items_def fun_eq_iff)

lemma port_items_add:
  "port_items sz h (insert e E) h' E' =
    (port_items sz h E h' E')(h e := insert (e + port_fltr_entry sz) (port_items sz h E h' E' (h e)))"
  "port_items sz h E h' (insert e E') =
    (port_items sz h E h' E')(h' e := insert (e + vid_port_fltr_entry sz) (port_items sz h E h' E' (h' e)))"
  by (auto simp: port_items_def fun_eq_iff)

lemma items_apart:
  assumes "eobj z sz e" "eobj z sz e'"
  shows "e + port_fltr_entry sz \<noteq> e' + vid_port_fltr_entry sz" "e + vid_port_fltr_entry sz \<noteq> e' + port_fltr_entry sz"
  using assms by (auto simp: eobj_def)

lemma port_items_del:
  assumes "\<And>e. e \<in> E \<union> E' \<Longrightarrow> eobj z sz e" and "eobj z sz e"
  shows "port_items sz h (E - {e}) h' E' =
      (port_items sz h E h' E')(h e := port_items sz h E h' E' (h e) - {e + port_fltr_entry sz})"
    "port_items sz h E h' (E' - {e}) =
      (port_items sz h E h' E')(h' e := port_items sz h E h' E' (h' e) - {e + vid_port_fltr_entry sz})"
  using items_apart [OF assms(2) assms(1)] by (auto simp: port_items_def fun_eq_iff)

lemma port_items_new:
  assumes "\<And>e. e \<in> E \<union> E' \<Longrightarrow> eobj z sz e" and "eobj z sz e"
  shows "e \<notin> E \<Longrightarrow> e + port_fltr_entry sz \<notin> port_items sz h E h' E' k"
    "e \<notin> E' \<Longrightarrow> e + vid_port_fltr_entry sz \<notin> port_items sz h E h' E' k"
  using items_apart [OF assms(2) assms(1)] by (auto simp: port_items_def)

text \<open>The number of lists in use.\<close>

lemma port_items_keys: "{k. port_items sz h E h' E' k \<noteq> {}} = h ` E \<union> h' ` E'"
  by (auto simp: port_items_def)

lemma has_room_sub:
  assumes "finite K" "card K \<le> capacity (fdb_fltr_pool s)" "k \<in> K" "{k. M k \<noteq> {}} \<subseteq> K"
  shows "has_room s M k"
proof (cases "M k = {}")
  case True
  have "{k. M k \<noteq> {}} \<subset> K" using assms(3,4) True by auto
  then have "card {k. M k \<noteq> {}} < card K" by (rule psubset_card_mono [OF assms(1)])
  with assms(2) show ?thesis by (simp add: has_room_def)
qed (simp add: has_room_def)

end
