(* ===== verification/Fdb_Keys.thy ===== *)
theory Fdb_Keys
  imports Fdb_Filters
begin

text \<open>
  The 64-bit keys of the forwarding database: the key of an entry determines its MAC address and VLAN, and
  the keys of the filters determine the port, or the port and the VLAN, for ports below \<open>2 ^ 32\<close>.
\<close>

unbundle bit_operations_syntax

lemma octet_bit: "bit (ucast (x :: u8) :: u64) n \<longleftrightarrow> n < 8 \<and> bit x n"
  by (auto simp: bit_simps dest: bit_imp_le_length)

lemma vid_bit: "bit (ucast (x :: u16) :: u64) n \<longleftrightarrow> n < 16 \<and> bit x n"
  by (auto simp: bit_simps dest: bit_imp_le_length)

lemma key_bits:
  "bit (FDB_UC_CONVERT_MAC_VLAN_TO_KEY a v) n \<longleftrightarrow>
    (if n < 8 then bit (octet5 a) n else if n < 16 then bit (octet4 a) (n - 8) else if n < 24 then bit (octet3 a) (n - 16)
     else if n < 32 then bit (octet2 a) (n - 24) else if n < 40 then bit (octet1 a) (n - 32)
     else if n < 48 then bit (octet0 a) (n - 40) else n < 64 \<and> bit v (n - 48))"
  by (auto simp: FDB_UC_CONVERT_MAC_VLAN_TO_KEY_def MAC_TO_U64_def bit_or_iff bit_push_bit_iff octet_bit vid_bit)

lemma byte_eqI: "(\<And>n. n < 8 \<Longrightarrow> bit (x :: u8) n = bit y n) \<Longrightarrow> x = y"
  by (rule bit_word_eqI) simp

lemma key_inj:
  "FDB_UC_CONVERT_MAC_VLAN_TO_KEY a v = FDB_UC_CONVERT_MAC_VLAN_TO_KEY b u \<longleftrightarrow> a = b \<and> v = u"
proof
  assume eq: "FDB_UC_CONVERT_MAC_VLAN_TO_KEY a v = FDB_UC_CONVERT_MAC_VLAN_TO_KEY b u"
  then have b: "bit (FDB_UC_CONVERT_MAC_VLAN_TO_KEY a v) n = bit (FDB_UC_CONVERT_MAC_VLAN_TO_KEY b u) n" for n by simp
  have v: "bit v n = bit u n" if "n < 16" for n using b [of "n + 48"] that by (simp add: key_bits)
  have o: "bit (octet0 a) n = bit (octet0 b) n" "bit (octet1 a) n = bit (octet1 b) n" "bit (octet2 a) n = bit (octet2 b) n"
    "bit (octet3 a) n = bit (octet3 b) n" "bit (octet4 a) n = bit (octet4 b) n" "bit (octet5 a) n = bit (octet5 b) n"
    if "n < 8" for n
    using b [of "n + 40"] b [of "n + 32"] b [of "n + 24"] b [of "n + 16"] b [of "n + 8"] b [of n] that
    by (simp_all add: key_bits)
  have "octet0 a = octet0 b" "octet1 a = octet1 b" "octet2 a = octet2 b" "octet3 a = octet3 b" "octet4 a = octet4 b"
    "octet5 a = octet5 b" by (rule byte_eqI, erule o)+
  moreover have "v = u" by (rule bit_word_eqI) (simp add: v)
  ultimately show "a = b \<and> v = u" by (cases a; cases b) simp
qed simp

lemma port_bit: "port < 2 ^ 32 \<Longrightarrow> bit (port :: u64) n \<Longrightarrow> n < 32"
  using less_mask_eq
  by (metis bit_take_bit_iff take_bit_eq_mask)

lemma const_bits: "bit (0x1000000000000 :: u64) n \<longleftrightarrow> n = 48" "bit (0x2000000000000 :: u64) n \<longleftrightarrow> n = 49"
proof -
  have "(0x1000000000000 :: u64) = push_bit 48 1" "(0x2000000000000 :: u64) = push_bit 49 1" by simp_all
  then show "bit (0x1000000000000 :: u64) n \<longleftrightarrow> n = 48" "bit (0x2000000000000 :: u64) n \<longleftrightarrow> n = 49"
    by (simp_all only: bit_push_bit_iff) (auto simp: bit_1_iff)
qed

lemma port_key_bits:
  "bit (BUILD_PORT_KEY port) n \<longleftrightarrow> bit port n \<or> n = 48"
  "bit (BUILD_PORT_VID_KEY port v) n \<longleftrightarrow> bit port n \<or> 32 \<le> n \<and> n < 48 \<and> bit v (n - 32) \<or> n = 49"
  unfolding BUILD_PORT_KEY_def BUILD_PORT_VID_KEY_def bit_or_iff bit_push_bit_iff vid_bit const_bits by auto

lemma port_keys:
  assumes "p < 2 ^ 32" "q < 2 ^ 32"
  shows "BUILD_PORT_KEY p = BUILD_PORT_KEY q \<longleftrightarrow> p = q"
    "BUILD_PORT_VID_KEY p v = BUILD_PORT_VID_KEY q u \<longleftrightarrow> p = q \<and> v = u"
    "BUILD_PORT_KEY p \<noteq> BUILD_PORT_VID_KEY q u"
proof -
  have p: "bit p n \<Longrightarrow> n < 32" "bit q n \<Longrightarrow> n < 32" for n using port_bit assms by blast+
  have pq: "p = q" if "\<And>n. n < 32 \<Longrightarrow> bit p n = bit q n" by (rule bit_word_eqI) (use p that in blast)
  show "BUILD_PORT_KEY p = BUILD_PORT_KEY q \<longleftrightarrow> p = q"
  proof
    assume "BUILD_PORT_KEY p = BUILD_PORT_KEY q"
    then have b: "bit (BUILD_PORT_KEY p) n = bit (BUILD_PORT_KEY q) n" for n by simp
    show "p = q"
    proof (rule pq)
      fix n :: nat assume "n < 32"
      with b [of n] show "bit p n = bit q n" by (auto simp: port_key_bits)
    qed
  qed simp
  show "BUILD_PORT_VID_KEY p v = BUILD_PORT_VID_KEY q u \<longleftrightarrow> p = q \<and> v = u"
  proof
    assume "BUILD_PORT_VID_KEY p v = BUILD_PORT_VID_KEY q u"
    then have b: "bit (BUILD_PORT_VID_KEY p v) n = bit (BUILD_PORT_VID_KEY q u) n" for n by simp
    have "v = u"
    proof (rule bit_word_eqI)
      fix n assume "n < LENGTH(16)"
      with b [of "n + 32"] p [of "n + 32"] show "bit v n = bit u n" by (auto simp: port_key_bits)
    qed
    moreover have "p = q"
    proof (rule pq)
      fix n :: nat assume "n < 32"
      with b [of n] show "bit p n = bit q n" by (auto simp: port_key_bits)
    qed
    ultimately show "p = q \<and> v = u" by simp
  qed simp
  show "BUILD_PORT_KEY p \<noteq> BUILD_PORT_VID_KEY q u"
  proof
    assume "BUILD_PORT_KEY p = BUILD_PORT_VID_KEY q u"
    then have "bit (BUILD_PORT_KEY p) 49 = bit (BUILD_PORT_VID_KEY q u) 49" by simp
    then show False using p(1) [of 49] by (auto simp: port_key_bits)
  qed
qed

end
