(* ===== verification/Fdb_Entries.thy ===== *)
theory Fdb_Entries
  imports Fdb_Lists Fdb_Keys
begin

text \<open>
  The database and its filters together. \<open>fdb z L sz s m es\<close>: the entries \<open>es\<close> are in the map under the keys made
  of their MAC address and VLAN, and each of them is in exactly the lists for its VLAN, its port, and
  its port and VLAN.
\<close>

section \<open>Keys and lists of an entry\<close>

definition entry_key :: "fdb_mem \<Rightarrow> u64 \<Rightarrow> u64" where
  "entry_key m e = FDB_UC_CONVERT_MAC_VLAN_TO_KEY (mac_addr (mac_params m e)) (vid (mac_params m e))"

definition port_key :: "fdb_mem \<Rightarrow> u64 \<Rightarrow> u64" where
  "port_key m e = BUILD_PORT_KEY (log_port (mac_params m e))"

definition port_vid_key :: "fdb_mem \<Rightarrow> u64 \<Rightarrow> u64" where
  "port_vid_key m e = BUILD_PORT_VID_KEY (log_port (mac_params m e)) (vid (mac_params m e))"

definition vlan_of :: "fdb_mem \<Rightarrow> u64 \<Rightarrow> nat" where
  "vlan_of m e = unat (vid (mac_params m e))"

lemma keys_same_data:
  assumes "same_data m m'"
  shows "entry_key m' = entry_key m" "port_key m' = port_key m" "port_vid_key m' = port_vid_key m" "vlan_of m' = vlan_of m"
  using assms by (simp_all add: same_data_def entry_key_def port_key_def port_vid_key_def vlan_of_def fun_eq_iff)

section \<open>Changes of the lists\<close>

definition lists_step :: "(u64 \<Rightarrow> zone) \<Rightarrow> 'w fdb_state \<Rightarrow> fdb_mem \<Rightarrow> 'w fdb_state \<Rightarrow> fdb_mem \<Rightarrow> bool" where
  "lists_step z s m s' m' \<longleftrightarrow>
    s' = s\<lparr>fdb_fltr_pool := fdb_fltr_pool s', fbd_filter_map := fbd_filter_map s', fdb_vlan_list := fdb_vlan_list s'\<rparr> \<and>
    capacity (fdb_fltr_pool s') = capacity (fdb_fltr_pool s) \<and> same_data m m' \<and>
    touches z {ZFPool, ZFltr, ZHead, ZFMap, ZPort, ZPv, ZVlan, ZVid} m m'"

lemma index_lists_step: "index_step z s m s' m' \<Longrightarrow> lists_step z s m s' m'"
  unfolding index_step_def index_state_def lists_step_def
  by (cases s; cases s') (auto elim: touches_mono)

lemma lists_step_trans: "lists_step z s m s' m' \<Longrightarrow> lists_step z s' m' s'' m'' \<Longrightarrow> lists_step z s m s'' m''"
  unfolding lists_step_def using same_data_trans [of m m' m''] touches_trans [of z _ m m' _ m'']
  by (cases s; cases s'; cases s'') fastforce

lemma index_step_vlans:
  assumes "index_step z s m s' m'" and "vlans z s m V"
  shows "vlans z s' m' V"
proof (rule vlans_frame [OF assms(2)])
  show "fdb_vlan_list s' = fdb_vlan_list s" using assms(1) by (cases s; cases s') (simp add: index_step_def index_state_def)
  show "touches z {ZFPool, ZFltr, ZHead, ZFMap, ZPort, ZPv} m m'" using assms(1) by (simp add: index_step_def)
qed auto

lemma index_step_capacity: "index_step z s m s' m' \<Longrightarrow> capacity (fdb_fltr_pool s') = capacity (fdb_fltr_pool s)"
  by (simp add: index_step_def index_state_def)

lemma filters_init: "filters z L s m fs M \<Longrightarrow> filters_initiated s \<and> z 0 = ZNull"
  by (simp add: filters_def filters0_def)

definition lists ::
  "(u64 \<Rightarrow> zone) \<Rightarrow> u64 set \<Rightarrow> 'w fdb_state \<Rightarrow> fdb_mem \<Rightarrow> (u64 \<Rightarrow> u64 set) \<Rightarrow> (nat \<Rightarrow> u64 set) \<Rightarrow> bool" where
  "lists z L s m M V \<longleftrightarrow> (\<exists>fs. filters z L s m fs M) \<and> vlans z s m V"

lemma lists_link:
  assumes "lists z L s m M V" and "z (e + off) \<in> {ZPort, ZPv}" "\<And>k. e + off \<notin> M k" and "has_room s M k"
  shows "\<exists>s' m'. link_entry_to_fltr_list os s e k off m w = Some (0, s', m', w) \<and> index_step z s m s' m' \<and>
    lists z L s' m' (M(k := insert (e + off) (M k))) V"
proof -
  from assms(1) obtain fs where fl: "filters z L s m fs M" and vl: "vlans z s m V" by (auto simp: lists_def)
  from link_entry [OF fl assms(2,3), of os k w] assms(4) obtain s' m' fs' where
    "link_entry_to_fltr_list os s e k off m w = Some (0, s', m', w)" "index_step z s m s' m'"
    "filters z L s' m' fs' (M(k := insert (e + off) (M k)))" by auto
  with index_step_vlans [OF _ vl] show ?thesis by (auto simp: lists_def)
qed

lemma lists_delink:
  assumes "lists z L s m M V" and "e + off \<in> M k"
  shows "\<exists>s' m'. delink_entry_from_fltr_list s e k off m = Some (0, s', m') \<and> index_step z s m s' m' \<and>
    lists z L s' m' (M(k := M k - {e + off})) V \<and> next_kept z {e + off} m m'"
proof -
  from assms(1) obtain fs where fl: "filters z L s m fs M" and vl: "vlans z s m V" by (auto simp: lists_def)
  from delink_entry [OF fl assms(2)] obtain s' m' fs' where
    "delink_entry_from_fltr_list s e k off m = Some (0, s', m')" "index_step z s m s' m'"
    "filters z L s' m' fs' (M(k := M k - {e + off}))" "next_kept z {e + off} m m'" by blast
  with index_step_vlans [OF _ vl] show ?thesis by (auto simp: lists_def)
qed

text \<open>The lists of the entries \<open>E\<close>, with the keys of \<open>m\<close>.\<close>

abbreviation lists_of :: "(u64 \<Rightarrow> zone) \<Rightarrow> u64 set \<Rightarrow> size_t \<Rightarrow> 'w fdb_state \<Rightarrow> fdb_mem \<Rightarrow> fdb_mem \<Rightarrow> u64 set \<Rightarrow> bool" where
  "lists_of z L sz s m d E \<equiv>
    lists z L s m (port_items sz (port_key d) E (port_vid_key d) E) (vid_items sz (vlan_of d) E)"

abbreviation keys_in_use :: "fdb_mem \<Rightarrow> u64 set \<Rightarrow> u64 set" where
  "keys_in_use d E \<equiv> port_key d ` E \<union> port_vid_key d ` E"

lemma filter_add_entry:
  assumes ls: "lists_of z L sz s m d E" and E: "finite E" "\<And>e. e \<in> insert x E \<Longrightarrow> eobj z sz e" and x: "x \<notin> E" "x \<noteq> 0"
    and d: "mac_params d x = mac_params m x" and v: "vlan_of m x < MAX_VLAN_ENTRIES"
    and cap: "card (keys_in_use d (insert x E)) \<le> capacity (fdb_fltr_pool s)"
  shows "\<exists>s' m'. fdb_uc_db_filter_add_entry os sz s x m w = Some (0, s', m', w) \<and> lists_step z s m s' m' \<and>
    lists_of z L sz s' m' d (insert x E)"
proof -
  let ?h = "port_key d" and ?h' = "port_vid_key d" and ?v = "vlan_of d" and ?F = "insert x E"
  have dx: "?h x = BUILD_PORT_KEY (log_port (mac_params m x))"
    "?h' x = BUILD_PORT_VID_KEY (log_port (mac_params m x)) (vid (mac_params m x))" "?v x = unat (vid (mac_params m x))"
    by (simp_all add: port_key_def port_vid_key_def vlan_of_def d)
  have init: "filters_initiated s" using ls filters_init unfolding lists_def by blast
  have ox: "z (x + vid_fltr_entry sz) = ZVid" "z (x + port_fltr_entry sz) \<in> {ZPort, ZPv}"
    "z (x + vid_port_fltr_entry sz) \<in> {ZPort, ZPv}" using E(2) [of x] by (auto simp: eobj_def)
  have vl: "vlans z s m (vid_items sz ?v E)" and fl: "\<exists>fs. filters z L s m fs (port_items sz ?h E ?h' E)"
    using ls by (simp_all add: lists_def)
  obtain l m1 where ins: "cl_qlist_insert_tail (fdb_vlan_list s ! ?v x) (x + vid_fltr_entry sz) m = (l, m1)" by (metis surj_pair)
  let ?s1 = "s\<lparr>fdb_vlan_list := (fdb_vlan_list s)[?v x := l]\<rparr>"
  have vx: "?v x < MAX_VLAN_ENTRIES" using v by (simp add: vlan_of_def d)
  note vlan = vlan_link [OF vl vx ox(1) vid_items_new [OF x(1)] ins]
  have l1: "lists z L ?s1 m1 (port_items sz ?h E ?h' E) (vid_items sz ?v ?F)"
  proof -
    have "\<exists>fs. filters z L ?s1 m1 fs (port_items sz ?h E ?h' E)"
      using fl filters_frame [OF _ vlan(2)] filters_state [of ?s1 s] by fastforce
    then show ?thesis using vlan(1) by (simp add: lists_def vid_items_add)
  qed
  have st1: "lists_step z s m ?s1 m1"
    using vlan(2,3) by (auto simp: lists_step_def elim: touches_mono)
  have room: "has_room t (port_items sz ?h A ?h' A') k"
    if "A \<subseteq> ?F" "A' \<subseteq> ?F" "k \<in> keys_in_use d ?F" "capacity (fdb_fltr_pool t) = capacity (fdb_fltr_pool s)" for t A A' k
  proof (rule has_room_sub)
    show "{k. port_items sz ?h A ?h' A' k \<noteq> {}} \<subseteq> keys_in_use d ?F" unfolding port_items_keys using that(1,2) by auto
  qed (use that(3,4) E(1) cap in auto)
  have new: "x + port_fltr_entry sz \<notin> port_items sz ?h E ?h' E k"
    "x + vid_port_fltr_entry sz \<notin> port_items sz ?h ?F ?h' E k" for k
    using port_items_new [of E E z sz x ?h ?h' k] port_items_new [of ?F E z sz x ?h ?h' k] E(2) x(1) by auto
  have "has_room ?s1 (port_items sz ?h E ?h' E) (?h x)" by (rule room) auto
  from lists_link [OF l1 ox(2) new(1) this, of os w] obtain s2 m2 where
    two: "link_entry_to_fltr_list os ?s1 x (?h x) (port_fltr_entry sz) m1 w = Some (0, s2, m2, w)" "index_step z ?s1 m1 s2 m2"
      "lists z L s2 m2 (port_items sz ?h ?F ?h' E) (vid_items sz ?v ?F)" unfolding port_items_add(1) by blast
  have cap2: "capacity (fdb_fltr_pool s2) = capacity (fdb_fltr_pool s)" using index_step_capacity [OF two(2)] by simp
  have "has_room s2 (port_items sz ?h ?F ?h' E) (?h' x)" by (rule room) (use cap2 in auto)
  from lists_link [OF two(3) ox(3) new(2) this, of os w] obtain s3 m3 where
    three: "link_entry_to_fltr_list os s2 x (?h' x) (vid_port_fltr_entry sz) m2 w = Some (0, s3, m3, w)" "index_step z s2 m2 s3 m3"
      "lists z L s3 m3 (port_items sz ?h ?F ?h' ?F) (vid_items sz ?v ?F)" unfolding port_items_add(2) by blast
  have "fdb_uc_db_filter_add_entry os sz s x m w = Some (0, s3, m3, w)"
    using init x(2) vx ins two(1) three(1) unfolding dx
    by (simp add: fdb_uc_db_filter_add_entry_def Let_def)
  moreover have "lists_step z s m s3 m3"
    by (rule lists_step_trans [OF lists_step_trans [OF st1 index_lists_step [OF two(2)]] index_lists_step [OF three(2)]])
  ultimately show ?thesis using three(3) by blast
qed

lemma filter_modified_entry:
  assumes ls: "lists_of z L sz s m d E" and E: "finite E" "\<And>e. e \<in> E \<Longrightarrow> eobj z sz e" and x: "x \<in> E" "x \<noteq> 0"
    and d: "\<And>e. e \<in> E \<Longrightarrow> e \<noteq> x \<Longrightarrow> mac_params m e = mac_params d e" "vid (mac_params m x) = vid (mac_params d x)"
    and cap: "card (port_key m ` E \<union> port_vid_key d ` E) \<le> capacity (fdb_fltr_pool s)"
      "card (keys_in_use m E) \<le> capacity (fdb_fltr_pool s)"
  shows "\<exists>s' m'. fdb_uc_db_filter_modified_entry os sz s (Some (mac_params d x)) x m w = Some (0, s', m', w) \<and>
    lists_step z s m s' m' \<and> lists_of z L sz s' m' m E"
proof -
  let ?h = "port_key d" and ?h' = "port_vid_key d" and ?g = "port_key m" and ?g' = "port_vid_key m"
  let ?v = "vid_items sz (vlan_of m) E"
  have init: "filters_initiated s" using ls filters_init unfolding lists_def by blast
  have E': "insert x (E - {x}) = E" using x(1) by auto
  have dx: "?h x = BUILD_PORT_KEY (log_port (mac_params d x))"
    "?h' x = BUILD_PORT_VID_KEY (log_port (mac_params d x)) (vid (mac_params m x))"
    "?g x = BUILD_PORT_KEY (log_port (mac_params m x))"
    "?g' x = BUILD_PORT_VID_KEY (log_port (mac_params m x)) (vid (mac_params m x))"
    by (simp_all add: port_key_def port_vid_key_def d(2))
  have v: "vid_items sz (vlan_of d) E = ?v"
    by (rule vid_items_cong) (metis d vlan_of_def)
  have same: "?h e = ?g e" "?h' e = ?g' e" if "e \<in> E - {x}" for e
    using d(1) [of e] that by (simp_all add: port_key_def port_vid_key_def)
  show ?thesis
  proof (cases "log_port (mac_params d x) = log_port (mac_params m x)")
    case True
    then have "?h e = ?g e" "?h' e = ?g' e" if "e \<in> E" for e
      using same [of e] that dx by (cases "e = x", auto)+
    then have "port_items sz ?h E ?h' E = port_items sz ?g E ?g' E" by (intro port_items_cong) auto
    then have "lists_of z L sz s m m E" using ls v by simp
    moreover have "fdb_uc_db_filter_modified_entry os sz s (Some (mac_params d x)) x m w = Some (0, s, m, w)"
      using init x(2) True by (simp add: fdb_uc_db_filter_modified_entry_def)
    ultimately show ?thesis using index_lists_step [OF index_step_refl] by blast
  next
    case False
    have o: "z (x + port_fltr_entry sz) \<in> {ZPort, ZPv}" "z (x + vid_port_fltr_entry sz) \<in> {ZPort, ZPv}"
      using E(2) [OF x(1)] by (auto simp: eobj_def)
    have ls0: "lists z L s m (port_items sz ?h E ?h' E) ?v" using ls v by simp
    have "x + port_fltr_entry sz \<in> port_items sz ?h E ?h' E (?h x)" using x(1) by (auto simp: port_items_def)
    from lists_delink [OF ls0 this] obtain s1 m1 where
      one: "delink_entry_from_fltr_list s x (?h x) (port_fltr_entry sz) m = Some (0, s1, m1)" "index_step z s m s1 m1"
        "lists z L s1 m1 (port_items sz ?h (E - {x}) ?h' E) ?v"
      using port_items_del(1) [of E E z sz x ?h ?h'] E(2) x(1) by auto
    have e1: "port_items sz ?h (E - {x}) ?h' E = port_items sz ?g (E - {x}) ?h' E"
      by (rule port_items_cong) (use same in auto)
    have "x + port_fltr_entry sz \<notin> port_items sz ?g (E - {x}) ?h' E k" for k
      by (rule port_items_new(1)) (use E(2) x(1) in auto)
    moreover have "has_room s1 (port_items sz ?g (E - {x}) ?h' E) (?g x)"
    proof (rule has_room_sub)
      show "{k. port_items sz ?g (E - {x}) ?h' E k \<noteq> {}} \<subseteq> ?g ` E \<union> ?h' ` E" unfolding port_items_keys by auto
    qed (use x(1) E(1) cap(1) index_step_capacity [OF one(2)] in auto)
    ultimately obtain s2 m2 where
      two: "link_entry_to_fltr_list os s1 x (?g x) (port_fltr_entry sz) m1 w = Some (0, s2, m2, w)" "index_step z s1 m1 s2 m2"
        "lists z L s2 m2 (port_items sz ?g E ?h' E) ?v"
      using lists_link [OF one(3) [unfolded e1] o(1), of "?g x" os w] port_items_add(1) [of sz ?g x "E - {x}" ?h' E]
      unfolding E' by fastforce
    have "x + vid_port_fltr_entry sz \<in> port_items sz ?g E ?h' E (?h' x)" using x(1) by (auto simp: port_items_def)
    from lists_delink [OF two(3) this] obtain s3 m3 where
      three: "delink_entry_from_fltr_list s2 x (?h' x) (vid_port_fltr_entry sz) m2 = Some (0, s3, m3)" "index_step z s2 m2 s3 m3"
        "lists z L s3 m3 (port_items sz ?g E ?h' (E - {x})) ?v"
      using port_items_del(2) [of E E z sz x ?g ?h'] E(2) x(1) by auto
    have e3: "port_items sz ?g E ?h' (E - {x}) = port_items sz ?g E ?g' (E - {x})"
      by (rule port_items_cong) (use same in auto)
    have "x + vid_port_fltr_entry sz \<notin> port_items sz ?g E ?g' (E - {x}) k" for k
      by (rule port_items_new(2)) (use E(2) x(1) in auto)
    moreover have "has_room s3 (port_items sz ?g E ?g' (E - {x})) (?g' x)"
    proof (rule has_room_sub)
      show "{k. port_items sz ?g E ?g' (E - {x}) k \<noteq> {}} \<subseteq> keys_in_use m E" unfolding port_items_keys by auto
    qed (use x(1) E(1) cap(2) index_step_capacity [OF one(2)] index_step_capacity [OF two(2)]
        index_step_capacity [OF three(2)] in auto)
    ultimately obtain s4 m4 where
      four: "link_entry_to_fltr_list os s3 x (?g' x) (vid_port_fltr_entry sz) m3 w = Some (0, s4, m4, w)" "index_step z s3 m3 s4 m4"
        "lists z L s4 m4 (port_items sz ?g E ?g' E) ?v"
      using lists_link [OF three(3) [unfolded e3] o(2), of "?g' x" os w] port_items_add(2) [of sz ?g E ?g' x "E - {x}"]
      unfolding E' by fastforce
    have "fdb_uc_db_filter_modified_entry os sz s (Some (mac_params d x)) x m w = Some (0, s4, m4, w)"
      using init x(2) False one(1) two(1) three(1) four(1) unfolding dx
      by (simp add: fdb_uc_db_filter_modified_entry_def Let_def)
    moreover have "index_step z s m s4 m4"
      by (rule index_step_trans [OF index_step_trans [OF index_step_trans [OF one(2) two(2)] three(2)] four(2)])
    ultimately show ?thesis using four(3) index_lists_step by blast
  qed
qed

lemma filter_delete_entry:
  assumes ls: "lists_of z L sz s m m E" and E: "\<And>e. e \<in> E \<Longrightarrow> eobj z sz e" and x: "x \<in> E"
    and v: "vlan_of m x < MAX_VLAN_ENTRIES"
  shows "\<exists>s' m'. fdb_uc_db_filter_delete_entry sz s x m = Some (0, s', m') \<and> lists_step z s m s' m' \<and>
    lists_of z L sz s' m' m (E - {x}) \<and>
    next_kept z {x + vid_fltr_entry sz, x + port_fltr_entry sz, x + vid_port_fltr_entry sz} m m'"
proof -
  let ?h = "port_key m" and ?h' = "port_vid_key m" and ?v = "vlan_of m" and ?i = "x + vid_fltr_entry sz"
  have init: "filters_initiated s" and z0: "z 0 = ZNull" using ls filters_init unfolding lists_def by blast+
  have vl: "vlans z s m (vid_items sz ?v E)" and fl: "\<exists>fs. filters z L s m fs (port_items sz ?h E ?h' E)"
    using ls by (simp_all add: lists_def)
  obtain l m1 where rem: "cl_qlist_remove_item (fdb_vlan_list s ! ?v x) ?i m = (l, m1)" by (metis surj_pair)
  have i: "?i \<in> vid_items sz ?v E (?v x)" using x by (auto simp: vid_items_def)
  note vlan = vlan_unlink [OF vl v i z0 rem]
  let ?s1 = "s\<lparr>fdb_vlan_list := (fdb_vlan_list s)[?v x := l]\<rparr>" and ?m1 = "clear_list_item ?i m1"
  have l1: "lists z L ?s1 ?m1 (port_items sz ?h E ?h' E) (vid_items sz ?v (E - {x}))"
  proof -
    have "\<exists>fs. filters z L ?s1 ?m1 fs (port_items sz ?h E ?h' E)"
      using fl filters_frame [OF _ vlan(2)] filters_state [of ?s1 s] by fastforce
    then show ?thesis using vlan(1) by (simp add: lists_def vid_items_del)
  qed
  have st1: "lists_step z s m ?s1 ?m1" using vlan(2,3) by (auto simp: lists_step_def elim: touches_mono)
  have "x + port_fltr_entry sz \<in> port_items sz ?h E ?h' E (?h x)" using x by (auto simp: port_items_def)
  from lists_delink [OF l1 this] obtain s2 m2 where
    two: "delink_entry_from_fltr_list ?s1 x (?h x) (port_fltr_entry sz) ?m1 = Some (0, s2, m2)" "index_step z ?s1 ?m1 s2 m2"
      "lists z L s2 m2 (port_items sz ?h (E - {x}) ?h' E) (vid_items sz ?v (E - {x}))"
      "next_kept z {x + port_fltr_entry sz} ?m1 m2"
    using port_items_del(1) [of E E z sz x ?h ?h'] E x by auto
  have "x + vid_port_fltr_entry sz \<in> port_items sz ?h (E - {x}) ?h' E (?h' x)" using x by (auto simp: port_items_def)
  moreover have "port_items sz ?h (E - {x}) ?h' (E - {x}) = (port_items sz ?h (E - {x}) ?h' E)
      (?h' x := port_items sz ?h (E - {x}) ?h' E (?h' x) - {x + vid_port_fltr_entry sz})"
    by (rule port_items_del(2)) (use E x in auto)
  ultimately obtain s3 m3 where
    three: "delink_entry_from_fltr_list s2 x (?h' x) (vid_port_fltr_entry sz) m2 = Some (0, s3, m3)" "index_step z s2 m2 s3 m3"
      "lists z L s3 m3 (port_items sz ?h (E - {x}) ?h' (E - {x})) (vid_items sz ?v (E - {x}))"
      "next_kept z {x + vid_port_fltr_entry sz} m2 m3"
    using lists_delink [OF two(3), of x "vid_port_fltr_entry sz" "?h' x"] by auto
  have len: "length (fdb_vlan_list s) = MAX_VLAN_ENTRIES" using vl by (simp add: vlans_def)
  have par: "mac_params ?m1 = mac_params m" "mac_params m2 = mac_params m"
    using vlan(3) two(2) by (simp_all add: same_data_def index_step_def)
  have "fdb_uc_db_filter_delete_entry sz s x m = Some (0, s3, m3)"
    using init vlan(4,5) v rem two(1) three(1) len par
    by (simp add: fdb_uc_db_filter_delete_entry_def Let_def vlan_of_def port_key_def port_vid_key_def)
  moreover have "lists_step z s m s3 m3"
    by (rule lists_step_trans [OF lists_step_trans [OF st1 index_lists_step [OF two(2)]] index_lists_step [OF three(2)]])
  moreover have "next_kept z {?i, x + port_fltr_entry sz, x + vid_port_fltr_entry sz} m m3"
    using next_kept_trans [OF next_kept_trans [OF vlan(6) two(4)] three(4)] by (simp add: insert_commute)
  ultimately show ?thesis using three(3) by blast
qed

end
