(* ===== verification/Fdb_Ops.thy ===== *)
theory Fdb_Ops
  imports Fdb_Entries
begin

text \<open>
  The operations of the forwarding database: adding, changing, deleting, finding and enumerating entries. The
  database is a partial map \<open>db_of m es\<close> from keys to parameters, cookie and type.
\<close>

section \<open>Entries in the map\<close>

definition entries :: "(u64 \<Rightarrow> zone) \<Rightarrow> u64 set \<Rightarrow> size_t \<Rightarrow> 'w fdb_state \<Rightarrow> fdb_mem \<Rightarrow> u64 list \<Rightarrow> bool" where
  "entries z L sz s m es \<longleftrightarrow> fdb_initiated s \<and> qmap_wf (fdb_map s) m es \<and>
    zpool z ZPool (eobj z sz) L m (main_db_pool s) (set es) \<and>
    z (qm_root (fdb_map s)) = ZMap \<and> z (qm_nil (fdb_map s)) = ZMap"

definition fdb :: "(u64 \<Rightarrow> zone) \<Rightarrow> u64 set \<Rightarrow> size_t \<Rightarrow> 'w fdb_state \<Rightarrow> fdb_mem \<Rightarrow> u64 list \<Rightarrow> bool" where
  "fdb z L sz s m es \<longleftrightarrow> entries z L sz s m es \<and> lists_of z L sz s m m (set es) \<and>
    (\<forall>e\<in>set es. p_key m e = entry_key m e \<and> vlan_of m e < MAX_VLAN_ENTRIES)"

definition record_at :: "fdb_mem \<Rightarrow> u64 \<Rightarrow> oes_fdb_uc_mac_addr_params \<times> u64 \<times> fdb_uc_mac_entry_type" where
  "record_at m e = (mac_params m e, entry_cookie m e, entry_type m e)"

definition db_of ::
  "fdb_mem \<Rightarrow> u64 list \<Rightarrow> u64 \<rightharpoonup> oes_fdb_uc_mac_addr_params \<times> u64 \<times> fdb_uc_mac_entry_type" where
  "db_of m es = keyed (p_key m) (record_at m) es"

lemma entries_eobj: "entries z L sz s m es \<Longrightarrow> e \<in> set es \<Longrightarrow> eobj z sz e"
  unfolding entries_def using zpool_objects by blast

lemma entries_area:
  "entries z L sz s m es \<Longrightarrow> x \<in> qmap_area (fdb_map s) es \<Longrightarrow> z x \<in> {ZMap, ZEntry}"
  using entries_eobj [of z L sz s m es x] by (auto simp: entries_def qmap_area_def eobj_def)

lemma entries_frame:
  assumes en: "entries z L sz s m es" and t: "touches z A m m'" and A: "A \<inter> {ZMap, ZEntry, ZPool} = {}"
    and s: "fdb_map s' = fdb_map s" "main_db_pool s' = main_db_pool s" "fdb_initiated s' = fdb_initiated s"
  shows "entries z L sz s' m' es" and "\<And>e. e \<in> set es \<Longrightarrow> p_key m' e = p_key m e"
proof -
  have "qmap_wf (fdb_map s) m' es"
    by (rule qmap_wf_zones [OF _ t entries_area [OF en]]) (use en A in \<open>auto simp: entries_def\<close>)
  moreover have "zpool z ZPool (eobj z sz) L m' (main_db_pool s) (set es)"
    by (rule zpool_frame [OF _ t]) (use en A in \<open>auto simp: entries_def\<close>)
  ultimately show "entries z L sz s' m' es" using en s by (simp add: entries_def)
  show "p_key m' e = p_key m e" if "e \<in> set es" for e
    using touches_at(3) [OF t, of e] entries_eobj [OF en that] A by (auto simp: eobj_def)
qed

lemma record_same_data: "same_data m m' \<Longrightarrow> record_at m' = record_at m"
  by (simp add: same_data_def record_at_def fun_eq_iff)

lemma lists_step_entries:
  assumes st: "lists_step z s m s' m'" and en: "entries z L sz s m es"
  shows "entries z L sz s' m' es" "\<And>e. e \<in> set es \<Longrightarrow> p_key m' e = p_key m e" "main_db_pool s' = main_db_pool s"
    "capacity (fdb_fltr_pool s') = capacity (fdb_fltr_pool s)" "same_data m m'"
proof -
  have f: "fdb_map s' = fdb_map s" "main_db_pool s' = main_db_pool s" "fdb_initiated s' = fdb_initiated s"
    using st by (cases s; cases s', simp add: lists_step_def)+
  note fr = entries_frame [OF en _ _ f, of "{ZFPool, ZFltr, ZHead, ZFMap, ZPort, ZPv, ZVlan, ZVid}" m']
  show "entries z L sz s' m' es" by (rule fr(1)) (use st in \<open>auto simp: lists_step_def\<close>)
  show "\<And>e. e \<in> set es \<Longrightarrow> p_key m' e = p_key m e" by (rule fr(2)) (use st in \<open>auto simp: lists_step_def\<close>)
  show "main_db_pool s' = main_db_pool s" by (rule f(2))
  show "capacity (fdb_fltr_pool s') = capacity (fdb_fltr_pool s)" "same_data m m'"
    using st by (simp_all add: lists_step_def)
qed

lemma entries_length:
  assumes "entries z L sz s m es"
  shows "card (set es) = length es" "length es \<le> capacity (main_db_pool s)"
proof -
  show "card (set es) = length es"
    using assms qmap_wf_distinct unfolding entries_def by (blast intro: distinct_card)
  then show "length es \<le> capacity (main_db_pool s)" using assms zpool_capacity unfolding entries_def by metis
qed

section \<open>Finding\<close>

lemma record_by_key:
  assumes "entries z L sz s m es"
  shows "fdb_uc_db_get_record_by_key s key m =
    Some (case find (\<lambda>e. key = p_key m e) es of Some e \<Rightarrow> (0, e) | None \<Rightarrow> (- ENOENT, 0))"
proof -
  have "qmap_wf (fdb_map s) m es" and init: "fdb_initiated s" using assms by (simp_all add: entries_def)
  note get = qmap_get_correct [OF this(1), of key]
  show ?thesis
  proof (cases "find (\<lambda>e. key = p_key m e) es")
    case None
    then show ?thesis using init get by (simp add: fdb_uc_db_get_record_by_key_def cl_qmap_end_def)
  next
    case (Some e)
    then have "e \<in> set es" by (auto dest: find_in_set)
    then have "e \<noteq> qm_nil (fdb_map s)" using entries_eobj [OF assms] assms by (auto simp: entries_def eobj_def)
    with Some init get show ?thesis by (simp add: fdb_uc_db_get_record_by_key_def cl_qmap_end_def)
  qed
qed

lemma fdb_lookup:
  assumes "entries z L sz s m es"
  shows "\<exists>err e. fdb_uc_db_get_record_by_key s key m = Some (err, e) \<and>
    (case db_of m es key of None \<Rightarrow> err = - ENOENT \<and> e = 0 | Some r \<Rightarrow> err = 0 \<and> e \<in> set es \<and> record_at m e = r)"
proof (cases "find (\<lambda>e. key = p_key m e) es")
  case None
  then show ?thesis using record_by_key [OF assms, of key] by (simp add: db_of_def keyed_find)
next
  case (Some e)
  then have "e \<in> set es" by (auto dest: find_in_set)
  then show ?thesis using Some record_by_key [OF assms, of key] by (simp add: db_of_def keyed_find)
qed

section \<open>A new entry\<close>

lemma filters_fresh:
  assumes fl: "filters z L s m fs M" and ag: "agree_on (- N) m m'" "p_object m' = p_object m"
    and N: "\<And>x. x \<in> N \<Longrightarrow> z x \<notin> {ZFMap, ZFltr, ZHead, ZFPool} \<and> (\<forall>k. x \<notin> M k)"
  shows "filters z L s m' fs M"
proof -
  have f0: "filters0 z L s m fs M" and ix: "index z m fs M" and wf: "qmap_wf (fbd_filter_map s) m fs"
    and zp: "zpool z ZFPool (fobj z) L m (fdb_fltr_pool s) (set fs)"
    using fl by (simp_all add: filters_def filters0_def)
  have t: "touches z (z ` N) m m'" using ag unfolding touches_def agree_on_def by blast
  have key: "p_key m' f = p_key m f" if "f \<in> set fs" for f
    using filters0_fobj [OF f0 that] N [of f] ag(1) by (auto simp: fobj_def agree_on_def)
  have "list_of m' f (M (p_key m' f))" if f: "f \<in> set fs" for f
    unfolding key [OF f]
  proof (rule list_of_cong)
    show "list_of m f (M (p_key m f))" using ix f by (simp add: index_def)
    fix x assume "x = f + fltr_head_offset \<or> x \<in> M (p_key m f)"
    then have "x \<notin> N" using N [of x] filters0_fobj [OF f0 f] by (auto simp: fobj_def)
    then show "p_next m' x = p_next m x \<and> p_prev m' x = p_prev m x" using ag(1) by (simp add: agree_on_def)
  qed
  moreover have "p_key m' ` set fs = p_key m ` set fs" using key by simp
  ultimately have "index z m' fs M" using ix by (simp add: index_def)
  moreover have "qmap_wf (fbd_filter_map s) m' fs"
  proof (rule qmap_wf_zones [OF wf t filters0_area [OF f0]])
    have "z x \<notin> {ZFMap, ZFltr}" if "x \<in> N" for x using N [OF that] by simp
    then show "z ` N \<inter> {ZFMap, ZFltr} = {}" by blast
  qed
  moreover have "zpool z ZFPool (fobj z) L m' (fdb_fltr_pool s) (set fs)"
    by (rule zpool_frame [OF zp t]) (use N in force)
  ultimately show ?thesis using fl key by (simp add: filters_def filters0_def)
qed

definition item_addrs :: "size_t \<Rightarrow> u64 \<Rightarrow> u64 set" where
  "item_addrs sz e = {e, e + vid_fltr_entry sz, e + port_fltr_entry sz, e + vid_port_fltr_entry sz}"

lemma clear_entry_props:
  "agree_on (- item_addrs sz e) m (clear_mac_entry sz e m)" "p_object (clear_mac_entry sz e m) = p_object m"
  "x \<noteq> e \<Longrightarrow> mac_params (clear_mac_entry sz e m) x = mac_params m x"
  "x \<noteq> e \<Longrightarrow> entry_cookie (clear_mac_entry sz e m) x = entry_cookie m x"
  "x \<noteq> e \<Longrightarrow> entry_type (clear_mac_entry sz e m) x = entry_type m x"
  by (simp_all add: clear_mac_entry_def clear_list_item_def fmap_clear_item_def Let_def agree_on_def item_addrs_def
      set_left_def set_right_def set_up_def set_color_def set_key_def)

lemma create_full:
  assumes en: "entries z L sz s m es" and full: "\<not> length es < capacity (main_db_pool s)"
  shows "fdb_uc_db_create_record os sz s key e0 m w = Some (- ENOMEM, 0, s, m, w)"
proof -
  have init: "fdb_initiated s" and zp: "zpool z ZPool (eobj z sz) L m (main_db_pool s) (set es)"
    using en by (simp_all add: entries_def)
  obtain e pool m1 w1 where get: "cl_pool_get os (main_db_pool s) m w = (e, pool, m1, w1)" by (metis prod_cases4)
  from zpool_get [OF zp get, unfolded entries_length(1) [OF en]] full get init show ?thesis
    by (simp add: fdb_uc_db_create_record_def)
qed

lemma create_record:
  assumes en: "entries z L sz s m es" and ls: "lists_of z L sz s m d (set es)" and key: "key \<notin> p_key m ` set es"
    and room: "length es < capacity (main_db_pool s)"
  shows "\<exists>e s' m' es'. fdb_uc_db_create_record os sz s key e0 m w = Some (0, e, s', m', w) \<and> e \<noteq> 0 \<and> e \<notin> set es \<and>
    entries z L sz s' m' es' \<and> lists_of z L sz s' m' d (set es) \<and>
    (\<forall>k f. (\<forall>x\<in>set es. k x = p_key m x) \<longrightarrow> k e = key \<longrightarrow> keyed k f es' = (keyed k f es)(key \<mapsto> f e)) \<and>
    set es' = insert e (set es) \<and> p_key m' e = key \<and> (\<forall>x\<in>set es. p_key m' x = p_key m x) \<and>
    (\<forall>x. x \<noteq> e \<longrightarrow> record_at m' x = record_at m x) \<and> fdb_fltr_pool s' = fdb_fltr_pool s \<and>
    capacity (main_db_pool s') = capacity (main_db_pool s) \<and>
    p_next m' (e + vid_fltr_entry sz) = 0 \<and> p_next m' (e + port_fltr_entry sz) = 0"
proof -
  let ?q = "fdb_map s"
  have init: "fdb_initiated s" and wf: "qmap_wf ?q m es" and zp: "zpool z ZPool (eobj z sz) L m (main_db_pool s) (set es)"
    and zs: "z (qm_root ?q) = ZMap" "z (qm_nil ?q) = ZMap" using en by (simp_all add: entries_def)
  obtain e pool m1 w1 where get: "cl_pool_get os (main_db_pool s) m w = (e, pool, m1, w1)" by (metis prod_cases4)
  note g = zpool_get [OF zp get, unfolded entries_length(1) [OF en]]
  have e: "e \<notin> set es" "e \<noteq> 0" "eobj z sz e" and zp1: "zpool z ZPool (eobj z sz) L m1 pool (insert e (set es))"
    and t1: "touches z {ZPool} m m1" "same_data m m1" and c: "w1 = w" "capacity pool = capacity (main_db_pool s)"
    using g room by simp_all
  let ?N = "item_addrs sz e" and ?m = "clear_mac_entry sz e m1"
  have N: "x \<in> ?N \<Longrightarrow> z x \<in> {ZEntry, ZVid, ZPort, ZPv}" for x
    using e(3) by (auto simp: item_addrs_def eobj_def)
  have ar: "z x \<in> {ZMap, ZEntry}" "x \<notin> ?N" if "x \<in> qmap_area ?q es" for x
  proof -
    show zx: "z x \<in> {ZMap, ZEntry}" by (rule entries_area [OF en that])
    have "x \<noteq> e" using that e(1,3) zs by (auto simp: qmap_area_def eobj_def)
    then show "x \<notin> ?N" using zx e(3) by (auto simp: item_addrs_def eobj_def)
  qed
  have wf1: "qmap_wf ?q m1 es" by (rule qmap_wf_zones [OF wf t1(1) ar(1)]) auto
  have ag: "agree_on (qmap_area ?q es) m1 ?m"
    using clear_entry_props(1) [where sz = sz and e = e and m = m1] ar(2) unfolding agree_on_def by blast
  have wf2: "qmap_wf ?q ?m es" by (rule qmap_wf_cong [OF wf1 ag])
  have key1: "p_key ?m x = p_key m x" if "x \<in> set es" for x
    using ag touches_at(3) [OF t1(1), of x] ar(1) [of x] that by (auto simp: agree_on_def qmap_area_def)
  have "key \<notin> p_key ?m ` set es" using key key1 by auto
  from qmap_insert_new [OF wf2 _ this, of e] ar(2) obtain q m2 ys zs where
    ins: "cl_qmap_insert ?q key e ?m = Some (e, q, m2)" "es = ys @ zs" "qmap_wf q m2 (ys @ e # zs)"
      "p_key m2 = (p_key ?m)(e := key)" "same_outside (qmap_area ?q (e # es)) ?m m2"
      "q = ?q\<lparr>qm_count := qm_count ?q + 1\<rparr>"
    by (metis insertI1 item_addrs_def)
  have t3: "touches z {ZMap, ZEntry} ?m m2" "same_data ?m m2"
  proof -
    have "z x \<in> {ZMap, ZEntry}" if "x \<in> qmap_area ?q (e # es)" for x
      using that ar(1) [of x] e(3) by (auto simp: qmap_area_def eobj_def)
    then show "touches z {ZMap, ZEntry} ?m m2" "same_data ?m m2"
      using same_outside_touches [OF ins(5), of z "{ZMap, ZEntry}"] by blast+
  qed
  let ?s = "s\<lparr>main_db_pool := pool, fdb_map := q\<rparr>" and ?es = "ys @ e # zs"
  have set: "set ?es = insert e (set es)" using ins(2) by auto
  have "zpool z ZPool (eobj z sz) L ?m pool (insert e (set es))"
    by (rule zpool_frame [OF zp1, of "{ZEntry, ZVid, ZPort, ZPv}"])
      (use clear_entry_props(1,2) [where sz = sz and e = e and m = m1] N in \<open>auto simp: touches_def agree_on_def\<close>)
  then have "zpool z ZPool (eobj z sz) L m2 pool (set ?es)" unfolding set by (rule zpool_frame [OF _ t3(1)]) simp
  then have en2: "entries z L sz ?s m2 ?es" using init ins(3,6) zs by (simp add: entries_def)
  have items: "\<forall>k. x \<notin> port_items sz (port_key d) (set es) (port_vid_key d) (set es) k"
    "\<forall>v. x \<notin> vid_items sz (vlan_of d) (set es) v" if "x \<in> ?N" for x
  proof -
    have o: "\<And>y. y \<in> set es \<union> set es \<Longrightarrow> eobj z sz y" using entries_eobj [OF en] by blast
    show "\<forall>k. x \<notin> port_items sz (port_key d) (set es) (port_vid_key d) (set es) k"
      using that N [OF that] port_items_new [OF o e(3)] e(1,3) o by (auto simp: item_addrs_def port_items_def eobj_def)
    have "z x = ZVid" if "x \<in> vid_items sz (vlan_of d) (set es) v" for v
      using that o unfolding vid_items_def eobj_def by auto
    moreover have "z x \<noteq> ZVid \<or> x = e + vid_fltr_entry sz" using that e(3) by (auto simp: item_addrs_def eobj_def)
    ultimately show "\<forall>v. x \<notin> vid_items sz (vlan_of d) (set es) v" using vid_items_new [OF e(1)] by metis
  qed
  obtain fs where fl: "filters z L s m fs (port_items sz (port_key d) (set es) (port_vid_key d) (set es))"
    and vl: "vlans z s m (vid_items sz (vlan_of d) (set es))" using ls by (auto simp: lists_def)
  have "filters z L s m1 fs (port_items sz (port_key d) (set es) (port_vid_key d) (set es))"
    by (rule filters_frame [OF fl t1(1)]) auto
  then have "filters z L s ?m fs (port_items sz (port_key d) (set es) (port_vid_key d) (set es))"
    by (rule filters_fresh [OF _ clear_entry_props(1,2)]) (use N items(1) in fastforce)
  then have "filters z L s m2 fs (port_items sz (port_key d) (set es) (port_vid_key d) (set es))"
    by (rule filters_frame [OF _ t3(1)]) auto
  then have "filters z L ?s m2 fs (port_items sz (port_key d) (set es) (port_vid_key d) (set es))"
    by (simp add: filters_state [of ?s s])
  moreover have "vlans z ?s m2 (vid_items sz (vlan_of d) (set es))"
  proof -
    have "vlans z s m1 (vid_items sz (vlan_of d) (set es))" by (rule vlans_frame [OF vl refl t1(1)]) auto
    then have "vlans z s ?m (vid_items sz (vlan_of d) (set es))"
    proof (rule vlans_cong [OF _ refl])
      show "p_next ?m x = p_next m1 x \<and> p_prev ?m x = p_prev m1 x" if "x \<notin> ?N" for x
        using clear_entry_props(1) [where sz = sz and e = e and m = m1] that by (simp add: agree_on_def)
      show "z x \<noteq> ZVlan \<and> (\<forall>v. x \<notin> vid_items sz (vlan_of d) (set es) v)" if "x \<in> ?N" for x
        using N [OF that] items(2) [OF that] by auto
    qed
    then show ?thesis by (rule vlans_frame [OF _ _ t3(1)]) auto
  qed
  ultimately have ls2: "lists_of z L sz ?s m2 d (set es)" by (auto simp: lists_def)
  have rec: "record_at m2 x = record_at m x" if "x \<noteq> e" for x
    using that t1(2) t3(2) clear_entry_props(3-5) [of x e] by (simp add: record_at_def same_data_def)
  have run: "fdb_uc_db_create_record os sz s key e0 m w = Some (0, e, ?s, m2, w)"
    using init get e(2) ins(1) c by (simp add: fdb_uc_db_create_record_def)
  have upd: "keyed k f ?es = (keyed k f es)(key \<mapsto> f e)" if "\<forall>x\<in>set es. k x = p_key m x" "k e = key" for k f
    using keyed_insert [of k e ys f zs] that key ins(2) by auto
  have keys: "p_key m2 e = key" "\<forall>x\<in>set es. p_key m2 x = p_key m x" using ins(4) key1 e(1) by auto
  have free: "p_next m2 (e + vid_fltr_entry sz) = 0" "p_next m2 (e + port_fltr_entry sz) = 0"
  proof -
    have "p_next ?m (e + vid_fltr_entry sz) = 0" "p_next ?m (e + port_fltr_entry sz) = 0"
      by (simp_all add: clear_mac_entry_def clear_list_item_def Let_def)
    moreover have "z (e + vid_fltr_entry sz) \<notin> {ZMap, ZEntry}" "z (e + port_fltr_entry sz) \<notin> {ZMap, ZEntry}"
      using e(3) by (auto simp: eobj_def)
    ultimately show "p_next m2 (e + vid_fltr_entry sz) = 0" "p_next m2 (e + port_fltr_entry sz) = 0"
      using touches_at(1) [OF t3(1)] by simp_all
  qed
  show ?thesis
    using run e(1,2) en2 ls2 set keys upd rec c(2) free
    by - (rule exI, rule exI, rule exI, rule exI [of _ ?es], rule conjI, assumption, simp, blast)
qed

section \<open>Adding\<close>

lemma keyed_update:
  assumes "distinct (map k xs)" and "x \<in> set xs" and "\<And>y. y \<in> set xs \<Longrightarrow> k' y = k y"
    and "\<And>y. y \<in> set xs \<Longrightarrow> y \<noteq> x \<Longrightarrow> f' y = f y"
  shows "keyed k' f' xs = (keyed k f xs)(k x \<mapsto> f' x)"
proof -
  from assms(2) obtain ys zs where s: "xs = ys @ x # zs" "x \<notin> set ys" by (metis split_list_first)
  have n: "k x \<notin> k ` set ys" "x \<notin> set zs" using assms(1) by (auto simp: s(1))
  have "keyed k' f' xs = keyed k f' xs" by (rule keyed_cong) (use assms(3) in auto)
  moreover have "keyed k f' (ys @ zs) = keyed k f (ys @ zs)"
    by (rule keyed_cong) (use assms(4) s n(2) in auto)
  ultimately show ?thesis using keyed_insert [OF n(1), of f' zs] keyed_insert [OF n(1), of f zs] by (simp add: s(1))
qed

lemma set_record_props:
  assumes "set_record e p m = (err, m')"
  shows "err = 0" "touches z A m m'" "p_key m' = p_key m"
    "record_at m' x = (if x = e then record_at m p else record_at m x)"
    "mac_params m' x = (if x = e then mac_params m p else mac_params m x)"
  using assms by (auto simp: set_record_def Let_def touches_def agree_on_def record_at_def)

lemma lists_frame:
  assumes "lists z L s m M V" and t: "touches z {} m m'"
  shows "lists z L s m' M V"
proof -
  from assms(1) obtain fs where "filters z L s m fs M" "vlans z s m V" by (auto simp: lists_def)
  with filters_frame [OF _ t, of L s fs M] vlans_frame [OF _ refl t, of s V] show ?thesis by (auto simp: lists_def)
qed

lemma lists_of_cong:
  assumes "\<And>e. e \<in> E \<Longrightarrow> mac_params d' e = mac_params d e"
  shows "lists_of z L sz s m d' E \<longleftrightarrow> lists_of z L sz s m d E"
proof -
  have "port_items sz (port_key d') E (port_vid_key d') E = port_items sz (port_key d) E (port_vid_key d) E"
    by (rule port_items_cong) (use assms in \<open>simp_all add: port_key_def port_vid_key_def\<close>)
  moreover have "vid_items sz (vlan_of d') E = vid_items sz (vlan_of d) E"
    by (rule vid_items_cong) (use assms in \<open>simp add: vlan_of_def\<close>)
  ultimately show ?thesis by simp
qed

text \<open>There are at most as many lists as ports and entries together.\<close>

lemma keys_bound:
  assumes "finite E" "finite P" and "\<And>e. e \<in> E \<Longrightarrow> log_port (mac_params d e) \<in> P"
  shows "card (port_key d ` E \<union> port_vid_key d' ` E) \<le> card P + card E"
proof -
  have "port_key d ` E \<subseteq> BUILD_PORT_KEY ` P" using assms(3) by (auto simp: port_key_def)
  then have "card (port_key d ` E) \<le> card (BUILD_PORT_KEY ` P)" by (intro card_mono) (use assms(2) in auto)
  also have "\<dots> \<le> card P" by (rule card_image_le [OF assms(2)])
  finally show ?thesis
    using card_Un_le [of "port_key d ` E" "port_vid_key d' ` E"] card_image_le [OF assms(1), of "port_vid_key d'"] by linarith
qed

definition ports :: "fdb_mem \<Rightarrow> u64 set \<Rightarrow> u64 set" where
  "ports m E = (\<lambda>e. log_port (mac_params m e)) ` E"

lemma fdb_change:
  assumes db: "fdb z L sz s m es" and x: "x \<in> set es" and p: "p_key m x = entry_key m p" "vlan_of m p < MAX_VLAN_ENTRIES"
    and fit: "card (ports m (insert p (set es))) + capacity (main_db_pool s) \<le> capacity (fdb_fltr_pool s)"
  shows "\<exists>s' m'. fill_record os sz s False x p m w = Some (0, s', m', w) \<and> fdb z L sz s' m' es \<and>
    db_of m' es = (db_of m es)(p_key m x \<mapsto> record_at m p) \<and> main_db_pool s' = main_db_pool s \<and>
    capacity (fdb_fltr_pool s') = capacity (fdb_fltr_pool s)"
proof -
  let ?E = "set es"
  have en: "entries z L sz s m es" and ls: "lists_of z L sz s m m ?E"
    and keys: "\<And>e. e \<in> ?E \<Longrightarrow> p_key m e = entry_key m e \<and> vlan_of m e < MAX_VLAN_ENTRIES"
    using db by (simp_all add: fdb_def)
  obtain err m1 where set: "set_record x p m = (err, m1)" by (metis surj_pair)
  note sr = set_record_props [OF set]
  have par: "mac_params m1 e = (if e = x then mac_params m p else mac_params m e)" for e by (rule sr(5))
  have x0: "x \<noteq> 0"
    using entries_eobj [OF en x] ls filters_init unfolding lists_def eobj_def by (metis zone.distinct)
  have "mac_addr (mac_params m p) = mac_addr (mac_params m x)" and vid: "vid (mac_params m p) = vid (mac_params m x)"
    using p(1) keys [OF x] key_inj unfolding entry_key_def by metis+
  have len: "card ?E \<le> capacity (main_db_pool s)" using entries_length [OF en] by simp
  have P: "log_port (mac_params m1 e) \<in> ports m (insert p ?E)" if "e \<in> ?E" for e
    using that by (auto simp: ports_def par)
  have "card (port_key m1 ` ?E \<union> port_vid_key d' ` ?E) \<le> card (ports m (insert p ?E)) + card ?E" for d'
    by (rule keys_bound [OF _ _ P]) (auto simp: ports_def)
  then have cap: "card (port_key m1 ` ?E \<union> port_vid_key d' ` ?E) \<le> capacity (fdb_fltr_pool s)" for d'
    using len fit by (meson add_left_mono le_trans)
  have ls1: "lists_of z L sz s m1 m ?E" by (rule lists_frame [OF ls sr(2)])
  have same: "e \<in> ?E \<Longrightarrow> e \<noteq> x \<Longrightarrow> mac_params m1 e = mac_params m e" "vid (mac_params m1 x) = vid (mac_params m x)" for e
    using par vid by simp_all
  from filter_modified_entry [OF ls1 finite_set entries_eobj [OF en] x x0 same cap cap, of os w] obtain s' m' where
    run: "fdb_uc_db_filter_modified_entry os sz s (Some (mac_params m x)) x m1 w = Some (0, s', m', w)"
    and st: "lists_step z s m1 s' m'" and ls': "lists_of z L sz s' m' m1 ?E" by blast
  have en1: "entries z L sz s m1 es" by (rule entries_frame(1) [OF en sr(2)]) auto
  note le = lists_step_entries [OF st en1]
  have mp: "mac_params m' = mac_params m1" using le(5) by (simp add: same_data_def)
  have k': "p_key m' e = p_key m e" if "e \<in> ?E" for e using le(2) [OF that] sr(3) by simp
  have "fdb z L sz s' m' es"
    unfolding fdb_def
  proof (intro conjI ballI)
    show "lists_of z L sz s' m' m' ?E" by (rule iffD2 [OF lists_of_cong ls']) (simp add: mp)
    fix e assume e: "e \<in> ?E"
    show "p_key m' e = entry_key m' e"
      using k' [OF e] keys [OF e] p(1) by (cases "e = x") (simp_all add: entry_key_def mp par)
    show "vlan_of m' e < MAX_VLAN_ENTRIES" using keys [OF e] p(2) by (simp add: vlan_of_def mp par)
  qed (rule le(1))
  moreover have "db_of m' es = (db_of m es)(p_key m x \<mapsto> record_at m p)"
  proof -
    have "record_at m' = record_at m1" by (rule record_same_data [OF le(5)])
    then have r: "record_at m' e = (if e = x then record_at m p else record_at m e)" for e using sr(4) by simp
    have "distinct (map (p_key m) es)" using en qmap_wf_keys unfolding entries_def by blast
    from keyed_update [OF this x k', of "record_at m'" "record_at m"] r show ?thesis by (simp add: db_of_def)
  qed
  moreover have "fill_record os sz s False x p m w = Some (0, s', m', w)"
    using run set sr(1) by (simp add: fill_record_def)
  ultimately show ?thesis using le(3,4) by blast
qed

lemma fdb_new:
  assumes db: "fdb z L sz s m es" and p: "entry_key m p \<notin> p_key m ` set es" "vlan_of m p < MAX_VLAN_ENTRIES" "z p = ZNone"
    and fit: "card (ports m (insert p (set es))) + capacity (main_db_pool s) \<le> capacity (fdb_fltr_pool s)"
    and room: "length es < capacity (main_db_pool s)"
  shows "\<exists>e s1 m1 s' m' es'. fdb_uc_db_create_record os sz s (entry_key m p) e0 m w = Some (0, e, s1, m1, w) \<and>
    fill_record os sz s1 True e p m1 w = Some (0, s', m', w) \<and> fdb z L sz s' m' es' \<and>
    db_of m' es' = (db_of m es)(entry_key m p \<mapsto> record_at m p) \<and>
    capacity (main_db_pool s') = capacity (main_db_pool s) \<and> capacity (fdb_fltr_pool s') = capacity (fdb_fltr_pool s)"
proof -
  let ?E = "set es" and ?key = "entry_key m p"
  have en: "entries z L sz s m es" and ls: "lists_of z L sz s m m ?E"
    and keys: "\<And>e. e \<in> ?E \<Longrightarrow> p_key m e = entry_key m e \<and> vlan_of m e < MAX_VLAN_ENTRIES"
    using db by (simp_all add: fdb_def)
  from create_record [OF en ls p(1) room, of os e0 w] obtain e s1 m1 es' where
    cr: "fdb_uc_db_create_record os sz s ?key e0 m w = Some (0, e, s1, m1, w)" "e \<noteq> 0" "e \<notin> ?E"
      "entries z L sz s1 m1 es'" "lists_of z L sz s1 m1 m ?E"
      "\<forall>k (f :: u64 \<Rightarrow> oes_fdb_uc_mac_addr_params \<times> u64 \<times> fdb_uc_mac_entry_type).
        (\<forall>x\<in>?E. k x = p_key m x) \<longrightarrow> k e = ?key \<longrightarrow> keyed k f es' = (keyed k f es)(?key \<mapsto> f e)"
      "set es' = insert e ?E" "p_key m1 e = ?key" "\<forall>x\<in>?E. p_key m1 x = p_key m x"
      "\<forall>x. x \<noteq> e \<longrightarrow> record_at m1 x = record_at m x" "fdb_fltr_pool s1 = fdb_fltr_pool s"
      "capacity (main_db_pool s1) = capacity (main_db_pool s)"
    by (elim exE conjE)
  have eo: "eobj z sz x" if "x \<in> insert e ?E" for x using entries_eobj [OF cr(4)] that cr(7) by simp
  have pe: "p \<noteq> e" "p \<notin> ?E" using p(3) eo by (auto simp: eobj_def)
  obtain err m2 where set: "set_record e p m1 = (err, m2)" by (metis surj_pair)
  note sr = set_record_props [OF set]
  have rec: "record_at m2 x = (if x = e then record_at m p else record_at m x)" for x
    using sr(4) [of x] cr(10) pe(1) by simp
  have par: "mac_params m2 x = (if x = e then mac_params m p else mac_params m x)" for x
    using rec [of x] by (auto simp: record_at_def split: if_split_asm)
  have ls2: "lists_of z L sz s1 m2 m2 ?E"
    by (rule iffD2 [OF lists_of_cong lists_frame [OF cr(5) sr(2)]]) (use par cr(3) in auto)
  have P: "log_port (mac_params m2 x) \<in> ports m (insert p ?E)" if "x \<in> insert e ?E" for x
    using that by (auto simp: ports_def par)
  have "card (insert e ?E) \<le> capacity (main_db_pool s)"
    using room entries_length(1) [OF en] cr(3) by simp
  moreover have "card (keys_in_use m2 (insert e ?E)) \<le> card (ports m (insert p ?E)) + card (insert e ?E)"
    by (rule keys_bound [OF _ _ P]) (auto simp: ports_def)
  ultimately have cap: "card (keys_in_use m2 (insert e ?E)) \<le> capacity (fdb_fltr_pool s1)"
    unfolding cr(11) using fit by (meson add_left_mono le_trans)
  have v: "vlan_of m2 e < MAX_VLAN_ENTRIES" using p(2) by (simp add: vlan_of_def par)
  from filter_add_entry [OF ls2 finite_set eo cr(3,2) refl v cap, of os w] obtain s' m' where
    run: "fdb_uc_db_filter_add_entry os sz s1 e m2 w = Some (0, s', m', w)" and st: "lists_step z s1 m2 s' m'"
    and ls': "lists_of z L sz s' m' m2 (insert e ?E)" by blast
  have en2: "entries z L sz s1 m2 es'" by (rule entries_frame(1) [OF cr(4) sr(2)]) auto
  note le = lists_step_entries [OF st en2]
  have mp: "mac_params m' = mac_params m2" using le(5) by (simp add: same_data_def)
  have k': "p_key m' x = (if x = e then ?key else p_key m x)" if "x \<in> set es'" for x
    using le(2) [OF that] sr(3) cr(7-9) that by auto
  have "fdb z L sz s' m' es'"
    unfolding fdb_def cr(7)
  proof (intro conjI ballI)
    show "lists_of z L sz s' m' m' (insert e ?E)" by (rule iffD2 [OF lists_of_cong ls']) (simp add: mp)
    fix x assume x: "x \<in> insert e ?E"
    then show "p_key m' x = entry_key m' x"
      using k' [of x] keys [of x] cr(3,7) by (auto simp: entry_key_def mp par)
    show "vlan_of m' x < MAX_VLAN_ENTRIES" using x keys [of x] p(2) by (auto simp: vlan_of_def mp par)
  qed (rule le(1))
  moreover have "db_of m' es' = (db_of m es)(?key \<mapsto> record_at m p)"
  proof -
    have r: "record_at m' x = (if x = e then record_at m p else record_at m x)" for x
      using record_same_data [OF le(5)] rec by simp
    have k: "p_key m' x = p_key m x" if "x \<in> ?E" for x using k' [of x] that cr(3,7) by auto
    have ke: "p_key m' e = ?key" using k' [of e] cr(7) by simp
    have "\<forall>x\<in>?E. p_key m' x = p_key m x" using k by blast
    with spec [OF spec [OF cr(6), of "p_key m'"], of "record_at m'"] ke
    have "keyed (p_key m') (record_at m') es' = (keyed (p_key m') (record_at m') es)(?key \<mapsto> record_at m' e)" by blast
    moreover have "keyed (p_key m') (record_at m') es = keyed (p_key m) (record_at m) es"
      by (rule keyed_cong) (use k r cr(3) in auto)
    ultimately show ?thesis by (simp add: db_of_def r)
  qed
  moreover have "fill_record os sz s1 True e p m1 w = Some (0, s', m', w)"
    using run set sr(1) by (simp add: fill_record_def)
  ultimately show ?thesis
    using cr(1,11,12) le(3,4)
    by - (rule exI, rule exI, rule exI, rule exI, rule exI, rule exI [of _ es'], rule conjI, assumption, rule conjI, assumption, simp)
qed

text \<open>
  An entry of which the VLAN is out of range is not linked, but it stays in the map, and it cannot be deleted.
\<close>

lemma fdb_bad_vlan:
  assumes db: "fdb z L sz s m es" and p: "p \<noteq> 0" "entry_key m p \<notin> p_key m ` set es" "\<not> vlan_of m p < MAX_VLAN_ENTRIES" "z p = ZNone"
    and room: "length es < capacity (main_db_pool s)"
  shows "\<exists>s' m' es' e. fdb_uc_db_add_record os sz s p m w = Some (- EPERM, s', m', w) \<and>
    entries z L sz s' m' es' \<and> lists_of z L sz s' m' m' (set es) \<and> set es' = insert e (set es) \<and> e \<notin> set es \<and>
    db_of m' es' = (db_of m es)(entry_key m p \<mapsto> record_at m p) \<and>
    fdb_uc_db_get_record_by_key s' (entry_key m p) m' = Some (0, e) \<and>
    fdb_uc_db_delete_record sz s' e m' = Some (- EPERM, s', m')"
proof -
  let ?E = "set es" and ?key = "entry_key m p"
  have en: "entries z L sz s m es" and ls: "lists_of z L sz s m m ?E" using db by (simp_all add: fdb_def)
  from create_record [OF en ls p(2) room, of os 0 w] obtain e s1 m1 es' where
    cr: "fdb_uc_db_create_record os sz s ?key 0 m w = Some (0, e, s1, m1, w)" "e \<noteq> 0" "e \<notin> ?E"
      "entries z L sz s1 m1 es'" "lists_of z L sz s1 m1 m ?E"
      "\<forall>k (f :: u64 \<Rightarrow> oes_fdb_uc_mac_addr_params \<times> u64 \<times> fdb_uc_mac_entry_type).
        (\<forall>x\<in>?E. k x = p_key m x) \<longrightarrow> k e = ?key \<longrightarrow> keyed k f es' = (keyed k f es)(?key \<mapsto> f e)"
      "set es' = insert e ?E" "p_key m1 e = ?key" "\<forall>x\<in>?E. p_key m1 x = p_key m x"
      "\<forall>x. x \<noteq> e \<longrightarrow> record_at m1 x = record_at m x"
      "p_next m1 (e + vid_fltr_entry sz) = 0" "p_next m1 (e + port_fltr_entry sz) = 0"
    by (elim exE conjE)
  have "eobj z sz e" using entries_eobj [OF cr(4), of e] cr(7) by simp
  then have pe: "p \<noteq> e" using p(4) by (auto simp: eobj_def)
  obtain err m2 where set: "set_record e p m1 = (err, m2)" by (metis surj_pair)
  note sr = set_record_props [OF set]
  have rec: "record_at m2 x = (if x = e then record_at m p else record_at m x)" for x
    using sr(4) [of x] cr(10) pe by simp
  have par: "mac_params m2 x = (if x = e then mac_params m p else mac_params m x)" for x
    using rec [of x] by (auto simp: record_at_def split: if_split_asm)
  have en2: "entries z L sz s1 m2 es'" by (rule entries_frame(1) [OF cr(4) sr(2)]) auto
  have ls2: "lists_of z L sz s1 m2 m2 ?E"
    by (rule iffD2 [OF lists_of_cong lists_frame [OF cr(5) sr(2)]]) (use par cr(3) in auto)
  have init: "fdb_initiated s" "fdb_initiated s1" "filters_initiated s1"
    using en cr(4,5) filters_init unfolding entries_def lists_def by blast+
  have fill: "fill_record os sz s1 True e p m1 w = Some (- EPERM, s1, m2, w)"
    using set sr(1) init(3) cr(2) p(3) par [of e] by (simp add: fill_record_def fdb_uc_db_filter_add_entry_def vlan_of_def Let_def)
  have "find (\<lambda>x. ?key = p_key m x) es = None" using p(2) by (auto simp: find_None_iff)
  then have add: "fdb_uc_db_add_record os sz s p m w = Some (- EPERM, s1, m2, w)"
    using init(1) p(1) record_by_key [OF en, of ?key] cr(1) fill by (simp add: fdb_uc_db_add_record_def entry_key_def)
  have keys: "p_key m2 e = ?key" "\<forall>x\<in>?E. p_key m2 x = p_key m x" using sr(3) cr(8,9) by simp_all
  have "db_of m2 es' = (keyed (p_key m2) (record_at m2) es)(?key \<mapsto> record_at m2 e)"
    unfolding db_of_def using spec [OF spec [OF cr(6), of "p_key m2"], of "record_at m2"] keys by blast
  moreover have "keyed (p_key m2) (record_at m2) es = db_of m es"
    unfolding db_of_def by (rule keyed_cong) (use keys(2) rec cr(3) in auto)
  ultimately have dbm: "db_of m2 es' = (db_of m es)(?key \<mapsto> record_at m p)" by (simp add: rec)
  have get: "fdb_uc_db_get_record_by_key s1 ?key m2 = Some (0, e)"
  proof (cases "find (\<lambda>x. ?key = p_key m2 x) es'")
    case None
    then show ?thesis using cr(7) keys(1) by (auto simp: find_None_iff)
  next
    case (Some x)
    then have "x \<in> set es'" "p_key m2 x = ?key" by (auto dest: find_in_set)
    then have "x = e" using cr(7) keys(2) p(2) by (metis image_eqI insertE)
    with Some record_by_key [OF en2, of ?key] show ?thesis by simp
  qed
  have "p_next m2 = p_next m1" using set by (auto simp: set_record_def Let_def)
  then have "fdb_uc_db_delete_record sz s1 e m2 = Some (- EPERM, s1, m2)"
    using init(2,3) cr(2,11,12)
    by (simp add: fdb_uc_db_delete_record_def fdb_uc_db_filter_delete_entry_def delink_entry_from_fltr_list_def Let_def EPERM_def)
  with add en2 ls2 cr(3,7) dbm get show ?thesis
    by (intro exI [of _ s1] exI [of _ m2] exI [of _ es'] exI [of _ e]) simp
qed

lemma fdb_add:
  assumes db: "fdb z L sz s m es" and p: "p \<noteq> 0" "vlan_of m p < MAX_VLAN_ENTRIES" "z p = ZNone"
    and fit: "card (ports m (insert p (set es))) + capacity (main_db_pool s) \<le> capacity (fdb_fltr_pool s)"
  shows "\<exists>err s' m' es'. fdb_uc_db_add_record os sz s p m w = Some (err, s', m', w) \<and> fdb z L sz s' m' es' \<and>
    capacity (main_db_pool s') = capacity (main_db_pool s) \<and> capacity (fdb_fltr_pool s') = capacity (fdb_fltr_pool s) \<and>
    (if entry_key m p \<in> dom (db_of m es) \<or> length es < capacity (main_db_pool s)
     then err = 0 \<and> db_of m' es' = (db_of m es)(entry_key m p \<mapsto> record_at m p)
     else err = - ENOMEM \<and> s' = s \<and> m' = m \<and> es' = es)"
proof -
  let ?key = "entry_key m p"
  have en: "entries z L sz s m es" and ls: "lists_of z L sz s m m (set es)" using db by (simp_all add: fdb_def)
  have init: "fdb_initiated s" using en by (simp add: entries_def)
  have dom: "dom (db_of m es) = p_key m ` set es" by (simp add: db_of_def keyed_dom)
  note get = record_by_key [OF en, of ?key]
  have key: "FDB_UC_CONVERT_MAC_VLAN_TO_KEY (mac_addr (mac_params m p)) (vid (mac_params m p)) = ?key"
    by (simp add: entry_key_def)
  show ?thesis
  proof (cases "find (\<lambda>e. ?key = p_key m e) es")
    case (Some x)
    then have x: "x \<in> set es" "p_key m x = ?key" by (auto dest: find_in_set)
    from fdb_change [OF db x p(2) fit, of os w] obtain s' m' where
      ch: "fill_record os sz s False x p m w = Some (0, s', m', w)" "fdb z L sz s' m' es"
        "db_of m' es = (db_of m es)(?key \<mapsto> record_at m p)" "main_db_pool s' = main_db_pool s"
        "capacity (fdb_fltr_pool s') = capacity (fdb_fltr_pool s)" using x(2) by auto
    have "fdb_uc_db_add_record os sz s p m w = Some (0, s', m', w)"
      using init p(1) get Some ch(1) by (simp add: fdb_uc_db_add_record_def key ENOENT_def)
    moreover have "?key \<in> dom (db_of m es)" using x unfolding dom by force
    ultimately show ?thesis using ch by auto
  next
    case None
    then have nk: "?key \<notin> p_key m ` set es" by (auto simp: find_None_iff)
    show ?thesis
    proof (cases "length es < capacity (main_db_pool s)")
      case True
      from fdb_new [OF db nk p(2,3) fit True, of os 0 w] obtain e s1 m1 s' m' es' where
        nw: "fdb_uc_db_create_record os sz s ?key 0 m w = Some (0, e, s1, m1, w)"
          "fill_record os sz s1 True e p m1 w = Some (0, s', m', w)" "fdb z L sz s' m' es'"
          "db_of m' es' = (db_of m es)(?key \<mapsto> record_at m p)"
          "capacity (main_db_pool s') = capacity (main_db_pool s)" "capacity (fdb_fltr_pool s') = capacity (fdb_fltr_pool s)"
        by blast
      have "fdb_uc_db_add_record os sz s p m w = Some (0, s', m', w)"
        using init p(1) get None nw(1,2) by (simp add: fdb_uc_db_add_record_def key)
      with nw True show ?thesis by auto
    next
      case False
      from create_full [OF en False, of os ?key 0 w] have "fdb_uc_db_add_record os sz s p m w = Some (- ENOMEM, s, m, w)"
        using init p(1) get None by (simp add: fdb_uc_db_add_record_def key ENOMEM_def)
      with False nk dom db show ?thesis by auto
    qed
  qed
qed

end
