(* ===== verification/Fdb_Enum.thy ===== *)
theory Fdb_Enum
  imports Fdb_Ops
begin

text \<open>
  Deleting an entry of the forwarding database, enumerating the entries of a VLAN or a port, and counting
  them. A filter is used the way \<^verbatim>\<open>lib_ctrl_learn.c\<close> uses it: the first entry and the cookie of the list
  first, then the next entry until there is none.
\<close>

section \<open>Deleting\<close>

lemma entries_delete:
  assumes en: "entries z L sz s m es" and x: "x \<in> set es"
  shows "\<exists>q m1 pool m2. cl_qmap_remove_item (fdb_map s) x m = Some (q, m1) \<and> cl_pool_put (main_db_pool s) x m1 = (pool, m2) \<and>
    entries z L sz (s\<lparr>fdb_map := q, main_db_pool := pool\<rparr>) m2 (remove1 x es) \<and> set (remove1 x es) = set es - {x} \<and>
    (\<forall>e\<in>set es. p_key m2 e = p_key m e) \<and> touches z {ZMap, ZEntry, ZPool} m m2 \<and> same_data m m2 \<and>
    capacity pool = capacity (main_db_pool s)"
proof -
  let ?q = "fdb_map s"
  have wf: "qmap_wf ?q m es" and zp: "zpool z ZPool (eobj z sz) L m (main_db_pool s) (set es)"
    using en by (simp_all add: entries_def)
  from qmap_remove_item_wf [OF wf x] obtain m1 where
    rem: "cl_qmap_remove_item ?q x m = Some (?q\<lparr>qm_count := qm_count ?q - 1\<rparr>, m1)"
      "qmap_wf (?q\<lparr>qm_count := qm_count ?q - 1\<rparr>) m1 (remove1 x es)" "p_key m1 = p_key m"
      "same_outside (qmap_area ?q es) m m1" by blast
  let ?q' = "?q\<lparr>qm_count := qm_count ?q - 1\<rparr>"
  have t1: "touches z {ZMap, ZEntry} m m1" "same_data m m1"
    using same_outside_touches [OF rem(4), of z "{ZMap, ZEntry}"] entries_area [OF en] by blast+
  obtain pool m2 where put: "cl_pool_put (main_db_pool s) x m1 = (pool, m2)" by (metis surj_pair)
  have "zpool z ZPool (eobj z sz) L m1 (main_db_pool s) (set es)" by (rule zpool_frame [OF zp t1(1)]) auto
  note p = zpool_put [OF this x put]
  have set: "set (remove1 x es) = set es - {x}" using set_remove1_eq [OF qmap_wf_distinct [OF wf]] .
  have "touches z {ZMap, ZEntry, ZPool} m m2"
    by (rule touches_mono [OF touches_trans [OF t1(1), where B = "{ZPool}"]]) (use p in auto)
  moreover have "\<forall>e\<in>set es. p_key m2 e = p_key m e"
    using touches_at(3) [of z "{ZPool}" m1 m2] p entries_eobj [OF en] rem(3) by (simp add: eobj_def)
  moreover have "qmap_wf ?q' m2 (remove1 x es)"
  proof (rule qmap_wf_zones [OF rem(2)])
    show "touches z {ZPool} m1 m2" using p by blast
    show "z y \<in> {ZMap, ZEntry}" if "y \<in> qmap_area ?q' (remove1 x es)" for y
      by (rule entries_area [OF en]) (use that set in \<open>auto simp: qmap_area_def\<close>)
  qed auto
  moreover from this have "entries z L sz (s\<lparr>fdb_map := ?q', main_db_pool := pool\<rparr>) m2 (remove1 x es)"
    using en p set by (simp add: entries_def)
  moreover have "same_data m m2" by (rule same_data_trans [OF t1(2)]) (use p in simp)
  moreover have "capacity pool = capacity (main_db_pool s)" using p by simp
  ultimately show ?thesis
    using rem(1) put set
    by - (rule exI [of _ ?q'], rule exI [of _ m1], rule exI [of _ pool], rule exI [of _ m2], simp)
qed

lemma lists_other_zones:
  assumes "lists z L s m M V" and t: "touches z {ZMap, ZEntry, ZPool} m m'"
    and s: "filters_initiated s' = filters_initiated s" "fbd_filter_map s' = fbd_filter_map s"
      "fdb_fltr_pool s' = fdb_fltr_pool s" "fdb_vlan_list s' = fdb_vlan_list s"
  shows "lists z L s' m' M V"
proof -
  from assms(1) obtain fs where fl: "filters z L s m fs M" and vl: "vlans z s m V" by (auto simp: lists_def)
  have "filters z L s m' fs M" by (rule filters_frame [OF fl t]) auto
  moreover have "vlans z s' m' V" by (rule vlans_frame [OF vl s(4) t]) auto
  ultimately show ?thesis using filters_state [OF s(1-3), of z L m' fs M] by (auto simp: lists_def)
qed

lemma fdb_delete:
  assumes db: "fdb z L sz s m es" and x: "x \<in> set es"
  shows "\<exists>s' m'. fdb_uc_db_delete_record sz s x m = Some (0, s', m') \<and> fdb z L sz s' m' (remove1 x es) \<and>
    db_of m' (remove1 x es) = (db_of m es)(p_key m x := None) \<and>
    capacity (main_db_pool s') = capacity (main_db_pool s) \<and> capacity (fdb_fltr_pool s') = capacity (fdb_fltr_pool s) \<and>
    same_data m m' \<and> next_kept z {x + vid_fltr_entry sz, x + port_fltr_entry sz, x + vid_port_fltr_entry sz} m m'"
proof -
  let ?E = "set es" and ?es = "remove1 x es"
  have en: "entries z L sz s m es" and ls: "lists_of z L sz s m m ?E"
    and keys: "\<And>e. e \<in> ?E \<Longrightarrow> p_key m e = entry_key m e \<and> vlan_of m e < MAX_VLAN_ENTRIES"
    using db by (simp_all add: fdb_def)
  have init: "fdb_initiated s" using en by (simp add: entries_def)
  have x0: "x \<noteq> 0"
    using entries_eobj [OF en x] ls filters_init unfolding lists_def eobj_def by (metis zone.distinct)
  from filter_delete_entry [OF ls entries_eobj [OF en] x] keys [OF x] obtain s1 m1 where
    del: "fdb_uc_db_filter_delete_entry sz s x m = Some (0, s1, m1)" "lists_step z s m s1 m1"
      "lists_of z L sz s1 m1 m (?E - {x})"
      "next_kept z {x + vid_fltr_entry sz, x + port_fltr_entry sz, x + vid_port_fltr_entry sz} m m1" by blast
  note le = lists_step_entries [OF del(2) en]
  from entries_delete [OF le(1) x] obtain q m2 pool m3 where
    rem: "cl_qmap_remove_item (fdb_map s1) x m1 = Some (q, m2)" "cl_pool_put (main_db_pool s1) x m2 = (pool, m3)"
      "entries z L sz (s1\<lparr>fdb_map := q, main_db_pool := pool\<rparr>) m3 ?es" "set ?es = ?E - {x}"
      "\<forall>e\<in>?E. p_key m3 e = p_key m1 e" "touches z {ZMap, ZEntry, ZPool} m1 m3" "same_data m1 m3"
      "capacity pool = capacity (main_db_pool s1)" by (elim exE conjE)
  let ?s = "s1\<lparr>fdb_map := q, main_db_pool := pool\<rparr>"
  have sd: "same_data m m3" by (rule same_data_trans [OF le(5) rem(7)])
  have k: "p_key m3 e = p_key m e" if "e \<in> ?E" for e using rem(5) le(2) that by simp
  have "lists_of z L sz ?s m3 m (set ?es)" unfolding rem(4) by (rule lists_other_zones [OF del(3) rem(6)]) simp_all
  then have "fdb z L sz ?s m3 ?es"
    using rem(3) rem(4) keys k by (simp add: fdb_def keys_same_data [OF sd])
  moreover have "db_of m3 ?es = (db_of m es)(p_key m x := None)"
  proof -
    have "distinct (map (p_key m) es)" using en qmap_wf_keys unfolding entries_def by blast
    moreover have "keyed (p_key m3) (record_at m3) ?es = keyed (p_key m) (record_at m) ?es"
      by (rule keyed_cong) (use k rem(4) record_same_data [OF sd] in auto)
    ultimately show ?thesis using keyed_remove1 [of "p_key m" es x "record_at m"] x by (simp add: db_of_def)
  qed
  moreover have "fdb_uc_db_delete_record sz s x m = Some (0, ?s, m3)"
    using init x0 del(1) rem(1,2) by (simp add: fdb_uc_db_delete_record_def)
  moreover have "next_kept z {x + vid_fltr_entry sz, x + port_fltr_entry sz, x + vid_port_fltr_entry sz} m m3"
    using next_kept_trans [OF del(4) touches_next_kept [OF rem(6), of "{}"]] by simp
  ultimately show ?thesis using rem(8) le(3,4) sd by (intro exI [of _ ?s] exI [of _ m3]) simp
qed

section \<open>Enumerating\<close>

definition filter_offset :: "size_t \<Rightarrow> fdb_uc_key_filter \<Rightarrow> u64" where
  "filter_offset sz f = (if filter_by_log_port f \<and> filter_by_vid f then vid_port_fltr_entry sz
     else if filter_by_log_port f then port_fltr_entry sz else vid_fltr_entry sz)"

definition matches :: "fdb_mem \<Rightarrow> fdb_uc_key_filter \<Rightarrow> u64 \<Rightarrow> bool" where
  "matches m f e \<longleftrightarrow> (filter_by_vid f \<longrightarrow> vid (mac_params m e) = filter_vid f) \<and>
    (filter_by_log_port f \<longrightarrow> log_port (mac_params m e) = filter_log_port f)"

partial_function (option) enumerate_from ::
  "size_t \<Rightarrow> 'w fdb_state \<Rightarrow> fdb_uc_key_filter \<Rightarrow> u64 \<Rightarrow> u64 \<Rightarrow> fdb_mem \<Rightarrow> u64 list option" where
  "enumerate_from sz s f cookie e m =
    (if e = 0 then Some []
     else
       let (err, e') = fdb_uc_db_get_next_record_by_filter sz s (Some f) cookie e 0 m
       in if err \<noteq> 0 then None
          else Option.bind (enumerate_from sz s f cookie e' m) (\<lambda>es. Some (e # es)))"

definition enumerate_filter :: "size_t \<Rightarrow> 'w fdb_state \<Rightarrow> fdb_uc_key_filter \<Rightarrow> fdb_mem \<Rightarrow> u64 list option" where
  "enumerate_filter sz s f m =
    Option.bind (fdb_uc_db_get_first_record_by_filter sz s (Some f) (Some 0) (Some 0) m) (\<lambda>(err, cookie, item).
      if err \<noteq> 0 then None
      else Option.bind cookie (\<lambda>c. Option.bind item (\<lambda>e. enumerate_from sz s f c e m)))"

text \<open>The entries \<open>es\<close> follow each other in a list up to its end \<open>c\<close>, through the items at the offset \<open>off\<close>.\<close>

fun chain :: "fdb_mem \<Rightarrow> u64 \<Rightarrow> u64 \<Rightarrow> u64 list \<Rightarrow> bool" where
  "chain m off c [] \<longleftrightarrow> True"
| "chain m off c (e # es) \<longleftrightarrow> p_next m (e + off) = (if es = [] then c else hd es + off) \<and>
    (es \<noteq> [] \<longrightarrow> hd es + off \<noteq> c) \<and> chain m off c es"

definition head_of :: "u64 list \<Rightarrow> u64" where
  "head_of es = (if es = [] then 0 else hd es)"

lemma head_of_simps [simp]: "head_of [] = 0" "head_of (e # es) = e"
  by (simp_all add: head_of_def)

lemma ring_chain: "qlist_at m c (ys @ xs) \<Longrightarrow> chain m off c (map (\<lambda>x. x - off) xs)"
proof (induction xs arbitrary: ys)
  case (Cons x xs)
  have "p_next m x = hd (xs @ [c])" by (rule qlist_at_next [OF Cons.prems])
  moreover have "hd xs \<noteq> c" if "xs \<noteq> []" using Cons.prems that unfolding qlist_at_def by (cases xs) auto
  moreover have "chain m off c (map (\<lambda>x. x - off) xs)" by (rule Cons.IH [of "ys @ [x]"]) (use Cons.prems in simp)
  ultimately show ?case by (cases xs) auto
qed simp

lemma next_by_filter:
  assumes "filters_initiated s" and "filter_by_vid f \<or> filter_by_log_port f" and "c \<noteq> 0" "e \<noteq> 0" "e + filter_offset sz f \<noteq> 0"
    and "chain m (filter_offset sz f) c (e # es)"
  shows "fdb_uc_db_get_next_record_by_filter sz s (Some f) c e tmp m = (0, head_of es)"
  using assms
  by (cases es) (auto simp: fdb_uc_db_get_next_record_by_filter_def fdb_uc_db_filter_get_next_entry_def filter_offset_def
      cl_qlist_next_def Let_def split: if_split_asm)

lemma enumerate_chain:
  assumes "filters_initiated s" and "filter_by_vid f \<or> filter_by_log_port f" and "c \<noteq> 0"
    and "chain m (filter_offset sz f) c es" and "\<And>e. e \<in> set es \<Longrightarrow> e \<noteq> 0 \<and> e + filter_offset sz f \<noteq> 0"
  shows "enumerate_from sz s f c (head_of es) m = Some es"
  using assms(4,5)
proof (induction es)
  case Nil
  then show ?case by (subst enumerate_from.simps) simp
next
  case (Cons e es)
  then have "enumerate_from sz s f c (head_of es) m = Some es" by simp
  moreover have "e \<noteq> 0" "e + filter_offset sz f \<noteq> 0" using Cons.prems(2) [of e] by simp_all
  ultimately show ?case
    using next_by_filter [OF assms(1-3) _ _ Cons.prems(1), of 0] by (subst enumerate_from.simps) simp
qed

lemma list_result:
  assumes xs: "set xs = (\<lambda>e. e + off) ` A" "distinct xs"
  shows "set (map (\<lambda>x. x - off) xs) = (A :: u64 set)" "distinct (map (\<lambda>x. x - off) xs)"
proof -
  show "set (map (\<lambda>x. x - off) xs) = A" using xs(1) by (simp add: image_image)
  show "distinct (map (\<lambda>x. x - off) xs)" using xs(2) by (simp add: distinct_map inj_on_def)
qed

text \<open>The items in a list of the map are those of the entries that match.\<close>

lemma port_items_match:
  assumes P: "\<And>e. e \<in> E \<Longrightarrow> log_port (mac_params m e) < 2 ^ 32" and port: "port < 2 ^ 32"
  shows "port_items sz (port_key m) E (port_vid_key m) E (BUILD_PORT_KEY port) =
      (\<lambda>e. e + port_fltr_entry sz) ` {e \<in> E. log_port (mac_params m e) = port}"
    "port_items sz (port_key m) E (port_vid_key m) E (BUILD_PORT_VID_KEY port v) =
      (\<lambda>e. e + vid_port_fltr_entry sz) ` {e \<in> E. log_port (mac_params m e) = port \<and> vid (mac_params m e) = v}"
proof -
  have k: "port_key m e = BUILD_PORT_KEY port \<longleftrightarrow> log_port (mac_params m e) = port"
    "port_vid_key m e \<noteq> BUILD_PORT_KEY port" "port_key m e \<noteq> BUILD_PORT_VID_KEY port v"
    "port_vid_key m e = BUILD_PORT_VID_KEY port v \<longleftrightarrow> log_port (mac_params m e) = port \<and> vid (mac_params m e) = v"
    if "e \<in> E" for e
    using port_keys [OF P [OF that] port] port_keys(3) [OF port P [OF that]]
    by (simp_all add: port_key_def port_vid_key_def eq_commute)
  show "port_items sz (port_key m) E (port_vid_key m) E (BUILD_PORT_KEY port) =
      (\<lambda>e. e + port_fltr_entry sz) ` {e \<in> E. log_port (mac_params m e) = port}"
    using k(1,2) by (auto simp: port_items_def)
  show "port_items sz (port_key m) E (port_vid_key m) E (BUILD_PORT_VID_KEY port v) =
      (\<lambda>e. e + vid_port_fltr_entry sz) ` {e \<in> E. log_port (mac_params m e) = port \<and> vid (mac_params m e) = v}"
    using k(3,4) by (auto simp: port_items_def)
qed

lemma filter_head:
  assumes fl: "filters z L s m fs M"
  obtains (none) "cl_qmap_get (fbd_filter_map s) k m = Some (cl_qmap_end (fbd_filter_map s))" "M k = {}"
  | (list) g xs where "cl_qmap_get (fbd_filter_map s) k m = Some g" "g \<noteq> cl_qmap_end (fbd_filter_map s)"
      "qlist_at m (g + fltr_head_offset) xs" "set xs = M k" "xs \<noteq> []" "g + fltr_head_offset \<noteq> 0" "z (g + fltr_head_offset) = ZHead"
proof -
  have f0: "filters0 z L s m fs M" using fl by (simp add: filters_def)
  note get = filter_get [OF f0, of k]
  show thesis
  proof (cases "find (\<lambda>f. k = p_key m f) fs")
    case None
    then have "k \<notin> p_key m ` set fs" by (auto simp: find_None_iff)
    then have "M k = {}" using f0 unfolding filters0_def index_def by blast
    with get None none show thesis by simp
  next
    case (Some g)
    then have g: "g \<in> set fs" "p_key m g = k" by (auto dest: find_in_set)
    then have "list_of m g (M k)" "M k \<noteq> {}" using fl f0 by (auto simp: filters_def filters0_def index_def)
    then obtain xs where xs: "qlist_at m (g + fltr_head_offset) xs" "set xs = M k" "xs \<noteq> []" unfolding list_of_def by (metis empty_set)
    have "g + fltr_head_offset \<noteq> 0" "z (g + fltr_head_offset) = ZHead"
      using filters0_fobj [OF f0 g(1)] f0 by (auto simp: fobj_def filters0_def)
    with list [OF _ filter_item(2) [OF f0 g(1)] xs] get Some show thesis by simp
  qed
qed

text \<open>What the first entry of a filter gives: the end of the list and the first of the entries that match.\<close>

definition starts :: "(u64 \<Rightarrow> zone) \<Rightarrow> size_t \<Rightarrow> fdb_uc_key_filter \<Rightarrow> fdb_mem \<Rightarrow> (int \<times> u64 option \<times> u64 option) option \<Rightarrow> u64 set \<Rightarrow> bool" where
  "starts z sz f m r A \<longleftrightarrow> (\<exists>xs c. r = Some (0, Some (if xs = [] then 0 else c), Some (head_of xs)) \<and>
    z c \<in> {ZVlan, ZHead} \<and> chain m (filter_offset sz f) c xs \<and> distinct xs \<and> set xs = A)"

lemma starts_none: "A = {} \<Longrightarrow> z c \<in> {ZVlan, ZHead} \<Longrightarrow> starts z sz f m (Some (0, Some 0, Some 0)) A"
  unfolding starts_def by (rule exI [of _ "[]"]) auto

lemma ring_first: "qlist_at m c (y # ys) \<Longrightarrow> p_next m c = y \<and> p_prev m y = c"
  using qlist_at_first [of m c "y # ys"] qlist_at_prev [of m c "[]" y ys] by simp

lemma starts_ring:
  assumes "qlist_at m c (y # ys)" and "set (y # ys) = (\<lambda>e. e + filter_offset sz f) ` A" and "z c \<in> {ZVlan, ZHead}"
  shows "starts z sz f m (Some (0, Some c, Some (y - filter_offset sz f))) A"
proof -
  let ?o = "filter_offset sz f" and ?xs = "map (\<lambda>x. x - filter_offset sz f) (y # ys)"
  have "distinct (y # ys)" using assms(1) by (simp add: qlist_at_def)
  from list_result [OF assms(2) this] have d: "set ?xs = A" "distinct ?xs" .
  have ch: "chain m ?o c ?xs" using ring_chain [of m c "[]" "y # ys"] assms(1) by simp
  show "starts z sz f m (Some (0, Some c, Some (y - ?o))) A"
    unfolding starts_def by (rule exI [of _ ?xs], rule exI [of _ c]) (use d ch assms(3) in simp)
qed

lemma starts_in_map:
  assumes fl: "filters z L s m fs M" and M: "M k = (\<lambda>e. e + filter_offset sz f) ` A" and c: "z c \<in> {ZVlan, ZHead}"
  shows "starts z sz f m (get_first_in_map s k (filter_offset sz f) m) A"
proof (cases rule: filter_head [OF fl, of k])
  case 1
  then show ?thesis using starts_none [of A z c sz f m] c M by (simp add: get_first_in_map_def)
next
  case (2 g xs)
  let ?c = "g + fltr_head_offset"
  obtain y ys where y: "xs = y # ys" using 2(5) by (cases xs) auto
  have "starts z sz f m (Some (0, Some ?c, Some (y - filter_offset sz f))) A"
    by (rule starts_ring [OF 2(3) [unfolded y]]) (use 2(4,7) M y in simp_all)
  with ring_first [OF 2(3) [unfolded y]] show ?thesis
    using 2(1,2) by (simp add: y get_first_in_map_def fltr_head_def cl_qlist_head_def cl_qlist_next_def Let_def)
qed

lemma starts_in_vlan:
  assumes vl: "vlans z s m V" and V: "V v = (\<lambda>e. e + vid_fltr_entry sz) ` A"
    and f: "filter_by_vid f" "\<not> filter_by_log_port f" "unat (filter_vid f) = v" "v < MAX_VLAN_ENTRIES"
    and init: "filters_initiated s" and n: "card A < 2 ^ 32"
  shows "starts z sz f m (fdb_uc_db_get_first_record_by_filter sz s (Some f) (Some 0) (Some 0) m) A"
proof -
  let ?l = "fdb_vlan_list s ! v"
  from vlans_list [OF vl f(4)] obtain xs where xs: "qlist m ?l xs" "set xs = V v" "z (ql_end ?l) = ZVlan" .
  have at: "qlist_at m (ql_end ?l) xs" "distinct xs" using xs(1) qlist_distinct [OF xs(1)] by (simp_all add: qlist_def)
  have o: "filter_offset sz f = vid_fltr_entry sz" using f by (simp add: filter_offset_def)
  have "inj_on (\<lambda>e. e + vid_fltr_entry sz) A" by (simp add: inj_on_def)
  then have "length xs = card A" using distinct_card [OF at(2)] V xs(2) by (simp add: card_image)
  then have em: "cl_is_qlist_empty ?l \<longleftrightarrow> xs = []" using qlist_empty_iff [OF xs(1)] n by simp
  have len: "length (fdb_vlan_list s) = MAX_VLAN_ENTRIES" using vl by (simp add: vlans_def)
  have c: "z (ql_end ?l) \<in> {ZVlan, ZHead}" using xs(3) by simp
  show ?thesis
  proof (cases xs)
    case Nil
    then have "A = {}" using xs(2) V by simp
    then show ?thesis
      using starts_none [of A z "ql_end ?l" sz f m] c em init f len Nil by (simp add: fdb_uc_db_get_first_record_by_filter_def fdb_uc_db_filter_get_first_entry_def)
  next
    case (Cons y ys)
    have "starts z sz f m (Some (0, Some (ql_end ?l), Some (y - filter_offset sz f))) A"
      by (rule starts_ring [OF at(1) [unfolded Cons]]) (use xs(2) V o Cons c in simp_all)
    with ring_first [OF at(1) [unfolded Cons]] show ?thesis
      using o em init f len Cons
      by (simp add: fdb_uc_db_get_first_record_by_filter_def fdb_uc_db_filter_get_first_entry_def cl_qlist_head_def
          cl_qlist_next_def Let_def)
  qed
qed

lemma fdb_first:
  assumes db: "fdb z L sz s m es" and f: "filter_by_vid f \<or> filter_by_log_port f"
    and v: "filter_by_log_port f \<or> unat (filter_vid f) < MAX_VLAN_ENTRIES"
    and P: "\<And>e. e \<in> set es \<Longrightarrow> log_port (mac_params m e) < 2 ^ 32" "filter_log_port f < 2 ^ 32"
  shows "starts z sz f m (fdb_uc_db_get_first_record_by_filter sz s (Some f) (Some 0) (Some 0) m) {e \<in> set es. matches m f e}"
proof -
  let ?A = "{e \<in> set es. matches m f e}"
  have en: "entries z L sz s m es" and ls: "lists_of z L sz s m m (set es)" using db by (simp_all add: fdb_def)
  obtain fs where fl: "filters z L s m fs (port_items sz (port_key m) (set es) (port_vid_key m) (set es))"
    and vl: "vlans z s m (vid_items sz (vlan_of m) (set es))" using ls by (auto simp: lists_def)
  have init: "filters_initiated s" using filters_init [OF fl] by simp
  have "0 < MAX_VLAN_ENTRIES" by (simp add: MAX_VLAN_ENTRIES_def)
  from vlans_list [OF vl this] have c: "z (ql_end (fdb_vlan_list s ! 0)) \<in> {ZVlan, ZHead}" by auto
  note pm = port_items_match [where E = "set es" and m = m and sz = sz, OF P]
  have fst: "fdb_uc_db_get_first_record_by_filter sz s (Some f) (Some 0) (Some 0) m =
      get_first_in_map s (if filter_by_vid f then BUILD_PORT_VID_KEY (filter_log_port f) (filter_vid f)
        else BUILD_PORT_KEY (filter_log_port f)) (filter_offset sz f) m" if "filter_by_log_port f"
    using that init
    by (simp add: fdb_uc_db_get_first_record_by_filter_def fdb_uc_db_filter_get_first_entry_def filter_offset_def)
  consider (both) "filter_by_log_port f" "filter_by_vid f" | (port) "filter_by_log_port f" "\<not> filter_by_vid f"
    | (vid) "filter_by_vid f" "\<not> filter_by_log_port f" using f by blast
  then show ?thesis
  proof cases
    case both
    show ?thesis
      unfolding fst [OF both(1)]
      by (rule starts_in_map [OF fl _ c]) (use both pm(2) in \<open>auto simp: filter_offset_def matches_def conj_commute\<close>)
  next
    case port
    show ?thesis
      unfolding fst [OF port(1)]
      by (rule starts_in_map [OF fl _ c]) (use port pm(1) in \<open>auto simp: filter_offset_def matches_def\<close>)
  next
    case vid
    have A: "?A = {e \<in> set es. vlan_of m e = unat (filter_vid f)}"
      using vid by (auto simp: matches_def vlan_of_def dest: unsigned_word_eqI)
    have "capacity (main_db_pool s) < 2 ^ 32" using en by (simp add: entries_def zpool_def fixed_def capacity_def word_less_nat_alt)
    moreover have "card ?A \<le> card (set es)" by (rule card_mono) auto
    ultimately have n: "card ?A < 2 ^ 32" using entries_length [OF en] by linarith
    show ?thesis
      by (rule starts_in_vlan [OF vl _ vid refl _ init n]) (use v vid A in \<open>auto simp: vid_items_def\<close>)
  qed
qed

lemma fdb_items:
  assumes "fdb z L sz s m es"
  shows "filters_initiated s" "z 0 = ZNull" "e \<in> set es \<Longrightarrow> eobj z sz e"
    "e \<in> set es \<Longrightarrow> e \<noteq> 0 \<and> e + filter_offset sz f \<noteq> 0"
proof -
  have en: "entries z L sz s m es" using assms by (simp add: fdb_def)
  show init: "filters_initiated s" "z 0 = ZNull" using assms filters_init unfolding fdb_def lists_def by blast+
  show "e \<in> set es \<Longrightarrow> eobj z sz e" using entries_eobj [OF en] by blast
  show "e \<noteq> 0 \<and> e + filter_offset sz f \<noteq> 0" if "e \<in> set es"
    using entries_eobj [OF en that] init(2) by (auto simp: eobj_def filter_offset_def)
qed

lemma fdb_enumerate:
  assumes db: "fdb z L sz s m es" and f: "filter_by_vid f \<or> filter_by_log_port f"
    and v: "filter_by_log_port f \<or> unat (filter_vid f) < MAX_VLAN_ENTRIES"
    and P: "\<And>e. e \<in> set es \<Longrightarrow> log_port (mac_params m e) < 2 ^ 32" "filter_log_port f < 2 ^ 32"
  shows "\<exists>xs. enumerate_filter sz s f m = Some xs \<and> distinct xs \<and> set xs = {e \<in> set es. matches m f e}"
proof -
  from fdb_first [OF assms] obtain xs c where
    st: "fdb_uc_db_get_first_record_by_filter sz s (Some f) (Some 0) (Some 0) m =
        Some (0, Some (if xs = [] then 0 else c), Some (head_of xs))"
      "z c \<in> {ZVlan, ZHead}" "chain m (filter_offset sz f) c xs" "distinct xs" "set xs = {e \<in> set es. matches m f e}"
    by (auto simp: starts_def)
  have c: "c \<noteq> 0" using st(2) fdb_items(2) [OF db] by auto
  have "enumerate_filter sz s f m = Some xs"
  proof (cases xs)
    case Nil
    with st(1) show ?thesis by (simp add: enumerate_filter_def enumerate_from.simps)
  next
    case (Cons e es')
    have "enumerate_from sz s f c (head_of xs) m = Some xs"
      by (rule enumerate_chain [OF fdb_items(1) [OF db] f c st(3)]) (use fdb_items(4) [OF db] st(5) in blast)
    with st(1) Cons show ?thesis by (simp add: enumerate_filter_def)
  qed
  with st(4,5) show ?thesis by blast
qed

section \<open>Counting\<close>

lemma count_list:
  "qlist_at m c (ys @ xs) \<Longrightarrow> count_entries_loop (hd (xs @ [c])) c n m = Some (n + of_nat (length xs))"
proof (induction xs arbitrary: ys n)
  case Nil
  then show ?case by (subst count_entries_loop.simps) simp
next
  case (Cons x xs)
  have "x \<noteq> c" using Cons.prems by (auto simp: qlist_at_def)
  moreover have "p_next m x = hd (xs @ [c])" by (rule qlist_at_next [OF Cons.prems])
  moreover have "count_entries_loop (hd (xs @ [c])) c (n + 1) m = Some (n + 1 + of_nat (length xs))"
    by (rule Cons.IH [of "ys @ [x]"]) (use Cons.prems in simp)
  ultimately show ?case by (subst count_entries_loop.simps) (simp add: cl_qlist_next_def algebra_simps)
qed

lemma number_in_map_card:
  assumes fl: "filters z L s m fs M"
  shows "number_in_map s k c m = Some (0, of_nat (card (M k)))"
proof (cases rule: filter_head [OF fl, of k])
  case 1
  then show ?thesis using filters_init [OF fl] by (simp add: number_in_map_def)
next
  case (2 g xs)
  let ?c = "g + fltr_head_offset"
  have "count_entries_loop (p_next m ?c) ?c 0 m = Some (of_nat (length xs))"
    using count_list [of m ?c "[]" xs 0] 2(3) qlist_at_first [OF 2(3)] by simp
  moreover have "length xs = card (M k)" using 2(3,4) distinct_card [of xs] by (simp add: qlist_at_def)
  ultimately show ?thesis
    using 2(1,2) filters_init [OF fl]
    by (simp add: number_in_map_def fltr_head_def cl_qlist_head_def cl_qlist_next_def Let_def)
qed

lemma fdb_count_ports:
  assumes db: "fdb z L sz s m es" and P: "\<And>e. e \<in> set es \<Longrightarrow> log_port (mac_params m e) < 2 ^ 32" "port < 2 ^ 32"
  shows "fdb_uc_db_filter_get_number_of_port_entries s port c m =
      Some (0, of_nat (card {e \<in> set es. log_port (mac_params m e) = port}))"
    "fdb_uc_db_filter_get_number_of_port_vid_entries s port v c m =
      Some (0, of_nat (card {e \<in> set es. log_port (mac_params m e) = port \<and> vid (mac_params m e) = v}))"
proof -
  obtain fs where fl: "filters z L s m fs (port_items sz (port_key m) (set es) (port_vid_key m) (set es))"
    using db by (auto simp: fdb_def lists_def)
  have inj: "inj_on (\<lambda>e. e + off) A" for off :: u64 and A by (simp add: inj_on_def)
  note pm = port_items_match [where E = "set es" and m = m and sz = sz, OF P]
  show "fdb_uc_db_filter_get_number_of_port_entries s port c m =
      Some (0, of_nat (card {e \<in> set es. log_port (mac_params m e) = port}))"
    using number_in_map_card [OF fl, of "BUILD_PORT_KEY port" c] pm(1) inj
    by (simp add: fdb_uc_db_filter_get_number_of_port_entries_def card_image)
  show "fdb_uc_db_filter_get_number_of_port_vid_entries s port v c m =
      Some (0, of_nat (card {e \<in> set es. log_port (mac_params m e) = port \<and> vid (mac_params m e) = v}))"
    using number_in_map_card [OF fl, of "BUILD_PORT_VID_KEY port v" c] pm(2) inj
    by (simp add: fdb_uc_db_filter_get_number_of_port_vid_entries_def card_image)
qed

lemma fdb_count_vlan:
  assumes db: "fdb z L sz s m es"
  shows "fdb_uc_db_filter_get_number_of_vid_entries s v c = (0, of_nat (card {e \<in> set es. vid (mac_params m e) = v}))"
proof -
  have vl: "vlans z s m (vid_items sz (vlan_of m) (set es))" using db by (simp add: fdb_def lists_def)
  have init: "filters_initiated s" using db filters_init unfolding fdb_def lists_def by blast
  show ?thesis
  proof (cases "unat v < MAX_VLAN_ENTRIES")
    case True
    from vlans_list [OF vl True] obtain xs where
      xs: "qlist m (fdb_vlan_list s ! unat v) xs" "set xs = vid_items sz (vlan_of m) (set es) (unat v)" .
    have "vid_items sz (vlan_of m) (set es) (unat v) = (\<lambda>e. e + vid_fltr_entry sz) ` {e \<in> set es. vid (mac_params m e) = v}"
      by (auto simp: vid_items_def vlan_of_def dest: unsigned_word_eqI)
    moreover have "inj_on (\<lambda>e. e + vid_fltr_entry sz) A" for A by (simp add: inj_on_def)
    ultimately have "length xs = card {e \<in> set es. vid (mac_params m e) = v}"
      using xs(2) distinct_card [OF qlist_distinct [OF xs(1)]] by (simp add: card_image)
    with xs(1) init True show ?thesis
      by (simp add: fdb_uc_db_filter_get_number_of_vid_entries_def qlist_def ucast_of_nat_64_32)
  next
    case False
    have none: "{e \<in> set es. vid (mac_params m e) = v} = {}" using db False by (auto simp: fdb_def vlan_of_def)
    show ?thesis unfolding none using False init by (simp add: fdb_uc_db_filter_get_number_of_vid_entries_def)
  qed
qed

end
