(* ===== verification/Fdb_Example.thy ===== *)
theory Fdb_Example
  imports Fdb_Enum
begin

text \<open>
  A small forwarding database: a pool of one entry and a pool of two filter entries, nothing in use, and an entry
  outside the pools for the caller's parameters.
\<close>

definition ex_list :: "u64 \<Rightarrow> u64 \<Rightarrow> u64 cl_qlist_t" where
  "ex_list e n = \<lparr>ql_end = e, ql_count = n, ql_state = CL_INITIALIZED\<rparr>"

definition ex_pool :: "u64 \<Rightarrow> u64 \<Rightarrow> size_t \<Rightarrow> size_t \<Rightarrow> (fdb_mem, 'w) cl_pool_t" where
  "ex_pool fl al n bytes = \<lparr>pl_qcpool = \<lparr>qc_num_components = 1, qc_sizes_ptr = 0, qc_component_sizes = [bytes],
     qc_p_components = [], qc_num_objects = n, qc_max_objects = n, qc_grow_size = 0, qc_pfn_init = None, qc_pfn_dtor = None,
     qc_free_list = ex_list fl n, qc_alloc_list = ex_list al 1, qc_state = CL_INITIALIZED\<rparr>,
     pl_pfn_init = None, pl_pfn_dtor = None\<rparr>"

definition ex_vlan_end :: "nat \<Rightarrow> u64" where "ex_vlan_end v = of_nat (0x10000 + 32 * v)"

definition ex_fdb :: "'w fdb_state" where
  "ex_fdb = \<lparr>fdb_map = \<lparr>qm_root = 0x50, qm_nil = 0x60, qm_state = CL_INITIALIZED, qm_count = 0\<rparr>,
    main_db_pool = ex_pool 0x10 0x20 1 168, fdb_initiated = True, uc_db_verbosity = 0,
    fbd_filter_map = \<lparr>qm_root = 0x70, qm_nil = 0x80, qm_state = CL_INITIALIZED, qm_count = 0\<rparr>,
    fdb_fltr_pool = ex_pool 0x30 0x40 2 112, fdb_vlan_list = map (\<lambda>v. ex_list (ex_vlan_end v) 0) [0..<MAX_VLAN_ENTRIES],
    filters_initiated = True, filter_verbosity = 0\<rparr>"

definition ex_params :: oes_fdb_uc_mac_addr_params where
  "ex_params = \<lparr>mac_addr = \<lparr>octet0 = 0, octet1 = 2, octet2 = 201, octet3 = 1, octet4 = 2, octet5 = 3\<rparr>, vid = 5, log_port = 7, oes_entry_type = 1\<rparr>"

definition ex_fdb_mem :: fdb_mem where
  "ex_fdb_mem = \<lparr>p_next = (\<lambda>x. x)(0x10 := 0x1000, 0x1000 := 0x10, 0x20 := 0xF00, 0xF00 := 0x20,
       0x30 := 0x2000, 0x2000 := 0x2080, 0x2080 := 0x30, 0x40 := 0x1F00, 0x1F00 := 0x40),
    p_prev = (\<lambda>x. x)(0x10 := 0x1000, 0x1000 := 0x10, 0x20 := 0xF00, 0xF00 := 0x20,
       0x30 := 0x2080, 0x2000 := 0x30, 0x2080 := 0x2000, 0x40 := 0x1F00, 0x1F00 := 0x40),
    p_left = (\<lambda>x. x)(0x50 := 0x60, 0x70 := 0x80), p_right = (\<lambda>x. x)(0x50 := 0x60, 0x70 := 0x80),
    p_up = (\<lambda>x. x), color = (\<lambda>_. CL_MAP_BLACK), p_key = (\<lambda>_. 0),
    p_object = (\<lambda>_. 0)(0x1000 := 0x1018, 0x2000 := 0x2018, 0x2080 := 0x2098),
    mac_params = (\<lambda>_. ex_params), entry_cookie = (\<lambda>_. 9), entry_type = (\<lambda>_. FDB_UC_AGEABLE),
    head_count = (\<lambda>_. 0), head_state = (\<lambda>_. CL_UNINITIALIZED)\<rparr>"

definition ex_zone :: "u64 \<Rightarrow> zone" where
  "ex_zone = (\<lambda>x. if 0x10000 \<le> x \<and> x < 0x30000 then ZVlan else ZNone)
    (0 := ZNull, 0x10 := ZPool, 0x20 := ZPool, 0xF00 := ZPool, 0x1000 := ZPool, 0x1018 := ZEntry, 0x1078 := ZVid, 0x1088 := ZPort,
     0x1098 := ZPv, 0x30 := ZFPool, 0x40 := ZFPool, 0x1F00 := ZFPool, 0x2000 := ZFPool, 0x2018 := ZFltr, 0x2050 := ZHead,
     0x2080 := ZFPool, 0x2098 := ZFltr, 0x20D0 := ZHead, 0x50 := ZMap, 0x60 := ZMap, 0x70 := ZFMap, 0x80 := ZFMap)"

abbreviation ex_live :: "u64 set" where "ex_live \<equiv> {x. x \<noteq> 0}"

lemma ex_offsets: "vid_fltr_entry 24 = 96" "port_fltr_entry 24 = 112" "vid_port_fltr_entry 24 = 128"
  "sizeof_fdb_uc_mac_entry 24 = 144"
  by (simp_all add: vid_fltr_entry_def port_fltr_entry_def vid_port_fltr_entry_def sizeof_fdb_uc_mac_entry_def
      cookie_offset_def sizeof_cl_map_item_def ROUNDUP_def)

lemma ex_maps: "qmap_wf (fdb_map ex_fdb) ex_fdb_mem []" "qmap_wf (fbd_filter_map ex_fdb) ex_fdb_mem []"
proof -
  have "fmap_tree (as_fmap (fdb_map ex_fdb)) ex_fdb_mem Leaf" "fmap_tree (as_fmap (fbd_filter_map ex_fdb)) ex_fdb_mem Leaf"
    by (simp_all add: fmap_tree_def place_plug rb_tree_def ex_fdb_def as_fmap_def ex_fdb_mem_def)
  then show "qmap_wf (fdb_map ex_fdb) ex_fdb_mem []" "qmap_wf (fbd_filter_map ex_fdb) ex_fdb_mem []"
    by (auto simp: qmap_wf_def fmap_wf_def qlist_at_empty ex_fdb_def as_fmap_def ex_fdb_mem_def intro!: exI [of _ Leaf])
qed

lemma ex_main_pool: "zpool ex_zone ZPool (eobj ex_zone 24) ex_live ex_fdb_mem (main_db_pool ex_fdb) {}"
proof -
  have "layout ex_live 0 168 {0x10, 0x20, 0xF00} {0x1000}"
    by (auto simp: layout_def obj_span_def addr_range_def)
  then have "upool_rep ex_live ex_fdb_mem (main_db_pool ex_fdb) [0x1018] {} [0xF00]"
    by (simp add: upool_rep_def pool_rep_def ex_fdb_def ex_pool_def ex_list_def qlist_def qlist_at_def ex_fdb_mem_def
        pool_ends_def qcpool_obj_size_def insert_commute)
  moreover have "fixed (main_db_pool ex_fdb)" by (simp add: fixed_def ex_fdb_def ex_pool_def)
  ultimately show ?thesis
    unfolding zpool_def
    by (intro conjI exI [of _ "[0x1018]"] exI [of _ "[0xF00]"])
      (simp_all add: eobj_def ex_offsets ex_zone_def ex_fdb_def ex_pool_def ex_list_def pool_ends_def)
qed

lemma ex_filter_pool: "zpool ex_zone ZFPool (fobj ex_zone) ex_live ex_fdb_mem (fdb_fltr_pool ex_fdb) {}"
proof -
  have "layout ex_live 0 112 {0x30, 0x40, 0x1F00} {0x2000, 0x2080}"
    by (auto simp: layout_def obj_span_def addr_range_def)
  then have "upool_rep ex_live ex_fdb_mem (fdb_fltr_pool ex_fdb) [0x2018, 0x2098] {} [0x1F00]"
    by (simp add: upool_rep_def pool_rep_def ex_fdb_def ex_pool_def ex_list_def qlist_def qlist_at_def ex_fdb_mem_def
        pool_ends_def qcpool_obj_size_def insert_commute)
  moreover have "fixed (fdb_fltr_pool ex_fdb)" by (simp add: fixed_def ex_fdb_def ex_pool_def)
  ultimately show ?thesis
    unfolding zpool_def
    by (intro conjI exI [of _ "[0x2018, 0x2098]"] exI [of _ "[0x1F00]"])
      (simp_all add: fobj_def fltr_head_offset_def ex_zone_def ex_fdb_def ex_pool_def ex_list_def pool_ends_def)
qed

lemma ex_vlan_ends: "v < 4096 \<Longrightarrow> unat (ex_vlan_end v) = 0x10000 + 32 * v"
  unfolding ex_vlan_end_def by (rule unat_of_nat64) simp

lemma ex_vlan_area:
  assumes "0x10000 \<le> x" "x < 0x30000"
  shows "ex_zone x = ZVlan" "p_next ex_fdb_mem x = x" "p_prev ex_fdb_mem x = x"
  using assms by (auto simp: ex_zone_def ex_fdb_mem_def)

lemma ex_vlans: "vlans ex_zone ex_fdb ex_fdb_mem (\<lambda>_. {})"
proof -
  have big: "0x10000 \<le> ex_vlan_end v" "ex_vlan_end v < 0x30000" if "v < 4096" for v
    using ex_vlan_ends [OF that] that by (simp_all add: word_le_nat_alt word_less_nat_alt)
  have zone: "ex_zone (ex_vlan_end v) = ZVlan" if "v < 4096" for v
    by (rule ex_vlan_area(1) [OF big [OF that]])
  have links: "p_next ex_fdb_mem (ex_vlan_end v) = ex_vlan_end v \<and> p_prev ex_fdb_mem (ex_vlan_end v) = ex_vlan_end v"
    if "v < 4096" for v using ex_vlan_area(2,3) [OF big [OF that]] by simp
  have max: "v < 4096" if "v < MAX_VLAN_ENTRIES" for v using that by (simp add: MAX_VLAN_ENTRIES_def)
  have ls: "fdb_vlan_list ex_fdb = map (\<lambda>v. ex_list (ex_vlan_end v) 0) [0..<MAX_VLAN_ENTRIES]" by (simp add: ex_fdb_def)
  have "inj_on ex_vlan_end {0..<MAX_VLAN_ENTRIES}"
  proof (rule inj_onI)
    fix u v assume uv: "u \<in> {0..<MAX_VLAN_ENTRIES}" "v \<in> {0..<MAX_VLAN_ENTRIES}" and eq: "ex_vlan_end u = ex_vlan_end v"
    have "u < 4096" "v < 4096" by (rule max, use uv in simp)+
    from ex_vlan_ends [OF this(1)] ex_vlan_ends [OF this(2)] have "0x10000 + 32 * u = 0x10000 + 32 * v" unfolding eq by (rule trans [OF sym])
    then show "u = v" by linarith
  qed
  then have "distinct (map ql_end (fdb_vlan_list ex_fdb))" by (simp add: ls ex_list_def comp_def distinct_map)
  then show ?thesis
    using zone links max by (auto simp: vlans_def ls ex_list_def qlist_def qlist_at_empty)
qed

lemma ex_fdb_ok: "fdb ex_zone ex_live 24 ex_fdb ex_fdb_mem []"
proof -
  have "entries ex_zone ex_live 24 ex_fdb ex_fdb_mem []"
    using ex_maps(1) ex_main_pool by (simp add: entries_def ex_fdb_def ex_zone_def)
  moreover have "filters ex_zone ex_live ex_fdb ex_fdb_mem [] (\<lambda>_. {})"
    using ex_maps(2) ex_filter_pool by (simp add: filters_def filters0_def index_def ex_fdb_def ex_zone_def)
  moreover have "port_items 24 h {} h' {} = (\<lambda>_. {})" "vid_items 24 h'' {} = (\<lambda>_. {})" for h h' h''
    by (auto simp: port_items_def vid_items_def)
  ultimately show ?thesis using ex_vlans by (auto simp: fdb_def lists_def)
qed

end
