(* ===== verification/Learn.thy ===== *)
theory Learn
  imports Fdb
begin

text \<open>
  The engine of the control learning library (\<^verbatim>\<open>lib_ctrl_learn.c\<close>): it takes the events of the switch and the calls
  of the user, asks a callback for approval, configures the hardware and keeps the forwarding database.

  The static variables are the record \<open>learn_state\<close>, with the database in \<open>learn_db\<close>; \<open>fdb_locked\<close> says that the
  spin lock is held, and acquiring a lock that is held does not return. The operating system, the
  interface of the switch (OES), the hardware layer and the callbacks of the user are parameters;
  a callback sees the records it is given and the world \<open>'w\<close>. \<open>None\<close> stands for a run that does not
  return and for an access outside an array or through a null pointer. \<open>frame\<close> is the
  address of the local variable \<^verbatim>\<open>mac_db_entry\<close>, \<open>stack\<close> and \<open>junk\<close> are what local and newly allocated variables hold.
\<close>

section \<open>Data\<close>

definition EXFULL :: int where "EXFULL = 54"
definition EOPNOTSUPP :: int where "EOPNOTSUPP = 95"
definition EEXIST :: int where "EEXIST = 17"

definition VID_MAX :: u16 where "VID_MAX = 4094"
definition CTRL_LEARN_FDB_NOTIFY_SIZE_MAX :: nat where "CTRL_LEARN_FDB_NOTIFY_SIZE_MAX = 670"
definition MAX_EVENT_INFO_SIZE :: nat where "MAX_EVENT_INFO_SIZE = CTRL_LEARN_FDB_NOTIFY_SIZE_MAX"
definition FDB_GROUP_ADDRESS_MASK :: u8 where "FDB_GROUP_ADDRESS_MASK = 1"

datatype oes_access_cmd = OES_ACCESS_CMD_ADD | OES_ACCESS_CMD_DELETE | OES_ACCESS_CMD_GET | OES_ACCESS_CMD_GET_FIRST |
  OES_ACCESS_CMD_GET_NEXT | OES_ACCESS_CMD_CREATE | OES_ACCESS_CMD_DESTROY | OES_ACCESS_CMD_OTHER

datatype oes_fdb_event_type = OES_FDB_EVENT_LEARN | OES_FDB_EVENT_AGE | OES_FDB_EVENT_FLUSH_ALL | OES_FDB_EVENT_FLUSH_VID |
  OES_FDB_EVENT_FLUSH_PORT | OES_FDB_EVENT_FLUSH_PORT_VID | OES_FDB_EVENT_OTHER

datatype oes_status_e = OES_STATUS_SUCCESS | OES_STATUS_ERROR | OES_STATUS_CMD_UNSUPPORTED | OES_STATUS_PARAM_ERROR |
  OES_STATUS_PARAM_EXCEEDS_RANGE | OES_STATUS_NO_MEMORY | OES_STATUS_OES_NOT_INITIALIZED | OES_STATUS_ENTRY_NOT_FOUND |
  OES_STATUS_ENTRY_ALREADY_EXISTS | OES_STATUS_NO_RESOURCES | OES_STATUS_OTHER

fun oes_status_to_errno :: "oes_status_e \<Rightarrow> int" where
  "oes_status_to_errno OES_STATUS_SUCCESS = 0"
| "oes_status_to_errno OES_STATUS_ERROR = - EPERM"
| "oes_status_to_errno OES_STATUS_CMD_UNSUPPORTED = - EOPNOTSUPP"
| "oes_status_to_errno OES_STATUS_PARAM_ERROR = - EINVAL"
| "oes_status_to_errno OES_STATUS_PARAM_EXCEEDS_RANGE = - EINVAL"
| "oes_status_to_errno OES_STATUS_NO_MEMORY = - EPERM"
| "oes_status_to_errno OES_STATUS_OES_NOT_INITIALIZED = - EPERM"
| "oes_status_to_errno OES_STATUS_ENTRY_NOT_FOUND = - ENOENT"
| "oes_status_to_errno OES_STATUS_ENTRY_ALREADY_EXISTS = - EEXIST"
| "oes_status_to_errno OES_STATUS_NO_RESOURCES = - EXFULL"
| "oes_status_to_errno OES_STATUS_OTHER = - EPERM"

datatype ctrl_learn_notify_decision = CTRL_LEARN_NOTIFY_DECISION_APPROVE | CTRL_LEARN_NOTIFY_DECISION_DENY

datatype cookie_op = COOKIE_OP_INIT | COOKIE_OP_DEINIT

record ctrl_learn_fdb_notify_record =
  event_type :: oes_fdb_event_type
  fbd_event_type :: oes_fdb_event_type
  fdb_entry :: oes_fdb_uc_mac_addr_params
  decision :: ctrl_learn_notify_decision
  record_entry_type :: fdb_uc_mac_entry_type
  record_cookie :: u64

record fdb_uc_mac_addr_params =
  mac_addr_params :: oes_fdb_uc_mac_addr_params
  addr_entry_type :: fdb_uc_mac_entry_type
  addr_cookie :: u64

record ctrl_learn_notify_params =
  interval_units :: u32
  size_threshold :: u32

text \<open>What the engine reads of an event; for the flush events the VLAN and the port are taken from the entry, too.\<close>

record oes_event_info =
  ev_type :: oes_fdb_event_type
  ev_entry :: oes_fdb_uc_mac_addr_params

type_synonym 'w ctrl_learn_notification_func =
  "ctrl_learn_fdb_notify_record list \<Rightarrow> u64 \<Rightarrow> 'w \<Rightarrow> int \<times> ctrl_learn_fdb_notify_record list \<times> 'w"
type_synonym 'w ctrl_learn_cookie_func = "cookie_op \<Rightarrow> u64 \<Rightarrow> 'w \<Rightarrow> int \<times> u64 \<times> 'w"

text \<open>
  The hardware layer gets a list of entries; when it fails it returns the entries that failed, otherwise the list as it
  was. \<open>hal_stub\<close> is the layer that is in the repository.
\<close>

record 'w ctrl_learn_hal =
  hal_uc_mac_addr_set :: "oes_access_cmd \<Rightarrow> int \<Rightarrow> fdb_uc_mac_addr_params list \<Rightarrow> 'w \<Rightarrow>
    int \<times> fdb_uc_mac_addr_params list \<times> 'w"
  hal_notify_params_set :: "int \<Rightarrow> ctrl_learn_notify_params \<Rightarrow> 'w \<Rightarrow> int \<times> 'w"

definition ctrl_learn_hal_fdb_uc_mac_addr_set ::
  "oes_access_cmd \<Rightarrow> int \<Rightarrow> fdb_uc_mac_addr_params list \<Rightarrow> 'w \<Rightarrow> int \<times> fdb_uc_mac_addr_params list \<times> 'w" where
  "ctrl_learn_hal_fdb_uc_mac_addr_set access_cmd br_id mac_entry w = (0, mac_entry, w)"

definition ctrl_learn_hal_fdb_notify_params_set :: "int \<Rightarrow> ctrl_learn_notify_params \<Rightarrow> 'w \<Rightarrow> int \<times> 'w" where
  "ctrl_learn_hal_fdb_notify_params_set br_id params w = (0, w)"

definition hal_stub :: "'w ctrl_learn_hal" where
  "hal_stub = \<lparr>hal_uc_mac_addr_set = ctrl_learn_hal_fdb_uc_mac_addr_set,
    hal_notify_params_set = ctrl_learn_hal_fdb_notify_params_set\<rparr>"

text \<open>The operating system and the switch. A boolean result says that the call succeeded.\<close>

record 'w learn_env =
  event_init :: "'w \<Rightarrow> bool \<times> 'w"
  event_destroy :: "'w \<Rightarrow> 'w"
  event_wait :: "'w \<Rightarrow> bool \<times> 'w"
  event_signal :: "'w \<Rightarrow> 'w"
  open_pipe :: "'w \<Rightarrow> bool \<times> 'w"
  close_pipes :: "'w \<Rightarrow> 'w"
  write_quit :: "'w \<Rightarrow> bool \<times> 'w"
  write_simulate :: "'w \<Rightarrow> bool \<times> 'w"
  read_quit :: "'w \<Rightarrow> 'w"
  read_simulate :: "'w \<Rightarrow> 'w"
  thread_init :: "'w \<Rightarrow> bool \<times> 'w"
  thread_destroy :: "'w \<Rightarrow> 'w"
  select_input :: "'w \<Rightarrow> (bool \<times> bool \<times> bool) option \<times> 'w"
  oes_event_fd_set :: "oes_access_cmd \<Rightarrow> 'w \<Rightarrow> oes_status_e \<times> 'w"
  oes_event_register_set :: "oes_access_cmd \<Rightarrow> int \<Rightarrow> 'w \<Rightarrow> oes_status_e \<times> 'w"
  oes_control_learn_set :: "int \<Rightarrow> bool \<Rightarrow> 'w \<Rightarrow> oes_status_e \<times> 'w"
  oes_event_recv :: "'w \<Rightarrow> oes_status_e \<times> oes_event_info list \<times> nat \<times> 'w"
  oes_flush_set :: "int \<Rightarrow> 'w \<Rightarrow> oes_status_e \<times> 'w"
  oes_flush_port_set :: "int \<Rightarrow> u64 \<Rightarrow> 'w \<Rightarrow> oes_status_e \<times> 'w"
  oes_flush_vid_set :: "int \<Rightarrow> u16 \<Rightarrow> 'w \<Rightarrow> oes_status_e \<times> 'w"
  oes_flush_port_vid_set :: "int \<Rightarrow> u16 \<Rightarrow> u64 \<Rightarrow> 'w \<Rightarrow> oes_status_e \<times> 'w"
  OES_FDB_STATIC :: u32
  OES_FDB_DYNAMIC :: u32
  OES_STATUS_CMD_UNSUPPORTED_code :: int

record 'w learn_state =
  learn_db :: "'w fdb_state"
  ctrl_learn_br_id :: int
  is_ctrl_learn_initialized :: bool
  muliple_fdb_notif_enabled :: bool
  learn_verbosity :: int
  event_info_sim :: "oes_event_info list"
  fdb_locked :: bool
  ctrl_learn_notification_cb :: "'w ctrl_learn_notification_func option"
  ctrl_learn_init_deinit_cb :: "'w ctrl_learn_cookie_func option"
  is_ctrl_learn_start :: bool
  ctrl_learn_stop_signal :: bool

text \<open>The whole state: static variables, memory, world.\<close>

type_synonym 'w learn = "'w learn_state \<times> fdb_mem \<times> 'w"

section \<open>Steps that several functions take\<close>

definition cl_spinlock_acquire :: "'w learn \<Rightarrow> 'w learn option" where
  "cl_spinlock_acquire t = (case t of (s, m, w) \<Rightarrow> if fdb_locked s then None else Some (s\<lparr>fdb_locked := True\<rparr>, m, w))"

definition cl_spinlock_release :: "'w learn \<Rightarrow> 'w learn" where
  "cl_spinlock_release t = (case t of (s, m, w) \<Rightarrow> (s\<lparr>fdb_locked := False\<rparr>, m, w))"

definition add_to_db :: "'w fdb_heap \<Rightarrow> size_t \<Rightarrow> u64 \<Rightarrow> 'w learn \<Rightarrow> (int \<times> 'w learn) option" where
  "add_to_db os sz p t = (case t of (s, m, w) \<Rightarrow>
    Option.bind (fdb_uc_db_add_record os sz (learn_db s) p m w) (\<lambda>(err, d, m, w). Some (err, s\<lparr>learn_db := d\<rparr>, m, w)))"

definition delete_from_db :: "size_t \<Rightarrow> u64 \<Rightarrow> 'w learn \<Rightarrow> (int \<times> 'w learn) option" where
  "delete_from_db sz e t = (case t of (s, m, w) \<Rightarrow>
    Option.bind (fdb_uc_db_delete_record sz (learn_db s) e m) (\<lambda>(err, d, m). Some (err, s\<lparr>learn_db := d\<rparr>, m, w)))"

text \<open>The callback for the cookie of the entry \<open>e\<close>; without a callback the error stays as it was.\<close>

definition call_cookie :: "cookie_op \<Rightarrow> u64 \<Rightarrow> int \<Rightarrow> 'w learn \<Rightarrow> int \<times> 'w learn" where
  "call_cookie op e err t = (case t of (s, m, w) \<Rightarrow>
    (case ctrl_learn_init_deinit_cb s of
       None \<Rightarrow> (err, s, m, w)
     | Some cb \<Rightarrow> let (err, c, w) = cb op (entry_cookie m e) w
                 in (err, s, m\<lparr>entry_cookie := (entry_cookie m)(e := c)\<rparr>, w)))"

text \<open>The cookie is released, then the record deleted.\<close>

definition drop_record :: "size_t \<Rightarrow> u64 \<Rightarrow> int \<Rightarrow> 'w learn \<Rightarrow> (int \<times> 'w learn) option" where
  "drop_record sz e err t = (let (err, t) = call_cookie COOKIE_OP_DEINIT e err t in delete_from_db sz e t)"

section \<open>Flushing the database\<close>

partial_function (option) flush_filter_loop ::
  "size_t \<Rightarrow> fdb_uc_key_filter \<Rightarrow> u64 \<Rightarrow> u64 \<Rightarrow> u64 \<Rightarrow> int \<Rightarrow> 'w learn \<Rightarrow> (int \<times> 'w learn) option" where
  "flush_filter_loop sz key_filter list_cookie mac_record_p tmp_record err t =
    (if mac_record_p \<noteq> 0
     then case t of (s, m, w) \<Rightarrow>
       let (err, tmp_record) = fdb_uc_db_get_next_record_by_filter sz (learn_db s) (Some key_filter) list_cookie
             mac_record_p tmp_record m
       in Option.bind (if entry_type m mac_record_p \<noteq> FDB_UC_STATIC then drop_record sz mac_record_p err t else Some (err, t))
            (\<lambda>(err, t). flush_filter_loop sz key_filter list_cookie tmp_record tmp_record err t)
     else Some (err, t))"

definition ctrl_learn_flush_db_by_filter :: "size_t \<Rightarrow> fdb_uc_key_filter \<Rightarrow> 'w learn \<Rightarrow> (int \<times> 'w learn) option" where
  "ctrl_learn_flush_db_by_filter sz key_filter t =
    Option.bind (cl_spinlock_acquire t) (\<lambda>(s, m, w).
      Option.bind (fdb_uc_db_get_first_record_by_filter sz (learn_db s) (Some key_filter) (Some 0) (Some 0) m)
        (\<lambda>(err, list_cookie, mac_record_p).
        if err \<noteq> 0 then Some (err, cl_spinlock_release (s, m, w))
        else Option.bind (flush_filter_loop sz key_filter (the list_cookie) (the mac_record_p) 0 err (s, m, w))
          (\<lambda>(err, t). Some (err, cl_spinlock_release t))))"

partial_function (option) flush_all_loop ::
  "size_t \<Rightarrow> u64 \<Rightarrow> u64 \<Rightarrow> int \<Rightarrow> 'w learn \<Rightarrow> (int \<times> 'w learn) option" where
  "flush_all_loop sz mac_record_p tmp_record err t =
    (if mac_record_p \<noteq> 0
     then case t of (s, m, w) \<Rightarrow>
       let (err, tmp_record) = fdb_uc_db_next_record (learn_db s) mac_record_p tmp_record m
       in Option.bind (if entry_type m mac_record_p \<noteq> FDB_UC_STATIC then drop_record sz mac_record_p err t else Some (err, t))
            (\<lambda>(err, t). flush_all_loop sz tmp_record tmp_record err t)
     else Some (err, t))"

definition ctrl_learn_handle_flush_all :: "size_t \<Rightarrow> 'w learn \<Rightarrow> (int \<times> 'w learn) option" where
  "ctrl_learn_handle_flush_all sz t =
    Option.bind (cl_spinlock_acquire t) (\<lambda>(s, m, w).
      let (err, mac_record_p) = fdb_uc_db_get_first_record (learn_db s) m
      in if err \<noteq> 0 then Some (err, cl_spinlock_release (s, m, w))
         else Option.bind (flush_all_loop sz mac_record_p 0 err (s, m, w))
           (\<lambda>(err, t). Some (err, cl_spinlock_release t)))"

section \<open>Approval\<close>

fun deny_loop :: "u32 \<Rightarrow> u32 \<Rightarrow> ctrl_learn_fdb_notify_record list \<Rightarrow> ctrl_learn_fdb_notify_record list" where
  "deny_loop num_approved processed_approved [] = []"
| "deny_loop num_approved processed_approved (r # rs) =
    (if event_type r = OES_FDB_EVENT_LEARN
     then (if processed_approved \<ge> num_approved then r\<lparr>decision := CTRL_LEARN_NOTIFY_DECISION_DENY\<rparr> else r) #
       deny_loop num_approved (processed_approved + 1) rs
     else r # deny_loop num_approved processed_approved rs)"

definition update_approved_list ::
  "'w learn_state \<Rightarrow> ctrl_learn_fdb_notify_record list \<Rightarrow> int \<times> ctrl_learn_fdb_notify_record list" where
  "update_approved_list s records =
    (let (err, cnt) = fdb_uc_db_get_free_pool_count (learn_db s) 0
     in if err \<noteq> 0 then (err, records)
        else if cnt < of_nat (length records) then (err, deny_loop cnt 0 records) else (err, records))"

definition approve_all :: "ctrl_learn_fdb_notify_record list \<Rightarrow> ctrl_learn_fdb_notify_record list" where
  "approve_all records = map (decision_update (\<lambda>_. CTRL_LEARN_NOTIFY_DECISION_APPROVE)) records"

section \<open>Events of the switch\<close>

definition notify_record_of ::
  "ctrl_learn_fdb_notify_record \<Rightarrow> oes_fdb_event_type \<Rightarrow> oes_fdb_uc_mac_addr_params \<Rightarrow> fdb_uc_mac_entry_type \<Rightarrow>
   ctrl_learn_fdb_notify_record" where
  "notify_record_of r ty entry ety = r\<lparr>event_type := ty, fbd_event_type := ty, fdb_entry := entry, record_entry_type := ety\<rparr>"

text \<open>
  The first loop: the records for the callback, the command, whether there was an entry to learn or to age out;
  a flush is carried out at once.
\<close>

fun events_loop ::
  "size_t \<Rightarrow> (nat \<Rightarrow> ctrl_learn_fdb_notify_record) \<Rightarrow> oes_event_info list \<Rightarrow> ctrl_learn_fdb_notify_record list \<Rightarrow>
   oes_access_cmd \<Rightarrow> bool \<Rightarrow> int \<Rightarrow> 'w learn \<Rightarrow>
   (ctrl_learn_fdb_notify_record list \<times> oes_access_cmd \<times> bool \<times> int \<times> 'w learn) option" where
  "events_loop sz stack [] records access_cmd learned err t = Some (records, access_cmd, learned, err, t)"
| "events_loop sz stack (e # es) records access_cmd learned err t =
    (let by_filter = (\<lambda>f. Option.bind (ctrl_learn_flush_db_by_filter sz f t) (\<lambda>(err, t).
           events_loop sz stack es records access_cmd learned err t))
     in case ev_type e of
       OES_FDB_EVENT_LEARN \<Rightarrow>
         events_loop sz stack es
           (records @ [notify_record_of (stack (length records)) OES_FDB_EVENT_LEARN (ev_entry e) FDB_UC_AGEABLE])
           OES_ACCESS_CMD_ADD True err t
     | OES_FDB_EVENT_AGE \<Rightarrow>
         events_loop sz stack es
           (records @ [notify_record_of (stack (length records)) OES_FDB_EVENT_AGE (ev_entry e) FDB_UC_AGEABLE])
           OES_ACCESS_CMD_DELETE True err t
     | OES_FDB_EVENT_FLUSH_ALL \<Rightarrow>
         Option.bind (ctrl_learn_handle_flush_all sz t) (\<lambda>(err, t).
           events_loop sz stack es records access_cmd learned err t)
     | OES_FDB_EVENT_FLUSH_VID \<Rightarrow>
         by_filter \<lparr>filter_by_vid = True, filter_vid = vid (ev_entry e), filter_by_log_port = False, filter_log_port = 0\<rparr>
     | OES_FDB_EVENT_FLUSH_PORT \<Rightarrow>
         by_filter \<lparr>filter_by_vid = False, filter_vid = 0, filter_by_log_port = True, filter_log_port = log_port (ev_entry e)\<rparr>
     | OES_FDB_EVENT_FLUSH_PORT_VID \<Rightarrow>
         by_filter \<lparr>filter_by_vid = True, filter_vid = vid (ev_entry e), filter_by_log_port = True,
           filter_log_port = log_port (ev_entry e)\<rparr>
     | OES_FDB_EVENT_OTHER \<Rightarrow> events_loop sz stack es records access_cmd learned err t)"

text \<open>The approved entries, in a list that was set to zero.\<close>

definition approved_of_event :: "'w learn_env \<Rightarrow> ctrl_learn_fdb_notify_record \<Rightarrow> fdb_uc_mac_addr_params" where
  "approved_of_event env r = \<lparr>mac_addr_params = fdb_entry r,
    addr_entry_type = (if oes_entry_type (fdb_entry r) = OES_FDB_STATIC env then FDB_UC_STATIC
      else if oes_entry_type (fdb_entry r) = OES_FDB_DYNAMIC env then FDB_UC_AGEABLE else FDB_UC_STATIC),
    addr_cookie = 0\<rparr>"

definition approved_records :: "ctrl_learn_fdb_notify_record list \<Rightarrow> ctrl_learn_fdb_notify_record list" where
  "approved_records records = filter (\<lambda>r. decision r = CTRL_LEARN_NOTIFY_DECISION_APPROVE) records"

text \<open>One approved entry: the local entry is filled and added; or the entry of the database is deleted.\<close>

definition learn_add ::
  "'w fdb_heap \<Rightarrow> size_t \<Rightarrow> u64 \<Rightarrow> 'w learn_env \<Rightarrow> fdb_uc_mac_addr_params \<Rightarrow> 'w learn \<Rightarrow> (int \<times> 'w learn) option" where
  "learn_add os sz frame env a t = (case t of (s, m, w) \<Rightarrow>
    let m = clear_mac_entry sz frame m;
        m = m\<lparr>mac_params := (mac_params m)(frame := mac_addr_params a)\<rparr>;
        (err, s, m, w) = call_cookie COOKIE_OP_INIT frame 0 (s, m, w);
        m = m\<lparr>entry_type := (entry_type m)(frame :=
          if oes_entry_type (mac_addr_params a) = OES_FDB_STATIC env then FDB_UC_STATIC else FDB_UC_AGEABLE)\<rparr>
    in Option.bind (cl_spinlock_acquire (s, m, w)) (\<lambda>t.
         Option.bind (add_to_db os sz frame t) (\<lambda>(err, t). Some (err, cl_spinlock_release t))))"

definition learn_delete :: "size_t \<Rightarrow> oes_fdb_uc_mac_addr_params \<Rightarrow> 'w learn \<Rightarrow> (int \<times> 'w learn) option" where
  "learn_delete sz a t =
    Option.bind (cl_spinlock_acquire t) (\<lambda>(s, m, w).
      Option.bind (fdb_uc_db_get_record_by_key (learn_db s) (FDB_UC_CONVERT_MAC_VLAN_TO_KEY (mac_addr a) (vid a)) m)
        (\<lambda>(err, mac_record_p).
        Option.bind (if mac_record_p \<noteq> 0 then drop_record sz mac_record_p err (s, m, w) else Some (err, s, m, w))
          (\<lambda>(err, t). Some (err, cl_spinlock_release t))))"

fun learn_loop ::
  "'w fdb_heap \<Rightarrow> size_t \<Rightarrow> u64 \<Rightarrow> 'w learn_env \<Rightarrow> oes_access_cmd \<Rightarrow> fdb_uc_mac_addr_params list \<Rightarrow>
   fdb_uc_mac_addr_params list \<Rightarrow> int \<Rightarrow> 'w learn \<Rightarrow> (int \<times> 'w learn) option" where
  "learn_loop os sz frame env access_cmd failed [] err t = Some (err, t)"
| "learn_loop os sz frame env access_cmd failed (a # as) err t =
    (if mac_addr_params a \<in> set (map mac_addr_params failed)
     then learn_loop os sz frame env access_cmd failed as err t
     else Option.bind
       (if access_cmd = OES_ACCESS_CMD_ADD then learn_add os sz frame env a t
        else if access_cmd = OES_ACCESS_CMD_DELETE then learn_delete sz (mac_addr_params a) t
        else Some (err, t))
       (\<lambda>(err, t). learn_loop os sz frame env access_cmd failed as err t))"

text \<open>
  The callback is asked with \<open>records\<close>. The hardware layer leaves the entries that failed in the list of the approved
  ones, and their number in its length.
\<close>

definition ask_callback ::
  "u64 \<Rightarrow> ctrl_learn_fdb_notify_record list \<Rightarrow> int \<Rightarrow> 'w learn \<Rightarrow> int \<times> ctrl_learn_fdb_notify_record list \<times> 'w learn" where
  "ask_callback originator_cookie records err t = (case t of (s, m, w) \<Rightarrow>
    (case ctrl_learn_notification_cb s of
       None \<Rightarrow> (err, records, s, m, w)
     | Some cb \<Rightarrow> let (err, records, w) = cb records originator_cookie w in (err, records, s, m, w)))"

definition configure_and_learn ::
  "'w fdb_heap \<Rightarrow> 'w ctrl_learn_hal \<Rightarrow> size_t \<Rightarrow> u64 \<Rightarrow> 'w learn_env \<Rightarrow> oes_access_cmd \<Rightarrow> fdb_uc_mac_addr_params list \<Rightarrow>
   int \<Rightarrow> 'w learn \<Rightarrow> (int \<times> 'w learn) option" where
  "configure_and_learn os hal sz frame env access_cmd approved err t = (case t of (s, m, w) \<Rightarrow>
    let (err, mac_addr_set_err, approved, failed, w) =
          (if approved \<noteq> []
           then let (err, approved, w) = hal_uc_mac_addr_set hal access_cmd (ctrl_learn_br_id s) approved w
                in (err, if err \<noteq> 0 \<and> err \<noteq> - EXFULL \<and> err \<noteq> - ENOENT then err else 0, approved,
                    if err \<noteq> 0 then approved else [], w)
           else (err, 0, approved, [], w))
    in Option.bind (learn_loop os sz frame env access_cmd failed approved err (s, m, w)) (\<lambda>(err, t).
         Some (if mac_addr_set_err \<noteq> 0 then mac_addr_set_err else err, t)))"

definition ctrl_learn_handle_oes_event ::
  "'w fdb_heap \<Rightarrow> 'w ctrl_learn_hal \<Rightarrow> size_t \<Rightarrow> u64 \<Rightarrow> 'w learn_env \<Rightarrow> (nat \<Rightarrow> ctrl_learn_fdb_notify_record) \<Rightarrow>
   oes_event_info list \<Rightarrow> nat \<Rightarrow> 'w learn \<Rightarrow> (int \<times> 'w learn) option" where
  "ctrl_learn_handle_oes_event os hal sz frame env stack event_info event_num t =
    (if length event_info < event_num \<or> CTRL_LEARN_FDB_NOTIFY_SIZE_MAX < event_num then None
     else Option.bind (events_loop sz stack (take event_num event_info) [] OES_ACCESS_CMD_ADD False 0 t)
       (\<lambda>(records, access_cmd, learned, err, t).
       let (err, records) = update_approved_list (fst t) (approve_all records);
           err = (if err \<noteq> 0 then - EPERM else err);
           (err, records, t) = ask_callback 0 records err t;
           approved = map (approved_of_event env) (approved_records records)
       in if learned then configure_and_learn os hal sz frame env access_cmd approved err t else Some (err, t)))"

end
