(* ===== verification/Learn_Api.thy ===== *)
theory Learn_Api
  imports Learn
begin

text \<open>
  The interface of the control learning library: start and end, the thread that takes the events of the switch, and
  the calls of the user that set, flush and read entries.
\<close>

section \<open>Start and end\<close>

definition ctrl_learn_log_verbosity_set :: "int \<Rightarrow> 'w learn_state \<Rightarrow> int \<times> 'w learn_state" where
  "ctrl_learn_log_verbosity_set verbosity_level s =
    (let s = s\<lparr>learn_verbosity := verbosity_level\<rparr>;
         (err, d) = fdb_uc_db_filter_log_verbosity_set verbosity_level (learn_db s);
         s = s\<lparr>learn_db := d\<rparr>
     in if err \<noteq> 0 then (err, s)
        else let (err, d) = fdb_uc_db_log_verbosity_set verbosity_level (learn_db s) in (err, s\<lparr>learn_db := d\<rparr>))"

definition ctrl_learn_log_verbosity_get :: "'w learn_state \<Rightarrow> int \<times> int" where
  "ctrl_learn_log_verbosity_get s = (0, learn_verbosity s)"

definition ctrl_learn_init ::
  "'w fdb_heap \<Rightarrow> size_t \<Rightarrow> 'w learn_env \<Rightarrow> int \<Rightarrow> bool \<Rightarrow> 'w learn \<Rightarrow> (int \<times> 'w learn) option" where
  "ctrl_learn_init os sz env br_id enable_multiple_fdb_notif t = (case t of (s, m, w) \<Rightarrow>
    let s = s\<lparr>ctrl_learn_br_id := br_id\<rparr>;
        (ok, w) = event_init env w
    in if \<not> ok then Some (- ENOMEM, s, m, w)
       else Option.bind (fdb_uc_db_init os sz (learn_db s) m w) (\<lambda>(err, d, m, w).
         let s = s\<lparr>learn_db := d\<rparr>
         in if err \<noteq> 0 then Some (- EPERM, s, m, w)
            else let (ok, w) = open_pipe env w
              in if \<not> ok then Some (- EPERM, s, m, w)
                 else let (ok, w) = open_pipe env w
                   in if \<not> ok then Some (- EPERM, s, m, w)
                      else let s = s\<lparr>fdb_locked := False\<rparr>; (ok, w) = thread_init env w;
                               (s, w) = (if ok then (s\<lparr>muliple_fdb_notif_enabled := enable_multiple_fdb_notif\<rparr>, w)
                                         else (s, close_pipes env w))
                        in Some (0, s\<lparr>is_ctrl_learn_initialized := True\<rparr>, m, w)))"

definition ctrl_learn_start :: "'w learn_env \<Rightarrow> 'w learn \<Rightarrow> int \<times> 'w learn" where
  "ctrl_learn_start env t = (case t of (s, m, w) \<Rightarrow> (0, s, m, event_signal env w))"

definition ctrl_learn_stop :: "'w learn_env \<Rightarrow> 'w learn \<Rightarrow> int \<times> 'w learn" where
  "ctrl_learn_stop env t = (case t of (s, m, w) \<Rightarrow>
    if \<not> is_ctrl_learn_initialized s then (0, s, m, w)
    else let s = s\<lparr>ctrl_learn_stop_signal := True\<rparr>
      in if \<not> is_ctrl_learn_start s then (0, s, m, event_signal env w)
         else let (ok, w) = write_quit env w
           in if \<not> ok then (- EPERM, s, m, w) else (0, s\<lparr>is_ctrl_learn_start := False\<rparr>, m, w))"

definition ctrl_learn_deinit :: "'w fdb_heap \<Rightarrow> 'w learn_env \<Rightarrow> 'w learn \<Rightarrow> (int \<times> 'w learn) option" where
  "ctrl_learn_deinit os env t =
    (if \<not> is_ctrl_learn_initialized (fst t) then Some (0, t)
     else let (err, t) = (if \<not> ctrl_learn_stop_signal (fst t) then ctrl_learn_stop env t else (0, t))
       in if err \<noteq> 0 then Some (err, t)
          else case t of (s, m, w) \<Rightarrow>
            let w = close_pipes env (event_destroy env (thread_destroy env w))
            in Option.bind (fdb_uc_db_deinit os (learn_db s) m w) (\<lambda>(err, d, m, w).
                 Some (if err \<noteq> 0 then - EPERM else 0, s\<lparr>learn_db := d\<rparr>, m, w)))"

section \<open>The thread\<close>

text \<open>
  Before the loop; one round of the loop, with what \<^verbatim>\<open>select\<close> found readable (the quit pipe, the switch, the
  simulation pipe); the thread. The result says whether the thread goes on.
\<close>

definition thread_start :: "'w learn_env \<Rightarrow> 'w learn \<Rightarrow> bool \<times> 'w learn" where
  "thread_start env t = (case t of (s, m, w) \<Rightarrow>
    let (ok, w) = event_wait env w
    in if \<not> ok then (False, s, m, w)
       else if ctrl_learn_stop_signal s then (False, s, m, w)
       else let (st, w) = oes_event_fd_set env OES_ACCESS_CMD_CREATE w
         in if st \<noteq> OES_STATUS_SUCCESS then (False, s, m, w)
            else let (st, w) = oes_event_register_set env OES_ACCESS_CMD_ADD (ctrl_learn_br_id s) w
              in if st \<noteq> OES_STATUS_SUCCESS then (False, s, m, w)
                 else let (st, w) = oes_control_learn_set env (ctrl_learn_br_id s) True w
                   in if st \<noteq> OES_STATUS_SUCCESS then (False, s, m, w)
                      else (True, s\<lparr>is_ctrl_learn_start := True\<rparr>, m, w))"

definition thread_quit :: "'w learn_env \<Rightarrow> 'w learn \<Rightarrow> 'w learn" where
  "thread_quit env t = (case t of (s, m, w) \<Rightarrow>
    let w = read_quit env w;
        (st, w) = oes_event_register_set env OES_ACCESS_CMD_DELETE (ctrl_learn_br_id s) w
    in if st \<noteq> OES_STATUS_SUCCESS then (s, m, w)
       else let (st, w) = oes_event_fd_set env OES_ACCESS_CMD_DESTROY w
         in if st \<noteq> OES_STATUS_SUCCESS then (s, m, w)
            else let (st, w) = oes_control_learn_set env (ctrl_learn_br_id s) False w in (s, m, w))"

definition thread_round ::
  "'w fdb_heap \<Rightarrow> 'w ctrl_learn_hal \<Rightarrow> size_t \<Rightarrow> u64 \<Rightarrow> 'w learn_env \<Rightarrow> (nat \<Rightarrow> ctrl_learn_fdb_notify_record) \<Rightarrow>
   'w learn \<Rightarrow> (bool \<times> 'w learn) option" where
  "thread_round os hal sz frame env stack t = (case t of (s, m, w) \<Rightarrow>
    let (input, w) = select_input env w
    in case input of
         None \<Rightarrow> Some (False, s, m, w)
       | Some (quit, event, simulate) \<Rightarrow>
         if quit then Some (False, thread_quit env (s, m, w))
         else if event
         then let (st, event_info, n, w) = oes_event_recv env w
           in if st \<noteq> OES_STATUS_SUCCESS then Some (False, s, m, w)
              else Option.bind (ctrl_learn_handle_oes_event os hal sz frame env stack event_info
                (if muliple_fdb_notif_enabled s then n else 1) (s, m, w)) (\<lambda>(err, t). Some (True, t))
         else if simulate
         then Option.bind (ctrl_learn_handle_oes_event os hal sz frame env stack (event_info_sim s)
                (length (event_info_sim s)) (s, m, read_simulate env w)) (\<lambda>(err, t). Some (True, t))
         else Some (True, s, m, w))"

partial_function (option) thread_loop ::
  "'w fdb_heap \<Rightarrow> 'w ctrl_learn_hal \<Rightarrow> size_t \<Rightarrow> u64 \<Rightarrow> 'w learn_env \<Rightarrow> (nat \<Rightarrow> ctrl_learn_fdb_notify_record) \<Rightarrow>
   'w learn \<Rightarrow> 'w learn option" where
  "thread_loop os hal sz frame env stack t =
    Option.bind (thread_round os hal sz frame env stack t) (\<lambda>(go, t).
      if go then thread_loop os hal sz frame env stack t else Some t)"

definition ctrl_learn_thread_routine ::
  "'w fdb_heap \<Rightarrow> 'w ctrl_learn_hal \<Rightarrow> size_t \<Rightarrow> u64 \<Rightarrow> 'w learn_env \<Rightarrow> (nat \<Rightarrow> ctrl_learn_fdb_notify_record) \<Rightarrow>
   'w learn \<Rightarrow> 'w learn option" where
  "ctrl_learn_thread_routine os hal sz frame env stack t =
    (let (go, t) = thread_start env t in if go then thread_loop os hal sz frame env stack t else Some t)"

section \<open>Checks of the entries a user passes\<close>

fun entry_in_range :: "fdb_uc_mac_entry_type \<Rightarrow> bool" where
  "entry_in_range (FDB_UC_OTHER n) \<longleftrightarrow> False"
| "entry_in_range _ \<longleftrightarrow> True"

fun check_entries :: "oes_access_cmd \<Rightarrow> fdb_uc_mac_addr_params list \<Rightarrow> int" where
  "check_entries access_cmd [] = 0"
| "check_entries access_cmd (a # as) =
    (if octet0 (mac_addr (mac_addr_params a)) AND FDB_GROUP_ADDRESS_MASK \<noteq> 0 then - EINVAL
     else if access_cmd \<noteq> OES_ACCESS_CMD_DELETE \<and> \<not> entry_in_range (addr_entry_type a) then - EINVAL
     else check_entries access_cmd as)"

text \<open>Only the events that are filled in here are read afterwards.\<close>

definition ctrl_learn_simulate_oes_event ::
  "'w learn_env \<Rightarrow> oes_access_cmd \<Rightarrow> fdb_uc_mac_addr_params list option \<Rightarrow> u16 \<Rightarrow> 'w learn \<Rightarrow> (int \<times> 'w learn) option" where
  "ctrl_learn_simulate_oes_event env access_cmd mac_entry mac_cnt t = (case mac_entry of
     None \<Rightarrow> Some (- EINVAL, t)
   | Some macs \<Rightarrow>
     if mac_cnt = 0 then Some (- EINVAL, t)
     else if access_cmd \<noteq> OES_ACCESS_CMD_ADD \<and> access_cmd \<noteq> OES_ACCESS_CMD_DELETE then Some (- EINVAL, t)
     else if length macs < unat mac_cnt then None
     else let macs = take (unat mac_cnt) macs; err = check_entries access_cmd macs
       in if err \<noteq> 0 then Some (err, t)
          else if MAX_EVENT_INFO_SIZE < unat mac_cnt then None
          else case t of (s, m, w) \<Rightarrow>
            let s = s\<lparr>event_info_sim := map (\<lambda>a. \<lparr>ev_type = (if access_cmd = OES_ACCESS_CMD_ADD then OES_FDB_EVENT_LEARN
                  else OES_FDB_EVENT_AGE), ev_entry = mac_addr_params a\<rparr>) macs\<rparr>;
                (ok, w) = write_simulate env w
            in Some (if ok then 0 else - EPERM, s, m, w))"

section \<open>Setting entries\<close>

text \<open>
  The records for the callback. An entry that is already there in the same form, or that is to be deleted and is not there,
  is left out. The cookie of a record is that of the last entry that was found in another form: the
  variable is not reset. More records than the array has elements are an error of the program.
\<close>

definition same_entry :: "fdb_mem \<Rightarrow> u64 \<Rightarrow> fdb_uc_mac_addr_params \<Rightarrow> bool" where
  "same_entry m e a \<longleftrightarrow> oes_entry_type (mac_params m e) = oes_entry_type (mac_addr_params a) \<and>
    log_port (mac_params m e) = log_port (mac_addr_params a) \<and> entry_type m e = addr_entry_type a"

fun build_loop ::
  "(nat \<Rightarrow> ctrl_learn_fdb_notify_record) \<Rightarrow> oes_access_cmd \<Rightarrow> fdb_uc_mac_addr_params list \<Rightarrow>
   ctrl_learn_fdb_notify_record list \<Rightarrow> u64 \<Rightarrow> 'w fdb_state \<Rightarrow> fdb_mem \<Rightarrow> ctrl_learn_fdb_notify_record list option" where
  "build_loop stack access_cmd [] records cookie d m = Some records"
| "build_loop stack access_cmd (a # as) records cookie d m =
    Option.bind (fdb_uc_db_get_record_by_key d
        (FDB_UC_CONVERT_MAC_VLAN_TO_KEY (mac_addr (mac_addr_params a)) (vid (mac_addr_params a))) m) (\<lambda>(err, mac_record_p).
      if err \<noteq> 0 \<and> err \<noteq> - ENOENT then build_loop stack access_cmd as records cookie d m
      else if access_cmd = OES_ACCESS_CMD_ADD \<and> mac_record_p \<noteq> 0 \<and> same_entry m mac_record_p a
      then build_loop stack access_cmd as records cookie d m
      else if access_cmd = OES_ACCESS_CMD_DELETE \<and> mac_record_p = 0 then build_loop stack access_cmd as records cookie d m
      else let cookie = (if access_cmd = OES_ACCESS_CMD_ADD \<and> mac_record_p \<noteq> 0 then entry_cookie m mac_record_p else cookie);
               ty = (if access_cmd = OES_ACCESS_CMD_ADD then OES_FDB_EVENT_LEARN else OES_FDB_EVENT_AGE);
               r = notify_record_of (stack (length records)) ty (mac_addr_params a) (addr_entry_type a)
        in if CTRL_LEARN_FDB_NOTIFY_SIZE_MAX \<le> length records then None
           else build_loop stack access_cmd as (records @ [r\<lparr>record_cookie := cookie\<rparr>]) cookie d m)"

text \<open>The list of the approved entries comes from \<^verbatim>\<open>malloc\<close> and is not cleared.\<close>

definition approved_of_record ::
  "fdb_uc_mac_addr_params \<Rightarrow> ctrl_learn_fdb_notify_record \<Rightarrow> fdb_uc_mac_addr_params" where
  "approved_of_record a r =
    a\<lparr>mac_addr_params := (mac_addr_params a)\<lparr>vid := vid (fdb_entry r), mac_addr := mac_addr (fdb_entry r),
        log_port := log_port (fdb_entry r)\<rparr>, addr_entry_type := record_entry_type r\<rparr>"

definition is_failed_mac :: "fdb_uc_mac_addr_params list \<Rightarrow> ctrl_learn_fdb_notify_record \<Rightarrow> bool" where
  "is_failed_mac failed r \<longleftrightarrow> list_ex (\<lambda>f. vid (fdb_entry r) = vid (mac_addr_params f) \<and>
    log_port (fdb_entry r) = log_port (mac_addr_params f) \<and> record_entry_type r = addr_entry_type f \<and>
    mac_addr (fdb_entry r) = mac_addr (mac_addr_params f)) failed"

definition lock_if :: "bool \<Rightarrow> 'w learn \<Rightarrow> 'w learn option" where
  "lock_if fdb_lock t = (if fdb_lock then cl_spinlock_acquire t else Some t)"

definition unlock_if :: "bool \<Rightarrow> 'w learn \<Rightarrow> 'w learn" where
  "unlock_if fdb_lock t = (if fdb_lock then cl_spinlock_release t else t)"

definition set_add ::
  "'w fdb_heap \<Rightarrow> size_t \<Rightarrow> u64 \<Rightarrow> 'w learn_env \<Rightarrow> bool \<Rightarrow> ctrl_learn_fdb_notify_record \<Rightarrow> 'w learn \<Rightarrow>
   (int \<times> 'w learn) option" where
  "set_add os sz frame env fdb_lock r t = (case t of (s, m, w) \<Rightarrow>
    let m = clear_mac_entry sz frame m;
        m = m\<lparr>mac_params := (mac_params m)(frame := (mac_params m frame)\<lparr>vid := vid (fdb_entry r),
          mac_addr := mac_addr (fdb_entry r), log_port := log_port (fdb_entry r),
          oes_entry_type := if record_entry_type r = FDB_UC_STATIC then OES_FDB_STATIC env else OES_FDB_DYNAMIC env\<rparr>)\<rparr>;
        m = m\<lparr>entry_type := (entry_type m)(frame := record_entry_type r)\<rparr>;
        (err, t) = (if record_cookie r \<noteq> 0
                    then (0, s, m\<lparr>entry_cookie := (entry_cookie m)(frame := record_cookie r)\<rparr>, w)
                    else call_cookie COOKIE_OP_INIT frame 0 (s, m, w))
    in if err \<noteq> 0 then Some (err, t)
       else Option.bind (lock_if fdb_lock t) (\<lambda>t.
         Option.bind (add_to_db os sz frame t) (\<lambda>(err, t). Some (err, unlock_if fdb_lock t))))"

text \<open>Only an error of the deletion ends the loop.\<close>

definition set_delete ::
  "size_t \<Rightarrow> bool \<Rightarrow> ctrl_learn_fdb_notify_record \<Rightarrow> 'w learn \<Rightarrow> (bool \<times> int \<times> 'w learn) option" where
  "set_delete sz fdb_lock r t =
    Option.bind (lock_if fdb_lock t) (\<lambda>(s, m, w).
      Option.bind (fdb_uc_db_get_record_by_key (learn_db s)
          (FDB_UC_CONVERT_MAC_VLAN_TO_KEY (mac_addr (fdb_entry r)) (vid (fdb_entry r))) m) (\<lambda>(err, mac_record_p).
        if mac_record_p \<noteq> 0
        then Option.bind (drop_record sz mac_record_p err (s, m, w)) (\<lambda>(err, t). Some (err \<noteq> 0, err, unlock_if fdb_lock t))
        else Some (False, err, unlock_if fdb_lock (s, m, w))))"

fun set_loop ::
  "'w fdb_heap \<Rightarrow> size_t \<Rightarrow> u64 \<Rightarrow> 'w learn_env \<Rightarrow> bool \<Rightarrow> oes_access_cmd \<Rightarrow> fdb_uc_mac_addr_params list \<Rightarrow>
   ctrl_learn_fdb_notify_record list \<Rightarrow> int \<Rightarrow> 'w learn \<Rightarrow> (int \<times> 'w learn) option" where
  "set_loop os sz frame env fdb_lock access_cmd failed [] err t = Some (err, t)"
| "set_loop os sz frame env fdb_lock access_cmd failed (r # rs) err t =
    (if decision r \<noteq> CTRL_LEARN_NOTIFY_DECISION_APPROVE \<or> is_failed_mac failed r
     then set_loop os sz frame env fdb_lock access_cmd failed rs err t
     else if access_cmd = OES_ACCESS_CMD_ADD
     then Option.bind (set_add os sz frame env fdb_lock r t) (\<lambda>(err, t).
       if err \<noteq> 0 then Some (err, t) else set_loop os sz frame env fdb_lock access_cmd failed rs err t)
     else Option.bind (set_delete sz fdb_lock r t) (\<lambda>(stop, err, t).
       if stop then Some (err, t) else set_loop os sz frame env fdb_lock access_cmd failed rs err t))"

definition sizeof_fdb_uc_mac_addr_params :: "size_t \<Rightarrow> size_t" where
  "sizeof_fdb_uc_mac_addr_params sz = ROUNDUP (sz + 4) 8 + 8"

definition sizeof_int :: size_t where "sizeof_int = 4"

text \<open>At \<^verbatim>\<open>out\<close> what was allocated is freed, and an error of the hardware layer comes before any other.\<close>

definition free_all :: "'w fdb_heap \<Rightarrow> u64 list \<Rightarrow> 'w \<Rightarrow> 'w" where
  "free_all os ps w = fold (os_free os) (filter (\<lambda>p. p \<noteq> 0) ps) w"

text \<open>
  From the call of the hardware layer on. When it fails the entries that failed are copied to the caller's array, and their
  number to the caller's counter. The result is the error, the array, the counter and the state.
\<close>

definition set_configure ::
  "'w fdb_heap \<Rightarrow> 'w ctrl_learn_hal \<Rightarrow> size_t \<Rightarrow> u64 \<Rightarrow> 'w learn_env \<Rightarrow> bool \<Rightarrow> oes_access_cmd \<Rightarrow>
   fdb_uc_mac_addr_params list \<Rightarrow> ctrl_learn_fdb_notify_record list \<Rightarrow> fdb_uc_mac_addr_params list \<Rightarrow> u64 list \<Rightarrow> int \<Rightarrow>
   'w learn \<Rightarrow> (int \<times> fdb_uc_mac_addr_params list \<times> u16 \<times> 'w learn) option" where
  "set_configure os hal sz frame env fdb_lock access_cmd approved records mac_entry allocated err t = (case t of (s, m, w) \<Rightarrow>
    let (err, failed, w) =
          (if approved \<noteq> [] then hal_uc_mac_addr_set hal access_cmd (ctrl_learn_br_id s) approved w else (err, [], w));
        mac_addr_set_err = (if approved \<noteq> [] then err else 0)
    in if mac_addr_set_err = 0
       then Option.bind (set_loop os sz frame env fdb_lock access_cmd [] records err (s, m, w)) (\<lambda>(err, s, m, w).
         Some (err, mac_entry, 0, s, m, free_all os allocated w))
       else
         let (p, w) = os_malloc os (sizeof_fdb_uc_mac_addr_params sz * of_nat (length failed)) w
         in if p = 0 then Some (mac_addr_set_err, mac_entry, 0, s, m, free_all os allocated w)
            else if length mac_entry < length failed then None
            else Option.bind (set_loop os sz frame env fdb_lock access_cmd failed records err (s, m, w)) (\<lambda>(err, s, m, w).
              Some (mac_addr_set_err, failed @ drop (length failed) mac_entry, of_nat (length failed), s, m,
                free_all os (allocated @ [p]) w)))"

definition ctrl_learn_api_fdb_uc_mac_addr_set ::
  "'w fdb_heap \<Rightarrow> 'w ctrl_learn_hal \<Rightarrow> size_t \<Rightarrow> u64 \<Rightarrow> 'w learn_env \<Rightarrow> (nat \<Rightarrow> ctrl_learn_fdb_notify_record) \<Rightarrow>
   (nat \<Rightarrow> fdb_uc_mac_addr_params) \<Rightarrow> oes_access_cmd \<Rightarrow> fdb_uc_mac_addr_params list option \<Rightarrow> u16 option \<Rightarrow> u64 \<Rightarrow> bool \<Rightarrow>
   'w learn \<Rightarrow> (int \<times> fdb_uc_mac_addr_params list option \<times> u16 option \<times> 'w learn) option" where
  "ctrl_learn_api_fdb_uc_mac_addr_set os hal sz frame env stack junk access_cmd mac_entry mac_cnt originator_cookie fdb_lock t =
    (if \<not> is_ctrl_learn_start (fst t) then Some (0, mac_entry, mac_cnt, t)
     else case (mac_entry, mac_cnt) of
       (None, _) \<Rightarrow> Some (- EINVAL, mac_entry, mac_cnt, t)
     | (Some _, None) \<Rightarrow> Some (- EINVAL, mac_entry, mac_cnt, t)
     | (Some macs, Some num_macs) \<Rightarrow>
       if num_macs = 0 then Some (- EINVAL, mac_entry, Some 0, t)
       else if access_cmd \<noteq> OES_ACCESS_CMD_ADD \<and> access_cmd \<noteq> OES_ACCESS_CMD_DELETE then Some (- EINVAL, mac_entry, Some 0, t)
       else if length macs < unat num_macs then None
       else if check_entries access_cmd (take (unat num_macs) macs) \<noteq> 0
       then Some (check_entries access_cmd (take (unat num_macs) macs), mac_entry, Some 0, t)
       else case t of (s, m, w) \<Rightarrow>
         let (p1, w) = os_malloc os (sizeof_fdb_uc_mac_addr_params sz * ucast num_macs) w
         in if p1 = 0 then Some (- ENOMEM, mac_entry, Some 0, s, m, w)
            else let (p2, w) = os_malloc os (sizeof_int * ucast num_macs) w
              in if p2 = 0 then Some (- ENOMEM, mac_entry, Some 0, s, m, free_all os [p1] w)
                 else Option.bind (build_loop stack access_cmd (take (unat num_macs) macs) [] 0 (learn_db s) m) (\<lambda>records.
                   let (err, records) = update_approved_list s (approve_all records)
                   in if err \<noteq> 0 then Some (- EPERM, mac_entry, Some 0, s, m, free_all os [p1, p2] w)
                      else let (err, records, s, m, w) = ask_callback originator_cookie records err (s, m, w)
                        in if err \<noteq> 0 then Some (- ENOMEM, mac_entry, Some 0, s, m, free_all os [p1, p2] w)
                           else let (p3, w) = os_malloc os (sizeof_fdb_uc_mac_addr_params sz * ucast num_macs) w
                             in if p3 = 0 then Some (- ENOMEM, mac_entry, Some 0, s, m, free_all os [p1, p2] w)
                                else let approved = approved_records records;
                                         approved = map2 (\<lambda>i r. approved_of_record (junk i) r) [0..<length approved] approved
                                  in Option.bind (set_configure os hal sz frame env fdb_lock access_cmd approved records macs
                                       [p1, p2, p3] err (s, m, w)) (\<lambda>(err, macs, cnt, t). Some (err, Some macs, Some cnt, t))))"

section \<open>Flushing the switch\<close>

text \<open>The callback gets one record, of which only the type of the event (and the VLAN or port) is set.\<close>

definition ctrl_learn_api_fdb_uc_flush_set ::
  "'w learn_env \<Rightarrow> ctrl_learn_fdb_notify_record \<Rightarrow> u64 \<Rightarrow> 'w learn \<Rightarrow> int \<times> 'w learn" where
  "ctrl_learn_api_fdb_uc_flush_set env stack originator_cookie t =
    (if \<not> is_ctrl_learn_start (fst t) then (0, t)
     else let r = stack\<lparr>event_type := OES_FDB_EVENT_FLUSH_ALL\<rparr>;
              (err, records, s, m, w) = ask_callback originator_cookie [r] 0 t
       in if ctrl_learn_notification_cb s \<noteq> None \<and> decision (hd records) \<noteq> CTRL_LEARN_NOTIFY_DECISION_APPROVE then (0, s, m, w)
          else let (st, w) = oes_flush_set env (ctrl_learn_br_id s) w in (err, s, m, w))"

definition ctrl_learn_api_fdb_uc_flush_port_set ::
  "'w learn_env \<Rightarrow> ctrl_learn_fdb_notify_record \<Rightarrow> u64 \<Rightarrow> u64 \<Rightarrow> 'w learn \<Rightarrow> int \<times> 'w learn" where
  "ctrl_learn_api_fdb_uc_flush_port_set env stack port originator_cookie t =
    (if \<not> is_ctrl_learn_start (fst t) then (0, t)
     else let r = stack\<lparr>event_type := OES_FDB_EVENT_FLUSH_PORT, fdb_entry := (fdb_entry stack)\<lparr>log_port := port\<rparr>\<rparr>;
              (err, records, s, m, w) = ask_callback originator_cookie [r] 0 t
       in if err \<noteq> 0 then (err, s, m, w)
          else if ctrl_learn_notification_cb s \<noteq> None \<and> decision (hd records) \<noteq> CTRL_LEARN_NOTIFY_DECISION_APPROVE then (0, s, m, w)
          else let (st, w) = oes_flush_port_set env (ctrl_learn_br_id s) port w
            in (if st \<noteq> OES_STATUS_SUCCESS then oes_status_to_errno st else err, s, m, w))"

definition ctrl_learn_api_fdb_uc_flush_vid_set ::
  "'w learn_env \<Rightarrow> ctrl_learn_fdb_notify_record \<Rightarrow> u16 \<Rightarrow> u64 \<Rightarrow> 'w learn \<Rightarrow> int \<times> 'w learn" where
  "ctrl_learn_api_fdb_uc_flush_vid_set env stack v originator_cookie t =
    (if \<not> is_ctrl_learn_start (fst t) then (0, t)
     else let r = stack\<lparr>event_type := OES_FDB_EVENT_FLUSH_VID, fdb_entry := (fdb_entry stack)\<lparr>vid := v\<rparr>\<rparr>;
              (err, records, s, m, w) = ask_callback originator_cookie [r] 0 t
       in if ctrl_learn_notification_cb s \<noteq> None \<and> decision (hd records) \<noteq> CTRL_LEARN_NOTIFY_DECISION_APPROVE then (0, s, m, w)
          else let (st, w) = oes_flush_vid_set env (ctrl_learn_br_id s) v w
            in (if st \<noteq> OES_STATUS_SUCCESS then oes_status_to_errno st else err, s, m, w))"

definition ctrl_learn_api_fdb_uc_flush_port_vid_set ::
  "'w learn_env \<Rightarrow> ctrl_learn_fdb_notify_record \<Rightarrow> u16 \<Rightarrow> u64 \<Rightarrow> u64 \<Rightarrow> 'w learn \<Rightarrow> int \<times> 'w learn" where
  "ctrl_learn_api_fdb_uc_flush_port_vid_set env stack v port originator_cookie t =
    (if \<not> is_ctrl_learn_start (fst t) then (0, t)
     else let r = stack\<lparr>event_type := OES_FDB_EVENT_FLUSH_PORT_VID, fdb_entry := (fdb_entry stack)\<lparr>vid := v, log_port := port\<rparr>\<rparr>;
              (err, records, s, m, w) = ask_callback originator_cookie [r] 0 t
       in if ctrl_learn_notification_cb s \<noteq> None \<and> decision (hd records) \<noteq> CTRL_LEARN_NOTIFY_DECISION_APPROVE then (0, s, m, w)
          else let (st, w) = oes_flush_port_vid_set env (ctrl_learn_br_id s) v port w
            in (if st \<noteq> OES_STATUS_SUCCESS then oes_status_to_errno st else err, s, m, w))"

section \<open>Reading entries\<close>

definition copy_record :: "fdb_mem \<Rightarrow> u64 \<Rightarrow> fdb_uc_mac_addr_params" where
  "copy_record m e = \<lparr>mac_addr_params = mac_params m e, addr_entry_type = entry_type m e, addr_cookie = entry_cookie m e\<rparr>"

definition has_filter :: "fdb_uc_key_filter \<Rightarrow> bool" where
  "has_filter f \<longleftrightarrow> filter_by_log_port f \<or> filter_by_vid f"

definition get_next ::
  "size_t \<Rightarrow> fdb_uc_key_filter \<Rightarrow> u64 \<Rightarrow> u64 \<Rightarrow> u64 \<Rightarrow> 'w fdb_state \<Rightarrow> fdb_mem \<Rightarrow> int \<times> u64" where
  "get_next sz key_filter list_cookie mac_record_p tmp_record d m =
    (if has_filter key_filter
     then fdb_uc_db_get_next_record_by_filter sz d (Some key_filter) list_cookie mac_record_p tmp_record m
     else fdb_uc_db_next_record d mac_record_p tmp_record m)"

text \<open>
  The loop copies records to the caller's array, starting with \<open>mac_record_p\<close>, until the array is full
  or there is no record left. The result is the error, the array and the number of records.
\<close>

function get_loop ::
  "size_t \<Rightarrow> fdb_uc_key_filter \<Rightarrow> u64 \<Rightarrow> u16 \<Rightarrow> u64 \<Rightarrow> u64 \<Rightarrow> fdb_uc_mac_addr_params list \<Rightarrow> u16 \<Rightarrow>
   'w fdb_state \<Rightarrow> fdb_mem \<Rightarrow> (int \<times> fdb_uc_mac_addr_params list \<times> u16) option" where
  "get_loop sz key_filter list_cookie data_cnt mac_record_p tmp_record mac_list record_cnt d m =
    (if mac_record_p = 0 then Some (0, mac_list, record_cnt)
     else if length mac_list \<le> unat record_cnt then None
     else let mac_list = mac_list[unat record_cnt := copy_record m mac_record_p]
       in if record_cnt + 1 \<ge> data_cnt then Some (0, mac_list, record_cnt + 1)
          else let (err, tmp_record) = get_next sz key_filter list_cookie mac_record_p tmp_record d m
            in if err \<noteq> 0 then Some (err, mac_list, record_cnt + 1)
               else get_loop sz key_filter list_cookie data_cnt tmp_record tmp_record mac_list (record_cnt + 1) d m)"
  by pat_completeness auto

termination
proof (relation "measure (\<lambda>(sz, f, c, n, r, t, l, k, d, m). if k = - 1 then 2 ^ 17 else unat n - unat k)")
  fix n k :: u16 assume less: "\<not> n \<le> k + 1"
  have "(if k + 1 = - 1 then 2 ^ 17 else unat n - unat (k + 1)) < (if k = - 1 then 2 ^ 17 else unat n - unat k)"
  proof (cases "k = - 1")
    case True
    have "unat n < 2 ^ LENGTH(16)" by (rule unsigned_less)
    with True show ?thesis by simp
  next
    case False
    then have "k + 1 \<noteq> 0" by (simp add: eq_neg_iff_add_eq_0)
    then have k: "unat (k + 1) = unat k + 1" using unatSuc [of k] by (simp add: add.commute)
    have "k + 1 \<noteq> - 1" using less word_n1_ge by metis
    then show ?thesis using less unfolding word_le_nat_alt k by (simp only: False if_False)
  qed
  then show "((sz, f, c, n, r, t, l, k + 1, d, m), (sz, f, c, n, r', t', l', k, d, m)) \<in>
      measure (\<lambda>(sz, f, c, n, r, t, l, k, d, m). if k = - 1 then 2 ^ 17 else unat n - unat k)" for sz f c r t l d m r' t' l'
    by simp
qed auto

text \<open>Where the reading starts: the error, the cookie of the list, the record.\<close>

definition record_of_key :: "fdb_uc_mac_addr_params list \<Rightarrow> 'w fdb_state \<Rightarrow> fdb_mem \<Rightarrow> (int \<times> u64) option" where
  "record_of_key mac_list d m = (case mac_list of
     [] \<Rightarrow> None
   | a # _ \<Rightarrow> fdb_uc_db_get_record_by_key d
       (FDB_UC_CONVERT_MAC_VLAN_TO_KEY (mac_addr (mac_addr_params a)) (vid (mac_addr_params a))) m)"

definition get_first_start ::
  "size_t \<Rightarrow> fdb_uc_key_filter \<Rightarrow> 'w fdb_state \<Rightarrow> fdb_mem \<Rightarrow> (int \<times> u64 \<times> u64) option" where
  "get_first_start sz key_filter d m =
    Option.bind
      (if has_filter key_filter
       then Option.bind (fdb_uc_db_get_first_record_by_filter sz d (Some key_filter) (Some 0) (Some 0) m)
         (\<lambda>(err, c, e). Some (err, the c, the e))
       else let (err, e) = fdb_uc_db_get_first_record d m in Some (err, 0, e))
      (\<lambda>(err, list_cookie, mac_record_p). Some (if err = 0 \<and> mac_record_p = 0 then - ENOENT else err, list_cookie, mac_record_p))"

definition get_next_start ::
  "size_t \<Rightarrow> fdb_uc_key_filter \<Rightarrow> fdb_uc_mac_addr_params list \<Rightarrow> 'w fdb_state \<Rightarrow> fdb_mem \<Rightarrow> (int \<times> u64 \<times> u64) option" where
  "get_next_start sz key_filter mac_list d m =
    Option.bind (record_of_key mac_list d m) (\<lambda>(err, mac_record_p).
      if err \<noteq> 0 then Some (err, 0, mac_record_p)
      else Option.bind
        (if has_filter key_filter
         then Option.bind (fdb_uc_db_get_first_record_by_filter sz d (Some key_filter) (Some 0) (Some 0) m)
           (\<lambda>(err, c, tmp_record).
             if err \<noteq> 0 then Some (err, the c, the tmp_record)
             else let (err, tmp_record) = get_next sz key_filter (the c) mac_record_p (the tmp_record) d m
               in Some (err, the c, tmp_record))
         else let (err, tmp_record) = get_next sz key_filter 0 mac_record_p 0 d m in Some (err, 0, tmp_record))
        (\<lambda>(err, list_cookie, tmp_record). Some (if err = 0 \<and> tmp_record = 0 then - ENOENT else err, list_cookie, tmp_record)))"

text \<open>The command between taking and releasing the lock: the error, the array and the number of records.\<close>

definition get_command ::
  "size_t \<Rightarrow> 'w learn_env \<Rightarrow> oes_access_cmd \<Rightarrow> fdb_uc_key_filter \<Rightarrow> fdb_uc_mac_addr_params list \<Rightarrow> u16 \<Rightarrow>
   'w fdb_state \<Rightarrow> fdb_mem \<Rightarrow> (int \<times> fdb_uc_mac_addr_params list \<times> u16) option" where
  "get_command sz env access_cmd key_filter mac_list data_cnt d m =
    (let from_start = (\<lambda>start. Option.bind start (\<lambda>(err, list_cookie, mac_record_p).
           if err \<noteq> 0 then Some (err, mac_list, 0)
           else get_loop sz key_filter list_cookie data_cnt mac_record_p mac_record_p mac_list 0 d m))
     in case access_cmd of
       OES_ACCESS_CMD_GET \<Rightarrow>
         Option.bind (record_of_key mac_list d m) (\<lambda>(err, mac_record_p).
           if err \<noteq> 0 then Some (err, mac_list, 0) else Some (0, mac_list[0 := copy_record m mac_record_p], 1))
     | OES_ACCESS_CMD_GET_FIRST \<Rightarrow> from_start (get_first_start sz key_filter d m)
     | OES_ACCESS_CMD_GET_NEXT \<Rightarrow> from_start (get_next_start sz key_filter mac_list d m)
     | _ \<Rightarrow> Some (OES_STATUS_CMD_UNSUPPORTED_code env, mac_list, 0))"

text \<open>At \<^verbatim>\<open>end\<close> the counter is written through its pointer, also when it is null.\<close>

definition ctrl_learn_api_uc_mac_addr_get ::
  "size_t \<Rightarrow> 'w learn_env \<Rightarrow> oes_access_cmd \<Rightarrow> fdb_uc_key_filter option \<Rightarrow> fdb_uc_mac_addr_params list \<Rightarrow> u16 option \<Rightarrow> bool \<Rightarrow>
   'w learn \<Rightarrow> (int \<times> fdb_uc_mac_addr_params list \<times> u16 \<times> 'w learn) option" where
  "ctrl_learn_api_uc_mac_addr_get sz env access_cmd key_filter mac_list data_cnt fdb_lock t = (case data_cnt of
     None \<Rightarrow> None
   | Some n \<Rightarrow>
     if \<not> is_ctrl_learn_initialized (fst t) then Some (- EPERM, mac_list, 0, t)
     else if n = 0 then Some (- EINVAL, mac_list, 0, t)
     else case key_filter of
       None \<Rightarrow> None
     | Some f \<Rightarrow>
       if filter_by_vid f \<and> VID_MAX < filter_vid f then Some (- EINVAL, mac_list, n, t)
       else Option.bind (lock_if fdb_lock t) (\<lambda>(s, m, w).
         Option.bind (get_command sz env access_cmd f mac_list n (learn_db s) m) (\<lambda>(err, mac_list, record_cnt).
           Some (err, mac_list, record_cnt, unlock_if fdb_lock (s, m, w)))))"

section \<open>Callbacks\<close>

definition ctrl_learn_register_notification ::
  "'w ctrl_learn_hal \<Rightarrow> ctrl_learn_notify_params option \<Rightarrow> 'w ctrl_learn_notification_func option \<Rightarrow> 'w learn \<Rightarrow>
   int \<times> 'w learn" where
  "ctrl_learn_register_notification hal params notification_cb t = (case t of (s, m, w) \<Rightarrow>
    if \<not> is_ctrl_learn_start s then (- EPERM, s, m, w)
    else let (err, w) = (case params of None \<Rightarrow> (0, w) | Some p \<Rightarrow> hal_notify_params_set hal (ctrl_learn_br_id s) p w)
      in if err \<noteq> 0 then (err, s, m, w) else (0, s\<lparr>ctrl_learn_notification_cb := notification_cb\<rparr>, m, w))"

definition ctrl_learn_unregister_notification_cb :: "'w learn_state \<Rightarrow> int \<times> 'w learn_state" where
  "ctrl_learn_unregister_notification_cb s = (0, s\<lparr>ctrl_learn_notification_cb := None\<rparr>)"

definition ctrl_learn_register_init_deinit_mac_addr_cookie_cb ::
  "'w ctrl_learn_cookie_func option \<Rightarrow> 'w learn_state \<Rightarrow> int \<times> 'w learn_state" where
  "ctrl_learn_register_init_deinit_mac_addr_cookie_cb cb s = (0, s\<lparr>ctrl_learn_init_deinit_cb := cb\<rparr>)"

definition ctrl_learn_unregister_init_deinit_mac_addr_cookie_cb :: "'w learn_state \<Rightarrow> int \<times> 'w learn_state" where
  "ctrl_learn_unregister_init_deinit_mac_addr_cookie_cb s = (0, s\<lparr>ctrl_learn_init_deinit_cb := None\<rparr>)"

definition ctrl_learn_api_get_uc_db_access ::
  "('w learn \<Rightarrow> (int \<times> 'w learn) option) \<Rightarrow> 'w learn \<Rightarrow> (int \<times> 'w learn) option" where
  "ctrl_learn_api_get_uc_db_access cb t =
    Option.bind (cl_spinlock_acquire t) (\<lambda>t. Option.bind (cb t) (\<lambda>(err, t). Some (err, cl_spinlock_release t)))"

definition ctrl_learn_register_coockie_cmp_func :: "(u64 \<Rightarrow> u64 \<Rightarrow> int) option \<Rightarrow> int" where
  "ctrl_learn_register_coockie_cmp_func cmp_cb = 0"

end
