(* ===== verification/Learn_Flush.thy ===== *)
theory Learn_Flush
  imports Learn_Api Fdb_Enum
begin

text \<open>
  Flushing: the database loses exactly the entries that match and are not static. \<open>flushed P db\<close> is the partial map \<open>db\<close>
  without the records for which \<open>P\<close> holds.
\<close>

section \<open>Records of the database\<close>

type_synonym fdb_record = "oes_fdb_uc_mac_addr_params \<times> u64 \<times> fdb_uc_mac_entry_type"

definition flushed :: "(fdb_record \<Rightarrow> bool) \<Rightarrow> (u64 \<rightharpoonup> fdb_record) \<Rightarrow> u64 \<rightharpoonup> fdb_record" where
  "flushed P db = (\<lambda>k. case db k of None \<Rightarrow> None | Some r \<Rightarrow> if P r then None else Some r)"

lemma flushed_keyed:
  assumes "distinct (map k xs)"
  shows "keyed k f (filter (\<lambda>x. \<not> P (f x)) xs) = flushed P (keyed k f xs)"
  using assms
proof (induction xs)
  case Nil
  then show ?case by (simp add: flushed_def)
next
  case (Cons x xs)
  then have "keyed k f xs (k x) = None" by (auto simp: keyed_find find_None_iff)
  moreover have "keyed k f (x # ys) = (keyed k f ys)(k x \<mapsto> f x)" for ys by (simp add: keyed_def)
  ultimately show ?case using Cons by (auto simp: flushed_def fun_eq_iff)
qed

text \<open>Only the links and the parameters of the entries matter for the database.\<close>

lemma lists_none:
  assumes "lists z L s m M V" and t: "touches z {ZNone} m m'"
  shows "lists z L s m' M V"
proof -
  from assms(1) obtain fs where "filters z L s m fs M" "vlans z s m V" by (auto simp: lists_def)
  with filters_frame [OF _ t, of L s fs M] vlans_frame [OF _ refl t, of s V] show ?thesis by (auto simp: lists_def)
qed

lemma fdb_frame:
  assumes db: "fdb z L sz s m es" and t: "touches z {ZNone} m m'" and p: "\<And>e. e \<in> set es \<Longrightarrow> mac_params m' e = mac_params m e"
  shows "fdb z L sz s m' es" "\<And>e. e \<in> set es \<Longrightarrow> p_key m' e = p_key m e"
proof -
  have en: "entries z L sz s m es" and ls: "lists_of z L sz s m m (set es)" using db by (simp_all add: fdb_def)
  have en': "entries z L sz s m' es" by (rule entries_frame(1) [OF en t]) auto
  show k: "p_key m' e = p_key m e" if "e \<in> set es" for e by (rule entries_frame(2) [OF en t]) (use that in auto)
  have "lists_of z L sz s m' m' (set es)"
    by (rule iffD2 [OF lists_of_cong lists_none [OF ls t]]) (rule p)
  with en' k db p show "fdb z L sz s m' es" by (simp add: fdb_def entry_key_def vlan_of_def)
qed

section \<open>Dropping one record\<close>

text \<open>
  \<open>drops m es x m' es'\<close>: the entries \<open>es\<close> without \<open>x\<close>, and the lists of the others as they were.
\<close>

definition drops :: "(u64 \<Rightarrow> zone) \<Rightarrow> size_t \<Rightarrow> fdb_mem \<Rightarrow> u64 list \<Rightarrow> u64 \<Rightarrow> fdb_mem \<Rightarrow> bool" where
  "drops z sz m es x m' \<longleftrightarrow>
    (\<forall>e\<in>set es. e \<noteq> x \<longrightarrow> record_at m' e = record_at m e \<and> p_key m' e = p_key m e) \<and>
    next_kept z {x + vid_fltr_entry sz, x + port_fltr_entry sz, x + vid_port_fltr_entry sz} m m'"

text \<open>The world after the callback, if there is one, has been told to release the cookies \<open>cs\<close>, one after the other.\<close>

definition cookie_calls :: "'w learn_state \<Rightarrow> u64 list \<Rightarrow> 'w \<Rightarrow> 'w" where
  "cookie_calls s cs w = (case ctrl_learn_init_deinit_cb s of
     None \<Rightarrow> w
   | Some cb \<Rightarrow> fold (\<lambda>c w. snd (snd (cb COOKIE_OP_DEINIT c w))) cs w)"

lemma cookie_calls_state: "cookie_calls (s\<lparr>learn_db := d\<rparr>) = cookie_calls s" "cookie_calls (s\<lparr>fdb_locked := b\<rparr>) = cookie_calls s"
  by (simp_all add: cookie_calls_def fun_eq_iff)

lemma cookie_calls_list:
  "cookie_calls s [] w = w" "cookie_calls s (c # cs) w = cookie_calls s cs (cookie_calls s [c] w)"
  by (simp_all add: cookie_calls_def split: option.split)

lemma call_cookie_frame:
  assumes "call_cookie COOKIE_OP_DEINIT e err (s, m, w) = (err', t)"
  obtains c where "t = (s, m\<lparr>entry_cookie := (entry_cookie m)(e := c)\<rparr>, cookie_calls s [entry_cookie m e] w)"
proof (cases "ctrl_learn_init_deinit_cb s")
  case None
  then have "t = (s, m\<lparr>entry_cookie := (entry_cookie m)(e := entry_cookie m e)\<rparr>, cookie_calls s [entry_cookie m e] w)"
    using assms by (simp add: call_cookie_def cookie_calls_def)
  then show thesis by (rule that)
next
  case (Some cb)
  obtain er c w' where "cb COOKIE_OP_DEINIT (entry_cookie m e) w = (er, c, w')" by (metis prod_cases3)
  then have "t = (s, m\<lparr>entry_cookie := (entry_cookie m)(e := c)\<rparr>, cookie_calls s [entry_cookie m e] w)"
    using assms Some by (simp add: call_cookie_def cookie_calls_def)
  then show thesis by (rule that)
qed

lemma drop_record_ok:
  assumes db: "fdb z L sz (learn_db s) m es" and x: "x \<in> set es"
  shows "\<exists>d m'. drop_record sz x err (s, m, w) = Some (0, s\<lparr>learn_db := d\<rparr>, m', cookie_calls s [entry_cookie m x] w) \<and>
    fdb z L sz d m' (remove1 x es) \<and> drops z sz m es x m' \<and>
    capacity (main_db_pool d) = capacity (main_db_pool (learn_db s)) \<and>
    capacity (fdb_fltr_pool d) = capacity (fdb_fltr_pool (learn_db s))"
proof -
  obtain err' t where call: "call_cookie COOKIE_OP_DEINIT x err (s, m, w) = (err', t)" by (metis surj_pair)
  from call_cookie_frame [OF call] obtain c where
    t: "t = (s, m\<lparr>entry_cookie := (entry_cookie m)(x := c)\<rparr>, cookie_calls s [entry_cookie m x] w)" .
  let ?m = "m\<lparr>entry_cookie := (entry_cookie m)(x := c)\<rparr>"
  have tch: "touches z {ZNone} m ?m" by (simp add: touches_def agree_on_def)
  have db1: "fdb z L sz (learn_db s) ?m es" by (rule fdb_frame(1) [OF db tch]) simp
  from fdb_delete [OF db1 x] obtain d m' where
    del: "fdb_uc_db_delete_record sz (learn_db s) x ?m = Some (0, d, m')" "fdb z L sz d m' (remove1 x es)"
      "db_of m' (remove1 x es) = (db_of ?m es)(p_key ?m x := None)"
      "capacity (main_db_pool d) = capacity (main_db_pool (learn_db s))"
      "capacity (fdb_fltr_pool d) = capacity (fdb_fltr_pool (learn_db s))" "same_data ?m m'"
      "next_kept z {x + vid_fltr_entry sz, x + port_fltr_entry sz, x + vid_port_fltr_entry sz} ?m m'" by blast
  have dist: "distinct es" using db qmap_wf_distinct unfolding fdb_def entries_def by blast
  have "record_at m' e = record_at m e" "p_key m' e = p_key m e" if e: "e \<in> set es" "e \<noteq> x" for e
  proof -
    show r: "record_at m' e = record_at m e" using record_same_data [OF del(6)] e(2) by (simp add: record_at_def)
    have "e \<in> set (remove1 x es)" using e dist by simp
    then have "p_key m' e = entry_key m' e" "p_key m e = entry_key m e" using del(2) db e(1) by (simp_all add: fdb_def)
    then show "p_key m' e = p_key m e" using r by (simp add: entry_key_def record_at_def)
  qed
  moreover have "next_kept z {x + vid_fltr_entry sz, x + port_fltr_entry sz, x + vid_port_fltr_entry sz} m m'"
    using del(7) by (simp add: next_kept_def)
  ultimately have "drops z sz m es x m'" by (simp add: drops_def)
  moreover have "drop_record sz x err (s, m, w) = Some (0, s\<lparr>learn_db := d\<rparr>, m', cookie_calls s [entry_cookie m x] w)"
    using call del(1) by (simp add: drop_record_def t delete_from_db_def)
  ultimately show ?thesis using del(2,4,5) by blast
qed

lemma drops_chain:
  assumes "drops z sz m es x m'" and "chain m off c xs" and "off \<in> {vid_fltr_entry sz, port_fltr_entry sz, vid_port_fltr_entry sz}"
    and "\<And>e. e \<in> insert x (set xs) \<Longrightarrow> eobj z sz e" and "x \<notin> set xs" and "z c \<in> {ZVlan, ZHead}"
  shows "chain m' off c xs"
  using assms(2,4,5)
proof (induction xs)
  case (Cons e xs)
  note prems = Cons.prems
  let ?I = "{x + vid_fltr_entry sz, x + port_fltr_entry sz, x + vid_port_fltr_entry sz}"
  have ox: "eobj z sz x" and oe: "eobj z sz e" using Cons.prems(2) by simp_all
  have item: "y + off \<notin> ?I" if "eobj z sz y" "y \<noteq> x" for y
    using that ox assms(3) unfolding eobj_def by auto
  have "z (e + off) \<in> {ZVid, ZPort, ZPv}" using oe assms(3) by (auto simp: eobj_def)
  moreover have "e + off \<notin> ?I" using item [OF oe] Cons.prems(3) by auto
  moreover have "p_next m (e + off) \<notin> ?I"
  proof (cases xs)
    case Nil
    then have "p_next m (e + off) = c" using Cons.prems(1) by simp
    moreover have "c \<notin> ?I" using ox assms(6) by (auto simp: eobj_def)
    ultimately show ?thesis by simp
  next
    case (Cons y ys)
    have "p_next m (e + off) = y + off" using prems(1) Cons by simp
    moreover have "y \<noteq> x" "eobj z sz y" using prems(2) [of y] prems(3) Cons by auto
    ultimately show ?thesis using item [of y] by simp
  qed
  ultimately have "p_next m' (e + off) = p_next m (e + off)" using assms(1) unfolding drops_def next_kept_def by blast
  with Cons show ?case by auto
qed simp

section \<open>The two loops\<close>

definition kept :: "fdb_mem \<Rightarrow> u64 set \<Rightarrow> u64 list \<Rightarrow> u64 list" where
  "kept m A es = filter (\<lambda>e. \<not> (e \<in> A \<and> entry_type m e \<noteq> FDB_UC_STATIC)) es"

definition same_records :: "fdb_mem \<Rightarrow> fdb_mem \<Rightarrow> u64 list \<Rightarrow> bool" where
  "same_records m m' es \<longleftrightarrow> (\<forall>e\<in>set es. record_at m' e = record_at m e \<and> p_key m' e = p_key m e)"

definition doomed :: "fdb_mem \<Rightarrow> u64 list \<Rightarrow> u64 list" where
  "doomed m xs = filter (\<lambda>e. entry_type m e \<noteq> FDB_UC_STATIC) xs"

text \<open>A loop over the entries \<open>xs\<close>: those that are not static are gone, after their cookies were released in this order.\<close>

definition flush_outcome ::
  "(u64 \<Rightarrow> zone) \<Rightarrow> u64 set \<Rightarrow> size_t \<Rightarrow> 'w learn_state \<Rightarrow> fdb_mem \<Rightarrow> u64 list \<Rightarrow> u64 list \<Rightarrow> 'w \<Rightarrow> 'w learn \<Rightarrow> bool" where
  "flush_outcome z L sz s m es xs w t \<longleftrightarrow> (\<exists>d m'.
    t = (s\<lparr>learn_db := d\<rparr>, m', cookie_calls s (map (entry_cookie m) (doomed m xs)) w) \<and>
    fdb z L sz d m' (kept m (set xs) es) \<and> same_records m m' (kept m (set xs) es) \<and>
    capacity (main_db_pool d) = capacity (main_db_pool (learn_db s)) \<and>
    capacity (fdb_fltr_pool d) = capacity (fdb_fltr_pool (learn_db s)))"

lemma flush_none: "fdb z L sz (learn_db s) m es \<Longrightarrow> flush_outcome z L sz s m es [] w (s, m, w)"
  unfolding flush_outcome_def
  by (rule exI [of _ "learn_db s"], rule exI [of _ m]) (simp add: kept_def same_records_def doomed_def cookie_calls_list)

lemma flush_static:
  assumes "flush_outcome z L sz s m es xs w t" and "entry_type m x = FDB_UC_STATIC"
  shows "flush_outcome z L sz s m es (x # xs) w t"
proof -
  have "kept m (set (x # xs)) es = kept m (set xs) es" unfolding kept_def by (rule filter_cong) (use assms(2) in auto)
  moreover have "doomed m (x # xs) = doomed m xs" using assms(2) by (simp add: doomed_def)
  ultimately show ?thesis using assms(1) by (simp add: flush_outcome_def)
qed

lemma flush_drop:
  assumes db: "distinct es" "entry_type m x \<noteq> FDB_UC_STATIC" and dr: "drops z sz m es x m1"
    and rest: "flush_outcome z L sz (s\<lparr>learn_db := d\<rparr>) m1 (remove1 x es) xs (cookie_calls s [entry_cookie m x] w) t"
      "x \<notin> set xs" "set xs \<subseteq> set es"
    and cap: "capacity (main_db_pool d) = capacity (main_db_pool (learn_db s))"
      "capacity (fdb_fltr_pool d) = capacity (fdb_fltr_pool (learn_db s))"
  shows "flush_outcome z L sz s m es (x # xs) w t"
proof -
  have same: "entry_type m1 e = entry_type m e \<and> entry_cookie m1 e = entry_cookie m e" if "e \<in> set es" "e \<noteq> x" for e
    using dr that by (auto simp: drops_def record_at_def)
  let ?A = "set (x # xs)"
  have k: "kept m1 (set xs) (remove1 x es) = kept m ?A es"
    unfolding kept_def distinct_remove1_removeAll [OF db(1)] removeAll_filter_not_eq filter_filter
    by (rule filter_cong) (use same db(2) in \<open>metis list.set_intros set_ConsD\<close>)+
  have d1: "doomed m1 xs = doomed m xs"
    unfolding doomed_def by (rule filter_cong) (use same rest(2,3) in \<open>metis subsetD\<close>)+
  have d2: "map (entry_cookie m1) (doomed m xs) = map (entry_cookie m) (doomed m xs)"
    by (rule map_cong) (use same rest(2,3) in \<open>auto simp: doomed_def\<close>)
  have d3: "doomed m (x # xs) = x # doomed m xs" using db(2) by (simp add: doomed_def)
  have w: "cookie_calls s (map (entry_cookie m1) (doomed m1 xs)) (cookie_calls s [entry_cookie m x] w) =
      cookie_calls s (map (entry_cookie m) (doomed m (x # xs))) w"
    unfolding d1 d2 d3 list.map by (rule cookie_calls_list(2) [symmetric])
  have sub: "set (kept m ?A es) \<subseteq> set es - {x}" using db(2) by (auto simp: kept_def)
  from rest(1) obtain d' m' where
    r: "t = (s\<lparr>learn_db := d'\<rparr>, m', cookie_calls s (map (entry_cookie m) (doomed m (x # xs))) w)"
    "fdb z L sz d' m' (kept m ?A es)" "same_records m1 m' (kept m ?A es)"
    "capacity (main_db_pool d') = capacity (main_db_pool d)" "capacity (fdb_fltr_pool d') = capacity (fdb_fltr_pool d)"
    unfolding flush_outcome_def k cookie_calls_state w by auto
  have "same_records m m' (kept m ?A es)"
    unfolding same_records_def
  proof (intro ballI)
    fix e assume e: "e \<in> set (kept m ?A es)"
    then have "e \<in> set es" "e \<noteq> x" using sub by auto
    with e r(3) dr show "record_at m' e = record_at m e \<and> p_key m' e = p_key m e"
      by (simp add: same_records_def drops_def)
  qed
  with r cap show ?thesis
    unfolding flush_outcome_def by (intro exI [of _ d'] exI [of _ m']) simp
qed

lemma flush_filter_loop_ok:
  assumes "fdb z L sz (learn_db s) m es" and f: "filter_by_vid f \<or> filter_by_log_port f" and c: "z c \<in> {ZVlan, ZHead}"
    and "chain m (filter_offset sz f) c xs" "distinct xs" "set xs \<subseteq> set es"
  shows "\<exists>t. flush_filter_loop sz f c (head_of xs) tmp err (s, m, w) = Some (if xs = [] then err else 0, t) \<and>
    flush_outcome z L sz s m es xs w t"
  using assms(1,4-6)
proof (induction xs arbitrary: s m w es tmp err)
  case Nil
  then show ?case using flush_none by (subst flush_filter_loop.simps) auto
next
  case (Cons x xs)
  let ?o = "filter_offset sz f"
  note db = Cons.prems(1)
  have x: "x \<in> set es" "x \<notin> set xs" using Cons.prems by auto
  have c0: "c \<noteq> 0" using c fdb_items(2) [OF db] by auto
  have x0: "x \<noteq> 0" "x + ?o \<noteq> 0" using fdb_items(4) [OF db x(1)] by blast+
  note nx = next_by_filter [OF fdb_items(1) [OF db] f c0 x0 Cons.prems(2), of tmp]
  have dist: "distinct es" using db qmap_wf_distinct unfolding fdb_def entries_def by blast
  show ?case
  proof (cases "entry_type m x = FDB_UC_STATIC")
    case True
    from Cons.IH [OF db, of "head_of xs" 0 w] Cons.prems obtain t where
      t: "flush_filter_loop sz f c (head_of xs) (head_of xs) 0 (s, m, w) = Some (0, t)" "flush_outcome z L sz s m es xs w t"
      by auto
    then have "flush_filter_loop sz f c (head_of (x # xs)) tmp err (s, m, w) = Some (0, t)"
      using nx x0(1) True by (subst flush_filter_loop.simps) simp
    with flush_static [OF t(2) True] show ?thesis by auto
  next
    case False
    let ?w = "cookie_calls s [entry_cookie m x] w"
    from drop_record_ok [OF db x(1), of 0 w] obtain d m1 where
      dr: "drop_record sz x 0 (s, m, w) = Some (0, s\<lparr>learn_db := d\<rparr>, m1, ?w)" "fdb z L sz d m1 (remove1 x es)"
        "drops z sz m es x m1" "capacity (main_db_pool d) = capacity (main_db_pool (learn_db s))"
        "capacity (fdb_fltr_pool d) = capacity (fdb_fltr_pool (learn_db s))" by blast
    have "chain m1 ?o c xs"
    proof (rule drops_chain [OF dr(3) _ _ _ x(2) c])
      show "chain m ?o c xs" using Cons.prems(2) by simp
      show "?o \<in> {vid_fltr_entry sz, port_fltr_entry sz, vid_port_fltr_entry sz}" by (simp add: filter_offset_def)
      show "eobj z sz e" if "e \<in> insert x (set xs)" for e using fdb_items(3) [OF db] Cons.prems(4) that by auto
    qed
    moreover have "set xs \<subseteq> set (remove1 x es)" using Cons.prems(4) x(2) dist by auto
    ultimately obtain t where
      t: "flush_filter_loop sz f c (head_of xs) (head_of xs) 0 (s\<lparr>learn_db := d\<rparr>, m1, ?w) = Some (0, t)"
        "flush_outcome z L sz (s\<lparr>learn_db := d\<rparr>) m1 (remove1 x es) xs ?w t"
      using Cons.IH [of "s\<lparr>learn_db := d\<rparr>" m1 "remove1 x es" "head_of xs" 0 ?w] dr(2) Cons.prems(3) by auto
    then have "flush_filter_loop sz f c (head_of (x # xs)) tmp err (s, m, w) = Some (0, t)"
      using nx x0(1) False dr(1) by (subst flush_filter_loop.simps) simp
    moreover have "set xs \<subseteq> set es" using Cons.prems(4) by simp
    ultimately show ?thesis using flush_drop [OF dist False dr(3) t(2) x(2) _ dr(4,5)] by auto
  qed
qed

lemma next_record:
  assumes db: "fdb z L sz s m (us @ x # rest)"
  shows "fdb_uc_db_next_record s x tmp m = (0, head_of rest)"
proof -
  have en: "entries z L sz s m (us @ x # rest)" using db by (simp add: fdb_def)
  then have ring: "qlist_at m (qm_nil (fdb_map s)) (us @ x # rest)" and init: "fdb_initiated s"
    by (simp_all add: entries_def qmap_wf_def fmap_wf_def as_fmap_def)
  have "x \<noteq> 0" using fdb_items(4) [OF db, of x] by simp
  moreover have "p_next m x = hd (rest @ [qm_nil (fdb_map s)])" by (rule qlist_at_next [OF ring])
  moreover have "hd rest \<noteq> qm_nil (fdb_map s)" if "rest \<noteq> []" using ring that by (cases rest) (auto simp: qlist_at_def)
  ultimately show ?thesis
    using init by (cases rest) (auto simp: fdb_uc_db_next_record_def cl_qmap_next_def cl_qmap_end_def Let_def)
qed

lemma first_record:
  assumes db: "fdb z L sz s m es"
  shows "fdb_uc_db_get_first_record s m = (0, head_of es)"
proof -
  have en: "entries z L sz s m es" using db by (simp add: fdb_def)
  then have ring: "qlist_at m (qm_nil (fdb_map s)) es" and init: "fdb_initiated s"
    by (simp_all add: entries_def qmap_wf_def fmap_wf_def as_fmap_def)
  have "p_next m (qm_nil (fdb_map s)) = hd (es @ [qm_nil (fdb_map s)])" by (rule qlist_at_first [OF ring])
  moreover have "hd es \<noteq> qm_nil (fdb_map s)" if "es \<noteq> []" using ring that by (cases es) (auto simp: qlist_at_def)
  ultimately show ?thesis
    using init by (cases es) (auto simp: fdb_uc_db_get_first_record_def cl_qmap_head_def cl_qmap_end_def Let_def)
qed

lemma flush_all_loop_ok:
  assumes "fdb z L sz (learn_db s) m (us @ xs)"
  shows "\<exists>t. flush_all_loop sz (head_of xs) tmp err (s, m, w) = Some (if xs = [] then err else 0, t) \<and>
    flush_outcome z L sz s m (us @ xs) xs w t"
  using assms
proof (induction xs arbitrary: s m w us tmp err)
  case Nil
  then show ?case using flush_none by (subst flush_all_loop.simps) auto
next
  case (Cons x xs)
  note db = Cons.prems and nx = next_record [OF Cons.prems, of tmp]
  have x0: "x \<noteq> 0" using fdb_items(4) [OF db, of x] by simp
  have dist: "distinct (us @ x # xs)" using db qmap_wf_distinct unfolding fdb_def entries_def by blast
  show ?case
  proof (cases "entry_type m x = FDB_UC_STATIC")
    case True
    from Cons.IH [of s m "us @ [x]" "head_of xs" 0 w] db obtain t where
      t: "flush_all_loop sz (head_of xs) (head_of xs) 0 (s, m, w) = Some (0, t)"
        "flush_outcome z L sz s m (us @ x # xs) xs w t" by auto
    then have "flush_all_loop sz (head_of (x # xs)) tmp err (s, m, w) = Some (0, t)"
      using nx x0 True by (subst flush_all_loop.simps) simp
    with flush_static [OF t(2) True] show ?thesis by auto
  next
    case False
    let ?w = "cookie_calls s [entry_cookie m x] w"
    from drop_record_ok [OF db, of x 0 w] obtain d m1 where
      dr: "drop_record sz x 0 (s, m, w) = Some (0, s\<lparr>learn_db := d\<rparr>, m1, ?w)" "fdb z L sz d m1 (remove1 x (us @ x # xs))"
        "drops z sz m (us @ x # xs) x m1" "capacity (main_db_pool d) = capacity (main_db_pool (learn_db s))"
        "capacity (fdb_fltr_pool d) = capacity (fdb_fltr_pool (learn_db s))" by auto
    have r: "remove1 x (us @ x # xs) = us @ xs" using dist by (simp add: remove1_append)
    from Cons.IH [of "s\<lparr>learn_db := d\<rparr>" m1 us "head_of xs" 0 ?w] dr(2) obtain t where
      t: "flush_all_loop sz (head_of xs) (head_of xs) 0 (s\<lparr>learn_db := d\<rparr>, m1, ?w) = Some (0, t)"
        "flush_outcome z L sz (s\<lparr>learn_db := d\<rparr>) m1 (remove1 x (us @ x # xs)) xs ?w t" unfolding r by auto
    then have "flush_all_loop sz (head_of (x # xs)) tmp err (s, m, w) = Some (0, t)"
      using nx x0 False dr(1) by (subst flush_all_loop.simps) simp
    moreover have "x \<notin> set xs" using dist by simp
    ultimately show ?thesis using flush_drop [OF dist False dr(3) t(2) _ _ dr(4,5)] by auto
  qed
qed

section \<open>Flushing\<close>

definition flush_match :: "fdb_uc_key_filter \<Rightarrow> fdb_record \<Rightarrow> bool" where
  "flush_match f r \<longleftrightarrow> (case r of (p, _, ty) \<Rightarrow> (filter_by_vid f \<longrightarrow> vid p = filter_vid f) \<and>
    (filter_by_log_port f \<longrightarrow> log_port p = filter_log_port f) \<and> ty \<noteq> FDB_UC_STATIC)"

definition no_filter :: fdb_uc_key_filter where
  "no_filter = \<lparr>filter_by_vid = False, filter_vid = 0, filter_by_log_port = False, filter_log_port = 0\<rparr>"

lemma kept_flushed:
  assumes db: "fdb z L sz s m es" and same: "same_records m m' (kept m A es)"
    and A: "\<And>e. e \<in> set es \<Longrightarrow> e \<in> A \<longleftrightarrow> matches m f e"
  shows "db_of m' (kept m A es) = flushed (flush_match f) (db_of m es)"
proof -
  have "kept m A es = filter (\<lambda>e. \<not> flush_match f (record_at m e)) es"
    unfolding kept_def by (rule filter_cong) (use A in \<open>auto simp: flush_match_def matches_def record_at_def\<close>)
  moreover have "keyed (p_key m') (record_at m') (kept m A es) = keyed (p_key m) (record_at m) (kept m A es)"
    by (rule keyed_cong) (use same in \<open>auto simp: same_records_def\<close>)
  moreover have "distinct (map (p_key m) es)" using db qmap_wf_keys unfolding fdb_def entries_def by blast
  ultimately show ?thesis using flushed_keyed [of "p_key m" es "record_at m" "flush_match f"] by (simp add: db_of_def)
qed

lemma lock_round: "\<not> fdb_locked s \<Longrightarrow> cl_spinlock_release (s\<lparr>fdb_locked := True, learn_db := d\<rparr>, m, w) = (s\<lparr>learn_db := d\<rparr>, m, w)"
  by (cases s) (simp add: cl_spinlock_release_def)

text \<open>
  What a flush leaves: the entries that match and are not static are gone, and the cookie of each of them was released
  once.
\<close>

definition flushes ::
  "(u64 \<Rightarrow> zone) \<Rightarrow> u64 set \<Rightarrow> size_t \<Rightarrow> fdb_uc_key_filter \<Rightarrow> 'w learn_state \<Rightarrow> fdb_mem \<Rightarrow> u64 list \<Rightarrow> 'w \<Rightarrow>
   (int \<times> 'w learn) option \<Rightarrow> bool" where
  "flushes z L sz f s m es w r \<longleftrightarrow> (\<exists>d m' es' xs.
    distinct xs \<and> set xs = {e \<in> set es. flush_match f (record_at m e)} \<and>
    r = Some (0, s\<lparr>learn_db := d\<rparr>, m', cookie_calls s (map (entry_cookie m) xs) w) \<and> fdb z L sz d m' es' \<and>
    db_of m' es' = flushed (flush_match f) (db_of m es) \<and>
    capacity (main_db_pool d) = capacity (main_db_pool (learn_db s)) \<and>
    capacity (fdb_fltr_pool d) = capacity (fdb_fltr_pool (learn_db s)))"

lemma flush_finish:
  assumes db: "fdb z L sz (learn_db s) m es" and lock: "\<not> fdb_locked s"
    and out: "flush_outcome z L sz (s\<lparr>fdb_locked := True\<rparr>) m es xs w t"
    and xs: "distinct xs" "set xs = {e \<in> set es. matches m f e}"
  shows "flushes z L sz f s m es w (Some (0, cl_spinlock_release t))"
proof -
  let ?ys = "doomed m xs" and ?es = "kept m (set xs) es"
  from out obtain d m' where
    o: "t = (s\<lparr>fdb_locked := True, learn_db := d\<rparr>, m', cookie_calls s (map (entry_cookie m) ?ys) w)" "fdb z L sz d m' ?es"
    "same_records m m' ?es" "capacity (main_db_pool d) = capacity (main_db_pool (learn_db s))"
    "capacity (fdb_fltr_pool d) = capacity (fdb_fltr_pool (learn_db s))" unfolding flush_outcome_def cookie_calls_state by auto
  have "set ?ys = {e \<in> set es. flush_match f (record_at m e)}"
    unfolding doomed_def set_filter xs(2) by (auto simp: flush_match_def matches_def record_at_def)
  moreover have "distinct ?ys" using xs(1) by (simp add: doomed_def)
  moreover have "db_of m' ?es = flushed (flush_match f) (db_of m es)"
    by (rule kept_flushed [OF db o(3)]) (use xs(2) in simp)
  ultimately show ?thesis
    unfolding flushes_def using o(1,2,4,5) lock_round [OF lock, of d m' "cookie_calls s (map (entry_cookie m) ?ys) w"]
    by (intro exI [of _ d] exI [of _ m'] exI [of _ ?es] exI [of _ ?ys]) simp
qed

lemma flush_by_filter:
  assumes db: "fdb z L sz (learn_db s) m es" and lock: "\<not> fdb_locked s" and f: "filter_by_vid f \<or> filter_by_log_port f"
    and v: "filter_by_log_port f \<or> unat (filter_vid f) < MAX_VLAN_ENTRIES"
    and P: "\<And>e. e \<in> set es \<Longrightarrow> log_port (mac_params m e) < 2 ^ 32" "filter_log_port f < 2 ^ 32"
  shows "flushes z L sz f s m es w (ctrl_learn_flush_db_by_filter sz f (s, m, w))"
proof -
  let ?s = "s\<lparr>fdb_locked := True\<rparr>" and ?A = "{e \<in> set es. matches m f e}"
  from fdb_first [OF db f v P] obtain xs c where
    st: "fdb_uc_db_get_first_record_by_filter sz (learn_db s) (Some f) (Some 0) (Some 0) m =
        Some (0, Some (if xs = [] then 0 else c), Some (head_of xs))"
      "z c \<in> {ZVlan, ZHead}" "chain m (filter_offset sz f) c xs" "distinct xs" "set xs = ?A"
    by (auto simp: starts_def)
  have db': "fdb z L sz (learn_db ?s) m es" using db by simp
  from flush_filter_loop_ok [OF db' f st(2,3,4), of 0 0 w] st(5) obtain t where
    t: "flush_filter_loop sz f c (head_of xs) 0 0 (?s, m, w) = Some (0, t)" "flush_outcome z L sz ?s m es xs w t"
    by auto
  have "ctrl_learn_flush_db_by_filter sz f (s, m, w) = Some (0, cl_spinlock_release t)"
  proof (cases "xs = []")
    case True
    then have "t = (?s, m, w)" using t(1) by (simp add: flush_filter_loop.simps)
    with True show ?thesis
      using st(1) lock by (simp add: ctrl_learn_flush_db_by_filter_def cl_spinlock_acquire_def flush_filter_loop.simps)
  next
    case False
    then show ?thesis
      using st(1) t(1) lock by (simp add: ctrl_learn_flush_db_by_filter_def cl_spinlock_acquire_def)
  qed
  with flush_finish [OF db lock t(2) st(4,5)] show ?thesis by simp
qed

lemma flush_all:
  assumes db: "fdb z L sz (learn_db s) m es" and lock: "\<not> fdb_locked s"
  shows "flushes z L sz no_filter s m es w (ctrl_learn_handle_flush_all sz (s, m, w))"
proof -
  let ?s = "s\<lparr>fdb_locked := True\<rparr>"
  have "fdb z L sz (learn_db ?s) m ([] @ es)" using db by simp
  from flush_all_loop_ok [OF this, of 0 0 w] obtain t where
    t: "flush_all_loop sz (head_of es) 0 0 (?s, m, w) = Some (0, t)" "flush_outcome z L sz ?s m es es w t" by auto
  have "ctrl_learn_handle_flush_all sz (s, m, w) = Some (0, cl_spinlock_release t)"
    using first_record [OF db] t(1) lock by (simp add: ctrl_learn_handle_flush_all_def cl_spinlock_acquire_def)
  moreover have "distinct es" using db qmap_wf_distinct unfolding fdb_def entries_def by blast
  ultimately show ?thesis using flush_finish [OF db lock t(2), of no_filter] by (simp add: matches_def no_filter_def)
qed

end
