(* ===== verification/Learn_Read.thy ===== *)
theory Learn_Read
  imports Learn_Flush
begin

text \<open>
  Reading entries in pages: \<^verbatim>\<open>GET_FIRST\<close> returns the first entries that match the filter, as many as fit in
  the caller's array, \<^verbatim>\<open>GET_NEXT\<close> the ones after a given entry.
\<close>

section \<open>The loop\<close>

declare get_loop.simps [simp del]

text \<open>The entries \<open>xs\<close> follow each other, whatever way the next one is found.\<close>

definition steps ::
  "size_t \<Rightarrow> fdb_uc_key_filter \<Rightarrow> u64 \<Rightarrow> 'w fdb_state \<Rightarrow> fdb_mem \<Rightarrow> u64 list \<Rightarrow> bool" where
  "steps sz f c d m xs \<longleftrightarrow> (\<forall>us e vs tmp. xs = us @ e # vs \<longrightarrow> e \<noteq> 0 \<and> get_next sz f c e tmp d m = (0, head_of vs))"

lemma steps_suffix: "steps sz f c d m (us @ xs) \<Longrightarrow> steps sz f c d m xs"
  unfolding steps_def by (metis append_assoc)

lemma steps_first: "steps sz f c d m (e # es) \<Longrightarrow> e \<noteq> 0 \<and> get_next sz f c e tmp d m = (0, head_of es)"
  unfolding steps_def by blast

definition filled :: "fdb_mem \<Rightarrow> fdb_uc_mac_addr_params list \<Rightarrow> nat \<Rightarrow> u64 list \<Rightarrow> fdb_uc_mac_addr_params list" where
  "filled m mac_list k xs = take k mac_list @ map (copy_record m) xs @ drop (k + length xs) mac_list"

lemma filled_step:
  assumes "k < length ml"
  shows "filled m (ml[k := copy_record m x]) (Suc k) xs = filled m ml k (x # xs)"
proof -
  have "take (Suc k) (ml[k := copy_record m x]) = take k ml @ [copy_record m x]"
    using assms by (simp add: take_Suc_conv_app_nth)
  then show ?thesis by (simp add: filled_def)
qed

lemma unat_next16: "unat (k :: u16) < unat (n :: u16) \<Longrightarrow> unat (k + 1) = unat k + 1"
proof -
  assume less: "unat k < unat n"
  have "k + 1 \<noteq> 0"
  proof
    assume "k + 1 = 0"
    then have "k = - 1" by (simp add: eq_neg_iff_add_eq_0)
    then have "n \<le> k" by simp
    with less show False by (simp add: word_le_nat_alt)
  qed
  then show ?thesis using unatSuc [of k] by (simp add: add.commute)
qed

lemma get_loop_ok:
  assumes "steps sz f c d m xs" and "unat k < unat n" and "unat n \<le> length ml"
  shows "get_loop sz f c n (head_of xs) tmp ml k d m =
    Some (0, filled m ml (unat k) (take (unat n - unat k) xs), of_nat (unat k + min (length xs) (unat n - unat k)))"
  using assms
proof (induction xs arbitrary: k ml tmp)
  case Nil
  then show ?case by (simp add: filled_def get_loop.simps)
next
  case (Cons x xs)
  let ?ml = "ml[unat k := copy_record m x]"
  note st = steps_first [OF Cons.prems(1)]
  have k1: "unat (k + 1) = unat k + 1" by (rule unat_next16 [OF Cons.prems(2)])
  have len: "unat k < length ml" using Cons.prems(2,3) by simp
  show ?case
  proof (cases "n \<le> k + 1")
    case True
    then have "unat n = unat k + 1" using k1 Cons.prems(2) by (simp add: word_le_nat_alt)
    moreover have "get_loop sz f c n x tmp ml k d m = Some (0, ?ml, k + 1)"
      using True st len by (subst get_loop.simps) simp
    moreover have "k + 1 = of_nat (unat k + 1)" by simp
    ultimately show ?thesis using upd_conv_take_nth_drop [OF len, of "copy_record m x"] by (simp add: filled_def)
  next
    case False
    then have less: "unat (k + 1) < unat n" by (simp add: word_le_nat_alt)
    have s: "steps sz f c d m xs" using steps_suffix [of sz f c d m "[x]" xs] Cons.prems(1) by simp
    have d: "unat n - unat k = Suc (unat n - unat (k + 1))" using less k1 by simp
    have "get_loop sz f c n x tmp ml k d m = get_loop sz f c n (head_of xs) (head_of xs) ?ml (k + 1) d m"
      using False st len by (subst get_loop.simps) simp
    also have "\<dots> = Some (0, filled m ?ml (Suc (unat k)) (take (unat n - unat (k + 1)) xs),
        of_nat (unat (k + 1) + min (length xs) (unat n - unat (k + 1))))"
      using Cons.IH [OF s less, of ?ml "head_of xs"] Cons.prems(3) k1 by simp
    also have "\<dots> = Some (0, filled m ml (unat k) (take (unat n - unat k) (x # xs)),
        of_nat (unat k + min (length (x # xs)) (unat n - unat k)))"
      unfolding filled_step [OF len] d k1 by simp
    finally show ?thesis by simp
  qed
qed

section \<open>Pages\<close>

definition page ::
  "fdb_mem \<Rightarrow> fdb_uc_mac_addr_params list \<Rightarrow> u16 \<Rightarrow> u64 list \<Rightarrow> int \<times> fdb_uc_mac_addr_params list \<times> u16" where
  "page m mac_list n xs = (if xs = [] then (- ENOENT, mac_list, 0)
     else let k = min (length xs) (unat n)
       in (0, map (copy_record m) (take k xs) @ drop k mac_list, of_nat k))"

lemma get_loop_page:
  assumes "steps sz f c d m xs" and "xs \<noteq> []" and "n \<noteq> 0" "unat n \<le> length ml"
  shows "get_loop sz f c n (head_of xs) tmp ml 0 d m = Some (page m ml n xs)"
proof -
  have "unat (0 :: u16) < unat n" using assms(3) by (simp add: unat_gt_0)
  from get_loop_ok [OF assms(1) this assms(4), of tmp] show ?thesis
    using assms(2) by (simp add: page_def filled_def Let_def min_def)
qed

lemma key_found:
  assumes db: "fdb z L sz s m es" and e: "e \<in> set es"
  shows "fdb_uc_db_get_record_by_key s (entry_key m e) m = Some (0, e)"
proof -
  have en: "entries z L sz s m es" and k: "p_key m e = entry_key m e" using db e by (simp_all add: fdb_def)
  have dist: "distinct (map (p_key m) es)" using en qmap_wf_keys unfolding entries_def by blast
  show ?thesis
  proof (cases "find (\<lambda>x. entry_key m e = p_key m x) es")
    case None
    then show ?thesis using e k by (auto simp: find_None_iff)
  next
    case (Some x)
    then have "x \<in> set es" "p_key m x = p_key m e" using k by (auto dest: find_in_set)
    then have "x = e" using dist e by (metis distinct_map inj_onD)
    with Some record_by_key [OF en, of "entry_key m e"] show ?thesis by simp
  qed
qed

text \<open>The order in which the entries that match a filter are read, from the cookie \<open>c\<close> on.\<close>

definition read_order ::
  "size_t \<Rightarrow> fdb_uc_key_filter \<Rightarrow> u64 \<Rightarrow> 'w fdb_state \<Rightarrow> fdb_mem \<Rightarrow> u64 list \<Rightarrow> bool" where
  "read_order sz f c d m xs \<longleftrightarrow> steps sz f c d m xs \<and>
    get_first_start sz f d m = Some (if xs = [] then - ENOENT else 0, if xs = [] then 0 else c, head_of xs) \<and>
    (has_filter f \<longrightarrow> (\<exists>tmp. fdb_uc_db_get_first_record_by_filter sz d (Some f) (Some 0) (Some 0) m =
      Some (0, Some (if xs = [] then 0 else c), Some tmp))) \<and> (\<not> has_filter f \<longrightarrow> c = 0)"

lemma read_order_all:
  assumes db: "fdb z L sz s m es" and f: "\<not> has_filter f"
  shows "read_order sz f 0 s m es"
proof -
  have "e \<noteq> 0" if "es = us @ e # vs" for us e vs using fdb_items(4) [OF db, of e] that by simp
  moreover have "get_next sz f 0 e tmp s m = (0, head_of vs)" if "es = us @ e # vs" for us e vs tmp
    using next_record [OF db [unfolded that]] f by (simp add: get_next_def)
  ultimately have "steps sz f 0 s m es" unfolding steps_def by blast
  moreover have "get_first_start sz f s m = Some (if es = [] then - ENOENT else 0, 0, head_of es)"
    using first_record [OF db] f fdb_items(4) [OF db, of "hd es"] by (cases es) (auto simp: get_first_start_def)
  ultimately show ?thesis using f by (simp add: read_order_def)
qed

lemma chain_suffix: "chain m off c (us @ xs) \<Longrightarrow> chain m off c xs"
  by (induction us) auto

lemma read_order_filter:
  assumes db: "fdb z L sz s m es" and f: "has_filter f"
    and v: "filter_by_log_port f \<or> unat (filter_vid f) < MAX_VLAN_ENTRIES"
    and P: "\<And>e. e \<in> set es \<Longrightarrow> log_port (mac_params m e) < 2 ^ 32" "filter_log_port f < 2 ^ 32"
  shows "\<exists>c xs. read_order sz f c s m xs \<and> distinct xs \<and> set xs = {e \<in> set es. matches m f e}"
proof -
  have f': "filter_by_vid f \<or> filter_by_log_port f" using f by (auto simp: has_filter_def)
  from fdb_first [OF db f' v P] obtain xs c where
    st: "fdb_uc_db_get_first_record_by_filter sz s (Some f) (Some 0) (Some 0) m =
        Some (0, Some (if xs = [] then 0 else c), Some (head_of xs))"
      "z c \<in> {ZVlan, ZHead}" "chain m (filter_offset sz f) c xs" "distinct xs" "set xs = {e \<in> set es. matches m f e}"
    by (auto simp: starts_def)
  have c: "c \<noteq> 0" using st(2) fdb_items(2) [OF db] by auto
  have ne: "e \<noteq> 0" "e + filter_offset sz f \<noteq> 0" if "e \<in> set xs" for e using fdb_items(4) [OF db, of e f] st(5) that by auto
  have nx: "get_next sz f c e tmp s m = (0, head_of vs)" if x: "xs = us @ e # vs" for us e vs tmp
    using next_by_filter [OF fdb_items(1) [OF db] f' c] ne [of e] chain_suffix [of m _ c us "e # vs"] st(3) f x
    by (simp add: get_next_def)
  have "steps sz f c s m xs" unfolding steps_def using nx ne(1) by auto
  moreover have "get_first_start sz f s m = Some (if xs = [] then - ENOENT else 0, if xs = [] then 0 else c, head_of xs)"
    using st(1) f ne(1) [of "hd xs"] by (cases xs) (auto simp: get_first_start_def)
  ultimately have "read_order sz f c s m xs" using st(1) f unfolding read_order_def by blast
  with st(4,5) show ?thesis by blast
qed

lemma read_orders:
  assumes db: "fdb z L sz s m es" and f: "\<not> (filter_by_vid f \<and> VID_MAX < filter_vid f)" and P: "filter_log_port f < 2 ^ 32"
    "\<forall>e\<in>set es. log_port (mac_params m e) < 2 ^ 32"
  shows "\<exists>c xs. read_order sz f c s m xs \<and> distinct xs \<and> set xs = {e \<in> set es. matches m f e}"
proof (cases "has_filter f")
  case True
  then have "filter_by_log_port f \<or> unat (filter_vid f) < MAX_VLAN_ENTRIES"
    using f by (auto simp: has_filter_def VID_MAX_def MAX_VLAN_ENTRIES_def word_less_nat_alt)
  from read_order_filter [OF db True this _ P(1)] P(2) show ?thesis by blast
next
  case False
  have "distinct es" using db qmap_wf_distinct unfolding fdb_def entries_def by blast
  with read_order_all [OF db False] False show ?thesis by (auto simp: has_filter_def matches_def)
qed

lemma read_first:
  assumes "read_order sz f c d m xs" and "n \<noteq> 0" "unat n \<le> length ml"
  shows "get_command sz env OES_ACCESS_CMD_GET_FIRST f ml n d m = Some (page m ml n xs)"
proof -
  have st: "steps sz f c d m xs"
    and start: "get_first_start sz f d m = Some (if xs = [] then - ENOENT else 0, if xs = [] then 0 else c, head_of xs)"
    using assms(1) by (simp_all add: read_order_def)
  show ?thesis
  proof (cases "xs = []")
    case True
    with start show ?thesis by (simp add: get_command_def page_def ENOENT_def)
  next
    case False
    with start get_loop_page [OF st False assms(2,3), of "head_of xs"] show ?thesis by (simp add: get_command_def)
  qed
qed

lemma read_next:
  assumes ro: "read_order sz f c d m (us @ e # vs)" and n: "n \<noteq> 0" "unat n \<le> length ml"
    and key: "ml = a # as" "fdb_uc_db_get_record_by_key d (FDB_UC_CONVERT_MAC_VLAN_TO_KEY (mac_addr (mac_addr_params a)) (vid (mac_addr_params a))) m =
      Some (0, e)"
  shows "get_command sz env OES_ACCESS_CMD_GET_NEXT f ml n d m = Some (page m ml n vs)"
proof -
  have st: "steps sz f c d m (e # vs)" using ro steps_suffix unfolding read_order_def by blast
  then have sv: "steps sz f c d m vs" using steps_suffix [of sz f c d m "[e]" vs] by simp
  have v0: "head_of vs \<noteq> 0" if "vs \<noteq> []" using sv that by (cases vs) (auto dest: steps_first)
  have "get_next_start sz f ml d m = Some (if vs = [] then - ENOENT else 0, c, head_of vs)"
    using key ro steps_first [OF st] v0
    by (cases "has_filter f") (auto simp: get_next_start_def record_of_key_def read_order_def)
  then show ?thesis
    using get_loop_page [OF sv _ n, of "head_of vs"]
    by (cases "vs = []") (simp_all add: get_command_def page_def ENOENT_def)
qed

section \<open>The call\<close>

lemma lock_step:
  assumes "fdb_lock \<longrightarrow> \<not> fdb_locked s"
  shows "\<exists>s'. lock_if fdb_lock (s, m, w) = Some (s', m, w) \<and> learn_db s' = learn_db s \<and>
    (\<forall>d m w. unlock_if fdb_lock (s'\<lparr>learn_db := d\<rparr>, m, w) = (s\<lparr>learn_db := d\<rparr>, m, w)) \<and>
    unlock_if fdb_lock (s', m, w) = (s, m, w)"
  using assms by (cases s) (auto simp: lock_if_def unlock_if_def cl_spinlock_acquire_def cl_spinlock_release_def)

lemma mac_addr_get:
  assumes "is_ctrl_learn_initialized s" and "n \<noteq> 0" and "\<not> (filter_by_vid f \<and> VID_MAX < filter_vid f)"
    and lock: "fdb_lock \<longrightarrow> \<not> fdb_locked s" and "get_command sz env cmd f ml n (learn_db s) m = Some (err, ml', k)"
  shows "ctrl_learn_api_uc_mac_addr_get sz env cmd (Some f) ml (Some n) fdb_lock (s, m, w) = Some (err, ml', k, s, m, w)"
proof -
  from lock_step [OF lock, of m w] obtain s' where
    "lock_if fdb_lock (s, m, w) = Some (s', m, w)" "learn_db s' = learn_db s" "unlock_if fdb_lock (s', m, w) = (s, m, w)" by blast
  with assms show ?thesis by (auto simp: ctrl_learn_api_uc_mac_addr_get_def)
qed

end
