(* ===== verification/Learn_Set.thy ===== *)
theory Learn_Set
  imports Learn_Read
begin

text \<open>
  Setting entries: after \<^verbatim>\<open>ctrl_learn_api_fdb_uc_mac_addr_set\<close> the database holds the entries that were to be added, and none
  of those that were to be deleted, except for the ones the hardware layer returned as failed.
\<close>

section \<open>The database as a map\<close>

definition port_of :: "fdb_record \<Rightarrow> u64" where
  "port_of r = log_port (fst r)"

lemma keyed_ran: "distinct (map k xs) \<Longrightarrow> ran (keyed k f xs) = f ` set xs"
  unfolding keyed_def using ran_distinct [of "map (\<lambda>x. (k x, f x)) xs"] by (simp add: comp_def image_image)

lemma fdb_map_facts:
  assumes "fdb z L sz s m es"
  shows "card (dom (db_of m es)) = length es" "ports m (set es) = port_of ` ran (db_of m es)"
    "dom (db_of m es) = entry_key m ` set es" "length es \<le> capacity (main_db_pool s)"
proof -
  have en: "entries z L sz s m es" using assms by (simp add: fdb_def)
  have d: "distinct (map (p_key m) es)" using en qmap_wf_keys unfolding entries_def by blast
  show "card (dom (db_of m es)) = length es"
    using distinct_card [OF d] by (simp add: db_of_def keyed_dom)
  show "ports m (set es) = port_of ` ran (db_of m es)"
    by (simp add: db_of_def keyed_ran [OF d] ports_def port_of_def record_at_def image_image)
  have "p_key m ` set es = entry_key m ` set es" using assms by (auto simp: fdb_def)
  then show "dom (db_of m es) = entry_key m ` set es" by (simp add: db_of_def keyed_dom)
  show "length es \<le> capacity (main_db_pool s)" by (rule entries_length(2) [OF en])
qed

lemma free_count:
  assumes "fdb z L sz s m es"
  shows "fdb_uc_db_get_free_pool_count s c = (0, of_nat (capacity (main_db_pool s) - length es))"
    "capacity (main_db_pool s) < 2 ^ 32"
proof -
  have en: "entries z L sz s m es" using assms by (simp add: fdb_def)
  then obtain free blocks where rep: "upool_rep L m (main_db_pool s) free (set es) blocks"
    and fx: "fixed (main_db_pool s)" by (auto simp: entries_def zpool_def)
  show "capacity (main_db_pool s) < 2 ^ 32" using fx by (simp add: fixed_def capacity_def word_less_nat_alt)
  have "inj_on (\<lambda>x. x - 24 :: u64) (set es)" by (simp add: inj_on_def)
  then have "capacity (main_db_pool s) = length free + length es"
    using rep entries_length(1) [OF en] by (simp add: upool_rep_def pool_rep_def capacity_def card_image)
  moreover have "cl_qlist_count (qc_free_list (pl_qcpool (main_db_pool s))) = of_nat (length free)"
    using rep qlist_count [of m _ "map (\<lambda>x. x - 24) free"] by (simp add: upool_rep_def pool_rep_def)
  moreover have "ucast (ucast (of_nat k :: u32) :: size_t) = (of_nat k :: u32)" for k
    by (rule bit_word_eqI) (simp add: bit_simps)
  moreover have "fdb_initiated s" using en by (simp add: entries_def)
  ultimately show "fdb_uc_db_get_free_pool_count s c = (0, of_nat (capacity (main_db_pool s) - length es))"
    by (simp add: fdb_uc_db_get_free_pool_count_def cl_pool_count_def cl_qcpool_count_def)
qed

lemma all_approved:
  assumes db: "fdb z L sz (learn_db s) m es" and room: "length rs + length es \<le> capacity (main_db_pool (learn_db s))"
  shows "update_approved_list s rs = (0, rs)"
proof -
  let ?n = "capacity (main_db_pool (learn_db s)) - length es"
  have n: "?n < 2 ^ 32" "length rs < 2 ^ 32" "length rs \<le> ?n" using free_count(2) [OF db] room by linarith+
  have "\<not> (of_nat ?n :: u32) < of_nat (length rs)"
    unfolding word_less_nat_alt unat_of_nat32 [OF n(1)] unat_of_nat32 [OF n(2)] using n(3) by simp
  then show ?thesis using free_count(1) [OF db, of 0] by (simp add: update_approved_list_def)
qed

section \<open>One record\<close>

definition key_of :: "oes_fdb_uc_mac_addr_params \<Rightarrow> u64" where
  "key_of p = FDB_UC_CONVERT_MAC_VLAN_TO_KEY (mac_addr p) (vid p)"

definition stored :: "'w learn_env \<Rightarrow> ctrl_learn_fdb_notify_record \<Rightarrow> fdb_record" where
  "stored env r = ((fdb_entry r)\<lparr>oes_entry_type := if record_entry_type r = FDB_UC_STATIC then OES_FDB_STATIC env else OES_FDB_DYNAMIC env\<rparr>,
    record_cookie r, record_entry_type r)"

definition applied :: "'w learn_env \<Rightarrow> oes_access_cmd \<Rightarrow> ctrl_learn_fdb_notify_record \<Rightarrow> fdb_record option" where
  "applied env cmd r = (if cmd = OES_ACCESS_CMD_ADD then Some (stored env r) else None)"

text \<open>The local variable is outside of the database, and the list heads suffice for the ports \<open>Q\<close>.\<close>

definition outside :: "(u64 \<Rightarrow> zone) \<Rightarrow> size_t \<Rightarrow> u64 \<Rightarrow> bool" where
  "outside z sz frame \<longleftrightarrow> frame \<noteq> 0 \<and> z ` item_addrs sz frame = {ZNone}"

definition heads_suffice :: "u64 set \<Rightarrow> 'w fdb_state \<Rightarrow> (u64 \<rightharpoonup> fdb_record) \<Rightarrow> bool" where
  "heads_suffice Q d db \<longleftrightarrow> finite Q \<and> card Q + capacity (main_db_pool d) \<le> capacity (fdb_fltr_pool d) \<and> port_of ` ran db \<subseteq> Q"

text \<open>What a step on the state \<open>s\<close> leaves: another database, the rest of the state, and the sizes.\<close>

definition leaves ::
  "(u64 \<Rightarrow> zone) \<Rightarrow> u64 set \<Rightarrow> size_t \<Rightarrow> 'w learn_state \<Rightarrow> (u64 \<rightharpoonup> fdb_record) \<Rightarrow> 'w learn \<Rightarrow> bool" where
  "leaves z L sz s db t \<longleftrightarrow> (\<exists>d m w es. t = (s\<lparr>learn_db := d\<rparr>, m, w) \<and> fdb z L sz d m es \<and> db_of m es = db \<and>
    capacity (main_db_pool d) = capacity (main_db_pool (learn_db s)) \<and>
    capacity (fdb_fltr_pool d) = capacity (fdb_fltr_pool (learn_db s)))"

lemma local_entry:
  assumes db: "fdb z L sz s m es" and out: "outside z sz frame"
    and m2: "m2 = (clear_mac_entry sz frame m)\<lparr>mac_params := (mac_params (clear_mac_entry sz frame m))(frame := p),
      entry_type := (entry_type (clear_mac_entry sz frame m))(frame := ty),
      entry_cookie := (entry_cookie (clear_mac_entry sz frame m))(frame := c)\<rparr>"
  shows "fdb z L sz s m2 es" "db_of m2 es = db_of m es" "record_at m2 frame = (p, c, ty)" "frame \<noteq> 0" "z frame = ZNone"
proof -
  have z: "z x = ZNone" if "x \<in> item_addrs sz frame" for x using out that by (auto simp: outside_def)
  show f: "frame \<noteq> 0" "z frame = ZNone" using out z [of frame] by (auto simp: outside_def item_addrs_def)
  then have "frame \<notin> set es" using fdb_items(3) [OF db, of frame] by (auto simp: eobj_def)
  then have r: "record_at m2 e = record_at m e" if "e \<in> set es" for e
    using that clear_entry_props [where sz = sz and e = frame and m = m] by (auto simp: record_at_def m2)
  have t: "touches z {ZNone} m m2"
    using clear_entry_props(1,2) [where sz = sz and e = frame and m = m] z by (force simp: touches_def agree_on_def m2)
  have p: "mac_params m2 e = mac_params m e" if "e \<in> set es" for e using r [OF that] by (simp add: record_at_def)
  show "fdb z L sz s m2 es" by (rule fdb_frame(1) [OF db t p])
  show "db_of m2 es = db_of m es" unfolding db_of_def by (rule keyed_cong) (use fdb_frame(2) [OF db t p] r in simp_all)
  show "record_at m2 frame = (p, c, ty)" by (simp add: record_at_def m2)
qed

lemma add_local:
  assumes db: "fdb z L sz s m es" and m: "record_at m frame = (p, c, ty)" "frame \<noteq> 0" "z frame = ZNone"
    and v: "unat (vid p) < MAX_VLAN_ENTRIES" and Q: "heads_suffice Q s (db_of m es)" "log_port p \<in> Q"
    and room: "length es < capacity (main_db_pool s)"
  shows "\<exists>d m' es'. fdb_uc_db_add_record os sz s frame m w = Some (0, d, m', w) \<and> fdb z L sz d m' es' \<and>
    db_of m' es' = (db_of m es)(key_of p \<mapsto> (p, c, ty)) \<and>
    capacity (main_db_pool d) = capacity (main_db_pool s) \<and> capacity (fdb_fltr_pool d) = capacity (fdb_fltr_pool s)"
proof -
  have "ports m (insert frame (set es)) \<subseteq> Q"
    using Q fdb_map_facts(2) [OF db] m(1) unfolding heads_suffice_def by (auto simp: ports_def record_at_def)
  then have "card (ports m (insert frame (set es))) + capacity (main_db_pool s) \<le> capacity (fdb_fltr_pool s)"
    using Q(1) card_mono [of Q] unfolding heads_suffice_def by (meson add_le_mono1 le_trans)
  moreover have "vlan_of m frame < MAX_VLAN_ENTRIES" using v m(1) by (simp add: vlan_of_def record_at_def)
  moreover have "entry_key m frame = key_of p" using m(1) by (simp add: entry_key_def record_at_def key_of_def)
  ultimately show ?thesis using fdb_add [OF db m(2) _ m(3), of os w] room m(1) by auto
qed

lemma set_add_ok:
  assumes db: "fdb z L sz (learn_db s) m es" and out: "outside z sz frame" and cb: "ctrl_learn_init_deinit_cb s = None"
    and lock: "fdb_lock \<longrightarrow> \<not> fdb_locked s" and v: "unat (vid (fdb_entry r)) < MAX_VLAN_ENTRIES"
    and Q: "heads_suffice Q (learn_db s) (db_of m es)" "log_port (fdb_entry r) \<in> Q"
    and room: "length es < capacity (main_db_pool (learn_db s))"
  shows "\<exists>t. set_add os sz frame env fdb_lock r (s, m, w) = Some (0, t) \<and>
    leaves z L sz s ((db_of m es)(key_of (fdb_entry r) \<mapsto> stored env r)) t"
proof -
  let ?p = "fst (stored env r)"
  define m1 where "m1 = clear_mac_entry sz frame m"
  define m2 where "m2 = m1\<lparr>mac_params := (mac_params m1)(frame := ?p), entry_type := (entry_type m1)(frame := record_entry_type r),
    entry_cookie := (entry_cookie m1)(frame := record_cookie r)\<rparr>"
  have par: "(mac_params m1 frame)\<lparr>vid := vid (fdb_entry r), mac_addr := mac_addr (fdb_entry r), log_port := log_port (fdb_entry r),
      oes_entry_type := if record_entry_type r = FDB_UC_STATIC then OES_FDB_STATIC env else OES_FDB_DYNAMIC env\<rparr> = ?p"
    by (simp add: stored_def)
  have p: "vid ?p = vid (fdb_entry r)" "log_port ?p = log_port (fdb_entry r)" "key_of ?p = key_of (fdb_entry r)"
    "(?p, record_cookie r, record_entry_type r) = stored env r" by (simp_all add: stored_def key_of_def)
  have c: "(entry_cookie m1)(frame := 0) = entry_cookie m1"
    by (simp add: m1_def clear_mac_entry_def clear_list_item_def Let_def fun_eq_iff)
  note m2 = local_entry [OF db out m2_def [unfolded m1_def]]
  from add_local [OF m2(1,3,4,5), of Q os w, unfolded m2(2) p] v Q room obtain d m' es' where
    add: "fdb_uc_db_add_record os sz (learn_db s) frame m2 w = Some (0, d, m', w)" "fdb z L sz d m' es'"
      "db_of m' es' = (db_of m es)(key_of (fdb_entry r) \<mapsto> stored env r)"
      "capacity (main_db_pool d) = capacity (main_db_pool (learn_db s))"
      "capacity (fdb_fltr_pool d) = capacity (fdb_fltr_pool (learn_db s))" by blast
  from lock_step [OF lock, of m2 w] obtain s' where
    lk: "lock_if fdb_lock (s, m2, w) = Some (s', m2, w)" "learn_db s' = learn_db s"
      "\<And>d m w. unlock_if fdb_lock (s'\<lparr>learn_db := d\<rparr>, m, w) = (s\<lparr>learn_db := d\<rparr>, m, w)" by blast
  have "set_add os sz frame env fdb_lock r (s, m, w) =
      Option.bind (lock_if fdb_lock (s, m2, w)) (\<lambda>t. Option.bind (add_to_db os sz frame t) (\<lambda>(err, t). Some (err, unlock_if fdb_lock t)))"
    unfolding set_add_def using cb c by (auto simp: m1_def [symmetric] par m2_def call_cookie_def Let_def)
  also have "\<dots> = Some (0, s\<lparr>learn_db := d\<rparr>, m', w)" using lk add(1) by (simp add: add_to_db_def)
  finally show ?thesis using add(2-5) unfolding leaves_def by blast
qed

lemma set_delete_ok:
  assumes db: "fdb z L sz (learn_db s) m es" and lock: "fdb_lock \<longrightarrow> \<not> fdb_locked s"
    and k: "key_of (fdb_entry r) \<in> dom (db_of m es)"
  shows "\<exists>t. set_delete sz fdb_lock r (s, m, w) = Some (False, 0, t) \<and>
    leaves z L sz s ((db_of m es)(key_of (fdb_entry r) := None)) t"
proof -
  from k obtain e where e: "e \<in> set es" "entry_key m e = key_of (fdb_entry r)" by (auto simp: fdb_map_facts(3) [OF db])
  from lock_step [OF lock, of m w] obtain s' where
    lk: "lock_if fdb_lock (s, m, w) = Some (s', m, w)" "learn_db s' = learn_db s"
      "\<And>d m w. unlock_if fdb_lock (s'\<lparr>learn_db := d\<rparr>, m, w) = (s\<lparr>learn_db := d\<rparr>, m, w)" by blast
  have db': "fdb z L sz (learn_db s') m es" using db lk(2) by simp
  from drop_record_ok [OF db' e(1), of 0 w] obtain d m' w' where
    dr: "drop_record sz e 0 (s', m, w) = Some (0, s'\<lparr>learn_db := d\<rparr>, m', w')" "fdb z L sz d m' (remove1 e es)"
      "drops z sz m es e m'" "capacity (main_db_pool d) = capacity (main_db_pool (learn_db s))"
      "capacity (fdb_fltr_pool d) = capacity (fdb_fltr_pool (learn_db s))" unfolding lk(2) by blast
  have dist: "distinct es" "distinct (map (p_key m) es)" "p_key m e = entry_key m e"
    using db e(1) qmap_wf_distinct qmap_wf_keys unfolding fdb_def entries_def by blast+
  have "keyed (p_key m') (record_at m') (remove1 e es) = keyed (p_key m) (record_at m) (remove1 e es)"
    by (rule keyed_cong) (use dr(3) dist(1) in \<open>auto simp: drops_def\<close>)
  also have "\<dots> = (db_of m es)(key_of (fdb_entry r) := None)"
    using keyed_remove1 [OF dist(2) e(1), of "record_at m"] e(2) dist(3) by (simp add: db_of_def)
  finally have "db_of m' (remove1 e es) = (db_of m es)(key_of (fdb_entry r) := None)" by (simp add: db_of_def)
  moreover have "set_delete sz fdb_lock r (s, m, w) = Some (False, 0, s\<lparr>learn_db := d\<rparr>, m', w')"
    using lk dr(1) key_found [OF db' e(1)] e(2) fdb_items(4) [OF db e(1)]
    by (simp add: set_delete_def key_of_def)
  ultimately show ?thesis using dr(2,4,5) unfolding leaves_def by blast
qed

section \<open>The loop\<close>

abbreviation record_key :: "ctrl_learn_fdb_notify_record \<Rightarrow> u64" where
  "record_key r \<equiv> key_of (fdb_entry r)"

definition put :: "'w learn_env \<Rightarrow> oes_access_cmd \<Rightarrow> ctrl_learn_fdb_notify_record list \<Rightarrow> (u64 \<rightharpoonup> fdb_record) \<Rightarrow> u64 \<rightharpoonup> fdb_record" where
  "put env cmd rs db = fold (\<lambda>r db. db(record_key r := applied env cmd r)) rs db"

lemma put_at:
  assumes "distinct (map record_key rs)"
  shows "r \<in> set rs \<Longrightarrow> put env cmd rs db (record_key r) = applied env cmd r"
    "k \<notin> record_key ` set rs \<Longrightarrow> put env cmd rs db k = db k"
proof -
  have other: "put env cmd rs db k = db k" if "k \<notin> record_key ` set rs" for rs db k
    using that by (induction rs arbitrary: db) (auto simp: put_def)
  show "k \<notin> record_key ` set rs \<Longrightarrow> put env cmd rs db k = db k" by (rule other)
  show "r \<in> set rs \<Longrightarrow> put env cmd rs db (record_key r) = applied env cmd r"
    using assms
  proof (induction rs arbitrary: db)
    case (Cons x rs)
    then show ?case using other [of "record_key x" rs] by (auto simp: put_def image_iff) 
  qed simp
qed

definition workable :: "'w fdb_state \<Rightarrow> u64 set \<Rightarrow> oes_access_cmd \<Rightarrow> ctrl_learn_fdb_notify_record list \<Rightarrow> (u64 \<rightharpoonup> fdb_record) \<Rightarrow> bool" where
  "workable d Q cmd rs db \<longleftrightarrow> (\<forall>r\<in>set rs. decision r = CTRL_LEARN_NOTIFY_DECISION_APPROVE) \<and> distinct (map record_key rs) \<and>
    (if cmd = OES_ACCESS_CMD_ADD
     then card (dom db) + length rs \<le> capacity (main_db_pool d) \<and> heads_suffice Q d db \<and>
       (\<forall>r\<in>set rs. unat (vid (fdb_entry r)) < MAX_VLAN_ENTRIES \<and> log_port (fdb_entry r) \<in> Q)
     else cmd = OES_ACCESS_CMD_DELETE \<and> record_key ` set rs \<subseteq> dom db)"

lemma port_stored: "port_of (stored env r) = log_port (fdb_entry r)"
  by (simp add: port_of_def stored_def)

lemma workable_step:
  assumes wk: "workable d Q cmd (r # rs) db" and fin: "finite (dom db)"
    and cap: "capacity (main_db_pool d') = capacity (main_db_pool d)" "capacity (fdb_fltr_pool d') = capacity (fdb_fltr_pool d)"
  shows "workable d' Q cmd rs (db(record_key r := applied env cmd r))"
proof (cases "cmd = OES_ACCESS_CMD_ADD")
  case True
  let ?db = "db(record_key r \<mapsto> stored env r)"
  have w: "card (dom db) + length (r # rs) \<le> capacity (main_db_pool d)" "heads_suffice Q d db" "log_port (fdb_entry r) \<in> Q"
    using wk True by (simp_all add: workable_def)
  have "card (dom ?db) \<le> Suc (card (dom db))" using fin by (simp add: card_insert_if)
  then have size: "card (dom ?db) + length rs \<le> capacity (main_db_pool d')" using w(1) cap(1) by simp
  have "ran ?db \<subseteq> insert (stored env r) (ran db)" by (auto simp: ran_def split: if_split_asm)
  then have "port_of ` ran ?db \<subseteq> port_of ` insert (stored env r) (ran db)" by (rule image_mono)
  moreover have "\<dots> \<subseteq> Q" unfolding image_insert port_stored using w(2,3) by (simp add: heads_suffice_def)
  ultimately have "port_of ` ran ?db \<subseteq> Q" by (rule subset_trans)
  then have "heads_suffice Q d' ?db" using w(2) cap by (simp add: heads_suffice_def)
  with size show ?thesis using wk True unfolding workable_def applied_def by simp
next
  case False
  then show ?thesis using wk by (auto simp: workable_def applied_def image_iff)
qed

lemma set_loop_ok:
  assumes "fdb z L sz (learn_db s) m es" and "outside z sz frame" and "ctrl_learn_init_deinit_cb s = None"
    and "fdb_lock \<longrightarrow> \<not> fdb_locked s" and "workable (learn_db s) Q cmd rs (db_of m es)"
  shows "\<exists>t. set_loop os sz frame env fdb_lock cmd failed rs err (s, m, w) =
      Some (if filter (\<lambda>r. \<not> is_failed_mac failed r) rs = [] then err else 0, t) \<and>
    leaves z L sz s (put env cmd (filter (\<lambda>r. \<not> is_failed_mac failed r) rs) (db_of m es)) t"
  using assms
proof (induction rs arbitrary: s m w es err)
  case Nil
  have "leaves z L sz s (db_of m es) (s, m, w)" unfolding leaves_def
    by (intro exI [of _ "learn_db s"] exI [of _ m] exI [of _ w] exI [of _ es]) (use Nil in simp)
  then show ?case by (simp add: put_def)
next
  case (Cons r rs)
  note prems = Cons.prems
  let ?db = "(db_of m es)(record_key r := applied env cmd r)"
  have wk: "workable (learn_db s) Q cmd rs (db_of m es)"
    using prems(5) by (auto simp: workable_def split: if_split_asm)
  show ?case
  proof (cases "is_failed_mac failed r")
    case True
    with Cons.IH [OF prems(1-4) wk, of err w] show ?thesis by simp
  next
    case False
    have app: "decision r = CTRL_LEARN_NOTIFY_DECISION_APPROVE" using prems(5) by (simp add: workable_def)
    obtain t1 where t1: "leaves z L sz s ?db t1"
      "set_loop os sz frame env fdb_lock cmd failed (r # rs) err (s, m, w) = set_loop os sz frame env fdb_lock cmd failed rs 0 t1"
    proof (cases "cmd = OES_ACCESS_CMD_ADD")
      case True
      then have "unat (vid (fdb_entry r)) < MAX_VLAN_ENTRIES" "heads_suffice Q (learn_db s) (db_of m es)" "log_port (fdb_entry r) \<in> Q"
        "length es < capacity (main_db_pool (learn_db s))"
        using prems(5) fdb_map_facts(1) [OF prems(1)] by (auto simp: workable_def)
      from set_add_ok [OF prems(1-4) this, of os env w] True app False show thesis
        by (auto simp: applied_def intro!: that)
    next
      case cmd: False
      then have "record_key r \<in> dom (db_of m es)" using prems(5) by (simp add: workable_def)
      from set_delete_ok [OF prems(1,4) this, of w] cmd app False show thesis by (auto simp: applied_def intro!: that)
    qed
    from t1(1) obtain d m1 w1 es1 where l: "t1 = (s\<lparr>learn_db := d\<rparr>, m1, w1)" "fdb z L sz d m1 es1" "db_of m1 es1 = ?db"
      "capacity (main_db_pool d) = capacity (main_db_pool (learn_db s))"
      "capacity (fdb_fltr_pool d) = capacity (fdb_fltr_pool (learn_db s))" unfolding leaves_def by blast
    have "finite (dom (db_of m es))" by (simp add: fdb_map_facts(3) [OF prems(1)])
    from workable_step [OF prems(5) this l(4,5)] have wk1: "workable d Q cmd rs (db_of m1 es1)" unfolding l(3) .
    have st: "learn_db (s\<lparr>learn_db := d\<rparr>) = d" "ctrl_learn_init_deinit_cb (s\<lparr>learn_db := d\<rparr>) = None"
      "fdb_lock \<longrightarrow> \<not> fdb_locked (s\<lparr>learn_db := d\<rparr>)" using prems(3,4) by simp_all
    from Cons.IH [of "s\<lparr>learn_db := d\<rparr>" m1 es1 0 w1, unfolded st(1), OF l(2) prems(2) st(2,3) wk1] obtain t where
      "set_loop os sz frame env fdb_lock cmd failed rs 0 t1 = Some (0, t)"
      "leaves z L sz (s\<lparr>learn_db := d\<rparr>) (put env cmd (filter (\<lambda>r. \<not> is_failed_mac failed r) rs) ?db) t"
      unfolding l(1,3) by (auto simp only: if_cancel)
    with t1(2) l(4,5) False show ?thesis by (auto simp: leaves_def put_def)
  qed
qed

section \<open>The records\<close>

text \<open>
  The entries that lead to a record: with the command to add, those that are not in the database in the same form,
  with the command to delete, those that are in it.
\<close>

definition wanted :: "oes_access_cmd \<Rightarrow> (u64 \<rightharpoonup> fdb_record) \<Rightarrow> fdb_uc_mac_addr_params \<Rightarrow> bool" where
  "wanted cmd db a \<longleftrightarrow> (case db (key_of (mac_addr_params a)) of
     None \<Rightarrow> cmd = OES_ACCESS_CMD_ADD
   | Some (p, _, ty) \<Rightarrow> cmd = OES_ACCESS_CMD_ADD \<longrightarrow> \<not> (oes_entry_type p = oes_entry_type (mac_addr_params a) \<and>
       log_port p = log_port (mac_addr_params a) \<and> ty = addr_entry_type a))"

definition about :: "ctrl_learn_fdb_notify_record \<Rightarrow> oes_fdb_uc_mac_addr_params \<times> fdb_uc_mac_entry_type" where
  "about r = (fdb_entry r, record_entry_type r)"

definition about_mac :: "fdb_uc_mac_addr_params \<Rightarrow> oes_fdb_uc_mac_addr_params \<times> fdb_uc_mac_entry_type" where
  "about_mac a = (mac_addr_params a, addr_entry_type a)"

definition event_of :: "oes_access_cmd \<Rightarrow> oes_fdb_event_type" where
  "event_of cmd = (if cmd = OES_ACCESS_CMD_ADD then OES_FDB_EVENT_LEARN else OES_FDB_EVENT_AGE)"

lemma build_loop_ok:
  assumes db: "fdb z L sz d m es" and cmd: "cmd = OES_ACCESS_CMD_ADD \<or> cmd = OES_ACCESS_CMD_DELETE"
    and "length rs + length as \<le> CTRL_LEARN_FDB_NOTIFY_SIZE_MAX"
  shows "\<exists>new. build_loop stack cmd as rs cookie d m = Some (rs @ new) \<and>
    map about new = map about_mac (filter (wanted cmd (db_of m es)) as) \<and> (\<forall>r\<in>set new. event_type r = event_of cmd)"
  using assms(3)
proof (induction as arbitrary: rs cookie)
  case (Cons a as)
  have en: "entries z L sz d m es" using db by (simp add: fdb_def)
  let ?k = "key_of (mac_addr_params a)"
  from fdb_lookup [OF en, of ?k] obtain err e where
    get: "fdb_uc_db_get_record_by_key d ?k m = Some (err, e)"
      "case db_of m es ?k of None \<Rightarrow> err = - ENOENT \<and> e = 0 | Some r \<Rightarrow> err = 0 \<and> e \<in> set es \<and> record_at m e = r" by blast
  have w: "(err = 0 \<or> err = - ENOENT) \<and> wanted cmd (db_of m es) a =
      (\<not> (cmd = OES_ACCESS_CMD_ADD \<and> e \<noteq> 0 \<and> same_entry m e a) \<and> \<not> (cmd = OES_ACCESS_CMD_DELETE \<and> e = 0))"
    using get(2) cmd fdb_items(4) [OF db, of e]
    by (auto simp: wanted_def same_entry_def record_at_def split: option.split_asm)
  show ?case
  proof (cases "wanted cmd (db_of m es) a")
    case False
    with w get(1) Cons.IH [of rs cookie] Cons.prems show ?thesis by (auto simp: key_of_def)
  next
    case True
    define c where "c = (if cmd = OES_ACCESS_CMD_ADD \<and> e \<noteq> 0 then entry_cookie m e else cookie)"
    define r where "r = (notify_record_of (stack (length rs)) (event_of cmd) (mac_addr_params a) (addr_entry_type a))\<lparr>record_cookie := c\<rparr>"
    from Cons.IH [of "rs @ [r]" c] Cons.prems obtain new where
      new: "build_loop stack cmd as (rs @ [r]) c d m = Some (rs @ r # new)"
        "map about new = map about_mac (filter (wanted cmd (db_of m es)) as)" "\<forall>r\<in>set new. event_type r = event_of cmd" by auto
    have "build_loop stack cmd (a # as) rs cookie d m = Some (rs @ r # new)"
      using w True get(1) new(1) Cons.prems by (auto simp: key_of_def c_def r_def event_of_def)
    moreover have "about r = about_mac a" "event_type r = event_of cmd"
      by (simp_all add: about_def about_mac_def r_def notify_record_of_def)
    ultimately show ?thesis using new(2,3) True by (intro exI [of _ "r # new"]) auto
  qed
qed simp

text \<open>
  When there are more records than free entries in the pool, the records of learned entries are denied from the
  point on where there is no entry left.
\<close>

fun admit :: "('a \<Rightarrow> bool) \<Rightarrow> nat \<Rightarrow> 'a list \<Rightarrow> 'a list" where
  "admit P n [] = []"
| "admit P n (x # xs) = (if P x then if n = 0 then admit P n xs else x # admit P (n - 1) xs else x # admit P n xs)"

lemma admit_map: "(\<And>x. P (f x) = Q x) \<Longrightarrow> map f (admit Q n xs) = admit P n (map f xs)"
  by (induction xs arbitrary: n) auto

lemma admit_take: "\<forall>x\<in>set xs. P x \<Longrightarrow> admit P n xs = take n xs"
  by (induction xs arbitrary: n) (auto simp: take_Cons')

lemma admit_all: "length xs \<le> n \<or> (\<forall>x\<in>set xs. \<not> P x) \<Longrightarrow> admit P n xs = xs"
proof (induction xs arbitrary: n)
  case (Cons x xs)
  then show ?case using Cons.IH [of "n - 1"] Cons.IH [of n] by (cases n) auto
qed simp

lemma admit_subset: "set (admit P n xs) \<subseteq> set xs"
  by (induction xs arbitrary: n) auto

lemma admit_length: "length (admit P n xs) \<le> length xs"
  by (induction xs arbitrary: n) (auto simp: le_SucI)

abbreviation learn_record :: "ctrl_learn_fdb_notify_record \<Rightarrow> bool" where
  "learn_record r \<equiv> event_type r = OES_FDB_EVENT_LEARN"

lemma deny_rest:
  assumes "\<forall>r\<in>set rs. decision r = CTRL_LEARN_NOTIFY_DECISION_APPROVE" and "unat k + length rs < 2 ^ 32"
  shows "approved_records (deny_loop n k rs) = admit learn_record (unat n - unat k) rs"
  using assms
proof (induction rs arbitrary: k)
  case (Cons r rs)
  have "unat (k + 1) = unat k + 1" using Cons.prems(2) by (simp add: unat_word_ariths)
  with Cons.IH [of "k + 1"] Cons.IH [of k] Cons.prems have
    IH: "approved_records (deny_loop n (k + 1) rs) = admit learn_record (unat n - unat k - 1) rs"
      "approved_records (deny_loop n k rs) = admit learn_record (unat n - unat k) rs" by simp_all
  have "n \<le> k \<longleftrightarrow> unat n - unat k = 0" by (simp add: word_le_nat_alt)
  then show ?case using IH Cons.prems(1) by (simp add: approved_records_def)
qed (simp add: approved_records_def)

lemma approved_admit:
  assumes db: "fdb z L sz (learn_db s) m es" and small: "length rs < 2 ^ 32"
  shows "\<exists>rs'. update_approved_list s (approve_all rs) = (0, rs') \<and>
    approved_records rs' = admit learn_record (capacity (main_db_pool (learn_db s)) - length es) (approve_all rs)"
proof -
  let ?n = "capacity (main_db_pool (learn_db s)) - length es" and ?rs = "approve_all rs"
  have all: "\<forall>r\<in>set ?rs. decision r = CTRL_LEARN_NOTIFY_DECISION_APPROVE" "length ?rs = length rs"
    by (auto simp: approve_all_def)
  have n: "unat (of_nat ?n :: u32) = ?n" using free_count(2) [OF db] by (intro unat_of_nat32) linarith
  have up: "update_approved_list s ?rs = (0, if (of_nat ?n :: u32) < of_nat (length ?rs) then deny_loop (of_nat ?n) 0 ?rs else ?rs)"
    using free_count(1) [OF db, of 0] by (simp add: update_approved_list_def)
  have "approved_records (deny_loop (of_nat ?n) 0 ?rs) = admit learn_record ?n ?rs"
    using deny_rest [OF all(1), of 0 "of_nat ?n"] all(2) small n by simp
  moreover have "approved_records ?rs = admit learn_record ?n ?rs" if "\<not> (of_nat ?n :: u32) < of_nat (length ?rs)"
  proof -
    have "length ?rs \<le> ?n" using that all(2) unat_of_nat32 [OF small] unfolding word_less_nat_alt n by simp
    then show ?thesis using all(1) by (simp add: approved_records_def admit_all)
  qed
  ultimately show ?thesis using up by auto
qed

definition admitted :: "'w fdb_state \<Rightarrow> nat \<Rightarrow> oes_access_cmd \<Rightarrow> 'a list \<Rightarrow> 'a list" where
  "admitted d n cmd xs = (if cmd = OES_ACCESS_CMD_ADD then take (capacity (main_db_pool d) - n) xs else xs)"

lemma admitted_map: "map f (admitted d n cmd xs) = admitted d n cmd (map f xs)"
  by (simp add: admitted_def take_map)

lemma approved:
  assumes db: "fdb z L sz (learn_db s) m es" and ev: "\<forall>r\<in>set rs. event_type r = event_of cmd" and small: "length rs < 2 ^ 32"
  shows "\<exists>rs'. update_approved_list s (approve_all rs) = (0, rs') \<and>
    approved_records rs' = admitted (learn_db s) (length es) cmd (approve_all rs)"
proof -
  have "\<forall>r\<in>set (approve_all rs). learn_record r = (cmd = OES_ACCESS_CMD_ADD)" using ev by (auto simp: approve_all_def event_of_def)
  then have "admit learn_record n (approve_all rs) = (if cmd = OES_ACCESS_CMD_ADD then take n (approve_all rs) else approve_all rs)" for n
    by (auto simp: admit_take intro!: admit_all)
  then show ?thesis using approved_admit [OF db small] by (simp add: admitted_def)
qed

text \<open>Only the approved records matter for the rest of the call.\<close>

lemma set_loop_approved:
  "set_loop os sz frame env fdb_lock cmd failed (approved_records rs) err t = set_loop os sz frame env fdb_lock cmd failed rs err t"
proof (induction rs arbitrary: err t)
  case (Cons r rs)
  show ?case
  proof (cases "decision r = CTRL_LEARN_NOTIFY_DECISION_APPROVE")
    case True
    then have "approved_records (r # rs) = r # approved_records rs" by (simp add: approved_records_def)
    then show ?thesis unfolding set_loop.simps Cons.IH by (simp only: set_loop.simps Cons.IH)
  next
    case False
    then have "approved_records (r # rs) = approved_records rs" by (simp add: approved_records_def)
    then show ?thesis using Cons.IH False by simp
  qed
qed (simp add: approved_records_def)

lemma set_configure_approved:
  "set_configure os hal sz frame env fdb_lock cmd approved (approved_records rs) macs ps err t =
    set_configure os hal sz frame env fdb_lock cmd approved rs macs ps err t"
  unfolding set_configure_def set_loop_approved by (rule refl)

section \<open>The call\<close>

definition asked_as :: "oes_fdb_uc_mac_addr_params \<times> fdb_uc_mac_entry_type \<Rightarrow> u16 \<times> ether_addr \<times> u64 \<times> fdb_uc_mac_entry_type" where
  "asked_as x = (vid (fst x), mac_addr (fst x), log_port (fst x), snd x)"

abbreviation asked :: "fdb_uc_mac_addr_params \<Rightarrow> u16 \<times> ether_addr \<times> u64 \<times> fdb_uc_mac_entry_type" where
  "asked a \<equiv> asked_as (about_mac a)"

text \<open>
  \<open>hal_answer hal cmd br xs err failed\<close>: the hardware layer was asked to set the entries \<open>xs\<close>, if there are any, and
  returned \<open>err\<close> and, in the case of an error, the entries \<open>failed\<close>.
\<close>

definition hal_answer ::
  "'w ctrl_learn_hal \<Rightarrow> oes_access_cmd \<Rightarrow> int \<Rightarrow> fdb_uc_mac_addr_params list \<Rightarrow> int \<Rightarrow> fdb_uc_mac_addr_params list \<Rightarrow> bool" where
  "hal_answer hal cmd br xs err failed \<longleftrightarrow>
    (if xs = [] then err = 0 \<and> failed = []
     else \<exists>as w fl w'. map asked as = map asked xs \<and> hal_uc_mac_addr_set hal cmd br as w = (err, fl, w') \<and>
       failed = (if err = 0 then [] else fl))"

lemma failed_asked: "is_failed_mac failed r \<longleftrightarrow> asked_as (about r) \<in> asked ` set failed"
  by (auto simp: is_failed_mac_def asked_as_def about_def about_mac_def list_ex_iff image_iff)

lemma leaves_world: "leaves z L sz s db (s', m', w) \<Longrightarrow> leaves z L sz s db (s', m', w')"
  unfolding leaves_def by blast

lemma asked_approved:
  "map asked (map2 (\<lambda>i r. approved_of_record (junk i) r) [0..<length rs] rs) = map (\<lambda>r. asked_as (about r)) rs"
proof (rule nth_equalityI)
  have "asked (approved_of_record j r) = asked_as (about r)" for j r
    by (simp add: asked_as_def about_def about_mac_def approved_of_record_def)
  then show "map asked (map2 (\<lambda>i r. approved_of_record (junk i) r) [0..<length rs] rs) ! i = map (\<lambda>r. asked_as (about r)) rs ! i"
    if "i < length (map asked (map2 (\<lambda>i r. approved_of_record (junk i) r) [0..<length rs] rs))" for i
    using that by simp
qed simp

lemma set_configure_ok:
  assumes db: "fdb z L sz (learn_db s) m es" "outside z sz frame" "ctrl_learn_init_deinit_cb s = None"
      "fdb_lock \<longrightarrow> \<not> fdb_locked s" "workable (learn_db s) Q cmd rs (db_of m es)"
    and xs: "map asked approved = map asked xs" "length approved \<le> length macs"
    and malloc: "\<And>k w. fst (os_malloc os k w) \<noteq> 0"
    and hal: "\<And>as w. length (fst (snd (hal_uc_mac_addr_set hal cmd (ctrl_learn_br_id s) as w))) \<le> length as"
  shows "\<exists>err failed t. hal_answer hal cmd (ctrl_learn_br_id s) xs err failed \<and>
    set_configure os hal sz frame env fdb_lock cmd approved rs macs ps 0 (s, m, w) =
      Some (err, failed @ drop (length failed) macs, of_nat (length failed), t) \<and>
    leaves z L sz s (put env cmd (filter (\<lambda>r. \<not> is_failed_mac failed r) rs) (db_of m es)) t"
proof -
  have loop: "\<exists>s' m' w'. set_loop os sz frame env fdb_lock cmd failed rs err (s, m, w) =
      Some (if filter (\<lambda>r. \<not> is_failed_mac failed r) rs = [] then err else 0, s', m', w') \<and>
    leaves z L sz s (put env cmd (filter (\<lambda>r. \<not> is_failed_mac failed r) rs) (db_of m es)) (s', m', w')" for failed err w
    using set_loop_ok [OF db, of os env failed err w] by auto
  have xs0: "approved = [] \<longleftrightarrow> xs = []" using arg_cong [OF xs(1), of length] by auto
  obtain err fl w1 where h: "(if approved \<noteq> [] then hal_uc_mac_addr_set hal cmd (ctrl_learn_br_id s) approved w else (0, [], w)) = (err, fl, w1)"
    by (metis prod_cases3)
  then have ans: "hal_answer hal cmd (ctrl_learn_br_id s) xs err (if err = 0 then [] else fl)"
    using xs(1) xs0 unfolding hal_answer_def by (metis (full_types) Pair_inject)
  show ?thesis
  proof (cases "err = 0")
    case True
    obtain s' m' w' where l: "set_loop os sz frame env fdb_lock cmd [] rs 0 (s, m, w1) = Some (0, s', m', w')"
      "leaves z L sz s (put env cmd (filter (\<lambda>r. \<not> is_failed_mac [] r) rs) (db_of m es)) (s', m', w')"
      using loop [of "[]" 0 w1] by auto
    have "set_configure os hal sz frame env fdb_lock cmd approved rs macs ps 0 (s, m, w) =
        Some (0, macs, 0, s', m', free_all os ps w')"
      using h True l(1) by (simp add: set_configure_def)
    with ans True leaves_world [OF l(2)] show ?thesis by (intro exI [of _ 0] exI [of _ "[]"]) auto
  next
    case False
    then have h': "approved \<noteq> []" "hal_uc_mac_addr_set hal cmd (ctrl_learn_br_id s) approved w = (err, fl, w1)"
      using h by (auto split: if_split_asm)
    have len: "length fl \<le> length macs" using hal [of approved w] h'(2) xs(2) by simp
    obtain p w2 where p: "os_malloc os (sizeof_fdb_uc_mac_addr_params sz * of_nat (length fl)) w1 = (p, w2)" "p \<noteq> 0"
      using malloc by (metis prod.collapse)
    obtain e s' m' w' where l: "set_loop os sz frame env fdb_lock cmd fl rs err (s, m, w2) = Some (e, s', m', w')"
      "leaves z L sz s (put env cmd (filter (\<lambda>r. \<not> is_failed_mac fl r) rs) (db_of m es)) (s', m', w')"
      using loop [of fl err w2] by auto
    have "set_configure os hal sz frame env fdb_lock cmd approved rs macs ps 0 (s, m, w) =
        Some (err, fl @ drop (length fl) macs, of_nat (length fl), s', m', free_all os (ps @ [p]) w')"
      using h' False l(1) p len by (simp add: set_configure_def)
    with ans False leaves_world [OF l(2)] show ?thesis by (intro exI [of _ err] exI [of _ fl]) auto
  qed
qed

text \<open>When the call can carry out its command: the lists that the code does not bound are bounded here.\<close>

definition settable ::
  "'w fdb_state \<Rightarrow> u64 set \<Rightarrow> oes_access_cmd \<Rightarrow> fdb_uc_mac_addr_params list \<Rightarrow> (u64 \<rightharpoonup> fdb_record) \<Rightarrow> bool" where
  "settable d Q cmd as db \<longleftrightarrow> length as \<le> CTRL_LEARN_FDB_NOTIFY_SIZE_MAX \<and> check_entries cmd as = 0 \<and>
    distinct (map (\<lambda>a. key_of (mac_addr_params a)) as) \<and>
    (if cmd = OES_ACCESS_CMD_ADD
     then heads_suffice Q d db \<and>
       (\<forall>a\<in>set as. unat (vid (mac_addr_params a)) < MAX_VLAN_ENTRIES \<and> log_port (mac_addr_params a) \<in> Q)
     else cmd = OES_ACCESS_CMD_DELETE)"

text \<open>
  The entries the hardware layer is asked to set: those that lead to a record, and of these, with the command to add, as
  many as there is room for. What the call makes of the database: an entry that failed, or for which there was no room, has the record it
  had; any other entry is there, or gone; nothing else changed.
\<close>

definition served ::
  "'w fdb_state \<Rightarrow> oes_access_cmd \<Rightarrow> (u64 \<rightharpoonup> fdb_record) \<Rightarrow> fdb_uc_mac_addr_params list \<Rightarrow> fdb_uc_mac_addr_params list" where
  "served d cmd db as = admitted d (card (dom db)) cmd (filter (wanted cmd db) as)"

definition set_outcome ::
  "'w fdb_state \<Rightarrow> oes_access_cmd \<Rightarrow> fdb_uc_mac_addr_params list \<Rightarrow> fdb_uc_mac_addr_params list \<Rightarrow> (u64 \<rightharpoonup> fdb_record) \<Rightarrow>
   (u64 \<rightharpoonup> fdb_record) \<Rightarrow> bool" where
  "set_outcome d cmd as failed db db' \<longleftrightarrow>
    (\<forall>a\<in>set as. let k = key_of (mac_addr_params a) in
       if asked a \<in> asked ` set failed \<or> wanted cmd db a \<and> a \<notin> set (served d cmd db as) then db' k = db k
       else if cmd = OES_ACCESS_CMD_ADD
       then \<exists>p c. db' k = Some (p, c, addr_entry_type a) \<and> log_port p = log_port (mac_addr_params a)
       else db' k = None) \<and>
    (\<forall>k. k \<notin> (\<lambda>a. key_of (mac_addr_params a)) ` set as \<longrightarrow> db' k = db k)"

lemma served_subset: "set (served d cmd db as) \<subseteq> {a \<in> set as. wanted cmd db a}"
  by (auto simp: served_def admitted_def dest: in_set_takeD)

lemma served_distinct: "distinct (map f as) \<Longrightarrow> distinct (map f (served d cmd db as))"
  by (simp add: served_def admitted_def distinct_map_filter flip: take_map)

lemma put_outcome:
  assumes rs: "map about rs = map about_mac (served d cmd db as)"
    and dist: "distinct (map (\<lambda>a. key_of (mac_addr_params a)) as)"
    and cmd: "cmd = OES_ACCESS_CMD_ADD \<or> cmd = OES_ACCESS_CMD_DELETE"
  shows "set_outcome d cmd as failed db (put env cmd (filter (\<lambda>r. \<not> is_failed_mac failed r) rs) db)"
proof -
  let ?k = "\<lambda>a. key_of (mac_addr_params a)" and ?rs = "filter (\<lambda>r. \<not> is_failed_mac failed r) rs"
  let ?ws = "served d cmd db as"
  have keys: "map record_key rs = map ?k ?ws"
    using arg_cong [OF rs, of "map (\<lambda>x. key_of (fst x))"] by (simp add: about_def about_mac_def comp_def)
  have d: "distinct (map record_key rs)" unfolding keys using dist by (rule served_distinct)
  then have dr: "distinct (map record_key ?rs)" by (simp add: distinct_map_filter)
  have from_as: "\<exists>a\<in>set as. a \<in> set ?ws \<and> about r = about_mac a" if "r \<in> set rs" for r
  proof -
    have "about r \<in> set (map about rs)" using that by simp
    then show ?thesis unfolding rs using served_subset [of d cmd db as] by auto
  qed
  have key: "?k a = record_key r" if "about r = about_mac a" for a r using that by (simp add: about_def about_mac_def)
  have inj: "a = b" if "a \<in> set as" "b \<in> set as" "?k a = ?k b" for a b using dist that by (auto simp: distinct_map inj_on_def)
  show ?thesis
    unfolding set_outcome_def
  proof (intro conjI ballI allI impI)
    fix k assume "k \<notin> ?k ` set as"
    moreover have "record_key ` set ?rs \<subseteq> ?k ` set as" using arg_cong [OF keys, of set] served_subset [of d cmd db as] by auto
    ultimately have "k \<notin> record_key ` set ?rs" by blast
    then show "put env cmd ?rs db k = db k" by (rule put_at(2) [OF dr])
  next
    fix a assume a: "a \<in> set as"
    show "let k = ?k a in if asked a \<in> asked ` set failed \<or> wanted cmd db a \<and> a \<notin> set ?ws then put env cmd ?rs db k = db k
       else if cmd = OES_ACCESS_CMD_ADD
       then \<exists>p c. put env cmd ?rs db k = Some (p, c, addr_entry_type a) \<and> log_port p = log_port (mac_addr_params a)
       else put env cmd ?rs db k = None"
    proof (cases "a \<in> set ?ws \<and> asked a \<notin> asked ` set failed")
      case True
      then have "about_mac a \<in> set (map about rs)" using a unfolding rs by auto
      then obtain r where r: "r \<in> set rs" "about r = about_mac a" by auto
      then have "r \<in> set ?rs" using True by (simp add: failed_asked)
      then have "put env cmd ?rs db (?k a) = applied env cmd r" unfolding key [OF r(2)] by (rule put_at(1) [OF dr])
      moreover have "fdb_entry r = mac_addr_params a" "record_entry_type r = addr_entry_type a"
        using r(2) by (simp_all add: about_def about_mac_def)
      ultimately show ?thesis using True by (cases "cmd = OES_ACCESS_CMD_ADD") (simp_all add: applied_def stored_def)
    next
      case False
      have "?k a \<notin> record_key ` set ?rs"
      proof
        assume "?k a \<in> record_key ` set ?rs"
        then obtain r where r: "r \<in> set rs" "\<not> is_failed_mac failed r" "?k a = record_key r" by auto
        from from_as [OF r(1)] obtain b where b: "b \<in> set as" "b \<in> set ?ws" "about r = about_mac b" by blast
        then have "b = a" using inj [OF b(1) a] key [OF b(3)] r(3) by simp
        with b r(2) False show False by (simp add: failed_asked)
      qed
      then have "put env cmd ?rs db (?k a) = db (?k a)" by (rule put_at(2) [OF dr])
      with False cmd show ?thesis by (auto simp: wanted_def Let_def split: option.split)
    qed
  qed
qed

lemma workable_records:
  assumes ok: "settable d Q cmd as db" and rs: "map about rs = map about_mac (served d cmd db as)"
    and app: "\<forall>r\<in>set rs. decision r = CTRL_LEARN_NOTIFY_DECISION_APPROVE" and cap: "card (dom db) \<le> capacity (main_db_pool d)"
  shows "workable d Q cmd rs db"
proof -
  let ?ws = "served d cmd db as"
  have keys: "map record_key rs = map (\<lambda>a. key_of (mac_addr_params a)) ?ws"
    using arg_cong [OF rs, of "map (\<lambda>x. key_of (fst x))"] by (simp add: about_def about_mac_def comp_def)
  have ents: "fdb_entry ` set rs = mac_addr_params ` set ?ws"
    using arg_cong [OF rs, of "\<lambda>xs. fst ` set xs"] by (simp add: about_def about_mac_def image_image)
  have dist: "distinct (map record_key rs)" unfolding keys by (rule served_distinct) (use ok in \<open>simp add: settable_def\<close>)
  show ?thesis
  proof (cases "cmd = OES_ACCESS_CMD_ADD")
    case True
    have "length rs = length ?ws" using arg_cong [OF rs, of length] by simp
    then have "card (dom db) + length rs \<le> capacity (main_db_pool d)" using cap True by (auto simp: served_def admitted_def)
    moreover have "unat (vid p) < MAX_VLAN_ENTRIES \<and> log_port p \<in> Q" if "p \<in> fdb_entry ` set rs" for p
      using that ok True served_subset [of d cmd db as] unfolding ents by (auto simp: settable_def)
    ultimately show ?thesis using app dist ok True by (simp add: workable_def settable_def)
  next
    case False
    have "record_key ` set rs = (\<lambda>a. key_of (mac_addr_params a)) ` set ?ws" using arg_cong [OF keys, of set] by simp
    also have "\<dots> \<subseteq> dom db" using False served_subset [of d cmd db as] by (auto simp: wanted_def split: option.split_asm)
    finally show ?thesis using app dist ok False by (simp add: workable_def settable_def)
  qed
qed

lemma set_entries:
  assumes db: "fdb z L sz (learn_db s) m es" "outside z sz frame" "ctrl_learn_init_deinit_cb s = None"
      "fdb_lock \<longrightarrow> \<not> fdb_locked s"
    and st: "is_ctrl_learn_start s" "ctrl_learn_notification_cb s = None"
    and n: "n \<noteq> 0" "unat n \<le> length macs" and ok: "settable (learn_db s) Q cmd (take (unat n) macs) (db_of m es)"
    and malloc: "\<And>k w. fst (os_malloc os k w) \<noteq> 0"
    and hal: "\<And>as w. length (fst (snd (hal_uc_mac_addr_set hal cmd (ctrl_learn_br_id s) as w))) \<le> length as"
  shows "\<exists>err failed db' t.
    hal_answer hal cmd (ctrl_learn_br_id s) (served (learn_db s) cmd (db_of m es) (take (unat n) macs)) err failed \<and>
    ctrl_learn_api_fdb_uc_mac_addr_set os hal sz frame env stack junk cmd (Some macs) (Some n) oc fdb_lock (s, m, w) =
      Some (err, Some (failed @ drop (length failed) macs), Some (of_nat (length failed)), t) \<and>
    leaves z L sz s db' t \<and> set_outcome (learn_db s) cmd (take (unat n) macs) failed (db_of m es) db'"
proof -
  let ?as = "take (unat n) macs"
  have cmd: "cmd = OES_ACCESS_CMD_ADD \<or> cmd = OES_ACCESS_CMD_DELETE" and chk: "check_entries cmd ?as = 0"
    and len: "length ?as \<le> CTRL_LEARN_FDB_NOTIFY_SIZE_MAX" and dist: "distinct (map (\<lambda>a. key_of (mac_addr_params a)) ?as)"
    using ok by (auto simp: settable_def split: if_split_asm)
  from build_loop_ok [OF db(1) cmd, of "[]" ?as stack 0] len obtain new where
    new: "build_loop stack cmd ?as [] 0 (learn_db s) m = Some new"
      "map about new = map about_mac (filter (wanted cmd (db_of m es)) ?as)" "\<forall>r\<in>set new. event_type r = event_of cmd" by auto
  let ?ws = "served (learn_db s) cmd (db_of m es) ?as"
  have ln: "length new \<le> length ?as" using arg_cong [OF new(2), of length] length_filter_le by (metis length_map)
  have "length new < 2 ^ 32" using le_trans [OF ln len] unfolding CTRL_LEARN_FDB_NOTIFY_SIZE_MAX_def by simp
  from approved [OF db(1) new(3) this] obtain all where
    ap: "update_approved_list s (approve_all new) = (0, all)"
      "approved_records all = admitted (learn_db s) (length es) cmd (approve_all new)" by blast
  have not_other: "\<not> (cmd \<noteq> OES_ACCESS_CMD_ADD \<and> cmd \<noteq> OES_ACCESS_CMD_DELETE)" using cmd by blast
  let ?rs = "approved_records all"
  have "about (decision_update f r) = about r" for f r by (simp add: about_def)
  then have "map about (approve_all new) = map about new" by (simp add: approve_all_def comp_def)
  then have rs: "map about ?rs = map about_mac ?ws"
    unfolding ap(2) served_def fdb_map_facts(1) [OF db(1)] admitted_map new(2) by simp
  have lr: "length ?rs \<le> length new" unfolding ap(2) by (simp add: admitted_def approve_all_def)
  have wk: "workable (learn_db s) Q cmd ?rs (db_of m es)"
    by (rule workable_records [OF ok rs]) (use fdb_map_facts(1,4) [OF db(1)] in \<open>simp_all add: approved_records_def\<close>)
  let ?app = "map2 (\<lambda>i r. approved_of_record (junk i) r) [0..<length ?rs] ?rs"
  have as: "map asked ?app = map asked ?ws"
    unfolding asked_approved using arg_cong [OF rs, of "map asked_as"] by (simp add: comp_def)
  have la: "length ?app \<le> length macs" using ln lr n(2) by simp
  obtain p1 w1 where p1: "os_malloc os (sizeof_fdb_uc_mac_addr_params sz * ucast n) w = (p1, w1)" "p1 \<noteq> 0"
    using malloc by (metis prod.collapse)
  obtain p2 w2 where p2: "os_malloc os (sizeof_int * ucast n) w1 = (p2, w2)" "p2 \<noteq> 0"
    using malloc by (metis prod.collapse)
  obtain p3 w3 where p3: "os_malloc os (sizeof_fdb_uc_mac_addr_params sz * ucast n) w2 = (p3, w3)" "p3 \<noteq> 0"
    using malloc by (metis prod.collapse)
  from set_configure_ok [OF db wk as la malloc hal, of env "[p1, p2, p3]" w3] obtain err failed t where
    c: "hal_answer hal cmd (ctrl_learn_br_id s) ?ws err failed"
      "set_configure os hal sz frame env fdb_lock cmd ?app ?rs macs [p1, p2, p3] 0 (s, m, w3) =
        Some (err, failed @ drop (length failed) macs, of_nat (length failed), t)"
      "leaves z L sz s (put env cmd (filter (\<lambda>r. \<not> is_failed_mac failed r) ?rs) (db_of m es)) t" by blast
  have "ctrl_learn_api_fdb_uc_mac_addr_set os hal sz frame env stack junk cmd (Some macs) (Some n) oc fdb_lock (s, m, w) =
      Some (err, Some (failed @ drop (length failed) macs), Some (of_nat (length failed)), t)"
    using st n chk p1 p2 p3 new(1) ap(1) c(2) [unfolded set_configure_approved]
    by (simp add: ctrl_learn_api_fdb_uc_mac_addr_set_def ask_callback_def Let_def if_not_P [OF not_other])
  with c(1,3) put_outcome [OF rs dist cmd, of failed env] show ?thesis by blast
qed

end
