(* ===== verification/Learn_Events.thy ===== *)
theory Learn_Events
  imports Learn_Set
begin

text \<open>
  Events of the switch: a batch of events without a flush is absorbed by the database, with one command for all
  of its entries, that of the last event; when the hardware layer fails nothing is.
\<close>

section \<open>One entry\<close>

definition learned :: "'w learn_env \<Rightarrow> oes_fdb_uc_mac_addr_params \<Rightarrow> fdb_record" where
  "learned env p = (p, 0, if oes_entry_type p = OES_FDB_STATIC env then FDB_UC_STATIC else FDB_UC_AGEABLE)"

lemma learn_add_ok:
  assumes db: "fdb z L sz (learn_db s) m es" and out: "outside z sz frame" and cb: "ctrl_learn_init_deinit_cb s = None"
    and lock: "\<not> fdb_locked s" and v: "unat (vid (mac_addr_params a)) < MAX_VLAN_ENTRIES"
    and Q: "heads_suffice Q (learn_db s) (db_of m es)" "log_port (mac_addr_params a) \<in> Q"
    and room: "length es < capacity (main_db_pool (learn_db s))"
  shows "\<exists>t. learn_add os sz frame env a (s, m, w) = Some (0, t) \<and>
    leaves z L sz s ((db_of m es)(key_of (mac_addr_params a) \<mapsto> learned env (mac_addr_params a))) t"
proof -
  let ?p = "mac_addr_params a" and ?ty = "snd (snd (learned env (mac_addr_params a)))"
  define m1 where "m1 = clear_mac_entry sz frame m"
  define m2 where "m2 = m1\<lparr>mac_params := (mac_params m1)(frame := ?p), entry_type := (entry_type m1)(frame := ?ty),
    entry_cookie := (entry_cookie m1)(frame := 0)\<rparr>"
  have c: "(entry_cookie m1)(frame := 0) = entry_cookie m1"
    by (simp add: m1_def clear_mac_entry_def clear_list_item_def Let_def fun_eq_iff)
  note m2 = local_entry [OF db out m2_def [unfolded m1_def]]
  have l: "(?p, 0, ?ty) = learned env ?p" by (simp add: learned_def)
  from add_local [OF m2(1,3,4,5), of Q os w, unfolded m2(2) l] v Q room obtain d m' es' where
    add: "fdb_uc_db_add_record os sz (learn_db s) frame m2 w = Some (0, d, m', w)" "fdb z L sz d m' es'"
      "db_of m' es' = (db_of m es)(key_of ?p \<mapsto> learned env ?p)"
      "capacity (main_db_pool d) = capacity (main_db_pool (learn_db s))"
      "capacity (fdb_fltr_pool d) = capacity (fdb_fltr_pool (learn_db s))" by blast
  have "learn_add os sz frame env a (s, m, w) =
      Option.bind (cl_spinlock_acquire (s, m2, w)) (\<lambda>t. Option.bind (add_to_db os sz frame t) (\<lambda>(err, t). Some (err, cl_spinlock_release t)))"
    unfolding learn_add_def using cb c by (simp add: m1_def [symmetric] m2_def call_cookie_def Let_def learned_def)
  also have "\<dots> = Some (0, s\<lparr>learn_db := d\<rparr>, m', w)"
    using lock lock_round [OF lock, of d m' w] add(1) by (simp add: add_to_db_def cl_spinlock_acquire_def)
  finally show ?thesis using add(2-5) unfolding leaves_def by blast
qed

lemma learn_delete_ok:
  assumes db: "fdb z L sz (learn_db s) m es" and lock: "\<not> fdb_locked s"
  shows "\<exists>err t. learn_delete sz p (s, m, w) = Some (err, t) \<and> leaves z L sz s ((db_of m es)(key_of p := None)) t"
proof (cases "key_of p \<in> dom (db_of m es)")
  case True
  define r :: ctrl_learn_fdb_notify_record where "r = undefined\<lparr>fdb_entry := p\<rparr>"
  from set_delete_ok [OF db _, of True r w] lock True obtain t where
    "set_delete sz True r (s, m, w) = Some (False, 0, t)" "leaves z L sz s ((db_of m es)(key_of p := None)) t"
    by (auto simp: r_def)
  moreover have "learn_delete sz p (s, m, w) = Option.bind (set_delete sz True r (s, m, w)) (\<lambda>(_, err, t). Some (err, t))"
    by (auto simp: learn_delete_def set_delete_def lock_if_def unlock_if_def r_def split: Option.bind_split)
  ultimately show ?thesis by auto
next
  case False
  have "entries z L sz (learn_db s) m es" using db by (simp add: fdb_def)
  from fdb_lookup [OF this, of "key_of p"] False have
    "fdb_uc_db_get_record_by_key (learn_db s) (key_of p) m = Some (- ENOENT, 0)" by (auto split: option.split_asm)
  then have "learn_delete sz p (s, m, w) = Some (- ENOENT, s, m, w)"
    using lock by (cases s) (simp add: learn_delete_def key_of_def cl_spinlock_acquire_def cl_spinlock_release_def)
  moreover have "leaves z L sz s ((db_of m es)(key_of p := None)) (s, m, w)" unfolding leaves_def
    by (intro exI [of _ "learn_db s"] exI [of _ m] exI [of _ w] exI [of _ es]) (use db False in auto)
  ultimately show ?thesis by blast
qed

section \<open>A batch\<close>

definition absorbed ::
  "'w learn_env \<Rightarrow> oes_access_cmd \<Rightarrow> oes_fdb_uc_mac_addr_params list \<Rightarrow> (u64 \<rightharpoonup> fdb_record) \<Rightarrow> u64 \<rightharpoonup> fdb_record" where
  "absorbed env cmd ps db =
    fold (\<lambda>p db. db(key_of p := if cmd = OES_ACCESS_CMD_ADD then Some (learned env p) else None)) ps db"

text \<open>What the loop needs to add entries; to delete them it needs nothing.\<close>

definition addable ::
  "'w fdb_state \<Rightarrow> u64 set \<Rightarrow> oes_access_cmd \<Rightarrow> oes_fdb_uc_mac_addr_params list \<Rightarrow> (u64 \<rightharpoonup> fdb_record) \<Rightarrow> bool" where
  "addable d Q cmd ps db \<longleftrightarrow> (cmd = OES_ACCESS_CMD_ADD \<longrightarrow>
    card (dom db) + length ps \<le> capacity (main_db_pool d) \<and> heads_suffice Q d db \<and>
    (\<forall>p\<in>set ps. unat (vid p) < MAX_VLAN_ENTRIES \<and> log_port p \<in> Q))"

lemma addable_step:
  assumes ok: "addable d Q cmd (p # ps) db" and fin: "finite (dom db)" and r: "\<forall>r. x = Some r \<longrightarrow> port_of r = log_port p"
    and cap: "capacity (main_db_pool d') = capacity (main_db_pool d)" "capacity (fdb_fltr_pool d') = capacity (fdb_fltr_pool d)"
  shows "addable d' Q cmd ps (db(key_of p := x))"
proof (cases "cmd = OES_ACCESS_CMD_ADD")
  case True
  have "dom (db(key_of p := x)) \<subseteq> insert (key_of p) (dom db)" by (cases x) auto
  then have "card (dom (db(key_of p := x))) \<le> card (insert (key_of p) (dom db))" using fin by (simp add: card_mono)
  also have "\<dots> \<le> Suc (card (dom db))" using fin by (simp add: card_insert_if)
  finally have size: "card (dom (db(key_of p := x))) + length ps \<le> capacity (main_db_pool d')"
    using ok cap(1) True by (simp add: addable_def)
  have "port_of y \<in> Q" if y: "y \<in> ran (db(key_of p := x))" for y
  proof (cases "x = Some y")
    case eq: True
    then show ?thesis using r ok True by (simp add: addable_def)
  next
    case False
    then have "y \<in> ran db" using y by (auto simp: ran_def split: if_split_asm)
    then have "port_of y \<in> port_of ` ran db" by (rule imageI)
    then show ?thesis using ok True unfolding addable_def heads_suffice_def by (meson subsetD)
  qed
  then have "heads_suffice Q d' (db(key_of p := x))" using ok cap True unfolding addable_def heads_suffice_def by (simp add: image_subsetI)
  with size ok True show ?thesis by (simp add: addable_def)
qed (simp add: addable_def)

lemma learn_loop_ok:
  assumes "fdb z L sz (learn_db s) m es" and "outside z sz frame" and "ctrl_learn_init_deinit_cb s = None"
    and "\<not> fdb_locked s" and "addable (learn_db s) Q cmd (map mac_addr_params as) (db_of m es)"
    and cmd: "cmd = OES_ACCESS_CMD_ADD \<or> cmd = OES_ACCESS_CMD_DELETE"
  shows "\<exists>err' t. learn_loop os sz frame env cmd [] as err (s, m, w) = Some (err', t) \<and>
    (cmd = OES_ACCESS_CMD_ADD \<longrightarrow> err' = (if as = [] then err else 0)) \<and>
    leaves z L sz s (absorbed env cmd (map mac_addr_params as) (db_of m es)) t"
  using assms(1-5)
proof (induction as arbitrary: s m w es err)
  case Nil
  have "leaves z L sz s (db_of m es) (s, m, w)" unfolding leaves_def
    by (intro exI [of _ "learn_db s"] exI [of _ m] exI [of _ w] exI [of _ es]) (use Nil in simp)
  then show ?case by (simp add: absorbed_def)
next
  case (Cons a as)
  note prems = Cons.prems
  let ?p = "mac_addr_params a"
  let ?x = "if cmd = OES_ACCESS_CMD_ADD then Some (learned env ?p) else None"
  let ?db = "(db_of m es)(key_of ?p := ?x)"
  obtain e1 t1 where t1: "leaves z L sz s ?db t1" "cmd = OES_ACCESS_CMD_ADD \<longrightarrow> e1 = 0"
    "learn_loop os sz frame env cmd [] (a # as) err (s, m, w) = learn_loop os sz frame env cmd [] as e1 t1"
  proof (cases "cmd = OES_ACCESS_CMD_ADD")
    case True
    have "unat (vid ?p) < MAX_VLAN_ENTRIES" "heads_suffice Q (learn_db s) (db_of m es)" "log_port ?p \<in> Q"
      "length es < capacity (main_db_pool (learn_db s))"
      using prems(5) fdb_map_facts(1) [OF prems(1)] True by (auto simp: addable_def)
    from learn_add_ok [OF prems(1-4) this, of os env w] True show thesis by (auto intro!: that)
  next
    case False
    from learn_delete_ok [OF prems(1,4), of ?p w] False cmd show thesis by (auto intro!: that)
  qed
  from t1(1) obtain d m1 w1 es1 where l: "t1 = (s\<lparr>learn_db := d\<rparr>, m1, w1)" "fdb z L sz d m1 es1" "db_of m1 es1 = ?db"
    "capacity (main_db_pool d) = capacity (main_db_pool (learn_db s))"
    "capacity (fdb_fltr_pool d) = capacity (fdb_fltr_pool (learn_db s))" unfolding leaves_def by blast
  have fin: "finite (dom (db_of m es))" by (simp add: fdb_map_facts(3) [OF prems(1)])
  have "\<forall>r. ?x = Some r \<longrightarrow> port_of r = log_port ?p" by (simp add: port_of_def learned_def)
  from addable_step [OF prems(5) [unfolded list.map] fin this l(4,5)] have
    ab: "addable d Q cmd (map mac_addr_params as) (db_of m1 es1)" unfolding l(3) .
  have st: "learn_db (s\<lparr>learn_db := d\<rparr>) = d" "ctrl_learn_init_deinit_cb (s\<lparr>learn_db := d\<rparr>) = None"
    "\<not> fdb_locked (s\<lparr>learn_db := d\<rparr>)" using prems(3,4) by simp_all
  from Cons.IH [of "s\<lparr>learn_db := d\<rparr>" m1 es1 e1 w1, unfolded st(1), OF l(2) prems(2) st(2,3) ab] obtain err' t where
    "learn_loop os sz frame env cmd [] as e1 t1 = Some (err', t)" "cmd = OES_ACCESS_CMD_ADD \<longrightarrow> err' = (if as = [] then e1 else 0)"
    "leaves z L sz (s\<lparr>learn_db := d\<rparr>) (absorbed env cmd (map mac_addr_params as) ?db) t"
    unfolding l(1,3) by blast
  moreover from this(3) have "leaves z L sz s (absorbed env cmd (map mac_addr_params (a # as)) (db_of m es)) t"
    using l(4,5) by (simp add: leaves_def absorbed_def)
  ultimately show ?case using t1(2,3) by (intro exI [of _ err'] exI [of _ t]) (simp split: if_split_asm)
qed

text \<open>A batch of entries that were learned or aged out.\<close>

definition no_flush :: "oes_event_info list \<Rightarrow> bool" where
  "no_flush es \<longleftrightarrow> (\<forall>e\<in>set es. ev_type e = OES_FDB_EVENT_LEARN \<or> ev_type e = OES_FDB_EVENT_AGE)"

definition last_cmd :: "oes_access_cmd \<Rightarrow> oes_event_info list \<Rightarrow> oes_access_cmd" where
  "last_cmd cmd es = (if es = [] then cmd
     else if ev_type (last es) = OES_FDB_EVENT_LEARN then OES_ACCESS_CMD_ADD else OES_ACCESS_CMD_DELETE)"

lemma events_loop_ok:
  assumes "no_flush es"
  shows "\<exists>new. events_loop sz stack es rs cmd learnd err t = Some (rs @ new, last_cmd cmd es, learnd \<or> es \<noteq> [], err, t) \<and>
    map (\<lambda>r. (event_type r, fdb_entry r)) new = map (\<lambda>e. (ev_type e, ev_entry e)) es"
  using assms
proof (induction es arbitrary: rs cmd learnd)
  case (Cons e es)
  let ?ty = "ev_type e" and ?cmd = "last_cmd cmd [e]"
  let ?r = "notify_record_of (stack (length rs)) ?ty (ev_entry e) FDB_UC_AGEABLE"
  have ty: "?ty = OES_FDB_EVENT_LEARN \<or> ?ty = OES_FDB_EVENT_AGE" "no_flush es" using Cons.prems by (simp_all add: no_flush_def)
  from Cons.IH [OF ty(2), of "rs @ [?r]" ?cmd True] obtain new where
    new: "events_loop sz stack es (rs @ [?r]) ?cmd True err t = Some ((rs @ [?r]) @ new, last_cmd ?cmd es, True, err, t)"
      "map (\<lambda>r. (event_type r, fdb_entry r)) new = map (\<lambda>e. (ev_type e, ev_entry e)) es" by auto
  have "last_cmd ?cmd es = last_cmd cmd (e # es)" by (simp add: last_cmd_def)
  moreover have "events_loop sz stack (e # es) rs cmd learnd err t = events_loop sz stack es (rs @ [?r]) ?cmd True err t"
    using ty(1) by (auto simp: last_cmd_def)
  ultimately show ?case using new by (intro exI [of _ "?r # new"]) (simp add: notify_record_of_def)
qed (simp add: last_cmd_def)

text \<open>
  The events that are not denied: entries that were learned are denied once there are as many of them as the pool has
  free records. A batch with the effect to add has to fit, which it does when all of its entries were learned.
\<close>

definition admitted_events :: "'w fdb_state \<Rightarrow> (u64 \<rightharpoonup> fdb_record) \<Rightarrow> oes_event_info list \<Rightarrow> oes_event_info list" where
  "admitted_events d db events =
    admit (\<lambda>e. ev_type e = OES_FDB_EVENT_LEARN) (capacity (main_db_pool d) - card (dom db)) events"

definition absorbable :: "'w fdb_state \<Rightarrow> u64 set \<Rightarrow> oes_event_info list \<Rightarrow> (u64 \<rightharpoonup> fdb_record) \<Rightarrow> bool" where
  "absorbable d Q events db \<longleftrightarrow> (last_cmd OES_ACCESS_CMD_ADD events = OES_ACCESS_CMD_ADD \<longrightarrow>
    heads_suffice Q d db \<and> (\<forall>e\<in>set events. unat (vid (ev_entry e)) < MAX_VLAN_ENTRIES \<and> log_port (ev_entry e) \<in> Q) \<and>
    ((\<forall>e\<in>set events. ev_type e = OES_FDB_EVENT_LEARN) \<or> card (dom db) + length events \<le> capacity (main_db_pool d)))"

lemma absorbable_addable:
  assumes "absorbable d Q events db" and cap: "card (dom db) \<le> capacity (main_db_pool d)"
  shows "addable d Q (last_cmd OES_ACCESS_CMD_ADD events) (map ev_entry (admitted_events d db events)) db"
proof -
  have "card (dom db) + length (admitted_events d db events) \<le> capacity (main_db_pool d)"
    if "(\<forall>e\<in>set events. ev_type e = OES_FDB_EVENT_LEARN) \<or> card (dom db) + length events \<le> capacity (main_db_pool d)"
    using that
  proof
    assume "\<forall>e\<in>set events. ev_type e = OES_FDB_EVENT_LEARN"
    then show ?thesis using cap by (auto simp: admitted_events_def admit_take)
  next
    assume "card (dom db) + length events \<le> capacity (main_db_pool d)"
    then show ?thesis
      using admit_length [of "\<lambda>e. ev_type e = OES_FDB_EVENT_LEARN" "capacity (main_db_pool d) - card (dom db)" events]
      unfolding admitted_events_def by linarith
  qed
  moreover have "set (admitted_events d db events) \<subseteq> set events" unfolding admitted_events_def by (rule admit_subset)
  ultimately show ?thesis using assms(1) by (auto simp: addable_def absorbable_def)
qed

lemma events_absorbed:
  assumes db: "fdb z L sz (learn_db s) m es" "outside z sz frame" "ctrl_learn_init_deinit_cb s = None" "\<not> fdb_locked s"
    and cb: "ctrl_learn_notification_cb s = None"
    and ev: "no_flush events" "events \<noteq> []" "length events \<le> CTRL_LEARN_FDB_NOTIFY_SIZE_MAX"
    and ok: "absorbable (learn_db s) Q events (db_of m es)"
    and hal: "\<And>cmd as w. \<exists>w'. hal_uc_mac_addr_set hal cmd (ctrl_learn_br_id s) as w = (0, as, w')"
  shows "\<exists>err t. ctrl_learn_handle_oes_event os hal sz frame env stack events (length events) (s, m, w) = Some (err, t) \<and>
    (ev_type (last events) = OES_FDB_EVENT_LEARN \<longrightarrow> err = 0) \<and>
    leaves z L sz s (absorbed env (last_cmd OES_ACCESS_CMD_ADD events)
      (map ev_entry (admitted_events (learn_db s) (db_of m es) events)) (db_of m es)) t"
proof -
  let ?cmd = "last_cmd OES_ACCESS_CMD_ADD events" and ?ps = "map ev_entry (admitted_events (learn_db s) (db_of m es) events)"
  let ?pair = "\<lambda>r. (event_type r, fdb_entry r)"
  from events_loop_ok [OF ev(1), of sz stack "[]" OES_ACCESS_CMD_ADD False 0 "(s, m, w)"] ev(2) obtain rs where
    rs: "events_loop sz stack events [] OES_ACCESS_CMD_ADD False 0 (s, m, w) = Some (rs, ?cmd, True, 0, s, m, w)"
      "map ?pair rs = map (\<lambda>e. (ev_type e, ev_entry e)) events" by auto
  have "length rs = length events" using arg_cong [OF rs(2), of length] by simp
  then have "length rs < 2 ^ 32" using ev(3) by (simp add: CTRL_LEARN_FDB_NOTIFY_SIZE_MAX_def)
  from approved_admit [OF db(1) this] obtain all where
    ap: "update_approved_list s (approve_all rs) = (0, all)"
      "approved_records all = admit learn_record (capacity (main_db_pool (learn_db s)) - length es) (approve_all rs)" by blast
  let ?as = "map (approved_of_event env) (approved_records all)"
  have "map ?pair (approve_all rs) = map (\<lambda>e. (ev_type e, ev_entry e)) events" using rs(2) by (simp add: approve_all_def comp_def)
  then have "map ?pair (approved_records all) = map (\<lambda>e. (ev_type e, ev_entry e)) (admitted_events (learn_db s) (db_of m es) events)"
    unfolding ap(2) admitted_events_def fdb_map_facts(1) [OF db(1)] by (simp add: admit_map [where P = "\<lambda>x. fst x = OES_FDB_EVENT_LEARN"])
  from arg_cong [OF this, of "map snd"] have as: "map mac_addr_params ?as = ?ps" by (simp add: approved_of_event_def comp_def)
  have cmd: "?cmd = OES_ACCESS_CMD_ADD \<or> ?cmd = OES_ACCESS_CMD_DELETE" by (simp add: last_cmd_def)
  have "addable (learn_db s) Q ?cmd ?ps (db_of m es)"
    by (rule absorbable_addable [OF ok]) (simp add: fdb_map_facts(1,4) [OF db(1)])
  note loop = learn_loop_ok [OF db this [folded as] cmd, of os env 0]
  obtain err t where t: "configure_and_learn os hal sz frame env ?cmd ?as 0 (s, m, w) = Some (err, t)" "?cmd = OES_ACCESS_CMD_ADD \<longrightarrow> err = 0"
      "leaves z L sz s (absorbed env ?cmd ?ps (db_of m es)) t"
  proof -
    obtain w' where h: "hal_uc_mac_addr_set hal ?cmd (ctrl_learn_br_id s) ?as w = (0, ?as, w')" using hal by blast
    define w1 where "w1 = (if ?as = [] then w else w')"
    from loop [of w1] obtain err t where "learn_loop os sz frame env ?cmd [] ?as 0 (s, m, w1) = Some (err, t)"
      "?cmd = OES_ACCESS_CMD_ADD \<longrightarrow> err = 0" "leaves z L sz s (absorbed env ?cmd ?ps (db_of m es)) t" unfolding as by auto
    moreover from this(1) have "configure_and_learn os hal sz frame env ?cmd ?as 0 (s, m, w) = Some (err, t)"
      using h by (simp add: configure_and_learn_def w1_def split: if_split_asm)
    ultimately show thesis using that by blast
  qed
  have "ctrl_learn_handle_oes_event os hal sz frame env stack events (length events) (s, m, w) = Some (err, t)"
    using rs(1) ap(1) t(1) cb ev(3) by (simp add: ctrl_learn_handle_oes_event_def ask_callback_def Let_def)
  moreover have "ev_type (last events) = OES_FDB_EVENT_LEARN \<longrightarrow> err = 0" using t(2) ev(2) by (simp add: last_cmd_def)
  ultimately show ?thesis using t(3) by blast
qed

text \<open>The hardware layer leaves the entries that failed in the list of the approved ones, so every entry of the list is skipped.\<close>

lemma learn_loop_skips: "mac_addr_params ` set as \<subseteq> mac_addr_params ` set failed \<Longrightarrow>
  learn_loop os sz frame env cmd failed as err t = Some (err, t)"
  by (induction as) auto

lemma events_lost:
  assumes ev: "no_flush events" "length events \<le> CTRL_LEARN_FDB_NOTIFY_SIZE_MAX"
    and hal: "\<And>cmd as w. fst (hal_uc_mac_addr_set hal cmd (ctrl_learn_br_id s) as w) \<noteq> 0"
  shows "\<exists>err w'. ctrl_learn_handle_oes_event os hal sz frame env stack events (length events) (s, m, w) = Some (err, s, m, w')"
proof -
  let ?cmd = "last_cmd OES_ACCESS_CMD_ADD events"
  from events_loop_ok [OF ev(1), of sz stack "[]" OES_ACCESS_CMD_ADD False 0 "(s, m, w)"] obtain rs where
    rs: "events_loop sz stack events [] OES_ACCESS_CMD_ADD False 0 (s, m, w) = Some (rs, ?cmd, events \<noteq> [], 0, s, m, w)" by auto
  have cl: "\<exists>err' w'. configure_and_learn os hal sz frame env ?cmd as err (s, m, w) = Some (err', s, m, w')" for as err w
  proof (cases "as = []")
    case False
    obtain e fl w' where h: "hal_uc_mac_addr_set hal ?cmd (ctrl_learn_br_id s) as w = (e, fl, w')" by (metis prod_cases3)
    then have "e \<noteq> 0" using hal [of ?cmd as w] by simp
    with False h show ?thesis by (simp add: configure_and_learn_def learn_loop_skips)
  qed (simp add: configure_and_learn_def)
  obtain e0 rs0 where u: "update_approved_list s (approve_all rs) = (e0, rs0)" by (metis surj_pair)
  have "\<exists>e1 rs1 w1. ask_callback 0 rs0 err (s, m, w) = (e1, rs1, s, m, w1)" for err
    by (simp add: ask_callback_def split: option.split prod.split)
  then obtain e1 rs1 w1 where
    a: "ask_callback 0 rs0 (if e0 \<noteq> 0 then - EPERM else e0) (s, m, w) = (e1, rs1, s, m, w1)" by blast
  from cl [of "map (approved_of_event env) (approved_records rs1)" e1 w1] rs u a ev(2) show ?thesis
    by (cases "events = []") (auto simp: ctrl_learn_handle_oes_event_def Let_def)
qed

section \<open>A flush\<close>

text \<open>The entries that a flush event names; \<open>no_filter\<close> names all of them.\<close>

definition flush_event :: "oes_event_info \<Rightarrow> bool" where
  "flush_event e \<longleftrightarrow> ev_type e \<in> {OES_FDB_EVENT_FLUSH_ALL, OES_FDB_EVENT_FLUSH_VID, OES_FDB_EVENT_FLUSH_PORT,
    OES_FDB_EVENT_FLUSH_PORT_VID}"

definition event_filter :: "oes_event_info \<Rightarrow> fdb_uc_key_filter" where
  "event_filter e = (case ev_type e of
     OES_FDB_EVENT_FLUSH_VID \<Rightarrow> no_filter\<lparr>filter_by_vid := True, filter_vid := vid (ev_entry e)\<rparr>
   | OES_FDB_EVENT_FLUSH_PORT \<Rightarrow> no_filter\<lparr>filter_by_log_port := True, filter_log_port := log_port (ev_entry e)\<rparr>
   | OES_FDB_EVENT_FLUSH_PORT_VID \<Rightarrow> no_filter\<lparr>filter_by_vid := True, filter_vid := vid (ev_entry e),
       filter_by_log_port := True, filter_log_port := log_port (ev_entry e)\<rparr>
   | _ \<Rightarrow> no_filter)"

lemma handle_flush:
  assumes db: "fdb z L sz (learn_db s) m es" and lock: "\<not> fdb_locked s" and cb: "ctrl_learn_notification_cb s = None"
    and ev: "flush_event e" and v: "ev_type e = OES_FDB_EVENT_FLUSH_VID \<Longrightarrow> unat (vid (ev_entry e)) < MAX_VLAN_ENTRIES"
    and P: "\<And>x. x \<in> set es \<Longrightarrow> log_port (mac_params m x) < 2 ^ 32" "log_port (ev_entry e) < 2 ^ 32"
  shows "flushes z L sz (event_filter e) s m es w (ctrl_learn_handle_oes_event os hal sz frame env stack [e] 1 (s, m, w))"
proof -
  let ?r = "if ev_type e = OES_FDB_EVENT_FLUSH_ALL then ctrl_learn_handle_flush_all sz (s, m, w)
    else ctrl_learn_flush_db_by_filter sz (event_filter e) (s, m, w)"
  have fl: "flushes z L sz (event_filter e) s m es w ?r"
  proof (cases "ev_type e = OES_FDB_EVENT_FLUSH_ALL")
    case True
    then show ?thesis using flush_all [OF db lock] by (simp add: event_filter_def)
  next
    case False
    have f: "filter_by_vid (event_filter e) \<or> filter_by_log_port (event_filter e)"
      "filter_by_log_port (event_filter e) \<or> unat (filter_vid (event_filter e)) < MAX_VLAN_ENTRIES"
      "filter_log_port (event_filter e) < 2 ^ 32"
      using ev False v P(2) by (auto simp: flush_event_def event_filter_def no_filter_def)
    from flush_by_filter [OF db lock f(1,2) P(1) f(3)] False show ?thesis by simp
  qed
  then obtain d m' w' es' where r: "?r = Some (0, s\<lparr>learn_db := d\<rparr>, m', w')" "fdb z L sz d m' es'"
    unfolding flushes_def by blast
  then have "events_loop sz stack [e] [] OES_ACCESS_CMD_ADD False 0 (s, m, w) =
      Some ([], OES_ACCESS_CMD_ADD, False, 0, s\<lparr>learn_db := d\<rparr>, m', w')"
    using ev by (auto simp: flush_event_def event_filter_def no_filter_def)
  moreover have "update_approved_list (s\<lparr>learn_db := d\<rparr>) [] = (0, [])"
    by (rule all_approved) (use r(2) fdb_map_facts(4) [OF r(2)] in simp_all)
  ultimately have "ctrl_learn_handle_oes_event os hal sz frame env stack [e] 1 (s, m, w) = ?r"
    using r(1) cb by (simp add: ctrl_learn_handle_oes_event_def CTRL_LEARN_FDB_NOTIFY_SIZE_MAX_def approve_all_def ask_callback_def Let_def)
  with fl show ?thesis by simp
qed

end
