(* ===== verification/Spec2Isabelle.thy ===== *)
theory Spec2Isabelle
  imports Qlist_Ops Item_Map Fmap_Cost Event_Disp_Ops Commu_Steps Timer_Steps Rpc_Inv Rpc_Table Obj_List_Whole Obj_Map_Ops Fdb_Example Learn_Events
begin

text \<open>
  \<^bold>\<open>The Mellanox component and control libraries (mlnx_lib).\<close>

  \<^emph>\<open>The program.\<close> The repository holds four C libraries. \<^verbatim>\<open>sx_complib\<close> is the component library:
  timers (\<^verbatim>\<open>cl_timer.c\<close>), intrusive lists (\<^verbatim>\<open>cl_qlist.h\<close>, \<^verbatim>\<open>cl_list.c\<close>), red-black maps (\<^verbatim>\<open>cl_qmap.h\<close>, \<^verbatim>\<open>cl_fleximap.h\<close>,
  \<^verbatim>\<open>cl_map.c\<close>), object pools (\<^verbatim>\<open>cl_pool.c\<close>), channels and remote
  procedure calls over local sockets (\<^verbatim>\<open>cl_commchnl.c\<close>, \<^verbatim>\<open>sx_rpc_common.c\<close>), and wrappers of operating-system services.
  \<^verbatim>\<open>libeventdisp\<close> (\<^verbatim>\<open>lib_event_disp.c\<close>) distributes events to registered clients over local
  datagram sockets. \<^verbatim>\<open>libcommu\<close> (\<^verbatim>\<open>lib_commu_db.c\<close>, \<^verbatim>\<open>lib_commu.c\<close>) keeps UDP and TCP sessions between
  machines, with a database of handles and servers. \<^verbatim>\<open>libctrllearn\<close> (\<^verbatim>\<open>lib_ctrl_learn.c\<close>,
  \<^verbatim>\<open>lib_ctrl_learn_uc_db.c\<close>, \<^verbatim>\<open>lib_ctrl_learn_filters.c\<close>) learns forwarding-database entries from the events
  of a switch and from its users, and keeps them in a quick map whose nodes come from a pool, with
  lists by VLAN, by port, and by port and VLAN through them.

  \<^emph>\<open>The model.\<close> Each C function is one definition with the function's name (a leading \<^verbatim>\<open>__\<close> is
  dropped), composed the way the code composes them; a loop is a definition of its own, named after
  the function. State is passed explicitly. Machine integers are words of their width.

  \<^descr> \<^bold>\<open>Memory.\<close> The containers are intrusive, so the model has a memory: a record of functions from
  addresses to field values (\<open>list_mem\<close>, extended by \<open>map_mem\<close> with the tree links, the colour and
  the key). An address is a value of any type \<open>'p\<close>; aliasing is equality of addresses. A header
  such as \<open>cl_qlist_t\<close> or \<open>cl_fmap_t\<close> is a record holding the addresses of its own sentinels.
  \<^descr> \<^bold>\<open>Loops\<close> over linked structures are \<open>partial_function (option)\<close>: a loop that does not end is
  \<open>None\<close>, and the properties state that the result is \<open>Some\<close>, so no fuel bound is chosen anywhere.
  Loops over arrays and counters are structural.
  \<^descr> \<^bold>\<open>The operating system\<close> (sockets, mutexes, files, the process id) is not part of the
  repository. It is a record of functions over an abstract world \<open>'w\<close> (\<open>os_calls\<close>, \<open>commu_os\<close>) that
  the definitions take as an argument. What a property needs of it is a named hypothesis
  (\<open>os_sends\<close>: a send appends to a log of sends, \<open>os_closes\<close>: likewise for closes), and every such
  property has a witness over a concrete system. The C library's \<^verbatim>\<open>malloc\<close>, \<^verbatim>\<open>free\<close> and \<^verbatim>\<open>memset\<close> are the
  record \<open>heap_os\<close> in the same way; \<open>heap_law\<close> says that a block that is handed out was not live and
  does not wrap around, and that clearing it changes nothing outside. \<open>init_law\<close> and \<open>dtor_law\<close> say what
  a user's callback may touch: neither writes a list link outside the object it is given, and an initialiser frees no memory. The witnesses use a heap that hands out ascending addresses.
  The memory of the forwarding database is the record \<open>fdb_heap\<close>, with laws of the same kind. The switch, the
  hardware layer and the users' callbacks of the learning engine are the record \<open>learn_env\<close>. The system calls of
  the communication sessions are the record \<open>commu_sys\<close>; \<open>stream_between\<close> says what a TCP connection does, and \<open>sys_others\<close>
  stands for the other threads where a thread waits.
  \<^descr> \<^bold>\<open>Assertions.\<close> \<^verbatim>\<open>CL_ASSERT\<close> is compiled out of the release build and is not modelled; what
  it asserts of the arguments is a hypothesis of the property that needs it.

  \<^emph>\<open>The theories.\<close>

  \<^item> \<open>Complib_Prelude\<close>: word types, the library's enums, the \<open>named_theorems\<close> collections and generic
  list and word lemmas.
  \<^item> \<open>Qlist\<close>, \<open>Qlist_Ops\<close>: \<^verbatim>\<open>cl_qlist.h\<close> and the quick-list half of \<^verbatim>\<open>cl_list.c\<close>. The
  abstraction \<open>qlist m l xs\<close> says that the header \<open>l\<close> links exactly the items \<open>xs\<close>, in order and in both
  directions, with the right count; each operation is shown to act on \<open>xs\<close> as its list
  counterpart.
  \<^item> \<open>Rb_Shape\<close>: red-black trees as a data type, the height bound and the shape lemmas of the
  rebalancing steps. \<open>Fmap\<close> holds the flexi map's code; \<open>Fmap_Heap\<close> relates the memory to a tree,
  \<open>Fmap_Inv\<close> is the invariant \<open>fmap\<close> (search order, red-black balance, thread of the items in key order,
  count), and \<open>Fmap_Insert\<close>, \<open>Fmap_Remove\<close>, \<open>Fmap_Ops\<close>, \<open>Fmap_Merge\<close> prove that the operations keep it and
  what they compute. \<open>Fmap_Cost\<close> counts the comparisons of the searches and of the insertion.
  \<^item> \<open>Qmap\<close>, \<open>Qmap_Refine\<close>: the quick map, which repeats the flexi map's code for \<^verbatim>\<open>uint64_t\<close> keys. It is
  shown equal, function by function, to the flexi map with the comparison of integers, so that
  the proofs are made once.
  \<^item> \<open>Item_Map\<close>: the contract of a map of items as a locale, with the induction over sequences of
  operations proved inside it, and its interpretation on the quick map.
  \<^item> \<open>Event_Disp\<close> (the code), \<open>Event_Disp_Inv\<close> (the invariant of the registration database, kept by
  every step of an \<open>inductive\<close> relation over the interface calls), \<open>Event_Disp_Ops\<close> (what each call
  does).
  \<^item> \<open>Commu_Db\<close> (the code), \<open>Commu_Db_Inv\<close> (tables with free slots as a locale, interpreted on the handle
  tables and on the client tables; the invariant that ties the handle table of a server to its
  status table), \<open>Commu_Db_Steps\<close> (reachable databases).
  \<^item> \<open>Pool\<close> holds the four pools of \<^verbatim>\<open>cl_pool.c\<close>. \<open>Pool_Inv\<close> is the representation \<open>pool_rep\<close>: the
  free list holds exactly the free items, the block list the allocated blocks, the blocks lie
  apart in live memory, every item lies in the object area of a block, and the numbers of free and
  held items add up to the pool's counter. \<open>Pool_Ops\<close> proves growth, taking, returning and destruction.
  \<open>Object_Pool\<close> states the pool's contract as a locale, a stack of distinct objects, and interprets it
  on the quick composite pool and on the pool. What the destructor was called for is \<open>dtor_calls\<close>.
  \<^item> \<open>Commu\<close>, \<open>Commu_Sessions\<close>, \<open>Commu_Api\<close>: the code of \<^verbatim>\<open>lib_commu.c\<close>: messages behind headers over UDP and
  TCP, the listener and the connecting thread, and the calls. \<open>Commu_Link\<close> shows that a connection is a queue of
  messages, \<open>Commu_Inv\<close> that receiving stays within the buffers and that transfers keep the database, \<open>Commu_Steps\<close> that
  every call and thread does, as an \<open>inductive\<close> relation over the library's variables, and what errors and timeouts lead to: \<open>connect_waits\<close> is the state of the connecting thread after a number of rounds.
  \<^item> \<open>Node_Pool\<close>: the quick pool of map and list nodes, as the containers of objects use it. \<open>Obj_List\<close>,
  \<open>Obj_List_Ops\<close>, \<open>Obj_List_Whole\<close>: \<^verbatim>\<open>cl_list_t\<close>, the list of object pointers over a quick list and a pool, single
  operations and those on whole lists and arrays. \<open>Obj_Map\<close>, \<open>Obj_Map_Ops\<close>: \<^verbatim>\<open>cl_map_t\<close>, the map of object pointers over
  a quick map and a pool, as a partial map.
  \<^item> \<open>Timer\<close>: the code of \<^verbatim>\<open>cl_timer.c\<close>, a section under the mutex at a time. \<open>Timer_Inv\<close>: the queue holds exactly the
  queued timers, by timeout, and what each call does to it. \<open>Timer_Steps\<close>: the provider's thread beside the users' threads as
  an \<open>inductive\<close> relation, timers whose time has come, and timers that are started again too late.
  \<^item> \<open>Commchnl\<close>: the code of \<^verbatim>\<open>cl_commchnl.c\<close>. \<open>Rpc\<close>: the code of \<^verbatim>\<open>sx_rpc_common.c\<close>, the table of commands, the messages,
  the two threads of the server, and the client. \<open>Rpc_Inv\<close>: messages arrive as they were sent, whatever the pieces. \<open>Rpc_Table\<close>:
  the table of commands as a partial map, the work queues as lists, with their contract as a locale, and the worker's turns on them.
  \<^item> \<open>Fdb_Keys\<close> (keys and entries), \<open>Fdb_Filters\<close> (the code of the filters), \<open>Fdb\<close> (the code of the database), \<open>Fdb_Inv\<close>
  (the representation: a quick map of entries from a pool, and for every VLAN, port and pair a list of exactly its entries),
  \<open>Fdb_Index\<close>, \<open>Fdb_Lists\<close>, \<open>Fdb_Entries\<close> (the steps of linking and unlinking), \<open>Fdb_Ops\<close> (adding, finding and deleting
  as a partial map), \<open>Fdb_Enum\<close> (enumeration by a filter), \<open>Fdb_Example\<close> (a concrete empty database).
  \<^item> \<open>Learn\<close>, \<open>Learn_Api\<close>: the code of \<^verbatim>\<open>lib_ctrl_learn.c\<close>: the handler of the events, the flushes, the calls and the
  thread, over the forwarding database. \<open>Learn_Flush\<close>, \<open>Learn_Read\<close>, \<open>Learn_Set\<close>, \<open>Learn_Events\<close>: what flushing, reading
  in pages, setting and the handling of events do to the database; \<open>cookie_calls\<close> is the effect of releasing cookies, and \<open>served\<close> and
  \<open>admitted_events\<close> are the entries that are not denied when the pool is short.
  \<^item> \<open>Spec2Isabelle\<close> (this theory): concrete memories and systems for the witnesses, and the
  properties.

  \<^emph>\<open>The properties\<close> come in groups: the flexi map (C1 to C5), the quick map (C6 to C7),
  the quick list (C8), the event dispatcher (C9 to C12), the communication library (C13 to C17), the pools
  (C18 to C21), the object list (C22), the timers (C23 to C26), the remote procedure calls (C27 to C31), the
  object map (C32), the forwarding database (C33 to C36) and the learning engine (C37 to C40).

  \<^emph>\<open>Simplifications.\<close> The seconds and the sub-second parts of the timers' times are unbounded integers; the conversion of milliseconds is in
  32-bit words. The fields of a filter of the forwarding database are booleans for the comparison with
  \<^verbatim>\<open>FDB_KEY_FILTER_FIELD_VALID\<close>, and \<^verbatim>\<open>memcmp\<close> of two entries is equality of the records, without padding.

  \<^emph>\<open>Not modelled.\<close> Output only: the debug dump of the forwarding database (\<^verbatim>\<open>lib_ctrl_learn_debug.c\<close>), logging
  (\<^verbatim>\<open>sx_log.c\<close>) and status texts. Wrappers whose behaviour is that of the operating system or the compiler: events, threads, spin
  and passive locks, shared memory, byte swaps and atomic operations. The simulation
  build of the learning engine (\<^verbatim>\<open>SIMULATE_MODE\<close>). In the sessions of \<^verbatim>\<open>lib_commu.c\<close>, interference of other threads is
  modelled where a thread waits in \<^verbatim>\<open>select\<close>, \<^verbatim>\<open>pthread_join\<close> or \<^verbatim>\<open>sleep\<close>, not inside the transfer of a message.
  In the remote procedure calls, a turn of the worker and the handling of one event source are single steps.
\<close>

section \<open>Example structures\<close>

text \<open>
  Maps of two items in explicit memory: the sentinels are at 0 and 1, the items 2 and 3 have the
  keys 10 and 20. The flexi map compares keys by subtraction. In \<open>ex_mem2\<close> a second map with
  sentinels 10 and 11 holds the item 12 under the key 15.
\<close>

definition ex_fmap :: "(nat, int) cl_fmap_t" where
  "ex_fmap = \<lparr>fm_root = 0, fm_nil = 1, fm_state = CL_INITIALIZED, fm_count = 2,
     fm_pfn_compare = (\<lambda>a b. a - b)\<rparr>"

definition ex_qmap :: "nat cl_qmap_t" where
  "ex_qmap = \<lparr>qm_root = 0, qm_nil = 1, qm_state = CL_INITIALIZED, qm_count = 2\<rparr>"

definition ex_mem :: "(nat, 'k::{zero, numeral}) map_mem" where
  "ex_mem = \<lparr>p_next = (\<lambda>_. 0)(1 := 2, 2 := 3, 3 := 1), p_prev = (\<lambda>_. 0)(1 := 3, 2 := 1, 3 := 2),
     p_left = (\<lambda>_. 1)(0 := 2), p_right = (\<lambda>_. 1)(2 := 3), p_up = (\<lambda>_. 0)(1 := 1, 3 := 2),
     color = (\<lambda>_. CL_MAP_BLACK)(3 := CL_MAP_RED), p_key = (\<lambda>_. 0)(2 := 10, 3 := 20)\<rparr>"

definition ex_fmap2 :: "(nat, int) cl_fmap_t" where
  "ex_fmap2 = \<lparr>fm_root = 10, fm_nil = 11, fm_state = CL_INITIALIZED, fm_count = 1,
     fm_pfn_compare = (\<lambda>a b. a - b)\<rparr>"

definition ex_mem2 :: "(nat, int) map_mem" where
  "ex_mem2 = ex_mem\<lparr>
     p_next := (p_next (ex_mem :: (nat, int) map_mem))(11 := 12, 12 := 11),
     p_prev := (p_prev (ex_mem :: (nat, int) map_mem))(11 := 12, 12 := 11),
     p_left := (p_left (ex_mem :: (nat, int) map_mem))(10 := 12, 12 := 11),
     p_right := (p_right (ex_mem :: (nat, int) map_mem))(12 := 11),
     p_up := (p_up (ex_mem :: (nat, int) map_mem))(10 := 10, 11 := 11, 12 := 10),
     p_key := (p_key (ex_mem :: (nat, int) map_mem))(12 := 15)\<rparr>"

lemma ex_compare: "fmap_compare (\<lambda>a b. a - b :: int)"
  by unfold_locales auto

lemma ex_fmap_wf: "fmap_wf ex_fmap ex_mem [2, 3]"
proof -
  have "fmap_tree ex_fmap ex_mem (Node Leaf 2 (Node Leaf 3 Leaf))"
    by (simp add: fmap_tree_def place_plug rb_tree_def ex_fmap_def ex_mem_def)
  then have "\<exists>t. fmap_tree ex_fmap ex_mem t \<and> inorder t = [2, 3]"
    by (intro exI [of _ "Node Leaf 2 (Node Leaf 3 Leaf)"]) simp
  moreover have "qlist_at (ex_mem :: (nat, int) map_mem) (fm_nil ex_fmap) [2, 3]"
    by (simp add: qlist_at_def ex_fmap_def ex_mem_def)
  ultimately show ?thesis
    by (simp add: fmap_wf_def key_before_def ex_fmap_def ex_mem_def)
qed

lemma ex_qmap_wf: "qmap_wf ex_qmap ex_mem [2, 3]"
proof -
  have "fmap_tree (as_fmap ex_qmap) ex_mem (Node Leaf 2 (Node Leaf 3 Leaf))"
    by (simp add: fmap_tree_def place_plug rb_tree_def ex_qmap_def as_fmap_def ex_mem_def)
  then have "\<exists>t. fmap_tree (as_fmap ex_qmap) ex_mem t \<and> inorder t = [2, 3]"
    by (intro exI [of _ "Node Leaf 2 (Node Leaf 3 Leaf)"]) simp
  moreover have "qlist_at (ex_mem :: (nat, u64) map_mem) (fm_nil (as_fmap ex_qmap)) [2, 3]"
    by (simp add: qlist_at_def ex_qmap_def as_fmap_def ex_mem_def)
  ultimately show ?thesis
    by (simp add: qmap_wf_def fmap_wf_def key_before_def ex_qmap_def as_fmap_def ex_mem_def
        u64_compare_def)
qed

lemma ex_two_maps: "two_maps ex_fmap [2, 3] ex_fmap2 [12] ex_mem2"
proof -
  have "same_outside {10, 11, 12} ex_mem ex_mem2"
    by (simp add: same_outside_def ex_mem2_def ex_mem_def)
  then have "fmap_wf ex_fmap ex_mem2 [2, 3]"
    by (rule fmap_wf_frame [OF ex_fmap_wf]) (simp add: fmap_area_def ex_fmap_def)
  moreover have "fmap_tree ex_fmap2 ex_mem2 (Node Leaf 12 Leaf)"
    by (simp add: fmap_tree_def place_plug rb_tree_def ex_fmap2_def ex_mem2_def ex_mem_def)
  then have "fmap_wf ex_fmap2 ex_mem2 [12]"
    by (auto simp: fmap_wf_def qlist_at_def ex_fmap2_def ex_mem2_def ex_mem_def
        intro!: exI [of _ "Node Leaf 12 Leaf"])
  ultimately show ?thesis
    by (simp add: two_maps_def ex_compare fmap_area_def ex_fmap_def ex_fmap2_def)
qed

text \<open>A list with its end marker at 0 and the items 1, 2 and 3, and one with end 10 and item 11.\<close>

definition ex_list :: "nat cl_qlist_t" where
  "ex_list = \<lparr>ql_end = 0, ql_count = 3, ql_state = CL_INITIALIZED\<rparr>"

definition ex_list2 :: "nat cl_qlist_t" where
  "ex_list2 = \<lparr>ql_end = 10, ql_count = 1, ql_state = CL_INITIALIZED\<rparr>"

definition ex_links :: "nat list_mem" where
  "ex_links = \<lparr>p_next = (\<lambda>_. 0)(0 := 1, 1 := 2, 2 := 3, 10 := 11, 11 := 10),
     p_prev = (\<lambda>_. 0)(0 := 3, 2 := 1, 3 := 2, 10 := 11, 11 := 10)\<rparr>"

lemma ex_qlist: "qlist ex_links ex_list [1, 2, 3]"
  by (simp add: qlist_def qlist_at_def ex_links_def ex_list_def)

lemma ex_qlist2: "qlist ex_links ex_list2 [11]"
  by (simp add: qlist_def qlist_at_def ex_links_def ex_list2_def)

text \<open>
  A small operating system for the dispatcher: descriptors are handed out in increasing order,
  every call succeeds, and the sends with their results and the descriptors closed are recorded.
  \<open>ex_os_refuse\<close> is the same system with a peer that refuses every datagram.
\<close>

type_synonym ex_world = "nat \<times> (string \<times> u8 list \<times> send_result) list \<times> int list"

definition ex_os :: "ex_world os_calls" where
  "ex_os = \<lparr>os_socket = (\<lambda>(n, lg, cl). (int n, (n + 1, lg, cl))),
     os_bind = (\<lambda>fd path w. (0, w)),
     os_close = (\<lambda>fd (n, lg, cl). (0, (n, lg, cl @ [fd]))),
     os_unlink = (\<lambda>path w. w),
     os_set_nonblock = (\<lambda>fd w. (0, w)),
     os_sendto = (\<lambda>fd buf path (n, lg, cl). (SEND_OK, (n, lg @ [(path, buf, SEND_OK)], cl))),
     os_recv = (\<lambda>fd n w. (Some (int_bytes 7 @ [1, 2]), w)),
     os_getpid = 42,
     os_mutex_init = (\<lambda>w. (True, w)), os_mutex_lock = (\<lambda>w. (True, w)),
     os_mutex_unlock = (\<lambda>w. (True, w)), os_mutex_destroy = (\<lambda>w. (True, w))\<rparr>"

definition ex_os_refuse :: "ex_world os_calls" where
  "ex_os_refuse = ex_os\<lparr>os_sendto := (\<lambda>fd buf path (n, lg, cl). (SEND_FAILED, (n, lg @ [(path, buf, SEND_FAILED)], cl)))\<rparr>"

definition ex_started :: event_disp_state where
  "ex_started = (event_disp_reset ed_boot)\<lparr>event_disp_init := True\<rparr>"

lemma ex_started_inv: "ed_inv ex_started" "event_disp_init ex_started"
  by (simp_all add: ex_started_def)

lemma ex_started_empty: "registered ex_started 7 = []" "open_fds ex_started = {#}"
  by (simp_all add: ex_started_def registered_def open_fds_def used_def event_disp_reset_def ed_consts)

definition ex_registered :: event_disp_state where
  "ex_registered = update_row (set_first (-1) 3) 7 ex_started"

lemma ex_registered_7: "registered ex_registered 7 = [3]" "event_disp_init ex_registered"
  by (simp_all add: ex_registered_def ex_started_def registered_def used_def update_row_def
      event_in_range_def event_disp_reset_def ed_consts eval_nat_numeral)

definition ex_client :: event_disp_fds_t where
  "ex_client = \<lparr>high_fd = 3, med_fd = 4, low_fd = 5\<rparr>"

definition ex_opened :: event_disp_state where
  "ex_opened = (record_fd 5 (record_fd 4 (record_fd 3 ex_started)))\<lparr>event_disp_con := 1\<rparr>"

lemma ex_os_socket: "os_socket_ok ex_os"
  by (auto simp: os_socket_ok_def ex_os_def)

lemma ex_os_sends: "os_sends ex_os (\<lambda>(n, lg, cl). lg)"
  by (simp add: os_sends_def ex_os_def split: prod.splits)

lemma ex_os_refuse_sends: "os_sends ex_os_refuse (\<lambda>(n, lg, cl). lg)"
  by (simp add: os_sends_def ex_os_refuse_def ex_os_def split: prod.splits)

lemma ex_os_closes: "os_closes ex_os (\<lambda>(n, lg, cl). cl)"
  by (simp add: os_closes_def ex_os_def split: prod.splits)

text \<open>An empty communication database, and a system whose calls succeed.\<close>

definition ex_commu_os :: "unit commu_os" where
  "ex_commu_os = \<lparr>co_lock = (\<lambda>w. (0, w)), co_unlock = (\<lambda>w. (0, w)), co_listener_lock = (\<lambda>w. (0, w)),
     co_listener_unlock = (\<lambda>w. (0, w)), co_mutex_init = (\<lambda>w. ((0, 0), w)),
     co_mutex_destroy = (\<lambda>w. ((0, 0), w)), co_getpeername = (\<lambda>fd w. ((0, 0), w))\<rparr>"

definition ex_db :: commu_db where
  "ex_db = \<lparr>udp_handle_info = replicate 16 empty_handle_info,
     server_tcp_handle_info = replicate 16 (replicate 16 empty_handle_info),
     client_tcp_handle_info = replicate 16 empty_handle_info,
     server_status_st = replicate 16 empty_server_status,
     listener_threads = replicate 16 0, event_fd = replicate 16 (-1),
     event_socket_path = exit_listener_thread_socket_path, db_verbosity = 3\<rparr>"

definition ex_udp_params :: ip_udp_params where
  "ex_udp_params = \<lparr>up_session_params = \<lparr>sp_port = 3100, sp_s_ipv4_addr = 0, sp_msg_type = 5\<rparr>,
     connection_role = CONN_CLIENT, up_is_single_peer = 0\<rparr>"

definition ex_full_db :: commu_db where
  "ex_full_db = ex_db\<lparr>udp_handle_info := replicate 16 (empty_handle_info\<lparr>handle := 4\<rparr>)\<rparr>"

lemma ex_mutex: "mutex_works ex_commu_os"
  by (simp add: mutex_works_def ex_commu_os_def)

lemma ex_db_sizes: "db_sizes ex_db"
  by (simp add: db_sizes_def ex_db_def db_consts empty_server_status_def)

lemma ex_db_handles:
  "udp_handles ex_db = {#}" "tcp_client_handles ex_db = {#}"
  "j < 16 \<Longrightarrow> tcp_server_handles j ex_db = {#}" "j < 16 \<Longrightarrow> server_clients j ex_db = {#}"
  by (simp_all add: db_counts ex_db_def handles.keys_replicate clients.keys_replicate empty_server_status_def)

lemma ex_db_inv: "db_inv ex_db"
  using ex_db_sizes ex_db_handles
  by (simp add: db_inv_def server_ok_def db_consts) (simp add: ex_db_def empty_server_status_def)

lemma ex_full_db_sizes: "db_sizes ex_full_db" "size (udp_handles ex_full_db) = 16"
proof -
  show "db_sizes ex_full_db"
    using ex_db_sizes by (simp add: ex_full_db_def db_sizes_def db_consts)
  have "keys handle (replicate n (empty_handle_info\<lparr>handle := 4\<rparr>)) = replicate_mset n 4" for n
    by (induction n) (auto simp: keys_def INVALID_HANDLE_ID_def)
  then show "size (udp_handles ex_full_db) = 16"
    by (simp add: ex_full_db_def udp_handles_def)
qed

section \<open>Pools on a concrete heap\<close>

text \<open>A heap that hands out ascending addresses and logs what is freed.\<close>

definition clear_links :: "u64 \<Rightarrow> size_t \<Rightarrow> 'z lmem \<Rightarrow> 'z lmem" where
  "clear_links p n m =
    m\<lparr>p_next := (\<lambda>x. if p \<le> x \<and> x - p < n then 0 else p_next m x),
      p_prev := (\<lambda>x. if p \<le> x \<and> x - p < n then 0 else p_prev m x)\<rparr>"

definition bump_heap :: "('z lmem, u64 \<times> u64 list) heap_os" where
  "bump_heap =
    \<lparr>os_malloc = (\<lambda>n (nx, fr). if nx = 0 \<or> unat nx + unat n \<ge> 2 ^ 63 then (0, nx, fr) else (nx, nx + n, fr)),
     os_free = (\<lambda>p (nx, fr). (nx, p # fr)), os_memset0 = clear_links\<rparr>"

definition bump_live :: "u64 \<times> u64 list \<Rightarrow> u64 set" where
  "bump_live w = {x. x \<noteq> 0 \<and> x < fst w}"

lemma bump_law: "heap_law bump_heap bump_live"
  unfolding heap_law_def
proof (intro conjI allI impI)
  fix n w p w' assume m: "os_malloc (bump_heap :: ('z lmem, u64 \<times> u64 list) heap_os) n w = (p, w')"
  obtain nx fr where w: "w = (nx, fr)" by (cases w)
  show "if p = 0 then bump_live w' = bump_live w
    else unat p + unat n \<le> 2 ^ 64 \<and> addr_range p (unat n) \<inter> bump_live w = {} \<and>
      bump_live w' = bump_live w \<union> addr_range p (unat n)"
  proof (cases "nx = 0 \<or> unat nx + unat n \<ge> 2 ^ 63")
    case True
    with m show ?thesis by (auto simp: bump_heap_def w)
  next
    case False
    then have u: "unat (nx + n) = unat nx + unat n" using unat_add_no_wrap [of nx n] by simp
    from False m have "p = nx" "w' = (nx + n, fr)" by (auto simp: bump_heap_def w)
    with False u show ?thesis
      by (auto simp: bump_live_def addr_range_def w word_less_nat_alt unat_eq_0)
  qed
next
  fix p x :: u64 and n :: size_t and m :: "'z lmem" assume "x \<notin> addr_range p (unat n)"
  then have "\<not> (p \<le> x \<and> x - p < n)"
    by (auto simp: addr_range_def word_le_nat_alt word_less_nat_alt unat_sub)
  then show "p_next (os_memset0 bump_heap p n m) x = p_next m x"
    "p_prev (os_memset0 bump_heap p n m) x = p_prev m x"
    by (auto simp: bump_heap_def clear_links_def)
qed

text \<open>A pool header at addresses 16 and 32 in a memory that is still all zero.\<close>

definition pool_mem0 :: "u64 pool_mem" where
  "pool_mem0 = \<lparr>p_next = (\<lambda>_. 0), p_prev = (\<lambda>_. 0), p_left = (\<lambda>_. 0), p_right = (\<lambda>_. 0), p_up = (\<lambda>_. 0),
    color = (\<lambda>_. CL_MAP_RED), p_key = (\<lambda>_. 0), p_object = (\<lambda>_. 0)\<rparr>"

definition qcpool0 :: "('z, u64 \<times> u64 list) qcpool" where
  "qcpool0 = \<lparr>qc_num_components = 0, qc_sizes_ptr = 0, qc_component_sizes = [], qc_p_components = [],
     qc_num_objects = 0, qc_max_objects = 0, qc_grow_size = 0, qc_pfn_init = None, qc_pfn_dtor = None,
     qc_free_list = \<lparr>ql_end = 16, ql_count = 0, ql_state = CL_UNINITIALIZED\<rparr>,
     qc_alloc_list = \<lparr>ql_end = 32, ql_count = 0, ql_state = CL_UNINITIALIZED\<rparr>, qc_state = CL_UNINITIALIZED\<rparr>"

definition pool0 :: "((u64, 'z) pmem, u64 \<times> u64 list) cl_pool_t" where
  "pool0 = \<lparr>pl_qcpool = qcpool0, pl_pfn_init = None, pl_pfn_dtor = None\<rparr>"

lemma pool0_ready:
  "ql_end (qc_free_list (pl_qcpool pool0)) \<noteq> ql_end (qc_alloc_list (pl_qcpool pool0))"
  "pool_ends (pl_qcpool pool0) \<subseteq> bump_live (100, [])" "0 \<notin> bump_live (100, [])"
  by (simp_all add: pool0_def qcpool0_def pool_ends_def bump_live_def)

lemma roundup_8: "ROUNDUP (8 + 24) 8 = 32" by (simp add: ROUNDUP_def)

lemma grow_loop_2: "qcpool_grow_loop 2 = qcpool_grow_loop (Suc (Suc 0))" by (simp add: numeral_2_eq_2)

lemma pool0_success:
  "fst (the (cl_pool_init bump_heap pool0 2 2 0 8 None None pool_mem0 (100, []))) = CL_SUCCESS"
  by (simp add: cl_pool_init_def cl_qcpool_init_def pool0_def qcpool0_def cl_qcpool_construct_def clear_list_end_def
   bump_heap_def cl_malloc_def sizeof_size_def sizeof_pointer_def sizeof_cl_pool_obj_def sizeof_cl_list_item_def ROUNDUP_def cl_qlist_init_def
   cl_qlist_reset_def cl_qcpool_grow_def qcpool_obj_size_def cl_qlist_insert_tail_def grow_loop_2 qcpool_init_object_def cl_pool_init_cb_def Let_def
    cl_qlist_insert_head_def split: prod.split)
lemma pool1:
  "\<exists>p m w free blocks. cl_pool_init bump_heap pool0 2 2 0 8 None None pool_mem0 (100, []) =
      Some (CL_SUCCESS, p, m, w) \<and>
    length free = 2 \<and> upool_rep (bump_live w) m p free {} blocks \<and> qc_grow_size (pl_qcpool p) = 0 \<and>
    qc_num_objects (pl_qcpool p) = 2"
proof -
  obtain st p m w where init: "cl_pool_init bump_heap pool0 2 2 0 8 None None pool_mem0 (100, []) = Some (st, p, m, w)"
    "if st = CL_SUCCESS
     then \<exists>free blocks. length free = unat (2 :: size_t) \<and> upool_rep (bump_live w) m p free {} blocks \<and>
       qc_grow_size (pl_qcpool p) = 0 \<and> qcpool_obj_size (pl_qcpool p) = 32 \<and>
       qc_num_objects (pl_qcpool p) = 2 \<and>
       pool_ends (pl_qcpool p) = pool_ends (pl_qcpool (pool0 :: (u64 pool_mem, u64 \<times> u64 list) cl_pool_t)) \<and>
       bump_live (100, []) \<subseteq> bump_live w
     else \<not> cl_is_pool_inited p"
    using pool_init [OF bump_law pool0_ready roundup_8 [symmetric], of 2 2 0 pool_mem0] by auto
  then have "st = CL_SUCCESS" using pool0_success by simp
  with init show ?thesis by auto
qed

text \<open>A quick composite pool of at most four objects of 32 bytes, not yet grown.\<close>

definition qcpool1 :: "(unit, u64 \<times> u64 list) qcpool" where
  "qcpool1 = initial_pool qcpool0 0 4 2 [32] 1 None None"

definition qcpool1_mem :: "u64 list_mem" where
  "qcpool1_mem = \<lparr>p_next = (\<lambda>x. if x = 16 \<or> x = 32 then x else 0), p_prev = (\<lambda>x. if x = 16 \<or> x = 32 then x else 0)\<rparr>"

lemma qcpool1_rep: "pool_rep (bump_live (100, [])) 0 qcpool1_mem qcpool1 [] {} []"
  by (auto simp: pool_rep_def qcpool1_def initial_pool_def qcpool0_def qlist_def qlist_at_empty qcpool1_mem_def
      layout_def pool_ends_def qcpool_obj_size_def rounded_single ROUNDUP_def bump_live_def)

lemma qcpool1_fields: "init_law bump_live 0 qcpool1" "qcpool_obj_size qcpool1 = 32" "growth qcpool1 3 = 3"
  "growth qcpool1 2 = 2" "qc_grow_size qcpool1 = 2" "qc_num_objects qcpool1 = 0"
  by (simp_all add: init_law_none qcpool1_def initial_pool_def qcpool_obj_size_def rounded_single ROUNDUP_def
      growth_def)

text \<open>
  The same pool with callbacks, and with its array of sizes at the address 40. The initialiser writes the first word of the
  object, puts the pool item 8 bytes into it and logs the object; it fails when three objects are in the log. The destructor
  writes the first word, too, and logs the pool item. \<open>qcpool3\<close> may have one object, which the user holds.
\<close>

definition ex_pool_init :: "(u64 list_mem, u64 \<times> u64 list) cl_pfn_qcpool_init_t" where
  "ex_pool_init comps n m w =
    (if length (snd w) < 3 then CL_SUCCESS else CL_ERROR, hd comps + 8, comps, m\<lparr>p_next := (p_next m)(hd comps := 7)\<rparr>,
     (fst w, hd comps # snd w))"

definition ex_pool_dtor :: "(u64 list_mem, u64 \<times> u64 list) cl_pfn_qcpool_dtor_t" where
  "ex_pool_dtor it m w = (m\<lparr>p_prev := (p_prev m)(it - 8 := 9)\<rparr>, (fst w, it # snd w))"

definition qcpool2 :: "(unit, u64 \<times> u64 list) qcpool" where
  "qcpool2 = initial_pool qcpool0 40 4 2 [32] 1 (Some ex_pool_init) (Some ex_pool_dtor)"

definition qcpool3 :: "(unit, u64 \<times> u64 list) qcpool" where
  "qcpool3 = qcpool2\<lparr>qc_num_objects := 1, qc_max_objects := 1\<rparr>"

lemma qcpool2_rep: "pool_rep (bump_live (100, [])) 8 qcpool1_mem qcpool2 [] {} []"
  by (auto simp: pool_rep_def qcpool2_def initial_pool_def qcpool0_def qlist_def qlist_at_empty qcpool1_mem_def
      layout_def pool_ends_def qcpool_obj_size_def rounded_single ROUNDUP_def bump_live_def)

lemma qcpool3_rep: "pool_rep (bump_live (100, [])) 8 qcpool1_mem qcpool3 [] {56} []"
  by (auto simp: pool_rep_def qcpool3_def qcpool2_def initial_pool_def qcpool0_def qlist_def qlist_at_empty qcpool1_mem_def
      layout_def pool_ends_def qcpool_obj_size_def rounded_single ROUNDUP_def bump_live_def obj_span_def addr_range_def
      word_less_nat_alt)

lemma qcpool2_fields: "qcpool_obj_size qcpool2 = 32" "qcpool_obj_size qcpool3 = 32" "growth qcpool2 2 = 2"
  "qc_grow_size qcpool2 = 2" "qc_grow_size qcpool3 = 2" "qc_num_objects qcpool2 = 0" "qc_max_objects qcpool2 = 4"
  "qc_num_objects qcpool3 = 1" "qc_max_objects qcpool3 = 1" "growth qcpool3 2 = 0" "grow_bytes qcpool2 2 = 80"
  "qc_sizes_ptr qcpool2 = 40" "qc_pfn_dtor qcpool2 = Some ex_pool_dtor"
  by (simp_all add: qcpool2_def qcpool3_def initial_pool_def qcpool_obj_size_def rounded_single ROUNDUP_def growth_def grow_bytes_def)

lemma ex_init_law: "qc_pfn_init p = Some ex_pool_init \<Longrightarrow> qc_pfn_dtor p = Some ex_pool_dtor \<Longrightarrow> qcpool_obj_size p = 32 \<Longrightarrow> init_law bump_live 8 p"
  by (auto simp: init_law_def qcpool_init_object_def ex_pool_init_def ex_pool_dtor_def bump_live_def addr_range_def)

lemma qcpool2_laws: "init_law bump_live 8 qcpool2" "init_law bump_live 8 qcpool3" "dtor_law 8 qcpool2"
proof -
  have cb: "qc_pfn_init qcpool2 = Some ex_pool_init" "qc_pfn_init qcpool3 = Some ex_pool_init" "qc_pfn_dtor qcpool3 = Some ex_pool_dtor"
    by (simp_all add: qcpool2_def qcpool3_def initial_pool_def)
  show "init_law bump_live 8 qcpool2" "init_law bump_live 8 qcpool3" by (rule ex_init_law; simp add: cb qcpool2_fields)+
  show "dtor_law 8 qcpool2" by (auto simp: dtor_law_def qcpool2_fields ex_pool_dtor_def obj_span_def addr_range_def)
qed

lemma qcpool2_grows:
  "\<exists>p m. cl_qcpool_grow bump_heap qcpool2 2 qcpool1_mem (100, []) = (CL_SUCCESS, p, m, (180, [148, 116]))"
  "\<exists>p m w. cl_qcpool_grow bump_heap qcpool2 2 qcpool1_mem (100, [0, 0]) = (CL_ERROR, p, m, w)"
  by (simp_all add: cl_qcpool_grow_def qcpool2_def initial_pool_def qcpool0_def qcpool_obj_size_def rounded_single ROUNDUP_def
      bump_heap_def cl_malloc_def sizeof_cl_list_item_def cl_qlist_insert_tail_def cl_qlist_insert_head_def grow_loop_2
      qcpool_init_object_def ex_pool_init_def ex_pool_dtor_def Let_def)

lemma bump_live_log: "bump_live (a, l) = bump_live (a, [])" by (simp add: bump_live_def)

lemma bump_block: "fst (os_malloc bump_heap 80 (100, l)) = 100" by (simp add: bump_heap_def)

lemma qcpool2_grown:
  "\<exists>p m. cl_qcpool_grow bump_heap qcpool2 2 qcpool1_mem (100, []) = (CL_SUCCESS, p, m, (180, [148, 116])) \<and>
    pool_rep (bump_live (180, [148, 116])) 8 m p [156, 124] {} [100] \<and> pool_config p = pool_config qcpool2"
proof -
  obtain p m where g: "cl_qcpool_grow bump_heap qcpool2 2 qcpool1_mem (100, []) = (CL_SUCCESS, p, m, (180, [148, 116]))"
    using qcpool2_grows(1) by blast
  have fits: "16 + unat (qcpool_obj_size qcpool2) * growth qcpool2 2 < 2 ^ 64" by (simp add: qcpool2_fields)
  have new: "new_items 116 32 8 2 = [156, 124]" by (simp add: new_items_def numeral_2_eq_2)
  have "pool_rep (bump_live (180, [148, 116])) 8 m p [156, 124] {} [100] \<and> pool_config p = pool_config qcpool2"
    by (rule disjE [OF qcpool_grow [OF bump_law qcpool2_laws(1) qcpool2_rep fits g]]; elim exE conjE)
      (simp_all add: qcpool2_fields bump_block new)
  with g show ?thesis by blast
qed

section \<open>An object list on the concrete heap\<close>

definition list0 :: "(u64, unit, u64 \<times> u64 list) olist" where
  "list0 = \<lparr>li_list = \<lparr>ql_end = 48, ql_count = 0, ql_state = CL_UNINITIALIZED\<rparr>,
    li_pool = \<lparr>qp_qcpool = qcpool0, qp_pfn_init = None, qp_pfn_dtor = None\<rparr>\<rparr>"

lemma list0_header: "list_header (bump_live (100, [])) list0"
  by (simp add: list_header_def list0_def qcpool0_def pool_ends_def bump_live_def)

lemma bump_object_law: "object_law bump_heap"
  by (simp add: object_law_def bump_heap_def clear_links_def)

lemma list0_success: "fst (the (cl_list_init bump_heap list0 2 pool_mem0 (100, []))) = CL_SUCCESS"
  by (simp add: cl_list_init_def cl_qpool_init_def cl_qcpool_init_def list0_def qcpool0_def cl_qcpool_construct_def
      clear_list_end_def bump_heap_def cl_malloc_def sizeof_size_def sizeof_pointer_def sizeof_cl_pool_obj_def
      sizeof_cl_list_item_def ROUNDUP_def cl_qlist_init_def cl_qlist_reset_def cl_qcpool_grow_def
      qcpool_obj_size_def cl_qlist_insert_tail_def grow_loop_2 qcpool_init_object_def Let_def
      cl_qlist_insert_head_def split: prod.split)

lemma list1:
  "\<exists>l m w. cl_list_init bump_heap list0 2 pool_mem0 (100, []) = Some (CL_SUCCESS, l, m, w) \<and>
    olist (bump_live w) m l [] \<and> qc_num_objects (li_qc l) = 2 \<and> qc_grow_size (li_qc l) = 10"
proof -
  from list_init [OF bump_law list0_header, of 2 pool_mem0] obtain st l m w where
    "cl_list_init bump_heap list0 2 pool_mem0 (100, []) = Some (st, l, m, w)"
    "if st = CL_SUCCESS then olist (bump_live w) m l [] \<and> bump_live (100, []) \<subseteq> bump_live w \<and>
       qc_num_objects (li_qc l) = 2 \<and> qc_grow_size (li_qc l) = ucast (list_grow_size 2)
     else \<not> cl_is_list_inited l" by auto
  moreover from this have "st = CL_SUCCESS" using list0_success by simp
  moreover have "list_grow_size 2 = 10"
    by (simp add: list_grow_size_def FREE_ITEM_GROW_SIZE_def drop_bit_eq_div)
  ultimately show ?thesis by auto
qed

text \<open>A list that holds the object \<open>7\<close>.\<close>

lemma list2:
  "\<exists>(l :: (u64, unit, u64 \<times> u64 list) olist) m w it. olist (bump_live w) m l [it] \<and> p_object m it = 7 \<and> room (li_qc l) 3"
proof -
  obtain l m w where l: "olist (bump_live w) m l []" "qc_num_objects (li_qc l) = 2" "qc_grow_size (li_qc l) = 10"
    and "cl_list_init bump_heap list0 2 pool_mem0 (100, []) = Some (CL_SUCCESS, l, m, w)"
    using list1 by blast
  obtain st l' m' w' where run: "cl_list_insert_head bump_heap l 7 m w = (st, l', m', w')" by (metis prod_cases4)
  have "room (li_qc l) (length ([] :: u64 list))" by (simp add: room_def l(3))
  from list_insert_head [OF bump_law bump_object_law l(1) this, of 7] have
    "inserts bump_live l m [] 7 [] (st, l', m', w')" by (simp add: run)
  then obtain it where "olist (bump_live w') m' l' [it]" "p_object m' it = 7"
    "pool_config (li_qc l') = pool_config (li_qc l)"
    using l(2) by (auto simp: inserts_def split: if_split_asm)
  moreover from this(3) have "room (li_qc l') 3" using l(3) by (simp add: room_def pool_config_def)
  ultimately show ?thesis by blast
qed

section \<open>An object map on the concrete heap\<close>

definition map0 :: "(unit, u64 \<times> u64 list) omap" where
  "map0 = \<lparr>mp_qmap = \<lparr>qm_root = 48, qm_nil = 64, qm_state = CL_UNINITIALIZED, qm_count = 0\<rparr>,
    mp_pool = \<lparr>qp_qcpool = qcpool0, qp_pfn_init = None, qp_pfn_dtor = None\<rparr>\<rparr>"

lemma map0_header: "map_header (bump_live (100, [])) map0"
  by (simp add: map_header_def map0_def qcpool0_def pool_ends_def map_ends_def bump_live_def)

lemma bump_map_law: "map_law bump_heap"
proof -
  have "\<not> (p \<le> x \<and> x - p < n)" if "x \<notin> addr_range p (unat n)" for p x :: u64 and n :: size_t
    using that by (auto simp: addr_range_def word_le_nat_alt word_less_nat_alt unat_sub)
  then show ?thesis by (auto simp: map_law_def bump_heap_def clear_links_def agree_on_def)
qed

lemma map0_success: "fst (the (cl_map_init bump_heap map0 2 pool_mem0 (100, []))) = CL_SUCCESS"
  by (simp add: cl_map_init_def cl_qpool_init_def cl_qcpool_init_def map0_def qcpool0_def cl_qcpool_construct_def
      clear_list_end_def bump_heap_def cl_malloc_def sizeof_size_def sizeof_pointer_def sizeof_cl_pool_obj_def
      sizeof_cl_map_obj_def sizeof_cl_list_item_def ROUNDUP_def cl_qlist_init_def cl_qlist_reset_def cl_qcpool_grow_def
      qcpool_obj_size_def cl_qlist_insert_tail_def grow_loop_2 qcpool_init_object_def Let_def
      cl_qlist_insert_head_def split: prod.split)

lemma map1:
  "\<exists>mp m w. omap_rep (bump_live w) m (mp :: (unit, u64 \<times> u64 list) omap) [] \<and> room (mp_qc mp) 3 \<and>
    qc_num_objects (mp_qc mp) = 2"
proof -
  from map_init [OF bump_law bump_map_law map0_header, of 2 pool_mem0] obtain st mp m w where
    run: "cl_map_init bump_heap map0 2 pool_mem0 (100, []) = Some (st, mp, m, w)" and
    res: "if st = CL_SUCCESS
     then omap_rep (bump_live w) m mp [] \<and> bump_live (100, []) \<subseteq> bump_live w \<and> qc_num_objects (mp_qc mp) = ucast (2 :: u32) \<and>
       qc_grow_size (mp_qc mp) = ucast (map_grow_size 2)
     else \<not> cl_is_map_inited mp" by auto
  have "map_grow_size 2 = 32" by (simp add: map_grow_size_def MAP_GROW_SIZE_def drop_bit_eq_div)
  moreover have "st = CL_SUCCESS" using map0_success by (simp add: run)
  ultimately have "omap_rep (bump_live w) m mp [] \<and> room (mp_qc mp) 3 \<and> qc_num_objects (mp_qc mp) = 2"
    using res by (simp add: room_def)
  then show ?thesis by blast
qed

text \<open>A map with one entry, from the key \<open>5\<close> to the object \<open>7\<close>.\<close>

lemma map2_entry:
  "\<exists>mp m w items. omap_rep (bump_live w) m (mp :: (unit, u64 \<times> u64 list) omap) items \<and> room (mp_qc mp) (length items) \<and>
    contents m items = [5 \<mapsto> 7]"
proof -
  obtain mp :: "(unit, u64 \<times> u64 list) omap" and m w where
    one: "omap_rep (bump_live w) m mp []" "room (mp_qc mp) 3" "qc_num_objects (mp_qc mp) = 2" using map1 by blast
  have "room (mp_qc mp) (length ([] :: u64 list))" using one(2) by (simp add: room_def)
  from map_insert [OF bump_law bump_map_law one(1) this, of 5 7] obtain mp' m' w' items' where
    "omap_rep (bump_live w') m' mp' items'" "contents m' items' = [5 \<mapsto> 7]" "length items' = 1"
    "pool_config (mp_qc mp') = pool_config (mp_qc mp)"
    using one(3) by (auto simp: stores_def contents_def split: option.split_asm if_split_asm)
  moreover from this(3,4) one(2) have "room (mp_qc mp') (length items')" by (simp add: room_def pool_config_def)
  ultimately show ?thesis by blast
qed

section \<open>A forwarding database with one entry\<close>

definition ex_heap :: "'w fdb_heap" where
  "ex_heap = \<lparr>os_malloc = (\<lambda>_ w. (0, w)), os_free = (\<lambda>_ w. w), os_memset0 = (\<lambda>_ _ m. m)\<rparr>"

definition ex_record :: "oes_fdb_uc_mac_addr_params \<times> u64 \<times> fdb_uc_mac_entry_type" where
  "ex_record = (ex_params, 9, FDB_UC_AGEABLE)"

definition ex_key :: u64 where
  "ex_key = FDB_UC_CONVERT_MAC_VLAN_TO_KEY (mac_addr ex_params) (vid ex_params)"

lemma ex_caller:
  "vlan_of ex_fdb_mem 0x5000 < MAX_VLAN_ENTRIES" "ex_zone 0x5000 = ZNone"
  "card (ports ex_fdb_mem {0x5000}) + capacity (main_db_pool (ex_fdb :: 'w fdb_state)) \<le> capacity (fdb_fltr_pool (ex_fdb :: 'w fdb_state))"
  "entry_key ex_fdb_mem 0x5000 = ex_key" "record_at ex_fdb_mem 0x5000 = ex_record" "capacity (main_db_pool (ex_fdb :: 'w fdb_state)) = 1"
  by (simp_all add: vlan_of_def ex_fdb_mem_def ex_params_def MAX_VLAN_ENTRIES_def ex_zone_def ports_def ex_fdb_def ex_pool_def
      capacity_def entry_key_def ex_key_def record_at_def ex_record_def)

lemma ex_fdb_one:
  "\<exists>s m e. fdb ex_zone ex_live 24 (s :: 'w fdb_state) m [e] \<and> db_of m [e] = [ex_key \<mapsto> ex_record]"
proof -
  have emp: "db_of ex_fdb_mem [] = Map.empty" by (simp add: db_of_def)
  from fdb_add [OF ex_fdb_ok [where 'a = 'w] _ ex_caller(1,2), of ex_heap undefined] ex_caller(4,5) ex_caller(3,6) [where 'w = 'w] obtain s m es where
    one: "fdb ex_zone ex_live 24 (s :: 'w fdb_state) m es" "db_of m es = [ex_key \<mapsto> ex_record]" by (auto simp: emp)
  have "distinct (map (p_key m) es)" using one(1) qmap_wf_keys unfolding fdb_def entries_def by blast
  moreover have "set (map (p_key m) es) = {ex_key}" using one(2) keyed_dom [of "p_key m" "record_at m" es] by (simp add: db_of_def)
  ultimately have "length es = 1" using distinct_card [of "map (p_key m) es"] by simp
  then obtain e where "es = [e]" by (auto simp: length_Suc_conv)
  with one show ?thesis by blast
qed

section \<open>A learning engine on that database\<close>

definition ex_malloc :: "'w fdb_heap" where
  "ex_malloc = \<lparr>os_malloc = (\<lambda>_ w. (1, w)), os_free = (\<lambda>_ w. w), os_memset0 = (\<lambda>_ _ m. m)\<rparr>"

definition ex_learn :: "'w fdb_state \<Rightarrow> 'w learn_state" where
  "ex_learn d = \<lparr>learn_db = d, ctrl_learn_br_id = 0, is_ctrl_learn_initialized = True, muliple_fdb_notif_enabled = True,
    learn_verbosity = 0, event_info_sim = [], fdb_locked = False, ctrl_learn_notification_cb = None,
    ctrl_learn_init_deinit_cb = None, is_ctrl_learn_start = True, ctrl_learn_stop_signal = False\<rparr>"

definition ex_env :: "'w learn_env" where
  "ex_env = \<lparr>event_init = Pair True, event_destroy = id, event_wait = Pair True, event_signal = id, open_pipe = Pair True,
    close_pipes = id, write_quit = Pair True, write_simulate = Pair True, read_quit = id, read_simulate = id,
    thread_init = Pair True, thread_destroy = id, select_input = Pair None, oes_event_fd_set = (\<lambda>_. Pair OES_STATUS_SUCCESS),
    oes_event_register_set = (\<lambda>_ _. Pair OES_STATUS_SUCCESS), oes_control_learn_set = (\<lambda>_ _. Pair OES_STATUS_SUCCESS),
    oes_event_recv = (\<lambda>w. (OES_STATUS_ERROR, [], 0, w)), oes_flush_set = (\<lambda>_. Pair OES_STATUS_SUCCESS),
    oes_flush_port_set = (\<lambda>_ _. Pair OES_STATUS_SUCCESS), oes_flush_vid_set = (\<lambda>_ _. Pair OES_STATUS_SUCCESS),
    oes_flush_port_vid_set = (\<lambda>_ _ _. Pair OES_STATUS_SUCCESS), OES_FDB_STATIC = 0, OES_FDB_DYNAMIC = 1,
    OES_STATUS_CMD_UNSUPPORTED_code = 2\<rparr>"

definition ex_mac :: fdb_uc_mac_addr_params where
  "ex_mac = \<lparr>mac_addr_params = ex_params, addr_entry_type = FDB_UC_AGEABLE, addr_cookie = 0\<rparr>"

definition ex_other_mac :: fdb_uc_mac_addr_params where
  "ex_other_mac = ex_mac\<lparr>mac_addr_params := ex_params\<lparr>vid := 6\<rparr>\<rparr>"

text \<open>A callback that writes down the cookies it is told to release.\<close>

definition ex_cookie_cb :: "u64 list ctrl_learn_cookie_func" where
  "ex_cookie_cb op c w = (0, c, if op = COOKIE_OP_DEINIT then w @ [c] else w)"

definition ex_notify :: "nat \<Rightarrow> ctrl_learn_fdb_notify_record" where
  "ex_notify _ = \<lparr>event_type = OES_FDB_EVENT_OTHER, fbd_event_type = OES_FDB_EVENT_OTHER, fdb_entry = ex_params,
    decision = CTRL_LEARN_NOTIFY_DECISION_DENY, record_entry_type = FDB_UC_STATIC, record_cookie = 0\<rparr>"

definition ex_event :: "oes_fdb_event_type \<Rightarrow> oes_event_info" where
  "ex_event ty = \<lparr>ev_type = ty, ev_entry = ex_params\<rparr>"

lemma ex_outside: "outside ex_zone 24 0x5000"
  by (simp add: outside_def item_addrs_def ex_offsets ex_zone_def)

lemma ex_heads: "heads_suffice {7} (ex_fdb :: 'w fdb_state) (db_of ex_fdb_mem [])" "db_of ex_fdb_mem [] = Map.empty"
  by (simp_all add: heads_suffice_def db_of_def ex_fdb_def ex_pool_def capacity_def)

lemma ex_params_facts: "unat (vid ex_params) < MAX_VLAN_ENTRIES" "log_port ex_params = 7" "key_of ex_params = ex_key"
  by (simp_all add: ex_params_def MAX_VLAN_ENTRIES_def key_of_def ex_key_def)

lemma ex_other_facts: "unat (vid (mac_addr_params ex_other_mac)) < MAX_VLAN_ENTRIES" "log_port (mac_addr_params ex_other_mac) = 7"
  "key_of (mac_addr_params ex_other_mac) \<noteq> ex_key" "ex_other_mac \<noteq> ex_mac"
  by (simp_all add: ex_other_mac_def ex_mac_def ex_params_def MAX_VLAN_ENTRIES_def key_of_def ex_key_def key_inj)

lemma ex_one_record: "db_of m [e] = [ex_key \<mapsto> ex_record] \<Longrightarrow>
  mac_params m e = ex_params \<and> entry_type m e = FDB_UC_AGEABLE \<and> entry_cookie m e = 9"
  by (simp add: db_of_def keyed_def record_at_def ex_record_def fun_eq_iff split: if_split_asm) metis

text \<open>
  A system in which everything that is sent arrives, at whatever socket, and nothing else ever happens: its state is the
  bytes on their way. A connection attempt stays in progress.
\<close>

definition ex_link_os :: "'w commu_os" where
  "ex_link_os = \<lparr>co_lock = (\<lambda>w. (0, w)), co_unlock = (\<lambda>w. (0, w)), co_listener_lock = (\<lambda>w. (0, w)),
     co_listener_unlock = (\<lambda>w. (0, w)), co_mutex_init = (\<lambda>w. ((0, 0), w)),
     co_mutex_destroy = (\<lambda>w. ((0, 0), w)), co_getpeername = (\<lambda>fd w. ((0, 0), w))\<rparr>"

definition ex_addr :: addr_info where
  "ex_addr = \<lparr>port = 80, ipv4_addr = 1\<rparr>"

definition ex_sys :: "bytes commu_sys" where
  "ex_sys = \<lparr>sys_os = ex_link_os, sys_socket = (\<lambda>k w. (Inr 5, w)), sys_close = (\<lambda>fd w. (0, w)), sys_setsockopt = (\<lambda>fd x w. (0, w)),
     sys_bind = (\<lambda>fd a w. (0, w)), sys_unlink = (\<lambda>p w. w), sys_listen = (\<lambda>fd n w. (0, w)),
     sys_accept = (\<lambda>fd w. (Inr (6, ex_addr), w)), sys_connect = (\<lambda>fd a w. (EINPROGRESS, w)), sys_getfl = (\<lambda>fd w. (Inr 0, w)),
     sys_setfl = (\<lambda>fd b f w. (0, w)), sys_so_error = (\<lambda>fd w. (Inr 0, w)), sys_select = (\<lambda>rd wr t w. ((0, [], [], 0), w)),
     sys_send = (\<lambda>fd d w. (Inr (length d), w @ d)), sys_recv = (\<lambda>fd n w. (Inr (take n w), drop n w)),
     sys_sendto = (\<lambda>fd a d w. (Inr (length d), w @ d)), sys_recvfrom = (\<lambda>fd n w. (Inr (w, ex_addr), [])),
     sys_peer_addr = (\<lambda>fd w. (Inr ex_addr, w)), sys_local_addr = (\<lambda>fd w. (Inr ex_addr, w)), sys_time = (\<lambda>w. (Inr (1, 1), w)),
     sys_srand = (\<lambda>x w. w), sys_rand = (\<lambda>w. (7, w)), sys_mutex_init = (\<lambda>w. ((0, 0), w)), sys_mutex_destroy = (\<lambda>w. (0, w)),
     sys_session_lock = (\<lambda>w. (0, w)), sys_session_unlock = (\<lambda>w. (0, w)), sys_malloc = (\<lambda>w. (True, w)),
     sys_attr_init = (\<lambda>w. (0, w)), sys_attr_detach = (\<lambda>w. (0, w)), sys_attr_destroy = (\<lambda>w. (0, w)),
     sys_thread_create = (\<lambda>t w. (Inr 1, w)), sys_thread_join = (\<lambda>t w. (0, w)), sys_others = (\<lambda>s w. (s, w))\<rparr>"

text \<open>A library with a TCP client handle 7 and a UDP handle 8, both of the message type 3, and one without a free listener.\<close>

definition ex_entry :: "int \<Rightarrow> handle_info" where
  "ex_entry fd = filled_handle_info fd 3 ex_addr ex_addr 1 9 empty_handle_info"

definition ex_lib :: lib_state where
  "ex_lib = \<lparr>lib_db = ex_db\<lparr>client_tcp_handle_info := (client_tcp_handle_info ex_db)[0 := ex_entry 7],
       udp_handle_info := (udp_handle_info ex_db)[0 := ex_entry 8]\<rparr>,
     g_lib_commu_init_done = True, lib_commu_log_cb = 0, client_connect_exit_event_fd = 4, client_connect_thread_cnt = 0,
     lib_commu_verbosity = 3\<rparr>"

definition ex_busy_lib :: lib_state where
  "ex_busy_lib = ex_lib\<lparr>lib_db := (lib_db ex_lib)\<lparr>listener_threads := replicate 16 1\<rparr>\<rparr>"

definition ex_payload_data :: recv_payload_data where
  "ex_payload_data = \<lparr>msg_num_recv = 0, rp_msg_type = replicate MAX_MSGS 0,
     rp_payload = replicate MAX_MSGS (replicate MAX_TCP_PAYLOAD 0), rp_payload_len = replicate MAX_MSGS 0,
     jumbo_payload = replicate MAX_JUMBO_TCP_PAYLOAD 0, jumbo_payload_len = 0, jumbo_msg_type = 0\<rparr>"

definition ex_link :: "bytes link" where
  "ex_link = \<lparr>lk_sender = ex_lib, lk_receiver = ex_lib, lk_world = [], lk_sent = [], lk_got = []\<rparr>"

definition ex_callback :: "bytes register_to_new_handle" where
  "ex_callback = \<lparr>clbk_notify_func = Some (\<lambda>fd a d rc w. (0, w)), clbk_data = 0\<rparr>"

definition ex_connect_args :: "bytes connect_thread_args" where
  "ex_connect_args = \<lparr>ca_client_fd = 5, ca_conn_info = conn_info (ex_entry 5), ca_clbk_st = ex_callback, ca_tval = 10,
     use_tval = True\<rparr>"

text \<open>
  A system for the connecting thread. Its state is the number of times \<^verbatim>\<open>select\<close> is still going to time out, after which
  the socket is ready with the error 111 (connection refused), and the calls of the user's function, with their handles and
  results.
\<close>

definition ex_slow_sys :: "(nat \<times> (int \<times> int) list) commu_sys" where
  "ex_slow_sys = \<lparr>sys_os = ex_link_os, sys_socket = (\<lambda>k w. (Inr 5, w)), sys_close = (\<lambda>fd w. (0, w)), sys_setsockopt = (\<lambda>fd x w. (0, w)),
     sys_bind = (\<lambda>fd a w. (0, w)), sys_unlink = (\<lambda>p w. w), sys_listen = (\<lambda>fd n w. (0, w)),
     sys_accept = (\<lambda>fd w. (Inr (6, ex_addr), w)), sys_connect = (\<lambda>fd a w. (EINPROGRESS, w)), sys_getfl = (\<lambda>fd w. (Inr 0, w)),
     sys_setfl = (\<lambda>fd b f w. (0, w)), sys_so_error = (\<lambda>fd w. (Inr 111, w)),
     sys_select = (\<lambda>rd wr t w. if fst w = 0 then ((0, [], wr, 0), w) else ((0, [], [], 0), (fst w - 1, snd w))),
     sys_send = (\<lambda>fd d w. (Inr (length d), w)), sys_recv = (\<lambda>fd n w. (Inr [], w)),
     sys_sendto = (\<lambda>fd a d w. (Inr (length d), w)), sys_recvfrom = (\<lambda>fd n w. (Inr ([], ex_addr), w)),
     sys_peer_addr = (\<lambda>fd w. (Inr ex_addr, w)), sys_local_addr = (\<lambda>fd w. (Inr ex_addr, w)), sys_time = (\<lambda>w. (Inr (1, 1), w)),
     sys_srand = (\<lambda>x w. w), sys_rand = (\<lambda>w. (7, w)), sys_mutex_init = (\<lambda>w. ((0, 0), w)), sys_mutex_destroy = (\<lambda>w. (0, w)),
     sys_session_lock = (\<lambda>w. (0, w)), sys_session_unlock = (\<lambda>w. (0, w)), sys_malloc = (\<lambda>w. (True, w)),
     sys_attr_init = (\<lambda>w. (0, w)), sys_attr_detach = (\<lambda>w. (0, w)), sys_attr_destroy = (\<lambda>w. (0, w)),
     sys_thread_create = (\<lambda>t w. (Inr 1, w)), sys_thread_join = (\<lambda>t w. (0, w)), sys_others = (\<lambda>s w. (s, w))\<rparr>"

definition ex_told_args :: "(nat \<times> (int \<times> int) list) connect_thread_args" where
  "ex_told_args = \<lparr>ca_client_fd = 5, ca_conn_info = conn_info (ex_entry 5),
     ca_clbk_st = \<lparr>clbk_notify_func = Some (\<lambda>fd a d rc w. (0, (fst w, snd w @ [(fd, rc)]))), clbk_data = 0\<rparr>,
     ca_tval = 10, use_tval = True\<rparr>"

lemma first_idx_head: "xs \<noteq> [] \<Longrightarrow> P x \<Longrightarrow> first_idx P (xs[0 := x]) = Some 0"
  by (cases xs) simp_all

lemma ex_stream: "stream_between ex_sys a b id 5000"
proof -
  have "\<exists>n. take len w = take n w \<and> min 5000 len \<le> n \<and> n \<le> len \<and> drop len w = drop n w" for len and w :: bytes
    by (rule exI [of _ len]) simp
  then show ?thesis by (simp add: stream_between_def ex_sys_def)
qed

lemma ex_datagrams: "sys_sendto ex_sys fd a d w = (Inr (length d), w @ d)" "sys_recvfrom ex_sys fd n w = (Inr (w, ex_addr), [])"
  by (simp_all add: ex_sys_def)

lemma ex_searches: "client_search 7 (lib_db ex_lib) = Some (CLIENT_AT 0)" "udp_search 8 (lib_db ex_lib) = Some (UDP_AT 0)"
  by (simp_all add: client_search_def udp_search_def ex_lib_def ex_db_def ex_entry_def first_idx_head)

lemma ex_lookups: "lib_commu_db_hanlde_info_get 7 ANY_HANLDE_DB (lib_db ex_lib) = Inr (CLIENT_AT 0)"
  "lib_commu_db_hanlde_info_get 8 UDP_HANDLE_DB (lib_db ex_lib) = Inr (UDP_AT 0)"
  by (simp_all add: lib_commu_db_hanlde_info_get_def ex_searches)

lemma ex_handles_now: "handle_at (CLIENT_AT 0) (lib_db ex_lib) = ex_entry 7" "handle_at (UDP_AT 0) (lib_db ex_lib) = ex_entry 8"
  "loc_ok (CLIENT_AT 0) (lib_db ex_lib)" "loc_ok (UDP_AT 0) (lib_db ex_lib)" "g_lib_commu_init_done ex_lib"
  by (simp_all add: ex_lib_def ex_db_def loc_ok_def)

lemma ex_open: "open_handle 7 ex_lib (CLIENT_AT 0)"
  by (simp only: open_handle_def ex_lookups ex_handles_now) (simp add: ex_entry_def)

lemma ex_accepts: "accepts_from 9 3 (ex_entry fd)"
  by (simp add: accepts_from_def ex_entry_def filled_handle_info_def)

lemma ex_link_inv: "link_inv 7 7 id 9 3 ex_link"
proof -
  have "sends_as 7 9 3 ex_lib"
    unfolding sends_as_def handle_now_def using ex_open ex_handles_now(1)
    by (intro exI [of _ "CLIENT_AT 0"]) (simp add: ex_entry_def filled_handle_info_def)
  moreover have "receives_from 7 9 3 ex_lib"
    unfolding receives_from_def handle_now_def using ex_open ex_handles_now(1) ex_accepts
    by (intro exI [of _ "CLIENT_AT 0"]) simp
  moreover have "on_the_way 9 3 [] [] []" by (simp add: on_the_way_def)
  ultimately show ?thesis by (simp add: link_inv_def ex_link_def)
qed

lemma ex_payload_data_ok: "payload_data_ok ex_payload_data"
  by (simp add: payload_data_ok_def ex_payload_data_def)

lemma ex_sys_ok: "sys_ok ex_sys"
  by (simp add: sys_ok_def ex_sys_def ex_link_os_def mutex_works_def INVALID_HANDLE_ID_def)

text \<open>Two timers at the addresses 1 and 2, constructed but not yet initialised, before the provider exists.\<close>

definition ex_constructed :: timers where
  "ex_constructed = \<lparr>gp_timer_prov = None, t_mem = \<lparr>p_next = (\<lambda>_. 0), p_prev = (\<lambda>_. 0), timer_state = (\<lambda>_. CL_TIMER_IDLE),
     tm_state = (\<lambda>_. CL_UNINITIALIZED), tm_callback = (\<lambda>_. 0), tm_context = (\<lambda>_. 0),
     tm_timeout = (\<lambda>_. \<lparr>tv_sec = 0, tv_nsec = 0\<rparr>)\<rparr>\<rparr>"

text \<open>Both timers queued, for the times 10 and 12; the end item of the queue is at the address 100.\<close>

definition ex_queued :: timers where
  "ex_queued = \<lparr>gp_timer_prov = Some \<lparr>tp_thread = 1,
       tp_queue = \<lparr>ql_end = 100, ql_count = 2, ql_state = CL_INITIALIZED\<rparr>, tp_exit = False\<rparr>,
     t_mem = \<lparr>p_next = (\<lambda>p. if p = 100 then 1 else if p = 1 then 2 else 100),
       p_prev = (\<lambda>p. if p = 100 then 2 else if p = 2 then 1 else 100), timer_state = (\<lambda>_. CL_TIMER_QUEUED),
       tm_state = (\<lambda>_. CL_INITIALIZED), tm_callback = (\<lambda>_. 7), tm_context = (\<lambda>_. 0),
       tm_timeout = (\<lambda>p. \<lparr>tv_sec = if p = 1 then 10 else 12, tv_nsec = 0\<rparr>)\<rparr>\<rparr>"

lemma ex_queued_inv: "timers_inv {1, 2} 100 ex_queued [1, 2]"
  by (auto simp: timers_inv_def holds_def qlist_def qlist_at_def in_order_def ex_queued_def valid_time_def cl_timer_is_earlier_def)

text \<open>Initialising a timer, starting it and letting the thread run leads to a thread that waits for the timer.\<close>

lemma ex_waiting:
  "\<exists>s. timer_reach {1, 2} 100 ((10, 0), PROV_TIMEDWAIT 1 \<lparr>tv_sec = 10, tv_nsec = 0\<rparr>, s) \<and>
    tm_state (t_mem s) 1 = CL_INITIALIZED \<and> holds 100 s [1]"
proof -
  let ?ts = "{1, 2} :: u64 set" and ?now = "(10, 0) :: time_of_day"
  have ts: "(1 :: u64) \<in> ?ts" "(100 :: u64) \<notin> ?ts" "card ?ts < 2 ^ 32" "valid_clock ?now" by (simp_all add: valid_clock_def)
  have idle: "\<forall>p\<in>?ts. timer_state (t_mem ex_constructed) p = CL_TIMER_IDLE \<and> tm_state (t_mem ex_constructed) p = CL_UNINITIALIZED"
    by (simp add: ex_constructed_def)
  obtain st s1 where s1: "cl_timer_prov_create (Some 100) (0, 1) id ex_constructed = (st, s1)" by fastforce
  note i1 = created_inv [OF s1 idle]
  have u1: "tm_state (t_mem s1) 1 \<noteq> CL_INITIALIZED"
    using s1 by (auto simp: ex_constructed_def cl_timer_prov_create_def cl_qlist_init_def cl_qlist_reset_def)
  from i1 s1 have r1: "timer_reach ?ts 100 (?now, PROV_WAIT, s1)" by (intro timer_reach.first [OF _ ts(4) idle]) auto
  obtain st2 s2 where s2: "cl_timer_init 1 7 0 s1 = (st2, s2)" by fastforce
  have i2: "timers_inv ?ts 100 s2 []" "tm_state (t_mem s2) 1 = CL_INITIALIZED" "\<not> prov_exit s2"
    using timer_init [OF _ ts(1,2) u1 s2] i1 by auto
  have r2: "timer_reach ?ts 100 (?now, PROV_WAIT, s2)" by (rule timer_reach.later [OF r1 timer_step.init [OF ts(1) u1 s2]])
  from timer_start [OF i2(1) ts(1-3) i2(2) ts(4), of 0] i2 obtain s3 where s3: "cl_timer_start ?now 1 0 s2 = Some (CL_SUCCESS, s3)"
    "timers_inv ?ts 100 s3 [1]" "tm_timeout (t_mem s3) 1 = cl_timer_calculate ?now 0" "tm_state (t_mem s3) 1 = CL_INITIALIZED"
    "\<not> prov_exit s3" by force
  have r3: "timer_reach ?ts 100 (?now, PROV_WAIT, s3)" by (rule timer_reach.later [OF r2 timer_step.start [OF ts(1) i2(2) s3(1)]])
  from timer_reach_inv [OF this ts(2,3)] have "\<And>p. p \<in> ?ts \<Longrightarrow> timer_state (t_mem s3) p \<noteq> CL_TIMER_RUNNING"
    by (auto simp: config_inv_def thread_inv_def)
  from prov_loop_keeps [OF s3(2) ts(3) this] s3(3,5)
  have "cl_timer_prov_cb 0 PROV_WAIT s3 = Some (PROV_TIMEDWAIT 1 \<lparr>tv_sec = 10, tv_nsec = 0\<rparr>, s3)"
    by (simp add: cl_timer_prov_cb_def cl_timer_calculate_def timeradd_def)
  then have "timer_step ?ts (?now, PROV_WAIT, s3) (?now, PROV_TIMEDWAIT 1 \<lparr>tv_sec = 10, tv_nsec = 0\<rparr>, s3)"
    by (intro timer_step.thread [where ret = 0]) (simp_all add: wait_result_def)
  from timer_reach.later [OF r3 this] s3 show ?thesis by (auto simp: timers_inv_def)
qed

text \<open>A channel on which everything that is sent arrives, three bytes at a time.\<close>

definition ex_pipe :: "bytes chnl_sys" where
  "ex_pipe = \<lparr>cs_socket = (\<lambda>w. (5, w)), cs_unlink = (\<lambda>p w. w), cs_bind = (\<lambda>fd p w. (0, w)), cs_listen = (\<lambda>fd n w. (0, w)),
     cs_connect = (\<lambda>fd p w. (0, w)), cs_accept = (\<lambda>fd w. (6, w)), cs_close = (\<lambda>fd w. w), cs_getpid = (\<lambda>w. 9),
     cs_send = (\<lambda>fd d w. (int (length d), w @ d)), cs_recv = (\<lambda>fd n w. (Some (take (min n 3) w), drop (min n 3) w))\<rparr>"

lemma ex_pipe_laws: "delivers ex_pipe fd id" "accepts ex_pipe fd id"
proof -
  show "delivers ex_pipe fd id"
    unfolding delivers_def
  proof (intro allI impI)
    fix n :: nat and w :: bytes
    assume "0 < n" "id w \<noteq> []"
    then show "\<exists>k w'. 0 < k \<and> k \<le> n \<and> k \<le> length (id w) \<and> cs_recv ex_pipe fd n w = (Some (take k (id w)), w') \<and> id w' = drop k (id w)"
      by (intro exI [of _ "min (min n 3) (length w)"] exI [of _ "drop (min n 3) w"]) (auto simp: ex_pipe_def min_def)
  qed
qed (auto simp: accepts_def ex_pipe_def)

definition ex_channel :: cl_commchnl_t where
  "ex_channel = \<lparr>ch_socket = 5, ch_side = CL_COMMCHNL_SIDE_CLIENT, ch_state = CL_INITIALIZED, ch_pid = 9\<rparr>"

definition ex_head :: "u32 \<Rightarrow> sx_rpc_api_command_head_t" where
  "ex_head len = \<lparr>hd_opcode = 7, hd_version = 1, hd_msg_size = len, hd_list_size = 0, hd_pid = 9\<rparr>"

text \<open>A system with ten blocks of memory, from the address 100 on, and a server with an empty table of commands.\<close>

definition ex_rpc_sys :: "nat rpc_sys" where
  "ex_rpc_sys = \<lparr>rs_chnl = \<lparr>cs_socket = (\<lambda>w. (5, w)), cs_unlink = (\<lambda>p w. w), cs_bind = (\<lambda>fd p w. (0, w)),
       cs_listen = (\<lambda>fd n w. (0, w)), cs_connect = (\<lambda>fd p w. (0, w)), cs_accept = (\<lambda>fd w. (6, w)), cs_close = (\<lambda>fd w. w),
       cs_getpid = (\<lambda>w. 9), cs_send = (\<lambda>fd d w. (int (length d), w)), cs_recv = (\<lambda>fd n w. (None, w))\<rparr>,
     rs_malloc = (\<lambda>n w. if w < 10 then (100 + of_nat w, Suc w) else (0, w)),
     rs_malloc_bytes = (\<lambda>n w. (Some (replicate (unat n) 0), w)), rs_free = (\<lambda>p w. w), rs_plock_init = (\<lambda>w. (CL_SUCCESS, w)),
     rs_event_init = (\<lambda>w. (CL_SUCCESS, w)), rs_event_signal = (\<lambda>w. w), rs_spinlock_init = (\<lambda>w. (CL_SUCCESS, w)),
     rs_spinlock_destroy = (\<lambda>w. w), rs_thread_init = (\<lambda>w. (CL_SUCCESS, w)), rs_select = (\<lambda>n i e w. ((0, [], []), w)),
     rs_stack = ex_channel\<rparr>"

definition ex_rpc_live :: "nat \<Rightarrow> u64 set" where
  "ex_rpc_live w = {1, 2} \<union> (\<lambda>i. 100 + of_nat i) ` {..<min w 10}"

lemma ex_address: "i < 10 \<Longrightarrow> unat (100 + of_nat i :: u64) = 100 + i"
  by (simp add: unat_of_nat64 unat_word_ariths)

lemma ex_fresh_blocks: "fresh_blocks ex_rpc_sys ex_rpc_live (\<lambda>w. 10 - w)"
proof -
  have "(100 + of_nat w :: u64) \<noteq> 0" "100 + of_nat w \<notin> ex_rpc_live w" "insert (100 + of_nat w) (ex_rpc_live w) \<subseteq> ex_rpc_live (Suc w)" if "w < 10" for w
  proof -
    have a: "(100 + of_nat w :: u64) \<noteq> x" if "unat x < 100" for x using ex_address [OF \<open>w < 10\<close>] that by auto
    have b: "(100 + of_nat w :: u64) \<noteq> 100 + of_nat i" if "i < w" for i
      using ex_address [OF \<open>w < 10\<close>] ex_address [of i] that \<open>w < 10\<close> by (metis add_left_cancel less_irrefl less_trans)
    show "(100 + of_nat w :: u64) \<noteq> 0" using a [of 0] by simp
    show "100 + of_nat w \<notin> ex_rpc_live w" using a [of 1] a [of 2] b by (auto simp: ex_rpc_live_def)
    show "insert (100 + of_nat w) (ex_rpc_live w) \<subseteq> ex_rpc_live (Suc w)" using \<open>w < 10\<close> by (auto simp: ex_rpc_live_def)
  qed
  then show ?thesis by (auto simp: fresh_blocks_def ex_rpc_sys_def split: if_splits)
qed

definition ex_command :: "int \<Rightarrow> sx_rpc_cmd_priority_t \<Rightarrow> nat sx_rpc_api_command_t" where
  "ex_command k prio = \<lparr>cmd_id = k, cmd_name = [], cmd_func = (\<lambda>b n w. (0, Some [], 0, w)), cmd_priority = prio\<rparr>"

definition ex_server :: "prio_buf_context list \<Rightarrow> nat rpc_state" where
  "ex_server bufs = \<lparr>rpc_high_prio_event_srcs = [], rpc_med_low_prio_event_buffer = [], rpc_fds_in = [], rpc_fds_err = [],
     rpc_max_fd = 0, rpc_td_worker = \<lparr>wk_active = True, wk_prio_buf = bufs, worker_exit_signal_issued = False\<rparr>,
     rpc_sx_core_versions = replicate 60 0, rpc_max_buffer_size = 64, main_exit_signal_issued = False,
     cmd_map = \<lparr>qm_root = 1, qm_nil = 2, qm_state = CL_UNINITIALIZED, qm_count = 0\<rparr>,
     cmd_mem = \<lparr>p_next = (\<lambda>_. 0), p_prev = (\<lambda>_. 0), p_left = (\<lambda>_. 0), p_right = (\<lambda>_. 0), p_up = (\<lambda>_. 0),
       color = (\<lambda>_. CL_MAP_RED), p_key = (\<lambda>_. 0), cm_cmd = (\<lambda>_. ex_command 0 SX_RPC_API_CMD_PRIO_LOW)\<rparr>\<rparr>"

text \<open>A server whose queue of the highest priority has three slots, and three sources that have asked to be closed.\<close>

definition ex_ring :: prio_buf_context where
  "ex_ring = \<lparr>work_queue = replicate 3 NULL_SRC, work_queue_cons = 2, work_queue_prod = 2, work_queue_size = 3\<rparr>"

definition ex_source :: sx_rpc_core_td_event_src_t where
  "ex_source = \<lparr>es_desc = [], es_state = SX_RPC_EVENT_SRC_STATE_ACTIVE,
     es_buffer = command_head_bytes ((ex_head 20)\<lparr>hd_opcode := SX_RPC_API_CMD_CLOSE_EVENT_SRC\<rparr>), es_pos = 0,
     es_commchnl = ex_channel, es_handler = SX_RPC_CLIENT_HANDLER, es_sender_pid = 0\<rparr>"

definition ex_busy_server :: "nat rpc_state" where
  "ex_busy_server = (ex_server (replicate 3 ex_ring))\<lparr>rpc_high_prio_event_srcs := replicate 3 ex_source\<rparr>"

section \<open>Properties of the flexi map\<close>

text \<open>C1: Inserting an item under a key the map does not hold returns the item, increments the
  count, and leaves a well-formed map (a red-black tree threaded in key order) that holds the
  old items in their order with the new one among them; nothing outside the map changes, and
  only the new item's key is written. Inserting under a key the map already holds returns the item
  that holds it and leaves the map and its count as they were; the only thing written is the
  rejected item itself.\<close>

theorem fmap_insert_adds:
  assumes "fmap_wf f m xs" "fmap_compare (fm_pfn_compare f)" "x \<notin> fmap_area f xs"
  shows "if \<forall>y\<in>set xs. fm_pfn_compare f key (p_key m y) \<noteq> 0
    then \<exists>m' ys zs. cl_fmap_insert f key x m = Some (x, f\<lparr>fm_count := fm_count f + 1\<rparr>, m') \<and>
      xs = ys @ zs \<and> fmap_wf (f\<lparr>fm_count := fm_count f + 1\<rparr>) m' (ys @ x # zs) \<and>
      p_key m' = (p_key m)(x := key) \<and> same_outside (fmap_area f (x # xs)) m m'
    else \<exists>y m'. y \<in> set xs \<and> fm_pfn_compare f key (p_key m y) = 0 \<and>
      cl_fmap_insert f key x m = Some (y, f, m') \<and> fmap_wf f m' xs \<and> same_outside {x} m m'"
proof (cases "\<forall>y\<in>set xs. fm_pfn_compare f key (p_key m y) \<noteq> 0")
  case True
  then show ?thesis using fmap_insert_new [OF assms True] by auto
next
  case False
  then obtain y where "y \<in> set xs" "fm_pfn_compare f key (p_key m y) = 0" by blast
  with fmap_insert_duplicate [OF assms this] False show ?thesis by (auto intro!: exI [of _ y])
qed

theorem fmap_insert_adds_witness:
  "(\<exists>m' ys zs. cl_fmap_insert ex_fmap 15 4 ex_mem = Some (4, ex_fmap\<lparr>fm_count := fm_count ex_fmap + 1\<rparr>, m') \<and>
    [2, 3] = ys @ zs \<and> fmap_wf (ex_fmap\<lparr>fm_count := fm_count ex_fmap + 1\<rparr>) m' (ys @ 4 # zs) \<and>
    p_key m' = (p_key ex_mem)(4 := 15) \<and> same_outside (fmap_area ex_fmap (4 # [2, 3])) ex_mem m') \<and>
   (\<exists>m'. cl_fmap_insert ex_fmap 20 4 ex_mem = Some (3, ex_fmap, m') \<and> fmap_wf ex_fmap m' [2, 3] \<and> same_outside {4} ex_mem m')"
proof -
  have ok: "fmap_compare (fm_pfn_compare ex_fmap)" "4 \<notin> fmap_area ex_fmap [2, 3]"
    by (simp_all add: ex_fmap_def ex_compare fmap_area_def)
  show ?thesis
    using fmap_insert_adds [OF ex_fmap_wf ok, of 15] fmap_insert_adds [OF ex_fmap_wf ok, of 20]
    by (auto simp: ex_fmap_def ex_mem_def)
qed

text \<open>C2: Removing an item of the map returns, decrements the count and leaves a well-formed map
  (balanced, threaded, in key order) of the other items in their order; keys are not written and
  nothing outside the map changes.\<close>

theorem fmap_remove_item_removes:
  assumes "fmap_wf f m xs" "x \<in> set xs"
  shows "\<exists>m'. cl_fmap_remove_item f x m = Some (f\<lparr>fm_count := fm_count f - 1\<rparr>, m') \<and>
    fmap_wf (f\<lparr>fm_count := fm_count f - 1\<rparr>) m' (remove1 x xs) \<and> p_key m' = p_key m \<and>
    same_outside (fmap_area f xs) m m'"
  by (rule fmap_remove_item_wf [OF assms])

theorem fmap_remove_item_removes_witness:
  "\<exists>m'. cl_fmap_remove_item ex_fmap 2 ex_mem = Some (ex_fmap\<lparr>fm_count := fm_count ex_fmap - 1\<rparr>, m') \<and>
    fmap_wf (ex_fmap\<lparr>fm_count := fm_count ex_fmap - 1\<rparr>) m' (remove1 2 [2, 3]) \<and>
    p_key m' = p_key ex_mem \<and> same_outside (fmap_area ex_fmap [2, 3]) ex_mem m'"
  by (rule fmap_remove_item_removes [OF ex_fmap_wf]) simp

text \<open>C3: A lookup always ends and returns the item whose key compares equal to the key asked
  for, or the end marker when there is none. \<^verbatim>\<open>cl_fmap_get_next\<close> always ends and returns the item
  with the smallest key above the key asked for (whether or not that key is in the map), or the
  end marker.\<close>

theorem fmap_get_finds:
  assumes "fmap_wf f m xs" "fmap_compare (fm_pfn_compare f)"
  shows "(\<exists>r. cl_fmap_get f key m = Some r \<and>
    (if \<exists>x\<in>set xs. fm_pfn_compare f key (p_key m x) = 0
     then r \<in> set xs \<and> fm_pfn_compare f key (p_key m r) = 0 else r = cl_fmap_end f)) \<and>
    cl_fmap_get_next f key m =
      Some (hd (dropWhile (\<lambda>x. \<not> fm_pfn_compare f key (p_key m x) < 0) xs @ [cl_fmap_end f]))"
proof (rule conjI)
  show "\<exists>r. cl_fmap_get f key m = Some r \<and>
    (if \<exists>x\<in>set xs. fm_pfn_compare f key (p_key m x) = 0
     then r \<in> set xs \<and> fm_pfn_compare f key (p_key m r) = 0 else r = cl_fmap_end f)"
    using fmap_get_correct [OF assms, of key]
    by (cases "find (\<lambda>x. fm_pfn_compare f key (p_key m x) = 0) xs")
      (auto simp: find_None_iff find_Some_iff cl_fmap_end_def)
  have "(case find P ys of Some x \<Rightarrow> x | None \<Rightarrow> e) = hd (dropWhile (\<lambda>x. \<not> P x) ys @ [e])" for P ys e
    by (induction ys) auto
  then show "cl_fmap_get_next f key m =
      Some (hd (dropWhile (\<lambda>x. \<not> fm_pfn_compare f key (p_key m x) < 0) xs @ [cl_fmap_end f]))"
    using fmap_get_next_correct [OF assms, of key] by (simp add: cl_fmap_end_def)
qed

theorem fmap_get_finds_witness:
  "cl_fmap_get ex_fmap 20 ex_mem = Some 3 \<and> cl_fmap_get_next ex_fmap 10 ex_mem = Some 3"
proof -
  have ok: "fmap_compare (fm_pfn_compare ex_fmap)" by (simp add: ex_fmap_def ex_compare)
  show ?thesis
    using fmap_get_finds [OF ex_fmap_wf ok, of 20] fmap_get_finds [OF ex_fmap_wf ok, of 10]
    by (auto simp: ex_fmap_def ex_mem_def)
qed

text \<open>\<^verbatim>\<open>cl_fmap_match\<close> with a comparison of the caller's own returns an item that matches
  whenever there is one, provided the caller's comparison only decreases in sign along the
  map's order; otherwise it returns the end marker. It always ends.\<close>

theorem fmap_match_finds:
  assumes "fmap_wf f m xs"
    and "sorted_wrt (\<lambda>x y. sgn (pfn key (p_key m y)) \<le> sgn (pfn key (p_key m x))) xs"
  shows "\<exists>r. cl_fmap_match f key (Some pfn) m = Some r \<and>
    (if \<exists>x\<in>set xs. pfn key (p_key m x) = 0
     then r \<in> set xs \<and> pfn key (p_key m r) = 0 else r = cl_fmap_end f)"
  using fmap_match_correct [OF assms(1), where pfn = "Some pfn" and key = key] assms(2)
  by (simp only: chosen_compare_def match_result_def cl_fmap_end_def option.case)

theorem fmap_match_finds_witness:
  "\<exists>r. cl_fmap_match ex_fmap 25 (Some (\<lambda>a b. a div 10 - b div 10)) ex_mem = Some r \<and>
    (if \<exists>x\<in>set [2, 3]. (25 :: int) div 10 - p_key ex_mem x div 10 = 0
     then r \<in> set [2, 3] \<and> (25 :: int) div 10 - p_key ex_mem r div 10 = 0 else r = cl_fmap_end ex_fmap)"
  by (rule fmap_match_finds [OF ex_fmap_wf, where pfn = "\<lambda>a b. a div 10 - b div 10"])
    (simp add: ex_mem_def)

text \<open>Removal by key returns the end marker and changes nothing when no item has the key;
  otherwise it returns the item that has it and leaves a well-formed map of the others.\<close>

theorem fmap_remove_by_key:
  assumes "fmap_wf f m xs" "fmap_compare (fm_pfn_compare f)"
  shows "if \<exists>x\<in>set xs. fm_pfn_compare f key (p_key m x) = 0
    then \<exists>x m'. x \<in> set xs \<and> fm_pfn_compare f key (p_key m x) = 0 \<and>
      cl_fmap_remove f key m = Some (x, f\<lparr>fm_count := fm_count f - 1\<rparr>, m') \<and>
      fmap_wf (f\<lparr>fm_count := fm_count f - 1\<rparr>) m' (remove1 x xs) \<and>
      same_outside (fmap_area f xs) m m'
    else cl_fmap_remove f key m = Some (cl_fmap_end f, f, m)"
proof (cases "\<exists>x\<in>set xs. fm_pfn_compare f key (p_key m x) = 0")
  case True
  then obtain x where x: "x \<in> set xs" "fm_pfn_compare f key (p_key m x) = 0" by blast
  from fmap_remove_present [OF assms x] x True show ?thesis by auto
next
  case False
  with fmap_remove_absent [OF assms, of key] show ?thesis by (auto simp: cl_fmap_end_def)
qed

theorem fmap_remove_by_key_witness:
  "\<exists>m'. cl_fmap_remove ex_fmap 10 ex_mem = Some (2, ex_fmap\<lparr>fm_count := fm_count ex_fmap - 1\<rparr>, m') \<and>
    fmap_wf (ex_fmap\<lparr>fm_count := fm_count ex_fmap - 1\<rparr>) m' (remove1 2 [2, 3])"
  using fmap_remove_by_key [OF ex_fmap_wf, of 10] ex_compare
  by (auto simp: ex_fmap_def ex_mem_def split: if_splits)

text \<open>C4: Merging ends and moves into the destination exactly the source items whose keys the
  destination does not hold; the others stay in the source, in order. Both maps stay
  well-formed and disjoint, and no key is written.\<close>

theorem fmap_merge_moves:
  assumes "two_maps dest ds src ss m"
  shows "\<exists>dest' ds' src' m'. cl_fmap_merge dest src m = Some (dest', src', m') \<and>
    two_maps dest' ds' src' (filter (key_in dest m ds) ss) m' \<and>
    set ds' = set ds \<union> {x \<in> set ss. \<not> key_in dest m ds x} \<and> p_key m' = p_key m"
  using fmap_merge_correct [OF assms] by simp

theorem fmap_merge_moves_witness:
  "\<exists>dest' ds' src' m'. cl_fmap_merge ex_fmap ex_fmap2 ex_mem2 = Some (dest', src', m') \<and>
    two_maps dest' ds' src' (filter (key_in ex_fmap ex_mem2 [2, 3]) [12]) m' \<and>
    set ds' = set [2, 3] \<union> {x \<in> set [12]. \<not> key_in ex_fmap ex_mem2 [2, 3] x} \<and>
    p_key m' = p_key ex_mem2"
  by (rule fmap_merge_moves [OF ex_two_maps])

text \<open>C5: Lookup, the search for the next greater key and insertion call the compare callback at
  most twice the binary logarithm of \<open>n + 1\<close> times on a well-formed map of \<open>n\<close> items. The number of
  calls is read off the code's own search loops with a counter of the calls: without the counter
  the three operations are the code's, and they end with the code's results. After the insertion
  the map is well-formed again, of \<open>n\<close> or \<open>n + 1\<close> items, so the bound holds for the next call.\<close>

theorem fmap_logarithmic:
  assumes "fmap_wf f m xs" "fmap_compare (fm_pfn_compare f)" "x \<notin> fmap_area f xs"
  shows "(\<exists>r n. T_cl_fmap_get f key m = Some (r, n) \<and> cl_fmap_get f key m = Some r \<and>
      2 ^ n \<le> (length xs + 1) ^ 2) \<and>
    (\<exists>r n. T_cl_fmap_get_next f key m = Some (r, n) \<and> cl_fmap_get_next f key m = Some r \<and>
      2 ^ n \<le> (length xs + 1) ^ 2) \<and>
    (\<exists>r f' m' xs' n. T_cl_fmap_insert f key x m = Some ((r, f', m'), n) \<and>
      cl_fmap_insert f key x m = Some (r, f', m') \<and> 2 ^ n \<le> (length xs + 1) ^ 2 \<and>
      fmap_wf f' m' xs' \<and> length xs' \<le> length xs + 1)"
proof (intro conjI)
  show "\<exists>r n. T_cl_fmap_get f key m = Some (r, n) \<and> cl_fmap_get f key m = Some r \<and>
      2 ^ n \<le> (length xs + 1) ^ 2"
    using get_comparisons [OF assms(1), of key] get_cost [of f key m] by fastforce
  show "\<exists>r n. T_cl_fmap_get_next f key m = Some (r, n) \<and> cl_fmap_get_next f key m = Some r \<and>
      2 ^ n \<le> (length xs + 1) ^ 2"
    using get_next_comparisons [OF assms(1), of key] get_next_cost [of f key m] by fastforce
  obtain r f' m' xs' where ins: "cl_fmap_insert f key x m = Some (r, f', m')" "fmap_wf f' m' xs'"
    "length xs' \<le> length xs + 1"
  proof (cases "\<exists>y\<in>set xs. fm_pfn_compare f key (p_key m y) = 0")
    case True
    then show ?thesis using fmap_insert_duplicate [OF assms, of _ key] that by fastforce
  next
    case False
    then show ?thesis using fmap_insert_new [OF assms, of key] that by fastforce
  qed
  have "map_option fst (T_cl_fmap_insert f key x m) = Some (r, f', m')" unfolding insert_cost by (rule ins(1))
  then obtain n where n: "T_cl_fmap_insert f key x m = Some ((r, f', m'), n)"
    unfolding map_option_eq_Some by (metis prod.collapse)
  with ins insert_comparisons [OF assms(1,3) n]
  show "\<exists>r f' m' xs' n. T_cl_fmap_insert f key x m = Some ((r, f', m'), n) \<and>
      cl_fmap_insert f key x m = Some (r, f', m') \<and> 2 ^ n \<le> (length xs + 1) ^ 2 \<and>
      fmap_wf f' m' xs' \<and> length xs' \<le> length xs + 1" by blast
qed

theorem fmap_logarithmic_witness:
  "(\<exists>n. T_cl_fmap_get ex_fmap 20 ex_mem = Some (3, n) \<and> cl_fmap_get ex_fmap 20 ex_mem = Some 3 \<and>
      2 ^ n \<le> (9::nat)) \<and>
    (\<exists>r f' m' xs' n. T_cl_fmap_insert ex_fmap 30 12 ex_mem = Some ((r, f', m'), n) \<and>
      cl_fmap_insert ex_fmap 30 12 ex_mem = Some (r, f', m') \<and> 2 ^ n \<le> (9::nat) \<and>
      fmap_wf f' m' xs' \<and> length xs' \<le> 3)"
proof -
  have ok: "fmap_compare (fm_pfn_compare ex_fmap)" "12 \<notin> fmap_area ex_fmap [2, 3]"
    by (simp_all add: ex_fmap_def ex_compare fmap_area_def)
  have three: "cl_fmap_get ex_fmap 20 ex_mem = Some 3"
    using fmap_get_correct [OF ex_fmap_wf, of 20] ok(1) by (auto simp: ex_fmap_def ex_mem_def)
  have nine: "length [2, 3 :: nat] + 1 = 3" "(3 :: nat) ^ 2 = 9" by (simp_all add: power2_eq_square)
  note found = fmap_logarithmic [OF ex_fmap_wf ok, of 20, unfolded nine] and new = fmap_logarithmic [OF ex_fmap_wf ok, of 30, unfolded nine]
  from conjunct1 [OF found] three have "\<exists>n. T_cl_fmap_get ex_fmap 20 ex_mem = Some (3, n) \<and> cl_fmap_get ex_fmap 20 ex_mem = Some 3 \<and> 2 ^ n \<le> (9::nat)"
    by auto
  with conjunct2 [OF conjunct2 [OF new]] show ?thesis by blast
qed

section \<open>Properties of the quick map\<close>

text \<open>C6: From initialisation on, every legal sequence of lookups, insertions and removals on a
  quick map returns, operation by operation, what a partial function from keys to items
  would, and the count is its size (modulo \<open>2 ^ 32\<close>).\<close>

theorem qmap_refines_partial_map:
  assumes "qm_root q \<noteq> qm_nil q" "cl_qmap_init p_null q m = (q1, m1)"
    and "legal_ops {qm_root q, qm_nil q} (qm_nil q) ops (\<lambda>_. None)"
  shows "\<exists>rs q' m' M'. run_ops cl_qmap_get cl_qmap_insert cl_qmap_remove ops q1 m1 = Some (rs, q', m') \<and>
    spec_ops (qm_nil q) ops (\<lambda>_. None) = (rs, M') \<and> qmap_rep q' m' M' \<and>
    cl_qmap_count q' = of_nat (card (ran M'))"
  using qmap.ops_refine [of q1 m1 "\<lambda>_. None" ops] qmap_rep_init [OF assms(1,2)] assms(3) by simp

theorem qmap_refines_partial_map_witness:
  "\<exists>rs q' m' M'. run_ops cl_qmap_get cl_qmap_insert cl_qmap_remove
      [Insert 5 2, Insert 7 3, Insert 5 4, Get 7, Remove 5, Get 5, Insert 5 2]
      (fst (cl_qmap_init 0 ex_qmap ex_mem)) (snd (cl_qmap_init 0 ex_qmap ex_mem)) = Some (rs, q', m') \<and>
    spec_ops (qm_nil ex_qmap)
      [Insert 5 2, Insert 7 3, Insert 5 4, Get 7, Remove 5, Get 5, Insert 5 2] (\<lambda>_. None) = (rs, M') \<and>
    qmap_rep q' m' M' \<and> cl_qmap_count q' = of_nat (card (ran M'))"
  by (rule qmap_refines_partial_map [where p_null = 0 and m = ex_mem])
    (simp_all add: ex_qmap_def ran_def)

text \<open>C7: The quick map, whose loops compare 64-bit keys directly, is operation for operation the
  flexi map with the comparison of 64-bit keys: same items returned, same memory, same
  termination, on every state, well-formed or not.\<close>

theorem qmap_equals_fmap:
  "cl_fmap_get (as_fmap q) key m = cl_qmap_get q key m \<and>
   cl_fmap_get_next (as_fmap q) key m = cl_qmap_get_next q key m \<and>
   cl_fmap_insert (as_fmap q) key x m = as_fmap_ret (cl_qmap_insert q key x m) \<and>
   cl_fmap_remove_item (as_fmap q) x m = map_option (map_prod as_fmap id) (cl_qmap_remove_item q x m) \<and>
   cl_fmap_remove (as_fmap q) key m = as_fmap_ret (cl_qmap_remove q key m) \<and>
   cl_fmap_apply_func (as_fmap q) pfn m = cl_qmap_apply_func q pfn m \<and>
   cl_fmap_merge (as_fmap q) (as_fmap r) m = as_fmap_two (cl_qmap_merge q r m)"
  by simp

section \<open>Properties of the quick list\<close>

text \<open>The four insertions put a new item at the head, at the tail, before and after a given
  item of the list, and the list stays a well-formed ring with the right count.\<close>

theorem qlist_insertions:
  assumes "qlist m l (xs @ y # ys)" "x \<notin> set (xs @ y # ys)" "x \<noteq> ql_end l"
  shows "(case cl_qlist_insert_head l x m of (l', m') \<Rightarrow> qlist m' l' (x # xs @ y # ys)) \<and>
    (case cl_qlist_insert_tail l x m of (l', m') \<Rightarrow> qlist m' l' (xs @ y # ys @ [x])) \<and>
    (case cl_qlist_insert_prev l y x m of (l', m') \<Rightarrow> qlist m' l' (xs @ x # y # ys)) \<and>
    (case cl_qlist_insert_next l y x m of (l', m') \<Rightarrow> qlist m' l' (xs @ y # x # ys))"
  using qlist_insert_head [OF assms] qlist_insert_tail [OF assms]
    qlist_insert_prev [OF assms] qlist_insert_next [OF assms] by auto

theorem qlist_insertions_witness:
  "(case cl_qlist_insert_head ex_list 4 ex_links of (l', m') \<Rightarrow> qlist m' l' (4 # [1] @ 2 # [3])) \<and>
    (case cl_qlist_insert_tail ex_list 4 ex_links of (l', m') \<Rightarrow> qlist m' l' ([1] @ 2 # [3] @ [4])) \<and>
    (case cl_qlist_insert_prev ex_list 2 4 ex_links of (l', m') \<Rightarrow> qlist m' l' ([1] @ 4 # 2 # [3])) \<and>
    (case cl_qlist_insert_next ex_list 2 4 ex_links of (l', m') \<Rightarrow> qlist m' l' ([1] @ 2 # 4 # [3]))"
  using qlist_insertions [of ex_links ex_list "[1]" 2 "[3]" 4] ex_qlist
  by (simp only: append.simps) (simp add: ex_list_def)

text \<open>The removals return and unlink the item at the head, at the tail or the one given (the
  end marker and no change on an empty list), and keep the others in order.\<close>

theorem qlist_removals:
  assumes "qlist m l xs"
  shows "(case cl_qlist_remove_head l m of (x, l', m') \<Rightarrow> x = hd (xs @ [cl_qlist_end l]) \<and> qlist m' l' (tl xs)) \<and>
    (case cl_qlist_remove_tail l m of (x, l', m') \<Rightarrow> x = last (cl_qlist_end l # xs) \<and> qlist m' l' (butlast xs)) \<and>
    (case cl_qlist_remove_all l m of (l', m') \<Rightarrow> qlist m' l' []) \<and>
    (\<forall>x\<in>set xs. case cl_qlist_remove_item l x m of (l', m') \<Rightarrow> qlist m' l' (remove1 x xs))"
  using qlist_remove_head [OF assms] qlist_remove_tail [OF assms] qlist_remove_all [OF assms]
    qlist_remove_item [OF assms] by (auto simp: cl_qlist_end_def)

theorem qlist_removals_witness:
  "case cl_qlist_remove_item ex_list 2 ex_links of (l', m') \<Rightarrow> qlist m' l' [1, 3]"
  using qlist_removals [OF ex_qlist] by simp

text \<open>C8: Moving a whole list to the head or the tail of another one keeps the order of both and
  leaves the source empty, for sources of fewer than \<open>2 ^ 32\<close> items. \<^verbatim>\<open>cl_qlist_move_items\<close> ends and
  moves the items the callback accepts to the tail of the destination, both lists keeping their
  order.\<close>

theorem qlist_moves:
  assumes "qlist m src xs" "qlist m dest ys" "apart src xs dest ys" "length xs < 2 ^ 32"
  shows "(case cl_qlist_insert_list_head dest src m of (dest', src', m') \<Rightarrow>
      qlist m' dest' (xs @ ys) \<and> qlist m' src' []) \<and>
    (case cl_qlist_insert_list_tail dest src m of (dest', src', m') \<Rightarrow>
      qlist m' dest' (ys @ xs) \<and> qlist m' src' []) \<and>
    (\<exists>src' dest' m'. cl_qlist_move_items src dest f c m = Some (src', dest', m') \<and>
      qlist m' src' (filter (\<lambda>x. f x c \<noteq> CL_SUCCESS) xs) \<and>
      qlist m' dest' (ys @ filter (\<lambda>x. f x c = CL_SUCCESS) xs))"
  using qlist_insert_list_head [OF assms] qlist_insert_list_tail [OF assms] qlist_move_items [OF assms(1-3)] by auto

theorem qlist_moves_witness:
  "(case cl_qlist_insert_list_head ex_list2 ex_list ex_links of (dest', src', m') \<Rightarrow>
      qlist m' dest' ([1, 2, 3] @ [11]) \<and> qlist m' src' []) \<and>
    (\<exists>src' dest' m'. cl_qlist_move_items ex_list ex_list2 (\<lambda>x c. if x = c then CL_SUCCESS else CL_NOT_FOUND) 2
      ex_links = Some (src', dest', m') \<and> qlist m' src' [1, 3] \<and> qlist m' dest' [11, 2])"
proof -
  have ap: "apart ex_list [1, 2, 3] ex_list2 [11]" "length [1 :: nat, 2, 3] < 2 ^ 32"
    by (simp_all add: apart_def ex_list_def ex_list2_def)
  show ?thesis
    using qlist_moves [OF ex_qlist ex_qlist2 ap, of "\<lambda>x c. if x = c then CL_SUCCESS else CL_NOT_FOUND" 2] by simp
qed

text \<open>The searches end and return the first accepted item after (before) the given one, in
  list order, or the end marker; the whole-list searches start at the head (tail).\<close>

theorem qlist_searches:
  assumes "qlist m l (ys @ x # zs)"
  shows "cl_qlist_find_next l x f c m =
      Some (hd (dropWhile (\<lambda>x. f x c \<noteq> CL_SUCCESS) zs @ [cl_qlist_end l])) \<and>
    cl_qlist_find_prev l x f c m =
      Some (hd (dropWhile (\<lambda>x. f x c \<noteq> CL_SUCCESS) (rev ys) @ [cl_qlist_end l])) \<and>
    cl_qlist_find_from_head l f c m =
      Some (hd (dropWhile (\<lambda>x. f x c \<noteq> CL_SUCCESS) (ys @ x # zs) @ [cl_qlist_end l])) \<and>
    cl_qlist_find_from_tail l f c m =
      Some (hd (dropWhile (\<lambda>x. f x c \<noteq> CL_SUCCESS) (rev (ys @ x # zs)) @ [cl_qlist_end l])) \<and>
    cl_is_item_in_qlist l y m = Some (y \<in> set (ys @ x # zs))"
  using qlist_find_next [OF assms, of f c] qlist_find_prev [OF assms, of f c]
    qlist_find_from_head [OF assms, of f c] qlist_find_from_tail [OF assms, of f c]
    is_item_in_qlist [OF assms, of y] by (simp add: cl_qlist_end_def)

theorem qlist_searches_witness:
  "cl_qlist_find_next ex_list 1 (\<lambda>x c. if x = c then CL_SUCCESS else CL_NOT_FOUND) 3 ex_links = Some 3 \<and>
   cl_is_item_in_qlist ex_list 7 ex_links = Some False"
  using qlist_searches [of ex_links ex_list "[]" 1 "[2, 3]"
      "\<lambda>x c. if x = c then CL_SUCCESS else CL_NOT_FOUND" 3 7] ex_qlist by simp

section \<open>Properties of the event dispatcher\<close>

text \<open>C9: In every state the library can reach by any interleaving of its calls, from the zeroed
  static data on, the tables have their sizes; and while the library is started every entry is
  a descriptor or \<open>-1\<close>, there are at most ten connections and at most three open descriptors
  per connection, so that the table of open descriptors cannot overflow.\<close>

theorem dispatcher_invariant:
  assumes "ed_reach os s" "os_socket_ok os"
  shows "ed_inv (fst s)"
  by (rule ed_reach_inv [OF assms])

theorem dispatcher_invariant_witness:
  "ed_inv (fst (snd (event_disp_api_init ex_os ed_boot (3, [], []))))"
proof (rule dispatcher_invariant [OF _ ex_os_socket])
  show "ed_reach ex_os (snd (event_disp_api_init ex_os ed_boot (3, [], [])))"
    using reach_step [OF reach_boot step_init] by (metis prod.collapse)
qed

text \<open>Below the connection limit, opening a connection either succeeds, and then the three
  descriptors handed out are recorded in the table of open descriptors and the connection is
  counted, or it fails and the open descriptors, registrations and count are as before.\<close>

theorem dispatcher_open:
  assumes "os_socket_ok os" "ed_inv st" "event_disp_init st" "event_disp_con st < 10"
    and "os_mutex_lock os w = (True, w1)"
    and "event_disp_api_open os (Some f) st w = (err, fo, st', w')"
  shows "if err = EVENT_DISP_STATUS_SUCCESS
    then \<exists>h m l. fo = Some \<lparr>high_fd = h, med_fd = m, low_fd = l\<rparr> \<and> h \<ge> 0 \<and> m \<ge> 0 \<and> l \<ge> 0 \<and>
      open_fds st' = open_fds st + {#h, m, l#} \<and> event_disp_con st' = event_disp_con st + 1 \<and>
      event_disp_db st' = event_disp_db st
    else open_fds st' = open_fds st \<and> event_disp_con st' = event_disp_con st \<and>
      event_disp_db st' = event_disp_db st"
proof -
  have "unat (event_disp_con st) < 10"
    using assms(4) unat_mono by fastforce
  then have "size (open_fds st) + 3 \<le> EVENT_DISP_MAX_SOCK"
    using assms(2,3) by (auto simp: ed_inv_def ed_bounds_def ed_consts)
  then have "open_outcome err fo st st'"
    using api_open_outcome [OF assms(1) _ assms(3) _ _ assms(5,6)] assms(2,4)
    by (simp add: ed_inv_def EVENT_DISP_MAX_CON_def)
  then show ?thesis
    by (auto simp: open_outcome_def split: if_splits)
qed

theorem dispatcher_open_witness:
  "\<exists>st' w'. event_disp_api_open ex_os (Some ex_client) ex_started (3, [], []) =
      (EVENT_DISP_STATUS_SUCCESS, Some ex_client, st', w') \<and>
    open_fds st' = open_fds ex_started + {#3, 4, 5#} \<and> event_disp_con st' = 1"
proof -
  have run: "event_disp_api_open ex_os (Some ex_client) ex_started (3, [], []) =
      (EVENT_DISP_STATUS_SUCCESS, Some ex_client, ex_opened, (6, [], []))"
    by (simp add: event_disp_api_open_def event_disp_open_socket_def ex_os_def ex_started_def
        ex_client_def ex_opened_def record_fd_def event_disp_reset_def EVENT_DISP_MAX_CON_def Let_def)
  show ?thesis
    using run dispatcher_open [OF ex_os_socket ex_started_inv _ _ run, of "(3, [], [])"]
    by (auto simp: ex_os_def ex_client_def) (simp_all add: ex_started_def event_disp_reset_def)
qed

text \<open>C10: After a successful registration for distinct events, the descriptor of the chosen
  priority is registered exactly once for each event of the list that has a free slot, in place
  of all of the client's earlier registrations for it; registrations of other clients and of
  other events stay. When all ten slots are taken by other clients the call still succeeds
  and the client is not registered.\<close>

theorem dispatcher_register:
  assumes "event_disp_api_register_events os (Some f) prio (Some es) n st w =
      (EVENT_DISP_STATUS_SUCCESS, st', w')"
    and "ed_inv st" "0 \<le> e" "e < 100" "distinct (take (unat n) es)"
  shows "mset (registered st' e) =
    (let others = filter (\<lambda>fd. \<not> is_client_fd f fd) (registered st e)
     in if e \<notin> set (take (unat n) es) then mset (registered st e)
        else if length others < 10 then add_mset (the (prio_fd prio f)) (mset others)
        else mset others)"
  using register_effect [OF assms(1) _ _ assms(5), of e] assms(2-4)
  by (simp add: ed_inv_def event_in_range_def ed_consts Let_def)

theorem dispatcher_register_witness:
  "mset (registered (fst (snd (event_disp_api_register_events ex_os (Some ex_client) 1 (Some [7, 9]) 2
      ex_started (3, [], [])))) 7) = {#3#}"
proof -
  let ?r = "event_disp_api_register_events ex_os (Some ex_client) 1 (Some [7, 9]) 2 ex_started (3, [], [])"
  have run: "?r = (EVENT_DISP_STATUS_SUCCESS, fst (snd ?r), snd (snd ?r))"
    by (simp add: event_disp_api_register_events_def event_disp_api_unregister_events_def ex_os_def
        ex_started_def ex_client_def prio_fd_def ed_consts event_disp_reset_def)
  show ?thesis
    using dispatcher_register [OF run ex_started_inv(1), of 7] ex_started_empty
    by (simp add: ex_client_def prio_fd_def)
qed

text \<open>Closing a connection removes the client from every event and its descriptors from the
  table of open descriptors, even if closing one of them fails; other registrations stay.\<close>

theorem dispatcher_close:
  assumes "event_disp_api_close os (Some f) st w = (err, st', w')"
    and "event_disp_init st" "fst (os_mutex_lock os w)" "ed_inv st" "0 \<le> e" "e < 100"
    and "0 \<le> high_fd f" "0 \<le> med_fd f" "0 \<le> low_fd f"
  shows "registered st' e = filter (\<lambda>fd. \<not> is_client_fd f fd) (registered st e) \<and>
    open_fds st' = open_fds st - {#high_fd f, med_fd f, low_fd f#}"
proof -
  have "st' = close_fd (low_fd f) (close_fd (med_fd f) (close_fd (high_fd f)
      (st\<lparr>event_disp_db := map (clear_row f) (event_disp_db st)\<rparr>)))"
    using assms(1-3) unfolding event_disp_api_close_def
    by (auto simp: Let_def dest!: close_socket_state split: prod.splits)
  moreover have "nat e < length (event_disp_db st)"
    using assms(4-6) by (simp add: ed_inv_def ed_sizes_def ed_consts)
  moreover have "open_fds (st\<lparr>event_disp_db := db\<rparr>) = open_fds st" for db
    by (simp add: open_fds_def)
  ultimately show ?thesis
    using assms(7-9)
    by (simp add: registered_def used_clear_row open_fds_close_fd) (simp add: add_mset_commute)
qed

theorem dispatcher_close_witness:
  "registered (fst (snd (event_disp_api_close ex_os (Some ex_client) ex_started (6, [], [])))) 7 =
      filter (\<lambda>fd. \<not> is_client_fd ex_client fd) (registered ex_started 7) \<and>
    open_fds (fst (snd (event_disp_api_close ex_os (Some ex_client) ex_started (6, [], [])))) =
      open_fds ex_started - {#high_fd ex_client, med_fd ex_client, low_fd ex_client#}"
  by (rule dispatcher_close [where os = ex_os and w = "(6, [], [])"
        and err = "fst (event_disp_api_close ex_os (Some ex_client) ex_started (6, [], []))"
        and w' = "snd (snd (event_disp_api_close ex_os (Some ex_client) ex_started (6, [], [])))"])
    (simp_all add: ex_started_def ex_client_def ex_os_def)

text \<open>C11: Generating an event attempts one datagram to each descriptor registered for it, in slot
  order, to the name bound for that descriptor, also after a send that fails; the event's
  counter and the total go up by one (modulo \<open>2 ^ 64\<close>) and nothing else changes. The result is
  \<open>SEND_ERROR\<close> if one of these sends failed for another reason than a full or closing peer
  (\<^verbatim>\<open>EAGAIN\<close>), and success if none did. The library is started, the event is below 100, the data
  have at most 1500 bytes, and the mutex and the set-up of the sockets succeed.\<close>

theorem dispatcher_generate:
  assumes "os_sends os log" "event_disp_init st" "0 \<le> e" "e < 100" "n \<le> 1500"
    and "event_disp_api_generate_event os e d n st w = (err, d', st', w')"
  shows "(\<exists>rs. length rs = length (registered st e) \<and>
      log w' = log w @ map2 (\<lambda>fd r. (sock_path fd (os_getpid os), send_buff EVENT_SEND_WITH_COPY e d n, r))
        (registered st e) rs \<and>
      err = (if SEND_FAILED \<in> set rs then EVENT_DISP_STATUS_SEND_ERROR else EVENT_DISP_STATUS_SUCCESS)) \<and>
    st' = st\<lparr>event_disp_gen_counter := (event_disp_gen_counter st)
        [nat e := event_disp_gen_counter st ! nat e + 1],
      event_disp_total_gen_counter := event_disp_total_gen_counter st + 1\<rparr> \<and> d' = d"
proof -
  have range: "event_in_range e"
    using assms(3,4) by (simp add: event_in_range_def ed_consts)
  have len: "EVENT_SEND_WITH_COPY = EVENT_SEND_WITH_COPY \<longrightarrow> n \<le> of_nat EVENT_DISP_MAX_BUFF_LEN"
    using assms(5) by (simp add: EVENT_DISP_MAX_BUFF_LEN_def)
  note gen = generate_sends [OF assms(1,2) range len assms(6) [unfolded event_disp_api_generate_event_def]]
  have "d' = d"
    using gen(2) by (simp add: prepare_buff_def EVENT_SEND_NO_COPY_def EVENT_SEND_WITH_COPY_def)
  then show ?thesis
    using gen(1,3) unfolding datagrams_def send_status_def by blast
qed

theorem dispatcher_generate_witness:
  "(\<exists>d' st' w'. event_disp_api_generate_event ex_os 7 (Some [1, 2]) 2 ex_registered (3, [], []) =
      (EVENT_DISP_STATUS_SUCCESS, d', st', w') \<and>
    fst (snd w') = [(sock_path 3 42, int_bytes 7 @ [1, 2], SEND_OK)] \<and> event_disp_gen_counter st' ! 7 = 1) \<and>
   (\<exists>d' st' w'. event_disp_api_generate_event ex_os_refuse 7 (Some [1, 2]) 2 ex_registered (3, [], []) =
      (EVENT_DISP_STATUS_SEND_ERROR, d', st', w') \<and>
    fst (snd w') = [(sock_path 3 42, int_bytes 7 @ [1, 2], SEND_FAILED)] \<and> event_disp_gen_counter st' ! 7 = 1)"
proof -
  let ?w = "(3, [], []) :: ex_world"
  have c: "event_disp_gen_counter ex_registered = replicate 100 0"
    by (simp add: ex_registered_def ex_started_def update_row_def event_disp_reset_def ed_consts)
  obtain err d' st' w' where a: "event_disp_api_generate_event ex_os 7 (Some [1, 2]) 2 ex_registered ?w =
      (err, d', st', w')" by (metis prod_cases4)
  obtain err2 d2 st2 w2 where b: "event_disp_api_generate_event ex_os_refuse 7 (Some [1, 2]) 2 ex_registered ?w =
      (err2, d2, st2, w2)" by (metis prod_cases4)
  have row: "event_disp_db ex_registered ! 7 = [3, -1, -1, -1, -1, -1, -1, -1, -1, -1]"
    by (simp add: ex_registered_def ex_started_def update_row_def event_disp_reset_def ed_consts
        event_in_range_def eval_nat_numeral)
  have logs: "fst (snd w') = [(sock_path 3 42, int_bytes 7 @ [1, 2], SEND_OK)]"
    "fst (snd w2) = [(sock_path 3 42, int_bytes 7 @ [1, 2], SEND_FAILED)]"
    using a b ex_registered_7(2) row
    by (auto simp: event_disp_api_generate_event_def event_disp_api_generate_event_mode_def ex_os_def
        ex_os_refuse_def prepare_buff_def send_buff_def EVENT_SEND_NO_COPY_def EVENT_SEND_WITH_COPY_def
        EVENT_DISP_MAX_EVENTS_def EVENT_DISP_MAX_BUFF_LEN_def Let_def)
  have "err = EVENT_DISP_STATUS_SUCCESS" "event_disp_gen_counter st' ! 7 = 1"
    using dispatcher_generate [OF ex_os_sends ex_registered_7(2) _ _ _ a] ex_registered_7(1) c logs(1)
    by (auto simp: length_Suc_conv split_beta)
  moreover have "err2 = EVENT_DISP_STATUS_SEND_ERROR" "event_disp_gen_counter st2 ! 7 = 1"
    using dispatcher_generate [OF ex_os_refuse_sends ex_registered_7(2) _ _ _ b] ex_registered_7(1) c logs(2)
    by (auto simp: length_Suc_conv split_beta)
  ultimately show ?thesis using a b logs by blast
qed

text \<open>C12: A client that receives the bytes of a message sent for an event reads back the event
  number and the data, whatever its buffer held before, and both reception counters go up.\<close>

theorem dispatcher_message_round_trip:
  assumes "0 \<le> e" "e < 100" "fd \<ge> 0" "length d = unat n" "n \<noteq> 0" "length old \<ge> 4 + unat n"
    and "os_recv os fd msg_len w = (Some (send_buff EVENT_SEND_WITH_COPY e (Some d) n), w')"
  shows "\<exists>msg. event_disp_api_get_event os fd (Some old) st w =
      (EVENT_DISP_STATUS_SUCCESS, Some msg, received e st, w') \<and>
    bytes_int msg = e \<and> take (unat n) (drop 4 msg) = d \<and> length msg = length old"
proof -
  have range: "event_in_range e"
    using assms(1,2) by (simp add: event_in_range_def ed_consts)
  have "unat n \<le> length d" using assms(4) by simp
  from get_event_message [OF range assms(3) this assms(5,7), of old st] show ?thesis
    using assms(4,6) bytes_int_int_bytes [OF range, of "d @ drop (4 + unat n) old"] by auto
qed

theorem dispatcher_message_round_trip_witness:
  "\<exists>msg. event_disp_api_get_event ex_os 3 (Some (replicate 1504 0)) ex_started (3, [], []) =
      (EVENT_DISP_STATUS_SUCCESS, Some msg, received 7 ex_started, (3, [], [])) \<and>
    bytes_int msg = 7 \<and> take (unat (2 :: u32)) (drop 4 msg) = [1, 2] \<and>
    length msg = length (replicate 1504 (0 :: u8))"
  by (rule dispatcher_message_round_trip) (simp_all add: ex_os_def send_buff_def)

text \<open>The names of sockets are never cut off by the 108-byte path, and two sockets have the
  same name only if both the descriptor and the process are the same, so an event sent to one
  registered descriptor cannot reach another one.\<close>

theorem dispatcher_socket_names:
  assumes "is_int32 fd" "is_int32 pid" "is_int32 fd'" "is_int32 pid'"
  shows "length (sock_path fd pid) < 108 \<and> (sock_path fd pid = sock_path fd' pid' \<longleftrightarrow> fd = fd' \<and> pid = pid')"
  using sock_path_full(2) [OF assms(1,2)] sock_path_inj [OF assms]
  by (simp add: EVENT_DISP_SOCK_PATH_LEN_def)

theorem dispatcher_socket_names_witness:
  "length (sock_path 11 42) < 108 \<and> (sock_path 11 42 = sock_path 1 142 \<longleftrightarrow> (11::int) = 1 \<and> (42::int) = 142)"
  by (rule dispatcher_socket_names) (simp_all add: is_int32_def)

text \<open>Stopping hands every open descriptor to \<^verbatim>\<open>close\<close> exactly once, in table order, and leaves
  the library stopped with empty tables and zero counters, whatever errors occur on the way.\<close>

theorem dispatcher_stop:
  assumes "os_closes os closed" "event_disp_init st" "ed_inv st"
    and "event_disp_api_deinit os st w = (err, st', w')"
  shows "mset (closed w') = mset (closed w) + open_fds st \<and>
    st' = (event_disp_reset st)\<lparr>event_disp_init := False\<rparr>"
proof -
  have sizes: "ed_sizes st" and entries: "\<forall>fd\<in>set (event_disp_fds st). fd \<ge> -1"
    using assms(2,3) by (auto simp: ed_inv_def ed_entries_def)
  have "filter (\<lambda>fd. fd \<ge> 0) (event_disp_fds st) = used (event_disp_fds st)"
    unfolding used_def using entries by (intro filter_cong) force+
  then show ?thesis
    using deinit_closes [OF assms(1,2) sizes assms(4)] by (simp add: open_fds_def)
qed

theorem dispatcher_stop_witness:
  "mset (snd (snd (snd (snd (event_disp_api_deinit ex_os ex_started (3, [], [9])))))) = {#9#}"
proof -
  obtain err st' w' where run: "event_disp_api_deinit ex_os ex_started (3, [], [9]) = (err, st', w')"
    by (metis prod_cases3)
  show ?thesis
    using dispatcher_stop [OF ex_os_closes ex_started_inv(2,1) run] ex_started_empty
    by (simp add: run split_beta)
qed

text \<open>The count of connections is never given back between start and stop. Once ten
  connections have been opened, every later attempt to open fails, however many of them have
  been closed in the meantime.\<close>

theorem dispatcher_connections_exhausted:
  assumes "(ed_use os)\<^sup>*\<^sup>* (st, w) (st', w')" "event_disp_init st" "10 \<le> event_disp_con st"
    and "fst (os_mutex_lock os w')" "event_disp_api_open os (Some f) st' w' = (err, fo, st'', w'')"
  shows "err = EVENT_DISP_STATUS_MAX_CONNETIONS"
  using open_at_limit [OF _ _ assms(4,5)] ed_uses_con [OF assms(1)] assms(2,3)
  by (auto simp: EVENT_DISP_MAX_CON_def)

theorem dispatcher_connections_exhausted_witness:
  "fst (event_disp_api_open ex_os (Some ex_client)
      (fst (snd (event_disp_api_close ex_os (Some ex_client) (ex_started\<lparr>event_disp_con := 10\<rparr>) (6, [], []))))
      (snd (snd (event_disp_api_close ex_os (Some ex_client) (ex_started\<lparr>event_disp_con := 10\<rparr>) (6, [], []))))) =
    EVENT_DISP_STATUS_MAX_CONNETIONS"
proof -
  let ?s = "ex_started\<lparr>event_disp_con := 10\<rparr>"
  let ?c = "event_disp_api_close ex_os (Some ex_client) ?s (6, [], [])"
  let ?o = "event_disp_api_open ex_os (Some ex_client) (fst (snd ?c)) (snd (snd ?c))"
  have step: "(ed_use ex_os)\<^sup>*\<^sup>* (?s, (6, [], [])) (fst (snd ?c), snd (snd ?c))"
    by (rule r_into_rtranclp, rule use_close [where fo = "Some ex_client" and err = "fst ?c"]) simp
  show ?thesis
    by (rule dispatcher_connections_exhausted [OF step,
          where fo = "fst (snd ?o)" and st'' = "fst (snd (snd ?o))" and w'' = "snd (snd (snd ?o))"])
      (simp_all add: ex_started_def ex_os_def)
qed

section \<open>Properties of the communication database\<close>

text \<open>In every database reachable from initialisation by any sequence of operations, the tables
  have their sizes, and for each server the handles in its handle table, the clients in its
  status table and its client count agree.\<close>

theorem commu_invariant:
  assumes "commu_reach os db" "mutex_works os"
  shows "db_sizes db \<and> (\<forall>j<16. tcp_server_handles j db = server_clients j db \<and>
    unat (clients_num (server_status_st db ! j)) = size (server_clients j db))"
  using commu_reach_inv [OF assms] by (simp add: db_inv_def server_ok_def db_consts)

theorem commu_invariant_witness:
  "tcp_server_handles 3 (fst (snd (lib_commu_db_init ex_commu_os ex_db ()))) =
    server_clients 3 (fst (snd (lib_commu_db_init ex_commu_os ex_db ())))"
proof -
  have "commu_reach ex_commu_os (fst (snd (lib_commu_db_init ex_commu_os ex_db ())))"
    using cr_init [OF ex_db_sizes] by (metis prod.collapse)
  from commu_invariant [OF this ex_mutex] show ?thesis by simp
qed

text \<open>When the listener accepts a connection for a server with fewer than sixteen clients, the
  handle is entered in the server's handle table and in its client table and the client count
  goes up by one; with sixteen clients the result is \<^verbatim>\<open>ENOBUFS\<close> and nothing changes.\<close>

theorem commu_accept:
  assumes "mutex_works os" "db_inv db" "j < 16" "fd \<noteq> -1"
    and "listener_accept_update os j params fd a p mg db w = (err, db', w')"
  shows "if size (server_clients j db) < 16
    then err = 0 \<and> server_clients j db' = add_mset fd (server_clients j db) \<and>
      tcp_server_handles j db' = add_mset fd (tcp_server_handles j db) \<and>
      clients_num (server_status_st db' ! j) = clients_num (server_status_st db ! j) + 1
    else err = ENOBUFS \<and> db' = db"
proof (cases "size (server_clients j db) < 16")
  case True
  have j: "j < SERVER_STATUS_ARR_LENGTH" using assms(3) by (simp add: db_consts)
  note acc = accept_result [OF assms(1,2) j _ assms(5)]
  have *: "err = 0" "db_inv db'" "server_clients j db' = add_mset fd (server_clients j db)"
    using acc True assms(4) by (simp_all add: INVALID_HANDLE_ID_def db_consts)
  have ok: "server_ok db j" "server_ok db' j" using assms(2) *(2) j by (simp_all add: db_inv_def)
  then have "unat (clients_num (server_status_st db' ! j)) = unat (clients_num (server_status_st db ! j) + 1)"
    using *(3) True by (simp add: server_ok_def unat_word_ariths)
  then have "clients_num (server_status_st db' ! j) = clients_num (server_status_st db ! j) + 1"
    by (rule word_unat_eq_iff [THEN iffD2])
  with * ok True show ?thesis by (simp add: server_ok_def)
next
  case False
  have j: "j < SERVER_STATUS_ARR_LENGTH" using assms(3) by (simp add: db_consts)
  show ?thesis
    using accept_result [OF assms(1,2) j _ assms(5)] False assms(4)
    by (simp add: INVALID_HANDLE_ID_def db_consts)
qed

theorem commu_accept_witness:
  "\<exists>db' w'. listener_accept_update ex_commu_os 3 (up_session_params ex_udp_params) 7 1 2 9 ex_db () = (0, db', w') \<and>
    server_clients 3 db' = {#7#} \<and> tcp_server_handles 3 db' = {#7#}"
proof -
  obtain err db' w' where run:
    "listener_accept_update ex_commu_os 3 (up_session_params ex_udp_params) 7 1 2 9 ex_db () = (err, db', w')"
    by (metis prod_cases3)
  show ?thesis
    using commu_accept [OF ex_mutex ex_db_inv _ _ run] run ex_db_handles(3,4) [of 3] by simp
qed

text \<open>Deleting a TCP handle removes it once from the handles of the database, wherever it is
  kept, and keeps the tables of the servers in agreement; when the handle is unknown the
  database stays as it is, and the function still returns success.\<close>

theorem commu_tcp_delete:
  assumes "mutex_works os" "db_inv db" "fd \<noteq> -1"
    and "lib_commu_db_tcp_handle_info_delete os fd db w = (err, db', w')"
  shows "err = 0 \<and> db_inv db' \<and> tcp_handles db' = tcp_handles db - {#fd#} \<and>
    (fd \<in># tcp_handles db \<or> db' = db)"
proof -
  obtain w1 where w1: "co_lock os w = (0, w1)" by (rule mutex_worksE [OF assms(1), of w])
  obtain w2 where w2: "co_unlock os w1 = (0, w2)" by (rule mutex_worksE [OF assms(1), of w1])
  have "err = 0" "db' = tcp_delete_locked fd db"
    using assms(4) by (simp_all add: lib_commu_db_tcp_handle_info_delete_def w1 w2)
  then show ?thesis
    using tcp_delete_result [OF assms(2), of fd] assms(3) by (auto simp: INVALID_HANDLE_ID_def)
qed

theorem commu_tcp_delete_witness:
  "\<exists>db' w'. lib_commu_db_tcp_handle_info_delete ex_commu_os 7
      (fst (snd (listener_accept_update ex_commu_os 3 (up_session_params ex_udp_params) 7 1 2 9 ex_db ()))) () =
      (0, db', w') \<and> db_inv db'"
proof -
  obtain err db w where acc:
    "listener_accept_update ex_commu_os 3 (up_session_params ex_udp_params) 7 1 2 9 ex_db () = (err, db, w)"
    by (metis prod_cases3)
  have "db_inv db"
    using accept_result [OF ex_mutex ex_db_inv _ _ acc] ex_db_inv
    by (auto simp: db_consts INVALID_HANDLE_ID_def split: if_splits)
  moreover obtain e2 db2 w2 where del: "lib_commu_db_tcp_handle_info_delete ex_commu_os 7 db () = (e2, db2, w2)"
    by (metis prod_cases3)
  ultimately show ?thesis
    using commu_tcp_delete [OF ex_mutex _ _ del] del acc by simp
qed

text \<open>A UDP handle that is entered while the table has room and the handle is new is found
  again by lookup, with the session's port and magic number and zero statistics, and deleting
  it restores the table's handles.\<close>

theorem commu_udp_round_trip:
  assumes "mutex_works os" "db_sizes db" "fd \<noteq> -1" "fd \<notin># udp_handles db" "size (udp_handles db) < 16"
    and "lib_commu_db_udp_handle_info_set os fd params mg db w = (err, db1, w1)"
    and "lib_commu_db_udp_handle_info_delete os fd db1 w1 = (err2, db2, w2)"
  shows "err = 0 \<and> err2 = 0 \<and> udp_handles db1 = add_mset fd (udp_handles db) \<and> udp_handles db2 = udp_handles db \<and>
    (\<exists>l. lib_commu_db_hanlde_info_get fd UDP_HANDLE_DB db1 = Inr l \<and> handle (handle_at l db1) = fd \<and>
      s_port (conn_info (handle_at l db1)) = sp_port (up_session_params params) \<and>
      local_magic (socekt_info (handle_at l db1)) = mg \<and>
      total_sum_bytes_rx (socekt_info (handle_at l db1)) = 0 \<and>
      total_sum_bytes_tx (socekt_info (handle_at l db1)) = 0)"
proof -
  let ?fill = "filled_handle_info fd (ucast (sp_msg_type (up_session_params params)))
    \<lparr>port = sp_port (up_session_params params), ipv4_addr = ucast (sp_port (up_session_params params))\<rparr>
    \<lparr>port = 0, ipv4_addr = 0\<rparr> (ucast (up_is_single_peer params)) mg"
  have tbl: "is_table UDP_HANDLE_DB INVALID_SERVER_ID" by (simp add: is_table_def)
  have en: "err = 0 \<and> entered UDP_HANDLE_DB INVALID_SERVER_ID ?fill db db1"
    using handle_info_set_enters [OF assms(1) tbl assms(2) assms(6) [unfolded lib_commu_db_udp_handle_info_set_def]] .
  note et = entered_table [OF conjunct2 [OF en] tbl assms(2), of fd, unfolded table_def, simplified]
  have set: "udp_handles db1 = add_mset fd (udp_handles db)"
    "\<exists>i h. first_idx (\<lambda>h. handle h = fd) (udp_handle_info db1) = Some i \<and> udp_handle_info db1 ! i = ?fill h"
    using et assms(3-5) by (simp_all add: udp_handles_def INVALID_HANDLE_ID_def db_consts)
  then obtain i h where i: "first_idx (\<lambda>h. handle h = fd) (udp_handle_info db1) = Some i"
    "udp_handle_info db1 ! i = ?fill h" by blast
  have "lib_commu_db_hanlde_info_get fd UDP_HANDLE_DB db1 = Inr (UDP_AT i)"
    using i(1) by (simp add: lib_commu_db_hanlde_info_get_def udp_search_def)
  moreover have "err2 = 0 \<and> udp_handles db2 = udp_handles db"
    using udp_delete_result [OF assms(1) _ assms(7)] set(1) assms(3) by (simp add: INVALID_HANDLE_ID_def)
  ultimately show ?thesis
    using en set(1) i(2) by (auto simp: filled_handle_info_def)
qed

theorem commu_udp_round_trip_witness:
  "\<exists>db1 w1 db2 w2. lib_commu_db_udp_handle_info_set ex_commu_os 7 ex_udp_params 9 ex_db () = (0, db1, w1) \<and>
    lib_commu_db_udp_handle_info_delete ex_commu_os 7 db1 w1 = (0, db2, w2) \<and>
    udp_handles db1 = {#7#} \<and> udp_handles db2 = {#}"
proof -
  obtain e1 db1 w1 where set: "lib_commu_db_udp_handle_info_set ex_commu_os 7 ex_udp_params 9 ex_db () = (e1, db1, w1)"
    by (metis prod_cases3)
  obtain e2 db2 w2 where del: "lib_commu_db_udp_handle_info_delete ex_commu_os 7 db1 w1 = (e2, db2, w2)"
    by (metis prod_cases3)
  show ?thesis
    using commu_udp_round_trip [OF ex_mutex ex_db_sizes _ _ _ set del] set del by (simp add: ex_db_handles)
qed

text \<open>When the UDP table is full, entering a handle stores nothing and still returns success:
  the \<^verbatim>\<open>ENOBUFS\<close> of the search is overwritten by the result of the unlock.\<close>

theorem commu_full_table_error_lost:
  assumes "mutex_works os" "db_sizes db" "fd \<noteq> -1" "size (udp_handles db) = 16"
    and "lib_commu_db_udp_handle_info_set os fd params mg db w = (err, db', w')"
  shows "find_empty_slot UDP_HANDLE_DB INVALID_SERVER_ID db = Inl ENOBUFS \<and> err = 0 \<and> db' = db"
proof -
  have tbl: "is_table UDP_HANDLE_DB INVALID_SERVER_ID" by (simp add: is_table_def)
  have none: "first_idx (\<lambda>h. handle h = INVALID_HANDLE_ID) (udp_handle_info db) = None"
    using handles.keys_full [of "udp_handle_info db"] assms(2,4)
    by (simp add: udp_handles_def db_sizes_def db_consts)
  then show ?thesis
    using handle_info_set_enters [OF assms(1) tbl assms(2) assms(5) [unfolded lib_commu_db_udp_handle_info_set_def]]
    by (simp add: find_empty_slot_def slot_result_def entered_def table_def)
qed

theorem commu_full_table_error_lost_witness:
  "find_empty_slot UDP_HANDLE_DB INVALID_SERVER_ID ex_full_db = Inl ENOBUFS \<and>
   fst (lib_commu_db_udp_handle_info_set ex_commu_os 5 ex_udp_params 9 ex_full_db ()) = 0"
proof -
  obtain e db' w' where set: "lib_commu_db_udp_handle_info_set ex_commu_os 5 ex_udp_params 9 ex_full_db () = (e, db', w')"
    by (metis prod_cases3)
  show ?thesis
    using commu_full_table_error_lost [OF ex_mutex ex_full_db_sizes(1) _ ex_full_db_sizes(2) set] set by simp
qed

text \<open>Accounting received bytes adds them, modulo \<open>2 ^ 64\<close>, to the total of the entry that
  lookup finds for the handle, writes back the type of that entry and leaves the handles of all
  tables as they are; for an unknown handle the database stays as it is and an error is
  returned.\<close>

theorem commu_rx_accounting:
  assumes "db_inv db" "handle_total_rx_update fd type n db = (err, type', db')"
  shows "case lib_commu_db_hanlde_info_get fd type db of
      Inl e \<Rightarrow> err = e \<and> e \<noteq> 0 \<and> db' = db
    | Inr l \<Rightarrow> err = 0 \<and> type' = loc_type l \<and> handle (handle_at l db) = fd \<and>
        total_sum_bytes_rx (socekt_info (handle_at l db')) = total_sum_bytes_rx (socekt_info (handle_at l db)) + n \<and>
        udp_handles db' = udp_handles db \<and> tcp_handles db' = tcp_handles db"
proof (cases "lib_commu_db_hanlde_info_get fd type db")
  case (Inl e)
  then show ?thesis
    using assms(2) hanlde_info_get_error [OF Inl] by (auto simp: handle_total_rx_update_def EINVAL_def ENOKEY_def)
next
  case (Inr l)
  let ?h = "(handle_at l db)\<lparr>socekt_info := (socekt_info (handle_at l db))
    \<lparr>total_sum_bytes_rx := total_sum_bytes_rx (socekt_info (handle_at l db)) + n\<rparr>\<rparr>"
  have l: "loc_ok l db" "handle (handle_at l db) = fd"
    using hanlde_info_get_sound [OF Inr] assms(1) by (simp_all add: db_inv_def)
  have "err = 0" "type' = loc_type l" "db' = set_handle_at l ?h db"
    using assms(2) Inr by (simp_all add: handle_total_rx_update_def Let_def)
  then show ?thesis
    using Inr l same_handle_keeps [OF assms(1) l(1), of ?h] by simp
qed

theorem commu_rx_accounting_witness:
  "fst (handle_total_rx_update 7 UDP_HANDLE_DB 100 ex_db) = ENOKEY"
proof -
  have get: "lib_commu_db_hanlde_info_get 7 UDP_HANDLE_DB ex_db = Inl ENOKEY"
    using handles.keys_found [of 7 "udp_handle_info ex_db"] ex_db_handles(1)
    by (simp add: lib_commu_db_hanlde_info_get_def udp_search_def udp_handles_def INVALID_HANDLE_ID_def)
  obtain e t db' where run: "handle_total_rx_update 7 UDP_HANDLE_DB 100 ex_db = (e, t, db')"
    by (metis prod_cases3)
  show ?thesis
    using commu_rx_accounting [OF ex_db_inv run] get run by simp
qed

section \<open>Properties of the communication sessions\<close>

text \<open>C13: A TCP connection is a first-in first-out queue of messages. Two processes use the library at the two ends of a
  connection, over a system that moves the bytes of the stream in order and makes some progress with each call (at least
  one five-hundredth of the largest message). After any interleaving of calls that send and calls that receive, the messages
  that were received are the first of those that were sent. A message of 1 to 1638390 bytes is then sent completely, and
  when a message is on its way, receiving returns 0 and delivers the oldest one, with the sender's message type, and one
  message counted. The code does so also for messages above \<^verbatim>\<open>MAX_TCP_PAYLOAD\<close> (4094 bytes), for which the comments of the
  receiving call promise \<^verbatim>\<open>EOVERFLOW\<close>, and with up to 500 rounds of a transfer, where the comments of the sending
  call speak of 3 retries.\<close>

theorem commu_tcp_fifo:
  assumes "stream_between sys a b pipe g" "MAX_JUMBO_TCP_PAYLOAD \<le> 500 * g" "link_inv a b pipe m t k" "tcp_link sys a b k k'"
  shows "lk_got k' = take (length (lk_got k')) (lk_sent k') \<and>
    (\<forall>data. data \<noteq> [] \<and> length data \<le> 1638390 \<longrightarrow>
      (\<exists>s w. comm_lib_tcp_send_blocking sys a (Some data) (Some (of_nat (length data))) (lk_sender k') (lk_world k') =
        (0, Some (of_nat (length data)), s, w))) \<and>
    (\<forall>addr pd. length (lk_got k') < length (lk_sent k') \<and> payload_data_ok pd \<longrightarrow>
      (\<exists>addr' pd' s w. comm_lib_tcp_recv_blocking sys b (Some addr) (Some pd) 1 (lk_receiver k') (lk_world k') =
        (0, addr', Some pd', s, w) \<and> message_of pd' = lk_sent k' ! length (lk_got k') \<and> type_of pd' = t \<and>
        msg_num_recv pd' = 1))"
proof (intro conjI allI impI)
  have g: "0 < g" using assms(2) by (cases "g = 0") (simp_all add: commu_limits)
  have inv: "link_inv a b pipe m t k'" by (rule tcp_link_inv [OF assms(4,1) g assms(2,3)])
  then show "lk_got k' = take (length (lk_got k')) (lk_sent k')"
    by (auto simp: link_inv_def on_the_way_def)
  {
    fix data :: bytes
    assume data: "data \<noteq> [] \<and> length data \<le> 1638390"
    obtain r n s w where run:
      "comm_lib_tcp_send_blocking sys a (Some data) (Some (of_nat (length data))) (lk_sender k') (lk_world k') = (r, n, s, w)"
      by (metis prod_cases4)
    have "r = 0 \<and> n = Some (of_nat (length data))"
      using link_send [OF assms(1) _ inv _ _ run] assms(2) data by (simp add: SEND_REPEAT_NUM_def commu_limits)
    with run show "\<exists>s w. comm_lib_tcp_send_blocking sys a (Some data) (Some (of_nat (length data))) (lk_sender k') (lk_world k') =
        (0, Some (of_nat (length data)), s, w)" by simp
  }
  {
    fix addr pd
    assume pd: "length (lk_got k') < length (lk_sent k') \<and> payload_data_ok pd"
    obtain r addr' pd' s w where run:
      "comm_lib_tcp_recv_blocking sys b (Some addr) (Some pd) 1 (lk_receiver k') (lk_world k') = (r, addr', pd', s, w)"
      by (metis prod_cases5)
    from link_recv [OF assms(1) g _ inv _ _ run] assms(2) pd
    show "\<exists>addr' pd' s w. comm_lib_tcp_recv_blocking sys b (Some addr) (Some pd) 1 (lk_receiver k') (lk_world k') =
        (0, addr', Some pd', s, w) \<and> message_of pd' = lk_sent k' ! length (lk_got k') \<and> type_of pd' = t \<and>
        msg_num_recv pd' = 1"
      unfolding run RECV_REPEAT_NUM_def by auto
  }
qed

theorem commu_tcp_fifo_witness:
  "\<exists>s w. comm_lib_tcp_send_blocking ex_sys 7 (Some [1, 2, 3]) (Some 3) ex_lib [] = (0, Some 3, s, w) \<and>
    (\<exists>addr pd s' w'. comm_lib_tcp_recv_blocking ex_sys 7 (Some ex_addr) (Some ex_payload_data) 1 ex_lib w =
      (0, addr, Some pd, s', w') \<and> message_of pd = [1, 2, 3] \<and> type_of pd = 3)"
proof -
  have big: "MAX_JUMBO_TCP_PAYLOAD \<le> 500 * 5000" by (simp add: commu_limits)
  note fifo = commu_tcp_fifo [OF ex_stream big ex_link_inv]
  obtain s w where send: "comm_lib_tcp_send_blocking ex_sys 7 (Some [1, 2, 3]) (Some 3) ex_lib [] = (0, Some 3, s, w)"
    using fifo [OF tl_refl, THEN conjunct2, THEN conjunct1, rule_format, of "[1, 2, 3]"] by (auto simp: ex_link_def)
  have "tcp_link ex_sys 7 7 ex_link (ex_link\<lparr>lk_sender := s, lk_world := w, lk_sent := lk_sent ex_link @ [[1, 2, 3]]\<rparr>)"
    by (rule tl_send [OF tl_refl, where r = 0 and n = "Some 3"]) (use send in \<open>simp_all add: ex_link_def commu_limits\<close>)
  from fifo [OF this, THEN conjunct2, THEN conjunct2, rule_format, of ex_payload_data ex_addr] send
  show ?thesis by (auto simp: ex_link_def ex_payload_data_ok)
qed

text \<open>C14: Whatever the peer sends and however the system calls behave, receiving a TCP message never writes outside the
  arrays of the user's structure: they keep their sizes. A call that returns 0 counts one message and every other call
  counts none.\<close>

theorem commu_recv_in_bounds:
  assumes "comm_lib_tcp_recv_blocking sys fd (Some addr) (Some pd) n s w = (r, addr', Some pd', s', w')"
    and "payload_data_ok pd" "g_lib_commu_init_done s"
  shows "payload_data_ok pd' \<and> msg_num_recv pd' = (if r = 0 then 1 else 0)"
  by (rule recv_bounds [OF assms])

theorem commu_recv_in_bounds_witness:
  "\<exists>r addr' pd' s' w'. comm_lib_tcp_recv_blocking ex_sys 7 (Some ex_addr) (Some ex_payload_data) 1 ex_lib [255, 255, 255] =
    (r, addr', Some pd', s', w') \<and> payload_data_ok pd'"
proof -
  have "\<exists>r addr' pd' s' w'. comm_lib_tcp_recv_blocking ex_sys 7 (Some ex_addr) (Some ex_payload_data) 1 ex_lib [255, 255, 255] =
      (r, addr', Some pd', s', w')"
    by (auto simp: comm_lib_tcp_recv_blocking_def ex_handles_now(5) Let_def split: sum.split prod.split)
  then obtain r addr' pd' s' w' where run: "comm_lib_tcp_recv_blocking ex_sys 7 (Some ex_addr) (Some ex_payload_data) 1 ex_lib
      [255, 255, 255] = (r, addr', Some pd', s', w')" by blast
  from commu_recv_in_bounds [OF run ex_payload_data_ok ex_handles_now(5)] run show ?thesis by simp
qed

text \<open>C15: In every state the library can reach from the first call of \<^verbatim>\<open>comm_lib_init\<close> by any sequence of its calls and
  threads, failing or not, the tables of the database have their sizes, and for each server the handles in its table, the
  clients in its status and its count of clients agree. The mutex works, descriptors are not -1, and the other threads,
  acting while one waits, keep this too.\<close>

theorem commu_sessions_agree:
  assumes "lib_reach sys s" "sys_ok sys"
  shows "db_sizes (lib_db s) \<and> (\<forall>j<16. tcp_server_handles j (lib_db s) = server_clients j (lib_db s) \<and>
    unat (clients_num (server_status_st (lib_db s) ! j)) = size (server_clients j (lib_db s)))"
  using lib_reach_inv [OF assms] by (simp add: db_inv_def server_ok_def db_consts)

theorem commu_sessions_agree_witness:
  "tcp_server_handles 3 (lib_db (fst (snd (comm_lib_init ex_sys 0 (ex_lib\<lparr>g_lib_commu_init_done := False\<rparr>) [])))) =
   server_clients 3 (lib_db (fst (snd (comm_lib_init ex_sys 0 (ex_lib\<lparr>g_lib_commu_init_done := False\<rparr>) []))))"
proof -
  have "db_sizes (lib_db (ex_lib\<lparr>g_lib_commu_init_done := False\<rparr>))"
    using ex_db_sizes by (simp add: ex_lib_def db_sizes_def)
  then have "lib_reach ex_sys (fst (snd (comm_lib_init ex_sys 0 (ex_lib\<lparr>g_lib_commu_init_done := False\<rparr>) [])))"
    by (rule lr_init [where cb = 0 and w = "[]" and r = "fst (comm_lib_init ex_sys 0 (ex_lib\<lparr>g_lib_commu_init_done := False\<rparr>) [])"
        and w' = "snd (snd (comm_lib_init ex_sys 0 (ex_lib\<lparr>g_lib_commu_init_done := False\<rparr>) []))"]) simp_all
  from commu_sessions_agree [OF this ex_sys_ok] show ?thesis by simp
qed

text \<open>C16: A UDP datagram that is not lost carries the message. When the sender's handle is known, a payload of 1 to 1422
  bytes is sent behind its header in one datagram; a receiver whose handle has the same message type, does not expect another
  peer, and whose buffer is large enough returns 0 and gets the payload, its length and the sender's address.\<close>

theorem commu_udp_datagram:
  assumes "lib_commu_db_hanlde_info_get a UDP_HANDLE_DB (lib_db s) = Inr l" "g_lib_commu_init_done s"
    and "lib_commu_db_hanlde_info_get b UDP_HANDLE_DB (lib_db s2) = Inr l2" "g_lib_commu_init_done s2" "loc_ok l2 (lib_db s2)"
    and "local_magic (socekt_info (handle_now l s)) = m" "msg_type (conn_info (handle_now l s)) = ucast t"
    and "accepts_from m t (handle_now l2 s2)" "data \<noteq> []" "length data \<le> 1422" "length data \<le> unat limit"
    and "sys_sendto sys a (INET_ADDR to) (framed m t data) w = (Inr (length (framed m t data)), w1)"
    and "sys_recvfrom sys b 1500 w1 = (Inr (framed m t data, from), w2)"
  shows "\<exists>s' s2'. comm_lib_udp_send sys a to (Some data) (Some (of_nat (length data))) s w =
      (0, Some (of_nat (length data)), s', w1) \<and>
    comm_lib_udp_recv sys b (Some addr) (Some buf) (Some limit) s2 w1 =
      Some (0, Some from, Some (data @ drop (length data) buf), Some (of_nat (length data)), s2', w2)"
proof -
  have "\<exists>s'. comm_lib_udp_send sys a to (Some data) (Some (of_nat (length data))) s w = (0, Some (of_nat (length data)), s', w1)"
    using udp_send_frame [OF assms(1,2), of data "framed m t data" sys to w w1] assms(6,7,10,12) by (simp add: commu_limits)
  moreover have "\<exists>s2'. comm_lib_udp_recv sys b (Some addr) (Some buf) (Some limit) s2 w1 =
      Some (0, Some from, Some (data @ drop (length data) buf), Some (of_nat (length data)), s2', w2)"
    using udp_recv_frame [OF assms(3-5,8), of "length data" limit sys w1 data "from" w2 addr buf] assms(9-11,13)
    by (simp add: frame_parts commu_limits write_at_def)
  ultimately show ?thesis by blast
qed

theorem commu_udp_datagram_witness:
  "\<exists>s' s2' w2. comm_lib_udp_send ex_sys 8 ex_addr (Some [1, 2]) (Some 2) ex_lib [] = (0, Some 2, s', framed 9 3 [1, 2]) \<and>
    comm_lib_udp_recv ex_sys 8 (Some ex_addr) (Some [0, 0, 0]) (Some 3) ex_lib (framed 9 3 [1, 2]) =
      Some (0, Some ex_addr, Some [1, 2, 0], Some 2, s2', w2)"
proof -
  have now: "local_magic (socekt_info (handle_now (UDP_AT 0) ex_lib)) = 9" "msg_type (conn_info (handle_now (UDP_AT 0) ex_lib)) = ucast (3 :: u8)"
    "accepts_from 9 3 (handle_now (UDP_AT 0) ex_lib)"
    using ex_handles_now(2) ex_accepts [of 8] by (simp_all add: handle_now_def) (simp_all add: ex_entry_def filled_handle_info_def)
  show ?thesis
    using commu_udp_datagram [OF ex_lookups(2) ex_handles_now(5) ex_lookups(2) ex_handles_now(5,4) now, of "[1, 2]" 3
        ex_sys ex_addr "[]" "framed 9 3 [1, 2]" ex_addr "[]" ex_addr "[0, 0, 0]"]
    by (auto simp: ex_datagrams)
qed

text \<open>A UDP datagram that ends right behind a header that is accepted is taken for a complete message: when the header
  announces 1 to 1490 bytes and the receiver has room, the call returns 0 and delivers that many zero bytes which were never
  sent.\<close>

theorem commu_udp_short_datagram:
  assumes "lib_commu_db_hanlde_info_get fd UDP_HANDLE_DB (lib_db s) = Inr l" "g_lib_commu_init_done s" "loc_ok l (lib_db s)"
    and "accepts_from m t (handle_now l s)" "0 < n" "n \<le> 1490" "n \<le> unat limit"
    and "sys_recvfrom sys fd 1500 w = (Inr (metadata_bytes (wire_metadata m t (of_nat n)), from), w')"
  shows "\<exists>s'. comm_lib_udp_recv sys fd (Some addr) (Some buf) (Some limit) s w =
    Some (0, Some from, Some (replicate n 0 @ drop n buf), Some (of_nat n), s', w')"
  using udp_recv_frame [OF assms(1-5,7), of sys w "[]" "from" w' addr buf] assms(6,8)
  by (simp add: commu_limits write_at_def min_def)

theorem commu_udp_short_datagram_witness:
  "\<exists>s' w'. comm_lib_udp_recv ex_sys 8 (Some ex_addr) (Some [7, 7, 7]) (Some 3) ex_lib (metadata_bytes (wire_metadata 9 3 2)) =
    Some (0, Some ex_addr, Some [0, 0, 7], Some 2, s', w')"
proof -
  have now: "accepts_from 9 3 (handle_now (UDP_AT 0) ex_lib)"
    using ex_handles_now(2) ex_accepts [of 8] by (simp add: handle_now_def)
  have "replicate 2 0 = [0, 0 :: u8]" by (simp add: numeral_2_eq_2)
  then show ?thesis
    using commu_udp_short_datagram [OF ex_lookups(2) ex_handles_now(5,4) now, of 2 3 ex_sys "metadata_bytes (wire_metadata 9 3 2)"
        ex_addr "[]" ex_addr "[7, 7, 7]"]
    by (auto simp: ex_datagrams)
qed

text \<open>Starting a TCP server returns 0 whenever its socket is created and bound and the mutex works, whatever fails after
  that. When all sixteen listener threads are in use, it returns 0 although no server is started, no number is written back
  and the socket is closed again.\<close>

theorem commu_start_error_lost:
  assumes "session_lock_works sys" "g_lib_commu_init_done s" "clbk_notify_func c \<noteq> None"
    and "sys_socket sys INET_STREAM w = (Inr fd, w1)" "sys_setsockopt sys fd (SOL_SOCKET, SO_REUSEADDR, 1) w1 = (0, w2)"
    and "sys_bind sys fd (INET_ADDR \<lparr>port = sp_port p, ipv4_addr = sp_s_ipv4_addr p\<rparr>) w2 = (0, w3)"
    and "comm_lib_tcp_server_session_start sys p (Some c) True s w = (r, j, s', w')"
  shows "r = 0 \<and> ((\<forall>t\<in>set (listener_threads (lib_db s)). t \<noteq> 0) \<longrightarrow> j = None \<and> s' = s)"
  using server_start_returns [OF assms(1-6)] server_start_no_slot [of s sys fd p c] assms(7) by auto

theorem commu_start_error_lost_witness:
  "\<exists>w'. comm_lib_tcp_server_session_start ex_sys (up_session_params ex_udp_params) (Some ex_callback) True ex_busy_lib [] =
    (0, None, ex_busy_lib, w')"
proof -
  obtain r j s' w' where run: "comm_lib_tcp_server_session_start ex_sys (up_session_params ex_udp_params) (Some ex_callback) True
      ex_busy_lib [] = (r, j, s', w')" by (metis prod_cases4)
  have "session_lock_works ex_sys" "g_lib_commu_init_done ex_busy_lib" "clbk_notify_func ex_callback \<noteq> None"
    "\<forall>t\<in>set (listener_threads (lib_db ex_busy_lib)). t \<noteq> 0"
    using ex_handles_now(5) by (simp_all add: session_lock_works_def ex_sys_def ex_busy_lib_def ex_callback_def)
  with commu_start_error_lost [OF this(1-3) _ _ _ run, of 5 "[]" "[]" "[]"] run show ?thesis
    by (simp add: ex_sys_def)
qed

text \<open>C17: The time limit of a non-blocking connection attempt has no effect. While the connection stays in progress, any
  number of rounds in which \<^verbatim>\<open>select\<close> reports that the time is over only bring the connecting thread back to its
  \<^verbatim>\<open>select\<close>, with the time \<^verbatim>\<open>select\<close> left (\<open>connect_waits\<close>): from there on it does what it would do without them, also
  when a later round ends the wait, and the user's function has not been called (a record of its calls, which \<^verbatim>\<open>select\<close> and
  the other threads do not write, is as it was when \<^verbatim>\<open>connect\<close> returned). When \<^verbatim>\<open>select\<close> only ever reports that the
  time is over, there is such a state after every number of rounds, and the thread never returns, although the user has
  given a function to be called.\<close>

theorem commu_connect_timeout_ignored:
  fixes calls :: "'w \<Rightarrow> 'a"
  assumes "use_tval args" "ca_client_fd args \<noteq> 0" "clbk_notify_func (ca_clbk_st args) \<noteq> None"
    and "sys_getfl sys (ca_client_fd args) w = (Inr fl, w1)" "sys_setfl sys (ca_client_fd args) True fl w1 = (0, w2)"
    and "sys_connect sys (ca_client_fd args) \<lparr>port = d_port (ca_conn_info args), ipv4_addr = d_ipv4_addr (ca_conn_info args)\<rparr> w2
      = (EINPROGRESS, w3)"
    and "\<And>rd wr t w. calls (snd (sys_select sys rd wr t w)) = calls w" "\<And>s w. calls (snd (sys_others sys s w)) = calls w"
  shows "(\<forall>n t' s' w'. connect_waits sys args n (ca_tval args, s\<lparr>client_connect_thread_cnt := client_connect_thread_cnt s + 1\<rparr>, w3) = Some (t', s', w') \<longrightarrow>
      client_connect_thread sys args s w =
        Option.bind (connect_loop sys args fl (max (ca_client_fd args) (client_connect_exit_event_fd s)) t' s' w')
          (connect_bail sys args) \<and>
      calls w' = calls w3) \<and>
    (select_times_out sys \<longrightarrow> (\<forall>n. \<exists>t' s' w'. connect_waits sys args n (ca_tval args, s\<lparr>client_connect_thread_cnt := client_connect_thread_cnt s + 1\<rparr>, w3) = Some (t', s', w')) \<and>
      client_connect_thread sys args s w = None)"
proof (intro conjI allI impI)
  let ?s1 = "s\<lparr>client_connect_thread_cnt := client_connect_thread_cnt s + 1\<rparr>"
  note loops = connect_thread_loops [OF assms(2,4-6), of s]
  fix n t' s' w' assume c: "connect_waits sys args n (ca_tval args, ?s1, w3) = Some (t', s', w')"
  from connect_loop_rounds [OF c assms(1)] loops show "client_connect_thread sys args s w =
        Option.bind (connect_loop sys args fl (max (ca_client_fd args) (client_connect_exit_event_fd s)) t' s' w')
          (connect_bail sys args)" by simp
  show "calls w' = calls w3" using c by (rule connect_waits_keep [where seen = calls, OF assms(7,8)])
next
  let ?s1 = "s\<lparr>client_connect_thread_cnt := client_connect_thread_cnt s + 1\<rparr>"
  assume out: "select_times_out sys"
  show "\<exists>t' s' w'. connect_waits sys args n (ca_tval args, ?s1, w3) = Some (t', s', w')" for n
    using connect_waits_on [OF out] by (metis prod_cases3)
  from connect_thread_loops [OF assms(2,4-6), of s] connect_loop_never_ends [OF out assms(1)]
  show "client_connect_thread sys args s w = None" by simp
qed

theorem commu_connect_timeout_ignored_witness:
  "client_connect_thread ex_slow_sys ex_told_args ex_lib (2, []) =
      Option.bind (connect_loop ex_slow_sys ex_told_args 0 5 0 (ex_lib\<lparr>client_connect_thread_cnt := 1\<rparr>) (0, []))
        (connect_bail ex_slow_sys ex_told_args) \<and>
    connect_loop ex_slow_sys ex_told_args 0 5 0 (ex_lib\<lparr>client_connect_thread_cnt := 1\<rparr>) (0, []) =
      Some (111, False, ex_lib\<lparr>client_connect_thread_cnt := 1\<rparr>, (0, [])) \<and>
    client_connect_thread ex_sys ex_connect_args ex_lib [] = None"
proof (intro conjI)
  have lib: "client_connect_thread_cnt ex_lib = 0" "client_connect_exit_event_fd ex_lib = 4" by (simp_all add: ex_lib_def)
  have "connect_waits ex_slow_sys ex_told_args 2 (10, ex_lib\<lparr>client_connect_thread_cnt := 1\<rparr>, 2, []) =
      Some (0, ex_lib\<lparr>client_connect_thread_cnt := 1\<rparr>, 0, [])"
    by (simp add: numeral_2_eq_2 ex_slow_sys_def)
  with commu_connect_timeout_ignored [where args = ex_told_args and sys = ex_slow_sys and w = "(2, [])" and fl = 0
      and ?w1.0 = "(2, [])" and ?w2.0 = "(2, [])" and ?w3.0 = "(2, [])" and calls = snd and s = ex_lib] lib
  show "client_connect_thread ex_slow_sys ex_told_args ex_lib (2, []) =
      Option.bind (connect_loop ex_slow_sys ex_told_args 0 5 0 (ex_lib\<lparr>client_connect_thread_cnt := 1\<rparr>) (0, []))
        (connect_bail ex_slow_sys ex_told_args)"
    by (auto simp: ex_told_args_def ex_slow_sys_def)
  show "connect_loop ex_slow_sys ex_told_args 0 5 0 (ex_lib\<lparr>client_connect_thread_cnt := 1\<rparr>) (0, []) =
      Some (111, False, ex_lib\<lparr>client_connect_thread_cnt := 1\<rparr>, (0, []))"
    by (subst connect_loop.simps) (simp add: ex_slow_sys_def ex_told_args_def fds_upto_def upt_rec lib)
  show "client_connect_thread ex_sys ex_connect_args ex_lib [] = None"
    using commu_connect_timeout_ignored [where args = ex_connect_args and sys = ex_sys and w = "[]" and fl = 0
        and ?w1.0 = "[]" and ?w2.0 = "[]" and ?w3.0 = "[]" and calls = "\<lambda>w. 0" and s = ex_lib]
    by (auto simp: ex_connect_args_def ex_callback_def ex_sys_def select_times_out_def)
qed

section \<open>Properties of the pools\<close>

text \<open>C18:
  Growing a quick composite pool. When the maximum is reached or the allocation fails, the result is
  \<^verbatim>\<open>CL_INSUFFICIENT_MEMORY\<close> and the pool and the memory are unchanged. Otherwise the pool gets the
  allocated block, which is a fresh one, and in it \<open>k\<close> new objects that do not overlap: the number
  asked for, capped by what is left up to the maximum, when the result is success, and fewer when an
  initialiser fails (the objects made before it stay in the pool). The count goes up by \<open>k\<close> and
  never exceeds the maximum. The size of the block must not wrap around; an initialiser that succeeds
  gives the pool item at a fixed offset of the object, and the callbacks write no list links
  outside the object and release nothing.
\<close>
theorem pool_growth:
  assumes "heap_law os live" and "init_law live off p"
    and "pool_rep (live w) off m p free held blocks"
    and "16 + unat (qcpool_obj_size p) * growth p obj_count < 2 ^ 64"
    and "cl_qcpool_grow os p obj_count m w = (st, p', m', w')"
  shows "qc_max_objects p' = qc_max_objects p \<and> qc_num_objects p' \<le> qc_max_objects p \<and>
    (let b = fst (os_malloc os (grow_bytes p obj_count) w)
     in if qc_num_objects p = qc_max_objects p \<or> b = 0
        then st = CL_INSUFFICIENT_MEMORY \<and> p' = p \<and> m' = m
        else \<exists>k\<le>growth p obj_count. (st = CL_SUCCESS \<longleftrightarrow> k = growth p obj_count) \<and> b \<notin> live w \<and>
          qc_num_objects p' = qc_num_objects p + of_nat k \<and>
          pool_rep (live w') off m' p' (new_items (b + 16) (qcpool_obj_size p) off k @ free) held (blocks @ [b]))"
proof (rule disjE [OF qcpool_grow [OF assms]]; elim exE conjE)
  assume "qc_num_objects p = qc_max_objects p \<or> fst (os_malloc os (grow_bytes p obj_count) w) = 0"
    "st = CL_INSUFFICIENT_MEMORY" "p' = p" "m' = m"
  with assms(3) show ?thesis by (simp add: pool_rep_def Let_def)
next
  fix b k assume b: "qc_num_objects p \<noteq> qc_max_objects p" "b \<noteq> 0" "b = fst (os_malloc os (grow_bytes p obj_count) w)"
    "k \<le> growth p obj_count" "st = CL_SUCCESS \<longleftrightarrow> k = growth p obj_count" "pool_config p' = pool_config p" "b \<notin> live w"
    and rep: "pool_rep (live w') off m' p' (new_items (b + 16) (qcpool_obj_size p) off k @ free) held (blocks @ [b])"
  have "qc_max_objects p' = qc_max_objects p" "qc_num_objects p' \<le> qc_max_objects p'"
    using config_same(4) [OF b(6)] rep by (simp_all add: pool_rep_def)
  moreover have "qc_num_objects p' = qc_num_objects p + of_nat k"
    using growth_objects [OF assms(3) rep] by simp
  ultimately show ?thesis using b rep by (auto simp: Let_def)
qed

theorem pool_growth_witness:
  "(\<exists>p' m' w'. cl_qcpool_grow bump_heap qcpool2 2 qcpool1_mem (100, []) = (CL_SUCCESS, p', m', w') \<and>
      pool_rep (bump_live w') 8 m' p' (new_items 116 32 8 2) {} [100]) \<and>
   (\<exists>p' m' w' k. cl_qcpool_grow bump_heap qcpool2 2 qcpool1_mem (100, [0, 0]) = (CL_ERROR, p', m', w') \<and>
      pool_rep (bump_live w') 8 m' p' (new_items 116 32 8 k) {} [100]) \<and>
   (\<exists>w'. cl_qcpool_grow bump_heap qcpool3 2 qcpool1_mem (100, []) = (CL_INSUFFICIENT_MEMORY, qcpool3, qcpool1_mem, w'))"
proof (intro conjI)
  obtain p m w where g: "cl_qcpool_grow bump_heap qcpool2 2 qcpool1_mem (100, []) = (CL_SUCCESS, p, m, w)"
    using qcpool2_grows(1) by blast
  have "pool_rep (bump_live w) 8 m p (new_items 116 32 8 2) {} [100]"
    using pool_growth [OF bump_law qcpool2_laws(1) qcpool2_rep _ g] by (auto simp: qcpool2_fields bump_block Let_def)
  with g show "\<exists>p' m' w'. cl_qcpool_grow bump_heap qcpool2 2 qcpool1_mem (100, []) = (CL_SUCCESS, p', m', w') \<and>
      pool_rep (bump_live w') 8 m' p' (new_items 116 32 8 2) {} [100]" by blast
  obtain p2 m2 w2 where h: "cl_qcpool_grow bump_heap qcpool2 2 qcpool1_mem (100, [0, 0]) = (CL_ERROR, p2, m2, w2)"
    using qcpool2_grows(2) by blast
  have "\<exists>k. pool_rep (bump_live w2) 8 m2 p2 (new_items 116 32 8 k) {} [100]"
    using pool_growth [OF bump_law qcpool2_laws(1) qcpool2_rep [folded bump_live_log [of _ "[0, 0]"]] _ h]
    by (auto simp: qcpool2_fields bump_block Let_def)
  with h show "\<exists>p' m' w' k. cl_qcpool_grow bump_heap qcpool2 2 qcpool1_mem (100, [0, 0]) = (CL_ERROR, p', m', w') \<and>
      pool_rep (bump_live w') 8 m' p' (new_items 116 32 8 k) {} [100]" by blast
  obtain st p3 m3 w3 where r: "cl_qcpool_grow bump_heap qcpool3 2 qcpool1_mem (100, []) = (st, p3, m3, w3)" by (metis prod_cases4)
  from pool_growth [OF bump_law qcpool2_laws(2) qcpool3_rep _ r] r
  show "\<exists>w'. cl_qcpool_grow bump_heap qcpool3 2 qcpool1_mem (100, []) = (CL_INSUFFICIENT_MEMORY, qcpool3, qcpool1_mem, w')"
    by (auto simp: qcpool2_fields Let_def)
qed

text \<open>C19:
  An object handed out by \<^verbatim>\<open>cl_qcpool_get\<close> is not held by anybody else, its bytes overlap no
  object that is held, and it is the first free one if there is a free one. The result is null exactly
  when no object is free and the pool has no growth size or growing it by that size fails and adds no
  object (see the growth of a pool for when that is); the pool stays well formed in every case. There are
  fewer than \<open>2 ^ 32\<close> free objects and the growth size is below \<open>2 ^ 32\<close>, as the free list has a count of 32
  bits, and the size of a block must not wrap around; the callbacks are as for the growth.
\<close>
theorem pool_get_hands_out:
  assumes "heap_law os live" and "init_law live off p"
    and "pool_rep (live w) off m p free held blocks"
    and "16 + unat (qcpool_obj_size p) * growth p (qc_grow_size p) < 2 ^ 64"
    and "length free < 2 ^ 32" and "unat (qc_grow_size p) < 2 ^ 32"
    and "cl_qcpool_get os p m w = (it, p', m', w')"
  shows "(it = 0 \<longleftrightarrow> free = [] \<and> (qc_grow_size p = 0 \<or>
      (let (st, p1, m1, w1) = cl_qcpool_grow os p (qc_grow_size p) m w
       in st \<noteq> CL_SUCCESS \<and> qc_num_objects p1 = qc_num_objects p))) \<and>
    (it \<noteq> 0 \<longrightarrow> it \<notin> held \<and> (free \<noteq> [] \<longrightarrow> it = hd free) \<and>
      (\<forall>a\<in>held. obj_span off (qcpool_obj_size p) it \<inter> obj_span off (qcpool_obj_size p) a = {})) \<and>
    (\<exists>free' blocks'. pool_rep (live w') off m' p' free' (if it = 0 then held else insert it held) blocks')"
proof -
  obtain st p1 m1 w1 where grow: "cl_qcpool_grow os p (qc_grow_size p) m w = (st, p1, m1, w1)" by (metis prod_cases4)
  note null = qcpool_get_null [OF assms grow]
  obtain free' blocks' where g: "if it = 0 then free = [] \<and> pool_rep (live w') off m' p' [] held blocks'
     else it \<notin> held \<and> (free \<noteq> [] \<longrightarrow> free = it # free' \<and> blocks' = blocks \<and> w' = w) \<and>
       pool_rep (live w') off m' p' free' (insert it held) blocks'"
    and cfg: "pool_config p' = pool_config p"
    using qcpool_get [OF assms] by blast
  have "\<forall>a\<in>held. obj_span off (qcpool_obj_size p) it \<inter> obj_span off (qcpool_obj_size p) a = {}"
    if ne: "it \<noteq> 0"
  proof
    fix a assume a: "a \<in> held"
    have "it \<noteq> a" and "layout (live w') off (qcpool_obj_size p) (pool_ends p' \<union> set blocks') (set free' \<union> insert it held)"
      using g ne a config_same(1) [OF cfg] by (auto simp: pool_rep_def)
    with a show "obj_span off (qcpool_obj_size p) it \<inter> obj_span off (qcpool_obj_size p) a = {}"
      by (simp add: layout_def)
  qed
  moreover have "\<exists>free' blocks'. pool_rep (live w') off m' p' free' (if it = 0 then held else insert it held) blocks'"
    "it \<noteq> 0 \<Longrightarrow> it \<notin> held" "it \<noteq> 0 \<Longrightarrow> free \<noteq> [] \<Longrightarrow> it = hd free"
    using g by (auto split: if_splits)
  ultimately show ?thesis using null grow by simp
qed

theorem pool_get_hands_out_witness:
  "(\<exists>it p' m' w' free' blocks'. cl_qcpool_get bump_heap qcpool2 qcpool1_mem (100, []) = (it, p', m', w') \<and> it \<noteq> 0 \<and>
     pool_rep (bump_live w') 8 m' p' free' {it} blocks') \<and>
   (\<exists>p' m' w'. cl_qcpool_get bump_heap qcpool3 qcpool1_mem (100, []) = (0, p', m', w'))"
proof (intro conjI)
  obtain it p' m' w' where g: "cl_qcpool_get bump_heap qcpool2 qcpool1_mem (100, []) = (it, p', m', w')" by (metis prod_cases4)
  obtain p m w where "cl_qcpool_grow bump_heap qcpool2 2 qcpool1_mem (100, []) = (CL_SUCCESS, p, m, w)"
    using qcpool2_grows(1) by blast
  with pool_get_hands_out [OF bump_law qcpool2_laws(1) qcpool2_rep _ _ _ g] g
  show "\<exists>it p' m' w' free' blocks'. cl_qcpool_get bump_heap qcpool2 qcpool1_mem (100, []) = (it, p', m', w') \<and> it \<noteq> 0 \<and>
     pool_rep (bump_live w') 8 m' p' free' {it} blocks'" by (cases "it = 0") (simp_all add: qcpool2_fields)
  obtain it2 p2 m2 w2 where h: "cl_qcpool_get bump_heap qcpool3 qcpool1_mem (100, []) = (it2, p2, m2, w2)" by (metis prod_cases4)
  have "cl_qcpool_grow bump_heap qcpool3 2 qcpool1_mem (100, []) = (CL_INSUFFICIENT_MEMORY, qcpool3, qcpool1_mem, (100, []))"
    by (simp add: cl_qcpool_grow_def qcpool2_fields)
  with pool_get_hands_out [OF bump_law qcpool2_laws(2) qcpool3_rep _ _ _ h] h
  show "\<exists>p' m' w'. cl_qcpool_get bump_heap qcpool3 qcpool1_mem (100, []) = (0, p', m', w')" by (simp add: qcpool2_fields)
qed

text \<open>C20:
  A pool of fixed size is a stack of objects: over any sequence of \<^verbatim>\<open>cl_pool_get\<close> and
  \<^verbatim>\<open>cl_pool_put\<close> in which the user returns only objects he holds, every call hands out what the
  abstract stack does (the object returned last, or null when all are held), the pool's state still
  represents the stack, and no object is ever lost or made up.
\<close>
theorem pool_is_a_stack:
  assumes "fixed_upool L s free held" and "returns_held ops free held"
    and "pool_run (pl_get os) pl_put ops s = (xs, s')"
  shows "\<exists>free' held'. stack_run ops free held = (xs, free', held') \<and> fixed_upool L s' free' held' \<and>
    set free' \<union> held' = set free \<union> held"
  using fixed_pool.refines_stack [OF assms] stack_conserves [OF assms(2)] by blast

theorem pool_is_a_stack_witness:
  "\<exists>p m w a b xs s'. fixed_upool (bump_live w) (p, m, w) [a, b] {} \<and>
     pool_run (pl_get bump_heap) pl_put [Take, Take, Take, Give a, Take] (p, m, w) = (xs, s') \<and> xs = [a, b, 0, a] \<and>
     cl_pool_init bump_heap pool0 2 2 0 8 None None pool_mem0 (100, []) = Some (CL_SUCCESS, p, m, w)"
proof -
  obtain p m w free blocks where p: "cl_pool_init bump_heap pool0 2 2 0 8 None None pool_mem0 (100, []) = Some (CL_SUCCESS, p, m, w)"
    "length free = 2" "upool_rep (bump_live w) m p free {} blocks" "qc_grow_size (pl_qcpool p) = 0"
    "qc_num_objects (pl_qcpool p) = 2" using pool1 by blast
  then obtain a b where ab: "free = [a, b]" by (auto simp: numeral_2_eq_2 length_Suc_conv)
  have rep: "fixed_upool (bump_live w) (p, m, w) [a, b] {}"
    using p ab by (auto simp: fixed_upool_def)
  have "a \<noteq> b" using upool_rep_objects [OF p(3)] ab by auto
  then have held: "returns_held [Take, Take, Take, Give a, Take] [a, b] {}" by simp
  obtain xs s' where run: "pool_run (pl_get bump_heap) pl_put [Take, Take, Take, Give a, Take] (p, m, w) = (xs, s')"
    by (metis surj_pair)
  have "xs = [a, b, 0, a]" using pool_is_a_stack [OF rep held run] by auto
  with rep run p(1) show ?thesis by blast
qed

text \<open>
  \<^verbatim>\<open>cl_pool_init\<close> without callbacks always returns. Settings with a maximum below the minimum are refused
  with \<^verbatim>\<open>CL_INVALID_SETTING\<close>; on success the pool holds exactly the requested minimum of free
  objects, each behind a header that points to it; after any failure the pool is not initialised.
\<close>
theorem pool_init_outcome:
  assumes "heap_law os live"
    and "ql_end (qc_free_list (pl_qcpool p)) \<noteq> ql_end (qc_alloc_list (pl_qcpool p))"
    and "pool_ends (pl_qcpool p) \<subseteq> live w" and "0 \<notin> live w"
    and "24 < ROUNDUP (object_size + 24) 8"
    and "16 + unat (ROUNDUP (object_size + 24) 8) * unat min_size < 2 ^ 64" and "unat min_size < 2 ^ 32"
  shows "\<exists>st p' m' w'. cl_pool_init os p min_size max_size grow_size object_size None None m w =
      Some (st, p', m', w') \<and>
    (max_size \<noteq> 0 \<and> max_size < min_size \<longrightarrow> st = CL_INVALID_SETTING) \<and>
    (if st = CL_SUCCESS
     then \<exists>free blocks. length free = unat min_size \<and> upool_rep (live w') m' p' free {} blocks \<and>
       qc_grow_size (pl_qcpool p') = grow_size
     else \<not> cl_is_pool_inited p')"
proof -
  obtain st p' m' w' where "cl_pool_init os p min_size max_size grow_size object_size None None m w =
      Some (st, p', m', w')" "max_size \<noteq> 0 \<and> max_size < min_size \<longrightarrow> st = CL_INVALID_SETTING"
    "if st = CL_SUCCESS
     then \<exists>free blocks. length free = unat min_size \<and> upool_rep (live w') m' p' free {} blocks \<and>
       qc_grow_size (pl_qcpool p') = grow_size \<and> qcpool_obj_size (pl_qcpool p') = ROUNDUP (object_size + 24) 8 \<and>
       qc_num_objects (pl_qcpool p') = min_size \<and> pool_ends (pl_qcpool p') = pool_ends (pl_qcpool p) \<and>
       live w \<subseteq> live w'
     else \<not> cl_is_pool_inited p'"
    using pool_init [OF assms(1-4) refl assms(5-7), of max_size grow_size m] by blast
  then show ?thesis by (intro exI conjI) (auto split: if_split_asm)
qed

theorem pool_init_outcome_witness:
  "heap_law (bump_heap :: (u64 pool_mem, u64 \<times> u64 list) heap_os) bump_live \<and>
   (\<exists>p m w free blocks. cl_pool_init bump_heap pool0 2 2 0 8 None None pool_mem0 (100, []) = Some (CL_SUCCESS, p, m, w) \<and>
     length free = 2 \<and> upool_rep (bump_live w) m p free {} blocks)"
proof -
  obtain st p m w where init: "cl_pool_init bump_heap pool0 2 2 0 8 None None pool_mem0 (100, []) = Some (st, p, m, w)"
    "if st = CL_SUCCESS
     then \<exists>free blocks. length free = unat (2 :: size_t) \<and> upool_rep (bump_live w) m p free {} blocks \<and>
       qc_grow_size (pl_qcpool p) = 0
     else \<not> cl_is_pool_inited p"
    using pool_init_outcome [OF bump_law pool0_ready, of 8 2 2 0 pool_mem0] by (auto simp: ROUNDUP_def)
  then have "st = CL_SUCCESS" using pool0_success by simp
  with init show ?thesis using bump_law by auto
qed

text \<open>C21:
  \<^verbatim>\<open>cl_qcpool_destroy\<close> always ends: it runs the destructor once on every free object in the order of the
  free list, then frees every block once in the order of allocation, then the array of the
  component sizes, and leaves the pool not initialised. Each call of the destructor sees the memory
  as it is then (\<open>ms\<close>), and its effect may depend on it; the destructor writes no list links
  outside the object it is given, as \<^verbatim>\<open>cl_qcomppool.h\<close> asks of the users (the list item of a pool item
  is used internally by the pool). The two lists have fewer than \<open>2 ^ 32\<close> members, which their counts can hold.
\<close>
theorem pool_destroy_ends:
  assumes "pool_rep L off m p free held blocks" and "dtor_law off p"
    and "length free < 2 ^ 32" and "length blocks < 2 ^ 32"
  shows "\<exists>p' m' ms. length ms = length free \<and> cl_qcpool_destroy os p m w =
      Some (p', m', (if qc_sizes_ptr p \<noteq> 0 then os_free os (qc_sizes_ptr p) else id)
        (fold (os_free os) blocks
          (case qc_pfn_dtor p of None \<Rightarrow> w | Some d \<Rightarrow> fold (\<lambda>(it, m) w. snd (d it m w)) (zip free ms) w))) \<and>
    \<not> cl_is_qcpool_inited p'"
  using qcpool_destroy [OF assms] unfolding dtor_calls_def .

theorem pool_destroy_ends_witness:
  "\<exists>p m w p' m'. cl_qcpool_grow bump_heap qcpool2 2 qcpool1_mem (100, []) = (CL_SUCCESS, p, m, w) \<and>
    cl_qcpool_destroy bump_heap p m w = Some (p', m', (180, [40, 100, 124, 156, 148, 116])) \<and> \<not> cl_is_qcpool_inited p'"
proof -
  obtain p m where g: "cl_qcpool_grow bump_heap qcpool2 2 qcpool1_mem (100, []) = (CL_SUCCESS, p, m, (180, [148, 116]))"
    and rep: "pool_rep (bump_live (180, [148, 116])) 8 m p [156, 124] {} [100]" and cfg: "pool_config p = pool_config qcpool2"
    using qcpool2_grown by blast
  then have law: "dtor_law 8 p" and sz: "qc_sizes_ptr p = 40" "qc_pfn_dtor p = Some ex_pool_dtor"
    using qcpool2_laws(3) config_same(1) [OF cfg] by (auto simp: dtor_law_def pool_config_def qcpool2_fields)
  let ?H = "bump_heap :: (u64 list_mem, u64 \<times> u64 list) heap_os"
  have fr: "os_free ?H a v = (fst v, a # snd v)" for a and v :: "u64 \<times> u64 list" by (cases v) (simp add: bump_heap_def)
  obtain p' m' ms where "length ms = Suc (Suc 0)" "\<not> cl_is_qcpool_inited p'"
    "cl_qcpool_destroy bump_heap p m (180, [148, 116]) = Some (p', m', os_free ?H 40 (os_free ?H 100
      (fold (\<lambda>(it, m) w. snd (ex_pool_dtor it m w)) (zip [156, 124] ms) (180, [148, 116]))))"
    using pool_destroy_ends [OF rep law, of bump_heap "(180, [148, 116])"] sz by simp blast
  moreover from this(1) obtain ma mb where "ms = [ma, mb]" by (auto simp: length_Suc_conv)
  ultimately have "cl_qcpool_destroy bump_heap p m (180, [148, 116]) = Some (p', m', (180, [40, 100, 124, 156, 148, 116]))"
    by (simp add: fr ex_pool_dtor_def)
  with g \<open>\<not> cl_is_qcpool_inited p'\<close> show ?thesis by blast
qed

section \<open>The object list\<close>

text \<open>
  The insertions of the object list. At the head, at the tail, after and before an iterator, an
  insertion either takes a node that was in no list, puts the object in it and links it at that place,
  leaving every other object where it was; or it returns \<^verbatim>\<open>CL_INSUFFICIENT_MEMORY\<close> and the list
  is as before. It fails only when the pool has no free node left. The list stays well formed
  in every case.
\<close>
theorem object_list_insertions:
  assumes "heap_law os live" and "object_law os"
    and "olist (live w) m l (xs @ y # ys)" and "room (li_qc l) (length (xs @ y # ys))"
  shows "inserts live l m [] obj (xs @ y # ys) (cl_list_insert_head os l obj m w) \<and>
    inserts live l m (xs @ y # ys) obj [] (cl_list_insert_tail os l obj m w) \<and>
    inserts live l m (xs @ [y]) obj ys (cl_list_insert_next os l y obj m w) \<and>
    inserts live l m xs obj (y # ys) (cl_list_insert_prev os l y obj m w)"
  using list_insert_head [OF assms] list_insert_tail [OF assms] list_insert_next [OF assms]
    list_insert_prev [OF assms]
  by blast

theorem object_list_insertions_witness:
  "\<exists>(l :: (u64, unit, u64 \<times> u64 list) olist) m w it. olist (bump_live w) m l [it] \<and>
    inserts bump_live l m [it] 9 [] (cl_list_insert_next bump_heap l it 9 m w)"
proof -
  obtain l :: "(u64, unit, u64 \<times> u64 list) olist" and m w it where l: "olist (bump_live w) m l ([] @ it # [])" "room (li_qc l) 3"
    using list2 by auto
  have "room (li_qc l) (length ([] @ it # []))" using l(2) by (simp add: room_def)
  from object_list_insertions [OF bump_law bump_object_law l(1) this, of 9] have
    "inserts bump_live l m [it] 9 [] (cl_list_insert_next bump_heap l it 9 m w)" by simp
  moreover have "olist (bump_live w) m l [it]" using l(1) by simp
  ultimately show ?thesis by blast
qed

text \<open>C22:
  The insertion of an array is all or nothing. When every insertion succeeds, the addresses of the array's
  elements are in the list in the order of the array, before (or after) the objects that were there. When
  one of them fails, the insertions made so far are undone, and the list has the nodes and objects it
  had.
\<close>
theorem object_list_arrays:
  assumes "heap_law os live" and "object_law os"
    and "olist (live w) m l items" and "room (li_qc l) (unat item_count + length items)"
    and "unat item_size * (unat item_count - 1) < 2 ^ 32" and "item_count \<noteq> 0"
  shows "inserts_array live m items (\<lambda>ns. ns @ items) (array_items p_array item_size (unat item_count))
      (cl_list_insert_array_head os l p_array item_count item_size m w) \<and>
    inserts_array live m items (\<lambda>ns. items @ ns) (array_items p_array item_size (unat item_count))
      (cl_list_insert_array_tail os l p_array item_count item_size m w)"
  using list_insert_array_head [OF assms] list_insert_array_tail [OF assms(1-4)] by blast

theorem object_list_arrays_witness:
  "\<exists>(l :: (u64, unit, u64 \<times> u64 list) olist) m w it. olist (bump_live w) m l [it] \<and>
    inserts_array bump_live m [it] (\<lambda>ns. ns @ [it]) (array_items 1000 8 2)
      (cl_list_insert_array_head bump_heap l 1000 2 8 m w)"
proof -
  obtain l :: "(u64, unit, u64 \<times> u64 list) olist" and m w it where l: "olist (bump_live w) m l [it]" "room (li_qc l) 3" using list2 by blast
  have "room (li_qc l) (unat (2 :: u32) + length [it])" using l(2) by simp
  from object_list_arrays [OF bump_law bump_object_law l(1) this, of 8 1000] have
    "inserts_array bump_live m [it] (\<lambda>ns. ns @ [it]) (array_items 1000 8 2)
      (cl_list_insert_array_head bump_heap l 1000 2 8 m w)" by simp
  with l(1) show ?thesis by blast
qed

text \<open>
  The removals of the object list. \<^verbatim>\<open>cl_list_remove_head\<close> and \<^verbatim>\<open>cl_list_remove_tail\<close> return and remove the
  first and the last object, and null from an empty list, which they leave as it is;
  \<^verbatim>\<open>cl_list_remove_item\<close> removes the iterator's node; \<^verbatim>\<open>cl_list_remove_object\<close> terminates, removes the
  first occurrence of the object, and reports \<^verbatim>\<open>CL_NOT_FOUND\<close> exactly when there is none.
\<close>
theorem object_list_removals:
  assumes "olist L m l items" and "length items < 2 ^ 32"
  shows "(case items of
      [] \<Rightarrow> cl_list_remove_head l m = (0, l, m) \<and> cl_list_remove_tail l m = (0, l, m)
    | x # ys \<Rightarrow>
        (case cl_list_remove_head l m of (obj, l', m') \<Rightarrow>
           obj = p_object m x \<and> olist L m' l' ys \<and> p_object m' = p_object m) \<and>
        (case cl_list_remove_tail l m of (obj, l', m') \<Rightarrow>
           obj = p_object m (last items) \<and> olist L m' l' (butlast items) \<and> p_object m' = p_object m) \<and>
        (case cl_list_remove_item l x m of (l', m') \<Rightarrow> olist L m' l' ys \<and> p_object m' = p_object m)) \<and>
    (\<exists>l' m' items'. cl_list_remove_object l obj m =
        Some (if obj \<in> p_object m ` set items then CL_SUCCESS else CL_NOT_FOUND, l', m') \<and>
      olist L m' l' items' \<and> map (p_object m') items' = remove1 obj (map (p_object m) items))"
proof (cases items)
  case Nil
  with assms list_remove_none [of L m l] list_remove_object [OF assms(1), of obj] show ?thesis by auto
next
  case (Cons x ys)
  then obtain zs z where snoc: "items = zs @ [z]" by (metis list.distinct(1) rev_exhaust)
  have "case cl_list_remove_head l m of (obj, l', m') \<Rightarrow>
      obj = p_object m x \<and> olist L m' l' ys \<and> p_object m' = p_object m"
    using list_remove_head [OF assms(1) [unfolded Cons] assms(2) [unfolded Cons]] by (auto split: prod.split)
  moreover have "case cl_list_remove_tail l m of (obj, l', m') \<Rightarrow>
      obj = p_object m (last items) \<and> olist L m' l' (butlast items) \<and> p_object m' = p_object m"
    using list_remove_tail [OF assms(1) [unfolded snoc] assms(2) [unfolded snoc]] by (auto simp: snoc split: prod.split)
  moreover have "case cl_list_remove_item l x m of (l', m') \<Rightarrow> olist L m' l' ys \<and> p_object m' = p_object m"
    using list_remove_item [of L m l "[]" x ys] assms(1) by (auto simp: Cons split: prod.split)
  moreover have "\<exists>l' m' items'. cl_list_remove_object l obj m =
        Some (if obj \<in> p_object m ` set items then CL_SUCCESS else CL_NOT_FOUND, l', m') \<and>
      olist L m' l' items' \<and> map (p_object m') items' = remove1 obj (map (p_object m) items)"
    using list_remove_object [OF assms(1), of obj] by blast
  ultimately show ?thesis by (simp only: Cons list.case simp_thms)
qed

theorem object_list_removals_witness:
  "\<exists>(l :: (u64, unit, u64 \<times> u64 list) olist) m w it l' m' items'. olist (bump_live w) m l [it] \<and> cl_list_remove_object l 7 m = Some (CL_SUCCESS, l', m') \<and>
    olist (bump_live w) m' l' items' \<and> map (p_object m') items' = []"
proof -
  obtain l :: "(u64, unit, u64 \<times> u64 list) olist" and m w it where l: "olist (bump_live w) m l [it]" "p_object m it = 7" using list2 by blast
  with object_list_removals [OF l(1), of 7] have
    "\<exists>l' m' items'. cl_list_remove_object l 7 m = Some (CL_SUCCESS, l', m') \<and>
      olist (bump_live w) m' l' items' \<and> map (p_object m') items' = []" by auto
  with l(1) show ?thesis by blast
qed

section \<open>Timers\<close>

text \<open>C23: Starting a timer. In a state of the timers that is well-formed, the start of an initialised timer succeeds. The
  timer is then queued exactly once, its timeout is the time of day plus the milliseconds asked for, without rounding and
  without overflow, and it stands behind the timers that expire strictly earlier and before all others; the others keep their
  order, their states and their timeouts. The result is well-formed again.\<close>

theorem timer_start_sorted:
  assumes "timers_inv ts e s xs" and "p \<in> ts" "e \<notin> ts" "card ts < 2 ^ 32" and "tm_state (t_mem s) p = CL_INITIALIZED"
    and "valid_clock now"
  shows "\<exists>s' ys zs. cl_timer_start now p ms s = Some (CL_SUCCESS, s') \<and> remove1 p xs = ys @ zs \<and>
    timers_inv ts e s' (ys @ p # zs) \<and> nanoseconds (tm_timeout (t_mem s') p) = 1000 * (microseconds now + 1000 * uint ms) \<and>
    timer_state (t_mem s') = (timer_state (t_mem s))(p := CL_TIMER_QUEUED) \<and>
    (\<forall>q. q \<noteq> p \<longrightarrow> tm_timeout (t_mem s') q = tm_timeout (t_mem s) q) \<and>
    (\<forall>y\<in>set ys. nanoseconds (tm_timeout (t_mem s') y) < nanoseconds (tm_timeout (t_mem s') p)) \<and>
    (\<forall>z\<in>set zs. nanoseconds (tm_timeout (t_mem s') p) \<le> nanoseconds (tm_timeout (t_mem s') z))"
proof -
  from timer_start [OF assms, of ms] obtain s' ys zs where s': "cl_timer_start now p ms s = Some (CL_SUCCESS, s')"
    "remove1 p xs = ys @ zs" "timers_inv ts e s' (ys @ p # zs)"
    "tm_timeout (t_mem s') = (tm_timeout (t_mem s))(p := cl_timer_calculate now ms)"
    "timer_state (t_mem s') = (timer_state (t_mem s))(p := CL_TIMER_QUEUED)"
    "\<forall>y\<in>set ys. cl_timer_is_earlier (tm_timeout (t_mem s) y) (cl_timer_calculate now ms)"
    "\<forall>z\<in>set zs. \<not> cl_timer_is_earlier (tm_timeout (t_mem s) z) (cl_timer_calculate now ms)" by blast
  have valid: "\<And>q. q \<in> set (ys @ p # zs) \<Longrightarrow> valid_time (tm_timeout (t_mem s') q)" using s'(3) by (auto simp: timers_inv_def)
  have "p \<notin> set ys" "p \<notin> set zs" using s'(3) by (auto simp: timers_inv_def dest: holds_distinct)
  then have "\<forall>y\<in>set ys. cl_timer_is_earlier (tm_timeout (t_mem s') y) (tm_timeout (t_mem s') p)"
    "\<forall>z\<in>set zs. \<not> cl_timer_is_earlier (tm_timeout (t_mem s') z) (tm_timeout (t_mem s') p)"
    using s'(6,7) by (auto simp: s'(4))
  then have "\<forall>y\<in>set ys. nanoseconds (tm_timeout (t_mem s') y) < nanoseconds (tm_timeout (t_mem s') p)"
    "\<forall>z\<in>set zs. nanoseconds (tm_timeout (t_mem s') p) \<le> nanoseconds (tm_timeout (t_mem s') z)"
    using is_earlier_nanoseconds [OF valid valid] by (auto simp: not_less)
  moreover have "nanoseconds (tm_timeout (t_mem s') p) = 1000 * (microseconds now + 1000 * uint ms)"
    by (simp add: s'(4) calculate_exact)
  ultimately show ?thesis using s' by (intro exI [of _ s'] exI [of _ ys] exI [of _ zs]) auto
qed

theorem timer_start_sorted_witness:
  "\<exists>s'. cl_timer_start (10, 0) 1 5000 ex_queued = Some (CL_SUCCESS, s') \<and> timers_inv {1, 2} 100 s' [2, 1]"
proof -
  from timer_start_sorted [OF ex_queued_inv, of 1 "(10, 0)" 5000] obtain s' ys zs where
    s': "cl_timer_start (10, 0) 1 5000 ex_queued = Some (CL_SUCCESS, s')" "remove1 1 [1, 2] = ys @ zs"
    "timers_inv {1, 2} 100 s' (ys @ 1 # zs)" "nanoseconds (tm_timeout (t_mem s') 1) = 15000000000"
    "tm_timeout (t_mem s') 2 = tm_timeout (t_mem ex_queued) 2"
    "\<forall>z\<in>set zs. nanoseconds (tm_timeout (t_mem s') 1) \<le> nanoseconds (tm_timeout (t_mem s') z)"
    by (auto simp: ex_queued_def valid_clock_def microseconds_def)
  have "nanoseconds (tm_timeout (t_mem s') 2) = 12000000000" by (simp add: s'(5) ex_queued_def nanoseconds_def)
  with s'(4,6) have "2 \<notin> set zs" by auto
  with s'(2) have "ys = [2] \<and> zs = []" by (cases ys) auto
  with s'(1,3) show ?thesis by auto
qed

text \<open>C24: In every state that the provider's thread and the users' threads can reach by initialising, starting, stopping and
  destroying timers in any order, with the clock moving on in between, the queue is a well-formed list that holds exactly the
  timers in the state queued, each once and ordered by timeout; a timer is marked as running only while the thread is in its
  function; and whatever a wait of the thread returns, its next section returns and the thread never meets a missing provider.\<close>

theorem timer_invariant:
  assumes "timer_reach ts e (now, pc, s)" and "e \<notin> ts" "card ts < 2 ^ 32"
  shows "\<exists>xs. holds e s xs \<and> distinct xs \<and> set xs = {p \<in> ts. timer_state (t_mem s) p = CL_TIMER_QUEUED} \<and>
    sorted (map (\<lambda>p. nanoseconds (tm_timeout (t_mem s) p)) xs) \<and>
    (\<forall>p\<in>ts. timer_state (t_mem s) p = CL_TIMER_RUNNING \<longrightarrow> pc = PROV_CALLBACK p) \<and>
    cl_timer_prov_cb ret pc s \<noteq> None"
proof -
  from timer_reach_inv [OF assms] obtain xs where inv: "timers_inv ts e s xs" "thread_inv ts pc s" by (auto simp: config_inv_def)
  have "sorted_wrt (\<lambda>p q. nanoseconds (tm_timeout (t_mem s) p) \<le> nanoseconds (tm_timeout (t_mem s) q)) xs"
    by (rule sorted_wrt_mono_rel [where P = "\<lambda>p q. \<not> cl_timer_is_earlier (tm_timeout (t_mem s) q) (tm_timeout (t_mem s) p)"])
      (use inv in \<open>auto simp: is_earlier_nanoseconds not_less timers_inv_def in_order_def\<close>)
  moreover have "cl_timer_prov_cb ret pc s \<noteq> None" using prov_cb_keeps [OF inv assms(3), of ret] by auto
  ultimately show ?thesis using inv holds_distinct [of e s xs]
    by (intro exI [of _ xs]) (auto simp: timers_inv_def thread_inv_def sorted_map)
qed

theorem timer_invariant_witness:
  "\<exists>s. timer_reach {1, 2} 100 ((10, 0), PROV_TIMEDWAIT 1 \<lparr>tv_sec = 10, tv_nsec = 0\<rparr>, s) \<and> holds 100 s [1] \<and>
    timer_state (t_mem s) 1 = CL_TIMER_QUEUED \<and> timer_state (t_mem s) 2 \<noteq> CL_TIMER_QUEUED"
proof -
  obtain s where s: "timer_reach {1, 2} 100 ((10, 0), PROV_TIMEDWAIT 1 \<lparr>tv_sec = 10, tv_nsec = 0\<rparr>, s)" "holds 100 s [1]"
    using ex_waiting by blast
  from timer_invariant [OF s(1), of 0] obtain xs where "holds 100 s xs"
    "set xs = {p \<in> {1, 2}. timer_state (t_mem s) p = CL_TIMER_QUEUED}" by auto
  with holds_unique [OF s(2)] have "{p \<in> {1, 2}. timer_state (t_mem s) p = CL_TIMER_QUEUED} = {1}" by fastforce
  then have "timer_state (t_mem s) 1 = CL_TIMER_QUEUED" "timer_state (t_mem s) 2 \<noteq> CL_TIMER_QUEUED" by force+
  with s show ?thesis by blast
qed

text \<open>C25: When the times of all queued timers have come, the thread calls the function of every one of them exactly once, in
  the order of the timeouts, without help by another thread, and then waits for the next timer to be queued: it gets through
  the queue in two sections for a timer, after which the timers are idle and the queue is empty.\<close>

theorem timer_queue_drains:
  assumes "timers_inv ts e s xs" and "\<forall>p\<in>ts. timer_state (t_mem s) p \<noteq> CL_TIMER_RUNNING"
    and "card ts < 2 ^ 32" and "\<not> prov_exit s" and "\<forall>p\<in>set xs. time_reached now (tm_timeout (t_mem s) p)"
  shows "\<exists>s'. prov_alone now (Suc (2 * length xs)) PROV_WAIT s = Some (xs, PROV_WAIT, s') \<and> timers_inv ts e s' [] \<and>
    (\<forall>p. timer_state (t_mem s') p = (if p \<in> set xs then CL_TIMER_IDLE else timer_state (t_mem s) p))"
  by (rule drain_from_wait [OF assms])

theorem timer_queue_drains_witness:
  "\<exists>s'. prov_alone (12, 0) 5 PROV_WAIT ex_queued = Some ([1, 2], PROV_WAIT, s') \<and> timers_inv {1, 2} 100 s' []"
  using timer_queue_drains [OF ex_queued_inv, of "(12, 0)"]
  by (auto simp: ex_queued_def prov_exit_def time_reached_def nanoseconds_def microseconds_def simp del: prov_alone.simps)

text \<open>C26: A timer can expire before its time. The header promises that a timer expires no sooner than the interval given to
  the start. From every reachable state in which the thread waits for a timer whose time has come, the start of this timer with
  any interval but 0 can come before the thread gets the mutex back: the thread then takes the timer, which is queued again, and
  calls its function although the new timeout has not been reached.\<close>

theorem timer_fires_early:
  assumes "timer_reach ts e (now, PROV_TIMEDWAIT p t, s)" and "e \<notin> ts" "card ts < 2 ^ 32" and "time_reached now t"
    and "tm_state (t_mem s) p = CL_INITIALIZED" and "(ms :: u32) \<noteq> 0"
  shows "\<exists>s1 s2. cl_timer_start now p ms s = Some (CL_SUCCESS, s1) \<and>
    cl_timer_prov_cb ETIMEDOUT (PROV_TIMEDWAIT p t) s1 = Some (PROV_CALLBACK p, s2) \<and>
    timer_reach ts e (now, PROV_CALLBACK p, s2) \<and> \<not> time_reached now (tm_timeout (t_mem s2) p)"
proof -
  from timer_reach_inv [OF assms(1-3)] obtain xs where "timers_inv ts e s xs" "p \<in> ts" "valid_clock now"
    by (auto simp: config_inv_def thread_inv_def)
  from early_call [OF this(1,2) assms(2,3,5) this(3) assms(4,6)] show ?thesis
    using timer_reach.later [OF timer_reach.later [OF assms(1)]] by blast
qed

theorem timer_fires_early_witness:
  "\<exists>s. timer_reach {1, 2} 100 ((10, 0), PROV_CALLBACK 1, s) \<and> \<not> time_reached (10, 0) (tm_timeout (t_mem s) 1)"
proof -
  obtain s where s: "timer_reach {1, 2} 100 ((10, 0), PROV_TIMEDWAIT 1 \<lparr>tv_sec = 10, tv_nsec = 0\<rparr>, s)"
    "tm_state (t_mem s) 1 = CL_INITIALIZED" using ex_waiting by blast
  have "time_reached (10, 0) \<lparr>tv_sec = 10, tv_nsec = 0\<rparr>" by (simp add: time_reached_def nanoseconds_def microseconds_def)
  from timer_fires_early [OF s(1) _ _ this s(2), of 5000] show ?thesis by auto
qed

section \<open>Remote procedure calls\<close>

text \<open>C27: Receiving a command. However the system cuts the bytes of a connection into pieces, the calls that the server makes
  when bytes have come put the command together: when the size in its header is the length of the message and the message fits
  the buffer, they end with success after finitely many calls, the buffer starts with exactly the message and is
  unchanged behind it, the position is ready for the next command, and no byte of what follows has been taken.\<close>

theorem rpc_receive_reassembles:
  assumes "delivers sys (ch_socket ch) pend" and "unat (hd_msg_size h) = 20 + length body"
    and "20 + length body \<le> length buffer" and "pend w = command_head_bytes h @ body @ rest"
  shows "\<exists>w'. receive_until sys ch buffer 0 w =
      Some (SX_RPC_STATUS_SUCCESS, command_head_bytes h @ body @ drop (20 + length body) buffer, 0, w') \<and> pend w' = rest"
proof -
  have "partial_message pend (command_head_bytes h @ body) rest buffer 0 w" using assms(3,4) by (simp add: partial_message_def)
  from receive_until_all [OF assms(1) refl _ this] assms(2) show ?thesis by simp
qed

theorem rpc_receive_reassembles_witness:
  "\<exists>w'. receive_until ex_pipe ex_channel (replicate 32 0) 0 (command_head_bytes (ex_head 22) @ [1, 2, 3]) =
    Some (SX_RPC_STATUS_SUCCESS, command_head_bytes (ex_head 22) @ [1, 2] @ replicate 10 0, 0, w') \<and> w' = [3]"
  using rpc_receive_reassembles [OF ex_pipe_laws(1), where h = "ex_head 22" and body = "[1, 2]" and rest = "[3]"
      and buffer = "replicate 32 0" and ch = ex_channel]
  by (simp add: ex_head_def)

text \<open>C28: A reply is read as it was written. The status and the body that the server sends arrive at the client, whatever the
  sizes of the pieces on both sides, when the body fits the room the client has: the client's receive returns success, its
  header holds the status, its body is the body, and nothing is left of the reply.\<close>

theorem rpc_reply_round_trip:
  assumes "accepts sys (ch_socket a) pend" "delivers sys (ch_socket c) pend" and "pend w = []"
    and "length b < 2 ^ 31" "length b \<le> unat reply_size" and "- (2 ^ 31) \<le> retcode" "retcode < 2 ^ 31"
  shows "\<exists>w1 w2 head. sx_rpc_api_send_reply_wrapper sys a retcode (Some b) (of_nat (length b)) w = Some (SX_RPC_STATUS_SUCCESS, w1) \<and>
    sx_rpc_receive_message sys c reply_size w1 = Some (SX_RPC_STATUS_SUCCESS, head, b, w2) \<and> pend w2 = [] \<and>
    sint (rh_retcode (reply_head head)) = retcode \<and> rh_msg_size (reply_head head) = 16 + of_nat (length b)"
  by (rule reply_round_trip [OF assms])

theorem rpc_reply_round_trip_witness:
  "\<exists>w1 w2 head. sx_rpc_api_send_reply_wrapper ex_pipe ex_channel (-3) (Some [1, 2, 3, 4]) 4 [] = Some (SX_RPC_STATUS_SUCCESS, w1) \<and>
    sx_rpc_receive_message ex_pipe ex_channel 8 w1 = Some (SX_RPC_STATUS_SUCCESS, head, [1, 2, 3, 4], w2) \<and>
    sint (rh_retcode (reply_head head)) = -3"
  using rpc_reply_round_trip [OF ex_pipe_laws(2,1), of "[]" "[1, 2, 3, 4]" 8 "-3" ex_channel ex_channel] by auto

text \<open>C29: The table of commands is the partial map of the list it is made from. When there is memory for the entries, the
  initialisation returns success, and a lookup returns the last command of the list with the identifier asked for, or an
  error when there is none; operation codes above the range of the identifiers stand for the negative ones.\<close>

theorem rpc_command_table:
  assumes "fresh_blocks sys live avail" "length cmds \<le> avail w1" and "rs_plock_init sys w = (CL_SUCCESS, w1)"
    and "qm_root (cmd_map s) \<noteq> qm_nil (cmd_map s)" "{qm_root (cmd_map s), qm_nil (cmd_map s)} \<subseteq> live w1"
    and "\<forall>c\<in>set cmds. - (2 ^ 31) \<le> cmd_id c \<and> cmd_id c < 2 ^ 31"
  shows "\<exists>s' w'. sx_rpc_api_rpc_command_db_init sys cmds s w = Some (SX_RPC_STATUS_SUCCESS, s', w') \<and>
    (\<forall>opcode. sx_rpc_core_api_command_get opcode s' = Some (case table_of cmds (sint opcode) of
      None \<Rightarrow> (SX_RPC_STATUS_ERROR, None) | Some c \<Rightarrow> (SX_RPC_STATUS_SUCCESS, Some c)))"
  by (rule command_db [OF assms])

theorem rpc_command_table_witness:
  "\<exists>s' w'. sx_rpc_api_rpc_command_db_init ex_rpc_sys
      [ex_command 7 SX_RPC_API_CMD_PRIO_LOW, ex_command 7 SX_RPC_API_CMD_PRIO_HIGH, ex_command (-1) SX_RPC_API_CMD_PRIO_LOW]
      (ex_server []) 0 = Some (SX_RPC_STATUS_SUCCESS, s', w') \<and>
    sx_rpc_core_api_command_get 7 s' = Some (SX_RPC_STATUS_SUCCESS, Some (ex_command 7 SX_RPC_API_CMD_PRIO_HIGH)) \<and>
    sx_rpc_core_api_command_get 8 s' = Some (SX_RPC_STATUS_ERROR, None)"
proof -
  let ?cmds = "[ex_command 7 SX_RPC_API_CMD_PRIO_LOW, ex_command 7 SX_RPC_API_CMD_PRIO_HIGH, ex_command (-1) SX_RPC_API_CMD_PRIO_LOW]"
  have "rs_plock_init ex_rpc_sys 0 = (CL_SUCCESS, 0)" by (simp add: ex_rpc_sys_def)
  from rpc_command_table [OF ex_fresh_blocks _ this, of ?cmds "ex_server []"] obtain s' w' where
    r: "sx_rpc_api_rpc_command_db_init ex_rpc_sys ?cmds (ex_server []) 0 = Some (SX_RPC_STATUS_SUCCESS, s', w')"
    "\<And>opcode. sx_rpc_core_api_command_get opcode s' = Some (case table_of ?cmds (sint opcode) of
      None \<Rightarrow> (SX_RPC_STATUS_ERROR, None) | Some c \<Rightarrow> (SX_RPC_STATUS_SUCCESS, Some c))"
    by (auto simp: ex_server_def ex_rpc_live_def ex_command_def)
  from r(1) r(2) [of 7] r(2) [of 8] show ?thesis by (simp add: table_of_def ex_command_def)
qed

text \<open>C30: The queue of a priority is a ring that is never checked to be full. As long as one slot stays free, the worker
  serves the sources that were waiting and those that are queued in the order in which they went in: while the queues of the
  higher priorities are empty, each of its next turns dispatches the next source (and closes it when the dispatch fails) and
  takes it off, until the queue is empty. The source that takes the last free slot empties the queue: the worker's next turn
  passes over it to the lower priorities, and goes to wait when these are empty, too, so that all the commands that were
  waiting in it, and this one, are not served; the queue is a good one again, and what is queued next is served alone.\<close>

theorem rpc_queue_overflow:
  assumes "i < 3" "i < length (wk_prio_buf (rpc_td_worker s))" "idle_above i s" "queue_wf (prio_buf s i)"
    and "length (queued (prio_buf s i)) + length idxs \<le> unat (work_queue_size (prio_buf s i))"
  shows "if idxs \<noteq> [] \<and> length (queued (prio_buf s i)) + length idxs = unat (work_queue_size (prio_buf s i))
    then worker_serve sys 3 (queue_events sys i w0 idxs s) w = worker_serve sys i (queue_events sys i w0 idxs s) w \<and>
      ((\<forall>j<i. work_queue_cons (prio_buf s j) = work_queue_prod (prio_buf s j)) \<longrightarrow>
        worker_serve sys 3 (queue_events sys i w0 idxs s) w = Some (True, queue_events sys i w0 idxs s, w)) \<and>
      queue_wf (prio_buf (queue_events sys i w0 idxs s) i) \<and> queued (prio_buf (queue_events sys i w0 idxs s) i) = []
    else worker_turns sys (length (queued (prio_buf s i)) + length idxs) (queue_events sys i w0 idxs s) w =
        map_option (\<lambda>(s', w'). (replicate (length (queued (prio_buf s i)) + length idxs) False, s', w'))
          (serve_list sys i (queued (prio_buf s i) @ map HIGH_SRC idxs) (queue_events sys i w0 idxs s) w) \<and>
      (\<forall>s' w'. serve_list sys i (queued (prio_buf s i) @ map HIGH_SRC idxs) (queue_events sys i w0 idxs s) w = Some (s', w') \<longrightarrow>
        queued (prio_buf s' i) = [])"
proof -
  let ?s = "queue_events sys i w0 idxs s"
  note same = queue_events_same [OF assms(2), of sys w0 idxs]
  have wf: "queue_wf (prio_buf ?s i)" by (rule queue_events_wf [OF assms(2,4)])
  have idle: "idle_above i ?s" using assms(3) same by (simp add: idle_above_def)
  show ?thesis
  proof (cases "idxs \<noteq> [] \<and> length (queued (prio_buf s i)) + length idxs = unat (work_queue_size (prio_buf s i))")
    case True
    with queue_events_queued(2) [OF assms(2,4), of idxs sys w0] have q: "queued (prio_buf ?s i) = []" by blast
    then have e: "work_queue_cons (prio_buf ?s i) = work_queue_prod (prio_buf ?s i)" using queue_empty [OF wf] by simp
    have skip: "worker_serve sys 3 ?s w = worker_serve sys i ?s w"
      by (rule serve_skips) (use idle e assms(1) in \<open>auto simp: idle_above_def order_le_less\<close>)
    moreover have "worker_serve sys i ?s w = Some (True, ?s, w)"
      if "\<forall>j<i. work_queue_cons (prio_buf s j) = work_queue_prod (prio_buf s j)"
      using serve_skips [of 0 i ?s sys w] that same by simp
    ultimately show ?thesis using True q wf by simp
  next
    case False
    then have "queued (prio_buf ?s i) = queued (prio_buf s i) @ map HIGH_SRC idxs"
      using queue_events_queued(1) [OF assms(2,4), of idxs sys w0] assms(5) by (cases "idxs = []") (auto simp: queue_events_def)
    from worker_serves [OF assms(1) _ idle wf this, of sys w] same assms(2) False show ?thesis by auto
  qed
qed

theorem rpc_queue_overflow_witness:
  "(\<exists>s' w'. worker_turns ex_rpc_sys 2 (queue_events ex_rpc_sys 2 0 [0, 1] ex_busy_server) 0 = Some ([False, False], s', w') \<and>
      map es_state (rpc_high_prio_event_srcs s') = [SX_RPC_EVENT_SRC_STATE_NOT_ACTIVE, SX_RPC_EVENT_SRC_STATE_NOT_ACTIVE,
        SX_RPC_EVENT_SRC_STATE_ACTIVE]) \<and>
   worker_serve ex_rpc_sys 3 (queue_events ex_rpc_sys 2 0 [0, 1, 2] ex_busy_server) 0 =
     Some (True, queue_events ex_rpc_sys 2 0 [0, 1, 2] ex_busy_server, 0)"
proof -
  have s: "2 < length (wk_prio_buf (rpc_td_worker ex_busy_server))" "idle_above 2 ex_busy_server" "queue_wf (prio_buf ex_busy_server 2)"
    "queued (prio_buf ex_busy_server 2) = []" "unat (work_queue_size (prio_buf ex_busy_server 2)) = 3"
    "\<forall>j<2. work_queue_cons (prio_buf ex_busy_server j) = work_queue_prod (prio_buf ex_busy_server j)"
    by (simp_all add: ex_busy_server_def ex_server_def prio_buf_def queue_wf_def queued_def queue_count_def idle_above_def
        less_2_cases_iff ex_ring_def)
  have head: "command_head (es_buffer ex_source) = (ex_head 20)\<lparr>hd_opcode := SX_RPC_API_CMD_CLOSE_EVENT_SRC\<rparr>"
    using command_head_inverse(1) [of "(ex_head 20)\<lparr>hd_opcode := SX_RPC_API_CMD_CLOSE_EVENT_SRC\<rparr>" "[]"] by (simp add: ex_source_def)
  have chan: "es_commchnl ex_source = ex_channel" "es_state ex_source = SX_RPC_EVENT_SRC_STATE_ACTIVE" by (simp_all add: ex_source_def)
  obtain s' w' where serve: "serve_list ex_rpc_sys 2 (map HIGH_SRC [0, 1]) (queue_events ex_rpc_sys 2 0 [0, 1] ex_busy_server) 0 = Some (s', w')"
    "map es_state (rpc_high_prio_event_srcs s') = [SX_RPC_EVENT_SRC_STATE_NOT_ACTIVE, SX_RPC_EVENT_SRC_STATE_NOT_ACTIVE,
        SX_RPC_EVENT_SRC_STATE_ACTIVE]"
    by (simp add: queue_events_def queue_event_def sx_rpc_core_api_dispatch_def close_event_src_def get_src_def put_src_def head chan
        ex_busy_server_def ex_server_def set_prio_buf_def numeral_3_eq_3 SX_RPC_STATUS_INT_COMM_CLOSE_def SX_RPC_STATUS_SUCCESS_def
        sx_rpc_update_fd_sets_def split_beta Let_def)
  have two: "worker_turns ex_rpc_sys 2 = worker_turns ex_rpc_sys (Suc (Suc 0))" by (simp add: numeral_2_eq_2)
  have "worker_turns ex_rpc_sys 2 (queue_events ex_rpc_sys 2 0 [0, 1] ex_busy_server) 0 = Some ([False, False], s', w')"
    unfolding two using rpc_queue_overflow [OF _ s(1-3), of "[0, 1]" ex_rpc_sys 0 0] s(4,5) serve(1)
    by (simp del: worker_turns.simps serve_list.simps worker_serve.simps)
  moreover have "worker_serve ex_rpc_sys 3 (queue_events ex_rpc_sys 2 0 [0, 1, 2] ex_busy_server) 0 =
     Some (True, queue_events ex_rpc_sys 2 0 [0, 1, 2] ex_busy_server, 0)"
    using rpc_queue_overflow [OF _ s(1-3), of "[0, 1, 2]" ex_rpc_sys 0 0] s(4-6) by (auto simp del: worker_serve.simps)
  ultimately show ?thesis using serve(2) by (intro conjI exI [of _ s'] exI [of _ w'])
qed

text \<open>C31: A command that is too long overruns the buffer. The size in the header of a command is compared with the size of the
  buffer only by an assertion, which the release build leaves out: when the header arrives with a size beyond the buffer and
  the next receive delivers more bytes than there is room for, the server writes outside the buffer.\<close>

theorem rpc_oversized_overruns:
  assumes "length buffer < unat (hd_msg_size h)" "20 \<le> length buffer"
    and "cs_recv sys (ch_socket ch) 20 w = (Some (command_head_bytes h), w1)"
    and "cs_recv sys (ch_socket ch) (unat (hd_msg_size h) - 20) w1 = (Some data, w2)" "length buffer < 20 + length data"
  shows "sx_rpc_api_receive_command sys ch buffer 0 w = None"
  by (rule oversized_overruns [OF assms])

theorem rpc_oversized_overruns_witness:
  "sx_rpc_api_receive_command (ex_pipe\<lparr>cs_recv := \<lambda>fd n w. (Some (take n w), drop n w)\<rparr>) ex_channel (replicate 32 0) 0
    (command_head_bytes (ex_head 40) @ replicate 20 1) = None"
  by (rule rpc_oversized_overruns [where h = "ex_head 40" and ?w1.0 = "replicate 20 1" and data = "replicate 20 1" and ?w2.0 = "[]"])
    (simp_all add: ex_head_def)

section \<open>The object map\<close>

text \<open>C32:
  The insertion of the object map refines the update of a partial map. It always returns. When a node is
  there, which is the case while the pool has a free one, the object is stored at a key that was free, and the
  result is that object; at a key that was taken the map stays as it is, and the result is the object
  stored there before (the node goes back to the pool). Without a node the result is null
  and the map is as it was. The structure is well formed after each of these cases.
\<close>
theorem object_map_insert:
  assumes "heap_law os live" and "map_law os"
    and "omap_rep (live w) m mp items" and "room (mp_qc mp) (length items)"
  shows "stores live mp m items key obj (cl_map_insert os mp key obj m w)"
  by (rule map_insert [OF assms])

theorem object_map_insert_witness:
  "\<exists>mp m w items. contents m items = [5 \<mapsto> 7] \<and>
    stores bump_live (mp :: (unit, u64 \<times> u64 list) omap) m items 5 9 (cl_map_insert bump_heap mp 5 9 m w)"
proof -
  obtain mp :: "(unit, u64 \<times> u64 list) omap" and m w items where
    one: "omap_rep (bump_live w) m mp items" "room (mp_qc mp) (length items)" "contents m items = [5 \<mapsto> 7]"
    using map2_entry by blast
  from object_map_insert [OF bump_law bump_map_law one(1,2), of 5 9] one(3) show ?thesis by blast
qed

text \<open>
  Lookup and removal of the object map are those of a partial map. \<^verbatim>\<open>cl_map_get\<close> returns the object stored at the
  key, or null; \<^verbatim>\<open>cl_map_get_next\<close> the object at the least greater key, or null; \<^verbatim>\<open>cl_map_remove\<close> returns what
  \<^verbatim>\<open>cl_map_get\<close> would, and the key is free afterwards, every other entry being kept; \<^verbatim>\<open>cl_map_remove_all\<close>
  terminates and leaves the empty map. Each keeps the structure well formed.
\<close>
theorem object_map_lookup_remove:
  assumes "omap_rep L m mp items"
  shows "cl_map_get mp key m = Some (case contents m items key of Some obj \<Rightarrow> obj | None \<Rightarrow> 0) \<and>
    cl_map_get_next mp key m = Some (case find (\<lambda>x. key < p_key m x) items of Some x \<Rightarrow> p_object m x | None \<Rightarrow> 0) \<and>
    (\<exists>mp' m' items'. cl_map_remove mp key m =
        Some (case contents m items key of Some obj \<Rightarrow> obj | None \<Rightarrow> 0, mp', m') \<and>
      omap_rep L m' mp' items' \<and> contents m' items' = (contents m items)(key := None)) \<and>
    (\<exists>mp' m'. cl_map_remove_all mp m = Some (mp', m') \<and> omap_rep L m' mp' [] \<and> contents m' [] = Map.empty)"
  using map_get [OF assms] map_get_next [OF assms] map_remove [OF assms, of key] map_remove_all [OF assms] by blast

theorem object_map_lookup_remove_witness:
  "\<exists>mp m items mp' m'. contents m items = [5 \<mapsto> 7] \<and> cl_map_get (mp :: (unit, u64 \<times> u64 list) omap) 5 m = Some 7 \<and>
    cl_map_remove mp 5 m = Some (7, mp', m')"
proof -
  obtain mp :: "(unit, u64 \<times> u64 list) omap" and m w items where
    one: "omap_rep (bump_live w) m mp items" "contents m items = [5 \<mapsto> 7]"
    using map2_entry by blast
  from object_map_lookup_remove [OF one(1), of 5] one(2) show ?thesis by auto
qed

section \<open>The forwarding database\<close>

text \<open>C33:
  Adding a record refines the update of a partial map from keys, made of the MAC address and the VLAN, to records.
  The call returns. When the key is known, or an entry is free, the result is 0 and the record is
  stored at its key; otherwise the result is \<^verbatim>\<open>-ENOMEM\<close> and nothing is changed. In every case each entry of the map
  is in the list of its VLAN, in the list of its port and in the list of its port and VLAN, and in no other list, and the
  lists that are in the filter map are not empty. The caller's record lies outside of the memory of the database, and its VLAN is below
  4096. The hypothesis on the capacities holds for the
  sizes in the code as long as there are at most 200 ports.
\<close>
theorem fdb_add_record:
  assumes "fdb z L sz s m es" and "p \<noteq> 0" and "vlan_of m p < MAX_VLAN_ENTRIES" and "z p = ZNone"
    and "card (ports m (insert p (set es))) + capacity (main_db_pool s) \<le> capacity (fdb_fltr_pool s)"
  shows "\<exists>err s' m' es'. fdb_uc_db_add_record os sz s p m w = Some (err, s', m', w) \<and> fdb z L sz s' m' es' \<and>
    (if entry_key m p \<in> dom (db_of m es) \<or> length es < capacity (main_db_pool s)
     then err = 0 \<and> db_of m' es' = (db_of m es)(entry_key m p \<mapsto> record_at m p)
     else err = - ENOMEM \<and> s' = s \<and> m' = m \<and> es' = es)"
  using fdb_add [OF assms, of os w] by (elim exE conjE) (intro exI conjI, assumption+)

theorem fdb_add_record_witness:
  "\<exists>s' m' es'. fdb_uc_db_add_record ex_heap 24 ex_fdb 0x5000 ex_fdb_mem () = Some (0, s', m', ()) \<and>
    fdb ex_zone ex_live 24 s' m' es' \<and> db_of m' es' = [ex_key \<mapsto> ex_record]"
  using fdb_add_record [OF ex_fdb_ok _ ex_caller(1,2), of ex_heap "()"] ex_caller(4,5) ex_caller(3,6) [where 'w = unit]
  by (auto simp: db_of_def)

text \<open>C34:
  Lookup and deletion are those of the partial map. \<^verbatim>\<open>fdb_uc_db_get_record_by_key\<close> returns the entry that
  holds the record stored at the key, or \<^verbatim>\<open>-ENOENT\<close> and null. Deleting an entry of the map succeeds, removes exactly
  its key, takes the entry out of its three lists, drops the lists that have become empty, and
  keeps all of the invariant; the entry can be handed out again.
\<close>
theorem fdb_delete_record:
  assumes "fdb z L sz s m es" and "e \<in> set es"
  shows "(\<exists>err x. fdb_uc_db_get_record_by_key s key m = Some (err, x) \<and>
      (case db_of m es key of None \<Rightarrow> err = - ENOENT \<and> x = 0 | Some r \<Rightarrow> err = 0 \<and> x \<in> set es \<and> record_at m x = r)) \<and>
    (\<exists>s' m'. fdb_uc_db_delete_record sz s e m = Some (0, s', m') \<and> fdb z L sz s' m' (remove1 e es) \<and>
      db_of m' (remove1 e es) = (db_of m es)(entry_key m e := None))"
proof -
  have "entries z L sz s m es" "p_key m e = entry_key m e" using assms by (simp_all add: fdb_def)
  with fdb_delete [OF assms] fdb_lookup [of z L sz s m es key] show ?thesis by auto
qed

theorem fdb_delete_record_witness:
  "\<exists>s m e s' m'. fdb_uc_db_get_record_by_key (s :: unit fdb_state) ex_key m = Some (0, e) \<and>
    fdb_uc_db_delete_record 24 s e m = Some (0, s', m') \<and> fdb ex_zone ex_live 24 s' m' []"
proof -
  obtain s :: "unit fdb_state" and m e where
    one: "fdb ex_zone ex_live 24 s m [e]" "db_of m [e] = [ex_key \<mapsto> ex_record]" using ex_fdb_one by blast
  from fdb_delete_record [OF one(1), of e ex_key] one(2) have
    "fdb_uc_db_get_record_by_key s ex_key m = Some (0, e)"
    "\<exists>s' m'. fdb_uc_db_delete_record 24 s e m = Some (0, s', m') \<and> fdb ex_zone ex_live 24 s' m' []" by auto
  then show ?thesis by blast
qed

text \<open>C35:
  The enumeration by a filter is exact: taking the first entry and then the next one until there is none
  terminates and gives each entry that matches the filter (by VLAN, by port, or by both) once, and no
  other. The three functions that count entries return the numbers of these entries. Ports are below
  \<^verbatim>\<open>2^32\<close>: the keys of the lists have no more room.
\<close>
theorem fdb_enumeration:
  assumes "fdb z L sz s m es" and "filter_by_vid f \<or> filter_by_log_port f"
    and "filter_by_log_port f \<or> unat (filter_vid f) < MAX_VLAN_ENTRIES"
    and "\<forall>e\<in>set es. log_port (mac_params m e) < 2 ^ 32" and "filter_log_port f < 2 ^ 32"
  shows "(\<exists>xs. enumerate_filter sz s f m = Some xs \<and> distinct xs \<and> set xs = {e \<in> set es. matches m f e}) \<and>
    fdb_uc_db_filter_get_number_of_vid_entries s (filter_vid f) c =
      (0, of_nat (card {e \<in> set es. vid (mac_params m e) = filter_vid f})) \<and>
    fdb_uc_db_filter_get_number_of_port_entries s (filter_log_port f) c m =
      Some (0, of_nat (card {e \<in> set es. log_port (mac_params m e) = filter_log_port f})) \<and>
    fdb_uc_db_filter_get_number_of_port_vid_entries s (filter_log_port f) (filter_vid f) c m =
      Some (0, of_nat (card {e \<in> set es. log_port (mac_params m e) = filter_log_port f \<and> vid (mac_params m e) = filter_vid f}))"
proof (intro conjI)
  have P: "log_port (mac_params m e) < 2 ^ 32" if "e \<in> set es" for e using assms(4) that by blast
  show "\<exists>xs. enumerate_filter sz s f m = Some xs \<and> distinct xs \<and> set xs = {e \<in> set es. matches m f e}"
    by (rule fdb_enumerate [OF assms(1-3) P assms(5)])
qed (rule fdb_count_vlan [OF assms(1)] fdb_count_ports [OF assms(1) _ assms(5)]; use assms(4) in blast)+

theorem fdb_enumeration_witness:
  "\<exists>s m e. enumerate_filter 24 (s :: unit fdb_state) \<lparr>filter_by_vid = True, filter_vid = 5, filter_by_log_port = True, filter_log_port = 7\<rparr> m =
      Some [e] \<and> fdb_uc_db_filter_get_number_of_port_entries s 7 0 m = Some (0, 1)"
proof -
  let ?f = "\<lparr>filter_by_vid = True, filter_vid = 5, filter_by_log_port = True, filter_log_port = 7\<rparr>"
  obtain s :: "unit fdb_state" and m e where
    one: "fdb ex_zone ex_live 24 s m [e]" "db_of m [e] = [ex_key \<mapsto> ex_record]" using ex_fdb_one by blast
  then have rec: "mac_params m e = ex_params"
    by (simp add: db_of_def keyed_def record_at_def ex_record_def fun_eq_iff split: if_split_asm) metis
  then have A: "{x \<in> set [e]. matches m ?f x} = {e}" "{x \<in> set [e]. log_port (mac_params m x) = 7} = {e}"
    by (auto simp: matches_def ex_params_def)
  have f: "filter_by_vid ?f \<or> filter_by_log_port ?f" "filter_by_log_port ?f \<or> unat (filter_vid ?f) < MAX_VLAN_ENTRIES"
    "\<forall>x\<in>set [e]. log_port (mac_params m x) < 2 ^ 32" "filter_log_port ?f < 2 ^ 32" by (simp_all add: rec ex_params_def)
  note en = fdb_enumeration [OF one(1) f, of 0]
  from en obtain xs where xs: "enumerate_filter 24 s ?f m = Some xs" "distinct xs" "set xs = {e}" unfolding A by blast
  from en have n: "fdb_uc_db_filter_get_number_of_port_entries s 7 0 m = Some (0, of_nat (card {e}))"
    unfolding fdb_uc_key_filter.simps A by blast
  have "length xs = 1" using distinct_card [OF xs(2)] xs(3) by simp
  with xs(3) have "xs = [e]" by (cases xs) auto
  with xs(1) n show ?thesis by (intro exI [of _ s] exI [of _ m] exI [of _ e]) simp
qed

text \<open>C36:
  A record of which the VLAN is out of range and the key new is refused with \<^verbatim>\<open>-EPERM\<close>, but only after it was
  put into the map: it is found by its key, it is in no list, so no enumeration by VLAN or port yields it,
  and deleting it fails with \<^verbatim>\<open>-EPERM\<close> and changes nothing, so its place in the pool is lost.
\<close>
theorem fdb_bad_vlan_stays:
  assumes "fdb z L sz s m es" and "p \<noteq> 0" and "entry_key m p \<notin> dom (db_of m es)"
    and "MAX_VLAN_ENTRIES \<le> vlan_of m p" and "z p = ZNone" and "length es < capacity (main_db_pool s)"
  shows "\<exists>s' m' es' e. fdb_uc_db_add_record os sz s p m w = Some (- EPERM, s', m', w) \<and>
    entries z L sz s' m' es' \<and> lists_of z L sz s' m' m' (set es) \<and> set es' = insert e (set es) \<and> e \<notin> set es \<and>
    db_of m' es' = (db_of m es)(entry_key m p \<mapsto> record_at m p) \<and>
    fdb_uc_db_get_record_by_key s' (entry_key m p) m' = Some (0, e) \<and>
    fdb_uc_db_delete_record sz s' e m' = Some (- EPERM, s', m')"
proof -
  have "entry_key m p \<notin> p_key m ` set es" using assms(3) by (simp add: db_of_def keyed_dom)
  with fdb_bad_vlan [OF assms(1,2) _ _ assms(5,6)] assms(4) show ?thesis by simp
qed

theorem fdb_bad_vlan_stays_witness:
  "\<exists>s' m' e. fdb_uc_db_add_record ex_heap 24 ex_fdb 0x5000
      (ex_fdb_mem\<lparr>mac_params := \<lambda>_. ex_params\<lparr>vid := 4096\<rparr>\<rparr>) () = Some (- EPERM, s', m', ()) \<and>
    fdb_uc_db_delete_record 24 s' e m' = Some (- EPERM, s', m')"
proof -
  let ?m = "ex_fdb_mem\<lparr>mac_params := \<lambda>_. ex_params\<lparr>vid := 4096\<rparr>\<rparr>"
  have db: "fdb ex_zone ex_live 24 (ex_fdb :: unit fdb_state) ?m []"
  proof -
    have t: "touches ex_zone {} ex_fdb_mem ?m" by (simp add: touches_def agree_on_def)
    have "entries ex_zone ex_live 24 (ex_fdb :: unit fdb_state) ?m []"
      by (rule entries_frame(1) [OF _ t]) (use ex_fdb_ok [where 'a = unit] in \<open>auto simp: fdb_def\<close>)
    moreover have "lists_of ex_zone ex_live 24 (ex_fdb :: unit fdb_state) ex_fdb_mem ex_fdb_mem {}"
      using ex_fdb_ok [where 'a = unit] by (simp add: fdb_def)
    then have "lists_of ex_zone ex_live 24 (ex_fdb :: unit fdb_state) ?m ex_fdb_mem {}" by (rule lists_frame [OF _ t])
    then have "lists_of ex_zone ex_live 24 (ex_fdb :: unit fdb_state) ?m ?m {}" by (rule iffD2 [OF lists_of_cong, rotated]) simp
    ultimately show ?thesis by (simp add: fdb_def)
  qed
  have "MAX_VLAN_ENTRIES \<le> vlan_of ?m 0x5000" by (simp add: vlan_of_def MAX_VLAN_ENTRIES_def)
  from fdb_bad_vlan_stays [OF db _ _ this ex_caller(2), of ex_heap "()"] ex_caller(6) [where 'w = unit] show ?thesis
    by (simp add: db_of_def) blast
qed

section \<open>The learning engine\<close>

text \<open>C37:
  Setting entries. The call of the user returns. To add, the hardware layer is asked to set exactly the entries that are
  not in the database in the same form, and of these the first ones, as many as the pool has free records; to delete, it is asked to
  delete exactly the entries that are in the database. The result is the error of the hardware layer, which leaves
  the entries that failed in the caller's array and their number in the caller's counter; on success the array is as it was and
  the counter is 0 (the header says it is not changed). An entry that did not fail is in the database afterwards, with
  its port and its type (or, after the command to delete, no longer in it). An entry that failed, and an
  entry for which there was no room, has the record it had before, or none; the latter is not reported, and the
  result can be 0. Every other record is what it was. The lock is free again, and the database keeps its invariant.
  Conditions: learning was started, no callback for notifications or cookies is registered, memory can be allocated,
  the hardware layer returns no more entries than it got; the entries have different keys (MAC address and
  VLAN), pass the check of unicast addresses and types, and are at most 670, the length of an array
  that the code does not check; to add, their VLANs are below 4096 and the filter pool has a list head for each port
  and each entry that can be there.
\<close>
theorem learn_set_entries:
  assumes "fdb z L sz (learn_db s) m es" and "outside z sz frame" and "ctrl_learn_init_deinit_cb s = None"
    and "fdb_lock \<longrightarrow> \<not> fdb_locked s" and "is_ctrl_learn_start s" and "ctrl_learn_notification_cb s = None"
    and "n \<noteq> 0" and "unat n \<le> length macs" and "settable (learn_db s) Q cmd (take (unat n) macs) (db_of m es)"
    and "\<forall>k w. fst (os_malloc os k w) \<noteq> 0"
    and "\<forall>as w. length (fst (snd (hal_uc_mac_addr_set hal cmd (ctrl_learn_br_id s) as w))) \<le> length as"
  shows "\<exists>err failed db' t.
    hal_answer hal cmd (ctrl_learn_br_id s) (served (learn_db s) cmd (db_of m es) (take (unat n) macs)) err failed \<and>
    ctrl_learn_api_fdb_uc_mac_addr_set os hal sz frame env stack junk cmd (Some macs) (Some n) oc fdb_lock (s, m, w) =
      Some (err, Some (failed @ drop (length failed) macs), Some (of_nat (length failed)), t) \<and>
    leaves z L sz s db' t \<and> set_outcome (learn_db s) cmd (take (unat n) macs) failed (db_of m es) db'"
  using set_entries [OF assms(1-9)] assms(10,11) by blast

theorem learn_set_entries_witness:
  "\<exists>db' t p c. ctrl_learn_api_fdb_uc_mac_addr_set ex_malloc hal_stub 24 0x5000 ex_env ex_notify (\<lambda>_. ex_mac) OES_ACCESS_CMD_ADD
      (Some [ex_mac, ex_other_mac]) (Some 2) 0 True (ex_learn ex_fdb, ex_fdb_mem, ()) =
      Some (0, Some [ex_mac, ex_other_mac], Some 0, t) \<and>
    leaves ex_zone ex_live 24 (ex_learn ex_fdb) db' t \<and> db' ex_key = Some (p, c, FDB_UC_AGEABLE) \<and>
    db' (key_of (mac_addr_params ex_other_mac)) = None"
proof -
  let ?d = "ex_fdb :: unit fdb_state" and ?as = "[ex_mac, ex_other_mac]"
  have mac: "mac_addr_params ex_mac = ex_params" "addr_entry_type ex_mac = FDB_UC_AGEABLE" by (simp_all add: ex_mac_def)
  have chk: "check_entries OES_ACCESS_CMD_ADD ?as = 0"
    by (simp add: ex_mac_def ex_other_mac_def ex_params_def FDB_GROUP_ADDRESS_MASK_def)
  have ok: "settable (learn_db (ex_learn ?d)) {7} OES_ACCESS_CMD_ADD (take (unat (2 :: u16)) ?as) (db_of ex_fdb_mem [])"
    using ex_heads(1) [where 'w = unit] ex_heads(2) ex_params_facts ex_other_facts chk
    by (auto simp: settable_def ex_learn_def mac CTRL_LEARN_FDB_NOTIFY_SIZE_MAX_def)
  have db: "fdb ex_zone ex_live 24 (learn_db (ex_learn ?d)) ex_fdb_mem []" by (simp add: ex_learn_def ex_fdb_ok)
  have st: "ctrl_learn_init_deinit_cb (ex_learn ?d) = None" "True \<longrightarrow> \<not> fdb_locked (ex_learn ?d)"
    "is_ctrl_learn_start (ex_learn ?d)" "ctrl_learn_notification_cb (ex_learn ?d) = None" by (simp_all add: ex_learn_def)
  have hal: "\<forall>as w. length (fst (snd (hal_uc_mac_addr_set hal_stub OES_ACCESS_CMD_ADD (ctrl_learn_br_id (ex_learn ?d)) as w))) \<le> length as"
    by (simp add: hal_stub_def ctrl_learn_hal_fdb_uc_mac_addr_set_def)
  have mal: "\<forall>k w. fst (os_malloc (ex_malloc :: unit fdb_heap) k w) \<noteq> 0" by (simp add: ex_malloc_def)
  have sv: "served ?d OES_ACCESS_CMD_ADD Map.empty ?as = [ex_mac]"
    using ex_caller(6) [where 'w = unit] by (simp add: served_def admitted_def wanted_def)
  from learn_set_entries [OF db ex_outside st _ _ ok mal hal, of ex_env ex_notify "\<lambda>_. ex_mac" 0 "()"] obtain err failed db' t where
    r: "hal_answer (hal_stub :: unit ctrl_learn_hal) OES_ACCESS_CMD_ADD 0 [ex_mac] err failed"
      "ctrl_learn_api_fdb_uc_mac_addr_set ex_malloc hal_stub 24 0x5000 ex_env ex_notify (\<lambda>_. ex_mac) OES_ACCESS_CMD_ADD
        (Some ?as) (Some 2) 0 True (ex_learn ?d, ex_fdb_mem, ()) =
        Some (err, Some (failed @ drop (length failed) ?as), Some (of_nat (length failed)), t)"
      "leaves ex_zone ex_live 24 (ex_learn ?d) db' t" "set_outcome ?d OES_ACCESS_CMD_ADD ?as failed Map.empty db'"
    using ex_heads(2) sv by (auto simp: ex_learn_def)
  from r(1) have none: "err = 0" "failed = []"
    by (auto simp: hal_answer_def hal_stub_def ctrl_learn_hal_fdb_uc_mac_addr_set_def)
  have "db' (key_of (mac_addr_params ex_other_mac)) = None" "\<exists>p c. db' ex_key = Some (p, c, FDB_UC_AGEABLE)"
    using r(4) ex_params_facts(3) ex_other_facts(4) unfolding set_outcome_def sv none by (auto simp: wanted_def mac Let_def)
  with r(2,3) none show ?thesis by auto
qed

text \<open>C38:
  Events of the switch. A batch of entries that were learned or aged out, which the hardware layer accepts, is absorbed: the
  handler returns and the database is updated with the entries in the order of the batch. When the pool has
  fewer free records than there are learned entries in the batch, the last of these are left out, and only they. All
  other entries are treated alike: they are added when the last event of the batch is a learned entry, and deleted
  when it is an aged one, so a batch of one kind has the effect the events describe, and one of both kinds
  has not. The result is 0 when the last event is a learned entry; the lock is free again and the invariant holds.
  Conditions: the batch is not empty, has no flush event and at most 670 events, the size of the arrays of the handler;
  no callback for notifications (which could deny entries) or for cookies is registered. To add, the VLANs are below 4096, the filter pool has
  a list head for each port and each entry that can be there, and a batch that has aged entries, too, fits into the pool.
\<close>
theorem learn_events_absorbed:
  assumes "fdb z L sz (learn_db s) m es" and "outside z sz frame" and "ctrl_learn_init_deinit_cb s = None"
    and "\<not> fdb_locked s" and "ctrl_learn_notification_cb s = None"
    and "no_flush events" and "events \<noteq> []" and "length events \<le> CTRL_LEARN_FDB_NOTIFY_SIZE_MAX"
    and "absorbable (learn_db s) Q events (db_of m es)"
    and "\<forall>cmd as w. \<exists>w'. hal_uc_mac_addr_set hal cmd (ctrl_learn_br_id s) as w = (0, as, w')"
  shows "\<exists>err t. ctrl_learn_handle_oes_event os hal sz frame env stack events (length events) (s, m, w) = Some (err, t) \<and>
    (ev_type (last events) = OES_FDB_EVENT_LEARN \<longrightarrow> err = 0) \<and>
    leaves z L sz s (absorbed env (last_cmd OES_ACCESS_CMD_ADD events)
      (map ev_entry (admitted_events (learn_db s) (db_of m es) events)) (db_of m es)) t"
  using events_absorbed [OF assms(1-9)] assms(10) by blast

theorem learn_events_absorbed_witness:
  "\<exists>t. ctrl_learn_handle_oes_event ex_heap hal_stub 24 0x5000 ex_env ex_notify
      [ex_event OES_FDB_EVENT_LEARN, (ex_event OES_FDB_EVENT_LEARN)\<lparr>ev_entry := mac_addr_params ex_other_mac\<rparr>] 2
      (ex_learn ex_fdb, ex_fdb_mem, ()) = Some (0, t) \<and>
    leaves ex_zone ex_live 24 (ex_learn ex_fdb) [ex_key \<mapsto> (ex_params, 0, FDB_UC_AGEABLE)] t"
proof -
  let ?d = "ex_fdb :: unit fdb_state"
  let ?ev = "[ex_event OES_FDB_EVENT_LEARN, (ex_event OES_FDB_EVENT_LEARN)\<lparr>ev_entry := mac_addr_params ex_other_mac\<rparr>]"
  have ok: "absorbable (learn_db (ex_learn ?d)) {7} ?ev (db_of ex_fdb_mem [])"
    using ex_heads(1) [where 'w = unit] ex_heads(2) ex_params_facts ex_other_facts by (auto simp: absorbable_def ex_learn_def ex_event_def)
  have db: "fdb ex_zone ex_live 24 (learn_db (ex_learn ?d)) ex_fdb_mem []" by (simp add: ex_learn_def ex_fdb_ok)
  have st: "ctrl_learn_init_deinit_cb (ex_learn ?d) = None" "\<not> fdb_locked (ex_learn ?d)"
    "ctrl_learn_notification_cb (ex_learn ?d) = None" by (simp_all add: ex_learn_def)
  have ev: "no_flush ?ev" "?ev \<noteq> []" "length ?ev \<le> CTRL_LEARN_FDB_NOTIFY_SIZE_MAX"
    by (simp_all add: no_flush_def ex_event_def CTRL_LEARN_FDB_NOTIFY_SIZE_MAX_def)
  have hal: "\<forall>cmd as w. \<exists>w'. hal_uc_mac_addr_set hal_stub cmd (ctrl_learn_br_id (ex_learn ?d)) as w = (0, as, w')"
    by (simp add: hal_stub_def ctrl_learn_hal_fdb_uc_mac_addr_set_def)
  have adm: "admitted_events ?d Map.empty ?ev = [ex_event OES_FDB_EVENT_LEARN]"
    using ex_caller(6) [where 'w = unit] by (simp add: admitted_events_def ex_event_def)
  from learn_events_absorbed [OF db ex_outside st ev ok hal, of ex_heap ex_env ex_notify "()"] ex_heads(2) ex_params_facts(3) adm show ?thesis
    by (auto simp: absorbed_def last_cmd_def ex_event_def ex_learn_def learned_def ex_env_def ex_params_def numeral_2_eq_2)
qed

text \<open>
  When the hardware layer fails, a batch of entries that were learned or aged out leaves the database as it was, for all
  of its entries: the layer returns the entries that failed in the list of the approved ones, and the handler goes
  through that list and skips what failed. The entries that the hardware accepted are in the switch and not
  in the database, whatever the callbacks do.
\<close>
theorem learn_hal_failure_loses:
  assumes "no_flush events" and "length events \<le> CTRL_LEARN_FDB_NOTIFY_SIZE_MAX"
    and "\<forall>cmd as w. fst (hal_uc_mac_addr_set hal cmd (ctrl_learn_br_id s) as w) \<noteq> 0"
  shows "\<exists>err w'. ctrl_learn_handle_oes_event os hal sz frame env stack events (length events) (s, m, w) = Some (err, s, m, w')"
  by (rule events_lost [OF assms(1,2)]) (use assms(3) in blast)

theorem learn_hal_failure_loses_witness:
  "\<exists>err. ctrl_learn_handle_oes_event ex_heap \<lparr>hal_uc_mac_addr_set = (\<lambda>_ _ as w. (- EXFULL, drop 1 as, w)), hal_notify_params_set = (\<lambda>_ _. Pair 0)\<rparr>
      24 0x5000 ex_env ex_notify [ex_event OES_FDB_EVENT_LEARN, ex_event OES_FDB_EVENT_AGE] 2 (ex_learn ex_fdb, ex_fdb_mem, ()) =
    Some (err, ex_learn ex_fdb, ex_fdb_mem, ())"
proof -
  have "no_flush [ex_event OES_FDB_EVENT_LEARN, ex_event OES_FDB_EVENT_AGE]"
    "length [ex_event OES_FDB_EVENT_LEARN, ex_event OES_FDB_EVENT_AGE] \<le> CTRL_LEARN_FDB_NOTIFY_SIZE_MAX"
    by (simp_all add: no_flush_def ex_event_def CTRL_LEARN_FDB_NOTIFY_SIZE_MAX_def)
  from learn_hal_failure_loses [OF this, of "\<lparr>hal_uc_mac_addr_set = (\<lambda>_ _ as w. (- EXFULL, drop 1 as, w)), hal_notify_params_set = (\<lambda>_ _. Pair 0)\<rparr>"
      "ex_learn ex_fdb" ex_heap 24 "0x5000" ex_env ex_notify ex_fdb_mem "()"] show ?thesis by (simp add: EXFULL_def numeral_2_eq_2)
qed

text \<open>C39:
  Flushing. When the switch reports a flush, of everything or by VLAN, by port or by both, the handler of the events
  returns 0, and the database has lost exactly the entries that match and are not static. If a callback
  for cookies is registered, it was told to release the cookie of each entry that went, once each, and was not called for any other
  entry, whatever it answers. The lock is free again and the invariant holds. Conditions: the event is the only one of
  its batch and no callback for notifications is registered; a flush by VLAN alone names a VLAN below 4096; the ports
  of the entries and of the event are below \<open>2 ^ 32\<close>, since the keys of the lists mix the upper half of a port
  with the VLAN.
\<close>
theorem learn_flush:
  assumes "fdb z L sz (learn_db s) m es" and "\<not> fdb_locked s" and "ctrl_learn_notification_cb s = None" and "flush_event e"
    and "ev_type e = OES_FDB_EVENT_FLUSH_VID \<longrightarrow> unat (vid (ev_entry e)) < MAX_VLAN_ENTRIES"
    and "\<forall>x\<in>set es. log_port (mac_params m x) < 2 ^ 32" and "log_port (ev_entry e) < 2 ^ 32"
  shows "\<exists>d m' es' xs. distinct xs \<and> set xs = {x \<in> set es. flush_match (event_filter e) (record_at m x)} \<and>
    ctrl_learn_handle_oes_event os hal sz frame env stack [e] 1 (s, m, w) =
      Some (0, s\<lparr>learn_db := d\<rparr>, m', cookie_calls s (map (entry_cookie m) xs) w) \<and>
    fdb z L sz d m' es' \<and> db_of m' es' = flushed (flush_match (event_filter e)) (db_of m es)"
  using handle_flush [OF assms(1-4) _ _ assms(7), of w os hal frame env stack] assms(5,6) unfolding flushes_def by blast

theorem learn_flush_witness:
  "\<exists>d m d' m' es'. ctrl_learn_handle_oes_event ex_heap hal_stub 24 0x5000 ex_env ex_notify [ex_event OES_FDB_EVENT_FLUSH_VID] 1
      ((ex_learn d)\<lparr>ctrl_learn_init_deinit_cb := Some ex_cookie_cb\<rparr>, m, []) =
      Some (0, (ex_learn d')\<lparr>ctrl_learn_init_deinit_cb := Some ex_cookie_cb\<rparr>, m', [9]) \<and>
    fdb_uc_db_get_record_by_key d ex_key m \<noteq> Some (- ENOENT, 0) \<and>
    fdb ex_zone ex_live 24 d' m' es' \<and> db_of m' es' = Map.empty"
proof -
  let ?e = "ex_event OES_FDB_EVENT_FLUSH_VID"
  obtain d :: "u64 list fdb_state" and m e where
    one: "fdb ex_zone ex_live 24 d m [e]" "db_of m [e] = [ex_key \<mapsto> ex_record]" using ex_fdb_one by blast
  note rec = ex_one_record [OF one(2)]
  let ?s = "(ex_learn d)\<lparr>ctrl_learn_init_deinit_cb := Some ex_cookie_cb\<rparr>"
  have db: "fdb ex_zone ex_live 24 (learn_db ?s) m [e]" "\<not> fdb_locked ?s" "ctrl_learn_notification_cb ?s = None"
    using one(1) by (simp_all add: ex_learn_def)
  have f: "flush_event ?e" "ev_type ?e = OES_FDB_EVENT_FLUSH_VID \<longrightarrow> unat (vid (ev_entry ?e)) < MAX_VLAN_ENTRIES"
    "\<forall>x\<in>set [e]. log_port (mac_params m x) < 2 ^ 32" "log_port (ev_entry ?e) < 2 ^ 32"
    using rec by (simp_all add: ex_event_def flush_event_def ex_params_def MAX_VLAN_ENTRIES_def)
  have match: "flush_match (event_filter ?e) ex_record"
    by (simp add: flush_match_def event_filter_def ex_event_def no_filter_def ex_record_def ex_params_def)
  then have gone: "flushed (flush_match (event_filter ?e)) [ex_key \<mapsto> ex_record] = Map.empty"
    by (simp add: flushed_def fun_eq_iff)
  have "record_at m e = ex_record" using rec by (simp add: record_at_def ex_record_def)
  then have sel: "{x \<in> set [e]. flush_match (event_filter ?e) (record_at m x)} = {e}" using match by auto
  from learn_flush [OF db f, of ex_heap hal_stub "0x5000" ex_env ex_notify "[]"] obtain d' m' es' xs where
    r: "distinct xs" "set xs = {e}" "ctrl_learn_handle_oes_event ex_heap hal_stub 24 0x5000 ex_env ex_notify [?e] 1 (?s, m, []) =
        Some (0, ?s\<lparr>learn_db := d'\<rparr>, m', cookie_calls ?s (map (entry_cookie m) xs) [])"
      "fdb ex_zone ex_live 24 d' m' es'" "db_of m' es' = Map.empty" unfolding sel one(2) gone by blast
  have "xs = [e]" using r(1,2) by (cases xs; cases "tl xs") auto
  then have "cookie_calls ?s (map (entry_cookie m) xs) [] = [9]" using rec by (simp add: cookie_calls_def ex_cookie_cb_def)
  moreover have "?s\<lparr>learn_db := d'\<rparr> = (ex_learn d')\<lparr>ctrl_learn_init_deinit_cb := Some ex_cookie_cb\<rparr>" by (simp add: ex_learn_def)
  moreover have "entries ex_zone ex_live 24 d m [e]" using one(1) by (simp add: fdb_def)
  then have "fdb_uc_db_get_record_by_key d ex_key m \<noteq> Some (- ENOENT, 0)"
    using fdb_lookup [of ex_zone ex_live 24 d m "[e]" ex_key] one(2) by (auto simp: ENOENT_def)
  ultimately show ?thesis using r(3-5)
    by (intro exI [of _ d] exI [of _ m] exI [of _ d'] exI [of _ m'] exI [of _ es']) simp
qed

text \<open>C40:
  Reading entries in pages. There is an order of the entries that match the filter (all entries without a filter), each once,
  such that \<^verbatim>\<open>GET_FIRST\<close> returns the first entries of it, as many as fit in the caller's array, and \<^verbatim>\<open>GET_NEXT\<close>
  those that follow the entry the caller names; the rest of the array stays as it was. When there is
  none the result is \<^verbatim>\<open>-ENOENT\<close> and the array is not written. Neither call changes the state, and the lock is free again.
\<close>
theorem learn_read_pages:
  assumes "fdb z L sz (learn_db s) m es" and "is_ctrl_learn_initialized s" and "fdb_lock \<longrightarrow> \<not> fdb_locked s"
    and "n \<noteq> 0" and "unat n \<le> length ml" and "\<not> (filter_by_vid f \<and> VID_MAX < filter_vid f)"
    and "\<forall>e\<in>set es. log_port (mac_params m e) < 2 ^ 32" and "filter_log_port f < 2 ^ 32"
  shows "\<exists>xs. distinct xs \<and> set xs = {e \<in> set es. matches m f e} \<and>
    ctrl_learn_api_uc_mac_addr_get sz env OES_ACCESS_CMD_GET_FIRST (Some f) ml (Some n) fdb_lock (s, m, w) =
      (case page m ml n xs of (err, l, k) \<Rightarrow> Some (err, l, k, s, m, w)) \<and>
    (\<forall>us e vs a as. xs = us @ e # vs \<and> ml = a # as \<and> key_of (mac_addr_params a) = entry_key m e \<longrightarrow>
      ctrl_learn_api_uc_mac_addr_get sz env OES_ACCESS_CMD_GET_NEXT (Some f) ml (Some n) fdb_lock (s, m, w) =
        (case page m ml n vs of (err, l, k) \<Rightarrow> Some (err, l, k, s, m, w)))"
proof -
  obtain c xs where xs: "read_order sz f c (learn_db s) m xs" "distinct xs" "set xs = {e \<in> set es. matches m f e}"
    using read_orders [OF assms(1,6,8)] assms(7) by blast
  note get = mac_addr_get [OF assms(2,4,6,3)]
  have "ctrl_learn_api_uc_mac_addr_get sz env OES_ACCESS_CMD_GET_FIRST (Some f) ml (Some n) fdb_lock (s, m, w) =
      (case page m ml n xs of (err, l, k) \<Rightarrow> Some (err, l, k, s, m, w))"
    using get [of sz env OES_ACCESS_CMD_GET_FIRST ml m] read_first [OF xs(1) assms(4,5)] by (auto split: prod.split)
  moreover have "ctrl_learn_api_uc_mac_addr_get sz env OES_ACCESS_CMD_GET_NEXT (Some f) ml (Some n) fdb_lock (s, m, w) =
        (case page m ml n vs of (err, l, k) \<Rightarrow> Some (err, l, k, s, m, w))"
    if "xs = us @ e # vs" "ml = a # as" "key_of (mac_addr_params a) = entry_key m e" for us e vs a as
  proof -
    have "fdb_uc_db_get_record_by_key (learn_db s) (key_of (mac_addr_params a)) m = Some (0, e)"
      unfolding that(3) by (rule key_found [OF assms(1)]) (use xs(3) that(1) in auto)
    from read_next [OF xs(1) [unfolded that(1)] assms(4,5) that(2) this [unfolded key_of_def]] show ?thesis
      using get [of sz env OES_ACCESS_CMD_GET_NEXT ml m] by (auto split: prod.split)
  qed
  ultimately show ?thesis using xs(2,3) by blast
qed

theorem learn_read_pages_witness:
  "\<exists>d m e. ctrl_learn_api_uc_mac_addr_get 24 ex_env OES_ACCESS_CMD_GET_FIRST
      (Some \<lparr>filter_by_vid = False, filter_vid = 0, filter_by_log_port = True, filter_log_port = 7\<rparr>) [ex_mac, ex_mac] (Some 2) True
      (ex_learn d, m, ()) = Some (0, [copy_record m e, ex_mac], 1, ex_learn d, m, ()) \<and> mac_params m e = ex_params"
proof -
  let ?f = "\<lparr>filter_by_vid = False, filter_vid = 0, filter_by_log_port = True, filter_log_port = 7\<rparr>"
  obtain d :: "unit fdb_state" and m e where
    one: "fdb ex_zone ex_live 24 d m [e]" "db_of m [e] = [ex_key \<mapsto> ex_record]" using ex_fdb_one by blast
  note rec = ex_one_record [OF one(2)]
  have db: "fdb ex_zone ex_live 24 (learn_db (ex_learn d)) m [e]" "is_ctrl_learn_initialized (ex_learn d)"
    "True \<longrightarrow> \<not> fdb_locked (ex_learn d)" "(2 :: u16) \<noteq> 0" "unat (2 :: u16) \<le> length [ex_mac, ex_mac]"
    "\<not> (filter_by_vid ?f \<and> VID_MAX < filter_vid ?f)" "\<forall>x\<in>set [e]. log_port (mac_params m x) < 2 ^ 32" "filter_log_port ?f < 2 ^ 32"
    using one(1) rec by (simp_all add: ex_learn_def ex_params_def)
  have A: "{x \<in> set [e]. matches m ?f x} = {e}" using rec by (auto simp: matches_def ex_params_def)
  from learn_read_pages [OF db, of ex_env "()"] obtain xs where
    xs: "distinct xs" "set xs = {e}" "ctrl_learn_api_uc_mac_addr_get 24 ex_env OES_ACCESS_CMD_GET_FIRST (Some ?f) [ex_mac, ex_mac] (Some 2) True
      (ex_learn d, m, ()) = (case page m [ex_mac, ex_mac] 2 xs of (err, l, k) \<Rightarrow> Some (err, l, k, ex_learn d, m, ()))"
    unfolding A by blast
  have "xs = [e]" using xs(1,2) by (cases xs; cases "tl xs") auto
  then have "page m [ex_mac, ex_mac] 2 xs = (0, [copy_record m e, ex_mac], 1)" by (simp add: page_def)
  with xs(3) rec show ?thesis by (intro exI [of _ d] exI [of _ m] exI [of _ e]) simp
qed

end
